(* ===== verification/Prelude.thy ===== *)
theory Prelude
  imports Main "HOL-Library.Word" "HOL-Library.Char_ord" "HOL-Library.Sublist"
begin

text \<open>
  Shared vocabulary of the development: the error values that stand for the exceptions and the
  assertions of the library, sequencing of fallible computations, and the part of
  \<open>std::string\<close> (\<open>find\<close>, \<open>rfind\<close>, \<open>substr\<close>, \<open>erase\<close>) the components use.
\<close>

named_theorems state_defs \<open>definitions of state operations, unfolded by the component proofs\<close>
named_theorems preserves \<open>invariant preservation, one fact per operation\<close>

section \<open>Errors as values\<close>

text \<open>
  One constructor per exception class the modelled code throws.  \<open>InvalidDataFormat\<close> carries
  the component and the reason of the message.  \<open>BadAlloc\<close> is \<open>std::bad_alloc\<close>.
  \<open>AssertFailed\<close> stands for a failing \<open>BL_ASSERT\<close> / \<open>BL_VERIFY\<close> (a debug build stops
  there) and for dereferencing a null pointer, and \<open>RtAbort\<close> for
  \<open>BL_RT_ASSERT\<close> and \<open>BL_RIP_MSG\<close>, which end the process in every build.
  \<open>UndefinedBehaviour\<close> stands for an access outside of a buffer.
\<close>

datatype exc =
    InvalidDataFormat string string
  | ArgumentExc
  | UnexpectedExc
  | NotFoundExc
  | BufferTooSmall
  | NumberCoerce
  | BadAlloc
  | SecurityExc
  | AssertFailed
  | UndefinedBehaviour
  | RtAbort

type_synonym 'a res = "exc + 'a"

definition bindR :: "'a res \<Rightarrow> ('a \<Rightarrow> 'b res) \<Rightarrow> 'b res" where
  "bindR m f = (case m of Inl e \<Rightarrow> Inl e | Inr a \<Rightarrow> f a)"

lemma bindR_simps [simp]:
  "bindR (Inl e) f = Inl e"
  "bindR (Inr a) f = f a"
  by (simp_all add: bindR_def)

lemma bindR_eq_Inr: "bindR m f = Inr b \<longleftrightarrow> (\<exists>a. m = Inr a \<and> f a = Inr b)"
  by (cases m) auto

lemma bindR_eq_Inl: "bindR m f = Inl e \<longleftrightarrow> m = Inl e \<or> (\<exists>a. m = Inr a \<and> f a = Inl e)"
  by (cases m) auto

lemma bindR_cong [fundef_cong]:
  "m = m' \<Longrightarrow> (\<And>a. m' = Inr a \<Longrightarrow> f a = g a) \<Longrightarrow> bindR m f = bindR m' g"
  by (cases m') simp_all

definition chkR :: "bool \<Rightarrow> exc \<Rightarrow> unit res" where
  "chkR ok e = (if ok then Inr () else Inl e)"

lemma chkR_simps [simp]:
  "chkR True e = Inr ()"
  "chkR False e = Inl e"
  "chkR b e = Inr () \<longleftrightarrow> b"
  "chkR b e = Inl e' \<longleftrightarrow> \<not> b \<and> e' = e"
  by (auto simp: chkR_def)

section \<open>Strings\<close>

text \<open>\<open>std::string::find( char )\<close>; \<open>npos\<close> is \<^term>\<open>None\<close>.\<close>

fun find_char :: "char \<Rightarrow> string \<Rightarrow> nat option" where
  "find_char c [] = None"
| "find_char c (x # xs) = (if x = c then Some 0 else map_option Suc (find_char c xs))"

text \<open>\<open>std::string::find( char, pos )\<close>.\<close>

definition find_char_from :: "char \<Rightarrow> nat \<Rightarrow> string \<Rightarrow> nat option" where
  "find_char_from c pos s = map_option ((+) pos) (find_char c (drop pos s))"

text \<open>\<open>std::string::rfind( char )\<close>.\<close>

definition rfind_char :: "char \<Rightarrow> string \<Rightarrow> nat option" where
  "rfind_char c s = map_option (\<lambda>k. length s - 1 - k) (find_char c (rev s))"

text \<open>\<open>std::string::find( text )\<close>.\<close>

fun find_sub :: "string \<Rightarrow> string \<Rightarrow> nat option" where
  "find_sub p [] = (if p = [] then Some 0 else None)"
| "find_sub p (x # xs) =
     (if prefix p (x # xs) then Some 0 else map_option Suc (find_sub p xs))"

definition find_sub_from :: "string \<Rightarrow> nat \<Rightarrow> string \<Rightarrow> nat option" where
  "find_sub_from p pos s = map_option ((+) pos) (find_sub p (drop pos s))"

lemma find_char_None_iff: "find_char c s = None \<longleftrightarrow> c \<notin> set s"
  by (induction s) auto

lemma find_char_notin [simp]: "c \<notin> set s \<Longrightarrow> find_char c s = None"
  by (simp add: find_char_None_iff)

lemma find_char_append:
  "c \<notin> set ys \<Longrightarrow> find_char c (ys @ zs) = map_option ((+) (length ys)) (find_char c zs)"
  by (cases "find_char c zs"; induction ys) auto

lemma find_char_at [simp]: "c \<notin> set ys \<Longrightarrow> find_char c (ys @ c # zs) = Some (length ys)"
  by (simp add: find_char_append)

lemma find_char_SomeD:
  "find_char c s = Some n \<Longrightarrow>
     n < length s \<and> s = take n s @ c # drop (Suc n) s \<and> c \<notin> set (take n s)"
proof (induction s arbitrary: n)
  case Nil
  then show ?case by simp
next
  case (Cons x xs)
  then show ?case by (auto split: if_splits)
qed

lemma find_char_SomeE:
  assumes "find_char c s = Some n"
  obtains ys zs where "s = ys @ c # zs" "c \<notin> set ys" "n = length ys"
    "take n s = ys" "drop (Suc n) s = zs" "drop n s = c # zs"
proof (rule that)
  note d = find_char_SomeD [OF assms]
  show "s = take n s @ c # drop (Suc n) s" "c \<notin> set (take n s)"
    using d by blast+
  show "n = length (take n s)" using d by simp
  show "drop n s = c # drop (Suc n) s"
    using d by (metis append_eq_conv_conj length_take less_or_eq_imp_le min.absorb2)
qed simp_all

lemma rfind_char_None_iff: "rfind_char c s = None \<longleftrightarrow> c \<notin> set s"
  by (simp add: rfind_char_def find_char_None_iff)

lemma rfind_char_at [simp]:
  "c \<notin> set zs \<Longrightarrow> rfind_char c (ys @ c # zs) = Some (length ys)"
  by (simp add: rfind_char_def)

lemma rfind_char_SomeE:
  assumes "rfind_char c s = Some n"
  obtains ys zs where "s = ys @ c # zs" "c \<notin> set zs" "n = length ys"
    "take n s = ys" "take (Suc n) s = ys @ [c]"
proof -
  from assms have "c \<in> set s" by (metis option.distinct(1) rfind_char_None_iff)
  then obtain ys zs where s: "s = ys @ c # zs" "c \<notin> set zs"
    by (meson split_list_last)
  with assms have "n = length ys" by simp
  with s show thesis by (intro that [of ys zs]) simp_all
qed

lemma find_sub_Some:
  "find_sub p s = Some n \<longleftrightarrow> n \<le> length s \<and> prefix p (drop n s) \<and> (\<forall>m<n. \<not> prefix p (drop m s))"
proof (induction s arbitrary: n)
  case (Cons x xs)
  show ?case
    by (cases n) (auto simp: Cons.IH less_Suc_eq_0_disj)
qed auto

lemma prefix_drop_append:
  assumes "n + length p \<le> length a"
  shows "prefix p (drop n (a @ b)) \<longleftrightarrow> prefix p (drop n a)"
proof -
  have "drop n (a @ b) = drop n a @ b" "length p \<le> length (drop n a)" using assms by simp_all
  then show ?thesis by (metis prefix_prefix append_prefixD prefix_length_prefix prefixI)
qed

lemma find_sub_bound: "find_sub p s = Some n \<Longrightarrow> n + length p \<le> length s"
  by (auto simp: find_sub_Some dest: prefix_length_le)

section \<open>Decimal printing\<close>

text \<open>\<open>std::to_string( unsigned )\<close>.\<close>

fun dec_string :: "nat \<Rightarrow> string" where
  "dec_string n =
     (if n < 10 then [char_of (48 + n)] else dec_string (n div 10) @ [char_of (48 + n mod 10)])"

declare dec_string.simps [simp del]

lemma dec_string_not_Nil [simp]: "dec_string n \<noteq> []"
  by (simp add: dec_string.simps [of n])

end
