(* ===== verification/UriSyntax.thy ===== *)
theory UriSyntax
  imports Prelude
begin

unbundle bit_operations_syntax

text \<open>
  The lexical layer of \<open>core/Uri.h\<close>: the RFC 3986 character classes, the percent-encoding
  normalization of one component (\<open>normalizeComponent\<close>), the scheme rule and the grammar of IP
  literals.  Characters are bytes; the comparisons of the source are those of unsigned bytes
  (every comparison of the source is against an ASCII range, so the signedness of \<open>char\<close> does
  not matter).
\<close>

section \<open>Character classes\<close>

definition isAlpha :: "char \<Rightarrow> bool" where
  "isAlpha ch \<longleftrightarrow> (ch \<ge> CHR ''a'' \<and> ch \<le> CHR ''z'') \<or> (ch \<ge> CHR ''A'' \<and> ch \<le> CHR ''Z'')"

definition isDigit :: "char \<Rightarrow> bool" where
  "isDigit ch \<longleftrightarrow> ch \<ge> CHR ''0'' \<and> ch \<le> CHR ''9''"

definition isHexDigit :: "char \<Rightarrow> bool" where
  "isHexDigit ch \<longleftrightarrow> isDigit ch \<or> (ch \<ge> CHR ''a'' \<and> ch \<le> CHR ''f'')
     \<or> (ch \<ge> CHR ''A'' \<and> ch \<le> CHR ''F'')"

definition isUnreserved :: "char \<Rightarrow> bool" where
  "isUnreserved ch \<longleftrightarrow> isAlpha ch \<or> isDigit ch \<or>
     CHR ''-'' = ch \<or> CHR ''.'' = ch \<or> CHR ''_'' = ch \<or> CHR ''~'' = ch"

definition isSubDelim :: "char \<Rightarrow> bool" where
  "isSubDelim ch \<longleftrightarrow>
     CHR ''!'' = ch \<or> CHR ''$'' = ch \<or> CHR ''&'' = ch \<or> CHR 0x27 = ch \<or>
     CHR ''('' = ch \<or> CHR '')'' = ch \<or> CHR ''*'' = ch \<or> CHR ''+'' = ch \<or>
     CHR '','' = ch \<or> CHR '';'' = ch \<or> CHR ''='' = ch"

definition isUserInfoChar :: "char \<Rightarrow> bool" where
  "isUserInfoChar ch \<longleftrightarrow> isUnreserved ch \<or> isSubDelim ch \<or> CHR '':'' = ch"

definition isRegNameChar :: "char \<Rightarrow> bool" where
  "isRegNameChar ch \<longleftrightarrow> isUnreserved ch \<or> isSubDelim ch"

definition isPathChar :: "char \<Rightarrow> bool" where
  "isPathChar ch \<longleftrightarrow> isUnreserved ch \<or> isSubDelim ch \<or> CHR '':'' = ch \<or> CHR ''@'' = ch
     \<or> CHR ''/'' = ch"

definition isQueryOrFragmentChar :: "char \<Rightarrow> bool" where
  "isQueryOrFragmentChar ch \<longleftrightarrow> isPathChar ch \<or> CHR ''?'' = ch"

text \<open>\<open>static_cast< unsigned >( c - d )\<close>: the difference as a 32-bit unsigned.\<close>

definition charDiff :: "char \<Rightarrow> char \<Rightarrow> 32 word" where
  "charDiff c d = word_of_int (int (of_char c) - int (of_char d))"

definition hexValue :: "char \<Rightarrow> 32 word" where
  "hexValue ch =
     (if ch \<ge> CHR ''0'' \<and> ch \<le> CHR ''9'' then charDiff ch CHR ''0''
      else if ch \<ge> CHR ''a'' \<and> ch \<le> CHR ''f'' then charDiff ch CHR ''a'' + 10
      else charDiff ch CHR ''A'' + 10)"

definition hexDigit :: "32 word \<Rightarrow> char" where
  "hexDigit value = char_of (unat (if value < 10 then 48 + value else 65 + (value - 10)))"

definition toLowerAscii :: "char \<Rightarrow> char" where
  "toLowerAscii ch =
     (if ch \<ge> CHR ''A'' \<and> ch \<le> CHR ''Z''
      then char_of (of_char ch - 65 + 97 :: nat) else ch)"

section \<open>The checks on one component\<close>

fun chkStrictCharacters :: "string \<Rightarrow> unit res" where
  "chkStrictCharacters [] = Inr ()"
| "chkStrictCharacters (ch # rest) =
     (if of_char ch \<ge> (0x80 :: nat) then
        Inl (InvalidDataFormat ''reference'' ''contains a non-ASCII byte'')
      else if of_char ch \<le> (0x1F :: nat) \<or> of_char ch = (0x7F :: nat) then
        Inl (InvalidDataFormat ''reference'' ''contains a control character'')
      else if CHR '' '' = ch then
        Inl (InvalidDataFormat ''reference'' ''contains a space'')
      else if CHR 0x5C = ch then
        Inl (InvalidDataFormat ''reference'' ''contains a backslash'')
      else chkStrictCharacters rest)"

text \<open>
  The loop of \<open>normalizeComponent\<close>; the argument is what is left of the value at position
  \<open>pos\<close>, the result what the rest of the loop appends to \<open>result\<close>.
\<close>

fun normalizeComponent ::
  "(char \<Rightarrow> bool) \<Rightarrow> string \<Rightarrow> bool \<Rightarrow> string \<Rightarrow> string res" where
  "normalizeComponent isAllowed component toLowerCase [] = Inr []"
| "normalizeComponent isAllowed component toLowerCase (ch # rest) =
     (if CHR ''%'' \<noteq> ch then
        (if \<not> isAllowed ch then
           Inl (InvalidDataFormat component ''contains a character which is not allowed in it'')
         else
           bindR (normalizeComponent isAllowed component toLowerCase rest)
             (\<lambda>r. Inr ((if toLowerCase then toLowerAscii ch else ch) # r)))
      else
        (case rest of
           h1 # h2 # rest' \<Rightarrow>
             (if \<not> isHexDigit h1 \<or> \<not> isHexDigit h2 then
                Inl (InvalidDataFormat component ''contains a malformed percent-encoded octet'')
              else
                let octet = push_bit 4 (hexValue h1) OR hexValue h2;
                    decoded = char_of (unat octet) :: char
                in bindR (normalizeComponent isAllowed component toLowerCase rest')
                     (\<lambda>r. Inr
                       (if isUnreserved decoded then
                          (if toLowerCase then toLowerAscii decoded else decoded) # r
                        else
                          CHR ''%'' # hexDigit (drop_bit 4 octet AND 0x0F)
                            # hexDigit (octet AND 0x0F) # r)))
         | _ \<Rightarrow>
             Inl (InvalidDataFormat component ''contains a malformed percent-encoded octet'')))"

definition isSchemeTail :: "char \<Rightarrow> bool" where
  "isSchemeTail ch \<longleftrightarrow> isAlpha ch \<or> isDigit ch \<or> CHR ''+'' = ch \<or> CHR ''-'' = ch \<or> CHR ''.'' = ch"

definition isValidScheme :: "string \<Rightarrow> bool" where
  "isValidScheme scheme =
     (case scheme of [] \<Rightarrow> False | c # cs \<Rightarrow> isAlpha c \<and> list_all isSchemeTail cs)"

section \<open>IP literals\<close>

fun decOctetLoop :: "32 word \<Rightarrow> string \<Rightarrow> bool" where
  "decOctetLoop value [] = (value \<le> 255)"
| "decOctetLoop value (c # cs) =
     (if \<not> isDigit c then False else decOctetLoop (value * 10 + charDiff c CHR ''0'') cs)"

definition isDecOctet :: "string \<Rightarrow> bool" where
  "isDecOctet token =
     (if token = [] \<or> length token > 3 then False
      else if length token > 1 \<and> CHR ''0'' = token ! 0 then False
      else decOctetLoop 0 token)"

lemma find_char_drop_less [termination_simp]:
  "find_char c s = Some n \<Longrightarrow> length s - Suc n < length s"
  by (drule find_char_SomeD) auto

text \<open>
  The loops over the separators keep what is left of the text (\<open>token.substr( pos )\<close>) and the
  running count.
\<close>

fun ipv4Loop :: "nat \<Rightarrow> string \<Rightarrow> bool" where
  "ipv4Loop count rest =
     (let next = find_char CHR ''.'' rest;
          octet = (case next of None \<Rightarrow> rest | Some n \<Rightarrow> take n rest)
      in if \<not> isDecOctet octet then False
         else (case next of
                 None \<Rightarrow> 4 = Suc count
               | Some n \<Rightarrow> ipv4Loop (Suc count) (drop (Suc n) rest)))"

declare ipv4Loop.simps [simp del]

definition isIpv4Address :: "string \<Rightarrow> bool" where
  "isIpv4Address token = ipv4Loop 0 token"

definition isIpv6Group :: "string \<Rightarrow> bool" where
  "isIpv6Group token =
     (if token = [] \<or> length token > 4 then False else list_all isHexDigit token)"

fun ipv6Loop :: "bool \<Rightarrow> nat \<Rightarrow> string \<Rightarrow> nat option" where
  "ipv6Loop allowIpv4Tail count rest =
     (let next = find_char CHR '':'' rest;
          token = (case next of None \<Rightarrow> rest | Some n \<Rightarrow> take n rest)
      in if next = None \<and> allowIpv4Tail \<and> find_char CHR ''.'' token \<noteq> None then
           (if \<not> isIpv4Address token then None else Some (count + 2))
         else if \<not> isIpv6Group token then None
         else (case next of
                 None \<Rightarrow> Some (count + 1)
               | Some n \<Rightarrow> ipv6Loop allowIpv4Tail (count + 1) (drop (Suc n) rest)))"

declare ipv6Loop.simps [simp del]

text \<open>\<open>npos\<close>, the result for a text that is not a sequence of groups, is \<^term>\<open>None\<close>.\<close>

definition countIpv6Groups :: "string \<Rightarrow> bool \<Rightarrow> nat option" where
  "countIpv6Groups piece allowIpv4Tail =
     (if piece = [] then Some 0 else ipv6Loop allowIpv4Tail 0 piece)"

definition chkIpv6Address :: "string \<Rightarrow> unit res" where
  "chkIpv6Address address =
     (case find_sub ''::'' address of
        None \<Rightarrow>
          chkR (countIpv6Groups address True = Some 8)
            (InvalidDataFormat ''host'' ''is not a valid IPv6 address'')
      | Some doubleColon \<Rightarrow>
          (if find_sub_from ''::'' (doubleColon + 1) address \<noteq> None then
             Inl (InvalidDataFormat ''host''
               ''is not a valid IPv6 address - it has more than one double colon'')
           else
             (case (countIpv6Groups (take doubleColon address) False,
                    countIpv6Groups (drop (doubleColon + 2) address) True) of
                (Some head, Some tail) \<Rightarrow>
                  chkR (\<not> head + tail > 7)
                    (InvalidDataFormat ''host'' ''is not a valid IPv6 address'')
              | _ \<Rightarrow> Inl (InvalidDataFormat ''host'' ''is not a valid IPv6 address''))))"

definition chkIpvFuture :: "string \<Rightarrow> unit res" where
  "chkIpvFuture literal =
     (let digits = takeWhile isHexDigit (drop 1 literal);
          rest = dropWhile isHexDigit (drop 1 literal);
          bad = Inl (InvalidDataFormat ''host'' ''is not a valid IPvFuture literal'')
      in case rest of
           [] \<Rightarrow> bad
         | c # tail \<Rightarrow>
             (if digits = [] \<or> CHR ''.'' \<noteq> c then bad
              else if tail = [] then bad
              else if list_ex
                   (\<lambda>ch. \<not> isUnreserved ch \<and> \<not> isSubDelim ch \<and> CHR '':'' \<noteq> ch) tail
                then bad
              else Inr ()))"

definition chkIpLiteral :: "string \<Rightarrow> unit res" where
  "chkIpLiteral literal =
     (case literal of
        [] \<Rightarrow> Inl (InvalidDataFormat ''host'' ''is an empty IP literal'')
      | c # _ \<Rightarrow>
          (if CHR ''v'' = c \<or> CHR ''V'' = c then chkIpvFuture literal
           else chkIpv6Address literal))"

end
