(* ===== verification/Uri.thy ===== *)
theory Uri
  imports UriSyntax
begin

text \<open>
  The class \<open>UriT\<close> of \<open>core/Uri.h\<close>: its state, the parser, reference resolution and the
  renderings.  The two string algorithms the class takes from Boost (\<open>str::to_lower_copy\<close> and
  \<open>str::starts_with\<close>, re-exported by \<open>core/StringUtils.h\<close>) are a parameter, the record
  \<open>boost\<close>; what the code relies on is the locale \<open>boost_strings\<close>.
\<close>

section \<open>The string algorithms of Boost\<close>

record boost =
  to_lower_copy :: "string \<Rightarrow> string"
  starts_with :: "string \<Rightarrow> string \<Rightarrow> bool"

definition is_ascii :: "string \<Rightarrow> bool" where
  "is_ascii s \<longleftrightarrow> list_all (\<lambda>c. of_char c < (0x80 :: nat)) s"

locale boost_strings =
  fixes B :: boost
  assumes to_lower_ascii: "is_ascii s \<Longrightarrow> to_lower_copy B s = map toLowerAscii s"
    and starts_with_prefix: "starts_with B s p \<longleftrightarrow> prefix p s"

text \<open>An instance with the documented behaviour, used to evaluate the model.\<close>

definition reference_boost :: boost where
  "reference_boost = \<lparr>to_lower_copy = map toLowerAscii, starts_with = (\<lambda>s p. prefix p s)\<rparr>"

interpretation refb: boost_strings reference_boost
  by unfold_locales (simp_all add: reference_boost_def)

section \<open>The state of a URI reference\<close>

record uri =
  m_scheme :: string
  m_userInfo :: string
  m_host :: string
  m_path :: string
  m_query :: string
  m_fragment :: string
  m_port :: "16 word"
  m_hasAuthority :: bool
  m_hasUserInfo :: bool
  m_hasPort :: bool
  m_hasQuery :: bool
  m_hasFragment :: bool
  m_isIpLiteral :: bool

definition empty_uri :: uri where
  "empty_uri = \<lparr>m_scheme = [], m_userInfo = [], m_host = [], m_path = [], m_query = [],
     m_fragment = [], m_port = 0, m_hasAuthority = False, m_hasUserInfo = False,
     m_hasPort = False, m_hasQuery = False, m_hasFragment = False, m_isIpLiteral = False\<rparr>"

section \<open>Dot segments (RFC 3986 section 5.2.4)\<close>

definition removeLastSegment :: "string \<Rightarrow> string" where
  "removeLastSegment outp =
     (case rfind_char CHR ''/'' outp of None \<Rightarrow> [] | Some pos \<Rightarrow> take pos outp)"

lemma find_char_from_progress:
  assumes "inp \<noteq> []"
    and "find_char_from CHR ''/'' (if CHR ''/'' = inp ! 0 then 1 else 0) inp = Some n"
  shows "0 < n"
proof (cases inp)
  case Nil
  with assms show ?thesis by simp
next
  case (Cons x xs)
  with assms show ?thesis
    by (auto simp: find_char_from_def split: if_splits)
qed

text \<open>
  The loop keeps \<open>output\<close> and \<open>input\<close>.  It ends for every behaviour of
  \<open>starts_with\<close>, because each branch shortens \<open>input\<close>.
\<close>

function removeDotLoop :: "boost \<Rightarrow> string \<Rightarrow> string \<Rightarrow> string" where
  "removeDotLoop B outp inp =
     (if inp = [] then outp
      else if starts_with B inp ''../'' then removeDotLoop B outp (drop 3 inp)
      else if starts_with B inp ''./'' then removeDotLoop B outp (drop 2 inp)
      else if starts_with B inp ''/./'' then removeDotLoop B outp (drop 2 inp)
      else if ''/.'' = inp then removeDotLoop B outp ''/''
      else if starts_with B inp ''/../'' then
        removeDotLoop B (removeLastSegment outp) (drop 3 inp)
      else if ''/..'' = inp then removeDotLoop B (removeLastSegment outp) ''/''
      else if ''.'' = inp \<or> ''..'' = inp then removeDotLoop B outp []
      else
        (case find_char_from CHR ''/'' (if CHR ''/'' = inp ! 0 then 1 else 0) inp of
           None \<Rightarrow> removeDotLoop B (outp @ inp) []
         | Some next \<Rightarrow> removeDotLoop B (outp @ take next inp) (drop next inp)))"
  by pat_completeness auto

termination
proof (relation "measure (\<lambda>(B, outp, inp). length inp)", goal_cases)
  case (10 B outp inp n)
  then have "0 < n" by (intro find_char_from_progress) auto
  with 10 show ?case by simp
qed auto

declare removeDotLoop.simps [simp del]

definition removeDotSegments :: "boost \<Rightarrow> string \<Rightarrow> string" where
  "removeDotSegments B path = removeDotLoop B [] path"

section \<open>Parsing\<close>

text \<open>The loop of \<open>parsePort\<close> over the digits, with the value in 32 bits.\<close>

fun portLoop :: "32 word \<Rightarrow> string \<Rightarrow> 32 word res" where
  "portLoop value [] = Inr value"
| "portLoop value (c # cs) =
     (if \<not> isDigit c then
        Inl (InvalidDataFormat ''port'' ''contains a character which is not a digit'')
      else
        let value' = value * 10 + charDiff c CHR ''0''
        in if value' > 65535 then Inl (InvalidDataFormat ''port'' ''is greater than 65535'')
           else portLoop value' cs)"

definition parsePort :: "string \<Rightarrow> uri \<Rightarrow> uri res" where
  "parsePort port u =
     (if port = [] then Inr u
      else bindR (portLoop 0 port)
             (\<lambda>value. Inr (u\<lparr>m_port := ucast value, m_hasPort := True\<rparr>)))"

text \<open>The part of \<open>parseAuthority\<close> before the host: the userinfo.  Returns what is left.\<close>

definition parseUserInfo :: "string \<Rightarrow> uri \<Rightarrow> (string \<times> uri) res" where
  "parseUserInfo authority u =
     (case find_char CHR ''@'' authority of
        None \<Rightarrow> Inr (authority, u)
      | Some atPos \<Rightarrow>
          bindR (normalizeComponent isUserInfoChar ''userinfo'' False (take atPos authority))
            (\<lambda>ui. Inr (drop (atPos + 1) authority,
                        u\<lparr>m_userInfo := ui, m_hasUserInfo := True\<rparr>)))"

text \<open>The host; returns the text of the port when there is a port separator.\<close>

definition parseHost :: "boost \<Rightarrow> string \<Rightarrow> uri \<Rightarrow> (string option \<times> uri) res" where
  "parseHost B hostAndPort u =
     (if hostAndPort \<noteq> [] \<and> CHR ''['' = hostAndPort ! 0 then
        (case find_char CHR '']'' hostAndPort of
           None \<Rightarrow> Inl (InvalidDataFormat ''host'' ''starts an IP literal which is never closed'')
         | Some closePos \<Rightarrow>
             let literal = take (closePos - 1) (drop 1 hostAndPort);
                 remainder = drop (closePos + 1) hostAndPort
             in bindR (chkIpLiteral literal)
                  (\<lambda>_. let u' = u\<lparr>m_host := to_lower_copy B literal, m_isIpLiteral := True\<rparr>
                        in case remainder of
                             [] \<Rightarrow> Inr (None, u')
                           | c # port \<Rightarrow>
                               (if CHR '':'' \<noteq> c then
                                  Inl (InvalidDataFormat ''authority''
                                    ''has text between the IP literal and the port'')
                                else Inr (Some port, u'))))
      else
        let colonPos = find_char CHR '':'' hostAndPort;
            name = (case colonPos of None \<Rightarrow> hostAndPort | Some n \<Rightarrow> take n hostAndPort);
            port = map_option (\<lambda>n. drop (n + 1) hostAndPort) colonPos
        in bindR (normalizeComponent isRegNameChar ''host'' True name)
             (\<lambda>h. Inr (port, u\<lparr>m_host := h\<rparr>)))"

definition parseAuthority :: "boost \<Rightarrow> string \<Rightarrow> uri \<Rightarrow> uri res" where
  "parseAuthority B authority u =
     bindR (parseUserInfo authority u)
       (\<lambda>(hostAndPort, u1). bindR (parseHost B hostAndPort u1)
          (\<lambda>(port, u2). case port of None \<Rightarrow> Inr u2 | Some p \<Rightarrow> parsePort p u2))"

text \<open>The stages of \<open>parseImpl\<close>; each returns what is left of \<open>rest\<close>.\<close>

definition parseFragment :: "string \<Rightarrow> uri \<Rightarrow> (string \<times> uri) res" where
  "parseFragment rest u =
     (case find_char CHR ''#'' rest of
        None \<Rightarrow> Inr (rest, u)
      | Some hashPos \<Rightarrow>
          bindR (normalizeComponent isQueryOrFragmentChar ''fragment'' False
                   (drop (hashPos + 1) rest))
            (\<lambda>f. Inr (take hashPos rest, u\<lparr>m_fragment := f, m_hasFragment := True\<rparr>)))"

definition parseQuery :: "string \<Rightarrow> uri \<Rightarrow> (string \<times> uri) res" where
  "parseQuery rest u =
     (case find_char CHR ''?'' rest of
        None \<Rightarrow> Inr (rest, u)
      | Some questionPos \<Rightarrow>
          bindR (normalizeComponent isQueryOrFragmentChar ''query'' False
                   (drop (questionPos + 1) rest))
            (\<lambda>q. Inr (take questionPos rest, u\<lparr>m_query := q, m_hasQuery := True\<rparr>)))"

definition parseScheme :: "boost \<Rightarrow> string \<Rightarrow> uri \<Rightarrow> (string \<times> uri) res" where
  "parseScheme B rest u =
     (case find_char CHR '':'' rest of
        None \<Rightarrow> Inr (rest, u)
      | Some colonPos \<Rightarrow>
          (if (case find_char CHR ''/'' rest of
                 None \<Rightarrow> True | Some slashPos \<Rightarrow> colonPos < slashPos) then
             (let candidate = take colonPos rest in
              if \<not> isValidScheme candidate then
                Inl (InvalidDataFormat ''scheme'' ''is not well formed'')
              else Inr (drop (colonPos + 1) rest,
                        u\<lparr>m_scheme := to_lower_copy B candidate\<rparr>))
           else Inr (rest, u)))"

definition parseNetPath :: "boost \<Rightarrow> string \<Rightarrow> uri \<Rightarrow> (string \<times> uri) res" where
  "parseNetPath B rest u =
     (if length rest \<ge> 2 \<and> CHR ''/'' = rest ! 0 \<and> CHR ''/'' = rest ! 1 then
        (let u' = u\<lparr>m_hasAuthority := True\<rparr> in
         case find_char_from CHR ''/'' 2 rest of
           None \<Rightarrow> bindR (parseAuthority B (drop 2 rest) u') (\<lambda>v. Inr ([], v))
         | Some authorityEnd \<Rightarrow>
             bindR (parseAuthority B (take (authorityEnd - 2) (drop 2 rest)) u')
               (\<lambda>v. Inr (drop authorityEnd rest, v)))
      else Inr (rest, u))"

definition parsePath :: "boost \<Rightarrow> string \<Rightarrow> uri \<Rightarrow> uri res" where
  "parsePath B rest u =
     bindR (normalizeComponent isPathChar ''path'' False rest)
       (\<lambda>p. Inr (u\<lparr>m_path :=
              (if m_scheme u \<noteq> [] \<or> m_hasAuthority u then removeDotSegments B p else p)\<rparr>))"

definition parseImpl :: "boost \<Rightarrow> string \<Rightarrow> uri \<Rightarrow> uri res" where
  "parseImpl B text u =
     bindR (chkStrictCharacters text)
       (\<lambda>_. bindR (parseFragment text u)
       (\<lambda>(rest1, u1). bindR (parseQuery rest1 u1)
       (\<lambda>(rest2, u2). bindR (parseScheme B rest2 u2)
       (\<lambda>(rest3, u3). bindR (parseNetPath B rest3 u3)
       (\<lambda>(rest4, u4). parsePath B rest4 u4)))))"

definition parse :: "boost \<Rightarrow> string \<Rightarrow> uri res" where
  "parse B text = parseImpl B text empty_uri"

text \<open>
  \<open>tryParse\<close>: the flag and the value \<open>result\<close> has afterwards.  Only
  \<open>InvalidDataFormatException\<close> is caught; any other exception would escape.
\<close>

definition tryParse :: "boost \<Rightarrow> string \<Rightarrow> uri \<Rightarrow> (bool \<times> uri) res" where
  "tryParse B text result =
     (case parse B text of
        Inr u \<Rightarrow> Inr (True, u)
      | Inl (InvalidDataFormat c r) \<Rightarrow> Inr (False, result)
      | Inl e \<Rightarrow> Inl e)"

end
