(* ===== verification/UriOps.thy ===== *)
theory UriOps
  imports Uri
begin

text \<open>
  The public operations of \<open>UriT\<close> beyond parsing: the accessors, the renderings
  (\<open>authority\<close>, \<open>origin\<close>, \<open>pathAndQuery\<close>, \<open>toString\<close>) and reference resolution
  (RFC 3986 section 5.2.2).
\<close>

section \<open>Accessors\<close>

definition hasScheme :: "uri \<Rightarrow> bool" where
  "hasScheme u \<longleftrightarrow> \<not> m_scheme u = []"

definition isAbsolute :: "uri \<Rightarrow> bool" where
  "isAbsolute u = hasScheme u"

definition defaultPort :: "string \<Rightarrow> 16 word" where
  "defaultPort scheme =
     (if scheme = ''http'' then 80 else if scheme = ''https'' then 443 else 0)"

definition effectivePort :: "uri \<Rightarrow> 16 word" where
  "effectivePort u = (if m_hasPort u then m_port u else defaultPort (m_scheme u))"

section \<open>Renderings\<close>

definition hostForAuthority :: "uri \<Rightarrow> string" where
  "hostForAuthority u = (if m_isIpLiteral u then ''['' @ m_host u @ '']'' else m_host u)"

definition authority :: "uri \<Rightarrow> string" where
  "authority u =
     hostForAuthority u @ (if m_hasPort u then '':'' @ dec_string (unat (m_port u)) else [])"

definition origin :: "uri \<Rightarrow> string res" where
  "origin u =
     bindR (chkR (m_scheme u \<noteq> []) ArgumentExc)
       (\<lambda>_. bindR (chkR (m_host u \<noteq> []) ArgumentExc)
       (\<lambda>_. let port = effectivePort u
             in Inr (m_scheme u @ ''://'' @ hostForAuthority u
                  @ (if 0 \<noteq> port then '':'' @ dec_string (unat port) else []))))"

definition pathAndQuery :: "uri \<Rightarrow> string" where
  "pathAndQuery u =
     (if m_path u = [] then ''/'' else m_path u)
       @ (if m_hasQuery u then ''?'' @ m_query u else [])"

definition toString :: "uri \<Rightarrow> string" where
  "toString u =
     (if m_scheme u \<noteq> [] then m_scheme u @ '':'' else [])
       @ (if m_hasAuthority u then
            ''//'' @ (if m_hasUserInfo u then m_userInfo u @ ''@'' else []) @ authority u
          else [])
       @ m_path u
       @ (if m_hasQuery u then ''?'' @ m_query u else [])
       @ (if m_hasFragment u then ''#'' @ m_fragment u else [])"

section \<open>Reference resolution\<close>

definition mergePaths :: "uri \<Rightarrow> string \<Rightarrow> string" where
  "mergePaths base refPath =
     (if m_hasAuthority base \<and> m_path base = [] then ''/'' @ refPath
      else case rfind_char CHR ''/'' (m_path base) of
             None \<Rightarrow> refPath
           | Some pos \<Rightarrow> take (pos + 1) (m_path base) @ refPath)"

definition copyAuthorityFrom :: "uri \<Rightarrow> uri \<Rightarrow> uri" where
  "copyAuthorityFrom other u = u\<lparr>m_hasAuthority := m_hasAuthority other,
     m_userInfo := m_userInfo other, m_hasUserInfo := m_hasUserInfo other,
     m_host := m_host other, m_isIpLiteral := m_isIpLiteral other,
     m_port := m_port other, m_hasPort := m_hasPort other\<rparr>"

definition copyQueryFrom :: "uri \<Rightarrow> uri \<Rightarrow> uri" where
  "copyQueryFrom other u = u\<lparr>m_query := m_query other, m_hasQuery := m_hasQuery other\<rparr>"

definition resolve :: "boost \<Rightarrow> uri \<Rightarrow> uri \<Rightarrow> uri res" where
  "resolve B base reference =
     bindR (chkR (m_scheme base \<noteq> []) ArgumentExc)
       (\<lambda>_. let result =
          (if m_scheme reference \<noteq> [] then
             copyQueryFrom reference
               ((copyAuthorityFrom reference (empty_uri\<lparr>m_scheme := m_scheme reference\<rparr>))
                  \<lparr>m_path := removeDotSegments B (m_path reference)\<rparr>)
           else
             (let r =
               (if m_hasAuthority reference then
                  copyQueryFrom reference
                    ((copyAuthorityFrom reference empty_uri)
                       \<lparr>m_path := removeDotSegments B (m_path reference)\<rparr>)
                else
                  copyAuthorityFrom base
                    (if m_path reference = [] then
                       copyQueryFrom (if m_hasQuery reference then reference else base)
                         (empty_uri\<lparr>m_path := m_path base\<rparr>)
                     else
                       copyQueryFrom reference
                         (empty_uri\<lparr>m_path :=
                            (if CHR ''/'' = m_path reference ! 0
                             then removeDotSegments B (m_path reference)
                             else removeDotSegments B (mergePaths base (m_path reference)))\<rparr>)))
              in r\<lparr>m_scheme := m_scheme base\<rparr>))
        in Inr (result\<lparr>m_fragment := m_fragment reference,
                       m_hasFragment := m_hasFragment reference\<rparr>))"

text \<open>The member \<open>resolve\<close> of a request URI, given the text of a reference.\<close>

definition resolveText :: "boost \<Rightarrow> uri \<Rightarrow> string \<Rightarrow> uri res" where
  "resolveText B u reference = bindR (parse B reference) (\<lambda>r. resolve B u r)"

end
