(* ===== verification/UriLemmas.thy ===== *)
theory UriLemmas
  imports UriOps
begin

unbundle bit_operations_syntax

text \<open>
  Lemmas on the lexical layer of the URI parser: the character classes, the canonical form of
  percent-encoded components (what \<open>normalizeComponent\<close> produces and leaves alone), and the
  decimal and IP-literal grammars.
\<close>

section \<open>Characters\<close>

definition hexDigits :: "char list" where
  "hexDigits = map char_of ([48..<58] @ [65..<71] @ [97..<103 :: nat])"

lemma isHexDigit_in: "isHexDigit c \<Longrightarrow> c \<in> set hexDigits"
proof -
  assume "isHexDigit c"
  then have "(of_char c :: nat) \<in> {48..<58} \<union> ({65..<71} \<union> {97..<103})"
    by (auto simp: isHexDigit_def isDigit_def less_eq_char_def)
  then have "char_of (of_char c :: nat) \<in> set hexDigits"
    unfolding hexDigits_def set_map set_append set_upt by (rule imageI)
  then show ?thesis by simp
qed

text \<open>The sixteen nibbles, so that facts about octets are finite checks.\<close>

definition nibbles :: "32 word list" where
  "nibbles = map word_of_nat [0..<16]"

lemma hexValue_nibble: "isHexDigit c \<Longrightarrow> hexValue c \<in> set nibbles"
proof -
  have "\<forall>c \<in> set hexDigits. hexValue c \<in> set nibbles"
    by code_simp
  then show "isHexDigit c \<Longrightarrow> hexValue c \<in> set nibbles" by (blast dest: isHexDigit_in)
qed

definition isUpperHex :: "char \<Rightarrow> bool" where
  "isUpperHex c \<longleftrightarrow> c \<in> set ''0123456789ABCDEF''"

lemma hexDigit_nibble:
  assumes "v \<in> set nibbles"
  shows "isHexDigit (hexDigit v)" "hexValue (hexDigit v) = v"
    "isUpperHex (hexDigit v)"
proof -
  have "\<forall>v \<in> set nibbles. isHexDigit (hexDigit v) \<and> hexValue (hexDigit v) = v
      \<and> isUpperHex (hexDigit v)"
    by code_simp
  with assms show "isHexDigit (hexDigit v)" "hexValue (hexDigit v) = v"
    "isUpperHex (hexDigit v)" by blast+
qed

lemma hexDigit_hexValue_upper:
  assumes "isUpperHex c"
  shows "hexDigit (hexValue c) = c" "isHexDigit c"
proof -
  have "\<forall>c \<in> set ''0123456789ABCDEF''. hexDigit (hexValue c) = c \<and> isHexDigit c"
    by code_simp
  with assms show "hexDigit (hexValue c) = c" "isHexDigit c" unfolding isUpperHex_def by blast+
qed

lemma octet_nibbles:
  assumes "a \<in> set nibbles" "b \<in> set nibbles"
  shows "drop_bit 4 (push_bit 4 a OR b) AND 0x0F = a" "(push_bit 4 a OR b) AND 0x0F = b"
proof -
  have "\<forall>a \<in> set nibbles. \<forall>b \<in> set nibbles.
     drop_bit 4 (push_bit 4 a OR b) AND 0x0F = a \<and> (push_bit 4 a OR b) AND 0x0F = b"
    by code_simp
  with assms show "drop_bit 4 (push_bit 4 a OR b) AND 0x0F = a" "(push_bit 4 a OR b) AND 0x0F = b"
    by blast+
qed

text \<open>The octet a percent-encoded triple stands for.\<close>

definition pct_octet :: "char \<Rightarrow> char \<Rightarrow> char" where
  "pct_octet h1 h2 = char_of (unat (push_bit 4 (hexValue h1) OR hexValue h2))"

lemmas class_defs = isUnreserved_def isAlpha_def isDigit_def isHexDigit_def isSubDelim_def
  isSchemeTail_def isQueryOrFragmentChar_def isPathChar_def isUserInfoChar_def isRegNameChar_def
  less_eq_char_def

lemma toLowerAscii_alpha [simp]: "isAlpha (toLowerAscii c) \<longleftrightarrow> isAlpha c"
  by (auto simp: toLowerAscii_def class_defs)

lemma toLowerAscii_nonalpha: "\<not> isAlpha c \<Longrightarrow> toLowerAscii c = c"
  by (auto simp: toLowerAscii_def isAlpha_def)

lemma toLowerAscii_eq_nonalpha:
  "\<not> isAlpha d \<Longrightarrow> toLowerAscii c = d \<longleftrightarrow> c = d"
  "\<not> isAlpha d \<Longrightarrow> d = toLowerAscii c \<longleftrightarrow> d = c"
  by (metis toLowerAscii_alpha toLowerAscii_nonalpha)+

lemma toLowerAscii_facts [simp]:
  "toLowerAscii (toLowerAscii c) = toLowerAscii c"
  "isUnreserved (toLowerAscii c) \<longleftrightarrow> isUnreserved c"
  "isHexDigit (toLowerAscii c) \<longleftrightarrow> isHexDigit c"
  "isDigit (toLowerAscii c) \<longleftrightarrow> isDigit c"
  by (auto simp: toLowerAscii_def class_defs)

lemma nonalpha_delims [simp]:
  "\<not> isAlpha CHR ''!''" "\<not> isAlpha CHR ''$''" "\<not> isAlpha CHR ''&''" "\<not> isAlpha CHR 0x27"
  "\<not> isAlpha CHR ''(''" "\<not> isAlpha CHR '')''" "\<not> isAlpha CHR ''*''" "\<not> isAlpha CHR ''+''"
  "\<not> isAlpha CHR '',''" "\<not> isAlpha CHR '';''" "\<not> isAlpha CHR ''=''" "\<not> isAlpha CHR ''-''"
  "\<not> isAlpha CHR ''.''" "\<not> isAlpha CHR '':''" "\<not> isAlpha CHR ''%''" "\<not> isAlpha CHR ''/''"
  by (simp_all add: isAlpha_def less_eq_char_def)

lemma toLowerAscii_delims [simp]:
  "isSubDelim (toLowerAscii c) \<longleftrightarrow> isSubDelim c"
  "isSchemeTail (toLowerAscii c) \<longleftrightarrow> isSchemeTail c"
  by (simp_all add: isSubDelim_def isSchemeTail_def toLowerAscii_eq_nonalpha)

lemma alpha_unreserved: "isAlpha c \<Longrightarrow> isUnreserved c"
  by (simp add: isUnreserved_def)

lemma hex_unreserved: "isHexDigit c \<Longrightarrow> isUnreserved c"
  by (auto simp: class_defs)

text \<open>The bytes \<open>chkStrictCharacters\<close> lets through.\<close>

definition strict_char :: "char \<Rightarrow> bool" where
  "strict_char c \<longleftrightarrow> of_char c > (0x20 :: nat) \<and> of_char c < (0x7F :: nat) \<and> c \<noteq> CHR 0x5C"

lemma chkStrictCharacters_iff: "chkStrictCharacters s = Inr () \<longleftrightarrow> list_all strict_char s"
proof (induction s)
  case Nil
  then show ?case by simp
next
  case (Cons c s)
  have "c = CHR '' '' \<longleftrightarrow> of_char c = (of_char CHR '' '' :: nat)"
    by (simp only: of_char_eq_iff)
  then have "c = CHR '' '' \<longleftrightarrow> of_char c = (0x20 :: nat)" by simp
  then show ?case using Cons by (auto simp: strict_char_def)
qed

lemma class_strict:
  "isQueryOrFragmentChar c \<Longrightarrow> strict_char c"
  "isUserInfoChar c \<Longrightarrow> strict_char c"
  "isSchemeTail c \<Longrightarrow> strict_char c"
  by (auto simp: class_defs strict_char_def)

lemma strict_ascii: "list_all strict_char s \<Longrightarrow> is_ascii s"
  unfolding is_ascii_def strict_char_def by (erule list.pred_mono_strong) (elim conjE, linarith)

section \<open>Percent-encoded components\<close>

fun canonical :: "(char \<Rightarrow> bool) \<Rightarrow> bool \<Rightarrow> string \<Rightarrow> bool" where
  "canonical isAllowed lower [] = True"
| "canonical isAllowed lower (c # cs) =
     (if c \<noteq> CHR ''%'' then
        isAllowed c \<and> (lower \<longrightarrow> toLowerAscii c = c) \<and> canonical isAllowed lower cs
      else
        (case cs of
           h1 # h2 # cs' \<Rightarrow>
             isUpperHex h1 \<and> isUpperHex h2
             \<and> \<not> isUnreserved (pct_octet h1 h2) \<and> canonical isAllowed lower cs'
         | _ \<Rightarrow> False))"

text \<open>The octets a component stands for.\<close>

fun pct_decode :: "string \<Rightarrow> string" where
  "pct_decode [] = []"
| "pct_decode (c # cs) =
     (if c \<noteq> CHR ''%'' then c # pct_decode cs
      else (case cs of h1 # h2 # cs' \<Rightarrow> pct_octet h1 h2 # pct_decode cs' | _ \<Rightarrow> c # pct_decode cs))"

locale component_grammar =
  fixes isAllowed :: "char \<Rightarrow> bool"
  assumes unreserved_allowed: "isUnreserved c \<Longrightarrow> isAllowed c"
    and percent_not_allowed: "\<not> isAllowed CHR ''%''"
begin

lemma lower_allowed:
  "isAllowed c \<Longrightarrow> isAllowed (toLowerAscii c)"
  using unreserved_allowed toLowerAscii_nonalpha alpha_unreserved by (metis toLowerAscii_facts(2))

lemma unreserved_not_percent: "isUnreserved c \<Longrightarrow> c \<noteq> CHR ''%''"
  using unreserved_allowed percent_not_allowed by auto

lemma upper_octet:
  assumes "isHexDigit h1" "isHexDigit h2"
  shows "pct_octet (hexDigit (hexValue h1)) (hexDigit (hexValue h2)) = pct_octet h1 h2"
  using assms by (simp add: pct_octet_def hexDigit_nibble hexValue_nibble)

text \<open>The loop of \<open>normalizeComponent\<close>, one equation per case of its body.\<close>

lemma norm_plain:
  assumes "c \<noteq> CHR ''%''"
  shows "normalizeComponent isAllowed cm lower (c # cs) =
    (if isAllowed c then
       bindR (normalizeComponent isAllowed cm lower cs)
         (\<lambda>r. Inr ((if lower then toLowerAscii c else c) # r))
     else Inl (InvalidDataFormat cm ''contains a character which is not allowed in it''))"
  using assms by simp

lemma norm_triple:
  assumes "isHexDigit h1" "isHexDigit h2"
  shows "normalizeComponent isAllowed cm lower (CHR ''%'' # h1 # h2 # cs) =
    bindR (normalizeComponent isAllowed cm lower cs)
      (\<lambda>r. Inr (if isUnreserved (pct_octet h1 h2) then
                   (if lower then toLowerAscii (pct_octet h1 h2) else pct_octet h1 h2) # r
                 else CHR ''%'' # hexDigit (hexValue h1) # hexDigit (hexValue h2) # r))"
proof -
  note o = octet_nibbles [OF hexValue_nibble [OF assms(1)] hexValue_nibble [OF assms(2)]]
  show ?thesis using assms by (simp only: normalizeComponent.simps list.case Let_def o pct_octet_def) simp
qed

lemma norm_cases:
  assumes "normalizeComponent isAllowed cm lower v = Inr r"
  obtains (Nil) "v = []" "r = []"
  | (Plain) c cs r' where "v = c # cs" "c \<noteq> CHR ''%''" "isAllowed c"
      "normalizeComponent isAllowed cm lower cs = Inr r'"
      "r = (if lower then toLowerAscii c else c) # r'"
  | (Triple) h1 h2 cs r' where "v = CHR ''%'' # h1 # h2 # cs" "isHexDigit h1" "isHexDigit h2"
      "normalizeComponent isAllowed cm lower cs = Inr r'"
      "r = (if isUnreserved (pct_octet h1 h2)
            then (if lower then toLowerAscii (pct_octet h1 h2) else pct_octet h1 h2) # r'
            else CHR ''%'' # hexDigit (hexValue h1) # hexDigit (hexValue h2) # r')"
proof (cases v)
  case Nil
  with assms show thesis by (intro that(1)) simp_all
next
  case (Cons c cs)
  show thesis
  proof (cases "c = CHR ''%''")
    case False
    with Cons assms show thesis
      by (auto simp: norm_plain bindR_eq_Inr split: if_splits intro: that(2))
  next
    case True
    with Cons assms obtain h1 h2 cs' where v: "v = CHR ''%'' # h1 # h2 # cs'"
      and h: "isHexDigit h1" "isHexDigit h2"
      by (auto split: list.splits if_splits)
    from assms that(3) [OF v h] show thesis
      unfolding v norm_triple [OF h] by (auto simp: bindR_eq_Inr)
  qed
qed

lemma norm_induct [consumes 1, case_names Nil Plain Triple]:
  assumes "normalizeComponent isAllowed cm lower v = Inr r"
    and "P [] []"
    and "\<And>c cs r. c \<noteq> CHR ''%'' \<Longrightarrow> isAllowed c \<Longrightarrow>
      normalizeComponent isAllowed cm lower cs = Inr r \<Longrightarrow> P cs r \<Longrightarrow>
      P (c # cs) ((if lower then toLowerAscii c else c) # r)"
    and "\<And>h1 h2 cs r. isHexDigit h1 \<Longrightarrow> isHexDigit h2 \<Longrightarrow>
      normalizeComponent isAllowed cm lower cs = Inr r \<Longrightarrow> P cs r \<Longrightarrow>
      P (CHR ''%'' # h1 # h2 # cs)
        (if isUnreserved (pct_octet h1 h2)
         then (if lower then toLowerAscii (pct_octet h1 h2) else pct_octet h1 h2) # r
         else CHR ''%'' # hexDigit (hexValue h1) # hexDigit (hexValue h2) # r)"
  shows "P v r"
  using assms(1)
proof (induction v arbitrary: r rule: length_induct)
  case (1 v)
  from "1.prems" show ?case
  proof (cases rule: norm_cases)
    case Nil
    with assms(2) show ?thesis by simp
  next
    case (Plain c cs r')
    with "1.IH" show ?thesis by (simp add: assms(3))
  next
    case (Triple h1 h2 cs r')
    with "1.IH" assms(4) [OF Triple(2-4)] show ?thesis by simp
  qed
qed

lemma norm_canonical:
  "normalizeComponent isAllowed cm lower v = Inr r \<Longrightarrow> canonical isAllowed lower r"
proof (induction rule: norm_induct)
  case Nil
  then show ?case by simp
next
  case (Plain c cs r)
  then show ?case
    using lower_allowed by (auto simp: toLowerAscii_eq_nonalpha isAlpha_def)
next
  case (Triple h1 h2 cs r)
  show ?case
  proof (cases "isUnreserved (pct_octet h1 h2)")
    case True
    then have "pct_octet h1 h2 \<noteq> CHR ''%''" "toLowerAscii (pct_octet h1 h2) \<noteq> CHR ''%''"
      using unreserved_not_percent by auto
    with True Triple show ?thesis
      using unreserved_allowed lower_allowed by auto
  next
    case False
    with Triple show ?thesis
      using hexDigit_nibble(3) hexValue_nibble by (simp add: upper_octet)
  qed
qed

lemma canonical_norm:
  "canonical isAllowed lower r \<Longrightarrow> normalizeComponent isAllowed cm lower r = Inr r"
proof (induction r rule: length_induct)
  case (1 r)
  show ?case
  proof (cases r)
    case Nil
    then show ?thesis by simp
  next
    case (Cons c cs)
    show ?thesis
    proof (cases "c = CHR ''%''")
      case False
      with Cons "1.prems" "1.IH" show ?thesis by auto
    next
      case True
      with Cons "1.prems" obtain h1 h2 cs' where r: "r = CHR ''%'' # h1 # h2 # cs'"
        and h: "isUpperHex h1" "isUpperHex h2"
        and o: "\<not> isUnreserved (pct_octet h1 h2)" "canonical isAllowed lower cs'"
        by (auto split: list.splits)
      from r o(2) "1.IH" have "normalizeComponent isAllowed cm lower cs' = Inr cs'" by simp
      with o(1) show ?thesis
        unfolding r norm_triple [OF hexDigit_hexValue_upper(2) [OF h(1)] hexDigit_hexValue_upper(2) [OF h(2)]]
        by (simp add: hexDigit_hexValue_upper(1) [OF h(1)] hexDigit_hexValue_upper(1) [OF h(2)])
    qed
  qed
qed

lemma norm_decode:
  "normalizeComponent isAllowed cm lower v = Inr r \<Longrightarrow>
   pct_decode r = (if lower then map toLowerAscii (pct_decode v) else pct_decode v)"
proof (induction rule: norm_induct)
  case Nil
  then show ?case by simp
next
  case (Plain c cs r)
  then show ?case by (auto simp: toLowerAscii_eq_nonalpha isAlpha_def)
next
  case (Triple h1 h2 cs r)
  have "\<not> isUnreserved (pct_octet h1 h2) \<Longrightarrow> toLowerAscii (pct_octet h1 h2) = pct_octet h1 h2"
    using toLowerAscii_nonalpha alpha_unreserved by blast
  moreover have "isUnreserved (pct_octet h1 h2) \<Longrightarrow> pct_octet h1 h2 \<noteq> CHR ''%''
     \<and> toLowerAscii (pct_octet h1 h2) \<noteq> CHR ''%''"
    using unreserved_not_percent by auto
  ultimately show ?case using Triple by (simp add: upper_octet)
qed

end

interpretation userinfo_g: component_grammar isUserInfoChar
  by unfold_locales (auto simp: isUserInfoChar_def isUnreserved_def isSubDelim_def isAlpha_def isDigit_def)

interpretation regname_g: component_grammar isRegNameChar
  by unfold_locales (auto simp: isRegNameChar_def isUnreserved_def isSubDelim_def isAlpha_def isDigit_def)

interpretation path_g: component_grammar isPathChar
  by unfold_locales (auto simp: isPathChar_def isUnreserved_def isSubDelim_def isAlpha_def isDigit_def)

interpretation query_g: component_grammar isQueryOrFragmentChar
  by unfold_locales (auto simp: isQueryOrFragmentChar_def isPathChar_def isUnreserved_def
      isSubDelim_def isAlpha_def isDigit_def)

end
