(* ===== verification/UriDots.thy ===== *)
theory UriDots
  imports UriLemmas
begin

text \<open>
  Dot-segment removal (\<open>removeDotSegments\<close>, RFC 3986 section 5.2.4): what one iteration of the
  loop does to the first segment of its input, the facts every path it returns satisfies, and its
  agreement with the segment-stack description of the algorithm.
\<close>

section \<open>Segments of a path\<close>

fun segs :: "string \<Rightarrow> string list" where
  "segs [] = [[]]"
| "segs (c # cs) = (if c = CHR ''/'' then [] # segs cs else (c # hd (segs cs)) # tl (segs cs))"

definition no_dots :: "string \<Rightarrow> bool" where
  "no_dots p \<longleftrightarrow> ''.'' \<notin> set (segs p) \<and> ''..'' \<notin> set (segs p)"

lemma segs_not_Nil [simp]: "segs p \<noteq> []"
  by (cases p) auto

lemma segs_slash: "segs (xs @ CHR ''/'' # ys) = segs xs @ segs ys"
  by (induction xs) auto

lemma segs_noslash: "CHR ''/'' \<notin> set xs \<Longrightarrow> segs xs = [xs]"
  by (induction xs) auto

lemma segs_split: "CHR ''/'' \<notin> set seg \<Longrightarrow> segs (seg @ CHR ''/'' # r) = seg # segs r"
  by (simp add: segs_slash segs_noslash)

lemma segs_snoc: "CHR ''/'' \<notin> set seg \<Longrightarrow> segs (p @ CHR ''/'' # seg) = segs p @ [seg]"
  by (simp add: segs_slash segs_noslash)

text \<open>The first segment of a path and what follows it.\<close>

definition at_slash :: "string \<Rightarrow> bool" where
  "at_slash p \<longleftrightarrow> p = [] \<or> (\<exists>r. p = CHR ''/'' # r)"

lemma at_slash_simps [simp]: "at_slash []" "at_slash (CHR ''/'' # r)"
  by (auto simp: at_slash_def)

lemma first_segment:
  obtains seg rest where "p = seg @ rest" "CHR ''/'' \<notin> set seg" "at_slash rest"
proof
  show "p = takeWhile (\<lambda>c. c \<noteq> CHR ''/'') p @ dropWhile (\<lambda>c. c \<noteq> CHR ''/'') p" by simp
  show "CHR ''/'' \<notin> set (takeWhile (\<lambda>c. c \<noteq> CHR ''/'') p)"
    by (auto dest: set_takeWhileD)
  show "at_slash (dropWhile (\<lambda>c. c \<noteq> CHR ''/'') p)"
    by (induction p) simp_all
qed

lemma find_slash:
  "CHR ''/'' \<notin> set seg \<Longrightarrow> at_slash rest \<Longrightarrow>
     find_char CHR ''/'' (seg @ rest) = (if rest = [] then None else Some (length seg))"
  by (auto simp: at_slash_def)

lemma prefix_dot_segment:
  assumes "CHR ''/'' \<notin> set seg" "at_slash rest"
  shows "prefix ''./'' (seg @ rest) \<longleftrightarrow> seg = ''.'' \<and> rest \<noteq> []"
    and "prefix ''../'' (seg @ rest) \<longleftrightarrow> seg = ''..'' \<and> rest \<noteq> []"
proof -
  have r: "prefix ''/'' rest \<longleftrightarrow> rest \<noteq> []"
    using assms(2) by (auto simp: at_slash_def)
  consider "seg = []" | a where "seg = [a]" | a b where "seg = [a, b]"
    | a b c s where "seg = a # b # c # s"
    by (metis list.exhaust)
  note cs = this
  show "prefix ''./'' (seg @ rest) \<longleftrightarrow> seg = ''.'' \<and> rest \<noteq> []"
    using assms r by (cases rule: cs) (auto simp: at_slash_def)
  show "prefix ''../'' (seg @ rest) \<longleftrightarrow> seg = ''..'' \<and> rest \<noteq> []"
    using assms r by (cases rule: cs) (auto simp: at_slash_def)
qed

section \<open>One iteration\<close>

lemma removeLastSegment_segs:
  "segs (removeLastSegment p) = (if length (segs p) = 1 then [[]] else butlast (segs p))"
proof (cases "rfind_char CHR ''/'' p")
  case None
  then have "removeLastSegment p = []" "CHR ''/'' \<notin> set p"
    by (simp add: removeLastSegment_def) (simp add: None rfind_char_None_iff [symmetric])
  then show ?thesis by (simp add: segs_noslash)
next
  case (Some n)
  then obtain ys zs where "p = ys @ CHR ''/'' # zs" "CHR ''/'' \<notin> set zs" "take n p = ys"
    by (elim rfind_char_SomeE) metis
  with Some show ?thesis by (simp add: removeLastSegment_def segs_snoc)
qed

lemma removeLastSegment_length: "length (removeLastSegment p) \<le> length p"
  by (simp add: removeLastSegment_def split: option.split)

context boost_strings begin

lemma loop_Nil [simp]: "removeDotLoop B outp [] = outp"
  by (simp add: removeDotLoop.simps)

lemma loop_abs:
  assumes "CHR ''/'' \<notin> set seg" "at_slash rest"
  shows "removeDotLoop B outp (CHR ''/'' # seg @ rest) =
    (if seg = ''.'' then removeDotLoop B outp (if rest = [] then ''/'' else rest)
     else if seg = ''..'' then
       removeDotLoop B (removeLastSegment outp) (if rest = [] then ''/'' else rest)
     else removeDotLoop B (outp @ CHR ''/'' # seg) rest)"
proof -
  have d: "\<not> prefix ''../'' (CHR ''/'' # seg @ rest)" "\<not> prefix ''./'' (CHR ''/'' # seg @ rest)"
    "prefix ''/./'' (CHR ''/'' # seg @ rest) \<longleftrightarrow> seg = ''.'' \<and> rest \<noteq> []"
    "prefix ''/../'' (CHR ''/'' # seg @ rest) \<longleftrightarrow> seg = ''..'' \<and> rest \<noteq> []"
    using prefix_dot_segment [OF assms] by auto
  have e: "''/.'' = CHR ''/'' # seg @ rest \<longleftrightarrow> seg = ''.'' \<and> rest = []"
    "''/..'' = CHR ''/'' # seg @ rest \<longleftrightarrow> seg = ''..'' \<and> rest = []"
    using assms by (auto simp: at_slash_def Cons_eq_append_conv)
  have f: "find_char_from CHR ''/'' 1 (CHR ''/'' # seg @ rest) =
      (if rest = [] then None else Some (Suc (length seg)))"
    using assms by (simp add: find_char_from_def find_slash)
  show ?thesis
    unfolding removeDotLoop.simps [of B outp "CHR ''/'' # seg @ rest"]
    using f by (simp only: starts_with_prefix d e) (cases "rest = []"; simp)
qed

lemma loop_dot:
  "at_slash rest \<Longrightarrow> removeDotLoop B outp (CHR ''/'' # CHR ''.'' # rest) =
     removeDotLoop B outp (if rest = [] then ''/'' else rest)"
  using loop_abs [of "''.''" rest outp] by simp

lemma loop_dotdot:
  "at_slash rest \<Longrightarrow> removeDotLoop B outp (CHR ''/'' # CHR ''.'' # CHR ''.'' # rest) =
     removeDotLoop B (removeLastSegment outp) (if rest = [] then ''/'' else rest)"
  using loop_abs [of "''..''" rest outp] by simp

lemmas loop_steps = loop_dot loop_dotdot loop_abs

lemma loop_rel:
  assumes "CHR ''/'' \<notin> set seg" "at_slash rest" "seg \<noteq> []"
  shows "removeDotLoop B outp (seg @ rest) =
    (if seg = ''.'' \<or> seg = ''..'' then removeDotLoop B outp (drop 1 rest)
     else removeDotLoop B (outp @ seg) rest)"
proof -
  have h: "CHR ''/'' \<noteq> (seg @ rest) ! 0" "\<not> prefix (CHR ''/'' # q) (seg @ rest)"
    "CHR ''/'' # q \<noteq> seg @ rest" for q
    using assms by (cases seg; auto)+
  have e: "''.'' = seg @ rest \<longleftrightarrow> seg = ''.'' \<and> rest = []"
    "''..'' = seg @ rest \<longleftrightarrow> seg = ''..'' \<and> rest = []"
    using assms by (auto simp: at_slash_def Cons_eq_append_conv)
  have f: "find_char_from CHR ''/'' 0 (seg @ rest) =
      (if rest = [] then None else Some (length seg))"
    using assms by (simp add: find_char_from_def find_slash)
  show ?thesis
    unfolding removeDotLoop.simps [of B outp "seg @ rest"]
    using assms(3) f
    by (simp only: starts_with_prefix h e prefix_dot_segment [OF assms(1,2)]) (cases "rest = []"; simp)
qed

lemma loop_rel_dot:
  "at_slash rest \<Longrightarrow> removeDotLoop B outp (CHR ''.'' # rest) = removeDotLoop B outp (drop 1 rest)"
  "at_slash rest \<Longrightarrow>
     removeDotLoop B outp (CHR ''.'' # CHR ''.'' # rest) = removeDotLoop B outp (drop 1 rest)"
  using loop_rel [of "''.''" rest outp] loop_rel [of "''..''" rest outp] by simp_all

text \<open>
  Induction over the iterations.  A rootless first segment is met only while \<open>output\<close> is empty;
  from then on the input is empty or starts with a slash.
\<close>

lemma loop_induct [case_names Nil Dot DotDot Seg RelDot RelSeg]:
  assumes "\<And>outp. P outp []"
    and "\<And>outp rest. at_slash rest \<Longrightarrow> P outp (if rest = [] then ''/'' else rest) \<Longrightarrow>
           P outp (CHR ''/'' # ''.'' @ rest)"
    and "\<And>outp rest. at_slash rest \<Longrightarrow>
           P (removeLastSegment outp) (if rest = [] then ''/'' else rest) \<Longrightarrow>
           P outp (CHR ''/'' # ''..'' @ rest)"
    and "\<And>outp seg rest. CHR ''/'' \<notin> set seg \<Longrightarrow> at_slash rest \<Longrightarrow> seg \<noteq> ''.'' \<Longrightarrow> seg \<noteq> ''..'' \<Longrightarrow>
           P (outp @ CHR ''/'' # seg) rest \<Longrightarrow> P outp (CHR ''/'' # seg @ rest)"
    and "\<And>outp seg rest. seg = ''.'' \<or> seg = ''..'' \<Longrightarrow> at_slash rest \<Longrightarrow> P outp (drop 1 rest) \<Longrightarrow>
           P outp (seg @ rest)"
    and "\<And>outp seg rest. CHR ''/'' \<notin> set seg \<Longrightarrow> at_slash rest \<Longrightarrow> seg \<noteq> [] \<Longrightarrow> seg \<noteq> ''.'' \<Longrightarrow>
           seg \<noteq> ''..'' \<Longrightarrow> P (outp @ seg) rest \<Longrightarrow> P outp (seg @ rest)"
  shows "P outp inp"
proof (induction inp arbitrary: outp rule: length_induct)
  case (1 inp)
  show ?case
  proof (cases inp)
    case Nil
    with assms(1) show ?thesis by simp
  next
    case (Cons c cs)
    show ?thesis
    proof (cases "c = CHR ''/''")
      case True
      obtain seg rest where s: "cs = seg @ rest" "CHR ''/'' \<notin> set seg" "at_slash rest"
        by (rule first_segment)
      have "P outp (CHR ''/'' # seg @ rest)"
        using 1 Cons s assms(2-4) by (cases "seg = ''.''"; cases "seg = ''..''") auto
      with Cons True s show ?thesis by simp
    next
      case False
      obtain seg rest where s: "inp = seg @ rest" "CHR ''/'' \<notin> set seg" "at_slash rest"
        by (rule first_segment)
      with Cons False have "seg \<noteq> []" by (auto simp: at_slash_def)
      then have "length rest < length inp" using s by simp
      then have "P o' rest" "P o' (drop 1 rest)" for o'
        using "1.IH" by auto
      then show ?thesis
        unfolding s(1) using assms(5) [of seg rest outp] assms(6) [of seg rest outp] s(2,3) \<open>seg \<noteq> []\<close>
        by blast
    qed
  qed
qed

section \<open>What the loop returns\<close>

lemma dot_segment_noslash: "seg = ''.'' \<or> seg = ''..'' \<Longrightarrow> CHR ''/'' \<notin> set seg"
  by auto

lemma no_dots_Nil [simp]: "no_dots []"
  by (simp add: no_dots_def)

lemma no_dots_snoc:
  "CHR ''/'' \<notin> set seg \<Longrightarrow>
   no_dots (p @ CHR ''/'' # seg) \<longleftrightarrow> no_dots p \<and> seg \<noteq> ''.'' \<and> seg \<noteq> ''..''"
  by (auto simp: no_dots_def segs_snoc)

lemma no_dots_removeLast: "no_dots p \<Longrightarrow> no_dots (removeLastSegment p)"
  by (auto simp: no_dots_def removeLastSegment_segs dest: in_set_butlastD)

lemma loop_no_dots:
  "no_dots outp \<Longrightarrow> outp = [] \<or> at_slash inp \<Longrightarrow> no_dots (removeDotLoop B outp inp)"
proof (induction outp inp rule: loop_induct)
  case (Nil outp)
  then show ?case by simp
next
  case (Dot outp rest)
  then show ?case by (simp add: loop_steps)
next
  case (DotDot outp rest)
  then show ?case by (simp add: loop_steps no_dots_removeLast)
next
  case (Seg outp seg rest)
  then show ?case by (simp add: loop_steps no_dots_snoc)
next
  case (RelDot outp seg rest)
  then have "outp = []" by (auto simp: at_slash_def)
  with RelDot show ?case
    by (auto simp: loop_rel_dot)
next
  case (RelSeg outp seg rest)
  then have "outp = []" by (cases seg) (auto simp: at_slash_def)
  moreover have "no_dots seg" using RelSeg by (simp add: no_dots_def segs_noslash)
  ultimately show ?case using RelSeg by (simp add: loop_rel)
qed

lemma no_dots_abs_split:
  assumes "CHR ''/'' \<notin> set seg" "at_slash rest" "no_dots (CHR ''/'' # seg @ rest)"
  shows "seg \<noteq> ''.'' \<and> seg \<noteq> ''..'' \<and> no_dots rest"
  using assms by (auto simp: at_slash_def no_dots_def segs_split segs_noslash)

lemma no_dots_rel_split:
  assumes "CHR ''/'' \<notin> set seg" "at_slash rest" "no_dots (seg @ rest)"
  shows "seg \<noteq> ''.'' \<and> seg \<noteq> ''..'' \<and> no_dots rest"
  using assms by (auto simp: at_slash_def no_dots_def segs_split segs_noslash)

lemma loop_identity: "no_dots inp \<Longrightarrow> removeDotLoop B outp inp = outp @ inp"
proof (induction outp inp rule: loop_induct)
  case (Nil outp)
  then show ?case by simp
next
  case (Dot outp rest)
  then show ?case using no_dots_abs_split [of "''.''" rest] by auto
next
  case (DotDot outp rest)
  then show ?case using no_dots_abs_split [of "''..''" rest] by auto
next
  case (Seg outp seg rest)
  then show ?case using no_dots_abs_split [of seg rest] by (simp add: loop_steps)
next
  case (RelDot outp seg rest)
  then show ?case using no_dots_rel_split [of seg rest] dot_segment_noslash by blast
next
  case (RelSeg outp seg rest)
  then show ?case using no_dots_rel_split [of seg rest] by (simp add: loop_rel)
qed

lemma loop_abs_head:
  "outp = [] \<or> (\<exists>r. outp = CHR ''/'' # r) \<Longrightarrow> at_slash inp \<Longrightarrow> outp \<noteq> [] \<or> inp \<noteq> [] \<Longrightarrow>
   \<exists>r. removeDotLoop B outp inp = CHR ''/'' # r"
proof (induction outp inp rule: loop_induct)
  case (DotDot outp rest)
  have "removeLastSegment outp = [] \<or> (\<exists>r. removeLastSegment outp = CHR ''/'' # r)"
    using DotDot.prems(1)
    by (auto simp: removeLastSegment_def take_Cons split: option.splits nat.splits)
  with DotDot show ?case by (simp add: loop_steps)
next
  case (RelDot outp seg rest)
  then show ?case by (auto simp: at_slash_def)
next
  case (RelSeg outp seg rest)
  then show ?case by (cases seg) (auto simp: at_slash_def)
qed (auto simp: loop_steps)

lemma loop_segs:
  "outp = [] \<or> at_slash inp \<Longrightarrow>
   set (segs (removeDotLoop B outp inp)) \<subseteq> set (segs outp) \<union> set (segs inp) \<union> {[]}"
proof (induction outp inp rule: loop_induct)
  case (Nil outp)
  then show ?case by auto
next
  case (Dot outp rest)
  then show ?case by (auto simp: loop_steps at_slash_def)
next
  case (DotDot outp rest)
  have "set (segs (removeLastSegment outp)) \<subseteq> set (segs outp) \<union> {[]}"
    by (auto simp: removeLastSegment_segs dest: in_set_butlastD)
  with DotDot show ?case by (fastforce simp: loop_steps at_slash_def)
next
  case (Seg outp seg rest)
  then show ?case by (auto simp: loop_steps segs_snoc at_slash_def segs_split segs_noslash)
next
  case (RelDot outp seg rest)
  then show ?case
    by (auto simp: loop_rel_dot at_slash_def)
next
  case (RelSeg outp seg rest)
  then have "outp = []" by (cases seg) (auto simp: at_slash_def)
  with RelSeg show ?case by (auto simp: loop_rel at_slash_def segs_split segs_noslash)
qed

lemma loop_length: "length (removeDotLoop B outp inp) \<le> length outp + length inp"
proof (induction outp inp rule: loop_induct)
  case (DotDot outp rest)
  then show ?case using removeLastSegment_length [of outp] by (auto simp: loop_steps split: if_splits)
next
  case (RelDot outp seg rest)
  then show ?case by (cases rest) (auto simp: loop_rel_dot)
qed (auto simp: loop_steps loop_rel split: if_splits)

lemma removeDot_no_dots: "no_dots (removeDotSegments B p)"
  by (simp add: removeDotSegments_def loop_no_dots)

lemma removeDot_fixpoint: "no_dots p \<Longrightarrow> removeDotSegments B p = p"
  by (simp add: removeDotSegments_def loop_identity)

lemma removeDot_abs:
  "\<exists>r. removeDotSegments B (CHR ''/'' # p) = CHR ''/'' # r"
  by (simp add: removeDotSegments_def loop_abs_head)

lemma removeDot_segs: "set (segs (removeDotSegments B p)) \<subseteq> set (segs p) \<union> {[]}"
  using loop_segs [of "[]" p] by (simp add: removeDotSegments_def)

end

section \<open>The segment stack\<close>

text \<open>
  RFC 3986 describes the effect on an absolute path as a stack of segments: \<open>.\<close> is skipped,
  \<open>..\<close> pops, and when one of them is last it leaves a trailing slash.
\<close>

fun dot_spec :: "string list \<Rightarrow> string list \<Rightarrow> string list" where
  "dot_spec st [] = rev st"
| "dot_spec st [s] =
     (if s = ''.'' then rev ([] # st) else if s = ''..'' then rev ([] # tl st) else rev (s # st))"
| "dot_spec st (s # t # ss) =
     (if s = ''.'' then dot_spec st (t # ss)
      else if s = ''..'' then dot_spec (tl st) (t # ss) else dot_spec (s # st) (t # ss))"

definition slashed :: "string list \<Rightarrow> string" where
  "slashed ss = concat (map (\<lambda>s. CHR ''/'' # s) ss)"

lemma slashed_simps [simp]:
  "slashed [] = []"
  "slashed (s # ss) = CHR ''/'' # s @ slashed ss"
  "slashed (ss @ ts) = slashed ss @ slashed ts"
  by (simp_all add: slashed_def)

lemma at_slash_slashed [simp]: "at_slash (slashed ss)"
  by (cases ss) auto

lemma removeLast_slashed:
  "list_all (\<lambda>s. CHR ''/'' \<notin> set s) st \<Longrightarrow>
   removeLastSegment (slashed (rev st)) = slashed (rev (tl st))"
  by (cases st) (auto simp: removeLastSegment_def rfind_char_def)

context boost_strings begin

lemma loop_slashed:
  "list_all (\<lambda>s. CHR ''/'' \<notin> set s) st \<Longrightarrow> list_all (\<lambda>s. CHR ''/'' \<notin> set s) ss \<Longrightarrow>
   removeDotLoop B (slashed (rev st)) (slashed ss) = slashed (dot_spec st ss)"
proof (induction st ss rule: dot_spec.induct)
  case (1 st)
  then show ?case by simp
next
  case (2 st s)
  have root: "removeDotLoop B o' ''/'' = o' @ ''/''" for o'
    using loop_abs [of "[]" "[]" o'] by simp
  from 2 show ?case
    using loop_abs [of s "[]"] by (simp add: root removeLast_slashed)
next
  case (3 st s t ss)
  have tl: "list_all (\<lambda>s. CHR ''/'' \<notin> set s) (tl st)"
    using "3.prems"(1) by (cases st) auto
  show ?case
    using 3 tl loop_abs [of s "slashed (t # ss)"] by (simp add: removeLast_slashed)
qed

end

end
