(* ===== verification/UriGrammar.thy ===== *)
theory UriGrammar
  imports UriDots
begin

text \<open>
  More facts on the grammar functions: IP literals are insensitive to case and contain only
  characters that are no delimiters of a URI, ports print and read back, and normalization keeps
  the delimiters of a component where they are.
\<close>

section \<open>Case of an IP literal\<close>

lemma find_char_lower [simp]:
  "\<not> isAlpha d \<Longrightarrow> find_char d (map toLowerAscii s) = find_char d s"
  by (induction s) (auto simp: toLowerAscii_eq_nonalpha)

lemma digit_lower [simp]: "isDigit c \<Longrightarrow> toLowerAscii c = c"
  by (rule toLowerAscii_nonalpha) (auto simp: class_defs)

lemma decOctetLoop_lower [simp]: "decOctetLoop v (map toLowerAscii s) = decOctetLoop v s"
  by (induction v s rule: decOctetLoop.induct) auto

lemma nonalpha_zero [simp]: "\<not> isAlpha CHR ''0''"
  by (simp add: isAlpha_def less_eq_char_def)

lemma isDecOctet_lower [simp]: "isDecOctet (map toLowerAscii t) = isDecOctet t"
proof (cases t)
  case (Cons c cs)
  have "decOctetLoop 0 (map toLowerAscii t) = decOctetLoop 0 t" by simp
  with Cons show ?thesis
    unfolding isDecOctet_def
    by (cases cs) (simp_all add: toLowerAscii_eq_nonalpha del: decOctetLoop.simps)
qed simp

lemma ipv4Loop_lower [simp]: "ipv4Loop n (map toLowerAscii t) = ipv4Loop n t"
proof (induction n t rule: ipv4Loop.induct)
  case (1 n t)
  then show ?case
    by (simp add: ipv4Loop.simps [of n t] ipv4Loop.simps [of n "map toLowerAscii t"]
        take_map drop_map split: option.split)
qed

lemma isIpv4Address_lower [simp]: "isIpv4Address (map toLowerAscii t) = isIpv4Address t"
  by (simp add: isIpv4Address_def)

lemma isIpv6Group_lower [simp]: "isIpv6Group (map toLowerAscii t) = isIpv6Group t"
  by (simp add: isIpv6Group_def list_all_iff)

lemma ipv6Loop_lower [simp]: "ipv6Loop a n (map toLowerAscii t) = ipv6Loop a n t"
proof (induction a n t rule: ipv6Loop.induct)
  case (1 a n t)
  then show ?case
    by (simp add: ipv6Loop.simps [of a n t] ipv6Loop.simps [of a n "map toLowerAscii t"]
        take_map drop_map Let_def split: option.split)
qed

lemma countIpv6Groups_lower [simp]:
  "countIpv6Groups (map toLowerAscii t) a = countIpv6Groups t a"
  by (simp add: countIpv6Groups_def)

lemma find_sub_colons_lower [simp]: "find_sub ''::'' (map toLowerAscii s) = find_sub ''::'' s"
proof (induction s)
  case Nil
  then show ?case by simp
next
  case (Cons c s)
  have "prefix ''::'' (map toLowerAscii (c # s)) \<longleftrightarrow> prefix ''::'' (c # s)"
    by (cases s) (auto simp: toLowerAscii_eq_nonalpha)
  with Cons show ?case by (simp del: prefix_code)
qed

lemma chkIpv6Address_lower [simp]:
  "chkIpv6Address (map toLowerAscii t) = chkIpv6Address t"
  by (simp add: chkIpv6Address_def find_sub_from_def take_map drop_map split: option.split)

lemma chkIpvFuture_lower [simp]: "chkIpvFuture (map toLowerAscii t) = chkIpvFuture t"
proof -
  let ?d = "drop 1 t"
  have tw: "takeWhile isHexDigit (drop 1 (map toLowerAscii t)) =
      map toLowerAscii (takeWhile isHexDigit ?d)"
    by (simp add: drop_map takeWhile_map comp_def)
  have dw: "dropWhile isHexDigit (drop 1 (map toLowerAscii t)) =
      map toLowerAscii (dropWhile isHexDigit ?d)"
    by (simp add: drop_map dropWhile_map comp_def)
  show ?thesis
  proof (cases "dropWhile isHexDigit ?d")
    case Nil
    then show ?thesis unfolding chkIpvFuture_def tw dw Nil Let_def by simp
  next
    case (Cons c cs)
    then show ?thesis
      unfolding chkIpvFuture_def tw dw Cons Let_def
      by (simp add: list_ex_iff toLowerAscii_eq_nonalpha)
  qed
qed

lemma toLowerAscii_v: "toLowerAscii c = CHR ''v'' \<longleftrightarrow> c = CHR ''v'' \<or> c = CHR ''V''"
proof -
  have eq: "c = d \<longleftrightarrow> of_char c = (of_char d :: nat)" for c d :: char
    by simp
  show ?thesis
    unfolding eq by (simp add: toLowerAscii_def less_eq_char_def del: of_char_eq_iff) auto
qed

lemma toLowerAscii_not_upper: "toLowerAscii c \<noteq> CHR ''V''"
proof
  assume "toLowerAscii c = CHR ''V''"
  then have "toLowerAscii CHR ''V'' = CHR ''V''" by (metis toLowerAscii_facts(1))
  moreover have "toLowerAscii CHR ''V'' = CHR ''v''" by (simp add: toLowerAscii_v)
  ultimately show False by simp
qed

lemma chkIpLiteral_lower [simp]: "chkIpLiteral (map toLowerAscii t) = chkIpLiteral t"
proof (cases t)
  case Nil
  then show ?thesis by simp
next
  case (Cons c cs)
  have "CHR ''v'' = toLowerAscii c \<or> CHR ''V'' = toLowerAscii c \<longleftrightarrow> CHR ''v'' = c \<or> CHR ''V'' = c"
    using toLowerAscii_v [of c] toLowerAscii_not_upper [of c] by metis
  then show ?thesis
    using chkIpv6Address_lower [of t] chkIpvFuture_lower [of t] Cons by (simp add: chkIpLiteral_def)
qed

section \<open>Characters of an IP literal\<close>

lemma decOctetLoop_digits: "decOctetLoop v s \<Longrightarrow> list_all isDigit s"
  by (induction v s rule: decOctetLoop.induct) (auto split: if_splits)

lemma isDecOctet_chars: "isDecOctet s \<Longrightarrow> list_all isDigit s \<and> s \<noteq> []"
  by (auto simp: isDecOctet_def decOctetLoop_digits split: if_splits)

lemma digit_userinfo: "list_all isDigit s \<Longrightarrow> list_all isUserInfoChar s"
  by (erule list.pred_mono_strong) (simp add: isUserInfoChar_def isUnreserved_def)

lemma hex_userinfo: "list_all isHexDigit s \<Longrightarrow> list_all isUserInfoChar s"
  by (erule list.pred_mono_strong) (simp add: isUserInfoChar_def hex_unreserved)

lemma list_all_split_at:
  assumes "find_char c s = Some n" "list_all P (take n s)" "P c" "list_all P (drop (Suc n) s)"
  shows "list_all P s"
proof -
  have "s = take n s @ c # drop (Suc n) s" using assms(1) find_char_SomeD by blast
  then show ?thesis using assms(2-4) by (metis list_all_append list.pred_inject(2))
qed

lemma userinfo_consts [simp]: "isUserInfoChar CHR '':''" "isUserInfoChar CHR ''.''"
  by (simp_all add: isUserInfoChar_def isUnreserved_def)

lemma ipv4Loop_chars: "ipv4Loop n s \<Longrightarrow> list_all isUserInfoChar s"
proof (induction n s rule: ipv4Loop.induct)
  case (1 n s)
  show ?case
  proof (cases "find_char CHR ''.'' s")
    case None
    with "1.prems" show ?thesis
      by (simp add: ipv4Loop.simps [of n s] digit_userinfo isDecOctet_chars split: if_splits)
  next
    case (Some k)
    with "1.prems" have "isDecOctet (take k s)" "ipv4Loop (Suc n) (drop (Suc k) s)"
      by (simp_all add: ipv4Loop.simps [of n s] split: if_splits)
    moreover from this "1.IH" Some have "list_all isUserInfoChar (drop (Suc k) s)" by simp
    ultimately show ?thesis
      using list_all_split_at [OF Some] digit_userinfo isDecOctet_chars by simp
  qed
qed

lemma ipv6Loop_chars: "ipv6Loop a n s = Some k \<Longrightarrow> list_all isUserInfoChar s"
proof (induction a n s rule: ipv6Loop.induct)
  case (1 a n s)
  show ?case
  proof (cases "find_char CHR '':'' s")
    case None
    with "1.prems" show ?thesis
      by (auto simp: ipv6Loop.simps [of a n s] isIpv4Address_def ipv4Loop_chars hex_userinfo
          isIpv6Group_def split: if_splits)
  next
    case (Some j)
    with "1.prems" have "isIpv6Group (take j s)" "ipv6Loop a (Suc n) (drop (Suc j) s) = Some k"
      by (simp_all add: ipv6Loop.simps [of a n s] split: if_splits)
    moreover from this "1.IH" Some have "list_all isUserInfoChar (drop (Suc j) s)" by simp
    ultimately show ?thesis
      using list_all_split_at [OF Some] hex_userinfo
      by (simp add: isIpv6Group_def split: if_splits)
  qed
qed

lemma countIpv6Groups_chars: "countIpv6Groups s a = Some k \<Longrightarrow> list_all isUserInfoChar s"
  by (auto simp: countIpv6Groups_def ipv6Loop_chars split: if_splits)

lemma find_sub_SomeD: "find_sub p s = Some n \<Longrightarrow> \<exists>r. s = take n s @ p @ r \<and> drop (n + length p) s = r"
proof (induction s arbitrary: n)
  case Nil
  then show ?case by (auto split: if_splits)
next
  case (Cons c s)
  show ?case
  proof (cases "prefix p (c # s)")
    case True
    with Cons.prems show ?thesis by (auto simp: prefix_def)
  next
    case False
    with Cons.prems obtain m where "find_sub p s = Some m" "n = Suc m" by auto
    with Cons.IH [of m] show ?thesis by auto
  qed
qed

lemma chkIpv6Address_chars:
  assumes "chkIpv6Address s = Inr ()"
  shows "list_all isUserInfoChar s"
proof (cases "find_sub ''::'' s")
  case None
  with assms show ?thesis
    by (auto simp: chkIpv6Address_def chkR_def dest: countIpv6Groups_chars split: if_splits)
next
  case (Some d)
  with assms obtain j k where "countIpv6Groups (take d s) False = Some j"
    "countIpv6Groups (drop (d + 2) s) True = Some k"
    by (auto simp: chkIpv6Address_def split: if_splits option.splits)
  then have "list_all isUserInfoChar (take d s)" "list_all isUserInfoChar (drop (d + 2) s)"
    using countIpv6Groups_chars by blast+
  moreover from find_sub_SomeD [OF Some] have "s = take d s @ ''::'' @ drop (d + 2) s" by simp
  ultimately show ?thesis
    by (metis list_all_append list.pred_inject userinfo_consts(1))
qed

lemma chkIpvFuture_chars:
  assumes "chkIpvFuture (c # cs) = Inr ()" "isAlpha c"
  shows "list_all isUserInfoChar (c # cs)"
proof -
  obtain d tail where dw: "dropWhile isHexDigit cs = d # tail"
    using assms(1) by (cases "dropWhile isHexDigit cs") (simp_all add: chkIpvFuture_def)
  have t: "dropWhile isHexDigit cs = CHR ''.'' # tail" "\<forall>ch \<in> set tail. isUserInfoChar ch"
    using assms(1) unfolding chkIpvFuture_def Let_def
    by (simp_all add: dw list_ex_iff isUserInfoChar_def split: if_splits)
  have "list_all isUserInfoChar (takeWhile isHexDigit cs)"
    by (rule hex_userinfo) (auto simp: list_all_iff dest: set_takeWhileD)
  moreover have "list_all isUserInfoChar (dropWhile isHexDigit cs)"
    unfolding t(1) using t(2) by (simp add: list_all_iff)
  ultimately have "list_all isUserInfoChar cs"
    by (metis list_all_append takeWhile_dropWhile_id)
  moreover have "isUserInfoChar c"
    using assms(2) by (simp add: isUserInfoChar_def alpha_unreserved)
  ultimately show ?thesis by simp
qed

lemma chkIpLiteral_chars:
  assumes "chkIpLiteral l = Inr ()"
  shows "list_all isUserInfoChar l \<and> l \<noteq> []"
proof -
  obtain c cs where l: "l = c # cs" using assms by (cases l) (auto simp: chkIpLiteral_def)
  have v: "isAlpha CHR ''v''" "isAlpha CHR ''V''" by (simp_all add: isAlpha_def less_eq_char_def)
  show ?thesis
  proof (cases "CHR ''v'' = c \<or> CHR ''V'' = c")
    case True
    with assms l have "chkIpvFuture (c # cs) = Inr ()" by (simp add: chkIpLiteral_def)
    then show ?thesis using True v chkIpvFuture_chars l by blast
  next
    case False
    with assms l have "chkIpv6Address l = Inr ()" by (simp add: chkIpLiteral_def)
    then show ?thesis using chkIpv6Address_chars l by blast
  qed
qed

section \<open>Ports\<close>

lemma charDiff_digit: "d < 10 \<Longrightarrow> charDiff (char_of (48 + d :: nat)) CHR ''0'' = word_of_nat d"
  by (simp add: charDiff_def)

lemma isDigit_char_of: "d < 10 \<Longrightarrow> isDigit (char_of (48 + d :: nat))"
  by (simp add: isDigit_def less_eq_char_def)

lemma dec_string_digits: "list_all isDigit (dec_string n)"
proof (induction n rule: dec_string.induct)
  case (1 n)
  then show ?case by (simp add: dec_string.simps [of n] isDigit_char_of)
qed

lemma portLoop_append: "portLoop v (xs @ ys) = bindR (portLoop v xs) (\<lambda>w. portLoop w ys)"
  by (induction v xs rule: portLoop.induct) (auto simp: Let_def)

lemma portLoop_dec_string: "n \<le> 65535 \<Longrightarrow> portLoop 0 (dec_string n) = Inr (word_of_nat n)"
proof (induction n rule: dec_string.induct)
  case (1 n)
  have small: "(word_of_nat n :: 32 word) \<le> 65535"
    using "1.prems" by (simp add: word_le_nat_alt unat_of_nat take_bit_nat_eq_self)
  show ?case
  proof (cases "n < 10")
    case True
    then show ?thesis
      using small by (simp add: dec_string.simps [of n] isDigit_char_of charDiff_digit linorder_not_less
          Let_def)
  next
    case False
    have "portLoop 0 (dec_string (n div 10)) = Inr (word_of_nat (n div 10))"
      using 1 False by simp
    moreover have "word_of_nat (n div 10) * 10 + word_of_nat (n mod 10) = (word_of_nat n :: 32 word)"
      by (metis div_mult_mod_eq of_nat_add of_nat_mult of_nat_numeral)
    ultimately show ?thesis
      using False small
      by (simp add: dec_string.simps [of n] portLoop_append isDigit_char_of charDiff_digit
          linorder_not_less Let_def)
  qed
qed

lemma dec_string_inj: "a \<le> 65535 \<Longrightarrow> b \<le> 65535 \<Longrightarrow> dec_string a = dec_string b \<Longrightarrow> a = b"
proof -
  assume ab: "a \<le> 65535" "b \<le> 65535" "dec_string a = dec_string b"
  then have "(word_of_nat a :: 32 word) = word_of_nat b"
    using portLoop_dec_string by (metis sum.inject(2))
  then have "unat (word_of_nat a :: 32 word) = unat (word_of_nat b :: 32 word)" by simp
  with ab show "a = b" by (simp add: unat_of_nat take_bit_nat_eq_self)
qed

section \<open>Delimiters of a component\<close>

text \<open>A delimiter is a character normalization neither produces nor removes.\<close>

definition delimiter :: "char \<Rightarrow> bool" where
  "delimiter c \<longleftrightarrow> \<not> isUnreserved c \<and> c \<noteq> CHR ''%''"

lemma delimiter_consts [simp]:
  "delimiter CHR ''/''" "delimiter CHR '':''" "delimiter CHR ''?''" "delimiter CHR ''#''"
  "delimiter CHR ''@''" "delimiter CHR ''[''"
  by (simp_all add: delimiter_def class_defs)

lemma delimiter_not_hex: "delimiter d \<Longrightarrow> \<not> isHexDigit d"
  using hex_unreserved by (auto simp: delimiter_def)

lemma delimiter_nonalpha: "delimiter d \<Longrightarrow> \<not> isAlpha d"
  using alpha_unreserved by (auto simp: delimiter_def)

context component_grammar begin

lemma norm_delimiters:
  assumes "normalizeComponent isAllowed cm lower v = Inr r" "\<And>c. D c \<Longrightarrow> delimiter c"
  shows "filter D r = filter D v"
  using assms(1)
proof (induction rule: norm_induct)
  case Nil
  then show ?case by simp
next
  case (Plain c cs r)
  have "D (toLowerAscii c) \<longleftrightarrow> D c" "D c \<Longrightarrow> toLowerAscii c = c"
    using assms(2) delimiter_nonalpha toLowerAscii_nonalpha by (metis toLowerAscii_alpha)+
  with Plain show ?case by auto
next
  case (Triple h1 h2 cs r)
  have "\<not> D CHR ''%''" "isHexDigit h \<Longrightarrow> \<not> D h" "isUnreserved h \<Longrightarrow> \<not> D h" for h
    using assms(2) delimiter_not_hex by (auto simp: delimiter_def)
  moreover have "isHexDigit (hexDigit (hexValue h1))" "isHexDigit (hexDigit (hexValue h2))"
    using Triple by (simp_all add: hexDigit_nibble hexValue_nibble)
  ultimately show ?case using Triple by auto
qed

lemma norm_head:
  assumes "normalizeComponent isAllowed cm lower v = Inr r" "delimiter d"
  shows "(\<exists>t. r = d # t) \<longleftrightarrow> (\<exists>t. v = d # t)"
    and "v = d # t \<Longrightarrow> \<exists>t'. r = d # t' \<and> normalizeComponent isAllowed cm lower t = Inr t'"
proof -
  have "\<not> isUnreserved d" "d \<noteq> CHR ''%''" "\<not> isAlpha d"
    using assms(2) by (auto simp: delimiter_def delimiter_nonalpha)
  with assms(1) show "(\<exists>t. r = d # t) \<longleftrightarrow> (\<exists>t. v = d # t)"
    and "v = d # t \<Longrightarrow> \<exists>t'. r = d # t' \<and> normalizeComponent isAllowed cm lower t = Inr t'"
    by (cases rule: norm_cases; force simp: toLowerAscii_eq_nonalpha toLowerAscii_nonalpha)+
qed

lemma canonical_induct [consumes 1, case_names Nil Plain Triple]:
  assumes "canonical isAllowed lower r"
    and "P []"
    and "\<And>c cs. c \<noteq> CHR ''%'' \<Longrightarrow> isAllowed c \<Longrightarrow> (lower \<Longrightarrow> toLowerAscii c = c) \<Longrightarrow>
      canonical isAllowed lower cs \<Longrightarrow> P cs \<Longrightarrow> P (c # cs)"
    and "\<And>h1 h2 cs. isUpperHex h1 \<Longrightarrow> isUpperHex h2 \<Longrightarrow> \<not> isUnreserved (pct_octet h1 h2) \<Longrightarrow>
      canonical isAllowed lower cs \<Longrightarrow> P cs \<Longrightarrow> P (CHR ''%'' # h1 # h2 # cs)"
  shows "P r"
  using assms(1)
proof (induction r rule: length_induct)
  case (1 r)
  show ?case
  proof (cases r)
    case Nil
    with assms(2) show ?thesis by simp
  next
    case (Cons a as)
    show ?thesis
    proof (cases "a = CHR ''%''")
      case False
      with Cons "1.prems" have "isAllowed a" "lower \<Longrightarrow> toLowerAscii a = a" "canonical isAllowed lower as"
        by simp_all
      moreover from this Cons "1.IH" have "P as" by simp
      ultimately show ?thesis using assms(3) False Cons by blast
    next
      case True
      with Cons "1.prems" obtain h1 h2 cs where h: "as = h1 # h2 # cs" "isUpperHex h1" "isUpperHex h2"
        "\<not> isUnreserved (pct_octet h1 h2)" "canonical isAllowed lower cs"
        by (auto split: list.splits)
      moreover from this Cons "1.IH" have "P cs" by simp
      ultimately show ?thesis using assms(4) True Cons by blast
    qed
  qed
qed

lemma upperHex_allowed: "isUpperHex h \<Longrightarrow> isAllowed h"
  using hexDigit_hexValue_upper(2) hex_unreserved unreserved_allowed by blast

lemma canonical_chars: "canonical isAllowed lower r \<Longrightarrow> c \<in> set r \<Longrightarrow> isAllowed c \<or> c = CHR ''%''"
  by (induction rule: canonical_induct) (auto simp: upperHex_allowed)

lemma canonical_append:
  "canonical isAllowed lower xs \<Longrightarrow>
   canonical isAllowed lower (xs @ ys) \<longleftrightarrow> canonical isAllowed lower ys"
  by (induction rule: canonical_induct) simp_all

lemma canonical_split:
  assumes "canonical isAllowed lower (xs @ d # ys)" "delimiter d"
  shows "canonical isAllowed lower xs \<and> isAllowed d \<and> canonical isAllowed lower ys"
  using assms(1)
proof (induction "xs @ d # ys" arbitrary: xs rule: canonical_induct)
  case Nil
  then show ?case by simp
next
  case (Plain c cs)
  then show ?case by (cases xs) auto
next
  case (Triple h1 h2 cs)
  have nd: "d \<noteq> CHR ''%''" "\<not> isUpperHex d"
    using assms(2) delimiter_not_hex hexDigit_hexValue_upper(2) by (auto simp: delimiter_def)
  from Triple(1,2,6) nd obtain xs' where "xs = CHR ''%'' # h1 # h2 # xs'" "cs = xs' @ d # ys"
    by (auto simp: Cons_eq_append_conv)
  with Triple show ?case by simp
qed

end

end
