(* ===== verification/UriInvariant.thy ===== *)
theory UriInvariant
  imports UriGrammar
begin

text \<open>
  The invariant of \<open>UriT\<close> values: what every value returned by \<open>parse\<close> and \<open>resolve\<close>
  satisfies.
\<close>

section \<open>The invariant\<close>

text \<open>An optional component: canonical when its flag is set, empty when it is not.\<close>

definition opt_canonical :: "bool \<Rightarrow> (char \<Rightarrow> bool) \<Rightarrow> string \<Rightarrow> bool" where
  "opt_canonical present isAllowed s = (if present then canonical isAllowed False s else s = [])"

definition wf_host :: "uri \<Rightarrow> bool" where
  "wf_host u =
     (if m_isIpLiteral u
      then chkIpLiteral (m_host u) = Inr () \<and> map toLowerAscii (m_host u) = m_host u
      else canonical isRegNameChar True (m_host u))"

definition wf_authority :: "uri \<Rightarrow> bool" where
  "wf_authority u =
     (if m_hasAuthority u
      then opt_canonical (m_hasUserInfo u) isUserInfoChar (m_userInfo u) \<and> wf_host u
        \<and> (\<not> m_hasPort u \<longrightarrow> m_port u = 0)
      else \<not> m_hasUserInfo u \<and> m_userInfo u = [] \<and> m_host u = [] \<and> \<not> m_isIpLiteral u
        \<and> \<not> m_hasPort u \<and> m_port u = 0)"

lemma wf_authority_path [simp]:
  "wf_host (u\<lparr>m_path := p\<rparr>) = wf_host u" "wf_authority (u\<lparr>m_path := p\<rparr>) = wf_authority u"
  by (simp_all add: wf_host_def wf_authority_def)

text \<open>The first delimiter among colons and slashes, if any, is a slash.\<close>

definition no_scheme_colon :: "string \<Rightarrow> bool" where
  "no_scheme_colon p =
     (case filter (\<lambda>c. c = CHR '':'' \<or> c = CHR ''/'') p of [] \<Rightarrow> True | c # _ \<Rightarrow> c = CHR ''/'')"

definition double_slash :: "string \<Rightarrow> bool" where
  "double_slash p \<longleftrightarrow> (\<exists>r. p = CHR ''/'' # CHR ''/'' # r)"

definition wf_path :: "uri \<Rightarrow> bool" where
  "wf_path u \<longleftrightarrow> canonical isPathChar False (m_path u)
     \<and> (m_hasAuthority u \<longrightarrow> at_slash (m_path u))
     \<and> (if m_scheme u \<noteq> [] \<or> m_hasAuthority u then no_dots (m_path u)
        else no_scheme_colon (m_path u) \<and> \<not> double_slash (m_path u))"

definition wf_scheme :: "string \<Rightarrow> bool" where
  "wf_scheme s \<longleftrightarrow> s = [] \<or> isValidScheme s \<and> map toLowerAscii s = s"

definition wf_uri :: "uri \<Rightarrow> bool" where
  "wf_uri u \<longleftrightarrow> wf_scheme (m_scheme u) \<and> wf_authority u
     \<and> opt_canonical (m_hasQuery u) isQueryOrFragmentChar (m_query u)
     \<and> opt_canonical (m_hasFragment u) isQueryOrFragmentChar (m_fragment u)
     \<and> wf_path u"

section \<open>The stages of the parser\<close>

lemma parseFragment_wf:
  assumes "parseFragment rest u = Inr (rest', u')" "\<not> m_hasFragment u" "m_fragment u = []"
  shows "\<exists>f h. u' = u\<lparr>m_fragment := f, m_hasFragment := h\<rparr> \<and> opt_canonical h isQueryOrFragmentChar f"
proof (cases "find_char CHR ''#'' rest")
  case None
  with assms have "u' = u\<lparr>m_fragment := [], m_hasFragment := False\<rparr>"
    by (simp add: parseFragment_def)
  then show ?thesis using opt_canonical_def by auto
next
  case (Some n)
  with assms show ?thesis
    by (auto simp: parseFragment_def bindR_eq_Inr opt_canonical_def intro: query_g.norm_canonical)
qed

lemma parseQuery_wf:
  assumes "parseQuery rest u = Inr (rest', u')" "\<not> m_hasQuery u" "m_query u = []"
  shows "\<exists>q h. u' = u\<lparr>m_query := q, m_hasQuery := h\<rparr> \<and> opt_canonical h isQueryOrFragmentChar q"
proof (cases "find_char CHR ''?'' rest")
  case None
  with assms have "u' = u\<lparr>m_query := [], m_hasQuery := False\<rparr>"
    by (simp add: parseQuery_def)
  then show ?thesis using opt_canonical_def by auto
next
  case (Some n)
  with assms show ?thesis
    by (auto simp: parseQuery_def bindR_eq_Inr opt_canonical_def intro: query_g.norm_canonical)
qed

lemma isValidScheme_chars: "isValidScheme s \<Longrightarrow> list_all isSchemeTail s"
  by (auto simp: isValidScheme_def isSchemeTail_def split: list.splits)

lemma isValidScheme_not_Nil: "isValidScheme s \<Longrightarrow> s \<noteq> []"
  by (auto simp: isValidScheme_def)

lemma schemeTail_ascii: "list_all isSchemeTail s \<Longrightarrow> is_ascii s"
  by (rule strict_ascii, erule list.pred_mono_strong) (rule class_strict)

lemma userinfo_ascii: "list_all isUserInfoChar s \<Longrightarrow> is_ascii s"
  by (rule strict_ascii, erule list.pred_mono_strong) (rule class_strict)

lemma isValidScheme_lower [simp]: "isValidScheme (map toLowerAscii s) = isValidScheme s"
  by (cases s) (auto simp: isValidScheme_def list_all_iff)

lemma no_scheme_colon_iff:
  "no_scheme_colon p \<longleftrightarrow>
     (case find_char CHR '':'' p of None \<Rightarrow> True
      | Some c \<Rightarrow> (case find_char CHR ''/'' p of None \<Rightarrow> False | Some s \<Rightarrow> s < c))"
  unfolding no_scheme_colon_def
  by (induction p) (auto split: option.splits)

text \<open>The fields \<open>parseAuthority\<close> starts from.\<close>

definition fresh_authority :: "uri \<Rightarrow> bool" where
  "fresh_authority u \<longleftrightarrow> \<not> m_hasUserInfo u \<and> m_userInfo u = [] \<and> m_host u = []
     \<and> \<not> m_isIpLiteral u \<and> \<not> m_hasPort u \<and> m_port u = 0"

lemma find_char_same:
  "find_char c s = Some n \<Longrightarrow> find_char d s = Some n \<Longrightarrow> c = d"
  by (induction s arbitrary: n) (auto split: if_splits)

context boost_strings begin

lemma parseScheme_wf:
  assumes "parseScheme B rest u = Inr (rest', u')" "m_scheme u = []"
  shows "(\<exists>s. u' = u\<lparr>m_scheme := s\<rparr> \<and> s \<noteq> [] \<and> wf_scheme s)
     \<or> u' = u \<and> rest' = rest \<and> no_scheme_colon rest"
proof (cases "no_scheme_colon rest")
  case True
  then have "u' = u \<and> rest' = rest"
    using assms(1) by (auto simp: parseScheme_def no_scheme_colon_iff split: option.splits if_splits)
  with True show ?thesis by simp
next
  case False
  then obtain n where "isValidScheme (take n rest)"
    "u' = u\<lparr>m_scheme := to_lower_copy B (take n rest)\<rparr>"
    using assms(1)
    by (auto simp: parseScheme_def no_scheme_colon_iff Let_def split: option.splits if_splits
        dest: find_char_same)
  moreover from this(1) have "is_ascii (take n rest)" "take n rest \<noteq> []"
    using isValidScheme_chars schemeTail_ascii isValidScheme_not_Nil by blast+
  ultimately show ?thesis
    by (auto simp: to_lower_ascii wf_scheme_def comp_def)
qed

lemma parseUserInfo_wf:
  assumes "parseUserInfo a u = Inr (rest, u')" "\<not> m_hasUserInfo u" "m_userInfo u = []"
  shows "\<exists>ui h. u' = u\<lparr>m_userInfo := ui, m_hasUserInfo := h\<rparr> \<and> opt_canonical h isUserInfoChar ui"
proof (cases "find_char CHR ''@'' a")
  case None
  with assms have "u' = u\<lparr>m_userInfo := [], m_hasUserInfo := False\<rparr>"
    by (simp add: parseUserInfo_def)
  then show ?thesis using opt_canonical_def by auto
next
  case (Some n)
  with assms show ?thesis
    by (auto simp: parseUserInfo_def bindR_eq_Inr opt_canonical_def intro: userinfo_g.norm_canonical)
qed

lemma parseHost_wf:
  assumes "parseHost B hp u = Inr (port, u')" "\<not> m_isIpLiteral u"
  shows "\<exists>h l. u' = u\<lparr>m_host := h, m_isIpLiteral := l\<rparr> \<and> wf_host u'"
proof (cases "hp \<noteq> [] \<and> CHR ''['' = hp ! 0")
  case False
  then obtain h name where "normalizeComponent isRegNameChar ''host'' True name = Inr h"
    "u' = u\<lparr>m_host := h\<rparr>"
    using assms(1) unfolding parseHost_def Let_def if_not_P [OF False] bindR_eq_Inr
    by blast
  moreover from this assms(2) have "u' = u\<lparr>m_host := h, m_isIpLiteral := False\<rparr>" by simp
  moreover have "canonical isRegNameChar True h"
    using calculation(1) by (rule regname_g.norm_canonical)
  ultimately show ?thesis using assms(2) wf_host_def by auto
next
  case True
  then obtain l where l: "chkIpLiteral l = Inr ()"
    "u' = u\<lparr>m_host := to_lower_copy B l, m_isIpLiteral := True\<rparr>"
    using assms(1) unfolding parseHost_def
    by (auto simp: Let_def bindR_eq_Inr split: option.splits list.splits if_splits)
  from l(1) have "is_ascii l" using chkIpLiteral_chars userinfo_ascii by blast
  with l have "wf_host u'" by (simp add: wf_host_def to_lower_ascii comp_def)
  with l(2) show ?thesis by blast
qed

lemma parsePort_wf:
  assumes "parsePort p u = Inr u'" "\<not> m_hasPort u" "m_port u = 0"
  shows "\<exists>v h. u' = u\<lparr>m_port := v, m_hasPort := h\<rparr> \<and> (\<not> h \<longrightarrow> v = 0)"
proof (cases "p = []")
  case True
  with assms have "u' = u\<lparr>m_port := 0, m_hasPort := False\<rparr>" by (simp add: parsePort_def)
  then show ?thesis by auto
next
  case False
  with assms show ?thesis by (auto simp: parsePort_def bindR_eq_Inr)
qed

lemma parseAuthority_wf:
  assumes "parseAuthority B a u = Inr u'" "fresh_authority u"
  shows "\<exists>ui hu h l v hp. u' = u\<lparr>m_userInfo := ui, m_hasUserInfo := hu, m_host := h,
       m_isIpLiteral := l, m_port := v, m_hasPort := hp\<rparr>
     \<and> opt_canonical hu isUserInfoChar ui \<and> wf_host u' \<and> (\<not> hp \<longrightarrow> v = 0)"
proof -
  from assms(1) obtain rest u1 port u2 where
    1: "parseUserInfo a u = Inr (rest, u1)" and
    2: "parseHost B rest u1 = Inr (port, u2)" and
    3: "(case port of None \<Rightarrow> Inr u2 | Some p \<Rightarrow> parsePort p u2) = Inr u'"
    by (auto simp: parseAuthority_def bindR_eq_Inr)
  from parseUserInfo_wf [OF 1] assms(2) obtain ui hu where
    u1: "u1 = u\<lparr>m_userInfo := ui, m_hasUserInfo := hu\<rparr>" "opt_canonical hu isUserInfoChar ui"
    by (auto simp: fresh_authority_def)
  from parseHost_wf [OF 2] assms(2) u1 obtain h l where
    u2: "u2 = u1\<lparr>m_host := h, m_isIpLiteral := l\<rparr>" "wf_host u2"
    by (auto simp: fresh_authority_def)
  have "\<exists>v hp. u' = u2\<lparr>m_port := v, m_hasPort := hp\<rparr> \<and> (\<not> hp \<longrightarrow> v = 0)"
  proof (cases port)
    case None
    have "\<not> m_hasPort u2" "m_port u2 = 0"
      using assms(2) u1 u2 by (simp_all add: fresh_authority_def)
    then have "u2 = u2\<lparr>m_port := 0, m_hasPort := False\<rparr>" by (cases u2) simp
    with None 3 show ?thesis by (metis case_optionE option.simps(4) sum.inject(2))
  next
    case (Some p)
    with 3 assms(2) u1 u2 show ?thesis
      using parsePort_wf [of p u2 u'] by (simp add: fresh_authority_def)
  qed
  then obtain v hp where u': "u' = u2\<lparr>m_port := v, m_hasPort := hp\<rparr>" "\<not> hp \<longrightarrow> v = 0" by blast
  then have w: "wf_host u'" using u2(2) by (simp add: wf_host_def)
  have "u' = u\<lparr>m_userInfo := ui, m_hasUserInfo := hu, m_host := h,
       m_isIpLiteral := l, m_port := v, m_hasPort := hp\<rparr>"
    using u1(1) u2(1) u'(1) by simp
  with u1(2) w u'(2) show ?thesis by blast
qed

lemma parseNetPath_wf:
  assumes "parseNetPath B rest u = Inr (rest', u')" "\<not> m_hasAuthority u" "fresh_authority u"
  shows "(\<exists>ui hu h l v hp. u' = u\<lparr>m_hasAuthority := True, m_userInfo := ui, m_hasUserInfo := hu,
       m_host := h, m_isIpLiteral := l, m_port := v, m_hasPort := hp\<rparr>
       \<and> wf_authority u' \<and> at_slash rest')
     \<or> u' = u \<and> rest' = rest \<and> \<not> double_slash rest"
proof (cases "double_slash rest")
  case False
  then have "\<not> (length rest \<ge> 2 \<and> CHR ''/'' = rest ! 0 \<and> CHR ''/'' = rest ! 1)"
    by (cases rest; cases "tl rest") (auto simp: double_slash_def)
  then have "u' = u \<and> rest' = rest"
    using assms(1) unfolding parseNetPath_def by (simp only: if_False prod.inject sum.inject)
  with False show ?thesis by simp
next
  case True
  define w where "w = u\<lparr>m_hasAuthority := True\<rparr>"
  from True obtain r where r: "rest = CHR ''/'' # CHR ''/'' # r" by (auto simp: double_slash_def)
  obtain a where a: "parseAuthority B a w = Inr u'" "at_slash rest'"
  proof (cases "find_char_from CHR ''/'' 2 rest")
    case None
    with assms(1) r show ?thesis
      by (intro that [of r]) (auto simp: parseNetPath_def bindR_eq_Inr w_def)
  next
    case (Some e)
    then obtain k where "find_char CHR ''/'' r = Some k" "e = k + 2"
      using r by (auto simp: find_char_from_def)
    moreover from this(1) have "at_slash (drop k r)"
      by (elim find_char_SomeE) simp
    ultimately show ?thesis
      using assms(1) r Some
      by (intro that [of "take k r"]) (auto simp: parseNetPath_def bindR_eq_Inr w_def)
  qed
  have "fresh_authority w" using assms(3) by (simp add: w_def fresh_authority_def)
  from parseAuthority_wf [OF a(1) this] obtain ui hu h l v hp where
    e: "u' = w\<lparr>m_userInfo := ui, m_hasUserInfo := hu, m_host := h,
       m_isIpLiteral := l, m_port := v, m_hasPort := hp\<rparr>"
    and c: "opt_canonical hu isUserInfoChar ui" "wf_host u'" "\<not> hp \<longrightarrow> v = 0"
    by blast
  have f: "u' = u\<lparr>m_hasAuthority := True, m_userInfo := ui, m_hasUserInfo := hu, m_host := h,
       m_isIpLiteral := l, m_port := v, m_hasPort := hp\<rparr>"
    using e by (simp add: w_def)
  then have "wf_authority u'" using c by (simp add: wf_authority_def)
  with f a(2) show ?thesis by blast
qed

lemma norm_path_shape:
  assumes "normalizeComponent isPathChar cm False v = Inr p"
  shows "no_scheme_colon p = no_scheme_colon v" "double_slash p = double_slash v"
    "at_slash p = at_slash v"
proof -
  have "filter (\<lambda>c. c = CHR '':'' \<or> c = CHR ''/'') p = filter (\<lambda>c. c = CHR '':'' \<or> c = CHR ''/'') v"
    by (rule path_g.norm_delimiters [OF assms]) auto
  then show "no_scheme_colon p = no_scheme_colon v" by (simp add: no_scheme_colon_def)
  note h = path_g.norm_head [where d = "CHR ''/''"]
  have Nil: "v = [] \<longleftrightarrow> p = []"
    using assms by (cases rule: path_g.norm_cases) auto
  show "at_slash p = at_slash v"
    using h(1) [OF assms] Nil by (simp add: at_slash_def)
  show "double_slash p = double_slash v"
  proof (cases "\<exists>t. v = CHR ''/'' # t")
    case True
    then obtain t where t: "v = CHR ''/'' # t" by blast
    from h(2) [OF assms _ t] obtain t' where
      t': "p = CHR ''/'' # t'" "normalizeComponent isPathChar cm False t = Inr t'" by auto
    show ?thesis using h(1) [OF t'(2)] t t'(1) by (auto simp: double_slash_def)
  next
    case False
    with h(1) [OF assms] show ?thesis by (auto simp: double_slash_def)
  qed
qed

end

section \<open>Canonical paths\<close>

lemma canonical_segs:
  "canonical isPathChar False p \<longleftrightarrow> list_all (canonical isPathChar False) (segs p)"
proof (induction p rule: length_induct)
  case (1 p)
  obtain seg rest where s: "p = seg @ rest" "CHR ''/'' \<notin> set seg" "at_slash rest"
    by (rule first_segment)
  show ?case
  proof (cases "rest = []")
    case True
    with s show ?thesis by (simp add: segs_noslash)
  next
    case False
    with s obtain r where r: "rest = CHR ''/'' # r" by (auto simp: at_slash_def)
    have sl: "isPathChar CHR ''/''" by (simp add: isPathChar_def)
    have "canonical isPathChar False r \<longleftrightarrow> list_all (canonical isPathChar False) (segs r)"
      using 1 s r by simp
    moreover have "canonical isPathChar False p \<longleftrightarrow>
        canonical isPathChar False seg \<and> canonical isPathChar False r"
      using path_g.canonical_split [of False seg "CHR ''/''" r]
        path_g.canonical_append [of False seg "CHR ''/'' # r"] sl s r by auto
    ultimately show ?thesis using s r by (simp add: segs_split)
  qed
qed

context boost_strings begin

lemma canonical_removeDot:
  assumes "canonical isPathChar False p"
  shows "canonical isPathChar False (removeDotSegments B p)"
proof -
  have "list_all (canonical isPathChar False) (segs p)"
    using assms by (rule iffD1 [OF canonical_segs])
  then have "list_all (canonical isPathChar False) (segs (removeDotSegments B p))"
    using removeDot_segs [of p] by (auto simp: list_all_iff)
  then show ?thesis by (rule iffD2 [OF canonical_segs])
qed

lemma at_slash_removeDot: "at_slash p \<Longrightarrow> at_slash (removeDotSegments B p)"
  using removeDot_abs by (auto simp: at_slash_def removeDotSegments_def)

lemma parsePath_wf:
  assumes "parsePath B rest u = Inr u'"
  shows "\<exists>p. u' = u\<lparr>m_path := p\<rparr> \<and> canonical isPathChar False p
     \<and> (at_slash rest \<longrightarrow> at_slash p)
     \<and> (if m_scheme u \<noteq> [] \<or> m_hasAuthority u then no_dots p
        else no_scheme_colon p = no_scheme_colon rest \<and> double_slash p = double_slash rest)"
proof -
  from assms obtain p where p: "normalizeComponent isPathChar ''path'' False rest = Inr p"
    "u' = u\<lparr>m_path := (if m_scheme u \<noteq> [] \<or> m_hasAuthority u then removeDotSegments B p else p)\<rparr>"
    by (auto simp: parsePath_def bindR_eq_Inr)
  from p(1) have "canonical isPathChar False p" by (rule path_g.norm_canonical)
  with p(2) norm_path_shape [OF p(1)] show ?thesis
    by (intro exI [of _ "if m_scheme u \<noteq> [] \<or> m_hasAuthority u then removeDotSegments B p else p"])
      (simp add: canonical_removeDot at_slash_removeDot removeDot_no_dots)
qed

theorem parse_invariant:
  assumes "parse B text = Inr u"
  shows "wf_uri u"
proof -
  from assms obtain r1 u1 r2 u2 r3 u3 r4 u4 where
    1: "parseFragment text empty_uri = Inr (r1, u1)" and 2: "parseQuery r1 u1 = Inr (r2, u2)" and
    3: "parseScheme B r2 u2 = Inr (r3, u3)" and 4: "parseNetPath B r3 u3 = Inr (r4, u4)" and
    5: "parsePath B r4 u4 = Inr u"
    by (auto simp: parse_def parseImpl_def bindR_eq_Inr)
  obtain f hf where u1: "u1 = empty_uri\<lparr>m_fragment := f, m_hasFragment := hf\<rparr>"
    "opt_canonical hf isQueryOrFragmentChar f"
    using parseFragment_wf [OF 1] by (auto simp: empty_uri_def)
  obtain q hq where u2: "u2 = u1\<lparr>m_query := q, m_hasQuery := hq\<rparr>"
    "opt_canonical hq isQueryOrFragmentChar q"
    using parseQuery_wf [OF 2] u1 by (auto simp: empty_uri_def)
  obtain s where u3: "u3 = u2\<lparr>m_scheme := s\<rparr>" "wf_scheme s"
    "s = [] \<longrightarrow> no_scheme_colon r3"
  proof -
    have e: "u2 = u2\<lparr>m_scheme := []\<rparr>" using u1 u2 by (simp add: empty_uri_def)
    have "m_scheme u2 = []" using u1 u2 by (simp add: empty_uri_def)
    from parseScheme_wf [OF 3 this] that e show ?thesis by (metis wf_scheme_def)
  qed
  have fresh: "\<not> m_hasAuthority u3" "fresh_authority u3"
    using u1 u2 u3 by (simp_all add: fresh_authority_def empty_uri_def)
  obtain p where p: "u = u4\<lparr>m_path := p\<rparr>" "canonical isPathChar False p"
    "at_slash r4 \<longrightarrow> at_slash p"
    "if m_scheme u4 \<noteq> [] \<or> m_hasAuthority u4 then no_dots p
     else no_scheme_colon p = no_scheme_colon r4 \<and> double_slash p = double_slash r4"
    using parsePath_wf [OF 5] by blast
  from parseNetPath_wf [OF 4 fresh] show ?thesis
  proof (elim disjE exE conjE)
    fix ui hu h l v hp
    assume u4: "u4 = u3\<lparr>m_hasAuthority := True, m_userInfo := ui, m_hasUserInfo := hu,
       m_host := h, m_isIpLiteral := l, m_port := v, m_hasPort := hp\<rparr>"
      and w: "wf_authority u4" "at_slash r4"
    have "wf_authority u" using w(1) p(1) by simp
    then show ?thesis using p u4 w(2) u3 u2 u1 by (simp add: wf_uri_def wf_path_def)
  next
    assume u4: "u4 = u3" "r4 = r3" "\<not> double_slash r3"
    have "wf_authority u"
      using fresh p(1) u4(1) by (simp add: wf_authority_def fresh_authority_def)
    then show ?thesis using p u4 u3 u2 u1 fresh by (auto simp: wf_uri_def wf_path_def)
  qed
qed

end

end
