(* ===== verification/UriRoundtrip.thy ===== *)
theory UriRoundtrip
  imports UriInvariant
begin

text \<open>
  Recomposition (\<open>toString\<close>) and parsing are inverse to each other on the values that satisfy
  the invariant, with one exception: a URI without an authority whose path begins with two slashes
  is rendered so that its path reads as an authority.
\<close>

section \<open>Rendered parts contain no delimiters of an earlier stage\<close>

definition scheme_part :: "uri \<Rightarrow> string" where
  "scheme_part u = (if m_scheme u \<noteq> [] then m_scheme u @ '':'' else [])"

definition userinfo_part :: "uri \<Rightarrow> string" where
  "userinfo_part u = (if m_hasUserInfo u then m_userInfo u @ ''@'' else [])"

definition authority_part :: "uri \<Rightarrow> string" where
  "authority_part u = (if m_hasAuthority u then ''//'' @ userinfo_part u @ authority u else [])"

definition query_part :: "uri \<Rightarrow> string" where
  "query_part u = (if m_hasQuery u then ''?'' @ m_query u else [])"

definition fragment_part :: "uri \<Rightarrow> string" where
  "fragment_part u = (if m_hasFragment u then ''#'' @ m_fragment u else [])"

lemma toString_parts:
  "toString u = ((scheme_part u @ authority_part u @ m_path u) @ query_part u) @ fragment_part u"
  by (simp add: toString_def scheme_part_def authority_part_def userinfo_part_def query_part_def
      fragment_part_def)

text \<open>What the parts are made of.\<close>

definition auth_char :: "char \<Rightarrow> bool" where
  "auth_char c \<longleftrightarrow> isUserInfoChar c \<or> c = CHR ''%''"

definition path_char :: "char \<Rightarrow> bool" where
  "path_char c \<longleftrightarrow> isPathChar c \<or> c = CHR ''%''"

definition query_char :: "char \<Rightarrow> bool" where
  "query_char c \<longleftrightarrow> isQueryOrFragmentChar c \<or> c = CHR ''%''"

lemmas part_chars = auth_char_def path_char_def query_char_def

lemma part_char_notin:
  "\<not> auth_char CHR ''#''" "\<not> auth_char CHR ''?''" "\<not> auth_char CHR ''/''" "\<not> auth_char CHR ''@''"
  "\<not> auth_char CHR ''[''" "\<not> auth_char CHR '']''"
  "\<not> path_char CHR ''#''" "\<not> path_char CHR ''?''"
  "\<not> query_char CHR ''#''"
  by (simp_all add: part_chars class_defs)

lemma strict_delims [simp]:
  "strict_char CHR '':''" "strict_char CHR ''/''" "strict_char CHR ''@''" "strict_char CHR ''?''"
  "strict_char CHR ''#''" "strict_char CHR ''%''" "strict_char CHR ''[''" "strict_char CHR '']''"
  by (simp_all add: strict_char_def)

lemma part_strict:
  "auth_char c \<Longrightarrow> strict_char c" "path_char c \<Longrightarrow> strict_char c" "query_char c \<Longrightarrow> strict_char c"
  using class_strict by (auto simp: part_chars) (simp add: isQueryOrFragmentChar_def class_strict)

lemma regname_userinfo: "isRegNameChar c \<Longrightarrow> isUserInfoChar c"
  by (auto simp: isUserInfoChar_def isRegNameChar_def)

lemma canonical_parts:
  "canonical isUserInfoChar lw s \<Longrightarrow> list_all auth_char s"
  "canonical isRegNameChar lw s \<Longrightarrow> list_all auth_char s"
  "canonical isPathChar lw s \<Longrightarrow> list_all path_char s"
  "canonical isQueryOrFragmentChar lw s \<Longrightarrow> list_all query_char s"
  unfolding list_all_iff part_chars
  using userinfo_g.canonical_chars regname_g.canonical_chars path_g.canonical_chars
    query_g.canonical_chars regname_userinfo by blast+

lemma digits_auth: "list_all isDigit s \<Longrightarrow> list_all auth_char s"
  by (erule list.pred_mono_strong) (simp add: auth_char_def isUserInfoChar_def isUnreserved_def)

lemma scheme_auth: "isValidScheme s \<Longrightarrow> list_all auth_char s \<and> CHR '':'' \<notin> set s"
proof -
  assume "isValidScheme s"
  then have "list_all isSchemeTail s" by (rule isValidScheme_chars)
  moreover have "isSchemeTail c \<Longrightarrow> auth_char c \<and> c \<noteq> CHR '':''" for c
    by (auto simp: isSchemeTail_def auth_char_def isUserInfoChar_def isUnreserved_def isSubDelim_def
        class_defs)
  ultimately show ?thesis by (auto simp: list_all_iff)
qed

text \<open>The host as rendered: a name, or a literal between brackets.\<close>

lemma wf_host_cases:
  assumes "wf_host u"
  obtains (Name) "\<not> m_isIpLiteral u" "canonical isRegNameChar True (m_host u)"
      "hostForAuthority u = m_host u"
  | (Literal) "m_isIpLiteral u" "chkIpLiteral (m_host u) = Inr ()"
      "map toLowerAscii (m_host u) = m_host u" "list_all auth_char (m_host u)"
      "hostForAuthority u = CHR ''['' # m_host u @ '']''"
proof (cases "m_isIpLiteral u")
  case True
  with assms have "chkIpLiteral (m_host u) = Inr ()" by (simp add: wf_host_def)
  moreover from this have "list_all isUserInfoChar (m_host u)" using chkIpLiteral_chars by blast
  then have "list_all auth_char (m_host u)"
    by (rule list.pred_mono_strong) (simp add: auth_char_def)
  ultimately show thesis
    using assms True by (intro that(2)) (simp_all add: wf_host_def hostForAuthority_def)
next
  case False
  with assms show thesis by (intro that(1)) (simp_all add: wf_host_def hostForAuthority_def)
qed

lemma authority_part_chars:
  assumes "wf_authority u" "c \<in> set (authority_part u)"
  shows "auth_char c \<or> c \<in> set ''/@[]''"
proof (cases "m_hasAuthority u")
  case True
  with assms(1) have h: "wf_host u" "opt_canonical (m_hasUserInfo u) isUserInfoChar (m_userInfo u)"
    by (simp_all add: wf_authority_def)
  have ui: "m_hasUserInfo u \<Longrightarrow> list_all auth_char (m_userInfo u)"
    using h(2) canonical_parts(1) by (simp add: opt_canonical_def)
  have host: "c \<in> set (hostForAuthority u) \<Longrightarrow> auth_char c \<or> c \<in> set ''[]''"
    using h(1) by (cases rule: wf_host_cases) (use canonical_parts(2) in \<open>auto simp: list_all_iff\<close>)
  have "auth_char CHR '':''" by (simp add: auth_char_def)
  with assms(2) True ui host digits_auth [OF dec_string_digits] show ?thesis
    by (auto simp: authority_part_def userinfo_part_def authority_def list_all_iff split: if_splits)
next
  case False
  with assms(2) show ?thesis by (simp add: authority_part_def)
qed

section \<open>Each stage reads its part back\<close>

lemma parseFragment_part:
  assumes "CHR ''#'' \<notin> set X" "opt_canonical (m_hasFragment u) isQueryOrFragmentChar (m_fragment u)"
    "\<not> m_hasFragment v" "m_fragment v = []"
  shows "parseFragment (X @ fragment_part u) v =
    Inr (X, v\<lparr>m_fragment := m_fragment u, m_hasFragment := m_hasFragment u\<rparr>)"
proof (cases "m_hasFragment u")
  case True
  then show ?thesis
    using assms by (simp add: parseFragment_def fragment_part_def opt_canonical_def
        query_g.canonical_norm)
next
  case False
  with assms have "v\<lparr>m_fragment := m_fragment u, m_hasFragment := m_hasFragment u\<rparr> = v"
    by (cases v) (simp add: opt_canonical_def)
  with False assms show ?thesis by (simp add: parseFragment_def fragment_part_def)
qed

lemma parseQuery_part:
  assumes "CHR ''?'' \<notin> set X" "opt_canonical (m_hasQuery u) isQueryOrFragmentChar (m_query u)"
    "\<not> m_hasQuery v" "m_query v = []"
  shows "parseQuery (X @ query_part u) v =
    Inr (X, v\<lparr>m_query := m_query u, m_hasQuery := m_hasQuery u\<rparr>)"
proof (cases "m_hasQuery u")
  case True
  then show ?thesis
    using assms by (simp add: parseQuery_def query_part_def opt_canonical_def query_g.canonical_norm)
next
  case False
  with assms have "v\<lparr>m_query := m_query u, m_hasQuery := m_hasQuery u\<rparr> = v"
    by (cases v) (simp add: opt_canonical_def)
  with False assms show ?thesis by (simp add: parseQuery_def query_part_def)
qed

lemma not_regname: "\<not> (isRegNameChar CHR '':'' \<or> CHR '':'' = CHR ''%'')"
    "\<not> (isRegNameChar CHR ''['' \<or> CHR ''['' = CHR ''%'')"
  by (simp_all add: class_defs)

definition port_text :: "uri \<Rightarrow> string option" where
  "port_text u = (if m_hasPort u then Some (dec_string (unat (m_port u))) else None)"

text \<open>When the rendering of a value reads back as that value.\<close>

definition renders_faithfully :: "uri \<Rightarrow> bool" where
  "renders_faithfully u \<longleftrightarrow> m_hasAuthority u \<or> \<not> double_slash (m_path u)"

text \<open>The sources of the parts of a resolved reference.\<close>

definition resolvedPath :: "boost \<Rightarrow> uri \<Rightarrow> uri \<Rightarrow> string" where
  "resolvedPath B base ref =
     (if m_scheme ref \<noteq> [] \<or> m_hasAuthority ref then removeDotSegments B (m_path ref)
      else if m_path ref = [] then m_path base
      else if CHR ''/'' = m_path ref ! 0 then removeDotSegments B (m_path ref)
      else removeDotSegments B (mergePaths base (m_path ref)))"

definition authorityOf :: "uri \<Rightarrow> uri \<Rightarrow> uri" where
  "authorityOf base ref = (if m_scheme ref \<noteq> [] \<or> m_hasAuthority ref then ref else base)"

definition queryOf :: "uri \<Rightarrow> uri \<Rightarrow> uri" where
  "queryOf base ref =
     (if m_scheme ref \<noteq> [] \<or> m_hasAuthority ref \<or> m_path ref \<noteq> [] \<or> m_hasQuery ref
      then ref else base)"

context boost_strings begin

lemma parseScheme_part:
  assumes "wf_scheme (m_scheme u)" "m_scheme u = [] \<Longrightarrow> no_scheme_colon Y" "m_scheme v = []"
  shows "parseScheme B (scheme_part u @ Y) v = Inr (Y, v\<lparr>m_scheme := m_scheme u\<rparr>)"
proof (cases "m_scheme u = []")
  case True
  with assms have "v\<lparr>m_scheme := m_scheme u\<rparr> = v" by (cases v) simp
  with True assms(2) show ?thesis
    by (auto simp: scheme_part_def parseScheme_def no_scheme_colon_iff split: option.splits)
next
  case False
  with assms(1) have s: "isValidScheme (m_scheme u)" "map toLowerAscii (m_scheme u) = m_scheme u"
    by (simp_all add: wf_scheme_def)
  have n: "CHR '':'' \<notin> set (m_scheme u)" "CHR ''/'' \<notin> set (m_scheme u)"
    using scheme_auth [OF s(1)] part_char_notin(3) by (auto simp: list_all_iff)
  have "(case find_char CHR ''/'' (m_scheme u @ CHR '':'' # Y) of None \<Rightarrow> True
     | Some slashPos \<Rightarrow> length (m_scheme u) < slashPos)"
    using n(2) by (simp add: find_char_append split: option.split)
  moreover have "is_ascii (m_scheme u)"
    using s(1) isValidScheme_chars schemeTail_ascii by blast
  ultimately show ?thesis
    using False n(1) s by (simp add: scheme_part_def parseScheme_def to_lower_ascii)
qed

lemma parseUserInfo_part:
  assumes "opt_canonical (m_hasUserInfo u) isUserInfoChar (m_userInfo u)" "CHR ''@'' \<notin> set X"
    "\<not> m_hasUserInfo v" "m_userInfo v = []"
  shows "parseUserInfo (userinfo_part u @ X) v =
    Inr (X, v\<lparr>m_userInfo := m_userInfo u, m_hasUserInfo := m_hasUserInfo u\<rparr>)"
proof (cases "m_hasUserInfo u")
  case True
  with assms(1) have c: "canonical isUserInfoChar False (m_userInfo u)"
    by (simp add: opt_canonical_def)
  with canonical_parts(1) part_char_notin(4) have "CHR ''@'' \<notin> set (m_userInfo u)"
    by (auto simp: list_all_iff)
  with True c show ?thesis
    by (simp add: parseUserInfo_def userinfo_part_def userinfo_g.canonical_norm)
next
  case False
  with assms have "v\<lparr>m_userInfo := m_userInfo u, m_hasUserInfo := m_hasUserInfo u\<rparr> = v"
    by (cases v) (simp add: opt_canonical_def)
  with False assms show ?thesis by (simp add: parseUserInfo_def userinfo_part_def)
qed

lemma parseHost_part:
  assumes "wf_host u" "\<not> m_isIpLiteral v"
  shows "parseHost B (authority u) v =
    Inr (port_text u, v\<lparr>m_host := m_host u, m_isIpLiteral := m_isIpLiteral u\<rparr>)"
  using assms(1)
proof (cases rule: wf_host_cases)
  case Name
  have n: "CHR '':'' \<notin> set (m_host u)" "CHR ''['' \<notin> set (m_host u)"
    using regname_g.canonical_chars [OF Name(2)] not_regname by blast+
  have colon: "find_char CHR '':'' (authority u) =
      (if m_hasPort u then Some (length (m_host u)) else None)"
    using n(1) by (simp add: authority_def Name(3))
  have nb: "\<not> (authority u \<noteq> [] \<and> CHR ''['' = authority u ! 0)"
    using n(2) by (cases "m_host u") (auto simp: authority_def Name(3))
  have "v\<lparr>m_host := m_host u, m_isIpLiteral := m_isIpLiteral u\<rparr> = v\<lparr>m_host := m_host u\<rparr>"
    using Name(1) assms(2) by (cases v) simp
  then show ?thesis
    unfolding parseHost_def if_not_P [OF nb] Let_def colon
    using regname_g.canonical_norm [OF Name(2)]
    by (simp add: authority_def Name(3) port_text_def)
next
  case Literal
  have "CHR '']'' \<notin> set (m_host u)"
    using Literal(4) part_char_notin(6) by (auto simp: list_all_iff)
  then have close: "find_char CHR '']'' (authority u) = Some (Suc (length (m_host u)))"
    by (simp add: authority_def Literal(5))
  have "is_ascii (m_host u)"
    using chkIpLiteral_chars [OF Literal(2)] userinfo_ascii by blast
  then show ?thesis
    unfolding parseHost_def close
    using Literal by (simp add: authority_def port_text_def Let_def to_lower_ascii)
qed

lemma parsePort_part:
  "parsePort (dec_string (unat (p :: 16 word))) v = Inr (v\<lparr>m_port := p, m_hasPort := True\<rparr>)"
proof -
  have "unat p < 65536" using unsigned_less [of p, where 'a = nat] by simp
  then have "portLoop 0 (dec_string (unat p)) = Inr (word_of_nat (unat p))"
    by (intro portLoop_dec_string) simp
  moreover have "ucast (ucast p :: 32 word) = p"
    by (rule bit_word_eqI) (auto simp: bit_simps)
  ultimately show ?thesis by (simp add: parsePort_def)
qed

lemma parseAuthority_part:
  assumes "m_hasAuthority u" "wf_authority u" "fresh_authority v"
  shows "parseAuthority B (userinfo_part u @ authority u) v =
    Inr (v\<lparr>m_userInfo := m_userInfo u, m_hasUserInfo := m_hasUserInfo u, m_host := m_host u,
       m_isIpLiteral := m_isIpLiteral u, m_port := m_port u, m_hasPort := m_hasPort u\<rparr>)"
proof -
  from assms(1,2) have w: "opt_canonical (m_hasUserInfo u) isUserInfoChar (m_userInfo u)"
    "wf_host u" "\<not> m_hasPort u \<longrightarrow> m_port u = 0"
    by (simp_all add: wf_authority_def)
  have at: "CHR ''@'' \<notin> set (authority u)"
  proof -
    have "CHR ''@'' \<notin> set (hostForAuthority u)"
      using w(2) by (cases rule: wf_host_cases)
        (use canonical_parts(2) part_char_notin(4) in \<open>auto simp: list_all_iff\<close>)
    then show ?thesis
      using digits_auth [OF dec_string_digits] part_char_notin(4)
      by (auto simp: authority_def list_all_iff)
  qed
  define v1 where "v1 = v\<lparr>m_userInfo := m_userInfo u, m_hasUserInfo := m_hasUserInfo u\<rparr>"
  define v2 where "v2 = v1\<lparr>m_host := m_host u, m_isIpLiteral := m_isIpLiteral u\<rparr>"
  have 1: "parseUserInfo (userinfo_part u @ authority u) v = Inr (authority u, v1)"
    unfolding v1_def using assms(3) parseUserInfo_part [OF w(1) at]
    by (simp add: fresh_authority_def)
  have 2: "parseHost B (authority u) v1 = Inr (port_text u, v2)"
    unfolding v2_def using assms(3) parseHost_part [OF w(2)]
    by (simp add: fresh_authority_def v1_def)
  have "\<not> m_hasPort v2" "m_port v2 = 0"
    using assms(3) by (simp_all add: v2_def v1_def fresh_authority_def)
  then have e: "v2 = v2\<lparr>m_port := 0, m_hasPort := False\<rparr>" by (cases v2) simp
  have "(case port_text u of None \<Rightarrow> Inr v2 | Some p \<Rightarrow> parsePort p v2) =
      Inr (v2\<lparr>m_port := m_port u, m_hasPort := m_hasPort u\<rparr>)"
    using w(3) e by (cases "m_hasPort u") (simp_all add: port_text_def parsePort_part)
  then show ?thesis
    by (simp add: parseAuthority_def 1 2) (simp add: v2_def v1_def)
qed

lemma parseNetPath_part:
  assumes "wf_uri u" "m_hasAuthority u \<or> \<not> double_slash (m_path u)"
    "\<not> m_hasAuthority v" "fresh_authority v"
  shows "parseNetPath B (authority_part u @ m_path u) v =
    Inr (m_path u, copyAuthorityFrom u v)"
proof (cases "m_hasAuthority u")
  case True
  from assms(1) True have w: "wf_authority u" "at_slash (m_path u)"
    by (auto simp: wf_uri_def wf_path_def)
  let ?ua = "userinfo_part u @ authority u"
  have ns: "CHR ''/'' \<notin> set ?ua"
  proof -
    have "CHR ''/'' \<notin> set (hostForAuthority u)"
      using w(1) True by (auto simp: wf_authority_def elim!: wf_host_cases)
        (use canonical_parts(2) part_char_notin(3) in \<open>auto simp: list_all_iff\<close>)
    moreover have "CHR ''/'' \<notin> set (userinfo_part u)"
      using w(1) True canonical_parts(1) part_char_notin(3)
      by (auto simp: wf_authority_def userinfo_part_def opt_canonical_def list_all_iff)
    ultimately show ?thesis
      using digits_auth [OF dec_string_digits] part_char_notin(3)
      by (auto simp: authority_def list_all_iff)
  qed
  define w1 where "w1 = v\<lparr>m_hasAuthority := True\<rparr>"
  have "fresh_authority w1" using assms(4) by (simp add: fresh_authority_def w1_def)
  note pa = parseAuthority_part [OF True w(1) this]
  have res: "w1\<lparr>m_userInfo := m_userInfo u, m_hasUserInfo := m_hasUserInfo u, m_host := m_host u,
       m_isIpLiteral := m_isIpLiteral u, m_port := m_port u, m_hasPort := m_hasPort u\<rparr>
     = copyAuthorityFrom u v"
    using True by (simp add: copyAuthorityFrom_def w1_def)
  have rendered: "authority_part u @ m_path u = CHR ''/'' # CHR ''/'' # (?ua @ m_path u)"
    using True by (simp add: authority_part_def)
  have f: "find_char_from CHR ''/'' 2 (CHR ''/'' # CHR ''/'' # (?ua @ m_path u)) =
      (if m_path u = [] then None else Some (2 + length ?ua))"
    using find_slash [OF ns w(2)] by (simp add: find_char_from_def)
  show ?thesis
  proof (cases "m_path u = []")
    case True
    then show ?thesis
      unfolding rendered parseNetPath_def f using pa res by (simp add: w1_def)
  next
    case False
    then show ?thesis
      unfolding rendered parseNetPath_def f using pa res by (simp add: w1_def)
  qed
next
  case False
  with assms(2) have nd: "\<not> (length (m_path u) \<ge> 2 \<and> CHR ''/'' = m_path u ! 0 \<and> CHR ''/'' = m_path u ! 1)"
    by (cases "m_path u"; cases "tl (m_path u)") (auto simp: double_slash_def)
  have "copyAuthorityFrom u v = v"
    using False assms(1,3,4)
    by (cases v) (simp add: copyAuthorityFrom_def wf_uri_def wf_authority_def fresh_authority_def)
  with False show ?thesis
    unfolding parseNetPath_def by (simp only: authority_part_def if_False append_Nil nd)
qed

lemma parsePath_part:
  assumes "wf_uri u" "m_scheme v = m_scheme u" "m_hasAuthority v = m_hasAuthority u"
  shows "parsePath B (m_path u) v = Inr (v\<lparr>m_path := m_path u\<rparr>)"
  using assms by (auto simp: parsePath_def wf_uri_def wf_path_def path_g.canonical_norm
      removeDot_fixpoint)

section \<open>The whole reference\<close>

lemma toString_strict:
  assumes "wf_uri u"
  shows "chkStrictCharacters (toString u) = Inr ()"
proof -
  have q: "opt_canonical (m_hasQuery u) isQueryOrFragmentChar (m_query u)"
    "opt_canonical (m_hasFragment u) isQueryOrFragmentChar (m_fragment u)"
    "canonical isPathChar False (m_path u)" "wf_authority u" "wf_scheme (m_scheme u)"
    using assms by (auto simp: wf_uri_def wf_path_def)
  have "list_all strict_char (query_part u)" "list_all strict_char (fragment_part u)"
    using q(1,2) canonical_parts(4) part_strict(3)
    by (auto simp: query_part_def fragment_part_def opt_canonical_def list_all_iff)
  moreover have "list_all strict_char (m_path u)"
    using canonical_parts(3) [OF q(3)] part_strict(2) by (auto simp: list_all_iff)
  moreover have "c \<in> set (authority_part u) \<Longrightarrow> strict_char c" for c
    using authority_part_chars [OF q(4), of c] part_strict(1) [of c] by auto
  then have "list_all strict_char (authority_part u)" by (simp add: list_all_iff)
  moreover have "list_all strict_char (scheme_part u)"
    using q(5) scheme_auth part_strict(1)
    by (auto simp: scheme_part_def wf_scheme_def list_all_iff)
  ultimately show ?thesis by (simp add: chkStrictCharacters_iff toString_parts)
qed

lemma early_delimiters:
  assumes "wf_uri u" "d = CHR ''#'' \<or> d = CHR ''?''"
  shows "d \<notin> set (scheme_part u @ authority_part u @ m_path u)"
proof -
  have nd: "\<not> auth_char d" "\<not> path_char d" "d \<notin> set ''/@[]:''"
    using assms(2) part_char_notin by auto
  have "d \<notin> set (scheme_part u)"
    using assms(1) nd scheme_auth by (auto simp: scheme_part_def wf_uri_def wf_scheme_def list_all_iff)
  moreover have "d \<notin> set (authority_part u)"
    using assms(1) nd authority_part_chars by (auto simp: wf_uri_def)
  moreover have "d \<notin> set (m_path u)"
    using assms(1) nd canonical_parts(3) by (auto simp: wf_uri_def wf_path_def list_all_iff)
  ultimately show ?thesis by simp
qed

lemma authority_path_no_scheme:
  "wf_uri u \<Longrightarrow> m_scheme u = [] \<Longrightarrow> no_scheme_colon (authority_part u @ m_path u)"
  by (cases "m_hasAuthority u")
    (simp_all add: authority_part_def no_scheme_colon_def wf_uri_def wf_path_def)

lemma parse_rendered_authority:
  assumes "wf_uri u" "v = empty_uri\<lparr>m_fragment := m_fragment u, m_hasFragment := m_hasFragment u,
     m_query := m_query u, m_hasQuery := m_hasQuery u, m_scheme := m_scheme u\<rparr>"
    "renders_faithfully u"
  shows "bindR (parseNetPath B (authority_part u @ m_path u) v) (\<lambda>(r, w). parsePath B r w) = Inr u"
proof -
  have "\<not> m_hasAuthority v" "fresh_authority v"
    using assms(2) by (simp_all add: empty_uri_def fresh_authority_def)
  with assms(1,3) have "parseNetPath B (authority_part u @ m_path u) v =
      Inr (m_path u, copyAuthorityFrom u v)"
    unfolding renders_faithfully_def by (rule parseNetPath_part)
  moreover have "parsePath B (m_path u) (copyAuthorityFrom u v) =
      Inr ((copyAuthorityFrom u v)\<lparr>m_path := m_path u\<rparr>)"
    using assms(1) by (rule parsePath_part) (simp_all add: copyAuthorityFrom_def assms(2))
  moreover have "(copyAuthorityFrom u v)\<lparr>m_path := m_path u\<rparr> = u"
    by (cases u) (simp add: copyAuthorityFrom_def assms(2) empty_uri_def)
  ultimately show ?thesis by simp
qed

lemma parse_toString_stages:
  assumes "wf_uri u"
  shows "parse B (toString u) =
    bindR (parseNetPath B (authority_part u @ m_path u)
             (empty_uri\<lparr>m_fragment := m_fragment u, m_hasFragment := m_hasFragment u,
               m_query := m_query u, m_hasQuery := m_hasQuery u, m_scheme := m_scheme u\<rparr>))
      (\<lambda>(r, w). parsePath B r w)"
proof -
  let ?X = "scheme_part u @ authority_part u @ m_path u"
  let ?v1 = "empty_uri\<lparr>m_fragment := m_fragment u, m_hasFragment := m_hasFragment u\<rparr>"
  let ?v2 = "?v1\<lparr>m_query := m_query u, m_hasQuery := m_hasQuery u\<rparr>"
  have hash: "CHR ''#'' \<notin> set (?X @ query_part u)"
    using early_delimiters [OF assms, of "CHR ''#''"] assms canonical_parts(4) part_char_notin(9)
    by (auto simp: query_part_def wf_uri_def opt_canonical_def list_all_iff)
  have 1: "parseFragment (toString u) empty_uri = Inr (?X @ query_part u, ?v1)"
    unfolding toString_parts
    using parseFragment_part [OF hash] assms by (simp add: wf_uri_def empty_uri_def)
  have 2: "parseQuery (?X @ query_part u) ?v1 = Inr (?X, ?v2)"
    using parseQuery_part [OF early_delimiters [OF assms]] assms
    by (simp add: wf_uri_def empty_uri_def)
  have 3: "parseScheme B ?X ?v2 = Inr (authority_part u @ m_path u, ?v2\<lparr>m_scheme := m_scheme u\<rparr>)"
    using assms authority_path_no_scheme [OF assms]
    by (intro parseScheme_part) (simp_all add: wf_uri_def empty_uri_def)
  show ?thesis
    by (simp only: parse_def parseImpl_def toString_strict [OF assms] bindR_simps 1 2 3 prod.case)
qed

lemma parse_toString: "wf_uri u \<Longrightarrow> renders_faithfully u \<Longrightarrow> parse B (toString u) = Inr u"
  using parse_toString_stages parse_rendered_authority by simp

lemma parse_toString_double_slash:
  assumes "wf_uri u" "\<not> renders_faithfully u"
  shows "parse B (toString u) \<noteq> Inr u"
proof
  assume p: "parse B (toString u) = Inr u"
  define v where "v = empty_uri\<lparr>m_fragment := m_fragment u, m_hasFragment := m_hasFragment u,
     m_query := m_query u, m_hasQuery := m_hasQuery u, m_scheme := m_scheme u\<rparr>"
  have a: "\<not> m_hasAuthority u" "double_slash (m_path u)"
    using assms(2) by (auto simp: renders_faithfully_def)
  then obtain r w where 1: "parseNetPath B (m_path u) v = Inr (r, w)" and
    2: "parsePath B r w = Inr u"
    using p by (auto simp: parse_toString_stages [OF assms(1)] bindR_eq_Inr authority_part_def v_def)
  have "\<not> m_hasAuthority v" "fresh_authority v"
    by (simp_all add: v_def empty_uri_def fresh_authority_def)
  from parseNetPath_wf [OF 1 this] a(2) have "m_hasAuthority w" by auto
  moreover from parsePath_wf [OF 2] have "m_hasAuthority u = m_hasAuthority w" by auto
  ultimately show False using a(1) by simp
qed

section \<open>Reference resolution keeps the invariant\<close>

lemma wf_authority_copy [simp]:
  "wf_authority (copyAuthorityFrom o1 u) = wf_authority o1"
  by (simp add: wf_authority_def wf_host_def copyAuthorityFrom_def)

lemma mergePaths_wf:
  assumes "wf_uri base" "canonical isPathChar False p"
  shows "canonical isPathChar False (mergePaths base p)"
    "m_hasAuthority base \<Longrightarrow> at_slash (mergePaths base p)"
proof -
  have c: "canonical isPathChar False (m_path base)" "isPathChar CHR ''/''"
    using assms(1) by (auto simp: wf_uri_def wf_path_def isPathChar_def)
  have at: "m_hasAuthority base \<Longrightarrow> at_slash (m_path base)"
    using assms(1) by (simp add: wf_uri_def wf_path_def)
  have "canonical isPathChar False (mergePaths base p) \<and>
    (m_hasAuthority base \<longrightarrow> at_slash (mergePaths base p))"
  proof (cases "rfind_char CHR ''/'' (m_path base)")
    case None
    then have "CHR ''/'' \<notin> set (m_path base)" by (simp add: rfind_char_None_iff)
    with at have "m_hasAuthority base \<Longrightarrow> m_path base = []" by (auto simp: at_slash_def)
    with None assms(2) c show ?thesis by (auto simp: mergePaths_def)
  next
    case (Some n)
    then obtain ys zs where s: "m_path base = ys @ CHR ''/'' # zs" "take (Suc n) (m_path base) = ys @ ''/''"
      by (elim rfind_char_SomeE) metis
    have "canonical isPathChar False ys"
      using path_g.canonical_split [of False ys "CHR ''/''" zs] c(1) s(1) by simp
    then have "canonical isPathChar False ((ys @ ''/'') @ p)"
      using path_g.canonical_append [of False ys] c(2) assms(2) by simp
    moreover have "m_hasAuthority base \<Longrightarrow> at_slash ((ys @ ''/'') @ p)"
      using at s(1) by (cases ys) (auto simp: at_slash_def)
    ultimately show ?thesis using Some s by (simp add: mergePaths_def)
  qed
  then show "canonical isPathChar False (mergePaths base p)"
    "m_hasAuthority base \<Longrightarrow> at_slash (mergePaths base p)" by simp_all
qed

text \<open>A resolved value: authority, query and fragment of well-formed values, and its path.\<close>

lemma wf_resolved:
  assumes "wf_scheme s" "s \<noteq> []" "wf_authority a"
    "opt_canonical (m_hasQuery q) isQueryOrFragmentChar (m_query q)"
    "opt_canonical (m_hasFragment f) isQueryOrFragmentChar (m_fragment f)"
    "canonical isPathChar False p" "no_dots p" "m_hasAuthority a \<Longrightarrow> at_slash p"
    "u = (copyAuthorityFrom a (copyQueryFrom q empty_uri))\<lparr>m_scheme := s, m_path := p,
       m_fragment := m_fragment f, m_hasFragment := m_hasFragment f\<rparr>"
  shows "wf_uri u"
proof -
  have "wf_authority u"
    using assms(3) unfolding assms(9) wf_authority_def wf_host_def
    by (simp add: copyAuthorityFrom_def)
  then show ?thesis
    using assms(1-8) unfolding wf_uri_def wf_path_def assms(9)
    by (simp add: copyAuthorityFrom_def copyQueryFrom_def)
qed

lemma resolve_shape:
  assumes "resolve B base ref = Inr u"
  shows "m_scheme base \<noteq> []"
    "u = (copyAuthorityFrom (authorityOf base ref) (copyQueryFrom (queryOf base ref) empty_uri))
       \<lparr>m_scheme := (if m_scheme ref \<noteq> [] then m_scheme ref else m_scheme base),
        m_path := resolvedPath B base ref,
        m_fragment := m_fragment ref, m_hasFragment := m_hasFragment ref\<rparr>"
  using assms
  by (auto simp: resolve_def bindR_eq_Inr Let_def authorityOf_def queryOf_def resolvedPath_def
      copyAuthorityFrom_def copyQueryFrom_def)

lemma resolvedPath_wf:
  assumes "wf_uri base" "wf_uri ref" "m_scheme base \<noteq> []"
  shows "canonical isPathChar False (resolvedPath B base ref)" "no_dots (resolvedPath B base ref)"
    "m_hasAuthority (authorityOf base ref) \<Longrightarrow> at_slash (resolvedPath B base ref)"
proof -
  have b: "canonical isPathChar False (m_path base)" "no_dots (m_path base)"
    "m_hasAuthority base \<Longrightarrow> at_slash (m_path base)"
    using assms(1,3) by (auto simp: wf_uri_def wf_path_def)
  have r: "canonical isPathChar False (m_path ref)" "m_hasAuthority ref \<Longrightarrow> at_slash (m_path ref)"
    using assms(2) by (auto simp: wf_uri_def wf_path_def)
  show "canonical isPathChar False (resolvedPath B base ref)"
    using b r mergePaths_wf(1) [OF assms(1) r(1)] by (simp add: resolvedPath_def canonical_removeDot)
  show "no_dots (resolvedPath B base ref)"
    using b by (simp add: resolvedPath_def removeDot_no_dots)
  assume a: "m_hasAuthority (authorityOf base ref)"
  have "m_path ref \<noteq> [] \<Longrightarrow> CHR ''/'' = m_path ref ! 0 \<Longrightarrow> at_slash (m_path ref)"
    by (cases "m_path ref") (auto simp: at_slash_def)
  with a show "at_slash (resolvedPath B base ref)"
    using b(3) r(2) mergePaths_wf(2) [OF assms(1) r(1)]
    by (auto simp: resolvedPath_def authorityOf_def at_slash_removeDot split: if_splits)
qed

lemma resolve_wf:
  assumes "wf_uri base" "wf_uri ref" "resolve B base ref = Inr u"
  shows "wf_uri u"
proof (rule wf_resolved)
  note sh = resolve_shape [OF assms(3)]
  show "u = (copyAuthorityFrom (authorityOf base ref) (copyQueryFrom (queryOf base ref) empty_uri))
       \<lparr>m_scheme := (if m_scheme ref \<noteq> [] then m_scheme ref else m_scheme base),
        m_path := resolvedPath B base ref,
        m_fragment := m_fragment ref, m_hasFragment := m_hasFragment ref\<rparr>"
    by (rule sh(2))
  show "wf_scheme (if m_scheme ref \<noteq> [] then m_scheme ref else m_scheme base)"
    "(if m_scheme ref \<noteq> [] then m_scheme ref else m_scheme base) \<noteq> []"
    "wf_authority (authorityOf base ref)"
    "opt_canonical (m_hasQuery (queryOf base ref)) isQueryOrFragmentChar (m_query (queryOf base ref))"
    "opt_canonical (m_hasFragment ref) isQueryOrFragmentChar (m_fragment ref)"
    using assms(1,2) sh(1) by (auto simp: wf_uri_def authorityOf_def queryOf_def)
  show "canonical isPathChar False (resolvedPath B base ref)" "no_dots (resolvedPath B base ref)"
    "m_hasAuthority (authorityOf base ref) \<Longrightarrow> at_slash (resolvedPath B base ref)"
    using resolvedPath_wf assms(1,2) sh(1) by blast+
qed

end

end
