(* ===== verification/UriProps.thy ===== *)
theory UriProps
  imports UriRoundtrip
begin

text \<open>
  Declarative descriptions of the numeric grammars (decimal octets, IPv4 addresses, ports), the
  decomposition of an origin, and the properties of the URI component.
\<close>

section \<open>Numbers\<close>

definition dec_value :: "string \<Rightarrow> nat" where
  "dec_value s = foldl (\<lambda>v c. 10 * v + (of_char c - 48)) 0 s"

lemma isDigit_range: "isDigit c \<longleftrightarrow> 48 \<le> (of_char c :: nat) \<and> of_char c \<le> (57 :: nat)"
  by (simp add: isDigit_def less_eq_char_def)

lemma isDigitE:
  assumes "isDigit c"
  obtains d where "d < 10" "c = char_of (48 + d :: nat)"
proof (rule that)
  show "(of_char c - 48 :: nat) < 10" using assms by (auto simp: isDigit_range)
  show "c = char_of (48 + (of_char c - 48) :: nat)" using assms by (simp add: isDigit_range)
qed

lemma charDiff_isDigit: "isDigit c \<Longrightarrow> charDiff c CHR ''0'' = word_of_nat (of_char c - 48)"
  by (elim isDigitE) (simp add: charDiff_digit)

lemma word32_unat: "n < 2 ^ 32 \<Longrightarrow> unat (word_of_nat n :: 32 word) = n"
  by (simp add: unat_of_nat take_bit_nat_eq_self)

lemma unat_numeral_65535: "unat (65535 :: 32 word) = 65535"
  by simp

lemma portLoop_foldl:
  "v \<le> 65535 \<Longrightarrow> portLoop (word_of_nat v) s = Inr w \<longleftrightarrow>
     list_all isDigit s \<and> foldl (\<lambda>v c. 10 * v + (of_char c - 48)) v s \<le> 65535
     \<and> w = word_of_nat (foldl (\<lambda>v c. 10 * v + (of_char c - 48)) v s)"
proof (induction s arbitrary: v)
  case Nil
  then show ?case by auto
next
  case (Cons c s)
  have mono: "x \<le> foldl (\<lambda>v c. 10 * v + (of_char c - 48 :: nat)) x s" for x
  proof (induction s arbitrary: x)
    case (Cons a s)
    have "x \<le> 10 * x + (of_char a - 48)" by simp
    with Cons [of "10 * x + (of_char a - 48)"] show ?case by (simp add: order_trans)
  qed simp
  show ?case
  proof (cases "isDigit c")
    case True
    let ?v = "10 * v + (of_char c - 48)"
    have "of_char c \<le> (57 :: nat)" using True unfolding isDigit_range by blast
    then have "of_char c - 48 \<le> (9 :: nat)" by linarith
    then have "?v \<le> 655359" using Cons.prems by linarith
    then have vb: "?v < 2 ^ 32" by (rule le_less_trans) simp
    have w: "word_of_nat v * 10 + charDiff c CHR ''0'' = (word_of_nat ?v :: 32 word)"
      using True by (simp add: charDiff_isDigit mult.commute)
    have gt: "(word_of_nat ?v :: 32 word) > 65535 \<longleftrightarrow> ?v > 65535"
      using word32_unat [OF vb] by (simp only: word_less_nat_alt unat_numeral_65535)
    show ?thesis
    proof (cases "?v \<le> 65535")
      case True
      then show ?thesis
        using Cons.IH [OF True] \<open>isDigit c\<close> gt by (simp only: portLoop.simps w Let_def) simp
    next
      case False
      with mono [of ?v] gt \<open>isDigit c\<close> show ?thesis
        by (simp only: portLoop.simps w Let_def) simp
    qed
  next
    case False
    then show ?thesis by simp
  qed
qed

lemma parsePort_iff:
  "parsePort p u = Inr u' \<longleftrightarrow>
     (if p = [] then u' = u
      else list_all isDigit p \<and> dec_value p \<le> 65535
        \<and> u' = u\<lparr>m_port := word_of_nat (dec_value p), m_hasPort := True\<rparr>)"
proof -
  have "ucast (word_of_nat n :: 32 word) = (word_of_nat n :: 16 word)" for n
    by (rule bit_word_eqI) (auto simp: bit_simps)
  then show ?thesis
    using portLoop_foldl [of 0 p] by (auto simp: parsePort_def bindR_eq_Inr dec_value_def)
qed

section \<open>Decimal octets and IPv4 addresses\<close>

lemma word32_le_255: "n < 2 ^ 32 \<Longrightarrow> (word_of_nat n :: 32 word) \<le> 255 \<longleftrightarrow> n \<le> 255"
  by (simp add: word_le_nat_alt unat_of_nat take_bit_nat_eq_self)

lemma decOctet_step:
  "d < 10 \<Longrightarrow> decOctetLoop (word_of_nat v) (char_of (48 + d :: nat) # cs) =
     decOctetLoop (word_of_nat (10 * v + d)) cs"
  by (simp add: isDigit_char_of charDiff_digit mult.commute)

lemma decOctet_digits:
  "list_all (\<lambda>d. d < 10) ds \<Longrightarrow>
   decOctetLoop (word_of_nat v) (map (\<lambda>d. char_of (48 + d :: nat)) ds) =
     ((word_of_nat (foldl (\<lambda>v d. 10 * v + d) v ds) :: 32 word) \<le> 255)"
proof (induction ds arbitrary: v)
  case Nil
  then show ?case by simp
next
  case (Cons d ds)
  then have "d < 10" "list_all (\<lambda>d. d < 10) ds" by simp_all
  then show ?case
    using Cons.IH [of "10 * v + d"] by (simp only: list.map decOctet_step foldl_Cons)
qed

lemma decOctet1: "a < 10 \<Longrightarrow> decOctetLoop 0 [char_of (48 + a :: nat)]"
  using decOctet_digits [of "[a]" 0] word32_le_255 [of a] by simp

lemma decOctet2:
  "a < 10 \<Longrightarrow> b < 10 \<Longrightarrow> decOctetLoop 0 [char_of (48 + a :: nat), char_of (48 + b :: nat)]"
  using decOctet_digits [of "[a, b]" 0] word32_le_255 [of "10 * a + b"] by simp

lemma decOctet3:
  "a < 10 \<Longrightarrow> b < 10 \<Longrightarrow> c < 10 \<Longrightarrow>
   decOctetLoop 0 [char_of (48 + a :: nat), char_of (48 + b :: nat), char_of (48 + c :: nat)]
     \<longleftrightarrow> 100 * a + 10 * b + c \<le> 255"
  using decOctet_digits [of "[a, b, c]" 0] word32_le_255 [of "10 * (10 * a + b) + c"]
  by (simp add: algebra_simps)

lemma digit_zero_iff: "a < 10 \<Longrightarrow> CHR ''0'' = char_of (48 + a :: nat) \<longleftrightarrow> a = 0"
proof
  assume "a < 10" "CHR ''0'' = char_of (48 + a :: nat)"
  then have "of_char CHR ''0'' = (of_char (char_of (48 + a :: nat) :: char) :: nat)" by simp
  with \<open>a < 10\<close> show "a = 0" by simp
next
  assume "a = 0"
  then show "CHR ''0'' = char_of (48 + a :: nat)"
    using char_of_char [of "CHR ''0''", where 'a = nat] by simp
qed

lemma dec_string_2:
  "0 < a \<Longrightarrow> a < 10 \<Longrightarrow> b < 10 \<Longrightarrow>
     dec_string (10 * a + b) = [char_of (48 + a), char_of (48 + b)]"
  by (simp add: dec_string.simps [of "10 * a + b"] dec_string.simps [of a])

lemma dec_string_3:
  "0 < a \<Longrightarrow> a < 10 \<Longrightarrow> b < 10 \<Longrightarrow> c < 10 \<Longrightarrow>
     dec_string (100 * a + 10 * b + c) = [char_of (48 + a), char_of (48 + b), char_of (48 + c)]"
proof -
  assume d: "0 < a" "a < 10" "b < 10" "c < 10"
  have n: "100 * a + 10 * b + c = c + (10 * a + b) * 10" by simp
  have "(c + (10 * a + b) * 10) div 10 = 10 * a + b" "(c + (10 * a + b) * 10) mod 10 = c"
    using d(4) by (simp_all del: distrib_right_numeral)
  moreover have "\<not> c + (10 * a + b) * 10 < 10" using d(1) by (simp add: algebra_simps)
  ultimately have "dec_string (c + (10 * a + b) * 10) = dec_string (10 * a + b) @ [char_of (48 + c)]"
    by (subst dec_string.simps) (simp only: if_False)
  then show ?thesis unfolding n using d dec_string_2 [of a b] by (simp only: append.simps)
qed

lemma isDecOctet_dec_string:
  assumes "n \<le> 255"
  shows "isDecOctet (dec_string n)"
proof -
  consider "n < 10" | a b where "n = 10 * a + b" "0 < a" "a < 10" "b < 10"
    | a b c where "n = 100 * a + 10 * b + c" "0 < a" "a < 10" "b < 10" "c < 10"
  proof (cases "n < 100")
    case True
    show ?thesis
    proof (cases "n < 10")
      case False
      with True show ?thesis by (intro that(2) [of "n div 10" "n mod 10"]) simp_all
    qed (rule that(1))
  next
    case False
    have "n div 10 div 10 = n div 100" by (simp add: div_mult2_eq [symmetric])
    then have "n = 100 * (n div 100) + 10 * (n div 10 mod 10) + n mod 10"
      using mult_div_mod_eq [of 10 n] mult_div_mod_eq [of 10 "n div 10"] by linarith
    moreover have "0 < n div 100" "n div 100 < 10" using False assms by (simp_all add: div_greater_zero_iff)
    ultimately show ?thesis by (rule that(3)) simp_all
  qed
  then show ?thesis
  proof cases
    case 1
    then show ?thesis
      using decOctet1 [of n] by (simp add: isDecOctet_def dec_string.simps [of n] del: decOctetLoop.simps)
  next
    case (2 a b)
    then show ?thesis
      using decOctet2 [of a b] digit_zero_iff [of a] by (simp add: isDecOctet_def dec_string_2)
  next
    case (3 a b c)
    then show ?thesis
      using decOctet3 [of a b c] digit_zero_iff [of a] assms by (simp add: isDecOctet_def dec_string_3)
  qed
qed

lemma isDecOctetD:
  assumes "isDecOctet s"
  shows "\<exists>n \<le> 255. s = dec_string n"
proof -
  have l: "decOctetLoop 0 s" "list_all isDigit s" "s \<noteq> []" "length s \<le> 3"
    "length s > 1 \<Longrightarrow> CHR ''0'' \<noteq> s ! 0"
    using assms isDecOctet_chars [OF assms] by (auto simp: isDecOctet_def split: if_splits)
  consider x where "s = [x]" | x y where "s = [x, y]" | x y z where "s = [x, y, z]"
    using l(3,4) by (cases s; cases "tl s"; cases "tl (tl s)"; cases "tl (tl (tl s))") auto
  then show ?thesis
  proof cases
    case (1 x)
    with l(2) obtain a where "a < 10" "x = char_of (48 + a :: nat)" by (auto elim: isDigitE)
    with 1 show ?thesis by (intro exI [of _ a]) (simp add: dec_string.simps [of a])
  next
    case (2 x y)
    with l(2) obtain a b where d: "a < 10" "b < 10" "x = char_of (48 + a :: nat)" "y = char_of (48 + b :: nat)"
      by (auto elim!: isDigitE)
    with 2 l(5) digit_zero_iff [of a] have "0 < a" by auto
    with d 2 show ?thesis by (intro exI [of _ "10 * a + b"]) (simp add: dec_string_2)
  next
    case (3 x y z)
    with l(2) obtain a b c where d: "a < 10" "b < 10" "c < 10" "x = char_of (48 + a :: nat)"
      "y = char_of (48 + b :: nat)" "z = char_of (48 + c :: nat)"
      by (auto elim!: isDigitE)
    with 3 l(5) digit_zero_iff [of a] have "0 < a" by auto
    moreover from d 3 l(1) have "100 * a + 10 * b + c \<le> 255" using decOctet3 [of a b c] by simp
    ultimately show ?thesis
      using d 3 by (intro exI [of _ "100 * a + 10 * b + c"]) (simp add: dec_string_3)
  qed
qed

lemma isDecOctet_iff: "isDecOctet s \<longleftrightarrow> (\<exists>n \<le> 255. s = dec_string n)"
  using isDecOctetD isDecOctet_dec_string by blast

fun dotted :: "string list \<Rightarrow> string" where
  "dotted [] = []"
| "dotted [s] = s"
| "dotted (s # t # ss) = s @ CHR ''.'' # dotted (t # ss)"

lemma isDecOctet_nodot: "isDecOctet s \<Longrightarrow> CHR ''.'' \<notin> set s"
  using isDecOctet_chars [of s] by (auto simp: list_all_iff isDigit_range)

lemma ipv4Loop_dotted:
  "ss \<noteq> [] \<Longrightarrow> list_all isDecOctet ss \<Longrightarrow> n + length ss = 4 \<Longrightarrow> ipv4Loop n (dotted ss)"
proof (induction ss arbitrary: n rule: dotted.induct)
  case (2 s)
  then show ?case by (simp add: ipv4Loop.simps isDecOctet_nodot)
next
  case (3 s t ss)
  then show ?case by (simp add: ipv4Loop.simps [of n "s @ CHR ''.'' # dotted (t # ss)"] isDecOctet_nodot)
qed simp

lemma ipv4LoopD:
  "ipv4Loop n s \<Longrightarrow> \<exists>ss. s = dotted ss \<and> ss \<noteq> [] \<and> list_all isDecOctet ss \<and> n + length ss = 4"
proof (induction n s rule: ipv4Loop.induct)
  case (1 n s)
  show ?case
  proof (cases "find_char CHR ''.'' s")
    case None
    with "1.prems" have "isDecOctet s" "n + 1 = 4"
      by (simp_all add: ipv4Loop.simps [of n s] split: if_splits)
    then show ?thesis by (intro exI [of _ "[s]"]) simp
  next
    case (Some k)
    with "1.prems" have o: "isDecOctet (take k s)" "ipv4Loop (Suc n) (drop (Suc k) s)"
      by (simp_all add: ipv4Loop.simps [of n s] split: if_splits)
    with "1.IH" Some obtain ss where ss: "drop (Suc k) s = dotted ss" "ss \<noteq> []"
      "list_all isDecOctet ss" "Suc n + length ss = 4" by auto
    have "s = take k s @ CHR ''.'' # dotted ss"
      using find_char_SomeD [OF Some] ss(1) by simp
    moreover obtain t ts where "ss = t # ts" using ss(2) by (cases ss) auto
    ultimately show ?thesis
      using ss o(1) by (intro exI [of _ "take k s # ss"]) simp
  qed
qed

lemma isIpv4Address_iff:
  "isIpv4Address s \<longleftrightarrow>
     (\<exists>a b c d. a \<le> 255 \<and> b \<le> 255 \<and> c \<le> 255 \<and> d \<le> 255
        \<and> s = dec_string a @ ''.'' @ dec_string b @ ''.'' @ dec_string c @ ''.'' @ dec_string d)"
    (is "_ \<longleftrightarrow> ?R")
proof
  assume "isIpv4Address s"
  then obtain ss where ss: "s = dotted ss" "list_all isDecOctet ss" "length ss = 4"
    unfolding isIpv4Address_def by (auto dest: ipv4LoopD)
  then obtain w x y z where "ss = [w, x, y, z]"
    by (auto simp: numeral_eq_Suc length_Suc_conv)
  with ss show ?R by (auto simp: isDecOctet_iff)
next
  assume ?R
  then obtain a b c d where le: "a \<le> 255" "b \<le> 255" "c \<le> 255" "d \<le> 255"
    and s: "s = dec_string a @ ''.'' @ dec_string b @ ''.'' @ dec_string c @ ''.'' @ dec_string d"
    by blast
  have o: "list_all isDecOctet [dec_string a, dec_string b, dec_string c, dec_string d]"
    "s = dotted [dec_string a, dec_string b, dec_string c, dec_string d]"
    using le s by (simp_all add: isDecOctet_dec_string)
  show "isIpv4Address s"
    unfolding isIpv4Address_def o(2) by (rule ipv4Loop_dotted [OF _ o(1)]) simp_all
qed

section \<open>Origins\<close>

lemma split_at_first:
  "c \<notin> set xs \<Longrightarrow> c \<notin> set ys \<Longrightarrow> xs @ c # as = ys @ c # bs \<longleftrightarrow> xs = ys \<and> as = bs"
  by (induction xs arbitrary: ys) (case_tac ys; auto)+

text \<open>The text \<open>origin\<close> writes after the host.\<close>

definition origin_port :: "uri \<Rightarrow> string" where
  "origin_port u = (if 0 \<noteq> effectivePort u then '':'' @ dec_string (unat (effectivePort u)) else [])"

lemma origin_eq:
  "m_scheme u \<noteq> [] \<Longrightarrow> m_host u \<noteq> [] \<Longrightarrow>
     origin u = Inr (m_scheme u @ CHR '':'' # ''//'' @ hostForAuthority u @ origin_port u)"
  by (simp add: origin_def origin_port_def Let_def)

lemma origin_InrD: "origin u = Inr t \<Longrightarrow> m_scheme u \<noteq> [] \<and> m_host u \<noteq> []"
  by (auto simp: origin_def bindR_eq_Inr)

lemma unat16_le: "unat (p :: 16 word) \<le> 65535"
  using unsigned_less [of p, where 'a = nat] by simp

lemma origin_port_inj: "origin_port u = origin_port v \<longleftrightarrow> effectivePort u = effectivePort v"
proof
  assume "origin_port u = origin_port v"
  then show "effectivePort u = effectivePort v"
    using dec_string_inj [OF unat16_le [of "effectivePort u"] unat16_le [of "effectivePort v"]]
    by (auto simp: origin_port_def unsigned_word_eqI split: if_splits)
qed (simp add: origin_port_def)

lemma name_chars:
  assumes "canonical isRegNameChar True h"
  shows "CHR '':'' \<notin> set h" "CHR ''['' \<notin> set h"
  using regname_g.canonical_chars [OF assms] not_regname by blast+

lemma bracket_not_auth: "\<not> auth_char CHR '']''"
  by (simp add: auth_char_def class_defs)

lemma host_port_inj:
  assumes u: "wf_host u" "m_host u \<noteq> []" and v: "wf_host v" "m_host v \<noteq> []"
    and eq: "hostForAuthority u @ origin_port u = hostForAuthority v @ origin_port v"
  shows "m_isIpLiteral u = m_isIpLiteral v \<and> m_host u = m_host v \<and> origin_port u = origin_port v"
proof -
  have colon: "takeWhile (\<lambda>c. c \<noteq> CHR '':'') (h @ origin_port w) = h" if "CHR '':'' \<notin> set h" for h w
    using that by (subst takeWhile_append2) (auto simp: origin_port_def)
  have bracket: "hd (hostForAuthority w @ origin_port w) = CHR ''['' \<longleftrightarrow> m_isIpLiteral w"
    if "wf_host w" "m_host w \<noteq> []" for w
    using that(1) by (cases rule: wf_host_cases) (use that(2) name_chars hd_in_set in \<open>fastforce simp: hd_append\<close>)+
  have lit: "m_isIpLiteral u = m_isIpLiteral v" using bracket [OF u] bracket [OF v] eq by simp
  show ?thesis
    using u(1)
  proof (cases rule: wf_host_cases)
    case Name
    with v(1) lit have "canonical isRegNameChar True (m_host v)" "hostForAuthority v = m_host v"
      by (simp_all add: wf_host_def hostForAuthority_def)
    with Name eq colon [of "m_host u" u] colon [of "m_host v" v] name_chars lit show ?thesis
      by (metis append_same_eq same_append_eq)
  next
    case Literal
    from v(1) have "CHR '']'' \<notin> set (m_host v)" "hostForAuthority v = CHR ''['' # m_host v @ '']''"
    proof (cases rule: wf_host_cases)
      case Literal
      then show "CHR '']'' \<notin> set (m_host v)" using bracket_not_auth by (auto simp: list_all_iff)
    qed (use Literal(1) lit in \<open>simp_all add: hostForAuthority_def\<close>)
    moreover have "CHR '']'' \<notin> set (m_host u)"
      using Literal(4) bracket_not_auth by (auto simp: list_all_iff)
    ultimately show ?thesis
      using eq Literal(5) lit split_at_first [of "CHR '']''" "m_host u" "m_host v"] by simp
  qed
qed

lemma origin_injective:
  assumes u: "wf_uri u" "origin u = Inr s" and v: "wf_uri v" "origin v = Inr t"
  shows "s = t \<longleftrightarrow> m_scheme u = m_scheme v \<and> m_isIpLiteral u = m_isIpLiteral v
           \<and> m_host u = m_host v \<and> effectivePort u = effectivePort v"
    (is "_ \<longleftrightarrow> ?same")
proof
  note nu = origin_InrD [OF u(2)] and nv = origin_InrD [OF v(2)]
  have su: "s = m_scheme u @ CHR '':'' # ''//'' @ hostForAuthority u @ origin_port u"
    and tv: "t = m_scheme v @ CHR '':'' # ''//'' @ hostForAuthority v @ origin_port v"
    using u(2) v(2) nu nv origin_eq by (metis Inr_inject)+
  have colon: "CHR '':'' \<notin> set (m_scheme u)" "CHR '':'' \<notin> set (m_scheme v)"
    using u(1) v(1) nu nv scheme_auth by (auto simp: wf_uri_def wf_scheme_def)
  have h: "wf_host w" if "wf_uri w" "m_host w \<noteq> []" for w
    using that by (auto simp: wf_uri_def wf_authority_def split: if_splits)
  {
    assume "s = t"
    with colon have sc: "m_scheme u = m_scheme v"
      and "hostForAuthority u @ origin_port u = hostForAuthority v @ origin_port v"
      unfolding su tv by (simp_all add: split_at_first)
    with host_port_inj [OF h [OF u(1)] _ h [OF v(1)]] nu nv origin_port_inj sc show ?same by blast
  }
  assume ?same
  then have "hostForAuthority u = hostForAuthority v" "origin_port u = origin_port v"
    by (simp_all add: hostForAuthority_def origin_port_def)
  with \<open>?same\<close> show "s = t" by (simp add: su tv)
qed

section \<open>Properties\<close>

text \<open>
  C6 The rendering of a parsed URI reference reads back as the same value exactly when it has an
  authority or its path does not start with two slashes.
\<close>

theorem uri_round_trip:
  assumes "boost_strings B" "parse B text = Inr u"
  shows "parse B (toString u) = Inr u \<longleftrightarrow> m_hasAuthority u \<or> \<not> double_slash (m_path u)"
  using boost_strings.parse_toString [OF assms(1)] boost_strings.parse_toString_double_slash [OF assms(1)]
    boost_strings.parse_invariant [OF assms] renders_faithfully_def by blast

lemma uri_round_trip_witness:
  "\<exists>u. parse reference_boost ''HTTP://a@H%41:08/x/../%7e?q#f'' = Inr u
     \<and> parse reference_boost (toString u) = Inr u \<and> toString u = ''http://a@ha:8/~?q#f''"
proof -
  let ?u = "empty_uri\<lparr>m_scheme := ''http'', m_userInfo := ''a'', m_host := ''ha'', m_path := ''/~'',
    m_query := ''q'', m_fragment := ''f'', m_port := 8, m_hasAuthority := True, m_hasUserInfo := True,
    m_hasPort := True, m_hasQuery := True, m_hasFragment := True\<rparr>"
  have "parse reference_boost ''HTTP://a@H%41:08/x/../%7e?q#f'' = Inr ?u" by code_simp
  moreover have "toString ?u = ''http://a@ha:8/~?q#f''" "m_hasAuthority ?u" by code_simp+
  ultimately show ?thesis using uri_round_trip [OF refb.boost_strings_axioms] by blast
qed

text \<open>
  Resolving a parsed reference against a well-formed base yields an absolute value with the
  invariant that parsing gives, whose rendering reads back as that value unless it has no authority
  and a path that starts with two slashes.
\<close>

theorem uri_resolve_wf:
  assumes "boost_strings B" "wf_uri base" "parse B text = Inr ref" "resolve B base ref = Inr u"
  shows "wf_uri u \<and> m_scheme u \<noteq> []
     \<and> (parse B (toString u) = Inr u \<longleftrightarrow> m_hasAuthority u \<or> \<not> double_slash (m_path u))"
proof -
  have "wf_uri ref" using assms(1,3) by (rule boost_strings.parse_invariant)
  then have "wf_uri u" by (rule boost_strings.resolve_wf [OF assms(1,2) _ assms(4)])
  from assms(4) have "m_scheme base \<noteq> []" by (auto simp: resolve_def bindR_eq_Inr)
  moreover have "m_scheme u = (if m_scheme ref \<noteq> [] then m_scheme ref else m_scheme base)"
    by (subst boost_strings.resolve_shape(2) [OF assms(1,4)]) simp
  ultimately have "m_scheme u \<noteq> []" by (simp split: if_splits)
  moreover have "parse B (toString u) = Inr u \<longleftrightarrow> m_hasAuthority u \<or> \<not> double_slash (m_path u)"
    using \<open>wf_uri u\<close> boost_strings.parse_toString [OF assms(1)] renders_faithfully_def
      boost_strings.parse_toString_double_slash [OF assms(1)] by blast
  ultimately show ?thesis using \<open>wf_uri u\<close> by blast
qed

lemma uri_resolve_wf_witness:
  "\<exists>base ref u. parse reference_boost ''http://h/b/c?q'' = Inr base \<and> parse reference_boost ''../d'' = Inr ref
     \<and> resolve reference_boost base ref = Inr u \<and> toString u = ''http://h/d'' \<and> wf_uri u \<and> m_scheme u \<noteq> []"
proof -
  let ?base = "empty_uri\<lparr>m_scheme := ''http'', m_host := ''h'', m_path := ''/b/c'', m_query := ''q'',
    m_hasAuthority := True, m_hasQuery := True\<rparr>"
  let ?ref = "empty_uri\<lparr>m_path := ''../d''\<rparr>"
  let ?u = "empty_uri\<lparr>m_scheme := ''http'', m_host := ''h'', m_path := ''/d'', m_hasAuthority := True\<rparr>"
  have base: "parse reference_boost ''http://h/b/c?q'' = Inr ?base" by code_simp
  have ref: "parse reference_boost ''../d'' = Inr ?ref" by code_simp
  have u: "resolve reference_boost ?base ?ref = Inr ?u" by code_simp
  have "toString ?u = ''http://h/d''" by code_simp
  with base ref u uri_resolve_wf [OF refb.boost_strings_axioms refb.parse_invariant [OF base] ref u]
  show ?thesis by blast
qed

text \<open>
  C7 Every parsed value has the invariant of the class: lower-case well-formed scheme, canonical
  percent-encoding in every component, absent components empty, and a checked host.  The path
  behind an authority is empty or starts with a slash; with a scheme or an authority it has no dot
  segments; with neither, its first segment has no colon and it does not start with two slashes.  A path
  that starts with two slashes is possible behind a scheme without an authority, and then the rendering
  does not read back as the value (\<open>uri_round_trip\<close>, \<open>uri_render_gains_authority\<close>).
\<close>

theorem uri_parse_wf:
  assumes "boost_strings B" "parse B text = Inr u"
  shows "wf_uri u"
  using assms by (rule boost_strings.parse_invariant)

lemma uri_parse_wf_witness:
  "\<exists>u. parse reference_boost ''//[::FFFF:1.2.3.4]:80/p'' = Inr u
     \<and> m_host u = ''::ffff:1.2.3.4'' \<and> wf_uri u"
proof -
  let ?u = "empty_uri\<lparr>m_host := ''::ffff:1.2.3.4'', m_isIpLiteral := True, m_path := ''/p'', m_port := 80,
    m_hasAuthority := True, m_hasPort := True\<rparr>"
  have "parse reference_boost ''//[::FFFF:1.2.3.4]:80/p'' = Inr ?u" by code_simp
  moreover have "m_host ?u = ''::ffff:1.2.3.4''" by simp
  ultimately show ?thesis using uri_parse_wf [OF refb.boost_strings_axioms] by blast
qed

text \<open>
  Component normalization, for each of the four character classes: the result is canonical, it
  is a fixed point of normalization, and it stands for the same octets (for a host: the same octets
  in lower case).
\<close>

theorem uri_normalize_component:
  assumes "isAllowed \<in> {isUserInfoChar, isRegNameChar, isPathChar, isQueryOrFragmentChar}"
    and "normalizeComponent isAllowed component lower v = Inr r"
  shows "canonical isAllowed lower r \<and> normalizeComponent isAllowed component lower r = Inr r
     \<and> pct_decode r = (if lower then map toLowerAscii (pct_decode v) else pct_decode v)"
proof -
  have g: "component_grammar isAllowed"
    using assms(1) userinfo_g.component_grammar_axioms regname_g.component_grammar_axioms
      path_g.component_grammar_axioms query_g.component_grammar_axioms by blast
  show ?thesis
    using component_grammar.norm_canonical [OF g assms(2)] component_grammar.canonical_norm [OF g]
      component_grammar.norm_decode [OF g assms(2)] by blast
qed

lemma uri_normalize_component_witness:
  "normalizeComponent isPathChar ''path'' False ''/%7e%2f%c3'' = Inr ''/~%2F%C3''
   \<and> canonical isPathChar False ''/~%2F%C3''"
proof -
  have "normalizeComponent isPathChar ''path'' False ''/%7e%2f%c3'' = Inr ''/~%2F%C3''" by code_simp
  with uri_normalize_component [of isPathChar] show ?thesis by blast
qed

text \<open>
  C8 On an absolute path, dot-segment removal is the stack of RFC 3986: a dot is skipped, two dots
  pop a segment, and either of them in last position leaves a trailing slash.
\<close>

theorem uri_dot_segments_stack:
  assumes "boost_strings B" "list_all (\<lambda>s. CHR ''/'' \<notin> set s) ss"
  shows "removeDotSegments B (slashed ss) = slashed (dot_spec [] ss)"
  using boost_strings.loop_slashed [OF assms(1), of "[]" ss] assms(2) by (simp add: removeDotSegments_def)

lemma uri_dot_segments_stack_witness:
  "removeDotSegments reference_boost ''/a/b/../.././c/..'' = ''/''"
  using uri_dot_segments_stack [OF refb.boost_strings_axioms,
      of "[''a'', ''b'', ''..'', ''..'', ''.'', ''c'', ''..'']"] by simp

text \<open>
  Dot-segment removal leaves no dot segment, invents no segment, is idempotent and never makes a
  path longer, for every path.
\<close>

theorem uri_dot_segments_removed:
  assumes "boost_strings B"
  shows "no_dots (removeDotSegments B p)
     \<and> set (segs (removeDotSegments B p)) \<subseteq> set (segs p) \<union> {[]}
     \<and> removeDotSegments B (removeDotSegments B p) = removeDotSegments B p
     \<and> length (removeDotSegments B p) \<le> length p"
proof -
  have "length (removeDotSegments B p) \<le> length p"
    using boost_strings.loop_length [OF assms, of "[]" p] by (simp add: removeDotSegments_def)
  then show ?thesis
    using boost_strings.removeDot_no_dots [OF assms] boost_strings.removeDot_segs [OF assms]
      boost_strings.removeDot_fixpoint [OF assms] by blast
qed

lemma uri_dot_segments_removed_witness:
  "no_dots (removeDotSegments reference_boost ''../a/./..'')"
  using uri_dot_segments_removed [OF refb.boost_strings_axioms, of "''../a/./..''"] by blast

text \<open>
  The origin identifies scheme, host and effective port: two well-formed values have the same
  origin exactly when these agree.
\<close>

theorem uri_origin_injective:
  assumes "wf_uri u" "wf_uri v" "origin u = Inr s" "origin v = Inr t"
  shows "s = t \<longleftrightarrow> m_scheme u = m_scheme v \<and> m_isIpLiteral u = m_isIpLiteral v
           \<and> m_host u = m_host v \<and> effectivePort u = effectivePort v"
  using assms by (intro origin_injective)

lemma uri_origin_injective_witness:
  "\<exists>u v. parse reference_boost ''http://H/x'' = Inr u \<and> parse reference_boost ''http://h:80/y'' = Inr v
     \<and> origin u = Inr ''http://h:80'' \<and> origin v = Inr ''http://h:80'' \<and> effectivePort u = effectivePort v"
proof -
  let ?u = "empty_uri\<lparr>m_scheme := ''http'', m_host := ''h'', m_path := ''/x'', m_hasAuthority := True\<rparr>"
  let ?v = "empty_uri\<lparr>m_scheme := ''http'', m_host := ''h'', m_path := ''/y'', m_port := 80,
    m_hasAuthority := True, m_hasPort := True\<rparr>"
  have p: "parse reference_boost ''http://H/x'' = Inr ?u" "parse reference_boost ''http://h:80/y'' = Inr ?v"
    by code_simp+
  have o: "origin ?u = Inr ''http://h:80''" "origin ?v = Inr ''http://h:80''" by code_simp+
  from uri_origin_injective [OF refb.parse_invariant [OF p(1)] refb.parse_invariant [OF p(2)] o]
  have "effectivePort ?u = effectivePort ?v" by simp
  with p o show ?thesis by blast
qed

text \<open>
  The IPv4 check accepts exactly four dotted decimal numbers up to 255 without leading zeros.
\<close>

theorem uri_ipv4:
  "isIpv4Address s \<longleftrightarrow>
     (\<exists>a b c d. a \<le> 255 \<and> b \<le> 255 \<and> c \<le> 255 \<and> d \<le> 255
        \<and> s = dec_string a @ ''.'' @ dec_string b @ ''.'' @ dec_string c @ ''.'' @ dec_string d)"
  by (rule isIpv4Address_iff)

text \<open>
  The port is read as a decimal number of at most 65535, with no wrap-around for any number of
  digits; every other text is refused, and an empty one leaves the port absent.
\<close>

theorem uri_port:
  "parsePort p u = Inr u' \<longleftrightarrow>
     (if p = [] then u' = u
      else list_all isDigit p \<and> dec_value p \<le> 65535
        \<and> u' = u\<lparr>m_port := word_of_nat (dec_value p), m_hasPort := True\<rparr>)"
  by (rule parsePort_iff)

section \<open>Failures of the parser\<close>

definition format_failure :: "'a res \<Rightarrow> bool" where
  "format_failure r = (case r of Inl (InvalidDataFormat c m) \<Rightarrow> True | Inl _ \<Rightarrow> False | Inr _ \<Rightarrow> True)"

lemma format_failure_simps [simp]:
  "format_failure (Inr a)" "format_failure (Inl (InvalidDataFormat c m))"
  "format_failure (chkR b (InvalidDataFormat c m))"
  by (simp_all add: format_failure_def chkR_def)

lemma format_failure_bindR [intro]:
  "format_failure m \<Longrightarrow> (\<And>a. m = Inr a \<Longrightarrow> format_failure (f a)) \<Longrightarrow> format_failure (bindR m f)"
  by (cases m) (auto simp: format_failure_def split: exc.splits)

lemma format_failure_if:
  "(b \<Longrightarrow> format_failure x) \<Longrightarrow> (\<not> b \<Longrightarrow> format_failure y) \<Longrightarrow> format_failure (if b then x else y)"
  by simp

lemma format_failure_Inr [intro]: "format_failure m \<Longrightarrow> format_failure (bindR m (\<lambda>a. Inr (f a)))"
  by (rule format_failure_bindR) simp_all

lemma normalizeComponent_failure: "format_failure (normalizeComponent A c l v)"
proof (induction v rule: length_induct)
  case (1 v)
  then have IH: "format_failure (normalizeComponent A c l w)" if "length w < length v" for w
    using that by blast
  show ?case
  proof (cases v)
    case (Cons ch rest)
    show ?thesis
    proof (cases "CHR ''%'' \<noteq> ch")
      case True
      with Cons IH [of rest] show ?thesis by (auto simp: Let_def)
    next
      case False
      show ?thesis
      proof (cases "\<exists>h1 h2 r. rest = h1 # h2 # r")
        case True
        then obtain h1 h2 r where "rest = h1 # h2 # r" by blast
        with Cons False IH [of r] show ?thesis by (auto simp: Let_def)
      next
        case short: False
        with Cons False show ?thesis by (cases rest; cases "tl rest") auto
      qed
    qed
  qed simp
qed

lemma portLoop_failure: "format_failure (portLoop v s)"
  by (induction v s rule: portLoop.induct) (simp add: Let_def)+

lemma strict_failure: "format_failure (chkStrictCharacters s)"
  by (induction s) auto

lemma chkIpvFuture_failure: "format_failure (chkIpvFuture s)"
  by (simp add: chkIpvFuture_def Let_def split: list.split)

lemma chkIpv6Address_failure: "format_failure (chkIpv6Address s)"
  by (simp add: chkIpv6Address_def Let_def split: option.split)

lemma chkIpLiteral_failure: "format_failure (chkIpLiteral s)"
  by (simp add: chkIpLiteral_def chkIpvFuture_failure chkIpv6Address_failure split: list.split)

lemma parsePort_failure: "format_failure (parsePort p u)"
  using portLoop_failure by (auto simp: parsePort_def)

lemma parseUserInfo_failure: "format_failure (parseUserInfo a u)"
  using normalizeComponent_failure by (auto simp: parseUserInfo_def split: option.split)

lemma parseHost_failure: "format_failure (parseHost B a u)"
  unfolding parseHost_def Let_def
  by (intro format_failure_if)
    (auto intro!: format_failure_bindR [OF chkIpLiteral_failure]
      format_failure_bindR [OF normalizeComponent_failure] split: option.split list.split)

lemma parseAuthority_failure: "format_failure (parseAuthority B a u)"
  unfolding parseAuthority_def
  by (auto intro!: format_failure_bindR [OF parseUserInfo_failure] format_failure_bindR [OF parseHost_failure]
      parsePort_failure split: option.split)

lemma parseFragment_failure: "format_failure (parseFragment r u)"
  using normalizeComponent_failure by (auto simp: parseFragment_def split: option.split)

lemma parseQuery_failure: "format_failure (parseQuery r u)"
  using normalizeComponent_failure by (auto simp: parseQuery_def split: option.split)

lemma parseScheme_failure: "format_failure (parseScheme B r u)"
  by (simp add: parseScheme_def Let_def split: option.split)

lemma parseNetPath_failure: "format_failure (parseNetPath B r u)"
  using parseAuthority_failure by (auto simp: parseNetPath_def Let_def split: option.split)

lemma parsePath_failure: "format_failure (parsePath B r u)"
  using normalizeComponent_failure by (auto simp: parsePath_def)

lemma parse_failure: "format_failure (parse B text)"
  unfolding parse_def parseImpl_def
  by (auto intro!: format_failure_bindR [OF strict_failure] format_failure_bindR [OF parseFragment_failure]
      format_failure_bindR [OF parseQuery_failure] format_failure_bindR [OF parseScheme_failure]
      format_failure_bindR [OF parseNetPath_failure] parsePath_failure)

text \<open>
  \<open>tryParse\<close> never throws: on a malformed text it answers false and leaves the result alone,
  otherwise it answers true with the parsed value.
\<close>

theorem uri_tryParse_total:
  "tryParse B text result =
     (case parse B text of Inr u \<Rightarrow> Inr (True, u) | Inl _ \<Rightarrow> Inr (False, result))"
  using parse_failure [of B "text"]
  by (auto simp: tryParse_def format_failure_def split: sum.splits exc.splits)

text \<open>
  A text whose value is rendered as the text of a different value: the path is left with two
  leading slashes, which read back as an authority.
\<close>

theorem uri_render_gains_authority:
  "parse reference_boost ''http:/.//evil/x'' = Inr (empty_uri\<lparr>m_scheme := ''http'', m_path := ''//evil/x''\<rparr>)
   \<and> toString (empty_uri\<lparr>m_scheme := ''http'', m_path := ''//evil/x''\<rparr>) = ''http://evil/x''
   \<and> parse reference_boost ''http://evil/x'' = Inr (empty_uri\<lparr>m_scheme := ''http'', m_host := ''evil'',
        m_path := ''/x'', m_hasAuthority := True\<rparr>)"
  by (intro conjI) code_simp+

end
