(* ===== verification/TaskBase.thy ===== *)
theory TaskBase
  imports Prelude
begin

text \<open>
  Tasks: the interface \<open>tasks/Task.h\<close> and its base implementation \<open>tasks/TaskBase.h\<close>
  (\<open>TaskBaseT\<close>, \<open>SimpleCompletedTaskT\<close>, \<open>SimpleTaskBaseT\<close> and
  \<open>SimpleTaskWithContinuationT\<close>).  What a derived class overrides is an argument, the record
  \<open>task_class\<close>; what a task posts to a thread pool is recorded in its state.
\<close>

section \<open>Data\<close>

text \<open>\<open>std::exception_ptr\<close>: null or an exception object.\<close>

datatype task_exc = OperationAborted | BadAllocExc | UserExc nat

type_synonym eptr = "task_exc option"

datatype task_state = Created | Running | PendingCompletion | Completed

text \<open>The states are ordered as the enumerators of \<open>Task::State\<close>.\<close>

fun state_rank :: "task_state \<Rightarrow> nat" where
  "state_rank Created = 0" | "state_rank Running = 1"
| "state_rank PendingCompletion = 2" | "state_rank Completed = 3"

instantiation task_state :: linorder
begin

definition less_eq_task_state :: "task_state \<Rightarrow> task_state \<Rightarrow> bool" where
  "less_eq_task_state s t \<longleftrightarrow> state_rank s \<le> state_rank t"

definition less_task_state :: "task_state \<Rightarrow> task_state \<Rightarrow> bool" where
  "less_task_state s t \<longleftrightarrow> state_rank s < state_rank t"

instance
  by standard
    (auto simp: less_eq_task_state_def less_task_state_def elim!: state_rank.elims)

end

text \<open>What asking a task for its continuation yields; tasks are named by their address.\<close>

datatype cont_result = ContNone | ContTask nat | ContThrows task_exc

text \<open>Work a task posted to the thread pool.\<close>

datatype posted = PostNotifyReady eptr bool | PostOnExecute

record task_base =
  m_cancelRequested :: bool
  m_state :: task_state
  m_exception :: eptr
  m_hasException :: bool
  m_cbReady :: bool
  m_notifyCalled :: bool
  m_continuationCallback :: "(nat \<Rightarrow> cont_result) option"
  m_posted :: "posted list"
  m_cancelTaskCalls :: nat

definition new_task :: task_base where
  "new_task = \<lparr>m_cancelRequested = False, m_state = Created, m_exception = None,
     m_hasException = False, m_cbReady = False, m_notifyCalled = False,
     m_continuationCallback = None, m_posted = [], m_cancelTaskCalls = 0\<rparr>"

text \<open>The virtual members of a derived class, as the outcomes the base class sees.\<close>

datatype finish_result = FinishNone | FinishScheduled | FinishThrows task_exc

datatype schedule_result = ScheduleOk "posted list" | ScheduleThrows task_exc | ScheduleAborts

record task_class =
  scheduleTask :: "task_base \<Rightarrow> schedule_result"
  scheduleEvenIfAlreadyCanceled :: bool
  scheduleTaskFinishContinuation :: "eptr \<Rightarrow> finish_result"
  onTaskStoppedNothrow :: "eptr \<Rightarrow> eptr"
  cancelMarkOnly :: bool

section \<open>Operations\<close>

definition setExceptionInternal :: "eptr \<Rightarrow> task_base \<Rightarrow> task_base" where
  "setExceptionInternal eptr t = t\<lparr>m_exception := eptr, m_hasException := (eptr \<noteq> None)\<rparr>"

definition isFailed :: "task_base \<Rightarrow> bool" where
  "isFailed t \<longleftrightarrow> m_state t \<ge> PendingCompletion \<and> m_hasException t"

definition isFailedOrFailing :: "task_base \<Rightarrow> bool" where
  "isFailedOrFailing t = m_hasException t"

definition setCompletedState :: "task_base \<Rightarrow> task_base" where
  "setCompletedState t = t\<lparr>m_state := Completed\<rparr>"

definition requestCancelInternalMarkOnlyNoLock :: "task_base \<Rightarrow> task_base" where
  "requestCancelInternalMarkOnlyNoLock t = t\<lparr>m_cancelRequested := True\<rparr>"

text \<open>An exception of \<open>cancelTask\<close> is logged and swallowed; the call is counted.\<close>

definition requestCancelInternal :: "task_base \<Rightarrow> task_base" where
  "requestCancelInternal t =
     (if m_cancelRequested t then t
      else let t' = t\<lparr>m_cancelRequested := True\<rparr>
           in if Running \<noteq> m_state t' then t'
              else t'\<lparr>m_cancelTaskCalls := m_cancelTaskCalls t' + 1\<rparr>)"

text \<open>Simple tasks override the member to set the flag only, without the lock.\<close>

definition requestCancel :: "task_class \<Rightarrow> task_base \<Rightarrow> task_base" where
  "requestCancel K t =
     (if cancelMarkOnly K then requestCancelInternalMarkOnlyNoLock t else requestCancelInternal t)"

definition continuationTask :: "nat \<Rightarrow> task_base \<Rightarrow> cont_result" where
  "continuationTask self t =
     (case m_continuationCallback t of Some cb \<Rightarrow> cb self | None \<Rightarrow> ContNone)"

definition setContinuationCallback :: "(nat \<Rightarrow> cont_result) option \<Rightarrow> task_base \<Rightarrow> task_base" where
  "setContinuationCallback cb t = t\<lparr>m_continuationCallback := cb\<rparr>"

definition scheduleNothrow :: "task_class \<Rightarrow> task_base \<Rightarrow> task_base res" where
  "scheduleNothrow K t =
     (if Running = m_state t then Inl AssertFailed
      else
        let t1 = (if Created \<noteq> m_state t
                  then (setExceptionInternal None t)\<lparr>m_notifyCalled := False, m_cancelRequested := False\<rparr>
                  else t);
            t2 = t1\<lparr>m_cbReady := True\<rparr>;
            t3 = t2\<lparr>m_state := Running\<rparr>
        in if m_cancelRequested t3 \<and> \<not> scheduleEvenIfAlreadyCanceled K then
             Inr (t3\<lparr>m_posted := m_posted t3 @ [PostNotifyReady (Some OperationAborted) True]\<rparr>)
           else
             (case scheduleTask K t3 of
                ScheduleOk ps \<Rightarrow> Inr (t3\<lparr>m_posted := m_posted t3 @ ps\<rparr>)
              | ScheduleThrows e \<Rightarrow> Inr (t3\<lparr>m_posted := m_posted t3 @ [PostNotifyReady (Some e) False]\<rparr>)
              | ScheduleAborts \<Rightarrow> Inl RtAbort))"

text \<open>
  \<open>notifyReadyImpl\<close>: the flag of the result tells whether the ready callback is invoked (it is
  invoked after the lock is released).  The part which only logs the exception is left out.
\<close>

definition notifyReadyImpl ::
  "task_class \<Rightarrow> bool \<Rightarrow> eptr \<Rightarrow> task_base \<Rightarrow> (task_base \<times> bool) res" where
  "notifyReadyImpl K allowFinishContinuations eptrIn t =
     (let finish = (if allowFinishContinuations then scheduleTaskFinishContinuation K eptrIn else FinishNone)
      in if finish = FinishScheduled then Inr (t, False)
         else
           let (eptr1, t1) = (case finish of
                                FinishThrows e \<Rightarrow> (Some e, setExceptionInternal (Some e) t)
                              | _ \<Rightarrow> (eptrIn, t));
               eptr2 = onTaskStoppedNothrow K eptr1
           in if m_notifyCalled t1 then Inr (t1, False)
              else if \<not> m_cbReady t1 then Inl AssertFailed
              else
                let t2 = (if m_exception t1 = None then setExceptionInternal eptr2 t1 else t1)
                in Inr (t2\<lparr>m_cbReady := False, m_state := PendingCompletion, m_notifyCalled := True\<rparr>, True))"

definition notifyReady :: "task_class \<Rightarrow> eptr \<Rightarrow> task_base \<Rightarrow> (task_base \<times> bool) res" where
  "notifyReady K eptrIn t = notifyReadyImpl K True eptrIn t"

section \<open>Simple tasks\<close>

text \<open>The defaults of the base class and the overrides of the simple tasks.\<close>

definition base_class :: "(task_base \<Rightarrow> schedule_result) \<Rightarrow> task_class" where
  "base_class sched = \<lparr>scheduleTask = sched, scheduleEvenIfAlreadyCanceled = False,
     scheduleTaskFinishContinuation = (\<lambda>_. FinishNone), onTaskStoppedNothrow = (\<lambda>e. e),
     cancelMarkOnly = False\<rparr>"

definition simple_task_class :: task_class where
  "simple_task_class = (base_class (\<lambda>_. ScheduleOk [PostOnExecute]))\<lparr>cancelMarkOnly := True\<rparr>"

definition simple_completed_class :: task_class where
  "simple_completed_class = (base_class (\<lambda>_. ScheduleAborts))\<lparr>cancelMarkOnly := True\<rparr>"

definition new_completed_task :: "eptr \<Rightarrow> task_base" where
  "new_completed_task eptr = (setExceptionInternal eptr new_task)\<lparr>m_state := Completed\<rparr>"

text \<open>
  \<open>SimpleTaskWithContinuationT::onExecute\<close>; \<open>callback\<close> is what calling \<open>m_callback\<close>
  yields, None when it is empty.
\<close>

definition onExecute :: "task_class \<Rightarrow> cont_result option \<Rightarrow> task_base \<Rightarrow> (task_base \<times> bool) res" where
  "onExecute K callback t =
     (if m_cancelRequested t then notifyReady K (Some OperationAborted) t
      else case callback of
             None \<Rightarrow> notifyReady K None t
           | Some ContNone \<Rightarrow> notifyReady K None t
           | Some (ContTask c) \<Rightarrow>
               notifyReady K None (t\<lparr>m_continuationCallback := Some (\<lambda>_. ContTask c)\<rparr>)
           | Some (ContThrows e) \<Rightarrow> notifyReady K (Some e) t)"

section \<open>The interface the execution queue uses\<close>

text \<open>
  The laws of \<open>Task.h\<close> an executor relies on: a scheduled task runs and holds its callback,
  completion processing leaves a completed task, cancelling and reporting never move the state.
\<close>

locale task_interface =
  fixes schedule :: "'t \<Rightarrow> 't res"
    and getState :: "'t \<Rightarrow> task_state"
    and complete :: "'t \<Rightarrow> 't"
    and cancel :: "'t \<Rightarrow> 't"
    and setException :: "eptr \<Rightarrow> 't \<Rightarrow> 't"
    and failed :: "'t \<Rightarrow> bool"
  assumes schedule_running: "schedule t = Inr t' \<Longrightarrow> getState t \<noteq> Running \<and> getState t' = Running"
    and complete_state: "getState (complete t) = Completed"
    and cancel_state: "getState (cancel t) = getState t"
    and exception_state: "getState (setException e t) = getState t"
    and failed_late: "failed t \<Longrightarrow> getState t \<ge> PendingCompletion"
    and failed_after: "failed (complete (setException (Some x) t))"
begin

lemma running_not_failed: "getState t = Running \<Longrightarrow> \<not> failed t"
  using failed_late [of t] by (auto simp: less_eq_task_state_def)

lemma schedule_twice: "schedule t = Inr t' \<Longrightarrow> \<not> (\<exists>t''. schedule t' = Inr t'')"
  using schedule_running by blast

end

lemma requestCancel_state [simp]:
  "m_state (requestCancel K t) = m_state t" "m_exception (requestCancel K t) = m_exception t"
  "m_hasException (requestCancel K t) = m_hasException t" "m_cbReady (requestCancel K t) = m_cbReady t"
  "m_notifyCalled (requestCancel K t) = m_notifyCalled t"
  "m_continuationCallback (requestCancel K t) = m_continuationCallback t"
  "m_cancelRequested (requestCancel K t)"
  by (simp_all add: requestCancel_def requestCancelInternal_def
      requestCancelInternalMarkOnlyNoLock_def Let_def)

lemma setExceptionInternal_simps [simp]:
  "m_state (setExceptionInternal e t) = m_state t"
  "m_cbReady (setExceptionInternal e t) = m_cbReady t"
  "m_notifyCalled (setExceptionInternal e t) = m_notifyCalled t"
  "m_cancelRequested (setExceptionInternal e t) = m_cancelRequested t"
  "m_exception (setExceptionInternal e t) = e"
  "m_hasException (setExceptionInternal e t) = (e \<noteq> None)"
  "m_continuationCallback (setExceptionInternal e t) = m_continuationCallback t"
  by (simp_all add: setExceptionInternal_def)

lemma scheduleNothrow_cases:
  assumes "scheduleNothrow K t = Inr t'"
  shows "m_state t \<noteq> Running" "m_state t' = Running" "m_cbReady t'"
    "m_state t \<noteq> Created \<Longrightarrow> \<not> m_notifyCalled t' \<and> m_exception t' = None \<and> \<not> m_hasException t' \<and> \<not> m_cancelRequested t'"
    "m_state t = Created \<Longrightarrow> m_notifyCalled t' = m_notifyCalled t \<and> m_exception t' = m_exception t
       \<and> m_hasException t' = m_hasException t \<and> m_cancelRequested t' = m_cancelRequested t"
    "m_continuationCallback t' = m_continuationCallback t"
  using assms by (auto simp: scheduleNothrow_def Let_def split: if_splits schedule_result.splits)

interpretation task: task_interface "scheduleNothrow K" m_state setCompletedState "requestCancel K'"
    setExceptionInternal isFailed
  for K K'
  by unfold_locales
    (auto simp: setCompletedState_def isFailed_def less_eq_task_state_def dest: scheduleNothrow_cases(1,2))

end
