(* ===== verification/Pool.thy ===== *)
theory Pool
  imports Prelude "HOL-Library.Multiset"
begin

text \<open>
  The object pools of \<open>core/Pool.h\<close>: \<open>SimplePool\<close> (a stack of free objects), its two
  double-free checkers, and \<open>TaggedPool\<close> (one simple pool per tag).  The contract of a checker
  is a locale; both checkers of the code are interpretations of it.
\<close>

section \<open>Checkers\<close>

text \<open>
  A checker is the policy class \<open>CHECKER\<close> of a pool: \<open>'v\<close> are the (pointers to) pooled
  objects, \<open>'c\<close> is the state the checker reads and writes.
\<close>

record ('v, 'c) checker =
  markFreed :: "'v \<Rightarrow> 'c \<Rightarrow> 'c res"
  markAllocated :: "'v \<Rightarrow> 'c \<Rightarrow> 'c res"

text \<open>\<open>SimplePoolCheckerNaiveImpl\<close>: the set of cookies of the freed objects.\<close>

definition naive_markFreed :: "'v \<Rightarrow> 'v set \<Rightarrow> 'v set res" where
  "naive_markFreed value m_freedSet =
     (if value \<in> m_freedSet then Inl RtAbort else Inr (insert value m_freedSet))"

definition naive_markAllocated :: "'v \<Rightarrow> 'v set \<Rightarrow> 'v set res" where
  "naive_markAllocated value m_freedSet =
     (if value \<notin> m_freedSet then Inl RtAbort else Inr (m_freedSet - {value}))"

definition naive_checker :: "('v, 'v set) checker" where
  "naive_checker = \<lparr>markFreed = naive_markFreed, markAllocated = naive_markAllocated\<rparr>"

text \<open>
  \<open>SimplePoolCheckerIntrusiveImplPtr\<close>: the flag \<open>freed\<close> inside the object.  The objects live
  in a store; \<open>get\<close> and \<open>set\<close> are the two members \<open>freed\<close> of the object's class.
\<close>

definition intrusive_markFreed ::
  "('o \<Rightarrow> bool) \<Rightarrow> (bool \<Rightarrow> 'o \<Rightarrow> 'o) \<Rightarrow> 'v \<Rightarrow> ('v \<Rightarrow> 'o) \<Rightarrow> ('v \<Rightarrow> 'o) res" where
  "intrusive_markFreed get put_freed value store =
     (if get (store value) then Inl RtAbort
      else Inr (store(value := put_freed True (store value))))"

definition intrusive_markAllocated ::
  "('o \<Rightarrow> bool) \<Rightarrow> (bool \<Rightarrow> 'o \<Rightarrow> 'o) \<Rightarrow> 'v \<Rightarrow> ('v \<Rightarrow> 'o) \<Rightarrow> ('v \<Rightarrow> 'o) res" where
  "intrusive_markAllocated get put_freed value store =
     (if \<not> get (store value) then Inl RtAbort
      else Inr (store(value := put_freed False (store value))))"

definition intrusive_checker ::
  "('o \<Rightarrow> bool) \<Rightarrow> (bool \<Rightarrow> 'o \<Rightarrow> 'o) \<Rightarrow> ('v, 'v \<Rightarrow> 'o) checker" where
  "intrusive_checker get put_freed =
     \<lparr>markFreed = intrusive_markFreed get put_freed,
      markAllocated = intrusive_markAllocated get put_freed\<rparr>"

section \<open>SimplePool\<close>

text \<open>\<open>m_impl\<close> is the vector of free objects, its back at the end of the list.\<close>

record 'v simple_pool =
  m_impl :: "'v list"

definition empty_pool :: "'v simple_pool" where
  "empty_pool = \<lparr>m_impl = []\<rparr>"

text \<open>\<open>tryGet\<close> returns the default constructed value, modelled as None, from an empty pool.\<close>

definition tryGet ::
  "('v, 'c) checker \<Rightarrow> 'v simple_pool \<Rightarrow> 'c \<Rightarrow> ('v option \<times> 'v simple_pool \<times> 'c) res" where
  "tryGet C pool c =
     (if length (m_impl pool) \<noteq> 0 then
        (let value = last (m_impl pool)
         in bindR (markAllocated C value c)
              (\<lambda>c'. Inr (Some value, pool\<lparr>m_impl := butlast (m_impl pool)\<rparr>, c')))
      else Inr (None, pool, c))"

definition put ::
  "('v, 'c) checker \<Rightarrow> 'v \<Rightarrow> 'v simple_pool \<Rightarrow> 'c \<Rightarrow> ('v simple_pool \<times> 'c) res" where
  "put C value pool c =
     bindR (markFreed C value c) (\<lambda>c'. Inr (pool\<lparr>m_impl := m_impl pool @ [value]\<rparr>, c'))"

section \<open>TaggedPool\<close>

text \<open>The pools by tag; each simple pool has a checker state of its own.\<close>

type_synonym ('k, 'v, 'c) tagged_pool = "'k \<Rightarrow> ('v simple_pool \<times> 'c) option"

definition tagged_tryGet ::
  "('v, 'c) checker \<Rightarrow> 'k \<Rightarrow> ('k, 'v, 'c) tagged_pool \<Rightarrow> ('v option \<times> ('k, 'v, 'c) tagged_pool) res" where
  "tagged_tryGet C tag pools =
     (case pools tag of
        Some (pool, c) \<Rightarrow> bindR (tryGet C pool c) (\<lambda>(v, pool', c'). Inr (v, pools(tag \<mapsto> (pool', c'))))
      | None \<Rightarrow> Inr (None, pools))"

definition tagged_put ::
  "('v, 'c) checker \<Rightarrow> 'c \<Rightarrow> 'k \<Rightarrow> 'v \<Rightarrow> ('k, 'v, 'c) tagged_pool \<Rightarrow> ('k, 'v, 'c) tagged_pool res" where
  "tagged_put C fresh tag value pools =
     (case (case pools tag of None \<Rightarrow> (empty_pool, fresh) | Some p \<Rightarrow> p) of
        (pool, c) \<Rightarrow> bindR (put C value pool c) (\<lambda>p. Inr (pools(tag \<mapsto> p))))"

section \<open>The contract of a checker\<close>

locale freed_checker =
  fixes C :: "('v, 'c) checker" and is_freed :: "'v \<Rightarrow> 'c \<Rightarrow> bool"
  assumes mark_freed: "\<not> is_freed v c \<Longrightarrow>
      \<exists>c'. markFreed C v c = Inr c' \<and> (\<forall>w. is_freed w c' \<longleftrightarrow> w = v \<or> is_freed w c)"
    and mark_freed_twice: "is_freed v c \<Longrightarrow> markFreed C v c = Inl RtAbort"
    and mark_allocated: "is_freed v c \<Longrightarrow>
      \<exists>c'. markAllocated C v c = Inr c' \<and> (\<forall>w. is_freed w c' \<longleftrightarrow> w \<noteq> v \<and> is_freed w c)"
    and mark_allocated_twice: "\<not> is_freed v c \<Longrightarrow> markAllocated C v c = Inl RtAbort"
begin

text \<open>The free list has no duplicates and its objects are exactly the freed ones.\<close>

definition wf_pool :: "'v simple_pool \<Rightarrow> 'c \<Rightarrow> bool" where
  "wf_pool pool c \<longleftrightarrow> distinct (m_impl pool) \<and> (\<forall>v. is_freed v c \<longleftrightarrow> v \<in> set (m_impl pool))"

lemma put_held:
  assumes "wf_pool pool c" "v \<notin> set (m_impl pool)"
  obtains c' where "put C v pool c = Inr (pool\<lparr>m_impl := m_impl pool @ [v]\<rparr>, c')"
    "wf_pool (pool\<lparr>m_impl := m_impl pool @ [v]\<rparr>) c'"
proof -
  from assms have "\<not> is_freed v c" by (simp add: wf_pool_def)
  then obtain c' where "markFreed C v c = Inr c'" "\<forall>w. is_freed w c' \<longleftrightarrow> w = v \<or> is_freed w c"
    using mark_freed by blast
  with assms show thesis by (intro that [of c']) (auto simp: put_def wf_pool_def)
qed

lemma put_twice: "wf_pool pool c \<Longrightarrow> v \<in> set (m_impl pool) \<Longrightarrow> put C v pool c = Inl RtAbort"
  by (simp add: put_def wf_pool_def mark_freed_twice)

lemma tryGet_empty: "m_impl pool = [] \<Longrightarrow> tryGet C pool c = Inr (None, pool, c)"
  by (simp add: tryGet_def)

lemma tryGet_back:
  assumes "wf_pool pool c" "m_impl pool = vs @ [v]"
  obtains c' where "tryGet C pool c = Inr (Some v, pool\<lparr>m_impl := vs\<rparr>, c')"
    "wf_pool (pool\<lparr>m_impl := vs\<rparr>) c'"
proof -
  from assms have "is_freed v c" by (simp add: wf_pool_def)
  then obtain c' where "markAllocated C v c = Inr c'" "\<forall>w. is_freed w c' \<longleftrightarrow> w \<noteq> v \<and> is_freed w c"
    using mark_allocated by blast
  with assms show thesis by (intro that [of c']) (auto simp: tryGet_def wf_pool_def)
qed

lemma put_tryGet:
  assumes "wf_pool pool c" "put C v pool c = Inr (pool', c')"
  shows "\<exists>c''. tryGet C pool' c' = Inr (Some v, pool, c'') \<and> wf_pool pool c''"
proof -
  from assms put_twice have n: "v \<notin> set (m_impl pool)" by force
  with assms(2) have p: "pool' = pool\<lparr>m_impl := m_impl pool @ [v]\<rparr>" "wf_pool pool' c'"
    using put_held [OF assms(1) n] by (metis Pair_inject sum.inject(2))+
  then obtain c'' where "tryGet C pool' c' = Inr (Some v, pool'\<lparr>m_impl := m_impl pool\<rparr>, c'')"
    "wf_pool (pool'\<lparr>m_impl := m_impl pool\<rparr>) c''"
    using tryGet_back [of pool' c' "m_impl pool" v] by auto
  with p(1) show ?thesis by auto
qed

end

text \<open>Both checkers of the code satisfy the contract.\<close>

interpretation naive: freed_checker naive_checker "\<lambda>v S. v \<in> S"
  by unfold_locales (auto simp: naive_checker_def naive_markFreed_def naive_markAllocated_def)

lemma intrusive_contract:
  assumes "\<And>b x. get (put_freed b x) = b"
  shows "freed_checker (intrusive_checker get put_freed) (\<lambda>v store. get (store v))"
  by unfold_locales
    (auto simp: intrusive_checker_def intrusive_markFreed_def intrusive_markAllocated_def assms)

interpretation flag: freed_checker "intrusive_checker (\<lambda>b. b) (\<lambda>b _. b)" "\<lambda>v store. store v"
  by (rule intrusive_contract) simp

section \<open>Runs\<close>

text \<open>
  A client's calls on one pool.  The observations are the values \<open>tryGet\<close> returned; an abort
  ends the run.
\<close>

datatype 'v pool_call = CallPut 'v | CallTryGet

fun run_pool ::
  "('v, 'c) checker \<Rightarrow> 'v pool_call list \<Rightarrow> 'v simple_pool \<Rightarrow> 'c \<Rightarrow> ('v option list \<times> 'v simple_pool \<times> 'c) res" where
  "run_pool C [] pool c = Inr ([], pool, c)"
| "run_pool C (CallPut v # calls) pool c =
     bindR (put C v pool c) (\<lambda>(pool', c'). run_pool C calls pool' c')"
| "run_pool C (CallTryGet # calls) pool c =
     bindR (tryGet C pool c)
       (\<lambda>(v, pool', c'). bindR (run_pool C calls pool' c') (\<lambda>(vs, r). Inr (v # vs, r)))"

definition observed :: "('v option list \<times> 'v simple_pool \<times> 'c) res \<Rightarrow> ('v option list \<times> 'v list) res" where
  "observed r = bindR r (\<lambda>(vs, pool, c). Inr (vs, m_impl pool))"

definition puts_of :: "'v pool_call list \<Rightarrow> 'v list" where
  "puts_of calls = List.map_filter (\<lambda>x. case x of CallPut v \<Rightarrow> Some v | CallTryGet \<Rightarrow> None) calls"

lemma puts_of_simps [simp]:
  "puts_of [] = []" "puts_of (CallPut v # cs) = v # puts_of cs" "puts_of (CallTryGet # cs) = puts_of cs"
  by (simp_all add: puts_of_def map_filter_simps)

context freed_checker begin

lemma run_conserves:
  "wf_pool pool c \<Longrightarrow> run_pool C calls pool c = Inr (vs, pool', c') \<Longrightarrow>
     wf_pool pool' c' \<and> mset (m_impl pool) + mset (puts_of calls) =
       mset (List.map_filter id vs) + mset (m_impl pool')"
proof (induction calls arbitrary: pool c vs)
  case Nil
  then show ?case by (simp add: map_filter_simps)
next
  case (Cons call calls)
  show ?case
  proof (cases call)
    case (CallPut v)
    with Cons.prems have "put C v pool c \<noteq> Inl RtAbort" by auto
    then have "v \<notin> set (m_impl pool)" using put_twice Cons.prems(1) by blast
    then obtain d where "put C v pool c = Inr (pool\<lparr>m_impl := m_impl pool @ [v]\<rparr>, d)"
      "wf_pool (pool\<lparr>m_impl := m_impl pool @ [v]\<rparr>) d"
      by (rule put_held [OF Cons.prems(1)])
    with Cons.prems(2) CallPut Cons.IH [of "pool\<lparr>m_impl := m_impl pool @ [v]\<rparr>" d vs]
    show ?thesis by (auto simp: ac_simps)
  next
    case CallTryGet
    show ?thesis
    proof (cases "m_impl pool" rule: rev_cases)
      case Nil
      with Cons.prems(2) CallTryGet obtain us where "run_pool C calls pool c = Inr (us, pool', c')" "vs = None # us"
        by (auto simp: tryGet_empty bindR_eq_Inr)
      with Cons.IH [OF Cons.prems(1)] CallTryGet show ?thesis by (simp add: map_filter_simps)
    next
      case (snoc us u)
      then obtain d where "tryGet C pool c = Inr (Some u, pool\<lparr>m_impl := us\<rparr>, d)" "wf_pool (pool\<lparr>m_impl := us\<rparr>) d"
        by (rule tryGet_back [OF Cons.prems(1)])
      with Cons.prems(2) CallTryGet obtain ws where
        "run_pool C calls (pool\<lparr>m_impl := us\<rparr>) d = Inr (ws, pool', c')" "vs = Some u # ws"
        by (auto simp: bindR_eq_Inr)
      with Cons.IH [OF \<open>wf_pool (pool\<lparr>m_impl := us\<rparr>) d\<close>] CallTryGet snoc show ?thesis
        by (simp add: map_filter_simps)
    qed
  qed
qed

end

text \<open>Two checkers whose marks agree are indistinguishable by the calls of a client.\<close>

lemma run_related:
  assumes "\<And>v c d. R c d \<Longrightarrow> rel_sum (=) R (markFreed C v c) (markFreed D v d)"
    and "\<And>v c d. R c d \<Longrightarrow> rel_sum (=) R (markAllocated C v c) (markAllocated D v d)"
  shows "R c d \<Longrightarrow> observed (run_pool C calls pool c) = observed (run_pool D calls pool d)"
proof (induction calls arbitrary: pool c d)
  case Nil
  then show ?case by (simp add: observed_def)
next
  case (Cons call calls)
  show ?case
  proof (cases call)
    case (CallPut v)
    from assms(1) [OF Cons.prems, of v] Cons.IH CallPut show ?thesis
      by (cases rule: rel_sum.cases) (simp_all add: put_def observed_def)
  next
    case CallTryGet
    let ?v = "last (m_impl pool)" and ?p = "pool\<lparr>m_impl := butlast (m_impl pool)\<rparr>"
    have obs: "observed (bindR (run_pool E calls q e) (\<lambda>(vs, r). Inr (v # vs, r)))
        = bindR (observed (run_pool E calls q e)) (\<lambda>(vs, r). Inr (v # vs, r))" for E q e v
      by (cases "run_pool E calls q e") (auto simp: observed_def)
    show ?thesis
    proof (cases "m_impl pool = []")
      case True
      with CallTryGet Cons.IH [OF Cons.prems, of pool] show ?thesis by (simp add: tryGet_def obs)
    next
      case False
      from assms(2) [OF Cons.prems, of ?v] show ?thesis
      proof (cases rule: rel_sum.cases)
        case (1 a b)
        with CallTryGet False show ?thesis by (simp add: tryGet_def observed_def)
      next
        case (2 a b)
        with CallTryGet False Cons.IH [of a b ?p] show ?thesis by (simp add: tryGet_def obs)
      qed
    qed
  qed
qed

lemma naive_intrusive_related:
  assumes "\<And>b x. get (put_freed b x) = b" "\<forall>v. v \<in> S \<longleftrightarrow> get (store v)"
  shows "rel_sum (=) (\<lambda>S store. \<forall>v. v \<in> S \<longleftrightarrow> get (store v))
       (naive_markFreed v S) (intrusive_markFreed get put_freed v store)"
    "rel_sum (=) (\<lambda>S store. \<forall>v. v \<in> S \<longleftrightarrow> get (store v))
       (naive_markAllocated v S) (intrusive_markAllocated get put_freed v store)"
  using assms by (auto simp: naive_markFreed_def intrusive_markFreed_def
      naive_markAllocated_def intrusive_markAllocated_def)

section \<open>Properties\<close>

text \<open>
  The naive and the intrusive checker are interchangeable: from the same freed objects, every
  sequence of calls returns the same objects, leaves the same free list and aborts at the same call.
\<close>

theorem pool_checkers_equivalent:
  assumes "\<And>b x. get (put_freed b x) = b" "\<forall>v. v \<in> freed \<longleftrightarrow> get (store v)"
  shows "observed (run_pool naive_checker calls pool freed)
       = observed (run_pool (intrusive_checker get put_freed) calls pool store)"
  using naive_intrusive_related [of get put_freed] assms
  by (intro run_related [where R = "\<lambda>S store. \<forall>v. v \<in> S \<longleftrightarrow> get (store v)"])
    (simp_all add: naive_checker_def intrusive_checker_def)

lemma pool_checkers_equivalent_witness:
  "observed (run_pool naive_checker [CallPut (7::nat), CallTryGet, CallPut 7, CallPut 7] empty_pool {}) = Inl RtAbort
   \<and> observed (run_pool (intrusive_checker (\<lambda>b. b) (\<lambda>b _. b))
        [CallPut (7::nat), CallTryGet, CallPut 7, CallPut 7] empty_pool (\<lambda>_. False)) = Inl RtAbort"
  using pool_checkers_equivalent [of "\<lambda>b. b" "\<lambda>b _. b" "{}" "\<lambda>_. False"
      "[CallPut (7::nat), CallTryGet, CallPut 7, CallPut 7]" empty_pool]
  by (simp add: observed_def naive_checker_def naive_markFreed_def naive_markAllocated_def
      empty_pool_def put_def tryGet_def)

text \<open>
  A pool hands out only what was put into it, and each object at most once until it is put back:
  over a run that does not abort, the objects put are the objects handed out and the objects left in
  the free list, counted with multiplicity, and the free list has no duplicates.
\<close>

theorem pool_run_conserves:
  assumes "\<And>b x. get (put_freed b x) = b" "\<forall>v. \<not> get (store v)"
    and "run_pool (intrusive_checker get put_freed) calls empty_pool store = Inr (vs, pool, store')"
  shows "mset (puts_of calls) = mset (List.map_filter id vs) + mset (m_impl pool)
     \<and> distinct (m_impl pool) \<and> (\<forall>v. get (store' v) \<longleftrightarrow> v \<in> set (m_impl pool))"
proof -
  have c: "freed_checker (intrusive_checker get put_freed) (\<lambda>v store. get (store v))"
    by (rule intrusive_contract) (rule assms(1))
  have "freed_checker.wf_pool (\<lambda>v store. get (store v)) empty_pool store"
    using assms(2) by (simp add: freed_checker.wf_pool_def [OF c] empty_pool_def)
  from freed_checker.run_conserves [OF c this assms(3)] show ?thesis
    by (simp add: freed_checker.wf_pool_def [OF c] empty_pool_def)
qed

lemma pool_run_conserves_witness:
  "\<exists>store'. run_pool (intrusive_checker (\<lambda>b. b) (\<lambda>b _. b))
     [CallPut (1::nat), CallPut 2, CallTryGet, CallPut 3] empty_pool (\<lambda>_. False) = Inr ([Some 2], \<lparr>m_impl = [1, 3]\<rparr>, store')
     \<and> mset [1::nat, 2, 3] = mset [2] + mset [1, 3]"
proof -
  have "run_pool (intrusive_checker (\<lambda>b. b) (\<lambda>b _. b))
     [CallPut (1::nat), CallPut 2, CallTryGet, CallPut 3] empty_pool (\<lambda>_. False)
     = Inr ([Some 2], \<lparr>m_impl = [1, 3]\<rparr>, (\<lambda>_. False)(1 := True, 2 := False, 3 := True))"
    by (simp add: intrusive_checker_def intrusive_markFreed_def intrusive_markAllocated_def
        empty_pool_def put_def tryGet_def fun_upd_twist)
  from pool_run_conserves [OF _ _ this] this show ?thesis by (simp add: map_filter_simps)
qed

text \<open>
  In a tagged pool the tags are isolated: what is put under a tag comes back first under that
  tag, and neither operation changes what any other tag returns.
\<close>

theorem tagged_pool_isolated:
  assumes "freed_checker C is_freed" "freed_checker.wf_pool is_freed empty_pool fresh"
    and "\<forall>p c. pools tag = Some (p, c) \<longrightarrow> freed_checker.wf_pool is_freed p c"
    and "tagged_put C fresh tag v pools = Inr pools'"
  shows "(\<exists>pools''. tagged_tryGet C tag pools' = Inr (Some v, pools'')
       \<and> map_option (m_impl \<circ> fst) (pools'' tag) = Some (case pools tag of None \<Rightarrow> [] | Some (p, _) \<Rightarrow> m_impl p)
       \<and> (\<forall>t. t \<noteq> tag \<longrightarrow> pools'' t = pools t))
     \<and> (\<forall>t. t \<noteq> tag \<longrightarrow> pools' t = pools t)"
proof -
  obtain p c where pc: "(case pools tag of None \<Rightarrow> (empty_pool, fresh) | Some q \<Rightarrow> q) = (p, c)" by fastforce
  with assms(2,3) have wf: "freed_checker.wf_pool is_freed p c" by (auto split: option.splits)
  from assms(4) pc obtain p' c' where put: "put C v p c = Inr (p', c')" "pools' = pools(tag \<mapsto> (p', c'))"
    by (auto simp: tagged_put_def bindR_eq_Inr)
  from freed_checker.put_tryGet [OF assms(1) wf put(1)] obtain c'' where
    "tryGet C p' c' = Inr (Some v, p, c'')" by blast
  moreover from pc have "(case pools tag of None \<Rightarrow> [] | Some (p, _) \<Rightarrow> m_impl p) = m_impl p"
    by (auto simp: empty_pool_def split: option.splits)
  ultimately show ?thesis using put(2) by (simp add: tagged_tryGet_def)
qed

lemma tagged_pool_isolated_witness:
  "\<exists>pools' pools''. tagged_put naive_checker {} ''a'' (5::nat) (\<lambda>_. None) = Inr pools'
     \<and> tagged_tryGet naive_checker ''a'' pools' = Inr (Some 5, pools'')"
proof -
  have "tagged_put naive_checker {} ''a'' (5::nat) (\<lambda>_. None) =
      Inr ((\<lambda>_. None)(''a'' \<mapsto> (\<lparr>m_impl = [5]\<rparr>, {5})))"
    by (simp add: tagged_put_def put_def naive_checker_def naive_markFreed_def empty_pool_def)
  moreover have "freed_checker.wf_pool (\<lambda>v S. v \<in> S) empty_pool ({} :: nat set)"
    by (simp add: naive.wf_pool_def empty_pool_def)
  ultimately show ?thesis
    using tagged_pool_isolated [OF naive.freed_checker_axioms, of "{}" "\<lambda>_. None" "''a''" "5 :: nat"] by auto
qed

end
