(* ===== verification/ExecutionQueue.thy ===== *)
theory ExecutionQueue
  imports TaskBase Pool "HOL-Library.AList"
begin

text \<open>
  The execution queue of \<open>tasks/ExecutionQueueImpl.h\<close>, operation by operation.  Objects are named
  by their addresses (natural numbers): \<open>m_infos\<close> is the store of \<open>TaskInfo\<close> objects,
  \<open>m_tasks\<close> the store of tasks.  Each operation is one critical section of \<open>m_lock\<close>; an
  operation that blocks takes what the other threads do while it waits as an argument.
\<close>

unbundle bit_operations_syntax

section \<open>Options, events, task infos\<close>

definition OptionKeepSuccessful :: "32 word" where "OptionKeepSuccessful = 1"
definition OptionKeepFailed :: "32 word" where "OptionKeepFailed = 2"
definition OptionKeepCanceled :: "32 word" where "OptionKeepCanceled = 4"

datatype event_id = TaskReady | TaskDiscarded | AllTasksCompleted

fun event_mask :: "event_id \<Rightarrow> 32 word" where
  "event_mask TaskReady = 1" | "event_mask TaskDiscarded = 2" | "event_mask AllTasksCompleted = 4"

definition AllEvents :: "32 word" where
  "AllEvents = event_mask TaskReady OR event_mask TaskDiscarded OR event_mask AllTasksCompleted"

datatype notify_delivery = DeliveryConcurrent | DeliverySerialized

text \<open>
  An observer behind its proxy: the proxy yields a reference only while it is connected, and the
  limit is what \<open>maxReadyOrExecuting()\<close> answers.
\<close>

record observer =
  ob_connected :: bool
  ob_maxReadyOrExecuting :: "64 word"

text \<open>A bound call of \<open>onEvent\<close>, with the delivery policy captured when it was bound.\<close>

record notification =
  n_event :: event_id
  n_task :: "nat option"
  n_serialize :: bool

datatype owner_queue = ONone | OPending | OExecuting | OReady

datatype queue_id = QReady | QExecuting | QPending

record task_info =
  ti_task :: "nat option"
  ti_owner :: owner_queue
  ti_freed :: bool

definition new_info :: task_info where
  "new_info = \<lparr>ti_task = None, ti_owner = ONone, ti_freed = False\<rparr>"

definition info_checker :: "(nat, nat \<Rightarrow> task_info) checker" where
  "info_checker = intrusive_checker ti_freed (\<lambda>b. ti_freed_update (\<lambda>_. b))"

section \<open>The state of a queue\<close>

record eq_state =
  m_localThreadPool :: "nat option"
  m_maxExecuting :: "64 word"
  m_maxReadyOrExecuting :: "64 word"
  m_options :: "32 word"
  m_executingCount :: "64 word"
  m_readyCount :: "64 word"
  m_activeWorkGeneration :: "64 word"
  m_lastPublishedGeneration :: "64 word"
  m_lastCandidateGeneration :: "64 word"
  m_pending :: "nat list"
  m_executing :: "nat list"
  m_ready :: "nat list"
  m_allTasks :: "(nat \<times> nat) list"
  m_cvSignals :: nat
  m_notifyCB :: "observer option"
  m_eventsMask :: "32 word"
  m_notifyDelivery :: notify_delivery
  m_lockNotify :: "nat option"
  m_notifyOwner :: "nat option"
  m_observerThis :: bool
  m_taskInfoPool :: "nat simple_pool"
  m_infos :: "nat \<Rightarrow> task_info"
  m_nextInfo :: nat
  m_tasks :: "nat \<Rightarrow> task_base"

definition new_queue :: "32 word \<Rightarrow> 64 word \<Rightarrow> (nat \<Rightarrow> task_base) \<Rightarrow> eq_state" where
  "new_queue options maxExecuting tasks = \<lparr>m_localThreadPool = None, m_maxExecuting = maxExecuting,
     m_maxReadyOrExecuting = 0, m_options = options, m_executingCount = 0, m_readyCount = 0,
     m_activeWorkGeneration = 0, m_lastPublishedGeneration = 0, m_lastCandidateGeneration = 0,
     m_pending = [], m_executing = [], m_ready = [], m_allTasks = [], m_cvSignals = 0,
     m_notifyCB = None, m_eventsMask = 0, m_notifyDelivery = DeliveryConcurrent,
     m_lockNotify = None, m_notifyOwner = None, m_observerThis = True, m_taskInfoPool = empty_pool,
     m_infos = (\<lambda>_. new_info), m_nextInfo = 0, m_tasks = tasks\<rparr>"

section \<open>Task infos and the intrusive lists\<close>

text \<open>\<open>unlink()\<close> of the auto-unlink hook takes the object out of the list it is in.\<close>

definition unlinkInfo :: "nat \<Rightarrow> eq_state \<Rightarrow> eq_state" where
  "unlinkInfo i s = s\<lparr>m_pending := remove1 i (m_pending s), m_executing := remove1 i (m_executing s),
     m_ready := remove1 i (m_ready s)\<rparr>"

definition setOwnerQueue :: "owner_queue \<Rightarrow> nat \<Rightarrow> eq_state \<Rightarrow> eq_state" where
  "setOwnerQueue q i s = s\<lparr>m_infos := (m_infos s)(i := (m_infos s i)\<lparr>ti_owner := q\<rparr>)\<rparr>"

definition attachTask :: "nat option \<Rightarrow> nat \<Rightarrow> eq_state \<Rightarrow> eq_state" where
  "attachTask t i s = s\<lparr>m_infos := (m_infos s)(i := (m_infos s i)\<lparr>ti_task := t\<rparr>)\<rparr>"

definition getOwnerQueue :: "nat \<Rightarrow> eq_state \<Rightarrow> owner_queue" where
  "getOwnerQueue i s = ti_owner (m_infos s i)"

definition taskOf :: "eq_state \<Rightarrow> nat \<Rightarrow> nat res" where
  "taskOf s i = (case ti_task (m_infos s i) of None \<Rightarrow> Inl AssertFailed | Some t \<Rightarrow> Inr t)"

text \<open>\<open>InsertSelector\<close>: at the back or at the front of a list.\<close>

definition insertAt :: "bool \<Rightarrow> nat \<Rightarrow> nat list \<Rightarrow> nat list" where
  "insertAt isBack x c = (if isBack then c @ [x] else x # c)"

definition setTask :: "nat \<Rightarrow> task_base \<Rightarrow> eq_state \<Rightarrow> eq_state" where
  "setTask t b s = s\<lparr>m_tasks := (m_tasks s)(t := b)\<rparr>"

definition keepTask :: "nat \<Rightarrow> eq_state \<Rightarrow> bool" where
  "keepTask t s =
     (if isFailed (m_tasks s t) then 0 \<noteq> (m_options s) AND OptionKeepFailed
      else 0 \<noteq> (m_options s) AND OptionKeepSuccessful)"

definition getReadyOrExecuting :: "eq_state \<Rightarrow> 64 word" where
  "getReadyOrExecuting s = m_readyCount s + m_executingCount s"

section \<open>Notifications\<close>

definition getEventNotifyCB :: "event_id \<Rightarrow> nat option \<Rightarrow> eq_state \<Rightarrow> notification option" where
  "getEventNotifyCB e t s =
     (case m_notifyCB s of
        None \<Rightarrow> None
      | Some ob \<Rightarrow>
          (if ((m_eventsMask s) AND event_mask e) \<noteq> 0 \<and> ob_connected ob then
             Some \<lparr>n_event = e, n_task = t, n_serialize = (DeliverySerialized = m_notifyDelivery s)\<rparr>
           else None))"

text \<open>
  \<open>invokeNotifyCB\<close> up to the call of the observer, for the thread \<open>tid\<close>: None when the thread
  blocks on \<open>m_lockNotify\<close>; and what follows the call.
\<close>

definition notifyBegin :: "nat \<Rightarrow> notification \<Rightarrow> eq_state \<Rightarrow> eq_state option res" where
  "notifyBegin tid n s =
     (if n_serialize n then
        bindR (chkR (m_notifyOwner s \<noteq> Some tid) RtAbort)
          (\<lambda>_. if m_lockNotify s \<noteq> None then Inr None
                else Inr (Some (s\<lparr>m_lockNotify := Some tid, m_notifyOwner := Some tid\<rparr>)))
      else Inr (Some s))"

definition notifyEnd :: "notification \<Rightarrow> eq_state \<Rightarrow> eq_state" where
  "notifyEnd n s = (if n_serialize n then s\<lparr>m_notifyOwner := None, m_lockNotify := None\<rparr> else s)"

section \<open>Moving tasks between the lists\<close>

definition moveTaskToReadyQueue :: "nat \<Rightarrow> eq_state \<Rightarrow> eq_state" where
  "moveTaskToReadyQueue i s =
     (let s1 = setOwnerQueue OReady i (unlinkInfo i s)
      in s1\<lparr>m_ready := m_ready s1 @ [i], m_readyCount := m_readyCount s1 + 1\<rparr>)"

definition moveExecutingTaskToPendingQueue :: "nat \<Rightarrow> eq_state \<Rightarrow> eq_state res" where
  "moveExecutingTaskToPendingQueue i s =
     bindR (chkR (OExecuting = getOwnerQueue i s) AssertFailed)
       (\<lambda>_. let s1 = setOwnerQueue OPending i (unlinkInfo i s)
             in Inr (s1\<lparr>m_pending := m_pending s1 @ [i], m_executingCount := m_executingCount s1 - 1\<rparr>))"

definition throttled :: "eq_state \<Rightarrow> bool" where
  "throttled s \<longleftrightarrow>
     m_maxExecuting s \<noteq> 0 \<and> m_executingCount s \<ge> m_maxExecuting s
     \<or> m_maxReadyOrExecuting s \<noteq> 0 \<and> getReadyOrExecuting s \<ge> m_maxReadyOrExecuting s"

definition toExecuting :: "nat \<Rightarrow> eq_state \<Rightarrow> eq_state" where
  "toExecuting i s =
     (let s1 = setOwnerQueue OExecuting i (unlinkInfo i s)
      in s1\<lparr>m_executing := m_executing s1 @ [i], m_executingCount := m_executingCount s1 + 1\<rparr>)"

lemma toExecuting_pending [simp]: "m_pending (toExecuting i s) = remove1 i (m_pending s)"
  by (simp add: toExecuting_def setOwnerQueue_def unlinkInfo_def Let_def)

lemma setTask_pending [simp]: "m_pending (setTask t b s) = m_pending s"
  by (simp add: setTask_def)

text \<open>\<open>padExecutingQueueNothrow\<close>; \<open>K\<close> gives the class of each task.\<close>

function pad :: "(nat \<Rightarrow> task_class) \<Rightarrow> eq_state \<Rightarrow> eq_state res" where
  "pad K s =
     (case m_pending s of
        [] \<Rightarrow> Inr s
      | i # _ \<Rightarrow>
          (if throttled s then Inr s
           else bindR (taskOf s i)
             (\<lambda>t. bindR (scheduleNothrow (K t) (m_tasks s t))
                (\<lambda>t'. pad K (toExecuting i (setTask t t' s))))))"
  by pat_completeness auto
termination
  by (relation "measure (\<lambda>(K, s). length (m_pending s))") (auto simp: length_remove1)

declare pad.simps [simp del]

section \<open>Entering and leaving the queue\<close>

text \<open>\<open>new TaskInfo()\<close>; addresses are 64 bits wide.\<close>

definition newInfo :: "eq_state \<Rightarrow> (nat \<times> eq_state) res" where
  "newInfo s =
     (if m_nextInfo s + 1 < 2 ^ 64
      then Inr (m_nextInfo s, s\<lparr>m_infos := (m_infos s)(m_nextInfo s := new_info), m_nextInfo := m_nextInfo s + 1\<rparr>)
      else Inl BadAlloc)"

definition getInfo :: "eq_state \<Rightarrow> (nat \<times> eq_state) res" where
  "getInfo s =
     bindR (tryGet info_checker (m_taskInfoPool s) (m_infos s))
       (\<lambda>(v, pool, infos). let s1 = s\<lparr>m_taskInfoPool := pool, m_infos := infos\<rparr>
          in case v of Some i \<Rightarrow> Inr (i, s1) | None \<Rightarrow> newInfo s1)"

definition pushExisting :: "bool \<Rightarrow> nat \<Rightarrow> bool \<Rightarrow> eq_state \<Rightarrow> eq_state res" where
  "pushExisting isBack i dontSchedule s =
     bindR (chkR (OReady = getOwnerQueue i s) AssertFailed)
       (\<lambda>_. if dontSchedule then Inr s
             else let s1 = setOwnerQueue OPending i (unlinkInfo i s)
                  in Inr (s1\<lparr>m_pending := insertAt isBack i (m_pending s1),
                       m_readyCount := m_readyCount s1 - 1,
                       m_activeWorkGeneration := m_activeWorkGeneration s1 + 1\<rparr>))"

definition pushNew :: "bool \<Rightarrow> nat \<Rightarrow> bool \<Rightarrow> eq_state \<Rightarrow> eq_state res" where
  "pushNew isBack t dontSchedule s =
     bindR (getInfo s)
       (\<lambda>(i, s0).
          let s1 = attachTask (Some t) i s0;
              s2 = s1\<lparr>m_allTasks := AList.update t i (m_allTasks s1)\<rparr>;
              s3 = setOwnerQueue (if dontSchedule then OReady else OPending) i s2
          in Inr (if dontSchedule
                  then s3\<lparr>m_ready := insertAt isBack i (m_ready s3), m_readyCount := m_readyCount s3 + 1\<rparr>
                  else s3\<lparr>m_pending := insertAt isBack i (m_pending s3),
                          m_activeWorkGeneration := m_activeWorkGeneration s3 + 1\<rparr>))"

definition pushInternalNoLock ::
  "(nat \<Rightarrow> task_class) \<Rightarrow> bool \<Rightarrow> nat \<Rightarrow> bool \<Rightarrow> eq_state \<Rightarrow> eq_state res" where
  "pushInternalNoLock K isBack t dontSchedule s =
     bindR (case map_of (m_allTasks s) t of
              Some i \<Rightarrow> pushExisting isBack i dontSchedule s
            | None \<Rightarrow> pushNew isBack t dontSchedule s)
       (pad K)"

definition pushInternal ::
  "(nat \<Rightarrow> task_class) \<Rightarrow> bool \<Rightarrow> nat \<Rightarrow> bool \<Rightarrow> eq_state \<Rightarrow> eq_state res" where
  "pushInternal K isBack t dontSchedule s =
     bindR (chkR (Running \<noteq> m_state (m_tasks s t)) AssertFailed)
       (\<lambda>_. pushInternalNoLock K isBack t dontSchedule s)"

definition unlinkAndDestroy :: "nat \<Rightarrow> eq_state \<Rightarrow> eq_state res" where
  "unlinkAndDestroy i s =
     bindR (taskOf s i)
       (\<lambda>t. bindR (chkR (map_of (m_allTasks s) t \<noteq> None) AssertFailed)
         (\<lambda>_. let s1 = s\<lparr>m_allTasks := AList.delete t (m_allTasks s)\<rparr>;
                   s2 = attachTask None i (setOwnerQueue ONone i (unlinkInfo i s1))
               in bindR (put info_checker i (m_taskInfoPool s2) (m_infos s2))
                    (\<lambda>(pool, infos). Inr (s2\<lparr>m_taskInfoPool := pool, m_infos := infos\<rparr>))))"

text \<open>The two instances of \<open>clearQueue\<close>: the pending queue, and the ready queue with its counter.\<close>

lemma unlinkAndDestroy_lists:
  assumes "unlinkAndDestroy i s = Inr s'"
  shows "m_pending s' = remove1 i (m_pending s)" "m_executing s' = remove1 i (m_executing s)"
    "m_ready s' = remove1 i (m_ready s)"
  using assms by (auto simp: unlinkAndDestroy_def bindR_eq_Inr Let_def attachTask_def
      setOwnerQueue_def unlinkInfo_def)

function clearPending :: "eq_state \<Rightarrow> eq_state res" where
  "clearPending s =
     (case m_pending s of [] \<Rightarrow> Inr s | i # _ \<Rightarrow> bindR (unlinkAndDestroy i s) clearPending)"
  by pat_completeness auto
termination
  by (relation "measure (\<lambda>s. length (m_pending s))")
    (auto simp: length_remove1 dest: unlinkAndDestroy_lists)

function clearReady :: "eq_state \<Rightarrow> eq_state res" where
  "clearReady s =
     (case m_ready s of
        [] \<Rightarrow> bindR (chkR (m_readyCount s = 0) AssertFailed) (\<lambda>_. Inr s)
      | i # _ \<Rightarrow> bindR (unlinkAndDestroy i s) (\<lambda>s'. clearReady (s'\<lparr>m_readyCount := m_readyCount s' - 1\<rparr>)))"
  by pat_completeness auto
termination
  by (relation "measure (\<lambda>s. length (m_ready s))")
    (auto simp: length_remove1 dest: unlinkAndDestroy_lists)

declare clearPending.simps [simp del] clearReady.simps [simp del]

end
