(* ===== verification/ExecutionQueueOps.thy ===== *)
theory ExecutionQueueOps
  imports ExecutionQueue
begin

text \<open>
  The operations of the execution queue built on its lists: completion processing, flushing,
  popping, waiting, cancelling and disposal (\<open>tasks/ExecutionQueueImpl.h\<close>).
\<close>

section \<open>Completion of a task\<close>

definition getTaskInfoPtrFromTask :: "nat \<Rightarrow> eq_state \<Rightarrow> nat option" where
  "getTaskInfoPtrFromTask t s = map_of (m_allTasks s) t"

text \<open>
  The continuation part of \<open>onReady\<close>: whether the task continues itself, and the exception caught
  by the \<open>try\<close> block.
\<close>

definition continueTask ::
  "(nat \<Rightarrow> task_class) \<Rightarrow> nat \<Rightarrow> nat \<Rightarrow> eq_state \<Rightarrow> (bool \<times> eptr \<times> eq_state) res" where
  "continueTask K t i s =
     (case continuationTask t (m_tasks s t) of
        ContNone \<Rightarrow> Inr (False, None, s)
      | ContThrows e \<Rightarrow> Inr (False, Some e, s)
      | ContTask c \<Rightarrow>
          (if c = t then
             bindR (moveExecutingTaskToPendingQueue i s)
               (\<lambda>s1. bindR (pad K (s1\<lparr>m_activeWorkGeneration := m_activeWorkGeneration s1 + 1\<rparr>))
                  (\<lambda>s2. Inr (True, None, s2)))
           else
             (case pushInternalNoLock K False c False s of
                Inr s1 \<Rightarrow> Inr (False, None, s1)
              | Inl e \<Rightarrow> (if e = BadAlloc then Inr (False, Some BadAllocExc, s) else Inl e))))"

text \<open>The part which acknowledges the completion and stores or discards the task.\<close>

definition retireTask ::
  "(nat \<Rightarrow> task_class) \<Rightarrow> nat \<Rightarrow> nat \<Rightarrow> eq_state \<Rightarrow> (notification option \<times> eq_state) res" where
  "retireTask K t i s =
     (let s1 = s\<lparr>m_executingCount := m_executingCount s - 1\<rparr>;
          s2 = setTask t (setCompletedState (m_tasks s1 t)) s1
      in bindR
           (if keepTask t s2
            then Inr (getEventNotifyCB TaskReady (Some t) s2, moveTaskToReadyQueue i s2)
            else bindR (unlinkAndDestroy i s2)
                   (\<lambda>s3. Inr (getEventNotifyCB TaskDiscarded (Some t) s3, s3)))
           (\<lambda>(n, s4). bindR (pad K s4) (\<lambda>s5. Inr (n, s5\<lparr>m_cvSignals := m_cvSignals s5 + 1\<rparr>))))"

text \<open>The first critical section of \<open>onReady\<close>; also yields the candidate generation, if any.\<close>

definition onReady ::
  "(nat \<Rightarrow> task_class) \<Rightarrow> nat \<Rightarrow> eq_state \<Rightarrow> (notification option \<times> 64 word option \<times> eq_state) res" where
  "onReady K t s =
     (if \<not> m_observerThis s then Inr (None, None, s)
      else case getTaskInfoPtrFromTask t s of
             None \<Rightarrow> Inl RtAbort
           | Some i \<Rightarrow>
               bindR (continueTask K t i s)
                 (\<lambda>(continuationIsSelf, continuationException, s1).
                    let s2 = (case continuationException of
                                None \<Rightarrow> s1
                              | Some e \<Rightarrow> setTask t (setExceptionInternal (Some e) (m_tasks s1 t)) s1)
                    in bindR (if continuationIsSelf then Inr (None, s2) else retireTask K t i s2)
                         (\<lambda>(n, s3).
                            if m_pending s3 = [] \<and> m_executing s3 = [] then
                              bindR (chkR (0 = m_executingCount s3) AssertFailed)
                                (\<lambda>_. Inr (n, Some (m_activeWorkGeneration s3),
                                       s3\<lparr>m_lastCandidateGeneration := m_activeWorkGeneration s3\<rparr>))
                            else Inr (n, None, s3))))"

text \<open>The second critical section: validation of a candidate.\<close>

definition publishCandidate :: "64 word \<Rightarrow> eq_state \<Rightarrow> notification option \<times> eq_state" where
  "publishCandidate g s =
     (if m_pending s = [] \<and> m_executing s = [] \<and> m_lastCandidateGeneration s = g
         \<and> m_lastPublishedGeneration s < g
      then let s1 = s\<lparr>m_lastPublishedGeneration := g\<rparr>
           in (getEventNotifyCB AllTasksCompleted None s1, s1)
      else (None, s))"

section \<open>Waiting on the condition variable\<close>

text \<open>
  How an operation ends: it returns a value, throws, or is still waiting when the given activity of
  the other threads is used up.
\<close>

datatype thrown = TaskException task_exc | NotInQueue

datatype 'a outcome = Returned 'a eq_state | Threw thrown eq_state | Waiting eq_state

text \<open>
  \<open>m_cvReady.wait( guard, cb )\<close>: the predicate is evaluated, and while it is false the lock is
  released until a wake-up; each element of \<open>others\<close> is what the other threads do up to one.
\<close>

fun cvWait :: "(eq_state \<Rightarrow> (bool \<times> eq_state) res) \<Rightarrow> (eq_state \<Rightarrow> eq_state) list \<Rightarrow> eq_state \<Rightarrow> unit outcome res" where
  "cvWait cb others s =
     bindR (cb s) (\<lambda>(done, s'). if done then Inr (Returned () s')
       else case others of [] \<Rightarrow> Inr (Waiting s') | f # fs \<Rightarrow> cvWait cb fs (f s'))"

declare cvWait.simps [simp del]

definition andThen :: "'a outcome \<Rightarrow> ('a \<Rightarrow> eq_state \<Rightarrow> 'b outcome res) \<Rightarrow> 'b outcome res" where
  "andThen r f =
     (case r of Returned a s \<Rightarrow> f a s | Threw e s \<Rightarrow> Inr (Threw e s) | Waiting s \<Rightarrow> Inr (Waiting s))"

section \<open>Flushing\<close>

definition hasPendingOrExecuting :: "eq_state \<Rightarrow> bool" where
  "hasPendingOrExecuting s \<longleftrightarrow> m_pending s \<noteq> [] \<or> m_executing s \<noteq> []"

definition isEmptyInternal :: "eq_state \<Rightarrow> bool res" where
  "isEmptyInternal s =
     (let allEmpty = (m_pending s = [] \<and> m_executing s = [] \<and> m_ready s = [])
      in bindR (chkR (allEmpty = (m_allTasks s = [])) AssertFailed)
           (\<lambda>_. bindR (chkR (allEmpty \<longrightarrow> m_readyCount s = 0 \<and> m_executingCount s = 0) AssertFailed)
              (\<lambda>_. Inr allEmpty)))"

definition cancelExecutingTasks :: "(nat \<Rightarrow> task_class) \<Rightarrow> eq_state \<Rightarrow> eq_state res" where
  "cancelExecutingTasks K s =
     bindR (chkR (list_all (\<lambda>i. ti_task (m_infos s i) \<noteq> None) (m_executing s)) AssertFailed)
       (\<lambda>_. Inr (fold (\<lambda>t s. setTask t (requestCancel (K t) (m_tasks s t)) s)
                  (map (\<lambda>i. the (ti_task (m_infos s i))) (m_executing s)) s))"

text \<open>The exception of the first failed task of the ready queue.\<close>

fun firstFailed :: "eq_state \<Rightarrow> nat list \<Rightarrow> task_exc option res" where
  "firstFailed s [] = Inr None"
| "firstFailed s (i # is) =
     bindR (taskOf s i)
       (\<lambda>t. if isFailed (m_tasks s t) then
               (case m_exception (m_tasks s t) of None \<Rightarrow> Inl AssertFailed | Some e \<Rightarrow> Inr (Some e))
             else firstFailed s is)"

definition flushEnd :: "bool \<Rightarrow> bool \<Rightarrow> eq_state \<Rightarrow> unit outcome res" where
  "flushEnd nothrowIfFailed discardReady s =
     bindR (if nothrowIfFailed then Inr None else firstFailed s (m_ready s))
       (\<lambda>exc. case exc of
                Some e \<Rightarrow> bindR (clearReady s) (\<lambda>s1. Inr (Threw (TaskException e) s1))
              | None \<Rightarrow> (if discardReady then bindR (clearReady s) (\<lambda>s1. Inr (Returned () s1))
                         else Inr (Returned () s)))"

definition flushInternal ::
  "(nat \<Rightarrow> task_class) \<Rightarrow> (eq_state \<Rightarrow> eq_state) list \<Rightarrow> bool \<Rightarrow> bool \<Rightarrow> bool \<Rightarrow> bool \<Rightarrow> bool \<Rightarrow>
   eq_state \<Rightarrow> unit outcome res" where
  "flushInternal K others wait discardPending nothrowIfFailed discardReady cancelExecuting s =
     bindR (if \<not> discardPending then pad K s else Inr s)
       (\<lambda>s1. bindR (isEmptyInternal s1)
          (\<lambda>empty. if empty then Inr (Returned () s1)
             else bindR (if discardPending then clearPending s1 else Inr s1)
               (\<lambda>s2. bindR (if cancelExecuting then cancelExecutingTasks K s2 else Inr s2)
                  (\<lambda>s3. bindR (if wait \<and> hasPendingOrExecuting s3
                               then cvWait (\<lambda>s. Inr (\<not> hasPendingOrExecuting s, s)) others s3
                               else Inr (Returned () s3))
                     (\<lambda>r. andThen r (\<lambda>_ s4. flushEnd nothrowIfFailed discardReady s4))))))"

section \<open>Popping\<close>

definition takeFirstReady :: "bool \<Rightarrow> eq_state \<Rightarrow> nat option outcome res" where
  "takeFirstReady remove s =
     (case m_ready s of
        [] \<Rightarrow> bindR (chkR (0 = m_readyCount s) AssertFailed) (\<lambda>_. Inr (Returned None s))
      | i # _ \<Rightarrow>
          bindR (taskOf s i)
            (\<lambda>t. if remove then
                    bindR (unlinkAndDestroy i s)
                      (\<lambda>s1. Inr (Returned (Some t) (s1\<lparr>m_readyCount := m_readyCount s1 - 1\<rparr>)))
                  else Inr (Returned (Some t) s)))"

definition getFirstReady ::
  "(nat \<Rightarrow> task_class) \<Rightarrow> (eq_state \<Rightarrow> eq_state) list \<Rightarrow> bool \<Rightarrow> bool \<Rightarrow> eq_state \<Rightarrow> nat option outcome res" where
  "getFirstReady K others wait remove s =
     bindR (pad K s)
       (\<lambda>s1. bindR (if wait \<and> m_ready s1 = [] then isEmptyInternal s1 else Inr True)
          (\<lambda>empty. bindR
             (if \<not> empty then
                bindR (chkR (0 = m_readyCount s1) AssertFailed)
                  (\<lambda>_. cvWait (\<lambda>s. bindR (isEmptyInternal s) (\<lambda>e. Inr (e \<or> m_ready s \<noteq> [], s))) others s1)
              else Inr (Returned () s1))
             (\<lambda>r. andThen r (\<lambda>_ s2. takeFirstReady remove s2))))"

definition getQueue :: "queue_id \<Rightarrow> eq_state \<Rightarrow> nat list" where
  "getQueue q s = (case q of QReady \<Rightarrow> m_ready s | QExecuting \<Rightarrow> m_executing s | QPending \<Rightarrow> m_pending s)"

section \<open>Waiting for one task\<close>

definition waitPredicate :: "(nat \<Rightarrow> task_class) \<Rightarrow> nat \<Rightarrow> eq_state \<Rightarrow> (bool \<times> eq_state) res" where
  "waitPredicate K t s =
     bindR (pad K s)
       (\<lambda>s1. Inr ((case getTaskInfoPtrFromTask t s1 of
                     None \<Rightarrow> True | Some i \<Rightarrow> OReady = getOwnerQueue i s1), s1))"

definition waitEnd :: "nat \<Rightarrow> eq_state \<Rightarrow> unit outcome res" where
  "waitEnd t s =
     (case getTaskInfoPtrFromTask t s of
        None \<Rightarrow> Inr (Returned () s)
      | Some i \<Rightarrow>
          bindR (chkR (OReady = getOwnerQueue i s) AssertFailed)
            (\<lambda>_. bindR (unlinkAndDestroy i s)
              (\<lambda>s1. Inr (Returned () (s1\<lparr>m_readyCount := m_readyCount s1 - 1\<rparr>)))))"

definition prioritizeInfo :: "nat \<Rightarrow> eq_state \<Rightarrow> eq_state" where
  "prioritizeInfo i s = (let s1 = unlinkInfo i s in s1\<lparr>m_pending := i # m_pending s1\<rparr>)"

definition waitInternal ::
  "(nat \<Rightarrow> task_class) \<Rightarrow> (eq_state \<Rightarrow> eq_state) list \<Rightarrow> nat \<Rightarrow> bool \<Rightarrow> bool \<Rightarrow> eq_state \<Rightarrow> unit outcome res" where
  "waitInternal K others t prioritize cancel s =
     bindR (pad K s)
       (\<lambda>s1. case getTaskInfoPtrFromTask t s1 of
          None \<Rightarrow> (if Completed = m_state (m_tasks s1 t) then Inr (Returned () s1)
                   else Inr (Threw NotInQueue s1))
        | Some i \<Rightarrow>
            (let ownerQueue = getOwnerQueue i s1 in
             if OReady = ownerQueue \<or> (OPending = ownerQueue \<and> cancel) then
               bindR (unlinkAndDestroy i s1)
                 (\<lambda>s2. Inr (Returned () (if OReady = ownerQueue
                                         then s2\<lparr>m_readyCount := m_readyCount s2 - 1\<rparr> else s2)))
             else
               let s2 = (if prioritize \<and> OPending = ownerQueue then prioritizeInfo i s1 else s1);
                   s3 = (if cancel then setTask t (requestCancel (K t) (m_tasks s2 t)) s2 else s2)
               in bindR (cvWait (waitPredicate K t) others s3) (\<lambda>r. andThen r (\<lambda>_ s4. waitEnd t s4))))"

section \<open>The public operations\<close>

definition isEmpty :: "eq_state \<Rightarrow> bool res" where
  "isEmpty s = isEmptyInternal s"

definition hasReady :: "eq_state \<Rightarrow> bool" where
  "hasReady s \<longleftrightarrow> m_ready s \<noteq> []"

definition hasExecuting :: "eq_state \<Rightarrow> bool" where
  "hasExecuting s \<longleftrightarrow> m_executing s \<noteq> []"

definition hasPending :: "eq_state \<Rightarrow> bool" where
  "hasPending s \<longleftrightarrow> m_pending s \<noteq> []"

definition eq_size :: "eq_state \<Rightarrow> nat" where
  "eq_size s = length (m_allTasks s)"

definition setThrottleLimit :: "(nat \<Rightarrow> task_class) \<Rightarrow> 64 word \<Rightarrow> eq_state \<Rightarrow> eq_state res" where
  "setThrottleLimit K maxExecuting s = pad K (s\<lparr>m_maxExecuting := maxExecuting\<rparr>)"

definition setOptions :: "32 word \<Rightarrow> eq_state \<Rightarrow> eq_state" where
  "setOptions options s = s\<lparr>m_options := options\<rparr>"

definition setNotifyCallback ::
  "(nat \<Rightarrow> task_class) \<Rightarrow> observer option \<Rightarrow> notify_delivery \<Rightarrow> 32 word \<Rightarrow> eq_state \<Rightarrow> eq_state res" where
  "setNotifyCallback K notifyCB delivery eventsMask s =
     (let maxReadyOrExecuting = (case notifyCB of
            None \<Rightarrow> 0 | Some ob \<Rightarrow> if ob_connected ob then ob_maxReadyOrExecuting ob else 0)
      in pad K (s\<lparr>m_notifyCB := notifyCB, m_notifyDelivery := delivery, m_eventsMask := eventsMask,
                  m_maxReadyOrExecuting := maxReadyOrExecuting\<rparr>))"

definition getLocalThreadPool :: "eq_state \<Rightarrow> nat option" where
  "getLocalThreadPool s = m_localThreadPool s"

definition setLocalThreadPool :: "nat option \<Rightarrow> eq_state \<Rightarrow> eq_state" where
  "setLocalThreadPool p s = s\<lparr>m_localThreadPool := p\<rparr>"

definition push_back :: "(nat \<Rightarrow> task_class) \<Rightarrow> nat \<Rightarrow> bool \<Rightarrow> eq_state \<Rightarrow> eq_state res" where
  "push_back K t dontSchedule s = pushInternal K True t dontSchedule s"

definition push_front :: "(nat \<Rightarrow> task_class) \<Rightarrow> nat \<Rightarrow> bool \<Rightarrow> eq_state \<Rightarrow> eq_state res" where
  "push_front K t dontSchedule s = pushInternal K False t dontSchedule s"

text \<open>The overloads taking a callback create a simple task; \<open>t\<close> is its (fresh) address.\<close>

definition push_back_cb :: "(nat \<Rightarrow> task_class) \<Rightarrow> nat \<Rightarrow> bool \<Rightarrow> eq_state \<Rightarrow> (nat \<times> eq_state) res" where
  "push_back_cb K t dontSchedule s =
     bindR (push_back K t dontSchedule (setTask t new_task s)) (\<lambda>s1. Inr (t, s1))"

definition push_front_cb :: "(nat \<Rightarrow> task_class) \<Rightarrow> nat \<Rightarrow> bool \<Rightarrow> eq_state \<Rightarrow> (nat \<times> eq_state) res" where
  "push_front_cb K t dontSchedule s =
     bindR (push_front K t dontSchedule (setTask t new_task s)) (\<lambda>s1. Inr (t, s1))"

definition pop :: "(nat \<Rightarrow> task_class) \<Rightarrow> (eq_state \<Rightarrow> eq_state) list \<Rightarrow> bool \<Rightarrow> eq_state \<Rightarrow> nat option outcome res" where
  "pop K others wait s = getFirstReady K others wait True s"

definition top_ready :: "(nat \<Rightarrow> task_class) \<Rightarrow> (eq_state \<Rightarrow> eq_state) list \<Rightarrow> bool \<Rightarrow> eq_state \<Rightarrow> nat option outcome res" where
  "top_ready K others wait s = getFirstReady K others wait False s"

text \<open>The tasks \<open>scanQueue\<close> hands to its callback, in order.\<close>

definition scanQueue :: "queue_id \<Rightarrow> eq_state \<Rightarrow> nat option list" where
  "scanQueue q s = map (\<lambda>i. ti_task (m_infos s i)) (getQueue q s)"

definition wait_task :: "(nat \<Rightarrow> task_class) \<Rightarrow> (eq_state \<Rightarrow> eq_state) list \<Rightarrow> nat \<Rightarrow> bool \<Rightarrow> eq_state \<Rightarrow> unit outcome res" where
  "wait_task K others t cancel s = waitInternal K others t True cancel s"

definition waitNoPrioritize :: "(nat \<Rightarrow> task_class) \<Rightarrow> (eq_state \<Rightarrow> eq_state) list \<Rightarrow> nat \<Rightarrow> eq_state \<Rightarrow> unit outcome res" where
  "waitNoPrioritize K others t s = waitInternal K others t False False s"

text \<open>\<open>lockFree\<close> tells whether \<open>try_lock\<close> succeeds.\<close>

definition prioritize :: "nat \<Rightarrow> bool \<Rightarrow> bool \<Rightarrow> eq_state \<Rightarrow> bool outcome" where
  "prioritize t wait lockFree s =
     (if \<not> wait \<and> \<not> lockFree then Returned False s
      else case getTaskInfoPtrFromTask t s of
             None \<Rightarrow> Threw NotInQueue s
           | Some i \<Rightarrow>
               (if OPending = getOwnerQueue i s then Returned True (prioritizeInfo i s)
                else Returned False s))"

definition flush ::
  "(nat \<Rightarrow> task_class) \<Rightarrow> (eq_state \<Rightarrow> eq_state) list \<Rightarrow> bool \<Rightarrow> bool \<Rightarrow> bool \<Rightarrow> bool \<Rightarrow> eq_state \<Rightarrow> unit outcome res" where
  "flush K others discardPending nothrowIfFailed discardReady cancelExecuting s =
     flushInternal K others True discardPending nothrowIfFailed discardReady cancelExecuting s"

text \<open>A \<open>NOEXCEPT\<close> operation ends the process when something is thrown inside it.\<close>

definition noexceptR :: "unit outcome res \<Rightarrow> unit outcome res" where
  "noexceptR r = bindR r (\<lambda>q. case q of Threw e s \<Rightarrow> Inl RtAbort | _ \<Rightarrow> Inr q)"

definition forceFlushNoThrow ::
  "(nat \<Rightarrow> task_class) \<Rightarrow> (eq_state \<Rightarrow> eq_state) list \<Rightarrow> bool \<Rightarrow> eq_state \<Rightarrow> unit outcome res" where
  "forceFlushNoThrow K others wait s =
     bindR (noexceptR (flushInternal K others wait True True True True s))
       (\<lambda>r. andThen r (\<lambda>_ s1. bindR (if wait then isEmptyInternal s1 else Inr True)
          (\<lambda>e. bindR (chkR e AssertFailed) (\<lambda>_. Inr (Returned () s1)))))"

definition cancel_task ::
  "(nat \<Rightarrow> task_class) \<Rightarrow> (eq_state \<Rightarrow> eq_state) list \<Rightarrow> nat \<Rightarrow> bool \<Rightarrow> eq_state \<Rightarrow> bool outcome res" where
  "cancel_task K others t wait s =
     (if wait then bindR (wait_task K others t True s) (\<lambda>r. andThen r (\<lambda>_ s1. Inr (Returned False s1)))
      else case getTaskInfoPtrFromTask t s of
             None \<Rightarrow> Inr (Returned False s)
           | Some i \<Rightarrow>
               (if OPending = getOwnerQueue i s then
                  (if (m_options s) AND OptionKeepCanceled \<noteq> 0
                   then Inr (Returned True (moveTaskToReadyQueue i s))
                   else bindR (unlinkAndDestroy i s) (\<lambda>s1. Inr (Returned True s1)))
                else Inr (Returned False s)))"

definition cancelAll :: "(nat \<Rightarrow> task_class) \<Rightarrow> (eq_state \<Rightarrow> eq_state) list \<Rightarrow> bool \<Rightarrow> eq_state \<Rightarrow> unit outcome res" where
  "cancelAll K others wait s = noexceptR (flushInternal K others wait True True True True s)"

definition dispose :: "(nat \<Rightarrow> task_class) \<Rightarrow> (eq_state \<Rightarrow> eq_state) list \<Rightarrow> eq_state \<Rightarrow> unit outcome res" where
  "dispose K others s =
     bindR (noexceptR (flushInternal K others True True True True True s))
       (\<lambda>r. andThen r (\<lambda>_ s1. bindR (isEmptyInternal s1)
          (\<lambda>e. bindR (chkR e AssertFailed) (\<lambda>_. Inr (Returned () (s1\<lparr>m_observerThis := False\<rparr>))))))"

end
