(* ===== verification/EqInvariant.thy ===== *)
theory EqInvariant
  imports ExecutionQueueOps
begin

text \<open>
  The structural invariant of the execution queue: the three lists, the map of all tasks, the task
  infos and their pool, the counters and the states of the tasks agree.  This theory states it and
  proves it for the elementary moves and for padding.
\<close>

section \<open>The invariant\<close>

interpretation info_pool: freed_checker info_checker "\<lambda>i infos. ti_freed (infos i)"
  unfolding info_checker_def by (rule intrusive_contract) simp

text \<open>A list holds, once each, the infos with the given owner.\<close>

definition linked :: "owner_queue \<Rightarrow> nat list \<Rightarrow> (nat \<Rightarrow> task_info) \<Rightarrow> bool" where
  "linked q l infos \<longleftrightarrow> distinct l \<and> (\<forall>i. i \<in> set l \<longleftrightarrow> ti_owner (infos i) = q)"

definition wf_lists :: "eq_state \<Rightarrow> bool" where
  "wf_lists s \<longleftrightarrow> linked OPending (m_pending s) (m_infos s)
     \<and> linked OExecuting (m_executing s) (m_infos s) \<and> linked OReady (m_ready s) (m_infos s)"

text \<open>The map is exactly the attachment of tasks to infos; an info is owned while it has a task.\<close>

definition wf_map :: "eq_state \<Rightarrow> bool" where
  "wf_map s \<longleftrightarrow> distinct (map fst (m_allTasks s))
     \<and> (\<forall>t i. map_of (m_allTasks s) t = Some i \<longleftrightarrow> ti_task (m_infos s i) = Some t)
     \<and> (\<forall>i. ti_owner (m_infos s i) = ONone \<longleftrightarrow> ti_task (m_infos s i) = None)"

text \<open>Every allocated info is either attached or in the pool, never both: none is leaked.\<close>

definition wf_store :: "eq_state \<Rightarrow> bool" where
  "wf_store s \<longleftrightarrow> info_pool.wf_pool (m_taskInfoPool s) (m_infos s)
     \<and> (\<forall>i. ti_freed (m_infos s i) \<longrightarrow> ti_task (m_infos s i) = None)
     \<and> (\<forall>i. i < m_nextInfo s \<longleftrightarrow> ti_task (m_infos s i) \<noteq> None \<or> ti_freed (m_infos s i))
     \<and> m_nextInfo s < 2 ^ 64"

definition wf_counts :: "eq_state \<Rightarrow> bool" where
  "wf_counts s \<longleftrightarrow> m_executingCount s = of_nat (length (m_executing s))
     \<and> m_readyCount s = of_nat (length (m_ready s))"

definition wf_task_states :: "eq_state \<Rightarrow> bool" where
  "wf_task_states s \<longleftrightarrow>
     (\<forall>i t. ti_task (m_infos s i) = Some t \<longrightarrow>
        (ti_owner (m_infos s i) = OExecuting \<longrightarrow> m_state (m_tasks s t) \<in> {Running, PendingCompletion})
        \<and> (ti_owner (m_infos s i) \<noteq> OExecuting \<longrightarrow> m_state (m_tasks s t) \<noteq> Running))
     \<and> (\<forall>t. m_hasException (m_tasks s t) \<longleftrightarrow> m_exception (m_tasks s t) \<noteq> None)"

definition wf_eq :: "eq_state \<Rightarrow> bool" where
  "wf_eq s \<longleftrightarrow> wf_lists s \<and> wf_map s \<and> wf_store s \<and> wf_counts s \<and> wf_task_states s"

lemmas wf_defs = wf_lists_def wf_map_def wf_store_def wf_counts_def wf_task_states_def

lemmas move_defs [state_defs] = unlinkInfo_def setOwnerQueue_def attachTask_def setTask_def getOwnerQueue_def
  moveTaskToReadyQueue_def toExecuting_def prioritizeInfo_def Let_def

section \<open>Lists of infos\<close>

lemma linked_out:
  "linked q l f \<Longrightarrow> q' \<noteq> q \<Longrightarrow> linked q (remove1 i l) (f(i := (f i)\<lparr>ti_owner := q'\<rparr>))"
  by (auto simp: linked_def)

lemma linked_in_back:
  "linked q l f \<Longrightarrow> linked q (remove1 i l @ [i]) (f(i := (f i)\<lparr>ti_owner := q\<rparr>))"
  by (auto simp: linked_def)

lemma linked_in_front:
  "linked q l f \<Longrightarrow> linked q (i # remove1 i l) (f(i := (f i)\<lparr>ti_owner := q\<rparr>))"
  by (auto simp: linked_def)

lemma linked_owner_eq:
  "linked q l f \<Longrightarrow> (\<And>i. ti_owner (g i) = ti_owner (f i)) \<Longrightarrow> linked q l g"
  by (simp add: linked_def)

lemma linked_notin: "linked q l f \<Longrightarrow> ti_owner (f i) \<noteq> q \<Longrightarrow> remove1 i l = l"
  by (simp add: linked_def remove1_idem)

lemma linked_length_remove1:
  "linked q l f \<Longrightarrow> ti_owner (f i) = q \<Longrightarrow> l \<noteq> [] \<and> length (remove1 i l) = length l - 1 \<and> 0 < length l"
  by (auto simp: linked_def length_remove1)

lemma of_nat_pred: "0 < n \<Longrightarrow> of_nat (n - 1) = (of_nat n - 1 :: 64 word)"
  by (simp add: of_nat_diff)

section \<open>Elementary moves\<close>

lemma toExecuting_lists: "wf_lists s \<Longrightarrow> wf_lists (toExecuting i s)"
  by (simp add: wf_lists_def move_defs linked_in_back linked_out)

lemma moveReady_lists: "wf_lists s \<Longrightarrow> wf_lists (moveTaskToReadyQueue i s)"
  by (simp add: wf_lists_def move_defs linked_in_back linked_out)

lemma prioritize_lists:
  assumes "wf_lists s" "ti_owner (m_infos s i) = OPending"
  shows "wf_lists (prioritizeInfo i s)"
proof -
  have "(m_infos s)(i := (m_infos s i)\<lparr>ti_owner := OPending\<rparr>) = m_infos s"
    using assms(2) by (simp add: fun_upd_idem)
  then show ?thesis
    using assms linked_in_front [of OPending "m_pending s" "m_infos s" i]
    by (auto simp: wf_lists_def move_defs linked_notin)
qed

text \<open>Changing the owner between two lists, neither of them the empty owner.\<close>

lemma owner_map:
  assumes "wf_map s" "ti_task (m_infos s i) \<noteq> None" "q \<noteq> ONone"
    "m_infos s' = (m_infos s)(i := (m_infos s i)\<lparr>ti_owner := q\<rparr>)" "m_allTasks s' = m_allTasks s"
  shows "wf_map s'"
  using assms by (auto simp: wf_map_def)

lemma owner_store:
  assumes "wf_store s" "m_infos s' = (m_infos s)(i := (m_infos s i)\<lparr>ti_owner := q\<rparr>)"
    "m_taskInfoPool s' = m_taskInfoPool s" "m_nextInfo s' = m_nextInfo s"
  shows "wf_store s'"
  using assms by (auto simp: wf_store_def info_pool.wf_pool_def)

lemma owned_task: "wf_map s \<Longrightarrow> ti_owner (m_infos s i) \<noteq> ONone \<Longrightarrow> \<exists>t. ti_task (m_infos s i) = Some t"
  by (auto simp: wf_map_def)

lemma task_unique:
  "wf_map s \<Longrightarrow> ti_task (m_infos s i) = Some t \<Longrightarrow> ti_task (m_infos s j) = Some t \<Longrightarrow> i = j"
  unfolding wf_map_def by (metis option.inject)

lemma lookup_task: "wf_map s \<Longrightarrow> map_of (m_allTasks s) t = Some i \<longleftrightarrow> ti_task (m_infos s i) = Some t"
  by (simp add: wf_map_def)

lemma wf_states_update:
  assumes "wf_map s" "wf_task_states s" "ti_task (m_infos s i) = Some t"
    and "m_infos s' = (m_infos s)(i := (m_infos s i)\<lparr>ti_owner := q\<rparr>)" "m_tasks s' = (m_tasks s)(t := b)"
    and "if q = OExecuting then m_state b \<in> {Running, PendingCompletion} else m_state b \<noteq> Running"
    and "m_hasException b \<longleftrightarrow> m_exception b \<noteq> None"
  shows "wf_task_states s'"
  unfolding wf_task_states_def
proof (intro conjI allI impI)
  fix j u assume j: "ti_task (m_infos s' j) = Some u"
  have "(ti_owner (m_infos s' j) = OExecuting \<longrightarrow> m_state (m_tasks s' u) \<in> {Running, PendingCompletion})
      \<and> (ti_owner (m_infos s' j) \<noteq> OExecuting \<longrightarrow> m_state (m_tasks s' u) \<noteq> Running)"
  proof (cases "j = i")
    case True
    with j assms(3-6) show ?thesis by auto
  next
    case False
    with j assms(4) have "ti_task (m_infos s j) = Some u" by simp
    moreover from this False have "u \<noteq> t" using task_unique [OF assms(1) assms(3), of j] by auto
    ultimately show ?thesis
      using assms(2) False unfolding wf_task_states_def by (simp add: assms(4,5))
  qed
  then show "ti_owner (m_infos s' j) = OExecuting \<Longrightarrow> m_state (m_tasks s' u) \<in> {Running, PendingCompletion}"
    "ti_owner (m_infos s' j) \<noteq> OExecuting \<Longrightarrow> m_state (m_tasks s' u) \<noteq> Running" by blast+
qed (use assms(2,5,7) in \<open>auto simp: wf_task_states_def\<close>)

section \<open>Padding\<close>

lemma wf_start:
  assumes "wf_eq s" "ti_owner (m_infos s i) = OPending" "ti_task (m_infos s i) = Some t"
    and "m_state t' = Running" "m_hasException t' \<longleftrightarrow> m_exception t' \<noteq> None"
  shows "wf_eq (toExecuting i (setTask t t' s))"
proof -
  let ?s = "toExecuting i (setTask t t' s)"
  note w = assms(1) [unfolded wf_eq_def]
  have "wf_lists (setTask t t' s)" using w by (simp add: wf_lists_def setTask_def)
  then have "wf_lists ?s" by (rule toExecuting_lists)
  moreover have "wf_map ?s"
    by (rule owner_map [of s i OExecuting]) (use w assms(3) in \<open>simp_all add: move_defs\<close>)
  moreover have "wf_store ?s"
    by (rule owner_store [of s]) (use w in \<open>simp_all add: move_defs\<close>)
  moreover have "wf_counts ?s"
    using w assms(2) linked_notin [of OExecuting "m_executing s" "m_infos s" i]
      linked_notin [of OReady "m_ready s" "m_infos s" i]
    by (simp add: wf_counts_def wf_lists_def move_defs)
  moreover have "wf_task_states ?s"
    by (rule wf_states_update [of s i t _ OExecuting t']) (use w assms(3-5) in \<open>simp_all add: move_defs\<close>)
  ultimately show ?thesis by (simp add: wf_eq_def)
qed

lemma pending_head:
  assumes "wf_eq s" "m_pending s = i # is"
  obtains t where "ti_owner (m_infos s i) = OPending" "ti_task (m_infos s i) = Some t"
    "taskOf s i = Inr t" "m_state (m_tasks s t) \<noteq> Running"
proof -
  have o: "ti_owner (m_infos s i) = OPending"
    using assms by (auto simp: wf_eq_def wf_lists_def linked_def)
  with assms(1) obtain t where "ti_task (m_infos s i) = Some t"
    using owned_task [of s i] by (auto simp: wf_eq_def)
  with o assms(1) show thesis
    by (intro that [of t]) (auto simp: taskOf_def wf_eq_def wf_task_states_def split: if_splits)
qed

lemma scheduled_exception:
  assumes "scheduleNothrow K t = Inr t'" "m_hasException t \<longleftrightarrow> m_exception t \<noteq> None"
  shows "m_hasException t' \<longleftrightarrow> m_exception t' \<noteq> None"
  using scheduleNothrow_cases [OF assms(1)] assms(2) by (cases "m_state t = Created") simp_all

lemma wf_eq_exception: "wf_eq s \<Longrightarrow> m_hasException (m_tasks s t) \<longleftrightarrow> m_exception (m_tasks s t) \<noteq> None"
  by (simp add: wf_eq_def wf_task_states_def)

lemma pad_induct [consumes 1, case_names Empty Throttled Start]:
  assumes "pad K s = Inr s'"
    and "\<And>s. m_pending s = [] \<Longrightarrow> P s s"
    and "\<And>s. m_pending s \<noteq> [] \<Longrightarrow> throttled s \<Longrightarrow> P s s"
    and "\<And>s i is t t' s'. m_pending s = i # is \<Longrightarrow> \<not> throttled s \<Longrightarrow> taskOf s i = Inr t \<Longrightarrow>
          scheduleNothrow (K t) (m_tasks s t) = Inr t' \<Longrightarrow>
          P (toExecuting i (setTask t t' s)) s' \<Longrightarrow> P s s'"
  shows "P s s'"
  using assms(1)
proof (induction s rule: measure_induct_rule [of "\<lambda>s. length (m_pending s)"])
  case (less s)
  show ?case
  proof (cases "m_pending s")
    case Nil
    with less(2) assms(2) show ?thesis by (simp add: pad.simps [of K s])
  next
    case (Cons i "is")
    show ?thesis
    proof (cases "throttled s")
      case True
      with less(2) Cons assms(3) show ?thesis by (simp add: pad.simps [of K s])
    next
      case False
      with less(2) Cons obtain t t' where t: "taskOf s i = Inr t" "scheduleNothrow (K t) (m_tasks s t) = Inr t'"
        and p: "pad K (toExecuting i (setTask t t' s)) = Inr s'"
        by (auto simp: pad.simps [of K s] bindR_eq_Inr)
      have "P (toExecuting i (setTask t t' s)) s'" using less(1) [OF _ p] Cons by simp
      then show ?thesis by (rule assms(4) [OF Cons False t])
    qed
  qed
qed

lemma pad_wf [preserves]: "pad K s = Inr s' \<Longrightarrow> wf_eq s \<Longrightarrow> wf_eq s'"
proof (induction rule: pad_induct)
  case (Start s i "is" t t' s')
  obtain u where "ti_owner (m_infos s i) = OPending" "ti_task (m_infos s i) = Some u" "taskOf s i = Inr u"
    by (rule pending_head [OF \<open>wf_eq s\<close> \<open>m_pending s = i # is\<close>])
  with Start show ?case
    using wf_start [of s i t t'] scheduleNothrow_cases(2) scheduled_exception wf_eq_exception
    by (metis Inr_inject)
qed

definition never_aborts :: "(nat \<Rightarrow> task_class) \<Rightarrow> bool" where
  "never_aborts K \<longleftrightarrow> (\<forall>t b. scheduleTask (K t) b \<noteq> ScheduleAborts)"

lemma schedule_total:
  assumes "never_aborts K" "m_state b \<noteq> Running"
  shows "\<exists>b'. scheduleNothrow (K t) b = Inr b'"
  using assms by (cases "m_state b")
    (auto simp: scheduleNothrow_def never_aborts_def Let_def split: schedule_result.split)

lemma pad_total:
  assumes "never_aborts K"
  shows "wf_eq s \<Longrightarrow> \<exists>s'. pad K s = Inr s'"
proof (induction s rule: measure_induct_rule [of "\<lambda>s. length (m_pending s)"])
  case (less s)
  show ?case
  proof (cases "m_pending s")
    case Nil
    then show ?thesis by (simp add: pad.simps [of K s])
  next
    case (Cons i "is")
    obtain t where t: "ti_owner (m_infos s i) = OPending" "ti_task (m_infos s i) = Some t"
      "taskOf s i = Inr t" "m_state (m_tasks s t) \<noteq> Running"
      by (rule pending_head [OF less.prems Cons])
    obtain t' where t': "scheduleNothrow (K t) (m_tasks s t) = Inr t'"
      using schedule_total [OF assms t(4)] by blast
    have "wf_eq (toExecuting i (setTask t t' s))"
      using wf_start [OF less.prems t(1,2) scheduleNothrow_cases(2) [OF t']]
        scheduled_exception [OF t' wf_eq_exception [OF less.prems]] by blast
    with less.IH [of "toExecuting i (setTask t t' s)"] Cons t t' show ?thesis
      by (simp add: pad.simps [of K s])
  qed
qed

end
