(* ===== verification/EqPreserve.thy ===== *)
theory EqPreserve
  imports EqInvariant
begin

text \<open>
  The abstract queue (three lists of tasks), and for each operation of the execution queue: that it
  keeps the structural invariant, that no assertion fails in it, and what it does to the abstract
  queue.
\<close>

section \<open>The abstract queue\<close>

record aqueue =
  aq_pending :: "nat list"
  aq_executing :: "nat list"
  aq_ready :: "nat list"

definition taskAt :: "(nat \<Rightarrow> task_info) \<Rightarrow> nat \<Rightarrow> nat" where
  "taskAt infos i = the (ti_task (infos i))"

definition absq :: "eq_state \<Rightarrow> aqueue" where
  "absq s = \<lparr>aq_pending = map (taskAt (m_infos s)) (m_pending s),
     aq_executing = map (taskAt (m_infos s)) (m_executing s),
     aq_ready = map (taskAt (m_infos s)) (m_ready s)\<rparr>"

text \<open>What only the configuration operations change, and the generations.\<close>

definition config :: "eq_state \<Rightarrow> 64 word \<times> 64 word \<times> 32 word \<times> observer option \<times> 32 word \<times> notify_delivery
    \<times> nat option \<times> nat option \<times> bool \<times> nat option" where
  "config s = (m_maxExecuting s, m_maxReadyOrExecuting s, m_options s, m_notifyCB s, m_eventsMask s,
     m_notifyDelivery s, m_lockNotify s, m_notifyOwner s, m_observerThis s, m_localThreadPool s)"

definition gens :: "eq_state \<Rightarrow> 64 word \<times> 64 word \<times> 64 word" where
  "gens s = (m_activeWorkGeneration s, m_lastPublishedGeneration s, m_lastCandidateGeneration s)"

lemmas view_defs = absq_def config_def gens_def taskAt_def

lemma map_remove1_inj:
  "inj_on f (insert i (set l)) \<Longrightarrow> map f (remove1 i l) = remove1 (f i) (map f l)"
  by (induction l) (auto simp: inj_on_def)

lemma inj_tasks:
  assumes "wf_map s" "\<And>i. i \<in> A \<Longrightarrow> ti_owner (m_infos s i) \<noteq> ONone"
  shows "inj_on (taskAt (m_infos s)) A"
proof (rule inj_onI)
  fix i j assume "i \<in> A" "j \<in> A" "taskAt (m_infos s) i = taskAt (m_infos s) j"
  moreover obtain t u where "ti_task (m_infos s i) = Some t" "ti_task (m_infos s j) = Some u"
    using owned_task [OF assms(1) assms(2)] \<open>i \<in> A\<close> \<open>j \<in> A\<close> by metis
  ultimately show "i = j" using task_unique [OF assms(1)] by (simp add: taskAt_def)
qed

lemma wf_members:
  assumes "wf_eq s"
  shows "i \<in> set (m_pending s) \<longleftrightarrow> ti_owner (m_infos s i) = OPending"
    "i \<in> set (m_executing s) \<longleftrightarrow> ti_owner (m_infos s i) = OExecuting"
    "i \<in> set (m_ready s) \<longleftrightarrow> ti_owner (m_infos s i) = OReady"
  using assms by (auto simp: wf_eq_def wf_lists_def linked_def)

lemma abs_remove1:
  assumes "wf_eq s" "ti_task (m_infos s i) = Some t"
  shows "map (taskAt (m_infos s)) (remove1 i (m_pending s)) = remove1 t (aq_pending (absq s))"
    "map (taskAt (m_infos s)) (remove1 i (m_executing s)) = remove1 t (aq_executing (absq s))"
    "map (taskAt (m_infos s)) (remove1 i (m_ready s)) = remove1 t (aq_ready (absq s))"
proof -
  have m: "wf_map s" using assms(1) by (simp add: wf_eq_def)
  have o: "ti_owner (m_infos s i) \<noteq> ONone" using m assms(2) by (simp add: wf_map_def)
  have "inj_on (taskAt (m_infos s)) (insert i (set (m_pending s)))"
    "inj_on (taskAt (m_infos s)) (insert i (set (m_executing s)))"
    "inj_on (taskAt (m_infos s)) (insert i (set (m_ready s)))"
    by (rule inj_tasks [OF m]; use o wf_members [OF assms(1)] in auto)+
  moreover have "taskAt (m_infos s) i = t" using assms(2) by (simp add: taskAt_def)
  ultimately show "map (taskAt (m_infos s)) (remove1 i (m_pending s)) = remove1 t (aq_pending (absq s))"
    "map (taskAt (m_infos s)) (remove1 i (m_executing s)) = remove1 t (aq_executing (absq s))"
    "map (taskAt (m_infos s)) (remove1 i (m_ready s)) = remove1 t (aq_ready (absq s))"
    by (simp_all add: map_remove1_inj absq_def)
qed

section \<open>Destroying a task info\<close>

definition destroyed :: "nat \<Rightarrow> nat \<Rightarrow> eq_state \<Rightarrow> eq_state" where
  "destroyed i t s = s\<lparr>m_pending := remove1 i (m_pending s), m_executing := remove1 i (m_executing s),
     m_ready := remove1 i (m_ready s), m_allTasks := AList.delete t (m_allTasks s),
     m_taskInfoPool := (m_taskInfoPool s)\<lparr>m_impl := m_impl (m_taskInfoPool s) @ [i]\<rparr>,
     m_infos := (m_infos s)(i := \<lparr>ti_task = None, ti_owner = ONone, ti_freed = True\<rparr>)\<rparr>"

lemma unlinkAndDestroy_eq:
  assumes "wf_map s" "wf_store s" "ti_task (m_infos s i) = Some t"
  shows "unlinkAndDestroy i s = Inr (destroyed i t s)"
proof -
  have f: "\<not> ti_freed (m_infos s i)" using assms(2,3) by (auto simp: wf_store_def)
  have m: "map_of (m_allTasks s) t \<noteq> None" using lookup_task [OF assms(1), of t i] assms(3) by simp
  define s2 where "s2 = attachTask None i (setOwnerQueue ONone i
      (unlinkInfo i (s\<lparr>m_allTasks := AList.delete t (m_allTasks s)\<rparr>)))"
  have i2: "m_infos s2 = (m_infos s)(i := \<lparr>ti_task = None, ti_owner = ONone, ti_freed = False\<rparr>)"
    using f by (cases "m_infos s i") (simp add: s2_def attachTask_def setOwnerQueue_def unlinkInfo_def)
  have "put info_checker i (m_taskInfoPool s2) (m_infos s2) =
      Inr ((m_taskInfoPool s2)\<lparr>m_impl := m_impl (m_taskInfoPool s2) @ [i]\<rparr>,
           (m_infos s)(i := \<lparr>ti_task = None, ti_owner = ONone, ti_freed = True\<rparr>))"
    unfolding i2 by (simp add: put_def info_checker_def intrusive_checker_def intrusive_markFreed_def)
  moreover have "s2\<lparr>m_taskInfoPool := (m_taskInfoPool s2)\<lparr>m_impl := m_impl (m_taskInfoPool s2) @ [i]\<rparr>,
      m_infos := (m_infos s)(i := \<lparr>ti_task = None, ti_owner = ONone, ti_freed = True\<rparr>)\<rparr> = destroyed i t s"
    by (simp add: s2_def attachTask_def setOwnerQueue_def unlinkInfo_def destroyed_def)
  ultimately show ?thesis
    using assms(3) m by (simp add: unlinkAndDestroy_def taskOf_def s2_def [symmetric])
qed

lemma destroyed_lists: "wf_lists s \<Longrightarrow> wf_lists (destroyed i t s)"
  by (auto simp: wf_lists_def destroyed_def linked_def)

lemma destroyed_map:
  assumes "wf_map s" "ti_task (m_infos s i) = Some t"
  shows "wf_map (destroyed i t s)"
proof -
  have "distinct (map fst (AList.delete t (m_allTasks s)))"
    using assms(1) by (simp add: wf_map_def distinct_delete)
  moreover have "map_of (AList.delete t (m_allTasks s)) u = Some j \<longleftrightarrow>
      ti_task (((m_infos s)(i := \<lparr>ti_task = None, ti_owner = ONone, ti_freed = True\<rparr>)) j) = Some u" for u j
  proof (cases "j = i")
    case True
    with assms lookup_task [OF assms(1), of u i] show ?thesis by (auto simp: delete_conv')
  next
    case False
    with task_unique [OF assms, of j] lookup_task [OF assms(1), of u j] show ?thesis
      by (auto simp: delete_conv')
  qed
  ultimately show ?thesis
    using assms(1) unfolding wf_map_def by (simp add: destroyed_def)
qed

lemma destroyed_store:
  assumes "wf_store s" "ti_task (m_infos s i) = Some t"
  shows "wf_store (destroyed i t s)"
proof -
  have "i < m_nextInfo s" "\<not> ti_freed (m_infos s i)" using assms unfolding wf_store_def by auto
  with assms show ?thesis
    unfolding wf_store_def info_pool.wf_pool_def by (auto simp: destroyed_def)
qed

lemma destroyed_states: "wf_task_states s \<Longrightarrow> wf_task_states (destroyed i t s)"
  by (auto simp: wf_task_states_def destroyed_def)

lemma destroyed_view:
  assumes "wf_eq s" "ti_task (m_infos s i) = Some t"
  shows "absq (destroyed i t s) = \<lparr>aq_pending = remove1 t (aq_pending (absq s)),
      aq_executing = remove1 t (aq_executing (absq s)), aq_ready = remove1 t (aq_ready (absq s))\<rparr>"
    "config (destroyed i t s) = config s" "gens (destroyed i t s) = gens s"
proof -
  have eq: "map (taskAt ((m_infos s)(i := x))) (remove1 i l) = map (taskAt (m_infos s)) (remove1 i l)"
    if "distinct l" for l x
    using that by (intro map_cong refl) (auto simp: taskAt_def)
  have d: "distinct (m_pending s)" "distinct (m_executing s)" "distinct (m_ready s)"
    using assms(1) by (auto simp: wf_eq_def wf_lists_def linked_def)
  show "absq (destroyed i t s) = \<lparr>aq_pending = remove1 t (aq_pending (absq s)),
      aq_executing = remove1 t (aq_executing (absq s)), aq_ready = remove1 t (aq_ready (absq s))\<rparr>"
    unfolding abs_remove1 [OF assms, symmetric] destroyed_def
    by (simp add: absq_def eq [OF d(1)] eq [OF d(2)] eq [OF d(3)] del: map_eq_conv)
qed (simp_all add: config_def gens_def destroyed_def)

lemma destroy_pending [preserves]:
  assumes "wf_eq s" "ti_owner (m_infos s i) = OPending" "ti_task (m_infos s i) = Some t"
  shows "wf_eq (destroyed i t s)"
proof -
  note w = assms(1) [unfolded wf_eq_def]
  have "wf_counts (destroyed i t s)"
    using w assms(2) linked_notin [of OExecuting "m_executing s" "m_infos s" i]
      linked_notin [of OReady "m_ready s" "m_infos s" i]
    by (simp add: wf_counts_def wf_lists_def destroyed_def)
  with w assms(3) show ?thesis
    by (simp add: wf_eq_def destroyed_lists destroyed_map destroyed_store destroyed_states)
qed

lemma count_update [simp]:
  "wf_lists (s\<lparr>m_readyCount := c\<rparr>) = wf_lists s" "wf_map (s\<lparr>m_readyCount := c\<rparr>) = wf_map s"
  "wf_store (s\<lparr>m_readyCount := c\<rparr>) = wf_store s" "wf_task_states (s\<lparr>m_readyCount := c\<rparr>) = wf_task_states s"
  "absq (s\<lparr>m_readyCount := c\<rparr>) = absq s" "config (s\<lparr>m_readyCount := c\<rparr>) = config s"
  "gens (s\<lparr>m_readyCount := c\<rparr>) = gens s"
  "wf_lists (s\<lparr>m_executingCount := c\<rparr>) = wf_lists s" "wf_map (s\<lparr>m_executingCount := c\<rparr>) = wf_map s"
  "wf_store (s\<lparr>m_executingCount := c\<rparr>) = wf_store s"
  "wf_task_states (s\<lparr>m_executingCount := c\<rparr>) = wf_task_states s"
  "absq (s\<lparr>m_executingCount := c\<rparr>) = absq s" "config (s\<lparr>m_executingCount := c\<rparr>) = config s"
  "gens (s\<lparr>m_executingCount := c\<rparr>) = gens s"
  by (simp_all add: wf_defs view_defs)

definition destroyReady :: "nat \<Rightarrow> nat \<Rightarrow> eq_state \<Rightarrow> eq_state" where
  "destroyReady i t s = (destroyed i t s)\<lparr>m_readyCount := m_readyCount s - 1\<rparr>"

lemma destroy_ready [preserves]:
  assumes "wf_eq s" "ti_owner (m_infos s i) = OReady" "ti_task (m_infos s i) = Some t"
  shows "wf_eq (destroyReady i t s)"
proof -
  note w = assms(1) [unfolded wf_eq_def]
  have "length (remove1 i (m_ready s)) = length (m_ready s) - 1" "0 < length (m_ready s)"
    using w assms(2) linked_length_remove1 [of OReady "m_ready s" "m_infos s" i]
    by (simp_all add: wf_lists_def)
  then have "wf_counts (destroyReady i t s)"
    using w assms(2) linked_notin [of OExecuting "m_executing s" "m_infos s" i]
      of_nat_pred [of "length (m_ready s)"]
    by (simp add: wf_counts_def wf_lists_def destroyReady_def destroyed_def)
  with w assms(3) show ?thesis
    by (simp add: wf_eq_def destroyReady_def destroyed_lists destroyed_map destroyed_store destroyed_states)
qed

lemma wf_eqD: "wf_eq s \<Longrightarrow> wf_lists s \<and> wf_map s \<and> wf_store s \<and> wf_counts s \<and> wf_task_states s"
  by (simp add: wf_eq_def)

lemma destroy_eq: "wf_eq s \<Longrightarrow> ti_task (m_infos s i) = Some t \<Longrightarrow> unlinkAndDestroy i s = Inr (destroyed i t s)"
  using unlinkAndDestroy_eq wf_eqD by blast

lemma destroyed_readyCount [simp]: "m_readyCount (destroyed i t s) = m_readyCount s"
  "m_tasks (destroyed i t s) = m_tasks s" "m_cvSignals (destroyed i t s) = m_cvSignals s"
  "m_tasks (destroyReady i t s) = m_tasks s" "m_cvSignals (destroyReady i t s) = m_cvSignals s"
  by (simp_all add: destroyed_def destroyReady_def)

text \<open>A task is in the abstract list of the owner of its info, and in no other.\<close>

lemma abs_members:
  assumes "wf_eq s" "ti_task (m_infos s i) = Some t"
  shows "t \<in> set (aq_pending (absq s)) \<longleftrightarrow> ti_owner (m_infos s i) = OPending"
    "t \<in> set (aq_executing (absq s)) \<longleftrightarrow> ti_owner (m_infos s i) = OExecuting"
    "t \<in> set (aq_ready (absq s)) \<longleftrightarrow> ti_owner (m_infos s i) = OReady"
proof -
  have m: "wf_map s" using wf_eqD [OF assms(1)] by blast
  have mem: "t \<in> taskAt (m_infos s) ` A \<longleftrightarrow> i \<in> A" if A: "\<And>j. j \<in> A \<Longrightarrow> ti_owner (m_infos s j) \<noteq> ONone" for A
  proof
    assume "t \<in> taskAt (m_infos s) ` A"
    then obtain j where j: "j \<in> A" "t = taskAt (m_infos s) j" by blast
    moreover obtain u where "ti_task (m_infos s j) = Some u" using owned_task [OF m A [OF j(1)]] by blast
    ultimately have "j = i" using task_unique [OF m _ assms(2), of j] by (simp add: taskAt_def)
    with j(1) show "i \<in> A" by simp
  next
    assume "i \<in> A"
    with assms(2) show "t \<in> taskAt (m_infos s) ` A" by (intro image_eqI [of _ _ i]) (simp_all add: taskAt_def)
  qed
  have key: "t \<in> taskAt (m_infos s) ` {j. ti_owner (m_infos s j) = q} \<longleftrightarrow> ti_owner (m_infos s i) = q"
    if "q \<noteq> ONone" for q
    using mem [of "{j. ti_owner (m_infos s j) = q}"] that by simp
  have "set (m_pending s) = {j. ti_owner (m_infos s j) = OPending}"
    "set (m_executing s) = {j. ti_owner (m_infos s j) = OExecuting}"
    "set (m_ready s) = {j. ti_owner (m_infos s j) = OReady}"
    using wf_members [OF assms(1)] by auto
  then have sets: "set (aq_pending (absq s)) = taskAt (m_infos s) ` {j. ti_owner (m_infos s j) = OPending}"
    "set (aq_executing (absq s)) = taskAt (m_infos s) ` {j. ti_owner (m_infos s j) = OExecuting}"
    "set (aq_ready (absq s)) = taskAt (m_infos s) ` {j. ti_owner (m_infos s j) = OReady}"
    by (simp_all add: absq_def)
  show "t \<in> set (aq_pending (absq s)) \<longleftrightarrow> ti_owner (m_infos s i) = OPending"
    unfolding sets by (rule key) simp
  show "t \<in> set (aq_executing (absq s)) \<longleftrightarrow> ti_owner (m_infos s i) = OExecuting"
    unfolding sets by (rule key) simp
  show "t \<in> set (aq_ready (absq s)) \<longleftrightarrow> ti_owner (m_infos s i) = OReady"
    unfolding sets by (rule key) simp
qed

section \<open>Clearing a list\<close>

lemma list_member_task:
  assumes "wf_eq s" "i \<in> set (m_pending s) \<union> set (m_executing s) \<union> set (m_ready s)"
  obtains t where "ti_task (m_infos s i) = Some t" "taskOf s i = Inr t"
proof -
  have "ti_owner (m_infos s i) \<noteq> ONone" using assms wf_members [OF assms(1)] by auto
  then obtain t where "ti_task (m_infos s i) = Some t"
    using owned_task wf_eqD [OF assms(1)] by blast
  then show thesis by (intro that [of t]) (simp_all add: taskOf_def)
qed

lemma clearPending_ok:
  "wf_eq s \<Longrightarrow> \<exists>s'. clearPending s = Inr s' \<and> wf_eq s' \<and> m_tasks s' = m_tasks s
     \<and> absq s' = (absq s)\<lparr>aq_pending := []\<rparr> \<and> config s' = config s \<and> gens s' = gens s
     \<and> m_cvSignals s' = m_cvSignals s"
proof (induction s rule: measure_induct_rule [of "\<lambda>s. length (m_pending s)"])
  case (less s)
  show ?case
  proof (cases "m_pending s")
    case Nil
    with less.prems show ?thesis by (simp add: clearPending.simps [of s] absq_def)
  next
    case (Cons i "is")
    then have o: "ti_owner (m_infos s i) = OPending" using wf_members(1) [OF less.prems, of i] by simp
    obtain t where t: "ti_task (m_infos s i) = Some t"
      by (rule list_member_task [OF less.prems, of i]) (use Cons in auto)
    have sm: "length (m_pending (destroyed i t s)) < length (m_pending s)"
      using Cons by (simp add: destroyed_def)
    have nt: "t \<notin> set (aq_executing (absq s))" "t \<notin> set (aq_ready (absq s))"
      using abs_members [OF less.prems t] o by simp_all
    from less.IH [OF sm destroy_pending [OF less.prems o t]] obtain s' where s':
      "clearPending (destroyed i t s) = Inr s'" "wf_eq s'" "m_tasks s' = m_tasks s"
      "absq s' = (absq (destroyed i t s))\<lparr>aq_pending := []\<rparr>" "config s' = config (destroyed i t s)"
      "gens s' = gens (destroyed i t s)" "m_cvSignals s' = m_cvSignals s" by auto
    have "clearPending s = Inr s'"
      using Cons destroy_eq [OF less.prems t] s'(1) by (simp add: clearPending.simps [of s])
    with s' show ?thesis
      using destroyed_view [OF less.prems t] nt by (simp add: remove1_idem)
  qed
qed

lemma clearReady_ok:
  "wf_eq s \<Longrightarrow> \<exists>s'. clearReady s = Inr s' \<and> wf_eq s' \<and> m_tasks s' = m_tasks s
     \<and> absq s' = (absq s)\<lparr>aq_ready := []\<rparr> \<and> config s' = config s \<and> gens s' = gens s
     \<and> m_cvSignals s' = m_cvSignals s"
proof (induction s rule: measure_induct_rule [of "\<lambda>s. length (m_ready s)"])
  case (less s)
  show ?case
  proof (cases "m_ready s")
    case Nil
    with less.prems wf_eqD show ?thesis
      by (fastforce simp: clearReady.simps [of s] absq_def wf_counts_def)
  next
    case (Cons i "is")
    then have o: "ti_owner (m_infos s i) = OReady" using wf_members(3) [OF less.prems, of i] by simp
    obtain t where t: "ti_task (m_infos s i) = Some t"
      by (rule list_member_task [OF less.prems, of i]) (use Cons in auto)
    have sm: "length (m_ready (destroyReady i t s)) < length (m_ready s)"
      using Cons by (simp add: destroyReady_def destroyed_def)
    have nt: "t \<notin> set (aq_executing (absq s))" "t \<notin> set (aq_pending (absq s))"
      using abs_members [OF less.prems t] o by simp_all
    from less.IH [OF sm destroy_ready [OF less.prems o t]] obtain s' where s':
      "clearReady (destroyReady i t s) = Inr s'" "wf_eq s'" "m_tasks s' = m_tasks s"
      "absq s' = (absq (destroyReady i t s))\<lparr>aq_ready := []\<rparr>" "config s' = config (destroyReady i t s)"
      "gens s' = gens (destroyReady i t s)" "m_cvSignals s' = m_cvSignals s" by auto
    have "clearReady s = Inr s'"
      using Cons destroy_eq [OF less.prems t] s'(1) by (simp add: clearReady.simps [of s] destroyReady_def)
    with s' show ?thesis
      using destroyed_view [OF less.prems t] nt by (simp add: remove1_idem destroyReady_def)
  qed
qed

end
