(* ===== verification/EqPush.thy ===== *)
theory EqPush
  imports EqPreserve
begin

text \<open>
  Padding and pushing on the abstract queue: how many pending tasks padding starts, and what pushing
  a task does, with the task infos taken from the pool or allocated.
\<close>

section \<open>Padding\<close>

text \<open>How many pending tasks the limits let start; a limit of zero is no limit.\<close>

definition aq_slots :: "nat \<Rightarrow> nat \<Rightarrow> aqueue \<Rightarrow> nat" where
  "aq_slots mE mR q =
     min (if mE = 0 then length (aq_pending q) else mE - length (aq_executing q))
         (if mR = 0 then length (aq_pending q) else mR - (length (aq_ready q) + length (aq_executing q)))"

definition aq_pad :: "nat \<Rightarrow> nat \<Rightarrow> aqueue \<Rightarrow> aqueue" where
  "aq_pad mE mR q =
     q\<lparr>aq_pending := drop (aq_slots mE mR q) (aq_pending q),
       aq_executing := aq_executing q @ take (aq_slots mE mR q) (aq_pending q)\<rparr>"

definition aq_full :: "nat \<Rightarrow> nat \<Rightarrow> aqueue \<Rightarrow> bool" where
  "aq_full mE mR q \<longleftrightarrow> mE \<noteq> 0 \<and> mE \<le> length (aq_executing q)
     \<or> mR \<noteq> 0 \<and> mR \<le> length (aq_ready q) + length (aq_executing q)"

definition limits :: "eq_state \<Rightarrow> nat \<times> nat" where
  "limits s = (unat (m_maxExecuting s), unat (m_maxReadyOrExecuting s))"

definition padq :: "eq_state \<Rightarrow> aqueue \<Rightarrow> aqueue" where
  "padq s q = aq_pad (unat (m_maxExecuting s)) (unat (m_maxReadyOrExecuting s)) q"

lemma padq_config: "config s' = config s \<Longrightarrow> padq s' = padq s"
  by (simp add: fun_eq_iff padq_def config_def)

lemma aq_pad_full: "aq_full mE mR q \<or> aq_pending q = [] \<Longrightarrow> aq_pad mE mR q = q"
  by (auto simp: aq_pad_def aq_slots_def aq_full_def)

lemma aq_pad_step:
  assumes "\<not> aq_full mE mR q" "aq_pending q = t # ts"
  shows "aq_pad mE mR q = aq_pad mE mR (q\<lparr>aq_pending := ts, aq_executing := aq_executing q @ [t]\<rparr>)"
proof -
  let ?q = "q\<lparr>aq_pending := ts, aq_executing := aq_executing q @ [t]\<rparr>"
  have "aq_slots mE mR q = Suc (aq_slots mE mR ?q)"
    using assms by (auto simp: aq_slots_def aq_full_def min_def)
  then show ?thesis using assms(2) by (simp add: aq_pad_def)
qed

lemma wf_length:
  assumes "wf_eq s"
  shows "length (m_pending s) + length (m_executing s) + length (m_ready s) < 2 ^ 64"
proof -
  note m = wf_members [OF assms]
  have "distinct (m_pending s @ m_executing s @ m_ready s)"
    using wf_eqD [OF assms] m by (auto simp: wf_lists_def linked_def)
  moreover have "set (m_pending s @ m_executing s @ m_ready s) \<subseteq> {..<m_nextInfo s}"
  proof
    fix i assume "i \<in> set (m_pending s @ m_executing s @ m_ready s)"
    then have "ti_owner (m_infos s i) \<noteq> ONone" using m by auto
    then have "ti_task (m_infos s i) \<noteq> None" using owned_task wf_eqD [OF assms] by fastforce
    then show "i \<in> {..<m_nextInfo s}" using wf_eqD [OF assms] by (simp add: wf_store_def)
  qed
  ultimately have "length (m_pending s @ m_executing s @ m_ready s) \<le> m_nextInfo s"
    by (metis card_lessThan card_mono distinct_card finite_lessThan)
  then show ?thesis using wf_eqD [OF assms] by (simp add: wf_store_def)
qed

lemma unat_count: "n < 2 ^ 64 \<Longrightarrow> unat (of_nat n :: 64 word) = n"
  by (simp add: unat_of_nat take_bit_nat_eq_self)

lemma wf_counts_unat:
  assumes "wf_eq s"
  shows "unat (m_executingCount s) = length (m_executing s)" "unat (m_readyCount s) = length (m_ready s)"
    "unat (getReadyOrExecuting s) = length (m_ready s) + length (m_executing s)"
proof -
  note l = wf_length [OF assms]
  have c: "m_executingCount s = of_nat (length (m_executing s))" "m_readyCount s = of_nat (length (m_ready s))"
    using wf_eqD [OF assms] by (simp_all add: wf_counts_def)
  then show "unat (m_executingCount s) = length (m_executing s)" "unat (m_readyCount s) = length (m_ready s)"
    using l by (simp_all only: unat_count)
  have "getReadyOrExecuting s = of_nat (length (m_ready s) + length (m_executing s))"
    by (simp add: getReadyOrExecuting_def c)
  moreover have "length (m_ready s) + length (m_executing s) < 2 ^ 64" using l by linarith
  ultimately show "unat (getReadyOrExecuting s) = length (m_ready s) + length (m_executing s)"
    by (simp only: unat_count)
qed

lemma throttled_abs:
  assumes "wf_eq s"
  shows "throttled s \<longleftrightarrow> aq_full (unat (m_maxExecuting s)) (unat (m_maxReadyOrExecuting s)) (absq s)"
  unfolding throttled_def aq_full_def word_le_nat_alt wf_counts_unat [OF assms]
  by (simp add: absq_def unat_eq_0)

lemma start_view:
  assumes "wf_eq s" "m_pending s = i # is" "taskOf s i = Inr t"
  shows "absq (toExecuting i (setTask t t' s)) =
      (absq s)\<lparr>aq_pending := tl (aq_pending (absq s)), aq_executing := aq_executing (absq s) @ [t]\<rparr>"
    "aq_pending (absq s) = t # tl (aq_pending (absq s))"
    "config (toExecuting i (setTask t t' s)) = config s" "gens (toExecuting i (setTask t t' s)) = gens s"
proof -
  have o: "ti_owner (m_infos s i) = OPending" using wf_members(1) [OF assms(1), of i] assms(2) by simp
  have t: "ti_task (m_infos s i) = Some t" using assms(3) by (auto simp: taskOf_def split: option.splits)
  have "remove1 i (m_executing s) = m_executing s" "remove1 i (m_ready s) = m_ready s"
    using wf_eqD [OF assms(1)] o linked_notin [of OExecuting _ "m_infos s" i] linked_notin [of OReady _ "m_infos s" i]
    by (simp_all add: wf_lists_def)
  moreover have "taskAt ((m_infos s)(i := (m_infos s i)\<lparr>ti_owner := q\<rparr>)) = taskAt (m_infos s)" for q
    by (simp add: fun_eq_iff taskAt_def)
  ultimately show "absq (toExecuting i (setTask t t' s)) =
      (absq s)\<lparr>aq_pending := tl (aq_pending (absq s)), aq_executing := aq_executing (absq s) @ [t]\<rparr>"
    using assms(2) t by (simp add: absq_def move_defs) (simp add: taskAt_def)
  show "aq_pending (absq s) = t # tl (aq_pending (absq s))"
    using assms(2) t by (simp add: absq_def taskAt_def)
qed (simp_all add: config_def gens_def move_defs)

definition same_tasks :: "eq_state \<Rightarrow> eq_state \<Rightarrow> bool" where
  "same_tasks s s' \<longleftrightarrow> m_allTasks s' = m_allTasks s \<and> (\<forall>i. ti_task (m_infos s' i) = ti_task (m_infos s i))
     \<and> m_nextInfo s' = m_nextInfo s \<and> m_cvSignals s' = m_cvSignals s"

lemma pad_view:
  "pad K s = Inr s' \<Longrightarrow> wf_eq s \<Longrightarrow> absq s' = padq s (absq s) \<and> config s' = config s \<and> gens s' = gens s
     \<and> same_tasks s s' \<and> (\<forall>t. t \<notin> set (aq_pending (absq s)) \<longrightarrow> m_tasks s' t = m_tasks s t)
     \<and> (\<forall>t. m_state (m_tasks s t) \<noteq> Running \<or> m_state (m_tasks s' t) = Running)"
proof (induction rule: pad_induct)
  case (Empty s)
  then show ?case by (auto simp: padq_def aq_pad_full absq_def same_tasks_def)
next
  case (Throttled s)
  then show ?case by (auto simp: padq_def aq_pad_full throttled_abs same_tasks_def)
next
  case (Start s i "is" t t' s')
  let ?s = "toExecuting i (setTask t t' s)"
  obtain u where "ti_owner (m_infos s i) = OPending" "ti_task (m_infos s i) = Some u" "taskOf s i = Inr u"
    by (rule pending_head [OF \<open>wf_eq s\<close> \<open>m_pending s = i # is\<close>])
  with Start have wf: "wf_eq ?s"
    using wf_start [of s i t t'] scheduleNothrow_cases(2) scheduled_exception wf_eq_exception
    by (metis Inr_inject)
  note v = start_view [OF \<open>wf_eq s\<close> Start(1,3)]
  note IH = Start.IH [OF wf]
  have "\<not> aq_full (unat (m_maxExecuting s)) (unat (m_maxReadyOrExecuting s)) (absq s)"
    using Start(2) throttled_abs [OF \<open>wf_eq s\<close>] by simp
  from aq_pad_step [OF this v(2)] have "padq s (absq s) = padq s (absq ?s)"
    by (simp add: padq_def v(1))
  with IH v(3) have "absq s' = padq s (absq s)" using padq_config [OF v(3)] by simp
  moreover have "same_tasks s s'"
    using IH by (simp add: same_tasks_def move_defs split: if_splits)
  moreover have "m_tasks s' x = m_tasks s x" if "x \<notin> set (aq_pending (absq s))" for x
  proof -
    have "x \<noteq> t" using that v(2) by (metis list.set_intros(1))
    moreover have "x \<notin> set (aq_pending (absq ?s))" using that v(1,2) by (metis aqueue.select_convs(1) aqueue.surjective aqueue.update_convs(1,2) list.set_intros(2))
    ultimately show ?thesis using IH by (simp add: move_defs)
  qed
  moreover have "m_state (m_tasks s x) \<noteq> Running \<or> m_state (m_tasks s' x) = Running" for x
    using IH scheduleNothrow_cases(1) [OF Start(4)] by (cases "x = t") (auto simp: move_defs)
  ultimately show ?case using IH v(3,4) by simp
qed

section \<open>Taking a task info\<close>

lemma getInfo_cases:
  assumes "wf_map s" "wf_store s"
  obtains (Fresh) i p n where "getInfo s = Inr (i, s\<lparr>m_taskInfoPool := p,
        m_infos := (m_infos s)(i := new_info), m_nextInfo := n\<rparr>)"
      "ti_task (m_infos s i) = None" "info_pool.wf_pool p ((m_infos s)(i := new_info))"
      "n < 2 ^ 64" "\<And>j. j < n \<longleftrightarrow> j < m_nextInfo s \<or> j = i"
  | (Full) "getInfo s = Inl BadAlloc" "2 ^ 64 \<le> m_nextInfo s + 1" "m_impl (m_taskInfoPool s) = []"
proof (cases "m_impl (m_taskInfoPool s)" rule: rev_cases)
  case Nil
  have n: "ti_task (m_infos s (m_nextInfo s)) = None" "\<not> ti_freed (m_infos s (m_nextInfo s))"
    using assms(2) by (auto simp: wf_store_def)
  show thesis
  proof (cases "m_nextInfo s + 1 < 2 ^ 64")
    case True
    show thesis
    proof (rule Fresh)
      show "getInfo s = Inr (m_nextInfo s, s\<lparr>m_taskInfoPool := m_taskInfoPool s,
          m_infos := (m_infos s)(m_nextInfo s := new_info), m_nextInfo := m_nextInfo s + 1\<rparr>)"
        using Nil True by (simp add: getInfo_def newInfo_def info_pool.tryGet_empty)
      show "info_pool.wf_pool (m_taskInfoPool s) ((m_infos s)(m_nextInfo s := new_info))"
        using assms(2) n by (auto simp: wf_store_def info_pool.wf_pool_def new_info_def)
    qed (use True n in auto)
  next
    case False
    with Nil show thesis by (intro Full) (simp_all add: getInfo_def newInfo_def info_pool.tryGet_empty)
  qed
next
  case (snoc vs i)
  have w: "info_pool.wf_pool (m_taskInfoPool s) (m_infos s)" using assms(2) by (simp add: wf_store_def)
  have f: "ti_freed (m_infos s i)" using w snoc by (simp add: info_pool.wf_pool_def)
  then have t: "ti_task (m_infos s i) = None" using assms(2) by (auto simp: wf_store_def)
  then have "ti_owner (m_infos s i) = ONone" using assms(1) by (simp add: wf_map_def)
  with t have new: "(m_infos s i)\<lparr>ti_freed := False\<rparr> = new_info"
    by (cases "m_infos s i") (simp add: new_info_def)
  have "tryGet info_checker (m_taskInfoPool s) (m_infos s) =
      Inr (Some i, (m_taskInfoPool s)\<lparr>m_impl := vs\<rparr>, (m_infos s)(i := new_info))"
    using snoc f new by (simp add: tryGet_def info_checker_def intrusive_checker_def intrusive_markAllocated_def)
  moreover have "info_pool.wf_pool ((m_taskInfoPool s)\<lparr>m_impl := vs\<rparr>) ((m_infos s)(i := new_info))"
    using w snoc by (auto simp: info_pool.wf_pool_def new_info_def)
  moreover have "i < m_nextInfo s" "m_nextInfo s < 2 ^ 64"
    using assms(2) f unfolding wf_store_def by blast+
  ultimately show thesis
    using t by (intro Fresh [where i = i and p = "(m_taskInfoPool s)\<lparr>m_impl := vs\<rparr>" and n = "m_nextInfo s"])
      (auto simp: getInfo_def)
qed

section \<open>Pushing\<close>

definition aq_push :: "bool \<Rightarrow> nat \<Rightarrow> bool \<Rightarrow> aqueue \<Rightarrow> aqueue" where
  "aq_push isBack t dontSchedule q =
     (if t \<in> set (aq_ready q) then
        (if dontSchedule then q
         else q\<lparr>aq_pending := insertAt isBack t (aq_pending q), aq_ready := remove1 t (aq_ready q)\<rparr>)
      else if dontSchedule then q\<lparr>aq_ready := insertAt isBack t (aq_ready q)\<rparr>
      else q\<lparr>aq_pending := insertAt isBack t (aq_pending q)\<rparr>)"

text \<open>The contract of a push: the task is not running and not pending or executing in the queue.\<close>

definition admissible :: "eq_state \<Rightarrow> nat \<Rightarrow> bool" where
  "admissible s t \<longleftrightarrow> m_state (m_tasks s t) \<noteq> Running
     \<and> t \<notin> set (aq_pending (absq s)) \<and> t \<notin> set (aq_executing (absq s))"

lemma insertAt_simps [simp]:
  "set (insertAt b x l) = insert x (set l)" "length (insertAt b x l) = Suc (length l)"
  "distinct (insertAt b x l) \<longleftrightarrow> x \<notin> set l \<and> distinct l"
  "map f (insertAt b x l) = insertAt b (f x) (map f l)"
  by (auto simp: insertAt_def)

text \<open>The state after a new task entered, and before padding.\<close>

definition entered :: "bool \<Rightarrow> nat \<Rightarrow> bool \<Rightarrow> nat \<Rightarrow> nat simple_pool \<Rightarrow> nat \<Rightarrow> eq_state \<Rightarrow> eq_state" where
  "entered isBack t dontSchedule i p n s =
     (let s1 = s\<lparr>m_taskInfoPool := p, m_nextInfo := n, m_allTasks := AList.update t i (m_allTasks s),
            m_infos := (m_infos s)(i := \<lparr>ti_task = Some t,
               ti_owner = (if dontSchedule then OReady else OPending), ti_freed = False\<rparr>)\<rparr>
      in if dontSchedule
         then s1\<lparr>m_ready := insertAt isBack i (m_ready s1), m_readyCount := m_readyCount s1 + 1\<rparr>
         else s1\<lparr>m_pending := insertAt isBack i (m_pending s1),
                 m_activeWorkGeneration := m_activeWorkGeneration s1 + 1\<rparr>)"

lemma pushNew_eq:
  assumes "getInfo s = Inr (i, s\<lparr>m_taskInfoPool := p, m_infos := (m_infos s)(i := new_info), m_nextInfo := n\<rparr>)"
  shows "pushNew isBack t dontSchedule s = Inr (entered isBack t dontSchedule i p n s)"
  using assms
  by (cases dontSchedule)
    (simp_all add: pushNew_def entered_def new_info_def attachTask_def setOwnerQueue_def Let_def)

lemma entered_wf:
  assumes "wf_eq s" "ti_task (m_infos s i) = None" "info_pool.wf_pool p ((m_infos s)(i := new_info))"
    "n < 2 ^ 64" "\<And>j. j < n \<longleftrightarrow> j < m_nextInfo s \<or> j = i"
    and t: "map_of (m_allTasks s) t = None" "m_state (m_tasks s t) \<noteq> Running"
  shows "wf_eq (entered isBack t dontSchedule i p n s)"
proof -
  let ?s = "entered isBack t dontSchedule i p n s"
  note w = wf_eqD [OF assms(1)]
  have o: "ti_owner (m_infos s i) = ONone" using w assms(2) by (simp add: wf_map_def)
  have "wf_lists ?s"
    using w o by (cases dontSchedule) (auto simp: wf_lists_def linked_def entered_def Let_def)
  moreover have "wf_map ?s"
  proof -
    have "ti_task (m_infos s j) \<noteq> Some t" for j using w t(1) by (auto simp: wf_map_def)
    then have "map_of (AList.update t i (m_allTasks s)) u = Some j \<longleftrightarrow>
        ti_task (((m_infos s)(i := \<lparr>ti_task = Some t, ti_owner = q, ti_freed = False\<rparr>)) j) = Some u" for u j q
      using lookup_task [of s u j] w assms(2) by (auto simp: update_conv')
    moreover have "distinct (map fst (AList.update t i (m_allTasks s)))"
      using w by (simp add: wf_map_def distinct_update)
    ultimately show ?thesis
      using w unfolding wf_map_def by (cases dontSchedule) (simp_all add: entered_def Let_def)
  qed
  moreover have "wf_store ?s"
  proof -
    have "\<forall>j. ti_freed (m_infos ?s j) = ti_freed (((m_infos s)(i := new_info)) j)"
      by (simp add: entered_def new_info_def Let_def)
    then have "info_pool.wf_pool p (m_infos ?s)" using assms(3) by (simp add: info_pool.wf_pool_def)
    with w assms(2,4,5) show ?thesis
      by (cases dontSchedule) (simp_all add: wf_store_def entered_def Let_def)
  qed
  moreover have "wf_counts ?s"
    using w by (cases dontSchedule) (simp_all add: wf_counts_def entered_def Let_def)
  moreover have "wf_task_states ?s"
    using w t(2) by (cases dontSchedule) (auto simp: wf_task_states_def entered_def Let_def)
  ultimately show ?thesis by (simp add: wf_eq_def)
qed

lemma map_taskAt_upd:
  "i \<notin> set l \<Longrightarrow> map (taskAt (f(i := x))) l = map (taskAt f) l"
  by (simp add: taskAt_def)

lemma entered_view:
  assumes "wf_eq s" "ti_task (m_infos s i) = None" "map_of (m_allTasks s) t = None"
  shows "absq (entered isBack t dontSchedule i p n s) = aq_push isBack t dontSchedule (absq s)"
    "config (entered isBack t dontSchedule i p n s) = config s"
    "m_tasks (entered isBack t dontSchedule i p n s) = m_tasks s"
    "m_cvSignals (entered isBack t dontSchedule i p n s) = m_cvSignals s"
proof -
  note w = wf_eqD [OF assms(1)] and m = wf_members [OF assms(1)]
  have o: "ti_owner (m_infos s i) = ONone" using w assms(2) by (simp add: wf_map_def)
  then have n: "i \<notin> set (m_pending s)" "i \<notin> set (m_executing s)" "i \<notin> set (m_ready s)"
    using m by simp_all
  have "t \<notin> set (aq_ready (absq s))"
  proof
    assume "t \<in> set (aq_ready (absq s))"
    then obtain j where j: "j \<in> set (m_ready s)" "t = taskAt (m_infos s) j" by (auto simp: absq_def)
    then obtain u where "ti_task (m_infos s j) = Some u" using owned_task [of s j] w m by force
    with j(2) assms(3) lookup_task [of s u j] w show False by (simp add: taskAt_def)
  qed
  with n show "absq (entered isBack t dontSchedule i p n s) = aq_push isBack t dontSchedule (absq s)"
    by (cases dontSchedule)
      (simp_all add: absq_def aq_push_def entered_def Let_def map_taskAt_upd del: map_eq_conv, simp_all add: taskAt_def)
qed (cases dontSchedule; simp add: config_def entered_def Let_def)+

text \<open>The state after a ready task was rescheduled, and before padding.\<close>

definition rescheduled :: "bool \<Rightarrow> nat \<Rightarrow> eq_state \<Rightarrow> eq_state" where
  "rescheduled isBack i s =
     (let s1 = setOwnerQueue OPending i (unlinkInfo i s)
      in s1\<lparr>m_pending := insertAt isBack i (m_pending s1), m_readyCount := m_readyCount s1 - 1,
            m_activeWorkGeneration := m_activeWorkGeneration s1 + 1\<rparr>)"

lemma rescheduled_wf:
  assumes "wf_eq s" "ti_owner (m_infos s i) = OReady"
  shows "wf_eq (rescheduled isBack i s)"
proof -
  let ?s = "rescheduled isBack i s"
  note w = wf_eqD [OF assms(1)]
  obtain t where t: "ti_task (m_infos s i) = Some t" using owned_task [of s i] w assms(2) by auto
  have "wf_lists ?s"
    using w assms(2) by (auto simp: wf_lists_def linked_def rescheduled_def move_defs)
  moreover have "wf_map ?s"
    by (rule owner_map [of s i OPending]) (use w t in \<open>simp_all add: rescheduled_def move_defs\<close>)
  moreover have "wf_store ?s"
    by (rule owner_store [of s]) (use w in \<open>simp_all add: rescheduled_def move_defs\<close>)
  moreover have "wf_counts ?s"
    using w assms(2) linked_notin [of OExecuting "m_executing s" "m_infos s" i]
      linked_length_remove1 [of OReady "m_ready s" "m_infos s" i] of_nat_pred [of "length (m_ready s)"]
    by (simp add: wf_counts_def wf_lists_def rescheduled_def move_defs)
  moreover have "wf_task_states ?s"
    using w assms(2) by (auto simp: wf_task_states_def rescheduled_def move_defs)
  ultimately show ?thesis by (simp add: wf_eq_def)
qed

lemma taskAt_owner [simp]:
  "taskAt ((m_infos s)(i := (m_infos s i)\<lparr>ti_owner := q\<rparr>)) = taskAt (m_infos s)"
  by (simp add: fun_eq_iff taskAt_def)

lemma rescheduled_view:
  assumes "wf_eq s" "ti_owner (m_infos s i) = OReady" "ti_task (m_infos s i) = Some t"
  shows "absq (rescheduled isBack i s) = aq_push isBack t False (absq s)"
    "config (rescheduled isBack i s) = config s"
    "m_tasks (rescheduled isBack i s) = m_tasks s" "m_cvSignals (rescheduled isBack i s) = m_cvSignals s"
proof -
  note w = wf_eqD [OF assms(1)]
  have "remove1 i (m_pending s) = m_pending s" "remove1 i (m_executing s) = m_executing s"
    using w assms(2) linked_notin by (fastforce simp: wf_lists_def)+
  moreover have "t \<in> set (aq_ready (absq s))" using abs_members(3) [OF assms(1,3)] assms(2) by simp
  moreover have "map (taskAt (m_infos s)) (remove1 i (m_ready s)) = remove1 t (aq_ready (absq s))"
    by (rule abs_remove1(3) [OF assms(1,3)])
  moreover have "taskAt (m_infos s) i = t" using assms(3) by (simp add: taskAt_def)
  ultimately show "absq (rescheduled isBack i s) = aq_push isBack t False (absq s)"
    by (simp add: absq_def aq_push_def rescheduled_def move_defs)
qed (simp_all add: config_def rescheduled_def move_defs)

end
