(* ===== verification/EqOnReady.thy ===== *)
theory EqOnReady
  imports EqPush
begin

text \<open>
  Pushing and completing as total operations: under the contracts of the interfaces no assertion
  fails, the invariant is kept, and the abstract queue changes as stated.
\<close>

section \<open>Composing effects\<close>

lemma wf_eq_frame:
  assumes "wf_eq s" "m_pending s' = m_pending s" "m_executing s' = m_executing s" "m_ready s' = m_ready s"
    "m_infos s' = m_infos s" "m_allTasks s' = m_allTasks s" "m_taskInfoPool s' = m_taskInfoPool s"
    "m_nextInfo s' = m_nextInfo s" "m_executingCount s' = m_executingCount s" "m_readyCount s' = m_readyCount s"
    "m_tasks s' = m_tasks s"
  shows "wf_eq s'"
  using assms(1) unfolding wf_eq_def wf_lists_def wf_map_def wf_store_def wf_counts_def wf_task_states_def assms(2-) .

definition steps_to :: "eq_state \<Rightarrow> eq_state \<Rightarrow> aqueue \<Rightarrow> 64 word \<Rightarrow> bool" where
  "steps_to s s' q d \<longleftrightarrow> wf_eq s' \<and> absq s' = q \<and> config s' = config s
     \<and> gens s' = (m_activeWorkGeneration s + d, m_lastPublishedGeneration s, m_lastCandidateGeneration s)"

lemma pad_ok:
  assumes "never_aborts K" "wf_eq s"
  obtains s' where "pad K s = Inr s'" "steps_to s s' (padq s (absq s)) 0" "same_tasks s s'"
    "\<And>t. t \<notin> set (aq_pending (absq s)) \<Longrightarrow> m_tasks s' t = m_tasks s t"
proof -
  obtain s' where p: "pad K s = Inr s'" using pad_total [OF assms] by blast
  with pad_view [OF p assms(2)] pad_wf [OF p assms(2)] show thesis
    by (intro that [of s']) (auto simp: steps_to_def gens_def)
qed

lemma pad_after:
  assumes "never_aborts K" "steps_to s s1 q d"
  obtains s' where "pad K s1 = Inr s'" "steps_to s s' (padq s q) d" "same_tasks s1 s'"
    "\<And>t. t \<notin> set (aq_pending q) \<Longrightarrow> m_tasks s' t = m_tasks s1 t"
proof -
  have "wf_eq s1" using assms(2) by (simp add: steps_to_def)
  then obtain s' where "pad K s1 = Inr s'" "steps_to s1 s' (padq s1 (absq s1)) 0" "same_tasks s1 s'"
    "\<And>t. t \<notin> set (aq_pending (absq s1)) \<Longrightarrow> m_tasks s' t = m_tasks s1 t"
    using pad_ok [OF assms(1)] by blast
  with assms(2) padq_config [of s1 s] show thesis
    by (intro that [of s']) (auto simp: steps_to_def gens_def)
qed

section \<open>Pushing\<close>

lemma push_ok:
  assumes "never_aborts K" "wf_eq s" "admissible s t"
  obtains (Pushed) s' where "pushInternalNoLock K isBack t dontSchedule s = Inr s'"
      "steps_to s s' (padq s (aq_push isBack t dontSchedule (absq s))) (if dontSchedule then 0 else 1)"
      "\<And>u. u \<notin> set (aq_pending (absq s)) \<Longrightarrow> u \<noteq> t \<Longrightarrow> m_tasks s' u = m_tasks s u"
      "m_cvSignals s' = m_cvSignals s"
      "\<And>i u. u \<noteq> t \<Longrightarrow> ti_task (m_infos s i) = Some u \<Longrightarrow> ti_task (m_infos s' i) = Some u"
  | (Full) "pushInternalNoLock K isBack t dontSchedule s = Inl BadAlloc" "2 ^ 64 \<le> m_nextInfo s + 1"
proof (cases "map_of (m_allTasks s) t")
  case None
  note w = wf_eqD [OF assms(2)]
  have "wf_map s" "wf_store s" using w by simp_all
  then show thesis
  proof (cases rule: getInfo_cases)
    case 3: (Fresh i p n)
    let ?e = "entered isBack t dontSchedule i p n s"
    have wf: "wf_eq ?e"
      by (rule entered_wf) (use 3 assms None in \<open>simp_all add: admissible_def\<close>)
    note v = entered_view [OF assms(2) 3(2) None, of isBack dontSchedule p n]
    have "gens ?e = (m_activeWorkGeneration s + (if dontSchedule then 0 else 1),
        m_lastPublishedGeneration s, m_lastCandidateGeneration s)"
      by (simp add: gens_def entered_def Let_def)
    with wf v have st: "steps_to s ?e (aq_push isBack t dontSchedule (absq s)) (if dontSchedule then 0 else 1)"
      by (simp add: steps_to_def)
    obtain s' where s': "pad K ?e = Inr s'"
      "steps_to s s' (padq s (aq_push isBack t dontSchedule (absq s))) (if dontSchedule then 0 else 1)"
      "same_tasks ?e s'"
      "\<And>u. u \<notin> set (aq_pending (aq_push isBack t dontSchedule (absq s))) \<Longrightarrow> m_tasks s' u = m_tasks ?e u"
      by (rule pad_after [OF assms(1) st]) blast
    show thesis
    proof (rule Pushed)
      show "pushInternalNoLock K isBack t dontSchedule s = Inr s'"
        using None s'(1) pushNew_eq [OF 3(1)] by (simp add: pushInternalNoLock_def)
      fix u assume "u \<notin> set (aq_pending (absq s))" "u \<noteq> t"
      then show "m_tasks s' u = m_tasks s u" using s'(4) [of u] v(3) by (simp add: aq_push_def split: if_splits)
    next
      show "m_cvSignals s' = m_cvSignals s" using s'(3) v(4) by (simp add: same_tasks_def)
    next
      fix j u assume "u \<noteq> t" "ti_task (m_infos s j) = Some u"
      with 3(2) have "ti_task (m_infos ?e j) = Some u" by (auto simp: entered_def Let_def)
      with s'(3) show "ti_task (m_infos s' j) = Some u" by (simp add: same_tasks_def)
    qed (fact s'(2))
  next
    case 4: Full
    then show thesis using None by (intro Full) (simp_all add: pushInternalNoLock_def pushNew_def)
  qed
next
  case (Some i)
  note w = wf_eqD [OF assms(2)]
  have t: "ti_task (m_infos s i) = Some t" using Some lookup_task w by blast
  then have "ti_owner (m_infos s i) \<noteq> ONone" using w by (simp add: wf_map_def)
  with assms(3) have o: "ti_owner (m_infos s i) = OReady"
    using abs_members [OF assms(2) t] by (cases "ti_owner (m_infos s i)") (auto simp: admissible_def)
  define e where "e = (if dontSchedule then s else rescheduled isBack i s)"
  have ex: "pushExisting isBack i dontSchedule s = Inr e"
    using o by (simp add: pushExisting_def e_def rescheduled_def getOwnerQueue_def Let_def)
  have ready: "t \<in> set (aq_ready (absq s))" using abs_members(3) [OF assms(2) t] o by simp
  note v = rescheduled_view [OF assms(2) o t]
  have st: "steps_to s e (aq_push isBack t dontSchedule (absq s)) (if dontSchedule then 0 else 1)"
  proof (cases dontSchedule)
    case True
    with assms(2) ready show ?thesis by (simp add: steps_to_def e_def aq_push_def gens_def)
  next
    case False
    with rescheduled_wf [OF assms(2) o] v show ?thesis
      by (simp add: steps_to_def e_def) (simp add: gens_def rescheduled_def move_defs)
  qed
  have e: "m_tasks e = m_tasks s" "m_cvSignals e = m_cvSignals s" "ti_task (m_infos e j) = ti_task (m_infos s j)" for j
    using v by (simp_all add: e_def) (simp add: rescheduled_def move_defs)
  obtain s' where s': "pad K e = Inr s'"
    "steps_to s s' (padq s (aq_push isBack t dontSchedule (absq s))) (if dontSchedule then 0 else 1)"
    "same_tasks e s'"
    "\<And>u. u \<notin> set (aq_pending (aq_push isBack t dontSchedule (absq s))) \<Longrightarrow> m_tasks s' u = m_tasks e u"
    by (rule pad_after [OF assms(1) st]) blast
  show thesis
  proof (rule Pushed)
    show "pushInternalNoLock K isBack t dontSchedule s = Inr s'"
      using Some s'(1) ex by (simp add: pushInternalNoLock_def)
    fix u assume "u \<notin> set (aq_pending (absq s))" "u \<noteq> t"
    then show "m_tasks s' u = m_tasks s u" using s'(4) [of u] e by (simp add: aq_push_def split: if_splits)
  next
    show "m_cvSignals s' = m_cvSignals s" using s'(3) e by (simp add: same_tasks_def)
  next
    fix j u assume "u \<noteq> t" "ti_task (m_infos s j) = Some u"
    with s'(3) e show "ti_task (m_infos s' j) = Some u" by (simp add: same_tasks_def)
  qed (fact s'(2))
qed

section \<open>Leaving the executing list\<close>

lemma executing_info:
  assumes "wf_eq s" "t \<in> set (aq_executing (absq s))"
  obtains i where "map_of (m_allTasks s) t = Some i" "ti_task (m_infos s i) = Some t"
    "ti_owner (m_infos s i) = OExecuting"
proof -
  note w = wf_eqD [OF assms(1)]
  from assms(2) obtain i where i: "i \<in> set (m_executing s)" "t = taskAt (m_infos s) i" by (auto simp: absq_def)
  then have o: "ti_owner (m_infos s i) = OExecuting" using wf_members(2) [OF assms(1)] by simp
  then obtain u where "ti_task (m_infos s i) = Some u" using owned_task [of s i] w by auto
  with i(2) have "ti_task (m_infos s i) = Some t" by (simp add: taskAt_def)
  with o w show thesis by (intro that [of i]) (simp_all add: lookup_task)
qed

definition aq_retire :: "nat \<Rightarrow> bool \<Rightarrow> aqueue \<Rightarrow> aqueue" where
  "aq_retire t keep q = q\<lparr>aq_executing := remove1 t (aq_executing q),
     aq_ready := (if keep then aq_ready q @ [t] else aq_ready q)\<rparr>"

definition aq_restart :: "nat \<Rightarrow> aqueue \<Rightarrow> aqueue" where
  "aq_restart t q = q\<lparr>aq_executing := remove1 t (aq_executing q), aq_pending := aq_pending q @ [t]\<rparr>"

lemma executing_count_pred:
  assumes "wf_eq s" "ti_owner (m_infos s i) = OExecuting"
  shows "m_executingCount s - 1 = of_nat (length (remove1 i (m_executing s)))"
    "remove1 i (m_pending s) = m_pending s" "remove1 i (m_ready s) = m_ready s"
  using wf_eqD [OF assms(1)] assms(2) linked_length_remove1 [of OExecuting "m_executing s" "m_infos s" i]
    of_nat_pred [of "length (m_executing s)"] linked_notin [of OPending "m_pending s" "m_infos s" i]
    linked_notin [of OReady "m_ready s" "m_infos s" i]
  by (simp_all add: wf_counts_def wf_lists_def)

definition retiring :: "nat \<Rightarrow> task_base \<Rightarrow> eq_state \<Rightarrow> eq_state" where
  "retiring t b s = setTask t b (s\<lparr>m_executingCount := m_executingCount s - 1\<rparr>)"

lemma retiring_simps [simp]:
  "m_pending (retiring t b s) = m_pending s" "m_executing (retiring t b s) = m_executing s"
  "m_ready (retiring t b s) = m_ready s" "m_infos (retiring t b s) = m_infos s"
  "m_allTasks (retiring t b s) = m_allTasks s" "m_taskInfoPool (retiring t b s) = m_taskInfoPool s"
  "m_nextInfo (retiring t b s) = m_nextInfo s" "m_readyCount (retiring t b s) = m_readyCount s"
  "m_executingCount (retiring t b s) = m_executingCount s - 1" "m_tasks (retiring t b s) = (m_tasks s)(t := b)"
  "config (retiring t b s) = config s" "gens (retiring t b s) = gens s"
  "m_options (retiring t b s) = m_options s" "m_cvSignals (retiring t b s) = m_cvSignals s"
  "wf_lists (retiring t b s) = wf_lists s" "wf_map (retiring t b s) = wf_map s" "wf_store (retiring t b s) = wf_store s"
  by (simp_all add: retiring_def setTask_def wf_defs config_def gens_def)

lemma retire_keep:
  assumes "wf_eq s" "ti_owner (m_infos s i) = OExecuting" "ti_task (m_infos s i) = Some t"
    "m_state b \<noteq> Running" "m_hasException b \<longleftrightarrow> m_exception b \<noteq> None"
  shows "steps_to s (moveTaskToReadyQueue i (retiring t b s)) (aq_retire t True (absq s)) 0"
proof -
  let ?s = "moveTaskToReadyQueue i (retiring t b s)"
  note w = wf_eqD [OF assms(1)] and c = executing_count_pred [OF assms(1,2)]
  have "wf_lists ?s" using w by (intro moveReady_lists) simp
  moreover have "wf_map ?s"
    by (rule owner_map [of s i OReady]) (use w assms(3) in \<open>simp_all add: move_defs\<close>)
  moreover have "wf_store ?s"
    by (rule owner_store [of s]) (use w in \<open>simp_all add: move_defs\<close>)
  moreover have "wf_counts ?s"
    using w c by (simp add: wf_counts_def move_defs)
  moreover have "wf_task_states ?s"
    by (rule wf_states_update [of s i t _ OReady b]) (use w assms(3-5) in \<open>simp_all add: move_defs\<close>)
  moreover have "absq ?s = aq_retire t True (absq s)"
    using c abs_remove1(2) [OF assms(1,3)] assms(3)
    by (simp add: absq_def aq_retire_def move_defs) (simp add: taskAt_def)
  ultimately show ?thesis
    by (simp add: steps_to_def wf_eq_def) (simp add: config_def gens_def retiring_def move_defs)
qed

lemma retire_discard:
  assumes "wf_eq s" "ti_owner (m_infos s i) = OExecuting" "ti_task (m_infos s i) = Some t"
    "m_hasException b \<longleftrightarrow> m_exception b \<noteq> None"
  shows "unlinkAndDestroy i (retiring t b s) = Inr (destroyed i t (retiring t b s))"
    "steps_to s (destroyed i t (retiring t b s)) (aq_retire t False (absq s)) 0"
proof -
  let ?s = "destroyed i t (retiring t b s)"
  note w = wf_eqD [OF assms(1)] and c = executing_count_pred [OF assms(1,2)]
  show "unlinkAndDestroy i (retiring t b s) = Inr ?s"
    using w assms(3) by (intro unlinkAndDestroy_eq) simp_all
  have "wf_lists ?s" "wf_map ?s" "wf_store ?s"
    using w assms(3) by (simp_all add: destroyed_lists destroyed_map destroyed_store)
  moreover have "wf_counts ?s" using w c by (simp add: wf_counts_def destroyed_def)
  moreover have "wf_task_states ?s"
  proof -
    have "ti_task (m_infos s j) = Some u \<Longrightarrow> j \<noteq> i \<Longrightarrow> u \<noteq> t" for j u
      using task_unique [of s i t j] w assms(3) by auto
    then show ?thesis
      using w assms(4) unfolding wf_task_states_def by (simp add: destroyed_def)
  qed
  moreover have "absq ?s = absq (destroyed i t s)" by (simp add: absq_def destroyed_def)
  moreover have "t \<notin> set (aq_pending (absq s))" "t \<notin> set (aq_ready (absq s))"
    using abs_members [OF assms(1,3)] assms(2) by simp_all
  ultimately show "steps_to s ?s (aq_retire t False (absq s)) 0"
    using destroyed_view(1) [OF assms(1,3)]
    by (simp add: steps_to_def wf_eq_def aq_retire_def remove1_idem)
      (simp add: config_def gens_def destroyed_def retiring_def setTask_def)
qed

lemma restart:
  assumes "wf_eq s" "ti_owner (m_infos s i) = OExecuting" "ti_task (m_infos s i) = Some t"
    "m_state (m_tasks s t) \<noteq> Running"
  obtains s1 where "moveExecutingTaskToPendingQueue i s = Inr s1"
    "steps_to s (s1\<lparr>m_activeWorkGeneration := m_activeWorkGeneration s1 + 1\<rparr>) (aq_restart t (absq s)) 1"
    "m_tasks s1 = m_tasks s" "m_cvSignals s1 = m_cvSignals s"
proof -
  define s1 where "s1 = (let s1 = setOwnerQueue OPending i (unlinkInfo i s)
      in s1\<lparr>m_pending := m_pending s1 @ [i], m_executingCount := m_executingCount s1 - 1\<rparr>)"
  let ?s = "s1\<lparr>m_activeWorkGeneration := m_activeWorkGeneration s1 + 1\<rparr>"
  note w = wf_eqD [OF assms(1)] and c = executing_count_pred [OF assms(1,2)]
  have "wf_lists ?s" using w by (simp add: wf_lists_def s1_def move_defs linked_in_back linked_out)
  moreover have "wf_map ?s"
    by (rule owner_map [of s i OPending]) (use w assms(3) in \<open>simp_all add: s1_def move_defs\<close>)
  moreover have "wf_store ?s"
    by (rule owner_store [of s]) (use w in \<open>simp_all add: s1_def move_defs\<close>)
  moreover have "wf_counts ?s" using w c by (simp add: wf_counts_def s1_def move_defs)
  moreover have "wf_task_states ?s"
    by (rule wf_states_update [of s i t _ OPending "m_tasks s t"])
      (use w assms(3,4) wf_eq_exception [OF assms(1)] in \<open>simp_all add: s1_def move_defs\<close>)
  moreover have "absq ?s = aq_restart t (absq s)"
    using c abs_remove1(2) [OF assms(1,3)] assms(3)
    by (simp add: absq_def aq_restart_def s1_def move_defs) (simp add: taskAt_def)
  ultimately have "steps_to s ?s (aq_restart t (absq s)) 1"
    by (simp add: steps_to_def wf_eq_def) (simp add: config_def gens_def s1_def move_defs)
  moreover have "moveExecutingTaskToPendingQueue i s = Inr s1"
    using assms(2) by (simp add: moveExecutingTaskToPendingQueue_def getOwnerQueue_def s1_def Let_def)
  ultimately show thesis by (intro that [of s1]) (simp_all add: s1_def move_defs)
qed

section \<open>Completion\<close>

lemma getEvent_config: "config s' = config s \<Longrightarrow> getEventNotifyCB e t s' = getEventNotifyCB e t s"
  by (auto simp: config_def getEventNotifyCB_def split: option.split)

lemma padq_lists:
  "aq_pending (padq s q) = [] \<and> aq_executing (padq s q) = [] \<longleftrightarrow> aq_pending q = [] \<and> aq_executing q = []"
  "aq_ready (padq s q) = aq_ready q" "set (aq_executing q) \<subseteq> set (aq_executing (padq s q))"
  "set (aq_pending (padq s q)) \<subseteq> set (aq_pending q)"
  by (auto simp: padq_def aq_pad_def aq_slots_def dest: in_set_dropD)

lemma absq_empty: "m_pending s = [] \<longleftrightarrow> aq_pending (absq s) = []" "m_executing s = [] \<longleftrightarrow> aq_executing (absq s) = []"
  "m_ready s = [] \<longleftrightarrow> aq_ready (absq s) = []"
  by (simp_all add: absq_def)

definition keepWhen :: "bool \<Rightarrow> eq_state \<Rightarrow> bool" where
  "keepWhen failed s \<longleftrightarrow> 0 \<noteq> m_options s AND (if failed then OptionKeepFailed else OptionKeepSuccessful)"

text \<open>The contract of a completion: the task executes and has notified, and its continuation can be pushed.\<close>

definition completing :: "(nat \<Rightarrow> task_class) \<Rightarrow> nat \<Rightarrow> eq_state \<Rightarrow> bool" where
  "completing K t s \<longleftrightarrow> m_observerThis s \<and> t \<in> set (aq_executing (absq s))
     \<and> m_state (m_tasks s t) = PendingCompletion \<and> m_nextInfo s + 1 < 2 ^ 64
     \<and> (\<forall>c. continuationTask t (m_tasks s t) = ContTask c \<longrightarrow> c \<noteq> t \<longrightarrow> admissible s c)"

text \<open>The abstract queue once the continuation was admitted, and whether the task failed.\<close>

definition continued :: "nat \<Rightarrow> eq_state \<Rightarrow> aqueue" where
  "continued t s = (case continuationTask t (m_tasks s t) of
       ContTask c \<Rightarrow> padq s (aq_push False c False (absq s)) | _ \<Rightarrow> absq s)"

definition hasContinuation :: "nat \<Rightarrow> eq_state \<Rightarrow> bool" where
  "hasContinuation t s \<longleftrightarrow> (\<exists>c. continuationTask t (m_tasks s t) = ContTask c)"

definition completesFailed :: "nat \<Rightarrow> eq_state \<Rightarrow> bool" where
  "completesFailed t s \<longleftrightarrow> m_hasException (m_tasks s t) \<or> (\<exists>e. continuationTask t (m_tasks s t) = ContThrows e)"

definition completed :: "nat \<Rightarrow> eq_state \<Rightarrow> aqueue" where
  "completed t s = padq s (aq_retire t (keepWhen (completesFailed t s) s) (continued t s))"

lemma onReady_self:
  assumes "never_aborts K" "wf_eq s" "completing K t s" "continuationTask t (m_tasks s t) = ContTask t"
  obtains s' where "onReady K t s = Inr (None, None, s')" "steps_to s s' (padq s (aq_restart t (absq s))) 1"
proof -
  have c: "m_observerThis s" "t \<in> set (aq_executing (absq s))" "m_state (m_tasks s t) = PendingCompletion"
    using assms(3) by (simp_all add: completing_def)
  obtain i where i: "map_of (m_allTasks s) t = Some i" "ti_task (m_infos s i) = Some t"
    "ti_owner (m_infos s i) = OExecuting" by (rule executing_info [OF assms(2) c(2)])
  obtain s1 where s1: "moveExecutingTaskToPendingQueue i s = Inr s1"
    "steps_to s (s1\<lparr>m_activeWorkGeneration := m_activeWorkGeneration s1 + 1\<rparr>) (aq_restart t (absq s)) 1"
    by (rule restart [OF assms(2) i(3,2)]) (use c in auto)
  obtain s' where s': "pad K (s1\<lparr>m_activeWorkGeneration := m_activeWorkGeneration s1 + 1\<rparr>) = Inr s'"
    "steps_to s s' (padq s (aq_restart t (absq s))) 1"
    by (rule pad_after [OF assms(1) s1(2)]) blast
  have "\<not> (m_pending s' = [] \<and> m_executing s' = [])"
    using s'(2) padq_lists(1) [of s "aq_restart t (absq s)"]
    by (simp add: steps_to_def absq_empty) (simp add: aq_restart_def)
  with s' s1 i c assms(4) have "onReady K t s = Inr (None, None, s')"
    by (auto simp: onReady_def getTaskInfoPtrFromTask_def continueTask_def)
  then show thesis using s'(2) by (rule that)
qed

lemma continue_other:
  assumes "never_aborts K" "wf_eq s" "completing K t s" "continuationTask t (m_tasks s t) \<noteq> ContTask t"
    and "ti_task (m_infos s i) = Some t"
  obtains e s1 where "continueTask K t i s = Inr (False, e, s1)"
    "steps_to s s1 (continued t s) (if hasContinuation t s then 1 else 0)"
    "m_tasks s1 t = m_tasks s t" "m_cvSignals s1 = m_cvSignals s" "ti_task (m_infos s1 i) = Some t"
    "(e \<noteq> None) \<longleftrightarrow> (\<exists>e. continuationTask t (m_tasks s t) = ContThrows e)"
proof (cases "continuationTask t (m_tasks s t)")
  case (ContTask c)
  have n: "\<not> 2 ^ 64 \<le> m_nextInfo s + 1" "admissible s c" "c \<noteq> t"
    using assms(3,4) ContTask by (auto simp: completing_def)
  have te: "t \<in> set (aq_executing (absq s))" using assms(3) by (simp add: completing_def)
  then have tp: "t \<notin> set (aq_pending (absq s))"
    using abs_members [OF assms(2,5)] by simp
  from assms(1,2) n(2) show thesis
  proof (cases rule: push_ok [of K s c False False])
    case (Pushed s1)
    with ContTask n tp assms(5) show thesis
      by (intro that [of None s1]) (auto simp: continueTask_def continued_def hasContinuation_def)
  next
    case Full
    with n show thesis by simp
  qed
next
  case ContNone
  with assms(2,5) show thesis
    by (intro that [of None s])
      (simp_all add: continueTask_def continued_def hasContinuation_def steps_to_def gens_def)
next
  case (ContThrows e)
  with assms(2,5) show thesis
    by (intro that [of "Some e" s])
      (simp_all add: continueTask_def continued_def hasContinuation_def steps_to_def gens_def)
qed

lemma completed_state [simp]: "m_state (setCompletedState b) = Completed"
  "m_exception (setCompletedState b) = m_exception b" "m_hasException (setCompletedState b) = m_hasException b"
  by (simp_all add: setCompletedState_def)

lemma retireTask_ok:
  assumes "never_aborts K" "steps_to s s2 q d" "t \<in> set (aq_executing q)" "ti_task (m_infos s2 i) = Some t"
  defines "keep \<equiv> keepWhen (m_hasException (m_tasks s2 t)) s"
  obtains s3 where "retireTask K t i s2 =
      Inr (getEventNotifyCB (if keep then TaskReady else TaskDiscarded) (Some t) s, s3)"
    "steps_to s s3 (padq s (aq_retire t keep q)) d" "m_state (m_tasks s3 t) = Completed"
    "m_hasException (m_tasks s3 t) = m_hasException (m_tasks s2 t)" "m_cvSignals s3 = m_cvSignals s2 + 1"
proof -
  let ?b = "setCompletedState (m_tasks s2 t)"
  let ?r = "retiring t ?b s2"
  have wf: "wf_eq s2" and cfg: "config s2 = config s" and q: "absq s2 = q"
    using assms(2) by (simp_all add: steps_to_def)
  have o: "ti_owner (m_infos s2 i) = OExecuting" using abs_members(2) [OF wf assms(4)] assms(3) q by simp
  have opt: "m_options s2 = m_options s" using cfg by (simp add: config_def)
  have k: "keepTask t ?r \<longleftrightarrow> keep"
    by (simp add: keepTask_def isFailed_def keep_def keepWhen_def opt less_eq_task_state_def)
  have tp: "t \<notin> set (aq_pending q)" using abs_members(1) [OF wf assms(4)] o q by simp
  have rt: "setTask t (setCompletedState (m_tasks (s2\<lparr>m_executingCount := m_executingCount s2 - 1\<rparr>) t))
      (s2\<lparr>m_executingCount := m_executingCount s2 - 1\<rparr>) = ?r"
    by (simp add: retiring_def)
  define n where "n = getEventNotifyCB (if keep then TaskReady else TaskDiscarded) (Some t) s"
  obtain s4 where s4: "(if keepTask t ?r then Inr (getEventNotifyCB TaskReady (Some t) ?r, moveTaskToReadyQueue i ?r)
       else bindR (unlinkAndDestroy i ?r) (\<lambda>s3. Inr (getEventNotifyCB TaskDiscarded (Some t) s3, s3))) = Inr (n, s4)"
    "steps_to s2 s4 (aq_retire t keep q) 0" "m_tasks s4 t = ?b" "m_cvSignals s4 = m_cvSignals s2"
  proof (cases keep)
    case True
    from retire_keep [OF wf o assms(4), of ?b] wf_eq_exception [OF wf] q True
    have st: "steps_to s2 (moveTaskToReadyQueue i ?r) (aq_retire t keep q) 0" by simp
    have "getEventNotifyCB TaskReady (Some t) ?r = n"
      using True cfg by (simp add: n_def) (rule getEvent_config, simp)
    with True k st show thesis by (intro that [of "moveTaskToReadyQueue i ?r"]) (simp_all add: move_defs)
  next
    case False
    from retire_discard [OF wf o assms(4), of ?b] wf_eq_exception [OF wf] q False
    have st: "unlinkAndDestroy i ?r = Inr (destroyed i t ?r)" "steps_to s2 (destroyed i t ?r) (aq_retire t keep q) 0"
      by simp_all
    have "config (destroyed i t ?r) = config s" using st(2) cfg by (simp add: steps_to_def)
    then have "getEventNotifyCB TaskDiscarded (Some t) (destroyed i t ?r) = n"
      using False by (simp add: n_def) (rule getEvent_config)
    with False k st show thesis by (intro that [of "destroyed i t ?r"]) simp_all
  qed
  have st4: "steps_to s s4 (aq_retire t keep q) d"
    using s4(2) assms(2) by (simp add: steps_to_def gens_def)
  obtain s5 where s5: "pad K s4 = Inr s5" "steps_to s s5 (padq s (aq_retire t keep q)) d" "same_tasks s4 s5"
    "\<And>u. u \<notin> set (aq_pending (aq_retire t keep q)) \<Longrightarrow> m_tasks s5 u = m_tasks s4 u"
    by (rule pad_after [OF assms(1) st4]) blast
  let ?s = "s5\<lparr>m_cvSignals := m_cvSignals s5 + 1\<rparr>"
  have "steps_to s ?s (padq s (aq_retire t keep q)) d"
    using s5(2) by (simp add: steps_to_def wf_eq_def wf_defs view_defs)
  moreover have "retireTask K t i s2 = Inr (n, ?s)"
    unfolding retireTask_def Let_def rt s4(1) by (simp add: s5(1))
  moreover have "m_tasks s5 t = ?b" using s5(4) [of t] tp s4(3) by (simp add: aq_retire_def)
  ultimately show thesis
    using s5(3) s4(4) by (intro that [of ?s]) (simp_all add: n_def same_tasks_def)
qed

text \<open>The exception of a continuation that could not be produced is stored in the task.\<close>

lemma failed_task:
  assumes "steps_to s s1 q d" "m_state b = m_state (m_tasks s1 t)" "m_hasException b \<longleftrightarrow> m_exception b \<noteq> None"
  shows "steps_to s (setTask t b s1) q d"
proof -
  have "wf_eq s1" using assms(1) by (simp add: steps_to_def)
  then have "wf_task_states (setTask t b s1)"
    using assms(2,3) by (auto simp: wf_eq_def wf_task_states_def setTask_def)
  with assms(1) show ?thesis
    by (simp add: steps_to_def wf_eq_def wf_lists_def wf_map_def wf_store_def wf_counts_def setTask_def view_defs)
qed

lemma onReady_other:
  assumes "never_aborts K" "wf_eq s" "completing K t s" "continuationTask t (m_tasks s t) \<noteq> ContTask t"
  defines "idle \<equiv> aq_pending (completed t s) = [] \<and> aq_executing (completed t s) = []"
    and "g \<equiv> m_activeWorkGeneration s + (if hasContinuation t s then 1 else 0)"
  obtains s' where "onReady K t s =
      Inr (getEventNotifyCB (if keepWhen (completesFailed t s) s then TaskReady else TaskDiscarded) (Some t) s,
           if idle then Some g else None, s')"
    "wf_eq s'" "absq s' = completed t s" "config s' = config s" "m_state (m_tasks s' t) = Completed"
    "gens s' = (g, m_lastPublishedGeneration s, if idle then g else m_lastCandidateGeneration s)"
    "m_cvSignals s' = m_cvSignals s + 1"
proof -
  have c: "m_observerThis s" "t \<in> set (aq_executing (absq s))" "m_state (m_tasks s t) = PendingCompletion"
    using assms(3) by (simp_all add: completing_def)
  obtain i where i: "map_of (m_allTasks s) t = Some i" "ti_task (m_infos s i) = Some t"
    "ti_owner (m_infos s i) = OExecuting" by (rule executing_info [OF assms(2) c(2)])
  obtain e s1 where s1: "continueTask K t i s = Inr (False, e, s1)"
    "steps_to s s1 (continued t s) (if hasContinuation t s then 1 else 0)"
    "m_tasks s1 t = m_tasks s t" "m_cvSignals s1 = m_cvSignals s" "ti_task (m_infos s1 i) = Some t"
    "(e \<noteq> None) \<longleftrightarrow> (\<exists>e. continuationTask t (m_tasks s t) = ContThrows e)"
    by (rule continue_other [OF assms(1-4) i(2)])
  define s2 where "s2 = (case e of None \<Rightarrow> s1 | Some x \<Rightarrow> setTask t (setExceptionInternal (Some x) (m_tasks s1 t)) s1)"
  have s2: "steps_to s s2 (continued t s) (if hasContinuation t s then 1 else 0)"
    "ti_task (m_infos s2 i) = Some t" "m_cvSignals s2 = m_cvSignals s"
    "m_hasException (m_tasks s2 t) = completesFailed t s"
    using s1 failed_task [OF s1(2), of _ t]
    by (auto simp: s2_def completesFailed_def setTask_def split: option.splits)
  have te: "t \<in> set (aq_executing (continued t s))"
    using c(2) by (auto simp: continued_def aq_push_def intro!: subsetD [OF padq_lists(3)] split: cont_result.splits)
  obtain s3 where s3: "retireTask K t i s2 =
      Inr (getEventNotifyCB (if keepWhen (completesFailed t s) s then TaskReady else TaskDiscarded) (Some t) s, s3)"
    "steps_to s s3 (completed t s) (if hasContinuation t s then 1 else 0)" "m_state (m_tasks s3 t) = Completed"
    "m_cvSignals s3 = m_cvSignals s + 1"
    by (rule retireTask_ok [OF assms(1) s2(1) te s2(2), unfolded s2(4) s2(3), folded completed_def])
  have wf: "wf_eq s3" and q: "absq s3 = completed t s" and cfg: "config s3 = config s"
    and gn: "gens s3 = (g, m_lastPublishedGeneration s, m_lastCandidateGeneration s)"
    using s3(2) by (simp_all add: steps_to_def g_def)
  have idle: "m_pending s3 = [] \<and> m_executing s3 = [] \<longleftrightarrow> idle"
    by (simp add: absq_empty q idle_def)
  define s4 where "s4 = (if idle then s3\<lparr>m_lastCandidateGeneration := m_activeWorkGeneration s3\<rparr> else s3)"
  have "idle \<Longrightarrow> m_executingCount s3 = 0"
    using wf_eqD [OF wf] idle by (simp add: wf_counts_def)
  with c(1) i(1) s1(1) s3(1) idle have "onReady K t s =
      Inr (getEventNotifyCB (if keepWhen (completesFailed t s) s then TaskReady else TaskDiscarded) (Some t) s,
           if idle then Some (m_activeWorkGeneration s3) else None, s4)"
    by (simp add: onReady_def getTaskInfoPtrFromTask_def s2_def [symmetric] s4_def)
  moreover have "m_activeWorkGeneration s3 = g" using gn by (simp add: gens_def)
  moreover have "wf_eq s4" by (rule wf_eq_frame [OF wf]) (simp_all add: s4_def)
  moreover have "absq s4 = completed t s" "config s4 = config s" "m_state (m_tasks s4 t) = Completed"
    "gens s4 = (g, m_lastPublishedGeneration s, if idle then g else m_lastCandidateGeneration s)"
    "m_cvSignals s4 = m_cvSignals s + 1"
    using q cfg gn s3(3,4) by (simp_all add: s4_def view_defs)
  ultimately show thesis by (intro that [of s4]) simp_all
qed

end
