(* ===== verification/EqBlocking.thy ===== *)
theory EqBlocking
  imports EqOnReady
begin

text \<open>
  Flushing, popping, waiting, prioritizing and cancelling: under the contracts no assertion fails in
  them whatever the other threads do while they wait, the invariant is kept, and what holds when
  they return.
\<close>

section \<open>Emptiness\<close>

definition aq_empty :: "aqueue \<Rightarrow> bool" where
  "aq_empty q \<longleftrightarrow> aq_pending q = [] \<and> aq_executing q = [] \<and> aq_ready q = []"

lemma allTasks_empty:
  assumes "wf_eq s"
  shows "m_allTasks s = [] \<longleftrightarrow> m_pending s = [] \<and> m_executing s = [] \<and> m_ready s = []"
proof
  note w = wf_eqD [OF assms] and m = wf_members [OF assms]
  {
    assume e: "m_allTasks s = []"
    have "ti_task (m_infos s i) = None" for i
      using w e lookup_task [of s _ i] by (cases "ti_task (m_infos s i)") auto
    then have o: "ti_owner (m_infos s i) = ONone" for i using w by (simp add: wf_map_def)
    have "i \<notin> set (m_pending s) \<and> i \<notin> set (m_executing s) \<and> i \<notin> set (m_ready s)" for i
      using m [of i] o [of i] by simp
    then show "m_pending s = [] \<and> m_executing s = [] \<and> m_ready s = []"
      by (metis list.set_intros(1) neq_Nil_conv)
  }
  assume e: "m_pending s = [] \<and> m_executing s = [] \<and> m_ready s = []"
  show "m_allTasks s = []"
  proof (rule ccontr)
    assume "m_allTasks s \<noteq> []"
    then obtain t i r where "m_allTasks s = (t, i) # r" by (metis neq_Nil_conv surj_pair)
    then have "ti_task (m_infos s i) = Some t" using lookup_task [of s t i] w by simp
    then have "ti_owner (m_infos s i) \<noteq> ONone" using w by (simp add: wf_map_def)
    with m [of i] e show False by (cases "ti_owner (m_infos s i)") auto
  qed
qed

lemma isEmptyInternal_ok: "wf_eq s \<Longrightarrow> isEmptyInternal s = Inr (aq_empty (absq s))"
  using allTasks_empty [of s] wf_eqD [of s]
  by (auto simp: isEmptyInternal_def aq_empty_def absq_def wf_counts_def)

section \<open>Single moves\<close>

lemma pending_info_lists:
  assumes "wf_eq s" "ti_owner (m_infos s i) = OPending"
  shows "remove1 i (m_executing s) = m_executing s" "remove1 i (m_ready s) = m_ready s"
  using wf_eqD [OF assms(1)] assms(2) linked_notin [of OExecuting "m_executing s" "m_infos s" i]
    linked_notin [of OReady "m_ready s" "m_infos s" i]
  by (simp_all add: wf_lists_def)

lemma prioritize_ok:
  assumes "wf_eq s" "ti_owner (m_infos s i) = OPending" "ti_task (m_infos s i) = Some t"
  shows "steps_to s (prioritizeInfo i s) ((absq s)\<lparr>aq_pending := t # remove1 t (aq_pending (absq s))\<rparr>) 0"
proof -
  let ?s = "prioritizeInfo i s"
  note w = wf_eqD [OF assms(1)] and l = pending_info_lists [OF assms(1,2)]
  have "wf_lists ?s" using w assms(2) by (intro prioritize_lists) simp_all
  then have "wf_eq ?s"
    using w l by (simp add: wf_eq_def wf_map_def wf_store_def wf_counts_def wf_task_states_def prioritizeInfo_def
        unlinkInfo_def Let_def)
  moreover have "absq ?s = (absq s)\<lparr>aq_pending := t # remove1 t (aq_pending (absq s))\<rparr>"
    using l abs_remove1(1) [OF assms(1,3)] assms(3)
    by (simp add: absq_def move_defs) (simp add: taskAt_def)
  ultimately show ?thesis by (simp add: steps_to_def) (simp add: config_def gens_def move_defs)
qed

lemma cancel_keep_ok:
  assumes "wf_eq s" "ti_owner (m_infos s i) = OPending" "ti_task (m_infos s i) = Some t"
  shows "steps_to s (moveTaskToReadyQueue i s)
     ((absq s)\<lparr>aq_pending := remove1 t (aq_pending (absq s)), aq_ready := aq_ready (absq s) @ [t]\<rparr>) 0"
proof -
  let ?s = "moveTaskToReadyQueue i s"
  note w = wf_eqD [OF assms(1)] and l = pending_info_lists [OF assms(1,2)]
  have "wf_lists ?s" using w by (intro moveReady_lists) simp
  moreover have "wf_map ?s"
    by (rule owner_map [of s i OReady]) (use w assms(3) in \<open>simp_all add: move_defs\<close>)
  moreover have "wf_store ?s"
    by (rule owner_store [of s]) (use w in \<open>simp_all add: move_defs\<close>)
  moreover have "wf_counts ?s" using w l by (simp add: wf_counts_def move_defs)
  moreover have "wf_task_states ?s"
    using w assms(2) by (auto simp: wf_task_states_def move_defs)
  moreover have "absq ?s = (absq s)\<lparr>aq_pending := remove1 t (aq_pending (absq s)), aq_ready := aq_ready (absq s) @ [t]\<rparr>"
    using l abs_remove1(1) [OF assms(1,3)] assms(3)
    by (simp add: absq_def move_defs) (simp add: taskAt_def)
  ultimately show ?thesis
    by (simp add: steps_to_def wf_eq_def) (simp add: config_def gens_def move_defs)
qed

lemma drop_pending_ok:
  assumes "wf_eq s" "ti_owner (m_infos s i) = OPending" "ti_task (m_infos s i) = Some t"
  shows "unlinkAndDestroy i s = Inr (destroyed i t s)"
    "steps_to s (destroyed i t s) ((absq s)\<lparr>aq_pending := remove1 t (aq_pending (absq s))\<rparr>) 0"
  using destroy_eq [OF assms(1,3)] destroy_pending [OF assms] destroyed_view [OF assms(1,3)]
    abs_members [OF assms(1,3)] assms(2)
  by (simp_all add: steps_to_def remove1_idem gens_def)

lemma drop_ready_ok:
  assumes "wf_eq s" "ti_owner (m_infos s i) = OReady" "ti_task (m_infos s i) = Some t"
  shows "unlinkAndDestroy i s = Inr (destroyed i t s)"
    "steps_to s ((destroyed i t s)\<lparr>m_readyCount := m_readyCount (destroyed i t s) - 1\<rparr>)
       ((absq s)\<lparr>aq_ready := remove1 t (aq_ready (absq s))\<rparr>) 0"
  using destroy_eq [OF assms(1,3)] destroy_ready [OF assms] destroyed_view [OF assms(1,3)]
    abs_members [OF assms(1,3)] assms(2)
  by (simp_all add: steps_to_def remove1_idem gens_def destroyReady_def)

lemma takeFirstReady_ok:
  assumes "wf_eq s"
  shows "aq_ready (absq s) = [] \<Longrightarrow> takeFirstReady remove s = Inr (Returned None s)"
    "aq_ready (absq s) = t # r \<Longrightarrow> \<exists>s'. takeFirstReady remove s = Inr (Returned (Some t) s')
       \<and> steps_to s s' ((absq s)\<lparr>aq_ready := (if remove then r else t # r)\<rparr>) 0"
proof -
  assume "aq_ready (absq s) = []"
  with wf_eqD [OF assms] show "takeFirstReady remove s = Inr (Returned None s)"
    by (simp add: takeFirstReady_def absq_def wf_counts_def)
next
  assume r: "aq_ready (absq s) = t # r"
  then obtain i "is" where i: "m_ready s = i # is" "taskAt (m_infos s) i = t" by (auto simp: absq_def)
  then have o: "ti_owner (m_infos s i) = OReady" using wf_members(3) [OF assms, of i] by simp
  obtain u where "ti_task (m_infos s i) = Some u" "taskOf s i = Inr u"
    by (rule list_member_task [OF assms, of i]) (use i in auto)
  with i(2) have t: "ti_task (m_infos s i) = Some t" "taskOf s i = Inr t" by (simp_all add: taskAt_def)
  show "\<exists>s'. takeFirstReady remove s = Inr (Returned (Some t) s')
       \<and> steps_to s s' ((absq s)\<lparr>aq_ready := (if remove then r else t # r)\<rparr>) 0"
  proof (cases remove)
    case True
    with i(1) t drop_ready_ok [OF assms o t(1)] r show ?thesis by (simp add: takeFirstReady_def)
  next
    case False
    with i(1) t r assms show ?thesis
      by (simp add: takeFirstReady_def steps_to_def gens_def)
  qed
qed

section \<open>Waiting\<close>

definition harmless :: "(eq_state \<Rightarrow> eq_state) list \<Rightarrow> bool" where
  "harmless others \<longleftrightarrow> (\<forall>f \<in> set others. \<forall>s. wf_eq s \<longrightarrow> wf_eq (f s))"

lemma cvWait_ok:
  assumes "\<And>s. wf_eq s \<Longrightarrow> \<exists>b s'. cb s = Inr (b, s') \<and> wf_eq s'"
  shows "wf_eq s \<Longrightarrow> harmless others \<Longrightarrow>
     \<exists>r s0 s'. cvWait cb others s = Inr r \<and> wf_eq s0 \<and> wf_eq s'
       \<and> (r = Returned () s' \<and> cb s0 = Inr (True, s') \<or> r = Waiting s' \<and> cb s0 = Inr (False, s'))"
proof (induction others arbitrary: s)
  case Nil
  obtain b s' where "cb s = Inr (b, s')" "wf_eq s'" using assms [OF Nil.prems(1)] by blast
  with Nil.prems(1) show ?case by (cases b) (auto simp: cvWait.simps [of cb "[]" s])
next
  case (Cons f fs)
  obtain b s' where s': "cb s = Inr (b, s')" "wf_eq s'" using assms [OF Cons.prems(1)] by blast
  show ?case
  proof (cases b)
    case True
    with s' Cons.prems(1) show ?thesis by (auto simp: cvWait.simps [of cb "f # fs" s])
  next
    case False
    have "wf_eq (f s')" "harmless fs" using s'(2) Cons.prems(2) by (simp_all add: harmless_def)
    from Cons.IH [OF this] False s'(1) show ?thesis by (simp add: cvWait.simps [of cb "f # fs" s])
  qed
qed

fun outcome_state :: "'a outcome \<Rightarrow> eq_state" where
  "outcome_state (Returned a s) = s" | "outcome_state (Threw e s) = s" | "outcome_state (Waiting s) = s"

section \<open>Flushing\<close>

lemma cancelExecutingTasks_ok:
  assumes "wf_eq s"
  shows "\<exists>s'. cancelExecutingTasks K s = Inr s' \<and> steps_to s s' (absq s) 0"
proof -
  have "ti_task (m_infos s i) \<noteq> None" if "i \<in> set (m_executing s)" for i
    by (rule list_member_task [OF assms, of i]) (use that in auto)
  then have "list_all (\<lambda>i. ti_task (m_infos s i) \<noteq> None) (m_executing s)" by (simp add: list_all_iff)
  moreover have "steps_to s u q 0 \<Longrightarrow>
      steps_to s (fold (\<lambda>t s. setTask t (requestCancel (K t) (m_tasks s t)) s) ts u) q 0" for ts u q
  proof (induction ts arbitrary: u)
    case (Cons t ts)
    have "wf_eq u" using Cons.prems by (simp add: steps_to_def)
    then have "steps_to s (setTask t (requestCancel (K t) (m_tasks u t)) u) q 0"
      by (intro failed_task [OF Cons.prems]) (simp_all add: wf_eq_exception)
    with Cons.IH show ?case by simp
  qed simp
  ultimately show ?thesis
    using assms by (simp add: cancelExecutingTasks_def) (simp add: steps_to_def gens_def)
qed

lemma firstFailed_ok:
  assumes "wf_eq s"
  shows "set is \<subseteq> set (m_ready s) \<Longrightarrow> \<exists>e. firstFailed s is = Inr e
     \<and> (e = None \<longleftrightarrow> (\<forall>t \<in> set (map (taskAt (m_infos s)) is). \<not> isFailed (m_tasks s t)))"
proof (induction "is")
  case (Cons i "is")
  obtain t where t: "ti_task (m_infos s i) = Some t" "taskOf s i = Inr t"
    by (rule list_member_task [OF assms, of i]) (use Cons.prems in auto)
  have ex: "isFailed (m_tasks s t) \<Longrightarrow> m_exception (m_tasks s t) \<noteq> None"
    using wf_eq_exception [OF assms, of t] by (simp add: isFailed_def)
  show ?case
  proof (cases "isFailed (m_tasks s t)")
    case True
    with t ex show ?thesis by (auto simp: taskAt_def)
  next
    case False
    with Cons t show ?thesis by (auto simp: taskAt_def)
  qed
qed simp

definition ready_failed :: "eq_state \<Rightarrow> bool" where
  "ready_failed s \<longleftrightarrow> (\<exists>t \<in> set (aq_ready (absq s)). isFailed (m_tasks s t))"

lemma flushEnd_ok:
  assumes "wf_eq s"
  shows "\<exists>r. flushEnd nothrowIfFailed discardReady s = Inr r \<and> wf_eq (outcome_state r)
     \<and> (if \<not> nothrowIfFailed \<and> ready_failed s
        then \<exists>e s'. r = Threw (TaskException e) s' \<and> absq s' = (absq s)\<lparr>aq_ready := []\<rparr>
        else \<exists>s'. r = Returned () s' \<and> absq s' = (if discardReady then (absq s)\<lparr>aq_ready := []\<rparr> else absq s))"
proof -
  obtain e where e: "firstFailed s (m_ready s) = Inr e" "e = None \<longleftrightarrow> \<not> ready_failed s"
    using firstFailed_ok [OF assms, of "m_ready s"] by (auto simp: ready_failed_def absq_def)
  obtain s1 where "clearReady s = Inr s1" "wf_eq s1" "absq s1 = (absq s)\<lparr>aq_ready := []\<rparr>"
    using clearReady_ok [OF assms] by blast
  with e assms show ?thesis
    by (cases e; cases nothrowIfFailed; cases discardReady) (simp_all add: flushEnd_def)
qed

lemma flush_ok:
  assumes "never_aborts K" "wf_eq s" "harmless others"
  shows "\<exists>r. flushInternal K others wait discardPending nothrowIfFailed discardReady cancelExecuting s = Inr r
     \<and> wf_eq (outcome_state r)
     \<and> (case r of
          Returned _ s' \<Rightarrow> (wait \<longrightarrow> \<not> hasPendingOrExecuting s') \<and> (discardReady \<longrightarrow> m_ready s' = [])
            \<and> (discardPending \<and> \<not> wait \<longrightarrow> m_pending s' = [])
        | Threw e s' \<Rightarrow> \<not> nothrowIfFailed \<and> m_ready s' = [] \<and> (\<exists>x. e = TaskException x)
        | Waiting s' \<Rightarrow> wait \<and> hasPendingOrExecuting s')"
proof -
  obtain s1 where s1: "(if \<not> discardPending then pad K s else Inr s) = Inr s1" "wf_eq s1"
  proof (cases discardPending)
    case True
    with assms(2) show thesis by (intro that [of s]) simp_all
  next
    case False
    obtain s' where "pad K s = Inr s'" "steps_to s s' (padq s (absq s)) 0" by (rule pad_ok [OF assms(1,2)]) blast
    with False show thesis by (intro that [of s']) (simp_all add: steps_to_def)
  qed
  show ?thesis
  proof (cases "aq_empty (absq s1)")
    case True
    with s1 show ?thesis
      by (simp add: flushInternal_def isEmptyInternal_ok)
        (simp add: aq_empty_def hasPendingOrExecuting_def absq_empty)
  next
    case False
    obtain s2 where s2: "(if discardPending then clearPending s1 else Inr s1) = Inr s2" "wf_eq s2"
      "discardPending \<longrightarrow> aq_pending (absq s2) = []"
      using clearPending_ok [OF s1(2)] s1(2) by (cases discardPending) auto
    obtain s3 where s3: "(if cancelExecuting then cancelExecutingTasks K s2 else Inr s2) = Inr s3" "wf_eq s3"
      "absq s3 = absq s2"
      using cancelExecutingTasks_ok [OF s2(2)] s2(2) by (cases cancelExecuting) (auto simp: steps_to_def)
    let ?w = "if wait \<and> hasPendingOrExecuting s3
       then cvWait (\<lambda>s. Inr (\<not> hasPendingOrExecuting s, s)) others s3 else Inr (Returned () s3)"
    have pre: "flushInternal K others wait discardPending nothrowIfFailed discardReady cancelExecuting s =
        bindR ?w (\<lambda>r. andThen r (\<lambda>_ s4. flushEnd nothrowIfFailed discardReady s4))"
      using s1 False s2(1) s3(1) by (simp add: flushInternal_def isEmptyInternal_ok)
    obtain r where r: "?w = Inr r"
      "(\<exists>s4. r = Returned () s4 \<and> wf_eq s4 \<and> (wait \<longrightarrow> \<not> hasPendingOrExecuting s4)
          \<and> (\<not> wait \<longrightarrow> s4 = s3))
       \<or> (\<exists>s4. r = Waiting s4 \<and> wf_eq s4 \<and> wait \<and> hasPendingOrExecuting s4)"
    proof (cases "wait \<and> hasPendingOrExecuting s3")
      case True
      have "\<exists>r s0 s'. cvWait (\<lambda>s. Inr (\<not> hasPendingOrExecuting s, s)) others s3 = Inr r \<and> wf_eq s0 \<and> wf_eq s'
         \<and> (r = Returned () s' \<and> Inr (\<not> hasPendingOrExecuting s0, s0) = (Inr (True, s') :: (bool \<times> eq_state) res)
          \<or> r = Waiting s' \<and> Inr (\<not> hasPendingOrExecuting s0, s0) = (Inr (False, s') :: (bool \<times> eq_state) res))"
        by (rule cvWait_ok [OF _ s3(2) assms(3)]) auto
      with True show thesis by (auto intro!: that)
    next
      case False
      with s3(2) show thesis by (intro that [of "Returned () s3"]) (simp_all, blast)
    qed
    from r(2) show ?thesis
    proof (elim disjE exE conjE)
      fix s4 assume s4: "r = Returned () s4" "wf_eq s4" "wait \<longrightarrow> \<not> hasPendingOrExecuting s4" "\<not> wait \<longrightarrow> s4 = s3"
      obtain x where x: "flushEnd nothrowIfFailed discardReady s4 = Inr x" "wf_eq (outcome_state x)"
        "if \<not> nothrowIfFailed \<and> ready_failed s4
         then \<exists>e s'. x = Threw (TaskException e) s' \<and> absq s' = (absq s4)\<lparr>aq_ready := []\<rparr>
         else \<exists>s'. x = Returned () s' \<and> absq s' = (if discardReady then (absq s4)\<lparr>aq_ready := []\<rparr> else absq s4)"
        using flushEnd_ok [OF s4(2)] by blast
      have "flushInternal K others wait discardPending nothrowIfFailed discardReady cancelExecuting s = Inr x"
        using pre r(1) s4(1) x(1) by (simp add: andThen_def)
      with x s4 s2(3) s3(3) show ?thesis
        by (auto simp: hasPendingOrExecuting_def absq_empty split: if_splits)
    next
      fix s4 assume s4: "r = Waiting s4" "wf_eq s4" "wait" "hasPendingOrExecuting s4"
      have "flushInternal K others wait discardPending nothrowIfFailed discardReady cancelExecuting s = Inr (Waiting s4)"
        using pre r(1) s4(1) by (simp add: andThen_def)
      with s4 show ?thesis by simp
    qed
  qed
qed

section \<open>Popping\<close>

text \<open>What holds when a pop (or top) returns: nothing was ready, or the first ready task was taken.\<close>

definition popped :: "bool \<Rightarrow> bool \<Rightarrow> nat option outcome \<Rightarrow> bool" where
  "popped wait remove r = (case r of
          Returned None s' \<Rightarrow> m_ready s' = [] \<and> (wait \<longrightarrow> aq_empty (absq s'))
        | Returned (Some t) s' \<Rightarrow> \<exists>s0. wf_eq s0 \<and> aq_ready (absq s0) \<noteq> [] \<and> t = hd (aq_ready (absq s0))
            \<and> absq s' = (absq s0)\<lparr>aq_ready := (if remove then tl (aq_ready (absq s0)) else aq_ready (absq s0))\<rparr>
        | Threw e s' \<Rightarrow> False
        | Waiting s' \<Rightarrow> wait \<and> m_ready s' = [] \<and> \<not> aq_empty (absq s'))"

lemma pop_ok:
  assumes "never_aborts K" "wf_eq s" "harmless others"
  shows "\<exists>r. getFirstReady K others wait remove s = Inr r \<and> wf_eq (outcome_state r)
     \<and> popped wait remove r"
proof -
  obtain s1 where s1: "pad K s = Inr s1" "steps_to s s1 (padq s (absq s)) 0" by (rule pad_ok [OF assms(1,2)]) blast
  then have w1: "wf_eq s1" by (simp add: steps_to_def)
  have finish: "\<exists>r. takeFirstReady remove s2 = Inr r \<and> wf_eq (outcome_state r)
     \<and> popped wait remove r"
    if s2: "wf_eq s2" "wait \<longrightarrow> aq_empty (absq s2) \<or> m_ready s2 \<noteq> []" for s2
  proof (cases "aq_ready (absq s2)")
    case Nil
    with takeFirstReady_ok(1) [OF s2(1) Nil] s2 show ?thesis by (auto simp: absq_empty popped_def)
  next
    case (Cons t ts)
    obtain s' where "takeFirstReady remove s2 = Inr (Returned (Some t) s')"
      "steps_to s2 s' ((absq s2)\<lparr>aq_ready := (if remove then ts else t # ts)\<rparr>) 0"
      using takeFirstReady_ok(2) [OF s2(1) Cons] by blast
    with Cons s2(1) show ?thesis by (auto simp: steps_to_def popped_def)
  qed
  show ?thesis
  proof (cases "wait \<and> m_ready s1 = [] \<and> \<not> aq_empty (absq s1)")
    case False
    then have "getFirstReady K others wait remove s = takeFirstReady remove s1"
      using s1(1) isEmptyInternal_ok [OF w1] by (auto simp: getFirstReady_def andThen_def)
    moreover have "wait \<longrightarrow> aq_empty (absq s1) \<or> m_ready s1 \<noteq> []" using False by blast
    ultimately show ?thesis using finish [OF w1] by simp
  next
    case True
    let ?cb = "\<lambda>s. bindR (isEmptyInternal s) (\<lambda>e. Inr (e \<or> m_ready s \<noteq> [], s))"
    have cb: "wf_eq u \<Longrightarrow> ?cb u = Inr (aq_empty (absq u) \<or> m_ready u \<noteq> [], u)" for u
      by (simp add: isEmptyInternal_ok)
    obtain r s0 s' where r: "cvWait ?cb others s1 = Inr r" "wf_eq s0" "wf_eq s'"
      "r = Returned () s' \<and> ?cb s0 = Inr (True, s') \<or> r = Waiting s' \<and> ?cb s0 = Inr (False, s')"
      using cvWait_ok [of ?cb, OF _ w1 assms(3)] cb by blast
    have "m_readyCount s1 = 0" using wf_eqD [OF w1] True by (simp add: wf_counts_def)
    with True s1(1) r(1) have eq: "getFirstReady K others wait remove s = andThen r (\<lambda>_ s2. takeFirstReady remove s2)"
      by (simp add: getFirstReady_def isEmptyInternal_ok [OF w1])
    from r(4) show ?thesis
    proof
      assume a: "r = Returned () s' \<and> ?cb s0 = Inr (True, s')"
      then have "wait \<longrightarrow> aq_empty (absq s') \<or> m_ready s' \<noteq> []" using cb [OF r(2)] by auto
      with finish [OF r(3)] a eq show ?thesis by (simp add: andThen_def)
    next
      assume a: "r = Waiting s' \<and> ?cb s0 = Inr (False, s')"
      then have "\<not> aq_empty (absq s')" "m_ready s' = []" using cb [OF r(2)] by auto
      with a eq True r(3) show ?thesis by (simp add: andThen_def popped_def)
    qed
  qed
qed

section \<open>Waiting for one task\<close>

definition aq_member :: "nat \<Rightarrow> aqueue \<Rightarrow> bool" where
  "aq_member t q \<longleftrightarrow> t \<in> set (aq_pending q) \<union> set (aq_executing q) \<union> set (aq_ready q)"

lemma lookup_member:
  assumes "wf_eq s"
  shows "map_of (m_allTasks s) t = None \<longleftrightarrow> \<not> aq_member t (absq s)"
proof (cases "map_of (m_allTasks s) t")
  case None
  have "\<not> aq_member t (absq s)"
  proof
    assume "aq_member t (absq s)"
    then obtain i where i: "i \<in> set (m_pending s) \<union> set (m_executing s) \<union> set (m_ready s)" "t = taskAt (m_infos s) i"
      by (auto simp: aq_member_def absq_def)
    obtain u where "ti_task (m_infos s i) = Some u" by (rule list_member_task [OF assms i(1)])
    with None i(2) lookup_task [of s t i] wf_eqD [OF assms] show False by (simp add: taskAt_def)
  qed
  with None show ?thesis by simp
next
  case (Some i)
  then have t: "ti_task (m_infos s i) = Some t" using lookup_task wf_eqD [OF assms] by blast
  then have "ti_owner (m_infos s i) \<noteq> ONone" using wf_eqD [OF assms] by (simp add: wf_map_def)
  then have "aq_member t (absq s)"
    using abs_members [OF assms t] by (cases "ti_owner (m_infos s i)") (simp_all add: aq_member_def)
  with Some show ?thesis by simp
qed

lemma distinct_abs:
  assumes "wf_eq s"
  shows "distinct (aq_pending (absq s))" "distinct (aq_executing (absq s))" "distinct (aq_ready (absq s))"
  using wf_eqD [OF assms] wf_members [OF assms]
  by (auto simp: absq_def wf_lists_def linked_def distinct_map intro!: inj_tasks)

lemma dropped_member:
  assumes "wf_eq s" "ti_task (m_infos s i) = Some t"
  shows "ti_owner (m_infos s i) = OReady \<Longrightarrow> \<not> aq_member t ((absq s)\<lparr>aq_ready := remove1 t (aq_ready (absq s))\<rparr>)"
    "ti_owner (m_infos s i) = OPending \<Longrightarrow> \<not> aq_member t ((absq s)\<lparr>aq_pending := remove1 t (aq_pending (absq s))\<rparr>)"
  using abs_members [OF assms] distinct_abs [OF assms(1)] by (simp_all add: aq_member_def)

lemma waitPredicate_ok:
  assumes "never_aborts K" "wf_eq s"
  shows "\<exists>b s'. waitPredicate K t s = Inr (b, s') \<and> wf_eq s'
     \<and> (b \<longleftrightarrow> \<not> aq_member t (absq s') \<or> t \<in> set (aq_ready (absq s')))"
proof -
  obtain s' where s': "pad K s = Inr s'" "steps_to s s' (padq s (absq s)) 0" by (rule pad_ok [OF assms]) blast
  then have w: "wf_eq s'" by (simp add: steps_to_def)
  show ?thesis
  proof (cases "map_of (m_allTasks s') t")
    case None
    with s'(1) w lookup_member [OF w, of t] show ?thesis
      by (intro exI [of _ True] exI [of _ s']) (simp add: waitPredicate_def getTaskInfoPtrFromTask_def)
  next
    case (Some i)
    then have "ti_task (m_infos s' i) = Some t" using lookup_task wf_eqD [OF w] by blast
    with s'(1) w Some lookup_member [OF w, of t] abs_members(3) [OF w] show ?thesis
      by (auto simp: waitPredicate_def getTaskInfoPtrFromTask_def getOwnerQueue_def)
  qed
qed

lemma waitEnd_ok:
  assumes "wf_eq s" "\<not> aq_member t (absq s) \<or> t \<in> set (aq_ready (absq s))"
  shows "\<exists>s'. waitEnd t s = Inr (Returned () s') \<and> wf_eq s' \<and> \<not> aq_member t (absq s')"
proof (cases "map_of (m_allTasks s) t")
  case None
  moreover from this have "\<not> aq_member t (absq s)" using lookup_member [OF assms(1)] by simp
  ultimately show ?thesis using assms(1) by (simp add: waitEnd_def getTaskInfoPtrFromTask_def)
next
  case (Some i)
  then have t: "ti_task (m_infos s i) = Some t" using lookup_task wf_eqD [OF assms(1)] by blast
  have o: "ti_owner (m_infos s i) = OReady"
    using assms(2) Some lookup_member [OF assms(1), of t] abs_members(3) [OF assms(1) t] by simp
  show ?thesis
    using Some o drop_ready_ok [OF assms(1) o t] dropped_member(1) [OF assms(1) t o]
    by (simp add: waitEnd_def getTaskInfoPtrFromTask_def getOwnerQueue_def steps_to_def)
qed

lemma wait_ok:
  assumes "never_aborts K" "wf_eq s" "harmless others"
  shows "\<exists>r. waitInternal K others t prio cancel s = Inr r \<and> wf_eq (outcome_state r)
     \<and> (case r of
          Returned _ s' \<Rightarrow> \<not> aq_member t (absq s')
        | Threw e s' \<Rightarrow> e = NotInQueue \<and> \<not> aq_member t (absq s') \<and> m_state (m_tasks s' t) \<noteq> Completed
        | Waiting s' \<Rightarrow> aq_member t (absq s') \<and> t \<notin> set (aq_ready (absq s')))"
proof -
  obtain s1 where s1: "pad K s = Inr s1" "steps_to s s1 (padq s (absq s)) 0" by (rule pad_ok [OF assms(1,2)]) blast
  then have w: "wf_eq s1" by (simp add: steps_to_def)
  show ?thesis
  proof (cases "map_of (m_allTasks s1) t")
    case None
    with s1(1) w lookup_member [OF w, of t] show ?thesis
      by (simp add: waitInternal_def getTaskInfoPtrFromTask_def)
  next
    case (Some i)
    then have t: "ti_task (m_infos s1 i) = Some t" using lookup_task wf_eqD [OF w] by blast
    let ?o = "ti_owner (m_infos s1 i)"
    consider (Ready) "?o = OReady" | (Cancel) "?o = OPending" "cancel"
      | (Wait) "\<not> (OReady = ?o \<or> OPending = ?o \<and> cancel)" by fastforce
    then show ?thesis
    proof cases
      case Ready
      with Some s1(1) drop_ready_ok [OF w Ready t] dropped_member(1) [OF w t Ready] show ?thesis
        by (simp add: waitInternal_def getTaskInfoPtrFromTask_def getOwnerQueue_def steps_to_def Let_def)
    next
      case Cancel
      with Some s1(1) drop_pending_ok [OF w Cancel(1) t] dropped_member(2) [OF w t Cancel(1)] show ?thesis
        by (simp add: waitInternal_def getTaskInfoPtrFromTask_def getOwnerQueue_def steps_to_def Let_def)
    next
      case Wait
      define s2 where "s2 = (if prio \<and> OPending = ?o then prioritizeInfo i s1 else s1)"
      define s3 where "s3 = (if cancel then setTask t (requestCancel (K t) (m_tasks s2 t)) s2 else s2)"
      have "wf_eq s2" using w prioritize_ok [OF w _ t] by (auto simp: s2_def steps_to_def)
      moreover have "wf_eq u \<Longrightarrow> steps_to u u (absq u) 0" for u by (simp add: steps_to_def gens_def)
      ultimately have "wf_eq s3"
        using failed_task [of s2 s2 "absq s2" 0 "requestCancel (K t) (m_tasks s2 t)" t] wf_eq_exception [of s2 t]
        by (auto simp: s3_def steps_to_def)
      from cvWait_ok [of "waitPredicate K t", OF _ this assms(3)] waitPredicate_ok [OF assms(1)]
      obtain r s0 s' where r: "cvWait (waitPredicate K t) others s3 = Inr r" "wf_eq s0" "wf_eq s'"
        "r = Returned () s' \<and> waitPredicate K t s0 = Inr (True, s')
         \<or> r = Waiting s' \<and> waitPredicate K t s0 = Inr (False, s')" by blast
      have eq: "waitInternal K others t prio cancel s = andThen r (\<lambda>_ s4. waitEnd t s4)"
        using Some s1(1) r(1)
        by (simp add: waitInternal_def getTaskInfoPtrFromTask_def getOwnerQueue_def Let_def
            s2_def [symmetric] s3_def [symmetric] if_not_P [OF Wait])
      from r(4) show ?thesis
      proof
        assume a: "r = Returned () s' \<and> waitPredicate K t s0 = Inr (True, s')"
        with waitPredicate_ok [OF assms(1) r(2), of t] have "\<not> aq_member t (absq s') \<or> t \<in> set (aq_ready (absq s'))"
          by auto
        from waitEnd_ok [OF r(3) this] a eq show ?thesis by (auto simp: andThen_def)
      next
        assume a: "r = Waiting s' \<and> waitPredicate K t s0 = Inr (False, s')"
        with waitPredicate_ok [OF assms(1) r(2), of t] have "aq_member t (absq s')" "t \<notin> set (aq_ready (absq s'))"
          by auto
        with a eq r(3) show ?thesis by (simp add: andThen_def)
      qed
    qed
  qed
qed

section \<open>Cancelling without waiting\<close>

lemma cancel_ok:
  assumes "wf_eq s"
  shows "\<exists>s'. cancel_task K others t False s = Inr (Returned (t \<in> set (aq_pending (absq s))) s')
     \<and> steps_to s s' (if t \<in> set (aq_pending (absq s))
          then (absq s)\<lparr>aq_pending := remove1 t (aq_pending (absq s)),
             aq_ready := (if m_options s AND OptionKeepCanceled \<noteq> 0 then aq_ready (absq s) @ [t] else aq_ready (absq s))\<rparr>
          else absq s) 0"
proof (cases "map_of (m_allTasks s) t")
  case None
  with assms lookup_member [OF assms, of t] show ?thesis
    by (simp add: cancel_task_def getTaskInfoPtrFromTask_def aq_member_def steps_to_def gens_def)
next
  case (Some i)
  then have t: "ti_task (m_infos s i) = Some t" using lookup_task wf_eqD [OF assms] by blast
  show ?thesis
  proof (cases "ti_owner (m_infos s i) = OPending")
    case True
    with Some cancel_keep_ok [OF assms True t] drop_pending_ok [OF assms True t] abs_members(1) [OF assms t]
    show ?thesis by (simp add: cancel_task_def getTaskInfoPtrFromTask_def getOwnerQueue_def)
  next
    case False
    with Some abs_members(1) [OF assms t] assms show ?thesis
      by (simp add: cancel_task_def getTaskInfoPtrFromTask_def getOwnerQueue_def steps_to_def gens_def)
  qed
qed

lemma prioritize_op_ok:
  assumes "wf_eq s" "aq_member t (absq s)"
  shows "\<exists>s'. prioritize t True lockFree s = Returned (t \<in> set (aq_pending (absq s))) s'
     \<and> steps_to s s' (if t \<in> set (aq_pending (absq s))
          then (absq s)\<lparr>aq_pending := t # remove1 t (aq_pending (absq s))\<rparr> else absq s) 0"
proof -
  obtain i where i: "map_of (m_allTasks s) t = Some i"
    using lookup_member [OF assms(1), of t] assms(2) by (cases "map_of (m_allTasks s) t") auto
  then have t: "ti_task (m_infos s i) = Some t" using lookup_task wf_eqD [OF assms(1)] by blast
  show ?thesis
    using i prioritize_ok [OF assms(1) _ t] abs_members(1) [OF assms(1) t] assms(1)
    by (auto simp: prioritize_def getTaskInfoPtrFromTask_def getOwnerQueue_def steps_to_def gens_def)
qed

end
