(* ===== verification/EqSystem.thy ===== *)
theory EqSystem
  imports EqBlocking
begin

text \<open>
  The execution queue as a concurrent system: a step is one critical section of one thread.  The
  threads between the two sections of \<open>onReady\<close> are a list of candidate generations, the
  observer callbacks in progress a list of deliveries; blocked operations re-enter through the
  wake-up rules.
\<close>

section \<open>The system\<close>

record sys =
  sq :: eq_state
  s_inflight :: "64 word list"
  s_published :: "64 word list"
  s_delivering :: "(nat \<times> notification) list"

definition init_sys :: "32 word \<Rightarrow> 64 word \<Rightarrow> (nat \<Rightarrow> task_base) \<Rightarrow> sys" where
  "init_sys options maxExecuting tasks = \<lparr>sq = new_queue options maxExecuting tasks,
     s_inflight = [], s_published = [], s_delivering = []\<rparr>"

definition idle :: "eq_state \<Rightarrow> bool" where
  "idle s \<longleftrightarrow> \<not> hasPendingOrExecuting s"

text \<open>
  The rules guarded by \<open>rm\<close> are those that take a pending task out of the queue without running
  it; with \<open>rm\<close> false, pending tasks leave by completing only.
\<close>

inductive sys_step :: "(nat \<Rightarrow> task_class) \<Rightarrow> bool \<Rightarrow> sys \<Rightarrow> sys \<Rightarrow> bool" for K rm where
  Push: "admissible (sq x) t \<Longrightarrow> pushInternal K isBack t dontSchedule (sq x) = Inr s \<Longrightarrow>
    sys_step K rm x (x\<lparr>sq := s\<rparr>)"
| Complete: "completing K t (sq x) \<Longrightarrow> onReady K t (sq x) = Inr (n, g, s) \<Longrightarrow>
    sys_step K rm x (x\<lparr>sq := s, s_inflight := (case g of None \<Rightarrow> s_inflight x | Some c \<Rightarrow> s_inflight x @ [c])\<rparr>)"
| Publish: "g \<in> set (s_inflight x) \<Longrightarrow> publishCandidate g (sq x) = (n, s) \<Longrightarrow>
    sys_step K rm x (x\<lparr>sq := s, s_inflight := remove1 g (s_inflight x),
      s_published := (if m_lastPublishedGeneration s \<noteq> m_lastPublishedGeneration (sq x)
                      then s_published x @ [m_lastPublishedGeneration s] else s_published x)\<rparr>)"
| Deliver: "notifyBegin tid n (sq x) = Inr (Some s) \<Longrightarrow>
    sys_step K rm x (x\<lparr>sq := s, s_delivering := (tid, n) # s_delivering x\<rparr>)"
| Delivered: "(tid, n) \<in> set (s_delivering x) \<Longrightarrow>
    sys_step K rm x (x\<lparr>sq := notifyEnd n (sq x), s_delivering := remove1 (tid, n) (s_delivering x)\<rparr>)"
| Flush: "flushInternal K [] wait discardPending nothrowIfFailed discardReady cancelExecuting (sq x) = Inr r \<Longrightarrow>
    discardPending \<longrightarrow> rm \<Longrightarrow> sys_step K rm x (x\<lparr>sq := outcome_state r\<rparr>)"
| FlushWake: "\<not> hasPendingOrExecuting (sq x) \<Longrightarrow> flushEnd nothrowIfFailed discardReady (sq x) = Inr r \<Longrightarrow>
    sys_step K rm x (x\<lparr>sq := outcome_state r\<rparr>)"
| Dispose: "rm \<Longrightarrow> dispose K [] (sq x) = Inr r \<Longrightarrow> sys_step K rm x (x\<lparr>sq := outcome_state r\<rparr>)"
| DisposeWake: "aq_empty (absq (sq x)) \<Longrightarrow> sys_step K rm x (x\<lparr>sq := (sq x)\<lparr>m_observerThis := False\<rparr>\<rparr>)"
| Pop: "getFirstReady K [] wait remove (sq x) = Inr r \<Longrightarrow> sys_step K rm x (x\<lparr>sq := outcome_state r\<rparr>)"
| PopWake: "takeFirstReady remove (sq x) = Inr r \<Longrightarrow> sys_step K rm x (x\<lparr>sq := outcome_state r\<rparr>)"
| Wait: "waitInternal K [] t prio cancel (sq x) = Inr r \<Longrightarrow> cancel \<longrightarrow> rm \<Longrightarrow>
    sys_step K rm x (x\<lparr>sq := outcome_state r\<rparr>)"
| WaitWake: "waitPredicate K t (sq x) = Inr (b, s) \<Longrightarrow> sys_step K rm x (x\<lparr>sq := s\<rparr>)"
| WaitEnd: "\<not> aq_member t (absq (sq x)) \<or> t \<in> set (aq_ready (absq (sq x))) \<Longrightarrow>
    waitEnd t (sq x) = Inr r \<Longrightarrow> sys_step K rm x (x\<lparr>sq := outcome_state r\<rparr>)"
| Cancel: "rm \<Longrightarrow> cancel_task K [] t False (sq x) = Inr r \<Longrightarrow> sys_step K rm x (x\<lparr>sq := outcome_state r\<rparr>)"
| Prioritize: "aq_member t (absq (sq x)) \<Longrightarrow> prioritize t True True (sq x) = r \<Longrightarrow>
    sys_step K rm x (x\<lparr>sq := outcome_state r\<rparr>)"
| Throttle: "setThrottleLimit K limit (sq x) = Inr s \<Longrightarrow> sys_step K rm x (x\<lparr>sq := s\<rparr>)"
| Observe: "setNotifyCallback K ob delivery events (sq x) = Inr s \<Longrightarrow> sys_step K rm x (x\<lparr>sq := s\<rparr>)"
| Options: "sys_step K rm x (x\<lparr>sq := setOptions options (sq x)\<rparr>)"
| ThreadPool: "sys_step K rm x (x\<lparr>sq := setLocalThreadPool p (sq x)\<rparr>)"
| Disconnect: "m_notifyCB (sq x) = Some ob \<Longrightarrow>
    sys_step K rm x (x\<lparr>sq := (sq x)\<lparr>m_notifyCB := Some (ob\<lparr>ob_connected := False\<rparr>)\<rparr>\<rparr>)"
| TaskNotify: "m_state (m_tasks (sq x) t) = Running \<Longrightarrow>
    notifyReadyImpl (K t) allow e (m_tasks (sq x) t) = Inr (b, called) \<Longrightarrow>
    sys_step K rm x (x\<lparr>sq := setTask t b (sq x)\<rparr>)"
| TaskCancel: "sys_step K rm x (x\<lparr>sq := setTask t (requestCancel (K t) (m_tasks (sq x) t)) (sq x)\<rparr>)"

inductive reach :: "(nat \<Rightarrow> task_class) \<Rightarrow> bool \<Rightarrow> nat \<Rightarrow> sys \<Rightarrow> bool" for K rm where
  Init: "\<forall>t. m_hasException (tasks t) \<longleftrightarrow> m_exception (tasks t) \<noteq> None \<Longrightarrow>
    reach K rm 0 (init_sys options maxExecuting tasks)"
| Step: "reach K rm n x \<Longrightarrow> sys_step K rm x y \<Longrightarrow> reach K rm (Suc n) y"

section \<open>What one step does to the queue\<close>

text \<open>
  The effect of a step other than publishing on the generations: unchanged, or the active one
  advanced by at most one with the queue not idle, or a candidate formed at the active generation.
\<close>

definition quiet :: "bool \<Rightarrow> eq_state \<Rightarrow> eq_state \<Rightarrow> bool" where
  "quiet rm s s' \<longleftrightarrow> wf_eq s' \<and> gens s' = gens s \<and> (\<not> rm \<longrightarrow> idle s' = idle s)
     \<and> m_lockNotify s' = m_lockNotify s \<and> m_notifyOwner s' = m_notifyOwner s"

lemma idle_abs: "idle s \<longleftrightarrow> aq_pending (absq s) = [] \<and> aq_executing (absq s) = []"
  by (simp add: idle_def hasPendingOrExecuting_def absq_def)

lemma quietI:
  assumes "steps_to s s' q 0" "\<not> rm \<Longrightarrow> aq_pending q = [] \<and> aq_executing q = [] \<longleftrightarrow> idle s"
  shows "quiet rm s s'"
  using assms by (auto simp: quiet_def steps_to_def gens_def config_def idle_abs)

lemma quiet_refl: "wf_eq s \<Longrightarrow> quiet rm s s"
  by (simp add: quiet_def)

lemma quiet_trans: "quiet rm s s1 \<Longrightarrow> quiet rm s1 s2 \<Longrightarrow> quiet rm s s2"
  by (simp add: quiet_def)

lemma quiet_pad:
  assumes "wf_eq s" "pad K s = Inr s'"
  shows "quiet rm s s'"
proof (rule quietI)
  show "steps_to s s' (padq s (absq s)) 0"
    using pad_view [OF assms(2,1)] pad_wf [OF assms(2,1)] by (simp add: steps_to_def gens_def)
qed (simp add: padq_lists idle_abs)

lemma quiet_frame:
  assumes "wf_eq s" "wf_eq s'" "gens s' = gens s" "absq s' = absq s"
    "m_lockNotify s' = m_lockNotify s" "m_notifyOwner s' = m_notifyOwner s"
  shows "quiet rm s s'"
  using assms by (simp add: quiet_def idle_abs)

lemma quiet_task:
  assumes "wf_eq s" "m_hasException b \<longleftrightarrow> m_exception b \<noteq> None"
    "m_state b = m_state (m_tasks s t) \<or> m_state (m_tasks s t) = Running \<and> m_state b = PendingCompletion"
  shows "quiet rm s (setTask t b s)"
proof (rule quiet_frame [OF assms(1)])
  have st: "(ti_owner (m_infos s i) = OExecuting \<longrightarrow> m_state (m_tasks s u) \<in> {Running, PendingCompletion})
      \<and> (ti_owner (m_infos s i) \<noteq> OExecuting \<longrightarrow> m_state (m_tasks s u) \<noteq> Running)"
    if "ti_task (m_infos s i) = Some u" for i u
    using wf_eqD [OF assms(1)] that unfolding wf_task_states_def by blast
  have "wf_task_states (setTask t b s)"
    unfolding wf_task_states_def
  proof (intro conjI allI impI)
    fix i u assume i: "ti_task (m_infos (setTask t b s) i) = Some u"
    then have "ti_task (m_infos s i) = Some u" by (simp add: setTask_def)
    from st [OF this] assms(3)
    show "ti_owner (m_infos (setTask t b s) i) = OExecuting \<Longrightarrow>
        m_state (m_tasks (setTask t b s) u) \<in> {Running, PendingCompletion}"
      "ti_owner (m_infos (setTask t b s) i) \<noteq> OExecuting \<Longrightarrow> m_state (m_tasks (setTask t b s) u) \<noteq> Running"
      by (cases "u = t"; auto simp: setTask_def)+
  qed (use assms(2) wf_eq_exception [OF assms(1)] in \<open>simp add: setTask_def\<close>)
  with wf_eqD [OF assms(1)] show "wf_eq (setTask t b s)"
    by (simp add: wf_eq_def wf_lists_def wf_map_def wf_store_def wf_counts_def setTask_def)
qed (simp_all add: setTask_def gens_def absq_def)

lemma quiet_setting:
  assumes "wf_eq s" "pad K s1 = Inr s'"
    and s1: "m_pending s1 = m_pending s" "m_executing s1 = m_executing s" "m_ready s1 = m_ready s"
    "m_infos s1 = m_infos s" "m_allTasks s1 = m_allTasks s" "m_taskInfoPool s1 = m_taskInfoPool s"
    "m_nextInfo s1 = m_nextInfo s" "m_executingCount s1 = m_executingCount s" "m_readyCount s1 = m_readyCount s"
    "m_tasks s1 = m_tasks s" "gens s1 = gens s"
    "m_lockNotify s1 = m_lockNotify s" "m_notifyOwner s1 = m_notifyOwner s"
  shows "quiet rm s s'"
proof -
  have w: "wf_eq s1" by (rule wf_eq_frame [OF assms(1)]) (fact s1)+
  moreover have "quiet rm s s1"
    using assms(1) w s1 by (intro quiet_frame) (simp_all add: absq_def)
  ultimately show ?thesis using quiet_pad [OF w assms(2)] quiet_trans by blast
qed

lemma quiet_clearReady:
  assumes "wf_eq s" "clearReady s = Inr s'"
  shows "quiet rm s s'"
proof (rule quietI)
  show "steps_to s s' ((absq s)\<lparr>aq_ready := []\<rparr>) 0"
    using clearReady_ok [OF assms(1)] assms(2) by (auto simp: steps_to_def gens_def)
qed (simp add: idle_abs)

lemma quiet_flushEnd:
  assumes "wf_eq s" "flushEnd nt dr s = Inr r"
  shows "quiet rm s (outcome_state r)"
proof -
  obtain e where e: "firstFailed s (m_ready s) = Inr e" using firstFailed_ok [OF assms(1), of "m_ready s"] by blast
  then have "(\<exists>s1. clearReady s = Inr s1 \<and> outcome_state r = s1) \<or> outcome_state r = s"
    using assms(2) by (cases e; cases nt; cases dr) (auto simp: flushEnd_def bindR_eq_Inr)
  with quiet_clearReady [OF assms(1)] quiet_refl [OF assms(1)] show ?thesis by auto
qed

lemma quiet_flush:
  assumes "never_aborts K" "wf_eq s" "flushInternal K [] wait dp nt dr ce s = Inr r" "dp \<longrightarrow> rm"
  shows "quiet rm s (outcome_state r)"
proof -
  from assms(3) obtain s1 e where s1: "(if \<not> dp then pad K s else Inr s) = Inr s1" "isEmptyInternal s1 = Inr e"
    by (auto simp: flushInternal_def bindR_eq_Inr)
  have q1: "quiet rm s s1" "wf_eq s1"
    using s1(1) assms(2) quiet_pad pad_wf quiet_refl by (auto split: if_splits)
  show ?thesis
  proof (cases e)
    case True
    with assms(3) s1 q1 show ?thesis by (auto simp: flushInternal_def)
  next
    case False
    with assms(3) s1 obtain s2 s3 where s2: "(if dp then clearPending s1 else Inr s1) = Inr s2"
      and s3: "(if ce then cancelExecutingTasks K s2 else Inr s2) = Inr s3"
      and r: "bindR (if wait \<and> hasPendingOrExecuting s3
              then cvWait (\<lambda>s. Inr (\<not> hasPendingOrExecuting s, s)) [] s3 else Inr (Returned () s3))
            (\<lambda>r. andThen r (\<lambda>_ s4. flushEnd nt dr s4)) = Inr r"
      by (auto simp: flushInternal_def bindR_eq_Inr [of "if dp then _ else _"] bindR_eq_Inr [of "if ce then _ else _"])
    have q2: "quiet rm s1 s2"
    proof (cases dp)
      case True
      with clearPending_ok [OF q1(2)] s2 assms(4) show ?thesis by (auto simp: quiet_def config_def)
    next
      case False
      with s2 q1(2) show ?thesis by (simp add: quiet_refl)
    qed
    then have w2: "wf_eq s2" by (simp add: quiet_def)
    have q3: "quiet rm s2 s3"
    proof (cases ce)
      case True
      with s3 cancelExecutingTasks_ok [OF w2, of K] have "steps_to s2 s3 (absq s2) 0" by auto
      then show ?thesis by (rule quietI) (simp add: idle_abs)
    next
      case False
      with s3 w2 show ?thesis by (simp add: quiet_refl)
    qed
    then have w3: "wf_eq s3" by (simp add: quiet_def)
    have "quiet rm s3 (outcome_state r)"
      using r quiet_flushEnd [OF w3] quiet_refl [OF w3]
      by (cases "wait \<and> hasPendingOrExecuting s3") (auto simp: cvWait.simps andThen_def split: if_splits)
    with q1 q2 q3 show ?thesis using quiet_trans by blast
  qed
qed

lemma quiet_take:
  assumes "wf_eq s" "takeFirstReady remove s = Inr r"
  shows "quiet rm s (outcome_state r)"
proof (cases "aq_ready (absq s)")
  case Nil
  with takeFirstReady_ok(1) [OF assms(1) Nil] assms quiet_refl show ?thesis by auto
next
  case (Cons t ts)
  with takeFirstReady_ok(2) [OF assms(1) Cons, of remove] assms(2) have
    "steps_to s (outcome_state r) ((absq s)\<lparr>aq_ready := (if remove then ts else t # ts)\<rparr>) 0" by auto
  then show ?thesis by (rule quietI) (simp add: idle_abs)
qed

lemma quiet_pop:
  assumes "wf_eq s" "getFirstReady K [] wait remove s = Inr r"
  shows "quiet rm s (outcome_state r)"
proof -
  from assms(2) obtain s1 e where s1: "pad K s = Inr s1"
    and r: "bindR (if \<not> e then bindR (chkR (0 = m_readyCount s1) AssertFailed)
                  (\<lambda>_. cvWait (\<lambda>s. bindR (isEmptyInternal s) (\<lambda>e. Inr (e \<or> m_ready s \<noteq> [], s))) [] s1)
              else Inr (Returned () s1)) (\<lambda>r. andThen r (\<lambda>_ s2. takeFirstReady remove s2)) = Inr r"
    by (auto simp: getFirstReady_def bindR_eq_Inr [of "pad K s"]
        bindR_eq_Inr [of "if wait \<and> m_ready _ = [] then _ else _"])
  have w1: "wf_eq s1" using pad_wf [OF s1 assms(1)] .
  have "quiet rm s1 (outcome_state r)"
    using r quiet_take [OF w1] quiet_refl [OF w1] isEmptyInternal_ok [OF w1]
    by (auto simp: cvWait.simps andThen_def bindR_eq_Inr split: if_splits)
  with quiet_pad [OF assms(1) s1] quiet_trans show ?thesis by blast
qed

lemma quiet_drop_ready:
  assumes "wf_eq s" "ti_owner (m_infos s i) = OReady" "unlinkAndDestroy i s = Inr s1"
  shows "quiet rm s (s1\<lparr>m_readyCount := m_readyCount s1 - 1\<rparr>)"
proof -
  obtain t where t: "ti_task (m_infos s i) = Some t" using owned_task [of s i] wf_eqD [OF assms(1)] assms(2) by auto
  with drop_ready_ok [OF assms(1,2) t] assms(3)
  have "steps_to s (s1\<lparr>m_readyCount := m_readyCount s1 - 1\<rparr>) ((absq s)\<lparr>aq_ready := remove1 t (aq_ready (absq s))\<rparr>) 0"
    by simp
  then show ?thesis by (rule quietI) (simp add: idle_abs)
qed

lemma quiet_waitEnd:
  assumes "wf_eq s" "waitEnd t s = Inr r"
  shows "quiet rm s (outcome_state r)"
proof (cases "map_of (m_allTasks s) t")
  case None
  with assms quiet_refl show ?thesis by (auto simp: waitEnd_def getTaskInfoPtrFromTask_def)
next
  case (Some i)
  with assms(2) obtain s1 where "ti_owner (m_infos s i) = OReady" "unlinkAndDestroy i s = Inr s1"
    "outcome_state r = s1\<lparr>m_readyCount := m_readyCount s1 - 1\<rparr>"
    by (auto simp: waitEnd_def getTaskInfoPtrFromTask_def getOwnerQueue_def bindR_eq_Inr)
  with quiet_drop_ready [OF assms(1)] show ?thesis by simp
qed

lemma quiet_wait:
  assumes "wf_eq s" "waitInternal K [] t prio cancel s = Inr r" "cancel \<longrightarrow> rm"
  shows "quiet rm s (outcome_state r)"
proof -
  from assms(2) obtain s1 where s1: "pad K s = Inr s1" by (auto simp: waitInternal_def bindR_eq_Inr)
  have w1: "wf_eq s1" using pad_wf [OF s1 assms(1)] .
  have "quiet rm s1 (outcome_state r)"
  proof (cases "map_of (m_allTasks s1) t")
    case None
    with assms(2) s1 w1 quiet_refl show ?thesis
      by (auto simp: waitInternal_def getTaskInfoPtrFromTask_def split: if_splits)
  next
    case (Some i)
    then have t: "ti_task (m_infos s1 i) = Some t" using lookup_task wf_eqD [OF w1] by blast
    let ?o = "ti_owner (m_infos s1 i)"
    consider (Ready) "?o = OReady" | (Cancel) "?o = OPending" "cancel"
      | (Wait) "\<not> (OReady = ?o \<or> OPending = ?o \<and> cancel)" by fastforce
    then show ?thesis
    proof cases
      case Ready
      with assms(2) s1 Some obtain s2 where "unlinkAndDestroy i s1 = Inr s2"
        "outcome_state r = s2\<lparr>m_readyCount := m_readyCount s2 - 1\<rparr>"
        by (auto simp: waitInternal_def getTaskInfoPtrFromTask_def getOwnerQueue_def Let_def bindR_eq_Inr)
      with quiet_drop_ready [OF w1 Ready] show ?thesis by simp
    next
      case Cancel
      with assms(2) s1 Some drop_pending_ok [OF w1 Cancel(1) t]
      have "steps_to s1 (outcome_state r) ((absq s1)\<lparr>aq_pending := remove1 t (aq_pending (absq s1))\<rparr>) 0"
        by (auto simp: waitInternal_def getTaskInfoPtrFromTask_def getOwnerQueue_def Let_def)
      then show ?thesis by (rule quietI) (use Cancel assms(3) in auto)
    next
      case Wait
      define s2 where "s2 = (if prio \<and> OPending = ?o then prioritizeInfo i s1 else s1)"
      define s3 where "s3 = (if cancel then setTask t (requestCancel (K t) (m_tasks s2 t)) s2 else s2)"
      have q2: "quiet rm s1 s2"
      proof (cases "prio \<and> OPending = ?o")
        case True
        then have m: "t \<in> set (aq_pending (absq s1))" using abs_members(1) [OF w1 t] by simp
        from True prioritize_ok [OF w1 _ t] have
          "steps_to s1 s2 ((absq s1)\<lparr>aq_pending := t # remove1 t (aq_pending (absq s1))\<rparr>) 0"
          by (simp add: s2_def)
        then show ?thesis by (rule quietI) (use m in \<open>auto simp: idle_abs\<close>)
      next
        case False
        then show ?thesis using quiet_refl [OF w1] by (auto simp: s2_def)
      qed
      then have w2: "wf_eq s2" by (simp add: quiet_def)
      have q3: "quiet rm s2 s3"
        using quiet_task [OF w2, of "requestCancel (K t) (m_tasks s2 t)" t] quiet_refl [OF w2]
          wf_eq_exception [OF w2] by (simp add: s3_def)
      then have w3: "wf_eq s3" by (simp add: quiet_def)
      have eq: "waitInternal K [] t prio cancel s =
          bindR (cvWait (waitPredicate K t) [] s3) (\<lambda>r. andThen r (\<lambda>_ s4. waitEnd t s4))"
        using Some s1
        by (simp add: waitInternal_def getTaskInfoPtrFromTask_def getOwnerQueue_def Let_def
            s2_def [symmetric] s3_def [symmetric] if_not_P [OF Wait])
      obtain p where "waitPredicate K t s3 = Inr p"
        using eq assms(2) by (cases "waitPredicate K t s3") (simp_all add: cvWait.simps [of _ "[]"])
      then obtain b s4 where s4: "waitPredicate K t s3 = Inr (b, s4)" by (cases p) simp
      then have pad: "pad K s3 = Inr s4" by (auto simp: waitPredicate_def bindR_eq_Inr)
      have q4: "quiet rm s3 s4" using quiet_pad [OF w3 pad] .
      then have w4: "wf_eq s4" by (simp add: quiet_def)
      have "quiet rm s4 (outcome_state r)"
        using eq [symmetric, unfolded assms(2)] s4 quiet_waitEnd [OF w4, of t r] quiet_refl [OF w4]
        by (cases b) (auto simp: cvWait.simps [of _ "[]"] andThen_def)
      with q2 q3 q4 quiet_trans show ?thesis by blast
    qed
  qed
  with quiet_pad [OF assms(1) s1] quiet_trans show ?thesis by blast
qed

section \<open>The kinds of steps\<close>

text \<open>Admitting work (B), forming a candidate (C), publishing (D), delivering (E); all other steps are quiet (A).\<close>

lemma push_step:
  assumes "never_aborts K" "wf_eq s" "admissible s t" "pushInternal K isBack t dontSchedule s = Inr s'"
  shows "if dontSchedule then quiet rm s s'
    else wf_eq s' \<and> gens s' = (m_activeWorkGeneration s + 1, m_lastPublishedGeneration s, m_lastCandidateGeneration s)
      \<and> \<not> idle s' \<and> m_lockNotify s' = m_lockNotify s \<and> m_notifyOwner s' = m_notifyOwner s"
proof -
  have p: "pushInternalNoLock K isBack t dontSchedule s = Inr s'"
    using assms(4) by (auto simp: pushInternal_def bindR_eq_Inr)
  from assms(1-3) show ?thesis
  proof (cases rule: push_ok [of K s t isBack dontSchedule])
    case (Pushed s1)
    with p have st: "steps_to s s' (padq s (aq_push isBack t dontSchedule (absq s))) (if dontSchedule then 0 else 1)"
      by simp
    show ?thesis
    proof (cases dontSchedule)
      case True
      with st have "steps_to s s' (padq s (aq_push isBack t True (absq s))) 0" by simp
      then have "quiet rm s s'" by (rule quietI) (simp add: padq_lists idle_abs aq_push_def)
      with True show ?thesis by simp
    next
      case False
      have "aq_pending (aq_push isBack t False (absq s)) \<noteq> []"
        by (auto simp: aq_push_def insertAt_def)
      with st False show ?thesis
        by (auto simp: steps_to_def idle_abs padq_lists config_def)
    qed
  next
    case Full
    with p show ?thesis by simp
  qed
qed

lemma complete_step:
  assumes "never_aborts K" "wf_eq s" "completing K t s" "onReady K t s = Inr (n, g, s')"
  shows "case g of
      None \<Rightarrow> quiet rm s s' \<or> wf_eq s' \<and> \<not> idle s' \<and> m_lockNotify s' = m_lockNotify s \<and> m_notifyOwner s' = m_notifyOwner s
        \<and> gens s' = (m_activeWorkGeneration s + 1, m_lastPublishedGeneration s, m_lastCandidateGeneration s)
    | Some c \<Rightarrow> wf_eq s' \<and> idle s' \<and> \<not> idle s \<and> m_lockNotify s' = m_lockNotify s \<and> m_notifyOwner s' = m_notifyOwner s
        \<and> gens s' = (c, m_lastPublishedGeneration s, c)
        \<and> (c = m_activeWorkGeneration s \<or> c = m_activeWorkGeneration s + 1)"
proof -
  have busy: "\<not> idle s" using assms(3) by (auto simp: completing_def idle_abs)
  show ?thesis
  proof (cases "continuationTask t (m_tasks s t) = ContTask t")
    case True
    obtain u where u: "onReady K t s = Inr (None, None, u)" "steps_to s u (padq s (aq_restart t (absq s))) 1"
      by (rule onReady_self [OF assms(1-3) True])
    have "\<not> idle u" using u(2) by (simp add: steps_to_def idle_abs padq_lists) (simp add: aq_restart_def)
    with u assms(4) show ?thesis by (auto simp: steps_to_def config_def)
  next
    case False
    from onReady_other [OF assms(1-3) False] assms(4) busy show ?thesis
      by (rule_tac onReady_other [OF assms(1-3) False])
        (auto simp: quiet_def idle_abs config_def gens_def split: if_splits)
  qed
qed

end
