(* ===== verification/EqEvents.thy ===== *)
theory EqEvents
  imports EqSystem
begin

text \<open>
  Invariants of the reachable states of the execution queue system: the structural invariant, the
  order of the generations and the delivery of \<open>AllTasksCompleted\<close>, and the exclusion of
  serialized deliveries.
\<close>

section \<open>Classification of the steps\<close>

lemma dispose_cases:
  assumes "dispose K others s = Inr r"
  obtains q where "flushInternal K others True True True True True s = Inr q"
    "(\<exists>s1. q = Returned () s1 \<and> outcome_state r = s1\<lparr>m_observerThis := False\<rparr>) \<or> outcome_state r = outcome_state q"
proof (cases "flushInternal K others True True True True True s")
  case (Inl e)
  with assms show thesis by (simp add: dispose_def noexceptR_def)
next
  case (Inr q)
  show thesis
  proof (cases q)
    case (Returned u s1)
    with assms Inr have "outcome_state r = s1\<lparr>m_observerThis := False\<rparr>"
      by (auto simp: dispose_def noexceptR_def andThen_def bindR_eq_Inr [of "isEmptyInternal _"] bindR_eq_Inr [of "chkR _ _"])
    with Inr Returned show thesis by (intro that [of q]) simp_all
  next
    case (Threw e s1)
    with assms Inr show thesis by (simp add: dispose_def noexceptR_def)
  next
    case (Waiting s1)
    with assms Inr show thesis by (intro that [of q]) (auto simp: dispose_def noexceptR_def andThen_def)
  qed
qed

lemma publish_new:
  assumes "publishCandidate g s = (n, s')"
  shows "m_lastPublishedGeneration s' = (if idle s \<and> m_lastCandidateGeneration s = g \<and> m_lastPublishedGeneration s < g
     then g else m_lastPublishedGeneration s)"
  using assms by (auto simp: publishCandidate_def idle_def hasPendingOrExecuting_def Let_def split: if_splits)

lemma step_kinds:
  assumes "never_aborts K" "wf_eq (sq x)" "sys_step K rm x y"
  obtains (Quiet) "quiet rm (sq x) (sq y)" "s_inflight y = s_inflight x" "s_published y = s_published x"
      "s_delivering y = s_delivering x"
  | (Admit) "wf_eq (sq y)" "\<not> idle (sq y)"
      "gens (sq y) = (m_activeWorkGeneration (sq x) + 1, m_lastPublishedGeneration (sq x), m_lastCandidateGeneration (sq x))"
      "m_lockNotify (sq y) = m_lockNotify (sq x)" "m_notifyOwner (sq y) = m_notifyOwner (sq x)"
      "s_inflight y = s_inflight x" "s_published y = s_published x" "s_delivering y = s_delivering x"
  | (Form) c where "wf_eq (sq y)" "idle (sq y)" "gens (sq y) = (c, m_lastPublishedGeneration (sq x), c)"
      "c = m_activeWorkGeneration (sq x) \<or> c = m_activeWorkGeneration (sq x) + 1"
      "m_lockNotify (sq y) = m_lockNotify (sq x)" "m_notifyOwner (sq y) = m_notifyOwner (sq x)"
      "s_inflight y = s_inflight x @ [c]" "s_published y = s_published x" "s_delivering y = s_delivering x"
  | (Pub) g n where "g \<in> set (s_inflight x)" "publishCandidate g (sq x) = (n, sq y)"
      "s_inflight y = remove1 g (s_inflight x)"
      "s_published y = (if m_lastPublishedGeneration (sq y) \<noteq> m_lastPublishedGeneration (sq x)
         then s_published x @ [m_lastPublishedGeneration (sq y)] else s_published x)"
      "s_delivering y = s_delivering x"
  | (Begin) tid n where "notifyBegin tid n (sq x) = Inr (Some (sq y))" "s_delivering y = (tid, n) # s_delivering x"
      "s_inflight y = s_inflight x" "s_published y = s_published x"
  | (End) tid n where "(tid, n) \<in> set (s_delivering x)" "sq y = notifyEnd n (sq x)"
      "s_delivering y = remove1 (tid, n) (s_delivering x)"
      "s_inflight y = s_inflight x" "s_published y = s_published x"
  using assms(3)
proof (cases rule: sys_step.cases)
  case (Push t isBack d s)
  with push_step [OF assms(1,2) Push(2,3)] show thesis
    by (cases d) (auto intro: Quiet Admit)
next
  case (Complete t n g s)
  note c = complete_step [OF assms(1,2) Complete(2,3), of rm]
  show thesis
  proof (cases g)
    case None
    with c Complete(1) show thesis by (auto intro: Quiet Admit)
  next
    case (Some cand)
    with c Complete(1) show thesis by (intro Form [of cand]) auto
  qed
next
  case (Publish g n s)
  then show thesis by (intro Pub [of g n]) auto
next
  case (Deliver tid n s)
  then show thesis by (intro Begin [of tid n]) auto
next
  case (Delivered tid n)
  then show thesis by (intro End [of tid n]) auto
next
  case (Flush wait dp nt dr ce r)
  with quiet_flush [OF assms(1,2) Flush(2,3)] show thesis by (intro Quiet) auto
next
  case (FlushWake nt dr r)
  with quiet_flushEnd [OF assms(2)] show thesis by (intro Quiet) auto
next
  case (Dispose r)
  from Dispose(3) obtain q where q: "flushInternal K [] True True True True True (sq x) = Inr q"
    "(\<exists>s1. q = Returned () s1 \<and> outcome_state r = s1\<lparr>m_observerThis := False\<rparr>) \<or> outcome_state r = outcome_state q"
    by (rule dispose_cases)
  have "quiet rm (sq x) (outcome_state q)" using quiet_flush [OF assms(1,2) q(1)] Dispose(2) by simp
  moreover have "quiet rm s1 (s1\<lparr>m_observerThis := False\<rparr>)" if "wf_eq s1" for s1
    using that by (intro quiet_frame wf_eq_frame [OF that]) (simp_all add: view_defs)
  ultimately have "quiet rm (sq x) (outcome_state r)"
    using q(2)
  proof (elim disjE exE conjE)
    fix s1 assume s1: "quiet rm (sq x) (outcome_state q)" "q = Returned () s1"
      "outcome_state r = s1\<lparr>m_observerThis := False\<rparr>"
      and step: "\<And>s1. wf_eq s1 \<Longrightarrow> quiet rm s1 (s1\<lparr>m_observerThis := False\<rparr>)"
    from s1(1,2) have "quiet rm (sq x) s1" by simp
    moreover from this have "wf_eq s1" unfolding quiet_def by (rule conjunct1)
    ultimately show "quiet rm (sq x) (outcome_state r)"
      unfolding s1(3) using step quiet_trans by blast
  qed simp
  with Dispose(1) show thesis by (intro Quiet) auto
next
  case DisposeWake
  have "quiet rm (sq x) ((sq x)\<lparr>m_observerThis := False\<rparr>)"
    using assms(2) by (intro quiet_frame wf_eq_frame [OF assms(2)]) (simp_all add: view_defs)
  with DisposeWake show thesis by (intro Quiet) auto
next
  case (Pop wait remove r)
  with quiet_pop [OF assms(2)] show thesis by (intro Quiet) auto
next
  case (PopWake remove r)
  with quiet_take [OF assms(2)] show thesis by (intro Quiet) auto
next
  case (Wait t prio cancel r)
  with quiet_wait [OF assms(2) Wait(2,3)] show thesis by (intro Quiet) auto
next
  case (WaitWake t b s)
  then have "pad K (sq x) = Inr s" by (auto simp: waitPredicate_def bindR_eq_Inr)
  with WaitWake quiet_pad [OF assms(2)] show thesis by (intro Quiet) auto
next
  case (WaitEnd t r)
  with quiet_waitEnd [OF assms(2)] show thesis by (intro Quiet) auto
next
  case (Cancel t r)
  obtain s' q where "r = Returned (t \<in> set (aq_pending (absq (sq x)))) s'" "steps_to (sq x) s' q 0"
    using cancel_ok [OF assms(2), of K "[]" t] Cancel(3) by auto
  with Cancel quietI [of "sq x" s' q rm] show thesis by (intro Quiet) auto
next
  case (Prioritize t r)
  let ?p = "t \<in> set (aq_pending (absq (sq x)))"
  obtain s' where s': "r = Returned ?p s'" "steps_to (sq x) s' (if ?p
      then (absq (sq x))\<lparr>aq_pending := t # remove1 t (aq_pending (absq (sq x)))\<rparr> else absq (sq x)) 0"
    using prioritize_op_ok [OF assms(2) Prioritize(2), of True] Prioritize(3) by auto
  have "quiet rm (sq x) s'"
    by (rule quietI [OF s'(2)]) (auto simp: idle_abs)
  with Prioritize s'(1) show thesis by (intro Quiet) auto
next
  case (Throttle limit s)
  then have "quiet rm (sq x) s"
    by (intro quiet_setting [OF assms(2), of K "(sq x)\<lparr>m_maxExecuting := limit\<rparr>"])
      (simp_all add: setThrottleLimit_def gens_def)
  with Throttle show thesis by (intro Quiet) auto
next
  case (Observe ob delivery events s)
  let ?m = "case ob of None \<Rightarrow> 0 | Some ob \<Rightarrow> if ob_connected ob then ob_maxReadyOrExecuting ob else 0"
  from Observe have "quiet rm (sq x) s"
    by (intro quiet_setting [OF assms(2), of K "(sq x)\<lparr>m_notifyCB := ob, m_notifyDelivery := delivery,
        m_eventsMask := events, m_maxReadyOrExecuting := ?m\<rparr>"])
      (simp_all add: setNotifyCallback_def gens_def)
  with Observe show thesis by (intro Quiet) auto
next
  case (Options options)
  have "quiet rm (sq x) (setOptions options (sq x))"
    using assms(2) by (intro quiet_frame wf_eq_frame [OF assms(2)]) (simp_all add: setOptions_def view_defs)
  with Options show thesis by (intro Quiet) auto
next
  case (ThreadPool p)
  have "quiet rm (sq x) (setLocalThreadPool p (sq x))"
    using assms(2) by (intro quiet_frame wf_eq_frame [OF assms(2)]) (simp_all add: setLocalThreadPool_def view_defs)
  with ThreadPool show thesis by (intro Quiet) auto
next
  case (Disconnect ob)
  have "quiet rm (sq x) ((sq x)\<lparr>m_notifyCB := Some (ob\<lparr>ob_connected := False\<rparr>)\<rparr>)"
    using assms(2) by (intro quiet_frame wf_eq_frame [OF assms(2)]) (simp_all add: view_defs)
  with Disconnect show thesis by (intro Quiet) auto
next
  case (TaskNotify t allow e b called)
  have "m_hasException b \<longleftrightarrow> m_exception b \<noteq> None" "m_state b = Running \<or> m_state b = PendingCompletion"
    using TaskNotify(2,3) wf_eq_exception [OF assms(2), of t]
    by (auto simp: notifyReadyImpl_def Let_def split: if_splits finish_result.splits)
  with TaskNotify(2) have "quiet rm (sq x) (setTask t b (sq x))" by (intro quiet_task [OF assms(2)]) auto
  with TaskNotify(1) show thesis by (intro Quiet) auto
next
  case (TaskCancel t)
  have "quiet rm (sq x) (setTask t (requestCancel (K t) (m_tasks (sq x) t)) (sq x))"
    by (rule quiet_task [OF assms(2)]) (simp_all add: wf_eq_exception [OF assms(2)])
  with TaskCancel show thesis by (intro Quiet) auto
qed

lemma wf_new_queue:
  assumes "\<forall>t. m_hasException (tasks t) \<longleftrightarrow> m_exception (tasks t) \<noteq> None"
  shows "wf_eq (new_queue options maxExecuting tasks)"
  using assms
  by (simp add: wf_eq_def wf_defs new_queue_def linked_def new_info_def info_pool.wf_pool_def empty_pool_def)

lemma publish_frame:
  assumes "publishCandidate g s = (n, s')"
  shows "wf_eq s \<Longrightarrow> wf_eq s'" "absq s' = absq s" "m_lockNotify s' = m_lockNotify s" "m_notifyOwner s' = m_notifyOwner s"
    "m_activeWorkGeneration s' = m_activeWorkGeneration s" "m_lastCandidateGeneration s' = m_lastCandidateGeneration s"
proof -
  have s': "s' = s \<or> s' = s\<lparr>m_lastPublishedGeneration := g\<rparr>"
    using assms by (auto simp: publishCandidate_def Let_def split: if_splits)
  show "wf_eq s \<Longrightarrow> wf_eq s'" using s' wf_eq_frame [of s s'] by auto
  show "absq s' = absq s" "m_lockNotify s' = m_lockNotify s" "m_notifyOwner s' = m_notifyOwner s"
    "m_activeWorkGeneration s' = m_activeWorkGeneration s" "m_lastCandidateGeneration s' = m_lastCandidateGeneration s"
    using s' by (auto simp: absq_def)
qed

lemma deliver_frame:
  "notifyBegin tid n s = Inr (Some s') \<Longrightarrow> (wf_eq s \<longrightarrow> wf_eq s') \<and> gens s' = gens s \<and> absq s' = absq s"
  "(wf_eq s \<longrightarrow> wf_eq (notifyEnd n s)) \<and> gens (notifyEnd n s) = gens s \<and> absq (notifyEnd n s) = absq s"
proof -
  {
    assume "notifyBegin tid n s = Inr (Some s')"
    then have "s' = s \<or> s' = s\<lparr>m_lockNotify := Some tid, m_notifyOwner := Some tid\<rparr>"
      by (auto simp: notifyBegin_def bindR_eq_Inr split: if_splits)
    then show "(wf_eq s \<longrightarrow> wf_eq s') \<and> gens s' = gens s \<and> absq s' = absq s"
      using wf_eq_frame [of s s'] by (auto simp: view_defs)
  }
  show "(wf_eq s \<longrightarrow> wf_eq (notifyEnd n s)) \<and> gens (notifyEnd n s) = gens s \<and> absq (notifyEnd n s) = absq s"
    using wf_eq_frame [of s "notifyEnd n s"] by (auto simp: notifyEnd_def view_defs)
qed

section \<open>The structural invariant is reachable-invariant\<close>

lemma wf_step:
  assumes "never_aborts K" "wf_eq (sq x)" "sys_step K rm x y"
  shows "wf_eq (sq y)"
  using assms
proof (cases rule: step_kinds)
  case Quiet
  then show ?thesis by (simp add: quiet_def)
next
  case (Pub g n)
  then show ?thesis using publish_frame(1) assms(2) by blast
next
  case (Begin tid n)
  then show ?thesis using deliver_frame(1) assms(2) by blast
next
  case (End tid n)
  then show ?thesis using deliver_frame(2) assms(2) by simp
qed simp_all

lemma reach_wf:
  assumes "never_aborts K"
  shows "reach K rm n x \<Longrightarrow> wf_eq (sq x)"
proof (induction rule: reach.induct)
  case (Init tasks options maxExecuting)
  then show ?case by (simp add: init_sys_def wf_new_queue)
next
  case (Step n x y)
  then show ?case using wf_step [OF assms] by blast
qed

section \<open>Generations\<close>

definition gen_inv :: "nat \<Rightarrow> sys \<Rightarrow> bool" where
  "gen_inv n x \<longleftrightarrow> (let s = sq x in
     unat (m_activeWorkGeneration s) \<le> n
     \<and> m_lastPublishedGeneration s \<le> m_lastCandidateGeneration s
     \<and> m_lastCandidateGeneration s \<le> m_activeWorkGeneration s
     \<and> (\<forall>g \<in> set (s_inflight x). g \<le> m_lastCandidateGeneration s)
     \<and> sorted_wrt (<) (s_published x) \<and> (\<forall>g \<in> set (s_published x). g \<le> m_lastPublishedGeneration s))"

lemma word_incr:
  fixes w :: "64 word"
  assumes "unat w \<le> n" "Suc n < 2 ^ 64"
  shows "unat (w + 1) \<le> Suc n" "w \<le> w + 1"
proof -
  have "unat (w + 1) = Suc (unat w)"
    using assms by (simp add: unat_word_ariths)
  then show "unat (w + 1) \<le> Suc n" "w \<le> w + 1" using assms(1) by (simp_all add: word_le_nat_alt)
qed

lemma gen_inv_step:
  assumes "never_aborts K" "wf_eq (sq x)" "sys_step K rm x y" "gen_inv n x" "Suc n < 2 ^ 64"
  shows "gen_inv (Suc n) y"
proof -
  let ?a = "m_activeWorkGeneration (sq x)" and ?p = "m_lastPublishedGeneration (sq x)"
    and ?c = "m_lastCandidateGeneration (sq x)"
  have inv: "unat ?a \<le> n" "?p \<le> ?c" "?c \<le> ?a" "\<And>g. g \<in> set (s_inflight x) \<Longrightarrow> g \<le> ?c"
    "sorted_wrt (<) (s_published x)" "\<And>g. g \<in> set (s_published x) \<Longrightarrow> g \<le> ?p"
    using assms(4) by (simp_all add: gen_inv_def Let_def)
  note w = word_incr [OF inv(1) assms(5)]
  from assms(1-3) show ?thesis
  proof (cases rule: step_kinds)
    case Quiet
    with inv show ?thesis by (auto simp: gen_inv_def quiet_def gens_def)
  next
    case Admit
    with inv w show ?thesis by (auto simp: gen_inv_def gens_def intro: order_trans)
  next
    case (Form c)
    have "?a \<le> c" "unat c \<le> Suc n" using Form(4) w inv(1) by auto
    moreover from this inv(3) have "?c \<le> c" by (metis order_trans)
    ultimately show ?thesis
      using Form inv by (auto simp: gen_inv_def gens_def intro: order_trans)
  next
    case (Pub g m)
    show ?thesis
    proof (cases "m_lastPublishedGeneration (sq y) = ?p")
      case True
      with Pub inv publish_frame [OF Pub(2)] show ?thesis
        by (auto simp: gen_inv_def dest: notin_set_remove1)
    next
      case False
      then have g: "m_lastPublishedGeneration (sq y) = g" "?p < g" "?c = g"
        using publish_new [OF Pub(2)] by (simp_all split: if_splits)
      with Pub inv publish_frame [OF Pub(2)] show ?thesis
        by (auto simp: gen_inv_def sorted_wrt_append dest: notin_set_remove1 intro: le_less_trans order_trans less_imp_le)
    qed
  next
    case (Begin tid m)
    with inv deliver_frame(1) [OF Begin(1)] show ?thesis by (auto simp: gen_inv_def gens_def)
  next
    case (End tid m)
    with inv deliver_frame(2) [of "sq x" m] show ?thesis by (auto simp: gen_inv_def gens_def)
  qed
qed

lemma reach_gen_inv:
  assumes "never_aborts K"
  shows "reach K rm n x \<Longrightarrow> n < 2 ^ 64 \<Longrightarrow> gen_inv n x"
proof (induction rule: reach.induct)
  case (Init tasks options maxExecuting)
  then show ?case by (simp add: gen_inv_def init_sys_def new_queue_def)
next
  case (Step n x y)
  then have "gen_inv n x" by simp
  then show ?case
    using gen_inv_step [OF assms reach_wf [OF assms Step.hyps(1)] Step.hyps(2)] Step.prems by simp
qed

definition last_inv :: "sys \<Rightarrow> bool" where
  "last_inv x \<longleftrightarrow> m_lastPublishedGeneration (sq x) = (if s_published x = [] then 0 else last (s_published x))"

lemma reach_last_inv:
  assumes "never_aborts K"
  shows "reach K rm n x \<Longrightarrow> last_inv x"
proof (induction rule: reach.induct)
  case (Init tasks options maxExecuting)
  then show ?case by (simp add: last_inv_def init_sys_def new_queue_def)
next
  case (Step n x y)
  from assms reach_wf [OF assms Step.hyps(1)] Step.hyps(2) show ?case
  proof (cases rule: step_kinds)
    case Quiet
    with Step.IH show ?thesis by (simp add: last_inv_def quiet_def gens_def)
  next
    case (Begin tid m)
    with Step.IH deliver_frame(1) [OF Begin(1)] show ?thesis by (simp add: last_inv_def gens_def)
  next
    case (End tid m)
    with Step.IH deliver_frame(2) [of "sq x" m] show ?thesis by (simp add: last_inv_def gens_def)
  next
    case (Pub g m)
    with Step.IH show ?thesis by (simp add: last_inv_def)
  qed (use Step.IH in \<open>simp_all add: last_inv_def gens_def\<close>)
qed

section \<open>No drain is forgotten\<close>

definition drain_inv :: "sys \<Rightarrow> bool" where
  "drain_inv x \<longleftrightarrow> (idle (sq x) \<longrightarrow> m_lastCandidateGeneration (sq x) = m_activeWorkGeneration (sq x)
     \<and> (m_lastPublishedGeneration (sq x) < m_lastCandidateGeneration (sq x)
          \<longrightarrow> m_lastCandidateGeneration (sq x) \<in> set (s_inflight x)))"

lemma drain_inv_step:
  assumes "never_aborts K" "wf_eq (sq x)" "sys_step K False x y" "drain_inv x"
  shows "drain_inv y"
  using assms(1-3)
proof (cases rule: step_kinds)
  case Quiet
  with assms(4) show ?thesis by (auto simp: drain_inv_def quiet_def gens_def)
next
  case Admit
  then show ?thesis by (simp add: drain_inv_def)
next
  case (Form c)
  then show ?thesis by (simp add: drain_inv_def gens_def)
next
  case (Pub g n)
  note f = publish_frame [OF Pub(2)]
  have i: "idle (sq y) = idle (sq x)" using f(2) by (simp add: idle_abs)
  show ?thesis
  proof (cases "idle (sq x) \<and> m_lastPublishedGeneration (sq y) < m_lastCandidateGeneration (sq x)")
    case True
    then have "g \<noteq> m_lastCandidateGeneration (sq x)"
      and "m_lastPublishedGeneration (sq x) < m_lastCandidateGeneration (sq x)"
      using publish_new [OF Pub(2)] by (auto split: if_splits)
    then show ?thesis
      using True assms(4) Pub(3) f i by (auto simp: drain_inv_def)
  next
    case False
    with assms(4) f i show ?thesis by (auto simp: drain_inv_def)
  qed
next
  case (Begin tid n)
  with assms(4) deliver_frame(1) [OF Begin(1)] show ?thesis by (auto simp: drain_inv_def gens_def idle_abs)
next
  case (End tid n)
  with assms(4) deliver_frame(2) [of "sq x" n] show ?thesis by (auto simp: drain_inv_def gens_def idle_abs)
qed

lemma reach_drain_inv:
  assumes "never_aborts K"
  shows "reach K False n x \<Longrightarrow> drain_inv x"
proof (induction rule: reach.induct)
  case (Init tasks options maxExecuting)
  then show ?case by (simp add: drain_inv_def init_sys_def new_queue_def)
next
  case (Step n x y)
  then show ?case using drain_inv_step [OF assms reach_wf [OF assms Step.hyps(1)]] by blast
qed

section \<open>Serialized deliveries\<close>

definition serialized :: "sys \<Rightarrow> (nat \<times> notification) list" where
  "serialized x = filter (\<lambda>(tid, n). n_serialize n) (s_delivering x)"

definition delivery_inv :: "sys \<Rightarrow> bool" where
  "delivery_inv x \<longleftrightarrow> m_lockNotify (sq x) = m_notifyOwner (sq x)
     \<and> (case m_lockNotify (sq x) of None \<Rightarrow> serialized x = []
        | Some tid \<Rightarrow> \<exists>n. serialized x = [(tid, n)])"

lemma delivery_inv_cong:
  assumes "delivery_inv x" "m_lockNotify (sq y) = m_lockNotify (sq x)" "m_notifyOwner (sq y) = m_notifyOwner (sq x)"
    "s_delivering y = s_delivering x"
  shows "delivery_inv y"
proof -
  have "serialized y = serialized x" using assms(4) by (simp add: serialized_def)
  with assms(1-3) show ?thesis by (simp add: delivery_inv_def split: option.splits)
qed

lemma filter_remove1: "filter P (remove1 a l) = (if P a then remove1 a (filter P l) else filter P l)"
  by (induction l) auto

lemma delivery_inv_step:
  assumes "never_aborts K" "wf_eq (sq x)" "sys_step K rm x y" "delivery_inv x"
  shows "delivery_inv y"
  using assms(1-3)
proof (cases rule: step_kinds)
  case Quiet
  then show ?thesis by (intro delivery_inv_cong [OF assms(4)]) (auto simp: quiet_def)
next
  case Admit
  then show ?thesis by (intro delivery_inv_cong [OF assms(4)]) auto
next
  case (Form c)
  then show ?thesis by (intro delivery_inv_cong [OF assms(4)]) auto
next
  case (Pub g n)
  with publish_frame [OF Pub(2)] show ?thesis by (intro delivery_inv_cong [OF assms(4)]) auto
next
  case (Begin tid n)
  then have "(n_serialize n \<and> m_lockNotify (sq x) = None
      \<and> sq y = (sq x)\<lparr>m_lockNotify := Some tid, m_notifyOwner := Some tid\<rparr>) \<or> \<not> n_serialize n \<and> sq y = sq x"
    by (auto simp: notifyBegin_def bindR_eq_Inr split: if_splits)
  with assms(4) Begin(2) show ?thesis
    by (elim disjE) (auto simp: delivery_inv_def serialized_def split: option.splits)
next
  case (End tid n)
  show ?thesis
  proof (cases "n_serialize n")
    case True
    with End(1) have m: "(tid, n) \<in> set (serialized x)" by (simp add: serialized_def)
    with assms(4) have "serialized x = [(tid, n)]"
      by (auto simp: delivery_inv_def split: option.splits)
    moreover have "serialized y = remove1 (tid, n) (serialized x)"
      using End(3) True by (simp add: serialized_def filter_remove1)
    ultimately show ?thesis using True End(2) by (simp add: delivery_inv_def notifyEnd_def)
  next
    case False
    then have "serialized y = serialized x" using End(3) by (simp add: serialized_def filter_remove1)
    moreover have "sq y = sq x" using End(2) False by (simp add: notifyEnd_def)
    ultimately show ?thesis using assms(4) unfolding delivery_inv_def by (elim ssubst)
  qed
qed

lemma reach_delivery_inv:
  assumes "never_aborts K"
  shows "reach K rm n x \<Longrightarrow> delivery_inv x"
proof (induction rule: reach.induct)
  case (Init tasks options maxExecuting)
  then show ?case by (simp add: delivery_inv_def init_sys_def new_queue_def serialized_def)
next
  case (Step n x y)
  then show ?case using delivery_inv_step [OF assms reach_wf [OF assms Step.hyps(1)]] by blast
qed

end
