(* ===== verification/EqRuns.thy ===== *)
theory EqRuns
  imports EqEvents
begin

text \<open>
  Schedules of the execution queue system that can be evaluated: an action names the thread step
  and its arguments, \<open>perform\<close> does it when its guard holds, and \<open>run\<close> does a list of
  them.  Every run is a path of the step relation.
\<close>

section \<open>Actions\<close>

datatype action =
    DoPush bool nat bool
  | DoNotify nat eptr
  | DoComplete nat
  | DoPublish "64 word"
  | DoDeliver nat notification
  | DoDelivered nat notification
  | DoFlush bool bool bool bool bool
  | DoPop bool bool
  | DoCancel nat
  | DoObserve "observer option" notify_delivery "32 word"

definition on_ok :: "'a res \<Rightarrow> ('a \<Rightarrow> sys) \<Rightarrow> sys option" where
  "on_ok r f = (case r of Inl e \<Rightarrow> None | Inr a \<Rightarrow> Some (f a))"

lemma on_ok_simps [simp]: "on_ok (Inl e) f = None" "on_ok (Inr a) f = Some (f a)"
  by (simp_all add: on_ok_def)

lemma on_ok_Some: "on_ok r f = Some y \<longleftrightarrow> (\<exists>a. r = Inr a \<and> y = f a)"
  by (cases r) auto

fun continuable :: "nat \<Rightarrow> cont_result \<Rightarrow> eq_state \<Rightarrow> bool" where
  "continuable t (ContTask c) s = (c = t \<or> admissible s c)"
| "continuable t r s = True"

fun perform :: "(nat \<Rightarrow> task_class) \<Rightarrow> bool \<Rightarrow> action \<Rightarrow> sys \<Rightarrow> sys option" where
  "perform K rm (DoPush isBack t dontSchedule) x =
     (if admissible (sq x) t
      then on_ok (pushInternal K isBack t dontSchedule (sq x)) (\<lambda>s. x\<lparr>sq := s\<rparr>) else None)"
| "perform K rm (DoNotify t e) x =
     (if m_state (m_tasks (sq x) t) = Running
      then on_ok (notifyReadyImpl (K t) True e (m_tasks (sq x) t)) (\<lambda>(b, called). x\<lparr>sq := setTask t b (sq x)\<rparr>)
      else None)"
| "perform K rm (DoComplete t) x =
     (if m_observerThis (sq x) \<and> t \<in> set (aq_executing (absq (sq x)))
         \<and> m_state (m_tasks (sq x) t) = PendingCompletion \<and> m_nextInfo (sq x) + 1 < 2 ^ 64
         \<and> continuable t (continuationTask t (m_tasks (sq x) t)) (sq x)
      then on_ok (onReady K t (sq x))
        (\<lambda>(n, g, s). x\<lparr>sq := s, s_inflight := (case g of None \<Rightarrow> s_inflight x | Some c \<Rightarrow> s_inflight x @ [c])\<rparr>)
      else None)"
| "perform K rm (DoPublish g) x =
     (if g \<in> set (s_inflight x)
      then Some (case publishCandidate g (sq x) of (n, s) \<Rightarrow>
        x\<lparr>sq := s, s_inflight := remove1 g (s_inflight x),
          s_published := (if m_lastPublishedGeneration s \<noteq> m_lastPublishedGeneration (sq x)
                          then s_published x @ [m_lastPublishedGeneration s] else s_published x)\<rparr>)
      else None)"
| "perform K rm (DoDeliver tid n) x =
     (case notifyBegin tid n (sq x) of
        Inr (Some s) \<Rightarrow> Some (x\<lparr>sq := s, s_delivering := (tid, n) # s_delivering x\<rparr>)
      | _ \<Rightarrow> None)"
| "perform K rm (DoDelivered tid n) x =
     (if (tid, n) \<in> set (s_delivering x)
      then Some (x\<lparr>sq := notifyEnd n (sq x), s_delivering := remove1 (tid, n) (s_delivering x)\<rparr>) else None)"
| "perform K rm (DoFlush wait discardPending nothrowIfFailed discardReady cancelExecuting) x =
     (if discardPending \<longrightarrow> rm
      then on_ok (flushInternal K [] wait discardPending nothrowIfFailed discardReady cancelExecuting (sq x))
             (\<lambda>r. x\<lparr>sq := outcome_state r\<rparr>)
      else None)"
| "perform K rm (DoPop wait remove) x =
     on_ok (getFirstReady K [] wait remove (sq x)) (\<lambda>r. x\<lparr>sq := outcome_state r\<rparr>)"
| "perform K rm (DoCancel t) x =
     (if rm then on_ok (cancel_task K [] t False (sq x)) (\<lambda>r. x\<lparr>sq := outcome_state r\<rparr>) else None)"
| "perform K rm (DoObserve ob delivery events) x =
     on_ok (setNotifyCallback K ob delivery events (sq x)) (\<lambda>s. x\<lparr>sq := s\<rparr>)"

fun run :: "(nat \<Rightarrow> task_class) \<Rightarrow> bool \<Rightarrow> action list \<Rightarrow> sys \<Rightarrow> sys option" where
  "run K rm [] x = Some x"
| "run K rm (a # as) x = (case perform K rm a x of None \<Rightarrow> None | Some y \<Rightarrow> run K rm as y)"

lemma continuable_iff:
  "continuable t r s \<longleftrightarrow> (\<forall>c. r = ContTask c \<longrightarrow> c \<noteq> t \<longrightarrow> admissible s c)"
  by (cases r) auto

lemma perform_step: "perform K rm a x = Some y \<Longrightarrow> sys_step K rm x y"
proof (induction K rm a x rule: perform.induct)
  case (2 K rm t e x)
  then show ?case by (auto simp: on_ok_Some split: if_splits intro!: TaskNotify)
next
  case (3 K rm t x)
  then obtain n g s where "onReady K t (sq x) = Inr (n, g, s)" "completing K t (sq x)"
    "y = x\<lparr>sq := s, s_inflight := (case g of None \<Rightarrow> s_inflight x | Some c \<Rightarrow> s_inflight x @ [c])\<rparr>"
    by (auto simp: on_ok_Some completing_def continuable_iff split: if_splits)
  then show ?case using Complete [of K t x n g s rm] by simp
next
  case (4 K rm g x)
  obtain n s where "publishCandidate g (sq x) = (n, s)" by fastforce
  with 4 Publish [of g x n s K rm] show ?case by (simp split: if_splits)
next
  case (5 K rm tid n x)
  then show ?case by (auto intro!: Deliver split: sum.splits option.splits)
next
  case (1 K rm isBack t dontSchedule x)
  then show ?case by (auto simp: on_ok_Some split: if_splits intro: Push)
next
  case (6 K rm tid n x)
  then show ?case by (auto split: if_splits intro: Delivered)
next
  case (7 K rm w dp nt dr ce x)
  then show ?case by (auto simp: on_ok_Some split: if_splits intro: Flush)
next
  case (8 K rm w r x)
  then show ?case by (auto simp: on_ok_Some intro: Pop)
next
  case (9 K rm t x)
  then show ?case by (auto simp: on_ok_Some split: if_splits intro: Cancel)
next
  case (10 K rm ob delivery events x)
  then show ?case by (auto simp: on_ok_Some intro: Observe)
qed

lemma run_reach: "run K rm as x = Some y \<Longrightarrow> reach K rm n x \<Longrightarrow> reach K rm (n + length as) y"
proof (induction "as" arbitrary: x n)
  case (Cons a "as")
  then obtain z where z: "perform K rm a x = Some z" "run K rm as z = Some y"
    by (auto split: option.splits)
  have "reach K rm (Suc n) z" using Step [OF Cons.prems(2) perform_step [OF z(1)]] .
  from Cons.IH [OF z(2) this] show ?case by simp
qed simp

lemma run_reach_init:
  assumes "run K rm as (init_sys options maxExecuting (\<lambda>_. new_task)) = Some y"
  shows "reach K rm (length as) y"
proof -
  have "reach K rm 0 (init_sys options maxExecuting (\<lambda>_. new_task))"
    by (rule Init) (simp add: new_task_def)
  from run_reach [OF assms this] show ?thesis by simp
qed

section \<open>Evaluating schedules\<close>

text \<open>A queue of simple tasks; none of them can abort when it is scheduled.\<close>

definition simple_tasks :: "nat \<Rightarrow> task_class" where
  "simple_tasks t = simple_task_class"

lemma simple_tasks_ok: "never_aborts simple_tasks"
  by (simp add: never_aborts_def simple_tasks_def simple_task_class_def base_class_def)

lemmas eval_task = simple_tasks_def simple_task_class_def base_class_def new_task_def scheduleNothrow_def
  notifyReadyImpl_def setExceptionInternal_def continuationTask_def setCompletedState_def isFailed_def
  requestCancel_def requestCancelInternalMarkOnlyNoLock_def less_eq_task_state_def

lemmas eval_queue = init_sys_def new_queue_def empty_pool_def new_info_def info_checker_def intrusive_checker_def
  tryGet_def put_def intrusive_markFreed_def intrusive_markAllocated_def
  pushInternal_def pushInternalNoLock_def pushNew_def pushExisting_def getInfo_def newInfo_def
  attachTask_def setOwnerQueue_def getOwnerQueue_def insertAt_def pad.simps throttled_def taskOf_def toExecuting_def
  unlinkInfo_def setTask_def getReadyOrExecuting_def unlinkAndDestroy_def moveTaskToReadyQueue_def
  onReady_def getTaskInfoPtrFromTask_def continueTask_def retireTask_def keepTask_def getEventNotifyCB_def
  publishCandidate_def notifyBegin_def notifyEnd_def clearPending.simps clearReady.simps
  flushInternal_def isEmptyInternal_def hasPendingOrExecuting_def cvWait.simps andThen_def flushEnd_def
  cancelExecutingTasks_def firstFailed.simps getFirstReady_def takeFirstReady_def cancel_task_def setNotifyCallback_def
  admissible_def absq_def taskAt_def idle_def
  OptionKeepSuccessful_def OptionKeepFailed_def OptionKeepCanceled_def Let_def

end
