(* ===== verification/EqProps.thy ===== *)
theory EqProps
  imports EqRuns
begin

text \<open>
  The properties of the execution queue: its operations against the abstract queue of task lists,
  the invariants of its reachable states, and what its final event and its waits guarantee.
\<close>

section \<open>A worked run\<close>

text \<open>Three simple tasks on a queue that runs one at a time and keeps the successful ones.\<close>

definition demo :: sys where
  "demo = init_sys OptionKeepSuccessful 1 (\<lambda>_. new_task)"

definition demo_actions :: "action list" where
  "demo_actions = [DoPush True 7 False, DoPush True 8 False, DoPush False 9 True, DoNotify 7 None,
     DoComplete 7, DoNotify 8 None, DoComplete 8, DoPublish 2]"

lemmas demo_defs = demo_def demo_actions_def

lemma demo_reach: "run simple_tasks rm as demo = Some x \<Longrightarrow> reach simple_tasks rm (length as) x"
  by (simp add: demo_def run_reach_init)

lemma demo_wf: "run simple_tasks rm as demo = Some x \<Longrightarrow> wf_eq (sq x)"
  using demo_reach reach_wf simple_tasks_ok by blast

lemma demo_run: "\<exists>x. run simple_tasks rm demo_actions demo = Some x \<and> idle (sq x)
    \<and> absq (sq x) = \<lparr>aq_pending = [], aq_executing = [], aq_ready = [9, 7, 8]\<rparr>
    \<and> s_inflight x = [] \<and> s_published x = [2] \<and> m_activeWorkGeneration (sq x) = 2 \<and> m_nextInfo (sq x) = 3"
  by (simp add: demo_defs eval_queue eval_task)

text \<open>The same run up to the notification of the first task: 7 executes, 8 waits, 9 is kept.\<close>

lemma demo_prefix: "\<exists>x. run simple_tasks rm (take 4 demo_actions) demo = Some x
    \<and> absq (sq x) = \<lparr>aq_pending = [8], aq_executing = [7], aq_ready = [9]\<rparr>
    \<and> m_observerThis (sq x) \<and> m_nextInfo (sq x) = 3 \<and> m_state (m_tasks (sq x) 7) = PendingCompletion
    \<and> m_state (m_tasks (sq x) 9) = Created \<and> m_state (m_tasks (sq x) 10) = Created
    \<and> continuationTask 7 (m_tasks (sq x) 7) = ContNone \<and> \<not> m_hasException (m_tasks (sq x) 7)
    \<and> m_maxExecuting (sq x) = 1 \<and> m_maxReadyOrExecuting (sq x) = 0 \<and> m_options (sq x) = 1"
  by (simp add: demo_defs eval_queue eval_task)

section \<open>The structural invariant\<close>

text \<open>
  C1 Every state the queue can reach, under any interleaving of the operations, completions,
  notifications and wake-ups, is well formed: the three lists hold distinct task infos tagged with
  that list, the task map is exactly the attachment of tasks to infos, every allocated info is
  attached or in the pool and never both, the counters are the lengths of the lists, and exactly
  the tasks of the executing list are running or about to complete.
\<close>

theorem eq_reachable_wf:
  assumes "never_aborts K" "reach K rm n x"
  shows "wf_eq (sq x)"
  by (rule reach_wf [OF assms])

lemma eq_reachable_wf_witness:
  "\<exists>x. reach simple_tasks True (length demo_actions) x \<and> aq_ready (absq (sq x)) = [9, 7, 8] \<and> wf_eq (sq x)"
proof -
  obtain x where x: "run simple_tasks True demo_actions demo = Some x" "aq_ready (absq (sq x)) = [9, 7, 8]"
    using demo_run [of True] by auto
  show ?thesis using demo_reach [OF x(1)] eq_reachable_wf [OF simple_tasks_ok demo_reach [OF x(1)]] x(2) by blast
qed

section \<open>Padding the executing queue\<close>

text \<open>
  Padding never fails and moves a prefix of the pending list to the back of the executing list,
  in order; it stops only when nothing is pending or a limit is reached, and it never takes the
  executing tasks beyond the execution limit, nor the ready and executing ones beyond the other.
\<close>

theorem eq_pad:
  assumes "never_aborts K" "wf_eq s"
  shows "\<exists>s' k. pad K s = Inr s' \<and> wf_eq s'
     \<and> aq_executing (absq s') = aq_executing (absq s) @ take k (aq_pending (absq s))
     \<and> aq_pending (absq s') = drop k (aq_pending (absq s)) \<and> aq_ready (absq s') = aq_ready (absq s)
     \<and> (aq_pending (absq s') = [] \<or> throttled s')
     \<and> (k = 0 \<or> m_maxExecuting s = 0 \<or> length (aq_executing (absq s')) \<le> unat (m_maxExecuting s))
     \<and> (k = 0 \<or> m_maxReadyOrExecuting s = 0
          \<or> length (aq_ready (absq s')) + length (aq_executing (absq s')) \<le> unat (m_maxReadyOrExecuting s))"
proof -
  obtain s' where s': "pad K s = Inr s'" "steps_to s s' (padq s (absq s)) 0"
    by (rule pad_ok [OF assms]) blast
  let ?k = "min (aq_slots (unat (m_maxExecuting s)) (unat (m_maxReadyOrExecuting s)) (absq s)) (length (aq_pending (absq s)))"
  have st: "wf_eq s'" "absq s' = padq s (absq s)" "m_maxExecuting s' = m_maxExecuting s"
    "m_maxReadyOrExecuting s' = m_maxReadyOrExecuting s"
    using s'(2) by (simp_all add: steps_to_def config_def)
  note z = unat_eq_0 [of "m_maxExecuting s"] unat_eq_0 [of "m_maxReadyOrExecuting s"]
  have "aq_pending (absq s') = [] \<or> throttled s'"
    unfolding throttled_abs [OF st(1)] st(2-4)
    by (auto simp: padq_def aq_pad_def aq_slots_def aq_full_def min_def split: if_splits)
  moreover have "?k = 0 \<or> m_maxExecuting s = 0 \<or> length (aq_executing (absq s')) \<le> unat (m_maxExecuting s)"
    "?k = 0 \<or> m_maxReadyOrExecuting s = 0
          \<or> length (aq_ready (absq s')) + length (aq_executing (absq s')) \<le> unat (m_maxReadyOrExecuting s)"
    using z by (auto simp: st(2) padq_def aq_pad_def aq_slots_def min_def)
  ultimately show ?thesis using s'(1) st(1,2)
    by (intro exI [of _ s'] exI [of _ ?k]) (simp add: padq_def aq_pad_def min_def)
qed

lemma eq_pad_witness:
  "\<exists>s s' k. wf_eq s \<and> aq_pending (absq s) = [8] \<and> pad simple_tasks s = Inr s'
     \<and> aq_executing (absq s') = [7] @ take k [8]"
proof -
  obtain x where x: "run simple_tasks True (take 4 demo_actions) demo = Some x"
    "absq (sq x) = \<lparr>aq_pending = [8], aq_executing = [7], aq_ready = [9]\<rparr>" using demo_prefix [of True] by auto
  from eq_pad [OF simple_tasks_ok demo_wf [OF x(1)]] obtain s' k where s': "pad simple_tasks (sq x) = Inr s'"
    "aq_executing (absq s') = aq_executing (absq (sq x)) @ take k (aq_pending (absq (sq x)))" by blast
  show ?thesis
    by (intro exI [of _ "sq x"] exI [of _ s'] exI [of _ k]) (use x(2) s' demo_wf [OF x(1)] in simp)
qed

section \<open>Pushing\<close>

text \<open>
  Pushing a task that the queue does not hold as pending or executing inserts it at the chosen
  end of the pending list (or of the ready list, with \<open>dontSchedule\<close>), taking it out of the
  ready list when it was there, then pads; the work generation advances exactly when the task is to
  be scheduled.  The only failure is the exhaustion of addresses, which leaves the queue unchanged.
\<close>

theorem eq_push:
  assumes "never_aborts K" "wf_eq s" "admissible s t" "m_nextInfo s + 1 < 2 ^ 64"
  shows "\<exists>s'. pushInternal K isBack t dontSchedule s = Inr s' \<and> wf_eq s'
     \<and> absq s' = padq s (aq_push isBack t dontSchedule (absq s)) \<and> config s' = config s
     \<and> m_activeWorkGeneration s' = m_activeWorkGeneration s + (if dontSchedule then 0 else 1)
     \<and> (\<forall>u. u \<notin> set (aq_pending (absq s)) \<longrightarrow> u \<noteq> t \<longrightarrow> m_tasks s' u = m_tasks s u)"
  using assms(1-3)
proof (cases rule: push_ok [of K s t isBack dontSchedule])
  case (Pushed s')
  with assms(3) show ?thesis
    by (auto simp: pushInternal_def admissible_def steps_to_def gens_def)
next
  case Full
  with assms(4) show ?thesis by simp
qed

lemma eq_push_witness:
  "\<exists>s s'. wf_eq s \<and> pushInternal simple_tasks False 9 False s = Inr s'
     \<and> absq s' = \<lparr>aq_pending = [9, 8], aq_executing = [7], aq_ready = []\<rparr>"
proof -
  obtain x where x: "run simple_tasks True (take 4 demo_actions) demo = Some x"
    "absq (sq x) = \<lparr>aq_pending = [8], aq_executing = [7], aq_ready = [9]\<rparr>" "m_nextInfo (sq x) = 3"
    "m_state (m_tasks (sq x) 9) = Created" "m_maxExecuting (sq x) = 1" "m_maxReadyOrExecuting (sq x) = 0"
    using demo_prefix [of True] by auto
  from eq_push [OF simple_tasks_ok demo_wf [OF x(1)], of 9 False False] x(2-) demo_wf [OF x(1)]
  show ?thesis by (auto simp: admissible_def aq_push_def insertAt_def padq_def aq_pad_def aq_slots_def)
qed

section \<open>Completion\<close>

text \<open>
  C2 In a queue that is not disposed, where scheduling does not abort and a continuation may be pushed,
  completing a task whose continuation is not itself pushes the continuation (if any) to the front, retires the task from the executing list to the ready list or out of the queue as its
  outcome and the options say, pads, wakes all waiters, and yields the matching event; a candidate
  for the final event is formed exactly when nothing is pending or executing any more.
\<close>

theorem eq_complete:
  assumes "never_aborts K" "wf_eq s" "completing K t s" "continuationTask t (m_tasks s t) \<noteq> ContTask t"
  shows "\<exists>s'. onReady K t s =
        Inr (getEventNotifyCB (if keepWhen (completesFailed t s) s then TaskReady else TaskDiscarded) (Some t) s,
             if idle s' then Some (m_activeWorkGeneration s') else None, s')
     \<and> wf_eq s' \<and> config s' = config s \<and> m_cvSignals s' = m_cvSignals s + 1
     \<and> m_state (m_tasks s' t) = Completed
     \<and> absq s' = padq s (aq_retire t (keepWhen (completesFailed t s) s)
          (case continuationTask t (m_tasks s t) of
             ContTask c \<Rightarrow> padq s (aq_push False c False (absq s)) | _ \<Rightarrow> absq s))
     \<and> m_activeWorkGeneration s' = m_activeWorkGeneration s + (if hasContinuation t s then 1 else 0)"
  by (rule onReady_other [OF assms])
    (auto simp: completed_def continued_def idle_abs gens_def split: cont_result.split)

lemma eq_complete_witness:
  "\<exists>s n g s'. wf_eq s \<and> absq s = \<lparr>aq_pending = [8], aq_executing = [7], aq_ready = [9]\<rparr>
     \<and> onReady simple_tasks 7 s = Inr (n, g, s')
     \<and> absq s' = \<lparr>aq_pending = [], aq_executing = [8], aq_ready = [9, 7]\<rparr>"
proof -
  obtain x where x: "run simple_tasks True (take 4 demo_actions) demo = Some x"
    "absq (sq x) = \<lparr>aq_pending = [8], aq_executing = [7], aq_ready = [9]\<rparr>"
    "m_observerThis (sq x)" "m_nextInfo (sq x) = 3" "m_state (m_tasks (sq x) 7) = PendingCompletion"
    "continuationTask 7 (m_tasks (sq x) 7) = ContNone" "\<not> m_hasException (m_tasks (sq x) 7)"
    "m_maxExecuting (sq x) = 1" "m_maxReadyOrExecuting (sq x) = 0" "m_options (sq x) = 1"
    using demo_prefix [of True] by auto
  have c: "completing simple_tasks 7 (sq x)" using x by (simp add: completing_def)
  have keep: "keepWhen (completesFailed 7 (sq x)) (sq x)"
    using x by (simp add: keepWhen_def completesFailed_def OptionKeepSuccessful_def)
  from eq_complete [OF simple_tasks_ok demo_wf [OF x(1)] c] x(6) obtain n g s' where
    "onReady simple_tasks 7 (sq x) = Inr (n, g, s')" "absq s' = padq (sq x) (aq_retire 7 True (absq (sq x)))"
    using keep by auto
  with x(2,8,9) demo_wf [OF x(1)] show ?thesis
    by (intro exI [of _ "sq x"] exI [of _ n] exI [of _ g] exI [of _ s'])
      (simp add: aq_retire_def padq_def aq_pad_def aq_slots_def)
qed

text \<open>
  A task whose continuation is itself is not retired: it goes back to the end of the pending
  list, the work generation advances, and neither a task event nor a candidate is produced.
\<close>

theorem eq_self_continuation:
  assumes "never_aborts K" "wf_eq s" "completing K t s" "continuationTask t (m_tasks s t) = ContTask t"
  shows "\<exists>s'. onReady K t s = Inr (None, None, s') \<and> wf_eq s' \<and> config s' = config s \<and> \<not> idle s'
     \<and> absq s' = padq s (aq_restart t (absq s))
     \<and> m_activeWorkGeneration s' = m_activeWorkGeneration s + 1"
proof -
  obtain s' where s': "onReady K t s = Inr (None, None, s')" "steps_to s s' (padq s (aq_restart t (absq s))) 1"
    by (rule onReady_self [OF assms])
  have "\<not> idle s'" using s'(2) by (simp add: steps_to_def idle_abs padq_lists) (simp add: aq_restart_def)
  with s' show ?thesis by (auto simp: steps_to_def gens_def)
qed

text \<open>A queue that executes task 7, which has notified and continues as itself.\<close>

definition selfish :: "nat \<Rightarrow> task_base" where
  "selfish t = setContinuationCallback (Some (\<lambda>_. ContTask 7)) new_task"

lemma selfish_run:
  "\<exists>x. run simple_tasks rm [DoPush True 7 False, DoNotify 7 None] (init_sys 0 1 selfish) = Some x
     \<and> completing simple_tasks 7 (sq x) \<and> continuationTask 7 (m_tasks (sq x) 7) = ContTask 7
     \<and> absq (sq x) = \<lparr>aq_pending = [], aq_executing = [7], aq_ready = []\<rparr> \<and> m_maxExecuting (sq x) = 1
     \<and> m_maxReadyOrExecuting (sq x) = 0"
  by (simp add: selfish_def setContinuationCallback_def completing_def eval_queue eval_task)

lemma eq_self_continuation_witness:
  "\<exists>s s'. wf_eq s \<and> onReady simple_tasks 7 s = Inr (None, None, s')
     \<and> absq s' = \<lparr>aq_pending = [], aq_executing = [7], aq_ready = []\<rparr>"
proof -
  obtain x where x: "run simple_tasks True [DoPush True 7 False, DoNotify 7 None] (init_sys 0 1 selfish) = Some x"
    "completing simple_tasks 7 (sq x)" "continuationTask 7 (m_tasks (sq x) 7) = ContTask 7"
    "absq (sq x) = \<lparr>aq_pending = [], aq_executing = [7], aq_ready = []\<rparr>" "m_maxExecuting (sq x) = 1"
    "m_maxReadyOrExecuting (sq x) = 0"
    using selfish_run [of True] by blast
  have "reach simple_tasks True 0 (init_sys 0 1 selfish)"
    by (rule Init) (simp add: selfish_def setContinuationCallback_def new_task_def)
  from reach_wf [OF simple_tasks_ok run_reach [OF x(1) this]] have wf: "wf_eq (sq x)" .
  from eq_self_continuation [OF simple_tasks_ok wf x(2,3)] wf x(4-) show ?thesis
    by (auto simp: aq_restart_def padq_def aq_pad_def aq_slots_def)
qed

text \<open>
  Without a limit on the ready tasks, completing a task with no continuation takes exactly one
  task out of the pending and executing lists and wakes the waiters, and when work is still pending
  afterwards some task executes: the queue cannot stall with pending work, and draining it takes
  exactly as many completions as it holds unfinished tasks.
\<close>

theorem eq_progress:
  assumes "never_aborts K" "wf_eq s" "completing K t s" "continuationTask t (m_tasks s t) = ContNone"
    "m_maxReadyOrExecuting s = 0"
  shows "\<exists>n g s'. onReady K t s = Inr (n, g, s') \<and> m_cvSignals s' = m_cvSignals s + 1
     \<and> length (m_pending s') + length (m_executing s') + 1 = length (m_pending s) + length (m_executing s)
     \<and> (m_pending s' \<noteq> [] \<longrightarrow> m_executing s' \<noteq> [])"
proof -
  have nc: "continuationTask t (m_tasks s t) \<noteq> ContTask t" using assms(4) by simp
  obtain s' where s': "onReady K t s = Inr (getEventNotifyCB (if keepWhen (completesFailed t s) s then TaskReady else
      TaskDiscarded) (Some t) s, if idle s' then Some (m_activeWorkGeneration s') else None, s')"
    "m_cvSignals s' = m_cvSignals s + 1"
    "absq s' = padq s (aq_retire t (keepWhen (completesFailed t s) s) (absq s))"
    by (rule onReady_other [OF assms(1-3) nc])
      (use assms(4) in \<open>auto simp: completed_def continued_def idle_abs gens_def\<close>)
  have len: "length (m_pending u) = length (aq_pending (absq u))" "length (m_executing u) = length (aq_executing (absq u))" for u
    by (simp_all add: absq_def)
  have te: "t \<in> set (aq_executing (absq s))" using assms(3) by (simp add: completing_def)
  have z: "unat (m_maxExecuting s) = 0 \<or> 0 < unat (m_maxExecuting s)" by linarith
  have pos: "length (aq_executing (absq s)) > 0" using te by auto
  have padlen: "length (aq_pending (padq s q)) + length (aq_executing (padq s q))
      = length (aq_pending q) + length (aq_executing q)" for q
    by (simp add: padq_def aq_pad_def min_def)
  have "length (m_pending s') + length (m_executing s') + 1 = length (m_pending s) + length (m_executing s)"
    unfolding len s'(3) padlen using te pos by (simp add: aq_retire_def length_remove1)
  moreover have "m_pending s' \<noteq> [] \<longrightarrow> m_executing s' \<noteq> []"
    unfolding absq_empty s'(3) using assms(5) z
    by (auto simp: padq_def aq_pad_def aq_slots_def)
  ultimately show ?thesis using s'(1,2) by blast
qed

lemma eq_progress_witness:
  "\<exists>s n g s'. wf_eq s \<and> length (m_pending s) + length (m_executing s) = 2 \<and> onReady simple_tasks 7 s = Inr (n, g, s')
     \<and> length (m_pending s') + length (m_executing s') = 1"
proof -
  obtain x where x: "run simple_tasks True (take 4 demo_actions) demo = Some x"
    "absq (sq x) = \<lparr>aq_pending = [8], aq_executing = [7], aq_ready = [9]\<rparr>"
    "m_observerThis (sq x)" "m_nextInfo (sq x) = 3" "m_state (m_tasks (sq x) 7) = PendingCompletion"
    "continuationTask 7 (m_tasks (sq x) 7) = ContNone" "m_maxReadyOrExecuting (sq x) = 0"
    using demo_prefix [of True] by auto
  have c: "completing simple_tasks 7 (sq x)" using x by (simp add: completing_def)
  have l: "length (m_pending (sq x)) + length (m_executing (sq x)) = 2"
    using arg_cong [OF x(2), of "\<lambda>q. length (aq_pending q) + length (aq_executing q)"] by (simp add: absq_def)
  from eq_progress [OF simple_tasks_ok demo_wf [OF x(1)] c x(6,7)] l demo_wf [OF x(1)] show ?thesis by auto
qed

end
