(* ===== verification/EqSysProps.thy ===== *)
theory EqSysProps
  imports EqProps
begin

text \<open>
  The properties of the operations of the execution queue that wait, and of its whole history: the
  generations, the final event, the exclusion of serialized callbacks, and two runs that show where
  the wake-ups and the description of the final event fall short.
\<close>

section \<open>Operations that wait\<close>

text \<open>
  Whatever the other threads do while it waits, a flush ends in one of three ways and never by
  an assertion: it returns with nothing pending or executing (and with the lists it was to discard
  empty), it rethrows the exception of a failed ready task and leaves the ready list empty, or it
  still waits, and then the queue does hold unfinished work.
\<close>

theorem eq_flush:
  assumes "never_aborts K" "wf_eq s" "harmless others"
  shows "\<exists>r. flush K others discardPending nothrowIfFailed discardReady cancelExecuting s = Inr r
     \<and> wf_eq (outcome_state r)
     \<and> (case r of
          Returned _ s' \<Rightarrow> \<not> hasPendingOrExecuting s' \<and> (discardReady \<longrightarrow> m_ready s' = [])
        | Threw e s' \<Rightarrow> \<not> nothrowIfFailed \<and> m_ready s' = [] \<and> (\<exists>x. e = TaskException x)
        | Waiting s' \<Rightarrow> hasPendingOrExecuting s')"
proof -
  obtain r where r: "flushInternal K others True discardPending nothrowIfFailed discardReady cancelExecuting s = Inr r"
    "wf_eq (outcome_state r)"
    "case r of Returned _ s' \<Rightarrow> (True \<longrightarrow> \<not> hasPendingOrExecuting s') \<and> (discardReady \<longrightarrow> m_ready s' = [])
            \<and> (discardPending \<and> \<not> True \<longrightarrow> m_pending s' = [])
        | Threw e s' \<Rightarrow> \<not> nothrowIfFailed \<and> m_ready s' = [] \<and> (\<exists>x. e = TaskException x)
        | Waiting s' \<Rightarrow> True \<and> hasPendingOrExecuting s'"
    using flush_ok [OF assms, of True discardPending nothrowIfFailed discardReady cancelExecuting] by blast
  then show ?thesis by (intro exI [of _ r]) (simp add: flush_def split: outcome.splits)
qed

lemma harmless_jump: "wf_eq s \<Longrightarrow> harmless [\<lambda>_. s]"
  by (simp add: harmless_def)

lemma eq_flush_witness:
  "\<exists>s s' r. wf_eq s \<and> aq_pending (absq s) = [8] \<and> flush simple_tasks [\<lambda>_. s'] False False True False s = Inr r
     \<and> wf_eq (outcome_state r)"
proof -
  obtain x y where x: "run simple_tasks True (take 4 demo_actions) demo = Some x" "aq_pending (absq (sq x)) = [8]"
    and y: "run simple_tasks True demo_actions demo = Some y"
    using demo_prefix [of True] demo_run [of True] by auto
  from eq_flush [OF simple_tasks_ok demo_wf [OF x(1)] harmless_jump [OF demo_wf [OF y]]] x(2) demo_wf [OF x(1)]
  show ?thesis by blast
qed

text \<open>
  A pop never fails an assertion and never throws.  When it yields a task, that task was the
  head of the ready list and has been removed (a peek leaves it); when it yields none, nothing is
  ready, and with \<open>wait\<close> the whole queue is empty; it keeps waiting only while nothing is ready
  and the queue is not empty.
\<close>

theorem eq_pop:
  assumes "never_aborts K" "wf_eq s" "harmless others"
  shows "\<exists>r. getFirstReady K others wait remove s = Inr r \<and> wf_eq (outcome_state r)
     \<and> (case r of
          Returned None s' \<Rightarrow> m_ready s' = [] \<and> (wait \<longrightarrow> aq_empty (absq s'))
        | Returned (Some t) s' \<Rightarrow> \<exists>s0. wf_eq s0 \<and> aq_ready (absq s0) \<noteq> [] \<and> t = hd (aq_ready (absq s0))
            \<and> absq s' = (absq s0)\<lparr>aq_ready := (if remove then tl (aq_ready (absq s0)) else aq_ready (absq s0))\<rparr>
        | Threw e s' \<Rightarrow> False
        | Waiting s' \<Rightarrow> wait \<and> m_ready s' = [] \<and> \<not> aq_empty (absq s'))"
  using pop_ok [OF assms, of wait remove] by (simp only: popped_def)

lemma eq_pop_witness:
  "\<exists>s r. aq_ready (absq s) = [9, 7, 8] \<and> getFirstReady simple_tasks [] True True s = Inr r \<and> wf_eq (outcome_state r)"
proof -
  obtain x where x: "run simple_tasks True demo_actions demo = Some x" "aq_ready (absq (sq x)) = [9, 7, 8]"
    using demo_run [of True] by auto
  have "harmless []" by (simp add: harmless_def)
  from eq_pop [OF simple_tasks_ok demo_wf [OF x(1)] this, of True True] x(2) show ?thesis by blast
qed

text \<open>
  Waiting for a task (with or without priority or cancellation) never fails an assertion.  It
  returns only with the task out of the queue, it throws only for a task the queue does not hold
  and that has not completed, and it keeps waiting only while the queue holds the task and the task
  is not ready.
\<close>

theorem eq_wait:
  assumes "never_aborts K" "wf_eq s" "harmless others"
  shows "\<exists>r. waitInternal K others t prio cancel s = Inr r \<and> wf_eq (outcome_state r)
     \<and> (case r of
          Returned _ s' \<Rightarrow> \<not> aq_member t (absq s')
        | Threw e s' \<Rightarrow> e = NotInQueue \<and> \<not> aq_member t (absq s') \<and> m_state (m_tasks s' t) \<noteq> Completed
        | Waiting s' \<Rightarrow> aq_member t (absq s') \<and> t \<notin> set (aq_ready (absq s')))"
  by (rule wait_ok [OF assms])

lemma eq_wait_witness:
  "\<exists>s s' r. aq_pending (absq s) = [8] \<and> waitInternal simple_tasks [\<lambda>_. s'] 8 True False s = Inr r \<and> wf_eq (outcome_state r)"
proof -
  obtain x y where x: "run simple_tasks True (take 4 demo_actions) demo = Some x" "aq_pending (absq (sq x)) = [8]"
    and y: "run simple_tasks True demo_actions demo = Some y"
    using demo_prefix [of True] demo_run [of True] by auto
  from eq_wait [OF simple_tasks_ok demo_wf [OF x(1)] harmless_jump [OF demo_wf [OF y]], of 8 True False] x(2)
  show ?thesis by blast
qed

text \<open>
  Cancelling without waiting succeeds exactly for a pending task, which leaves the pending list
  and is kept as ready only when the options ask for it; anything else is left as it is.
\<close>

theorem eq_cancel:
  assumes "wf_eq s"
  shows "\<exists>s'. cancel_task K others t False s = Inr (Returned (t \<in> set (aq_pending (absq s))) s') \<and> wf_eq s'
     \<and> config s' = config s \<and> gens s' = gens s
     \<and> aq_pending (absq s') = remove1 t (aq_pending (absq s)) \<and> aq_executing (absq s') = aq_executing (absq s)
     \<and> aq_ready (absq s') = (if t \<in> set (aq_pending (absq s)) \<and> m_options s AND OptionKeepCanceled \<noteq> 0
          then aq_ready (absq s) @ [t] else aq_ready (absq s))"
  using cancel_ok [OF assms, of K others t]
  by (cases "t \<in> set (aq_pending (absq s))") (auto simp: steps_to_def gens_def remove1_idem)

lemma eq_cancel_witness:
  "\<exists>s s'. aq_pending (absq s) = [8] \<and> cancel_task simple_tasks [] 8 False s = Inr (Returned True s')
     \<and> aq_pending (absq s') = []"
proof -
  obtain x where x: "run simple_tasks True (take 4 demo_actions) demo = Some x" "aq_pending (absq (sq x)) = [8]"
    using demo_prefix [of True] by auto
  from eq_cancel [OF demo_wf [OF x(1)], of simple_tasks "[]" 8] x(2) obtain s' where
    "cancel_task simple_tasks [] 8 False (sq x) = Inr (Returned True s')" "aq_pending (absq s') = []" by auto
  with x(2) show ?thesis by blast
qed

text \<open>
  The operations declared not to throw do not: a forced flush and the disposal end either
  waiting, with unfinished work in the queue, or returned, with the queue empty when they were to
  wait; the disposal then has also detached the observer of the tasks.
\<close>

theorem eq_force_flush_dispose:
  assumes "never_aborts K" "wf_eq s" "harmless others"
  shows "(\<exists>r. forceFlushNoThrow K others wait s = Inr r \<and> wf_eq (outcome_state r)
        \<and> (case r of Returned _ s' \<Rightarrow> m_pending s' = [] \<and> m_ready s' = [] \<and> (wait \<longrightarrow> aq_empty (absq s'))
           | Threw _ _ \<Rightarrow> False | Waiting s' \<Rightarrow> wait \<and> hasPendingOrExecuting s'))
     \<and> (\<exists>r. dispose K others s = Inr r \<and> wf_eq (outcome_state r)
        \<and> (case r of Returned _ s' \<Rightarrow> aq_empty (absq s') \<and> \<not> m_observerThis s'
           | Threw _ _ \<Rightarrow> False | Waiting s' \<Rightarrow> hasPendingOrExecuting s'))"
proof
  have flush: "\<exists>r. noexceptR (flushInternal K others wait True True True True s) = Inr r \<and> wf_eq (outcome_state r)
     \<and> (case r of Returned _ s' \<Rightarrow> m_pending s' = [] \<and> m_ready s' = [] \<and> (wait \<longrightarrow> aq_empty (absq s'))
        | Threw _ _ \<Rightarrow> False | Waiting s' \<Rightarrow> wait \<and> hasPendingOrExecuting s')" for wait
  proof -
    obtain r where r: "flushInternal K others wait True True True True s = Inr r" "wf_eq (outcome_state r)"
      "case r of Returned _ s' \<Rightarrow> (wait \<longrightarrow> \<not> hasPendingOrExecuting s') \<and> (True \<longrightarrow> m_ready s' = [])
            \<and> (True \<and> \<not> wait \<longrightarrow> m_pending s' = [])
        | Threw e s' \<Rightarrow> \<not> True \<and> m_ready s' = [] \<and> (\<exists>x. e = TaskException x)
        | Waiting s' \<Rightarrow> wait \<and> hasPendingOrExecuting s'"
      using flush_ok [OF assms, of wait True True True True] by blast
    then show ?thesis
      by (intro exI [of _ r])
        (auto simp: noexceptR_def aq_empty_def hasPendingOrExecuting_def absq_def split: outcome.splits)
  qed
  from flush [of wait] obtain r where r: "noexceptR (flushInternal K others wait True True True True s) = Inr r"
    "wf_eq (outcome_state r)" "case r of Returned _ s' \<Rightarrow> m_pending s' = [] \<and> m_ready s' = [] \<and> (wait \<longrightarrow> aq_empty (absq s'))
        | Threw _ _ \<Rightarrow> False | Waiting s' \<Rightarrow> wait \<and> hasPendingOrExecuting s'" by blast
  then show "\<exists>r. forceFlushNoThrow K others wait s = Inr r \<and> wf_eq (outcome_state r)
        \<and> (case r of Returned _ s' \<Rightarrow> m_pending s' = [] \<and> m_ready s' = [] \<and> (wait \<longrightarrow> aq_empty (absq s'))
           | Threw _ _ \<Rightarrow> False | Waiting s' \<Rightarrow> wait \<and> hasPendingOrExecuting s')"
    by (intro exI [of _ r]) (cases r, auto simp: forceFlushNoThrow_def andThen_def isEmptyInternal_ok)
  from flush [of True] obtain q where q: "noexceptR (flushInternal K others True True True True True s) = Inr q"
    "wf_eq (outcome_state q)" "case q of Returned _ s' \<Rightarrow> m_pending s' = [] \<and> m_ready s' = [] \<and> (True \<longrightarrow> aq_empty (absq s'))
        | Threw _ _ \<Rightarrow> False | Waiting s' \<Rightarrow> True \<and> hasPendingOrExecuting s'" by blast
  have detach: "wf_eq u \<Longrightarrow> wf_eq (u\<lparr>m_observerThis := False\<rparr>)" for u
    by (rule wf_eq_frame) simp_all
  show "\<exists>r. dispose K others s = Inr r \<and> wf_eq (outcome_state r)
        \<and> (case r of Returned _ s' \<Rightarrow> aq_empty (absq s') \<and> \<not> m_observerThis s'
           | Threw _ _ \<Rightarrow> False | Waiting s' \<Rightarrow> hasPendingOrExecuting s')"
  proof (cases q)
    case (Returned u s')
    with q detach [of s'] show ?thesis
      by (intro exI [of _ "Returned () (s'\<lparr>m_observerThis := False\<rparr>)"])
        (simp add: dispose_def andThen_def isEmptyInternal_ok aq_empty_def absq_def)
  next
    case (Waiting s')
    with q show ?thesis by (intro exI [of _ "Waiting s'"]) (simp add: dispose_def andThen_def)
  qed (use q in simp)
qed

lemma eq_force_flush_dispose_witness:
  "\<exists>s r. aq_ready (absq s) = [9, 7, 8] \<and> dispose simple_tasks [] s = Inr r \<and> wf_eq (outcome_state r)"
proof -
  obtain x where x: "run simple_tasks True demo_actions demo = Some x" "aq_ready (absq (sq x)) = [9, 7, 8]"
    using demo_run [of True] by auto
  have "harmless []" by (simp add: harmless_def)
  from eq_force_flush_dispose [OF simple_tasks_ok demo_wf [OF x(1)] this] x(2) show ?thesis by blast
qed

section \<open>The final event\<close>

lemma eq_generations_base:
  assumes "never_aborts K" "reach K rm n x" "n < 2 ^ 64"
  shows "m_lastPublishedGeneration (sq x) \<le> m_lastCandidateGeneration (sq x)"
  using reach_gen_inv [OF assms] by (simp add: gen_inv_def Let_def)

text \<open>
  C4 In every history of fewer than \<open>2 ^ 64\<close> steps the generations for which
  \<open>AllTasksCompleted\<close> is published strictly increase, so the event is published at most once
  per generation of work; the last published generation never exceeds the last candidate, and the
  last candidate never exceeds the work admitted.
\<close>

theorem eq_generations:
  assumes "never_aborts K" "reach K rm n x" "n < 2 ^ 64"
  shows "sorted_wrt (<) (s_published x) \<and> distinct (s_published x)
     \<and> m_lastPublishedGeneration (sq x) = (if s_published x = [] then 0 else last (s_published x))
     \<and> m_lastPublishedGeneration (sq x) \<le> m_lastCandidateGeneration (sq x)
     \<and> m_lastCandidateGeneration (sq x) \<le> m_activeWorkGeneration (sq x)"
  using reach_gen_inv [OF assms] reach_last_inv [OF assms(1,2)]
  by (auto simp: gen_inv_def last_inv_def Let_def strict_sorted_iff)

lemma eq_generations_witness:
  "\<exists>x. reach simple_tasks True (length demo_actions) x \<and> s_published x = [2] \<and> distinct (s_published x)
     \<and> m_lastPublishedGeneration (sq x) = 2"
proof -
  obtain x where x: "run simple_tasks True demo_actions demo = Some x" "s_published x = [2]"
    using demo_run [of True] by auto
  have "length demo_actions < 2 ^ 64" by (simp add: demo_actions_def)
  from eq_generations [OF simple_tasks_ok demo_reach [OF x(1)] this] demo_reach [OF x(1)] x(2)
  show ?thesis by auto
qed

text \<open>
  C3 No final event is lost: in a history of less than \<open>2 ^ 64\<close> steps where pending tasks leave the
  queue by completing only (none is cancelled while it is pending, and the queue is not flushed), once
  nothing is pending or executing and no completing thread is between its two critical sections, the
  event has been published for the newest generation of work.
\<close>

theorem eq_final_event:
  assumes "never_aborts K" "reach K False n x" "n < 2 ^ 64" "idle (sq x)" "s_inflight x = []"
  shows "m_lastPublishedGeneration (sq x) = m_activeWorkGeneration (sq x)
     \<and> (m_activeWorkGeneration (sq x) \<noteq> 0 \<longrightarrow> last (s_published x) = m_activeWorkGeneration (sq x) \<and> s_published x \<noteq> [])"
proof -
  have "m_lastCandidateGeneration (sq x) = m_activeWorkGeneration (sq x)"
    "\<not> m_lastPublishedGeneration (sq x) < m_lastCandidateGeneration (sq x)"
    using reach_drain_inv [OF assms(1,2)] assms(4,5) by (auto simp: drain_inv_def)
  then show ?thesis
    using eq_generations_base [OF assms(1-3)] reach_last_inv [OF assms(1,2)] by (auto simp: last_inv_def)
qed

lemma eq_final_event_witness:
  "\<exists>x. reach simple_tasks False (length demo_actions) x \<and> idle (sq x) \<and> s_inflight x = []
     \<and> m_activeWorkGeneration (sq x) = 2 \<and> last (s_published x) = 2"
proof -
  obtain x where x: "run simple_tasks False demo_actions demo = Some x" "idle (sq x)" "s_inflight x = []"
    "m_activeWorkGeneration (sq x) = 2"
    using demo_run [of False] by auto
  have "length demo_actions < 2 ^ 64" by (simp add: demo_actions_def)
  from eq_final_event [OF simple_tasks_ok demo_reach [OF x(1)] this x(2,3)] demo_reach [OF x(1)] x(2-)
  show ?thesis by auto
qed

text \<open>
  An observer that lets one task be ready or executing; task 7 completes and is kept, task 8 is
  pushed and stays pending until it is cancelled, then the candidate of task 7 is validated.
\<close>

definition late_actions :: "action list" where
  "late_actions = [DoObserve (Some \<lparr>ob_connected = True, ob_maxReadyOrExecuting = 1\<rparr>) DeliveryConcurrent AllEvents,
     DoPush True 7 False, DoNotify 7 None, DoComplete 7, DoPush True 8 False, DoCancel 8, DoPublish 1]"

text \<open>
  The event is also published for a generation that is not the newest: work admitted after the
  candidate was formed, and cancelled while it was still pending, does not suppress it.  (The
  queue's limit lets one task be ready or executing; task 7 is kept as ready, so task 8 waits until
  it is cancelled.)
\<close>

theorem eq_event_after_admission:
  "\<exists>x y. run simple_tasks True (take 4 late_actions) demo = Some x \<and> s_inflight x = [1]
     \<and> m_activeWorkGeneration (sq x) = 1
     \<and> run simple_tasks True (drop 4 late_actions) x = Some y \<and> m_activeWorkGeneration (sq y) = 2
     \<and> s_published y = [1] \<and> m_lastPublishedGeneration (sq y) = 1"
  by (simp add: demo_def late_actions_def AllEvents_def eval_queue eval_task)

section \<open>A wake-up that does not come\<close>

text \<open>
  Cancelling the last pending task does not wake a flush that waits for it: the flush blocks
  because the queue has pending work, the cancellation makes its condition true, but the condition
  variable is not signalled and no task executes whose completion could signal it.
\<close>

theorem eq_cancel_lost_wakeup:
  "\<exists>x w y. run simple_tasks True (take 5 late_actions) demo = Some x
     \<and> flush simple_tasks [] False False False False (sq x) = Inr (Waiting w) \<and> hasPendingOrExecuting w
     \<and> cancel_task simple_tasks [] 8 False w = Inr (Returned True y)
     \<and> \<not> hasPendingOrExecuting y \<and> m_cvSignals y = m_cvSignals w"
  by (simp add: flush_def demo_def late_actions_def AllEvents_def eval_queue eval_task)

section \<open>Serialized callbacks\<close>

text \<open>
  With serialized delivery at most one callback of a queue is in progress, under any
  interleaving; while it is, every other thread that wants to deliver a serialized callback blocks,
  and the thread that runs it aborts the program when it would deliver another.
\<close>

theorem eq_serialized:
  assumes "never_aborts K" "reach K rm n x"
  shows "length (serialized x) \<le> 1
     \<and> (\<forall>(tid, c) \<in> set (serialized x). \<forall>c'. n_serialize c' \<longrightarrow>
          notifyBegin tid c' (sq x) = Inl RtAbort
          \<and> (\<forall>tid'. tid' \<noteq> tid \<longrightarrow> notifyBegin tid' c' (sq x) = Inr None))"
  using reach_delivery_inv [OF assms]
  by (auto simp: delivery_inv_def notifyBegin_def split: option.splits)

lemma eq_serialized_witness:
  "\<exists>x c. serialized x = [(3, c)] \<and> length (serialized x) \<le> 1 \<and> notifyBegin 4 c (sq x) = Inr None"
proof -
  let ?c = "\<lparr>n_event = TaskReady, n_task = Some 7, n_serialize = True\<rparr>"
  obtain x where x: "run simple_tasks True [DoDeliver 3 ?c] demo = Some x" "serialized x = [(3, ?c)]"
    by (simp add: demo_def eval_queue serialized_def)
  from eq_serialized [OF simple_tasks_ok demo_reach [OF x(1)]] x(2) show ?thesis
    by (intro exI [of _ x] exI [of _ ?c]) simp
qed

end
