(* ===== verification/TaskLifecycle.thy ===== *)
theory TaskLifecycle
  imports TaskBase
begin

text \<open>
  The life of a task as a step relation: scheduling, completion processing, cancellation, forced
  failure and the executor's acknowledgement; its invariant, and the properties of tasks.
\<close>

section \<open>The step relation\<close>

text \<open>A task with the number of times it was scheduled and its ready callback was invoked.\<close>

type_synonym life = "task_base \<times> nat \<times> nat"

inductive task_step :: "task_class \<Rightarrow> life \<Rightarrow> life \<Rightarrow> bool" for K where
  Schedule: "scheduleNothrow K t = Inr t' \<Longrightarrow> task_step K (t, s, c) (t', s + 1, c)"
| Notify: "notifyReadyImpl K allow e t = Inr (t', called) \<Longrightarrow>
    task_step K (t, s, c) (t', s, if called then c + 1 else c)"
| Cancel: "task_step K (t, s, c) (requestCancel K t, s, c)"
| Fail: "task_step K (t, s, c) (setExceptionInternal e t, s, c)"
| Acknowledge: "m_state t = PendingCompletion \<Longrightarrow> task_step K (t, s, c) (setCompletedState t, s, c)"
| SetContinuation: "task_step K (t, s, c) (setContinuationCallback cb t, s, c)"

inductive_cases task_stepE: "task_step K (t, s, c) (t', s', c')"

inductive reachable_task :: "task_class \<Rightarrow> life \<Rightarrow> bool" for K where
  Init: "reachable_task K (new_task, 0, 0)"
| Step: "reachable_task K l \<Longrightarrow> task_step K l l' \<Longrightarrow> reachable_task K l'"

section \<open>The invariant\<close>

definition wf_task :: "task_base \<Rightarrow> bool" where
  "wf_task t \<longleftrightarrow> (m_hasException t \<longleftrightarrow> m_exception t \<noteq> None)
     \<and> (m_cbReady t \<longleftrightarrow> m_state t = Running)
     \<and> (m_notifyCalled t \<longleftrightarrow> m_state t \<ge> PendingCompletion)"

fun life_inv :: "life \<Rightarrow> bool" where
  "life_inv (t, s, c) \<longleftrightarrow> wf_task t \<and> s = c + (if m_state t = Running then 1 else 0)
     \<and> (s = 0 \<longleftrightarrow> m_state t = Created)"

lemma state_order [simp]:
  "PendingCompletion \<le> s \<longleftrightarrow> s = PendingCompletion \<or> s = Completed"
  "(s::task_state) \<noteq> Running \<and> s \<noteq> Created \<longleftrightarrow> s = PendingCompletion \<or> s = Completed"
  by (cases s; simp add: less_eq_task_state_def)+

lemma wf_new_task: "wf_task new_task"
  by (simp add: wf_task_def new_task_def)

lemma wf_schedule: "wf_task t \<Longrightarrow> scheduleNothrow K t = Inr t' \<Longrightarrow> wf_task t'"
  using scheduleNothrow_cases [of K t t']
  by (cases "m_state t") (simp_all add: wf_task_def)

lemma notifyReadyImpl_cases:
  assumes "wf_task t" "notifyReadyImpl K allow e t = Inr (t', called)"
  shows "wf_task t' \<and> (called \<longleftrightarrow> m_state t = Running \<and> m_state t' = PendingCompletion)
     \<and> (\<not> called \<longrightarrow> m_state t' = m_state t)"
proof (cases "scheduleTaskFinishContinuation K e")
  case FinishNone
  with assms show ?thesis
    by (cases "m_state t") (auto simp: notifyReadyImpl_def wf_task_def Let_def split: if_splits)
next
  case FinishScheduled
  with assms show ?thesis
    by (cases "m_state t") (auto simp: notifyReadyImpl_def wf_task_def Let_def split: if_splits)
next
  case (FinishThrows x)
  with assms show ?thesis
    by (cases "m_state t") (auto simp: notifyReadyImpl_def wf_task_def Let_def split: if_splits)
qed

lemma life_inv_step: "task_step K l l' \<Longrightarrow> life_inv l \<Longrightarrow> life_inv l'"
proof (induction rule: task_step.induct)
  case (Schedule t t' s c)
  then show ?case using scheduleNothrow_cases(1,2) [of K t t'] wf_schedule by auto
next
  case (Notify allow e t t' called s c)
  then show ?case using notifyReadyImpl_cases [of t K allow e t' called] by (auto split: if_splits)
qed (auto simp: wf_task_def setCompletedState_def setContinuationCallback_def)

lemma life_inv_reachable: "reachable_task K l \<Longrightarrow> life_inv l"
proof (induction rule: reachable_task.induct)
  case Init
  show ?case using wf_new_task by (simp add: new_task_def)
next
  case (Step l l')
  then show ?case using life_inv_step by blast
qed

section \<open>Properties\<close>

text \<open>
  C5 The ready callback of a task is invoked exactly once per scheduling: at every reachable state
  the invocations are the schedulings, less one exactly while the task is running; the callback is
  held exactly while it is running, and the failure flag always agrees with the stored exception.
\<close>

theorem task_ready_once:
  assumes "reachable_task K (t, scheduled, called)"
  shows "scheduled = called + (if m_state t = Running then 1 else 0)
     \<and> (m_cbReady t \<longleftrightarrow> m_state t = Running) \<and> (m_hasException t \<longleftrightarrow> m_exception t \<noteq> None)"
  using life_inv_reachable [OF assms] by (simp add: wf_task_def)

definition sample_run :: "task_base res" where
  "sample_run = bindR (scheduleNothrow simple_task_class new_task)
     (\<lambda>t. bindR (onExecute simple_task_class (Some (ContTask 9)) t) (\<lambda>(t', _). Inr t'))"

lemma sample_run_state:
  "sample_run = Inr (new_task\<lparr>m_state := PendingCompletion, m_notifyCalled := True,
     m_continuationCallback := Some (\<lambda>_. ContTask 9), m_posted := [PostOnExecute]\<rparr>)"
  by (simp add: sample_run_def scheduleNothrow_def new_task_def simple_task_class_def base_class_def
      onExecute_def notifyReady_def notifyReadyImpl_def setExceptionInternal_def)

lemma task_ready_once_witness:
  "\<exists>t. reachable_task simple_task_class (t, 1, 0) \<and> m_state t = Running \<and> m_cbReady t"
proof -
  let ?t = "new_task\<lparr>m_state := Running, m_cbReady := True, m_posted := [PostOnExecute]\<rparr>"
  have "scheduleNothrow simple_task_class new_task = Inr ?t"
    by (simp add: scheduleNothrow_def new_task_def simple_task_class_def base_class_def)
  then have "reachable_task simple_task_class (?t, 0 + 1, 0)"
    by (intro reachable_task.Step [OF reachable_task.Init] task_step.Schedule)
  with task_ready_once [of simple_task_class ?t 1 0] show ?thesis by auto
qed

text \<open>
  Completion of a running task: without a finish continuation it always invokes the callback and
  leaves the task pending completion, failed exactly when it had an exception already or the
  completion reports one, and the exception stored first wins.
\<close>

theorem task_completion:
  assumes "wf_task t" "m_state t = Running" "scheduleTaskFinishContinuation K e = FinishNone"
  shows "\<exists>t'. notifyReady K e t = Inr (t', True) \<and> m_state t' = PendingCompletion \<and> wf_task t'
     \<and> m_exception t' = (if m_exception t \<noteq> None then m_exception t else onTaskStoppedNothrow K e)
     \<and> (isFailed t' \<longleftrightarrow> m_exception t \<noteq> None \<or> onTaskStoppedNothrow K e \<noteq> None)"
  using assms by (auto simp: notifyReady_def notifyReadyImpl_def Let_def wf_task_def isFailed_def)

lemma task_completion_witness:
  "\<exists>t'. notifyReady (base_class (\<lambda>_. ScheduleOk [])) (Some (UserExc 1))
       (new_task\<lparr>m_state := Running, m_cbReady := True\<rparr>) = Inr (t', True)
     \<and> m_state t' = PendingCompletion \<and> m_exception t' = Some (UserExc 1) \<and> isFailed t'"
  using task_completion [of "new_task\<lparr>m_state := Running, m_cbReady := True\<rparr>"
      "base_class (\<lambda>_. ScheduleOk [])" "Some (UserExc 1)"]
  by (auto simp: wf_task_def new_task_def base_class_def)

text \<open>
  Cancelling: a task cancelled before its first run is never started, its scheduling only posts
  a failing completion; a task that has run before forgets the request when it is rescheduled and is
  started.
\<close>

theorem task_cancel_before_schedule:
  assumes "m_state t \<noteq> Running" "\<not> scheduleEvenIfAlreadyCanceled K" "scheduleTask K = (\<lambda>_. ScheduleOk [PostOnExecute])"
  shows "\<exists>t'. scheduleNothrow K (requestCancel K t) = Inr t' \<and> m_state t' = Running
     \<and> m_posted t' = m_posted t @ (if m_state t = Created then [PostNotifyReady (Some OperationAborted) True]
                                  else [PostOnExecute])"
proof -
  have "m_posted (requestCancel K t) = m_posted t"
    by (simp add: requestCancel_def requestCancelInternal_def requestCancelInternalMarkOnlyNoLock_def Let_def)
  with assms show ?thesis
    by (cases "m_state t = Created") (auto simp: scheduleNothrow_def Let_def setExceptionInternal_def)
qed

lemma task_cancel_before_schedule_witness:
  "\<exists>t'. scheduleNothrow simple_task_class (requestCancel simple_task_class new_task) = Inr t'
     \<and> m_posted t' = [PostNotifyReady (Some OperationAborted) True]"
  using task_cancel_before_schedule [of new_task simple_task_class]
  by (auto simp: new_task_def simple_task_class_def base_class_def)

text \<open>
  A continuation produced by one execution of a simple task stays in force: when the task is
  scheduled again and its callback then yields none (or the run is cancelled), the task still
  reports the earlier continuation.
\<close>

theorem task_stale_continuation:
  assumes "m_continuationCallback t = Some (\<lambda>_. ContTask c)" "m_state t = PendingCompletion \<or> m_state t = Completed"
    and "scheduleNothrow simple_task_class t = Inr t1" "onExecute simple_task_class callback t1 = Inr (t2, called)"
    and "callback \<in> {None, Some ContNone, Some (ContThrows e)}"
  shows "continuationTask self t2 = ContTask c \<and> called"
proof -
  note s = scheduleNothrow_cases [OF assms(3)]
  have n: "\<not> m_notifyCalled t1" "m_continuationCallback t1 = Some (\<lambda>_. ContTask c)" "m_cbReady t1"
    using s assms(1,2) by auto
  from assms(4,5) obtain x where "notifyReady simple_task_class x t1 = Inr (t2, called)"
    by (auto simp: onExecute_def split: if_splits)
  with n have "called \<and> m_continuationCallback t2 = m_continuationCallback t1"
    by (auto simp: notifyReady_def notifyReadyImpl_def simple_task_class_def base_class_def Let_def split: if_splits)
  with n show ?thesis by (simp add: continuationTask_def)
qed

lemma task_stale_continuation_witness:
  "\<exists>t t1 t2. sample_run = Inr t \<and> scheduleNothrow simple_task_class t = Inr t1
     \<and> onExecute simple_task_class (Some ContNone) t1 = Inr (t2, True) \<and> continuationTask 3 t2 = ContTask 9"
proof -
  let ?t = "new_task\<lparr>m_state := PendingCompletion, m_notifyCalled := True,
     m_continuationCallback := Some (\<lambda>_. ContTask 9), m_posted := [PostOnExecute]\<rparr>"
  let ?t1 = "?t\<lparr>m_state := Running, m_notifyCalled := False, m_cbReady := True,
     m_posted := [PostOnExecute, PostOnExecute]\<rparr>"
  let ?t2 = "?t1\<lparr>m_state := PendingCompletion, m_notifyCalled := True, m_cbReady := False\<rparr>"
  have 1: "scheduleNothrow simple_task_class ?t = Inr ?t1"
    by (simp add: scheduleNothrow_def new_task_def simple_task_class_def base_class_def setExceptionInternal_def)
  have 2: "onExecute simple_task_class (Some ContNone) ?t1 = Inr (?t2, True)"
    by (simp add: onExecute_def notifyReady_def notifyReadyImpl_def new_task_def simple_task_class_def
        base_class_def setExceptionInternal_def)
  have "continuationTask 3 ?t2 = ContTask 9"
    using task_stale_continuation [OF _ _ 1 2, of 9 "OperationAborted" 3] by simp
  with 1 2 sample_run_state show ?thesis by blast
qed

end
