(* ===== verification/HttpParser.thy ===== *)
theory HttpParser
  imports UriSyntax
begin

text \<open>
  The request parser of the HTTP server: the context, the start line and the header lines
  (\<open>httpserver/detail/ParserHelpers.h\<close>) and the incremental parser over a buffer
  (\<open>httpserver/Parser.h\<close>), with \<open>str::splitString\<close> (\<open>core/StringUtils.h\<close>).  What the
  code takes from Boost (string algorithms and \<open>lexical_cast\<close>) is a parameter, the record
  \<open>http_strings\<close>; the locale \<open>http_boost\<close> states what the properties rely on.
\<close>

section \<open>What comes from Boost\<close>

record http_strings =
  split_on :: "char \<Rightarrow> string \<Rightarrow> string list"
  to_lower :: "string \<Rightarrow> string"
  trim_ws :: "string \<Rightarrow> string"
  is_space_char :: "char \<Rightarrow> bool"
  iequals :: "string \<Rightarrow> string \<Rightarrow> bool"
  lexical_cast_size :: "string \<Rightarrow> 64 word option"

text \<open>A list of fields joined by a separator character.\<close>

fun joined :: "char \<Rightarrow> string list \<Rightarrow> string" where
  "joined c [] = []"
| "joined c [s] = s"
| "joined c (s # ss) = s @ c # joined c ss"

definition ascii_text :: "string \<Rightarrow> bool" where
  "ascii_text s \<longleftrightarrow> list_all (\<lambda>c. of_char c \<le> (127 :: nat)) s"

text \<open>
  \<open>split\<close> yields the fields between the separators, \<open>to_lower\<close> and \<open>iequals\<close> work
  character by character on ASCII text, and \<open>trim\<close> takes white space off both ends.
\<close>

locale http_boost =
  fixes H :: http_strings
  assumes split_fields: "split_on H c s \<noteq> [] \<and> joined c (split_on H c s) = s"
    and to_lower_ascii: "ascii_text s \<Longrightarrow> to_lower H s = map toLowerAscii s"
    and iequals_ascii: "ascii_text s \<Longrightarrow> ascii_text t \<Longrightarrow>
      iequals H s t \<longleftrightarrow> map toLowerAscii s = map toLowerAscii t"
    and trim_part: "\<exists>l r. s = l @ trim_ws H s @ r"

section \<open>Splitting by a separator text\<close>

text \<open>
  The loop of \<open>splitString\<close>.  The caller has refused an empty separator, so the first case does
  not arise there; each round moves \<open>currentPos\<close> forward.
\<close>

function splitLoop :: "string \<Rightarrow> string \<Rightarrow> nat \<Rightarrow> nat \<Rightarrow> string list" where
  "splitLoop txt separator endPos currentPos =
     (if separator = [] then []
      else case find_sub_from separator currentPos txt of
        Some pos \<Rightarrow>
          (if pos + length separator \<le> endPos then
             take (pos - currentPos) (drop currentPos txt) #
             (if pos + length separator \<noteq> endPos
              then splitLoop txt separator endPos (pos + length separator)
              else [take (endPos - (pos + length separator)) (drop (pos + length separator) txt)])
           else [take (endPos - currentPos) (drop currentPos txt)])
      | None \<Rightarrow> [take (endPos - currentPos) (drop currentPos txt)])"
  by pat_completeness auto
termination
  by (relation "measure (\<lambda>(txt, separator, endPos, currentPos). endPos - currentPos)")
    (auto simp: find_sub_from_def intro!: diff_less_mono2 simp flip: length_greater_0_conv)

declare splitLoop.simps [simp del]

definition splitString :: "string \<Rightarrow> string \<Rightarrow> nat \<Rightarrow> nat \<Rightarrow> string list res" where
  "splitString txt separator startPos endPos =
     bindR (chkR (length separator \<noteq> 0 \<and> startPos \<le> length txt \<and> endPos \<le> length txt \<and> startPos \<le> endPos)
             ArgumentExc)
       (\<lambda>_. if length separator > endPos - startPos
             then Inr [take (endPos - startPos) (drop startPos txt)]
             else Inr (splitLoop txt separator endPos startPos))"

section \<open>Results and context\<close>

datatype parser_result = PARSING_ERROR | PARSED | MORE_DATA_REQUIRED

text \<open>The exception of an error result is represented by (the fixed part of) its message.\<close>

type_synonym server_result = "parser_result \<times> string option"

definition serverError :: "string \<Rightarrow> server_result" where
  "serverError message = (PARSING_ERROR, Some message)"

definition serverResult :: "parser_result \<Rightarrow> server_result" where
  "serverResult resultCode =
     (if resultCode = PARSING_ERROR then serverError ''Unknown server error'' else (resultCode, None))"

record http_context =
  hc_method :: string
  hc_uri :: string
  hc_headers :: "(string \<times> string) list"
  hc_body :: string
  hc_buffer :: string
  hc_headersParsed :: bool
  hc_parsed :: bool
  hc_bodyBeginPos :: nat
  hc_expectedBodyLength :: "64 word"
  hc_maxRequestLength :: "64 word"

definition new_context :: http_context where
  "new_context = \<lparr>hc_method = [], hc_uri = [], hc_headers = [], hc_body = [], hc_buffer = [],
     hc_headersParsed = False, hc_parsed = False, hc_bodyBeginPos = 0, hc_expectedBodyLength = 0,
     hc_maxRequestLength = 0\<rparr>"

definition MAX_URI_SIZE :: nat where "MAX_URI_SIZE = 8192"
definition g_maxHeadersSize :: nat where "g_maxHeadersSize = 65536"
definition g_maxContentSize :: nat where "g_maxContentSize = 1048576"

definition g_crlf :: string where "g_crlf = [CHR 0x0D, CHR 0x0A]"
definition g_sentinel :: string where "g_sentinel = [CHR 0x0D, CHR 0x0A, CHR 0x0D, CHR 0x0A]"

section \<open>Characters\<close>

definition isChar :: "char \<Rightarrow> bool" where
  "isChar ch \<longleftrightarrow> of_char ch \<le> (127 :: nat)"

definition isCtl :: "char \<Rightarrow> bool" where
  "isCtl ch \<longleftrightarrow> of_char ch \<le> (31 :: nat) \<or> of_char ch = (127 :: nat)"

definition isTSpecial :: "char \<Rightarrow> bool" where
  "isTSpecial ch \<longleftrightarrow> ch \<in> set ''()<>@,;:/[]?={} '' \<or> ch = CHR 0x5C \<or> ch = CHR 0x22 \<or> ch = CHR 0x09"

definition isValidValue :: "string \<Rightarrow> bool" where
  "isValidValue value \<longleftrightarrow> list_all (\<lambda>ch. CHR 0x09 = ch \<or> (isChar ch \<and> \<not> isCtl ch)) value"

definition isValidName :: "string \<Rightarrow> bool" where
  "isValidName name \<longleftrightarrow>
     name \<noteq> [] \<and> list_all (\<lambda>ch. isChar ch \<and> \<not> isCtl ch \<and> \<not> isTSpecial ch) name"

section \<open>The start line and the header lines\<close>

definition parseMethodURIVersion ::
  "http_strings \<Rightarrow> string \<Rightarrow> http_context \<Rightarrow> server_result \<times> http_context" where
  "parseMethodURIVersion H inp ctx =
     (let elements = split_on H CHR '' '' inp in
      if length elements \<noteq> 3 \<or> elements ! 0 = [] \<or> elements ! 1 = [] \<or> elements ! 2 = []
      then (serverError ''Invalid start line'', ctx)
      else if \<not> isValidName (elements ! 0)
      then (serverError ''Invalid characters in the method name'', ctx)
      else let c1 = ctx\<lparr>hc_method := elements ! 0\<rparr> in
        if length (elements ! 1) > MAX_URI_SIZE then (serverError ''The request URI is too long'', c1)
        else if \<not> isValidValue (elements ! 1)
        then (serverError ''Invalid characters in the request URI'', c1)
        else let c2 = c1\<lparr>hc_uri := elements ! 1\<rparr> in
          if elements ! 2 \<noteq> ''HTTP/1.1'' \<and> elements ! 2 \<noteq> ''HTTP/1.0''
          then (serverError ''Unsupported protocol version'', c2)
          else (serverResult PARSED, c2))"

definition parseHeader ::
  "http_strings \<Rightarrow> string \<Rightarrow> http_context \<Rightarrow> server_result \<times> http_context" where
  "parseHeader H inp ctx =
     (case find_char CHR '':'' inp of
        None \<Rightarrow> (serverError ''Invalid header'', ctx)
      | Some pos \<Rightarrow>
          (let name = take pos inp in
           if name = [] then (serverError ''Empty header name'', ctx)
           else if is_space_char H (hd name) \<or> is_space_char H (last name)
           then (serverError ''White space in the header name'', ctx)
           else if \<not> isValidName name then (serverError ''Invalid characters in the header name'', ctx)
           else
             let name' = to_lower H name;
                 value = trim_ws H (drop (pos + 1) inp)
             in if \<not> isValidValue value
                then (serverError ''Invalid characters in the value of header'', ctx)
                else if map_of (hc_headers ctx) name' \<noteq> None
                then (serverError ''Duplicate header name'', ctx)
                else (serverResult PARSED, ctx\<lparr>hc_headers := hc_headers ctx @ [(name', value)]\<rparr>)))"

text \<open>The loop over the lines; the first one is the start line.\<close>

fun parseLines ::
  "http_strings \<Rightarrow> nat \<Rightarrow> string list \<Rightarrow> http_context \<Rightarrow> server_result \<times> http_context" where
  "parseLines H index [] ctx = (serverResult PARSED, ctx)"
| "parseLines H index (header # headers) ctx =
     (let (result, c1) =
        (if index \<noteq> 0 then parseHeader H header ctx else parseMethodURIVersion H header ctx)
      in if fst result \<noteq> PARSED then (result, c1) else parseLines H (index + 1) headers c1)"

section \<open>The parser\<close>

text \<open>\<open>std::find_if\<close> over the headers, by name.\<close>

definition findHeader :: "http_strings \<Rightarrow> string \<Rightarrow> http_context \<Rightarrow> (string \<times> string) option" where
  "findHeader H name ctx = find (\<lambda>pair. iequals H (fst pair) name) (hc_headers ctx)"

text \<open>The part which runs until the headers are parsed; None when it falls through.\<close>

definition parseHeaders ::
  "http_strings \<Rightarrow> nat \<Rightarrow> http_context \<Rightarrow> (server_result option \<times> http_context) res" where
  "parseHeaders H bufferLength ctx =
     (let posSentinel = find_sub g_sentinel (hc_buffer ctx);
          currentHeadersSize = (case posSentinel of None \<Rightarrow> bufferLength | Some pos \<Rightarrow> pos)
      in if currentHeadersSize > g_maxHeadersSize
         then Inr (Some (serverError ''HTTP header size too large''), ctx)
         else case posSentinel of
           None \<Rightarrow>
             (if bufferLength > 0 \<and> \<not> isValidName [hc_buffer ctx ! 0]
              then Inr (Some (serverError ''Non HTTP request''), ctx)
              else Inr (Some (serverResult MORE_DATA_REQUIRED), ctx))
         | Some pos \<Rightarrow>
             bindR (splitString (hc_buffer ctx) g_crlf 0 pos)
               (\<lambda>headers.
                  if headers = [] then Inr (Some (serverError ''Missing required HTTP headers''), ctx)
                  else let (result, c1) = parseLines H 0 headers ctx in
                    if fst result \<noteq> PARSED then Inr (Some result, c1)
                    else if findHeader H ''Transfer-Encoding'' c1 \<noteq> None
                    then Inr (Some (serverError ''The Transfer-Encoding header is not supported''), c1)
                    else
                      case (case findHeader H ''Content-Length'' c1 of
                              None \<Rightarrow> Some 0 | Some pair \<Rightarrow> lexical_cast_size H (snd pair)) of
                        None \<Rightarrow> Inr (Some (serverError ''Invalid Content-Length value''), c1)
                      | Some expected \<Rightarrow>
                          Inr (None, c1\<lparr>hc_expectedBodyLength := expected, hc_headersParsed := True,
                            hc_bodyBeginPos := pos + length g_sentinel,
                            hc_maxRequestLength := of_nat (pos + length g_sentinel) + expected\<rparr>)))"

definition parseBody :: "nat \<Rightarrow> http_context \<Rightarrow> server_result \<times> http_context" where
  "parseBody bufferLength ctx =
     (if hc_expectedBodyLength ctx > of_nat g_maxContentSize
      then (serverError ''Content-Length header value is larger than the maximum buffer size'', ctx)
      else if of_nat bufferLength = hc_maxRequestLength ctx
      then let c1 = (if hc_expectedBodyLength ctx > 0
                     then ctx\<lparr>hc_body := take (unat (hc_expectedBodyLength ctx))
                            (drop (hc_bodyBeginPos ctx) (hc_buffer ctx))\<rparr>
                     else ctx)
           in (serverResult PARSED, c1\<lparr>hc_parsed := True\<rparr>)
      else if of_nat bufferLength < hc_maxRequestLength ctx
      then (serverResult MORE_DATA_REQUIRED, ctx)
      else (serverError ''The HTTP body size is larger than the expected size'', ctx))"

definition http_parse ::
  "http_strings \<Rightarrow> string \<Rightarrow> http_context \<Rightarrow> (server_result \<times> http_context) res" where
  "http_parse H data ctx =
     (if hc_parsed ctx
      then Inr (serverError ''Unexpected input data: the HTTP request has been parsed already'', ctx)
      else
        bindR (chkR (data \<noteq> []) UnexpectedExc)
          (\<lambda>_. let bufferLength = length (hc_buffer ctx) + length data in
             if bufferLength > g_maxContentSize + g_maxHeadersSize
             then Inr (serverError ''HTTP request or content size too large'', ctx)
             else let c1 = ctx\<lparr>hc_buffer := hc_buffer ctx @ data\<rparr> in
               if \<not> hc_headersParsed c1
               then bindR (parseHeaders H bufferLength c1)
                      (\<lambda>(r, c2). case r of Some result \<Rightarrow> Inr (result, c2) | None \<Rightarrow> Inr (parseBody bufferLength c2))
               else Inr (parseBody bufferLength c1)))"

record http_request =
  rq_method :: string
  rq_uri :: string
  rq_headers :: "(string \<times> string) list"
  rq_body :: string

text \<open>The request takes the members of the context over (they are moved).\<close>

definition buildRequest :: "http_context \<Rightarrow> http_request res" where
  "buildRequest ctx =
     bindR (chkR (hc_parsed ctx) UnexpectedExc)
       (\<lambda>_. Inr \<lparr>rq_method = hc_method ctx, rq_uri = hc_uri ctx, rq_headers = hc_headers ctx,
                  rq_body = hc_body ctx\<rparr>)"

definition http_reset :: "http_context \<Rightarrow> http_context" where
  "http_reset ctx = new_context"

end
