(* ===== verification/HttpChunks.thy ===== *)
theory HttpChunks
  imports HttpParser
begin

text \<open>
  Feeding the HTTP parser in pieces: what a parse of a prefix leaves behind is what the parse of
  the whole needs.
\<close>

section \<open>Searching in a prefix\<close>

lemma find_sub_append:
  assumes "find_sub p a = Some n"
  shows "find_sub p (a @ b) = Some n"
proof -
  note b = find_sub_bound [OF assms]
  from assms have n: "n \<le> length a" "prefix p (drop n a)" "\<And>m. m < n \<Longrightarrow> \<not> prefix p (drop m a)"
    by (auto simp: find_sub_Some)
  have "\<not> prefix p (drop m (a @ b))" if "m < n" for m
    using prefix_drop_append [of m p a b] n(3) that b by simp
  with n(1,2) prefix_drop_append [OF b] show ?thesis by (simp add: find_sub_Some)
qed

lemma find_sub_take:
  assumes "find_sub p (a @ b) = Some n" "n + length p \<le> length a"
  shows "find_sub p a = Some n"
proof -
  from assms(1) have n: "prefix p (drop n (a @ b))" "\<And>m. m < n \<Longrightarrow> \<not> prefix p (drop m (a @ b))"
    by (auto simp: find_sub_Some)
  have "\<not> prefix p (drop m a)" if "m < n" for m
    using prefix_drop_append [of m p a b] n(2) that assms(2) by simp
  with n(1) prefix_drop_append [OF assms(2)] assms(2) show ?thesis by (simp add: find_sub_Some)
qed

lemma splitLoop_take:
  "currentPos \<le> endPos \<Longrightarrow> endPos \<le> length a \<Longrightarrow>
     splitLoop (a @ b) separator endPos currentPos = splitLoop a separator endPos currentPos"
proof (induction "a @ b" separator endPos currentPos rule: splitLoop.induct)
  case (1 separator endPos currentPos)
  have d: "drop currentPos (a @ b) = drop currentPos a @ b" using 1(2,3) by simp
  have t: "take (endPos - currentPos) (drop currentPos (a @ b)) = take (endPos - currentPos) (drop currentPos a)"
    using 1(2,3) by simp
  show ?case
  proof (cases "separator = []")
    case True
    then show ?thesis by (simp add: splitLoop.simps)
  next
    case sep: False
    show ?thesis
    proof (cases "\<exists>n. find_sub separator (drop currentPos (a @ b)) = Some n
        \<and> currentPos + n + length separator \<le> endPos")
      case True
      then obtain n where n: "find_sub separator (drop currentPos a @ b) = Some n"
        "currentPos + n + length separator \<le> endPos" unfolding d by blast
      then have m: "find_sub separator (drop currentPos a) = Some n"
        using find_sub_take [of separator "drop currentPos a" b n] 1(3) by simp
      have IH: "currentPos + n + length separator \<noteq> endPos \<Longrightarrow>
          splitLoop (a @ b) separator endPos (currentPos + n + length separator)
          = splitLoop a separator endPos (currentPos + n + length separator)"
        by (rule 1(1)) (use sep n 1(3) d in \<open>simp_all add: find_sub_from_def\<close>)
      have tk: "take n (drop currentPos (a @ b)) = take n (drop currentPos a)"
        using n(2) 1(3) by simp
      show ?thesis
        using sep n m IH tk 1(3)
        by (simp add: splitLoop.simps [of _ separator endPos currentPos] find_sub_from_def d)
    next
      case False
      moreover have "\<not> (\<exists>n. find_sub separator (drop currentPos a) = Some n
          \<and> currentPos + n + length separator \<le> endPos)"
        using False find_sub_append [of separator "drop currentPos a" _ b] unfolding d by blast
      ultimately show ?thesis
        using sep t
        by (simp add: splitLoop.simps [of _ separator endPos currentPos] find_sub_from_def split: option.split)
    qed
  qed
qed

lemma splitString_take:
  assumes "pos \<le> length a"
  shows "splitString (a @ b) separator 0 pos = splitString a separator 0 pos"
  using assms splitLoop_take [of 0 pos a b separator] by (simp add: splitString_def)

section \<open>The lines do not look at the buffer\<close>

lemma parseHeader_buffer:
  "parseHeader H inp (ctx\<lparr>hc_buffer := x\<rparr>) =
     (fst (parseHeader H inp ctx), (snd (parseHeader H inp ctx))\<lparr>hc_buffer := x\<rparr>)"
  by (simp add: parseHeader_def Let_def split: option.split)

lemma parseMethodURIVersion_buffer:
  "parseMethodURIVersion H inp (ctx\<lparr>hc_buffer := x\<rparr>) =
     (fst (parseMethodURIVersion H inp ctx), (snd (parseMethodURIVersion H inp ctx))\<lparr>hc_buffer := x\<rparr>)"
  by (simp add: parseMethodURIVersion_def Let_def)

lemma parseLines_buffer:
  "parseLines H i ls (ctx\<lparr>hc_buffer := x\<rparr>) =
     (fst (parseLines H i ls ctx), (snd (parseLines H i ls ctx))\<lparr>hc_buffer := x\<rparr>)"
proof (induction ls arbitrary: i ctx)
  case (Cons l ls)
  define r where "r = (if i \<noteq> 0 then parseHeader H l ctx else parseMethodURIVersion H l ctx)"
  have e: "(if i \<noteq> 0 then parseHeader H l (ctx\<lparr>hc_buffer := x\<rparr>) else parseMethodURIVersion H l (ctx\<lparr>hc_buffer := x\<rparr>))
      = (fst r, (snd r)\<lparr>hc_buffer := x\<rparr>)"
    by (simp add: r_def parseHeader_buffer parseMethodURIVersion_buffer)
  show ?case
    unfolding parseLines.simps e r_def [symmetric]
    by (cases r) (simp add: Cons.IH)
qed simp

lemma findHeader_buffer [simp]: "findHeader H n (ctx\<lparr>hc_buffer := x\<rparr>) = findHeader H n ctx"
  by (simp add: findHeader_def)

text \<open>What the lines leave alone.\<close>

lemma parseHeader_frame:
  "parseHeader H inp ctx = (r, c) \<Longrightarrow> hc_parsed c = hc_parsed ctx \<and> hc_buffer c = hc_buffer ctx
     \<and> hc_headersParsed c = hc_headersParsed ctx"
  by (auto simp: parseHeader_def Let_def split: option.splits if_splits)

lemma parseMethodURIVersion_frame:
  "parseMethodURIVersion H inp ctx = (r, c) \<Longrightarrow> hc_parsed c = hc_parsed ctx \<and> hc_buffer c = hc_buffer ctx
     \<and> hc_headersParsed c = hc_headersParsed ctx"
  by (auto simp: parseMethodURIVersion_def Let_def split: if_splits)

lemma parseLines_frame:
  "parseLines H i ls ctx = (r, c) \<Longrightarrow> hc_parsed c = hc_parsed ctx \<and> hc_buffer c = hc_buffer ctx
     \<and> hc_headersParsed c = hc_headersParsed ctx"
proof (induction ls arbitrary: i ctx)
  case (Cons l ls)
  define q where "q = (if i \<noteq> 0 then parseHeader H l ctx else parseMethodURIVersion H l ctx)"
  obtain r1 c1 where q: "q = (r1, c1)" by (cases q)
  have f: "hc_parsed c1 = hc_parsed ctx \<and> hc_buffer c1 = hc_buffer ctx \<and> hc_headersParsed c1 = hc_headersParsed ctx"
    using q parseHeader_frame [of H l ctx r1 c1] parseMethodURIVersion_frame [of H l ctx r1 c1]
    by (auto simp: q_def split: if_splits)
  from Cons.prems q have "(if fst r1 \<noteq> PARSED then (r1, c1) else parseLines H (i + 1) ls c1) = (r, c)"
    by (simp add: q_def)
  with f Cons.IH [of "i + 1" c1] show ?case by (auto split: if_splits)
qed simp

section \<open>Headers over a longer buffer\<close>

definition with_buffer :: "http_context \<Rightarrow> string \<Rightarrow> http_context" where
  "with_buffer ctx x = ctx\<lparr>hc_buffer := x\<rparr>"

text \<open>Once the sentinel is in the buffer, the headers parse in the same way whatever follows.\<close>

lemma parseHeaders_append:
  assumes "find_sub g_sentinel (hc_buffer ctx) = Some pos"
  shows "parseHeaders H n' (with_buffer ctx (hc_buffer ctx @ b)) =
    (case parseHeaders H n ctx of Inl e \<Rightarrow> Inl e | Inr (r, c) \<Rightarrow> Inr (r, with_buffer c (hc_buffer ctx @ b)))"
proof -
  have f: "find_sub g_sentinel (hc_buffer ctx @ b) = Some pos" using assms by (rule find_sub_append)
  have pos: "pos \<le> length (hc_buffer ctx)" using find_sub_bound [OF assms] by simp
  have g: "parseHeaders H n' (with_buffer ctx (hc_buffer ctx @ b)) =
    (case parseHeaders H n ctx of Inl e \<Rightarrow> Inl e | Inr (r, c) \<Rightarrow> Inr (r, with_buffer c (hc_buffer ctx @ b)))"
    if s: "splitString (hc_buffer ctx) g_crlf 0 pos = q" for q
  proof (cases q)
    case (Inl e)
    then show ?thesis using s assms f splitString_take [OF pos, of b]
      by (simp add: parseHeaders_def with_buffer_def)
  next
    case (Inr ls)
    obtain r c where l: "parseLines H 0 ls ctx = (r, c)" by (cases "parseLines H 0 ls ctx")
    have l': "parseLines H 0 ls (ctx\<lparr>hc_buffer := hc_buffer ctx @ b\<rparr>) = (r, c\<lparr>hc_buffer := hc_buffer ctx @ b\<rparr>)"
      using parseLines_buffer [of H 0 ls "hc_buffer ctx @ b" ctx] l by simp
    show ?thesis using s Inr assms f splitString_take [OF pos, of b] l l'
      by (simp add: parseHeaders_def with_buffer_def split: option.split)
  qed
  show ?thesis by (rule g [OF refl])
qed

lemma parseBody_MORE: "parseBody n ctx = (r, c) \<Longrightarrow> fst r = MORE_DATA_REQUIRED \<Longrightarrow> c = ctx"
  by (auto simp: parseBody_def Let_def serverError_def serverResult_def split: if_splits)

lemma fst_results [simp]: "fst (serverError m) = PARSING_ERROR" "fst (serverResult PARSED) = PARSED"
  "fst (serverResult MORE_DATA_REQUIRED) = MORE_DATA_REQUIRED"
  by (simp_all add: serverError_def serverResult_def)

lemma parseHeaders_MORE:
  assumes "parseHeaders H n ctx = Inr (Some r, c)" "fst r = MORE_DATA_REQUIRED"
  shows "c = ctx \<and> find_sub g_sentinel (hc_buffer ctx) = None"
proof -
  have l: "fst (parseLines H i ls ctx) \<noteq> r" for i ls ctx
  proof (induction ls arbitrary: i ctx)
    case (Cons l ls)
    have h: "fst (parseHeader H l ctx) \<noteq> r" "fst (parseMethodURIVersion H l ctx) \<noteq> r"
      using assms(2)
      by (auto simp: parseHeader_def parseMethodURIVersion_def Let_def split: option.splits)
    obtain r1 c1 where q: "(if i \<noteq> 0 then parseHeader H l ctx else parseMethodURIVersion H l ctx) = (r1, c1)"
      by fastforce
    then have "r1 \<noteq> r" using h by (auto split: if_splits)
    with Cons.IH [of "i + 1" c1] show ?case unfolding parseLines.simps q by simp
  qed (use assms(2) in auto)
  show ?thesis
  proof (cases "find_sub g_sentinel (hc_buffer ctx)")
    case None
    with assms show ?thesis by (auto simp: parseHeaders_def split: if_splits)
  next
    case (Some pos)
    {
      fix ls r1 c1 assume "splitString (hc_buffer ctx) g_crlf 0 pos = Inr ls" "parseLines H 0 ls ctx = (r1, c1)"
      with l [of 0 ls ctx] assms Some have False
        by (auto simp: parseHeaders_def split: if_splits option.splits)
    }
    moreover obtain ls where "splitString (hc_buffer ctx) g_crlf 0 pos = Inr ls"
      using assms Some by (auto simp: parseHeaders_def bindR_eq_Inr split: if_splits)
    ultimately show ?thesis by (meson surj_pair)
  qed
qed

section \<open>Parsing in pieces\<close>

text \<open>The whole of a parse once the checks of its argument passed.\<close>

lemma http_parse_eq:
  assumes "\<not> hc_parsed ctx" "data \<noteq> []" "length (hc_buffer ctx) + length data \<le> g_maxContentSize + g_maxHeadersSize"
  shows "http_parse H data ctx =
    (let n = length (hc_buffer ctx) + length data; c1 = with_buffer ctx (hc_buffer ctx @ data) in
     if \<not> hc_headersParsed ctx
     then bindR (parseHeaders H n c1) (\<lambda>(r, c2). case r of Some result \<Rightarrow> Inr (result, c2) | None \<Rightarrow> Inr (parseBody n c2))
     else Inr (parseBody n c1))"
  using assms by (simp add: http_parse_def Let_def with_buffer_def)

lemma parse_append:
  assumes "http_parse H a ctx = Inr (r, ctx')" "fst r = MORE_DATA_REQUIRED" "b \<noteq> []"
    and total: "length (hc_buffer ctx) + length a + length b \<le> g_maxContentSize + g_maxHeadersSize"
  shows "http_parse H b ctx' = http_parse H (a @ b) ctx"
proof -
  have a: "\<not> hc_parsed ctx" "a \<noteq> []" "length (hc_buffer ctx) + length a \<le> g_maxContentSize + g_maxHeadersSize"
    using assms(1,2) by (auto simp: http_parse_def Let_def bindR_eq_Inr split: if_splits)
  let ?n = "length (hc_buffer ctx) + length a"
  let ?c = "with_buffer ctx (hc_buffer ctx @ a)"
  show ?thesis
  proof (cases "hc_headersParsed ctx")
    case True
    with assms(1) http_parse_eq [OF a] have "parseBody ?n ?c = (r, ctx')" by simp
    then have c: "ctx' = ?c" using parseBody_MORE assms(2) by blast
    with True a assms(3) total show ?thesis
      by (simp add: http_parse_def Let_def with_buffer_def add.assoc)
  next
    case False
    have e: "bindR (parseHeaders H ?n ?c) (\<lambda>(r, c2). case r of Some result \<Rightarrow> Inr (result, c2)
        | None \<Rightarrow> Inr (parseBody ?n c2)) = Inr (r, ctx')"
      using assms(1) http_parse_eq [OF a, of H] False by (simp add: Let_def)
    then obtain qc where "parseHeaders H ?n ?c = Inr qc" by (auto simp: bindR_eq_Inr)
    then obtain q c2 where q: "parseHeaders H ?n ?c = Inr (q, c2)" by (cases qc) simp
    with e have r: "(case q of Some result \<Rightarrow> Inr (result, c2) | None \<Rightarrow> Inr (parseBody ?n c2))
      = (Inr (r, ctx') :: (server_result \<times> http_context) res)"
      by simp
    show ?thesis
    proof (cases q)
      case (Some res)
      with r q parseHeaders_MORE [of H ?n ?c r c2] assms(2) have "ctx' = ?c" by simp
      with False a assms(3) total show ?thesis
        by (simp add: http_parse_def Let_def with_buffer_def add.assoc)
    next
      case None
      then obtain pos where pos: "find_sub g_sentinel (hc_buffer ?c) = Some pos"
        using q by (auto simp: parseHeaders_def Let_def split: option.splits if_splits)
      from r None have "parseBody ?n c2 = (r, ctx')" by simp
      then have c2: "ctx' = c2" using parseBody_MORE assms(2) by blast
      have fr: "hc_parsed c2 = hc_parsed ctx \<and> hc_buffer c2 = hc_buffer ctx @ a \<and> hc_headersParsed c2"
        using q None pos parseLines_frame [of H 0 _ ?c]
        by (auto simp: parseHeaders_def Let_def bindR_eq_Inr with_buffer_def split: if_splits prod.splits option.splits)
      have ap: "parseHeaders H (?n + length b) (with_buffer ctx (hc_buffer ctx @ a @ b)) =
          Inr (None, with_buffer c2 (hc_buffer ctx @ a @ b))"
        using parseHeaders_append [OF pos, of H "?n + length b" b ?n] q None
        by (simp add: with_buffer_def)
      have "http_parse H b ctx' = Inr (parseBody (?n + length b) (with_buffer c2 (hc_buffer ctx @ a @ b)))"
        using http_parse_eq [of ctx' b H] fr a(1) assms(3) total c2 by (simp add: Let_def add.assoc)
      moreover have "http_parse H (a @ b) ctx = Inr (parseBody (?n + length b) (with_buffer c2 (hc_buffer ctx @ a @ b)))"
        using http_parse_eq [of ctx "a @ b" H] a total False ap assms(3) by (simp add: Let_def add.assoc)
      ultimately show ?thesis by simp
    qed
  qed
qed

section \<open>Prefixes of a request\<close>

lemma splitLoop_hd:
  assumes "separator \<noteq> []"
  shows "splitLoop txt separator endPos cur \<noteq> [] \<and> prefix (hd (splitLoop txt separator endPos cur)) (drop cur txt)"
  using assms by (subst (1 2) splitLoop.simps) (auto simp: take_is_prefix split: option.split)

lemma splitString_hd:
  "splitString txt g_crlf 0 pos = Inr ls \<Longrightarrow> ls \<noteq> [] \<and> prefix (hd ls) txt"
  using splitLoop_hd [of g_crlf "txt" pos 0]
  by (auto simp: splitString_def bindR_eq_Inr g_crlf_def take_is_prefix split: if_splits)

lemma joined_hd: "e \<noteq> [] \<Longrightarrow> joined c (e # es) \<noteq> [] \<and> hd (joined c (e # es)) = hd e"
  by (cases es) auto

lemma of_nat_less64:
  assumes "m < n" "n < 2 ^ 64"
  shows "(of_nat m :: 64 word) < of_nat n"
proof -
  have "unat (of_nat k :: 64 word) = k" if "k < 2 ^ 64" for k
    using that by (simp add: unat_of_nat take_bit_nat_eq_self)
  with assms show ?thesis by (simp add: word_less_nat_alt)
qed

context http_boost
begin

lemma start_line_char:
  assumes "parseMethodURIVersion H l ctx = (r, c)" "fst r = PARSED"
  shows "l \<noteq> [] \<and> isValidName [hd l]"
proof -
  define es where "es = split_on H CHR '' '' l"
  have e: "length es = 3" "es ! 0 \<noteq> []" "isValidName (es ! 0)"
    using assms by (auto simp: parseMethodURIVersion_def es_def Let_def split: if_splits)
  then obtain e0 rest where es: "es = e0 # rest" by (cases es) auto
  have "joined CHR '' '' es = l" using split_fields [of "CHR '' ''" l] by (simp add: es_def)
  with joined_hd [of e0 "CHR '' ''" rest] es e have "l \<noteq> []" "hd l = hd e0" by auto
  with e es show ?thesis by (cases e0) (auto simp: isValidName_def)
qed

lemma parsed_headers:
  assumes "parseHeaders H n ctx = Inr (None, c)"
  obtains pos l ls r c1 where "find_sub g_sentinel (hc_buffer ctx) = Some pos" "pos \<le> g_maxHeadersSize"
    "splitString (hc_buffer ctx) g_crlf 0 pos = Inr (l # ls)"
    "parseLines H 0 (l # ls) ctx = (r, c1)" "fst r = PARSED"
    "findHeader H ''Transfer-Encoding'' c1 = None"
    "(case findHeader H ''Content-Length'' c1 of None \<Rightarrow> Some 0 | Some pair \<Rightarrow> lexical_cast_size H (snd pair))
       = Some (hc_expectedBodyLength c)"
    "c = c1\<lparr>hc_expectedBodyLength := hc_expectedBodyLength c, hc_headersParsed := True,
            hc_bodyBeginPos := pos + 4, hc_maxRequestLength := of_nat (pos + 4) + hc_expectedBodyLength c\<rparr>"
proof -
  obtain pos where pos: "find_sub g_sentinel (hc_buffer ctx) = Some pos" "pos \<le> g_maxHeadersSize"
    using assms by (auto simp: parseHeaders_def Let_def split: option.splits if_splits)
  then obtain hs where hs: "splitString (hc_buffer ctx) g_crlf 0 pos = Inr hs" "hs \<noteq> []"
    using assms by (auto simp: parseHeaders_def bindR_eq_Inr split: if_splits)
  then obtain l ls where ls: "hs = l # ls" by (cases hs) auto
  obtain r c1 where r: "parseLines H 0 hs ctx = (r, c1)" by (cases "parseLines H 0 hs ctx")
  have te: "findHeader H ''Transfer-Encoding'' c1 = None"
    using assms pos hs r by (cases "findHeader H ''Transfer-Encoding'' c1") (auto simp: parseHeaders_def split: if_splits)
  from assms pos hs r te show thesis
    by (intro that [of pos l ls r c1])
      (auto simp: parseHeaders_def g_sentinel_def ls simp del: parseLines.simps split: if_splits option.splits)
qed

lemma request_char:
  assumes "parseHeaders H n ctx = Inr (None, c)"
  shows "hc_buffer ctx \<noteq> [] \<and> isValidName [hc_buffer ctx ! 0]"
proof -
  obtain pos l ls r c1 where p: "splitString (hc_buffer ctx) g_crlf 0 pos = Inr (l # ls)"
    "parseLines H 0 (l # ls) ctx = (r, c1)" "fst r = PARSED"
    by (rule parsed_headers [OF assms])
  obtain r0 c0 where q: "parseMethodURIVersion H l ctx = (r0, c0)" by (cases "parseMethodURIVersion H l ctx")
  with p(2,3) have "fst r0 = PARSED" by (auto split: if_splits)
  from start_line_char [OF q this] have l: "l \<noteq> []" "isValidName [hd l]" by simp_all
  moreover from splitString_hd [OF p(1)] obtain z where "hc_buffer ctx = l @ z" by (auto simp: prefix_def)
  ultimately show ?thesis by (simp add: nth_append hd_conv_nth)
qed

lemma parse_prefix:
  assumes "http_parse H (u @ v) new_context = Inr (r, c)" "fst r = PARSED" "u \<noteq> []" "v \<noteq> []"
    and "find_sub g_sentinel (u @ v) = Some pos" "pos + 3 \<le> g_maxHeadersSize"
  obtains c' where "http_parse H u new_context = Inr (serverResult MORE_DATA_REQUIRED, c')"
proof -
  let ?n = "length u + length v" and ?c = "with_buffer new_context (u @ v)" and ?u = "with_buffer new_context u"
  have max: "?n \<le> g_maxContentSize + g_maxHeadersSize"
    using assms(1-3) by (auto simp: http_parse_def Let_def new_context_def split: if_splits)
  have new: "\<not> hc_parsed new_context" "hc_buffer new_context = []" "\<not> hc_headersParsed new_context"
    by (simp_all add: new_context_def)
  have all: "http_parse H (u @ v) new_context =
      bindR (parseHeaders H ?n ?c) (\<lambda>(r, c2). case r of Some q \<Rightarrow> Inr (q, c2) | None \<Rightarrow> Inr (parseBody ?n c2))"
    using http_parse_eq [of new_context "u @ v" H] new assms(3) max by (simp add: Let_def)
  have part: "http_parse H u new_context =
      bindR (parseHeaders H (length u) ?u) (\<lambda>(r, c2). case r of Some q \<Rightarrow> Inr (q, c2) | None \<Rightarrow> Inr (parseBody (length u) c2))"
    using http_parse_eq [of new_context u H] new assms(3) max by (simp add: Let_def)
  obtain q c2 where q: "parseHeaders H ?n ?c = Inr (q, c2)"
    using assms(1) unfolding all by (auto simp: bindR_eq_Inr)
  have qN: "q = None"
  proof (rule ccontr)
    assume "q \<noteq> None"
    with q assms(1,2) all have "parseHeaders H ?n ?c = Inr (Some r, c2)" by auto
    with assms(2) show False
      by (auto simp: parseHeaders_def Let_def bindR_eq_Inr split: if_splits option.splits prod.splits)
  qed
  from all q qN assms(1) have body: "parseBody ?n c2 = (r, c)" by simp
  show thesis
  proof (cases "find_sub g_sentinel u")
    case None
    have "length u \<le> pos + 3"
    proof (rule ccontr)
      assume "\<not> length u \<le> pos + 3"
      with find_sub_take [OF assms(5)] None show False by (simp add: g_sentinel_def)
    qed
    moreover have "isValidName [(u @ v) ! 0]"
      using request_char [of ?n ?c c2] q qN by (simp add: with_buffer_def)
    ultimately have "parseHeaders H (length u) ?u = Inr (Some (serverResult MORE_DATA_REQUIRED), ?u)"
      using None assms(3,6) by (simp add: parseHeaders_def with_buffer_def nth_append)
    with part show thesis by (intro that [of ?u]) simp
  next
    case (Some p)
    have s: "find_sub g_sentinel (hc_buffer ?u) = Some p" using Some by (simp add: with_buffer_def)
    have "with_buffer ?u (hc_buffer ?u @ v) = ?c" by (simp add: with_buffer_def)
    with parseHeaders_append [OF s, of H ?n v "length u"] q qN
    obtain cu where cu: "parseHeaders H (length u) ?u = Inr (None, cu)" "c2 = with_buffer cu (u @ v)"
      by (auto simp: with_buffer_def split: sum.splits)
    have same: "hc_expectedBodyLength cu = hc_expectedBodyLength c2" "hc_maxRequestLength cu = hc_maxRequestLength c2"
      by (simp_all add: cu(2) with_buffer_def)
    have b: "\<not> hc_expectedBodyLength c2 > of_nat g_maxContentSize" "of_nat ?n = hc_maxRequestLength c2"
      using body assms(2) by (auto simp: parseBody_def Let_def split: if_splits)
    have "(of_nat (length u) :: 64 word) < of_nat ?n"
      using max assms(4) by (intro of_nat_less64) (simp_all add: g_maxContentSize_def g_maxHeadersSize_def)
    with b(2) have lt: "of_nat (length u) < hc_maxRequestLength cu" by (simp add: same)
    then have "parseBody (length u) cu = (serverResult MORE_DATA_REQUIRED, cu)"
      using b(1) by (simp add: parseBody_def same(1)) (auto simp: same)
    with part cu(1) show thesis by (intro that [of cu]) simp
  qed
qed

end

section \<open>Feeding chunks\<close>

text \<open>
  The loop of a connection: it feeds what it receives while more data is required; the third
  component is what was not fed.
\<close>

fun http_feed ::
  "http_strings \<Rightarrow> string list \<Rightarrow> http_context \<Rightarrow> (server_result \<times> http_context \<times> string list) res" where
  "http_feed H [] ctx = Inr (serverResult MORE_DATA_REQUIRED, ctx, [])"
| "http_feed H (c # cs) ctx =
     bindR (http_parse H c ctx)
       (\<lambda>(r, ctx'). if fst r = MORE_DATA_REQUIRED then http_feed H cs ctx' else Inr (r, ctx', cs))"

end
