(* ===== verification/HttpProps.thy ===== *)
theory HttpProps
  imports HttpChunks UriLemmas
begin

text \<open>
  The properties of the HTTP request parser: independence of how the stream is cut, soundness of an
  accepted request, and two boundary behaviours.
\<close>

section \<open>An instance with the documented behaviour\<close>

fun split_ref :: "char \<Rightarrow> string \<Rightarrow> string list" where
  "split_ref c [] = [[]]"
| "split_ref c (x # xs) =
     (if x = c then [] # split_ref c xs
      else case split_ref c xs of [] \<Rightarrow> [[x]] | t # ts \<Rightarrow> (x # t) # ts)"

definition space_ref :: "char \<Rightarrow> bool" where
  "space_ref c \<longleftrightarrow> c = CHR '' '' \<or> 9 \<le> (of_char c :: nat) \<and> of_char c \<le> (13 :: nat)"

definition trim_ref :: "string \<Rightarrow> string" where
  "trim_ref s = rev (dropWhile space_ref (rev (dropWhile space_ref s)))"

text \<open>\<open>lexical_cast\<close> to an unsigned type accepts a sign, and negates modulo the width.\<close>

fun digits_ref :: "nat \<Rightarrow> string \<Rightarrow> nat option" where
  "digits_ref v [] = Some v"
| "digits_ref v (x # xs) =
     (if 48 \<le> (of_char x :: nat) \<and> of_char x \<le> (57 :: nat) then digits_ref (v * 10 + (of_char x - 48)) xs else None)"

definition magnitude_ref :: "string \<Rightarrow> 64 word option" where
  "magnitude_ref s = (if s = [] then None
     else case digits_ref 0 s of Some v \<Rightarrow> if v < 2 ^ 64 then Some (of_nat v) else None | None \<Rightarrow> None)"

fun lexical_ref :: "string \<Rightarrow> 64 word option" where
  "lexical_ref [] = None"
| "lexical_ref (x # xs) =
     (if x = CHR ''-'' then map_option uminus (magnitude_ref xs)
      else if x = CHR ''+'' then magnitude_ref xs else magnitude_ref (x # xs))"

definition reference_strings :: http_strings where
  "reference_strings = \<lparr>split_on = split_ref, to_lower = map toLowerAscii, trim_ws = trim_ref,
     is_space_char = space_ref, iequals = (\<lambda>s t. map toLowerAscii s = map toLowerAscii t),
     lexical_cast_size = lexical_ref\<rparr>"

lemma split_ref_joined: "split_ref c s \<noteq> [] \<and> joined c (split_ref c s) = s"
proof (induction s)
  case (Cons x xs)
  then obtain t ts where "split_ref c xs = t # ts" by (cases "split_ref c xs") auto
  with Cons show ?case by (cases ts) auto
qed simp

lemma trim_ref_part: "\<exists>l r. s = l @ trim_ref s @ r"
proof -
  let ?d = "dropWhile space_ref s"
  have "s = takeWhile space_ref s @ ?d" by simp
  moreover have "?d = trim_ref s @ rev (takeWhile space_ref (rev ?d))"
    by (metis rev_append rev_rev_ident takeWhile_dropWhile_id trim_ref_def)
  ultimately show ?thesis by metis
qed

interpretation refh: http_boost reference_strings
  by unfold_locales (simp_all add: reference_strings_def split_ref_joined trim_ref_part)

section \<open>Cutting the stream\<close>

text \<open>
  C9 How the stream is cut does not matter for a request whose header block ends at least three bytes
  below the size limit: when the parser accepts it delivered in one piece, it accepts it delivered in any non-empty pieces, with the same context, asking for more
  data after every piece but the last.  Nearer to the limit a piece that ends within the sentinel is
  refused (\<open>http_limit_depends_on_cut\<close>).
\<close>

theorem http_chunking:
  assumes "http_boost H" "http_parse H request new_context = Inr (r, c)" "fst r = PARSED"
    and "find_sub g_sentinel request = Some pos" "pos + 3 \<le> g_maxHeadersSize"
    and "concat chunks = request" "[] \<notin> set chunks"
  shows "http_feed H chunks new_context = Inr (r, c, [])"
proof -
  have max: "length request \<le> g_maxContentSize + g_maxHeadersSize" and ne: "request \<noteq> []"
    using assms(2,3) by (auto simp: http_parse_def Let_def new_context_def bindR_eq_Inr split: if_splits)
  have feed: "http_feed H cs ctx = Inr (r, c, [])"
    if "u @ concat cs = request" "cs \<noteq> []" "[] \<notin> set cs"
      "u = [] \<and> ctx = new_context \<or> http_parse H u new_context = Inr (serverResult MORE_DATA_REQUIRED, ctx)"
    for u cs ctx
    using that
  proof (induction cs arbitrary: u ctx)
    case (Cons b cs)
    have len: "length u + length b + length (concat cs) = length request"
      using arg_cong [OF Cons.prems(1), of length] by simp
    have step: "http_parse H b ctx = http_parse H (u @ b) new_context"
      using Cons.prems(3,4) max len parse_append [of H u new_context "serverResult MORE_DATA_REQUIRED" ctx b]
      by (auto simp: new_context_def)
    show ?case
    proof (cases "cs = []")
      case True
      with Cons.prems(1) assms(2,3) step show ?thesis by simp
    next
      case False
      then have v: "concat cs \<noteq> []" "u @ b \<noteq> []" using Cons.prems(3) by (cases cs; auto)+
      obtain c' where c': "http_parse H (u @ b) new_context = Inr (serverResult MORE_DATA_REQUIRED, c')"
        by (rule http_boost.parse_prefix [OF assms(1), of "u @ b" "concat cs" r c pos])
          (use assms v Cons.prems(1) in auto)
      have "http_feed H cs c' = Inr (r, c, [])"
        by (rule Cons.IH [of "u @ b"]) (use Cons.prems False c' in auto)
      with step c' show ?thesis by simp
    qed
  qed simp
  have "chunks \<noteq> []" using assms(6) ne by auto
  with feed [of "[]" chunks new_context] assms(6,7) show ?thesis by simp
qed

text \<open>A request with a body of five bytes, and a cut of it inside the sentinel.\<close>

definition sample_head :: string where
  "sample_head = ''POST /a HTTP/1.1'' @ g_crlf @ ''Content-Length: 5'' @ g_crlf @ ''X-A: b c''"

lemmas eval_http = http_parse_def parseHeaders_def parseBody_def splitString_def splitLoop.simps find_sub_from_def
  parseMethodURIVersion_def parseHeader_def findHeader_def new_context_def reference_strings_def
  serverResult_def serverError_def isValidName_def isValidValue_def isChar_def isCtl_def isTSpecial_def
  g_crlf_def g_sentinel_def g_maxHeadersSize_def g_maxContentSize_def MAX_URI_SIZE_def
  trim_ref_def space_ref_def magnitude_ref_def toLowerAscii_def Let_def

lemma sample_parse: "\<exists>c. http_parse reference_strings (sample_head @ g_sentinel @ ''hello'') new_context = Inr (serverResult PARSED, c)
    \<and> hc_body c = ''hello'' \<and> hc_uri c = ''/a'' \<and> hc_headers c = [(''content-length'', ''5''), (''x-a'', ''b c'')]"
  by (simp add: sample_head_def eval_http less_eq_char_def char_of_def bit_Suc_0_iff)

lemma sample_sentinel: "find_sub g_sentinel (sample_head @ g_sentinel @ ''hello'') = Some 45"
  by (simp add: sample_head_def g_sentinel_def g_crlf_def)

lemma http_chunking_witness:
  "\<exists>c. http_feed reference_strings [sample_head @ take 3 g_sentinel, drop 3 g_sentinel @ ''he'', ''llo''] new_context
     = Inr (serverResult PARSED, c, []) \<and> hc_body c = ''hello''"
proof -
  obtain c where c: "http_parse reference_strings (sample_head @ g_sentinel @ ''hello'') new_context
      = Inr (serverResult PARSED, c)" "hc_body c = ''hello''"
    using sample_parse by blast
  have "concat [sample_head @ take 3 g_sentinel, drop 3 g_sentinel @ ''he'', ''llo''] = sample_head @ g_sentinel @ ''hello''"
    by (simp add: g_sentinel_def)
  moreover have "[] \<notin> set [sample_head @ take 3 g_sentinel, drop 3 g_sentinel @ ''he'', ''llo'']"
    by (simp add: sample_head_def)
  ultimately show ?thesis
    using http_chunking [OF refh.http_boost_axioms c(1) _ sample_sentinel] c(2)
    by (simp add: g_maxHeadersSize_def del: http_feed.simps)
qed

section \<open>What an accepted request satisfies\<close>

definition headers_ok :: "(string \<times> string) list \<Rightarrow> bool" where
  "headers_ok hs \<longleftrightarrow> distinct (map fst hs)
     \<and> (\<forall>(n, v) \<in> set hs. isValidName n \<and> map toLowerAscii n = n \<and> isValidValue v)"

lemma token_lower:
  "isChar c \<and> \<not> isCtl c \<and> \<not> isTSpecial c \<Longrightarrow>
     isChar (toLowerAscii c) \<and> \<not> isCtl (toLowerAscii c) \<and> \<not> isTSpecial (toLowerAscii c)"
proof (cases "c \<ge> CHR ''A'' \<and> c \<le> CHR ''Z''")
  case True
  then have "of_char (toLowerAscii c) \<in> {97..122 :: nat}"
    by (auto simp: toLowerAscii_def less_eq_char_def)
  moreover have "isTSpecial d \<Longrightarrow> of_char d \<notin> {97..122 :: nat}" for d
    by (auto simp: isTSpecial_def)
  ultimately show ?thesis by (auto simp: isChar_def isCtl_def)
next
  case False
  then have "toLowerAscii c = c" by (auto simp: toLowerAscii_def)
  then show "isChar c \<and> \<not> isCtl c \<and> \<not> isTSpecial c \<Longrightarrow> ?thesis" by simp
qed

lemma valid_name_lower: "isValidName n \<Longrightarrow> isValidName (map toLowerAscii n)"
  unfolding isValidName_def list_all_iff using token_lower by auto

lemma valid_name_ascii: "isValidName n \<Longrightarrow> ascii_text n"
  by (auto simp: isValidName_def ascii_text_def isChar_def list_all_iff)

context http_boost
begin

lemma parseHeader_ok:
  assumes "parseHeader H l ctx = (r, c)" "headers_ok (hc_headers ctx)"
  shows "headers_ok (hc_headers c) \<and> hc_method c = hc_method ctx \<and> hc_uri c = hc_uri ctx \<and> hc_body c = hc_body ctx"
proof (cases "fst r = PARSED")
  case True
  obtain pos where f: "find_char CHR '':'' l = Some pos"
    using assms(1) True by (cases "find_char CHR '':'' l") (auto simp: parseHeader_def)
  have pos: "isValidName (take pos l)"
    "isValidValue (trim_ws H (drop (pos + 1) l))" "map_of (hc_headers ctx) (to_lower H (take pos l)) = None"
    "c = ctx\<lparr>hc_headers := hc_headers ctx @ [(to_lower H (take pos l), trim_ws H (drop (pos + 1) l))]\<rparr>"
    using assms(1) True f by (simp_all add: parseHeader_def Let_def split: if_splits) auto
  have "to_lower H (take pos l) = map toLowerAscii (take pos l)"
    using to_lower_ascii valid_name_ascii pos(1) by blast
  with pos assms(2) valid_name_lower [OF pos(1)] show ?thesis
    by (auto simp: headers_ok_def map_of_eq_None_iff)
next
  case False
  then have "c = ctx" using assms(1) by (auto simp: parseHeader_def Let_def split: option.splits if_splits)
  with assms(2) show ?thesis by simp
qed

lemma parseLines_ok:
  "parseLines H (Suc i) ls ctx = (r, c) \<Longrightarrow> headers_ok (hc_headers ctx) \<Longrightarrow>
     headers_ok (hc_headers c) \<and> hc_method c = hc_method ctx \<and> hc_uri c = hc_uri ctx \<and> hc_body c = hc_body ctx"
proof (induction ls arbitrary: i ctx)
  case (Cons l ls)
  obtain r1 c1 where h: "parseHeader H l ctx = (r1, c1)" by (cases "parseHeader H l ctx")
  note ok = parseHeader_ok [OF h Cons.prems(2)]
  from Cons.prems(1) h have "(if fst r1 \<noteq> PARSED then (r1, c1) else parseLines H (Suc (Suc i)) ls c1) = (r, c)"
    by (auto split: if_splits)
  with ok Cons.IH [of "Suc i" c1] show ?case by (auto split: if_splits)
qed simp

lemma startLine_ok:
  assumes "parseMethodURIVersion H l ctx = (r, c)" "fst r = PARSED"
  shows "isValidName (hc_method c) \<and> hc_uri c \<noteq> [] \<and> isValidValue (hc_uri c) \<and> length (hc_uri c) \<le> MAX_URI_SIZE
    \<and> hc_headers c = hc_headers ctx \<and> hc_body c = hc_body ctx"
  using assms by (auto simp: parseMethodURIVersion_def Let_def split: if_splits)

lemma findHeader_lower:
  assumes "headers_ok (hc_headers ctx)" "ascii_text name"
  shows "map_option snd (findHeader H name ctx) = map_of (hc_headers ctx) (map toLowerAscii name)"
proof -
  have "map_option snd (find (\<lambda>p. iequals H (fst p) name) hs) = map_of hs (map toLowerAscii name)"
    if "\<forall>(n, v) \<in> set hs. isValidName n \<and> map toLowerAscii n = n" for hs :: "(string \<times> string) list"
    using that
  proof (induction hs)
    case (Cons p hs)
    obtain n v where p: "p = (n, v)" by (cases p)
    with Cons.prems have "iequals H n name \<longleftrightarrow> n = map toLowerAscii name"
      using iequals_ascii [of n name] valid_name_ascii [of n] assms(2) by auto
    with Cons p show ?case by auto
  qed simp
  with assms(1) show ?thesis by (auto simp: findHeader_def headers_ok_def)
qed

end

text \<open>
  C10 An accepted request has a method that is a token, a non-empty target of at most 8192 valid
  characters, headers with distinct lower-case token names and values without control characters,
  and no \<open>Transfer-Encoding\<close>; its header block is at most 64K, and its body is exactly what
  follows the first empty line, with the length \<open>Content-Length\<close> says (none without that header)
  and at most 1M.
\<close>

theorem http_request_sound:
  assumes "http_boost H" "http_parse H request new_context = Inr (r, c)" "fst r = PARSED"
  shows "isValidName (hc_method c) \<and> hc_uri c \<noteq> [] \<and> isValidValue (hc_uri c) \<and> length (hc_uri c) \<le> MAX_URI_SIZE
    \<and> headers_ok (hc_headers c) \<and> map_of (hc_headers c) ''transfer-encoding'' = None
    \<and> (\<exists>pos. find_sub g_sentinel request = Some pos \<and> pos \<le> g_maxHeadersSize \<and> hc_body c = drop (pos + 4) request)
    \<and> length (hc_body c) \<le> g_maxContentSize
    \<and> (case map_of (hc_headers c) ''content-length'' of None \<Rightarrow> hc_body c = []
       | Some v \<Rightarrow> lexical_cast_size H v = Some (of_nat (length (hc_body c))))"
proof -
  note B = assms(1)
  let ?n = "length request" and ?c = "with_buffer new_context request"
  have ne: "request \<noteq> []" and max: "?n \<le> g_maxContentSize + g_maxHeadersSize"
    using assms(2,3) by (auto simp: http_parse_def Let_def new_context_def bindR_eq_Inr split: if_splits)
  have new: "\<not> hc_parsed new_context" "hc_buffer new_context = []" "\<not> hc_headersParsed new_context"
    by (simp_all add: new_context_def)
  have "bindR (parseHeaders H ?n ?c) (\<lambda>(r, c2). case r of Some q \<Rightarrow> Inr (q, c2) | None \<Rightarrow> Inr (parseBody ?n c2)) = Inr (r, c)"
    using http_parse_eq [of new_context request H] new ne max assms(2) by (simp add: Let_def)
  then obtain q c2 where q: "parseHeaders H ?n ?c = Inr (q, c2)"
    "(case q of Some q \<Rightarrow> Inr (q, c2) | None \<Rightarrow> Inr (parseBody ?n c2)) = (Inr (r, c) :: (server_result \<times> http_context) res)"
    by (cases "parseHeaders H ?n ?c") auto
  have "q = None"
    using q assms(3)
    by (cases q) (auto simp: parseHeaders_def Let_def bindR_eq_Inr split: if_splits option.splits prod.splits)
  with q have ph: "parseHeaders H ?n ?c = Inr (None, c2)" and body: "parseBody ?n c2 = (r, c)" by simp_all
  obtain pos l ls r1 c1 where p: "find_sub g_sentinel request = Some pos" "pos \<le> g_maxHeadersSize"
    "parseLines H 0 (l # ls) ?c = (r1, c1)" "fst r1 = PARSED"
    "findHeader H ''Transfer-Encoding'' c1 = None"
    "(case findHeader H ''Content-Length'' c1 of None \<Rightarrow> Some 0 | Some pair \<Rightarrow> lexical_cast_size H (snd pair))
       = Some (hc_expectedBodyLength c2)"
    "c2 = c1\<lparr>hc_expectedBodyLength := hc_expectedBodyLength c2, hc_headersParsed := True,
            hc_bodyBeginPos := pos + 4, hc_maxRequestLength := of_nat (pos + 4) + hc_expectedBodyLength c2\<rparr>"
    by (rule http_boost.parsed_headers [OF B ph]) (simp add: with_buffer_def)
  obtain r0 c0 where s0: "parseMethodURIVersion H l ?c = (r0, c0)" by (cases "parseMethodURIVersion H l ?c")
  with p(3,4) have s1: "fst r0 = PARSED" "parseLines H (Suc 0) ls c0 = (r1, c1)" by (auto split: if_splits)
  note st = http_boost.startLine_ok [OF B s0 s1(1)]
  have "headers_ok (hc_headers c0)" "hc_body c0 = []"
    using st by (simp_all add: with_buffer_def new_context_def headers_ok_def)
  with http_boost.parseLines_ok [OF B s1(2)] have ln: "headers_ok (hc_headers c1)" "hc_method c1 = hc_method c0"
    "hc_uri c1 = hc_uri c0" "hc_body c1 = []" by simp_all
  have asc: "ascii_text ''Transfer-Encoding''" "ascii_text ''Content-Length''" by (simp_all add: ascii_text_def)
  have low: "map toLowerAscii ''Transfer-Encoding'' = ''transfer-encoding''"
    "map toLowerAscii ''Content-Length'' = ''content-length''"
    by (simp_all add: toLowerAscii_def less_eq_char_def char_of_def bit_Suc_0_iff)
  have te: "map_of (hc_headers c1) ''transfer-encoding'' = None"
    and cl: "map_of (hc_headers c1) ''content-length'' = map_option snd (findHeader H ''Content-Length'' c1)"
    using http_boost.findHeader_lower [OF B ln(1) asc(1)] http_boost.findHeader_lower [OF B ln(1) asc(2)] p(5)
    unfolding low by simp_all
  have b: "\<not> hc_expectedBodyLength c2 > of_nat g_maxContentSize" "of_nat ?n = hc_maxRequestLength c2"
    using body assms(3) by (auto simp: parseBody_def Let_def split: if_splits)
  have buf: "hc_buffer c2 = request"
    using parseLines_frame [OF p(3)] arg_cong [OF p(7), of hc_buffer] by (simp add: with_buffer_def)
  have ex: "unat (hc_expectedBodyLength c2) \<le> g_maxContentSize"
    using b(1) by (simp add: word_le_nat_alt not_less g_maxContentSize_def)
  have "pos + 4 \<le> ?n" using find_sub_bound [OF p(1)] by (simp add: g_sentinel_def)
  have len: "?n = pos + 4 + unat (hc_expectedBodyLength c2)"
  proof -
    have lt: "pos + 4 + unat (hc_expectedBodyLength c2) < 2 ^ 64" "?n < 2 ^ 64"
      using p(2) ex max by (simp_all add: g_maxContentSize_def g_maxHeadersSize_def)
    have "of_nat ?n = (of_nat (pos + 4 + unat (hc_expectedBodyLength c2)) :: 64 word)"
      using b(2) arg_cong [OF p(7), of hc_maxRequestLength] by simp
    with lt show ?thesis using of_nat_less64 by (metis less_irrefl linorder_neqE_nat)
  qed
  have c: "hc_body c = drop (pos + 4) request \<and> length (hc_body c) = unat (hc_expectedBodyLength c2)
      \<and> hc_method c = hc_method c1 \<and> hc_uri c = hc_uri c1 \<and> hc_headers c = hc_headers c1"
  proof -
    have f: "hc_body c2 = []" "hc_bodyBeginPos c2 = pos + 4" "hc_method c2 = hc_method c1" "hc_uri c2 = hc_uri c1"
      "hc_headers c2 = hc_headers c1"
      using ln(4) arg_cong [OF p(7), of hc_body] arg_cong [OF p(7), of hc_bodyBeginPos]
        arg_cong [OF p(7), of hc_method] arg_cong [OF p(7), of hc_uri] arg_cong [OF p(7), of hc_headers]
      by simp_all
    show ?thesis using body b assms(3) f buf len
      by (cases "hc_expectedBodyLength c2 = 0") (auto simp: parseBody_def Let_def word_gt_0 split: if_splits)
  qed
  have ct: "case map_of (hc_headers c) ''content-length'' of None \<Rightarrow> hc_body c = []
       | Some v \<Rightarrow> lexical_cast_size H v = Some (of_nat (length (hc_body c)))"
    using p(6) cl c by (cases "findHeader H ''Content-Length'' c1") auto
  show ?thesis using st ln te p(1,2) c ct ex by auto
qed

lemma http_request_sound_witness:
  "\<exists>c. http_parse reference_strings (sample_head @ g_sentinel @ ''hello'') new_context = Inr (serverResult PARSED, c)
     \<and> length (hc_body c) = 5 \<and> headers_ok (hc_headers c)"
proof -
  obtain c where c: "http_parse reference_strings (sample_head @ g_sentinel @ ''hello'') new_context
      = Inr (serverResult PARSED, c)" "hc_body c = ''hello''"
    using sample_parse by blast
  with http_request_sound [OF refh.http_boost_axioms c(1)] show ?thesis by simp
qed

section \<open>Two boundaries\<close>

lemma find_sub_skip:
  "x \<notin> set u \<Longrightarrow> find_sub (x # p) (u @ v) = map_option ((+) (length u)) (find_sub (x # p) v)"
  by (cases "find_sub (x # p) v"; induction u) (auto simp: option.map_comp comp_def option.map_ident cong: map_option_cong)

text \<open>A request without body whose header block has exactly the maximal size.\<close>

definition limit_line :: string where
  "limit_line = ''X:'' @ replicate 65518 CHR ''a''"

definition limit_head :: string where
  "limit_head = ''GET / HTTP/1.1'' @ g_crlf @ limit_line"

lemma limit_length: "length limit_head = g_maxHeadersSize"
  by (simp add: limit_head_def limit_line_def g_crlf_def g_maxHeadersSize_def)

lemma limit_no_cr: "CHR 0x0D \<notin> set limit_line"
  by (simp add: limit_line_def)

lemma limit_sentinel: "find_sub g_sentinel (limit_head @ g_sentinel) = Some 65536"
proof -
  have "find_sub g_sentinel (limit_line @ g_sentinel) = Some (length limit_line)"
    unfolding g_sentinel_def find_sub_skip [OF limit_no_cr] by simp
  then have l: "find_sub g_sentinel (limit_line @ g_sentinel) = Some 65520"
    by (simp add: limit_line_def)
  have h: "limit_line = CHR ''X'' # CHR '':'' # replicate 65518 CHR ''a''" by (simp add: limit_line_def)
  then obtain z where z: "limit_line = CHR ''X'' # z" by blast
  from l show ?thesis
    unfolding limit_head_def z by (simp add: g_sentinel_def g_crlf_def)
qed

lemma limit_split: "splitString (limit_head @ g_sentinel) g_crlf 0 65536 = Inr [''GET / HTTP/1.1'', limit_line]"
proof -
  have len: "length limit_line = 65520" by (simp add: limit_line_def)
  obtain z where z: "limit_line = CHR ''X'' # z" by (simp add: limit_line_def)
  have f0: "find_sub g_crlf (limit_head @ g_sentinel) = Some 14"
    by (simp add: limit_head_def g_crlf_def)
  have d: "drop 16 (limit_head @ g_sentinel) = limit_line @ g_sentinel"
    by (simp add: limit_head_def g_crlf_def)
  have f1: "find_sub g_crlf (limit_line @ g_sentinel) = Some 65520"
    unfolding g_crlf_def find_sub_skip [OF limit_no_cr] by (simp add: g_sentinel_def len)
  have t: "take 14 (limit_head @ g_sentinel) = ''GET / HTTP/1.1''"
    by (simp add: limit_head_def)
  have total: "length (limit_head @ g_sentinel) = 65540"
    using limit_length by (simp add: g_sentinel_def g_maxHeadersSize_def)
  have l2: "length g_crlf = 2" "g_crlf \<noteq> []" by (simp_all add: g_crlf_def)
  have "splitLoop (limit_head @ g_sentinel) g_crlf 65536 16 = [limit_line]"
    using f1 d l2 len by (subst splitLoop.simps) (simp add: find_sub_from_def)
  then have "splitLoop (limit_head @ g_sentinel) g_crlf 65536 0 = [''GET / HTTP/1.1'', limit_line]"
    using f0 l2 t by (subst splitLoop.simps) (simp add: find_sub_from_def)
  then show ?thesis using total l2 by (simp add: splitString_def)
qed

lemma limit_header:
  "parseHeader reference_strings limit_line ctx =
     (if map_of (hc_headers ctx) ''x'' \<noteq> None then (serverError ''Duplicate header name'', ctx)
      else (serverResult PARSED, ctx\<lparr>hc_headers := hc_headers ctx @ [(''x'', replicate 65518 CHR ''a'')]\<rparr>))"
proof -
  let ?v = "replicate 65518 CHR ''a''"
  have f: "find_char CHR '':'' limit_line = Some 1" "take 1 limit_line = ''X''" "drop (Suc (Suc 0)) limit_line = ?v"
    by (simp_all add: limit_line_def)
  have "\<not> space_ref CHR ''a''" by (simp add: space_ref_def)
  then have "dropWhile space_ref (replicate n CHR ''a'') = replicate n CHR ''a''" for n by (cases n) simp_all
  then have t: "trim_ref ?v = ?v" unfolding trim_ref_def by (simp only: rev_replicate)
  have v: "isValidValue ?v" by (simp add: isValidValue_def list_all_iff isChar_def isCtl_def)
  have lc: "map toLowerAscii ''X'' = ''x''"
    by (simp add: toLowerAscii_def less_eq_char_def char_of_def bit_Suc_0_iff)
  show ?thesis
    using f t v lc by (simp add: parseHeader_def reference_strings_def Let_def space_ref_def isValidName_def
        isChar_def isCtl_def isTSpecial_def)
qed

text \<open>
  A request whose header block has exactly the maximal size is accepted in one piece and refused
  when the piece before the last byte of its empty line arrives first: while the sentinel is
  incomplete the parser counts the bytes of the sentinel against the limit.
\<close>

theorem http_limit_depends_on_cut:
  "(\<exists>c. http_parse reference_strings (limit_head @ g_sentinel) new_context = Inr (serverResult PARSED, c))
   \<and> (\<exists>c. http_feed reference_strings [limit_head @ take 3 g_sentinel, drop 3 g_sentinel] new_context
        = Inr (serverError ''HTTP header size too large'', c, [drop 3 g_sentinel]))"
proof
  have total: "length (limit_head @ g_sentinel) = 65540" "length (limit_head @ take 3 g_sentinel) = 65539"
    using limit_length by (simp_all add: g_sentinel_def g_maxHeadersSize_def)
  let ?c = "with_buffer new_context (limit_head @ g_sentinel)"
  have st: "parseMethodURIVersion reference_strings ''GET / HTTP/1.1'' ?c =
      (serverResult PARSED, ?c\<lparr>hc_method := ''GET'', hc_uri := ''/''\<rparr>)"
    by (simp add: parseMethodURIVersion_def reference_strings_def isValidName_def isValidValue_def isChar_def isCtl_def
        isTSpecial_def MAX_URI_SIZE_def)
  let ?d = "?c\<lparr>hc_method := ''GET'', hc_uri := ''/'', hc_headers := [(''x'', replicate 65518 CHR ''a'')]\<rparr>"
  have lines: "parseLines reference_strings 0 [''GET / HTTP/1.1'', limit_line] ?c = (serverResult PARSED, ?d)"
    using st by (simp add: limit_header with_buffer_def new_context_def)
  have fh: "findHeader reference_strings ''Transfer-Encoding'' ?d = None"
    "findHeader reference_strings ''Content-Length'' ?d = None"
    by (simp_all add: findHeader_def reference_strings_def)
  have ph: "parseHeaders reference_strings 65540 ?c = Inr (None, ?d\<lparr>hc_expectedBodyLength := 0, hc_headersParsed := True,
      hc_bodyBeginPos := 65540, hc_maxRequestLength := 65540\<rparr>)"
    using limit_sentinel limit_split lines fh
    by (simp add: parseHeaders_def with_buffer_def g_maxHeadersSize_def del: parseLines.simps)
      (simp add: g_sentinel_def)
  have new: "limit_head \<noteq> []" "\<not> hc_parsed new_context" "hc_buffer new_context = []" "\<not> hc_headersParsed new_context"
    by (simp_all add: limit_head_def new_context_def)
  have "http_parse reference_strings (limit_head @ g_sentinel) new_context =
      bindR (parseHeaders reference_strings 65540 ?c)
        (\<lambda>(r, c2). case r of Some result \<Rightarrow> Inr (result, c2) | None \<Rightarrow> Inr (parseBody 65540 c2))"
    using http_parse_eq [of new_context "limit_head @ g_sentinel" reference_strings] new
    unfolding total(1) by (simp add: g_maxContentSize_def g_maxHeadersSize_def Let_def)
  then show "\<exists>c. http_parse reference_strings (limit_head @ g_sentinel) new_context = Inr (serverResult PARSED, c)"
    unfolding ph by (simp add: parseBody_def Let_def)
  have none: "find_sub g_sentinel (limit_head @ take 3 g_sentinel) = None"
  proof (rule ccontr)
    assume "find_sub g_sentinel (limit_head @ take 3 g_sentinel) \<noteq> None"
    then obtain n where n: "find_sub g_sentinel (limit_head @ take 3 g_sentinel) = Some n" by blast
    from find_sub_append [OF n, of "drop 3 g_sentinel"] limit_sentinel have "n = 65536" by simp
    with find_sub_bound [OF n] total(2) show False by (simp add: g_sentinel_def)
  qed
  have "limit_head @ take 3 g_sentinel \<noteq> []" by (simp add: limit_head_def)
  then have "\<exists>c. http_parse reference_strings (limit_head @ take 3 g_sentinel) new_context =
      Inr (serverError ''HTTP header size too large'', c)"
    using none total(2)
    by (simp add: http_parse_def new_context_def parseHeaders_def g_maxContentSize_def g_maxHeadersSize_def Let_def)
  then show "\<exists>c. http_feed reference_strings [limit_head @ take 3 g_sentinel, drop 3 g_sentinel] new_context
        = Inr (serverError ''HTTP header size too large'', c, [drop 3 g_sentinel])"
    by auto
qed

text \<open>
  With the documented conversion of text to an unsigned number, a \<open>Content-Length\<close> with a sign
  is not refused: a negative length congruent to 5 modulo the word size frames a body of five bytes.
\<close>

theorem http_signed_length_accepted:
  "\<exists>c. http_parse reference_strings
        (''POST / HTTP/1.1'' @ g_crlf @ ''Content-Length: -18446744073709551611'' @ g_sentinel @ ''hello'') new_context
      = Inr (serverResult PARSED, c) \<and> hc_body c = ''hello''"
  by (simp add: eval_http less_eq_char_def char_of_def bit_Suc_0_iff word_gt_0)

end
