(* ===== verification/HeaderList.thy ===== *)
theory HeaderList
  imports Prelude "HOL-Library.Multiset"
begin

text \<open>
  The ordered, multi-value list of HTTP header fields of \<open>http/HeaderList.h\<close>: validation, the
  operations, and the conversions to and from \<open>http::HeadersMap\<close>.  A map is a list of entries in
  the order of its iteration, which is unspecified for an unordered map.
\<close>

section \<open>Characters and names\<close>

record header =
  h_name :: string
  h_value :: string

definition isTokenChar :: "char \<Rightarrow> bool" where
  "isTokenChar ch \<longleftrightarrow> (let octet = of_char ch :: nat in
     97 \<le> octet \<and> octet \<le> 122 \<or> 65 \<le> octet \<and> octet \<le> 90 \<or> 48 \<le> octet \<and> octet \<le> 57)
     \<or> ch \<in> set ''!#$%&*+-.^_`|~'' \<or> ch = CHR 0x27"

definition isFieldVChar :: "char \<Rightarrow> bool" where
  "isFieldVChar ch \<longleftrightarrow> of_char ch \<ge> (0x21 :: nat) \<and> of_char ch \<noteq> (0x7F :: nat)"

definition isSpaceOrTab :: "char \<Rightarrow> bool" where
  "isSpaceOrTab ch \<longleftrightarrow> ch = CHR '' '' \<or> ch = CHR 0x09"

definition toLowerAsciiChar :: "char \<Rightarrow> char" where
  "toLowerAsciiChar ch =
     (if 65 \<le> (of_char ch :: nat) \<and> of_char ch \<le> (90 :: nat) then char_of (of_char ch - 65 + 97 :: nat) else ch)"

text \<open>The character order of \<open>std::string\<close>, on unsigned octets; the shorter prefix is smaller.\<close>

fun octetLess :: "string \<Rightarrow> string \<Rightarrow> bool" where
  "octetLess [] [] = False"
| "octetLess [] (r # rs) = True"
| "octetLess (l # ls) [] = False"
| "octetLess (l # ls) (r # rs) =
     (if (of_char l :: nat) \<noteq> of_char r then (of_char l :: nat) < of_char r else octetLess ls rs)"

fun lessIgnoreCase :: "string \<Rightarrow> string \<Rightarrow> bool" where
  "lessIgnoreCase [] [] = False"
| "lessIgnoreCase [] (r # rs) = True"
| "lessIgnoreCase (l # ls) [] = False"
| "lessIgnoreCase (l # ls) (r # rs) =
     (let left = of_char (toLowerAsciiChar l) :: nat; right = of_char (toLowerAsciiChar r) in
      if left \<noteq> right then left < right else lessIgnoreCase ls rs)"

definition equalsIgnoreCase :: "string \<Rightarrow> string \<Rightarrow> bool" where
  "equalsIgnoreCase lhs rhs \<longleftrightarrow> length lhs = length rhs
     \<and> list_all (\<lambda>(l, r). toLowerAsciiChar l = toLowerAsciiChar r) (zip lhs rhs)"

definition hasLeadingOrTrailingWhitespace :: "string \<Rightarrow> bool" where
  "hasLeadingOrTrailingWhitespace value \<longleftrightarrow>
     value \<noteq> [] \<and> (isSpaceOrTab (hd value) \<or> isSpaceOrTab (last value))"

definition isValidHeaderName :: "string \<Rightarrow> bool" where
  "isValidHeaderName name \<longleftrightarrow> name \<noteq> [] \<and> list_all isTokenChar name"

definition isValidHeaderValue :: "string \<Rightarrow> bool" where
  "isValidHeaderValue value \<longleftrightarrow> list_all (\<lambda>ch. isFieldVChar ch \<or> isSpaceOrTab ch) value
     \<and> \<not> hasLeadingOrTrailingWhitespace value"

definition validateHeader :: "string \<Rightarrow> string \<Rightarrow> unit res" where
  "validateHeader name value =
     bindR (chkR (isValidHeaderName name) (InvalidDataFormat ''header'' ''name''))
       (\<lambda>_. bindR (chkR (\<not> hasLeadingOrTrailingWhitespace value) (InvalidDataFormat ''header'' ''value white space''))
          (\<lambda>_. chkR (isValidHeaderValue value) (InvalidDataFormat ''header'' ''value character'')))"

section \<open>Operations\<close>

text \<open>The position of the first match, or the size of the list.\<close>

fun indexOf :: "string \<Rightarrow> header list \<Rightarrow> nat" where
  "indexOf name [] = 0"
| "indexOf name (h # hs) = (if equalsIgnoreCase (h_name h) name then 0 else Suc (indexOf name hs))"

definition hl_at :: "nat \<Rightarrow> header list \<Rightarrow> header res" where
  "hl_at pos hs = bindR (chkR (pos < length hs) ArgumentExc) (\<lambda>_. Inr (hs ! pos))"

definition hl_append :: "string \<Rightarrow> string \<Rightarrow> header list \<Rightarrow> header list res" where
  "hl_append name value hs =
     bindR (validateHeader name value) (\<lambda>_. Inr (hs @ [\<lparr>h_name = name, h_value = value\<rparr>]))"

text \<open>The loop from \<open>i\<close> down to above \<open>lo\<close> which erases the matching fields.\<close>

fun eraseDown :: "string \<Rightarrow> nat \<Rightarrow> nat \<Rightarrow> header list \<Rightarrow> header list" where
  "eraseDown name lo 0 hs = hs"
| "eraseDown name lo (Suc current) hs =
     (if Suc current > lo
      then eraseDown name lo current
        (if equalsIgnoreCase (h_name (hs ! current)) name then take current hs @ drop (Suc current) hs else hs)
      else hs)"

definition hl_set :: "string \<Rightarrow> string \<Rightarrow> header list \<Rightarrow> header list res" where
  "hl_set name value hs =
     bindR (validateHeader name value)
       (\<lambda>_. let pos = indexOf name hs in
          if pos = length hs then Inr (hs @ [\<lparr>h_name = name, h_value = value\<rparr>])
          else let hs1 = hs[pos := \<lparr>h_name = name, h_value = value\<rparr>]
               in Inr (eraseDown (h_name (hs1 ! pos)) (pos + 1) (length hs1) hs1))"

definition hl_removeAll :: "string \<Rightarrow> header list \<Rightarrow> nat \<times> header list" where
  "hl_removeAll name hs = (let hs1 = eraseDown name 0 (length hs) hs in (length hs - length hs1, hs1))"

definition hl_has :: "string \<Rightarrow> header list \<Rightarrow> bool" where
  "hl_has name hs \<longleftrightarrow> indexOf name hs \<noteq> length hs"

definition hl_count :: "string \<Rightarrow> header list \<Rightarrow> nat" where
  "hl_count name hs = length (filter (\<lambda>h. equalsIgnoreCase (h_name h) name) hs)"

definition hl_tryGet :: "string \<Rightarrow> header list \<Rightarrow> string option" where
  "hl_tryGet name hs =
     (let pos = indexOf name hs in if pos = length hs then None else Some (h_value (hs ! pos)))"

definition hl_get :: "string \<Rightarrow> header list \<Rightarrow> string res" where
  "hl_get name hs = (case hl_tryGet name hs of None \<Rightarrow> Inl NotFoundExc | Some v \<Rightarrow> Inr v)"

definition hl_getAll :: "string \<Rightarrow> header list \<Rightarrow> string list" where
  "hl_getAll name hs = map h_value (filter (\<lambda>h. equalsIgnoreCase (h_name h) name) hs)"

section \<open>Conversions\<close>

type_synonym headers_map = "(string \<times> string) list"

definition g_valueSeparator :: string where "g_valueSeparator = '', ''"

text \<open>Adding a field to the entry whose key matches, or as a new entry.\<close>

fun mapAdd :: "header \<Rightarrow> headers_map \<Rightarrow> headers_map" where
  "mapAdd h [] = [(h_name h, h_value h)]"
| "mapAdd h ((k, v) # m) =
     (if equalsIgnoreCase k (h_name h) then (k, v @ g_valueSeparator @ h_value h) # m else (k, v) # mapAdd h m)"

definition toMap :: "header list \<Rightarrow> headers_map" where
  "toMap hs = foldl (\<lambda>m h. mapAdd h m) [] hs"

definition headerLess :: "header \<Rightarrow> header \<Rightarrow> bool" where
  "headerLess lhs rhs =
     (if \<not> equalsIgnoreCase (h_name lhs) (h_name rhs) then lessIgnoreCase (h_name lhs) (h_name rhs)
      else octetLess (h_value lhs) (h_value rhs))"

text \<open>
  \<open>std::sort\<close> with a comparator: elements that compare equal may come in any order, here they keep
  the order they had.
\<close>

fun insertSorted :: "header \<Rightarrow> header list \<Rightarrow> header list" where
  "insertSorted h [] = [h]"
| "insertSorted h (x # xs) = (if headerLess x h then x # insertSorted h xs else h # x # xs)"

definition sortHeaders :: "header list \<Rightarrow> header list" where
  "sortHeaders hs = foldr insertSorted hs []"

fun appendAll :: "headers_map \<Rightarrow> header list \<Rightarrow> header list res" where
  "appendAll [] hs = Inr hs"
| "appendAll ((k, v) # m) hs = bindR (hl_append k v hs) (appendAll m)"

definition fromMap :: "headers_map \<Rightarrow> header list res" where
  "fromMap m = bindR (appendAll m []) (\<lambda>hs. Inr (sortHeaders hs))"

section \<open>Comparing names and values\<close>

definition folded :: "string \<Rightarrow> nat list" where
  "folded s = map (\<lambda>c. of_char (toLowerAsciiChar c)) s"

lemma equalsIgnoreCase_folded: "equalsIgnoreCase s t \<longleftrightarrow> folded s = folded t"
proof (induction s arbitrary: t)
  case (Cons x s)
  then show ?case by (cases t) (auto simp: equalsIgnoreCase_def folded_def)
qed (auto simp: equalsIgnoreCase_def folded_def)

lemma equals_refl [simp]: "equalsIgnoreCase s s"
  by (simp add: equalsIgnoreCase_folded)

lemma equals_sym: "equalsIgnoreCase s t \<longleftrightarrow> equalsIgnoreCase t s"
  by (auto simp: equalsIgnoreCase_folded)

lemma equals_cong: "equalsIgnoreCase s t \<Longrightarrow> equalsIgnoreCase s u \<longleftrightarrow> equalsIgnoreCase t u"
  "equalsIgnoreCase s t \<Longrightarrow> equalsIgnoreCase u s \<longleftrightarrow> equalsIgnoreCase u t"
  by (auto simp: equalsIgnoreCase_folded)

fun lexLess :: "nat list \<Rightarrow> nat list \<Rightarrow> bool" where
  "lexLess [] [] = False"
| "lexLess [] (r # rs) = True"
| "lexLess (l # ls) [] = False"
| "lexLess (l # ls) (r # rs) = (if l \<noteq> r then l < r else lexLess ls rs)"

lemma lessIgnoreCase_folded: "lessIgnoreCase s t \<longleftrightarrow> lexLess (folded s) (folded t)"
  by (induction s t rule: lessIgnoreCase.induct) (auto simp: folded_def Let_def)

lemma octetLess_lex: "octetLess s t \<longleftrightarrow> lexLess (map of_char s) (map of_char t)"
  by (induction s t rule: octetLess.induct) auto

lemma lexLess_irrefl: "\<not> lexLess a a"
  by (induction a) auto

lemma lexLess_trans: "lexLess a b \<Longrightarrow> lexLess b c \<Longrightarrow> lexLess a c"
proof (induction a b arbitrary: c rule: lexLess.induct)
  case (2 r rs)
  then show ?case by (cases c) auto
next
  case (4 l ls r rs)
  then show ?case by (cases c) (auto split: if_splits)
qed auto

lemma lexLess_total: "a \<noteq> b \<Longrightarrow> lexLess a b \<or> lexLess b a"
  by (induction a b rule: lexLess.induct) auto

lemma of_char_inj: "map (of_char :: char \<Rightarrow> nat) s = map of_char t \<longleftrightarrow> s = t"
  using inj_map_eq_map [of "of_char :: char \<Rightarrow> nat" s t] by (simp add: inj_def)

text \<open>The sort key of a field: the comparator orders by it.\<close>

definition sortKey :: "header \<Rightarrow> nat list \<times> nat list" where
  "sortKey h = (folded (h_name h), map of_char (h_value h))"

definition keyLess :: "nat list \<times> nat list \<Rightarrow> nat list \<times> nat list \<Rightarrow> bool" where
  "keyLess a b \<longleftrightarrow> lexLess (fst a) (fst b) \<or> fst a = fst b \<and> lexLess (snd a) (snd b)"

lemma headerLess_key: "headerLess x y \<longleftrightarrow> keyLess (sortKey x) (sortKey y)"
  by (auto simp: headerLess_def keyLess_def sortKey_def equalsIgnoreCase_folded lessIgnoreCase_folded octetLess_lex
      lexLess_irrefl)

lemma keyLess_order:
  "\<not> keyLess a a" "keyLess a b \<Longrightarrow> keyLess b c \<Longrightarrow> keyLess a c" "a \<noteq> b \<Longrightarrow> keyLess a b \<or> keyLess b a"
  using lexLess_irrefl lexLess_trans lexLess_total by (auto simp: keyLess_def prod_eq_iff) (metis+)

end
