(* ===== verification/HeaderProps.thy ===== *)
theory HeaderProps
  imports HeaderList
begin

text \<open>
  The properties of the header list: no sequence of operations lets an invalid field in, \<open>set\<close>
  replaces in place, and what the conversions to and from the map keep.
\<close>

section \<open>Erasing and setting\<close>

abbreviation matches :: "string \<Rightarrow> header \<Rightarrow> bool" where
  "matches name h \<equiv> equalsIgnoreCase (h_name h) name"

lemma eraseDown_eq:
  "lo \<le> i \<Longrightarrow> i \<le> length hs \<Longrightarrow>
     eraseDown name lo i hs = take lo hs @ filter (\<lambda>h. \<not> matches name h) (drop lo (take i hs)) @ drop i hs"
proof (induction i arbitrary: hs)
  case (Suc i)
  show ?case
  proof (cases "lo \<le> i")
    case True
    have t: "take (Suc i) hs = take i hs @ [hs ! i]" using Suc.prems by (simp add: take_Suc_conv_app_nth)
    let ?hs = "if matches name (hs ! i) then take i hs @ drop (Suc i) hs else hs"
    have l: "i \<le> length ?hs" "take lo ?hs = take lo hs" "take i ?hs = take i hs"
      using True Suc.prems by auto
    have "eraseDown name lo (Suc i) hs = eraseDown name lo i ?hs" using True by simp
    also have "\<dots> = take lo hs @ filter (\<lambda>h. \<not> matches name h) (drop lo (take i hs)) @ drop i ?hs"
      using Suc.IH [OF True l(1)] l by (simp only:)
    also have "\<dots> = take lo hs @ filter (\<lambda>h. \<not> matches name h) (drop lo (take (Suc i) hs)) @ drop (Suc i) hs"
      using True Suc.prems by (simp add: t Cons_nth_drop_Suc)
    finally show ?thesis .
  next
    case False
    with Suc.prems have "lo = Suc i" by simp
    then show ?thesis by simp
  qed
qed simp

lemma indexOf_split:
  "indexOf name hs = length (takeWhile (\<lambda>h. \<not> matches name h) hs)"
  by (induction hs) auto

lemma indexOf_none: "indexOf name hs = length hs \<longleftrightarrow> (\<forall>x \<in> set hs. \<not> matches name x)"
  by (induction hs) auto

lemma indexOf_found:
  assumes "indexOf name hs \<noteq> length hs"
  obtains before h after where "hs = before @ h # after" "indexOf name hs = length before"
    "\<forall>x \<in> set before. \<not> matches name x" "matches name h"
proof -
  let ?b = "takeWhile (\<lambda>h. \<not> matches name h) hs"
  have "dropWhile (\<lambda>h. \<not> matches name h) hs \<noteq> []"
    using assms unfolding indexOf_none dropWhile_eq_Nil_conv by simp
  then obtain h a where d: "dropWhile (\<lambda>h. \<not> matches name h) hs = h # a" "matches name h"
    by (cases "dropWhile (\<lambda>h. \<not> matches name h) hs") (auto simp: dropWhile_eq_Cons_conv)
  have "hs = ?b @ h # a" using d by (metis takeWhile_dropWhile_id)
  moreover have "\<forall>x \<in> set ?b. \<not> matches name x" by (auto dest: set_takeWhileD)
  ultimately show thesis using d(2) that indexOf_split by metis
qed

lemma indexOf_le: "indexOf name hs \<le> length hs"
  by (induction hs) auto

lemma hl_set_cases:
  assumes "hl_set name value hs = Inr hs'"
  obtains (New) "\<forall>x \<in> set hs. \<not> matches name x" "hs' = hs @ [\<lparr>h_name = name, h_value = value\<rparr>]"
  | (Replace) before h after where "hs = before @ h # after" "\<forall>x \<in> set before. \<not> matches name x" "matches name h"
      "hs' = before @ \<lparr>h_name = name, h_value = value\<rparr> # filter (\<lambda>x. \<not> matches name x) after"
proof (cases "indexOf name hs = length hs")
  case True
  with assms indexOf_none [of name hs] show thesis by (intro New) (auto simp: hl_set_def bindR_eq_Inr Let_def)
next
  case False
  obtain before h after where s: "hs = before @ h # after" "indexOf name hs = length before"
    "\<forall>x \<in> set before. \<not> matches name x" "matches name h" by (rule indexOf_found [OF False])
  let ?new = "\<lparr>h_name = name, h_value = value\<rparr>"
  let ?hs = "before @ ?new # after"
  have u: "hs[indexOf name hs := ?new] = ?hs" using s by simp
  have "eraseDown name (length before + 1) (length ?hs) ?hs = take (length before + 1) ?hs
      @ filter (\<lambda>x. \<not> matches name x) (drop (length before + 1) (take (length ?hs) ?hs)) @ drop (length ?hs) ?hs"
    by (rule eraseDown_eq) simp_all
  then have e: "eraseDown name (length before + 1) (length ?hs) ?hs = before @ ?new # filter (\<lambda>x. \<not> matches name x) after"
    by simp
  have "hs' = eraseDown (h_name (?hs ! length before)) (length before + 1) (length ?hs) ?hs"
    using assms False s(2) unfolding hl_set_def Let_def u by (auto simp: bindR_eq_Inr)
  with e have "hs' = before @ ?new # filter (\<lambda>x. \<not> matches name x) after" by simp
  with s show thesis by (intro Replace) auto
qed

text \<open>
  After \<open>set\<close> the name has exactly the given value, in the spelling given, at the place where its
  first field was (or at the end); every other field keeps its value and its order.
\<close>

theorem hl_set_correct:
  assumes "hl_set name value hs = Inr hs'"
  shows "hl_getAll name hs' = [value] \<and> hl_tryGet name hs' = Some value \<and> indexOf name hs' = indexOf name hs
     \<and> hs' ! indexOf name hs' = \<lparr>h_name = name, h_value = value\<rparr>
     \<and> filter (\<lambda>x. \<not> matches name x) hs' = filter (\<lambda>x. \<not> matches name x) hs"
  using assms
proof (cases rule: hl_set_cases)
  case New
  then have i: "indexOf name hs = length hs" "indexOf name hs' = length hs"
    using indexOf_none [of name hs] by (simp_all add: indexOf_split takeWhile_append2)
  with New show ?thesis by (simp add: hl_getAll_def hl_tryGet_def Let_def)
next
  case (Replace before h after)
  then have i: "indexOf name hs = length before" "indexOf name hs' = length before"
    by (simp_all add: indexOf_split takeWhile_append2)
  have f: "filter (matches name) before = []" "filter (\<lambda>x. \<not> matches name x) before = before"
    using Replace(2) by (simp_all add: filter_empty_conv filter_id_conv)
  with Replace i show ?thesis by (simp add: hl_getAll_def hl_tryGet_def Let_def)
qed

lemma hl_set_correct_witness:
  "\<exists>hs'. hl_set ''accept'' ''x'' [\<lparr>h_name = ''A'', h_value = ''1''\<rparr>, \<lparr>h_name = ''Accept'', h_value = ''2''\<rparr>,
      \<lparr>h_name = ''ACCEPT'', h_value = ''3''\<rparr>] = Inr hs' \<and> hl_getAll ''accept'' hs' = [''x'']"
proof -
  obtain hs' where "hl_set ''accept'' ''x'' [\<lparr>h_name = ''A'', h_value = ''1''\<rparr>,
      \<lparr>h_name = ''Accept'', h_value = ''2''\<rparr>, \<lparr>h_name = ''ACCEPT'', h_value = ''3''\<rparr>] = Inr hs'"
    by (simp add: hl_set_def validateHeader_def isValidHeaderName_def isValidHeaderValue_def isTokenChar_def
        hasLeadingOrTrailingWhitespace_def isSpaceOrTab_def isFieldVChar_def Let_def equalsIgnoreCase_def
        toLowerAsciiChar_def char_of_def bit_Suc_0_iff)
  with hl_set_correct [OF this] show ?thesis by blast
qed

section \<open>No invalid field gets in\<close>

definition valid_header :: "header \<Rightarrow> bool" where
  "valid_header h \<longleftrightarrow> isValidHeaderName (h_name h) \<and> isValidHeaderValue (h_value h)"

definition valid_list :: "header list \<Rightarrow> bool" where
  "valid_list hs \<longleftrightarrow> list_all valid_header hs"

lemma validateHeader_Inr: "validateHeader n v = Inr () \<longleftrightarrow> isValidHeaderName n \<and> isValidHeaderValue v"
  by (auto simp: validateHeader_def bindR_eq_Inr isValidHeaderValue_def)

text \<open>The lists that can be built: every operation that changes the list is a rule.\<close>

inductive built :: "header list \<Rightarrow> bool" where
  Empty: "built []"
| Append: "built hs \<Longrightarrow> hl_append name value hs = Inr hs' \<Longrightarrow> built hs'"
| Set: "built hs \<Longrightarrow> hl_set name value hs = Inr hs' \<Longrightarrow> built hs'"
| RemoveAll: "built hs \<Longrightarrow> built (snd (hl_removeAll name hs))"
| FromMap: "fromMap m = Inr hs \<Longrightarrow> built hs"

lemma insertSorted_mset [simp]: "mset (insertSorted h hs) = add_mset h (mset hs)"
  by (induction hs) auto

lemma sortHeaders_mset [simp]: "mset (sortHeaders hs) = mset hs"
  by (induction hs) (simp_all add: sortHeaders_def)

lemma sortHeaders_set [simp]: "set (sortHeaders hs) = set hs"
  using sortHeaders_mset [of hs] by (metis set_mset_mset)

definition entry :: "string \<times> string \<Rightarrow> header" where
  "entry p = \<lparr>h_name = fst p, h_value = snd p\<rparr>"

lemma appendAll_eq:
  "appendAll m hs = Inr hs' \<longleftrightarrow> list_all (valid_header \<circ> entry) m \<and> hs' = hs @ map entry m"
proof (induction m arbitrary: hs)
  case (Cons p m)
  obtain k v where p: "p = (k, v)" by (cases p)
  have "appendAll (p # m) hs = Inr hs' \<longleftrightarrow> isValidHeaderName k \<and> isValidHeaderValue v
      \<and> appendAll m (hs @ [\<lparr>h_name = k, h_value = v\<rparr>]) = Inr hs'"
    using p validateHeader_Inr [of k v] by (auto simp: hl_append_def bindR_eq_Inr)
  with Cons.IH p show ?case by (auto simp: valid_header_def entry_def)
qed auto

lemma fromMap_eq:
  "fromMap m = Inr hs \<longleftrightarrow> list_all (valid_header \<circ> entry) m \<and> hs = sortHeaders (map entry m)"
  by (auto simp: fromMap_def bindR_eq_Inr appendAll_eq)

lemma built_valid: "built hs \<Longrightarrow> valid_list hs"
proof (induction rule: built.induct)
  case (Append hs name v hs')
  then show ?case
    by (auto simp: hl_append_def bindR_eq_Inr validateHeader_Inr valid_list_def valid_header_def)
next
  case (Set hs name v hs')
  then have va: "isValidHeaderName name" "isValidHeaderValue v"
    using validateHeader_Inr by (auto simp: hl_set_def bindR_eq_Inr)
  from Set(2) show ?case
    by (cases rule: hl_set_cases) (use Set(3) va in \<open>auto simp: valid_list_def valid_header_def list_all_iff\<close>)
next
  case (RemoveAll hs name)
  then show ?case
    by (auto simp: hl_removeAll_def Let_def eraseDown_eq valid_list_def list_all_iff)
next
  case (FromMap m hs)
  then show ?case by (auto simp: fromMap_eq valid_list_def list_all_iff)
qed (simp add: valid_list_def)

text \<open>
  C11 Whatever operations build a list, every name in it is a non-empty token and every value is free
  of control characters and of white space at its ends: in particular no CR, LF, NUL or colon in a
  name and no CR, LF or NUL in a value, so no field can be split into further header lines.
\<close>

theorem hl_no_injection:
  assumes "built hs" "h \<in> set hs"
  shows "isValidHeaderName (h_name h) \<and> isValidHeaderValue (h_value h)
     \<and> {CHR 0x0D, CHR 0x0A, CHR 0x00, CHR '':'', CHR '' ''} \<inter> set (h_name h) = {}
     \<and> {CHR 0x0D, CHR 0x0A, CHR 0x00} \<inter> set (h_value h) = {}"
proof -
  have v: "isValidHeaderName (h_name h)" "isValidHeaderValue (h_value h)"
    using built_valid [OF assms(1)] assms(2) by (auto simp: valid_list_def valid_header_def list_all_iff)
  have n: "\<not> isTokenChar CHR 0x0D" "\<not> isTokenChar CHR 0x0A" "\<not> isTokenChar CHR 0x00" "\<not> isTokenChar CHR '':''"
    "\<not> isTokenChar CHR '' ''"
    by (simp_all add: isTokenChar_def)
  have f: "\<not> (isFieldVChar c \<or> isSpaceOrTab c)" if "c \<in> {CHR 0x0D, CHR 0x0A, CHR 0x00}" for c
    using that by (auto simp: isFieldVChar_def isSpaceOrTab_def)
  have "c \<notin> set (h_name h)" if "c \<in> {CHR 0x0D, CHR 0x0A, CHR 0x00, CHR '':'', CHR '' ''}" for c
    using v(1) n that by (auto simp: isValidHeaderName_def list_all_iff)
  moreover have "c \<notin> set (h_value h)" if "c \<in> {CHR 0x0D, CHR 0x0A, CHR 0x00}" for c
    using v(2) f [OF that] by (auto simp: isValidHeaderValue_def list_all_iff)
  ultimately show ?thesis using v by blast
qed

lemma hl_no_injection_witness:
  "built [\<lparr>h_name = ''A'', h_value = ''1''\<rparr>] \<and> isValidHeaderName ''A''"
proof -
  have b: "built [\<lparr>h_name = ''A'', h_value = ''1''\<rparr>]"
    by (rule Append [OF Empty, of "''A''" "''1''"])
      (simp add: hl_append_def validateHeader_def isValidHeaderName_def isValidHeaderValue_def isTokenChar_def
        hasLeadingOrTrailingWhitespace_def isSpaceOrTab_def isFieldVChar_def)
  with hl_no_injection [OF b, of "\<lparr>h_name = ''A'', h_value = ''1''\<rparr>"] show ?thesis by simp
qed

section \<open>From a map\<close>

lemma insertSorted_sorted:
  "sorted_wrt (\<lambda>x y. \<not> headerLess y x) hs \<Longrightarrow> sorted_wrt (\<lambda>x y. \<not> headerLess y x) (insertSorted h hs)"
proof (induction hs)
  case (Cons x hs)
  have "set (insertSorted h hs) = insert h (set hs)"
    using insertSorted_mset [of h hs] by (metis set_mset_add_mset_insert set_mset_mset)
  moreover have "\<not> headerLess h x" if "headerLess x h"
    using that keyLess_order(1,2) unfolding headerLess_key by metis
  moreover have "\<not> headerLess y h" if "\<not> headerLess x h" "y \<in> set hs" for y
  proof
    assume "headerLess y h"
    moreover have "\<not> headerLess y x" using Cons.prems that by simp
    ultimately show False using that(1) keyLess_order(2,3) unfolding headerLess_key by metis
  qed
  ultimately show ?case using Cons by auto
qed simp

lemma sortHeaders_sorted: "sorted_wrt (\<lambda>x y. \<not> headerLess y x) (sortHeaders hs)"
  by (induction hs) (simp_all add: sortHeaders_def insertSorted_sorted)

text \<open>A sorted list without ties is determined by its elements.\<close>

lemma sorted_unique:
  assumes "sorted_wrt (\<lambda>x y. \<not> headerLess y x) xs" "sorted_wrt (\<lambda>x y. \<not> headerLess y x) ys"
    "mset xs = mset ys" "distinct (map sortKey xs)"
  shows "xs = ys"
  using assms
proof (induction xs arbitrary: ys)
  case (Cons x xs)
  then obtain y ys' where y: "ys = y # ys'" by (cases ys) auto
  have m: "x \<in> set ys" "y \<in> set (x # xs)" using Cons.prems(3) y by (metis list.set_intros(1) set_mset_mset)+
  have "x = y"
  proof (rule ccontr)
    assume n: "x \<noteq> y"
    then have "\<not> headerLess x y" "\<not> headerLess y x" using m Cons.prems(1,2) y by auto
    then have "sortKey x = sortKey y" using keyLess_order(3) by (metis headerLess_key)
    with n m(2) Cons.prems(4) show False by auto
  qed
  with Cons y show ?case by simp
qed simp

text \<open>\<open>tied p q\<close>: two entries the comparator cannot tell apart, two spellings of a name with one value.\<close>

definition no_ties :: "headers_map \<Rightarrow> bool" where
  "no_ties m \<longleftrightarrow> distinct (map (sortKey \<circ> entry) m)"

text \<open>Entries whose names differ by more than their case.\<close>

definition one_spelling :: "headers_map \<Rightarrow> bool" where
  "one_spelling m \<longleftrightarrow> distinct (map (folded \<circ> fst) m)"

lemma mapAdd_none:
  "\<forall>p \<in> set m. \<not> equalsIgnoreCase (fst p) (h_name h) \<Longrightarrow> mapAdd h m = m @ [(h_name h, h_value h)]"
  by (induction h m rule: mapAdd.induct) auto

lemma toMap_snoc [simp]: "toMap [] = []" "toMap (hs @ [h]) = mapAdd h (toMap hs)"
  by (simp_all add: toMap_def)

lemma toMap_distinct:
  "distinct (map (folded \<circ> h_name) hs) \<Longrightarrow> toMap hs = map (\<lambda>h. (h_name h, h_value h)) hs"
proof (induction hs rule: rev_induct)
  case (snoc h hs)
  then show ?case by (subst toMap_snoc) (subst mapAdd_none, auto simp: equalsIgnoreCase_folded image_iff)
qed simp

text \<open>
  A map that \<open>fromMap\<close> accepts becomes a list of the same fields, sorted by name and value; when no
  two spellings of a name have the same value the order does not depend on the map's iteration order,
  and when no name has two spellings \<open>toMap\<close> gives back the same map.
\<close>

theorem hl_from_map:
  assumes "fromMap m = Inr hs"
  shows "mset hs = mset (map entry m) \<and> sorted_wrt (\<lambda>x y. \<not> headerLess y x) hs
     \<and> (\<forall>m'. no_ties m \<longrightarrow> mset m' = mset m \<longrightarrow> fromMap m' = Inr hs)
     \<and> (one_spelling m \<longrightarrow> mset (toMap hs) = mset m)"
proof (intro conjI allI impI)
  have e: "list_all (valid_header \<circ> entry) m" "hs = sortHeaders (map entry m)" using assms by (simp_all add: fromMap_eq)
  show h: "mset hs = mset (map entry m)" "sorted_wrt (\<lambda>x y. \<not> headerLess y x) hs"
    using e sortHeaders_sorted by simp_all
  show "fromMap m' = Inr hs" if n: "no_ties m" "mset m' = mset m" for m'
  proof -
    have "set m' = set m" using n(2) by (metis set_mset_mset)
    moreover have mm: "mset (sortHeaders (map entry m)) = mset (sortHeaders (map entry m'))" using n(2) by simp
    have "mset (map sortKey (sortHeaders (map entry m))) = mset (map (sortKey \<circ> entry) m)"
      by (simp add: multiset.map_comp)
    then have "distinct (map sortKey (sortHeaders (map entry m)))"
      using n(1) unfolding no_ties_def by (metis mset_eq_imp_distinct_iff)
    then have "sortHeaders (map entry m) = sortHeaders (map entry m')"
      by (intro sorted_unique sortHeaders_sorted mm)
    ultimately show ?thesis using e by (simp add: fromMap_eq list_all_iff)
  qed
  show "mset (toMap hs) = mset m" if "one_spelling m"
  proof -
    have "mset (map (folded \<circ> h_name) hs) = image_mset (folded \<circ> h_name) (mset (map entry m))"
      using h(1) by (simp only: mset_map)
    also have "\<dots> = mset (map (folded \<circ> fst) m)" by (simp add: multiset.map_comp comp_def entry_def)
    finally have "distinct (map (folded \<circ> h_name) hs)"
      using that unfolding one_spelling_def by (metis mset_eq_imp_distinct_iff)
    then have "mset (toMap hs) = image_mset (\<lambda>h. (h_name h, h_value h)) (mset hs)" by (simp add: toMap_distinct)
    also have "\<dots> = mset m" using h(1) by (simp add: multiset.map_comp comp_def entry_def)
    finally show ?thesis .
  qed
qed

lemma hl_from_map_witness:
  "\<exists>hs. fromMap [(''b'', ''2''), (''A'', ''1'')] = Inr hs \<and> mset (toMap hs) = mset [(''b'', ''2''), (''A'', ''1'')]
     \<and> fromMap [(''A'', ''1''), (''b'', ''2'')] = Inr hs"
proof -
  let ?m = "[(''b'', ''2''), (''A'', ''1'')]"
  have "\<exists>hs. fromMap ?m = Inr hs"
    by (simp add: fromMap_def hl_append_def validateHeader_def isValidHeaderName_def isValidHeaderValue_def
        isTokenChar_def hasLeadingOrTrailingWhitespace_def isSpaceOrTab_def isFieldVChar_def)
  then obtain hs where hs: "fromMap ?m = Inr hs" ..
  have "no_ties ?m" "one_spelling ?m" "mset [(''A'', ''1''), (''b'', ''2'')] = mset ?m"
    by (simp_all add: no_ties_def one_spelling_def sortKey_def entry_def folded_def toLowerAsciiChar_def)
  with hl_from_map [OF hs] hs show ?thesis by blast
qed

section \<open>To a map and back\<close>

definition joinValues :: "string list \<Rightarrow> string" where
  "joinValues vs = hd vs @ concat (map (\<lambda>v. g_valueSeparator @ v) (tl vs))"

lemma joinValues_snoc: "joinValues [v] = v" "vs \<noteq> [] \<Longrightarrow> joinValues (vs @ [v]) = joinValues vs @ g_valueSeparator @ v"
  by (simp_all add: joinValues_def)

fun firsts :: "header list \<Rightarrow> header list" where
  "firsts [] = []"
| "firsts (h # hs) = h # filter (\<lambda>x. \<not> matches (h_name h) x) (firsts hs)"

lemma firsts_snoc:
  "firsts (hs @ [h]) = firsts hs @ (if \<exists>x \<in> set hs. matches (h_name h) x then [] else [h])"
  by (induction hs) (auto simp: equalsIgnoreCase_folded)

lemma firsts_distinct: "distinct (map (folded \<circ> h_name) (firsts hs))"
  by (induction hs) (auto simp: distinct_map inj_on_def equalsIgnoreCase_folded)

lemma firsts_sub: "h \<in> set (firsts hs) \<Longrightarrow> h \<in> set hs"
  by (induction hs) auto

lemma firsts_has: "h \<in> set hs \<Longrightarrow> \<exists>x \<in> set (firsts hs). matches (h_name h) x"
  by (induction hs) (auto simp: equalsIgnoreCase_folded, metis)

lemma mapAdd_some:
  "distinct (map (folded \<circ> fst) m) \<Longrightarrow> \<exists>p \<in> set m. equalsIgnoreCase (fst p) (h_name h) \<Longrightarrow>
   mapAdd h m = map (\<lambda>(k, v). (k, if equalsIgnoreCase k (h_name h) then v @ g_valueSeparator @ h_value h else v)) m"
proof (induction h m rule: mapAdd.induct)
  case (2 h k v m)
  show ?case
  proof (cases "equalsIgnoreCase k (h_name h)")
    case True
    with 2 have "\<forall>p \<in> set m. \<not> equalsIgnoreCase (fst p) (h_name h)" by (auto simp: equalsIgnoreCase_folded image_iff)
    then show ?thesis using True by (auto intro!: map_idI [symmetric])
  next
    case False
    with 2 show ?thesis by simp
  qed
qed simp

lemma getAll_cong: "equalsIgnoreCase s t \<Longrightarrow> hl_getAll s hs = hl_getAll t hs"
  by (simp add: hl_getAll_def equalsIgnoreCase_folded)

lemma getAll_Nil: "hl_getAll name hs = [] \<longleftrightarrow> (\<forall>x \<in> set hs. \<not> matches name x)"
  by (simp add: hl_getAll_def filter_empty_conv)

lemma filter_one:
  "distinct (map (folded \<circ> h_name) fs) \<Longrightarrow> y \<in> set fs \<Longrightarrow> matches name y \<Longrightarrow> filter (matches name) fs = [y]"
  by (induction fs) (auto simp: filter_empty_conv equalsIgnoreCase_folded image_iff)

definition folded_fields :: "header list \<Rightarrow> headers_map" where
  "folded_fields hs = map (\<lambda>h. (h_name h, joinValues (hl_getAll (h_name h) hs))) (firsts hs)"

lemma getAll_snoc:
  "hl_getAll n (hs @ [h]) = hl_getAll n hs @ (if equalsIgnoreCase (h_name h) n then [h_value h] else [])"
  by (simp add: hl_getAll_def)

lemma getAll_firsts: "x \<in> set (firsts hs) \<Longrightarrow> hl_getAll (h_name x) hs \<noteq> []"
  using firsts_sub [of x hs] equals_refl [of "h_name x"] by (auto simp: getAll_Nil simp del: equals_refl)

lemma toMap_eq: "toMap hs = folded_fields hs"
proof (induction hs rule: rev_induct)
  case (snoc h hs)
  let ?f = "\<lambda>x. (h_name x, joinValues (hl_getAll (h_name x) hs))"
  let ?g = "\<lambda>x. (h_name x, joinValues (hl_getAll (h_name x) (hs @ [h])))"
  have d: "distinct (map (folded \<circ> fst) (map ?f (firsts hs)))"
    using firsts_distinct [of hs] by (simp add: comp_def)
  have t: "toMap (hs @ [h]) = mapAdd h (map ?f (firsts hs))"
    using snoc by (simp add: folded_fields_def)
  show ?case
  proof (cases "\<exists>x \<in> set hs. matches (h_name h) x")
    case True
    then obtain x where x: "x \<in> set hs" "matches (h_name h) x" by blast
    then obtain y where "y \<in> set (firsts hs)" "matches (h_name h) y"
      using firsts_has [OF x(1)] by (auto simp: equalsIgnoreCase_folded)
    then have "\<exists>p \<in> set (map ?f (firsts hs)). equalsIgnoreCase (fst p) (h_name h)" by force
    note m = mapAdd_some [OF d this]
    have "mapAdd h (map ?f (firsts hs)) = map ?g (firsts hs)"
      unfolding m map_map
    proof (rule map_cong [OF refl])
      fix z assume z: "z \<in> set (firsts hs)"
      show "((\<lambda>(k, v). (k, if equalsIgnoreCase k (h_name h) then v @ g_valueSeparator @ h_value h else v)) \<circ> ?f) z = ?g z"
        using getAll_firsts [OF z] equals_sym [of "h_name h" "h_name z"] by (simp add: getAll_snoc joinValues_snoc)
    qed
    with True t show ?thesis by (simp add: folded_fields_def firsts_snoc)
  next
    case False
    have "\<forall>p \<in> set (map ?f (firsts hs)). \<not> equalsIgnoreCase (fst p) (h_name h)"
      using False firsts_sub by auto
    note m = mapAdd_none [OF this]
    have "map ?f (firsts hs) = map ?g (firsts hs)"
    proof (rule map_cong [OF refl])
      fix z assume z: "z \<in> set (firsts hs)"
      then show "?f z = ?g z" using False firsts_sub [OF z] equals_sym [of "h_name h" "h_name z"] by (simp add: getAll_snoc)
    qed
    moreover have "hl_getAll (h_name h) hs = []" using False by (simp add: getAll_Nil)
    ultimately show ?thesis using False t m by (simp add: folded_fields_def firsts_snoc getAll_snoc joinValues_snoc)
  qed
qed (simp add: folded_fields_def)

lemma hasLW_append: "hasLeadingOrTrailingWhitespace (v @ w) \<longleftrightarrow>
    (if v = [] then hasLeadingOrTrailingWhitespace w
     else isSpaceOrTab (hd v) \<or> isSpaceOrTab (last (v @ w)))"
  by (auto simp: hasLeadingOrTrailingWhitespace_def)

lemma isValidHeaderValue_sep:
  assumes "list_all (\<lambda>ch. isFieldVChar ch \<or> isSpaceOrTab ch) v" "v \<noteq> [] \<Longrightarrow> \<not> isSpaceOrTab (hd v)" "isValidHeaderValue w"
  shows "isValidHeaderValue (v @ g_valueSeparator @ w) \<longleftrightarrow> w \<noteq> []"
proof -
  have g: "list_all (\<lambda>ch. isFieldVChar ch \<or> isSpaceOrTab ch) g_valueSeparator" "\<not> isSpaceOrTab CHR '',''"
    "isSpaceOrTab CHR '' ''"
    by (simp_all add: g_valueSeparator_def isFieldVChar_def isSpaceOrTab_def)
  have e: "hd (v @ g_valueSeparator @ w) = (if v = [] then CHR '','' else hd v)"
    "last (v @ g_valueSeparator @ w) = (if w = [] then CHR '' '' else last w)"
    "v @ g_valueSeparator @ w \<noteq> []"
    by (simp_all add: g_valueSeparator_def)
  have "w \<noteq> [] \<Longrightarrow> \<not> isSpaceOrTab (last w)" "list_all (\<lambda>ch. isFieldVChar ch \<or> isSpaceOrTab ch) w"
    using assms(3) by (auto simp: isValidHeaderValue_def hasLeadingOrTrailingWhitespace_def)
  then show ?thesis
    using assms(1,2) g unfolding isValidHeaderValue_def hasLeadingOrTrailingWhitespace_def e(1,2)
    by (simp add: e(3) del: append_is_Nil_conv)
qed

lemma joinValues_chars:
  "vs \<noteq> [] \<Longrightarrow> list_all isValidHeaderValue vs \<Longrightarrow>
     list_all (\<lambda>ch. isFieldVChar ch \<or> isSpaceOrTab ch) (joinValues vs)
     \<and> (joinValues vs \<noteq> [] \<longrightarrow> \<not> isSpaceOrTab (hd (joinValues vs)))"
proof (induction vs rule: rev_nonempty_induct)
  case (single v)
  then show ?case
    by (auto simp: joinValues_snoc isValidHeaderValue_def hasLeadingOrTrailingWhitespace_def)
next
  case (snoc v vs)
  then show ?case
    by (cases "joinValues vs")
      (auto simp: joinValues_snoc isValidHeaderValue_def g_valueSeparator_def isFieldVChar_def isSpaceOrTab_def)
qed

lemma joinValues_valid:
  assumes "vs \<noteq> []" "list_all isValidHeaderValue vs"
  shows "isValidHeaderValue (joinValues vs) \<longleftrightarrow> (length vs > 1 \<longrightarrow> last vs \<noteq> [])"
proof (cases vs rule: rev_cases)
  case (snoc us v)
  show ?thesis
  proof (cases "us = []")
    case False
    with snoc assms have "list_all isValidHeaderValue us" "isValidHeaderValue v" by auto
    with joinValues_chars [OF False] show ?thesis
      using snoc False isValidHeaderValue_sep [of "joinValues us" v] by (simp add: joinValues_snoc)
  qed (use snoc assms in \<open>simp add: joinValues_snoc\<close>)
qed (use assms in simp)

lemma firsts_fields:
  "hl_getAll name (map entry (map (\<lambda>h. (h_name h, joinValues (hl_getAll (h_name h) hs))) (firsts hs)))
     = (if hl_has name hs then [joinValues (hl_getAll name hs)] else [])"
proof (cases "hl_has name hs")
  case True
  then obtain x where "x \<in> set hs" "matches name x" by (auto simp: hl_has_def indexOf_none)
  then obtain y where y: "y \<in> set (firsts hs)" "matches name y"
    using firsts_has by (fastforce simp: equalsIgnoreCase_folded)
  have "hl_getAll name (map entry (map (\<lambda>h. (h_name h, joinValues (hl_getAll (h_name h) hs))) (firsts hs)))
      = map (\<lambda>h. joinValues (hl_getAll (h_name h) hs)) (filter (matches name) (firsts hs))"
    by (simp add: hl_getAll_def filter_map comp_def entry_def)
  then show ?thesis
    using True filter_one [OF firsts_distinct y] getAll_cong [OF y(2)] by simp
next
  case False
  then have "\<forall>x \<in> set (firsts hs). \<not> matches name x" using firsts_sub by (auto simp: hl_has_def indexOf_none)
  then have "filter (matches name) (firsts hs) = []" by (simp add: filter_empty_conv)
  then show ?thesis using False by (simp add: hl_getAll_def filter_map comp_def entry_def)
qed

text \<open>
  Taking a list of valid fields through the map and back succeeds exactly when no repeated field ends
  in an empty value (the joined value would end in a space); then every name keeps its values, joined
  by a comma and a space into one field, and no other name appears.
\<close>

theorem hl_to_map_and_back:
  assumes "valid_list hs"
  shows "((\<exists>hs'. fromMap (toMap hs) = Inr hs')
       \<longleftrightarrow> (\<forall>name. hl_count name hs > 1 \<longrightarrow> last (hl_getAll name hs) \<noteq> []))
     \<and> (\<forall>hs' name. fromMap (toMap hs) = Inr hs' \<longrightarrow>
          hl_getAll name hs' = (if hl_has name hs then [joinValues (hl_getAll name hs)] else []))"
proof (intro conjI allI impI)
  have c: "hl_count name hs = length (hl_getAll name hs)" for name by (simp add: hl_count_def hl_getAll_def)
  have vn: "isValidHeaderName (h_name h)" "isValidHeaderValue (h_value h)" if "h \<in> set hs" for h
    using assms that by (auto simp: valid_list_def valid_header_def list_all_iff)
  have vs: "list_all isValidHeaderValue (hl_getAll name hs)" for name
    using vn by (auto simp: hl_getAll_def list_all_iff)
  have ok: "valid_header (entry (h_name h, joinValues (hl_getAll (h_name h) hs)))
      \<longleftrightarrow> (hl_count (h_name h) hs > 1 \<longrightarrow> last (hl_getAll (h_name h) hs) \<noteq> [])" if "h \<in> set (firsts hs)" for h
    using joinValues_valid [OF getAll_firsts [OF that] vs] vn(1) [OF firsts_sub [OF that]]
    by (simp add: valid_header_def entry_def c)
  have "(\<exists>hs'. fromMap (toMap hs) = Inr hs')
      \<longleftrightarrow> (\<forall>h \<in> set (firsts hs). hl_count (h_name h) hs > 1 \<longrightarrow> last (hl_getAll (h_name h) hs) \<noteq> [])"
    using ok by (auto simp: fromMap_eq toMap_eq folded_fields_def list_all_iff)
  also have "\<dots> \<longleftrightarrow> (\<forall>name. hl_count name hs > 1 \<longrightarrow> last (hl_getAll name hs) \<noteq> [])"
  proof (intro iffI allI impI ballI)
    fix name
    assume a: "\<forall>h \<in> set (firsts hs). hl_count (h_name h) hs > 1 \<longrightarrow> last (hl_getAll (h_name h) hs) \<noteq> []"
      and n: "hl_count name hs > 1"
    then have "hl_getAll name hs \<noteq> []" by (auto simp: c)
    then obtain x where "x \<in> set hs" "matches name x" by (auto simp: getAll_Nil)
    then obtain y where y: "y \<in> set (firsts hs)" "matches name y"
      using firsts_has by (fastforce simp: equalsIgnoreCase_folded)
    then have "hl_getAll (h_name y) hs = hl_getAll name hs" by (intro getAll_cong)
    with a y n show "last (hl_getAll name hs) \<noteq> []" by (auto simp: c)
  qed auto
  finally show "(\<exists>hs'. fromMap (toMap hs) = Inr hs')
      \<longleftrightarrow> (\<forall>name. hl_count name hs > 1 \<longrightarrow> last (hl_getAll name hs) \<noteq> [])" .
  fix hs' name
  assume f: "fromMap (toMap hs) = Inr hs'"
  let ?e = "map entry (toMap hs)"
  have ms: "mset (hl_getAll name xs) = image_mset h_value (filter_mset (matches name) (mset xs))" for xs
    by (simp add: hl_getAll_def)
  have "mset hs' = mset ?e" using f by (simp add: fromMap_eq)
  then have m: "mset (hl_getAll name hs') = mset (hl_getAll name ?e)" by (simp only: ms)
  have "hl_getAll name ?e = (if hl_has name hs then [joinValues (hl_getAll name hs)] else [])"
    using firsts_fields by (simp add: toMap_eq folded_fields_def)
  with m show "hl_getAll name hs' = (if hl_has name hs then [joinValues (hl_getAll name hs)] else [])"
    by (simp add: mset_single_iff split: if_splits)
qed

lemma hl_to_map_and_back_witness:
  "\<not> (\<exists>hs'. fromMap (toMap [\<lparr>h_name = ''A'', h_value = ''1''\<rparr>, \<lparr>h_name = ''a'', h_value = []\<rparr>]) = Inr hs')"
proof -
  let ?hs = "[\<lparr>h_name = ''A'', h_value = ''1''\<rparr>, \<lparr>h_name = ''a'', h_value = []\<rparr>]"
  have "valid_list ?hs" "hl_count ''a'' ?hs > 1" "last (hl_getAll ''a'' ?hs) = []"
    by (simp_all add: valid_list_def valid_header_def isValidHeaderName_def isValidHeaderValue_def isTokenChar_def
        hasLeadingOrTrailingWhitespace_def isSpaceOrTab_def isFieldVChar_def hl_count_def hl_getAll_def
        equalsIgnoreCase_def toLowerAsciiChar_def char_of_def bit_Suc_0_iff)
  with hl_to_map_and_back [of ?hs] show ?thesis by blast
qed

end
