(* ===== verification/AuthCache.thy ===== *)
theory AuthCache
  imports TaskBase "HOL-Library.AList"
begin

text \<open>
  The authorization cache of \<open>security/AuthorizationCacheImpl.h\<close>.  The unordered map is an association
  list with distinct keys.  The virtual clock is a sequence of readings, in microseconds, of which the
  state counts those taken; it may go backwards.  The authorization service and the hash of a token
  are parameters, and so is the way the executor brings a task to its end.
\<close>

section \<open>Data\<close>

record sec_principal =
  sp_secureIdentity :: string
  sp_givenName :: string
  sp_familyName :: string
  sp_email :: string
  sp_typeId :: string
  sp_authenticationToken :: "string option"

text \<open>What the cache reads from a task.\<close>

record auth_task =
  at_token :: string
  at_state :: task_state
  at_exception :: eptr

record auth_service =
  getTokenType :: string
  serviceTask :: "string \<Rightarrow> auth_task"
  extractSecurityPrincipal :: "auth_task \<Rightarrow> sec_principal option res"
  digestStr :: "string \<Rightarrow> string"

record auth_info =
  ai_principal :: sec_principal
  ai_timestamp :: int

record auth_cache =
  ac_freshnessInterval :: int
  ac_maxEntries :: nat
  ac_cache :: "(string \<times> auth_info) list"
  ac_cacheFullWasLogged :: bool
  ac_readings :: nat

type_synonym clock = "nat \<Rightarrow> int"

definition MAX_ENTRIES_DEFAULT :: nat where "MAX_ENTRIES_DEFAULT = 10000"

definition freshnessIntervalDefault :: int where "freshnessIntervalDefault = 15 * 60 * 1000000"

text \<open>A special duration is \<^term>\<open>None\<close>.\<close>

definition new_auth_cache :: "int option \<Rightarrow> nat \<Rightarrow> auth_cache" where
  "new_auth_cache freshness maxEntries =
     \<lparr>ac_freshnessInterval = (case freshness of None \<Rightarrow> freshnessIntervalDefault | Some d \<Rightarrow> d),
      ac_maxEntries = maxEntries, ac_cache = [], ac_cacheFullWasLogged = False, ac_readings = 0\<rparr>"

definition readNow :: "clock \<Rightarrow> auth_cache \<Rightarrow> int \<times> auth_cache" where
  "readNow clk s = (clk (ac_readings s), s\<lparr>ac_readings := ac_readings s + 1\<rparr>)"

section \<open>Entries\<close>

definition isStale :: "clock \<Rightarrow> auth_info \<Rightarrow> auth_cache \<Rightarrow> bool \<times> auth_cache" where
  "isStale clk info s =
     (let (currentTime, s1) = readNow clk s in
      (ai_timestamp info > currentTime \<or> currentTime - ai_timestamp info > ac_freshnessInterval s1, s1))"

text \<open>The loop over the entries; what it keeps, in order.\<close>

fun sweepLoop ::
  "clock \<Rightarrow> (string \<times> auth_info) list \<Rightarrow> auth_cache \<Rightarrow> (string \<times> auth_info) list \<times> auth_cache" where
  "sweepLoop clk [] s = ([], s)"
| "sweepLoop clk (e # es) s =
     (let (stale, s1) = isStale clk (snd e) s; (kept, s2) = sweepLoop clk es s1
      in (if stale then kept else e # kept, s2))"

definition sweepStaleEntriesNoLock :: "clock \<Rightarrow> auth_cache \<Rightarrow> auth_cache" where
  "sweepStaleEntriesNoLock clk s = (let (kept, s1) = sweepLoop clk (ac_cache s) s in s1\<lparr>ac_cache := kept\<rparr>)"

definition tryGetAuthorizationInfo :: "auth_service \<Rightarrow> string \<Rightarrow> auth_cache \<Rightarrow> auth_info option" where
  "tryGetAuthorizationInfo srv token s = map_of (ac_cache s) (digestStr srv token)"

definition createAuthorizationTaskImpl :: "auth_service \<Rightarrow> string \<Rightarrow> auth_cache \<Rightarrow> auth_task" where
  "createAuthorizationTaskImpl srv token s =
     (let info = tryGetAuthorizationInfo srv token s;
          latest = (case info of
              Some i \<Rightarrow> (case sp_authenticationToken (ai_principal i) of Some t \<Rightarrow> t | None \<Rightarrow> token)
            | None \<Rightarrow> token)
      in serviceTask srv latest)"

section \<open>Refreshing\<close>

text \<open>
  Runs outside the lock, apart from the creation of the task.  \<open>execute\<close> is the task after the
  execution queue has run it; the queue keeps no failed task, so it does not throw.
\<close>

definition tryGetRefreshedPrincipal ::
  "auth_service \<Rightarrow> (auth_task \<Rightarrow> auth_task) \<Rightarrow> string \<Rightarrow> auth_task option \<Rightarrow> bool \<Rightarrow> auth_cache
     \<Rightarrow> sec_principal option res" where
  "tryGetRefreshedPrincipal srv execute token authorizationTask tryOnly s =
     (let task = (case authorizationTask of
          Some t \<Rightarrow> t | None \<Rightarrow> execute (createAuthorizationTaskImpl srv token s))
      in bindR (chkR (at_state task \<noteq> Created \<and> at_state task \<noteq> Running) UnexpectedExc)
           (\<lambda>_. if at_exception task \<noteq> None
                 then (if tryOnly then Inr None else Inl SecurityExc)
                 else extractSecurityPrincipal srv task))"

text \<open>The part of \<open>updateInternal\<close> under the lock.\<close>

definition storePrincipal ::
  "auth_service \<Rightarrow> clock \<Rightarrow> string \<Rightarrow> sec_principal option \<Rightarrow> bool \<Rightarrow> auth_cache
     \<Rightarrow> sec_principal option res \<times> auth_cache" where
  "storePrincipal srv clk token prin tryOnly s =
     (case prin of
        None \<Rightarrow> (if tryOnly then Inr None else Inl UnexpectedExc, s)
      | Some p \<Rightarrow>
          (let key = digestStr srv token;
               full = (length (ac_cache s) \<ge> ac_maxEntries s \<and> map_of (ac_cache s) key = None);
               s1 = (if full then sweepStaleEntriesNoLock clk s else s)
           in if full \<and> length (ac_cache s1) \<ge> ac_maxEntries s1
              then (Inr (Some p), s1\<lparr>ac_cacheFullWasLogged := True\<rparr>)
              else let (t, s2) = readNow clk s1
                   in (Inr (Some p), s2\<lparr>ac_cache := AList.update key \<lparr>ai_principal = p, ai_timestamp = t\<rparr> (ac_cache s2)\<rparr>)))"

definition updateInternal ::
  "auth_service \<Rightarrow> clock \<Rightarrow> (auth_task \<Rightarrow> auth_task) \<Rightarrow> string \<Rightarrow> auth_task option \<Rightarrow> bool \<Rightarrow> auth_cache
     \<Rightarrow> sec_principal option res \<times> auth_cache" where
  "updateInternal srv clk execute token authorizationTask tryOnly s =
     (case tryGetRefreshedPrincipal srv execute token authorizationTask tryOnly s of
        Inl e \<Rightarrow> (Inl e, s)
      | Inr prin \<Rightarrow> storePrincipal srv clk token prin tryOnly s)"

section \<open>The interface\<close>

definition tokenType :: "auth_service \<Rightarrow> string" where
  "tokenType srv = getTokenType srv"

definition configureFreshnessInterval :: "int option \<Rightarrow> auth_cache \<Rightarrow> auth_cache" where
  "configureFreshnessInterval freshness s =
     s\<lparr>ac_freshnessInterval := (case freshness of None \<Rightarrow> freshnessIntervalDefault | Some d \<Rightarrow> d)\<rparr>"

definition tryGetAuthorizedPrinciplal ::
  "auth_service \<Rightarrow> clock \<Rightarrow> string \<Rightarrow> auth_cache \<Rightarrow> sec_principal option \<times> auth_cache" where
  "tryGetAuthorizedPrinciplal srv clk token s =
     (let key = digestStr srv token in
      case map_of (ac_cache s) key of
        None \<Rightarrow> (None, s)
      | Some info \<Rightarrow>
          (let (stale, s1) = isStale clk info s in
           if stale then (None, s1\<lparr>ac_cache := AList.delete key (ac_cache s1)\<rparr>)
           else (Some (ai_principal info), s1)))"

definition createAuthorizationTask :: "auth_service \<Rightarrow> string \<Rightarrow> auth_cache \<Rightarrow> auth_task" where
  "createAuthorizationTask srv token s = createAuthorizationTaskImpl srv token s"

definition tryUpdate ::
  "auth_service \<Rightarrow> clock \<Rightarrow> (auth_task \<Rightarrow> auth_task) \<Rightarrow> string \<Rightarrow> auth_task option \<Rightarrow> auth_cache
     \<Rightarrow> sec_principal option res \<times> auth_cache" where
  "tryUpdate srv clk execute token authorizationTask s = updateInternal srv clk execute token authorizationTask True s"

definition auth_update ::
  "auth_service \<Rightarrow> clock \<Rightarrow> (auth_task \<Rightarrow> auth_task) \<Rightarrow> string \<Rightarrow> auth_task option \<Rightarrow> auth_cache
     \<Rightarrow> sec_principal option res \<times> auth_cache" where
  "auth_update srv clk execute token authorizationTask s = updateInternal srv clk execute token authorizationTask False s"

definition evict :: "auth_service \<Rightarrow> string \<Rightarrow> auth_cache \<Rightarrow> auth_cache" where
  "evict srv token s = s\<lparr>ac_cache := AList.delete (digestStr srv token) (ac_cache s)\<rparr>"

definition auth_size :: "auth_cache \<Rightarrow> nat" where
  "auth_size s = length (ac_cache s)"

definition setTimestampForTesting :: "auth_service \<Rightarrow> string \<Rightarrow> int \<Rightarrow> auth_cache \<Rightarrow> auth_cache res" where
  "setTimestampForTesting srv token timestamp s =
     (case map_of (ac_cache s) (digestStr srv token) of
        None \<Rightarrow> Inl UnexpectedExc
      | Some info \<Rightarrow> Inr (s\<lparr>ac_cache :=
          AList.update (digestStr srv token) (info\<lparr>ai_timestamp := timestamp\<rparr>) (ac_cache s)\<rparr>))"

text \<open>The two helpers of the interface.\<close>

definition tryGetAuthorizedPrinciplalOrUpdate ::
  "auth_service \<Rightarrow> clock \<Rightarrow> (auth_task \<Rightarrow> auth_task) \<Rightarrow> string \<Rightarrow> auth_cache
     \<Rightarrow> sec_principal option res \<times> auth_cache" where
  "tryGetAuthorizedPrinciplalOrUpdate srv clk execute token s =
     (let (prin, s1) = tryGetAuthorizedPrinciplal srv clk token s in
      case prin of None \<Rightarrow> tryUpdate srv clk execute token None s1 | Some p \<Rightarrow> (Inr (Some p), s1))"

definition getAuthorizedPrinciplalOrUpdate ::
  "auth_service \<Rightarrow> clock \<Rightarrow> (auth_task \<Rightarrow> auth_task) \<Rightarrow> string \<Rightarrow> auth_cache
     \<Rightarrow> sec_principal option res \<times> auth_cache" where
  "getAuthorizedPrinciplalOrUpdate srv clk execute token s =
     (let (prin, s1) = tryGetAuthorizedPrinciplal srv clk token s in
      case prin of None \<Rightarrow> auth_update srv clk execute token None s1 | Some p \<Rightarrow> (Inr (Some p), s1))"

section \<open>Runs\<close>

text \<open>
  Everything that happens under the lock, in any order and from any number of threads.  A store
  carries what its refresh obtained outside the lock, at any time before.
\<close>

datatype auth_action =
    ALookup string
  | AEvict string
  | AConfigure "int option"
  | AStore string "sec_principal option" bool

fun auth_perform :: "auth_service \<Rightarrow> clock \<Rightarrow> auth_action \<Rightarrow> auth_cache \<Rightarrow> auth_cache" where
  "auth_perform srv clk (ALookup token) s = snd (tryGetAuthorizedPrinciplal srv clk token s)"
| "auth_perform srv clk (AEvict token) s = evict srv token s"
| "auth_perform srv clk (AConfigure d) s = configureFreshnessInterval d s"
| "auth_perform srv clk (AStore token prin tryOnly) s = snd (storePrincipal srv clk token prin tryOnly s)"

definition auth_run :: "auth_service \<Rightarrow> clock \<Rightarrow> auth_action list \<Rightarrow> auth_cache \<Rightarrow> auth_cache" where
  "auth_run srv clk acts s = foldl (\<lambda>s a. auth_perform srv clk a s) s acts"

lemma auth_run_simps [simp]:
  "auth_run srv clk [] s = s"
  "auth_run srv clk (acts @ [a]) s = auth_perform srv clk a (auth_run srv clk acts s)"
  by (simp_all add: auth_run_def)

end
