(* ===== verification/AuthCacheProps.thy ===== *)
theory AuthCacheProps
  imports AuthCache
begin

text \<open>
  The properties of the authorization cache: its size is bounded, a lookup answers with the last
  authorization stored for the token only while it is fresh, and what storing and failing do.
\<close>

section \<open>Stale entries\<close>

definition stale_at :: "int \<Rightarrow> int \<Rightarrow> auth_info \<Rightarrow> bool" where
  "stale_at d t info \<longleftrightarrow> ai_timestamp info > t \<or> t - ai_timestamp info > d"

lemma isStale_eq:
  "isStale clk info s =
     (stale_at (ac_freshnessInterval s) (clk (ac_readings s)) info, s\<lparr>ac_readings := ac_readings s + 1\<rparr>)"
  by (simp add: isStale_def readNow_def stale_at_def)

lemma sweepLoop_Cons:
  "fst (sweepLoop clk (e # es) s) =
     (if stale_at (ac_freshnessInterval s) (clk (ac_readings s)) (snd e) then [] else [e])
       @ fst (sweepLoop clk es (s\<lparr>ac_readings := ac_readings s + 1\<rparr>))"
  "snd (sweepLoop clk (e # es) s) = snd (sweepLoop clk es (s\<lparr>ac_readings := ac_readings s + 1\<rparr>))"
  by (simp_all add: isStale_eq case_prod_beta)

declare sweepLoop.simps(2) [simp del]

lemma sweepLoop_state: "snd (sweepLoop clk es s) = s\<lparr>ac_readings := ac_readings s + length es\<rparr>"
  by (induction es arbitrary: s) (simp_all add: sweepLoop_Cons)

lemma sweepLoop_subset: "set (fst (sweepLoop clk es s)) \<subseteq> set es"
  by (induction es arbitrary: s) (auto simp: sweepLoop_Cons)

lemma sweepLoop_length: "length (fst (sweepLoop clk es s)) \<le> length es"
  by (induction es arbitrary: s) (simp_all add: sweepLoop_Cons le_SucI)

lemma sweepLoop_distinct:
  "distinct (map fst es) \<Longrightarrow> distinct (map fst (fst (sweepLoop clk es s)))"
proof (induction es arbitrary: s)
  case (Cons e es)
  then show ?case
    using sweepLoop_subset [of clk es "s\<lparr>ac_readings := ac_readings s + 1\<rparr>"] by (auto simp: sweepLoop_Cons)
qed simp

lemma sweepLoop_removed:
  "e \<in> set es \<Longrightarrow> e \<notin> set (fst (sweepLoop clk es s)) \<Longrightarrow>
     \<exists>k \<ge> ac_readings s. k < ac_readings s + length es \<and> stale_at (ac_freshnessInterval s) (clk k) (snd e)"
proof (induction es arbitrary: s)
  case (Cons x es)
  show ?case
  proof (cases "e = x")
    case True
    with Cons.prems show ?thesis
      by (intro exI [of _ "ac_readings s"]) (auto simp: sweepLoop_Cons split: if_splits)
  next
    case False
    with Cons.prems obtain k where "k \<ge> ac_readings s + 1" "k < ac_readings s + 1 + length es"
      "stale_at (ac_freshnessInterval s) (clk k) (snd e)"
      using Cons.IH [of "s\<lparr>ac_readings := ac_readings s + 1\<rparr>"] by (auto simp: sweepLoop_Cons)
    then show ?thesis by (intro exI [of _ k]) auto
  qed
qed simp

lemma sweepLoop_fresh:
  "e \<in> set (fst (sweepLoop clk es s)) \<Longrightarrow>
     \<exists>k \<ge> ac_readings s. k < ac_readings s + length es \<and> \<not> stale_at (ac_freshnessInterval s) (clk k) (snd e)"
proof (induction es arbitrary: s)
  case (Cons x es)
  let ?s = "s\<lparr>ac_readings := ac_readings s + 1\<rparr>"
  show ?case
  proof (cases "e \<in> set (fst (sweepLoop clk es ?s))")
    case True
    with Cons.IH [OF this] obtain k where "k \<ge> ac_readings s + 1" "k < ac_readings s + 1 + length es"
      "\<not> stale_at (ac_freshnessInterval s) (clk k) (snd e)"
      by auto
    then show ?thesis by (intro exI [of _ k]) auto
  next
    case False
    with Cons.prems have "e = x" "\<not> stale_at (ac_freshnessInterval s) (clk (ac_readings s)) (snd x)"
      by (auto simp: sweepLoop_Cons split: if_splits)
    then show ?thesis by (intro exI [of _ "ac_readings s"]) simp
  qed
qed simp

lemma sweep_eq:
  "sweepStaleEntriesNoLock clk s =
     s\<lparr>ac_cache := fst (sweepLoop clk (ac_cache s) s), ac_readings := ac_readings s + length (ac_cache s)\<rparr>"
  using sweepLoop_state [of clk "ac_cache s" s] by (simp add: sweepStaleEntriesNoLock_def case_prod_beta)

lemma sweep_map_of:
  assumes "distinct (map fst (ac_cache s))" "map_of (ac_cache (sweepStaleEntriesNoLock clk s)) key = Some info"
  shows "map_of (ac_cache s) key = Some info"
proof -
  have "(key, info) \<in> set (ac_cache s)"
    using map_of_SomeD [OF assms(2)] sweepLoop_subset [of clk "ac_cache s" s] by (auto simp: sweep_eq)
  with assms(1) show ?thesis by (simp add: map_of_is_SomeI)
qed

lemma sweep_max [simp]: "ac_maxEntries (sweepStaleEntriesNoLock clk s) = ac_maxEntries s"
  by (simp add: sweep_eq)

section \<open>Well-formedness\<close>

definition auth_wf :: "auth_cache \<Rightarrow> bool" where
  "auth_wf s \<longleftrightarrow> distinct (map fst (ac_cache s)) \<and> length (ac_cache s) \<le> ac_maxEntries s"

lemma length_update:
  "length (AList.update k v al) = (if k \<in> fst ` set al then length al else length al + 1)"
  by (induction al) auto

text \<open>What storing a principal does, by cases.\<close>

lemma storePrincipal_cases:
  assumes "auth_wf s"
  obtains (Nothing) "prin = None" "storePrincipal srv clk token prin tryOnly s = (if tryOnly then Inr None else Inl UnexpectedExc, s)"
  | (Full) p s1 where "prin = Some p" "s1 = sweepStaleEntriesNoLock clk s" "map_of (ac_cache s) (digestStr srv token) = None"
      "length (ac_cache s) = ac_maxEntries s" "length (ac_cache s1) = ac_maxEntries s"
      "storePrincipal srv clk token prin tryOnly s = (Inr (Some p), s1\<lparr>ac_cacheFullWasLogged := True\<rparr>)"
  | (Stored) p s1 where "prin = Some p"
      "s1 = (if length (ac_cache s) \<ge> ac_maxEntries s \<and> map_of (ac_cache s) (digestStr srv token) = None
             then sweepStaleEntriesNoLock clk s else s)"
      "digestStr srv token \<in> fst ` set (ac_cache s1) \<or> length (ac_cache s1) < ac_maxEntries s"
      "storePrincipal srv clk token prin tryOnly s = (Inr (Some p),
         s1\<lparr>ac_readings := ac_readings s1 + 1,
            ac_cache := AList.update (digestStr srv token) \<lparr>ai_principal = p, ai_timestamp = clk (ac_readings s1)\<rparr> (ac_cache s1)\<rparr>)"
proof (cases prin)
  case None
  then show thesis by (intro Nothing) (simp_all add: storePrincipal_def)
next
  case (Some p)
  let ?key = "digestStr srv token"
  define full where "full \<longleftrightarrow> length (ac_cache s) \<ge> ac_maxEntries s \<and> map_of (ac_cache s) ?key = None"
  define s1 where "s1 = (if full then sweepStaleEntriesNoLock clk s else s)"
  have m: "ac_maxEntries s1 = ac_maxEntries s" by (simp add: s1_def)
  have e: "storePrincipal srv clk token prin tryOnly s =
      (if full \<and> length (ac_cache s1) \<ge> ac_maxEntries s1 then (Inr (Some p), s1\<lparr>ac_cacheFullWasLogged := True\<rparr>)
       else (Inr (Some p), s1\<lparr>ac_readings := ac_readings s1 + 1,
         ac_cache := AList.update ?key \<lparr>ai_principal = p, ai_timestamp = clk (ac_readings s1)\<rparr> (ac_cache s1)\<rparr>))"
    unfolding Some storePrincipal_def option.case Let_def full_def [symmetric] s1_def [symmetric] readNow_def by simp
  show thesis
  proof (cases "full \<and> length (ac_cache s1) \<ge> ac_maxEntries s1")
    case True
    moreover have "length (ac_cache s1) \<le> length (ac_cache s)"
      using True by (simp add: s1_def sweep_eq sweepLoop_length)
    ultimately have "length (ac_cache s) = ac_maxEntries s" "length (ac_cache s1) = ac_maxEntries s"
      using assms m by (auto simp: auth_wf_def)
    with True Some e show thesis by (intro Full [of p s1]) (simp_all add: s1_def full_def)
  next
    case False
    have "?key \<in> fst ` set (ac_cache s1) \<or> length (ac_cache s1) < ac_maxEntries s"
    proof (cases full)
      case True
      with False m show ?thesis by simp
    next
      case nf: False
      then have "length (ac_cache s) < ac_maxEntries s \<or> map_of (ac_cache s) ?key \<noteq> None" by (auto simp: full_def)
      with nf show ?thesis by (auto simp: s1_def dest: map_of_SomeD intro: rev_image_eqI)
    qed
    note k = this
    have q: "s1 = (if length (ac_cache s) \<ge> ac_maxEntries s \<and> map_of (ac_cache s) ?key = None
        then sweepStaleEntriesNoLock clk s else s)"
      unfolding s1_def full_def ..
    from e False show thesis by (intro Stored [OF Some q k]) (simp only: if_False)
  qed
qed

lemma sweep_wf:
  assumes "auth_wf s"
  shows "auth_wf (sweepStaleEntriesNoLock clk s)"
  using assms sweepLoop_distinct [of "ac_cache s" clk s] sweepLoop_length [of clk "ac_cache s" s]
  by (auto simp: auth_wf_def sweep_eq)

lemma store_wf:
  assumes "auth_wf s"
  shows "auth_wf (snd (storePrincipal srv clk token prin tryOnly s))"
  using assms
proof (cases rule: storePrincipal_cases [of s prin srv clk token tryOnly])
  case (Full p s1)
  with sweep_wf [OF assms, of clk] show ?thesis by (simp add: auth_wf_def)
next
  case (Stored p s1)
  have "auth_wf s1" using Stored(2) sweep_wf [OF assms] assms by simp
  moreover have "ac_maxEntries s1 = ac_maxEntries s" using Stored(2) by (simp add: sweep_eq)
  ultimately show ?thesis
    using Stored(3) by (auto simp: Stored(4) auth_wf_def length_update distinct_update)
qed (use assms in simp)

lemma auth_perform_wf: "auth_wf s \<Longrightarrow> auth_wf (auth_perform srv clk a s)"
proof (induction a)
  case (ALookup token)
  then show ?case
    using length_delete_le [of "digestStr srv token" "ac_cache s"]
    by (auto simp: tryGetAuthorizedPrinciplal_def Let_def isStale_eq auth_wf_def distinct_delete split: option.splits)
next
  case (AEvict token)
  then show ?case
    using length_delete_le [of "digestStr srv token" "ac_cache s"] by (auto simp: evict_def auth_wf_def distinct_delete)
next
  case (AConfigure d)
  then show ?case by (simp add: configureFreshnessInterval_def auth_wf_def)
next
  case (AStore token prin tryOnly)
  then show ?case using store_wf by simp
qed

lemma auth_run_wf: "auth_wf (auth_run srv clk acts (new_auth_cache d n))"
proof (induction acts rule: rev_induct)
  case (snoc a acts)
  then show ?case using auth_perform_wf by simp
qed (simp add: new_auth_cache_def auth_wf_def)

section \<open>Where an answer comes from\<close>

text \<open>Actions that put an entry under the key, or take it away.\<close>

fun touches :: "auth_service \<Rightarrow> string \<Rightarrow> auth_action \<Rightarrow> bool" where
  "touches srv key (AEvict token) = (digestStr srv token = key)"
| "touches srv key (AStore token (Some p) tryOnly) = (digestStr srv token = key)"
| "touches srv key a = False"

text \<open>
  The entry was put there by a store in the run, nothing has touched the key since, and its timestamp
  is a clock reading taken during the store.
\<close>

definition stored :: "auth_service \<Rightarrow> clock \<Rightarrow> string \<Rightarrow> auth_info \<Rightarrow> auth_action list \<Rightarrow> auth_cache \<Rightarrow> bool" where
  "stored srv clk key info acts s0 \<longleftrightarrow>
     (\<exists>xs token tryOnly ys k. acts = xs @ AStore token (Some (ai_principal info)) tryOnly # ys
        \<and> digestStr srv token = key \<and> list_all (\<lambda>a. \<not> touches srv key a) ys \<and> ai_timestamp info = clk k
        \<and> ac_readings (auth_run srv clk xs s0) \<le> k
        \<and> k < ac_readings (auth_run srv clk (xs @ [AStore token (Some (ai_principal info)) tryOnly]) s0))"

lemma stored_snoc:
  assumes "stored srv clk key info acts s0" "\<not> touches srv key a"
  shows "stored srv clk key info (acts @ [a]) s0"
proof -
  obtain xs token tryOnly ys k where *: "acts = xs @ AStore token (Some (ai_principal info)) tryOnly # ys"
    "digestStr srv token = key" "list_all (\<lambda>a. \<not> touches srv key a) ys" "ai_timestamp info = clk k"
    "ac_readings (auth_run srv clk xs s0) \<le> k"
    "k < ac_readings (auth_run srv clk (xs @ [AStore token (Some (ai_principal info)) tryOnly]) s0)"
    using assms(1) unfolding stored_def by blast
  then have "acts @ [a] = xs @ AStore token (Some (ai_principal info)) tryOnly # (ys @ [a])"
    "list_all (\<lambda>a. \<not> touches srv key a) (ys @ [a])"
    using assms(2) by simp_all
  with * show ?thesis unfolding stored_def by blast
qed

lemma auth_run_stored:
  "map_of (ac_cache (auth_run srv clk acts (new_auth_cache d n))) key = Some info \<Longrightarrow>
     stored srv clk key info acts (new_auth_cache d n)"
proof (induction acts arbitrary: info rule: rev_induct)
  case (snoc a acts)
  let ?s0 = "new_auth_cache d n"
  let ?s = "auth_run srv clk acts ?s0"
  have wf: "auth_wf ?s" by (rule auth_run_wf)
  have keep: ?case if "map_of (ac_cache ?s) key = Some info" "\<not> touches srv key a"
    using snoc.IH [OF that(1)] that(2) by (rule stored_snoc)
  show ?case
  proof (cases a)
    case (ALookup token)
    then have "map_of (ac_cache ?s) key = Some info"
      using snoc.prems
      by (auto simp: tryGetAuthorizedPrinciplal_def Let_def isStale_eq delete_conv split: option.splits if_splits)
    with keep ALookup show ?thesis by simp
  next
    case (AEvict token)
    with snoc.prems have "map_of (ac_cache ?s) key = Some info" "digestStr srv token \<noteq> key"
      by (auto simp: evict_def delete_conv split: if_splits)
    with keep AEvict show ?thesis by simp
  next
    case (AConfigure x)
    with snoc.prems keep show ?thesis by (simp add: configureFreshnessInterval_def)
  next
    case (AStore token prin tryOnly)
    let ?key = "digestStr srv token"
    from wf show ?thesis
    proof (cases rule: storePrincipal_cases [of ?s prin srv clk token tryOnly])
      case Nothing
      with snoc.prems keep AStore show ?thesis by (simp split: if_splits)
    next
      case (Full p s1)
      then have m: "map_of (ac_cache ?s) key = Some info"
        using snoc.prems AStore sweep_map_of [of ?s clk key info] wf by (simp add: auth_wf_def)
      moreover have "?key \<noteq> key" using m Full(3) by auto
      ultimately show ?thesis using keep AStore Full(1) by simp
    next
      case (Stored p s1)
      show ?thesis
      proof (cases "?key = key")
        case True
        then have i: "info = \<lparr>ai_principal = p, ai_timestamp = clk (ac_readings s1)\<rparr>"
          using snoc.prems AStore Stored(4) by (simp add: update_conv)
        have "ac_readings ?s \<le> ac_readings s1" using Stored(2) by (simp add: sweep_eq)
        then show ?thesis
          unfolding stored_def AStore
          apply -
          apply (rule exI [of _ acts], rule exI [of _ token], rule exI [of _ tryOnly], rule exI [of _ "[]"],
              rule exI [of _ "ac_readings s1"])
          using i True Stored(1,4) by simp
      next
        case False
        then have "map_of (ac_cache s1) key = Some info"
          using snoc.prems AStore Stored(4) by (simp add: update_conv)
        then have "map_of (ac_cache ?s) key = Some info"
          using Stored(2) sweep_map_of [of ?s clk key info] wf by (auto simp: auth_wf_def split: if_splits)
        with keep AStore Stored(1) False show ?thesis by simp
      qed
    qed
  qed
qed (simp add: new_auth_cache_def)

lemma run_max: "ac_maxEntries (auth_run srv clk acts (new_auth_cache d n)) = n"
proof (induction acts rule: rev_induct)
  case (snoc a acts)
  let ?s = "auth_run srv clk acts (new_auth_cache d n)"
  have "ac_maxEntries (auth_perform srv clk a ?s) = ac_maxEntries ?s"
    by (cases a)
      (auto simp: tryGetAuthorizedPrinciplal_def isStale_eq evict_def configureFreshnessInterval_def storePrincipal_def
        readNow_def Let_def split: option.splits)
  with snoc show ?case by simp
qed (simp add: new_auth_cache_def)

text \<open>
  C12 In every run, with any clock, the cache holds at most one entry per token and at most the maximal
  number of entries, and a lookup answers only with the principal that the last store for the token
  (by its hash) brought, with no eviction since, and only when the clock now reads a time not before
  the one read during that store and at most the freshness interval after it.
\<close>

theorem auth_lookup_provenance:
  "let s = auth_run srv clk acts (new_auth_cache d n) in
   distinct (map fst (ac_cache s)) \<and> auth_size s \<le> n
   \<and> (case fst (tryGetAuthorizedPrinciplal srv clk token s) of
        None \<Rightarrow> True
      | Some p \<Rightarrow> \<exists>xs token' tryOnly ys k. acts = xs @ AStore token' (Some p) tryOnly # ys
          \<and> digestStr srv token' = digestStr srv token \<and> list_all (\<lambda>a. \<not> touches srv (digestStr srv token) a) ys
          \<and> ac_readings (auth_run srv clk xs (new_auth_cache d n)) \<le> k
          \<and> k < ac_readings (auth_run srv clk (xs @ [AStore token' (Some p) tryOnly]) (new_auth_cache d n))
          \<and> clk k \<le> clk (ac_readings s) \<and> clk (ac_readings s) - clk k \<le> ac_freshnessInterval s)"
proof -
  let ?s = "auth_run srv clk acts (new_auth_cache d n)"
  have "ac_maxEntries (auth_run srv clk acts (new_auth_cache d n)) = n"
    by (rule run_max)
  with auth_run_wf [of srv clk acts d n] have wf: "distinct (map fst (ac_cache ?s)) \<and> auth_size ?s \<le> n"
    by (simp add: auth_wf_def auth_size_def)
  show ?thesis
  proof (cases "fst (tryGetAuthorizedPrinciplal srv clk token ?s)")
    case None
    with wf show ?thesis by simp
  next
    case (Some p)
    then obtain info where i: "map_of (ac_cache ?s) (digestStr srv token) = Some info" "ai_principal info = p"
      "\<not> stale_at (ac_freshnessInterval ?s) (clk (ac_readings ?s)) info"
      by (auto simp: tryGetAuthorizedPrinciplal_def Let_def isStale_eq split: option.splits if_splits)
    from auth_run_stored [OF i(1)] i(2,3) wf Some show ?thesis
      unfolding stored_def stale_at_def Let_def by fastforce
  qed
qed

section \<open>What an update does\<close>

lemma sweep_kept:
  assumes "distinct (map fst (ac_cache s))" "map_of (ac_cache s) key = Some info"
  shows "map_of (ac_cache (sweepStaleEntriesNoLock clk s)) key = Some info
     \<or> (\<exists>k \<ge> ac_readings s. k < ac_readings (sweepStaleEntriesNoLock clk s)
           \<and> stale_at (ac_freshnessInterval s) (clk k) info)"
  using sweepLoop_removed [OF map_of_SomeD [OF assms(2)], of clk s] sweepLoop_distinct [OF assms(1), of clk s]
  by (auto simp: sweep_eq)

lemma sweep_all_fresh:
  assumes "distinct (map fst (ac_cache s))" "length (ac_cache (sweepStaleEntriesNoLock clk s)) = length (ac_cache s)"
    "e \<in> set (ac_cache s)"
  shows "\<exists>k \<ge> ac_readings s. k < ac_readings (sweepStaleEntriesNoLock clk s)
     \<and> \<not> stale_at (ac_freshnessInterval s) (clk k) (snd e)"
proof -
  let ?kept = "fst (sweepLoop clk (ac_cache s) s)"
  have "card (set ?kept) = card (set (ac_cache s))"
    using assms(1,2) sweepLoop_distinct [OF assms(1), of clk s] by (simp add: distinct_card distinct_map sweep_eq)
  then have "set ?kept = set (ac_cache s)" by (intro card_subset_eq sweepLoop_subset) simp_all
  with assms(3) sweepLoop_fresh [of e clk "ac_cache s" s] show ?thesis by (auto simp: sweep_eq)
qed

text \<open>
  An update whose refresh throws or brings no principal leaves the cache alone.  With a principal it
  returns it; every other entry is kept unless the clock showed it to be stale, and none appears; the
  token's entry is the principal with the time read last, so that the next lookup answers it while it
  is fresh, unless the token was not cached and the cache is full of entries the clock showed to be
  fresh.
\<close>

theorem auth_update_outcome:
  assumes "auth_wf s" "updateInternal srv clk execute token authorizationTask tryOnly s = (r, s')"
  shows "case tryGetRefreshedPrincipal srv execute token authorizationTask tryOnly s of
     Inl e \<Rightarrow> r = Inl e \<and> s' = s
   | Inr None \<Rightarrow> r = (if tryOnly then Inr None else Inl UnexpectedExc) \<and> s' = s
   | Inr (Some p) \<Rightarrow> r = Inr (Some p) \<and> auth_wf s'
       \<and> (\<forall>key info. key \<noteq> digestStr srv token \<longrightarrow> map_of (ac_cache s) key = Some info \<longrightarrow>
            map_of (ac_cache s') key = Some info
            \<or> (\<exists>k \<ge> ac_readings s. k < ac_readings s' \<and> stale_at (ac_freshnessInterval s) (clk k) info))
       \<and> (\<forall>key info. key \<noteq> digestStr srv token \<longrightarrow> map_of (ac_cache s') key = Some info \<longrightarrow>
            map_of (ac_cache s) key = Some info)
       \<and> (map_of (ac_cache s') (digestStr srv token) = Some \<lparr>ai_principal = p, ai_timestamp = clk (ac_readings s' - 1)\<rparr>
            \<and> fst (tryGetAuthorizedPrinciplal srv clk token s') =
                (let age = clk (ac_readings s') - clk (ac_readings s' - 1) in
                 if 0 \<le> age \<and> age \<le> ac_freshnessInterval s then Some p else None)
          \<or> map_of (ac_cache s) (digestStr srv token) = None \<and> length (ac_cache s) = ac_maxEntries s
            \<and> (\<forall>e \<in> set (ac_cache s). \<exists>k \<ge> ac_readings s. k < ac_readings s'
                 \<and> \<not> stale_at (ac_freshnessInterval s) (clk k) (snd e)))"
proof (cases "tryGetRefreshedPrincipal srv execute token authorizationTask tryOnly s")
  case (Inl e)
  then have "r = Inl e" "s' = s" using assms(2) by (simp_all add: updateInternal_def)
  with Inl show ?thesis by simp
next
  case (Inr prin)
  let ?key = "digestStr srv token"
  have st: "storePrincipal srv clk token prin tryOnly s = (r, s')"
    using assms(2) Inr by (simp add: updateInternal_def)
  have d: "distinct (map fst (ac_cache s))" using assms(1) by (simp add: auth_wf_def)
  from assms(1) show ?thesis
  proof (cases rule: storePrincipal_cases [of s prin srv clk token tryOnly])
    case Nothing
    with st Inr show ?thesis by auto
  next
    case (Full p s1)
    have s': "r = Inr (Some p)" "s' = s1\<lparr>ac_cacheFullWasLogged := True\<rparr>" using Full(6) st by auto
    have "auth_wf s'" using sweep_wf [OF assms(1), of clk] Full(2) s' by (simp add: auth_wf_def)
    moreover have "map_of (ac_cache s') key = Some info
        \<or> (\<exists>k \<ge> ac_readings s. k < ac_readings s' \<and> stale_at (ac_freshnessInterval s) (clk k) info)"
      if "map_of (ac_cache s) key = Some info" for key info
      using sweep_kept [OF d that, of clk] Full(2) s' by simp
    moreover have "map_of (ac_cache s) key = Some info" if "map_of (ac_cache s') key = Some info" for key info
      using sweep_map_of [OF d, of clk key info] that Full(2) s' by simp
    moreover have "\<exists>k \<ge> ac_readings s. k < ac_readings s' \<and> \<not> stale_at (ac_freshnessInterval s) (clk k) (snd e)"
      if "e \<in> set (ac_cache s)" for e
      using sweep_all_fresh [OF d _ that, of clk] Full(2,4,5) s' by simp
    ultimately show ?thesis using Inr Full(1,3,4) s'(1) by simp
  next
    case (Stored p s1)
    have s': "r = Inr (Some p)" "s' = s1\<lparr>ac_readings := ac_readings s1 + 1,
        ac_cache := AList.update ?key \<lparr>ai_principal = p, ai_timestamp = clk (ac_readings s1)\<rparr> (ac_cache s1)\<rparr>"
      using Stored(4) st by auto
    have f: "ac_freshnessInterval s1 = ac_freshnessInterval s" using Stored(2) by (simp add: sweep_eq)
    have "auth_wf s'" using store_wf [OF assms(1), of srv clk token prin tryOnly] st by simp
    moreover have "map_of (ac_cache s') key = Some info
        \<or> (\<exists>k \<ge> ac_readings s. k < ac_readings s' \<and> stale_at (ac_freshnessInterval s) (clk k) info)"
      if "key \<noteq> ?key" "map_of (ac_cache s) key = Some info" for key info
      using sweep_kept [OF d that(2), of clk] that Stored(2) s'
      by (auto simp: update_conv less_Suc_eq split: if_splits)
    moreover have "map_of (ac_cache s) key = Some info"
      if "key \<noteq> ?key" "map_of (ac_cache s') key = Some info" for key info
      using sweep_map_of [OF d, of clk key info] that Stored(2) s' by (auto simp: update_conv split: if_splits)
    moreover have "map_of (ac_cache s') ?key = Some \<lparr>ai_principal = p, ai_timestamp = clk (ac_readings s' - 1)\<rparr>"
      using s' by (simp add: update_conv)
    moreover have "fst (tryGetAuthorizedPrinciplal srv clk token s') =
        (let age = clk (ac_readings s') - clk (ac_readings s' - 1) in
         if 0 \<le> age \<and> age \<le> ac_freshnessInterval s then Some p else None)"
      using s' f by (auto simp: tryGetAuthorizedPrinciplal_def update_conv isStale_eq stale_at_def Let_def)
    ultimately show ?thesis using Inr Stored(1) s'(1) by simp
  qed
qed

definition sample_service :: auth_service where
  "sample_service = \<lparr>getTokenType = ''cookie'',
     serviceTask = (\<lambda>token. \<lparr>at_token = token, at_state = Created, at_exception = None\<rparr>),
     extractSecurityPrincipal = (\<lambda>task. Inr (Some \<lparr>sp_secureIdentity = at_token task, sp_givenName = [],
       sp_familyName = [], sp_email = [], sp_typeId = [], sp_authenticationToken = None\<rparr>)),
     digestStr = rev\<rparr>"

lemma auth_update_outcome_witness:
  "map_of (ac_cache (snd (updateInternal sample_service (\<lambda>k. int k) (\<lambda>t. t\<lparr>at_state := Completed\<rparr>) ''ab'' None False
       (new_auth_cache None 2)))) ''ba'' \<noteq> None"
proof -
  let ?s = "new_auth_cache None 2"
  let ?run = "\<lambda>t. t\<lparr>at_state := Completed\<rparr>"
  obtain r s' where u: "updateInternal sample_service (\<lambda>k. int k) ?run ''ab'' None False ?s = (r, s')" by fastforce
  have "auth_wf ?s" by (simp add: auth_wf_def new_auth_cache_def)
  moreover have "tryGetRefreshedPrincipal sample_service ?run ''ab'' None False ?s =
      Inr (Some \<lparr>sp_secureIdentity = ''ab'', sp_givenName = [], sp_familyName = [], sp_email = [], sp_typeId = [],
        sp_authenticationToken = None\<rparr>)"
    by (simp add: tryGetRefreshedPrincipal_def createAuthorizationTaskImpl_def tryGetAuthorizationInfo_def
        sample_service_def new_auth_cache_def)
  moreover have "digestStr sample_service ''ab'' = ''ba''" "length (ac_cache ?s) \<noteq> ac_maxEntries ?s"
    by (simp_all add: sample_service_def new_auth_cache_def)
  ultimately show ?thesis using auth_update_outcome [OF _ u] u by simp
qed

end
