(* ===== verification/Numbers.thy ===== *)
theory Numbers
  imports Prelude
begin

text \<open>
  The checked conversions between integer types of \<open>core/NumberUtils.h\<close>.  The template parameters,
  the target type and the source type, are values of a record: the size in bytes and the signedness.
  A number is an \<^typ>\<open>int\<close> in the range of its type and \<open>static_cast\<close> reduces it to the range.
\<close>

section \<open>Integer types\<close>

record int_type =
  it_sizeof :: nat
  it_isSigned :: bool

definition it_bits :: "int_type \<Rightarrow> nat" where
  "it_bits T = 8 * it_sizeof T"

definition limitsMin :: "int_type \<Rightarrow> int" where
  "limitsMin T = (if it_isSigned T then - (2 ^ (it_bits T - 1)) else 0)"

definition limitsMax :: "int_type \<Rightarrow> int" where
  "limitsMax T = (if it_isSigned T then 2 ^ (it_bits T - 1) - 1 else 2 ^ it_bits T - 1)"

definition fits :: "int_type \<Rightarrow> int \<Rightarrow> bool" where
  "fits T v \<longleftrightarrow> limitsMin T \<le> v \<and> v \<le> limitsMax T"

definition static_cast :: "int_type \<Rightarrow> int \<Rightarrow> int" where
  "static_cast T v = (if it_isSigned T then signed_take_bit (it_bits T - 1) v else take_bit (it_bits T) v)"

definition std_int32 :: int_type where "std_int32 = \<lparr>it_sizeof = 4, it_isSigned = True\<rparr>"
definition std_size_t :: int_type where "std_size_t = \<lparr>it_sizeof = 8, it_isSigned = False\<rparr>"

section \<open>Coercion\<close>

text \<open>
  The callback: none, one that returns, or one that throws.
\<close>

type_synonym eh_callback = "unit res option"

definition chkNumberLowerBound :: "int_type \<Rightarrow> int_type \<Rightarrow> int \<Rightarrow> eh_callback \<Rightarrow> unit res" where
  "chkNumberLowerBound T U v ehCallback =
     (if \<not> it_isSigned U then Inr ()
      else let isBelowMinimum =
          (if \<not> it_isSigned T then v < static_cast U 0
           else if it_sizeof T < it_sizeof U then v < static_cast U (limitsMin T)
           else False)
        in if \<not> isBelowMinimum then Inr ()
           else case ehCallback of Some result \<Rightarrow> result | None \<Rightarrow> Inl NumberCoerce)"

definition coerceUnchecked :: "int_type \<Rightarrow> int_type \<Rightarrow> int \<Rightarrow> eh_callback \<Rightarrow> int res" where
  "coerceUnchecked T U v ehCallback =
     bindR (chkNumberLowerBound T U v ehCallback)
       (\<lambda>_. bindR (chkR (static_cast U (static_cast T v) = v) AssertFailed)
          (\<lambda>_. Inr (static_cast T v)))"

definition coerceChecked :: "int_type \<Rightarrow> int_type \<Rightarrow> int \<Rightarrow> eh_callback \<Rightarrow> int res" where
  "coerceChecked T U v ehCallback =
     bindR (chkNumberLowerBound T U v ehCallback)
       (\<lambda>_. bindR
          (if v > static_cast U (limitsMax T)
           then (case ehCallback of Some result \<Rightarrow> result | None \<Rightarrow> Inl NumberCoerce)
           else chkR (static_cast U (static_cast T v) = v) AssertFailed)
          (\<lambda>_. Inr (static_cast T v)))"

definition safeCoerceTo :: "int_type \<Rightarrow> int_type \<Rightarrow> int \<Rightarrow> eh_callback \<Rightarrow> int res" where
  "safeCoerceTo T U v ehCallback =
     (if it_sizeof T < it_sizeof U \<or> (it_sizeof T = it_sizeof U \<and> it_isSigned T \<and> \<not> it_isSigned U)
      then coerceChecked T U v ehCallback else coerceUnchecked T U v ehCallback)"

section \<open>Exactness\<close>

lemma static_cast_fits: "0 < it_sizeof T \<Longrightarrow> static_cast T v = v \<longleftrightarrow> fits T v"
  by (auto simp: static_cast_def fits_def limitsMin_def limitsMax_def it_bits_def
      signed_take_bit_int_eq_self_iff take_bit_int_eq_self_iff)

lemma static_cast_range: "0 < it_sizeof T \<Longrightarrow> fits T (static_cast T v)"
  using signed_take_bit_int_greater_eq_minus_exp [of "it_bits T - 1" v] signed_take_bit_int_less_exp [of "it_bits T - 1" v]
  by (auto simp: static_cast_def fits_def limitsMin_def limitsMax_def)

lemma bits_mono:
  "it_sizeof T < it_sizeof U \<Longrightarrow> (2::int) ^ it_bits T \<le> 2 ^ (it_bits U - 1)"
  "it_sizeof T \<le> it_sizeof U \<Longrightarrow> (2::int) ^ it_bits T \<le> 2 ^ it_bits U"
  "it_sizeof T \<le> it_sizeof U \<Longrightarrow> (2::int) ^ (it_bits T - 1) \<le> 2 ^ (it_bits U - 1)"
  by (auto simp: it_bits_def intro!: power_increasing)

lemma bits_half: "(1::int) \<le> 2 ^ (it_bits T - 1)" "(2::int) ^ (it_bits T - 1) \<le> 2 ^ it_bits T"
  by (auto simp: it_bits_def intro!: power_increasing)

lemmas limits = fits_def limitsMin_def limitsMax_def

text \<open>Whether the upper bound needs to be checked.\<close>

definition checked :: "int_type \<Rightarrow> int_type \<Rightarrow> bool" where
  "checked T U \<longleftrightarrow> it_sizeof T < it_sizeof U \<or> (it_sizeof T = it_sizeof U \<and> it_isSigned T \<and> \<not> it_isSigned U)"

lemma safeCoerceTo_checked:
  "safeCoerceTo T U v ehCallback = (if checked T U then coerceChecked T U v ehCallback else coerceUnchecked T U v ehCallback)"
  by (simp add: safeCoerceTo_def checked_def)

lemma checked_max:
  assumes "checked T U"
  shows "fits U (limitsMax T)"
proof -
  note b = bits_half [of T] bits_half [of U]
  from assms consider "it_sizeof T < it_sizeof U" | "it_sizeof T = it_sizeof U" "it_isSigned T" "\<not> it_isSigned U"
    by (auto simp: checked_def)
  then show ?thesis
  proof cases
    case 1
    with b bits_mono(1) [OF 1] bits_mono(2,3) [of T U] show ?thesis
      by (auto simp: limits simp del: power_increasing_iff one_le_power)
  next
    case 2
    with b bits_mono(2,3) [of T U] show ?thesis by (auto simp: limits simp del: power_increasing_iff one_le_power)
  qed
qed

lemma checked_min:
  assumes "it_sizeof T < it_sizeof U" "it_isSigned U"
  shows "fits U (limitsMin T)"
  using bits_half [of T] bits_half [of U] bits_mono(1) [OF assms(1)] bits_mono(2,3) [of T U] assms
  by (auto simp: limits simp del: power_increasing_iff one_le_power)

lemma unchecked_max:
  assumes "\<not> checked T U" "fits U v"
  shows "v \<le> limitsMax T"
proof -
  note b = bits_half [of T] bits_half [of U]
  from assms consider "it_sizeof U < it_sizeof T"
    | "it_sizeof U = it_sizeof T" "it_isSigned T \<longrightarrow> it_isSigned U"
    by (force simp: checked_def)
  then show ?thesis
  proof cases
    case 1
    with b bits_mono(1) [OF 1] bits_mono(2,3) [of U T] assms(2) show ?thesis
      by (auto simp: limits simp del: power_increasing_iff one_le_power split: if_splits)
  next
    case 2
    with b bits_mono(2,3) [of U T] assms(2) show ?thesis
      by (auto simp: limits simp del: power_increasing_iff one_le_power split: if_splits)
  qed
qed

lemma fits_zero: "fits U 0"
  using bits_half [of U] by (auto simp: limits)

lemma signed_min:
  assumes "it_sizeof U \<le> it_sizeof T" "it_isSigned T" "fits U v"
  shows "limitsMin T \<le> v"
  using bits_half [of T] bits_half [of U] bits_mono(3) [OF assms(1)] assms
  by (auto simp: limits simp del: power_increasing_iff one_le_power split: if_splits)

lemma unsigned_min: "\<not> it_isSigned U \<Longrightarrow> fits U v \<Longrightarrow> limitsMin T \<le> v"
  using bits_half(1) [of T] by (auto simp: limits simp del: one_le_power)

lemma lower_bound:
  assumes "0 < it_sizeof T" "0 < it_sizeof U" "fits U v"
  shows "chkNumberLowerBound T U v ehCallback =
     (if limitsMin T \<le> v then Inr () else case ehCallback of Some result \<Rightarrow> result | None \<Rightarrow> Inl NumberCoerce)"
proof -
  have "static_cast U 0 = 0" using fits_zero assms(2) by (simp add: static_cast_fits)
  moreover have "static_cast U (limitsMin T) = limitsMin T" if "it_isSigned U" "it_sizeof T < it_sizeof U"
    using checked_min [OF that(2,1)] assms(2) by (simp add: static_cast_fits)
  moreover have "\<not> it_isSigned T \<Longrightarrow> limitsMin T = 0" by (simp add: limitsMin_def)
  ultimately show ?thesis
    using signed_min [of U T v] unsigned_min [of U v T] assms(3) by (auto simp: chkNumberLowerBound_def Let_def not_less)
qed

lemma checked_survives:
  assumes "checked T U" "0 < it_sizeof T" "0 < it_sizeof U" "fits U v" "v \<le> limitsMax T"
  shows "static_cast U (static_cast T v) = v \<longleftrightarrow> fits T v"
proof
  assume "fits T v"
  with assms have "static_cast T v = v" "static_cast U v = v" by (simp_all add: static_cast_fits)
  then show "static_cast U (static_cast T v) = v" by simp
next
  assume e: "static_cast U (static_cast T v) = v"
  show "fits T v"
  proof (rule ccontr)
    assume n: "\<not> fits T v"
    then have lt: "v < limitsMin T" using assms(5) by (simp add: fits_def)
    then have u: "it_isSigned U" "it_sizeof T < it_sizeof U"
      using unsigned_min [of U v T] assms(1,4) by (auto simp: checked_def)
    have r: "fits T (static_cast T v)" by (rule static_cast_range [OF assms(2)])
    then have "fits U (static_cast T v)"
      using checked_max [OF assms(1)] checked_min [OF u(2,1)] by (simp add: fits_def)
    then have "static_cast U (static_cast T v) = static_cast T v" using assms(3) by (simp add: static_cast_fits)
    with e r n show False by simp
  qed
qed

lemma unchecked_survives:
  assumes "\<not> checked T U" "0 < it_sizeof T" "0 < it_sizeof U" "fits U v"
  shows "static_cast U (static_cast T v) = v"
proof (cases "fits T v")
  case True
  with assms have "static_cast T v = v" "static_cast U v = v" by (simp_all add: static_cast_fits)
  then show ?thesis by simp
next
  case False
  then have lt: "v < limitsMin T" using unchecked_max [OF assms(1,4)] by (simp add: fits_def)
  have s: "it_sizeof U \<le> it_sizeof T" using assms(1) by (auto simp: checked_def)
  then have t: "\<not> it_isSigned T" "it_isSigned U"
    using lt signed_min [OF s _ assms(4)] unsigned_min [of U v T] assms(4) by auto
  have "\<not> it_bits T \<le> it_bits U - 1" using s assms(3) by (simp add: it_bits_def)
  then have "static_cast U (static_cast T v) = static_cast U v"
    using t by (simp add: static_cast_def signed_take_bit_take_bit)
  with assms(3,4) show ?thesis by (simp add: static_cast_fits)
qed

lemma checked_min_narrower: "checked T U \<Longrightarrow> fits U v \<Longrightarrow> v < limitsMin T \<Longrightarrow> it_sizeof T < it_sizeof U"
  using unsigned_min [of U v T] by (auto simp: checked_def)

lemma safeCoerceTo_exact:
  assumes "0 < it_sizeof T" "0 < it_sizeof U" "fits U v"
  shows "safeCoerceTo T U v ehCallback =
     (if fits T v then Inr v
      else case ehCallback of None \<Rightarrow> Inl NumberCoerce | Some (Inl e) \<Rightarrow> Inl e
        | Some (Inr _) \<Rightarrow> (if v < limitsMin T \<and> it_sizeof T < it_sizeof U then Inl AssertFailed else Inr (static_cast T v)))"
proof (cases "checked T U")
  case True
  have mx: "static_cast U (limitsMax T) = limitsMax T"
    using checked_max [OF True] assms(2) by (simp add: static_cast_fits)
  have mm: "limitsMin T \<le> limitsMax T" using static_cast_range [OF assms(1), of v] by (simp add: fits_def)
  have c: "safeCoerceTo T U v ehCallback = bindR
      (if limitsMin T \<le> v then Inr () else case ehCallback of Some result \<Rightarrow> result | None \<Rightarrow> Inl NumberCoerce)
      (\<lambda>_. bindR (if v > limitsMax T then (case ehCallback of Some result \<Rightarrow> result | None \<Rightarrow> Inl NumberCoerce)
          else chkR (static_cast U (static_cast T v) = v) AssertFailed) (\<lambda>_. Inr (static_cast T v)))"
    using True by (simp add: safeCoerceTo_checked coerceChecked_def lower_bound [OF assms] mx)
  show ?thesis
  proof (cases "v > limitsMax T")
    case True
    with mm show ?thesis by (auto simp: c fits_def split: option.splits sum.splits)
  next
    case False
    with checked_survives [OF True assms] checked_min_narrower [OF True assms(3)] assms(1) show ?thesis
      by (auto simp: c fits_def static_cast_fits split: option.splits sum.splits)
  qed
next
  case False
  note up = unchecked_max [OF False assms(3)]
  have "safeCoerceTo T U v ehCallback = bindR
      (if limitsMin T \<le> v then Inr () else case ehCallback of Some result \<Rightarrow> result | None \<Rightarrow> Inl NumberCoerce)
      (\<lambda>_. Inr (static_cast T v))"
    using False by (simp add: safeCoerceTo_checked coerceUnchecked_def lower_bound [OF assms] unchecked_survives [OF False assms])
  moreover have "\<not> it_sizeof T < it_sizeof U" using False by (simp add: checked_def)
  ultimately show ?thesis
    using up assms(1) by (auto simp: fits_def static_cast_fits split: option.splits sum.splits)
qed

text \<open>
  Coercion is exact: a number that fits the target type is returned unchanged, and every other one
  raises the exception, or whatever the callback throws; no assertion fails.  A callback that returns
  lets the number be reduced, except for one below the minimum of a narrower type, where the assertion
  that the number survives the cast fails.
\<close>

theorem num_coerce_exact:
  assumes "0 < it_sizeof T" "0 < it_sizeof U" "fits U v"
  shows "safeCoerceTo T U v ehCallback =
     (if fits T v then Inr v
      else case ehCallback of None \<Rightarrow> Inl NumberCoerce | Some (Inl e) \<Rightarrow> Inl e
        | Some (Inr _) \<Rightarrow> (if v < limitsMin T \<and> it_sizeof T < it_sizeof U then Inl AssertFailed else Inr (static_cast T v)))"
  by (rule safeCoerceTo_exact [OF assms])

lemma num_coerce_exact_witness:
  "safeCoerceTo std_int32 std_size_t 2147483648 None = Inl NumberCoerce \<and> safeCoerceTo std_int32 std_size_t 7 None = Inr 7"
  using num_coerce_exact [of std_int32 std_size_t 2147483648 None] num_coerce_exact [of std_int32 std_size_t 7 None]
  by (simp add: std_int32_def std_size_t_def limits it_bits_def)

end
