(* ===== verification/DataBlock.thy ===== *)
theory DataBlock
  imports Numbers Pool
begin

text \<open>
  The data block of \<open>data/DataBlock.h\<close>: a buffer with a capacity, a write position (the size) and
  a read position (\<open>offset1\<close>).  Sizes are 64-bit and their sums wrap; copying outside of a buffer is
  an error value.  An operation yields the result or the exception together with the block, so that
  what a failing operation has already done is visible.  Integers are stored in little-endian order.
\<close>

type_synonym byte = "8 word"

record data_block =
  db_data :: "byte list"
  db_capacity :: "64 word"
  db_size :: "64 word"
  db_freed :: bool
  db_offset1 :: "64 word"

section \<open>Operations with state\<close>

type_synonym 'a db_op = "data_block \<Rightarrow> 'a res \<times> data_block"

definition bindS :: "'a db_op \<Rightarrow> ('a \<Rightarrow> 'b db_op) \<Rightarrow> 'b db_op" where
  "bindS m f d = (case m d of (Inl e, d') \<Rightarrow> (Inl e, d') | (Inr a, d') \<Rightarrow> f a d')"

definition liftS :: "'a res \<Rightarrow> 'a db_op" where
  "liftS r d = (r, d)"

lemma bindS_simps [simp]:
  "m d = (Inl e, d') \<Longrightarrow> bindS m f d = (Inl e, d')"
  "m d = (Inr a, d') \<Longrightarrow> bindS m f d = f a d'"
  "bindS (liftS (Inl e)) f d = (Inl e, d)"
  "bindS (liftS (Inr a)) f d = f a d"
  by (simp_all add: bindS_def liftS_def)

section \<open>Construction\<close>

definition g_BlockCapacityDefault :: "64 word" where
  "g_BlockCapacityDefault = 1024 * 1024"

definition DATA_BLOCK_ALIGNMENT_DEFAULT :: "64 word" where
  "DATA_BLOCK_ALIGNMENT_DEFAULT = 4 * 1024"

definition calculateCapacity :: "64 word \<Rightarrow> 64 word" where
  "calculateCapacity capacity = (if capacity \<noteq> 0 then capacity else g_BlockCapacityDefault)"

text \<open>\<open>new char[ n ]\<close>: the contents are not initialized, \<open>junk\<close> is what is there.\<close>

definition new_chars :: "(nat \<Rightarrow> byte) \<Rightarrow> 64 word \<Rightarrow> byte list" where
  "new_chars junk n = map junk [0..<unat n]"

definition new_block :: "(nat \<Rightarrow> byte) \<Rightarrow> 64 word \<Rightarrow> data_block" where
  "new_block junk capacity = \<lparr>db_data = new_chars junk (calculateCapacity capacity),
     db_capacity = calculateCapacity capacity, db_size = calculateCapacity capacity, db_freed = False, db_offset1 = 0\<rparr>"

text \<open>A block over a buffer of the caller's.\<close>

definition attach_block :: "byte list \<Rightarrow> 64 word \<Rightarrow> data_block" where
  "attach_block data capacity =
     \<lparr>db_data = data, db_capacity = capacity, db_size = capacity, db_freed = False, db_offset1 = 0\<rparr>"

section \<open>Positions\<close>

definition db_setSize :: "64 word \<Rightarrow> unit db_op" where
  "db_setSize sz d =
     (if sz \<le> db_capacity d \<and> db_offset1 d \<le> sz then (Inr (), d\<lparr>db_size := sz\<rparr>) else (Inl AssertFailed, d))"

definition db_setSizeChecked :: "64 word \<Rightarrow> unit db_op" where
  "db_setSizeChecked sz d =
     (if sz \<le> db_capacity d \<and> db_offset1 d \<le> sz then (Inr (), d\<lparr>db_size := sz\<rparr>) else (Inl BufferTooSmall, d))"

definition db_setOffset1 :: "64 word \<Rightarrow> unit db_op" where
  "db_setOffset1 offset1 d =
     (if offset1 \<le> db_size d then (Inr (), d\<lparr>db_offset1 := offset1\<rparr>) else (Inl AssertFailed, d))"

definition db_setOffset1Checked :: "64 word \<Rightarrow> unit db_op" where
  "db_setOffset1Checked offset1 d =
     (if offset1 \<le> db_size d then (Inr (), d\<lparr>db_offset1 := offset1\<rparr>) else (Inl BufferTooSmall, d))"

definition db_reset :: "unit db_op" where
  "db_reset d = (Inr (), d\<lparr>db_offset1 := 0, db_size := 0\<rparr>)"

definition db_setFreed :: "bool \<Rightarrow> data_block \<Rightarrow> data_block" where
  "db_setFreed freed d = d\<lparr>db_freed := freed\<rparr>"

text \<open>The bytes from \<open>begin\<close> to \<open>end\<close>.\<close>

definition db_bytes :: "data_block \<Rightarrow> byte list" where
  "db_bytes d = take (unat (db_size d)) (db_data d)"

section \<open>Room\<close>

definition readEnsureAvailable :: "64 word \<Rightarrow> unit db_op" where
  "readEnsureAvailable sz d =
     (if db_offset1 d \<le> db_size d \<and> sz \<le> db_size d - db_offset1 d then (Inr (), d) else (Inl BufferTooSmall, d))"

definition isPowerOfTwo :: "64 word \<Rightarrow> bool" where
  "isPowerOfTwo x \<longleftrightarrow> x \<noteq> 0 \<and> and x (x - 1) = 0"

definition alignedOfDefault :: "64 word \<Rightarrow> 64 word \<Rightarrow> 64 word res" where
  "alignedOfDefault x alignment =
     bindR (chkR (alignment \<noteq> 0 \<and> isPowerOfTwo alignment) AssertFailed)
       (\<lambda>_. let result = alignment * ((x + alignment - 1) div alignment) in
          bindR (chkR (x \<le> result) AssertFailed)
            (\<lambda>_. bindR (chkR (result mod alignment = 0) AssertFailed) (\<lambda>_. Inr result)))"

text \<open>\<open>memcpy\<close> from the start of one buffer to the start of another, and to and from a position.\<close>

definition copyTo :: "nat \<Rightarrow> byte list \<Rightarrow> byte list \<Rightarrow> byte list res" where
  "copyTo pos source target =
     (if pos + length source \<le> length target
      then Inr (take pos target @ source @ drop (pos + length source) target) else Inl UndefinedBehaviour)"

definition copyFrom :: "nat \<Rightarrow> nat \<Rightarrow> byte list \<Rightarrow> byte list res" where
  "copyFrom pos n source =
     (if pos + n \<le> length source then Inr (take n (drop pos source)) else Inl UndefinedBehaviour)"

definition writeEnsureAvailable :: "(nat \<Rightarrow> byte) \<Rightarrow> 64 word \<Rightarrow> 64 word \<Rightarrow> unit db_op" where
  "writeEnsureAvailable junk sz blockAlignment d =
     (if db_size d + sz > db_capacity d then
        (case bindR (alignedOfDefault (db_size d + sz)
                 (if blockAlignment \<noteq> 0 then blockAlignment else DATA_BLOCK_ALIGNMENT_DEFAULT))
               (\<lambda>newCapacity. bindR (copyFrom 0 (unat (db_size d)) (db_data d))
                  (\<lambda>old. bindR (copyTo 0 old (new_chars junk newCapacity)) (\<lambda>new. Inr (new, newCapacity)))) of
           Inl e \<Rightarrow> (Inl e, d)
         | Inr (new, newCapacity) \<Rightarrow> (Inr (), d\<lparr>db_data := new, db_capacity := newCapacity\<rparr>))
      else (Inr (), d))"

section \<open>Writing\<close>

definition db_write :: "byte list \<Rightarrow> unit db_op" where
  "db_write data d =
     (let sz = of_nat (length data) in
      if db_size d + sz \<le> db_capacity d then
        (case copyTo (unat (db_size d)) data (db_data d) of
           Inl e \<Rightarrow> (Inl e, d)
         | Inr new \<Rightarrow> (Inr (), d\<lparr>db_data := new, db_size := db_size d + sz\<rparr>))
      else (Inl BufferTooSmall, d))"

text \<open>The bytes of an integer and back.\<close>

fun le_bytes :: "nat \<Rightarrow> int \<Rightarrow> byte list" where
  "le_bytes 0 v = []"
| "le_bytes (Suc n) v = word_of_int v # le_bytes n (v div 256)"

fun bytes_int :: "byte list \<Rightarrow> int" where
  "bytes_int [] = 0"
| "bytes_int (b # bs) = uint b + 256 * bytes_int bs"

definition db_writeInt :: "int_type \<Rightarrow> int \<Rightarrow> unit db_op" where
  "db_writeInt T v = db_write (le_bytes (it_sizeof T) v)"

definition chkCanWriteText :: "int \<Rightarrow> unit db_op" where
  "chkCanWriteText textSize d =
     (let totalSize = of_nat (it_sizeof std_int32) + of_int (static_cast std_size_t textSize) in
      if db_size d + totalSize > db_capacity d then (Inl BufferTooSmall, d) else (Inr (), d))"

definition db_writeText :: "byte list \<Rightarrow> unit db_op" where
  "db_writeText txt =
     bindS (liftS (safeCoerceTo std_int32 std_size_t (int (length txt)) None))
       (\<lambda>textSize. bindS (chkCanWriteText textSize)
          (\<lambda>_. bindS (db_writeInt std_int32 textSize) (\<lambda>_. db_write (take (nat textSize) txt))))"

text \<open>The overload for a C string, which ends before its first NUL.\<close>

definition db_writeCString :: "byte list \<Rightarrow> unit db_op" where
  "db_writeCString text = db_writeText (takeWhile (\<lambda>b. b \<noteq> 0) text)"

section \<open>Reading\<close>

definition db_read :: "nat \<Rightarrow> byte list db_op" where
  "db_read n =
     bindS (readEnsureAvailable (of_nat n))
       (\<lambda>_ d. case copyFrom (unat (db_offset1 d)) n (db_data d) of
          Inl e \<Rightarrow> (Inl e, d)
        | Inr bytes \<Rightarrow> (Inr bytes, d\<lparr>db_offset1 := db_offset1 d + of_nat n\<rparr>))"

definition db_readInt :: "int_type \<Rightarrow> int db_op" where
  "db_readInt T = bindS (db_read (it_sizeof T)) (\<lambda>bytes. liftS (Inr (static_cast T (bytes_int bytes))))"

definition db_readText :: "byte list db_op" where
  "db_readText =
     bindS (db_readInt std_int32)
       (\<lambda>textSize. bindS (liftS (chkR (textSize \<ge> 0) BufferTooSmall))
          (\<lambda>_. bindS (readEnsureAvailable (of_int (static_cast std_size_t textSize)))
             (\<lambda>_ d. case copyFrom (unat (db_offset1 d)) (nat textSize) (db_data d) of
                Inl e \<Rightarrow> (Inl e, d)
              | Inr bytes \<Rightarrow> (Inr bytes, d\<lparr>db_offset1 := db_offset1 d + of_int textSize\<rparr>))))"

section \<open>Pooled blocks\<close>

text \<open>
  Blocks live in a store, by address; the pool of free blocks marks them through their \<open>freed\<close> flag.
  \<open>newId\<close> is the address of a block that has to be allocated.
\<close>

type_synonym block_store = "nat \<Rightarrow> data_block"

abbreviation block_checker :: "(nat, block_store) checker" where
  "block_checker \<equiv> intrusive_checker db_freed db_setFreed"

definition db_get ::
  "(nat \<Rightarrow> byte) \<Rightarrow> nat \<Rightarrow> nat simple_pool option \<Rightarrow> 64 word \<Rightarrow> block_store
     \<Rightarrow> (nat \<times> nat simple_pool option \<times> block_store) res" where
  "db_get junk newId dataBlocksPool capacity store =
     bindR (case dataBlocksPool of
              None \<Rightarrow> Inr (None, None, store)
            | Some pool \<Rightarrow> bindR (tryGet block_checker pool store) (\<lambda>(b, pool', store'). Inr (b, Some pool', store')))
       (\<lambda>(newBlock, pool', store').
          let (b, d) = (case newBlock of Some b \<Rightarrow> (b, store' b) | None \<Rightarrow> (newId, new_block junk capacity))
          in (case bindS (db_setOffset1 0) (\<lambda>_. db_setSize 0) d of
                (Inl e, _) \<Rightarrow> Inl e
              | (Inr _, d') \<Rightarrow> Inr (b, pool', store'(b := d'))))"

definition db_copyBytes ::
  "(nat \<Rightarrow> byte) \<Rightarrow> nat \<Rightarrow> byte list \<Rightarrow> nat simple_pool option \<Rightarrow> 64 word \<Rightarrow> block_store
     \<Rightarrow> (nat \<times> nat simple_pool option \<times> block_store) res" where
  "db_copyBytes junk newId data dataBlocksPool capacity store =
     bindR (db_get junk newId dataBlocksPool capacity store)
       (\<lambda>(b, pool', store'). case db_write data (store' b) of
          (Inl e, _) \<Rightarrow> Inl e
        | (Inr _, d') \<Rightarrow> Inr (b, pool', store'(b := d')))"

definition db_copy ::
  "(nat \<Rightarrow> byte) \<Rightarrow> nat \<Rightarrow> nat \<Rightarrow> nat simple_pool option \<Rightarrow> block_store
     \<Rightarrow> (nat \<times> nat simple_pool option \<times> block_store) res" where
  "db_copy junk newId block dataBlocksPool store =
     bindR (db_copyBytes junk newId (db_bytes (store block)) dataBlocksPool (db_capacity (store block)) store)
       (\<lambda>(b, pool', store'). case db_setOffset1 (db_offset1 (store block)) (store' b) of
          (Inl e, _) \<Rightarrow> Inl e
        | (Inr _, d') \<Rightarrow> Inr (b, pool', store'(b := d')))"

end
