(* ===== verification/DataBlockProps.thy ===== *)
theory DataBlockProps
  imports DataBlock
begin

text \<open>
  The properties of data blocks.  A block refines a byte queue: its contents \<open>db_bytes\<close>, to which
  writing appends and from which reading takes at the read position, within a capacity.  The lemmas
  of the first section state this for each operation, the properties follow from them.
\<close>

section \<open>Words as numbers\<close>

lemma unat_plus: "unat a + unat b < 2 ^ 64 \<Longrightarrow> unat (a + b) = unat a + unat (b :: 64 word)"
  by (rule unat_add_lem [THEN iffD1]) simp

lemma unat_of_small: "n < 2 ^ 64 \<Longrightarrow> unat (of_nat n :: 64 word) = n"
  by (simp add: unat_of_nat take_bit_nat_eq_self)

lemma unat_bound: "unat (a :: 64 word) < 2 ^ 64"
  using unsigned_less [of a] by simp

lemma unat_minus: "a \<le> b \<Longrightarrow> unat (b - a) = unat b - unat (a :: 64 word)"
  by (simp add: unat_sub)

section \<open>The byte queue\<close>

definition wf_block :: "data_block \<Rightarrow> bool" where
  "wf_block d \<longleftrightarrow> length (db_data d) = unat (db_capacity d) \<and> db_size d \<le> db_capacity d \<and> db_offset1 d \<le> db_size d"

definition capacity :: "data_block \<Rightarrow> nat" where
  "capacity d = unat (db_capacity d)"

definition rest :: "data_block \<Rightarrow> byte list" where
  "rest d = drop (unat (db_offset1 d)) (db_bytes d)"

lemma wf_lengths:
  assumes "wf_block d"
  shows "length (db_bytes d) = unat (db_size d)" "unat (db_size d) \<le> capacity d" "capacity d < 2 ^ 64"
    "unat (db_offset1 d) \<le> unat (db_size d)" "length (rest d) = unat (db_size d) - unat (db_offset1 d)"
  using assms unat_bound [of "db_capacity d"]
  by (auto simp: wf_block_def db_bytes_def capacity_def rest_def word_le_nat_alt)

text \<open>A buffer of the caller's and the block are in one address space.\<close>

definition coexist :: "data_block \<Rightarrow> nat \<Rightarrow> bool" where
  "coexist d n \<longleftrightarrow> capacity d + n < 2 ^ 64"

lemma write_queue:
  assumes "wf_block d" "coexist d (length data)"
  shows "if length (db_bytes d) + length data \<le> capacity d
     then \<exists>d'. db_write data d = (Inr (), d') \<and> wf_block d' \<and> db_bytes d' = db_bytes d @ data
       \<and> db_offset1 d' = db_offset1 d \<and> db_capacity d' = db_capacity d \<and> db_freed d' = db_freed d
     else db_write data d = (Inl BufferTooSmall, d)"
proof -
  note l = wf_lengths [OF assms(1)]
  let ?n = "of_nat (length data) :: 64 word"
  have n: "unat ?n = length data" using assms(2) by (simp add: unat_of_small coexist_def)
  have s: "unat (db_size d + ?n) = unat (db_size d) + length data"
    using l(2) assms(2) n by (simp add: unat_plus coexist_def)
  have c: "db_size d + ?n \<le> db_capacity d \<longleftrightarrow> length (db_bytes d) + length data \<le> capacity d"
    by (simp add: word_le_nat_alt s l(1) capacity_def)
  show ?thesis
  proof (cases "length (db_bytes d) + length data \<le> capacity d")
    case True
    let ?new = "take (unat (db_size d)) (db_data d) @ data @ drop (unat (db_size d) + length data) (db_data d)"
    have len: "length (db_data d) = capacity d" using assms(1) by (simp add: wf_block_def capacity_def)
    have "db_write data d = (Inr (), d\<lparr>db_data := ?new, db_size := db_size d + ?n\<rparr>)"
      using True c l(1) len by (simp add: db_write_def Let_def copyTo_def)
    moreover have "wf_block (d\<lparr>db_data := ?new, db_size := db_size d + ?n\<rparr>)"
      using assms(1) True c l s len by (simp add: wf_block_def word_le_nat_alt capacity_def)
    moreover have "db_bytes (d\<lparr>db_data := ?new, db_size := db_size d + ?n\<rparr>) = db_bytes d @ data"
      using l len True by (simp add: db_bytes_def s)
    ultimately show ?thesis using True by auto
  next
    case False
    then show ?thesis using c by (simp add: db_write_def Let_def)
  qed
qed

lemma take_rest: "n \<le> length (rest d) \<Longrightarrow> take n (drop (unat (db_offset1 d)) (db_data d)) = take n (rest d)"
  by (simp add: rest_def db_bytes_def drop_take)

text \<open>Moving the read position within the contents.\<close>

lemma advance:
  assumes "wf_block d" "n \<le> length (rest d)"
  shows "wf_block (d\<lparr>db_offset1 := db_offset1 d + of_nat n\<rparr>)"
    "rest (d\<lparr>db_offset1 := db_offset1 d + of_nat n\<rparr>) = drop n (rest d)"
    "db_bytes (d\<lparr>db_offset1 := db_offset1 d + of_nat n\<rparr>) = db_bytes d"
proof -
  note l = wf_lengths [OF assms(1)]
  have "unat (of_nat n :: 64 word) = n" using assms(2) l by (intro unat_of_small) simp
  then have "unat (db_offset1 d + of_nat n) = unat (db_offset1 d) + n"
    using assms(2) l by (subst unat_plus) simp_all
  then show "wf_block (d\<lparr>db_offset1 := db_offset1 d + of_nat n\<rparr>)"
    "rest (d\<lparr>db_offset1 := db_offset1 d + of_nat n\<rparr>) = drop n (rest d)"
    "db_bytes (d\<lparr>db_offset1 := db_offset1 d + of_nat n\<rparr>) = db_bytes d"
    using assms l by (simp_all add: wf_block_def word_le_nat_alt rest_def db_bytes_def add.commute)
qed

lemma available:
  assumes "wf_block d"
  shows "readEnsureAvailable sz d = (if unat sz \<le> length (rest d) then Inr () else Inl BufferTooSmall, d)"
  using assms wf_lengths [OF assms]
  by (simp add: readEnsureAvailable_def wf_block_def word_le_nat_alt unat_minus)

lemma read_queue:
  assumes "wf_block d" "n < 2 ^ 64"
  shows "db_read n d = (if n \<le> length (rest d) then (Inr (take n (rest d)), d\<lparr>db_offset1 := db_offset1 d + of_nat n\<rparr>)
     else (Inl BufferTooSmall, d))"
proof (cases "n \<le> length (rest d)")
  case True
  have "length (db_data d) = capacity d" using assms(1) by (simp add: wf_block_def capacity_def)
  then have "unat (db_offset1 d) + n \<le> length (db_data d)" using wf_lengths [OF assms(1)] True by simp
  with True assms show ?thesis
    by (simp add: db_read_def bindS_def available unat_of_small copyFrom_def take_rest)
next
  case False
  with assms show ?thesis by (simp add: db_read_def bindS_def available unat_of_small)
qed

section \<open>Integers\<close>

lemma length_le_bytes [simp]: "length (le_bytes n v) = n"
  by (induction n arbitrary: v) simp_all

lemma bytes_int_le: "bytes_int (le_bytes n v) = v mod 256 ^ n"
proof (induction n arbitrary: v)
  case (Suc n)
  have "uint (word_of_int v :: byte) = v mod 256" by (simp add: uint_word_of_int)
  then have "bytes_int (le_bytes (Suc n) v) = v mod 256 + 256 * ((v div 256) mod 256 ^ n)"
    by (simp add: Suc)
  also have "\<dots> = v mod (256 * 256 ^ n)" by (simp add: zmod_zmult2_eq)
  finally show ?case by simp
qed simp

lemma static_cast_mod: "0 < it_sizeof T \<Longrightarrow> static_cast T (v mod 2 ^ it_bits T) = static_cast T v"
  by (simp add: static_cast_def flip: take_bit_eq_mod) (auto simp: signed_take_bit_take_bit it_bits_def)

lemma int_round_trip: "0 < it_sizeof T \<Longrightarrow> fits T v \<Longrightarrow> static_cast T (bytes_int (le_bytes (it_sizeof T) v)) = v"
proof -
  assume *: "0 < it_sizeof T" "fits T v"
  have "(256::int) ^ it_sizeof T = 2 ^ it_bits T" by (simp add: it_bits_def power_mult)
  then show ?thesis using * static_cast_mod [of T v] by (simp add: bytes_int_le static_cast_fits)
qed

text \<open>The length prefix of a text.\<close>

lemma coerce_length:
  assumes "n < 2 ^ 64"
  shows "safeCoerceTo std_int32 std_size_t (int n) None = (if n < 2 ^ 31 then Inr (int n) else Inl NumberCoerce)"
proof -
  have "fits std_size_t (int n)" using assms by (simp add: limits it_bits_def std_size_t_def)
  moreover have "0 < it_sizeof std_int32" "0 < it_sizeof std_size_t" by (simp_all add: std_int32_def std_size_t_def)
  moreover have "fits std_int32 (int n) \<longleftrightarrow> n < 2 ^ 31" by (auto simp: limits it_bits_def std_int32_def)
  ultimately show ?thesis using safeCoerceTo_exact [of std_int32 std_size_t "int n" None] by simp
qed

lemma cast_size: "0 \<le> v \<Longrightarrow> v < 2 ^ 64 \<Longrightarrow> static_cast std_size_t v = v"
  by (simp add: static_cast_fits limits it_bits_def std_size_t_def)

section \<open>Texts\<close>

lemma writeInt_queue:
  assumes "wf_block d" "coexist d (it_sizeof T)"
  shows "if length (db_bytes d) + it_sizeof T \<le> capacity d
     then \<exists>d'. db_writeInt T v d = (Inr (), d') \<and> wf_block d' \<and> db_bytes d' = db_bytes d @ le_bytes (it_sizeof T) v
       \<and> db_offset1 d' = db_offset1 d \<and> db_capacity d' = db_capacity d \<and> db_freed d' = db_freed d
     else db_writeInt T v d = (Inl BufferTooSmall, d)"
  using write_queue [OF assms(1), of "le_bytes (it_sizeof T) v"] assms(2) unfolding db_writeInt_def by simp

definition encodeText :: "byte list \<Rightarrow> byte list" where
  "encodeText t = le_bytes 4 (int (length t)) @ t"

lemma writeText_queue:
  assumes "wf_block d" "coexist d (length t + 4)"
  shows "if 2 ^ 31 \<le> length t then db_writeText t d = (Inl NumberCoerce, d)
     else if length (db_bytes d) + length (encodeText t) \<le> capacity d
     then \<exists>d'. db_writeText t d = (Inr (), d') \<and> wf_block d' \<and> db_bytes d' = db_bytes d @ encodeText t
       \<and> db_offset1 d' = db_offset1 d \<and> db_capacity d' = db_capacity d \<and> db_freed d' = db_freed d
     else db_writeText t d = (Inl BufferTooSmall, d)"
proof -
  note l = wf_lengths [OF assms(1)]
  have n: "length t < 2 ^ 64" using assms(2) by (simp add: coexist_def)
  show ?thesis
  proof (cases "2 ^ 31 \<le> length t")
    case True
    then show ?thesis using coerce_length [OF n] by (simp add: db_writeText_def)
  next
    case False
    have sz: "it_sizeof std_int32 = 4" by (simp add: std_int32_def)
    let ?total = "of_nat (it_sizeof std_int32) + of_int (static_cast std_size_t (int (length t))) :: 64 word"
    have "?total = of_nat (length t + 4)" using n by (simp add: cast_size sz)
    then have "unat ?total = length t + 4" using assms(2) unat_of_small [of "length t + 4"] by (simp add: coexist_def)
    then have "unat (db_size d + ?total) = unat (db_size d) + (length t + 4)"
      using l(2) assms(2) unat_plus [of "db_size d" ?total] by (simp add: coexist_def)
    then have chk: "chkCanWriteText (int (length t)) d =
        (if length (db_bytes d) + length (encodeText t) \<le> capacity d then Inr () else Inl BufferTooSmall, d)"
      using l(1) by (simp add: chkCanWriteText_def Let_def word_less_nat_alt encodeText_def capacity_def not_less)
    have w: "db_writeText t d = bindS (chkCanWriteText (int (length t)))
        (\<lambda>_. bindS (db_writeInt std_int32 (int (length t))) (\<lambda>_. db_write t)) d"
      using False coerce_length [OF n] by (simp add: db_writeText_def)
    show ?thesis
    proof (cases "length (db_bytes d) + length (encodeText t) \<le> capacity d")
      case fit: True
      then obtain d1 where d1: "db_writeInt std_int32 (int (length t)) d = (Inr (), d1)" "wf_block d1"
        "db_bytes d1 = db_bytes d @ le_bytes 4 (int (length t))" "db_offset1 d1 = db_offset1 d"
        "db_capacity d1 = db_capacity d" "db_freed d1 = db_freed d"
        using writeInt_queue [OF assms(1), of std_int32 "int (length t)"] assms(2) sz
        by (auto simp: coexist_def encodeText_def)
      moreover have "capacity d1 = capacity d" "coexist d1 (length t)"
        using d1 assms(2) by (simp_all add: capacity_def coexist_def)
      ultimately obtain d2 where "db_write t d1 = (Inr (), d2)" "wf_block d2" "db_bytes d2 = db_bytes d1 @ t"
        "db_offset1 d2 = db_offset1 d" "db_capacity d2 = db_capacity d" "db_freed d2 = db_freed d"
        using write_queue [of d1 t] fit by (auto simp: encodeText_def)
      with d1 fit False show ?thesis by (simp add: w chk encodeText_def)
    next
      case nf: False
      with False show ?thesis by (simp add: w chk)
    qed
  qed
qed

lemma readInt_queue:
  assumes "wf_block d" "it_sizeof T < 2 ^ 64"
  shows "db_readInt T d = (if it_sizeof T \<le> length (rest d)
     then (Inr (static_cast T (bytes_int (take (it_sizeof T) (rest d)))), d\<lparr>db_offset1 := db_offset1 d + of_nat (it_sizeof T)\<rparr>)
     else (Inl BufferTooSmall, d))"
  using read_queue [OF assms] by (simp add: db_readInt_def bindS_def liftS_def)

text \<open>A text is read when its length prefix and its bytes are there; else the prefix may be consumed.\<close>

lemma readText_queue:
  assumes "wf_block d"
  shows "db_readText d =
     (let n = static_cast std_int32 (bytes_int (take 4 (rest d))) in
      if length (rest d) < 4 then (Inl BufferTooSmall, d)
      else if n < 0 \<or> int (length (rest d)) - 4 < n then (Inl BufferTooSmall, d\<lparr>db_offset1 := db_offset1 d + 4\<rparr>)
      else (Inr (take (nat n) (drop 4 (rest d))), d\<lparr>db_offset1 := db_offset1 d + of_nat (4 + nat n)\<rparr>))"
proof (cases "length (rest d) < 4")
  case True
  then show ?thesis using readInt_queue [OF assms, of std_int32] by (simp add: db_readText_def std_int32_def)
next
  case False
  define n where "n = static_cast std_int32 (bytes_int (take 4 (rest d)))"
  define d1 where "d1 = d\<lparr>db_offset1 := db_offset1 d + 4\<rparr>"
  have r: "db_readInt std_int32 d = (Inr n, d1)"
    using False readInt_queue [OF assms, of std_int32] by (simp add: std_int32_def n_def d1_def)
  have a: "wf_block d1" "rest d1 = drop 4 (rest d)" using advance [OF assms, of 4] False by (simp_all add: d1_def)
  have "fits std_int32 n" unfolding n_def by (rule static_cast_range) (simp add: std_int32_def)
  then have b: "n < 2 ^ 31" by (simp add: limits it_bits_def std_int32_def)
  have t: "db_readText d = (if n < 0 then (Inl BufferTooSmall, d1)
      else bindS (readEnsureAvailable (of_int (static_cast std_size_t n)))
       (\<lambda>_ d. case copyFrom (unat (db_offset1 d)) (nat n) (db_data d) of
          Inl e \<Rightarrow> (Inl e, d) | Inr bytes \<Rightarrow> (Inr bytes, d\<lparr>db_offset1 := db_offset1 d + of_int n\<rparr>)) d1)"
    by (simp add: db_readText_def r)
  have "db_readText d = (if n < 0 \<or> int (length (rest d)) - 4 < n then (Inl BufferTooSmall, d1)
      else (Inr (take (nat n) (drop 4 (rest d))), d1\<lparr>db_offset1 := db_offset1 d1 + of_int n\<rparr>))"
  proof (cases "n < 0")
    case True
    then show ?thesis by (simp add: t)
  next
    case nn: False
    then have "unat (of_int n :: 64 word) = nat n" using b unat_of_small [of "nat n"] by simp
    then have av: "readEnsureAvailable (of_int (static_cast std_size_t n)) d1 =
        (if nat n \<le> length (rest d) - 4 then Inr () else Inl BufferTooSmall, d1)"
      using available [OF a(1)] a(2) b nn by (simp add: cast_size)
    show ?thesis
    proof (cases "nat n \<le> length (rest d) - 4")
      case True
      have "length (db_data d1) = capacity d1" using a(1) by (simp add: wf_block_def capacity_def)
      then have "unat (db_offset1 d1) + nat n \<le> length (db_data d1)" using wf_lengths [OF a(1)] True a(2) by simp
      then have "copyFrom (unat (db_offset1 d1)) (nat n) (db_data d1) = Inr (take (nat n) (drop 4 (rest d)))"
        using take_rest [of "nat n" d1] True a(2) by (simp add: copyFrom_def)
      moreover have "\<not> int (length (rest d)) - 4 < n" using True False nn by simp
      ultimately show ?thesis using True nn av by (simp add: t bindS_def)
    next
      case nf: False
      then have "int (length (rest d)) - 4 < n" using False nn by linarith
      with nn nf av show ?thesis by (simp add: t bindS_def)
    qed
  qed
  moreover have "d1\<lparr>db_offset1 := db_offset1 d1 + of_int n\<rparr> = d\<lparr>db_offset1 := db_offset1 d + of_nat (4 + nat n)\<rparr>"
    if "\<not> n < 0"
    using that by (simp add: d1_def add.assoc)
  ultimately show ?thesis using False by (simp add: Let_def flip: n_def d1_def)
qed

section \<open>Sequences of values\<close>

datatype db_item = ItemInt int_type int | ItemText "byte list"

datatype db_shape = ShapeInt int_type | ShapeText

fun shape :: "db_item \<Rightarrow> db_shape" where
  "shape (ItemInt T v) = ShapeInt T"
| "shape (ItemText t) = ShapeText"

fun writeItem :: "db_item \<Rightarrow> unit db_op" where
  "writeItem (ItemInt T v) = db_writeInt T v"
| "writeItem (ItemText t) = db_writeText t"

fun readItem :: "db_shape \<Rightarrow> db_item db_op" where
  "readItem (ShapeInt T) = bindS (db_readInt T) (\<lambda>v. liftS (Inr (ItemInt T v)))"
| "readItem ShapeText = bindS db_readText (\<lambda>t. liftS (Inr (ItemText t)))"

fun writeItems :: "db_item list \<Rightarrow> unit db_op" where
  "writeItems [] = liftS (Inr ())"
| "writeItems (i # items) = bindS (writeItem i) (\<lambda>_. writeItems items)"

fun readItems :: "db_shape list \<Rightarrow> db_item list db_op" where
  "readItems [] = liftS (Inr [])"
| "readItems (i # items) = bindS (readItem i) (\<lambda>x. bindS (readItems items) (\<lambda>xs. liftS (Inr (x # xs))))"

fun encode :: "db_item \<Rightarrow> byte list" where
  "encode (ItemInt T v) = le_bytes (it_sizeof T) v"
| "encode (ItemText t) = encodeText t"

text \<open>A value of its type; a text in the same address space as the block.\<close>

fun item_ok :: "data_block \<Rightarrow> db_item \<Rightarrow> bool" where
  "item_ok d (ItemInt T v) \<longleftrightarrow> 0 < it_sizeof T \<and> it_sizeof T \<le> 8 \<and> fits T v \<and> coexist d 8"
| "item_ok d (ItemText t) \<longleftrightarrow> coexist d (length t + 4)"

fun text_short :: "db_item \<Rightarrow> bool" where
  "text_short (ItemInt T v) = True"
| "text_short (ItemText t) = (length t < 2 ^ 31)"

lemma writeItem_queue:
  assumes "wf_block d" "item_ok d i"
  shows "if text_short i \<and> length (db_bytes d) + length (encode i) \<le> capacity d
     then \<exists>d'. writeItem i d = (Inr (), d') \<and> wf_block d' \<and> db_bytes d' = db_bytes d @ encode i
       \<and> db_offset1 d' = db_offset1 d \<and> db_capacity d' = db_capacity d
     else \<exists>e. writeItem i d = (Inl e, d)"
proof (cases i)
  case (ItemInt T v)
  with assms(2) have "coexist d (it_sizeof T)" by (simp add: coexist_def)
  with writeInt_queue [OF assms(1), of T v] ItemInt show ?thesis by (auto split: if_splits)
next
  case (ItemText t)
  with writeText_queue [OF assms(1), of t] assms(2) show ?thesis by (auto split: if_splits)
qed

lemma writeItems_queue:
  assumes "wf_block d" "list_all (item_ok d) items"
  shows "if list_all text_short items \<and> length (db_bytes d) + length (concat (map encode items)) \<le> capacity d
     then \<exists>d'. writeItems items d = (Inr (), d') \<and> wf_block d' \<and> db_bytes d' = db_bytes d @ concat (map encode items)
       \<and> db_offset1 d' = db_offset1 d
     else \<exists>e d'. writeItems items d = (Inl e, d')"
  using assms
proof (induction "items" arbitrary: d)
  case Nil
  then show ?case using wf_lengths(1,2) [OF Nil(1)] by (simp add: liftS_def)
next
  case (Cons i items)
  show ?case
  proof (cases "text_short i \<and> length (db_bytes d) + length (encode i) \<le> capacity d")
    case True
    then obtain d1 where d1: "writeItem i d = (Inr (), d1)" "wf_block d1" "db_bytes d1 = db_bytes d @ encode i"
      "db_offset1 d1 = db_offset1 d" "db_capacity d1 = db_capacity d"
      using writeItem_queue [of d i] Cons.prems by auto
    then have c: "capacity d1 = capacity d" by (simp add: capacity_def)
    have "item_ok d1 j = item_ok d j" for j using c by (cases j) (simp_all add: coexist_def)
    then have "list_all (item_ok d1) items" using Cons.prems(2) by (simp add: list_all_iff)
    from Cons.IH [OF d1(2) this] d1 c True show ?thesis by (auto simp: add.assoc split: if_splits)
  next
    case False
    then obtain e where "writeItem i d = (Inl e, d)" using writeItem_queue [of d i] Cons.prems by auto
    with False show ?thesis by auto
  qed
qed

lemma encodeText_read:
  assumes "wf_block d" "length t < 2 ^ 31" "rest d = encodeText t @ tail"
  shows "db_readText d = (Inr t, d\<lparr>db_offset1 := db_offset1 d + of_nat (length (encodeText t))\<rparr>)"
proof -
  have "fits std_int32 (int (length t))" using assms(2) by (simp add: limits it_bits_def std_int32_def)
  then have "static_cast std_int32 (bytes_int (le_bytes 4 (int (length t)))) = int (length t)"
    using int_round_trip [of std_int32 "int (length t)"] by (simp add: std_int32_def)
  then show ?thesis
    using readText_queue [OF assms(1)] by (simp add: assms(3) encodeText_def Let_def)
qed

lemma readItem_encode:
  assumes "wf_block d" "item_ok d0 i" "text_short i" "rest d = encode i @ tail"
  shows "readItem (shape i) d = (Inr i, d\<lparr>db_offset1 := db_offset1 d + of_nat (length (encode i))\<rparr>)"
proof (cases i)
  case (ItemInt T v)
  then show ?thesis
    using assms readInt_queue [OF assms(1), of T] int_round_trip [of T v] by (simp add: bindS_def liftS_def)
next
  case (ItemText t)
  then show ?thesis using assms encodeText_read [of d t tail] by (simp add: bindS_def liftS_def)
qed

lemma readItems_encode:
  "wf_block d \<Longrightarrow> list_all (item_ok d0) items \<Longrightarrow> list_all text_short items \<Longrightarrow> rest d = concat (map encode items) \<Longrightarrow>
   readItems (map shape items) d = (Inr items, d\<lparr>db_offset1 := db_size d\<rparr>)"
proof (induction "items" arbitrary: d)
  case Nil
  then have "unat (db_size d) - unat (db_offset1 d) = 0" "db_offset1 d \<le> db_size d"
    using wf_lengths(5) [of d] by (auto simp: wf_block_def)
  then have "db_offset1 d = db_size d" by (simp add: word_le_nat_alt word_unat_eq_iff)
  then show ?case by (simp add: liftS_def)
next
  case (Cons i items)
  let ?d = "d\<lparr>db_offset1 := db_offset1 d + of_nat (length (encode i))\<rparr>"
  have "wf_block ?d" "rest ?d = concat (map encode items)"
    using advance [of d "length (encode i)"] Cons.prems by simp_all
  with Cons.IH [of ?d] Cons.prems have "readItems (map shape items) ?d = (Inr items, ?d\<lparr>db_offset1 := db_size ?d\<rparr>)" by simp
  moreover have "readItem (shape i) d = (Inr i, ?d)" using Cons.prems by (intro readItem_encode) auto
  ultimately show ?case by (simp add: bindS_def liftS_def)
qed

text \<open>
  C13 Writing a sequence of integers and texts into an empty block succeeds exactly when every text is
  shorter than 2 GB and the whole fits the capacity, and then reading values of the same types gives
  them back and ends at the end of the block.
\<close>

theorem db_round_trip:
  assumes "wf_block d" "list_all (item_ok d) items"
  shows "((\<exists>d'. writeItems items (snd (db_reset d)) = (Inr (), d'))
      \<longleftrightarrow> list_all text_short items \<and> length (concat (map encode items)) \<le> unat (db_capacity d))
    \<and> (\<forall>d'. writeItems items (snd (db_reset d)) = (Inr (), d') \<longrightarrow>
         readItems (map shape items) d' = (Inr items, d'\<lparr>db_offset1 := db_size d'\<rparr>))"
proof -
  let ?d = "snd (db_reset d)"
  have w: "wf_block ?d" "capacity ?d = capacity d" "db_bytes ?d = []" "db_offset1 ?d = 0"
    using assms(1) by (simp_all add: db_reset_def wf_block_def capacity_def db_bytes_def)
  have "item_ok ?d i = item_ok d i" for i using w(2) by (cases i) (simp_all add: coexist_def)
  then have "list_all (item_ok ?d) items" using assms(2) by (simp add: list_all_iff)
  note q = writeItems_queue [OF w(1) this]
  have r: "readItems (map shape items) d' = (Inr items, d'\<lparr>db_offset1 := db_size d'\<rparr>)"
    if "writeItems items ?d = (Inr (), d')" for d'
  proof -
    from q that w have "list_all text_short items" "wf_block d'" "rest d' = concat (map encode items)"
      by (auto simp: rest_def split: if_splits)
    with assms(2) show ?thesis by (intro readItems_encode)
  qed
  moreover have "(\<exists>d'. writeItems items ?d = (Inr (), d'))
      \<longleftrightarrow> list_all text_short items \<and> length (concat (map encode items)) \<le> unat (db_capacity d)"
    using q w by (auto simp: capacity_def split: if_splits)
  ultimately show ?thesis by blast
qed

lemma db_round_trip_witness:
  "\<exists>d'. writeItems [ItemText [104, 105], ItemInt std_int32 (-2)] (snd (db_reset (new_block (\<lambda>_. 7) 16))) = (Inr (), d')"
proof -
  let ?d = "new_block (\<lambda>_. 7) 16" and ?items = "[ItemText [104, 105], ItemInt std_int32 (-2)]"
  have "wf_block ?d" "list_all (item_ok ?d) ?items" "list_all text_short ?items"
    "length (concat (map encode ?items)) \<le> unat (db_capacity ?d)"
    by (simp_all add: new_block_def new_chars_def wf_block_def calculateCapacity_def coexist_def capacity_def std_int32_def
        limits it_bits_def encodeText_def)
  with db_round_trip [of ?d ?items] show ?thesis by blast
qed

section \<open>Calls in any order\<close>

text \<open>The calls that check their arguments and what they read, with any arguments and any contents.\<close>

datatype db_call =
    CallWrite "byte list"
  | CallWriteInt int_type int
  | CallWriteText "byte list"
  | CallRead nat
  | CallReadInt int_type
  | CallReadText
  | CallSetSizeChecked "64 word"
  | CallSetOffset1Checked "64 word"
  | CallReset

text \<open>The exception of a call, if any, and the block after it.\<close>

fun db_perform :: "db_call \<Rightarrow> data_block \<Rightarrow> exc option \<times> data_block" where
  "db_perform (CallWrite data) d = (case db_write data d of (Inl e, d') \<Rightarrow> (Some e, d') | (Inr _, d') \<Rightarrow> (None, d'))"
| "db_perform (CallWriteInt T v) d = (case db_writeInt T v d of (Inl e, d') \<Rightarrow> (Some e, d') | (Inr _, d') \<Rightarrow> (None, d'))"
| "db_perform (CallWriteText t) d = (case db_writeText t d of (Inl e, d') \<Rightarrow> (Some e, d') | (Inr _, d') \<Rightarrow> (None, d'))"
| "db_perform (CallRead n) d = (case db_read n d of (Inl e, d') \<Rightarrow> (Some e, d') | (Inr _, d') \<Rightarrow> (None, d'))"
| "db_perform (CallReadInt T) d = (case db_readInt T d of (Inl e, d') \<Rightarrow> (Some e, d') | (Inr _, d') \<Rightarrow> (None, d'))"
| "db_perform CallReadText d = (case db_readText d of (Inl e, d') \<Rightarrow> (Some e, d') | (Inr _, d') \<Rightarrow> (None, d'))"
| "db_perform (CallSetSizeChecked sz) d =
     (case db_setSizeChecked sz d of (Inl e, d') \<Rightarrow> (Some e, d') | (Inr _, d') \<Rightarrow> (None, d'))"
| "db_perform (CallSetOffset1Checked sz) d =
     (case db_setOffset1Checked sz d of (Inl e, d') \<Rightarrow> (Some e, d') | (Inr _, d') \<Rightarrow> (None, d'))"
| "db_perform CallReset d = (None, snd (db_reset d))"

text \<open>A run of calls that goes on after exceptions, with the exceptions.\<close>

fun db_run :: "db_call list \<Rightarrow> data_block \<Rightarrow> exc list \<times> data_block" where
  "db_run [] d = ([], d)"
| "db_run (c # cs) d =
     (let (e, d1) = db_perform c d; (es, d2) = db_run cs d1
      in ((case e of None \<Rightarrow> es | Some x \<Rightarrow> x # es), d2))"

fun call_fits :: "data_block \<Rightarrow> db_call \<Rightarrow> bool" where
  "call_fits d (CallWrite data) = coexist d (length data)"
| "call_fits d (CallWriteInt T v) = coexist d (it_sizeof T)"
| "call_fits d (CallWriteText t) = coexist d (length t + 4)"
| "call_fits d (CallRead n) = (n < 2 ^ 64)"
| "call_fits d (CallReadInt T) = (it_sizeof T < 2 ^ 64)"
| "call_fits d _ = True"

lemma perform_safe:
  assumes "wf_block d" "call_fits d c"
  shows "wf_block (snd (db_perform c d)) \<and> db_capacity (snd (db_perform c d)) = db_capacity d
     \<and> (case fst (db_perform c d) of None \<Rightarrow> True | Some e \<Rightarrow> e = BufferTooSmall \<or> e = NumberCoerce)"
proof (cases c)
  case (CallWrite data)
  with write_queue [OF assms(1), of data] assms show ?thesis by (auto split: if_splits)
next
  case (CallWriteInt T v)
  with writeInt_queue [OF assms(1), of T v] assms show ?thesis by (auto split: if_splits)
next
  case (CallWriteText t)
  with writeText_queue [OF assms(1), of t] assms show ?thesis by (auto split: if_splits)
next
  case (CallRead n)
  with read_queue [OF assms(1), of n] advance(1) [OF assms(1), of n] assms show ?thesis by (auto split: if_splits)
next
  case (CallReadInt T)
  with readInt_queue [OF assms(1), of T] advance(1) [OF assms(1), of "it_sizeof T"] assms show ?thesis
    by (auto split: if_splits)
next
  case CallReadText
  let ?n = "static_cast std_int32 (bytes_int (take 4 (rest d)))"
  have "wf_block (d\<lparr>db_offset1 := db_offset1 d + 4\<rparr>)" if "4 \<le> length (rest d)"
    using advance(1) [OF assms(1) that] by simp
  moreover have "wf_block (d\<lparr>db_offset1 := db_offset1 d + of_nat (4 + nat ?n)\<rparr>)"
    if "4 \<le> length (rest d)" "?n \<le> int (length (rest d)) - 4"
    using that by (intro advance(1) [OF assms(1)]) linarith
  ultimately show ?thesis
    using CallReadText readText_queue [OF assms(1)] assms(1) by (auto simp: Let_def not_less split: if_splits)
next
  case (CallSetSizeChecked sz)
  with assms show ?thesis by (auto simp: db_setSizeChecked_def wf_block_def)
next
  case (CallSetOffset1Checked sz)
  with assms show ?thesis by (auto simp: db_setOffset1Checked_def wf_block_def)
next
  case CallReset
  with assms show ?thesis by (auto simp: db_reset_def wf_block_def)
qed

text \<open>
  C14 Whatever is written to a block and whatever it holds, no sequence of checked calls reads or writes
  outside of the buffer or breaks the order of the positions: the only exceptions are those for a
  buffer that is too small and a text that is too long.
\<close>

theorem db_memory_safe:
  assumes "wf_block d" "list_all (call_fits d) cs" "db_run cs d = (es, d')"
  shows "wf_block d' \<and> db_capacity d' = db_capacity d \<and> set es \<subseteq> {BufferTooSmall, NumberCoerce}"
  using assms
proof (induction cs arbitrary: d es d')
  case (Cons c cs)
  let ?d = "snd (db_perform c d)"
  define es2 where "es2 = fst (db_run cs ?d)"
  have r: "db_run cs ?d = (es2, d')"
    "es = (case fst (db_perform c d) of None \<Rightarrow> es2 | Some x \<Rightarrow> x # es2)"
    using Cons.prems(3) by (auto simp: es2_def case_prod_beta Let_def split: option.splits)
  have p: "wf_block ?d" "db_capacity ?d = db_capacity d"
    "case fst (db_perform c d) of None \<Rightarrow> True | Some e \<Rightarrow> e = BufferTooSmall \<or> e = NumberCoerce"
    using perform_safe [of d c] Cons.prems by simp_all
  have "call_fits ?d x = call_fits d x" for x
    using p(2) by (cases x) (simp_all add: coexist_def capacity_def)
  then have "list_all (call_fits ?d) cs" using Cons.prems(2) by (simp add: list_all_iff)
  from Cons.IH [OF p(1) this r(1)] p r(2) show ?case by (auto split: option.splits)
qed simp

lemma db_memory_safe_witness:
  "wf_block (snd (db_run [CallWriteInt std_int32 (-1), CallReadText, CallRead 9] (snd (db_reset (new_block (\<lambda>_. 7) 16)))))"
proof -
  let ?d = "snd (db_reset (new_block (\<lambda>_. 7) 16))"
  let ?cs = "[CallWriteInt std_int32 (-1), CallReadText, CallRead 9]"
  have "wf_block ?d" "list_all (call_fits ?d) ?cs"
    by (simp_all add: db_reset_def new_block_def new_chars_def wf_block_def calculateCapacity_def coexist_def capacity_def
        std_int32_def)
  then show ?thesis using db_memory_safe [of ?d ?cs "fst (db_run ?cs ?d)" "snd (db_run ?cs ?d)"] by simp
qed

section \<open>Growing\<close>

lemma aligned:
  assumes "isPowerOfTwo alignment" "alignedOfDefault x alignment = Inr y"
  shows "x \<le> y"
  using assms by (auto simp: alignedOfDefault_def bindR_eq_Inr Let_def)

text \<open>
  Asking for room keeps the contents and the positions and, when the sum of the size and the room
  does not exceed 64 bits, leaves that much room.  When the sum wraps to a value below the capacity,
  the call returns normally although the block has not grown.
\<close>

theorem db_ensure_room:
  assumes "wf_block d" "writeEnsureAvailable junk sz alignment d = (Inr (), d')"
  shows "wf_block d' \<and> db_bytes d' = db_bytes d \<and> db_size d' = db_size d \<and> db_offset1 d' = db_offset1 d
     \<and> (if unat (db_size d) + unat sz < 2 ^ 64 then unat (db_size d') + unat sz \<le> capacity d'
        else db_size d + sz \<le> db_capacity d \<longrightarrow> d' = d \<and> unat (db_size d') + unat sz > capacity d')"
proof (cases "db_size d + sz > db_capacity d")
  case False
  then have d': "d' = d" using assms(2) by (simp add: writeEnsureAvailable_def)
  have "unat (db_size d + sz) \<le> capacity d" using False by (simp add: word_le_nat_alt capacity_def not_less)
  with d' assms(1) wf_lengths(3) [OF assms(1)] show ?thesis using unat_plus [of "db_size d" sz] by auto
next
  case True
  let ?al = "if alignment \<noteq> 0 then alignment else DATA_BLOCK_ALIGNMENT_DEFAULT"
  obtain cap old new where c: "alignedOfDefault (db_size d + sz) ?al = Inr cap"
    "copyFrom 0 (unat (db_size d)) (db_data d) = Inr old" "copyTo 0 old (new_chars junk cap) = Inr new"
    "d' = d\<lparr>db_data := new, db_capacity := cap\<rparr>"
    using True assms(2) by (auto simp: writeEnsureAvailable_def bindR_eq_Inr split: sum.splits)
  have al: "db_size d + sz \<le> cap" using c(1) by (auto simp: alignedOfDefault_def bindR_eq_Inr Let_def)
  have sc: "db_size d \<le> cap" using assms(1) True al by (auto simp: wf_block_def)
  have old: "old = db_bytes d" using c(2) by (simp add: copyFrom_def db_bytes_def split: if_splits)
  have len: "length (new_chars junk cap) = unat cap" "length old = unat (db_size d)"
    using wf_lengths(1) [OF assms(1)] by (simp_all add: new_chars_def old)
  then have new: "new = old @ drop (length old) (new_chars junk cap)" "length new = unat cap"
    using c(3) sc by (auto simp: copyTo_def word_le_nat_alt split: if_splits)
  have "wf_block d'" "db_bytes d' = db_bytes d" "db_size d' = db_size d" "db_offset1 d' = db_offset1 d"
    using assms(1) c(4) new len sc by (simp_all add: wf_block_def db_bytes_def old)
  moreover have "unat (db_size d') + unat sz \<le> capacity d'" if "unat (db_size d) + unat sz < 2 ^ 64"
    using al unat_plus [OF that] c(4) by (simp add: capacity_def word_le_nat_alt)
  ultimately show ?thesis using True by auto
qed

lemma db_ensure_room_witness:
  "\<exists>d'. writeEnsureAvailable (\<lambda>_. 0) 5 0 (new_block (\<lambda>_. 7) 16) = (Inr (), d') \<and> 21 \<le> capacity d'"
proof -
  let ?d = "new_block (\<lambda>_. 7) 16"
  have w: "wf_block ?d" "unat (db_size ?d) = 16"
    by (simp_all add: new_block_def new_chars_def wf_block_def calculateCapacity_def)
  have "alignedOfDefault 21 4096 = Inr 4096"
    by (simp add: alignedOfDefault_def isPowerOfTwo_def Let_def)
  then obtain d' where e: "writeEnsureAvailable (\<lambda>_. 0) 5 0 ?d = (Inr (), d')"
    by (simp add: writeEnsureAvailable_def new_block_def calculateCapacity_def new_chars_def copyFrom_def copyTo_def
        DATA_BLOCK_ALIGNMENT_DEFAULT_def)
  have "db_size d' = db_size ?d" "unat (db_size ?d) + 5 \<le> capacity d'"
    using db_ensure_room [OF w(1) e] by (auto simp: w(2))
  with e w(2) show ?thesis by auto
qed

section \<open>Pooled copies\<close>

interpretation blocks: freed_checker block_checker "\<lambda>b store. db_freed (store b)"
  by (rule intrusive_contract) (simp add: db_setFreed_def)

text \<open>The store behind a pool: its free blocks are well formed and marked.\<close>

definition pool_ok :: "nat simple_pool option \<Rightarrow> block_store \<Rightarrow> bool" where
  "pool_ok p store \<longleftrightarrow> (case p of None \<Rightarrow> True
     | Some pool \<Rightarrow> blocks.wf_pool pool store \<and> list_all (\<lambda>b. wf_block (store b)) (m_impl pool))"

definition pooled :: "nat simple_pool option \<Rightarrow> nat list" where
  "pooled p = (case p of None \<Rightarrow> [] | Some pool \<Rightarrow> m_impl pool)"

lemma get_pooled:
  assumes "pool_ok p store" "pooled p = bs @ [b]"
  obtains p' d where "db_get junk newId p cap store = Inr (b, p', store(b := d))" "pool_ok p' (store(b := d))"
    "pooled p' = bs" "wf_block d" "db_capacity d = db_capacity (store b)" "db_bytes d = []" "db_offset1 d = 0"
    "\<not> db_freed d"
proof -
  obtain pool where p: "p = Some pool" "m_impl pool = bs @ [b]"
    using assms(2) by (cases p) (auto simp: pooled_def)
  have w: "blocks.wf_pool pool store" "list_all (\<lambda>b. wf_block (store b)) (bs @ [b])"
    using assms(1) p by (auto simp: pool_ok_def)
  then have f: "db_freed (store b)" "wf_block (store b)" "b \<notin> set bs" "distinct bs"
    using p(2) by (auto simp: blocks.wf_pool_def)
  define d where "d = (store b)\<lparr>db_freed := False, db_offset1 := 0, db_size := 0\<rparr>"
  define pool' where "pool' = pool\<lparr>m_impl := bs\<rparr>"
  have "db_get junk newId p cap store = Inr (b, Some pool', store(b := d))"
    using f(1) by (simp add: db_get_def p tryGet_def Let_def intrusive_checker_def intrusive_markAllocated_def
        db_setFreed_def bindS_def db_setOffset1_def db_setSize_def d_def pool'_def)
  moreover have "pool_ok (Some pool') (store(b := d))"
    using w f p(2) by (auto simp: pool_ok_def blocks.wf_pool_def pool'_def d_def list_all_iff)
  moreover have "wf_block d" using f(2) by (simp add: d_def wf_block_def)
  ultimately show thesis
    by (intro that [of "Some pool'" d]) (simp_all add: pooled_def pool'_def d_def db_bytes_def)
qed

lemma get_new:
  assumes "pool_ok p store" "pooled p = []" "\<not> db_freed (store newId)"
  obtains d where "db_get junk newId p cap store = Inr (newId, p, store(newId := d))" "pool_ok p (store(newId := d))"
    "wf_block d" "db_capacity d = calculateCapacity cap" "db_bytes d = []" "db_offset1 d = 0" "\<not> db_freed d"
proof -
  define d where "d = (new_block junk cap)\<lparr>db_size := 0\<rparr>"
  have "db_get junk newId p cap store = Inr (newId, p, store(newId := d))"
    using assms(2) by (cases p)
      (simp_all add: pooled_def db_get_def tryGet_def Let_def bindS_def db_setOffset1_def db_setSize_def d_def new_block_def)
  moreover have "pool_ok p (store(newId := d))"
    using assms by (auto simp: pool_ok_def pooled_def blocks.wf_pool_def d_def new_block_def list_all_iff split: option.splits)
  moreover have "wf_block d" by (simp add: d_def wf_block_def new_block_def new_chars_def)
  ultimately show thesis
    by (intro that [of d]) (simp_all add: d_def new_block_def db_bytes_def)
qed

text \<open>What writing the contents of a block into a fresh one and setting the read position does.\<close>

lemma fill_block:
  assumes "wf_block src" "wf_block d" "db_bytes d = []" "coexist d (capacity src)"
  shows "if length (db_bytes src) \<le> capacity d
     then \<exists>d' d''. db_write (db_bytes src) d = (Inr (), d') \<and> db_setOffset1 (db_offset1 src) d' = (Inr (), d'')
       \<and> wf_block d'' \<and> db_bytes d'' = db_bytes src \<and> db_offset1 d'' = db_offset1 src \<and> db_freed d'' = db_freed d
     else db_write (db_bytes src) d = (Inl BufferTooSmall, d)"
proof -
  note l = wf_lengths [OF assms(1)]
  have co: "coexist d (length (db_bytes src))" using assms(4) l by (simp add: coexist_def)
  show ?thesis
  proof (cases "length (db_bytes src) \<le> capacity d")
    case True
    then obtain d' where d': "db_write (db_bytes src) d = (Inr (), d')" "wf_block d'" "db_bytes d' = db_bytes src"
      "db_freed d' = db_freed d"
      using write_queue [OF assms(2) co] assms(3) by auto
    have "unat (db_size d') = unat (db_size src)"
      using wf_lengths(1) [OF d'(2)] d'(3) l(1) by simp
    then have "db_offset1 src \<le> db_size d'" using l(4) by (simp add: word_le_nat_alt)
    then have "db_setOffset1 (db_offset1 src) d' = (Inr (), d'\<lparr>db_offset1 := db_offset1 src\<rparr>)"
      "wf_block (d'\<lparr>db_offset1 := db_offset1 src\<rparr>)"
      using d'(2) by (simp_all add: db_setOffset1_def wf_block_def)
    with d' True show ?thesis by (simp add: db_bytes_def)
  next
    case False
    with write_queue [OF assms(2) co] assms(3) show ?thesis by simp
  qed
qed

text \<open>
  A copy of a block, taken from the pool or allocated, has the contents and the read position of the
  original, is another block, no longer in the pool and not marked, and the original and the pool are
  left in order; copying fails, with the exception for a small buffer, exactly when the block the pool
  hands out has a capacity below the size of the original.
\<close>

theorem db_copy_correct:
  assumes "pool_ok p store" "wf_block (store block)" "\<not> db_freed (store block)" "\<not> db_freed (store newId)"
    "newId \<noteq> block" "list_all (\<lambda>b. coexist (store b) (capacity (store block))) (pooled p)" "capacity (store block) < 2 ^ 62"
  shows "case db_copy junk newId block p store of
       Inl e \<Rightarrow> e = BufferTooSmall \<and> pooled p \<noteq> [] \<and> capacity (store (last (pooled p))) < length (db_bytes (store block))
     | Inr (b, p', store') \<Rightarrow> b \<noteq> block \<and> store' block = store block \<and> pool_ok p' store' \<and> b \<notin> set (pooled p')
         \<and> b = (if pooled p = [] then newId else last (pooled p)) \<and> wf_block (store' b) \<and> \<not> db_freed (store' b)
         \<and> db_bytes (store' b) = db_bytes (store block) \<and> db_offset1 (store' b) = db_offset1 (store block)"
proof -
  let ?src = "store block"
  note l = wf_lengths [OF assms(2)]
  obtain b p' d where g: "db_get junk newId p (db_capacity ?src) store = Inr (b, p', store(b := d))"
    "pool_ok p' (store(b := d))" "wf_block d" "db_bytes d = []" "\<not> db_freed d" "b \<noteq> block" "coexist d (capacity ?src)"
    "b = (if pooled p = [] then newId else last (pooled p))"
    "capacity d < length (db_bytes ?src) \<longrightarrow> pooled p \<noteq> [] \<and> capacity (store (last (pooled p))) < length (db_bytes ?src)"
  proof (cases "pooled p" rule: rev_cases)
    case Nil
    obtain d where d: "db_get junk newId p (db_capacity ?src) store = Inr (newId, p, store(newId := d))"
      "pool_ok p (store(newId := d))" "wf_block d" "db_capacity d = calculateCapacity (db_capacity ?src)"
      "db_bytes d = []" "db_offset1 d = 0" "\<not> db_freed d"
      by (rule get_new [OF assms(1) Nil assms(4), of junk "db_capacity ?src"])
    have "capacity ?src \<le> capacity d" "capacity d < 2 ^ 63"
      using d(4) assms(7) by (auto simp: capacity_def calculateCapacity_def g_BlockCapacityDefault_def)
    with d Nil assms(5,7) l show thesis by (intro that [of newId p d]) (auto simp: coexist_def)
  next
    case (snoc bs b)
    obtain p' d where d: "db_get junk newId p (db_capacity ?src) store = Inr (b, p', store(b := d))"
      "pool_ok p' (store(b := d))" "pooled p' = bs" "wf_block d" "db_capacity d = db_capacity (store b)" "db_bytes d = []"
      "db_offset1 d = 0" "\<not> db_freed d"
      by (rule get_pooled [OF assms(1) snoc, of junk newId "db_capacity ?src"])
    have "db_freed (store b)" using assms(1) snoc by (auto simp: pool_ok_def pooled_def blocks.wf_pool_def split: option.splits)
    then have "b \<noteq> block" using assms(3) by auto
    moreover have "coexist d (capacity ?src)" using assms(6) snoc d(5) by (simp add: coexist_def capacity_def)
    ultimately show thesis using d snoc by (intro that [of b p' d]) (auto simp: capacity_def)
  qed
  note f = fill_block [OF assms(2) g(3,4,7)]
  show ?thesis
  proof (cases "length (db_bytes ?src) \<le> capacity d")
    case True
    then obtain d' d'' where w: "db_write (db_bytes ?src) d = (Inr (), d')" "db_setOffset1 (db_offset1 ?src) d' = (Inr (), d'')"
      "wf_block d''" "db_bytes d'' = db_bytes ?src" "db_offset1 d'' = db_offset1 ?src" "db_freed d'' = db_freed d"
      using f by auto
    have "db_copy junk newId block p store = Inr (b, p', store(b := d''))"
      using g(1,6) w by (simp add: db_copy_def db_copyBytes_def)
    moreover have "b \<notin> set (pooled p')"
      using g(2,5) by (auto simp: pool_ok_def pooled_def blocks.wf_pool_def dest: spec [of _ b] split: option.splits)
    moreover have "pool_ok p' (store(b := d''))"
    proof -
      have "db_freed ((store(b := d'')) v) = db_freed ((store(b := d)) v)"
        "wf_block ((store(b := d)) v) \<Longrightarrow> wf_block ((store(b := d'')) v)" for v
        using w(3,6) by (simp_all split: if_splits)
      with g(2) show ?thesis
        by (auto simp: pool_ok_def blocks.wf_pool_def list_all_iff simp del: fun_upd_apply split: option.splits)
    qed
    ultimately show ?thesis using g(5,6,8) w by simp
  next
    case False
    with f g(1) have "db_copy junk newId block p store = Inl BufferTooSmall"
      by (simp add: db_copy_def db_copyBytes_def)
    with False g(9) show ?thesis by simp
  qed
qed

lemma db_copy_correct_witness:
  "db_copy (\<lambda>_. 0) 2 1 None (\<lambda>_. new_block (\<lambda>_. 7) 16) \<noteq> Inl BufferTooSmall"
proof -
  let ?store = "\<lambda>_::nat. new_block (\<lambda>_. 7) 16"
  have "pool_ok None ?store" "wf_block (?store 1)" "\<not> db_freed (?store 1)" "pooled None = []" "capacity (?store 1) < 2 ^ 62"
    by (simp_all add: pool_ok_def pooled_def wf_block_def new_block_def new_chars_def calculateCapacity_def capacity_def)
  with db_copy_correct [of None ?store 1 2 "\<lambda>_. 0"] show ?thesis
    by (auto split: sum.splits)
qed

end
