(* ===== verification/Template.thy ===== *)
theory Template
  imports Prelude
begin

text \<open>
  The string templates of \<open>core/StringTemplateResolver.h\<close>: the text is parsed once into markers, which
  are positions in it, and resolved against a map of variables.  Iterators are positions.
\<close>

section \<open>Parsing\<close>

text \<open>The name (empty for a block separator), the begin and the end of the marker, and whether its text is copied.\<close>

type_synonym marker_info = "string \<times> nat \<times> nat \<times> bool"

definition g_varBegin :: string where "g_varBegin = ''{{''"
definition g_varEnd :: string where "g_varEnd = ''}}''"

text \<open>\<open>std::search\<close> and \<open>std::find\<close> in a range of the text; the end of the range when there is none.\<close>

definition search_range :: "string \<Rightarrow> nat \<Rightarrow> nat \<Rightarrow> string \<Rightarrow> nat" where
  "search_range pat lo hi s =
     (case find_sub_from pat lo (take hi s) of Some p \<Rightarrow> p | None \<Rightarrow> hi)"

definition find_range :: "char \<Rightarrow> nat \<Rightarrow> string \<Rightarrow> nat" where
  "find_range c lo s = (case find_char_from c lo s of Some p \<Rightarrow> p | None \<Rightarrow> length s)"

definition range_text :: "nat \<Rightarrow> nat \<Rightarrow> string \<Rightarrow> string" where
  "range_text lo hi s = take (hi - lo) (drop lo s)"

lemma search_range_progress:
  assumes "pat \<noteq> []" "search_range pat lo hi s \<noteq> hi"
  shows "lo \<le> search_range pat lo hi s" "search_range pat lo hi s + length pat \<le> hi"
proof -
  obtain p where p: "find_sub pat (drop lo (take hi s)) = Some p" "search_range pat lo hi s = lo + p"
    using assms(2) by (auto simp: search_range_def find_sub_from_def split: option.splits)
  have "p + length pat \<le> min hi (length s) - lo" using find_sub_bound [OF p(1)] by (simp add: min.commute)
  moreover have "0 < length pat" using assms(1) by simp
  ultimately show "lo \<le> search_range pat lo hi s" "search_range pat lo hi s + length pat \<le> hi"
    using p(2) by linarith+
qed

text \<open>The inner loop, over one line: the markers and the begin of the next line.\<close>

function parseLine ::
  "string \<Rightarrow> nat \<Rightarrow> nat \<Rightarrow> marker_info list \<Rightarrow> (marker_info list \<times> nat) res" where
  "parseLine templateText blockPosEnd pos0 markers =
     (let pos = search_range g_varBegin pos0 blockPosEnd templateText in
      if pos = blockPosEnd then
        (if blockPosEnd \<noteq> length templateText
         then Inr (markers @ [([], blockPosEnd, blockPosEnd + 1, True)], blockPosEnd + 1)
         else Inr (markers, length templateText))
      else
        let namePosBegin = pos + length g_varBegin;
            namePosEnd = search_range g_varEnd namePosBegin blockPosEnd templateText
        in if namePosEnd = blockPosEnd then Inl (InvalidDataFormat ''template'' ''variable end'')
           else let newPos = namePosEnd + length g_varEnd in
             parseLine templateText blockPosEnd newPos
               (markers @ [(range_text namePosBegin namePosEnd templateText, pos, newPos, namePosBegin \<noteq> namePosEnd)]))"
  by pat_completeness auto
termination
proof (relation "measure (\<lambda>(templateText, blockPosEnd, pos0, markers). blockPosEnd - pos0)", goal_cases)
  case (2 t e p ms x y z w)
  have "g_varBegin \<noteq> []" "g_varEnd \<noteq> []" by (simp_all add: g_varBegin_def g_varEnd_def)
  with 2 search_range_progress [of g_varBegin p e t] search_range_progress [of g_varEnd y e t] show ?case
    by (auto simp: g_varEnd_def)
qed simp

declare parseLine.simps [simp del]

lemma parseLine_next:
  "parseLine t e p ms = Inr (ms', nxt) \<Longrightarrow> nxt = (if e \<noteq> length t then e + 1 else length t)"
proof (induction t e p ms rule: parseLine.induct)
  case (1 t e p ms)
  then show ?case by (subst (asm) (2) parseLine.simps) (auto simp: Let_def split: if_splits)
qed

lemma find_range_bounds: "lo \<le> length s \<Longrightarrow> lo \<le> find_range c lo s \<and> find_range c lo s \<le> length s"
  by (auto simp: find_range_def find_char_from_def dest: find_char_SomeD split: option.splits)

text \<open>The outer loop, over the lines.\<close>

function parseLoop :: "string \<Rightarrow> nat \<Rightarrow> marker_info list \<Rightarrow> marker_info list res" where
  "parseLoop templateText blockPosBegin markers =
     (if blockPosBegin \<ge> length templateText then Inr markers
      else let blockPosEnd = find_range CHR 0x0A blockPosBegin templateText in
        case parseLine templateText blockPosEnd blockPosBegin markers of
          Inl e \<Rightarrow> Inl e
        | Inr (markers', next) \<Rightarrow> parseLoop templateText next markers')"
  by pat_completeness auto
termination
proof (relation "measure (\<lambda>(templateText, b, markers). length templateText - b)", goal_cases)
  case (2 t b ms e r ms' nxt)
  then have "nxt = (if e \<noteq> length t then e + 1 else length t)" using parseLine_next by metis
  moreover have "b \<le> e" "e \<le> length t" using 2(1,2) find_range_bounds [of b t "CHR 0x0A"] by auto
  ultimately show ?case using 2(1) by (cases "e = length t") auto
qed simp

declare parseLoop.simps [simp del]

definition parseTemplate :: "string \<Rightarrow> marker_info list res" where
  "parseTemplate templateText = parseLoop templateText 0 []"

record template_resolver =
  tr_templateText :: string
  tr_skipUndefined :: bool
  tr_markers :: "marker_info list"

definition new_resolver :: "string \<Rightarrow> bool \<Rightarrow> template_resolver res" where
  "new_resolver templateText skipUndefined =
     bindR (parseTemplate templateText)
       (\<lambda>markers. Inr \<lparr>tr_templateText = templateText, tr_skipUndefined = skipUndefined, tr_markers = markers\<rparr>)"

section \<open>Resolving\<close>

lemma dropWhile_shorter: "dropWhile p zs = y # ys \<Longrightarrow> length ys < length zs"
  by (metis length_Cons length_dropWhile_le less_eq_Suc_le)

text \<open>The loop; its state is the rest of the markers, the position, the result and the current block.\<close>

function resolveLoop ::
  "template_resolver \<Rightarrow> (string \<Rightarrow> string option) \<Rightarrow> (string \<Rightarrow> string \<Rightarrow> string) option \<Rightarrow> marker_info list \<Rightarrow> nat
     \<Rightarrow> string \<Rightarrow> string \<Rightarrow> string res" where
  "resolveLoop r variables escaper [] pos result block =
     (let result1 = result @ block in
      Inr (if pos \<noteq> length (tr_templateText r) then result1 @ drop pos (tr_templateText r) else result1))"
| "resolveLoop r variables escaper ((name, posBegin, posEnd, copyData) # markers) pos result block =
     (let block1 = (if pos \<noteq> posBegin then block @ range_text pos posBegin (tr_templateText r) else block) in
      if name = [] then
        (let block2 = (if copyData then block1 @ range_text posBegin posEnd (tr_templateText r) else block1)
         in resolveLoop r variables escaper markers posEnd (result @ block2) [])
      else case variables name of
        Some value \<Rightarrow>
          resolveLoop r variables escaper markers posEnd result
            (block1 @ (case escaper of Some f \<Rightarrow> f name value | None \<Rightarrow> value))
      | None \<Rightarrow>
          (if \<not> tr_skipUndefined r then Inl NotFoundExc
           else case dropWhile (\<lambda>m. fst m \<noteq> []) ((name, posBegin, posEnd, copyData) # markers) of
               [] \<Rightarrow> resolveLoop r variables escaper [] (length (tr_templateText r)) result []
             | (name2, posBegin2, posEnd2, copyData2) # markers2 \<Rightarrow>
                 resolveLoop r variables escaper markers2 posEnd2 result []))"
  by pat_completeness auto
termination
  by (relation "measure (\<lambda>(r, variables, escaper, ms, pos, result, block). length ms)")
    (auto simp del: dropWhile.simps dest!: dropWhile_shorter)

definition template_resolve ::
  "(string \<Rightarrow> string option) \<Rightarrow> (string \<Rightarrow> string \<Rightarrow> string) option \<Rightarrow> template_resolver \<Rightarrow> string res" where
  "template_resolve variables escaper r = resolveLoop r variables escaper (tr_markers r) 0 [] []"

end
