(* ===== verification/TemplateProps.thy ===== *)
theory TemplateProps
  imports Template
begin

text \<open>
  The properties of string templates: parsing and resolving are described by a reading of the text as
  a list of characters, variables and separators, cut into blocks after each separator.
\<close>

section \<open>The reference reading of a template\<close>

datatype tok = Chr char | Var string | Sep string

function toks :: "string \<Rightarrow> tok list option" where
  "toks [] = Some []"
| "toks (c # cs) =
     (if c = CHR 0x0A then map_option ((#) (Sep [CHR 0x0A])) (toks cs)
      else if prefix ''{{'' (c # cs) then
        (let line = takeWhile (\<lambda>x. x \<noteq> CHR 0x0A) (drop 2 (c # cs)) in
         case find_sub ''}}'' line of
           None \<Rightarrow> None
         | Some n \<Rightarrow> map_option ((#) (if n = 0 then Sep [] else Var (take n line))) (toks (drop (n + 4) (c # cs))))
      else map_option ((#) (Chr c)) (toks cs))"
  by pat_completeness auto
termination by (relation "measure length") auto

declare toks.simps(2) [simp del]

lemma toks_chr: "c \<noteq> CHR 0x0A \<Longrightarrow> \<not> prefix ''{{'' (c # cs) \<Longrightarrow> toks (c # cs) = map_option ((#) (Chr c)) (toks cs)"
  by (simp only: toks.simps(2) if_False)

lemma toks_nl: "toks (CHR 0x0A # cs) = map_option ((#) (Sep [CHR 0x0A])) (toks cs)"
  by (simp add: toks.simps(2))

lemma toks_open:
  "toks (CHR ''{'' # CHR ''{'' # v) = (let line = takeWhile (\<lambda>x. x \<noteq> CHR 0x0A) v in
     case find_sub ''}}'' line of None \<Rightarrow> None
     | Some n \<Rightarrow> map_option ((#) (if n = 0 then Sep [] else Var (take n line))) (toks (drop (n + 2) v)))"
proof -
  have "drop (n + 4) (CHR ''{'' # CHR ''{'' # v) = drop (n + 2) v" for n by (simp add: drop_Cons')
  then show ?thesis by (simp add: toks.simps(2) cong: option.case_cong)
qed

lemma toks_skip:
  "CHR 0x0A \<notin> set u \<Longrightarrow> (\<And>i. i < length u \<Longrightarrow> \<not> prefix ''{{'' (drop i (u @ w))) \<Longrightarrow>
     toks (u @ w) = map_option ((@) (map Chr u)) (toks w)"
proof (induction u)
  case (Cons c u)
  have n: "\<not> prefix ''{{'' (drop i (u @ w))" if "i < length u" for i using Cons.prems(2) [of "Suc i"] that by simp
  have "\<not> prefix ''{{'' (c # u @ w)" using Cons.prems(2) [of 0] by simp
  moreover have "c \<noteq> CHR 0x0A" using Cons.prems(1) by auto
  ultimately have "toks (c # u @ w) = map_option ((#) (Chr c)) (toks (u @ w))" by (intro toks_chr)
  moreover have "toks (u @ w) = map_option ((@) (map Chr u)) (toks w)"
    using Cons.IH [OF _ n] Cons.prems(1) by auto
  ultimately show ?case by (simp add: option.map_comp comp_def)
next
  case Nil
  then show ?case by (cases "toks w") simp_all
qed

lemma find_sub_None: "find_sub p s = None \<longleftrightarrow> (\<forall>i \<le> length s. \<not> prefix p (drop i s))"
proof (induction s)
  case (Cons x xs)
  have "(\<forall>i \<le> length (x # xs). \<not> prefix p (drop i (x # xs)))
      \<longleftrightarrow> \<not> prefix p (x # xs) \<and> (\<forall>i \<le> length xs. \<not> prefix p (drop i xs))"
    by (metis drop0 drop_Suc_Cons le0 length_Cons not0_implies_Suc Suc_le_mono)
  with Cons.IH show ?case by simp
qed simp

text \<open>The text of a line is followed by nothing or by a new line.\<close>

definition line_end :: "string \<Rightarrow> bool" where
  "line_end w \<longleftrightarrow> w = [] \<or> hd w = CHR 0x0A"

lemma no_straddle:
  assumes "line_end w" "i < length u" "prefix ''{{'' (drop i (u @ w))"
  shows "prefix ''{{'' (drop i u)"
proof -
  obtain a v where "drop i u = a # v" using assms(2) by (cases "drop i u") auto
  with assms show ?thesis
    by (cases v; cases w) (auto simp: line_end_def)
qed

lemma toks_plain:
  assumes "CHR 0x0A \<notin> set u" "line_end w" "find_sub ''{{'' u = None"
  shows "toks (u @ w) = map_option ((@) (map Chr u)) (toks w)"
proof (rule toks_skip [OF assms(1)])
  fix i assume "i < length u"
  then show "\<not> prefix ''{{'' (drop i (u @ w))"
    using assms(3) no_straddle [OF assms(2), of i u] by (auto simp: find_sub_None)
qed

lemma takeWhile_line: "CHR 0x0A \<notin> set u \<Longrightarrow> line_end w \<Longrightarrow> takeWhile (\<lambda>x. x \<noteq> CHR 0x0A) (u @ w) = u"
  by (induction u) (cases w; auto simp: line_end_def)+

lemma toks_marker:
  assumes "CHR 0x0A \<notin> set u" "line_end w" "find_sub ''{{'' u = Some p"
  shows "toks (u @ w) = (case find_sub ''}}'' (drop (p + 2) u) of
       None \<Rightarrow> None
     | Some n \<Rightarrow> map_option ((@) (map Chr (take p u) @ [if n = 0 then Sep [] else Var (take n (drop (p + 2) u))]))
         (toks (drop (p + n + 4) u @ w)))"
proof -
  have p: "p + 2 \<le> length u" using find_sub_bound [OF assms(3)] by simp
  have pr: "prefix ''{{'' (drop p u)" "\<And>i. i < p \<Longrightarrow> \<not> prefix ''{{'' (drop i u)"
    using assms(3) by (auto simp: find_sub_Some)
  obtain v where v: "drop p u = CHR ''{'' # CHR ''{'' # v" using pr(1) by (auto elim!: prefixE)
  have "drop 2 (drop p u) = v" using v by simp
  then have dv: "drop (p + 2) u = v" by (simp add: add.commute)
  have "set v \<subseteq> set u" unfolding dv [symmetric] by (rule set_drop_subset)
  then have nl: "CHR 0x0A \<notin> set v" using assms(1) by blast
  have "toks (take p u @ (drop p u @ w)) = map_option ((@) (map Chr (take p u))) (toks (drop p u @ w))"
  proof (rule toks_skip)
    show "CHR 0x0A \<notin> set (take p u)" using assms(1) by (auto dest: in_set_takeD)
  next
    fix i assume "i < length (take p u)"
    then have "i < p" "i < length u" by simp_all
    then have "\<not> prefix ''{{'' (drop i (u @ w))" using pr(2) no_straddle [OF assms(2)] by blast
    then show "\<not> prefix ''{{'' (drop i (take p u @ drop p u @ w))"
      by (simp only: append_assoc [symmetric] append_take_drop_id not_False_eq_True)
  qed
  then have 1: "toks (u @ w) = map_option ((@) (map Chr (take p u))) (toks (drop p u @ w))"
    by (simp flip: append_assoc)
  have 2: "toks (drop p u @ w) = (case find_sub ''}}'' v of None \<Rightarrow> None
      | Some n \<Rightarrow> map_option ((#) (if n = 0 then Sep [] else Var (take n v))) (toks (drop (n + 2) (v @ w))))"
    using takeWhile_line [OF nl assms(2)] by (simp add: v toks_open Let_def)
  have 3: "drop (n + 2) (v @ w) = drop (p + n + 4) u @ w" if "find_sub ''}}'' v = Some n" for n
  proof -
    have "drop (n + 2) v = drop (p + n + 4) u"
      unfolding dv [symmetric] drop_drop by (rule arg_cong [of _ _ "\<lambda>k. drop k u"]) simp
    then show ?thesis using find_sub_bound [OF that] by simp
  qed
  show ?thesis
  proof (cases "find_sub ''}}'' v")
    case None
    with 1 2 dv show ?thesis by simp
  next
    case (Some n)
    then have "toks (u @ w) = map_option ((@) (map Chr (take p u) @ [if n = 0 then Sep [] else Var (take n v)]))
        (toks (drop (p + n + 4) u @ w))"
      unfolding 1 2 by (cases "toks (drop (p + n + 4) u @ w)") (simp_all only: option.case 3 [OF Some] option.map, simp_all)
    with Some dv show ?thesis by (simp only: option.case)
  qed
qed

section \<open>What the markers say\<close>

fun tokOf :: "string \<Rightarrow> nat \<Rightarrow> marker_info list \<Rightarrow> tok list" where
  "tokOf t pos [] = map Chr (drop pos t)"
| "tokOf t pos ((name, b, e, copyData) # ms) =
     map Chr (range_text pos b t)
       @ (if name = [] then Sep (if copyData then range_text b e t else []) else Var name) # tokOf t e ms"

lemma search_line:
  "E \<le> length t \<Longrightarrow> pos \<le> E \<Longrightarrow>
     search_range pat pos E t = (case find_sub pat (range_text pos E t) of Some p \<Rightarrow> pos + p | None \<Rightarrow> E)"
  by (auto simp: search_range_def find_sub_from_def range_text_def drop_take split: option.splits)

lemma parseLine_toks:
  assumes "pos \<le> E" "E \<le> length t" "CHR 0x0A \<notin> set (range_text pos E t)" "line_end (drop E t)"
  shows "case parseLine t E pos ms0 of
      Inl e \<Rightarrow> e = InvalidDataFormat ''template'' ''variable end'' \<and> toks (drop pos t) = None
    | Inr (ms', nxt) \<Rightarrow> \<exists>ms1. ms' = ms0 @ ms1 \<and>
        (if E = length t then toks (drop pos t) = Some (tokOf t pos ms1)
         else \<exists>fr. toks (drop pos t) = map_option ((@) fr) (toks (drop (E + 1) t))
                \<and> (\<forall>ms2. tokOf t pos (ms1 @ ms2) = fr @ tokOf t (E + 1) ms2))"
  using assms
proof (induction t E pos ms0 rule: parseLine.induct)
  case (1 t E pos ms0)
  let ?u = "range_text pos E t"
  note prems = "1.prems"
  have d: "drop pos t = ?u @ drop E t"
    using prems(1) by (simp add: range_text_def) (metis append_take_drop_id drop_drop le_add_diff_inverse2)
  have lu: "length ?u = E - pos" using prems(1,2) by (simp add: range_text_def)
  show ?case
  proof (cases "find_sub ''{{'' ?u")
    case None
    have s: "search_range g_varBegin pos E t = E" using prems(1,2) None by (simp add: search_line g_varBegin_def)
    have k: "toks (drop pos t) = map_option ((@) (map Chr ?u)) (toks (drop E t))"
      unfolding d by (rule toks_plain [OF prems(3,4) None])
    show ?thesis
    proof (cases "E = length t")
      case True
      then have "parseLine t E pos ms0 = Inr (ms0, length t)" using s by (subst parseLine.simps) simp
      with k True d show ?thesis by simp
    next
      case False
      then have dE: "drop E t = CHR 0x0A # drop (E + 1) t"
        using prems(2,4) by (metis Cons_nth_drop_Suc Suc_eq_plus1 drop_eq_Nil le_antisym line_end_def list.sel(1) linorder_not_le)
      have pl: "parseLine t E pos ms0 = Inr (ms0 @ [([], E, E + 1, True)], E + 1)"
        using s False by (subst parseLine.simps) simp
      have "toks (drop pos t) = map_option ((@) (map Chr ?u @ [Sep [CHR 0x0A]])) (toks (drop (E + 1) t))"
        using k by (cases "toks (drop (E + 1) t)") (simp_all add: dE toks_nl)
      moreover have "range_text E (E + 1) t = [CHR 0x0A]" using dE by (simp add: range_text_def)
      ultimately show ?thesis using pl False by auto
    qed
  next
    case (Some p)
    then have p: "p + 2 \<le> E - pos" using find_sub_bound [OF Some] lu by simp
    have s: "search_range g_varBegin pos E t = pos + p" "pos + p \<noteq> E"
      using prems(1,2) Some p by (simp_all add: search_line g_varBegin_def)
    let ?nb = "pos + p + length g_varBegin"
    have nb: "?nb = pos + p + 2" "?nb \<le> E" using p by (simp_all add: g_varBegin_def)
    have dr: "range_text (pos + n) E t = drop n ?u" "drop (pos + n) t = drop n ?u @ drop E t" if "n \<le> E - pos" for n
    proof -
      show "range_text (pos + n) E t = drop n ?u"
        by (simp add: range_text_def drop_take add.commute)
      have "drop (pos + n) t = drop n (drop pos t)" by (simp add: add.commute)
      then show "drop (pos + n) t = drop n ?u @ drop E t" using d lu that by simp
    qed
    note tm = toks_marker [OF prems(3,4) Some, folded d]
    show ?thesis
    proof (cases "find_sub ''}}'' (drop (p + 2) ?u)")
      case None
      then have "search_range g_varEnd ?nb E t = E"
        using nb prems(2) dr(1) [of "p + 2"] p by (simp add: search_line g_varEnd_def add.assoc)
      then have "parseLine t E pos ms0 = Inl (InvalidDataFormat ''template'' ''variable end'')"
        using s by (subst parseLine.simps) (simp add: Let_def)
      with tm None show ?thesis by simp
    next
      case n: (Some n)
      have n4': "p + n + 4 \<le> E - pos" using find_sub_bound [OF n] lu p by simp
      note n4 = n4'
      have se: "search_range g_varEnd ?nb E t = pos + (p + 2 + n)" "pos + (p + 2 + n) \<noteq> E"
        using n nb prems(2) dr(1) [of "p + 2"] p n4 by (simp_all add: search_line g_varEnd_def add.assoc)
      let ?np = "pos + (p + 2 + n) + length g_varEnd"
      let ?name = "take n (drop (p + 2) ?u)"
      have np: "?np = pos + (p + n + 4)" by (simp add: g_varEnd_def)
      have name: "range_text ?nb (pos + (p + 2 + n)) t = ?name"
        using dr(2) [of "p + 2"] p lu n4 nb by (simp add: range_text_def add.assoc)
      have flag: "?nb \<noteq> pos + (p + 2 + n) \<longleftrightarrow> n \<noteq> 0" using nb by simp
      have step: "parseLine t E pos ms0 = parseLine t E ?np (ms0 @ [(?name, pos + p, ?np, n \<noteq> 0)])"
        using s(2) se(2) by (subst parseLine.simps) (simp only: Let_def s(1) se(1) name flag if_False)
      have rt: "toks (drop pos t) = map_option ((@) (map Chr (take p ?u) @ [if n = 0 then Sep [] else Var ?name]))
          (toks (drop ?np t))"
        using tm by (simp only: n option.case np dr(2) [OF n4'])
      have ne: "?name = [] \<longleftrightarrow> n = 0" using n4 lu by auto
      have tk: "tokOf t pos ((?name, pos + p, ?np, n \<noteq> 0) # ms) =
          (map Chr (take p ?u) @ [if n = 0 then Sep [] else Var ?name]) @ tokOf t ?np ms" for ms
        using ne p by (auto simp: range_text_def min_def)
      have "CHR 0x0A \<notin> set (range_text ?np E t)"
        using prems(3) dr(1) [OF n4'] unfolding np by (metis in_set_dropD)
      note ih = "1.IH" [OF s(1) [symmetric] s(2) refl se(1) [symmetric] se(2) refl _ prems(2) this prems(4),
          unfolded name flag]
      have le: "?np \<le> E" unfolding np using n4 prems(1) by linarith
      note ih = ih [OF le]
      show ?thesis
      proof (cases "parseLine t E ?np (ms0 @ [(?name, pos + p, ?np, n \<noteq> 0)])")
        case (Inl e)
        with ih rt step show ?thesis by simp
      next
        case (Inr r)
        then obtain ms' nxt where r: "parseLine t E ?np (ms0 @ [(?name, pos + p, ?np, n \<noteq> 0)]) = Inr (ms', nxt)"
          by (cases r) simp
        with ih obtain ms1 where ms1: "ms' = ms0 @ (?name, pos + p, ?np, n \<noteq> 0) # ms1"
          "if E = length t then toks (drop ?np t) = Some (tokOf t ?np ms1)
           else \<exists>fr. toks (drop ?np t) = map_option ((@) fr) (toks (drop (E + 1) t))
                \<and> (\<forall>ms2. tokOf t ?np (ms1 @ ms2) = fr @ tokOf t (E + 1) ms2)"
          by auto
        have "if E = length t then toks (drop pos t) = Some (tokOf t pos ((?name, pos + p, ?np, n \<noteq> 0) # ms1))
           else \<exists>fr. toks (drop pos t) = map_option ((@) fr) (toks (drop (E + 1) t))
                \<and> (\<forall>ms2. tokOf t pos (((?name, pos + p, ?np, n \<noteq> 0) # ms1) @ ms2) = fr @ tokOf t (E + 1) ms2)"
        proof (cases "E = length t")
          case True
          with ms1(2) have "toks (drop ?np t) = Some (tokOf t ?np ms1)" by simp
          then have "toks (drop pos t) = Some (tokOf t pos ((?name, pos + p, ?np, n \<noteq> 0) # ms1))"
            unfolding tk by (simp only: rt option.map)
          then show ?thesis unfolding True by (simp only: if_True refl)
        next
          case False
          with ms1(2) obtain fr where fr: "toks (drop ?np t) = map_option ((@) fr) (toks (drop (E + 1) t))"
            "\<And>ms2. tokOf t ?np (ms1 @ ms2) = fr @ tokOf t (E + 1) ms2" by auto
          show ?thesis
            using False rt fr tk
            by (simp only: if_False append_Cons)
              (intro exI [of _ "(map Chr (take p ?u) @ [if n = 0 then Sep [] else Var ?name]) @ fr"];
               cases "toks (drop (E + 1) t)"; simp)
        qed
        with ms1(1) r step show ?thesis by (simp only: sum.case prod.case) blast
      qed
    qed
  qed
qed

lemma find_range_line:
  assumes "pos < length t"
  shows "CHR 0x0A \<notin> set (range_text pos (find_range CHR 0x0A pos t) t)" "line_end (drop (find_range CHR 0x0A pos t) t)"
proof -
  show "CHR 0x0A \<notin> set (range_text pos (find_range CHR 0x0A pos t) t)"
  proof (cases "find_char CHR 0x0A (drop pos t)")
    case None
    then show ?thesis
      by (auto simp: find_char_None_iff find_range_def find_char_from_def range_text_def)
  next
    case (Some n)
    then show ?thesis
      using find_char_SomeD [OF Some] by (simp add: find_range_def find_char_from_def range_text_def)
  qed
  show "line_end (drop (find_range CHR 0x0A pos t) t)"
  proof (cases "find_char CHR 0x0A (drop pos t)")
    case None
    then show ?thesis by (simp add: find_range_def find_char_from_def line_end_def)
  next
    case (Some n)
    then have "drop n (drop pos t) = CHR 0x0A # drop (Suc n) (drop pos t)"
      by (rule find_char_SomeE) simp
    then have "drop (pos + n) t = CHR 0x0A # drop (Suc n) (drop pos t)" by (simp add: add.commute)
    then show ?thesis using Some by (simp add: find_range_def find_char_from_def line_end_def)
  qed
qed

lemma parseLoop_toks:
  "pos \<le> length t \<Longrightarrow> case parseLoop t pos ms0 of
      Inl e \<Rightarrow> e = InvalidDataFormat ''template'' ''variable end'' \<and> toks (drop pos t) = None
    | Inr ms' \<Rightarrow> \<exists>ms1. ms' = ms0 @ ms1 \<and> toks (drop pos t) = Some (tokOf t pos ms1)"
proof (induction t pos ms0 rule: parseLoop.induct)
  case (1 t pos ms0)
  show ?case
  proof (cases "length t \<le> pos")
    case True
    then show ?thesis by (subst parseLoop.simps) simp
  next
    case False
    let ?E = "find_range CHR 0x0A pos t"
    have E: "pos \<le> ?E" "?E \<le> length t" using find_range_bounds [OF "1.prems"] by simp_all
    have l: "pos < length t" using False by simp
    note line = parseLine_toks [OF E find_range_line [OF l], of ms0]
    show ?thesis
    proof (cases "parseLine t ?E pos ms0")
      case (Inl e)
      with line False show ?thesis by (subst parseLoop.simps) (simp add: Let_def)
    next
      case (Inr r)
      then obtain ms' nxt where r: "parseLine t ?E pos ms0 = Inr (ms', nxt)" by (cases r) simp
      then have nxt: "nxt = (if ?E \<noteq> length t then ?E + 1 else length t)" by (rule parseLine_next)
      have step: "parseLoop t pos ms0 = parseLoop t nxt ms'"
        using False r by (subst parseLoop.simps) (simp add: Let_def)
      have le: "nxt \<le> length t" using nxt E by auto
      note ih = "1.IH" [OF False refl r refl le]
      from line r obtain ms1 where ms1: "ms' = ms0 @ ms1"
        "if ?E = length t then toks (drop pos t) = Some (tokOf t pos ms1)
         else \<exists>fr. toks (drop pos t) = map_option ((@) fr) (toks (drop (?E + 1) t))
                \<and> (\<forall>ms2. tokOf t pos (ms1 @ ms2) = fr @ tokOf t (?E + 1) ms2)"
        by auto
      show ?thesis
      proof (cases "?E = length t")
        case True
        then have "parseLoop t nxt ms' = Inr ms'" using nxt by (subst parseLoop.simps) simp
        with True ms1 step show ?thesis by simp
      next
        case nE: False
        with ms1(2) obtain fr where fr: "toks (drop pos t) = map_option ((@) fr) (toks (drop nxt t))"
          "\<And>ms2. tokOf t pos (ms1 @ ms2) = fr @ tokOf t nxt ms2" using nxt by auto
        show ?thesis
        proof (cases "parseLoop t nxt ms'")
          case (Inl e)
          with ih fr(1) step show ?thesis by simp
        next
          case (Inr ms'')
          with ih obtain ms2 where ms2: "ms'' = ms' @ ms2" "toks (drop nxt t) = Some (tokOf t nxt ms2)" by auto
          have "ms'' = ms0 @ (ms1 @ ms2)" using ms2(1) ms1(1) by simp
          moreover have "toks (drop pos t) = Some (tokOf t pos (ms1 @ ms2))" using fr ms2(2) by simp
          ultimately show ?thesis unfolding step Inr sum.case by blast
        qed
      qed
    qed
  qed
qed

section \<open>Blocks\<close>

text \<open>A block ends with its separator; the last one has none.\<close>

fun splitBlocks :: "tok list \<Rightarrow> tok list list" where
  "splitBlocks [] = [[]]"
| "splitBlocks (Sep s # ts) = [Sep s] # splitBlocks ts"
| "splitBlocks (t # ts) = (t # hd (splitBlocks ts)) # tl (splitBlocks ts)"

type_synonym variables = "string \<Rightarrow> string option"
type_synonym escaper = "(string \<Rightarrow> string \<Rightarrow> string) option"

fun tokText :: "variables \<Rightarrow> escaper \<Rightarrow> tok \<Rightarrow> string option" where
  "tokText vars esc (Chr c) = Some [c]"
| "tokText vars esc (Sep s) = Some s"
| "tokText vars esc (Var n) = map_option (\<lambda>v. case esc of Some f \<Rightarrow> f n v | None \<Rightarrow> v) (vars n)"

text \<open>The text of a block, when all its variables are defined.\<close>

fun blockText :: "variables \<Rightarrow> escaper \<Rightarrow> tok list \<Rightarrow> string option" where
  "blockText vars esc [] = Some []"
| "blockText vars esc (t # ts) =
     (case tokText vars esc t of None \<Rightarrow> None | Some s \<Rightarrow> map_option ((@) s) (blockText vars esc ts))"

definition shown :: "string option \<Rightarrow> string" where
  "shown s = (case s of None \<Rightarrow> [] | Some x \<Rightarrow> x)"

definition template_spec :: "variables \<Rightarrow> escaper \<Rightarrow> bool \<Rightarrow> tok list \<Rightarrow> string res" where
  "template_spec vars esc skip ts =
     (let blocks = map (blockText vars esc) (splitBlocks ts) in
      if \<not> skip \<and> None \<in> set blocks then Inl NotFoundExc else Inr (concat (map shown blocks)))"

section \<open>Resolving\<close>

fun isSep :: "tok \<Rightarrow> bool" where
  "isSep (Sep s) = True"
| "isSep t = False"

text \<open>The loop over the tokens.\<close>

function run_tokens :: "variables \<Rightarrow> escaper \<Rightarrow> bool \<Rightarrow> tok list \<Rightarrow> string \<Rightarrow> string \<Rightarrow> string res" where
  "run_tokens vars esc skip [] result block = Inr (result @ block)"
| "run_tokens vars esc skip (Chr c # ts) result block = run_tokens vars esc skip ts result (block @ [c])"
| "run_tokens vars esc skip (Sep s # ts) result block = run_tokens vars esc skip ts (result @ block @ s) []"
| "run_tokens vars esc skip (Var n # ts) result block =
     (case tokText vars esc (Var n) of
        Some v \<Rightarrow> run_tokens vars esc skip ts result (block @ v)
      | None \<Rightarrow> (if \<not> skip then Inl NotFoundExc
                 else run_tokens vars esc skip (tl (dropWhile (\<lambda>t. \<not> isSep t) ts)) result []))"
  by pat_completeness auto
termination
  by (relation "measure (\<lambda>(vars, esc, skip, ts, result, block). length ts)")
    (auto simp: less_Suc_eq_le intro: order_trans [OF diff_le_self length_dropWhile_le])

lemma run_chars: "run_tokens vars esc skip (map Chr cs @ ts) result block = run_tokens vars esc skip ts result (block @ cs)"
  by (induction cs arbitrary: block) simp_all

lemma dropWhile_chars: "dropWhile (\<lambda>t. \<not> isSep t) (map Chr cs @ ts) = dropWhile (\<lambda>t. \<not> isSep t) ts"
  by (induction cs) simp_all

lemma tokOf_skip:
  "tl (dropWhile (\<lambda>t. \<not> isSep t) (tokOf t pos ms)) =
     (case dropWhile (\<lambda>m. fst m \<noteq> []) ms of [] \<Rightarrow> [] | m # ms' \<Rightarrow> tokOf t (fst (snd (snd m))) ms')"
proof (induction t pos ms rule: tokOf.induct)
  case (1 t pos)
  have "dropWhile (\<lambda>t. \<not> isSep t) (map Chr (drop pos t)) = []" by auto
  then show ?case by (simp del: dropWhile_eq_Nil_conv)
next
  case (2 t pos name b e copyData ms)
  then show ?case by (simp add: dropWhile_chars)
qed

lemma resolveLoop_run:
  "resolveLoop r vars esc ms pos result block =
     run_tokens vars esc (tr_skipUndefined r) (tokOf (tr_templateText r) pos ms) result block"
proof (induction r vars esc ms pos result block rule: resolveLoop.induct)
  case (1 r vars esc pos result block)
  then show ?case using run_chars [of vars esc "tr_skipUndefined r" "drop pos (tr_templateText r)" "[]" result block]
    by (auto simp: Let_def)
next
  case (2 r vars esc name posBegin posEnd copyData markers pos result block)
  let ?t = "tr_templateText r" and ?m = "(name, posBegin, posEnd, copyData)"
  have b1: "(if pos \<noteq> posBegin then block @ range_text pos posBegin ?t else block) = block @ range_text pos posBegin ?t"
    by (simp add: range_text_def)
  show ?case
  proof (cases "name = []")
    case True
    show ?thesis
      using "2.IH"(1) [OF b1 [symmetric] True refl] True
      by (auto simp: b1 run_chars Let_def)
  next
    case named: False
    show ?thesis
    proof (cases "vars name")
      case (Some v)
      with "2.IH"(4) [OF b1 [symmetric] named Some] named show ?thesis
        by (cases esc) (simp_all add: b1 run_chars Let_def)
    next
      case None
      show ?thesis
      proof (cases "tr_skipUndefined r")
        case False
        with None named show ?thesis by (simp add: run_chars Let_def)
      next
        case skip: True
        have dw: "dropWhile (\<lambda>m. fst m \<noteq> []) (?m # markers) = dropWhile (\<lambda>m. fst m \<noteq> []) markers" using named by simp
        have rhs: "run_tokens vars esc True (tokOf ?t pos (?m # markers)) result block =
            run_tokens vars esc True (tl (dropWhile (\<lambda>t. \<not> isSep t) (tokOf ?t posEnd markers))) result []"
          using None named by (simp add: run_chars)
        show ?thesis
        proof (cases "dropWhile (\<lambda>m. fst m \<noteq> []) (?m # markers)")
          case Nil
          have "resolveLoop r vars esc (?m # markers) pos result block = resolveLoop r vars esc [] (length ?t) result []"
            using Nil None named skip by (simp add: Let_def del: dropWhile.simps dropWhile_eq_Nil_conv)
          with Nil skip rhs dw show ?thesis by (simp add: tokOf_skip del: dropWhile_eq_Nil_conv)
        next
          case (Cons m2 rest)
          obtain n2 b2 e2 c2 where m2: "m2 = (n2, b2, e2, c2)" by (cases m2)
          note ih = "2.IH"(3) [OF b1 [symmetric] named None _ Cons [unfolded m2] refl refl refl]
          have "resolveLoop r vars esc (?m # markers) pos result block = resolveLoop r vars esc rest e2 result []"
            using Cons m2 None named skip by (simp add: Let_def del: dropWhile.simps)
          with ih skip rhs dw Cons m2 show ?thesis by (simp add: tokOf_skip)
        qed
      qed
    qed
  qed
qed

lemma splitBlocks_nonempty [simp]: "splitBlocks ts \<noteq> []"
  by (cases ts rule: splitBlocks.cases) simp_all

text \<open>The blocks after the first one are those after the first separator.\<close>

lemma splitBlocks_rest:
  "concat (map (\<lambda>b. shown (blockText vars esc b)) (tl (splitBlocks ts))) =
     concat (map (\<lambda>b. shown (blockText vars esc b)) (splitBlocks (tl (dropWhile (\<lambda>t. \<not> isSep t) ts))))"
  by (induction ts rule: splitBlocks.induct) (simp_all add: shown_def)

lemma blockText_Cons:
  "blockText vars esc (t # ts) \<noteq> None \<longleftrightarrow> tokText vars esc t \<noteq> None \<and> blockText vars esc ts \<noteq> None"
  by (auto split: option.splits)

text \<open>The blocks of the rest of the tokens, the first one after the text already in the current block.\<close>

lemma run_spec:
  "run_tokens vars esc skip ts result block =
     (if \<not> skip \<and> None \<in> set (map (blockText vars esc) (splitBlocks ts)) then Inl NotFoundExc
      else Inr (result @ (case blockText vars esc (hd (splitBlocks ts)) of None \<Rightarrow> [] | Some s \<Rightarrow> block @ s)
             @ concat (map (\<lambda>b. shown (blockText vars esc b)) (tl (splitBlocks ts)))))"
proof (induction vars esc skip ts result block rule: run_tokens.induct)
  case (2 vars esc skip c ts result block)
  then show ?case by (cases "splitBlocks ts") (auto split: option.splits)
next
  case (3 vars esc skip s ts result block)
  then show ?case by (cases "splitBlocks ts") (auto simp: shown_def split: option.splits)
next
  case (4 vars esc skip n ts result block)
  show ?case
  proof (cases "tokText vars esc (Var n)")
    case None
    show ?thesis
    proof (cases skip)
      case True
      let ?ts = "tl (dropWhile (\<lambda>t. \<not> isSep t) ts)"
      have "run_tokens vars esc skip (Var n # ts) result block = run_tokens vars esc skip ?ts result []"
        using None True by simp
      also have "\<dots> = Inr (result @ (case blockText vars esc (hd (splitBlocks ?ts)) of None \<Rightarrow> [] | Some s \<Rightarrow> [] @ s)
          @ concat (map (\<lambda>b. shown (blockText vars esc b)) (tl (splitBlocks ?ts))))"
        using "4.IH"(1) [OF None] True by simp
      also have "\<dots> = Inr (result @ concat (map (\<lambda>b. shown (blockText vars esc b)) (splitBlocks ?ts)))"
        by (cases "splitBlocks ?ts") (simp_all add: shown_def split: option.splits)
      finally show ?thesis using None True splitBlocks_rest [of vars esc ts] by simp
    qed (use None in simp)
  next
    case (Some v)
    with "4.IH"(2) [OF Some] show ?thesis
      by (cases "splitBlocks ts") (auto split: option.splits)
  qed
qed simp

text \<open>
  C15 Constructing a resolver and resolving equals the description by blocks: the text is read as
  characters, variables and separators, it is malformed exactly when a variable is not closed on its
  line, and the result is the concatenation of the blocks; a block with an undefined variable is left
  out as a whole, its separator included, or is an error when that was not asked for.
\<close>

theorem template_blocks:
  "bindR (new_resolver templateText skip) (template_resolve vars esc) =
     (case toks templateText of
        None \<Rightarrow> Inl (InvalidDataFormat ''template'' ''variable end'')
      | Some ts \<Rightarrow> template_spec vars esc skip ts)"
proof -
  note p = parseLoop_toks [of 0 templateText "[]"]
  show ?thesis
  proof (cases "parseLoop templateText 0 []")
    case (Inl e)
    with p show ?thesis by (simp add: new_resolver_def parseTemplate_def)
  next
    case (Inr ms)
    with p have t: "toks templateText = Some (tokOf templateText 0 ms)" by simp
    have "bindR (new_resolver templateText skip) (template_resolve vars esc) =
        run_tokens vars esc skip (tokOf templateText 0 ms) [] []"
      using Inr by (simp add: new_resolver_def parseTemplate_def template_resolve_def resolveLoop_run)
    also have "\<dots> = template_spec vars esc skip (tokOf templateText 0 ms)"
      by (cases "splitBlocks (tokOf templateText 0 ms)")
        (auto simp: run_spec template_spec_def Let_def shown_def comp_def split: option.splits)
    finally show ?thesis using t by simp
  qed
qed

end
