(* ===== verification/FsMetadata.thy ===== *)
theory FsMetadata
  imports Prelude "HOL-Library.AList"
begin

text \<open>
  The in-memory file system metadata of \<open>data/FilesystemMetadataInMemoryImpl.h\<close>: entries and their
  chunks, written until the object is finalized and read afterwards.  What the code takes from
  \<open>boost::filesystem\<close> is a parameter; identifiers are numbers, and the one \<open>uuids::create\<close> yields is
  an argument.  A failing operation returns the state with its scope guards having run.
\<close>

section \<open>Data\<close>

type_synonym fs_uuid = nat

datatype entry_type = File | Directory | Symlink | OtherEntryType int

record entry_info =
  ei_type :: entry_type
  ei_size :: "64 word"
  ei_timeCreated :: int
  ei_lastModified :: int
  ei_flags :: "32 word"
  ei_relPath :: "string option"
  ei_targetPath :: "string option"
  ei_sourcePath :: "string option"
  ei_isChecksumSet :: bool
  ei_checksum :: "32 word"
  ei_hash :: "string option"

record chunk_info =
  ci_pos :: "64 word"
  ci_size :: "32 word"
  ci_checksum :: "32 word"
  ci_hash :: "string option"
  ci_isChunkDuplicate :: bool

record chunk_obj =
  co_chunkId :: fs_uuid
  co_info :: chunk_info

record entry_obj =
  eo_entryId :: fs_uuid
  eo_info :: entry_info
  eo_chunkIds :: "fs_uuid list"
  eo_chunksInfo :: "(fs_uuid \<times> chunk_obj) list"

record fs_metadata =
  fs_fileIds :: "fs_uuid list"
  fs_chunkIds :: "fs_uuid list"
  fs_files :: "(fs_uuid \<times> entry_obj) list"
  fs_chunk2files :: "(fs_uuid \<times> fs_uuid) list"
  fs_locked :: bool
  fs_relPaths :: "string list"

definition new_fs_metadata :: fs_metadata where
  "new_fs_metadata = \<lparr>fs_fileIds = [], fs_chunkIds = [], fs_files = [], fs_chunk2files = [], fs_locked = False,
     fs_relPaths = []\<rparr>"

text \<open>\<open>fs::path::root_path\<close> and the elements of a path.\<close>

record path_ops =
  root_path :: "string \<Rightarrow> string"
  path_elements :: "string \<Rightarrow> string list"

section \<open>Looking up\<close>

definition fs_getEntry :: "fs_uuid \<Rightarrow> fs_metadata \<Rightarrow> entry_obj res" where
  "fs_getEntry entryId s = (case map_of (fs_files s) entryId of None \<Rightarrow> Inl UnexpectedExc | Some e \<Rightarrow> Inr e)"

definition fs_getChunk :: "fs_uuid \<Rightarrow> fs_metadata \<Rightarrow> chunk_obj res" where
  "fs_getChunk chunkId s =
     (case map_of (fs_chunk2files s) chunkId of
        None \<Rightarrow> Inl UnexpectedExc
      | Some entryId \<Rightarrow>
          bindR (fs_getEntry entryId s)
            (\<lambda>entryObj. case map_of (eo_chunksInfo entryObj) chunkId of None \<Rightarrow> Inl UnexpectedExc | Some c \<Rightarrow> Inr c))"

definition chkLocked :: "fs_metadata \<Rightarrow> unit res" where
  "chkLocked s = chkR (fs_locked s) UnexpectedExc"

definition chkUnlocked :: "fs_metadata \<Rightarrow> unit res" where
  "chkUnlocked s = chkR (\<not> fs_locked s) UnexpectedExc"

section \<open>Reading\<close>

definition queryAllEntries :: "fs_metadata \<Rightarrow> fs_uuid list res" where
  "queryAllEntries s = bindR (chkLocked s) (\<lambda>_. Inr (fs_fileIds s))"

definition queryAllChunks :: "fs_metadata \<Rightarrow> fs_uuid list res" where
  "queryAllChunks s = bindR (chkLocked s) (\<lambda>_. Inr (fs_chunkIds s))"

definition queryEntriesCount :: "fs_metadata \<Rightarrow> nat res" where
  "queryEntriesCount s = bindR (chkLocked s) (\<lambda>_. Inr (length (fs_fileIds s)))"

definition queryChunks :: "fs_uuid \<Rightarrow> fs_metadata \<Rightarrow> fs_uuid list res" where
  "queryChunks entryId s = bindR (chkLocked s) (\<lambda>_. bindR (fs_getEntry entryId s) (\<lambda>e. Inr (eo_chunkIds e)))"

definition queryChunksCount :: "fs_uuid \<Rightarrow> fs_metadata \<Rightarrow> nat res" where
  "queryChunksCount entryId s =
     bindR (chkLocked s) (\<lambda>_. bindR (fs_getEntry entryId s) (\<lambda>e. Inr (length (eo_chunkIds e))))"

definition queryEntryId :: "fs_uuid \<Rightarrow> fs_metadata \<Rightarrow> fs_uuid res" where
  "queryEntryId chunkId s =
     bindR (chkLocked s)
       (\<lambda>_. case map_of (fs_chunk2files s) chunkId of None \<Rightarrow> Inl UnexpectedExc | Some entryId \<Rightarrow> Inr entryId)"

definition loadEntryInfo :: "fs_uuid \<Rightarrow> fs_metadata \<Rightarrow> entry_info res" where
  "loadEntryInfo entryId s = bindR (chkLocked s) (\<lambda>_. bindR (fs_getEntry entryId s) (\<lambda>e. Inr (eo_info e)))"

definition loadChunkInfo :: "fs_uuid \<Rightarrow> fs_metadata \<Rightarrow> chunk_info res" where
  "loadChunkInfo chunkId s = bindR (chkLocked s) (\<lambda>_. bindR (fs_getChunk chunkId s) (\<lambda>c. Inr (co_info c)))"

record metadata_statistics =
  ms_entriesCount :: "32 word"
  ms_symlinksCount :: "32 word"
  ms_directoriesCount :: "32 word"
  ms_filesCount :: "32 word"
  ms_totalSize :: "64 word"

fun statisticsLoop :: "(fs_uuid \<times> entry_obj) list \<Rightarrow> metadata_statistics \<Rightarrow> metadata_statistics res" where
  "statisticsLoop [] r = Inr r"
| "statisticsLoop (e # es) r =
     (let info = eo_info (snd e); r1 = r\<lparr>ms_totalSize := ms_totalSize r + ei_size info\<rparr> in
      case ei_type info of
        Symlink \<Rightarrow> statisticsLoop es (r1\<lparr>ms_symlinksCount := ms_symlinksCount r1 + 1\<rparr>)
      | Directory \<Rightarrow> statisticsLoop es (r1\<lparr>ms_directoriesCount := ms_directoriesCount r1 + 1\<rparr>)
      | File \<Rightarrow> statisticsLoop es (r1\<lparr>ms_filesCount := ms_filesCount r1 + 1\<rparr>)
      | OtherEntryType _ \<Rightarrow> Inl UnexpectedExc)"

definition computeStatistics :: "fs_metadata \<Rightarrow> metadata_statistics res" where
  "computeStatistics s =
     bindR (chkLocked s)
       (\<lambda>_. let result = \<lparr>ms_entriesCount = of_nat (length (fs_files s)), ms_symlinksCount = 0,
              ms_directoriesCount = 0, ms_filesCount = 0, ms_totalSize = 0\<rparr>
          in bindR (chkR (unat (ms_entriesCount result) = length (fs_files s)) UnexpectedExc)
               (\<lambda>_. statisticsLoop (fs_files s) result))"

section \<open>Writing\<close>

definition chkEntryInfo :: "path_ops \<Rightarrow> entry_info \<Rightarrow> unit res" where
  "chkEntryInfo P info =
     (let relPath = (case ei_relPath info of Some p \<Rightarrow> p | None \<Rightarrow> []) in
      bindR (chkR (relPath \<noteq> []) UnexpectedExc)
        (\<lambda>_. bindR (chkR (root_path P relPath = []) UnexpectedExc)
           (\<lambda>_. bindR (chkR (\<not> list_ex (\<lambda>x. x = ''..'') (path_elements P relPath)) UnexpectedExc)
              (\<lambda>_. if ei_type info = Symlink
                    then chkR (case ei_targetPath info of None \<Rightarrow> False | Some p \<Rightarrow> p \<noteq> []) UnexpectedExc
                    else Inr ()))))"

type_synonym 'a fs_op = "fs_metadata \<Rightarrow> 'a res \<times> fs_metadata"

definition new_chunks :: "fs_uuid \<Rightarrow> entry_info \<Rightarrow> entry_obj" where
  "new_chunks entryId info = \<lparr>eo_entryId = entryId, eo_info = info, eo_chunkIds = [], eo_chunksInfo = []\<rparr>"

text \<open>The two scope guards of \<open>createEntry\<close>.\<close>

definition undoEntry :: "fs_uuid \<Rightarrow> fs_metadata \<Rightarrow> fs_metadata" where
  "undoEntry entryId s = s\<lparr>fs_files := AList.delete entryId (fs_files s), fs_fileIds := butlast (fs_fileIds s)\<rparr>"

definition createEntry :: "path_ops \<Rightarrow> fs_uuid \<Rightarrow> entry_info \<Rightarrow> fs_uuid fs_op" where
  "createEntry P entryId info s =
     (case chkUnlocked s of Inl e \<Rightarrow> (Inl e, s) | Inr _ \<Rightarrow>
        (let s1 = s\<lparr>fs_fileIds := fs_fileIds s @ [entryId],
                    fs_files := AList.update entryId (new_chunks entryId info) (fs_files s)\<rparr>
         in case chkEntryInfo P info of
              Inl e \<Rightarrow> (Inl e, undoEntry entryId s1)
            | Inr _ \<Rightarrow>
                (case ei_relPath info of
                   None \<Rightarrow> (Inl AssertFailed, undoEntry entryId s1)
                 | Some relPath \<Rightarrow>
                     (if relPath \<in> set (fs_relPaths s1) then (Inl UnexpectedExc, undoEntry entryId s1)
                      else (Inr entryId, s1\<lparr>fs_relPaths := relPath # fs_relPaths s1\<rparr>)))))"

definition associateChecksum :: "fs_uuid \<Rightarrow> 32 word \<Rightarrow> unit fs_op" where
  "associateChecksum entryId checksum s =
     (case bindR (chkUnlocked s) (\<lambda>_. fs_getEntry entryId s) of
        Inl e \<Rightarrow> (Inl e, s)
      | Inr entry \<Rightarrow> (Inr (), s\<lparr>fs_files := AList.update entryId
          (entry\<lparr>eo_info := (eo_info entry)\<lparr>ei_checksum := checksum, ei_isChecksumSet := True\<rparr>\<rparr>) (fs_files s)\<rparr>))"

text \<open>The hash goes through a C string.\<close>

definition associateHash :: "fs_uuid \<Rightarrow> string \<Rightarrow> unit fs_op" where
  "associateHash entryId hash s =
     (case bindR (chkUnlocked s) (\<lambda>_. fs_getEntry entryId s) of
        Inl e \<Rightarrow> (Inl e, s)
      | Inr entry \<Rightarrow> (Inr (), s\<lparr>fs_files := AList.update entryId
          (entry\<lparr>eo_info := (eo_info entry)\<lparr>ei_hash := Some (takeWhile (\<lambda>c. c \<noteq> CHR 0x00) hash)\<rparr>\<rparr>) (fs_files s)\<rparr>))"

definition createChunk :: "fs_uuid \<Rightarrow> fs_uuid \<Rightarrow> chunk_info \<Rightarrow> fs_uuid fs_op" where
  "createChunk chunkId entryId info s =
     (case chkUnlocked s of Inl e \<Rightarrow> (Inl e, s) | Inr _ \<Rightarrow>
        (let s1 = s\<lparr>fs_chunkIds := fs_chunkIds s @ [chunkId]\<rparr> in
         case fs_getEntry entryId s1 of
           Inl e \<Rightarrow> (Inl e, s1\<lparr>fs_chunkIds := butlast (fs_chunkIds s1)\<rparr>)
         | Inr entry \<Rightarrow>
             (Inr chunkId, s1\<lparr>fs_files := AList.update entryId
                 (entry\<lparr>eo_chunkIds := eo_chunkIds entry @ [chunkId],
                        eo_chunksInfo := AList.update chunkId \<lparr>co_chunkId = chunkId, co_info = info\<rparr> (eo_chunksInfo entry)\<rparr>)
                 (fs_files s1),
               fs_chunk2files := AList.update chunkId entryId (fs_chunk2files s1)\<rparr>)))"

definition fs_finalize :: "unit fs_op" where
  "fs_finalize s = (case chkUnlocked s of Inl e \<Rightarrow> (Inl e, s) | Inr _ \<Rightarrow> (Inr (), s\<lparr>fs_locked := True\<rparr>))"

definition isFinalized :: "fs_metadata \<Rightarrow> bool" where
  "isFinalized s = fs_locked s"

section \<open>Comparing\<close>

definition entryTypeToString :: "entry_type \<Rightarrow> string res" where
  "entryTypeToString t =
     (case t of File \<Rightarrow> Inr ''File'' | Directory \<Rightarrow> Inr ''Directory'' | Symlink \<Rightarrow> Inr ''Symlink''
      | OtherEntryType _ \<Rightarrow> Inl UnexpectedExc)"

definition fnCompareEntries :: "entry_info \<Rightarrow> entry_info \<Rightarrow> bool res" where
  "fnCompareEntries lhs rhs =
     (let equal0 = (ei_type lhs = ei_type rhs \<and> ei_size lhs = ei_size rhs \<and> ei_timeCreated lhs = ei_timeCreated rhs
        \<and> ei_lastModified lhs = ei_lastModified rhs \<and> ei_flags lhs = ei_flags rhs) in
      bindR (if equal0 then chkR (ei_relPath lhs \<noteq> None \<and> ei_relPath rhs \<noteq> None) AssertFailed else Inr ())
        (\<lambda>_. let equal = (equal0 \<and> ei_relPath lhs = ei_relPath rhs \<and> ei_checksum lhs = ei_checksum rhs) in
           Inr (if ei_targetPath lhs \<noteq> None \<and> ei_targetPath rhs \<noteq> None
                then equal \<and> ei_targetPath lhs = ei_targetPath rhs
                else equal \<and> ei_targetPath lhs = None \<and> ei_targetPath rhs = None)))"

text \<open>The loop over the entries of the left side; it collects their identifiers.\<close>

fun compareLoop :: "fs_metadata \<Rightarrow> fs_metadata \<Rightarrow> fs_uuid list \<Rightarrow> fs_uuid list \<Rightarrow> bool \<Rightarrow> (fs_uuid list \<times> bool) res" where
  "compareLoop lhs rhs [] lhsIds equal = Inr (lhsIds, equal)"
| "compareLoop lhs rhs (entryId # entryIds) lhsIds equal =
     bindR (chkR (entryId \<notin> set lhsIds) UnexpectedExc)
       (\<lambda>_. bindR (loadEntryInfo entryId lhs)
          (\<lambda>lhsInfo. bindR (loadEntryInfo entryId rhs)
             (\<lambda>rhsInfo. bindR (fnCompareEntries lhsInfo rhsInfo)
                (\<lambda>same. bindR (queryChunksCount entryId lhs)
                   (\<lambda>lhsChunks. bindR (queryChunksCount entryId rhs)
                      (\<lambda>rhsChunks. compareLoop lhs rhs entryIds (entryId # lhsIds)
                         (equal \<and> same \<and> lhsChunks = rhsChunks)))))))"

fun compareRest :: "fs_uuid list \<Rightarrow> fs_uuid list \<Rightarrow> unit res" where
  "compareRest lhsIds [] = Inr ()"
| "compareRest lhsIds (entryId # entryIds) =
     bindR (chkR (entryId \<in> set lhsIds) UnexpectedExc) (\<lambda>_. compareRest lhsIds entryIds)"

definition areEqual :: "fs_metadata \<Rightarrow> fs_metadata \<Rightarrow> bool res" where
  "areEqual lhs rhs =
     bindR (queryEntriesCount lhs)
       (\<lambda>lhsCount. bindR (queryEntriesCount rhs)
          (\<lambda>rhsCount. bindR (queryAllEntries lhs)
             (\<lambda>lhsEntries. bindR (queryAllEntries rhs)
                (\<lambda>rhsEntries. bindR (compareLoop lhs rhs lhsEntries [] (lhsCount = rhsCount))
                   (\<lambda>(lhsIds, equal). bindR (compareRest lhsIds rhsEntries) (\<lambda>_. Inr equal))))))"

end
