(* ===== verification/FsMetadataProps.thy ===== *)
theory FsMetadataProps
  imports FsMetadata
begin

text \<open>
  The properties of the file system metadata: the invariant of every reachable state, what failing
  operations leave behind, and what the comparison of two objects establishes.
\<close>

section \<open>Well-formedness\<close>

abbreviation fileOf :: "fs_metadata \<Rightarrow> fs_uuid \<Rightarrow> entry_obj option" where
  "fileOf s \<equiv> map_of (fs_files s)"

abbreviation ownerOf :: "fs_metadata \<Rightarrow> fs_uuid \<Rightarrow> fs_uuid option" where
  "ownerOf s \<equiv> map_of (fs_chunk2files s)"

definition safe_path :: "path_ops \<Rightarrow> string \<Rightarrow> bool" where
  "safe_path P p \<longleftrightarrow> p \<noteq> [] \<and> root_path P p = [] \<and> ''..'' \<notin> set (path_elements P p)"

text \<open>An entry: its identifier, its path, and its chunks.\<close>

definition entry_wf :: "path_ops \<Rightarrow> fs_uuid \<Rightarrow> entry_obj \<Rightarrow> bool" where
  "entry_wf P i e \<longleftrightarrow> eo_entryId e = i
     \<and> (\<exists>p. ei_relPath (eo_info e) = Some p \<and> safe_path P p)
     \<and> (ei_type (eo_info e) = Symlink \<longrightarrow> (\<exists>p. ei_targetPath (eo_info e) = Some p \<and> p \<noteq> []))
     \<and> distinct (eo_chunkIds e) \<and> dom (map_of (eo_chunksInfo e)) = set (eo_chunkIds e)"

text \<open>The indexes: of the files, of the relative paths, and of the chunks.\<close>

definition files_wf :: "path_ops \<Rightarrow> fs_metadata \<Rightarrow> bool" where
  "files_wf P s \<longleftrightarrow> distinct (fs_fileIds s) \<and> distinct (map fst (fs_files s)) \<and> dom (fileOf s) = set (fs_fileIds s)
     \<and> (\<forall>i e. fileOf s i = Some e \<longrightarrow> entry_wf P i e)"

definition paths_wf :: "fs_metadata \<Rightarrow> bool" where
  "paths_wf s \<longleftrightarrow> distinct (fs_relPaths s)
     \<and> (\<forall>p. p \<in> set (fs_relPaths s) \<longleftrightarrow> (\<exists>i e. fileOf s i = Some e \<and> ei_relPath (eo_info e) = Some p))
     \<and> (\<forall>i j e f. fileOf s i = Some e \<longrightarrow> fileOf s j = Some f \<longrightarrow> ei_relPath (eo_info e) = ei_relPath (eo_info f) \<longrightarrow> i = j)"

definition chunks_wf :: "fs_metadata \<Rightarrow> bool" where
  "chunks_wf s \<longleftrightarrow> distinct (fs_chunkIds s) \<and> dom (ownerOf s) = set (fs_chunkIds s)
     \<and> (\<forall>c i. ownerOf s c = Some i \<longleftrightarrow> (\<exists>e. fileOf s i = Some e \<and> c \<in> set (eo_chunkIds e)))"

definition fs_wf :: "path_ops \<Rightarrow> fs_metadata \<Rightarrow> bool" where
  "fs_wf P s \<longleftrightarrow> files_wf P s \<and> paths_wf s \<and> chunks_wf s"

lemma chkEntryInfo_ok:
  "chkEntryInfo P info = Inr () \<longleftrightarrow> (\<exists>p. ei_relPath info = Some p \<and> safe_path P p)
     \<and> (ei_type info = Symlink \<longrightarrow> (\<exists>p. ei_targetPath info = Some p \<and> p \<noteq> []))"
  by (auto simp: chkEntryInfo_def Let_def bindR_eq_Inr safe_path_def list_ex_iff split: option.splits)

section \<open>Operations by cases\<close>

lemma delete_update_fresh: "k \<notin> fst ` set al \<Longrightarrow> AList.delete k (AList.update k v al) = al"
  by (induction al) (auto simp: AList.delete_eq filter_id_conv)

lemma createEntry_cases:
  assumes "fs_wf P s" "entryId \<notin> set (fs_fileIds s)"
  obtains (Fails) e where "createEntry P entryId info s = (Inl e, s)" "e = UnexpectedExc"
  | (Made) p where "\<not> fs_locked s" "ei_relPath info = Some p" "chkEntryInfo P info = Inr ()" "p \<notin> set (fs_relPaths s)"
      "createEntry P entryId info s = (Inr entryId, s\<lparr>fs_fileIds := fs_fileIds s @ [entryId],
         fs_files := AList.update entryId (new_chunks entryId info) (fs_files s), fs_relPaths := p # fs_relPaths s\<rparr>)"
proof -
  have f: "entryId \<notin> fst ` set (fs_files s)"
    using assms by (auto simp: fs_wf_def files_wf_def dom_map_of_conv_image_fst)
  then have u: "undoEntry entryId (s\<lparr>fs_fileIds := fs_fileIds s @ [entryId],
      fs_files := AList.update entryId (new_chunks entryId info) (fs_files s)\<rparr>) = s"
    by (simp add: undoEntry_def delete_update_fresh)
  show thesis
  proof (cases "fs_locked s")
    case True
    then show thesis by (intro Fails [of UnexpectedExc]) (simp_all add: createEntry_def chkUnlocked_def)
  next
    case un: False
    show thesis
    proof (cases "chkEntryInfo P info")
      case (Inl e)
      then have "e = UnexpectedExc"
        by (auto simp: chkEntryInfo_def Let_def bindR_eq_Inl split: if_splits option.splits)
      with Inl un u show thesis by (intro Fails [of e]) (simp_all add: createEntry_def chkUnlocked_def Let_def)
    next
      case (Inr x)
      then obtain p where p: "ei_relPath info = Some p" using chkEntryInfo_ok by auto
      show thesis
      proof (cases "p \<in> set (fs_relPaths s)")
        case True
        with Inr p un u show thesis
          by (intro Fails [of UnexpectedExc]) (simp_all add: createEntry_def chkUnlocked_def Let_def)
      next
        case False
        with Inr p un show thesis by (intro Made [of p]) (simp_all add: createEntry_def chkUnlocked_def Let_def)
      qed
    qed
  qed
qed

lemma createChunk_cases:
  obtains (Fails) "createChunk chunkId entryId info s = (Inl UnexpectedExc, s)"
  | (Made) e where "\<not> fs_locked s" "fileOf s entryId = Some e"
      "createChunk chunkId entryId info s = (Inr chunkId, s\<lparr>fs_chunkIds := fs_chunkIds s @ [chunkId],
         fs_files := AList.update entryId (e\<lparr>eo_chunkIds := eo_chunkIds e @ [chunkId],
           eo_chunksInfo := AList.update chunkId \<lparr>co_chunkId = chunkId, co_info = info\<rparr> (eo_chunksInfo e)\<rparr>) (fs_files s),
         fs_chunk2files := AList.update chunkId entryId (fs_chunk2files s)\<rparr>)"
proof (cases "fs_locked s \<or> fileOf s entryId = None")
  case True
  then show thesis
    by (intro Fails) (auto simp: createChunk_def chkUnlocked_def chkR_def fs_getEntry_def Let_def split: option.splits)
next
  case False
  then obtain e where "\<not> fs_locked s" "fileOf s entryId = Some e" by auto
  then show thesis by (intro Made [of e]) (auto simp: createChunk_def chkUnlocked_def fs_getEntry_def Let_def)
qed

text \<open>Both \<open>associate\<close> operations change the entry's information but neither its paths nor its type.\<close>

definition same_paths :: "entry_info \<Rightarrow> entry_info \<Rightarrow> bool" where
  "same_paths i j \<longleftrightarrow> ei_relPath i = ei_relPath j \<and> ei_targetPath i = ei_targetPath j \<and> ei_type i = ei_type j"

lemma associate_cases:
  assumes "(r, s') = associateChecksum entryId checksum s \<or> (r, s') = associateHash entryId hash s"
  obtains (Fails) "r = Inl UnexpectedExc" "s' = s"
  | (Made) e info where "\<not> fs_locked s" "fileOf s entryId = Some e" "same_paths info (eo_info e)" "r = Inr ()"
      "s' = s\<lparr>fs_files := AList.update entryId (e\<lparr>eo_info := info\<rparr>) (fs_files s)\<rparr>"
proof (cases "fs_locked s \<or> fileOf s entryId = None")
  case True
  then have "bindR (chkUnlocked s) (\<lambda>_. fs_getEntry entryId s) = Inl UnexpectedExc"
    by (auto simp: chkUnlocked_def fs_getEntry_def chkR_def)
  with assms show thesis by (intro Fails) (auto simp: associateChecksum_def associateHash_def)
next
  case False
  then obtain e where e: "\<not> fs_locked s" "fileOf s entryId = Some e" by auto
  then have b: "bindR (chkUnlocked s) (\<lambda>_. fs_getEntry entryId s) = Inr e"
    by (simp add: chkUnlocked_def fs_getEntry_def)
  from assms show thesis
  proof
    assume "(r, s') = associateChecksum entryId checksum s"
    with e b show thesis
      by (intro Made [of e "(eo_info e)\<lparr>ei_checksum := checksum, ei_isChecksumSet := True\<rparr>"])
        (simp_all add: associateChecksum_def same_paths_def)
  next
    assume "(r, s') = associateHash entryId hash s"
    with e b show thesis
      by (intro Made [of e "(eo_info e)\<lparr>ei_hash := Some (takeWhile (\<lambda>c. c \<noteq> CHR 0x00) hash)\<rparr>"])
        (simp_all add: associateHash_def same_paths_def)
  qed
qed

section \<open>Preservation\<close>

lemma paths_add:
  assumes "paths_wf s" "fileOf s i = None" "ei_relPath (eo_info e) = Some p" "p \<notin> set (fs_relPaths s)"
    "fileOf t = (fileOf s)(i \<mapsto> e)" "fs_relPaths t = p # fs_relPaths s"
  shows "paths_wf t"
proof -
  have old: "q \<in> set (fs_relPaths s) \<longleftrightarrow> (\<exists>j f. fileOf s j = Some f \<and> ei_relPath (eo_info f) = Some q)" for q
    using assms(1) by (simp add: paths_wf_def)
  have "q \<in> set (fs_relPaths t) \<longleftrightarrow> (\<exists>j f. fileOf t j = Some f \<and> ei_relPath (eo_info f) = Some q)" for q
  proof
    assume "q \<in> set (fs_relPaths t)"
    then consider "q = p" | "q \<in> set (fs_relPaths s)" using assms(6) by auto
    then show "\<exists>j f. fileOf t j = Some f \<and> ei_relPath (eo_info f) = Some q"
    proof cases
      case 1
      with assms(3,5) show ?thesis by (intro exI [of _ i]) simp
    next
      case 2
      then obtain j f where "fileOf s j = Some f" "ei_relPath (eo_info f) = Some q" using old by auto
      with assms(2,5) show ?thesis by (intro exI [of _ j]) auto
    qed
  next
    assume "\<exists>j f. fileOf t j = Some f \<and> ei_relPath (eo_info f) = Some q"
    then show "q \<in> set (fs_relPaths t)" using assms(3,5,6) old by (auto split: if_splits)
  qed
  moreover have "distinct (fs_relPaths t)" using assms(1,4,6) by (simp add: paths_wf_def)
  moreover have "j = k" if "fileOf t j = Some f" "fileOf t k = Some g" "ei_relPath (eo_info f) = ei_relPath (eo_info g)"
    for j k f g
    using that assms(1,3,4,5) old [of p] unfolding paths_wf_def by (auto split: if_splits)
  ultimately show ?thesis unfolding paths_wf_def by blast
qed

text \<open>Replacing an entry by one with the same path.\<close>

lemma paths_replace:
  assumes "paths_wf s" "fileOf s i = Some e" "ei_relPath (eo_info e') = ei_relPath (eo_info e)"
    "fileOf t = (fileOf s)(i \<mapsto> e')" "fs_relPaths t = fs_relPaths s"
  shows "paths_wf t"
proof -
  have "(\<exists>j f. fileOf t j = Some f \<and> ei_relPath (eo_info f) = Some q)
      \<longleftrightarrow> (\<exists>j f. fileOf s j = Some f \<and> ei_relPath (eo_info f) = Some q)" for q
  proof
    assume "\<exists>j f. fileOf s j = Some f \<and> ei_relPath (eo_info f) = Some q"
    then obtain j f where "fileOf s j = Some f" "ei_relPath (eo_info f) = Some q" by blast
    with assms(2,3,4) show "\<exists>j f. fileOf t j = Some f \<and> ei_relPath (eo_info f) = Some q"
      by (intro exI [of _ j] exI [of _ "if j = i then e' else f"]) auto
  qed (use assms(2,3,4) in \<open>auto split: if_splits\<close>)
  moreover have "j = k" if "fileOf t j = Some f" "fileOf t k = Some g" "ei_relPath (eo_info f) = ei_relPath (eo_info g)"
    for j k f g
    using that assms unfolding paths_wf_def by (auto split: if_splits)
  ultimately show ?thesis using assms(1,5) unfolding paths_wf_def by simp
qed

lemma files_replace:
  assumes "files_wf P s" "fileOf s i = Some e" "entry_wf P i e'"
    "fs_files t = AList.update i e' (fs_files s)" "fs_fileIds t = fs_fileIds s"
  shows "files_wf P t"
  using assms by (auto simp: files_wf_def update_conv' distinct_update)

lemma createEntry_wf:
  assumes "fs_wf P s" "entryId \<notin> set (fs_fileIds s)"
  shows "fs_wf P (snd (createEntry P entryId info s))"
  using assms
proof (cases rule: createEntry_cases [of P s entryId info])
  case (Made p)
  let ?e = "new_chunks entryId info"
  let ?s = "s\<lparr>fs_fileIds := fs_fileIds s @ [entryId], fs_files := AList.update entryId ?e (fs_files s),
      fs_relPaths := p # fs_relPaths s\<rparr>"
  have n: "fileOf s entryId = None" using assms by (auto simp: fs_wf_def files_wf_def)
  have f: "fileOf ?s = (fileOf s)(entryId \<mapsto> ?e)" by (simp add: update_conv')
  have "entry_wf P entryId ?e" using Made(3) by (auto simp: entry_wf_def new_chunks_def chkEntryInfo_ok)
  then have "files_wf P ?s"
    using assms unfolding files_wf_def f by (auto simp: fs_wf_def files_wf_def distinct_update)
  moreover have "paths_wf ?s"
    using assms(1) Made(2,4) by (intro paths_add [OF _ n _ _ f]) (simp_all add: fs_wf_def new_chunks_def)
  moreover have "chunks_wf ?s"
    using assms(1) n unfolding chunks_wf_def f fs_wf_def by (auto simp: new_chunks_def)
  ultimately show ?thesis using Made(5) by (simp add: fs_wf_def)
qed (use assms in simp)

lemma createChunk_wf:
  assumes "fs_wf P s" "chunkId \<notin> set (fs_chunkIds s)"
  shows "fs_wf P (snd (createChunk chunkId entryId info s))"
proof (cases rule: createChunk_cases [of chunkId entryId info s])
  case (Made e)
  let ?e = "e\<lparr>eo_chunkIds := eo_chunkIds e @ [chunkId],
      eo_chunksInfo := AList.update chunkId \<lparr>co_chunkId = chunkId, co_info = info\<rparr> (eo_chunksInfo e)\<rparr>"
  let ?s = "s\<lparr>fs_chunkIds := fs_chunkIds s @ [chunkId], fs_files := AList.update entryId ?e (fs_files s),
      fs_chunk2files := AList.update chunkId entryId (fs_chunk2files s)\<rparr>"
  have w: "files_wf P s" "paths_wf s" "chunks_wf s" using assms(1) by (simp_all add: fs_wf_def)
  have f: "fileOf ?s = (fileOf s)(entryId \<mapsto> ?e)" by (simp add: update_conv')
  have own: "ownerOf s c = Some i \<longleftrightarrow> (\<exists>x. fileOf s i = Some x \<and> c \<in> set (eo_chunkIds x))" for c i
    using w(3) by (simp add: chunks_wf_def)
  have new: "ownerOf s chunkId = None" using w(3) assms(2) by (auto simp: chunks_wf_def)
  then have nc: "chunkId \<notin> set (eo_chunkIds x)" if "fileOf s i = Some x" for i x
    using own [of chunkId i] that by auto
  have "entry_wf P entryId e" using w(1) Made(2) by (simp add: files_wf_def)
  then have "entry_wf P entryId ?e" using nc [OF Made(2)] by (auto simp: entry_wf_def update_conv')
  then have "files_wf P ?s" by (intro files_replace [OF w(1) Made(2)]) simp_all
  moreover have "paths_wf ?s" by (rule paths_replace [OF w(2) Made(2) _ f]) simp_all
  moreover have "chunks_wf ?s"
  proof -
    have "ownerOf ?s c = Some i \<longleftrightarrow> (\<exists>x. fileOf ?s i = Some x \<and> c \<in> set (eo_chunkIds x))" for c i
      using own [of c i] own [of c entryId] nc Made(2) new unfolding f by (auto simp: update_conv' split: if_splits)
    then show ?thesis using w(3) assms(2) by (auto simp: chunks_wf_def update_conv')
  qed
  ultimately show ?thesis using Made(3) by (simp add: fs_wf_def)
qed (use assms in simp)

lemma associate_wf:
  assumes "fs_wf P s" "(r, s') = associateChecksum entryId checksum s \<or> (r, s') = associateHash entryId hash s"
  shows "fs_wf P s'"
proof (cases rule: associate_cases [OF assms(2)])
  case (2 e info)
  let ?e = "e\<lparr>eo_info := info\<rparr>"
  have w: "files_wf P s" "paths_wf s" "chunks_wf s" using assms(1) by (simp_all add: fs_wf_def)
  have f: "fileOf s' = (fileOf s)(entryId \<mapsto> ?e)" using 2(5) by (simp add: update_conv')
  have "entry_wf P entryId e" using w(1) 2(2) by (simp add: files_wf_def)
  then have "entry_wf P entryId ?e" using 2(3) by (simp add: entry_wf_def same_paths_def)
  then have "files_wf P s'" using 2(5) by (intro files_replace [OF w(1) 2(2)]) simp_all
  moreover have "paths_wf s'" using 2(3,5) by (intro paths_replace [OF w(2) 2(2) _ f]) (simp_all add: same_paths_def)
  moreover have "chunks_wf s'" using w(3) 2(2,5) unfolding chunks_wf_def f by auto
  ultimately show ?thesis by (simp add: fs_wf_def)
qed (use assms in simp)

section \<open>Reachable states\<close>

inductive fs_reach :: "path_ops \<Rightarrow> fs_metadata \<Rightarrow> bool" for P where
  New: "fs_reach P new_fs_metadata"
| CreateEntry: "fs_reach P s \<Longrightarrow> entryId \<notin> set (fs_fileIds s) \<Longrightarrow> fs_reach P (snd (createEntry P entryId info s))"
| AssociateChecksum: "fs_reach P s \<Longrightarrow> fs_reach P (snd (associateChecksum entryId checksum s))"
| AssociateHash: "fs_reach P s \<Longrightarrow> fs_reach P (snd (associateHash entryId hash s))"
| CreateChunk: "fs_reach P s \<Longrightarrow> chunkId \<notin> set (fs_chunkIds s) \<Longrightarrow> fs_reach P (snd (createChunk chunkId entryId info s))"
| Finalize: "fs_reach P s \<Longrightarrow> fs_reach P (snd (fs_finalize s))"

lemma fs_reach_wf: "fs_reach P s \<Longrightarrow> fs_wf P s"
proof (induction rule: fs_reach.induct)
  case New
  show ?case by (simp add: fs_wf_def files_wf_def paths_wf_def chunks_wf_def new_fs_metadata_def)
next
  case (CreateEntry s entryId info)
  then show ?case by (intro createEntry_wf)
next
  case (AssociateChecksum s entryId checksum)
  then show ?case using associate_wf [of P s] by (metis prod.collapse)
next
  case (AssociateHash s entryId hash)
  then show ?case using associate_wf [of P s] by (metis prod.collapse)
next
  case (CreateChunk s chunkId entryId info)
  then show ?case by (intro createChunk_wf)
next
  case (Finalize s)
  then show ?case
    by (auto simp: fs_finalize_def fs_wf_def files_wf_def paths_wf_def chunks_wf_def split: sum.splits)
qed

text \<open>
  C16 In every reachable state the entries are those of the list of identifiers, every relative path is
  unique, not empty, not absolute and has no parent directory reference, every symbolic link has a
  target, and every chunk belongs to exactly the one entry that lists it; so a finalized object
  answers every query about a chunk it lists with the information of the entry that owns it.
\<close>

theorem fs_metadata_invariant:
  assumes "fs_reach P s"
  shows "fs_wf P s \<and> (fs_locked s \<longrightarrow> (\<forall>c \<in> set (fs_chunkIds s).
     \<exists>i (e :: entry_obj). queryEntryId c s = Inr i \<and> i \<in> set (fs_fileIds s) \<and> c \<in> set (eo_chunkIds e) \<and> queryChunks i s = Inr (eo_chunkIds e)
       \<and> loadEntryInfo i s = Inr (eo_info e) \<and> (\<exists>info. loadChunkInfo c s = Inr info)))"
proof (intro conjI impI ballI)
  show w: "fs_wf P s" by (rule fs_reach_wf [OF assms])
  fix c assume l: "fs_locked s" and c: "c \<in> set (fs_chunkIds s)"
  have "c \<in> dom (ownerOf s)" using w c by (simp add: fs_wf_def chunks_wf_def)
  then obtain i where i: "ownerOf s c = Some i" by blast
  then obtain e where e: "fileOf s i = Some e" "c \<in> set (eo_chunkIds e)" using w by (auto simp: fs_wf_def chunks_wf_def)
  then have "entry_wf P i e" "i \<in> set (fs_fileIds s)" using w by (auto simp: fs_wf_def files_wf_def)
  with e obtain k where "map_of (eo_chunksInfo e) c = Some k" by (auto simp: entry_wf_def)
  with l i e have "queryEntryId c s = Inr i" "queryChunks i s = Inr (eo_chunkIds e)" "loadEntryInfo i s = Inr (eo_info e)"
    "loadChunkInfo c s = Inr (co_info k)"
    by (simp_all add: queryEntryId_def queryChunks_def loadEntryInfo_def loadChunkInfo_def chkLocked_def fs_getEntry_def
        fs_getChunk_def)
  with e(2) \<open>i \<in> set (fs_fileIds s)\<close>
  show "\<exists>i (e :: entry_obj). queryEntryId c s = Inr i \<and> i \<in> set (fs_fileIds s) \<and> c \<in> set (eo_chunkIds e) \<and> queryChunks i s = Inr (eo_chunkIds e)
      \<and> loadEntryInfo i s = Inr (eo_info e) \<and> (\<exists>info. loadChunkInfo c s = Inr info)"
    by blast
qed

definition posix_paths :: path_ops where
  "posix_paths = \<lparr>root_path = (\<lambda>p. if p \<noteq> [] \<and> hd p = CHR ''/'' then ''/'' else []), path_elements = (\<lambda>p. [p])\<rparr>"

definition plain_entry :: "string \<Rightarrow> entry_info" where
  "plain_entry p = \<lparr>ei_type = File, ei_size = 3, ei_timeCreated = 0, ei_lastModified = 0, ei_flags = 0,
     ei_relPath = Some p, ei_targetPath = None, ei_sourcePath = None, ei_isChecksumSet = False, ei_checksum = 0,
     ei_hash = None\<rparr>"

definition plain_chunk :: chunk_info where
  "plain_chunk = \<lparr>ci_pos = 0, ci_size = 3, ci_checksum = 0, ci_hash = None, ci_isChunkDuplicate = False\<rparr>"

definition sample_metadata :: fs_metadata where
  "sample_metadata = snd (fs_finalize (snd (createChunk 9 1 plain_chunk (snd (createEntry posix_paths 1 (plain_entry ''a'')
     new_fs_metadata)))))"

lemmas eval_fs = sample_metadata_def fs_finalize_def createChunk_def createEntry_def new_fs_metadata_def chkUnlocked_def
  chkEntryInfo_def fs_getEntry_def posix_paths_def plain_entry_def plain_chunk_def new_chunks_def undoEntry_def Let_def

lemma sample_reach: "fs_reach posix_paths sample_metadata"
  unfolding sample_metadata_def
  by (intro fs_reach.Finalize fs_reach.CreateChunk fs_reach.CreateEntry fs_reach.New) (simp_all add: eval_fs)

lemma fs_metadata_invariant_witness:
  "\<exists>i (e :: entry_obj). queryEntryId 9 sample_metadata = Inr i \<and> queryChunks i sample_metadata = Inr (eo_chunkIds e) \<and> 9 \<in> set (eo_chunkIds e)"
proof -
  have "fs_locked sample_metadata" "9 \<in> set (fs_chunkIds sample_metadata)" by (simp_all add: eval_fs)
  with fs_metadata_invariant [OF sample_reach] show ?thesis by blast
qed

section \<open>Failing operations\<close>

datatype fs_call =
    CallCreateEntry fs_uuid entry_info
  | CallAssociateChecksum fs_uuid "32 word"
  | CallAssociateHash fs_uuid string
  | CallCreateChunk fs_uuid fs_uuid chunk_info
  | CallFinalize

text \<open>The exception of a call, if any, and the state after it.\<close>

definition failure :: "'a res \<times> fs_metadata \<Rightarrow> exc option \<times> fs_metadata" where
  "failure r = ((case fst r of Inl e \<Rightarrow> Some e | Inr _ \<Rightarrow> None), snd r)"

fun fs_perform :: "path_ops \<Rightarrow> fs_call \<Rightarrow> fs_metadata \<Rightarrow> exc option \<times> fs_metadata" where
  "fs_perform P (CallCreateEntry i info) s = failure (createEntry P i info s)"
| "fs_perform P (CallAssociateChecksum i c) s = failure (associateChecksum i c s)"
| "fs_perform P (CallAssociateHash i h) s = failure (associateHash i h s)"
| "fs_perform P (CallCreateChunk c i info) s = failure (createChunk c i info s)"
| "fs_perform P CallFinalize s = failure (fs_finalize s)"

fun fresh_id :: "fs_call \<Rightarrow> fs_metadata \<Rightarrow> bool" where
  "fresh_id (CallCreateEntry i info) s = (i \<notin> set (fs_fileIds s))"
| "fresh_id (CallCreateChunk c i info) s = (c \<notin> set (fs_chunkIds s))"
| "fresh_id _ s = True"

text \<open>
  C17 A call that changes the metadata either succeeds or leaves it exactly as it was, whichever check
  fails and however far the call had come; on a finalized object every such call fails.
\<close>

theorem fs_strong_guarantee:
  assumes "fs_reach P s" "fresh_id c s"
  shows "(case fst (fs_perform P c s) of None \<Rightarrow> \<not> fs_locked s \<and> fs_reach P (snd (fs_perform P c s))
     | Some e \<Rightarrow> e = UnexpectedExc \<and> snd (fs_perform P c s) = s)"
proof (cases c)
  case (CallCreateEntry i info)
  then have "i \<notin> set (fs_fileIds s)" using assms(2) by simp
  with fs_reach_wf [OF assms(1)] show ?thesis
  proof (cases rule: createEntry_cases [of P s i info])
    case (Made p)
    have "fs_reach P (snd (createEntry P i info s))" by (rule fs_reach.CreateEntry) fact+
    with Made show ?thesis using CallCreateEntry by (simp add: failure_def)
  qed (simp add: CallCreateEntry failure_def)
next
  case (CallAssociateChecksum i x)
  obtain r s' where a: "(r, s') = associateChecksum i x s" by (metis prod.collapse)
  have "fs_reach P s'" using fs_reach.AssociateChecksum [OF assms(1), of i x] a by (metis snd_conv)
  with a CallAssociateChecksum show ?thesis
    by (cases rule: associate_cases [OF disjI1 [OF a]]) (simp_all add: failure_def flip: a)
next
  case (CallAssociateHash i h)
  obtain r s' where a: "(r, s') = associateHash i h s" by (metis prod.collapse)
  have "fs_reach P s'" using fs_reach.AssociateHash [OF assms(1), of i h] a by (metis snd_conv)
  with a CallAssociateHash show ?thesis
    by (cases rule: associate_cases [OF disjI2 [OF a]]) (simp_all add: failure_def flip: a)
next
  case (CallCreateChunk k i info)
  then have "k \<notin> set (fs_chunkIds s)" using assms(2) by simp
  then have "fs_reach P (snd (createChunk k i info s))" by (intro fs_reach.CreateChunk assms(1))
  then show ?thesis
    by (cases rule: createChunk_cases [of k i info s]) (simp_all add: CallCreateChunk failure_def)
next
  case CallFinalize
  have "fs_reach P (snd (fs_finalize s))" by (rule fs_reach.Finalize [OF assms(1)])
  with CallFinalize show ?thesis by (auto simp: failure_def fs_finalize_def chkUnlocked_def chkR_def split: if_splits)
qed

lemma fs_strong_guarantee_witness:
  "snd (fs_perform posix_paths (CallCreateEntry 2 (plain_entry ''b'')) sample_metadata) = sample_metadata"
proof -
  have "fresh_id (CallCreateEntry 2 (plain_entry ''b'')) sample_metadata" "fs_locked sample_metadata"
    by (simp_all add: eval_fs)
  with fs_strong_guarantee [OF sample_reach, of "CallCreateEntry 2 (plain_entry ''b'')"] show ?thesis
    by (simp split: option.splits)
qed

section \<open>Comparing\<close>

text \<open>What the comparison of two entries looks at.\<close>

definition same_info :: "entry_info \<Rightarrow> entry_info \<Rightarrow> bool" where
  "same_info i j \<longleftrightarrow> ei_type i = ei_type j \<and> ei_size i = ei_size j \<and> ei_timeCreated i = ei_timeCreated j
     \<and> ei_lastModified i = ei_lastModified j \<and> ei_flags i = ei_flags j \<and> ei_relPath i = ei_relPath j
     \<and> ei_checksum i = ei_checksum j \<and> ei_targetPath i = ei_targetPath j"

lemma fnCompareEntries_eq:
  "ei_relPath i \<noteq> None \<Longrightarrow> ei_relPath j \<noteq> None \<Longrightarrow> fnCompareEntries i j = Inr (same_info i j)"
  by (auto simp: fnCompareEntries_def Let_def same_info_def)

definition same_entry :: "fs_metadata \<Rightarrow> fs_metadata \<Rightarrow> fs_uuid \<Rightarrow> bool" where
  "same_entry l r i \<longleftrightarrow> (\<exists>e f. fileOf l i = Some e \<and> fileOf r i = Some f \<and> same_info (eo_info e) (eo_info f)
     \<and> length (eo_chunkIds e) = length (eo_chunkIds f))"

lemma wf_relPath: "fs_wf P s \<Longrightarrow> fileOf s i = Some e \<Longrightarrow> ei_relPath (eo_info e) \<noteq> None"
proof -
  assume "fs_wf P s" "fileOf s i = Some e"
  then have "entry_wf P i e" by (simp add: fs_wf_def files_wf_def)
  then show ?thesis by (auto simp: entry_wf_def)
qed

lemma compareLoop_eq:
  assumes "fs_wf P l" "fs_wf P r" "fs_locked l" "fs_locked r"
  shows "distinct ids \<Longrightarrow> set ids \<inter> set seen = {} \<Longrightarrow> set ids \<subseteq> dom (fileOf l) \<Longrightarrow>
     compareLoop l r ids seen equal =
       (if set ids \<subseteq> dom (fileOf r) then Inr (rev ids @ seen, equal \<and> list_all (same_entry l r) ids)
        else Inl UnexpectedExc)"
proof (induction ids arbitrary: seen equal)
  case (Cons i ids)
  obtain e where e: "fileOf l i = Some e" using Cons.prems(3) by auto
  have n: "i \<notin> set seen" using Cons.prems(2) by auto
  show ?case
  proof (cases "fileOf r i")
    case None
    with e n assms(3,4) show ?thesis
      by (auto simp: loadEntryInfo_def chkLocked_def fs_getEntry_def)
  next
    case (Some f)
    have c: "fnCompareEntries (eo_info e) (eo_info f) = Inr (same_info (eo_info e) (eo_info f))"
      using wf_relPath [OF assms(1) e] wf_relPath [OF assms(2) Some] by (rule fnCompareEntries_eq)
    have se: "same_entry l r i \<longleftrightarrow> same_info (eo_info e) (eo_info f) \<and> length (eo_chunkIds e) = length (eo_chunkIds f)"
      using e Some by (simp add: same_entry_def)
    have "compareLoop l r (i # ids) seen equal = compareLoop l r ids (i # seen)
        (equal \<and> same_info (eo_info e) (eo_info f) \<and> length (eo_chunkIds e) = length (eo_chunkIds f))"
      using e Some n assms(3,4)
      by (simp add: loadEntryInfo_def queryChunksCount_def chkLocked_def fs_getEntry_def c)
    also have "\<dots> = (if set ids \<subseteq> dom (fileOf r) then Inr (rev ids @ i # seen,
        (equal \<and> same_info (eo_info e) (eo_info f) \<and> length (eo_chunkIds e) = length (eo_chunkIds f))
          \<and> list_all (same_entry l r) ids) else Inl UnexpectedExc)"
      using Cons.prems n by (intro Cons.IH) auto
    finally show ?thesis using Some se by auto
  qed
qed simp

lemma compareRest_eq: "compareRest seen ids = (if set ids \<subseteq> set seen then Inr () else Inl UnexpectedExc)"
  by (induction ids) (auto simp: chkR_def)

text \<open>
  Comparing two finalized objects raises an exception exactly when their entries have different
  identifiers, and otherwise says whether every two entries agree in type, size, times, flags, paths,
  checksum and number of chunks.
\<close>

theorem fs_compare:
  assumes "fs_reach P l" "fs_reach P r" "fs_locked l" "fs_locked r"
  shows "areEqual l r = (if set (fs_fileIds l) = set (fs_fileIds r)
     then Inr (list_all (same_entry l r) (fs_fileIds l)) else Inl UnexpectedExc)"
proof -
  have w: "fs_wf P l" "fs_wf P r" using assms fs_reach_wf by auto
  have d: "distinct (fs_fileIds l)" "distinct (fs_fileIds r)" "dom (fileOf l) = set (fs_fileIds l)"
    "dom (fileOf r) = set (fs_fileIds r)"
    using w by (simp_all add: fs_wf_def files_wf_def)
  have loop: "compareLoop l r (fs_fileIds l) [] eq =
      (if set (fs_fileIds l) \<subseteq> set (fs_fileIds r) then Inr (rev (fs_fileIds l) @ [], eq \<and> list_all (same_entry l r) (fs_fileIds l))
       else Inl UnexpectedExc)" for eq
    using compareLoop_eq [OF w assms(3,4), of "fs_fileIds l" "[]" eq] d by simp
  have len: "length (fs_fileIds l) = length (fs_fileIds r)" if "set (fs_fileIds l) = set (fs_fileIds r)"
    using that d(1,2) by (metis distinct_card)
  show ?thesis
    using assms(3,4) len
    by (auto simp: areEqual_def queryEntriesCount_def queryAllEntries_def chkLocked_def loop compareRest_eq)
qed

lemma fs_compare_witness: "areEqual sample_metadata sample_metadata = Inr True"
proof -
  have "fs_locked sample_metadata" by (simp add: eval_fs)
  moreover have "list_all (same_entry sample_metadata sample_metadata) (fs_fileIds sample_metadata)"
    by (simp add: eval_fs same_entry_def same_info_def)
  ultimately show ?thesis using fs_compare [OF sample_reach sample_reach] by simp
qed

section \<open>Statistics\<close>

text \<open>The number of entries of a type.\<close>

definition count_type :: "entry_type \<Rightarrow> (fs_uuid \<times> entry_obj) list \<Rightarrow> nat" where
  "count_type t es = length (filter (\<lambda>e. ei_type (eo_info (snd e)) = t) es)"

lemma statisticsLoop_eq:
  "statisticsLoop es r =
     (if list_all (\<lambda>e. ei_type (eo_info (snd e)) \<in> {File, Directory, Symlink}) es
      then Inr (r\<lparr>ms_symlinksCount := ms_symlinksCount r + of_nat (count_type Symlink es),
                  ms_directoriesCount := ms_directoriesCount r + of_nat (count_type Directory es),
                  ms_filesCount := ms_filesCount r + of_nat (count_type File es),
                  ms_totalSize := ms_totalSize r + sum_list (map (\<lambda>e. ei_size (eo_info (snd e))) es)\<rparr>)
      else Inl UnexpectedExc)"
proof (induction es arbitrary: r)
  case (Cons e es)
  then show ?case
    by (cases "ei_type (eo_info (snd e))") (simp_all add: Let_def count_type_def algebra_simps)
qed (simp add: count_type_def)

end
