(* ===== verification/Endpoints.thy ===== *)
theory Endpoints
  imports Prelude "HOL-Library.AList"
begin

text \<open>
  The endpoint selectors of \<open>core/EndpointSelectorImpl.h\<close>: iterators that go around the endpoints and
  bound the retries of each.  Times are in microseconds and given with each call; the time of the
  last retry is \<^term>\<open>None\<close> for negative infinity.  The entries belong to the selector, which its
  iterators share, so they are an argument.
\<close>

section \<open>The base class\<close>

record endpoint_base =
  ep_approxLastRetryTime :: "int option"
  ep_maxRetryCount :: nat
  ep_retryTimeout :: int

definition DEFAULT_MAX_RETRY_COUNT :: nat where "DEFAULT_MAX_RETRY_COUNT = 15"
definition DEFAULT_RETRY_TIMEOUT :: int where "DEFAULT_RETRY_TIMEOUT = 6 * 1000000"

text \<open>
  \<open>canRetryNow\<close>, given what the virtual \<open>canRetry\<close> answers: the result and the value left in the
  \<open>timeout\<close> argument, which may be null.
\<close>

definition canRetryNow ::
  "bool \<Rightarrow> int \<Rightarrow> int option \<Rightarrow> 'a endpoint_base_scheme \<Rightarrow> bool \<times> int option \<times> 'a endpoint_base_scheme" where
  "canRetryNow canRetry now timeout e =
     (let out = (\<lambda>v. case timeout of None \<Rightarrow> None | Some _ \<Rightarrow> Some v) in
      if \<not> canRetry then (False, out 0, e)
      else case ep_approxLastRetryTime e of
        None \<Rightarrow> (True, timeout, e\<lparr>ep_approxLastRetryTime := Some now\<rparr>)
      | Some t \<Rightarrow>
          (let nextAttempt = t + ep_retryTimeout e in
           if now \<ge> nextAttempt then (True, out 0, e\<lparr>ep_approxLastRetryTime := Some now\<rparr>)
           else (False, out ((nextAttempt - now) + 200 * 1000), e)))"

section \<open>One endpoint\<close>

record simple_iterator = endpoint_base +
  si_host :: string
  si_port :: "16 word"
  si_retryCount :: nat

definition new_simple_iterator :: "string \<Rightarrow> 16 word \<Rightarrow> nat \<Rightarrow> int \<Rightarrow> simple_iterator" where
  "new_simple_iterator host port maxRetryCount retryTimeout =
     \<lparr>ep_approxLastRetryTime = None, ep_maxRetryCount = maxRetryCount, ep_retryTimeout = retryTimeout,
      si_host = host, si_port = port, si_retryCount = 0\<rparr>"

definition simple_canRetry :: "simple_iterator \<Rightarrow> bool" where
  "simple_canRetry it \<longleftrightarrow> si_retryCount it < ep_maxRetryCount it"

definition simple_selectNext :: "int \<Rightarrow> simple_iterator \<Rightarrow> bool \<times> simple_iterator" where
  "simple_selectNext now it =
     (let it1 = it\<lparr>si_retryCount := si_retryCount it + 1, ep_approxLastRetryTime := Some now\<rparr>
      in (simple_canRetry it1, it1))"

definition simple_resetRetry :: "simple_iterator \<Rightarrow> simple_iterator" where
  "simple_resetRetry it = it\<lparr>si_retryCount := 0, ep_approxLastRetryTime := None\<rparr>"

definition simple_count :: nat where "simple_count = 1"

record simple_selector =
  ss_host :: string
  ss_port :: "16 word"
  ss_maxRetryCount :: nat
  ss_retryTimeout :: int

definition simple_createIterator :: "simple_selector \<Rightarrow> simple_iterator" where
  "simple_createIterator s = new_simple_iterator (ss_host s) (ss_port s) (ss_maxRetryCount s) (ss_retryTimeout s)"

section \<open>Several endpoints\<close>

type_synonym entries = "(string \<times> 16 word) list"

record endpoint_selector =
  es_entries :: entries
  es_port :: "16 word"

definition addHost :: "string \<Rightarrow> endpoint_selector \<Rightarrow> endpoint_selector" where
  "addHost host s = s\<lparr>es_entries := es_entries s @ [(host, es_port s)]\<rparr>"

definition addHostPort :: "string \<Rightarrow> 16 word \<Rightarrow> endpoint_selector \<Rightarrow> endpoint_selector" where
  "addHostPort host port s = s\<lparr>es_entries := es_entries s @ [(host, port)]\<rparr>"

definition new_endpoint_selector :: "16 word \<Rightarrow> string list \<Rightarrow> endpoint_selector" where
  "new_endpoint_selector port hosts = foldl (\<lambda>s host. addHost host s) \<lparr>es_entries = [], es_port = port\<rparr> hosts"

record circular_iterator = endpoint_base +
  ci_index :: nat
  ci_retryCounts :: "(nat \<times> nat) list"

text \<open>\<open>m_retryCounts[ index ]\<close>, which adds an entry with the initial value.\<close>

definition retryCount :: "nat \<Rightarrow> circular_iterator \<Rightarrow> nat" where
  "retryCount i it = (case map_of (ci_retryCounts it) i of None \<Rightarrow> 0 | Some n \<Rightarrow> n)"

definition touchCount :: "nat \<Rightarrow> circular_iterator \<Rightarrow> circular_iterator" where
  "touchCount i it = it\<lparr>ci_retryCounts := AList.update i (retryCount i it) (ci_retryCounts it)\<rparr>"

definition chkIndex :: "entries \<Rightarrow> circular_iterator \<Rightarrow> unit res" where
  "chkIndex entries it = chkR (ci_index it \<noteq> length entries) UnexpectedExc"

definition createIterator :: "endpoint_selector \<Rightarrow> circular_iterator res" where
  "createIterator s =
     (let it = \<lparr>ep_approxLastRetryTime = None, ep_maxRetryCount = DEFAULT_MAX_RETRY_COUNT,
                ep_retryTimeout = DEFAULT_RETRY_TIMEOUT, ci_index = 0, ci_retryCounts = []\<rparr>
      in bindR (chkIndex (es_entries s) it) (\<lambda>_. Inr it))"

definition circular_canRetry :: "circular_iterator \<Rightarrow> bool \<times> circular_iterator" where
  "circular_canRetry it =
     (let it1 = touchCount (ci_index it) it in (retryCount (ci_index it1) it1 < ep_maxRetryCount it1, it1))"

definition circular_selectNext :: "entries \<Rightarrow> int \<Rightarrow> circular_iterator \<Rightarrow> bool res \<times> circular_iterator" where
  "circular_selectNext entries now it =
     (let it1 = it\<lparr>ci_index := ci_index it + 1\<rparr>;
          (r, it2) = (if ci_index it1 = length entries
                      then let it3 = it1\<lparr>ci_index := 0\<rparr> in (chkIndex entries it3, it3) else (Inr (), it1))
      in case r of Inl e \<Rightarrow> (Inl e, it2)
         | Inr _ \<Rightarrow>
             (let it4 = it2\<lparr>ci_retryCounts := AList.update (ci_index it2) (retryCount (ci_index it2) it2 + 1)
                            (ci_retryCounts it2), ep_approxLastRetryTime := Some now\<rparr>;
                  (ok, it5) = circular_canRetry it4
              in (Inr ok, it5)))"

definition circular_resetRetry :: "circular_iterator \<Rightarrow> circular_iterator" where
  "circular_resetRetry it =
     it\<lparr>ci_retryCounts := map (\<lambda>(i, n). (i, 0)) (ci_retryCounts it), ep_approxLastRetryTime := None\<rparr>"

definition circular_host :: "entries \<Rightarrow> circular_iterator \<Rightarrow> string res" where
  "circular_host entries it =
     bindR (chkR (ci_index it < length entries) AssertFailed) (\<lambda>_. Inr (fst (entries ! ci_index it)))"

definition circular_port :: "entries \<Rightarrow> circular_iterator \<Rightarrow> 16 word res" where
  "circular_port entries it =
     bindR (chkR (ci_index it < length entries) AssertFailed) (\<lambda>_. Inr (snd (entries ! ci_index it)))"

section \<open>The contract of an iterator\<close>

text \<open>
  \<open>left\<close> is the number of selections that may still answer that a retry is possible, \<open>full\<close> the number
  after a reset.
\<close>

locale retrying =
  fixes select :: "int \<Rightarrow> 'it \<Rightarrow> bool \<times> 'it" and reset :: "'it \<Rightarrow> 'it" and good :: "'it \<Rightarrow> bool"
    and left :: "'it \<Rightarrow> nat" and full :: "'it \<Rightarrow> nat"
  assumes select_good: "good it \<Longrightarrow> good (snd (select now it)) \<and> full (snd (select now it)) = full it"
    and select_left: "good it \<Longrightarrow> left it = left (snd (select now it)) + (if fst (select now it) then 1 else 0)"
    and reset_good: "good it \<Longrightarrow> good (reset it) \<and> left (reset it) = full it \<and> full (reset it) = full it"
    and left_full: "good it \<Longrightarrow> left it \<le> full it"
begin

text \<open>A sequence of selections at the given times; how many answered that a retry is possible.\<close>

primrec selects :: "int list \<Rightarrow> 'it \<Rightarrow> nat \<times> 'it" where
  "selects [] it = (0, it)"
| "selects (now # nows) it =
     (let (ok, it1) = select now it; (n, it2) = selects nows it1 in ((if ok then n + 1 else n), it2))"

lemma selects_left:
  "good it \<Longrightarrow> good (snd (selects nows it)) \<and> full (snd (selects nows it)) = full it
     \<and> left it = left (snd (selects nows it)) + fst (selects nows it)"
proof (induction nows arbitrary: it)
  case (Cons now nows)
  let ?it = "snd (select now it)"
  have "good ?it" using select_good [OF Cons.prems] by simp
  from Cons.IH [OF this] select_good [OF Cons.prems, of now] select_left [OF Cons.prems, of now] show ?case
    by (simp add: case_prod_beta Let_def)
qed simp

lemma selects_bound: "good it \<Longrightarrow> fst (selects nows (reset it)) \<le> full it"
  using selects_left [of "reset it" nows] reset_good [of it] by linarith

end

end
