(* ===== verification/EndpointProps.thy ===== *)
theory EndpointProps
  imports Endpoints
begin

text \<open>
  The properties of the endpoint iterators: both keep the contract of a bounded number of retries, the
  circular one goes around the endpoints evenly, and retries are spaced by the timeout.
\<close>

section \<open>The contract\<close>

interpretation simple: retrying simple_selectNext simple_resetRetry "\<lambda>_. True"
  "\<lambda>it. ep_maxRetryCount it - 1 - si_retryCount it" "\<lambda>it. ep_maxRetryCount it - 1"
  by unfold_locales (auto simp: simple_selectNext_def simple_resetRetry_def simple_canRetry_def Let_def)

lemma retryCount_update [simp]:
  "retryCount i (it\<lparr>ci_retryCounts := AList.update j n xs\<rparr>)
     = (if i = j then n else retryCount i (it\<lparr>ci_retryCounts := xs\<rparr>))"
  by (simp add: retryCount_def update_conv')

lemma retryCount_other [simp]:
  "retryCount i (it\<lparr>ci_index := a\<rparr>) = retryCount i it"
  "retryCount i (it\<lparr>ep_approxLastRetryTime := t\<rparr>) = retryCount i it"
  "retryCount i (it\<lparr>ci_retryCounts := ci_retryCounts it\<rparr>) = retryCount i it"
  by (simp_all add: retryCount_def)

lemma map_of_zero: "map_of (map (\<lambda>(i, n). (i, 0 :: nat)) xs) i = (if i \<in> fst ` set xs then Some 0 else None)"
proof (induction xs)
  case (Cons p xs)
  then show ?case by (cases p) (simp add: eq_commute)
qed simp

lemma retryCount_reset [simp]: "retryCount i (circular_resetRetry it) = 0"
  by (simp add: retryCount_def circular_resetRetry_def map_of_zero)

text \<open>A selection of the circular iterator, on its index and counts.\<close>

lemma circular_selectNext_eq:
  assumes "ci_index it < length entries"
  obtains it' where "circular_selectNext entries now it = (Inr (retryCount (ci_index it') it' < ep_maxRetryCount it), it')"
    and "ci_index it' = (ci_index it + 1) mod length entries"
    and "\<And>i. retryCount i it' = retryCount i it + (if i = ci_index it' then 1 else 0)"
    and "ep_maxRetryCount it' = ep_maxRetryCount it" and "ep_approxLastRetryTime it' = Some now"
proof -
  define j where "j = (ci_index it + 1) mod length entries"
  have j: "j = (if ci_index it + 1 = length entries then 0 else ci_index it + 1)"
    using assms by (simp add: j_def)
  have ne: "length entries \<noteq> 0" using assms by linarith
  define it1 where "it1 = it\<lparr>ci_index := j, ci_retryCounts :=
      AList.update j (retryCount j it + 1) (ci_retryCounts it), ep_approxLastRetryTime := Some now\<rparr>"
  have r1: "retryCount i it1 = retryCount i it + (if i = j then 1 else 0)" for i
    by (simp add: it1_def retryCount_def update_conv')
  have sel: "circular_selectNext entries now it = (let (ok, it5) = circular_canRetry it1 in (Inr ok, it5))"
    using ne unfolding circular_selectNext_def it1_def j
    by (simp add: chkIndex_def chkR_def Let_def)
  show ?thesis
  proof
    show "circular_selectNext entries now it
        = (Inr (retryCount (ci_index (touchCount j it1)) (touchCount j it1) < ep_maxRetryCount it), touchCount j it1)"
      unfolding sel by (simp add: circular_canRetry_def Let_def touchCount_def it1_def)
    show "ci_index (touchCount j it1) = (ci_index it + 1) mod length entries"
      by (simp add: touchCount_def it1_def j_def)
    show "retryCount i (touchCount j it1) = retryCount i it + (if i = ci_index (touchCount j it1) then 1 else 0)" for i
      by (simp add: touchCount_def r1) (simp add: it1_def)
  qed (simp_all add: touchCount_def it1_def)
qed

definition circularSelects :: "entries \<Rightarrow> int \<Rightarrow> circular_iterator \<Rightarrow> bool \<times> circular_iterator" where
  "circularSelects entries now it = (let (r, it') = circular_selectNext entries now it in (r = Inr True, it'))"

lemma sum_step:
  fixes f :: "nat \<Rightarrow> nat"
  assumes "i < n" and "\<And>k. k \<noteq> i \<Longrightarrow> f' k = f k" and "f i = f' i + d"
  shows "sum f {..<n} = sum f' {..<n} + d"
proof -
  have "sum f {..<n} = f i + sum f ({..<n} - {i})" using assms(1) by (simp add: sum.remove)
  also have "sum f ({..<n} - {i}) = sum f' ({..<n} - {i})" by (rule sum.cong) (simp_all add: assms(2))
  also have "f i + sum f' ({..<n} - {i}) = sum f' {..<n} + d"
    using assms(1) by (simp add: sum.remove [of "{..<n}" i f'] assms(3))
  finally show ?thesis .
qed

interpretation circ: retrying "circularSelects entries" circular_resetRetry "\<lambda>it. ci_index it < length entries"
  "\<lambda>it. \<Sum>i<length entries. ep_maxRetryCount it - 1 - retryCount i it"
  "\<lambda>it. length entries * (ep_maxRetryCount it - 1)" for entries
proof
  fix it :: circular_iterator and now assume g: "ci_index it < length entries"
  from circular_selectNext_eq [OF this, of now] obtain it' where
      e: "circular_selectNext entries now it = (Inr (retryCount (ci_index it') it' < ep_maxRetryCount it), it')"
    and i: "ci_index it' = (ci_index it + 1) mod length entries"
    and r: "\<And>i. retryCount i it' = retryCount i it + (if i = ci_index it' then 1 else 0)"
    and m: "ep_maxRetryCount it' = ep_maxRetryCount it" by blast
  have s: "circularSelects entries now it = (retryCount (ci_index it') it' < ep_maxRetryCount it, it')"
    by (simp add: circularSelects_def e)
  have j: "ci_index it' < length entries" using g unfolding i by (intro mod_less_divisor) linarith
  show "ci_index (snd (circularSelects entries now it)) < length entries
      \<and> length entries * (ep_maxRetryCount (snd (circularSelects entries now it)) - 1)
        = length entries * (ep_maxRetryCount it - 1)"
    using j by (simp add: s m)
  show "(\<Sum>i<length entries. ep_maxRetryCount it - 1 - retryCount i it)
      = (\<Sum>i<length entries. ep_maxRetryCount (snd (circularSelects entries now it)) - 1
            - retryCount i (snd (circularSelects entries now it)))
        + (if fst (circularSelects entries now it) then 1 else 0)"
    unfolding s fst_conv snd_conv m
    by (rule sum_step [where i = "ci_index it'"]) (use j r in auto)
next
  fix it :: circular_iterator assume "ci_index it < length entries"
  then show "ci_index (circular_resetRetry it) < length entries
      \<and> (\<Sum>i<length entries. ep_maxRetryCount (circular_resetRetry it) - 1 - retryCount i (circular_resetRetry it))
        = length entries * (ep_maxRetryCount it - 1)
      \<and> length entries * (ep_maxRetryCount (circular_resetRetry it) - 1) = length entries * (ep_maxRetryCount it - 1)"
    by (simp, simp add: circular_resetRetry_def)
next
  fix it :: circular_iterator
  have "(\<Sum>i<length entries. ep_maxRetryCount it - 1 - retryCount i it)
      \<le> (\<Sum>i<length entries. ep_maxRetryCount it - 1)" by (rule sum_mono) simp
  then show "(\<Sum>i<length entries. ep_maxRetryCount it - 1 - retryCount i it)
      \<le> length entries * (ep_maxRetryCount it - 1)" by simp
qed

section \<open>Around the endpoints\<close>

text \<open>What a client sees of a sequence of selections: the answer, then the endpoint selected.\<close>

primrec circularRun ::
  "entries \<Rightarrow> int list \<Rightarrow> circular_iterator \<Rightarrow> (bool res \<times> string res \<times> 16 word res) list" where
  "circularRun entries [] it = []"
| "circularRun entries (now # nows) it =
     (let (r, it1) = circular_selectNext entries now it
      in (r, circular_host entries it1, circular_port entries it1) # circularRun entries nows it1)"

text \<open>After \<open>k\<close> selections the iterator has gone around \<open>k div n\<close> times.\<close>

definition wentAround :: "nat \<Rightarrow> nat \<Rightarrow> circular_iterator \<Rightarrow> bool" where
  "wentAround n k it \<longleftrightarrow> ci_index it = k mod n \<and> (\<forall>d<n. retryCount ((k + 1 + d) mod n) it = (k + d) div n)"

lemma mod_shift_neq: "0 < d \<Longrightarrow> d < n \<Longrightarrow> (a + d) mod n \<noteq> a mod (n :: nat)"
  by (metis add_diff_cancel_left' dvd_imp_le le_add1 leD mod_eq_dvd_iff_nat)

lemma wentAround_next:
  assumes w: "wentAround (length entries) k it" and ne: "entries \<noteq> []"
  obtains it' where "circular_selectNext entries now it
      = (Inr (k div length entries + 1 < ep_maxRetryCount it), it')"
    and "wentAround (length entries) (Suc k) it'" and "ep_maxRetryCount it' = ep_maxRetryCount it"
proof -
  let ?n = "length entries"
  have n0: "0 < ?n" using ne by simp
  then have "ci_index it < ?n" using w by (simp add: wentAround_def)
  then obtain it' where
      e: "circular_selectNext entries now it = (Inr (retryCount (ci_index it') it' < ep_maxRetryCount it), it')"
    and i: "ci_index it' = (ci_index it + 1) mod ?n"
    and r: "\<And>i. retryCount i it' = retryCount i it + (if i = ci_index it' then 1 else 0)"
    and m: "ep_maxRetryCount it' = ep_maxRetryCount it" by (rule circular_selectNext_eq [where now = now]) blast
  have i': "ci_index it' = (k + 1) mod ?n" using w unfolding i wentAround_def by (simp add: mod_simps)
  have c: "retryCount ((k + 1 + d) mod ?n) it = (k + d) div ?n" if "d < ?n" for d
    using w that by (auto simp: wentAround_def)
  from c [of 0] n0 have j: "retryCount ((k + 1) mod ?n) it' = k div ?n + 1" unfolding r i' by simp
  have "retryCount ((Suc k + 1 + d) mod ?n) it' = (Suc k + d) div ?n" if d: "d < ?n" for d
  proof (cases "d + 1 = ?n")
    case True
    have "Suc k + 1 + d = (k + 1) + ?n" using True by linarith
    then have a: "(Suc k + 1 + d) mod ?n = (k + 1) mod ?n" by (simp only: mod_add_self2)
    have "Suc k + d = k + ?n" using True by linarith
    then have b: "(Suc k + d) div ?n = k div ?n + 1" using n0 by (simp only: div_add_self2)
    show ?thesis unfolding a b by (rule j)
  next
    case False
    have "(Suc k + 1 + d) mod ?n \<noteq> (k + 1) mod ?n"
      using mod_shift_neq [of "d + 1" ?n "k + 1"] d False by simp
    then show ?thesis using c [of "d + 1"] d False unfolding r i' by simp
  qed
  then have "wentAround ?n (Suc k) it'" by (simp add: wentAround_def i')
  then show ?thesis using that e m unfolding i' j by metis
qed

lemma circularRun_wentAround:
  assumes "wentAround (length entries) k it" and "entries \<noteq> []" and "j < length nows"
  shows "circularRun entries nows it ! j
    = (Inr ((k + j) div length entries + 1 < ep_maxRetryCount it),
       Inr (fst (entries ! ((k + j + 1) mod length entries))), Inr (snd (entries ! ((k + j + 1) mod length entries))))"
  using assms(1,3)
proof (induction nows arbitrary: k it j)
  case (Cons now nows)
  obtain it' where e: "circular_selectNext entries now it = (Inr (k div length entries + 1 < ep_maxRetryCount it), it')"
    and w: "wentAround (length entries) (Suc k) it'" and m: "ep_maxRetryCount it' = ep_maxRetryCount it"
    by (rule wentAround_next [OF Cons.prems(1) assms(2)])
  have i: "ci_index it' = Suc k mod length entries" "Suc k mod length entries < length entries"
    using w assms(2) by (simp_all add: wentAround_def)
  show ?case
  proof (cases j)
    case 0
    then show ?thesis using i by (simp add: e circular_host_def circular_port_def chkR_def)
  next
    case (Suc j')
    then show ?thesis using Cons.IH [OF w, of j'] Cons.prems(2) by (simp add: e m)
  qed
qed simp

lemma createIterator_wentAround:
  "createIterator s = Inr it \<Longrightarrow> es_entries s \<noteq> [] \<and> wentAround (length (es_entries s)) 0 it
     \<and> ep_maxRetryCount it = DEFAULT_MAX_RETRY_COUNT"
  by (auto simp: createIterator_def chkIndex_def chkR_def wentAround_def retryCount_def Let_def split: if_splits)

text \<open>
  An iterator is created for every selector that has endpoints, and for no other; and its selections
  go around the endpoints in the order in which they were added, beginning with the second: the selection
  number \<open>k\<close> (from zero) selects endpoint \<open>k + 1\<close> modulo the number \<open>n\<close> of endpoints, and answers that
  the endpoint may be retried exactly when it went around fewer than fourteen times, so that no
  endpoint is favoured.  (The first endpoint is the one selected before any selection.)
\<close>

theorem endpoint_round_robin:
  "(createIterator s \<noteq> Inl UnexpectedExc \<longleftrightarrow> es_entries s \<noteq> [])
    \<and> (\<forall>it. createIterator s = Inr it \<longrightarrow>
        circular_host (es_entries s) it = Inr (fst (hd (es_entries s)))
        \<and> (\<forall>k < length nows. let n = length (es_entries s); e = es_entries s ! ((k + 1) mod n)
             in circularRun (es_entries s) nows it ! k = (Inr (k div n < 14), Inr (fst e), Inr (snd e))))"
proof (intro conjI allI impI)
  show "createIterator s \<noteq> Inl UnexpectedExc \<longleftrightarrow> es_entries s \<noteq> []"
    by (simp add: createIterator_def chkIndex_def chkR_def)
next
  fix it assume c: "createIterator s = Inr it"
  note w = createIterator_wentAround [OF c]
  show "circular_host (es_entries s) it = Inr (fst (hd (es_entries s)))"
    using w by (simp add: circular_host_def chkR_def wentAround_def hd_conv_nth)
  fix k assume "k < length nows"
  then show "let n = length (es_entries s); e = es_entries s ! ((k + 1) mod n)
       in circularRun (es_entries s) nows it ! k = (Inr (k div n < 14), Inr (fst e), Inr (snd e))"
    using circularRun_wentAround [of "es_entries s" 0 it k nows] w by (simp add: Let_def DEFAULT_MAX_RETRY_COUNT_def)
qed

lemma endpoint_round_robin_witness:
  "\<exists>it. createIterator (new_endpoint_selector 80 [''a'', ''b'']) = Inr it
     \<and> circularRun [(''a'', 80), (''b'', 80)] [1, 2, 3] it ! 1 = (Inr True, Inr ''a'', Inr 80)"
proof -
  let ?s = "new_endpoint_selector 80 [''a'', ''b'']"
  have es: "es_entries ?s = [(''a'', 80), (''b'', 80)]" by (simp add: new_endpoint_selector_def addHost_def)
  obtain it where it: "createIterator ?s = Inr it" by (simp add: createIterator_def chkIndex_def chkR_def es)
  have "createIterator ?s = Inr it \<longrightarrow> circularRun (es_entries ?s) [1, 2, 3] it ! 1 = (Inr True, Inr ''a'', Inr 80)"
    using endpoint_round_robin [of ?s "[1, 2, 3]"] by (simp add: es Let_def)
  with it show ?thesis by (simp add: es)
qed

section \<open>Bounded retries\<close>

lemma circularRun_selects:
  "length [r \<leftarrow> circularRun entries nows it. fst r = Inr True] = fst (circ.selects entries nows it)"
  by (induction nows arbitrary: it) (simp_all add: circularSelects_def case_prod_beta Let_def)

text \<open>
  Once the retries of an iterator are reset, the endpoints answer that they may be retried at most
  fourteen times each, however many selections there are and whatever their times: the client
  gives up after a bounded number of them.
\<close>

theorem endpoint_retry_budget:
  assumes "ci_index it < length entries"
  shows "length [r \<leftarrow> circularRun entries nows (circular_resetRetry it). fst r = Inr True]
    \<le> length entries * (ep_maxRetryCount it - 1)"
  unfolding circularRun_selects by (rule circ.selects_bound [OF assms])

lemma endpoint_retry_budget_witness:
  "length [r \<leftarrow> circularRun [(''a'', 80)] nows (circular_resetRetry
      \<lparr>ep_approxLastRetryTime = None, ep_maxRetryCount = 3, ep_retryTimeout = 6, ci_index = 0, ci_retryCounts = []\<rparr>).
      fst r = Inr True] \<le> 2"
  using endpoint_retry_budget [of "\<lparr>ep_approxLastRetryTime = None, ep_maxRetryCount = 3, ep_retryTimeout = 6,
      ci_index = 0, ci_retryCounts = []\<rparr>" "[(''a'', 80)]" nows] by simp

section \<open>The rate of the retries\<close>

text \<open>The times at which \<open>canRetryNow\<close> allowed a retry; each call has the answer of \<open>canRetry\<close> and its time.\<close>

primrec allowedAt :: "(bool \<times> int) list \<Rightarrow> 'a endpoint_base_scheme \<Rightarrow> int list" where
  "allowedAt [] e = []"
| "allowedAt (c # calls) e =
     (let (ok, out, e1) = canRetryNow (fst c) (snd c) (Some 0) e
      in (if ok then [snd c] else []) @ allowedAt calls e1)"

lemma canRetryNow_cases:
  assumes "canRetryNow c now timeout e = (ok, out, e1)"
  shows "ep_retryTimeout e1 = ep_retryTimeout e
    \<and> (if ok then c \<and> ep_approxLastRetryTime e1 = Some now
             \<and> (\<forall>t. ep_approxLastRetryTime e = Some t \<longrightarrow> t + ep_retryTimeout e \<le> now) else e1 = e)"
  using assms by (auto simp: canRetryNow_def Let_def split: if_splits option.splits)

lemma allowedAt_apart:
  "successively (\<lambda>a b. a + ep_retryTimeout e \<le> b)
     ((case ep_approxLastRetryTime e of None \<Rightarrow> [] | Some t \<Rightarrow> [t]) @ allowedAt calls e)"
proof (induction calls arbitrary: e)
  case (Cons c calls)
  obtain ok out e1 where r: "canRetryNow (fst c) (snd c) (Some 0) e = (ok, out, e1)" by (cases "canRetryNow (fst c) (snd c) (Some 0) e")
  have a: "allowedAt (c # calls) e = (if ok then [snd c] else []) @ allowedAt calls e1" by (simp add: r)
  show ?case unfolding a using Cons.IH [of e1] canRetryNow_cases [OF r]
    by (cases ok; cases "ep_approxLastRetryTime e") auto
qed (simp split: option.split)

text \<open>
  The calls of \<open>canRetryNow\<close> that allow a retry are at least the retry timeout apart, from each other
  and from the last selection; and when a call does not allow it although the endpoint may be retried, it
  reports a time to wait after which the next call does, more than the time that is left.
\<close>

theorem endpoint_retry_rate:
  "successively (\<lambda>a b. a + ep_retryTimeout e \<le> b)
     ((case ep_approxLastRetryTime e of None \<Rightarrow> [] | Some t \<Rightarrow> [t]) @ allowedAt calls e)
   \<and> (\<forall>wait e1. canRetryNow True now (Some v) e = (False, Some wait, e1) \<longrightarrow>
        200000 < wait \<and> (\<forall>now'. now + wait \<le> now' \<longrightarrow> fst (canRetryNow True now' timeout e1)))"
proof
  show "successively (\<lambda>a b. a + ep_retryTimeout e \<le> b)
     ((case ep_approxLastRetryTime e of None \<Rightarrow> [] | Some t \<Rightarrow> [t]) @ allowedAt calls e)"
    by (rule allowedAt_apart)
  show "\<forall>wait e1. canRetryNow True now (Some v) e = (False, Some wait, e1) \<longrightarrow>
        200000 < wait \<and> (\<forall>now'. now + wait \<le> now' \<longrightarrow> fst (canRetryNow True now' timeout e1))"
    by (auto simp: canRetryNow_def Let_def split: if_splits option.splits)
qed

lemma endpoint_retry_rate_witness:
  "\<exists>w e1. canRetryNow True 5 (Some 0) (new_simple_iterator ''h'' 80 3 10\<lparr>ep_approxLastRetryTime := Some 1\<rparr>) = (False, Some w, e1)
     \<and> fst (canRetryNow True 300000 None e1)"
proof -
  let ?e = "new_simple_iterator ''h'' 80 3 10\<lparr>ep_approxLastRetryTime := Some 1\<rparr>"
  have c: "canRetryNow True 5 (Some 0) ?e = (False, Some 200006, ?e)"
    by (simp add: canRetryNow_def new_simple_iterator_def Let_def)
  have "fst (canRetryNow True 300000 None ?e)"
    using conjunct2 [OF endpoint_retry_rate [where e = ?e and now = 5 and v = 0 and timeout = None]] c by fastforce
  with c show ?thesis by blast
qed

end
