(* ===== verification/AsyncExecutor.thy ===== *)
theory AsyncExecutor
  imports EqOnReady
begin

text \<open>
  The asynchronous executor of \<open>async/AsyncExecutorImpl.h\<close>: async operations, each with the executor
  task that runs its calls, a queue of workers that bounds how many are in progress, and a queue of
  completion callbacks on which \<open>onExecute\<close> is posted.  A definition is one critical section of the
  code.  The queue of workers is the abstract execution queue, the list of posted callbacks stands for
  the completion queue, which runs each of them once.  Operations, executor tasks, operation states,
  callbacks and exceptions are named by numbers.
\<close>

section \<open>The objects\<close>

text \<open>
  The task that an operation state may provide: running, with the argument bound to its callback, or
  completed, with its exception.
\<close>

datatype op_task = OpRunning bool | OpCompleted "nat option"

text \<open>
  Where the thread that holds \<open>m_executeLock\<close> is: after the first section of \<open>onExecute\<close>, with its
  local variables, before the callback, or inside of it.
\<close>

datatype execution =
    Idle
  | Terminating
  | Executing nat "op_task option" bool
  | Calling nat "nat option" bool
  | Returning

record exec_task =
  et_operationState :: "nat option"
  et_callsExpected :: "16 word"
  et_remainingToExecute :: "32 word"
  et_stopped :: bool
  et_cancelPending :: bool
  et_callback :: "nat option"
  et_taskInProgress :: "op_task option"
  et_execution :: execution

record async_operation =
  ao_operationState :: "nat option"
  ao_task :: "nat option"
  ao_freed :: bool
  ao_active :: bool

record async_executor =
  ax_operationsPool :: "nat simple_pool"
  ax_workers :: aqueue
  ax_maxExecuting :: nat
  ax_posted :: "nat list"
  ax_outstandingCalls :: "32 word"
  ax_operations :: "nat \<Rightarrow> async_operation"
  ax_tasks :: "nat \<Rightarrow> exec_task"
  ax_nextOperation :: nat
  ax_nextTask :: nat

definition setT :: "nat \<Rightarrow> exec_task \<Rightarrow> async_executor \<Rightarrow> async_executor" where
  "setT i t x = x\<lparr>ax_tasks := (ax_tasks x)(i := t)\<rparr>"

definition setO :: "nat \<Rightarrow> async_operation \<Rightarrow> async_executor \<Rightarrow> async_executor" where
  "setO k p x = x\<lparr>ax_operations := (ax_operations x)(k := p)\<rparr>"

section \<open>The executor task\<close>

definition et_resetState :: "exec_task \<Rightarrow> exec_task" where
  "et_resetState t = t\<lparr>et_operationState := None, et_stopped := False, et_cancelPending := False,
     et_callsExpected := 2, et_remainingToExecute := 1, et_taskInProgress := None, et_callback := None\<rparr>"

definition new_exec_task :: exec_task where
  "new_exec_task = et_resetState \<lparr>et_operationState = None, et_callsExpected = 0, et_remainingToExecute = 0,
     et_stopped = False, et_cancelPending = False, et_callback = None, et_taskInProgress = None, et_execution = Idle\<rparr>"

definition postCompletionCallback :: "nat \<Rightarrow> async_executor \<Rightarrow> async_executor" where
  "postCompletionCallback i x = x\<lparr>ax_posted := ax_posted x @ [i]\<rparr>"

definition scheduleAsyncCall :: "bool \<Rightarrow> nat \<Rightarrow> async_executor \<Rightarrow> async_executor res" where
  "scheduleAsyncCall increment i x =
     (let t = ax_tasks x i in
      bindR (chkR (et_callsExpected t \<noteq> 0) AssertFailed) (\<lambda>_.
        let t1 = (if increment then t\<lparr>et_callsExpected := et_callsExpected t + 1,
                    et_remainingToExecute := et_remainingToExecute t + 1\<rparr> else t)
        in Inr (postCompletionCallback i (setT i t1 x))))"

text \<open>What \<open>createTask\<close> of an operation state answers.\<close>

datatype created = NoTask | NewTask | CreateThrows nat

definition scheduleCall :: "(nat \<Rightarrow> created) \<Rightarrow> bool \<Rightarrow> nat \<Rightarrow> async_executor \<Rightarrow> async_executor res" where
  "scheduleCall createTask newCall i x =
     (let t = ax_tasks x i in
      case et_operationState t of None \<Rightarrow> Inl AssertFailed | Some opState \<Rightarrow>
      bindR (chkR (et_taskInProgress t = None) AssertFailed) (\<lambda>_.
        if \<not> et_stopped t then
          (case createTask opState of
             NewTask \<Rightarrow> Inr (setT i (t\<lparr>et_taskInProgress := Some (OpRunning newCall)\<rparr>) x)
           | CreateThrows e \<Rightarrow>
               scheduleAsyncCall newCall i (setT i (t\<lparr>et_taskInProgress := Some (OpCompleted (Some e))\<rparr>) x)
           | NoTask \<Rightarrow> scheduleAsyncCall newCall i x)
        else scheduleAsyncCall newCall i x))"

text \<open>\<open>scheduleTask\<close>, which the queue of workers calls for each task that it starts, in order.\<close>

definition scheduleTask :: "(nat \<Rightarrow> created) \<Rightarrow> nat \<Rightarrow> async_executor \<Rightarrow> async_executor res" where
  "scheduleTask createTask i x = scheduleCall createTask False i x"

primrec scheduleTasks :: "(nat \<Rightarrow> created) \<Rightarrow> nat list \<Rightarrow> async_executor \<Rightarrow> async_executor res" where
  "scheduleTasks createTask [] x = Inr x"
| "scheduleTasks createTask (i # is) x = bindR (scheduleTask createTask i x) (scheduleTasks createTask is)"

text \<open>The queue of workers changes to \<open>q\<close> and starts what its limit lets it start.\<close>

definition padWorkers :: "(nat \<Rightarrow> created) \<Rightarrow> aqueue \<Rightarrow> async_executor \<Rightarrow> async_executor res" where
  "padWorkers createTask q x =
     (let n = aq_slots (ax_maxExecuting x) 0 q
      in scheduleTasks createTask (take n (aq_pending q)) (x\<lparr>ax_workers := aq_pad (ax_maxExecuting x) 0 q\<rparr>))"

text \<open>
  The callback of the operation state's task.  Its \<open>continuationTask\<close> answers nothing, another task,
  or throws; \<open>exception\<close> is the one the task completed with.
\<close>

datatype op_continuation = OpContNone | OpContTask | OpContThrows nat

definition onOperationTaskReady ::
  "op_continuation \<Rightarrow> nat option \<Rightarrow> bool \<Rightarrow> nat \<Rightarrow> async_executor \<Rightarrow> async_executor res" where
  "onOperationTaskReady cont ex newCall i x =
     (let t = ax_tasks x i;
          completed = (\<lambda>e. scheduleAsyncCall newCall i (setT i (t\<lparr>et_taskInProgress := Some (OpCompleted e)\<rparr>) x))
      in bindR (chkR (et_taskInProgress t \<noteq> None) AssertFailed) (\<lambda>_.
        case cont of
          OpContTask \<Rightarrow> Inr (setT i (t\<lparr>et_taskInProgress := Some (OpRunning newCall)\<rparr>) x)
        | OpContThrows e \<Rightarrow> completed (Some e)
        | OpContNone \<Rightarrow> completed ex))"

text \<open>\<open>onExecute\<close>: its section under the task lock, which keeps \<open>m_executeLock\<close>.\<close>

definition ae_onExecute :: "nat \<Rightarrow> async_executor \<Rightarrow> async_executor res" where
  "ae_onExecute i x =
     (let t = ax_tasks x i in
      bindR (chkR (et_operationState t \<noteq> None) AssertFailed) (\<lambda>_.
        let t1 = t\<lparr>et_callsExpected := et_callsExpected t - 1\<rparr> in
        if et_callsExpected t1 \<noteq> 0 then
          (case et_callback t1 of None \<Rightarrow> Inl AssertFailed | Some cb \<Rightarrow>
             bindR (chkR (case et_taskInProgress t1 of Some (OpRunning b) \<Rightarrow> False | _ \<Rightarrow> True) AssertFailed) (\<lambda>_.
               let t2 = t1\<lparr>et_callback := None, et_taskInProgress := None,
                            et_execution := Executing cb (et_taskInProgress t1) (et_stopped t1)\<rparr>
               in if et_cancelPending t2
                  then scheduleAsyncCall False i (setT i (t2\<lparr>et_cancelPending := False, et_stopped := True\<rparr>) x)
                  else Inr (setT i t2 x)))
        else bindR (chkR (et_callback t1 = None) AssertFailed) (\<lambda>_.
               bindR (chkR (et_taskInProgress t1 = None) AssertFailed) (\<lambda>_.
                 Inr (setT i (t1\<lparr>et_execution := Terminating\<rparr>) x)))))"

text \<open>The last call: the resources are released and the queue of workers retires the task.\<close>

definition onExecute_ready :: "(nat \<Rightarrow> created) \<Rightarrow> nat \<Rightarrow> async_executor \<Rightarrow> async_executor res" where
  "onExecute_ready createTask i x =
     (let t = ax_tasks x i; q = ax_workers x in
      bindR (chkR (et_operationState t \<noteq> None) AssertFailed) (\<lambda>_.
        bindR (chkR (i \<in> set (aq_executing q)) AssertFailed) (\<lambda>_.
          padWorkers createTask (aq_retire i True q)
            (setT i (t\<lparr>et_operationState := None, et_execution := Idle\<rparr>) x))))"

text \<open>What the execution of an operation state does; its control token may be cancelled.\<close>

datatype ae_outcome = Executes | ControlTokenCanceled | Throws nat

definition executeOperation :: "ae_outcome \<Rightarrow> nat option \<times> bool" where
  "executeOperation out = (case out of ControlTokenCanceled \<Rightarrow> (None, True) | Executes \<Rightarrow> (None, False) | Throws e \<Rightarrow> (Some e, False))"

text \<open>A call: the operation is executed and \<open>m_remainingToExecute\<close> decremented.\<close>

definition onExecute_call :: "ae_outcome \<Rightarrow> nat \<Rightarrow> async_executor \<Rightarrow> async_executor res" where
  "onExecute_call out i x =
     (let t = ax_tasks x i;
          remaining = et_remainingToExecute t - 1;
          next = (\<lambda>cb (ex, aborted). Inr (setT i (t\<lparr>et_remainingToExecute := remaining,
                    et_execution := Calling cb ex (ex = None \<and> aborted)\<rparr>) x))
      in case et_execution t of
           Executing cb opTask stopped \<Rightarrow>
             (if stopped then next cb (None, True)
              else (case opTask of
                      Some (OpCompleted ex) \<Rightarrow> next cb (ex, False)
                    | Some (OpRunning b) \<Rightarrow> Inl AssertFailed
                    | None \<Rightarrow> bindR (chkR (et_operationState t \<noteq> None) AssertFailed) (\<lambda>_. next cb (executeOperation out))))
         | _ \<Rightarrow> Inl AssertFailed)"

definition et_requestCancel :: "nat \<Rightarrow> async_executor \<Rightarrow> async_executor res" where
  "et_requestCancel i x =
     (let t = ax_tasks x i in
      if et_stopped t then Inr x
      else if et_taskInProgress t \<noteq> None then Inr (setT i (t\<lparr>et_cancelPending := True\<rparr>) x)
      else scheduleAsyncCall False i (setT i (t\<lparr>et_stopped := True\<rparr>) x))"

definition ensureNoCallsPending :: "nat \<Rightarrow> async_executor \<Rightarrow> unit res" where
  "ensureNoCallsPending i x = chkR (et_remainingToExecute (ax_tasks x i) = 0) UnexpectedExc"

text \<open>An exception in a \<open>NOEXCEPT\<close> function ends the process.\<close>

definition noexcept :: "'a res \<Rightarrow> 'a res" where
  "noexcept r = (case r of Inl e \<Rightarrow> Inl RtAbort | Inr a \<Rightarrow> Inr a)"

definition requestNewAsyncCall :: "(nat \<Rightarrow> created) \<Rightarrow> nat \<Rightarrow> nat \<Rightarrow> async_executor \<Rightarrow> async_executor res" where
  "requestNewAsyncCall createTask cb i x =
     bindR (noexcept (ensureNoCallsPending i x)) (\<lambda>_.
       scheduleCall createTask True i (setT i ((ax_tasks x i)\<lparr>et_callback := Some cb\<rparr>) x))"

section \<open>The operations\<close>

text \<open>\<open>ExecutorAsyncOperationT::resetState\<close>, which is also \<open>cancel\<close>.\<close>

definition ao_resetState :: "nat \<Rightarrow> async_executor \<Rightarrow> async_executor res" where
  "ao_resetState k x =
     bindR (case ao_task (ax_operations x k) of
              None \<Rightarrow> Inr x
            | Some i \<Rightarrow> bindR (et_requestCancel i x) (\<lambda>x1. Inr (setO k ((ax_operations x1 k)\<lparr>ao_task := None\<rparr>) x1)))
       (\<lambda>x1. let p = ax_operations x1 k in
          bindR (chkR (ao_active p \<longrightarrow> ao_operationState p \<noteq> None) AssertFailed) (\<lambda>_.
            let x2 = (if ao_active p then x1\<lparr>ax_outstandingCalls := ax_outstandingCalls x1 - 1\<rparr> else x1)
            in Inr (setO k (p\<lparr>ao_active := False, ao_operationState := None\<rparr>) x2)))"

definition ao_cancel :: "nat \<Rightarrow> async_executor \<Rightarrow> async_executor res" where
  "ao_cancel k x = ao_resetState k x"

text \<open>\<open>tryPrioritize\<close>, after a cancellation that did not find a task in progress.\<close>

definition tryPrioritize :: "nat \<Rightarrow> async_executor \<Rightarrow> async_executor" where
  "tryPrioritize i x = (let q = ax_workers x in
     if i \<in> set (aq_pending q) then x\<lparr>ax_workers := q\<lparr>aq_pending := i # remove1 i (aq_pending q)\<rparr>\<rparr> else x)"

section \<open>The executor\<close>

definition THREADS_COUNT_DEFAULT :: nat where "THREADS_COUNT_DEFAULT = 32"

definition new_async_executor :: "nat \<Rightarrow> nat \<Rightarrow> async_executor" where
  "new_async_executor threadsCount maxConcurrentTasks =
     (let threadsCountActual = (if threadsCount \<noteq> 0 then threadsCount else THREADS_COUNT_DEFAULT) in
     \<lparr>ax_operationsPool = empty_pool, ax_workers = \<lparr>aq_pending = [], aq_executing = [], aq_ready = []\<rparr>,
      ax_maxExecuting = (if maxConcurrentTasks \<noteq> 0 then maxConcurrentTasks else 8 * threadsCountActual),
      ax_posted = [], ax_outstandingCalls = 0,
      ax_operations = (\<lambda>_. \<lparr>ao_operationState = None, ao_task = None, ao_freed = False, ao_active = False\<rparr>),
      ax_tasks = (\<lambda>_. new_exec_task), ax_nextOperation = 0, ax_nextTask = 0\<rparr>)"

definition operation_checker :: "(nat, nat \<Rightarrow> async_operation) checker" where
  "operation_checker = intrusive_checker ao_freed (\<lambda>b p. p\<lparr>ao_freed := b\<rparr>)"

definition createOperation :: "nat \<Rightarrow> async_executor \<Rightarrow> (nat \<times> async_executor) res" where
  "createOperation opState x =
     bindR (tryGet operation_checker (ax_operationsPool x) (ax_operations x)) (\<lambda>(v, pool, ops).
       let (k, x1) = (case v of Some k \<Rightarrow> (k, x\<lparr>ax_operationsPool := pool, ax_operations := ops\<rparr>)
                      | None \<Rightarrow> (ax_nextOperation x, x\<lparr>ax_nextOperation := ax_nextOperation x + 1\<rparr>))
       in bindR (chkR (ao_operationState (ax_operations x1 k) = None) AssertFailed) (\<lambda>_.
            Inr (k, setO k ((ax_operations x1 k)\<lparr>ao_operationState := Some opState, ao_active := True\<rparr>)
                      (x1\<lparr>ax_outstandingCalls := ax_outstandingCalls x1 + 1\<rparr>))))"

text \<open>
  \<open>asyncBeginImpl\<close> up to the choice: the existing task, whose calls are checked, or none.  The
  exception goes to the caller.
\<close>

definition asyncBeginCheck :: "nat \<Rightarrow> async_executor \<Rightarrow> nat option res" where
  "asyncBeginCheck k x =
     bindR (chkR (\<not> ao_freed (ax_operations x k)) UnexpectedExc) (\<lambda>_.
       case ao_task (ax_operations x k) of
         None \<Rightarrow> Inr None
       | Some i \<Rightarrow> bindR (ensureNoCallsPending i x) (\<lambda>_. Inr (Some i)))"

text \<open>
  \<open>asyncBeginImpl\<close> without an existing task: a ready task is used again or a new one created, and
  pushed; \<open>pushFails\<close> when the push throws, which is undone and passed on to the caller.
\<close>

definition asyncBeginNew :: "(nat \<Rightarrow> created) \<Rightarrow> bool \<Rightarrow> nat \<Rightarrow> nat \<Rightarrow> async_executor \<Rightarrow> (bool \<times> async_executor) res" where
  "asyncBeginNew createTask pushFails k cb x =
     (let (i, x1) = (case aq_ready (ax_workers x) of
                       i # is \<Rightarrow> (i, setT i (et_resetState (ax_tasks x i)) x)
                     | [] \<Rightarrow> (ax_nextTask x, setT (ax_nextTask x) new_exec_task (x\<lparr>ax_nextTask := ax_nextTask x + 1\<rparr>)));
          t = ax_tasks x1 i; p = ax_operations x1 k
      in bindR (chkR (et_callback t = None) AssertFailed) (\<lambda>_.
         bindR (chkR (i \<notin> set (aq_executing (ax_workers x1))) AssertFailed) (\<lambda>_.
         bindR (chkR (et_operationState t = None) AssertFailed) (\<lambda>_.
           let x2 = setO k (p\<lparr>ao_task := Some i\<rparr>)
                     (setT i (t\<lparr>et_callback := Some cb, et_operationState := ao_operationState p\<rparr>) x1)
           in if pushFails
              then Inr (False, setO k (p\<lparr>ao_task := None\<rparr>) (setT i (et_resetState (ax_tasks x2 i)) x2))
              else bindR (padWorkers createTask (aq_push True i False (ax_workers x2)) x2) (\<lambda>x3. Inr (True, x3))))))"

definition releaseOperation :: "nat \<Rightarrow> async_executor \<Rightarrow> async_executor res" where
  "releaseOperation k x =
     noexcept (bindR (case ao_task (ax_operations x k) of None \<Rightarrow> Inr () | Some i \<Rightarrow> ensureNoCallsPending i x) (\<lambda>_.
       bindR (ao_resetState k x) (\<lambda>x1.
         bindR (put operation_checker k (ax_operationsPool x1) (ax_operations x1)) (\<lambda>(pool, ops).
           Inr (x1\<lparr>ax_operationsPool := pool, ax_operations := ops\<rparr>)))))"

end
