(* ===== verification/AsyncSystem.thy ===== *)
theory AsyncSystem
  imports AsyncExecutor
begin

text \<open>
  The asynchronous executor as a concurrent system: an action is one critical section of one thread.
  \<open>enabled\<close> says when the locks and the posted work let it happen, \<open>perform\<close> does it, and \<open>contract\<close> is
  what the clients of the executor keep.
\<close>

section \<open>Actions\<close>

text \<open>
  The executor, the thread that is between the two sections of \<open>asyncBegin\<close> (with the operation, its
  task and the callback; it holds the executor's lock), the next callback, and the results delivered
  to callbacks so far.
\<close>

record ax_sys =
  sx :: async_executor
  sx_begin :: "(nat \<times> nat \<times> nat) option"
  sx_next :: nat
  sx_delivered :: "(nat \<times> nat option \<times> bool) list"

definition init_ax :: "nat \<Rightarrow> nat \<Rightarrow> ax_sys" where
  "init_ax threadsCount maxConcurrentTasks =
     \<lparr>sx = new_async_executor threadsCount maxConcurrentTasks, sx_begin = None, sx_next = 0, sx_delivered = []\<rparr>"

datatype ax_action =
    ACreate nat
  | ABegin "nat \<Rightarrow> created" bool nat
  | AContinue "nat \<Rightarrow> created"
  | ACancel nat
  | APrioritize nat
  | ARelease nat
  | AOpReady nat op_continuation "nat option"
  | AExecute nat
  | ATerminate "nat \<Rightarrow> created" nat
  | ACall nat ae_outcome
  | ACallback nat
  | AReturn nat

definition executing :: "exec_task \<Rightarrow> bool" where
  "executing t \<longleftrightarrow> (case et_execution t of Executing cb opTask stopped \<Rightarrow> True | _ \<Rightarrow> False)"

definition calling :: "exec_task \<Rightarrow> bool" where
  "calling t \<longleftrightarrow> (case et_execution t of Calling cb ex aborted \<Rightarrow> True | _ \<Rightarrow> False)"

definition opRunning :: "exec_task \<Rightarrow> bool" where
  "opRunning t \<longleftrightarrow> (case et_taskInProgress t of Some (OpRunning b) \<Rightarrow> True | _ \<Rightarrow> False)"

fun enabled :: "ax_action \<Rightarrow> ax_sys \<Rightarrow> bool" where
  "enabled (ACreate st) s \<longleftrightarrow> sx_begin s = None"
| "enabled (ABegin ct pf k) s \<longleftrightarrow> sx_begin s = None"
| "enabled (AContinue ct) s \<longleftrightarrow> sx_begin s \<noteq> None"
| "enabled (ACancel k) s \<longleftrightarrow> True"
| "enabled (APrioritize i) s \<longleftrightarrow> True"
| "enabled (ARelease k) s \<longleftrightarrow> sx_begin s = None"
| "enabled (AOpReady i cont ex) s \<longleftrightarrow> opRunning (ax_tasks (sx s) i)"
| "enabled (AExecute i) s \<longleftrightarrow> i \<in> set (ax_posted (sx s)) \<and> et_execution (ax_tasks (sx s) i) = Idle"
| "enabled (ATerminate ct i) s \<longleftrightarrow> et_execution (ax_tasks (sx s) i) = Terminating"
| "enabled (ACall i out) s \<longleftrightarrow> executing (ax_tasks (sx s) i)"
| "enabled (ACallback i) s \<longleftrightarrow> calling (ax_tasks (sx s) i)"
| "enabled (AReturn i) s \<longleftrightarrow> et_execution (ax_tasks (sx s) i) = Returning"

definition inS :: "ax_sys \<Rightarrow> async_executor res \<Rightarrow> ax_sys res" where
  "inS s r = bindR r (\<lambda>x. Inr (s\<lparr>sx := x\<rparr>))"

fun perform_ax :: "ax_action \<Rightarrow> ax_sys \<Rightarrow> ax_sys res" where
  "perform_ax (ACreate st) s = inS s (bindR (createOperation st (sx s)) (\<lambda>(k, x). Inr x))"
| "perform_ax (ABegin ct pf k) s =
     (case asyncBeginCheck k (sx s) of
        Inl e \<Rightarrow> Inr s
      | Inr (Some i) \<Rightarrow> Inr (s\<lparr>sx_begin := Some (k, i, sx_next s), sx_next := sx_next s + 1\<rparr>)
      | Inr None \<Rightarrow> bindR (asyncBeginNew ct pf k (sx_next s) (sx s)) (\<lambda>(ok, x).
          Inr (s\<lparr>sx := x, sx_next := (if ok then sx_next s + 1 else sx_next s)\<rparr>)))"
| "perform_ax (AContinue ct) s =
     (case sx_begin s of None \<Rightarrow> Inr s
      | Some (k, i, cb) \<Rightarrow> inS (s\<lparr>sx_begin := None\<rparr>) (requestNewAsyncCall ct cb i (sx s)))"
| "perform_ax (ACancel k) s = inS s (ao_cancel k (sx s))"
| "perform_ax (APrioritize i) s = Inr (s\<lparr>sx := tryPrioritize i (sx s)\<rparr>)"
| "perform_ax (ARelease k) s = inS s (releaseOperation k (sx s))"
| "perform_ax (AOpReady i cont ex) s =
     (case et_taskInProgress (ax_tasks (sx s) i) of
        Some (OpRunning newCall) \<Rightarrow> inS s (onOperationTaskReady cont ex newCall i (sx s))
      | _ \<Rightarrow> Inr s)"
| "perform_ax (AExecute i) s = inS s (ae_onExecute i ((sx s)\<lparr>ax_posted := remove1 i (ax_posted (sx s))\<rparr>))"
| "perform_ax (ATerminate ct i) s = inS s (onExecute_ready ct i (sx s))"
| "perform_ax (ACall i out) s = inS s (onExecute_call out i (sx s))"
| "perform_ax (ACallback i) s =
     (case et_execution (ax_tasks (sx s) i) of
        Calling cb ex aborted \<Rightarrow>
          Inr (s\<lparr>sx := setT i ((ax_tasks (sx s) i)\<lparr>et_execution := Returning\<rparr>) (sx s),
                 sx_delivered := sx_delivered s @ [(cb, ex, aborted)]\<rparr>)
      | _ \<Rightarrow> Inr s)"
| "perform_ax (AReturn i) s = Inr (s\<lparr>sx := setT i ((ax_tasks (sx s) i)\<lparr>et_execution := Idle\<rparr>) (sx s)\<rparr>)"

text \<open>
  The clients use an operation only between its creation and its cancellation or release.  They do not
  begin a call while the operation state's task of the previous one is in progress, do not cancel an
  operation while they begin a call on it, and release it with no call pending.
\<close>

fun contract :: "ax_action \<Rightarrow> ax_sys \<Rightarrow> bool" where
  "contract (ABegin ct pf k) s \<longleftrightarrow> ao_active (ax_operations (sx s) k)
     \<and> (\<forall>i. ao_task (ax_operations (sx s) k) = Some i \<longrightarrow> et_taskInProgress (ax_tasks (sx s) i) = None)"
| "contract (ACancel k) s \<longleftrightarrow> (\<forall>i cb. sx_begin s \<noteq> Some (k, i, cb))"
| "contract (ARelease k) s \<longleftrightarrow> k < ax_nextOperation (sx s) \<and> \<not> ao_freed (ax_operations (sx s) k)
     \<and> (\<forall>i. ao_task (ax_operations (sx s) k) = Some i \<longrightarrow>
          et_callback (ax_tasks (sx s) i) = None \<and> \<not> executing (ax_tasks (sx s) i))"
| "contract _ s \<longleftrightarrow> True"

inductive ax_reach :: "nat \<Rightarrow> nat \<Rightarrow> ax_sys \<Rightarrow> bool" for n m where
  Start: "ax_reach n m (init_ax n m)"
| Action: "ax_reach n m s \<Longrightarrow> enabled a s \<Longrightarrow> contract a s \<Longrightarrow> perform_ax a s = Inr s' \<Longrightarrow> ax_reach n m s'"

section \<open>The invariant\<close>

definition late :: "exec_task \<Rightarrow> bool" where
  "late t \<longleftrightarrow> et_taskInProgress t = Some (OpRunning True)"

text \<open>
  A task in the pending or executing list has one call to make for its callback, and one to end.  Each
  is waiting for the queue, for the operation state's task, for a cancellation, or it is posted.
  \<open>unscheduled\<close>: the queue has not started the task; \<open>n\<close>: how often \<open>onExecute\<close> is posted for it.
\<close>

definition live_ok :: "bool \<Rightarrow> nat \<Rightarrow> exec_task \<Rightarrow> bool" where
  "live_ok unscheduled n t \<longleftrightarrow>
     et_operationState t \<noteq> None
   \<and> et_callsExpected t + (if late t then 1 else 0) =
       (if et_callback t \<noteq> None then 1 else 0) + (if et_execution t = Terminating then 0 else 1)
   \<and> et_remainingToExecute t + (if late t then 1 else 0) = (if et_callback t \<noteq> None \<or> executing t then 1 else 0)
   \<and> n + (if unscheduled then 1 else 0) + (if opRunning t then 1 else 0) + (if et_stopped t then 0 else 1) =
       (if et_callback t \<noteq> None then 1 else 0) + (if et_execution t = Terminating then 0 else 1)
   \<and> (et_taskInProgress t \<noteq> None \<longrightarrow> et_callback t \<noteq> None \<and> \<not> unscheduled \<and> \<not> et_stopped t)
   \<and> (et_cancelPending t \<longrightarrow> et_taskInProgress t \<noteq> None)
   \<and> (et_callback t \<noteq> None \<longrightarrow> \<not> executing t \<and> et_execution t \<noteq> Terminating)
   \<and> (\<forall>cb b st. et_execution t \<noteq> Executing cb (Some (OpRunning b)) st)"

definition dead_ok :: "nat \<Rightarrow> exec_task \<Rightarrow> bool" where
  "dead_ok n t \<longleftrightarrow> et_operationState t = None \<and> et_callback t = None \<and> et_taskInProgress t = None
     \<and> et_execution t = Idle \<and> n = 0"

definition live :: "async_executor \<Rightarrow> nat set" where
  "live x = set (aq_pending (ax_workers x)) \<union> set (aq_executing (ax_workers x))"

definition tasks_ok :: "nat set \<Rightarrow> async_executor \<Rightarrow> bool" where
  "tasks_ok U x \<longleftrightarrow> (\<forall>i. if i \<in> live x then live_ok (i \<in> U) (count_list (ax_posted x) i) (ax_tasks x i)
     else dead_ok (count_list (ax_posted x) i) (ax_tasks x i))"

definition queue_ok :: "async_executor \<Rightarrow> bool" where
  "queue_ok x \<longleftrightarrow> distinct (aq_pending (ax_workers x) @ aq_executing (ax_workers x) @ aq_ready (ax_workers x))
     \<and> set (aq_pending (ax_workers x) @ aq_executing (ax_workers x) @ aq_ready (ax_workers x)) \<subseteq> {..<ax_nextTask x}"

text \<open>A task that was not cancelled belongs to one active operation.\<close>

definition uncancelled :: "async_executor \<Rightarrow> nat \<Rightarrow> bool" where
  "uncancelled x i \<longleftrightarrow> i \<in> live x \<and> \<not> et_stopped (ax_tasks x i) \<and> \<not> et_cancelPending (ax_tasks x i)"

definition owners_ok :: "(nat \<Rightarrow> async_operation) \<Rightarrow> (nat \<Rightarrow> bool) \<Rightarrow> bool" where
  "owners_ok ops owned \<longleftrightarrow>
     (\<forall>k i. ao_task (ops k) = Some i \<longrightarrow> ao_active (ops k) \<and> owned i)
   \<and> (\<forall>k k' i. ao_task (ops k) = Some i \<longrightarrow> ao_task (ops k') = Some i \<longrightarrow> k = k')
   \<and> (\<forall>i. owned i \<longrightarrow> (\<exists>k. ao_task (ops k) = Some i))"

definition operations_ok :: "async_executor \<Rightarrow> bool" where
  "operations_ok x \<longleftrightarrow>
     (\<forall>k. ao_active (ax_operations x k) \<longleftrightarrow> ao_operationState (ax_operations x k) \<noteq> None)
   \<and> (\<forall>k. ao_active (ax_operations x k) \<or> ao_freed (ax_operations x k) \<longrightarrow> k < ax_nextOperation x)
   \<and> (\<forall>k. ao_freed (ax_operations x k) \<longrightarrow> \<not> ao_active (ax_operations x k))
   \<and> distinct (m_impl (ax_operationsPool x))
   \<and> set (m_impl (ax_operationsPool x)) = {k. ao_freed (ax_operations x k)}
   \<and> ax_outstandingCalls x = of_nat (card {k. ao_active (ax_operations x k)})"

definition ax_ok :: "nat set \<Rightarrow> async_executor \<Rightarrow> bool" where
  "ax_ok U x \<longleftrightarrow> queue_ok x \<and> tasks_ok U x \<and> owners_ok (ax_operations x) (uncancelled x) \<and> operations_ok x"

definition begin_ok :: "ax_sys \<Rightarrow> bool" where
  "begin_ok s \<longleftrightarrow> (\<forall>k i cb. sx_begin s = Some (k, i, cb) \<longrightarrow>
     ao_task (ax_operations (sx s) k) = Some i \<and> et_callback (ax_tasks (sx s) i) = None
       \<and> \<not> executing (ax_tasks (sx s) i))"

text \<open>Tasks wait for the queue only while its limit is reached.\<close>

definition padded :: "async_executor \<Rightarrow> bool" where
  "padded x \<longleftrightarrow> aq_pending (ax_workers x) = []
     \<or> ax_maxExecuting x \<noteq> 0 \<and> ax_maxExecuting x \<le> length (aq_executing (ax_workers x))"

definition sys_ok :: "ax_sys \<Rightarrow> bool" where
  "sys_ok s \<longleftrightarrow> ax_ok (set (aq_pending (ax_workers (sx s)))) (sx s) \<and> begin_ok s \<and> padded (sx s)"

text \<open>The callbacks that a task will call.\<close>

definition held :: "exec_task \<Rightarrow> nat multiset" where
  "held t = (case et_callback t of Some cb \<Rightarrow> {#cb#} | None \<Rightarrow> {#}) +
     (case et_execution t of Executing cb opTask st \<Rightarrow> {#cb#} | Calling cb ex ab \<Rightarrow> {#cb#} | _ \<Rightarrow> {#})"

definition begun :: "ax_sys \<Rightarrow> nat multiset" where
  "begun s = (case sx_begin s of Some (k, i, cb) \<Rightarrow> {#cb#} | None \<Rightarrow> {#})"

definition waiting :: "async_executor \<Rightarrow> nat multiset" where
  "waiting x = (\<Sum>i<ax_nextTask x. held (ax_tasks x i))"

definition accounted :: "ax_sys \<Rightarrow> bool" where
  "accounted s \<longleftrightarrow> mset (map fst (sx_delivered s)) + waiting (sx s) + begun s = mset [0..<sx_next s]"

section \<open>Runs\<close>

text \<open>A sequence of enabled actions, which keep the contract when \<open>ck\<close> holds.\<close>

primrec ax_run :: "bool \<Rightarrow> ax_action list \<Rightarrow> ax_sys \<Rightarrow> ax_sys option" where
  "ax_run ck [] s = Some s"
| "ax_run ck (a # as) s =
     (if enabled a s \<and> (ck \<longrightarrow> contract a s)
      then (case perform_ax a s of Inl e \<Rightarrow> None | Inr s' \<Rightarrow> ax_run ck as s') else None)"

section \<open>Internal actions\<close>

text \<open>
  The actions that the threads of the executor take by themselves.  An operation state's task that
  continues with another task is work of the client.
\<close>

fun internal :: "ax_action \<Rightarrow> bool" where
  "internal (AContinue ct) \<longleftrightarrow> True"
| "internal (AOpReady i cont ex) \<longleftrightarrow> cont \<noteq> OpContTask"
| "internal (AExecute i) \<longleftrightarrow> True"
| "internal (ATerminate ct i) \<longleftrightarrow> True"
| "internal (ACall i out) \<longleftrightarrow> True"
| "internal (ACallback i) \<longleftrightarrow> True"
| "internal (AReturn i) \<longleftrightarrow> True"
| "internal _ \<longleftrightarrow> False"

text \<open>How many internal actions a task may take at most, until the clients act.\<close>

definition phase :: "execution \<Rightarrow> nat" where
  "phase e = (case e of Idle \<Rightarrow> 0 | Terminating \<Rightarrow> 1 | Executing cb opTask st \<Rightarrow> 3 | Calling cb ex ab \<Rightarrow> 2 | Returning \<Rightarrow> 1)"

definition weight :: "bool \<Rightarrow> nat \<Rightarrow> exec_task \<Rightarrow> nat" where
  "weight unscheduled n t = 5 * n + (if unscheduled then 7 else 0) + (if opRunning t then 6 else 0)
     + (if et_cancelPending t then 5 else 0) + phase (et_execution t)"

definition work :: "nat set \<Rightarrow> async_executor \<Rightarrow> nat" where
  "work U x = (\<Sum>i\<in>live x. weight (i \<in> U) (count_list (ax_posted x) i) (ax_tasks x i))"

definition sys_work :: "ax_sys \<Rightarrow> nat" where
  "sys_work s = (if sx_begin s = None then 0 else 8) + work (set (aq_pending (ax_workers (sx s)))) (sx s)"

end
