(* ===== verification/AsyncInvariant.thy ===== *)
theory AsyncInvariant
  imports AsyncSystem
begin

text \<open>
  Every action of the asynchronous executor's system keeps its invariant and does not fail.  The lemmas
  follow the sections: what a section does to its own task, then to the executor.
\<close>

section \<open>A section on one task\<close>

text \<open>Task \<open>i\<close> becomes \<open>t\<close> and is posted \<open>m\<close> times more.\<close>

definition upd :: "nat \<Rightarrow> exec_task \<Rightarrow> nat \<Rightarrow> async_executor \<Rightarrow> async_executor" where
  "upd i t m x = x\<lparr>ax_tasks := (ax_tasks x)(i := t), ax_posted := ax_posted x @ replicate m i\<rparr>"

lemma upd_simps [simp]:
  "ax_tasks (upd i t m x) = (ax_tasks x)(i := t)" "ax_workers (upd i t m x) = ax_workers x"
  "ax_posted (upd i t m x) = ax_posted x @ replicate m i" "ax_operations (upd i t m x) = ax_operations x"
  "ax_maxExecuting (upd i t m x) = ax_maxExecuting x" "ax_nextTask (upd i t m x) = ax_nextTask x"
  "ax_nextOperation (upd i t m x) = ax_nextOperation x" "ax_operationsPool (upd i t m x) = ax_operationsPool x"
  "ax_outstandingCalls (upd i t m x) = ax_outstandingCalls x" "live (upd i t m x) = live x"
  by (simp_all add: upd_def live_def)

lemma setT_upd: "setT i t x = upd i t 0 x"
  by (simp add: setT_def upd_def)

lemma upd_upd [simp]: "upd i t' m (upd i t n x) = upd i t' (n + m) x"
  by (simp add: upd_def replicate_add)

lemma post_upd: "postCompletionCallback i (upd i t m x) = upd i t (m + 1) x"
  by (simp add: upd_def postCompletionCallback_def replicate_append_same)

lemma scheduleAsyncCall_eq:
  assumes "et_callsExpected t \<noteq> 0"
  shows "scheduleAsyncCall inc i (upd i t m x) =
    Inr (upd i (if inc then t\<lparr>et_callsExpected := et_callsExpected t + 1,
        et_remainingToExecute := et_remainingToExecute t + 1\<rparr> else t) (m + 1) x)"
  using assms by (simp add: scheduleAsyncCall_def Let_def setT_upd post_upd)

lemma count_replicate [simp]: "count_list (replicate m i) j = (if i = j then m else 0)"
  by (induction m) auto

lemma count_append [simp]: "count_list (xs @ ys) j = count_list xs j + count_list ys j"
  by (induction xs) auto

lemma tasks_upd:
  assumes "tasks_ok U x" "\<And>j. j \<noteq> i \<Longrightarrow> j \<in> U' \<longleftrightarrow> j \<in> U"
    "\<And>j. j \<noteq> i \<Longrightarrow> count_list ps j = count_list (ax_posted x) j"
    "if i \<in> live x then live_ok (i \<in> U') (count_list ps i + m) t else dead_ok (count_list ps i + m) t"
  shows "tasks_ok U' (upd i t m (x\<lparr>ax_posted := ps\<rparr>))"
proof -
  have "live (x\<lparr>ax_posted := ps\<rparr>) = live x" by (simp add: live_def)
  with assms show ?thesis unfolding tasks_ok_def by (auto split: if_splits)
qed

lemma work_upd:
  assumes "i \<in> live x" "\<And>j. j \<noteq> i \<Longrightarrow> j \<in> U' \<longleftrightarrow> j \<in> U"
    "\<And>j. j \<noteq> i \<Longrightarrow> count_list ps j = count_list (ax_posted x) j"
  shows "work U' (upd i t m (x\<lparr>ax_posted := ps\<rparr>)) + weight (i \<in> U) (count_list (ax_posted x) i) (ax_tasks x i)
    = work U x + weight (i \<in> U') (count_list ps i + m) t"
proof -
  let ?y = "upd i t m (x\<lparr>ax_posted := ps\<rparr>)"
  have f: "finite (live x)" and lv: "live ?y = live x" by (simp_all add: live_def)
  let ?R = "\<Sum>j\<in>live x - {i}. weight (j \<in> U) (count_list (ax_posted x) j) (ax_tasks x j)"
  have "work U x = weight (i \<in> U) (count_list (ax_posted x) i) (ax_tasks x i) + ?R"
    unfolding work_def by (rule sum.remove [OF f assms(1)])
  moreover have "work U' ?y = weight (i \<in> U') (count_list (ax_posted ?y) i) (ax_tasks ?y i)
      + (\<Sum>j\<in>live x - {i}. weight (j \<in> U') (count_list (ax_posted ?y) j) (ax_tasks ?y j))"
    unfolding work_def lv by (rule sum.remove [OF f assms(1)])
  moreover have "(\<Sum>j\<in>live x - {i}. weight (j \<in> U') (count_list (ax_posted ?y) j) (ax_tasks ?y j)) = ?R"
    by (rule sum.cong) (use assms(2,3) in auto)
  ultimately show ?thesis by simp
qed

lemma uncancelled_upd:
  "uncancelled (upd i t m x) = (\<lambda>j. if j = i then i \<in> live x \<and> \<not> et_stopped t \<and> \<not> et_cancelPending t else uncancelled x j)"
  by (auto simp: uncancelled_def fun_eq_iff)

lemma queue_upd [simp]: "queue_ok (upd i t m x) = queue_ok x"
  by (simp add: queue_ok_def)

lemma operations_upd [simp]: "operations_ok (upd i t m x) = operations_ok x"
  by (simp add: operations_ok_def)

lemma live_task:
  "ax_ok U x \<Longrightarrow> i \<in> live x \<Longrightarrow> live_ok (i \<in> U) (count_list (ax_posted x) i) (ax_tasks x i)"
  "ax_ok U x \<Longrightarrow> i \<notin> live x \<Longrightarrow> dead_ok (count_list (ax_posted x) i) (ax_tasks x i)"
  unfolding ax_ok_def tasks_ok_def by metis+

section \<open>Scheduling a call\<close>

definition scheduled :: "(nat \<Rightarrow> created) \<Rightarrow> bool \<Rightarrow> exec_task \<Rightarrow> exec_task \<times> nat" where
  "scheduled ct newCall t =
     (let incr = (\<lambda>t. if newCall then t\<lparr>et_callsExpected := et_callsExpected t + 1,
                        et_remainingToExecute := et_remainingToExecute t + 1\<rparr> else t)
      in if et_stopped t then (incr t, 1)
         else case ct (the (et_operationState t)) of
                NewTask \<Rightarrow> (t\<lparr>et_taskInProgress := Some (OpRunning newCall)\<rparr>, 0)
              | CreateThrows e \<Rightarrow> (incr (t\<lparr>et_taskInProgress := Some (OpCompleted (Some e))\<rparr>), 1)
              | NoTask \<Rightarrow> (incr t, 1))"

lemma scheduleCall_eq:
  assumes "et_operationState t \<noteq> None" "et_taskInProgress t = None" "et_callsExpected t \<noteq> 0"
  shows "scheduleCall ct newCall i (upd i t m x) =
    (case scheduled ct newCall t of (t', n) \<Rightarrow> Inr (upd i t' (m + n) x))"
  using assms
  by (auto simp: scheduleCall_def scheduled_def Let_def setT_upd scheduleAsyncCall_eq post_upd chkR_def split: created.split)

lemma scheduled_frame:
  assumes "scheduled ct newCall t = (t', n)"
  shows "et_stopped t' = et_stopped t" "et_cancelPending t' = et_cancelPending t" "et_callback t' = et_callback t"
    "et_execution t' = et_execution t" "held t' = held t"
  using assms by (auto simp: scheduled_def Let_def held_def split: if_splits created.splits)

lemma scheduled_weight:
  assumes "et_taskInProgress t = None" "scheduled ct newCall t = (t', m)"
  shows "weight False (n + m) t' \<le> weight False n t + 6"
  using assms by (auto simp: scheduled_def Let_def weight_def opRunning_def split: if_splits created.splits)

text \<open>The queue starts the task: its first call, or the last when it was cancelled and called back before.\<close>

lemma scheduled_callsExpected:
  assumes "live_ok True n t"
  shows "et_operationState t \<noteq> None" "et_taskInProgress t = None" "et_callsExpected t \<noteq> 0"
  using assms by (auto simp: live_ok_def late_def split: if_splits)

lemma scheduled_first:
  assumes "live_ok True n t" "scheduled ct False t = (t', m)"
  shows "live_ok False (n + m) t'"
proof -
  have e: "executing (t\<lparr>et_taskInProgress := p\<rparr>) = executing t" for p by (simp add: executing_def)
  let ?s = "scheduled ct False t"
  have "live_ok False (n + snd ?s) (fst ?s)" using assms(1) scheduled_callsExpected [OF assms(1)]
    by (cases "et_stopped t"; cases "et_callback t"; cases "ct (the (et_operationState t))")
      (simp_all add: scheduled_def Let_def live_ok_def late_def opRunning_def e split: if_splits)
  with assms(2) show ?thesis by simp
qed

text \<open>A call on the existing task.\<close>

lemma scheduled_again_ready:
  assumes "live_ok False n t" "et_callback t = None" "\<not> et_stopped t"
  shows "et_operationState t \<noteq> None" "et_taskInProgress t = None" "et_callsExpected t \<noteq> 0"
    "et_remainingToExecute t = (if executing t then 1 else 0)" "et_execution t \<noteq> Terminating" "n = 0"
    "et_callsExpected t = 1" "\<not> et_cancelPending t"
  using assms by (auto simp: live_ok_def late_def split: if_splits)

lemma scheduled_again:
  assumes "live_ok False n t" "et_callback t = None" "\<not> executing t" "\<not> et_stopped t"
    "scheduled ct True (t\<lparr>et_callback := Some cb\<rparr>) = (t', m)"
  shows "live_ok False (n + m) t'"
proof -
  note r = scheduled_again_ready [OF assms(1,2,4)]
  have e: "executing (t\<lparr>et_callback := c, et_taskInProgress := p\<rparr>) = executing t"
    "executing (t\<lparr>et_callback := c, et_taskInProgress := p, et_callsExpected := a, et_remainingToExecute := b\<rparr>) = executing t"
    "executing (t\<lparr>et_callback := c, et_callsExpected := a, et_remainingToExecute := b\<rparr>) = executing t" for c p a b
    by (simp_all add: executing_def)
  have x: "\<forall>cb b st. et_execution t \<noteq> Executing cb (Some (OpRunning b)) st" using assms(1) by (simp add: live_ok_def)
  let ?s = "scheduled ct True (t\<lparr>et_callback := Some cb\<rparr>)"
  have "live_ok False (n + snd ?s) (fst ?s)" using r assms(2-4) x
    by (cases "ct (the (et_operationState t))")
      (simp_all add: scheduled_def Let_def live_ok_def late_def opRunning_def e)
  with assms(5) show ?thesis by simp
qed

section \<open>The other sections on a task\<close>

lemma onExecute_ok:
  assumes "live_ok u (Suc n) t" "et_execution t = Idle"
  shows "\<exists>t' m. ae_onExecute i (upd i t 0 x) = Inr (upd i t' m x) \<and> live_ok u (n + m) t'
     \<and> (\<not> et_stopped t' \<and> \<not> et_cancelPending t') = (\<not> et_stopped t \<and> \<not> et_cancelPending t) \<and> held t' = held t
     \<and> weight u (n + m) t' < weight u (Suc n) t"
proof -
  note A = assms(1)[unfolded live_ok_def]
  show ?thesis
  proof (cases "et_callback t")
    case None
    with A assms(2) have "et_callsExpected t = 1" "et_taskInProgress t = None" "n = 0" "et_stopped t" "\<not> u"
      by (auto simp: late_def split: if_splits)
    with None A assms(2) show ?thesis
      by (intro exI [of _ "t\<lparr>et_callsExpected := 0, et_execution := Terminating\<rparr>"] exI [of _ 0])
        (simp add: ae_onExecute_def Let_def setT_upd live_ok_def late_def opRunning_def executing_def held_def
          weight_def phase_def)
  next
    case (Some cb)
    have run: "\<not> opRunning t" using A Some assms(2) by (auto simp: opRunning_def split: if_splits)
    then have nl: "\<not> late t" by (auto simp: late_def opRunning_def)
    have e: "et_callsExpected t = 2" using A Some assms(2) nl by simp
    define t2 where "t2 = t\<lparr>et_callsExpected := 1, et_callback := None, et_taskInProgress := None,
        et_execution := Executing cb (et_taskInProgress t) (et_stopped t)\<rparr>"
    have c: "case et_taskInProgress t of Some (OpRunning b) \<Rightarrow> False | _ \<Rightarrow> True"
      using run by (auto simp: opRunning_def split: option.splits op_task.splits)
    have eq: "ae_onExecute i (upd i t 0 x) = (if et_cancelPending t
        then Inr (upd i (t2\<lparr>et_cancelPending := False, et_stopped := True\<rparr>) 1 x) else Inr (upd i t2 0 x))"
      using A Some e c by (simp add: ae_onExecute_def Let_def setT_upd t2_def scheduleAsyncCall_eq)
    show ?thesis
    proof (cases "et_cancelPending t")
      case True
      then show ?thesis using A Some assms(2) run nl e eq
        by (intro exI [of _ "t2\<lparr>et_cancelPending := False, et_stopped := True\<rparr>"] exI [of _ 1])
          (auto simp: t2_def live_ok_def late_def opRunning_def executing_def held_def weight_def phase_def split: if_splits)
    next
      case False
      then show ?thesis using A Some assms(2) run nl e eq
        by (intro exI [of _ t2] exI [of _ 0])
          (auto simp: t2_def live_ok_def late_def opRunning_def executing_def held_def weight_def phase_def split: if_splits)
    qed
  qed
qed

lemma onExecute_call_ok:
  assumes "live_ok u n t" "executing t"
  shows "\<exists>t'. onExecute_call out i (upd i t 0 x) = Inr (upd i t' 0 x) \<and> live_ok u n t'
     \<and> et_stopped t' = et_stopped t \<and> et_cancelPending t' = et_cancelPending t \<and> held t' = held t
     \<and> et_callback t' = et_callback t \<and> calling t' \<and> weight u n t' < weight u n t"
proof -
  obtain cb op st where e: "et_execution t = Executing cb op st"
    using assms(2) by (auto simp: executing_def split: execution.splits)
  have l: "\<not> late t" "et_callback t = None" "et_remainingToExecute t = 1" "et_operationState t \<noteq> None"
    using assms e by (auto simp: live_ok_def late_def split: if_splits)
  have op: "op \<noteq> Some (OpRunning b)" for b using assms e by (auto simp: live_ok_def)
  have "\<exists>ex ab. onExecute_call out i (upd i t 0 x) =
      Inr (upd i (t\<lparr>et_remainingToExecute := 0, et_execution := Calling cb ex ab\<rparr>) 0 x)"
    using l op by (cases op; cases "executeOperation out")
      (auto simp: onExecute_call_def e Let_def setT_upd split: op_task.splits)
  then obtain ex ab where "onExecute_call out i (upd i t 0 x) =
      Inr (upd i (t\<lparr>et_remainingToExecute := 0, et_execution := Calling cb ex ab\<rparr>) 0 x)" by blast
  then show ?thesis using assms e l
    by (intro exI [of _ "t\<lparr>et_remainingToExecute := 0, et_execution := Calling cb ex ab\<rparr>"])
      (auto simp: live_ok_def late_def opRunning_def executing_def held_def calling_def weight_def phase_def)
qed

lemma onOperationTaskReady_ok:
  assumes "live_ok u n t" "et_taskInProgress t = Some (OpRunning newCall)"
  shows "\<exists>t' m. onOperationTaskReady cont ex newCall i (upd i t 0 x) = Inr (upd i t' m x) \<and> live_ok u (n + m) t'
     \<and> et_stopped t' = et_stopped t \<and> et_cancelPending t' = et_cancelPending t \<and> held t' = held t
     \<and> et_callback t' = et_callback t \<and> et_execution t' = et_execution t
     \<and> (cont \<noteq> OpContTask \<longrightarrow> weight u (n + m) t' < weight u n t)"
proof -
  have e: "et_callsExpected t \<noteq> 0" using assms by (auto simp: live_ok_def late_def split: if_splits)
  let ?t = "\<lambda>e. t\<lparr>et_taskInProgress := Some (OpCompleted e)\<rparr>"
  let ?inc = "\<lambda>t. if newCall then t\<lparr>et_callsExpected := et_callsExpected t + 1,
      et_remainingToExecute := et_remainingToExecute t + 1\<rparr> else t"
  have done_eq: "onOperationTaskReady cont ex newCall i (upd i t 0 x) = Inr (upd i (?inc (?t ex')) 1 x)"
    if "cont = OpContNone \<and> ex' = ex \<or> (\<exists>e. cont = OpContThrows e \<and> ex' = Some e)" for ex'
    using that assms(2) e by (auto simp: onOperationTaskReady_def Let_def setT_upd scheduleAsyncCall_eq)
  have ok: "live_ok u (n + 1) (?inc (?t ex'))" for ex'
    using assms by (auto simp: live_ok_def late_def opRunning_def executing_def split: if_splits execution.splits)
  have w: "weight u (n + 1) (?inc (?t ex')) < weight u n t" for ex'
    using assms(2) by (auto simp: weight_def opRunning_def)
  show ?thesis
  proof (cases cont)
    case OpContTask
    then have "onOperationTaskReady cont ex newCall i (upd i t 0 x) = Inr (upd i t 0 x)"
      using assms(2) by (simp add: onOperationTaskReady_def Let_def setT_upd)
        (metis (mono_tags) assms(2) exec_task.surjective exec_task.update_convs(7))
    with assms(1) OpContTask show ?thesis by (intro exI [of _ t] exI [of _ 0]) simp
  qed (use done_eq ok w in \<open>auto simp: held_def intro!: exI [of _ 1]\<close>)
qed

section \<open>Starting tasks\<close>

text \<open>The parts of the executor that scheduling does not touch.\<close>

definition same_calls :: "async_executor \<Rightarrow> async_executor \<Rightarrow> bool" where
  "same_calls x x' \<longleftrightarrow> ax_workers x' = ax_workers x \<and> ax_operations x' = ax_operations x
     \<and> ax_nextTask x' = ax_nextTask x \<and> ax_nextOperation x' = ax_nextOperation x
     \<and> ax_operationsPool x' = ax_operationsPool x \<and> ax_outstandingCalls x' = ax_outstandingCalls x
     \<and> ax_maxExecuting x' = ax_maxExecuting x
     \<and> (\<forall>i. et_stopped (ax_tasks x' i) = et_stopped (ax_tasks x i)
          \<and> et_cancelPending (ax_tasks x' i) = et_cancelPending (ax_tasks x i)
          \<and> et_callback (ax_tasks x' i) = et_callback (ax_tasks x i)
          \<and> et_execution (ax_tasks x' i) = et_execution (ax_tasks x i))"

lemma same_calls_refl: "same_calls x x"
  by (simp add: same_calls_def)

lemma same_calls_trans: "same_calls x y \<Longrightarrow> same_calls y z \<Longrightarrow> same_calls x z"
  by (simp add: same_calls_def)

lemma same_calls_upd:
  assumes "et_stopped t = et_stopped (ax_tasks x i)" "et_cancelPending t = et_cancelPending (ax_tasks x i)"
    "et_callback t = et_callback (ax_tasks x i)" "et_execution t = et_execution (ax_tasks x i)"
  shows "same_calls x (upd i t m x)"
  using assms by (simp add: same_calls_def)

lemma same_calls_fields:
  assumes "same_calls x x'"
  shows "ax_workers x' = ax_workers x" "ax_operations x' = ax_operations x" "ax_nextTask x' = ax_nextTask x"
    "ax_nextOperation x' = ax_nextOperation x" "ax_operationsPool x' = ax_operationsPool x"
    "ax_outstandingCalls x' = ax_outstandingCalls x" "ax_maxExecuting x' = ax_maxExecuting x"
    "live x' = live x" "uncancelled x' = uncancelled x" "queue_ok x' = queue_ok x" "operations_ok x' = operations_ok x"
    "waiting x' = waiting x" "et_callback (ax_tasks x' i) = et_callback (ax_tasks x i)"
    "executing (ax_tasks x' i) = executing (ax_tasks x i)"
  using assms by (simp_all add: same_calls_def live_def uncancelled_def fun_eq_iff queue_ok_def operations_ok_def
      waiting_def held_def executing_def)

lemma scheduleTask_ok:
  assumes "tasks_ok (insert i U) x" "i \<notin> U" "i \<in> live x"
  shows "\<exists>x'. scheduleTask ct i x = Inr x' \<and> tasks_ok U x' \<and> same_calls x x' \<and> work U x' \<le> work (insert i U) x"
proof -
  let ?t = "ax_tasks x i"
  obtain t' m where s: "scheduled ct False ?t = (t', m)" by (cases "scheduled ct False ?t")
  have l: "live_ok True (count_list (ax_posted x) i) ?t"
    using assms(1,3) unfolding tasks_ok_def by (metis insertI1)
  have x: "upd i ?t 0 x = x" by (simp add: upd_def)
  have "scheduleTask ct i x = Inr (upd i t' m x)"
    using scheduleCall_eq [OF scheduled_callsExpected [OF l], of ct False i 0 x] by (simp add: scheduleTask_def s x)
  moreover have "tasks_ok U (upd i t' m (x\<lparr>ax_posted := ax_posted x\<rparr>))"
    by (rule tasks_upd [OF assms(1)]) (use assms(2,3) scheduled_first [OF l s] in auto)
  moreover have "same_calls x (upd i t' m x)" by (rule same_calls_upd) (use scheduled_frame [OF s] in simp_all)
  moreover have "work U (upd i t' m x) \<le> work (insert i U) x"
    using work_upd [of i x U "insert i U" "ax_posted x" t' m] assms(2,3)
      scheduled_weight [OF scheduled_callsExpected(2) [OF l] s, of "count_list (ax_posted x) i"]
    by (simp add: weight_def)
  ultimately show ?thesis by simp
qed

lemma scheduleTasks_ok:
  assumes "tasks_ok (set is \<union> V) x" "distinct is" "set is \<inter> V = {}" "set is \<subseteq> live x"
  shows "\<exists>x'. scheduleTasks ct is x = Inr x' \<and> tasks_ok V x' \<and> same_calls x x' \<and> work V x' \<le> work (set is \<union> V) x"
  using assms
proof (induction "is" arbitrary: x)
  case (Cons i "is")
  obtain x1 where x1: "scheduleTask ct i x = Inr x1" "tasks_ok (set is \<union> V) x1" "same_calls x x1"
    "work (set is \<union> V) x1 \<le> work (set (i # is) \<union> V) x"
    using scheduleTask_ok [of i "set is \<union> V" x ct] Cons.prems by auto
  have "\<exists>x'. scheduleTasks ct is x1 = Inr x' \<and> tasks_ok V x' \<and> same_calls x1 x' \<and> work V x' \<le> work (set is \<union> V) x1"
    by (rule Cons.IH) (use x1(2,3) Cons.prems same_calls_fields(8) [OF x1(3)] in auto)
  then obtain x' where x': "scheduleTasks ct is x1 = Inr x'" "tasks_ok V x'" "same_calls x1 x'"
    "work V x' \<le> work (set is \<union> V) x1" by blast
  have "work V x' \<le> work (set (i # is) \<union> V) x" by (rule le_trans [OF x'(4) x1(4)])
  with x1(1) x'(1,2) same_calls_trans [OF x1(3) x'(3)] show ?case by simp
qed (simp add: same_calls_refl)

lemma padWorkers_ok:
  fixes x :: async_executor
  defines "y \<equiv> \<lambda>q. x\<lparr>ax_workers := q\<rparr>"
  assumes "tasks_ok (set (aq_pending q)) (y q)" "queue_ok (y q)"
  shows "\<exists>x' q'. padWorkers ct q x = Inr x' \<and> tasks_ok (set (aq_pending (ax_workers x'))) x' \<and> same_calls (y q') x'
     \<and> queue_ok (y q') \<and> live (y q') = live (y q)
     \<and> work (set (aq_pending (ax_workers x'))) x' \<le> work (set (aq_pending q)) (y q) \<and> padded x'"
proof -
  define n where "n = aq_slots (ax_maxExecuting x) 0 q"
  define q' where "q' = aq_pad (ax_maxExecuting x) 0 q"
  have q': "aq_pending q' = drop n (aq_pending q)" "aq_executing q' = aq_executing q @ take n (aq_pending q)"
    "aq_ready q' = aq_ready q" by (simp_all add: q'_def n_def aq_pad_def)
  have sp: "set (aq_pending q) = set (take n (aq_pending q)) \<union> set (drop n (aq_pending q))"
    by (simp flip: set_append)
  have d: "distinct (take n (aq_pending q) @ drop n (aq_pending q))" using assms(3) by (simp add: queue_ok_def y_def)
  have "mset (aq_pending q' @ aq_executing q' @ aq_ready q') = mset (aq_pending q @ aq_executing q @ aq_ready q)"
    unfolding q' by (simp add: union_assoc) (metis append_take_drop_id mset_append union_commute union_lcomm)
  from mset_eq_setD [OF this] mset_eq_imp_distinct_iff [OF this] have qk: "queue_ok (y q')"
    using assms(3) unfolding queue_ok_def y_def by (simp del: distinct_append set_append)
  have lv: "live (y q') = live (y q)" using sp by (auto simp: live_def y_def q')
  have "\<exists>x'. scheduleTasks ct (take n (aq_pending q)) (y q') = Inr x' \<and> tasks_ok (set (aq_pending q')) x'
      \<and> same_calls (y q') x' \<and> work (set (aq_pending q')) x' \<le> work (set (take n (aq_pending q)) \<union> set (aq_pending q')) (y q')"
  proof (rule scheduleTasks_ok)
    show "tasks_ok (set (take n (aq_pending q)) \<union> set (aq_pending q')) (y q')"
    proof -
      have "set (take n (aq_pending q)) \<union> set (aq_pending q') = set (aq_pending q)" using sp by (simp add: q')
      moreover have "ax_posted (y q') = ax_posted (y q)" "ax_tasks (y q') = ax_tasks (y q)" by (simp_all add: y_def)
      ultimately show ?thesis using assms(2) unfolding tasks_ok_def lv by metis
    qed
    show "set (take n (aq_pending q)) \<subseteq> live (y q')" by (auto simp: live_def y_def q')
  qed (use d [unfolded distinct_append] in \<open>simp_all add: q'\<close>)
  then obtain x' where x': "scheduleTasks ct (take n (aq_pending q)) (y q') = Inr x'" "tasks_ok (set (aq_pending q')) x'"
    "same_calls (y q') x'"
    "work (set (aq_pending q')) x' \<le> work (set (take n (aq_pending q)) \<union> set (aq_pending q')) (y q')" by blast
  have "set (take n (aq_pending q)) \<union> set (aq_pending q') = set (aq_pending q)" using sp by (simp add: q')
  then have w: "work (set (aq_pending q')) x' \<le> work (set (aq_pending q)) (y q)"
    using x'(4) unfolding work_def lv by (simp add: y_def)
  have "padWorkers ct q x = Inr x'" using x'(1) by (simp add: padWorkers_def Let_def y_def q'_def n_def)
  moreover have "padded x'"
    using same_calls_fields(1,7) [OF x'(3)] unfolding padded_def by (auto simp: y_def q' n_def aq_slots_def)
  ultimately show ?thesis using x' qk lv w same_calls_fields(1) [OF x'(3)]
    by (intro exI [of _ x'] exI [of _ q']) (simp add: y_def)
qed

section \<open>The actions of a task\<close>

lemma waiting_cong:
  "ax_nextTask x' = ax_nextTask x \<Longrightarrow> (\<And>i. i < ax_nextTask x \<Longrightarrow> held (ax_tasks x' i) = held (ax_tasks x i))
     \<Longrightarrow> waiting x' = waiting x"
  by (simp add: waiting_def)

lemma waiting_upd:
  assumes "i < ax_nextTask x" "held t + a = held (ax_tasks x i) + b"
  shows "waiting (upd i t m x) + a = waiting x + b"
proof -
  have r: "(\<Sum>j<ax_nextTask x. f j) = f i + (\<Sum>j\<in>{..<ax_nextTask x} - {i}. f j)" for f :: "nat \<Rightarrow> nat multiset"
    using assms(1) by (simp add: sum.remove)
  let ?R = "\<Sum>j\<in>{..<ax_nextTask x} - {i}. held (ax_tasks x j)"
  have "waiting (upd i t m x) = held t + (\<Sum>j\<in>{..<ax_nextTask x} - {i}. held (((ax_tasks x)(i := t)) j))"
    using r [of "\<lambda>j. held (((ax_tasks x)(i := t)) j)"] by (simp add: waiting_def)
  also have "(\<Sum>j\<in>{..<ax_nextTask x} - {i}. held (((ax_tasks x)(i := t)) j)) = ?R" by (rule sum.cong) auto
  finally have w: "waiting (upd i t m x) = held t + ?R" .
  have "waiting x = held (ax_tasks x i) + ?R" unfolding waiting_def by (rule r)
  with assms(2) w show ?thesis by (metis add.assoc add.commute)
qed

text \<open>The invariant after a section that changes one task and the posted calls of that task.\<close>

lemma sys_upd:
  assumes "sys_ok s" "i \<in> live (sx s)"
    "\<And>j. j \<noteq> i \<Longrightarrow> count_list ps j = count_list (ax_posted (sx s)) j"
    "live_ok (i \<in> set (aq_pending (ax_workers (sx s)))) (count_list ps i + m) t"
    "(\<not> et_stopped t \<and> \<not> et_cancelPending t)
       = (\<not> et_stopped (ax_tasks (sx s) i) \<and> \<not> et_cancelPending (ax_tasks (sx s) i))"
    "sx s' = upd i t m ((sx s)\<lparr>ax_posted := ps\<rparr>)" "sx_begin s' = None \<or> sx_begin s' = sx_begin s"
    "\<And>k cb. sx_begin s' = Some (k, i, cb) \<Longrightarrow> et_callback t = None \<and> \<not> executing t"
  shows "sys_ok s'"
proof -
  let ?x = "sx s"
  have ok: "ax_ok (set (aq_pending (ax_workers ?x))) ?x" using assms(1) by (simp add: sys_ok_def)
  have lv: "live (?x\<lparr>ax_posted := ps\<rparr>) = live ?x" by (simp add: live_def)
  have "tasks_ok (set (aq_pending (ax_workers ?x))) (sx s')" unfolding assms(6)
    by (rule tasks_upd) (use ok assms(2-4) in \<open>simp_all add: ax_ok_def\<close>)
  moreover have "uncancelled (sx s') = uncancelled ?x"
    using assms(2,5) unfolding assms(6) uncancelled_upd lv by (auto simp: fun_eq_iff uncancelled_def lv)
  moreover have "queue_ok (sx s') = queue_ok ?x" "operations_ok (sx s') = operations_ok ?x"
    "ax_operations (sx s') = ax_operations ?x" "ax_workers (sx s') = ax_workers ?x"
    unfolding assms(6) by (simp_all add: queue_ok_def operations_ok_def)
  moreover have "begin_ok s'" unfolding begin_ok_def
  proof (intro allI impI)
    fix k j cb assume b: "sx_begin s' = Some (k, j, cb)"
    then have "sx_begin s = Some (k, j, cb)" using assms(7) by auto
    then have "ao_task (ax_operations ?x k) = Some j" "et_callback (ax_tasks ?x j) = None" "\<not> executing (ax_tasks ?x j)"
      using assms(1) unfolding sys_ok_def begin_ok_def by blast+
    with assms(8) [of k cb] b show "ao_task (ax_operations (sx s') k) = Some j
        \<and> et_callback (ax_tasks (sx s') j) = None \<and> \<not> executing (ax_tasks (sx s') j)"
      unfolding assms(6) by (cases "j = i") simp_all
  qed
  moreover have "padded (sx s')" using assms(1) unfolding assms(6) by (simp add: sys_ok_def padded_def)
  ultimately show ?thesis using ok by (simp add: sys_ok_def ax_ok_def)
qed

lemma live_below: "queue_ok x \<Longrightarrow> i \<in> live x \<Longrightarrow> i < ax_nextTask x"
  by (auto simp: queue_ok_def live_def)

lemma sys_live:
  assumes "sys_ok s"
  shows "i \<in> live (sx s) \<Longrightarrow> live_ok (i \<in> set (aq_pending (ax_workers (sx s)))) (count_list (ax_posted (sx s)) i) (ax_tasks (sx s) i)"
    "i \<notin> live (sx s) \<Longrightarrow> dead_ok (count_list (ax_posted (sx s)) i) (ax_tasks (sx s) i)"
    "i \<in> live (sx s) \<Longrightarrow> i < ax_nextTask (sx s)"
  using assms live_task live_below by (auto simp: sys_ok_def ax_ok_def)

lemma busy_live:
  assumes "sys_ok s" "et_execution (ax_tasks (sx s) i) \<noteq> Idle \<or> i \<in> set (ax_posted (sx s))
     \<or> et_taskInProgress (ax_tasks (sx s) i) \<noteq> None \<or> et_callback (ax_tasks (sx s) i) \<noteq> None"
  shows "i \<in> live (sx s)"
proof (rule ccontr)
  assume "i \<notin> live (sx s)"
  from sys_live(2) [OF assms(1) this] assms(2) show False by (auto simp: dead_ok_def count_list_0_iff)
qed

definition good :: "ax_sys \<Rightarrow> bool" where
  "good s \<longleftrightarrow> sys_ok s \<and> accounted s"

lemma same_upd: "upd i (ax_tasks x i) 0 x = x"
  by (simp add: upd_def)

lemma count_remove: "i \<in> set xs \<Longrightarrow> count_list xs j = count_list (remove1 i xs) j + (if j = i then 1 else 0)"
  by (induction xs) auto

lemma count_other: "j \<noteq> i \<Longrightarrow> count_list (remove1 i xs) j = count_list xs j"
  by (induction xs) auto

lemma action_AExecute:
  assumes "good s" "enabled (AExecute i) s"
  shows "\<exists>s'. perform_ax (AExecute i) s = Inr s' \<and> good s' \<and> sys_work s' < sys_work s"
proof -
  let ?x = "sx s" let ?t = "ax_tasks ?x i" let ?ps = "remove1 i (ax_posted ?x)"
  let ?y = "?x\<lparr>ax_posted := ?ps\<rparr>"
  have ok: "sys_ok s" "accounted s" using assms(1) by (simp_all add: good_def)
  have e: "i \<in> set (ax_posted ?x)" "et_execution ?t = Idle" using assms(2) by simp_all
  have lv: "i \<in> live ?x" using busy_live [OF ok(1)] e(1) by blast
  have c: "count_list (ax_posted ?x) j = count_list ?ps j + (if j = i then 1 else 0)" for j
    by (rule count_remove [OF e(1)])
  have l: "live_ok (i \<in> set (aq_pending (ax_workers ?x))) (Suc (count_list ?ps i)) ?t"
    using sys_live(1) [OF ok(1) lv] unfolding c [of i] by simp
  obtain t' m where t': "ae_onExecute i (upd i ?t 0 ?y) = Inr (upd i t' m ?y)"
    "live_ok (i \<in> set (aq_pending (ax_workers ?x))) (count_list ?ps i + m) t'"
    "(\<not> et_stopped t' \<and> \<not> et_cancelPending t') = (\<not> et_stopped ?t \<and> \<not> et_cancelPending ?t)" "held t' = held ?t"
    "weight (i \<in> set (aq_pending (ax_workers ?x))) (count_list ?ps i + m) t'
       < weight (i \<in> set (aq_pending (ax_workers ?x))) (Suc (count_list ?ps i)) ?t"
    using onExecute_ok [OF l e(2), of i ?y] by (elim exE conjE) (rule that)
  have u: "upd i ?t 0 ?y = ?y" by (simp add: upd_def)
  have p: "perform_ax (AExecute i) s = Inr (s\<lparr>sx := upd i t' m ?y\<rparr>)"
    using t'(1) [unfolded u] by (simp add: inS_def del: upd_simps)
  have nb: "sx_begin s \<noteq> Some (k, i, cb)" for k cb
  proof
    assume b: "sx_begin s = Some (k, i, cb)"
    then have "ao_task (ax_operations ?x k) = Some i" "et_callback ?t = None"
      using ok(1) by (auto simp: sys_ok_def begin_ok_def)
    moreover from this have "uncancelled ?x i" using ok(1) by (auto simp: sys_ok_def ax_ok_def owners_ok_def)
    ultimately show False using l by (auto simp: uncancelled_def live_ok_def split: if_splits)
  qed
  have "sys_ok (s\<lparr>sx := upd i t' m ?y\<rparr>)"
    by (rule sys_upd [OF ok(1) lv, where ps = ?ps and m = m and t = t']) (use t'(2,3) nb in \<open>simp_all add: count_other\<close>)
  moreover have "waiting (upd i t' m ?y) = waiting ?x"
    by (rule waiting_cong) (use t'(4) in auto)
  then have "accounted (s\<lparr>sx := upd i t' m ?y\<rparr>)" using ok(2) by (simp add: accounted_def begun_def)
  moreover have "count_list (ax_posted ?x) i = Suc (count_list ?ps i)" unfolding c [of i] by simp
  then have "sys_work (s\<lparr>sx := upd i t' m ?y\<rparr>) < sys_work s"
    using work_upd [of i ?x "set (aq_pending (ax_workers ?x))" "set (aq_pending (ax_workers ?x))" ?ps t' m] lv t'(5)
    by (simp add: sys_work_def count_other del: count_list_remove1)
  ultimately show ?thesis using p by (simp add: good_def)
qed

lemma good_upd:
  assumes "good s" "i \<in> live (sx s)"
    "live_ok (i \<in> set (aq_pending (ax_workers (sx s)))) (count_list (ax_posted (sx s)) i + m) t"
    "(\<not> et_stopped t \<and> \<not> et_cancelPending t)
       = (\<not> et_stopped (ax_tasks (sx s) i) \<and> \<not> et_cancelPending (ax_tasks (sx s) i))"
    "sx s' = upd i t m (sx s)" "sx_begin s' = None \<or> sx_begin s' = sx_begin s"
    "\<And>k cb. sx_begin s' = Some (k, i, cb) \<Longrightarrow> et_callback t = None \<and> \<not> executing t"
    "mset (map fst (sx_delivered s')) + begun s' + held t
       = mset (map fst (sx_delivered s)) + begun s + held (ax_tasks (sx s) i)"
    "sx_next s' = sx_next s"
  shows "good s'"
proof -
  have ok: "sys_ok s" "accounted s" using assms(1) by (simp_all add: good_def)
  have "sx s' = upd i t m ((sx s)\<lparr>ax_posted := ax_posted (sx s)\<rparr>)" using assms(5) by simp
  from sys_upd [OF ok(1) assms(2) refl assms(3,4) this assms(6,7)] have so: "sys_ok s'" .
  have w: "waiting (upd i t m (sx s)) + held (ax_tasks (sx s) i) = waiting (sx s) + held t"
    by (rule waiting_upd) (use sys_live(3) [OF ok(1) assms(2)] in \<open>simp_all add: union_commute\<close>)
  let ?D = "mset (map fst (sx_delivered s))" let ?D' = "mset (map fst (sx_delivered s'))"
  have "?D' + waiting (sx s') + begun s' + held t + held (ax_tasks (sx s) i)
      = (?D' + begun s' + held t) + (waiting (sx s') + held (ax_tasks (sx s) i))" by (simp add: ac_simps)
  also have "\<dots> = ?D + waiting (sx s) + begun s + held t + held (ax_tasks (sx s) i)"
    unfolding assms(5,8) w by (simp add: ac_simps)
  finally have "accounted s'" using ok(2) by (simp add: accounted_def assms(9))
  with so show ?thesis by (simp add: good_def)
qed

lemma sys_work_upd:
  assumes "i \<in> live (sx s)" "sx s' = upd i t m (sx s)" "sx_begin s' = sx_begin s"
    "weight (i \<in> set (aq_pending (ax_workers (sx s)))) (count_list (ax_posted (sx s)) i + m) t
       < weight (i \<in> set (aq_pending (ax_workers (sx s)))) (count_list (ax_posted (sx s)) i) (ax_tasks (sx s) i)"
  shows "sys_work s' < sys_work s"
  using work_upd [of i "sx s" "set (aq_pending (ax_workers (sx s)))" "set (aq_pending (ax_workers (sx s)))" "ax_posted (sx s)" t m] assms
  by (simp add: sys_work_def)

lemma no_begin:
  assumes "sys_ok s" "sx_begin s = Some (k, i, cb)"
  shows "uncancelled (sx s) i" "et_callback (ax_tasks (sx s) i) = None" "\<not> executing (ax_tasks (sx s) i)"
    "et_taskInProgress (ax_tasks (sx s) i) = None" "i \<in> live (sx s)"
proof -
  have b: "ao_task (ax_operations (sx s) k) = Some i" "et_callback (ax_tasks (sx s) i) = None"
    "\<not> executing (ax_tasks (sx s) i)" using assms by (auto simp: sys_ok_def begin_ok_def)
  then show u: "uncancelled (sx s) i" using assms(1) by (auto simp: sys_ok_def ax_ok_def owners_ok_def)
  then show l: "i \<in> live (sx s)" by (simp add: uncancelled_def)
  show "et_callback (ax_tasks (sx s) i) = None" "\<not> executing (ax_tasks (sx s) i)" by fact+
  show "et_taskInProgress (ax_tasks (sx s) i) = None"
    using sys_live(1) [OF assms(1) l] b(2) unfolding live_ok_def by metis
qed

lemma action_ACall:
  assumes "good s" "enabled (ACall i out) s"
  shows "\<exists>s'. perform_ax (ACall i out) s = Inr s' \<and> good s' \<and> sys_work s' < sys_work s"
proof -
  let ?t = "ax_tasks (sx s) i"
  have ok: "sys_ok s" and e: "executing ?t" using assms by (simp_all add: good_def)
  have lv: "i \<in> live (sx s)" by (rule busy_live [OF ok]) (use e in \<open>auto simp: executing_def\<close>)
  obtain t' where t': "onExecute_call out i (upd i ?t 0 (sx s)) = Inr (upd i t' 0 (sx s))"
    "live_ok (i \<in> set (aq_pending (ax_workers (sx s)))) (count_list (ax_posted (sx s)) i) t'"
    "et_stopped t' = et_stopped ?t" "et_cancelPending t' = et_cancelPending ?t" "held t' = held ?t"
    "weight (i \<in> set (aq_pending (ax_workers (sx s)))) (count_list (ax_posted (sx s)) i) t'
       < weight (i \<in> set (aq_pending (ax_workers (sx s)))) (count_list (ax_posted (sx s)) i) ?t"
    using onExecute_call_ok [OF sys_live(1) [OF ok lv] e, of out i "sx s"] by (elim exE conjE) (rule that)
  have "good (s\<lparr>sx := upd i t' 0 (sx s)\<rparr>)"
    by (rule good_upd [OF assms(1) lv, where t = t' and m = 0])
      (use t' e no_begin(3) [OF ok] in \<open>auto simp: begun_def\<close>)
  moreover have "sys_work (s\<lparr>sx := upd i t' 0 (sx s)\<rparr>) < sys_work s"
    by (rule sys_work_upd [OF lv, where t = t' and m = 0]) (use t'(6) in simp_all)
  ultimately show ?thesis using t'(1) by (simp add: inS_def same_upd)
qed

lemma action_AOpReady:
  assumes "good s" "enabled (AOpReady i cont ex) s"
  shows "\<exists>s'. perform_ax (AOpReady i cont ex) s = Inr s' \<and> good s'
     \<and> (cont \<noteq> OpContTask \<longrightarrow> sys_work s' < sys_work s)"
proof -
  let ?t = "ax_tasks (sx s) i"
  have ok: "sys_ok s" using assms by (simp add: good_def)
  obtain nc where nc: "et_taskInProgress ?t = Some (OpRunning nc)"
    using assms(2) by (auto simp: opRunning_def split: option.splits op_task.splits)
  have lv: "i \<in> live (sx s)" by (rule busy_live [OF ok]) (use nc in auto)
  obtain t' m where t': "onOperationTaskReady cont ex nc i (upd i ?t 0 (sx s)) = Inr (upd i t' m (sx s))"
    "live_ok (i \<in> set (aq_pending (ax_workers (sx s)))) (count_list (ax_posted (sx s)) i + m) t'"
    "et_stopped t' = et_stopped ?t" "et_cancelPending t' = et_cancelPending ?t" "held t' = held ?t"
    "cont \<noteq> OpContTask \<longrightarrow> weight (i \<in> set (aq_pending (ax_workers (sx s)))) (count_list (ax_posted (sx s)) i + m) t'
       < weight (i \<in> set (aq_pending (ax_workers (sx s)))) (count_list (ax_posted (sx s)) i) ?t"
    using onOperationTaskReady_ok [OF sys_live(1) [OF ok lv] nc, of cont ex i "sx s"] by (elim exE conjE) (rule that)
  have "good (s\<lparr>sx := upd i t' m (sx s)\<rparr>)"
    by (rule good_upd [OF assms(1) lv, where t = t' and m = m])
      (use t' nc no_begin(4) [OF ok] in \<open>auto simp: begun_def\<close>)
  moreover have "cont \<noteq> OpContTask \<longrightarrow> sys_work (s\<lparr>sx := upd i t' m (sx s)\<rparr>) < sys_work s"
    using sys_work_upd [OF lv, of "s\<lparr>sx := upd i t' m (sx s)\<rparr>" t' m] t'(6) by simp
  ultimately show ?thesis using t'(1) nc by (simp add: inS_def same_upd)
qed

lemma action_ACallback:
  assumes "good s" "enabled (ACallback i) s"
  shows "\<exists>s'. perform_ax (ACallback i) s = Inr s' \<and> good s' \<and> sys_work s' < sys_work s"
proof -
  let ?t = "ax_tasks (sx s) i"
  have ok: "sys_ok s" using assms by (simp add: good_def)
  obtain cb ex ab where e: "et_execution ?t = Calling cb ex ab"
    using assms(2) by (auto simp: calling_def split: execution.splits)
  have lv: "i \<in> live (sx s)" by (rule busy_live [OF ok]) (use e in auto)
  let ?t' = "?t\<lparr>et_execution := Returning\<rparr>"
  have l: "live_ok (i \<in> set (aq_pending (ax_workers (sx s)))) (count_list (ax_posted (sx s)) i) ?t'"
    using sys_live(1) [OF ok lv] e by (simp add: live_ok_def late_def opRunning_def executing_def)
  have "good (s\<lparr>sx := upd i ?t' 0 (sx s), sx_delivered := sx_delivered s @ [(cb, ex, ab)]\<rparr>)"
    by (rule good_upd [OF assms(1) lv, where t = ?t' and m = 0])
      (use l e no_begin(2) [OF ok] in \<open>auto simp: begun_def held_def executing_def split: option.splits\<close>)
  moreover have "sys_work (s\<lparr>sx := upd i ?t' 0 (sx s), sx_delivered := sx_delivered s @ [(cb, ex, ab)]\<rparr>) < sys_work s"
    by (rule sys_work_upd [OF lv, where t = ?t' and m = 0]) (use e in \<open>simp_all add: weight_def phase_def opRunning_def\<close>)
  ultimately show ?thesis using e by (simp add: setT_upd)
qed

lemma action_AReturn:
  assumes "good s" "enabled (AReturn i) s"
  shows "\<exists>s'. perform_ax (AReturn i) s = Inr s' \<and> good s' \<and> sys_work s' < sys_work s"
proof -
  let ?t = "ax_tasks (sx s) i"
  have ok: "sys_ok s" and e: "et_execution ?t = Returning" using assms by (simp_all add: good_def)
  have lv: "i \<in> live (sx s)" by (rule busy_live [OF ok]) (use e in auto)
  let ?t' = "?t\<lparr>et_execution := Idle\<rparr>"
  have l: "live_ok (i \<in> set (aq_pending (ax_workers (sx s)))) (count_list (ax_posted (sx s)) i) ?t'"
    using sys_live(1) [OF ok lv] e by (simp add: live_ok_def late_def opRunning_def executing_def)
  have "good (s\<lparr>sx := upd i ?t' 0 (sx s)\<rparr>)"
    by (rule good_upd [OF assms(1) lv, where t = ?t' and m = 0])
      (use l e no_begin(2) [OF ok] in \<open>auto simp: begun_def held_def executing_def split: option.splits\<close>)
  moreover have "sys_work (s\<lparr>sx := upd i ?t' 0 (sx s)\<rparr>) < sys_work s"
    by (rule sys_work_upd [OF lv, where t = ?t' and m = 0]) (use e in \<open>simp_all add: weight_def phase_def opRunning_def\<close>)
  ultimately show ?thesis by (simp add: setT_upd)
qed

lemma action_AContinue:
  assumes "good s" "enabled (AContinue ct) s"
  shows "\<exists>s'. perform_ax (AContinue ct) s = Inr s' \<and> good s' \<and> sys_work s' < sys_work s"
proof -
  have ok: "sys_ok s" using assms by (simp add: good_def)
  obtain k i cb where b: "sx_begin s = Some (k, i, cb)" using assms(2) by auto
  let ?x = "sx s" let ?t = "ax_tasks ?x i" let ?t1 = "?t\<lparr>et_callback := Some cb\<rparr>"
  note n = no_begin [OF ok b]
  have ns: "\<not> et_stopped ?t" using n(1) by (simp add: uncancelled_def)
  note l = sys_live(1) [OF ok n(5)]
  have np: "i \<notin> set (aq_pending (ax_workers ?x))"
    using l n(2) ns by (auto simp: live_ok_def split: if_splits)
  with l have l': "live_ok False (count_list (ax_posted ?x) i) ?t" by simp
  note r = scheduled_again_ready [OF l' n(2) ns]
  obtain t' m where s: "scheduled ct True ?t1 = (t', m)" by (cases "scheduled ct True ?t1")
  have "requestNewAsyncCall ct cb i ?x = Inr (upd i t' m ?x)"
    using scheduleCall_eq [of ?t1 ct True i 0 ?x] r n(3)
    by (simp add: requestNewAsyncCall_def ensureNoCallsPending_def noexcept_def setT_upd s)
  moreover have "good (s\<lparr>sx_begin := None, sx := upd i t' m ?x\<rparr>)"
  proof (rule good_upd [OF assms(1) n(5), where t = t' and m = m])
    show "live_ok (i \<in> set (aq_pending (ax_workers ?x))) (count_list (ax_posted ?x) i + m) t'"
      using scheduled_again [OF l' n(2,3) ns s] np by simp
    have h: "held t' = add_mset cb (held ?t)" using scheduled_frame(5) [OF s] n(2) by (simp add: held_def)
    then show "mset (map fst (sx_delivered (s\<lparr>sx_begin := None, sx := upd i t' m ?x\<rparr>)))
        + begun (s\<lparr>sx_begin := None, sx := upd i t' m ?x\<rparr>) + held t'
      = mset (map fst (sx_delivered s)) + begun s + held ?t" using b by (simp add: begun_def)
  qed (use scheduled_frame [OF s] in simp_all)
  moreover have "sys_work (s\<lparr>sx_begin := None, sx := upd i t' m ?x\<rparr>) < sys_work s"
    using work_upd [of i ?x "set (aq_pending (ax_workers ?x))" "set (aq_pending (ax_workers ?x))" "ax_posted ?x" t' m]
      scheduled_weight [of ?t1 ct True t' m "count_list (ax_posted ?x) i"] s r(2) n(5) np b
    by (simp add: sys_work_def weight_def opRunning_def)
  ultimately show ?thesis using b by (simp add: inS_def)
qed

end
