(* ===== verification/AsyncActions.thy ===== *)
theory AsyncActions
  imports AsyncInvariant
begin

text \<open>
  The actions of the asynchronous executor's system on operations: creating, beginning, cancelling and
  releasing them, and the end of an executor task.
\<close>

section \<open>Cancelling\<close>

lemma requestCancel_ok:
  assumes "live_ok u n t" "\<not> et_stopped t" "\<not> et_cancelPending t"
  shows "\<exists>t' m. et_requestCancel i (upd i t 0 x) = Inr (upd i t' m x) \<and> live_ok u (n + m) t'
     \<and> (et_stopped t' \<or> et_cancelPending t') \<and> held t' = held t \<and> et_callback t' = et_callback t
     \<and> et_execution t' = et_execution t"
proof (cases "et_taskInProgress t")
  case None
  let ?t = "t\<lparr>et_stopped := True\<rparr>"
  have "et_callsExpected t \<noteq> 0" using assms None by (auto simp: live_ok_def late_def split: if_splits)
  then have "et_requestCancel i (upd i t 0 x) = Inr (upd i ?t 1 x)"
    using assms None by (simp add: et_requestCancel_def Let_def setT_upd scheduleAsyncCall_eq)
  moreover have "live_ok u (n + 1) ?t" using assms None by (simp add: live_ok_def late_def opRunning_def executing_def)
  ultimately show ?thesis by (intro exI [of _ ?t] exI [of _ 1]) (simp add: held_def)
next
  case (Some p)
  let ?t = "t\<lparr>et_cancelPending := True\<rparr>"
  have "et_requestCancel i (upd i t 0 x) = Inr (upd i ?t 0 x)"
    using assms Some by (simp add: et_requestCancel_def Let_def setT_upd)
  moreover have "opRunning ?t = opRunning t" "executing ?t = executing t" "late ?t = late t"
    by (simp_all add: opRunning_def executing_def late_def)
  then have "live_ok u (n + 0) ?t" using assms Some by (auto simp: live_ok_def split: if_splits)
  ultimately show ?thesis by (intro exI [of _ ?t] exI [of _ 0]) (simp add: held_def)
qed

lemma card_active:
  assumes "operations_ok x" "ao_active (ax_operations x k)"
  shows "finite {j. ao_active (ax_operations x j)}"
    "(of_nat (card {j. ao_active (ax_operations x j)}) :: 32 word) - 1 = of_nat (card ({j. ao_active (ax_operations x j)} - {k}))"
proof -
  have "{j. ao_active (ax_operations x j)} \<subseteq> {..<ax_nextOperation x}" using assms(1) by (auto simp: operations_ok_def)
  then show f: "finite {j. ao_active (ax_operations x j)}" by (rule finite_subset) simp
  have "card {j. ao_active (ax_operations x j)} = Suc (card ({j. ao_active (ax_operations x j)} - {k}))"
    using card.remove [OF f, of k] assms(2) by simp
  then show "(of_nat (card {j. ao_active (ax_operations x j)}) :: 32 word) - 1
      = of_nat (card ({j. ao_active (ax_operations x j)} - {k}))" by simp
qed

text \<open>What \<open>resetState\<close> of an operation leaves alone.\<close>

definition cancelled :: "nat \<Rightarrow> async_executor \<Rightarrow> async_executor \<Rightarrow> bool" where
  "cancelled k x x' \<longleftrightarrow> ax_workers x' = ax_workers x \<and> ax_nextTask x' = ax_nextTask x
     \<and> ax_nextOperation x' = ax_nextOperation x \<and> ax_operationsPool x' = ax_operationsPool x
     \<and> ax_maxExecuting x' = ax_maxExecuting x
     \<and> ax_operations x' = (ax_operations x)(k := (ax_operations x k)\<lparr>ao_task := None, ao_active := False, ao_operationState := None\<rparr>)
     \<and> (\<forall>i. held (ax_tasks x' i) = held (ax_tasks x i) \<and> et_callback (ax_tasks x' i) = et_callback (ax_tasks x i)
          \<and> et_execution (ax_tasks x' i) = et_execution (ax_tasks x i))"

lemma operations_cancelled:
  assumes "operations_ok x" "cancelled k x x'"
    "ax_outstandingCalls x' = ax_outstandingCalls x - (if ao_active (ax_operations x k) then 1 else 0)"
  shows "operations_ok x'"
proof -
  let ?A = "{j. ao_active (ax_operations x j)}"
  have o: "ax_operations x' = (ax_operations x)(k := (ax_operations x k)\<lparr>ao_task := None, ao_active := False, ao_operationState := None\<rparr>)"
    using assms(2) by (simp add: cancelled_def)
  have "{j. ao_active (ax_operations x' j)} = ?A - {k}" by (auto simp: o)
  moreover have "of_nat (card (?A - {k})) = ax_outstandingCalls x'"
    using card_active(2) [OF assms(1), of k] assms(1,3) by (cases "ao_active (ax_operations x k)") (auto simp: operations_ok_def)
  moreover have "{j. ao_freed (ax_operations x' j)} = {j. ao_freed (ax_operations x j)}" by (auto simp: o)
  ultimately show ?thesis using assms(1,2) unfolding operations_ok_def by (auto simp: cancelled_def)
qed

lemma owners_congI:
  assumes "owners_ok ops owned" "\<And>j. ao_task (ops' j) = ao_task (ops j)"
    "\<And>j. ao_task (ops j) \<noteq> None \<Longrightarrow> ao_active (ops' j) = ao_active (ops j)"
  shows "owners_ok ops' owned"
proof -
  have "ao_task (ops k) = Some i \<Longrightarrow> ao_active (ops' k)" for k i
    using assms(1,3) by (auto simp: owners_ok_def)
  then show ?thesis using assms(1) unfolding owners_ok_def assms(2) by blast
qed

lemma owners_remove:
  assumes "owners_ok ops owned" "ao_task (ops k) = Some i" "ao_task p = None"
  shows "owners_ok (ops(k := p)) (\<lambda>j. j \<noteq> i \<and> owned j)"
  unfolding owners_ok_def
proof (intro conjI allI impI)
  fix j i' assume a: "ao_task ((ops(k := p)) j) = Some i'"
  with assms(3) have jk: "j \<noteq> k" by auto
  with a have t: "ao_task (ops j) = Some i'" by simp
  then show "ao_active ((ops(k := p)) j)" "owned i'" using assms(1) jk by (auto simp: owners_ok_def)
  show "i' \<noteq> i" using t assms(1,2) jk unfolding owners_ok_def by metis
next
  fix j j' i' assume "ao_task ((ops(k := p)) j) = Some i'" "ao_task ((ops(k := p)) j') = Some i'"
  with assms(1,3) show "j = j'" unfolding owners_ok_def by (auto split: if_splits)
next
  fix j assume "j \<noteq> i \<and> owned j"
  then obtain k' where "ao_task (ops k') = Some j" using assms(1) by (auto simp: owners_ok_def)
  moreover from this have "k' \<noteq> k" using assms(2) \<open>j \<noteq> i \<and> owned j\<close> by auto
  ultimately show "\<exists>k'. ao_task ((ops(k := p)) k') = Some j" by (intro exI [of _ k']) simp
qed

lemma tasks_ok_cong:
  "ax_workers x' = ax_workers x \<Longrightarrow> ax_posted x' = ax_posted x \<Longrightarrow> ax_tasks x' = ax_tasks x \<Longrightarrow> tasks_ok U x' = tasks_ok U x"
  by (simp add: tasks_ok_def live_def)

lemma resetState_ok:
  assumes "sys_ok s"
  shows "\<exists>x'. ao_resetState k (sx s) = Inr x' \<and> ax_ok (set (aq_pending (ax_workers x'))) x' \<and> cancelled k (sx s) x'"
proof -
  let ?x = "sx s" let ?p = "ax_operations ?x k" let ?U = "set (aq_pending (ax_workers ?x))"
  let ?p' = "?p\<lparr>ao_task := None, ao_active := False, ao_operationState := None\<rparr>"
  have ok: "ax_ok ?U ?x" using assms by (simp add: sys_ok_def)
  then have op: "operations_ok ?x" and ow: "owners_ok (ax_operations ?x) (uncancelled ?x)" and q: "queue_ok ?x"
    and ts: "tasks_ok ?U ?x" by (simp_all add: ax_ok_def)
  have as: "ao_active ?p \<longleftrightarrow> ao_operationState ?p \<noteq> None" using op by (simp add: operations_ok_def)
  let ?d = "ax_outstandingCalls ?x - (if ao_active ?p then 1 else 0)"
  show ?thesis
  proof (cases "ao_task ?p")
    case None
    define x' where "x' = (setO k ?p' ?x)\<lparr>ax_outstandingCalls := ?d\<rparr>"
    have pp: "?p\<lparr>ao_active := False, ao_operationState := None\<rparr> = ?p'" using None by simp
    have "ao_resetState k ?x = Inr x'"
      using None as by (simp add: ao_resetState_def Let_def x'_def pp) (simp add: setO_def)
    moreover have c: "cancelled k ?x x'" by (simp add: cancelled_def x'_def setO_def)
    moreover have "operations_ok x'" by (rule operations_cancelled [OF op c]) (simp add: x'_def)
    moreover have "queue_ok x' = queue_ok ?x" "tasks_ok ?U x' = tasks_ok ?U ?x" "uncancelled x' = uncancelled ?x"
      by (simp_all add: x'_def setO_def queue_ok_def tasks_ok_def live_def uncancelled_def fun_eq_iff)
    moreover have "owners_ok (ax_operations x') (uncancelled ?x)"
      by (rule owners_congI [OF ow]) (use None in \<open>auto simp: x'_def setO_def\<close>)
    ultimately show ?thesis using ts q by (auto simp: ax_ok_def cancelled_def)
  next
    case (Some i)
    then have u: "uncancelled ?x i" and ac: "ao_active ?p" using ow by (auto simp: owners_ok_def)
    let ?t = "ax_tasks ?x i"
    have lv: "i \<in> live ?x" "\<not> et_stopped ?t" "\<not> et_cancelPending ?t" using u by (simp_all add: uncancelled_def)
    obtain t' m where t': "et_requestCancel i (upd i ?t 0 ?x) = Inr (upd i t' m ?x)"
      "live_ok (i \<in> ?U) (count_list (ax_posted ?x) i + m) t'" "et_stopped t' \<or> et_cancelPending t'" "held t' = held ?t"
      "et_callback t' = et_callback ?t" "et_execution t' = et_execution ?t"
      using requestCancel_ok [OF sys_live(1) [OF assms lv(1)] lv(2,3), of i ?x] by (elim exE conjE) (rule that)
    define x' where "x' = (setO k ?p' (upd i t' m ?x))\<lparr>ax_outstandingCalls := ?d\<rparr>"
    have "ao_resetState k ?x = Inr x'"
      using t'(1) Some as ac by (simp add: ao_resetState_def Let_def x'_def same_upd) (simp add: setO_def upd_def)
    moreover have c: "cancelled k ?x x'" using t'(4-6) by (simp add: cancelled_def x'_def setO_def)
    moreover have "operations_ok x'" by (rule operations_cancelled [OF op c]) (simp add: x'_def)
    moreover have "queue_ok x' = queue_ok ?x" by (simp add: x'_def setO_def queue_ok_def)
    moreover have "tasks_ok ?U (upd i t' m (?x\<lparr>ax_posted := ax_posted ?x\<rparr>))"
      by (rule tasks_upd [OF ts]) (use lv(1) t'(2) in simp_all)
    then have "tasks_ok ?U x'" using tasks_ok_cong [of x' "upd i t' m (?x\<lparr>ax_posted := ax_posted ?x\<rparr>)" ?U]
      by (simp add: x'_def setO_def)
    moreover have "uncancelled x' = (\<lambda>j. j \<noteq> i \<and> uncancelled ?x j)"
      using t'(3) by (auto simp: fun_eq_iff uncancelled_def x'_def setO_def live_def)
    moreover have "owners_ok (ax_operations x') (\<lambda>j. j \<noteq> i \<and> uncancelled ?x j)"
      using owners_remove [OF ow Some, of ?p'] by (simp add: x'_def setO_def)
    ultimately show ?thesis using q by (auto simp: ax_ok_def cancelled_def)
  qed
qed

lemma accounted_cong:
  assumes "accounted s" "waiting (sx s') = waiting (sx s)" "sx_begin s' = sx_begin s" "sx_delivered s' = sx_delivered s"
    "sx_next s' = sx_next s"
  shows "accounted s'"
  using assms by (simp add: accounted_def begun_def)

lemma action_ACancel:
  assumes "good s" "contract (ACancel k) s"
  shows "\<exists>s'. perform_ax (ACancel k) s = Inr s' \<and> good s'"
proof -
  have ok: "sys_ok s" "accounted s" using assms(1) by (simp_all add: good_def)
  obtain x' where x': "ao_resetState k (sx s) = Inr x'" "ax_ok (set (aq_pending (ax_workers x'))) x'" "cancelled k (sx s) x'"
    using resetState_ok [OF ok(1)] by blast
  have "begin_ok (s\<lparr>sx := x'\<rparr>)"
    using ok(1) x'(3) assms(2) by (auto simp: sys_ok_def begin_ok_def cancelled_def executing_def)
  moreover have "padded x'" using ok(1) x'(3) by (simp add: sys_ok_def padded_def cancelled_def)
  moreover have "waiting x' = waiting (sx s)" by (rule waiting_cong) (use x'(3) in \<open>simp_all add: cancelled_def\<close>)
  then have "accounted (s\<lparr>sx := x'\<rparr>)" using accounted_cong [OF ok(2)] by simp
  ultimately show ?thesis using x' by (simp add: inS_def ao_cancel_def good_def sys_ok_def)
qed

lemma action_APrioritize:
  assumes "good s"
  shows "\<exists>s'. perform_ax (APrioritize i) s = Inr s' \<and> good s'"
proof -
  let ?x = "sx s" let ?x' = "tryPrioritize i ?x"
  have ok: "sys_ok s" "accounted s" using assms(1) by (simp_all add: good_def)
  have d: "distinct (aq_pending (ax_workers ?x))" using ok(1) by (simp add: sys_ok_def ax_ok_def queue_ok_def)
  have s: "set (aq_pending (ax_workers ?x')) = set (aq_pending (ax_workers ?x))"
    using d by (auto simp: tryPrioritize_def Let_def set_remove1_eq)
  then have lv: "live ?x' = live ?x" by (simp add: live_def) (simp add: tryPrioritize_def Let_def)
  have f: "ax_tasks ?x' = ax_tasks ?x" "ax_posted ?x' = ax_posted ?x" "ax_operations ?x' = ax_operations ?x"
    "ax_nextTask ?x' = ax_nextTask ?x" by (simp_all add: tryPrioritize_def Let_def)
  have "queue_ok ?x'" using ok(1)
    by (auto simp: sys_ok_def ax_ok_def queue_ok_def tryPrioritize_def Let_def set_remove1_eq)
  moreover have "operations_ok ?x' = operations_ok ?x" by (simp add: operations_ok_def tryPrioritize_def Let_def)
  moreover have "padded ?x'" using ok(1) s by (auto simp: sys_ok_def padded_def tryPrioritize_def Let_def)
  moreover have "uncancelled ?x' = uncancelled ?x" by (simp add: uncancelled_def fun_eq_iff lv f)
  ultimately have "sys_ok (s\<lparr>sx := ?x'\<rparr>)" using ok(1) s lv f
    by (simp add: sys_ok_def ax_ok_def begin_ok_def tasks_ok_def)
  moreover have "accounted (s\<lparr>sx := ?x'\<rparr>)" by (rule accounted_cong [OF ok(2)]) (simp_all add: waiting_def f)
  ultimately show ?thesis by (simp add: good_def)
qed

section \<open>Releasing and creating\<close>

lemma action_ARelease:
  assumes "good s" "enabled (ARelease k) s" "contract (ARelease k) s"
  shows "\<exists>s'. perform_ax (ARelease k) s = Inr s' \<and> good s'"
proof -
  let ?x = "sx s"
  have ok: "sys_ok s" "accounted s" using assms(1) by (simp_all add: good_def)
  have c: "k < ax_nextOperation ?x" "\<not> ao_freed (ax_operations ?x k)"
    "\<And>i. ao_task (ax_operations ?x k) = Some i \<Longrightarrow> et_callback (ax_tasks ?x i) = None \<and> \<not> executing (ax_tasks ?x i)"
    using assms(3) by simp_all
  have np: "(case ao_task (ax_operations ?x k) of None \<Rightarrow> Inr () | Some i \<Rightarrow> ensureNoCallsPending i ?x) = Inr ()"
  proof (cases "ao_task (ax_operations ?x k)")
    case (Some i)
    then have "uncancelled ?x i" using ok(1) by (auto simp: sys_ok_def ax_ok_def owners_ok_def)
    then have "i \<in> live ?x" by (simp add: uncancelled_def)
    from sys_live(1) [OF ok(1) this] c(3) [OF Some] have "et_remainingToExecute (ax_tasks ?x i) = 0"
      by (auto simp: live_ok_def late_def split: if_splits)
    with Some show ?thesis by (simp add: ensureNoCallsPending_def)
  qed simp
  obtain x1 where x1: "ao_resetState k ?x = Inr x1" "ax_ok (set (aq_pending (ax_workers x1))) x1" "cancelled k ?x x1"
    using resetState_ok [OF ok(1)] by blast
  let ?p = "ax_operations x1 k"
  have f: "\<not> ao_freed ?p" "\<not> ao_active ?p" "ao_task ?p = None" using c(2) x1(3) by (simp_all add: cancelled_def)
  define x' where "x' = x1\<lparr>ax_operationsPool := (ax_operationsPool x1)\<lparr>m_impl := m_impl (ax_operationsPool x1) @ [k]\<rparr>,
      ax_operations := (ax_operations x1)(k := ?p\<lparr>ao_freed := True\<rparr>)\<rparr>"
  have "releaseOperation k ?x = Inr x'"
    using np x1(1) f(1) by (simp add: releaseOperation_def noexcept_def x'_def operation_checker_def intrusive_checker_def
        intrusive_markFreed_def put_def)
  moreover have op: "operations_ok x1" and ow: "owners_ok (ax_operations x1) (uncancelled x1)" using x1(2)
    by (simp_all add: ax_ok_def)
  have "operations_ok x'"
  proof -
    have "{j. ao_active (ax_operations x' j)} = {j. ao_active (ax_operations x1 j)}" by (auto simp: x'_def)
    moreover have "{j. ao_freed (ax_operations x' j)} = insert k {j. ao_freed (ax_operations x1 j)}" by (auto simp: x'_def)
    moreover have "k \<notin> set (m_impl (ax_operationsPool x1))" using op f(1) by (simp add: operations_ok_def)
    moreover have "k < ax_nextOperation x1" using c(1) x1(3) by (simp add: cancelled_def)
    ultimately show ?thesis using op f unfolding operations_ok_def by (auto simp: x'_def)
  qed
  moreover have "owners_ok (ax_operations x') (uncancelled x1)"
    by (rule owners_congI [OF ow]) (use f in \<open>auto simp: x'_def\<close>)
  moreover have "uncancelled x' = uncancelled x1" "queue_ok x' = queue_ok x1"
    "tasks_ok (set (aq_pending (ax_workers x'))) x' = tasks_ok (set (aq_pending (ax_workers x1))) x1"
    by (simp_all add: uncancelled_def fun_eq_iff live_def x'_def queue_ok_def tasks_ok_def)
  moreover have "begin_ok (s\<lparr>sx := x'\<rparr>)" using assms(2) by (simp add: begin_ok_def)
  moreover have "padded x'" using ok(1) x1(3) by (simp add: sys_ok_def padded_def cancelled_def x'_def)
  moreover have "waiting x' = waiting ?x"
    by (rule waiting_cong) (use x1(3) in \<open>simp_all add: cancelled_def x'_def\<close>)
  then have "accounted (s\<lparr>sx := x'\<rparr>)" using accounted_cong [OF ok(2)] by simp
  ultimately show ?thesis using x1(2) by (simp add: inS_def good_def sys_ok_def ax_ok_def)
qed

lemma action_ACreate:
  assumes "good s" "enabled (ACreate st) s"
  shows "\<exists>s'. perform_ax (ACreate st) s = Inr s' \<and> good s'"
proof -
  let ?x = "sx s" let ?ops = "ax_operations ?x" let ?pool = "ax_operationsPool ?x"
  have ok: "sys_ok s" "accounted s" using assms(1) by (simp_all add: good_def)
  then have op: "operations_ok ?x" and ow: "owners_ok ?ops (uncancelled ?x)" by (simp_all add: sys_ok_def ax_ok_def)
  have fin: "finite {j. ao_active (?ops j)}"
    by (rule finite_subset [of _ "{..<ax_nextOperation ?x}"]) (use op in \<open>auto simp: operations_ok_def\<close>)
  have "\<exists>k pool n. createOperation st ?x = Inr (k, ?x\<lparr>ax_operationsPool := pool, ax_nextOperation := n,
        ax_operations := ?ops(k := (?ops k)\<lparr>ao_freed := False, ao_operationState := Some st, ao_active := True\<rparr>),
        ax_outstandingCalls := ax_outstandingCalls ?x + 1\<rparr>)
      \<and> \<not> ao_active (?ops k) \<and> k < n \<and> ax_nextOperation ?x \<le> n \<and> distinct (m_impl pool)
      \<and> set (m_impl pool) = {j. ao_freed (?ops j)} - {k}"
  proof (cases "m_impl ?pool = []")
    case True
    let ?k = "ax_nextOperation ?x"
    have n: "\<not> ao_active (?ops ?k)" "\<not> ao_freed (?ops ?k)" "ao_operationState (?ops ?k) = None"
      using op by (auto simp: operations_ok_def)
    define p where "p = (?ops ?k)\<lparr>ao_freed := False, ao_operationState := Some st, ao_active := True\<rparr>"
    have e: "(?ops ?k)\<lparr>ao_operationState := Some st, ao_active := True\<rparr> = p" using n(2) by (simp add: p_def)
    have "createOperation st ?x = Inr (?k, ?x\<lparr>ax_operationsPool := ?pool, ax_nextOperation := ?k + 1,
        ax_operations := ?ops(?k := p), ax_outstandingCalls := ax_outstandingCalls ?x + 1\<rparr>)"
      using True n(3) by (simp add: createOperation_def tryGet_def setO_def e)
    moreover have "distinct (m_impl ?pool) \<and> set (m_impl ?pool) = {j. ao_freed (?ops j)} - {?k}"
      using op n(2) by (auto simp: operations_ok_def)
    ultimately show ?thesis using n(1) unfolding p_def
      by (intro exI [of _ ?k] exI [of _ ?pool] exI [of _ "?k + 1"]) simp
  next
    case False
    then obtain vs k where vs: "m_impl ?pool = vs @ [k]" by (metis rev_exhaust)
    then have fk: "ao_freed (?ops k)" using op by (auto simp: operations_ok_def)
    then have n: "\<not> ao_active (?ops k)" "ao_operationState (?ops k) = None" "k < ax_nextOperation ?x"
      using op by (auto simp: operations_ok_def)
    have v: "distinct vs" "set vs = {j. ao_freed (?ops j)} - {k}" using op vs by (auto simp: operations_ok_def)
    show ?thesis
      by (rule exI [of _ k], rule exI [of _ "?pool\<lparr>m_impl := vs\<rparr>"], rule exI [of _ "ax_nextOperation ?x"])
        (use vs fk n v in \<open>simp add: createOperation_def tryGet_def setO_def operation_checker_def intrusive_checker_def
          intrusive_markAllocated_def\<close>)
  qed
  then obtain k pool n where c: "createOperation st ?x = Inr (k, ?x\<lparr>ax_operationsPool := pool, ax_nextOperation := n,
        ax_operations := ?ops(k := (?ops k)\<lparr>ao_freed := False, ao_operationState := Some st, ao_active := True\<rparr>),
        ax_outstandingCalls := ax_outstandingCalls ?x + 1\<rparr>)"
      "\<not> ao_active (?ops k)" "k < n" "ax_nextOperation ?x \<le> n" "distinct (m_impl pool)"
      "set (m_impl pool) = {j. ao_freed (?ops j)} - {k}" by blast
  define x' where "x' = ?x\<lparr>ax_operationsPool := pool, ax_nextOperation := n,
        ax_operations := ?ops(k := (?ops k)\<lparr>ao_freed := False, ao_operationState := Some st, ao_active := True\<rparr>),
        ax_outstandingCalls := ax_outstandingCalls ?x + 1\<rparr>"
  have "operations_ok x'"
  proof -
    have A: "{j. ao_active (ax_operations x' j)} = insert k {j. ao_active (?ops j)}" by (auto simp: x'_def)
    have F: "{j. ao_freed (ax_operations x' j)} = {j. ao_freed (?ops j)} - {k}" by (auto simp: x'_def)
    have "card (insert k {j. ao_active (?ops j)}) = Suc (card {j. ao_active (?ops j)})" using fin c(2) by simp
    moreover have "ax_outstandingCalls ?x = of_nat (card {j. ao_active (?ops j)})" using op by (simp add: operations_ok_def)
    ultimately have "ax_outstandingCalls x' = of_nat (card {j. ao_active (ax_operations x' j)})"
      unfolding A by (simp add: x'_def)
    moreover have "ao_active (ax_operations x' j) \<longleftrightarrow> ao_operationState (ax_operations x' j) \<noteq> None"
      "ao_active (ax_operations x' j) \<or> ao_freed (ax_operations x' j) \<longrightarrow> j < ax_nextOperation x'"
      "ao_freed (ax_operations x' j) \<longrightarrow> \<not> ao_active (ax_operations x' j)" for j
      using op c(3) by (auto simp: x'_def operations_ok_def intro: less_le_trans [OF _ c(4)])
    ultimately show ?thesis using c(5,6) unfolding operations_ok_def F by (simp add: x'_def)
  qed
  moreover have "owners_ok (ax_operations x') (uncancelled ?x)"
  proof -
    have "ao_task (?ops k) = None" using ow c(2) by (cases "ao_task (?ops k)") (auto simp: owners_ok_def)
    then show ?thesis by (intro owners_congI [OF ow]) (auto simp: x'_def)
  qed
  moreover have "uncancelled x' = uncancelled ?x" "queue_ok x' = queue_ok ?x"
    "tasks_ok (set (aq_pending (ax_workers x'))) x' = tasks_ok (set (aq_pending (ax_workers ?x))) ?x"
    by (simp_all add: uncancelled_def fun_eq_iff live_def x'_def queue_ok_def tasks_ok_def)
  moreover have "begin_ok (s\<lparr>sx := x'\<rparr>)" using assms(2) by (simp add: begin_ok_def)
  moreover have "padded x'" using ok(1) by (simp add: sys_ok_def padded_def x'_def)
  moreover have "accounted (s\<lparr>sx := x'\<rparr>)"
    by (rule accounted_cong [OF ok(2)]) (simp_all add: waiting_def x'_def)
  ultimately have "good (s\<lparr>sx := x'\<rparr>)" using ok(1) unfolding good_def sys_ok_def ax_ok_def by simp
  moreover have "createOperation st ?x = Inr (k, x')" unfolding x'_def by (rule c(1))
  then have "perform_ax (ACreate st) s = Inr (s\<lparr>sx := x'\<rparr>)" by (simp add: inS_def)
  ultimately show ?thesis by blast
qed

section \<open>Beginning and ending\<close>

lemma waiting_more:
  assumes "ax_nextTask x \<le> ax_nextTask x'" "\<And>j. j < ax_nextTask x \<Longrightarrow> held (ax_tasks x' j) = held (ax_tasks x j)"
    "\<And>j. ax_nextTask x \<le> j \<Longrightarrow> j < ax_nextTask x' \<Longrightarrow> held (ax_tasks x' j) = {#}"
  shows "waiting x' = waiting x"
  unfolding waiting_def
  by (rule sum.mono_neutral_cong_right) (use assms in \<open>auto simp: not_less\<close>)

lemma dead_held: "dead_ok n t \<Longrightarrow> held t = {#}"
  by (simp add: dead_ok_def held_def)

lemma operations_task:
  assumes "operations_ok x" "ax_operationsPool x' = ax_operationsPool x" "ax_nextOperation x' = ax_nextOperation x"
    "ax_outstandingCalls x' = ax_outstandingCalls x"
    "\<And>k. ao_active (ax_operations x' k) = ao_active (ax_operations x k)"
    "\<And>k. ao_operationState (ax_operations x' k) = ao_operationState (ax_operations x k)"
    "\<And>k. ao_freed (ax_operations x' k) = ao_freed (ax_operations x k)"
  shows "operations_ok x'"
  using assms(1) unfolding operations_ok_def assms(2-7) .

lemma owners_add:
  assumes "owners_ok ops owned" "ao_task (ops k) = None" "ao_active (ops k)" "\<not> owned i"
  shows "owners_ok (ops(k := (ops k)\<lparr>ao_task := Some i\<rparr>)) (\<lambda>j. j = i \<or> owned j)"
  unfolding owners_ok_def
proof (intro conjI allI impI)
  fix j i' assume "ao_task ((ops(k := (ops k)\<lparr>ao_task := Some i\<rparr>)) j) = Some i'"
  then show "ao_active ((ops(k := (ops k)\<lparr>ao_task := Some i\<rparr>)) j)" "i' = i \<or> owned i'"
    using assms(1,3) by (auto simp: owners_ok_def split: if_splits)
next
  fix j j' i' assume a: "ao_task ((ops(k := (ops k)\<lparr>ao_task := Some i\<rparr>)) j) = Some i'"
    "ao_task ((ops(k := (ops k)\<lparr>ao_task := Some i\<rparr>)) j') = Some i'"
  have "ao_task (ops m) \<noteq> Some i" for m using assms(1,4) by (auto simp: owners_ok_def)
  with a assms(1) show "j = j'" unfolding owners_ok_def by (auto split: if_splits)
next
  fix j assume "j = i \<or> owned j"
  then show "\<exists>k'. ao_task ((ops(k := (ops k)\<lparr>ao_task := Some i\<rparr>)) k') = Some j"
  proof
    assume "owned j"
    then obtain m where "ao_task (ops m) = Some j" using assms(1) by (auto simp: owners_ok_def)
    moreover from this have "m \<noteq> k" using assms(2) by auto
    ultimately show ?thesis by (intro exI [of _ m]) simp
  qed (auto intro: exI [of _ k])
qed

lemma action_ABegin:
  assumes "good s" "enabled (ABegin ct pf k) s" "contract (ABegin ct pf k) s"
  shows "\<exists>s'. perform_ax (ABegin ct pf k) s = Inr s' \<and> good s'"
proof -
  let ?x = "sx s" let ?ops = "ax_operations ?x" let ?w = "ax_workers ?x"
  have ok: "sys_ok s" "accounted s" using assms(1) by (simp_all add: good_def)
  then have op: "operations_ok ?x" and ow: "owners_ok ?ops (uncancelled ?x)" and q: "queue_ok ?x"
    and ts: "tasks_ok (set (aq_pending ?w)) ?x" by (simp_all add: sys_ok_def ax_ok_def)
  have ac: "ao_active (?ops k)" using assms(3) by simp
  then have nf: "\<not> ao_freed (?ops k)" and st: "ao_operationState (?ops k) \<noteq> None" using op by (auto simp: operations_ok_def)
  show ?thesis
  proof (cases "ao_task (?ops k)")
    case (Some i)
    then have u: "uncancelled ?x i" using ow by (auto simp: owners_ok_def)
    then have lv: "i \<in> live ?x" by (simp add: uncancelled_def)
    note l = sys_live(1) [OF ok(1) lv]
    have ip: "et_taskInProgress (ax_tasks ?x i) = None" using assms(3) Some by simp
    show ?thesis
    proof (cases "et_remainingToExecute (ax_tasks ?x i) = 0")
      case True
      let ?s' = "s\<lparr>sx_begin := Some (k, i, sx_next s), sx_next := sx_next s + 1\<rparr>"
      have "et_callback (ax_tasks ?x i) = None \<and> \<not> executing (ax_tasks ?x i)"
        using l ip True by (auto simp: live_ok_def late_def split: if_splits)
      then have "sys_ok ?s'" using ok(1) Some by (simp add: sys_ok_def begin_ok_def)
      moreover have "accounted ?s'" using ok(2) assms(2) by (simp add: accounted_def begun_def)
      ultimately show ?thesis using True Some nf by (simp add: asyncBeginCheck_def ensureNoCallsPending_def good_def)
    next
      case False
      then show ?thesis using assms(1) Some nf by (simp add: asyncBeginCheck_def ensureNoCallsPending_def)
    qed
  next
    case None
    define i where "i = (case aq_ready ?w of i # is \<Rightarrow> i | [] \<Rightarrow> ax_nextTask ?x)"
    define n where "n = (case aq_ready ?w of i # is \<Rightarrow> ax_nextTask ?x | [] \<Rightarrow> ax_nextTask ?x + 1)"
    define t where "t = (case aq_ready ?w of i # is \<Rightarrow> et_resetState (ax_tasks ?x i) | [] \<Rightarrow> new_exec_task)"
    have i: "i \<notin> live ?x" "i < n" "ax_nextTask ?x \<le> n" "aq_ready ?w = [] \<longrightarrow> i \<notin> set (aq_ready ?w) \<and> i = ax_nextTask ?x"
      using q by (auto simp: i_def n_def queue_ok_def live_def split: list.splits)
    have d: "dead_ok (count_list (ax_posted ?x) i) (ax_tasks ?x i)" by (rule sys_live(2) [OF ok(1) i(1)])
    have t: "et_operationState t = None" "et_callback t = None" "et_taskInProgress t = None" "et_execution t = Idle"
      "et_callsExpected t = 2" "et_remainingToExecute t = 1" "\<not> et_stopped t" "\<not> et_cancelPending t"
      using d by (auto simp: t_def i_def et_resetState_def new_exec_task_def dead_ok_def split: list.splits)
    define y where "y = ?x\<lparr>ax_nextTask := n\<rparr>"
    define t1 where "t1 = t\<lparr>et_callback := Some (sx_next s), et_operationState := ao_operationState (?ops k)\<rparr>"
    define ops' where "ops' = ?ops(k := (?ops k)\<lparr>ao_task := Some i\<rparr>)"
    have new: "asyncBeginNew ct pf k (sx_next s) ?x =
        (if pf then Inr (False, (upd i (et_resetState t1) 0 y)\<lparr>ax_operations := ?ops\<rparr>)
         else bindR (padWorkers ct (aq_push True i False ?w) ((upd i t1 0 y)\<lparr>ax_operations := ops'\<rparr>)) (\<lambda>x3. Inr (True, x3)))"
    proof -
      have k: "(?ops k)\<lparr>ao_task := None\<rparr> = ?ops k" using None by simp
      show ?thesis using t i(1) k unfolding asyncBeginNew_def i_def t_def y_def n_def t1_def ops'_def
        by (cases "aq_ready ?w") (auto simp: Let_def setT_def setO_def upd_def live_def)
    qed
    have c0: "count_list (ax_posted ?x) i = 0" using d by (simp add: dead_ok_def)
    have nx: "held (ax_tasks ?x j) = {#}" if "ax_nextTask ?x \<le> j" for j
    proof -
      have "j \<notin> live ?x" using live_below [OF q, of j] that by auto
      from dead_held [OF sys_live(2) [OF ok(1) this]] show ?thesis .
    qed
    show ?thesis
    proof (cases pf)
      case True
      let ?r = "et_resetState t1"
      define x' where "x' = (upd i ?r 0 y)\<lparr>ax_operations := ?ops\<rparr>"
      have dr: "dead_ok 0 ?r" using t(4) by (simp add: dead_ok_def et_resetState_def t1_def)
      have f: "ax_workers x' = ?w" "ax_posted x' = ax_posted ?x" "ax_tasks x' = (ax_tasks ?x)(i := ?r)"
        "ax_operations x' = ?ops" "ax_nextTask x' = n" "live x' = live ?x"
        by (simp_all add: x'_def y_def live_def)
      have "tasks_ok (set (aq_pending ?w)) x'"
        using ts i(1) dr c0 unfolding tasks_ok_def f by (auto split: if_splits)
      moreover have "queue_ok x'" using q i(3) by (auto simp: queue_ok_def f)
      moreover have "operations_ok x'" by (rule operations_task [OF op]) (simp_all add: x'_def y_def)
      moreover have "padded x'" using ok(1) by (simp add: sys_ok_def padded_def f) (simp add: x'_def y_def)
      moreover have "uncancelled x' = uncancelled ?x" using i(1) by (auto simp: uncancelled_def fun_eq_iff f)
      ultimately have "sys_ok (s\<lparr>sx := x'\<rparr>)" using ow assms(2) by (simp add: sys_ok_def ax_ok_def begin_ok_def f)
      moreover have "waiting x' = waiting ?x"
        by (rule waiting_more) (use i(3) nx dead_held [OF d] dead_held [OF dr] in \<open>simp_all add: f\<close>)
      then have "accounted (s\<lparr>sx := x'\<rparr>)" using accounted_cong [OF ok(2)] by simp
      ultimately show ?thesis using True new None nf by (simp add: asyncBeginCheck_def good_def x'_def)
    next
      case False
      let ?q = "aq_push True i False ?w"
      define x0 where "x0 = (upd i t1 0 y)\<lparr>ax_operations := ops'\<rparr>"
      have np: "i \<notin> set (aq_pending ?w)" "i \<notin> set (aq_executing ?w)" using i(1) by (simp_all add: live_def)
      have qq: "aq_pending ?q = aq_pending ?w @ [i]" "aq_executing ?q = aq_executing ?w" "aq_ready ?q = remove1 i (aq_ready ?w)"
        by (simp_all add: aq_push_def insertAt_def remove1_idem)
      let ?y = "x0\<lparr>ax_workers := ?q\<rparr>"
      have f: "ax_posted ?y = ax_posted ?x" "ax_tasks ?y = (ax_tasks ?x)(i := t1)" "ax_operations ?y = ops'"
        "ax_nextTask ?y = n" "ax_workers ?y = ?q" by (simp_all add: x0_def y_def)
      have lv: "live ?y = insert i (live ?x)" unfolding live_def f qq by auto
      have lt: "live_ok True 0 t1"
        using t st by (auto simp: live_ok_def t1_def late_def opRunning_def executing_def)
      have "tasks_ok (set (aq_pending ?q)) ?y"
        using ts i(1) lt c0 unfolding tasks_ok_def lv f qq by (auto split: if_splits)
      moreover have "queue_ok ?y"
        using q np i(2,3) by (auto simp: queue_ok_def f qq set_remove1_eq)
      ultimately obtain x3 w' where x3: "padWorkers ct ?q x0 = Inr x3" "tasks_ok (set (aq_pending (ax_workers x3))) x3"
        "same_calls (x0\<lparr>ax_workers := w'\<rparr>) x3" "queue_ok (x0\<lparr>ax_workers := w'\<rparr>)" "live (x0\<lparr>ax_workers := w'\<rparr>) = live ?y" "padded x3"
        using padWorkers_ok [of ?q x0 ct] by blast
      note sc = same_calls_fields [OF x3(3)]
      have "operations_ok x3"
        by (rule operations_task [OF op]) (use sc in \<open>simp_all add: x0_def y_def ops'_def\<close>)
      moreover have "uncancelled x3 = (\<lambda>j. j = i \<or> uncancelled ?x j)"
        unfolding sc(9) uncancelled_def x3(5) lv using t(7,8) i(1) by (auto simp: fun_eq_iff x0_def y_def t1_def)
      moreover have "owners_ok ops' (\<lambda>j. j = i \<or> uncancelled ?x j)"
        unfolding ops'_def by (rule owners_add [OF ow None ac]) (use i(1) in \<open>simp add: uncancelled_def\<close>)
      moreover have "ax_operations x3 = ops'" using sc(2) by (simp add: x0_def)
      ultimately have "ax_ok (set (aq_pending (ax_workers x3))) x3" using x3(2,4) sc(10) by (simp add: ax_ok_def)
      moreover have "waiting x3 = waiting ?x + {#sx_next s#}"
      proof -
        have "waiting x3 = waiting (upd i t1 0 y)" using sc(12) by (simp add: waiting_def x0_def)
        moreover have "held t1 = {#sx_next s#}" using t(4) by (simp add: held_def t1_def)
        with waiting_upd [of i y t1 "{#}" "{#sx_next s#}" 0] i(2) dead_held [OF d]
        have "waiting (upd i t1 0 y) = waiting y + {#sx_next s#}" by (simp add: y_def)
        moreover have "waiting y = waiting ?x" by (rule waiting_more) (use i(3) nx in \<open>simp_all add: y_def\<close>)
        ultimately show ?thesis by simp
      qed
      ultimately have "good (s\<lparr>sx := x3, sx_next := sx_next s + 1\<rparr>)"
        using ok(2) assms(2) x3(6) by (simp add: good_def sys_ok_def begin_ok_def accounted_def begun_def)
      then show ?thesis using False new x3(1) None nf by (simp add: asyncBeginCheck_def flip: x0_def)
    qed
  qed
qed

lemma action_ATerminate:
  assumes "good s" "enabled (ATerminate ct i) s"
  shows "\<exists>s'. perform_ax (ATerminate ct i) s = Inr s' \<and> good s' \<and> sys_work s' < sys_work s"
proof -
  let ?x = "sx s" let ?t = "ax_tasks ?x i" let ?w = "ax_workers ?x" let ?q = "aq_retire i True ?w"
  have ok: "sys_ok s" "accounted s" and e: "et_execution ?t = Terminating" using assms by (simp_all add: good_def)
  then have op: "operations_ok ?x" and ow: "owners_ok (ax_operations ?x) (uncancelled ?x)" and q: "queue_ok ?x"
    and ts: "tasks_ok (set (aq_pending ?w)) ?x" by (simp_all add: sys_ok_def ax_ok_def)
  have lv: "i \<in> live ?x" by (rule busy_live [OF ok(1)]) (use e in simp)
  note l = sys_live(1) [OF ok(1) lv]
  have t: "et_operationState ?t \<noteq> None" "et_callback ?t = None" "et_taskInProgress ?t = None" "et_stopped ?t"
    "count_list (ax_posted ?x) i = 0" "i \<notin> set (aq_pending ?w)"
    using l e by (auto simp: live_ok_def split: if_splits)
  then have ex: "i \<in> set (aq_executing ?w)" using lv by (simp add: live_def)
  let ?t' = "?t\<lparr>et_operationState := None, et_execution := Idle\<rparr>"
  define x0 where "x0 = setT i ?t' ?x"
  have qq: "aq_pending ?q = aq_pending ?w" "aq_executing ?q = remove1 i (aq_executing ?w)" "aq_ready ?q = aq_ready ?w @ [i]"
    by (simp_all add: aq_retire_def)
  let ?y = "x0\<lparr>ax_workers := ?q\<rparr>"
  have f: "ax_posted ?y = ax_posted ?x" "ax_tasks ?y = (ax_tasks ?x)(i := ?t')" "ax_operations ?y = ax_operations ?x"
    "ax_nextTask ?y = ax_nextTask ?x" "ax_workers ?y = ?q" by (simp_all add: x0_def setT_def)
  have d: "distinct (aq_executing ?w)" "i \<notin> set (aq_ready ?w)" using q ex by (auto simp: queue_ok_def)
  have lv': "live ?y = live ?x - {i}" unfolding live_def f qq using d(1) t(6) by (auto simp: set_remove1_eq)
  have "dead_ok 0 ?t'" using t by (simp add: dead_ok_def)
  then have "tasks_ok (set (aq_pending ?q)) ?y" using ts t(5) unfolding tasks_ok_def lv' f qq by (auto split: if_splits)
  moreover have "queue_ok ?y" using q d ex t(6) by (auto simp: queue_ok_def f qq set_remove1_eq)
  ultimately obtain x3 w' where x3: "padWorkers ct ?q x0 = Inr x3" "tasks_ok (set (aq_pending (ax_workers x3))) x3"
    "same_calls (x0\<lparr>ax_workers := w'\<rparr>) x3" "queue_ok (x0\<lparr>ax_workers := w'\<rparr>)" "live (x0\<lparr>ax_workers := w'\<rparr>) = live ?y"
    "work (set (aq_pending (ax_workers x3))) x3 \<le> work (set (aq_pending ?q)) ?y" "padded x3"
    using padWorkers_ok [of ?q x0 ct] by blast
  note sc = same_calls_fields [OF x3(3)]
  have "operations_ok x3" by (rule operations_task [OF op]) (use sc in \<open>simp_all add: x0_def setT_def\<close>)
  moreover have "uncancelled x3 = uncancelled ?x"
    unfolding sc(9) uncancelled_def x3(5) lv' using t(4) by (auto simp: fun_eq_iff x0_def setT_def)
  moreover have o: "ax_operations x3 = ax_operations ?x" using sc(2) by (simp add: x0_def setT_def)
  ultimately have "ax_ok (set (aq_pending (ax_workers x3))) x3" using x3(2,4) sc(10) ow by (simp add: ax_ok_def)
  moreover have "et_callback (ax_tasks x3 j) = et_callback (ax_tasks ?x j)" "executing (ax_tasks x3 j) = executing (ax_tasks ?x j)" for j
    unfolding sc(13,14) using e by (simp_all add: x0_def setT_def executing_def)
  then have "begin_ok (s\<lparr>sx := x3\<rparr>)" using ok(1) by (simp add: sys_ok_def begin_ok_def o)
  moreover have "waiting x3 = waiting ?x"
  proof -
    have "waiting x3 = waiting x0" using sc(12) by (simp add: waiting_def)
    also have "\<dots> = waiting ?x" by (rule waiting_cong) (use e in \<open>simp_all add: x0_def setT_def held_def\<close>)
    finally show ?thesis .
  qed
  then have "accounted (s\<lparr>sx := x3\<rparr>)" using accounted_cong [OF ok(2)] by simp
  ultimately have "good (s\<lparr>sx := x3\<rparr>)" using x3(7) by (simp add: good_def sys_ok_def)
  moreover have "work (set (aq_pending ?w)) ?y < work (set (aq_pending ?w)) ?x"
  proof -
    have "work (set (aq_pending ?w)) ?y = (\<Sum>j\<in>live ?x - {i}. weight (j \<in> set (aq_pending ?w)) (count_list (ax_posted ?x) j) (ax_tasks ?x j))"
      unfolding work_def lv' f by (rule sum.cong) auto
    moreover have "work (set (aq_pending ?w)) ?x = weight (i \<in> set (aq_pending ?w)) (count_list (ax_posted ?x) i) ?t
        + (\<Sum>j\<in>live ?x - {i}. weight (j \<in> set (aq_pending ?w)) (count_list (ax_posted ?x) j) (ax_tasks ?x j))"
      unfolding work_def by (rule sum.remove) (use lv in \<open>simp_all add: live_def\<close>)
    ultimately show ?thesis using e by (simp add: weight_def phase_def)
  qed
  then have "sys_work (s\<lparr>sx := x3\<rparr>) < sys_work s" using x3(6) by (simp add: sys_work_def qq)
  ultimately show ?thesis using t(1) ex x3(1) by (auto simp: inS_def onExecute_ready_def Let_def x0_def)
qed

end
