(* ===== verification/AsyncProps.thy ===== *)
theory AsyncProps
  imports AsyncActions
begin

text \<open>
  The properties of the asynchronous executor: it does not fail, it calls every callback once, it comes
  to rest, cancelled operations give back what they hold, and two uses that it does not survive.
\<close>

section \<open>Safety\<close>

lemma init_good: "good (init_ax n m)"
proof -
  let ?x = "new_async_executor n m"
  have lv: "live ?x = {}" by (simp add: live_def new_async_executor_def)
  have "tasks_ok {} ?x" by (simp add: tasks_ok_def lv)
      (simp add: new_async_executor_def dead_ok_def new_exec_task_def et_resetState_def)
  moreover have "operations_ok ?x"
    by (simp add: operations_ok_def new_async_executor_def empty_pool_def)
  moreover have "owners_ok (ax_operations ?x) (uncancelled ?x)"
    by (simp add: owners_ok_def uncancelled_def lv) (simp add: new_async_executor_def)
  moreover have "queue_ok ?x" "padded ?x" "aq_pending (ax_workers ?x) = []" "waiting ?x = {#}"
    by (simp_all add: queue_ok_def padded_def waiting_def new_async_executor_def)
  ultimately show ?thesis
    by (simp add: good_def sys_ok_def ax_ok_def begin_ok_def init_ax_def accounted_def begun_def)
qed

lemma action_good:
  assumes "good s" "enabled a s" "contract a s"
  shows "\<exists>s'. perform_ax a s = Inr s' \<and> good s' \<and> (internal a \<longrightarrow> sys_work s' < sys_work s)"
proof (cases a)
  case (ACreate st)
  with action_ACreate [OF assms(1), of st] assms(2) show ?thesis by simp
next
  case (ABegin ct pf k)
  with action_ABegin [OF assms(1), of ct pf k] assms(2,3) show ?thesis by simp
next
  case (AContinue ct)
  with action_AContinue [OF assms(1), of ct] assms(2) show ?thesis by simp
next
  case (ACancel k)
  with action_ACancel [OF assms(1), of k] assms(3) show ?thesis by simp
next
  case (APrioritize i)
  with action_APrioritize [OF assms(1), of i] show ?thesis by simp
next
  case (ARelease k)
  with action_ARelease [OF assms(1), of k] assms(2,3) show ?thesis by simp
next
  case (AOpReady i cont ex)
  with action_AOpReady [OF assms(1), of i cont ex] assms(2) show ?thesis by simp
next
  case (AExecute i)
  with action_AExecute [OF assms(1), of i] assms(2) show ?thesis by simp
next
  case (ATerminate ct i)
  with action_ATerminate [OF assms(1), of ct i] assms(2) show ?thesis by simp
next
  case (ACall i out)
  with action_ACall [OF assms(1), of i out] assms(2) show ?thesis by simp
next
  case (ACallback i)
  with action_ACallback [OF assms(1), of i] assms(2) show ?thesis by simp
next
  case (AReturn i)
  with action_AReturn [OF assms(1), of i] assms(2) show ?thesis by simp
qed

lemma reach_good: "ax_reach n m s \<Longrightarrow> good s"
proof (induction rule: ax_reach.induct)
  case (Action s a s')
  with action_good [of s a] show ?case by auto
qed (rule init_good)

lemma run_reach_ax: "ax_run True as s = Some s' \<Longrightarrow> ax_reach n m s \<Longrightarrow> ax_reach n m s'"
  by (induction "as" arbitrary: s) (auto split: if_splits sum.splits intro: Action)

lemmas ax_eval = init_ax_def new_async_executor_def new_exec_task_def et_resetState_def createOperation_def
  asyncBeginCheck_def asyncBeginNew_def ensureNoCallsPending_def requestNewAsyncCall_def noexcept_def
  scheduleAsyncCall_def scheduleCall_def scheduleTask_def padWorkers_def postCompletionCallback_def
  onOperationTaskReady_def ae_onExecute_def onExecute_ready_def onExecute_call_def executeOperation_def
  et_requestCancel_def ao_cancel_def ao_resetState_def releaseOperation_def setT_def setO_def Let_def inS_def
  operation_checker_def intrusive_checker_def intrusive_markFreed_def intrusive_markAllocated_def tryGet_def put_def
  empty_pool_def aq_slots_def aq_pad_def aq_push_def insertAt_def aq_retire_def executing_def calling_def opRunning_def

text \<open>
  C18 In every run of clients that keep the contract, with any number of operations and threads in any
  order, every section of the executor succeeds: no assertion fails, no null object is used, no
  exception leaves a function that must not throw, and an exception that \<open>asyncBegin\<close> passes on to its
  caller leaves the executor usable.
\<close>

theorem ax_safe:
  assumes "ax_reach n m s" "enabled a s" "contract a s"
  shows "\<exists>s'. perform_ax a s = Inr s' \<and> ax_reach n m s'"
  using action_good [OF reach_good [OF assms(1)] assms(2,3)] assms by (blast intro: Action)

definition one_call :: "ax_action list" where
  "one_call = [ACreate 5, ABegin (\<lambda>_. NoTask) False 0, AExecute 0, ACall 0 Executes, ACallback 0, AReturn 0]"

lemma one_call_run:
  "\<exists>s. ax_run True one_call (init_ax 2 0) = Some s \<and> sx_delivered s = [(0, None, False)] \<and> sx_next s = 1
     \<and> sx_begin s = None \<and> ao_freed (ax_operations (sx s) 0) = False \<and> ax_nextOperation (sx s) = 1
     \<and> ao_task (ax_operations (sx s) 0) = Some 0 \<and> et_callback (ax_tasks (sx s) 0) = None
     \<and> et_execution (ax_tasks (sx s) 0) = Idle \<and> ao_active (ax_operations (sx s) 0)
     \<and> et_taskInProgress (ax_tasks (sx s) 0) = None"
  by (simp add: one_call_def ax_eval)

lemma ax_safe_witness:
  "\<exists>s s'. ax_reach 2 0 s \<and> sx_delivered s = [(0, None, False)] \<and> perform_ax (ARelease 0) s = Inr s'"
proof -
  obtain s where s: "ax_run True one_call (init_ax 2 0) = Some s" "sx_delivered s = [(0, None, False)]"
    "enabled (ARelease 0) s" "contract (ARelease 0) s"
    using one_call_run by (auto simp: executing_def)
  from run_reach_ax [OF s(1) Start] have "ax_reach 2 0 s" .
  with ax_safe [OF this s(3,4)] s(2) show ?thesis by blast
qed

section \<open>Callbacks\<close>

text \<open>
  C19 Every callback of a call that was accepted is called at most once, and until it is, exactly one
  task holds it or the call is being begun: no callback is lost, and none is called twice, whatever
  is cancelled, released or prioritized.
\<close>

theorem ax_exactly_once:
  assumes "ax_reach n m s"
  shows "distinct (map fst (sx_delivered s))
    \<and> mset (map fst (sx_delivered s)) + (\<Sum>i<ax_nextTask (sx s). held (ax_tasks (sx s) i)) + begun s = mset [0..<sx_next s]"
proof -
  have a: "mset (map fst (sx_delivered s)) + waiting (sx s) + begun s = mset [0..<sx_next s]"
    using reach_good [OF assms] by (simp add: good_def accounted_def)
  then have "mset (map fst (sx_delivered s)) \<subseteq># mset [0..<sx_next s]"
    by (metis mset_subset_eq_add_left add.assoc)
  then have "distinct (map fst (sx_delivered s))"
    by (metis distinct_upt mset_subset_eq_exists_conv mset_append distinct_append ex_mset mset_eq_imp_distinct_iff)
  with a show ?thesis by (simp add: waiting_def)
qed

lemma ax_exactly_once_witness:
  "\<exists>s. ax_reach 2 0 s \<and> sx_delivered s = [(0, None, False)]
     \<and> (\<Sum>i<ax_nextTask (sx s). held (ax_tasks (sx s) i)) + begun s = {#}"
proof -
  obtain s where s: "ax_run True one_call (init_ax 2 0) = Some s" "sx_delivered s = [(0, None, False)]" "sx_next s = 1"
    using one_call_run by auto
  from run_reach_ax [OF s(1) Start] have r: "ax_reach 2 0 s" .
  from ax_exactly_once [OF r] s(2,3) have
    "{#0#} + ((\<Sum>i<ax_nextTask (sx s). held (ax_tasks (sx s) i)) + begun s) = {#0#}" by (simp add: add.assoc)
  then have "(\<Sum>i<ax_nextTask (sx s). held (ax_tasks (sx s) i)) + begun s = {#}" by simp
  with r s(2) show ?thesis by blast
qed

section \<open>Coming to rest\<close>

definition quiescent :: "ax_sys \<Rightarrow> bool" where
  "quiescent s \<longleftrightarrow> (\<forall>a. internal a \<longrightarrow> \<not> enabled a s)"

lemma internal_contract: "internal a \<Longrightarrow> contract a s"
  by (cases a) auto

lemma run_work:
  "good s \<Longrightarrow> list_all internal as \<Longrightarrow> ax_run True as s = Some s' \<Longrightarrow> length as + sys_work s' \<le> sys_work s"
proof (induction "as" arbitrary: s)
  case (Cons a "as")
  then have e: "enabled a s" "internal a" by (auto split: if_splits)
  obtain s1 where s1: "perform_ax a s = Inr s1" "good s1" "sys_work s1 < sys_work s"
    using action_good [OF Cons.prems(1) e(1) internal_contract [OF e(2)]] e(2) by auto
  with Cons.prems e have "ax_run True as s1 = Some s'" by (simp add: internal_contract)
  with Cons.IH [OF s1(2)] Cons.prems(2) s1(3) show ?case by auto
qed simp

lemma run_to_rest:
  "good s \<Longrightarrow> \<exists>as s'. list_all internal as \<and> ax_run True as s = Some s' \<and> quiescent s'"
proof (induction "sys_work s" arbitrary: s rule: less_induct)
  case less
  show ?case
  proof (cases "quiescent s")
    case True
    then show ?thesis by (intro exI [of _ "[]"] exI [of _ s]) simp
  next
    case False
    then obtain a where a: "internal a" "enabled a s" by (auto simp: quiescent_def)
    obtain s1 where s1: "perform_ax a s = Inr s1" "good s1" "sys_work s1 < sys_work s"
      using action_good [OF less.prems a(2) internal_contract [OF a(1)]] a(1) by auto
    from less.hyps [OF s1(3,2)] obtain "as" s' where "list_all internal as" "ax_run True as s1 = Some s'" "quiescent s'"
      by blast
    then show ?thesis using a s1(1) by (intro exI [of _ "a # as"] exI [of _ s']) (simp add: internal_contract)
  qed
qed

text \<open>
  C20 The threads of the executor come to rest: from every reachable state they can take only a bounded
  number of steps until the clients act again, and every order in which they take them can be completed
  to a state in which none is left.
\<close>

theorem ax_comes_to_rest:
  assumes "ax_reach n m s" "list_all internal as" "ax_run True as s = Some s1"
  shows "length as \<le> sys_work s \<and> (\<exists>as' s'. list_all internal as' \<and> ax_run True as' s1 = Some s' \<and> quiescent s')"
  using run_work [OF reach_good [OF assms(1)] assms(2,3)]
    run_to_rest [OF reach_good [OF run_reach_ax [OF assms(3,1)]]] by simp

lemma ax_comes_to_rest_witness:
  "\<exists>s as' s'. ax_run True [ACreate 5, ABegin (\<lambda>_. NoTask) False 0] (init_ax 2 0) = Some s \<and> 1 \<le> sys_work s
     \<and> ax_run True as' s = Some s' \<and> quiescent s'"
proof -
  obtain s where s: "ax_run True [ACreate 5, ABegin (\<lambda>_. NoTask) False 0] (init_ax 2 0) = Some s"
    by (simp add: ax_eval)
  obtain s1 where s1: "ax_run True [AExecute 0] s = Some s1" using s by (auto simp: ax_eval)
  from run_reach_ax [OF s Start] have r: "ax_reach 2 0 s" .
  from ax_comes_to_rest [OF r _ s1] obtain as' s' where a: "1 \<le> sys_work s" "ax_run True as' s1 = Some s'" "quiescent s'"
    by auto
  have "ax_run True (AExecute 0 # as') s = Some s'" using s1 a(2) by (auto split: if_splits sum.splits)
  with s a show ?thesis by blast
qed

lemma quiescent_task:
  assumes "sys_ok s" "quiescent s" "i \<in> live (sx s)"
  shows "et_execution (ax_tasks (sx s) i) = Idle" "count_list (ax_posted (sx s)) i = 0" "\<not> opRunning (ax_tasks (sx s) i)"
proof -
  have n: "internal a \<Longrightarrow> \<not> enabled a s" for a using assms(2) by (simp add: quiescent_def)
  show e: "et_execution (ax_tasks (sx s) i) = Idle"
    using n [of "ATerminate (\<lambda>_. NoTask) i"] n [of "ACall i Executes"] n [of "ACallback i"] n [of "AReturn i"]
    by (cases "et_execution (ax_tasks (sx s) i)") (simp_all add: executing_def calling_def)
  show "count_list (ax_posted (sx s)) i = 0" using n [of "AExecute i"] e by (simp add: count_list_0_iff)
  show "\<not> opRunning (ax_tasks (sx s) i)" using n [of "AOpReady i OpContNone None"] by simp
qed

text \<open>
  C21 At rest, every accepted call has been answered, except for those whose task still waits for one
  of the slots of the worker queue; a task that executes then belongs to an active operation, one that
  was created and neither cancelled nor released, and no two belong to the same.  So cancelled and
  released operations keep no slot, and while calls wait all slots are held by that many active operations.
\<close>

theorem ax_rest_drained:
  assumes "ax_reach n m s" "quiescent s"
  shows "(\<forall>cb < sx_next s. cb \<in> set (map fst (sx_delivered s))
        \<or> (\<exists>i \<in> set (aq_pending (ax_workers (sx s))). et_callback (ax_tasks (sx s) i) = Some cb))
    \<and> (\<forall>i \<in> set (aq_executing (ax_workers (sx s))).
        \<exists>k. ao_active (ax_operations (sx s) k) \<and> ao_task (ax_operations (sx s) k) = Some i)
    \<and> length (aq_executing (ax_workers (sx s))) \<le> card {k. ao_active (ax_operations (sx s) k)}
    \<and> (aq_pending (ax_workers (sx s)) \<noteq> [] \<longrightarrow>
        0 < ax_maxExecuting (sx s) \<and> ax_maxExecuting (sx s) \<le> length (aq_executing (ax_workers (sx s))))"
proof -
  let ?x = "sx s" let ?w = "ax_workers ?x" let ?ops = "ax_operations ?x"
  have ok: "sys_ok s" "accounted s" using reach_good [OF assms(1)] by (simp_all add: good_def)
  then have op: "operations_ok ?x" and ow: "owners_ok ?ops (uncancelled ?x)" and q: "queue_ok ?x"
    by (simp_all add: sys_ok_def ax_ok_def)
  note rest = quiescent_task [OF ok(1) assms(2)]
  have ex: "et_callback (ax_tasks ?x i) = None \<and> uncancelled ?x i" if "i \<in> set (aq_executing ?w)" for i
  proof -
    have lv: "i \<in> live ?x" "i \<notin> set (aq_pending ?w)" using that q by (auto simp: live_def queue_ok_def)
    from sys_live(1) [OF ok(1) lv(1)] rest [OF lv(1)] lv show ?thesis
      by (auto simp: live_ok_def uncancelled_def split: if_splits)
  qed
  have own: "\<exists>k. ao_active (?ops k) \<and> ao_task (?ops k) = Some i" if "i \<in> set (aq_executing ?w)" for i
    using ex [OF that] ow unfolding owners_ok_def by metis
  have drained: "cb \<in> set (map fst (sx_delivered s)) \<or> (\<exists>i \<in> set (aq_pending ?w). et_callback (ax_tasks ?x i) = Some cb)"
    if cb: "cb < sx_next s" for cb
  proof -
    have "\<not> enabled (AContinue (\<lambda>_. NoTask)) s" using assms(2) unfolding quiescent_def by (metis internal.simps(1))
    then have "sx_begin s = None" by (cases "sx_begin s") auto
    then have "begun s = {#}" by (simp add: begun_def)
    then have "cb \<in># mset (map fst (sx_delivered s)) + waiting ?x" using ok(2) cb by (simp add: accounted_def)
    then consider "cb \<in> set (map fst (sx_delivered s))" | i where "i < ax_nextTask ?x" "cb \<in># held (ax_tasks ?x i)"
      by (auto simp: waiting_def set_mset_sum)
    then show ?thesis
    proof cases
      case (2 i)
      have lv: "i \<in> live ?x"
        by (rule ccontr) (use 2(2) dead_held [OF sys_live(2) [OF ok(1)]] in auto)
      have "et_callback (ax_tasks ?x i) = Some cb"
        using 2(2) rest(1) [OF lv] by (auto simp: held_def split: option.splits)
      with ex [of i] lv show ?thesis by (auto simp: live_def)
    qed simp
  qed
  have "finite {k. ao_active (?ops k)}"
    by (rule finite_subset [of _ "{..<ax_nextOperation ?x}"]) (use op in \<open>auto simp: operations_ok_def\<close>)
  moreover obtain f where f: "\<And>i. i \<in> set (aq_executing ?w) \<Longrightarrow> ao_active (?ops (f i)) \<and> ao_task (?ops (f i)) = Some i"
    using bchoice [of "set (aq_executing ?w)"] own by metis
  moreover have "inj_on f (set (aq_executing ?w))" using f by (intro inj_onI) (metis option.inject)
  ultimately have "card (set (aq_executing ?w)) \<le> card {k. ao_active (?ops k)}"
    by (intro card_inj_on_le [of f]) auto
  then have "length (aq_executing ?w) \<le> card {k. ao_active (?ops k)}"
    using q by (simp add: queue_ok_def distinct_card)
  with drained own ok(1) show ?thesis by (auto simp: sys_ok_def padded_def)
qed

text \<open>Two calls for one slot: the second is answered once the first operation is cancelled.\<close>

definition two_calls :: "ax_action list" where
  "two_calls = [ACreate 5, ACreate 6, ABegin (\<lambda>_. NoTask) False 0, ABegin (\<lambda>_. NoTask) False 1,
     AExecute 0, ACall 0 Executes, ACallback 0, AReturn 0]"

lemma two_calls_run:
  "\<exists>s. ax_run True two_calls (init_ax 2 1) = Some s \<and> sx_delivered s = [(0, None, False)] \<and> sx_next s = 2
     \<and> aq_pending (ax_workers (sx s)) = [1] \<and> sx_begin s = None \<and> ax_posted (sx s) = []
     \<and> (\<forall>i. et_execution (ax_tasks (sx s) i) = Idle \<and> et_taskInProgress (ax_tasks (sx s) i) = None)"
  by (simp add: two_calls_def ax_eval)

lemma ax_rest_drained_witness:
  "\<exists>s. ax_reach 2 1 s \<and> quiescent s \<and> (\<exists>i \<in> {1}. et_callback (ax_tasks (sx s) i) = Some 1)
     \<and> 1 \<le> card {k. ao_active (ax_operations (sx s) k)}"
proof -
  obtain s where s: "ax_run True two_calls (init_ax 2 1) = Some s" "sx_delivered s = [(0, None, False)]" "sx_next s = 2"
    "aq_pending (ax_workers (sx s)) = [1]" "sx_begin s = None" "ax_posted (sx s) = []"
    "\<forall>i. et_execution (ax_tasks (sx s) i) = Idle \<and> et_taskInProgress (ax_tasks (sx s) i) = None"
    using two_calls_run by auto
  have q: "quiescent s" unfolding quiescent_def
  proof (intro allI impI)
    fix a assume "internal a"
    then show "\<not> enabled a s" using s(5-7) by (cases a) (simp_all add: executing_def calling_def opRunning_def)
  qed
  from run_reach_ax [OF s(1) Start] have r: "ax_reach 2 1 s" .
  note d = ax_rest_drained [OF r q, unfolded s(2-4)]
  have "\<exists>i \<in> {1}. et_callback (ax_tasks (sx s) i) = Some 1" using d [THEN conjunct1] by (auto dest!: spec [of _ 1])
  moreover have "1 \<le> card {k. ao_active (ax_operations (sx s) k)}" using d by simp
  ultimately show ?thesis using r q by blast
qed

section \<open>Where the executor breaks\<close>

text \<open>
  An operation may be cancelled from any thread; when that happens while another thread is between
  the two sections of a further \<open>asyncBegin\<close> on the operation, the task may end and be released in
  between, and the second section then works on the released task: its assertion fails (and without
  assertions it counts the calls of an ended task, which ends again without an operation state).  All
  other actions of this run keep the contract.
\<close>

theorem ax_cancel_race:
  "\<exists>s s1 s2. ax_reach 2 0 s \<and> enabled (ABegin (\<lambda>_. NoTask) False 0) s \<and> contract (ABegin (\<lambda>_. NoTask) False 0) s
     \<and> perform_ax (ABegin (\<lambda>_. NoTask) False 0) s = Inr s1
     \<and> ax_run False [ACancel 0, AExecute 0, ATerminate (\<lambda>_. NoTask) 0] s1 = Some s2
     \<and> enabled (AContinue (\<lambda>_. NoTask)) s2 \<and> perform_ax (AContinue (\<lambda>_. NoTask)) s2 = Inl AssertFailed"
proof -
  obtain s where s: "ax_run True one_call (init_ax 2 0) = Some s" by (simp add: one_call_def ax_eval)
  have "\<exists>s1 s2. enabled (ABegin (\<lambda>_. NoTask) False 0) s \<and> contract (ABegin (\<lambda>_. NoTask) False 0) s
     \<and> perform_ax (ABegin (\<lambda>_. NoTask) False 0) s = Inr s1
     \<and> ax_run False [ACancel 0, AExecute 0, ATerminate (\<lambda>_. NoTask) 0] s1 = Some s2
     \<and> enabled (AContinue (\<lambda>_. NoTask)) s2 \<and> perform_ax (AContinue (\<lambda>_. NoTask)) s2 = Inl AssertFailed"
    using s by (auto simp: one_call_def ax_eval)
  with run_reach_ax [OF s Start] show ?thesis by blast
qed

text \<open>
  A further call on an operation whose state provides a task is not protected against yet another
  one: until the task ends, the call does not count as pending, so the check of \<open>asyncBegin\<close> passes
  although a callback is outstanding, and the second call fails an assertion (or, without assertions,
  replaces the callback of the first, which is lost).
\<close>

theorem ax_overlapping_begin:
  "\<exists>s s1. ax_reach 2 0 s \<and> sx_next s = 2 \<and> map fst (sx_delivered s) = [0]
     \<and> asyncBeginCheck 0 (sx s) = Inr (Some 0) \<and> enabled (ABegin (\<lambda>_. NewTask) False 0) s
     \<and> perform_ax (ABegin (\<lambda>_. NewTask) False 0) s = Inr s1
     \<and> perform_ax (AContinue (\<lambda>_. NewTask)) s1 = Inl AssertFailed"
proof -
  let ?as = "one_call @ [ABegin (\<lambda>_. NewTask) False 0, AContinue (\<lambda>_. NewTask)]"
  obtain s where s: "ax_run True ?as (init_ax 2 0) = Some s" by (simp add: one_call_def ax_eval)
  have "\<exists>s1. sx_next s = 2 \<and> map fst (sx_delivered s) = [0]
     \<and> asyncBeginCheck 0 (sx s) = Inr (Some 0) \<and> enabled (ABegin (\<lambda>_. NewTask) False 0) s
     \<and> perform_ax (ABegin (\<lambda>_. NewTask) False 0) s = Inr s1
     \<and> perform_ax (AContinue (\<lambda>_. NewTask)) s1 = Inl AssertFailed"
    using s by (auto simp: one_call_def ax_eval)
  then obtain s1 where "sx_next s = 2 \<and> map fst (sx_delivered s) = [0]
     \<and> asyncBeginCheck 0 (sx s) = Inr (Some 0) \<and> enabled (ABegin (\<lambda>_. NewTask) False 0) s
     \<and> perform_ax (ABegin (\<lambda>_. NewTask) False 0) s = Inr s1
     \<and> perform_ax (AContinue (\<lambda>_. NewTask)) s1 = Inl AssertFailed" by (elim exE)
  with run_reach_ax [OF s Start] show ?thesis by (intro exI conjI) (assumption | elim conjE)+
qed

end
