(* ===== verification/Observable.thy ===== *)
theory Observable
  imports TaskBase
begin

text \<open>
  The reactive observable of \<open>reactive/ObservableBase.h\<close>.  An observable is a timer task whose state
  is guarded by the task lock; per subscription it owns a stranded execution queue of events (one
  event executes at a time, failed events are kept), which another thread drains.  A subscription is
  named by a number for its uuid.  What the code asks of others is an argument: the results of the
  observer callbacks, the event loop of the derived class, and the points where memory runs out.
\<close>

section \<open>Events and their strand\<close>

datatype ob_exc = ObDisconnected | ObCanceled | ObBadAlloc | ObNoSubscribers | ObUser nat

text \<open>The tasks pushed to an events queue: a value invoker and the two bound notifications.\<close>

datatype 'v event = EvNext 'v | EvError ob_exc | EvComplete

fun valuesOf :: "'v event list \<Rightarrow> 'v list" where
  "valuesOf [] = []"
| "valuesOf (EvNext v # es) = v # valuesOf es"
| "valuesOf (e # es) = valuesOf es"

text \<open>The executing task: whether it was cancelled, and whether its thread is in the observer.\<close>

datatype 'v slot = Slot (sl_event: "'v event") (sl_canceled: bool) (sl_inCallback: bool)

record 'v strand =
  st_executing :: "'v slot option"
  st_pending :: "'v event list"
  st_failed :: "ob_exc list"

definition new_strand :: "'v strand" where
  "new_strand = \<lparr>st_executing = None, st_pending = [], st_failed = []\<rparr>"

text \<open>The strand executes one task at a time (\<open>maxExecuting\<close> is 1).\<close>

definition st_pad :: "'v strand \<Rightarrow> 'v strand" where
  "st_pad q = (case st_executing q of
     Some s \<Rightarrow> q
   | None \<Rightarrow> (case st_pending q of
       [] \<Rightarrow> q | e # es \<Rightarrow> q\<lparr>st_executing := Some (Slot e False False), st_pending := es\<rparr>))"

definition st_push :: "'v event \<Rightarrow> 'v strand \<Rightarrow> 'v strand" where
  "st_push e q = st_pad (q\<lparr>st_pending := st_pending q @ [e]\<rparr>)"

text \<open>\<open>forceFlushNoThrow( false )\<close>: pending and ready tasks go, the executing one is cancelled.\<close>

definition st_flush :: "'v strand \<Rightarrow> 'v strand" where
  "st_flush q = q\<lparr>st_pending := [], st_failed := [],
     st_executing := map_option (\<lambda>s. Slot (sl_event s) True (sl_inCallback s)) (st_executing q)\<rparr>"

text \<open>The executing task completes: a failed one is kept (\<open>OptionKeepFailed\<close>).\<close>

definition st_complete :: "ob_exc option \<Rightarrow> 'v strand \<Rightarrow> 'v strand" where
  "st_complete x q = st_pad (q\<lparr>st_executing := None,
     st_failed := (case x of None \<Rightarrow> st_failed q | Some e \<Rightarrow> st_failed q @ [e])\<rparr>)"

definition st_size :: "'v strand \<Rightarrow> nat" where
  "st_size q = (case st_executing q of None \<Rightarrow> 0 | Some s \<Rightarrow> 1) + length (st_pending q) + length (st_failed q)"

definition st_isEmpty :: "'v strand \<Rightarrow> bool" where
  "st_isEmpty q \<longleftrightarrow> st_executing q = None \<and> st_pending q = [] \<and> st_failed q = []"

section \<open>Subscriptions\<close>

text \<open>The calls an observer has received.\<close>

datatype 'v call = OnNext 'v | OnError ob_exc | OnCompleted

text \<open>
  The fields after the events queue are history: the calls made, the values pushed to the queue, the
  values the observer consumed (it accepted them, or threw on them), the values discarded unseen,
  and whether a callback for a value threw.
\<close>

record 'v subscription =
  si_onCompletedCalled :: bool
  si_disposing :: bool
  si_completedScheduled :: bool
  si_eventsQueue :: "'v strand option"
  si_calls :: "'v call list"
  si_pushed :: "'v list"
  si_consumed :: "'v list"
  si_dropped :: "'v list"
  si_threw :: bool

definition new_subscription :: "'v subscription" where
  "new_subscription = \<lparr>si_onCompletedCalled = False, si_disposing = False, si_completedScheduled = False,
     si_eventsQueue = None, si_calls = [], si_pushed = [], si_consumed = [], si_dropped = [], si_threw = False\<rparr>"

definition pushEvent :: "'v event \<Rightarrow> 'v subscription \<Rightarrow> 'v subscription" where
  "pushEvent e b = b\<lparr>si_eventsQueue := map_option (st_push e) (si_eventsQueue b),
     si_pushed := si_pushed b @ valuesOf [e]\<rparr>"

definition flushEvents :: "'v subscription \<Rightarrow> 'v subscription" where
  "flushEvents b = (case si_eventsQueue b of
     None \<Rightarrow> b
   | Some q \<Rightarrow> b\<lparr>si_eventsQueue := Some (st_flush q), si_dropped := si_dropped b @ valuesOf (st_pending q)\<rparr>)"

definition queueIsEmpty :: "'v subscription \<Rightarrow> bool" where
  "queueIsEmpty b \<longleftrightarrow> (case si_eventsQueue b of None \<Rightarrow> True | Some q \<Rightarrow> st_isEmpty q)"

text \<open>Whether the thread marked as invoking the callbacks is in one of this subscription.\<close>

definition inCallback :: "'v subscription \<Rightarrow> bool" where
  "inCallback b \<longleftrightarrow> (case si_eventsQueue b of
     None \<Rightarrow> False
   | Some q \<Rightarrow> (case st_executing q of None \<Rightarrow> False | Some s \<Rightarrow> sl_inCallback s))"

section \<open>The callbacks\<close>

definition completeEvent :: "ob_exc option \<Rightarrow> 'v strand \<Rightarrow> 'v subscription \<Rightarrow> 'v subscription" where
  "completeEvent x q b = b\<lparr>si_eventsQueue := Some (st_complete x q)\<rparr>"

definition markInCallback :: "bool \<Rightarrow> 'v slot \<Rightarrow> 'v strand \<Rightarrow> 'v subscription \<Rightarrow> 'v subscription" where
  "markInCallback c s q b =
     b\<lparr>si_eventsQueue := Some (q\<lparr>st_executing := Some (Slot (sl_event s) (sl_canceled s) c)\<rparr>)\<rparr>"

text \<open>
  The executing task starts, up to the call of the observer.  A cancelled value invoker finishes
  without the call; a cancelled notification is a simple task, which then fails.
  \<open>callOnCompleted\<close> sets its flag first and calls the observer at most once.
\<close>

definition callBegin :: "'v subscription \<Rightarrow> 'v subscription option" where
  "callBegin b = (case si_eventsQueue b of
     None \<Rightarrow> None
   | Some q \<Rightarrow> (case st_executing q of
       None \<Rightarrow> None
     | Some s \<Rightarrow>
        (if sl_inCallback s then None
         else Some (case sl_event s of
             EvNext v \<Rightarrow>
               (if sl_canceled s then (completeEvent None q b)\<lparr>si_dropped := si_dropped b @ [v]\<rparr>
                else (markInCallback True s q b)\<lparr>si_calls := si_calls b @ [OnNext v]\<rparr>)
           | EvError x \<Rightarrow>
               (if sl_canceled s then completeEvent (Some ObCanceled) q b
                else (markInCallback True s q b)\<lparr>si_calls := si_calls b @ [OnError x]\<rparr>)
           | EvComplete \<Rightarrow>
               (if sl_canceled s then completeEvent (Some ObCanceled) q b
                else (markInCallback True s q b)\<lparr>si_onCompletedCalled := True,
                       si_calls := (if si_onCompletedCalled b then si_calls b else si_calls b @ [OnCompleted])\<rparr>)))))"

text \<open>
  The observer returns: it accepts the value, refuses it (the invoker re-arms its timer), or throws.
  What the two notifications throw is logged and swallowed.
\<close>

datatype cb_result = CbAccept | CbRefuse | CbThrow ob_exc

definition callEnd :: "cb_result \<Rightarrow> 'v subscription \<Rightarrow> 'v subscription option" where
  "callEnd r b = (case si_eventsQueue b of
     None \<Rightarrow> None
   | Some q \<Rightarrow> (case st_executing q of
       None \<Rightarrow> None
     | Some s \<Rightarrow>
        (if \<not> sl_inCallback s then None
         else Some (case sl_event s of
             EvNext v \<Rightarrow>
               (case r of
                  CbAccept \<Rightarrow> (completeEvent None q b)\<lparr>si_consumed := si_consumed b @ [v]\<rparr>
                | CbRefuse \<Rightarrow> markInCallback False s q b
                | CbThrow x \<Rightarrow> (completeEvent (Some x) q b)\<lparr>si_consumed := si_consumed b @ [v], si_threw := True\<rparr>)
           | EvError x \<Rightarrow> completeEvent None q b
           | EvComplete \<Rightarrow> completeEvent None q b))))"

section \<open>The observable\<close>

type_synonym 'v subscriptions = "(nat \<times> 'v subscription) list"

text \<open>
  The iteration order of the map of subscriptions is that of the list.  \<open>ob_waiting\<close> is the
  subscription a blocked \<open>unsubscribe\<close> waits for (with the task lock held), \<open>ob_gone\<close> the
  history of the subscriptions erased, \<open>ob_nextId\<close> what \<open>uuids::create\<close> yields next.
\<close>

record 'v observable =
  ob_subscriptions :: "'v subscriptions"
  ob_stopRequested :: bool
  ob_disposed :: bool
  ob_completed :: bool
  ob_notifyCompleteOnError :: bool
  ob_ignoreSubscribersFailures :: bool
  ob_allowNoSubscribers :: bool
  ob_maxPendingEvents :: nat
  ob_dispatchedException :: "ob_exc option"
  ob_exception :: "ob_exc option"
  ob_state :: task_state
  ob_waiting :: "nat option"
  ob_gone :: "'v subscriptions"
  ob_nextId :: nat

definition DEFAULT_THROTTLE_LIMIT :: nat where "DEFAULT_THROTTLE_LIMIT = 1024"

text \<open>The derived class chooses \<open>m_ignoreSubscribersFailures\<close>.\<close>

definition new_observable :: "bool \<Rightarrow> 'v observable" where
  "new_observable ignore = \<lparr>ob_subscriptions = [], ob_stopRequested = False, ob_disposed = False,
     ob_completed = False, ob_notifyCompleteOnError = False, ob_ignoreSubscribersFailures = ignore,
     ob_allowNoSubscribers = False, ob_maxPendingEvents = DEFAULT_THROTTLE_LIMIT,
     ob_dispatchedException = None, ob_exception = None, ob_state = Created, ob_waiting = None,
     ob_gone = [], ob_nextId = 0\<rparr>"

text \<open>Where memory runs out while a subscription is served: creating its queue, or a task.\<close>

datatype alloc = AllocOk | NoQueue | NoTask

text \<open>\<open>tryForEachSubscriptionNothrow\<close>: every callback runs, and the first exception is returned.\<close>

fun tryForEachSubscription ::
  "(nat \<Rightarrow> 'v subscription \<Rightarrow> ob_exc option \<times> 'v subscription) \<Rightarrow> 'v subscriptions \<Rightarrow> ob_exc option \<times> 'v subscriptions" where
  "tryForEachSubscription f [] = (None, [])"
| "tryForEachSubscription f ((i, b) # subs) =
     (let (e, b') = f i b; (e', subs') = tryForEachSubscription f subs
      in (if e = None then e' else e, (i, b') # subs'))"

definition requestStop :: "'v observable \<Rightarrow> 'v observable" where
  "requestStop x = x\<lparr>ob_stopRequested := True\<rparr>"

definition ob_setExceptionInternal :: "ob_exc \<Rightarrow> 'v observable \<Rightarrow> 'v observable" where
  "ob_setExceptionInternal e x = x\<lparr>ob_exception := Some e\<rparr>"

section \<open>Unsubscribing\<close>

text \<open>\<open>chk2DisposeExecutionQueue\<close> without waiting.\<close>

definition chk2DisposeExecutionQueue :: "'v subscription \<Rightarrow> bool \<times> 'v subscription" where
  "chk2DisposeExecutionQueue b = (case si_eventsQueue b of
     None \<Rightarrow> (True, b)
   | Some q \<Rightarrow> (let b' = flushEvents b in
       if queueIsEmpty b' then (True, b'\<lparr>si_eventsQueue := None\<rparr>) else (False, b')))"

definition updateSubscription :: "nat \<Rightarrow> 'v subscription \<Rightarrow> 'v subscriptions \<Rightarrow> 'v subscriptions" where
  "updateSubscription i b subs = map (\<lambda>(j, c). if j = i then (j, b) else (j, c)) subs"

definition eraseSubscription :: "nat \<Rightarrow> 'v subscription \<Rightarrow> 'v observable \<Rightarrow> 'v observable" where
  "eraseSubscription i b x = x\<lparr>ob_subscriptions := filter (\<lambda>(j, c). j \<noteq> i) (ob_subscriptions x),
     ob_gone := ob_gone x @ [(i, b)]\<rparr>"

definition unsubscribeInternal :: "nat \<Rightarrow> 'v observable \<Rightarrow> bool \<times> 'v observable" where
  "unsubscribeInternal i x = (case map_of (ob_subscriptions x) i of
     None \<Rightarrow> (False, x)
   | Some b \<Rightarrow> (case chk2DisposeExecutionQueue b of
       (True, b') \<Rightarrow> (True, eraseSubscription i b' x)
     | (False, b') \<Rightarrow> (False, x\<lparr>ob_subscriptions := updateSubscription i b' (ob_subscriptions x)\<rparr>)))"

text \<open>
  \<open>unsubscribe\<close> waits: it flushes the queue, then blocks until nothing executes in it
  (\<open>unsubscribeEnd\<close>).  \<open>caller\<close> is the subscription whose observer callback makes the call, if
  any; calling it from a callback of the same subscription ends the process.
\<close>

definition unsubscribeBegin :: "nat option \<Rightarrow> nat \<Rightarrow> 'v observable \<Rightarrow> 'v observable res" where
  "unsubscribeBegin caller i x = (case map_of (ob_subscriptions x) i of
     None \<Rightarrow> Inr x
   | Some b \<Rightarrow> bindR (chkR (\<not> (inCallback b \<and> caller = Some i)) RtAbort)
       (\<lambda>_. Inr (case chk2DisposeExecutionQueue b of
          (True, b') \<Rightarrow> eraseSubscription i b' x
        | (False, b') \<Rightarrow> x\<lparr>ob_subscriptions := updateSubscription i b' (ob_subscriptions x), ob_waiting := Some i\<rparr>)))"

definition unsubscribeEnd :: "'v observable \<Rightarrow> 'v observable option" where
  "unsubscribeEnd x = (case ob_waiting x of
     None \<Rightarrow> None
   | Some i \<Rightarrow> (case map_of (ob_subscriptions x) i of
       None \<Rightarrow> None
     | Some b \<Rightarrow> (case si_eventsQueue b of
         None \<Rightarrow> None
       | Some q \<Rightarrow> (if st_executing q = None \<and> st_pending q = []
           then Some ((eraseSubscription i (b\<lparr>si_eventsQueue := None\<rparr>) x)\<lparr>ob_waiting := None\<rparr>) else None))))"

section \<open>Failed subscribers\<close>

definition popFailed :: "'v subscription \<Rightarrow> ob_exc option \<times> 'v subscription" where
  "popFailed b = (case si_eventsQueue b of
     None \<Rightarrow> (None, b)
   | Some q \<Rightarrow> (case st_failed q of
       [] \<Rightarrow> (None, b)
     | e # es \<Rightarrow> (Some e, b\<lparr>si_eventsQueue := Some (q\<lparr>st_failed := es\<rparr>)\<rparr>)))"

fun popAllFailed :: "'v subscriptions \<Rightarrow> (nat \<times> ob_exc) list \<times> 'v subscriptions" where
  "popAllFailed [] = ([], [])"
| "popAllFailed ((i, b) # subs) =
     (let (e, b') = popFailed b; (failed, subs') = popAllFailed subs
      in (case e of None \<Rightarrow> failed | Some x \<Rightarrow> (i, x) # failed, (i, b') # subs'))"

definition checkSubscribersQueues :: "'v observable \<Rightarrow> ob_exc option \<times> 'v observable" where
  "checkSubscribersQueues x =
     (let (failed, subs) = popAllFailed (ob_subscriptions x);
          x1 = fold (\<lambda>i y. snd (unsubscribeInternal i y)) (map fst failed) (x\<lparr>ob_subscriptions := subs\<rparr>);
          failedTaskSave = find (\<lambda>e. e \<noteq> ObDisconnected) (map snd failed)
      in (if ob_ignoreSubscribersFailures x1 then None else failedTaskSave, x1))"

section \<open>Notifications\<close>

definition chk2InitExecutionQueue :: "alloc \<Rightarrow> 'v subscription \<Rightarrow> ob_exc option \<times> 'v subscription" where
  "chk2InitExecutionQueue a b = (case si_eventsQueue b of
     Some q \<Rightarrow> (None, b)
   | None \<Rightarrow> (if a = NoQueue then (Some ObBadAlloc, b) else (None, b\<lparr>si_eventsQueue := Some new_strand\<rparr>)))"

definition pushNext :: "'v \<Rightarrow> alloc \<Rightarrow> 'v subscription \<Rightarrow> ob_exc option \<times> 'v subscription" where
  "pushNext v a b = (case chk2InitExecutionQueue a b of
     (Some e, b') \<Rightarrow> (Some e, b')
   | (None, b') \<Rightarrow> (if a = NoTask then (Some ObBadAlloc, b') else (None, pushEvent (EvNext v) b')))"

text \<open>An events queue that is full, or whose completion is scheduled.\<close>

definition rejects :: "nat \<Rightarrow> 'v subscription \<Rightarrow> bool" where
  "rejects maxPendingEvents b \<longleftrightarrow> (case si_eventsQueue b of
     None \<Rightarrow> False
   | Some q \<Rightarrow> maxPendingEvents \<noteq> 0 \<and> st_size q \<ge> maxPendingEvents \<or> si_completedScheduled b)"

definition notifyOnNext :: "(nat \<Rightarrow> alloc) \<Rightarrow> 'v \<Rightarrow> 'v observable \<Rightarrow> (ob_exc + bool) \<times> 'v observable" where
  "notifyOnNext a v x =
     (if \<not> ob_allowNoSubscribers x \<and> ob_subscriptions x = [] then (Inl ObNoSubscribers, x)
      else (case checkSubscribersQueues x of
          (Some e, x1) \<Rightarrow> (Inl e, x1)
        | (None, x1) \<Rightarrow>
            (if list_ex (\<lambda>(i, b). rejects (ob_maxPendingEvents x1) b) (ob_subscriptions x1) then (Inr False, x1)
             else (case tryForEachSubscription (\<lambda>i. pushNext v (a i)) (ob_subscriptions x1) of
                 (Some e, subs) \<Rightarrow> (Inl e, x1\<lparr>ob_subscriptions := subs\<rparr>)
               | (None, subs) \<Rightarrow> (Inr True, x1\<lparr>ob_subscriptions := subs\<rparr>)))))"

definition pushError :: "ob_exc \<Rightarrow> alloc \<Rightarrow> 'v subscription \<Rightarrow> ob_exc option \<times> 'v subscription" where
  "pushError e a b =
     (if si_completedScheduled b then (None, b)
      else (case chk2InitExecutionQueue a b of
          (Some x, b') \<Rightarrow> (Some x, b')
        | (None, b') \<Rightarrow> (let b2 = flushEvents b'
            in if a = NoTask then (Some ObBadAlloc, b2) else (None, pushEvent (EvError e) b2))))"

definition notifyOnErrorNothrow :: "(nat \<Rightarrow> alloc) \<Rightarrow> ob_exc \<Rightarrow> 'v observable \<Rightarrow> 'v observable" where
  "notifyOnErrorNothrow a e x =
     x\<lparr>ob_subscriptions := snd (tryForEachSubscription (\<lambda>i. pushError e (a i)) (ob_subscriptions x))\<rparr>"

definition pushComplete :: "alloc \<Rightarrow> 'v subscription \<Rightarrow> ob_exc option \<times> 'v subscription" where
  "pushComplete a b = (case chk2InitExecutionQueue a b of
     (Some e, b') \<Rightarrow> (Some e, b')
   | (None, b') \<Rightarrow> (if a = NoTask then (Some ObBadAlloc, b')
                   else (None, (pushEvent EvComplete b')\<lparr>si_completedScheduled := True\<rparr>)))"

definition notifyOnCompleteInternal :: "bool \<Rightarrow> (nat \<Rightarrow> alloc) \<Rightarrow> 'v observable \<Rightarrow> ob_exc option \<times> 'v observable" where
  "notifyOnCompleteInternal nothrow a x =
     (if ob_completed x then (None, x)
      else (case tryForEachSubscription (\<lambda>i. pushComplete (a i)) (ob_subscriptions x) of
          (e, subs) \<Rightarrow> (if nothrow then None else e, x\<lparr>ob_completed := True, ob_subscriptions := subs\<rparr>)))"

section \<open>The event loop\<close>

definition areAllEventsFlushed :: "'v observable \<Rightarrow> bool" where
  "areAllEventsFlushed x \<longleftrightarrow> list_all (\<lambda>(i, b). queueIsEmpty b) (ob_subscriptions x)"

text \<open>What \<open>run\<close> answers: a duration to wait, \<open>neg_infin\<close>, or an exception.\<close>

datatype run_result = RunAgain | RunFinished | RunThrows ob_exc

text \<open>\<open>shutdownFinished\<close> is the answer of \<open>chk2LoopUntilShutdownFinished\<close>.\<close>

definition chk2WaitAllEvents2Flush :: "bool \<Rightarrow> 'v observable \<Rightarrow> run_result \<times> 'v observable" where
  "chk2WaitAllEvents2Flush shutdownFinished x =
     (if \<not> shutdownFinished then (RunAgain, x)
      else (case checkSubscribersQueues x of
          (e, x1) \<Rightarrow>
            (let x2 = (case e of
                   Some y \<Rightarrow> (if ob_exception x1 = None then ob_setExceptionInternal y x1 else x1)
                 | None \<Rightarrow> x1)
             in if areAllEventsFlushed x2 then
                  (case ob_exception x2 of
                     Some y \<Rightarrow> (RunThrows y, x2)
                   | None \<Rightarrow> (if ob_stopRequested x2 then (RunThrows ObCanceled, x2) else (RunFinished, x2)))
                else (RunAgain, x2))))"

text \<open>
  \<open>chk2LoopUntilFinished\<close> of the derived class: the values it notifies in this round (it does not
  catch what \<open>notifyOnNext\<close> throws), and then a duration, \<open>neg_infin\<close> or an exception.
\<close>

datatype loop_result = LoopAgain | LoopFinished | LoopThrows ob_exc

fun emitValues :: "((nat \<Rightarrow> alloc) \<times> 'v) list \<Rightarrow> 'v observable \<Rightarrow> ob_exc option \<times> 'v observable" where
  "emitValues [] x = (None, x)"
| "emitValues ((a, v) # vs) x = (case notifyOnNext a v x of
     (Inl e, x') \<Rightarrow> (Some e, x') | (Inr ok, x') \<Rightarrow> emitValues vs x')"

record 'v round =
  rd_emits :: "((nat \<Rightarrow> alloc) \<times> 'v) list"
  rd_result :: loop_result
  rd_alloc :: "nat \<Rightarrow> alloc"
  rd_shutdownFinished :: bool

text \<open>The body of the \<open>try\<close> block: the exception caught, or whether to return early.\<close>

definition runLoop :: "'v round \<Rightarrow> 'v observable \<Rightarrow> (ob_exc + bool) \<times> 'v observable" where
  "runLoop r x =
     (case ob_dispatchedException x of
        Some e \<Rightarrow> (Inl e, x\<lparr>ob_dispatchedException := None\<rparr>)
      | None \<Rightarrow> (case checkSubscribersQueues x of
          (Some e, x1) \<Rightarrow> (Inl e, x1)
        | (None, x1) \<Rightarrow> (case emitValues (rd_emits r) x1 of
            (Some e, x2) \<Rightarrow> (Inl e, x2)
          | (None, x2) \<Rightarrow> (case rd_result r of
              LoopThrows e \<Rightarrow> (Inl e, x2)
            | LoopAgain \<Rightarrow> (Inr True, x2)
            | LoopFinished \<Rightarrow> (case notifyOnCompleteInternal False (rd_alloc r) x2 of
                (Some e, x3) \<Rightarrow> (Inl e, x3)
              | (None, x3) \<Rightarrow> (Inr False, x3))))))"

definition ob_run :: "'v round \<Rightarrow> 'v observable \<Rightarrow> run_result \<times> 'v observable" where
  "ob_run r x =
     (if ob_completed x then chk2WaitAllEvents2Flush (rd_shutdownFinished r) x
      else if ob_notifyCompleteOnError x then (RunAgain, snd (notifyOnCompleteInternal True (rd_alloc r) x))
      else (case runLoop r x of
          (Inr early, x1) \<Rightarrow> (RunAgain, x1)
        | (Inl e, x1) \<Rightarrow>
            (let x2 = notifyOnErrorNothrow (rd_alloc r) e (ob_setExceptionInternal e x1)
             in (RunAgain, (requestStop x2)\<lparr>ob_notifyCompleteOnError := True\<rparr>))))"

text \<open>\<open>onTimer\<close> re-arms the timer or completes the task; a kept exception is not replaced.\<close>

definition ob_onTimer :: "'v round \<Rightarrow> 'v observable \<Rightarrow> 'v observable" where
  "ob_onTimer r x = (case ob_run r x of
     (RunAgain, x1) \<Rightarrow> x1
   | (RunFinished, x1) \<Rightarrow> x1\<lparr>ob_state := Completed\<rparr>
   | (RunThrows e, x1) \<Rightarrow>
       x1\<lparr>ob_exception := (if ob_exception x1 = None then Some e else ob_exception x1), ob_state := Completed\<rparr>)"

section \<open>Disposal and the public operations\<close>

definition tryFlushQueue :: "alloc \<Rightarrow> bool \<Rightarrow> 'v subscription \<Rightarrow> (bool \<times> 'v subscription) res" where
  "tryFlushQueue a flushed b =
     (if si_eventsQueue b = None then Inr (flushed, b)
      else bindR
        (if si_disposing b then Inr b
         else if a \<noteq> AllocOk then Inl RtAbort
         else Inr ((pushEvent EvComplete (flushEvents b))\<lparr>si_completedScheduled := True, si_disposing := True\<rparr>))
        (\<lambda>b1. let flushed' = (flushed \<and> queueIsEmpty b1)
              in Inr (flushed', if flushed' then b1\<lparr>si_eventsQueue := None\<rparr> else b1)))"

fun tryFlushObserversEventQueues ::
  "(nat \<Rightarrow> alloc) \<Rightarrow> bool \<Rightarrow> 'v subscriptions \<Rightarrow> (bool \<times> 'v subscriptions) res" where
  "tryFlushObserversEventQueues a flushed [] = Inr (flushed, [])"
| "tryFlushObserversEventQueues a flushed ((i, b) # subs) =
     bindR (tryFlushQueue (a i) flushed b)
       (\<lambda>(flushed', b'). bindR (tryFlushObserversEventQueues a flushed' subs)
          (\<lambda>(flushed'', subs'). Inr (flushed'', (i, b') # subs')))"

definition tryDisposeInternal :: "bool \<Rightarrow> (nat \<Rightarrow> alloc) \<Rightarrow> 'v observable \<Rightarrow> (bool \<times> 'v observable) res" where
  "tryDisposeInternal calledExternally a x =
     (if ob_disposed x then bindR (chkR (ob_subscriptions x = []) AssertFailed) (\<lambda>_. Inr (True, x))
      else if calledExternally then
        (let x1 = requestStop x
         in bindR (tryFlushObserversEventQueues a True (ob_subscriptions x1))
              (\<lambda>(flushed, subs). Inr (flushed,
                 if flushed then x1\<lparr>ob_disposed := True, ob_subscriptions := [], ob_gone := ob_gone x1 @ subs\<rparr>
                 else x1\<lparr>ob_subscriptions := subs\<rparr>)))
      else bindR (chkR (Running \<noteq> ob_state x) AssertFailed) (\<lambda>_. Inr (True, x\<lparr>ob_disposed := True\<rparr>)))"

text \<open>One pass of the loop of \<open>dispose\<close>.\<close>

definition disposePass :: "nat option \<Rightarrow> (nat \<Rightarrow> alloc) \<Rightarrow> 'v observable \<Rightarrow> (bool \<times> 'v observable) res" where
  "disposePass caller a x =
     bindR (chkR (list_all (\<lambda>(i, b). \<not> (inCallback b \<and> caller = Some i)) (ob_subscriptions x)) RtAbort)
       (\<lambda>_. tryDisposeInternal True a x)"

definition dispatchException :: "ob_exc \<Rightarrow> 'v observable \<Rightarrow> 'v observable" where
  "dispatchException e x =
     (if ob_dispatchedException x = None then x\<lparr>ob_dispatchedException := Some e\<rparr> else x)"

text \<open>\<open>subscribe\<close>; the new entry lands at some position of the map.\<close>

definition subscribe :: "nat \<Rightarrow> 'v observable \<Rightarrow> 'v observable res" where
  "subscribe pos x =
     (if ob_disposed x then Inl UnexpectedExc
      else Inr (x\<lparr>ob_subscriptions := take pos (ob_subscriptions x) @ (ob_nextId x, new_subscription)
                   # drop pos (ob_subscriptions x), ob_nextId := ob_nextId x + 1\<rparr>))"

definition ob_setThrottleLimit :: "nat \<Rightarrow> 'v observable \<Rightarrow> 'v observable" where
  "ob_setThrottleLimit n x = x\<lparr>ob_maxPendingEvents := n\<rparr>"

definition allowNoSubscribers :: "bool \<Rightarrow> 'v observable \<Rightarrow> 'v observable" where
  "allowNoSubscribers b x = x\<lparr>ob_allowNoSubscribers := b\<rparr>"

end
