(* ===== verification/ObservableSystem.thy ===== *)
theory ObservableSystem
  imports Observable "HOL-Library.Multiset"
begin

text \<open>
  The observable as a concurrent system: an action is one critical section of the task lock, or the
  start or the end of one observer callback on the thread that drains an events queue.  The second
  part is the invariant of one subscription and its preservation by the operations on it.
\<close>

section \<open>Actions\<close>

datatype 'v ob_action =
    ObStart
  | ObTimer "'v round"
  | ObSubscribe nat
  | ObUnsubscribe "nat option" nat
  | ObUnsubscribed
  | ObDispose "nat option" "nat \<Rightarrow> alloc"
  | ObDispatch ob_exc
  | ObRequestCancel
  | ObThrottle nat
  | ObAllow bool
  | ObReorder nat
  | ObCallBegin nat
  | ObCallEnd nat cb_result

text \<open>A rehash of the map of subscriptions, as exchanges of neighbours.\<close>

definition exchange :: "nat \<Rightarrow> 'a list \<Rightarrow> 'a list" where
  "exchange n xs = take n xs @ (case drop n xs of a # b # r \<Rightarrow> b # a # r | r \<Rightarrow> r)"

definition onSubscription ::
  "('v subscription \<Rightarrow> 'v subscription option) \<Rightarrow> nat \<Rightarrow> 'v observable \<Rightarrow> 'v observable option" where
  "onSubscription f i x = (case map_of (ob_subscriptions x) i of
     None \<Rightarrow> None
   | Some b \<Rightarrow> map_option (\<lambda>b'. x\<lparr>ob_subscriptions := updateSubscription i b' (ob_subscriptions x)\<rparr>) (f b))"

definition okR :: "'a res \<Rightarrow> 'a option" where
  "okR r = (case r of Inl e \<Rightarrow> None | Inr a \<Rightarrow> Some a)"

text \<open>
  The next state, when the locks let the action happen and it neither is refused nor ends the
  process.
\<close>

fun ob_perform :: "'v ob_action \<Rightarrow> 'v observable \<Rightarrow> 'v observable option" where
  "ob_perform (ObCallBegin i) x = onSubscription callBegin i x"
| "ob_perform (ObCallEnd i r) x = onSubscription (callEnd r) i x"
| "ob_perform ObUnsubscribed x = unsubscribeEnd x"
| "ob_perform (ObAllow b) x = Some (allowNoSubscribers b x)"
| "ob_perform a x =
     (if ob_waiting x \<noteq> None then None
      else case a of
        ObStart \<Rightarrow> (if ob_state x = Created then Some (x\<lparr>ob_state := Running\<rparr>) else None)
      | ObTimer r \<Rightarrow> (if ob_state x = Running then Some (ob_onTimer r x) else None)
      | ObSubscribe pos \<Rightarrow> okR (subscribe pos x)
      | ObUnsubscribe caller i \<Rightarrow> okR (unsubscribeBegin caller i x)
      | ObDispose caller al \<Rightarrow> map_option snd (okR (disposePass caller al x))
      | ObDispatch e \<Rightarrow> Some (dispatchException e x)
      | ObRequestCancel \<Rightarrow> Some (requestStop x)
      | ObThrottle n \<Rightarrow> Some (ob_setThrottleLimit n x)
      | ObReorder n \<Rightarrow> Some (x\<lparr>ob_subscriptions := exchange n (ob_subscriptions x)\<rparr>)
      | _ \<Rightarrow> None)"

text \<open>
  \<open>stops\<close>: the derived class emits nothing once it was asked to stop.  \<open>limit\<close> bounds the throttle
  limits that are set (0: no bound).
\<close>

fun admits :: "bool \<Rightarrow> nat \<Rightarrow> 'v ob_action \<Rightarrow> 'v observable \<Rightarrow> bool" where
  "admits stops limit (ObTimer r) x \<longleftrightarrow> (stops \<longrightarrow> ob_stopRequested x \<longrightarrow> rd_emits r = [])"
| "admits stops limit (ObThrottle n) x \<longleftrightarrow> (limit \<noteq> 0 \<longrightarrow> 0 < n \<and> n \<le> limit)"
| "admits stops limit _ x \<longleftrightarrow> True"

inductive ob_reach :: "bool \<Rightarrow> nat \<Rightarrow> 'v observable \<Rightarrow> bool" for stops limit where
  ObInit: "limit = 0 \<or> DEFAULT_THROTTLE_LIMIT \<le> limit \<Longrightarrow> ob_reach stops limit (new_observable ignore)"
| ObStep: "ob_reach stops limit x \<Longrightarrow> admits stops limit a x \<Longrightarrow> ob_perform a x = Some y \<Longrightarrow> ob_reach stops limit y"

fun ob_runs :: "bool \<Rightarrow> nat \<Rightarrow> 'v ob_action list \<Rightarrow> 'v observable \<Rightarrow> 'v observable option" where
  "ob_runs stops limit [] x = Some x"
| "ob_runs stops limit (a # as) x =
     (if admits stops limit a x
      then (case ob_perform a x of None \<Rightarrow> None | Some y \<Rightarrow> ob_runs stops limit as y) else None)"

lemma runs_reach: "ob_runs stops limit as x = Some y \<Longrightarrow> ob_reach stops limit x \<Longrightarrow> ob_reach stops limit y"
  by (induction "as" arbitrary: x) (auto split: if_splits option.splits intro: ObStep)

section \<open>The observer protocol\<close>

text \<open>
  Which call may come later than which: anything after a value, only the completion after an error,
  nothing after the completion (with \<open>late\<close>, a value).
\<close>

fun follows :: "bool \<Rightarrow> 'v call \<Rightarrow> 'v call \<Rightarrow> bool" where
  "follows late (OnNext v) c \<longleftrightarrow> True"
| "follows late (OnError e) c \<longleftrightarrow> c = OnCompleted"
| "follows late OnCompleted c \<longleftrightarrow> late \<and> (\<exists>v. c = OnNext v)"

fun eventCall :: "'v event \<Rightarrow> 'v call" where
  "eventCall (EvNext v) = OnNext v"
| "eventCall (EvError e) = OnError e"
| "eventCall EvComplete = OnCompleted"

text \<open>The calls the tasks of a queue can still make.\<close>

definition slotCalls :: "'v slot option \<Rightarrow> 'v call list" where
  "slotCalls s = (case s of
     None \<Rightarrow> []
   | Some s \<Rightarrow> (if sl_canceled s then []
       else case sl_event s of
              EvNext v \<Rightarrow> [OnNext v]
            | EvError e \<Rightarrow> if sl_inCallback s then [] else [OnError e]
            | EvComplete \<Rightarrow> if sl_inCallback s then [] else [OnCompleted]))"

definition st_calls :: "'v strand \<Rightarrow> 'v call list" where
  "st_calls q = slotCalls (st_executing q) @ map eventCall (st_pending q)"

definition st_values :: "'v strand \<Rightarrow> 'v list" where
  "st_values q = valuesOf ((case st_executing q of None \<Rightarrow> [] | Some s \<Rightarrow> [sl_event s]) @ st_pending q)"

definition planned :: "'v subscription \<Rightarrow> 'v call list" where
  "planned b = (case si_eventsQueue b of None \<Rightarrow> [] | Some q \<Rightarrow> st_calls q)"

definition queued :: "'v subscription \<Rightarrow> 'v list" where
  "queued b = (case si_eventsQueue b of None \<Rightarrow> [] | Some q \<Rightarrow> st_values q)"

definition failedEvents :: "'v subscription \<Rightarrow> ob_exc list" where
  "failedEvents b = (case si_eventsQueue b of None \<Rightarrow> [] | Some q \<Rightarrow> st_failed q)"

definition slotOf :: "'v subscription \<Rightarrow> 'v slot option" where
  "slotOf b = (case si_eventsQueue b of None \<Rightarrow> None | Some q \<Rightarrow> st_executing q)"

text \<open>What may cost a subscription events: its disposal, and a callback of it that threw.\<close>

definition excused :: "'v subscription \<Rightarrow> bool" where
  "excused b \<longleftrightarrow> si_disposing b \<or> si_threw b"

definition mayFollow :: "bool \<Rightarrow> 'v call \<Rightarrow> 'v call \<Rightarrow> bool" where
  "mayFollow late c d \<longleftrightarrow> follows late c d \<or> c = OnCompleted \<and> d = OnCompleted"

section \<open>The invariant of a subscription\<close>

record flags =
  fl_late :: bool
  fl_limit :: nat
  fl_erred :: bool
  fl_stop :: bool
  fl_completed :: bool
  fl_waiting :: bool

definition protocol_inv :: "flags \<Rightarrow> 'v subscription \<Rightarrow> bool" where
  "protocol_inv c b \<longleftrightarrow> sorted_wrt (mayFollow (fl_late c)) (si_calls b @ planned b)
     \<and> (\<forall>e. OnError e \<in> set (si_calls b @ planned b) \<longrightarrow> fl_erred c)
     \<and> (OnCompleted \<in> set (si_calls b @ planned b) \<longrightarrow> si_completedScheduled b)
     \<and> (si_onCompletedCalled b \<longleftrightarrow> OnCompleted \<in> set (si_calls b))
     \<and> count_list (si_calls b) OnCompleted \<le> 1
     \<and> (\<forall>s. slotOf b = Some s \<longrightarrow> sl_inCallback s \<longrightarrow> eventCall (sl_event s) \<in> set (si_calls b))"

definition flags_inv :: "flags \<Rightarrow> 'v subscription \<Rightarrow> bool" where
  "flags_inv c b \<longleftrightarrow> (si_completedScheduled b \<longrightarrow> fl_completed c \<or> fl_stop c)
     \<and> (si_disposing b \<longrightarrow> fl_stop c \<and> si_completedScheduled b)"

definition values_inv :: "flags \<Rightarrow> 'v subscription \<Rightarrow> bool" where
  "values_inv c b \<longleftrightarrow> subseq (si_consumed b @ queued b) (si_pushed b)
     \<and> mset (si_pushed b) = mset (si_consumed b) + mset (si_dropped b) + mset (queued b)
     \<and> (fl_limit c \<noteq> 0 \<longrightarrow> length (queued b) \<le> fl_limit c)"

definition loss_inv :: "flags \<Rightarrow> 'v subscription \<Rightarrow> bool" where
  "loss_inv c b \<longleftrightarrow> fl_waiting c \<or> excused b
     \<or> (si_completedScheduled b \<longrightarrow> si_onCompletedCalled b \<or> OnCompleted \<in> set (planned b))
       \<and> failedEvents b = []
       \<and> (si_dropped b \<noteq> [] \<longrightarrow> fl_erred c)
       \<and> (\<forall>s. slotOf b = Some s \<longrightarrow> sl_canceled s \<longrightarrow> fl_erred c \<and> (\<exists>v. sl_event s = EvNext v))"

definition sub_inv :: "flags \<Rightarrow> 'v subscription \<Rightarrow> bool" where
  "sub_inv c b \<longleftrightarrow> protocol_inv c b \<and> flags_inv c b \<and> values_inv c b \<and> loss_inv c b"

end
