(* ===== verification/ObservableInvariant.thy ===== *)
theory ObservableInvariant
  imports ObservableSystem
begin

text \<open>The invariant of a subscription is kept by every operation on its queue.\<close>

section \<open>The views of a queue under its operations\<close>

lemma valuesOf_append [simp]: "valuesOf (xs @ ys) = valuesOf xs @ valuesOf ys"
  by (induction xs rule: valuesOf.induct) simp_all

lemma valuesOf_pushed: "valuesOf (e # es) = valuesOf [e] @ valuesOf es"
  by (cases e) simp_all

lemma slotCalls_None [simp]: "slotCalls None = []"
  by (simp add: slotCalls_def)

lemma slotCalls_fresh [simp]: "slotCalls (Some (Slot e False False)) = [eventCall e]"
  by (cases e) (simp_all add: slotCalls_def)

lemma slotCalls_canceled [simp]: "slotCalls (Some (Slot e True b)) = []"
  by (simp add: slotCalls_def)

lemma st_pad_views [simp]:
  "st_calls (st_pad q) = st_calls q" "st_values (st_pad q) = st_values q" "st_failed (st_pad q) = st_failed q"
  by (auto simp: st_pad_def st_calls_def st_values_def valuesOf_pushed [of _ "_ # _"] valuesOf_pushed [of _ "st_pending _"]
      split: option.splits list.splits) (metis valuesOf_pushed)

lemma st_pad_executing:
  "st_executing (st_pad q) = st_executing q \<or> (\<exists>e. st_executing (st_pad q) = Some (Slot e False False))"
  by (auto simp: st_pad_def split: option.splits list.splits)

lemma st_push_views [simp]:
  "st_calls (st_push e q) = st_calls q @ [eventCall e]" "st_values (st_push e q) = st_values q @ valuesOf [e]"
  "st_failed (st_push e q) = st_failed q"
  by (simp_all add: st_push_def) (simp_all add: st_calls_def st_values_def)

lemma st_push_executing:
  "st_executing (st_push e q) = st_executing q \<or> (\<exists>d. st_executing (st_push e q) = Some (Slot d False False))"
  using st_pad_executing [of "q\<lparr>st_pending := st_pending q @ [e]\<rparr>"] by (simp add: st_push_def)

lemma st_complete_views [simp]:
  "st_calls (st_complete x q) = map eventCall (st_pending q)" "st_values (st_complete x q) = valuesOf (st_pending q)"
  "st_failed (st_complete x q) = st_failed q @ (case x of None \<Rightarrow> [] | Some e \<Rightarrow> [e])"
  by (simp_all add: st_complete_def split: option.splits) (simp_all add: st_calls_def st_values_def)

lemma st_complete_executing:
  "st_executing (st_complete x q) = None \<or> (\<exists>e. st_executing (st_complete x q) = Some (Slot e False False))"
  using st_pad_executing [of "q\<lparr>st_executing := None, st_failed := _\<rparr>"] by (simp add: st_complete_def)

lemma st_flush_views [simp]:
  "st_calls (st_flush q) = []" "st_failed (st_flush q) = []" "st_pending (st_flush q) = []"
  "st_values (st_flush q) = valuesOf (case st_executing q of None \<Rightarrow> [] | Some s \<Rightarrow> [sl_event s])"
  "st_executing (st_flush q) = map_option (\<lambda>s. Slot (sl_event s) True (sl_inCallback s)) (st_executing q)"
  by (simp_all add: st_flush_def st_calls_def st_values_def slotCalls_def split: option.splits)

lemma new_strand_views [simp]:
  "st_calls new_strand = []" "st_failed new_strand = []" "st_values new_strand = []" "st_executing new_strand = None"
  by (simp_all add: new_strand_def st_calls_def st_values_def)

section \<open>Orders of calls\<close>

lemma subseq_members: "subseq xs ys \<Longrightarrow> set xs \<subseteq> set ys"
  by (induction rule: list_emb.induct) auto

lemma sorted_wrt_subseq:
  assumes "subseq xs ys" "sorted_wrt P ys"
  shows "sorted_wrt P xs"
  using assms by (induction rule: list_emb.induct) (auto dest: list_emb_set)

lemma sorted_wrt_double:
  assumes "sorted_wrt P (xs @ a # ys)" "P a a"
  shows "sorted_wrt P (xs @ a # a # ys)"
  using assms by (auto simp: sorted_wrt_append)

lemma mayFollow_simps [simp]:
  "mayFollow late (OnNext v) c" "mayFollow late c OnCompleted"
  "mayFollow late (OnError e) (OnNext v) \<longleftrightarrow> False" "mayFollow late c (OnError e) \<longleftrightarrow> (\<exists>v. c = OnNext v)"
  "mayFollow late OnCompleted (OnNext v) \<longleftrightarrow> late"
  by (cases c; simp add: mayFollow_def)+

section \<open>Pushing and flushing\<close>

text \<open>The part of the invariant that does not depend on why events were discarded.\<close>

definition core_inv :: "flags \<Rightarrow> 'v subscription \<Rightarrow> bool" where
  "core_inv c b \<longleftrightarrow> protocol_inv c b \<and> flags_inv c b \<and> values_inv c b"

lemma sub_inv_core: "sub_inv c b \<longleftrightarrow> core_inv c b \<and> loss_inv c b"
  by (auto simp: sub_inv_def core_inv_def)

definition flags_le :: "flags \<Rightarrow> flags \<Rightarrow> bool" where
  "flags_le c d \<longleftrightarrow> fl_late d = fl_late c \<and> fl_limit d = fl_limit c \<and> (fl_erred c \<longrightarrow> fl_erred d)
     \<and> (fl_stop c \<longrightarrow> fl_stop d) \<and> (fl_completed c \<longrightarrow> fl_completed d) \<and> (fl_waiting c \<longrightarrow> fl_waiting d)"

lemma core_mono: "core_inv c b \<Longrightarrow> flags_le c d \<Longrightarrow> core_inv d b"
  unfolding core_inv_def protocol_inv_def flags_inv_def values_inv_def flags_le_def by auto

lemma inv_mono: "sub_inv c b \<Longrightarrow> flags_le c d \<Longrightarrow> sub_inv d b"
  unfolding sub_inv_core by (auto intro: core_mono) (auto simp: loss_inv_def flags_le_def)

lemma inv_new: "sub_inv c new_subscription"
  by (simp add: sub_inv_def protocol_inv_def flags_inv_def values_inv_def loss_inv_def new_subscription_def
      planned_def queued_def failedEvents_def slotOf_def)

lemmas views = planned_def queued_def failedEvents_def slotOf_def

lemma core_pushed:
  assumes "core_inv c b" "si_eventsQueue b \<noteq> None"
    and "\<forall>d \<in> set (si_calls b @ planned b). mayFollow (fl_late c) d (eventCall e)"
    and "\<And>x. e = EvError x \<Longrightarrow> fl_erred c" "e = EvComplete \<Longrightarrow> cs"
    and "si_completedScheduled b \<longrightarrow> cs" "cs \<longrightarrow> fl_completed c \<or> fl_stop c" "ds \<longrightarrow> fl_stop c \<and> cs"
    and "fl_limit c \<noteq> 0 \<longrightarrow> length (queued b) + length (valuesOf [e]) \<le> fl_limit c"
  shows "core_inv c ((pushEvent e b)\<lparr>si_completedScheduled := cs, si_disposing := ds\<rparr>)"
  (is "core_inv c ?b")
proof -
  obtain q where q: "si_eventsQueue b = Some q" using assms(2) by auto
  have v: "planned ?b = planned b @ [eventCall e]" "queued ?b = queued b @ valuesOf [e]"
    "si_calls ?b = si_calls b" "si_pushed ?b = si_pushed b @ valuesOf [e]"
    "slotOf ?b = slotOf b \<or> (\<exists>d. slotOf ?b = Some (Slot d False False))"
    using q st_push_executing [of e q] by (simp_all add: pushEvent_def views)
  have cs: "OnCompleted = eventCall e \<Longrightarrow> cs" using assms(5) by (cases e) auto
  have er: "OnError x = eventCall e \<Longrightarrow> fl_erred c" for x using assms(4) by (cases e) auto
  have "protocol_inv c ?b"
    using assms(1,3,6) cs er v unfolding core_inv_def protocol_inv_def v(1,3)
    by (auto simp: sorted_wrt_append pushEvent_def)
  moreover have "flags_inv c ?b" using assms(7,8) by (simp add: flags_inv_def)
  moreover have "values_inv c ?b"
    using assms(1,9) unfolding core_inv_def values_inv_def v(2,4)
    by (simp add: pushEvent_def list_emb_append_mono flip: append_assoc)
  ultimately show ?thesis by (simp add: core_inv_def)
qed

text \<open>Changes that only discard planned calls, or move the executing value to the consumed or dropped ones.\<close>

lemma core_discard:
  assumes "core_inv c b" "subseq (planned b') (planned b)"
    and "si_calls b' = si_calls b" "si_onCompletedCalled b' = si_onCompletedCalled b"
    "si_completedScheduled b' = si_completedScheduled b" "si_disposing b' = si_disposing b" "si_pushed b' = si_pushed b"
    and "\<And>s. slotOf b' = Some s \<Longrightarrow> sl_inCallback s \<Longrightarrow> eventCall (sl_event s) \<in> set (si_calls b)"
    and "subseq (si_consumed b' @ queued b') (si_consumed b @ queued b)"
    "mset (si_consumed b') + mset (si_dropped b') + mset (queued b') = mset (si_consumed b) + mset (si_dropped b) + mset (queued b)"
    "length (queued b') \<le> length (queued b)"
  shows "core_inv c b'"
proof -
  have p: "set (planned b') \<subseteq> set (planned b)" by (rule subseq_members [OF assms(2)])
  have "subseq (si_calls b' @ planned b') (si_calls b @ planned b)"
    using assms(2,3) by (simp add: subseq_append')
  then have "protocol_inv c b'"
    using assms(1,8) p unfolding core_inv_def protocol_inv_def assms(3-5)
    by (auto intro: sorted_wrt_subseq)
  moreover have "flags_inv c b'" using assms(1) by (simp add: core_inv_def flags_inv_def assms)
  moreover have "values_inv c b'"
    using assms(1,9-11) unfolding core_inv_def values_inv_def assms(7)
    by (auto intro: subseq_order.order_trans)
  ultimately show ?thesis by (simp add: core_inv_def)
qed

lemma core_flush:
  assumes "core_inv c b"
  shows "core_inv c (flushEvents b)"
proof (cases "si_eventsQueue b")
  case None
  with assms show ?thesis by (simp add: flushEvents_def)
next
  case (Some q)
  show ?thesis
  proof (rule core_discard [OF assms])
    show "subseq (si_consumed (flushEvents b) @ queued (flushEvents b)) (si_consumed b @ queued b)"
      using Some by (auto simp: flushEvents_def queued_def st_values_def split: option.splits)
    show "eventCall (sl_event s) \<in> set (si_calls b)" if "slotOf (flushEvents b) = Some s" "sl_inCallback s" for s
      using that assms Some by (auto simp: flushEvents_def slotOf_def core_inv_def protocol_inv_def)
  qed (use Some in \<open>auto simp: flushEvents_def planned_def queued_def st_values_def split: option.splits\<close>)
qed

lemma core_init:
  assumes "core_inv c b" "chk2InitExecutionQueue a b = (e, b')"
  shows "core_inv c b'"
proof -
  have "b' = b \<or> si_eventsQueue b = None \<and> b' = b\<lparr>si_eventsQueue := Some new_strand\<rparr>"
    using assms(2) by (auto simp: chk2InitExecutionQueue_def split: option.splits if_splits)
  then show ?thesis by (auto intro!: assms(1) core_discard [OF assms(1)] simp: views)
qed

lemma core_reset:
  assumes "core_inv c b" "queueIsEmpty b"
  shows "core_inv c (b\<lparr>si_eventsQueue := None\<rparr>)"
  by (rule core_discard [OF assms(1)])
    (use assms(2) in \<open>auto simp: views queueIsEmpty_def st_isEmpty_def st_values_def split: option.splits\<close>)

lemma core_popFailed:
  assumes "core_inv c b" "popFailed b = (e, b')"
  shows "core_inv c b'"
proof -
  have "b' = b \<or> (\<exists>q es. si_eventsQueue b = Some q \<and> b' = b\<lparr>si_eventsQueue := Some (q\<lparr>st_failed := es\<rparr>)\<rparr>)"
    using assms(2) by (auto simp: popFailed_def split: option.splits list.splits)
  then show ?thesis
  proof (elim disjE exE conjE)
    fix q es assume "si_eventsQueue b = Some q" "b' = b\<lparr>si_eventsQueue := Some (q\<lparr>st_failed := es\<rparr>)\<rparr>"
    then show "core_inv c b'" using assms(1)
      by (intro core_discard [OF assms(1)])
        (auto simp: views st_calls_def st_values_def core_inv_def protocol_inv_def)
  qed (use assms(1) in simp)
qed

section \<open>Callbacks\<close>

text \<open>What a completed event leaves: the views of the pending events.\<close>

lemma complete_views [simp]:
  "planned (completeEvent x q b) = map eventCall (st_pending q)"
  "queued (completeEvent x q b) = valuesOf (st_pending q)"
  "failedEvents (completeEvent x q b) = st_failed q @ (case x of None \<Rightarrow> [] | Some e \<Rightarrow> [e])"
  by (simp_all add: completeEvent_def views)

lemma complete_slot: "slotOf (completeEvent x q b) = Some s \<Longrightarrow> \<exists>e. s = Slot e False False"
  using st_complete_executing [of x q] by (auto simp: completeEvent_def slotOf_def)

lemma frame_views [simp]:
  "planned (b\<lparr>si_consumed := cs\<rparr>) = planned b" "planned (b\<lparr>si_dropped := ds\<rparr>) = planned b"
  "planned (b\<lparr>si_threw := t\<rparr>) = planned b" "planned (b\<lparr>si_calls := l\<rparr>) = planned b"
  "planned (b\<lparr>si_onCompletedCalled := oc\<rparr>) = planned b"
  "queued (b\<lparr>si_consumed := cs\<rparr>) = queued b" "queued (b\<lparr>si_dropped := ds\<rparr>) = queued b"
  "queued (b\<lparr>si_threw := t\<rparr>) = queued b" "queued (b\<lparr>si_calls := l\<rparr>) = queued b"
  "queued (b\<lparr>si_onCompletedCalled := oc\<rparr>) = queued b"
  "slotOf (b\<lparr>si_consumed := cs\<rparr>) = slotOf b" "slotOf (b\<lparr>si_dropped := ds\<rparr>) = slotOf b"
  "slotOf (b\<lparr>si_threw := t\<rparr>) = slotOf b" "slotOf (b\<lparr>si_calls := l\<rparr>) = slotOf b"
  "slotOf (b\<lparr>si_onCompletedCalled := oc\<rparr>) = slotOf b"
  "failedEvents (b\<lparr>si_consumed := cs\<rparr>) = failedEvents b" "failedEvents (b\<lparr>si_dropped := ds\<rparr>) = failedEvents b"
  "failedEvents (b\<lparr>si_threw := t\<rparr>) = failedEvents b" "failedEvents (b\<lparr>si_calls := l\<rparr>) = failedEvents b"
  "failedEvents (b\<lparr>si_onCompletedCalled := oc\<rparr>) = failedEvents b"
  by (simp_all add: views)

lemma frame_complete [simp]:
  "si_calls (completeEvent x q b) = si_calls b" "si_onCompletedCalled (completeEvent x q b) = si_onCompletedCalled b"
  "si_completedScheduled (completeEvent x q b) = si_completedScheduled b" "si_disposing (completeEvent x q b) = si_disposing b"
  "si_pushed (completeEvent x q b) = si_pushed b" "si_consumed (completeEvent x q b) = si_consumed b"
  "si_dropped (completeEvent x q b) = si_dropped b" "si_threw (completeEvent x q b) = si_threw b"
  by (simp_all add: completeEvent_def)

lemma executing_views:
  assumes "si_eventsQueue b = Some q" "st_executing q = Some s"
  shows "planned b = slotCalls (Some s) @ map eventCall (st_pending q)"
    "queued b = valuesOf [sl_event s] @ valuesOf (st_pending q)" "slotOf b = Some s" "failedEvents b = st_failed q"
  using assms by (simp_all add: views st_calls_def st_values_def) (metis valuesOf_pushed)

lemma core_complete:
  assumes "core_inv c b" "si_eventsQueue b = Some q" "st_executing q = Some s"
    and "valuesOf [sl_event s] = cs @ ds"
  shows "core_inv c ((completeEvent x q b)\<lparr>si_consumed := si_consumed b @ cs, si_dropped := si_dropped b @ ds, si_threw := t\<rparr>)"
  by (rule core_discard [OF assms(1)])
    (use executing_views [OF assms(2,3)] assms(4) in \<open>auto dest: complete_slot simp: subseq_append' list_emb_append2\<close>)


lemma mark_views [simp]:
  "planned (markInCallback m s q b) = slotCalls (Some (Slot (sl_event s) (sl_canceled s) m)) @ map eventCall (st_pending q)"
  "slotOf (markInCallback m s q b) = Some (Slot (sl_event s) (sl_canceled s) m)"
  "failedEvents (markInCallback m s q b) = st_failed q"
  "queued (markInCallback m s q b) = valuesOf [sl_event s] @ valuesOf (st_pending q)"
  by (simp_all add: markInCallback_def views st_calls_def st_values_def) (metis valuesOf_pushed)

lemma frame_mark [simp]:
  "si_calls (markInCallback m s q b) = si_calls b" "si_onCompletedCalled (markInCallback m s q b) = si_onCompletedCalled b"
  "si_completedScheduled (markInCallback m s q b) = si_completedScheduled b"
  "si_disposing (markInCallback m s q b) = si_disposing b" "si_pushed (markInCallback m s q b) = si_pushed b"
  "si_consumed (markInCallback m s q b) = si_consumed b" "si_dropped (markInCallback m s q b) = si_dropped b"
  "si_threw (markInCallback m s q b) = si_threw b"
  by (simp_all add: markInCallback_def)

lemma core_mark:
  assumes "core_inv c b" "si_eventsQueue b = Some q" "st_executing q = Some s" "\<not> sl_canceled s" "\<not> sl_inCallback s"
    and cs: "cs = (if sl_event s = EvComplete \<and> si_onCompletedCalled b then si_calls b else si_calls b @ [eventCall (sl_event s)])"
    and oc: "oc \<longleftrightarrow> sl_event s = EvComplete \<or> si_onCompletedCalled b"
  shows "core_inv c ((markInCallback True s q b)\<lparr>si_calls := cs, si_onCompletedCalled := oc\<rparr>)" (is "core_inv c ?b")
proof -
  note v = executing_views [OF assms(2,3)]
  let ?p = "map eventCall (st_pending q)"
  have p: "planned b = eventCall (sl_event s) # ?p"
    using assms(4,5) by (cases s; cases "sl_event s") (simp_all add: v(1))
  have pi: "protocol_inv c b" using assms(1) by (simp add: core_inv_def)
  have "protocol_inv c ?b"
  proof (cases "sl_event s")
    case (EvNext w)
    then have "si_calls ?b @ planned ?b = si_calls b @ OnNext w # OnNext w # ?p"
      using assms(4) by (simp add: cs slotCalls_def)
    moreover have "sorted_wrt (mayFollow (fl_late c)) (si_calls b @ OnNext w # OnNext w # ?p)"
      using pi EvNext by (intro sorted_wrt_double) (simp_all add: protocol_inv_def p)
    ultimately show ?thesis using pi EvNext unfolding protocol_inv_def p
      by (auto simp: cs oc)
  next
    case (EvError e)
    then have "si_calls ?b @ planned ?b = si_calls b @ planned b"
      using assms(4) by (simp add: cs p slotCalls_def)
    then show ?thesis using pi EvError unfolding protocol_inv_def p by (auto simp: cs oc)
  next
    case EvComplete
    have "subseq (si_calls ?b @ planned ?b) (si_calls b @ planned b)"
      using assms(4) EvComplete by (simp add: cs p slotCalls_def subseq_append' list_emb_Cons)
    moreover have "count_list cs OnCompleted \<le> 1"
      using pi EvComplete by (auto simp: cs protocol_inv_def)
    ultimately show ?thesis using pi EvComplete assms(4) unfolding protocol_inv_def p
      by (auto simp: cs oc slotCalls_def intro: sorted_wrt_subseq)
  qed
  moreover have "flags_inv c ?b" "values_inv c ?b"
    using assms(1) v(2) by (simp_all add: core_inv_def flags_inv_def values_inv_def)
  ultimately show ?thesis by (simp add: core_inv_def)
qed


lemma core_refuse:
  assumes "core_inv c b" "si_eventsQueue b = Some q" "st_executing q = Some s" "sl_event s = EvNext v"
  shows "core_inv c (markInCallback False s q b)"
  by (rule core_discard [OF assms(1)])
    (use executing_views [OF assms(2,3)] assms(4) in \<open>auto simp: slotCalls_def\<close>)

text \<open>The shapes the two ends of a callback can take.\<close>

lemma callBegin_cases:
  assumes "callBegin b = Some b'"
  obtains (Dropped) q s v where "si_eventsQueue b = Some q" "st_executing q = Some s" "sl_event s = EvNext v"
      "sl_canceled s" "\<not> sl_inCallback s"
      "b' = (completeEvent None q b)\<lparr>si_consumed := si_consumed b @ [], si_dropped := si_dropped b @ [v], si_threw := si_threw b\<rparr>"
  | (Failed) q s where "si_eventsQueue b = Some q" "st_executing q = Some s" "valuesOf [sl_event s] = []"
      "\<forall>v. sl_event s \<noteq> EvNext v" "sl_canceled s" "\<not> sl_inCallback s"
      "b' = (completeEvent (Some ObCanceled) q b)\<lparr>si_consumed := si_consumed b @ [], si_dropped := si_dropped b @ [], si_threw := si_threw b\<rparr>"
  | (Called) q s where "si_eventsQueue b = Some q" "st_executing q = Some s" "\<not> sl_canceled s" "\<not> sl_inCallback s"
      "b' = (markInCallback True s q b)\<lparr>
         si_calls := (if sl_event s = EvComplete \<and> si_onCompletedCalled b then si_calls b else si_calls b @ [eventCall (sl_event s)]),
         si_onCompletedCalled := (sl_event s = EvComplete \<or> si_onCompletedCalled b)\<rparr>"
proof -
  from assms obtain q s where q: "si_eventsQueue b = Some q" "st_executing q = Some s" "\<not> sl_inCallback s"
    by (auto simp: callBegin_def split: option.splits if_splits)
  show thesis
  proof (cases "sl_event s")
    case (EvNext v)
    show thesis
    proof (cases "sl_canceled s")
      case True
      with assms q EvNext show thesis by (intro Dropped [of q s v]) (auto simp: callBegin_def)
    next
      case False
      with assms q EvNext show thesis by (intro Called [of q s]) (auto simp: callBegin_def markInCallback_def)
    qed
  next
    case (EvError x)
    show thesis
    proof (cases "sl_canceled s")
      case True
      with assms q EvError show thesis by (intro Failed [of q s]) (auto simp: callBegin_def completeEvent_def)
    next
      case False
      with assms q EvError show thesis by (intro Called [of q s]) (auto simp: callBegin_def markInCallback_def)
    qed
  next
    case EvComplete
    show thesis
    proof (cases "sl_canceled s")
      case True
      with assms q EvComplete show thesis by (intro Failed [of q s]) (auto simp: callBegin_def completeEvent_def)
    next
      case False
      with assms q EvComplete show thesis by (intro Called [of q s]) (auto simp: callBegin_def markInCallback_def)
    qed
  qed
qed

lemma callEnd_cases:
  assumes "callEnd r b = Some b'"
  obtains (Completed) q s x cs t where "si_eventsQueue b = Some q" "st_executing q = Some s" "valuesOf [sl_event s] = cs"
      "sl_inCallback s" "x \<noteq> None \<longrightarrow> t" "si_threw b \<longrightarrow> t"
      "b' = (completeEvent x q b)\<lparr>si_consumed := si_consumed b @ cs, si_dropped := si_dropped b @ [], si_threw := t\<rparr>"
  | (Refused) q s v where "si_eventsQueue b = Some q" "st_executing q = Some s" "sl_event s = EvNext v" "r = CbRefuse"
      "sl_inCallback s" "b' = markInCallback False s q b"
proof -
  from assms obtain q s where q: "si_eventsQueue b = Some q" "st_executing q = Some s" "sl_inCallback s"
    by (auto simp: callEnd_def split: option.splits if_splits)
  show thesis
  proof (cases "sl_event s")
    case (EvNext v)
    show thesis
    proof (cases r)
      case CbAccept
      with assms q EvNext show thesis
        by (intro Completed [of q s "[v]" None "si_threw b"]) (auto simp: callEnd_def completeEvent_def)
    next
      case CbRefuse
      with assms q EvNext show thesis by (intro Refused [of q s v]) (auto simp: callEnd_def)
    next
      case (CbThrow x)
      with assms q EvNext show thesis
        by (intro Completed [of q s "[v]" "Some x" True]) (auto simp: callEnd_def completeEvent_def)
    qed
  qed (use assms q in \<open>auto simp: callEnd_def completeEvent_def intro!: Completed [of q s "[]" None "si_threw b"]\<close>)
qed

lemma core_callBegin:
  assumes "core_inv c b" "callBegin b = Some b'"
  shows "core_inv c b'"
  using assms(2)
proof (cases rule: callBegin_cases)
  case (Dropped q s v)
  then have "valuesOf [sl_event s] = [] @ [v]" by simp
  with Dropped show ?thesis by (simp only: core_complete [OF assms(1)])
next
  case (Failed q s)
  then have "valuesOf [sl_event s] = [] @ []" by simp
  with Failed show ?thesis by (simp only: core_complete [OF assms(1)])
next
  case (Called q s)
  then show ?thesis by (simp only:) (rule core_mark [OF assms(1)]; simp)
qed

lemma core_callEnd:
  assumes "core_inv c b" "callEnd r b = Some b'"
  shows "core_inv c b'"
  using assms(2)
proof (cases rule: callEnd_cases)
  case (Completed q s x cs t)
  then have "valuesOf [sl_event s] = cs @ []" by simp
  with Completed show ?thesis by (simp only: core_complete [OF assms(1)])
next
  case (Refused q s v)
  then show ?thesis by (simp only:) (rule core_refuse [OF assms(1)]; simp)
qed

end
