(* ===== verification/ObservableOps.thy ===== *)
theory ObservableOps
  imports ObservableInvariant
begin

text \<open>
  The whole invariant of a subscription under the operations of the observable on one subscription:
  pushing, flushing, popping a failed event, disposing its queue, and the callbacks.
\<close>

lemma excused_simps [simp]:
  "excused (b\<lparr>si_eventsQueue := q\<rparr>) = excused b" "excused (b\<lparr>si_consumed := cs\<rparr>) = excused b"
  "excused (b\<lparr>si_dropped := ds\<rparr>) = excused b" "excused (b\<lparr>si_calls := l\<rparr>) = excused b"
  "excused (b\<lparr>si_onCompletedCalled := oc\<rparr>) = excused b" "excused (completeEvent x q' b) = excused b"
  "excused (markInCallback m s q' b) = excused b" "excused (flushEvents b) = excused b"
  "excused (b\<lparr>si_threw := t\<rparr>) \<longleftrightarrow> si_disposing b \<or> t"
  by (auto simp: excused_def flushEvents_def split: option.splits)

lemma sub_excused: "core_inv c b \<Longrightarrow> fl_waiting c \<or> excused b \<Longrightarrow> sub_inv c b"
  by (auto simp: sub_inv_core loss_inv_def)

lemma sub_init:
  assumes "sub_inv c b" "chk2InitExecutionQueue a b = (e, b')"
  shows "sub_inv c b'" "e = None \<longrightarrow> si_eventsQueue b' \<noteq> None" "si_completedScheduled b' = si_completedScheduled b"
    "si_disposing b' = si_disposing b" "si_calls b' @ planned b' = si_calls b @ planned b" "queued b' = queued b"
    "excused b' = excused b"
proof -
  have b': "b' = b \<or> si_eventsQueue b = None \<and> b' = b\<lparr>si_eventsQueue := Some new_strand\<rparr>"
    using assms(2) by (auto simp: chk2InitExecutionQueue_def split: option.splits if_splits)
  then have "loss_inv c b'" using assms(1) by (auto simp: sub_inv_core loss_inv_def views)
  with core_init [OF _ assms(2)] assms(1) show "sub_inv c b'" by (auto simp: sub_inv_core)
  show "e = None \<longrightarrow> si_eventsQueue b' \<noteq> None"
    using assms(2) by (auto simp: chk2InitExecutionQueue_def split: option.splits if_splits)
qed (use assms(2) in \<open>auto simp: chk2InitExecutionQueue_def views split: option.splits if_splits\<close>)

lemma sub_pushed:
  assumes "sub_inv c b" "si_eventsQueue b \<noteq> None"
    and "\<forall>d \<in> set (si_calls b @ planned b). mayFollow (fl_late c) d (eventCall e)"
    and "\<And>x. e = EvError x \<Longrightarrow> fl_erred c" "e = EvComplete \<Longrightarrow> cs"
    and "si_completedScheduled b \<longrightarrow> cs" "cs \<longrightarrow> fl_completed c \<or> fl_stop c"
    and "fl_limit c \<noteq> 0 \<longrightarrow> length (queued b) + length (valuesOf [e]) \<le> fl_limit c"
    and "cs \<longrightarrow> si_completedScheduled b \<or> e = EvComplete"
  shows "sub_inv c ((pushEvent e b)\<lparr>si_completedScheduled := cs\<rparr>)"
proof -
  have "si_disposing b \<longrightarrow> fl_stop c \<and> cs"
    using assms(1,6) by (auto simp: sub_inv_def flags_inv_def)
  then have core: "core_inv c ((pushEvent e b)\<lparr>si_completedScheduled := cs, si_disposing := si_disposing b\<rparr>)"
    using assms(1) by (intro core_pushed assms) (auto simp: sub_inv_core)
  have eq: "(pushEvent e b)\<lparr>si_completedScheduled := cs, si_disposing := si_disposing b\<rparr>
      = (pushEvent e b)\<lparr>si_completedScheduled := cs\<rparr>" (is "_ = ?b")
    by (simp add: pushEvent_def)
  obtain q where q: "si_eventsQueue b = Some q" using assms(2) by auto
  have v: "planned ?b = planned b @ [eventCall e]" "failedEvents ?b = failedEvents b"
    "slotOf ?b = slotOf b \<or> (\<exists>d. slotOf ?b = Some (Slot d False False))"
    using q st_push_executing [of e q] by (simp_all add: pushEvent_def views)
  have "loss_inv c ?b"
    using assms(1,6,9) v by (auto simp: sub_inv_core loss_inv_def pushEvent_def excused_def)
  with core show ?thesis by (simp add: sub_inv_core eq)
qed

lemma sub_flush:
  assumes "sub_inv c b" "fl_waiting c \<or> excused b"
  shows "sub_inv c (flushEvents b)"
  using assms by (intro sub_excused) (auto simp: sub_inv_core intro: core_flush)


lemma values_size: "length (st_values q) \<le> st_size q"
proof -
  have "length (valuesOf es) \<le> length es" for es :: "'a event list"
    by (induction es rule: valuesOf.induct) simp_all
  from this [of "(case st_executing q of None \<Rightarrow> [] | Some s \<Rightarrow> [sl_event s]) @ st_pending q"] show ?thesis
    by (simp add: st_values_def st_size_def split: option.splits)
qed

lemma only_values:
  assumes "core_inv c b" "\<not> fl_erred c" "\<not> si_completedScheduled b" "d \<in> set (si_calls b @ planned b)"
  shows "\<exists>v. d = OnNext v"
  using assms by (cases d) (auto simp: core_inv_def protocol_inv_def)

lemma pushEvent_keep: "(pushEvent e b)\<lparr>si_completedScheduled := si_completedScheduled b\<rparr> = pushEvent e b"
  by (cases b) (simp add: pushEvent_def)

lemma sub_pushNext:
  assumes "sub_inv c b" "pushNext v a b = (e, b')"
    and "\<not> fl_erred c" "\<not> fl_completed c" "fl_late c \<or> \<not> fl_stop c"
    and "\<not> rejects m b" "fl_limit c \<noteq> 0 \<longrightarrow> 0 < m \<and> m \<le> fl_limit c"
  shows "sub_inv c b'"
proof -
  obtain e1 b1 where b1: "chk2InitExecutionQueue a b = (e1, b1)" by force
  note i = sub_init [OF assms(1) b1]
  show ?thesis
  proof (cases "e1 = None \<and> a \<noteq> NoTask")
    case False
    with assms(2) b1 have "b' = b1" by (auto simp: pushNext_def split: option.splits)
    with i(1) show ?thesis by simp
  next
    case True
    with assms(2) b1 have b': "b' = (pushEvent (EvNext v) b1)\<lparr>si_completedScheduled := si_completedScheduled b1\<rparr>"
      by (auto simp: pushNext_def pushEvent_keep)
    have "length (queued b) + 1 \<le> fl_limit c" if "fl_limit c \<noteq> 0"
    proof (cases "si_eventsQueue b")
      case None
      with that show ?thesis by (simp add: queued_def)
    next
      case (Some q)
      with assms(6,7) that have "st_size q < fl_limit c" by (auto simp: rejects_def)
      with values_size [of q] Some show ?thesis by (simp add: queued_def)
    qed
    moreover have "mayFollow (fl_late c) d (OnNext v)" if "d \<in> set (si_calls b @ planned b)" for d
    proof (cases d)
      case (OnError x)
      with that assms(1,3) show ?thesis unfolding sub_inv_def protocol_inv_def by blast
    next
      case OnCompleted
      with that assms(1,4,5) have "fl_late c" unfolding sub_inv_def protocol_inv_def flags_inv_def by blast
      with OnCompleted show ?thesis by simp
    qed simp
    ultimately show ?thesis unfolding b'
      using i True assms(1,4) by (intro sub_pushed) (auto simp: sub_inv_def flags_inv_def)
  qed
qed

lemma sub_pushComplete:
  assumes "sub_inv c b" "pushComplete a b = (e, b')" "fl_completed c"
  shows "sub_inv c b'"
proof -
  obtain e1 b1 where b1: "chk2InitExecutionQueue a b = (e1, b1)" by force
  note i = sub_init [OF assms(1) b1]
  show ?thesis
  proof (cases "e1 = None \<and> a \<noteq> NoTask")
    case False
    with assms(2) b1 have "b' = b1" by (auto simp: pushComplete_def split: option.splits)
    with i(1) show ?thesis by simp
  next
    case True
    with assms(2) b1 have b': "b' = (pushEvent EvComplete b1)\<lparr>si_completedScheduled := True\<rparr>"
      by (auto simp: pushComplete_def)
    show ?thesis unfolding b' using i True assms(1,3)
      by (intro sub_pushed) (auto simp: sub_inv_def values_inv_def)
  qed
qed

lemma flush_views:
  assumes "si_eventsQueue b = Some q"
  shows "planned (flushEvents b) = []" "failedEvents (flushEvents b) = []" "length (queued (flushEvents b)) \<le> length (queued b)"
    "slotOf (flushEvents b) = map_option (\<lambda>s. Slot (sl_event s) True (sl_inCallback s)) (slotOf b)"
    "si_eventsQueue (flushEvents b) \<noteq> None" "si_completedScheduled (flushEvents b) = si_completedScheduled b"
    "si_calls (flushEvents b) = si_calls b" "si_disposing (flushEvents b) = si_disposing b"
  using assms by (simp_all add: flushEvents_def views st_values_def split: option.splits)

lemma sub_flush_erred:
  assumes "sub_inv c b" "\<not> fl_erred c" "\<not> si_completedScheduled b" "si_eventsQueue b \<noteq> None"
    "flags_le c d" "fl_erred d"
  shows "sub_inv d (flushEvents b)"
proof -
  obtain q where q: "si_eventsQueue b = Some q" using assms(4) by auto
  have core: "core_inv c b" using assms(1) by (simp add: sub_inv_core)
  have "\<exists>v. sl_event s = EvNext v" if s: "slotOf b = Some s" "\<not> (fl_waiting c \<or> excused b)" for s
  proof (cases "sl_canceled s")
    case True
    with assms(1) s show ?thesis by (auto simp: sub_inv_core loss_inv_def)
  next
    case False
    have "eventCall (sl_event s) \<in> set (si_calls b @ planned b)"
    proof (cases "sl_inCallback s")
      case True
      with core s(1) show ?thesis by (auto simp: core_inv_def protocol_inv_def)
    next
      case nc: False
      with False s(1) q show ?thesis
        by (cases "sl_event s") (auto simp: slotOf_def planned_def st_calls_def slotCalls_def)
    qed
    from only_values [OF core assms(2,3) this] show ?thesis by (cases "sl_event s") auto
  qed
  then have "loss_inv d (flushEvents b)"
    using assms(3,5,6) flush_views [OF q] by (auto simp: loss_inv_def flags_le_def)
  with core_mono [OF core_flush [OF core] assms(5)] show ?thesis by (simp add: sub_inv_core)
qed

lemma sub_pushError:
  assumes "sub_inv c b" "pushError x a b = (e, b')" "\<not> fl_erred c" "flags_le c d" "fl_erred d"
  shows "sub_inv d b'"
proof (cases "si_completedScheduled b")
  case True
  with assms show ?thesis by (auto simp: pushError_def intro: inv_mono)
next
  case False
  obtain e1 b1 where b1: "chk2InitExecutionQueue a b = (e1, b1)" by force
  note i = sub_init [OF assms(1) b1]
  show ?thesis
  proof (cases e1)
    case (Some y)
    with assms(2) b1 False have "b' = b1" by (simp add: pushError_def)
    with inv_mono [OF i(1) assms(4)] show ?thesis by simp
  next
    case None
    then obtain q where q: "si_eventsQueue b1 = Some q" using i(2) by auto
    have fl: "sub_inv d (flushEvents b1)"
      by (rule sub_flush_erred [OF i(1) assms(3) _ _ assms(4,5)]) (use False i q in simp_all)
    show ?thesis
    proof (cases "a = NoTask")
      case True
      with assms(2) b1 False None have "b' = flushEvents b1" by (simp add: pushError_def)
      with fl show ?thesis by simp
    next
      case nt: False
      have b': "b' = (pushEvent (EvError x) (flushEvents b1))\<lparr>si_completedScheduled := si_completedScheduled (flushEvents b1)\<rparr>"
        unfolding pushEvent_keep using assms(2) b1 False None nt by (simp add: pushError_def Let_def)
      have nx: "\<exists>v. d = OnNext v" if "d \<in> set (si_calls b1 @ planned b1)" for d
        using only_values [of c b1 d] i(1,3) that False assms(3) by (simp add: sub_inv_core)
      show ?thesis unfolding b'
        using flush_views [OF q] i(3) False assms(5) nx fl
        by (intro sub_pushed [OF fl]) (auto simp: sub_inv_def values_inv_def)
    qed
  qed
qed


section \<open>Failed events, disposal and callbacks\<close>

lemma sub_popFailed:
  assumes "sub_inv c b" "popFailed b = (e, b')"
  shows "sub_inv c b'" "e \<noteq> None \<longrightarrow> fl_waiting c \<or> excused b'" "e = None \<longrightarrow> b' = b"
proof -
  have "b' = b \<and> e = None \<or> (\<exists>q x es. e = Some x \<and> si_eventsQueue b = Some q \<and> st_failed q = x # es
      \<and> b' = b\<lparr>si_eventsQueue := Some (q\<lparr>st_failed := es\<rparr>)\<rparr>)"
    using assms(2) by (auto simp: popFailed_def split: option.splits list.splits)
  moreover have "fl_waiting c \<or> excused b" if "si_eventsQueue b = Some q" "st_failed q \<noteq> []" for q
    using that assms(1) by (auto simp: sub_inv_core loss_inv_def failedEvents_def)
  ultimately show x: "e \<noteq> None \<longrightarrow> fl_waiting c \<or> excused b'" "e = None \<longrightarrow> b' = b" by auto
  show "sub_inv c b'"
  proof (cases e)
    case None
    with x assms(1) show ?thesis by simp
  next
    case (Some y)
    then show ?thesis using assms(1) x core_popFailed [OF _ assms(2)] by (intro sub_excused) (auto simp: sub_inv_core)
  qed
qed

lemma sub_dispose:
  assumes "sub_inv c b" "chk2DisposeExecutionQueue b = (gone, b')" "flags_le c d" "fl_waiting d \<or> excused b"
  shows "sub_inv d b'" "excused b' = excused b" "gone \<longleftrightarrow> si_eventsQueue b' = None"
proof -
  have b': "b' = b \<and> gone \<or> queueIsEmpty (flushEvents b) \<and> b' = (flushEvents b)\<lparr>si_eventsQueue := None\<rparr> \<and> gone
      \<or> b' = flushEvents b \<and> \<not> gone"
    using assms(2) by (auto simp: chk2DisposeExecutionQueue_def Let_def split: option.splits if_splits)
  then have ex: "excused b' = excused b" by auto
  have "core_inv d b" using assms(1,3) by (auto simp: sub_inv_core intro: core_mono)
  then have "core_inv d b'" using b' by (auto intro: core_flush core_reset)
  with assms(4) ex show "sub_inv d b'" by (intro sub_excused) auto
  show "excused b' = excused b" by (rule ex)
  show "gone \<longleftrightarrow> si_eventsQueue b' = None" using assms(2)
    by (auto simp: chk2DisposeExecutionQueue_def flushEvents_def Let_def split: option.splits if_splits)
qed

lemma sub_tryFlush:
  assumes "sub_inv c b" "tryFlushQueue a fl b = Inr (fl', b')" "fl_stop c"
  shows "sub_inv c b'"
proof (cases "si_eventsQueue b")
  case None
  with assms(1,2) show ?thesis by (simp add: tryFlushQueue_def)
next
  case (Some q)
  let ?f = "(pushEvent EvComplete (flushEvents b))\<lparr>si_completedScheduled := True, si_disposing := True\<rparr>"
  obtain b1 where b1: "b1 = (if si_disposing b then b else ?f)"
    and b': "b' = b1 \<or> queueIsEmpty b1 \<and> b' = b1\<lparr>si_eventsQueue := None\<rparr>"
    using assms(2) Some by (auto simp: tryFlushQueue_def bindR_eq_Inr Let_def split: if_splits)
  have fv: "core_inv c (flushEvents b)" using core_flush assms(1) by (auto simp: sub_inv_core)
  have "core_inv c ?f"
    by (rule core_pushed [OF fv]) (use fv assms(3) flush_views(5) [OF Some] in \<open>auto simp: core_inv_def values_inv_def\<close>)
  then have "core_inv c b1" using assms(1) b1 by (auto simp: sub_inv_core)
  then have "core_inv c b'" using b' by (auto intro: core_reset)
  moreover have "excused b'" using b' b1 by (auto simp: excused_def)
  ultimately show ?thesis by (intro sub_excused) auto
qed

lemma sub_callBegin:
  assumes "sub_inv c b" "callBegin b = Some b'"
  shows "sub_inv c b'"
proof -
  have core: "core_inv c b'" using core_callBegin [OF _ assms(2)] assms(1) by (simp add: sub_inv_core)
  have L: "loss_inv c b" using assms(1) by (simp add: sub_inv_core)
  have "loss_inv c b'"
    using assms(2)
  proof (cases rule: callBegin_cases)
    case (Dropped q s v)
    note v = executing_views [OF Dropped(1,2)]
    show ?thesis using L v Dropped(3-6)
      by (auto simp: loss_inv_def slotCalls_def dest: complete_slot) (auto simp: excused_def)
  next
    case (Failed q s)
    with L executing_views [OF Failed(1,2)] have "fl_waiting c \<or> excused b" by (auto simp: loss_inv_def)
    with Failed(7) show ?thesis by (auto simp: loss_inv_def excused_def)
  next
    case (Called q s)
    note v = executing_views [OF Called(1,2)]
    show ?thesis using L v Called(3-5)
      by (cases "sl_event s") (auto simp: loss_inv_def slotCalls_def excused_def)
  qed
  with core show ?thesis by (simp add: sub_inv_core)
qed

lemma sub_callEnd:
  assumes "sub_inv c b" "callEnd r b = Some b'"
  shows "sub_inv c b'"
proof -
  have core: "core_inv c b'" using core_callEnd [OF _ assms(2)] assms(1) by (simp add: sub_inv_core)
  have L: "loss_inv c b" and C: "protocol_inv c b" using assms(1) by (auto simp: sub_inv_core core_inv_def)
  have "loss_inv c b'"
    using assms(2)
  proof (cases rule: callEnd_cases)
    case (Completed q s x cs t)
    note v = executing_views [OF Completed(1,2)]
    show ?thesis
    proof (cases "fl_waiting c \<or> excused b \<or> t")
      case True
      with Completed(5-7) show ?thesis by (auto simp: loss_inv_def excused_def)
    next
      case False
      with Completed(5) have "x = None" by auto
      with False L v C Completed(4-7) show ?thesis
        by (cases "sl_event s") (auto simp: loss_inv_def slotCalls_def protocol_inv_def split: if_splits dest: complete_slot)
    qed
  next
    case (Refused q s v)
    with L executing_views [OF Refused(1,2)] show ?thesis by (auto simp: loss_inv_def slotCalls_def excused_def)
  qed
  with core show ?thesis by (simp add: sub_inv_core)
qed

end
