(* ===== verification/ObservableReach.thy ===== *)
theory ObservableReach
  imports ObservableOps
begin

text \<open>The invariant of the whole observable, kept by every action.\<close>

section \<open>The invariant\<close>

definition flagsOf :: "bool \<Rightarrow> nat \<Rightarrow> 'v observable \<Rightarrow> bool \<Rightarrow> flags" where
  "flagsOf stops limit x waiting = \<lparr>fl_late = (\<not> stops), fl_limit = limit, fl_erred = ob_notifyCompleteOnError x,
     fl_stop = ob_stopRequested x, fl_completed = ob_completed x, fl_waiting = waiting\<rparr>"

definition subs_inv :: "bool \<Rightarrow> nat \<Rightarrow> 'v observable \<Rightarrow> 'v subscriptions \<Rightarrow> bool" where
  "subs_inv stops limit x subs \<longleftrightarrow> (\<forall>i b. (i, b) \<in> set subs \<longrightarrow> sub_inv (flagsOf stops limit x (ob_waiting x = Some i)) b)"

definition ids_inv :: "'v observable \<Rightarrow> bool" where
  "ids_inv x \<longleftrightarrow> distinct (map fst (ob_subscriptions x) @ map fst (ob_gone x))
     \<and> list_all (\<lambda>i. i < ob_nextId x) (map fst (ob_subscriptions x) @ map fst (ob_gone x))"

definition ob_inv :: "bool \<Rightarrow> nat \<Rightarrow> 'v observable \<Rightarrow> bool" where
  "ob_inv stops limit x \<longleftrightarrow> subs_inv stops limit x (ob_subscriptions x)
     \<and> (\<forall>i b. (i, b) \<in> set (ob_gone x) \<longrightarrow> sub_inv (flagsOf stops limit x True) b)
     \<and> ids_inv x \<and> (ob_notifyCompleteOnError x \<longrightarrow> ob_stopRequested x)
     \<and> (limit \<noteq> 0 \<longrightarrow> 0 < ob_maxPendingEvents x \<and> ob_maxPendingEvents x \<le> limit)"

text \<open>Operations that touch the subscriptions only.\<close>

definition same :: "'v observable \<Rightarrow> 'v observable \<Rightarrow> bool" where
  "same x y \<longleftrightarrow> (\<exists>subs gone. y = x\<lparr>ob_subscriptions := subs, ob_gone := gone\<rparr>)"

lemma same_refl [simp]: "same x x"
  unfolding same_def by (rule exI [of _ "ob_subscriptions x"], rule exI [of _ "ob_gone x"]) simp

lemma same_trans: "same x y \<Longrightarrow> same y z \<Longrightarrow> same x z"
  by (auto simp: same_def) blast

lemma same_subs [simp]: "same x (x\<lparr>ob_subscriptions := subs\<rparr>)"
  unfolding same_def by (rule exI [of _ subs], rule exI [of _ "ob_gone x"]) simp

lemma same_frame:
  assumes "same x y"
  shows "flagsOf s l y w = flagsOf s l x w" "ob_waiting y = ob_waiting x" "ob_nextId y = ob_nextId x"
    "ob_maxPendingEvents y = ob_maxPendingEvents x" "ob_completed y = ob_completed x"
    "ob_notifyCompleteOnError y = ob_notifyCompleteOnError x" "ob_stopRequested y = ob_stopRequested x"
    "ob_exception y = ob_exception x" "ob_state y = ob_state x" "ob_ignoreSubscribersFailures y = ob_ignoreSubscribersFailures x"
    "ob_dispatchedException y = ob_dispatchedException x" "ob_disposed y = ob_disposed x"
    "ob_allowNoSubscribers y = ob_allowNoSubscribers x"
  using assms by (auto simp: same_def flagsOf_def)

section \<open>Loops over the subscriptions\<close>

lemma tryForEach_map: "snd (tryForEachSubscription f subs) = map (\<lambda>(i, b). (i, snd (f i b))) subs"
proof (induction subs)
  case (Cons p subs)
  then show ?case by (cases p) (simp add: case_prod_unfold Let_def)
qed simp

lemma map_ids: "map fst (map (\<lambda>(i, b). (i, f i b)) subs) = map fst subs"
  by (induction subs) auto

lemma inv_each:
  assumes "ob_inv s l x"
    and "\<And>i b w. (i, b) \<in> set (ob_subscriptions x) \<Longrightarrow> sub_inv (flagsOf s l x (ob_waiting x = Some i)) b \<Longrightarrow>
      sub_inv (flagsOf s l y (ob_waiting y = Some i)) (f i b)"
    and "ob_subscriptions y = map (\<lambda>(i, b). (i, f i b)) (ob_subscriptions x)" "ob_gone y = ob_gone x" "ob_nextId y = ob_nextId x"
    and "flags_le (flagsOf s l x True) (flagsOf s l y True)" "ob_notifyCompleteOnError y \<longrightarrow> ob_stopRequested y"
    and "ob_maxPendingEvents y = ob_maxPendingEvents x"
  shows "ob_inv s l y"
  unfolding ob_inv_def
proof (intro conjI)
  show "subs_inv s l y (ob_subscriptions y)"
    using assms(1-3) by (auto simp: ob_inv_def subs_inv_def)
  show "\<forall>i b. (i, b) \<in> set (ob_gone y) \<longrightarrow> sub_inv (flagsOf s l y True) b"
    using assms(1,4,6) by (auto simp: ob_inv_def intro: inv_mono)
  show "ids_inv y" using assms(1) unfolding ob_inv_def ids_inv_def assms(3-5) map_ids by blast
qed (use assms(1,7,8) in \<open>auto simp: ob_inv_def\<close>)

text \<open>A change of the subscriptions one by one, nothing else.\<close>

lemma inv_update:
  assumes "ob_inv s l x"
    and "\<And>i b. (i, b) \<in> set (ob_subscriptions x) \<Longrightarrow> sub_inv (flagsOf s l x (ob_waiting x = Some i)) b \<Longrightarrow>
      sub_inv (flagsOf s l x (ob_waiting x = Some i)) (f i b)"
  shows "ob_inv s l (x\<lparr>ob_subscriptions := map (\<lambda>(i, b). (i, f i b)) (ob_subscriptions x)\<rparr>)"
  by (rule inv_each [OF assms(1), where f = f])
    (use assms in \<open>auto simp: flagsOf_def flags_le_def ob_inv_def\<close>)

lemma lookup:
  assumes "ids_inv x"
  shows "map_of (ob_subscriptions x) i = Some b \<longleftrightarrow> (i, b) \<in> set (ob_subscriptions x)"
  using assms by (intro map_of_eq_Some_iff) (simp add: ids_inv_def)

lemma updateSubscription_map:
  "updateSubscription i b subs = map (\<lambda>(j, c). (j, if j = i then b else c)) subs"
  by (auto simp: updateSubscription_def)

section \<open>Unsubscribing\<close>

lemma inv_erase:
  assumes "ob_inv s l x" "(i, b) \<in> set (ob_subscriptions x)" "sub_inv (flagsOf s l x True) b'"
  shows "ob_inv s l (eraseSubscription i b' x)"
proof -
  have ids: "ids_inv x" using assms(1) by (simp add: ob_inv_def)
  have "distinct (map fst (filter (\<lambda>(j, c). j \<noteq> i) (ob_subscriptions x)) @ map fst (ob_gone x) @ [i])"
    using ids assms(2) by (auto simp: ids_inv_def distinct_map inj_on_def) (metis Int_iff emptyE fst_conv image_eqI)+
  moreover have "list_all (\<lambda>i. i < ob_nextId x) (map fst (filter (\<lambda>(j, c). j \<noteq> i) (ob_subscriptions x)) @ map fst (ob_gone x) @ [i])"
  proof -
    have "i \<in> set (map fst (ob_subscriptions x))" using assms(2) by force
    then show ?thesis using ids by (auto simp: ids_inv_def list_all_iff)
  qed
  ultimately have "ids_inv (eraseSubscription i b' x)" by (simp add: ids_inv_def eraseSubscription_def)
  with assms show ?thesis by (auto simp: ob_inv_def eraseSubscription_def subs_inv_def flagsOf_def)
qed

lemma flags_waiting: "flags_le (flagsOf s l x w) (flagsOf s l x True)"
  by (simp add: flags_le_def flagsOf_def)

lemma unsubscribe_ok:
  assumes "ob_inv s l x" "ob_waiting x = None"
    and "\<And>b. (i, b) \<in> set (ob_subscriptions x) \<Longrightarrow> excused b"
    and "unsubscribeInternal i x = (gone, y)"
  shows "ob_inv s l y" "same x y"
    "\<And>j b'. (j, b') \<in> set (ob_subscriptions y) \<Longrightarrow> \<exists>b. (j, b) \<in> set (ob_subscriptions x) \<and> excused b' = excused b"
proof -
  have ids: "ids_inv x" using assms(1) by (simp add: ob_inv_def)
  have "ob_inv s l y \<and> same x y \<and>
    (\<forall>j b'. (j, b') \<in> set (ob_subscriptions y) \<longrightarrow> (\<exists>b. (j, b) \<in> set (ob_subscriptions x) \<and> excused b' = excused b))"
  proof (cases "map_of (ob_subscriptions x) i")
    case None
    with assms(1,4) show ?thesis by (auto simp: unsubscribeInternal_def)
  next
    case (Some b)
    then have b: "(i, b) \<in> set (ob_subscriptions x)" using lookup [OF ids] by simp
    obtain g b' where d: "chk2DisposeExecutionQueue b = (g, b')" by force
    have sb: "sub_inv (flagsOf s l x False) b"
      using assms(1,2) b by (auto simp: ob_inv_def subs_inv_def)
    have ex: "excused b" by (rule assms(3) [OF b])
    have fl: "flags_le (flagsOf s l x False) (flagsOf s l x w)" for w by (simp add: flags_le_def flagsOf_def)
    note D = sub_dispose [OF sb d fl]
    have sb': "sub_inv (flagsOf s l x w) b'" for w by (rule D(1)) (simp add: ex)
    show ?thesis
    proof (cases g)
      case True
      with assms(4) Some d have y: "y = eraseSubscription i b' x" by (simp add: unsubscribeInternal_def)
      with inv_erase [OF assms(1) b sb'] show ?thesis by (auto simp: eraseSubscription_def same_def)
    next
      case False
      with assms(4) Some d have y: "y = x\<lparr>ob_subscriptions := map (\<lambda>(j, c). (j, if j = i then b' else c)) (ob_subscriptions x)\<rparr>"
        by (simp add: unsubscribeInternal_def updateSubscription_map)
      have "ob_inv s l y" unfolding y by (rule inv_update [OF assms(1)]) (use sb' in auto)
      moreover have "excused b' = excused b" using D(2) ex by simp
      ultimately show ?thesis using b by (auto simp: y)
    qed
  qed
  then show "ob_inv s l y" "same x y"
    "\<And>j b'. (j, b') \<in> set (ob_subscriptions y) \<Longrightarrow> \<exists>b. (j, b) \<in> set (ob_subscriptions x) \<and> excused b' = excused b"
    by blast+
qed


section \<open>Failed subscribers\<close>

lemma popAllFailed_eq:
  "popAllFailed subs = (map (\<lambda>(i, b). (i, the (fst (popFailed b)))) (filter (\<lambda>(i, b). fst (popFailed b) \<noteq> None) subs),
     map (\<lambda>(i, b). (i, snd (popFailed b))) subs)"
proof (induction subs)
  case (Cons p subs)
  then show ?case by (cases p) (auto simp: Let_def case_prod_unfold split: option.splits)
qed simp

lemma unsubscribe_all:
  assumes "ob_inv s l x" "ob_waiting x = None" "\<forall>i b. i \<in> set is \<longrightarrow> (i, b) \<in> set (ob_subscriptions x) \<longrightarrow> excused b"
  shows "ob_inv s l (fold (\<lambda>i y. snd (unsubscribeInternal i y)) is x)
    \<and> same x (fold (\<lambda>i y. snd (unsubscribeInternal i y)) is x)"
  using assms
proof (induction "is" arbitrary: x)
  case (Cons i "is")
  obtain g y where y: "unsubscribeInternal i x = (g, y)" by force
  have U: "ob_inv s l y" "same x y"
    "\<And>j b'. (j, b') \<in> set (ob_subscriptions y) \<Longrightarrow> \<exists>b. (j, b) \<in> set (ob_subscriptions x) \<and> excused b' = excused b"
    using unsubscribe_ok [OF Cons.prems(1,2) _ y] Cons.prems(3) by auto
  have "\<forall>j b. j \<in> set is \<longrightarrow> (j, b) \<in> set (ob_subscriptions y) \<longrightarrow> excused b"
    using U(3) Cons.prems(3) by (metis list.set_intros(2))
  from Cons.IH [OF U(1) _ this] same_frame(2) [OF U(2)] Cons.prems(2) y same_trans [OF U(2)] show ?case by simp
qed simp

lemma check_ok:
  assumes "ob_inv s l x" "ob_waiting x = None" "checkSubscribersQueues x = (e, y)"
  shows "ob_inv s l y" "same x y"
proof -
  let ?x = "x\<lparr>ob_subscriptions := map (\<lambda>(i, b). (i, snd (popFailed b))) (ob_subscriptions x)\<rparr>"
  let ?is = "map fst (filter (\<lambda>(i, b). fst (popFailed b) \<noteq> None) (ob_subscriptions x))"
  have y: "y = fold (\<lambda>i y. snd (unsubscribeInternal i y)) ?is ?x"
    using assms(3) by (simp add: checkSubscribersQueues_def popAllFailed_eq comp_def case_prod_unfold Let_def)
  have inv: "ob_inv s l ?x"
    by (rule inv_update [OF assms(1)]) (use sub_popFailed(1) in \<open>metis surjective_pairing\<close>)
  have ids: "distinct (map fst (ob_subscriptions x))" using assms(1) by (simp add: ob_inv_def ids_inv_def)
  have "excused b'" if i: "i \<in> set ?is" and b': "(i, b') \<in> set (ob_subscriptions ?x)" for i b'
  proof -
    obtain b where b: "(i, b) \<in> set (ob_subscriptions x)" "fst (popFailed b) \<noteq> None" using i by auto
    obtain c where c: "(i, c) \<in> set (ob_subscriptions x)" "b' = snd (popFailed c)" using b' by auto
    have "b = c" using ids b(1) c(1) by (metis eq_key_imp_eq_value)
    moreover have "sub_inv (flagsOf s l x False) b" using assms(1,2) b(1) by (auto simp: ob_inv_def subs_inv_def)
    moreover have "\<not> fl_waiting (flagsOf s l x False)" by (simp add: flagsOf_def)
    ultimately show ?thesis using sub_popFailed(2) [OF _ surjective_pairing, of "flagsOf s l x False" b] b(2) c(2)
      by blast
  qed
  then have "\<forall>i b. i \<in> set ?is \<longrightarrow> (i, b) \<in> set (ob_subscriptions ?x) \<longrightarrow> excused b" by blast
  from unsubscribe_all [OF inv _ this] assms(2) y same_trans [of x ?x] show "ob_inv s l y" "same x y" by simp_all
qed

section \<open>Notifications and the event loop\<close>

lemma flags_False: "ob_waiting x = None \<Longrightarrow> flagsOf s l x (ob_waiting x = Some i) = flagsOf s l x False"
  by simp

lemma notifyOnNext_ok:
  assumes "ob_inv s l x" "ob_waiting x = None" "\<not> ob_completed x" "\<not> ob_notifyCompleteOnError x" "s \<longrightarrow> \<not> ob_stopRequested x"
    and "notifyOnNext a v x = (r, y)"
  shows "ob_inv s l y \<and> same x y"
proof (cases "\<not> ob_allowNoSubscribers x \<and> ob_subscriptions x = []")
  case True
  with assms show ?thesis by (simp add: notifyOnNext_def)
next
  case False
  obtain e x1 where c: "checkSubscribersQueues x = (e, x1)" by force
  note C = check_ok [OF assms(1,2) c]
  note F = same_frame [OF C(2)]
  let ?m = "ob_maxPendingEvents x1"
  let ?push = "\<lambda>i. pushNext v (a i)"
  show ?thesis
  proof (cases "e = None \<and> \<not> list_ex (\<lambda>(i, b). rejects ?m b) (ob_subscriptions x1)")
    case out: False
    with assms(6) False c have "y = x1" by (auto simp: notifyOnNext_def split: option.splits if_splits)
    with C show ?thesis by simp
  next
    case True
    obtain e' subs where t: "tryForEachSubscription ?push (ob_subscriptions x1) = (e', subs)" by force
    with tryForEach_map [of ?push "ob_subscriptions x1"]
    have subs: "subs = map (\<lambda>(i, b). (i, snd (?push i b))) (ob_subscriptions x1)" by simp
    have y: "y = x1\<lparr>ob_subscriptions := subs\<rparr>"
      using assms(6) False c True t by (auto simp: notifyOnNext_def split: option.splits)
    have "ob_inv s l y" unfolding y subs
    proof (rule inv_update [OF C(1)])
      fix i b assume b: "(i, b) \<in> set (ob_subscriptions x1)" "sub_inv (flagsOf s l x1 (ob_waiting x1 = Some i)) b"
      have "\<not> rejects ?m b" using True b(1) by (auto simp: list_ex_iff)
      then show "sub_inv (flagsOf s l x1 (ob_waiting x1 = Some i)) (snd (?push i b))"
        using assms(1,3-5)
        by (intro sub_pushNext [OF b(2) surjective_pairing _ _ _ _])
          (simp_all add: F flagsOf_def, simp_all add: ob_inv_def)
    qed
    then show ?thesis using same_trans [OF C(2)] by (simp add: y)
  qed
qed

lemma emitValues_ok:
  assumes "ob_inv s l x" "ob_waiting x = None" "\<not> ob_completed x" "\<not> ob_notifyCompleteOnError x"
    "s \<longrightarrow> ob_stopRequested x \<longrightarrow> vs = []" and "emitValues vs x = (e, y)"
  shows "ob_inv s l y \<and> same x y"
  using assms
proof (induction vs x rule: emitValues.induct)
  case (2 a v vs x)
  obtain r x1 where r: "notifyOnNext a v x = (r, x1)" by force
  with notifyOnNext_ok [OF 2(2-5) _ r] 2(6) have x1: "ob_inv s l x1" "same x x1" by auto
  show ?case
  proof (cases r)
    case (Inl e')
    with 2(7) r x1 show ?thesis by simp
  next
    case (Inr ok)
    have "ob_inv s l y \<and> same x1 y"
      by (rule 2(1) [OF r [symmetric] Inr x1(1)]) (use same_frame [OF x1(2)] 2(3-7) r Inr in auto)
    with same_trans [OF x1(2)] show ?thesis by blast
  qed
qed simp

lemma notifyComplete_ok:
  assumes "ob_inv s l x" "ob_waiting x = None" "notifyOnCompleteInternal nothrow a x = (e, y)"
  shows "ob_inv s l y \<and> ob_waiting y = None \<and> ob_notifyCompleteOnError y = ob_notifyCompleteOnError x \<and> ob_state y = ob_state x"
proof (cases "ob_completed x")
  case True
  with assms show ?thesis by (simp add: notifyOnCompleteInternal_def)
next
  case False
  let ?push = "\<lambda>i. pushComplete (a i)"
  have y: "y = x\<lparr>ob_completed := True, ob_subscriptions := map (\<lambda>(i, b). (i, snd (?push i b))) (ob_subscriptions x)\<rparr>"
    using assms(3) False tryForEach_map [of ?push "ob_subscriptions x"]
    by (auto simp: notifyOnCompleteInternal_def split: prod.splits)
  have "ob_inv s l y"
  proof (rule inv_each [OF assms(1), where f = "\<lambda>i b. snd (?push i b)"])
    fix i b assume "sub_inv (flagsOf s l x (ob_waiting x = Some i)) b"
    then have "sub_inv (flagsOf s l y (ob_waiting y = Some i)) b"
      by (rule inv_mono) (simp add: y flags_le_def flagsOf_def)
    then show "sub_inv (flagsOf s l y (ob_waiting y = Some i)) (snd (?push i b))"
      by (rule sub_pushComplete [where e = "fst (?push i b)"]) (simp_all add: y flagsOf_def)
  qed (use assms(1) in \<open>auto simp: y flags_le_def flagsOf_def ob_inv_def\<close>)
  then show ?thesis using assms(2) by (simp add: y)
qed


lemma inv_frame:
  assumes "ob_inv s l x" "ob_subscriptions y = ob_subscriptions x" "ob_gone y = ob_gone x" "ob_nextId y = ob_nextId x"
    "flags_le (flagsOf s l x True) (flagsOf s l y True)" "ob_notifyCompleteOnError y \<longrightarrow> ob_stopRequested y"
    "ob_waiting y = ob_waiting x" "l \<noteq> 0 \<longrightarrow> 0 < ob_maxPendingEvents y \<and> ob_maxPendingEvents y \<le> l"
  shows "ob_inv s l y"
proof -
  have "flags_le (flagsOf s l x w) (flagsOf s l y w)" for w using assms(5) by (simp add: flags_le_def flagsOf_def)
  then have m: "sub_inv (flagsOf s l x w) b \<Longrightarrow> sub_inv (flagsOf s l y w) b" for w and b :: "'a subscription"
    by (rule inv_mono [rotated])
  have "subs_inv s l y (ob_subscriptions y)"
    using assms(1) m unfolding ob_inv_def subs_inv_def assms(2,7) by blast
  moreover have "\<forall>i b. (i, b) \<in> set (ob_gone y) \<longrightarrow> sub_inv (flagsOf s l y True) b"
    using assms(1) m unfolding ob_inv_def assms(3) by blast
  ultimately show ?thesis using assms(1,6,8) by (simp add: ob_inv_def ids_inv_def assms(2-4))
qed

lemma chk2Wait_ok:
  assumes "ob_inv s l x" "ob_waiting x = None" "chk2WaitAllEvents2Flush sf x = (r, y)"
  shows "ob_inv s l y \<and> ob_waiting y = None \<and> ob_state y = ob_state x \<and> ob_completed y = ob_completed x"
proof (cases sf)
  case False
  with assms show ?thesis by (simp add: chk2WaitAllEvents2Flush_def)
next
  case True
  obtain e x1 where c: "checkSubscribersQueues x = (e, x1)" by force
  note C = check_ok [OF assms(1,2) c]
  have "y = x1 \<or> (\<exists>z. y = ob_setExceptionInternal z x1)"
    using assms(3) True c
    by (auto simp: chk2WaitAllEvents2Flush_def Let_def split: option.splits if_splits)
  moreover have "ob_inv s l (ob_setExceptionInternal z x1)" for z
    by (rule inv_frame [OF C(1)]) (use C(1) in \<open>simp_all add: ob_setExceptionInternal_def flags_le_def flagsOf_def ob_inv_def\<close>)
  ultimately show ?thesis using C same_frame [OF C(2)] assms(2) by (auto simp: ob_setExceptionInternal_def)
qed

lemma runLoop_ok:
  assumes "ob_inv s l x" "ob_waiting x = None" "\<not> ob_completed x" "\<not> ob_notifyCompleteOnError x"
    "s \<longrightarrow> ob_stopRequested x \<longrightarrow> rd_emits r = []" and "runLoop r x = (e, y)"
  shows "ob_inv s l y \<and> ob_waiting y = None \<and> \<not> ob_notifyCompleteOnError y \<and> ob_state y = ob_state x"
proof (cases "ob_dispatchedException x")
  case (Some d)
  then have y: "y = x\<lparr>ob_dispatchedException := None\<rparr>" using assms(6) by (simp add: runLoop_def)
  have "ob_inv s l y"
    by (rule inv_frame [OF assms(1)]) (use assms(1) in \<open>simp_all add: y flags_le_def flagsOf_def ob_inv_def\<close>)
  then show ?thesis using assms(2,4) by (simp add: y)
next
  case None
  obtain e1 x1 where c: "checkSubscribersQueues x = (e1, x1)" by force
  note C = check_ok [OF assms(1,2) c]
  note F = same_frame [OF C(2)]
  show ?thesis
  proof (cases e1)
    case (Some d)
    with None assms(6) c have "y = x1" by (simp add: runLoop_def)
    with C F assms(2,4) show ?thesis by simp
  next
    case n1: None
    obtain e2 x2 where em: "emitValues (rd_emits r) x1 = (e2, x2)" by force
    have E: "ob_inv s l x2" "same x1 x2"
      using emitValues_ok [OF C(1) _ _ _ _ em] assms(2-5) F by auto
    note F2 = same_frame [OF E(2)]
    have w: "ob_waiting x2 = None" "\<not> ob_notifyCompleteOnError x2" "ob_state x2 = ob_state x" using F F2 assms(2,4) by simp_all
    obtain e3 x3 where nc: "notifyOnCompleteInternal False (rd_alloc r) x2 = (e3, x3)" by force
    note N = notifyComplete_ok [OF E(1) w(1) nc]
    have "y = x2 \<or> y = x3"
      using assms(6) None n1 c em nc
      by (auto simp: runLoop_def split: option.splits loop_result.splits)
    with E(1) w N show ?thesis by auto
  qed
qed

lemma run_ok:
  assumes "ob_inv s l x" "ob_waiting x = None" "s \<longrightarrow> ob_stopRequested x \<longrightarrow> rd_emits r = []"
    and "ob_run r x = (t, y)"
  shows "ob_inv s l y \<and> ob_waiting y = None \<and> ob_state y = ob_state x"
proof (cases "ob_completed x \<or> ob_notifyCompleteOnError x")
  case True
  show ?thesis
  proof (cases "ob_completed x")
    case True
    with assms(4) chk2Wait_ok [OF assms(1,2)] show ?thesis by (simp add: ob_run_def)
  next
    case False
    with True assms(4) notifyComplete_ok [OF assms(1,2) surjective_pairing] show ?thesis by (auto simp: ob_run_def)
  qed
next
  case False
  obtain e x1 where e: "runLoop r x = (e, x1)" by force
  have R: "ob_inv s l x1" "ob_waiting x1 = None" "\<not> ob_notifyCompleteOnError x1" "ob_state x1 = ob_state x"
    using runLoop_ok [OF assms(1,2) _ _ assms(3) e] False by auto
  show ?thesis
  proof (cases e)
    case (Inr b)
    with assms(4) False e R show ?thesis by (simp add: ob_run_def)
  next
    case (Inl z)
    let ?push = "\<lambda>i. pushError z (rd_alloc r i)"
    have y: "y = x1\<lparr>ob_exception := Some z,
        ob_subscriptions := map (\<lambda>(i, b). (i, snd (?push i b))) (ob_subscriptions x1),
        ob_stopRequested := True, ob_notifyCompleteOnError := True\<rparr>"
      using assms(4) False e Inl tryForEach_map [of ?push "ob_subscriptions x1"]
      by (simp add: ob_run_def notifyOnErrorNothrow_def ob_setExceptionInternal_def requestStop_def)
    have "ob_inv s l y"
    proof (rule inv_each [OF R(1), where f = "\<lambda>i b. snd (?push i b)"])
      fix i b assume b: "sub_inv (flagsOf s l x1 (ob_waiting x1 = Some i)) b"
      show "sub_inv (flagsOf s l y (ob_waiting y = Some i)) (snd (?push i b))"
        by (rule sub_pushError [OF b surjective_pairing]) (use R(2,3) in \<open>simp_all add: y flagsOf_def flags_le_def\<close>)
    qed (use R(1) in \<open>auto simp: y flags_le_def flagsOf_def\<close>)
    then show ?thesis using R(2,4) by (simp add: y)
  qed
qed


section \<open>The other operations\<close>

lemma tryFlush_map:
  assumes "tryFlushObserversEventQueues a fl subs = Inr (fl', subs')"
  shows "map fst subs' = map fst subs"
    "\<forall>j b'. (j, b') \<in> set subs' \<longrightarrow> (\<exists>b f f'. (j, b) \<in> set subs \<and> tryFlushQueue (a j) f b = Inr (f', b'))"
proof -
  have "map fst subs' = map fst subs \<and>
      (\<forall>j b'. (j, b') \<in> set subs' \<longrightarrow> (\<exists>b f f'. (j, b) \<in> set subs \<and> tryFlushQueue (a j) f b = Inr (f', b')))"
    using assms
  proof (induction a fl subs arbitrary: fl' subs' rule: tryFlushObserversEventQueues.induct)
    case (2 a fl i b subs)
    from 2(2) obtain f1 b1 s1 where f: "tryFlushQueue (a i) fl b = Inr (f1, b1)"
      "tryFlushObserversEventQueues a f1 subs = Inr (fl', s1)" "subs' = (i, b1) # s1"
      by (auto simp: bindR_eq_Inr)
    from 2(1) [OF f(1) refl f(2)] f(1,3) show ?case by simp blast
  qed simp
  then show "map fst subs' = map fst subs"
    "\<forall>j b'. (j, b') \<in> set subs' \<longrightarrow> (\<exists>b f f'. (j, b) \<in> set subs \<and> tryFlushQueue (a j) f b = Inr (f', b'))" by blast+
qed

lemma requestStop_ok: "ob_inv s l x \<Longrightarrow> ob_inv s l (requestStop x)"
  by (rule inv_frame [where x = x]) (simp_all add: requestStop_def flags_le_def flagsOf_def ob_inv_def)

lemma dispose_ok:
  assumes "ob_inv s l x" "ob_waiting x = None" "disposePass caller a x = Inr (done, y)"
  shows "ob_inv s l y"
proof (cases "ob_disposed x")
  case True
  with assms(1,3) show ?thesis by (auto simp: disposePass_def tryDisposeInternal_def bindR_eq_Inr)
next
  case False
  let ?x = "requestStop x"
  obtain fl subs where t: "tryFlushObserversEventQueues a True (ob_subscriptions x) = Inr (fl, subs)"
    and y: "y = (if fl then ?x\<lparr>ob_disposed := True, ob_subscriptions := [], ob_gone := ob_gone x @ subs\<rparr>
               else ?x\<lparr>ob_subscriptions := subs\<rparr>)"
    using assms(3) False by (auto simp: disposePass_def tryDisposeInternal_def bindR_eq_Inr Let_def requestStop_def)
  note T = tryFlush_map [OF t]
  have x: "ob_inv s l ?x" by (rule requestStop_ok [OF assms(1)])
  have sub: "sub_inv (flagsOf s l ?x False) b'" if b': "(j, b') \<in> set subs" for j b'
  proof -
    obtain b f f' where b: "(j, b) \<in> set (ob_subscriptions ?x)" "tryFlushQueue (a j) f b = Inr (f', b')"
      using T(2) b' unfolding requestStop_def by simp blast
    have "sub_inv (flagsOf s l ?x False) b"
      using x b(1) assms(2) by (auto simp: ob_inv_def subs_inv_def requestStop_def)
    then show ?thesis by (rule sub_tryFlush [OF _ b(2)]) (simp add: flagsOf_def requestStop_def)
  qed
  have sub': "sub_inv (flagsOf s l ?x w) b'" if "(j, b') \<in> set subs" for j b' w
    by (rule inv_mono [OF sub [OF that]]) (simp add: flags_le_def flagsOf_def)
  have ids: "distinct (map fst subs @ map fst (ob_gone x))" "list_all (\<lambda>i. i < ob_nextId x) (map fst subs @ map fst (ob_gone x))"
    using assms(1) unfolding ob_inv_def ids_inv_def T(1) by blast+
  then have "ids_inv y" by (auto simp: y ids_inv_def requestStop_def)
  moreover have "flagsOf s l y w = flagsOf s l ?x w" for w by (simp add: y flagsOf_def requestStop_def)
  ultimately show ?thesis using x sub' by (auto simp: y ob_inv_def subs_inv_def requestStop_def)
qed

lemma unsubscribeBegin_ok:
  assumes "ob_inv s l x" "ob_waiting x = None" "unsubscribeBegin caller i x = Inr y"
  shows "ob_inv s l y"
proof (cases "map_of (ob_subscriptions x) i")
  case None
  with assms show ?thesis by (simp add: unsubscribeBegin_def)
next
  case (Some b)
  have b: "(i, b) \<in> set (ob_subscriptions x)" using Some by (rule map_of_SomeD)
  obtain g b' where d: "chk2DisposeExecutionQueue b = (g, b')" by force
  have sb: "sub_inv (flagsOf s l x False) b" using assms(1,2) b by (auto simp: ob_inv_def subs_inv_def)
  have D: "sub_inv (flagsOf s l x True) b'"
    by (rule sub_dispose(1) [OF sb d]) (simp_all add: flags_le_def flagsOf_def)
  show ?thesis
  proof (cases g)
    case True
    with assms(3) Some d have "y = eraseSubscription i b' x" by (auto simp: unsubscribeBegin_def bindR_eq_Inr)
    with inv_erase [OF assms(1) b D] show ?thesis by simp
  next
    case False
    with assms(3) Some d have y: "y = x\<lparr>ob_subscriptions := map (\<lambda>(j, c). (j, if j = i then b' else c)) (ob_subscriptions x), ob_waiting := Some i\<rparr>"
      by (auto simp: unsubscribeBegin_def bindR_eq_Inr updateSubscription_map)
    show ?thesis
      by (rule inv_each [OF assms(1), where f = "\<lambda>j c. if j = i then b' else c"])
        (use D assms(1,2) in \<open>auto simp: y flags_le_def flagsOf_def ob_inv_def\<close>)
  qed
qed

lemma unsubscribeEnd_ok:
  assumes "ob_inv s l x" "unsubscribeEnd x = Some y"
  shows "ob_inv s l y"
proof -
  obtain i b q where i: "ob_waiting x = Some i" "map_of (ob_subscriptions x) i = Some b" "si_eventsQueue b = Some q"
    "st_executing q = None" "st_pending q = []"
    and y: "y = (eraseSubscription i (b\<lparr>si_eventsQueue := None\<rparr>) x)\<lparr>ob_waiting := None\<rparr>"
    using assms(2) by (auto simp: unsubscribeEnd_def split: option.splits if_splits)
  have b: "(i, b) \<in> set (ob_subscriptions x)" using i(2) by (rule map_of_SomeD)
  have "sub_inv (flagsOf s l x (ob_waiting x = Some i)) b"
    using assms(1) b unfolding ob_inv_def subs_inv_def by blast
  then have sb: "sub_inv (flagsOf s l x True) b" by (simp add: i(1))
  have "core_inv (flagsOf s l x True) (b\<lparr>si_eventsQueue := None\<rparr>)"
    by (rule core_discard [where b = b]) (use sb i in \<open>auto simp: sub_inv_core views st_values_def\<close>)
  then have b': "sub_inv (flagsOf s l x True) (b\<lparr>si_eventsQueue := None\<rparr>)" by (rule sub_excused) (simp add: flagsOf_def)
  have e: "ob_inv s l (eraseSubscription i (b\<lparr>si_eventsQueue := None\<rparr>) x)" by (rule inv_erase [OF assms(1) b b'])
  show ?thesis unfolding y
    using e i(1) by (auto simp: ob_inv_def subs_inv_def ids_inv_def flagsOf_def eraseSubscription_def)
qed

lemma onSubscription_ok:
  assumes "ob_inv s l x" "onSubscription f i x = Some y"
    and "\<And>c b b'. sub_inv c b \<Longrightarrow> f b = Some b' \<Longrightarrow> sub_inv c b'"
  shows "ob_inv s l y"
proof -
  obtain b b' where b: "map_of (ob_subscriptions x) i = Some b" "f b = Some b'"
    and y: "y = x\<lparr>ob_subscriptions := map (\<lambda>(j, c). (j, if j = i then b' else c)) (ob_subscriptions x)\<rparr>"
    using assms(2) by (auto simp: onSubscription_def updateSubscription_map split: option.splits)
  have "(i, b) \<in> set (ob_subscriptions x)" using b(1) by (rule map_of_SomeD)
  then have "sub_inv (flagsOf s l x (ob_waiting x = Some i)) b" using assms(1) by (auto simp: ob_inv_def subs_inv_def)
  from assms(3) [OF this b(2)] show ?thesis unfolding y by (intro inv_update [OF assms(1)]) auto
qed

lemma mset_exchange: "mset (exchange n xs) = mset xs"
proof -
  have "mset (take n xs @ (case ys of a # b # r \<Rightarrow> b # a # r | r \<Rightarrow> r)) = mset (take n xs @ ys)" for ys
    by (auto split: list.splits)
  from this [of "drop n xs"] show ?thesis by (simp add: exchange_def)
qed

lemma inv_permute:
  assumes "ob_inv s l x" "mset subs = mset (ob_subscriptions x)"
  shows "ob_inv s l (x\<lparr>ob_subscriptions := subs\<rparr>)"
proof -
  have st: "set subs = set (ob_subscriptions x)" using assms(2) by (rule mset_eq_setD)
  have "mset (map fst subs @ map fst (ob_gone x)) = mset (map fst (ob_subscriptions x) @ map fst (ob_gone x))"
    using assms(2) by simp
  then have d: "distinct (map fst subs @ map fst (ob_gone x)) \<longleftrightarrow> distinct (map fst (ob_subscriptions x) @ map fst (ob_gone x))"
    by (rule mset_eq_imp_distinct_iff)
  show ?thesis using assms(1) d st
    by (simp add: ob_inv_def subs_inv_def flagsOf_def ids_inv_def list_all_iff)
qed

lemma subscribe_ok:
  assumes "ob_inv s l x" "subscribe pos x = Inr y"
  shows "ob_inv s l y"
proof -
  let ?z = "x\<lparr>ob_subscriptions := (ob_nextId x, new_subscription) # ob_subscriptions x, ob_nextId := ob_nextId x + 1\<rparr>"
  have y: "y = ?z\<lparr>ob_subscriptions := take pos (ob_subscriptions x) @ (ob_nextId x, new_subscription) # drop pos (ob_subscriptions x)\<rparr>"
    using assms(2) by (auto simp: subscribe_def split: if_splits)
  have ids: "distinct (map fst (ob_subscriptions x) @ map fst (ob_gone x))"
    "\<forall>i \<in> set (map fst (ob_subscriptions x) @ map fst (ob_gone x)). i < ob_nextId x"
    using assms(1) by (auto simp: ob_inv_def ids_inv_def list_all_iff)
  have "ob_nextId x \<notin> set (map fst (ob_subscriptions x) @ map fst (ob_gone x))" using ids(2) by blast
  with ids(1) have "distinct (ob_nextId x # map fst (ob_subscriptions x) @ map fst (ob_gone x))" by simp
  moreover have "\<forall>i \<in> set (ob_nextId x # map fst (ob_subscriptions x) @ map fst (ob_gone x)). i < ob_nextId x + 1"
    using ids(2) by (auto simp: less_Suc_eq)
  ultimately have "ids_inv ?z" by (simp add: ids_inv_def list_all_iff)
  then have z: "ob_inv s l ?z"
    using assms(1) by (auto simp: ob_inv_def subs_inv_def flagsOf_def inv_new)
  have "mset (take pos (ob_subscriptions x) @ (ob_nextId x, new_subscription) # drop pos (ob_subscriptions x))
      = mset (ob_subscriptions ?z)"
  proof -
    have "mset (take pos (ob_subscriptions x)) + mset (drop pos (ob_subscriptions x)) = mset (ob_subscriptions x)"
      by (metis append_take_drop_id mset_append)
    then show ?thesis by simp
  qed
  from inv_permute [OF z this] show ?thesis by (simp add: y)
qed

lemma ob_inv_step:
  assumes "ob_inv s l x" "admits s l a x" "ob_perform a x = Some y"
  shows "ob_inv s l y"
proof (cases a)
  case (ObTimer r)
  with assms have x: "ob_waiting x = None" "y = ob_onTimer r x" "s \<longrightarrow> ob_stopRequested x \<longrightarrow> rd_emits r = []"
    by (auto split: if_splits)
  obtain t x1 where t: "ob_run r x = (t, x1)" by force
  note R = run_ok [OF assms(1) x(1,3) t]
  have "ob_inv s l (x1\<lparr>ob_state := st\<rparr>)" "ob_inv s l (x1\<lparr>ob_exception := e, ob_state := st\<rparr>)" for st e
    by (rule inv_frame [where x = x1]; use R in \<open>auto simp: flags_le_def flagsOf_def ob_inv_def\<close>)+
  with R t x(2) show ?thesis by (auto simp: ob_onTimer_def split: run_result.splits)
next
  case (ObDispose caller al)
  with assms(3) obtain d where "disposePass caller al x = Inr (d, y)" "ob_waiting x = None"
    by (auto simp: okR_def split: if_splits sum.splits)
  with dispose_ok [OF assms(1)] show ?thesis by blast
next
  case (ObReorder n)
  with assms inv_permute [OF assms(1) mset_exchange] show ?thesis by (auto split: if_splits)
next
  case (ObThrottle n)
  with assms(2,3) show ?thesis
    by (intro inv_frame [OF assms(1)])
      (use assms(1) in \<open>auto simp: ob_setThrottleLimit_def flags_le_def flagsOf_def ob_inv_def split: if_splits\<close>)
next
  case (ObSubscribe pos)
  with assms subscribe_ok show ?thesis by (auto simp: okR_def split: if_splits sum.splits)
next
  case (ObUnsubscribe caller i)
  with assms unsubscribeBegin_ok show ?thesis by (auto simp: okR_def split: if_splits sum.splits)
next
  case ObStart
  with assms(3) show ?thesis
    by (intro inv_frame [OF assms(1)])
      (use assms(1) in \<open>auto simp: flags_le_def flagsOf_def ob_inv_def split: if_splits\<close>)
next
  case (ObDispatch e)
  with assms(3) show ?thesis
    by (intro inv_frame [OF assms(1)])
      (use assms(1) in \<open>auto simp: dispatchException_def flags_le_def flagsOf_def ob_inv_def split: if_splits\<close>)
next
  case (ObAllow b)
  with assms(3) show ?thesis
    by (intro inv_frame [OF assms(1)])
      (use assms(1) in \<open>auto simp: allowNoSubscribers_def flags_le_def flagsOf_def ob_inv_def\<close>)
next
  case ObRequestCancel
  with assms requestStop_ok show ?thesis by (auto split: if_splits)
next
  case ObUnsubscribed
  with assms unsubscribeEnd_ok show ?thesis by auto
next
  case (ObCallBegin i)
  with assms(3) show ?thesis by (auto intro: onSubscription_ok [OF assms(1)] sub_callBegin)
next
  case (ObCallEnd i r)
  with assms(3) show ?thesis by (auto intro: onSubscription_ok [OF assms(1)] sub_callEnd)
qed

lemma ob_reach_inv: "ob_reach s l x \<Longrightarrow> ob_inv s l x"
proof (induction rule: ob_reach.induct)
  case (ObInit ignore)
  then show ?case by (auto simp: ob_inv_def subs_inv_def ids_inv_def new_observable_def DEFAULT_THROTTLE_LIMIT_def)
next
  case (ObStep x a y)
  then show ?case by (blast intro: ob_inv_step)
qed

end
