(* ===== verification/ObservableProps.thy ===== *)
theory ObservableProps
  imports ObservableReach
begin

text \<open>The properties of the observable.\<close>

section \<open>The observer protocol\<close>

lemma follows_calls:
  assumes "sorted_wrt (mayFollow late) cs" "count_list cs OnCompleted \<le> 1"
  shows "sorted_wrt (follows late) cs"
  using assms
proof (induction cs)
  case (Cons c cs)
  have "follows late c d" if d: "d \<in> set cs" for d
  proof -
    have "mayFollow late c d" using Cons.prems(1) d by simp
    moreover have "\<not> (c = OnCompleted \<and> d = OnCompleted)"
    proof
      assume "c = OnCompleted \<and> d = OnCompleted"
      with d have "c = OnCompleted" "count_list cs OnCompleted \<noteq> 0" by (auto simp: count_list_0_iff)
      with Cons.prems(2) show False by simp
    qed
    ultimately show ?thesis by (auto simp: mayFollow_def)
  qed
  moreover have "count_list cs OnCompleted \<le> 1" using Cons.prems(2) by (simp split: if_splits)
  ultimately show ?case using Cons by simp
qed simp

lemma reach_sub:
  assumes "ob_reach stops limit x" "(i, b) \<in> set (ob_subscriptions x @ ob_gone x)"
  shows "sub_inv (flagsOf stops limit x True) b"
proof (cases "(i, b) \<in> set (ob_gone x)")
  case True
  with ob_reach_inv [OF assms(1)] show ?thesis by (auto simp: ob_inv_def)
next
  case False
  with assms(2) ob_reach_inv [OF assms(1)] have "sub_inv (flagsOf stops limit x (ob_waiting x = Some i)) b"
    by (auto simp: ob_inv_def subs_inv_def)
  then show ?thesis by (rule inv_mono) (rule flags_waiting)
qed

text \<open>
  C22 In any interleaving of the observable, its clients and the observers, while the derived class emits
  nothing after an event that stops it, each subscription sees the protocol: values, then at most one
  error, then at most one completion, and nothing after the completion.  When the derived class goes
  on emitting after such an event, values, and nothing else, may follow a completion.
\<close>

theorem ob_protocol:
  assumes "ob_reach stops limit x" "(i, b) \<in> set (ob_subscriptions x @ ob_gone x)"
  shows "sorted_wrt (follows (\<not> stops)) (si_calls b)"
  using reach_sub [OF assms] by (intro follows_calls) (auto simp: sub_inv_def protocol_inv_def sorted_wrt_append flagsOf_def)

abbreviation plain_round :: "'v list \<Rightarrow> loop_result \<Rightarrow> 'v round" where
  "plain_round vs result \<equiv> \<lparr>rd_emits = map (\<lambda>v. (\<lambda>_. AllocOk, v)) vs, rd_result = result,
     rd_alloc = \<lambda>_. AllocOk, rd_shutdownFinished = True\<rparr>"

abbreviation answered :: "nat \<Rightarrow> cb_result \<Rightarrow> 'v ob_action list" where
  "answered i r \<equiv> [ObCallBegin i, ObCallEnd i r]"

lemma start_reach: "ob_reach stops 0 (new_observable ignore)"
  by (rule ObInit) simp

definition protocol_demo :: "nat ob_action list" where
  "protocol_demo = [ObStart, ObSubscribe 0, ObTimer (plain_round [5, 6] LoopAgain)] @ answered 0 CbRefuse
     @ answered 0 CbAccept @ answered 0 CbAccept @ [ObDispatch (ObUser 1), ObTimer (plain_round [] LoopAgain)]
     @ answered 0 CbAccept @ [ObTimer (plain_round [] LoopAgain)] @ answered 0 CbAccept"

lemma protocol_demo_run:
  "map_option (\<lambda>x. map (si_calls \<circ> snd) (ob_subscriptions x)) (ob_runs True 0 protocol_demo (new_observable False))
   = Some [[OnNext 5, OnNext 5, OnNext 6, OnError (ObUser 1), OnCompleted]]"
  by code_simp


lemma run_gives:
  assumes "map_option f (ob_runs stops 0 as (new_observable ignore)) = Some z"
  obtains x where "ob_reach stops 0 x" "f x = z"
proof -
  obtain x where x: "ob_runs stops 0 as (new_observable ignore) = Some x" "f x = z" using assms by auto
  from runs_reach [OF x(1) start_reach] x(2) show thesis by (rule that)
qed

lemma ob_protocol_witness:
  "\<exists>(x :: nat observable) b. ob_reach True 0 x \<and> (0, b) \<in> set (ob_subscriptions x)
     \<and> si_calls b = [OnNext 5, OnNext 5, OnNext 6, OnError (ObUser 1), OnCompleted]
     \<and> sorted_wrt (follows (\<not> True)) (si_calls b)"
proof -
  have "map_option (\<lambda>x. map (\<lambda>(i, b). (i, si_calls b)) (ob_subscriptions x)) (ob_runs True 0 protocol_demo (new_observable False))
      = Some [(0, [OnNext 5, OnNext 5, OnNext 6, OnError (ObUser 1), OnCompleted])]" by code_simp
  then obtain x :: "nat observable" where x: "ob_reach True 0 x"
    "map (\<lambda>(i, b). (i, si_calls b)) (ob_subscriptions x) = [(0, [OnNext 5, OnNext 5, OnNext 6, OnError (ObUser 1), OnCompleted])]"
    by (rule run_gives)
  then obtain b where b: "(0, b) \<in> set (ob_subscriptions x)" "si_calls b = [OnNext 5, OnNext 5, OnNext 6, OnError (ObUser 1), OnCompleted]"
    by (cases "ob_subscriptions x") auto
  with ob_protocol [OF x(1), of 0 b] show ?thesis using x(1) by (intro exI [of _ x] exI [of _ b]) auto
qed

section \<open>Values\<close>

text \<open>
  C23 No value is made up, duplicated or reordered: what a subscription has consumed, followed by
  what its queue still holds, is a subsequence of what was pushed to it, and the rest was discarded.
  While nobody asked the observable to stop and no callback of the subscription threw, nothing is
  discarded at all.
\<close>

theorem ob_values:
  assumes "ob_reach stops limit x" "(i, b) \<in> set (ob_subscriptions x)"
  shows "subseq (si_consumed b @ queued b) (si_pushed b)
     \<and> mset (si_pushed b) = mset (si_consumed b) + mset (si_dropped b) + mset (queued b)
     \<and> (ob_stopRequested x \<or> si_threw b \<or> ob_waiting x = Some i \<or> si_pushed b = si_consumed b @ queued b)"
proof -
  have inv: "ob_inv stops limit x" by (rule ob_reach_inv [OF assms(1)])
  then have "sub_inv (flagsOf stops limit x (ob_waiting x = Some i)) b" using assms(2) by (auto simp: ob_inv_def subs_inv_def)
  then have v: "values_inv (flagsOf stops limit x (ob_waiting x = Some i)) b"
    and f: "flags_inv (flagsOf stops limit x (ob_waiting x = Some i)) b"
    and l: "loss_inv (flagsOf stops limit x (ob_waiting x = Some i)) b" by (simp_all add: sub_inv_def)
  have s: "subseq (si_consumed b @ queued b) (si_pushed b)"
    "mset (si_pushed b) = mset (si_consumed b) + mset (si_dropped b) + mset (queued b)"
    using v by (simp_all add: values_inv_def)
  have "si_pushed b = si_consumed b @ queued b"
    if "\<not> ob_stopRequested x" "\<not> si_threw b" "ob_waiting x \<noteq> Some i"
  proof -
    have "\<not> ob_notifyCompleteOnError x" using inv that(1) by (auto simp: ob_inv_def)
    then have "si_dropped b = []" using l f that by (auto simp: loss_inv_def flags_inv_def flagsOf_def excused_def)
    then have "length (si_consumed b @ queued b) = length (si_pushed b)"
      using s(2) by (metis add.right_neutral length_append mset.simps(1) size_mset size_union)
    with s(1) show ?thesis by (metis subseq_same_length)
  qed
  with s show ?thesis by blast
qed

definition values_demo :: "nat ob_action list" where
  "values_demo = [ObStart, ObSubscribe 0, ObTimer (plain_round [5, 6, 7] LoopAgain)] @ answered 0 CbAccept @ [ObCallBegin 0]"

lemma ob_values_witness:
  "\<exists>(x :: nat observable) b. ob_reach True 0 x \<and> (0, b) \<in> set (ob_subscriptions x) \<and> si_consumed b = [5] \<and> queued b = [6, 7]
     \<and> si_pushed b = [5, 6, 7]"
proof -
  have "map_option (\<lambda>x. (ob_stopRequested x, ob_waiting x,
        map (\<lambda>(i, b). (i, si_consumed b, queued b, si_threw b)) (ob_subscriptions x))) (ob_runs True 0 values_demo (new_observable False))
      = Some (False, None, [(0, [5], [6, 7], False)])" by code_simp
  then obtain x :: "nat observable" where x: "ob_reach True 0 x" "\<not> ob_stopRequested x" "ob_waiting x = None"
    "map (\<lambda>(i, b). (i, si_consumed b, queued b, si_threw b)) (ob_subscriptions x) = [(0, [5], [6, 7], False)]"
    by (rule run_gives) simp
  then obtain b where b: "(0, b) \<in> set (ob_subscriptions x)" "si_consumed b = [5]" "queued b = [6, 7]" "\<not> si_threw b"
    by (cases "ob_subscriptions x") auto
  with ob_values [OF x(1) b(1)] x show ?thesis by (intro exI [of _ x] exI [of _ b]) auto
qed

text \<open>
  No subscription ever holds more unconsumed values than the largest throttle limit that was set.
\<close>

theorem ob_bounded:
  assumes "ob_reach stops limit x" "limit \<noteq> 0" "(i, b) \<in> set (ob_subscriptions x)"
  shows "length (queued b) \<le> limit"
  using reach_sub [OF assms(1), of i b] assms(2,3) by (auto simp: sub_inv_def values_inv_def flagsOf_def)

lemma ob_bounded_witness:
  "\<exists>x b. ob_reach True 2000 x \<and> (0, b) \<in> set (ob_subscriptions x) \<and> length (queued b) = 2 \<and> length (queued (b :: nat subscription)) \<le> 2000"
proof -
  have r: "ob_reach True 2000 (new_observable False :: nat observable)"
    by (rule ObInit) (simp add: DEFAULT_THROTTLE_LIMIT_def)
  have "map_option (\<lambda>x. map (\<lambda>(i, b). (i, length (queued b))) (ob_subscriptions x)) (ob_runs True 2000 values_demo (new_observable False))
      = Some [(0, 2)]" by code_simp
  then obtain x where x: "ob_runs True 2000 values_demo (new_observable False) = Some x"
    "map (\<lambda>(i, b). (i, length (queued b))) (ob_subscriptions x) = [(0, 2)]" by auto
  then obtain b where b: "(0, b) \<in> set (ob_subscriptions x)" "length (queued b) = 2"
    by (cases "ob_subscriptions x") auto
  from ob_bounded [OF runs_reach [OF x(1) r] _ b(1)] b runs_reach [OF x(1) r] show ?thesis
    by (intro exI [of _ x] exI [of _ b]) simp
qed

section \<open>The end of the task\<close>

lemma queueIsEmpty_views:
  "queueIsEmpty b \<Longrightarrow> planned b = [] \<and> queued b = [] \<and> failedEvents b = []"
  by (auto simp: queueIsEmpty_def st_isEmpty_def views st_calls_def st_values_def split: option.splits)

lemma chk2Wait_end:
  assumes "chk2WaitAllEvents2Flush sf x = (t, y)" "t \<noteq> RunAgain"
  shows "areAllEventsFlushed y \<and> (t = RunFinished \<longrightarrow> \<not> ob_stopRequested y)"
  using assms by (auto simp: chk2WaitAllEvents2Flush_def Let_def split: if_splits prod.splits option.splits)

text \<open>
  C24 The task of an observable ends only after the completion was notified and every events queue has
  drained.  When it ends without an exception, nobody asked it to stop, and each remaining subscription
  to which the completion was scheduled and whose callbacks never threw has consumed exactly the values
  pushed to it, in order, and was told the completion.  Nothing is said of a subscription that came
  after the completion was notified, or of one with a callback that threw.
\<close>

theorem ob_finish:
  assumes "ob_reach stops limit x" "admits stops limit (ObTimer r) x" "ob_perform (ObTimer r) x = Some y"
    "ob_state y = Completed"
  shows "ob_completed y \<and> areAllEventsFlushed y
     \<and> (ob_exception y = None \<longrightarrow> \<not> ob_stopRequested y \<and>
          (\<forall>(i, b) \<in> set (ob_subscriptions y). si_completedScheduled b \<longrightarrow> si_threw b \<or>
             si_consumed b = si_pushed b \<and> OnCompleted \<in> set (si_calls b)))"
proof -
  have x: "ob_waiting x = None" "ob_state x = Running" "y = ob_onTimer r x" using assms(3) by (auto split: if_splits)
  obtain t x1 where t: "ob_run r x = (t, x1)" by force
  have inv: "ob_inv stops limit y" "ob_inv stops limit x"
    using ob_inv_step [OF _ assms(2,3)] ob_reach_inv [OF assms(1)] by simp_all
  have R: "ob_waiting x1 = None" "ob_state x1 = Running"
    using run_ok [OF inv(2) x(1) _ t] assms(2) x(2) by simp_all
  have "t \<noteq> RunAgain" using t x(3) assms(4) R(2) by (auto simp: ob_onTimer_def)
  then have c: "ob_completed x" "chk2WaitAllEvents2Flush (rd_shutdownFinished r) x = (t, x1)"
    using t by (auto simp: ob_run_def split: if_splits prod.splits sum.splits)
  have e: "areAllEventsFlushed x1" "t = RunFinished \<longrightarrow> \<not> ob_stopRequested x1"
    using chk2Wait_end [OF c(2) \<open>t \<noteq> RunAgain\<close>] by auto
  have y: "ob_subscriptions y = ob_subscriptions x1" "ob_stopRequested y = ob_stopRequested x1"
    "ob_completed y = ob_completed x1" "ob_waiting y = ob_waiting x1" "ob_exception y = None \<longrightarrow> t = RunFinished"
    using x(3) t \<open>t \<noteq> RunAgain\<close> by (auto simp: ob_onTimer_def split: run_result.splits)
  have "si_consumed b = si_pushed b \<and> OnCompleted \<in> set (si_calls b)"
    if b: "(i, b) \<in> set (ob_subscriptions y)" "si_completedScheduled b" "\<not> si_threw b" "ob_exception y = None" for i b
  proof -
    have st: "\<not> ob_stopRequested y" using e(2) y b(4) by simp
    then have er: "\<not> ob_notifyCompleteOnError y" using inv(1) by (auto simp: ob_inv_def)
    have qe: "queueIsEmpty b" using e(1) b(1) y(1) by (auto simp: areAllEventsFlushed_def list_all_iff)
    have "sub_inv (flagsOf stops limit y False) b"
      using inv(1) b(1) y(4) R(1) by (auto simp: ob_inv_def subs_inv_def)
    then have v: "values_inv (flagsOf stops limit y False) b" and l: "loss_inv (flagsOf stops limit y False) b"
      and f: "flags_inv (flagsOf stops limit y False) b" and p: "protocol_inv (flagsOf stops limit y False) b"
      by (simp_all add: sub_inv_def)
    note q = queueIsEmpty_views [OF qe]
    have "\<not> excused b" using f st b(3) by (auto simp: flags_inv_def flagsOf_def excused_def)
    then have "si_dropped b = []" "si_onCompletedCalled b" using l er b(2) q by (auto simp: loss_inv_def flagsOf_def)
    moreover have "subseq (si_consumed b) (si_pushed b)" "mset (si_pushed b) = mset (si_consumed b) + mset (si_dropped b)"
      using v q by (simp_all add: values_inv_def)
    moreover have "OnCompleted \<in> set (si_calls b)" using p calculation(2) by (simp add: protocol_inv_def)
    ultimately show ?thesis by (metis subseq_same_length mset_eq_length add.right_neutral mset.simps(1))
  qed
  with e y c chk2Wait_ok [OF inv(2) x(1) c(2)] show ?thesis by (auto simp: areAllEventsFlushed_def)
qed

definition finish_demo :: "nat ob_action list" where
  "finish_demo = [ObStart, ObSubscribe 0, ObTimer (plain_round [5, 6] LoopFinished)] @ answered 0 CbAccept @ answered 0 CbAccept
     @ answered 0 CbAccept"

lemma ob_finish_witness:
  "\<exists>(x :: nat observable) y b. ob_reach True 0 x \<and> ob_perform (ObTimer (plain_round [] LoopAgain)) x = Some y
     \<and> ob_state y = Completed \<and> (0, b) \<in> set (ob_subscriptions y) \<and> si_consumed b = [5, 6] \<and> OnCompleted \<in> set (si_calls b)"
proof -
  let ?last = "ObTimer (plain_round [] LoopAgain) :: nat ob_action"
  have "map_option (\<lambda>x. map_option (\<lambda>y. (ob_state y, ob_exception y,
        map (\<lambda>(i, b). (i, si_completedScheduled b, si_threw b, si_pushed b)) (ob_subscriptions y)))
          (ob_perform ?last x)) (ob_runs True 0 finish_demo (new_observable False))
      = Some (Some (Completed, None, [(0, True, False, [5, 6])]))" by code_simp
  then obtain x :: "nat observable" where x: "ob_reach True 0 x"
    "map_option (\<lambda>y. (ob_state y, ob_exception y,
        map (\<lambda>(i, b). (i, si_completedScheduled b, si_threw b, si_pushed b)) (ob_subscriptions y)))
          (ob_perform ?last x) = Some (Completed, None, [(0, True, False, [5, 6])])" by (rule run_gives)
  then obtain y where y: "ob_perform ?last x = Some y" "ob_state y = Completed" "ob_exception y = None"
    "map (\<lambda>(i, b). (i, si_completedScheduled b, si_threw b, si_pushed b)) (ob_subscriptions y) = [(0, True, False, [5, 6])]"
    by (auto simp del: ob_perform.simps)
  then obtain b where b: "(0, b) \<in> set (ob_subscriptions y)" "si_completedScheduled b" "\<not> si_threw b" "si_pushed b = [5, 6]"
    by (cases "ob_subscriptions y") (auto simp del: ob_perform.simps)
  have "admits True 0 ?last x" by simp
  from ob_finish [OF x(1) this y(1,2)] y b x(1) show ?thesis
    by (intro exI [of _ x] exI [of _ y] exI [of _ b]) (auto simp del: ob_perform.simps)
qed


section \<open>Notifying a value\<close>

lemma size_pad [simp]: "st_size (st_pad q) = st_size q"
  by (auto simp: st_size_def st_pad_def split: option.splits list.splits)

lemma size_push: "st_size (st_push e q) = st_size q + 1"
  by (simp add: st_push_def) (simp add: st_size_def)

lemma size_new: "st_size new_strand = 0"
  by (simp add: st_size_def new_strand_def)

definition pushedTo :: "'v observable \<Rightarrow> nat \<Rightarrow> 'v list option" where
  "pushedTo x i = map_option si_pushed (map_of (ob_subscriptions x) i)"

lemma flush_pushed [simp]: "si_pushed (flushEvents b) = si_pushed b"
  by (simp add: flushEvents_def split: option.splits)

lemma updated_lookup:
  "map_of (updateSubscription i b' subs) j = (if j = i then map_option (\<lambda>_. b') (map_of subs i) else map_of subs j)"
  by (induction subs) (auto simp: updateSubscription_def)

lemma erased_pushed: "map_of (filter (\<lambda>(j, c). j \<noteq> i) subs) j = (if j = i then None else map_of subs j)"
  by (induction subs) auto

lemma unsubscribe_pushed:
  "pushedTo (snd (unsubscribeInternal i x)) j = pushedTo x j \<or> pushedTo (snd (unsubscribeInternal i x)) j = None"
proof (cases "map_of (ob_subscriptions x) i")
  case (Some b)
  obtain g b' where d: "chk2DisposeExecutionQueue b = (g, b')" by force
  then have "si_pushed b' = si_pushed b"
    by (auto simp: chk2DisposeExecutionQueue_def Let_def split: option.splits if_splits)
  with Some d show ?thesis
    by (cases g) (simp_all add: unsubscribeInternal_def pushedTo_def eraseSubscription_def erased_pushed updated_lookup)
qed (simp add: unsubscribeInternal_def)

lemma check_pushed:
  assumes "checkSubscribersQueues x = (e, y)"
  shows "pushedTo y j = pushedTo x j \<or> pushedTo y j = None"
proof -
  let ?x = "x\<lparr>ob_subscriptions := map (\<lambda>(i, b). (i, snd (popFailed b))) (ob_subscriptions x)\<rparr>"
  obtain "is" where y: "y = fold (\<lambda>i y. snd (unsubscribeInternal i y)) is ?x"
    using assms by (auto simp: checkSubscribersQueues_def popAllFailed_eq Let_def)
  have "si_pushed (snd (popFailed b)) = si_pushed b" for b :: "'a subscription"
    by (simp add: popFailed_def split: option.splits list.splits)
  then have "pushedTo ?x j = pushedTo x j"
    by (simp add: pushedTo_def map_of_map option.map_comp comp_def)
  moreover have "pushedTo (fold (\<lambda>i y. snd (unsubscribeInternal i y)) is z) j = pushedTo z j
      \<or> pushedTo (fold (\<lambda>i y. snd (unsubscribeInternal i y)) is z) j = None" for z :: "'a observable"
  proof (induction "is" arbitrary: z)
    case (Cons i "is")
    from Cons [of "snd (unsubscribeInternal i z)"] unsubscribe_pushed [of i z j] show ?case by auto
  qed simp
  ultimately show ?thesis unfolding y by metis
qed

lemma push_fits:
  assumes "\<not> rejects m b"
  shows "\<exists>q. si_eventsQueue (snd (pushNext v AllocOk b)) = Some q \<and> (m = 0 \<or> st_size q \<le> m)"
proof (cases "si_eventsQueue b")
  case None
  then have "si_eventsQueue (snd (pushNext v AllocOk b)) = Some (st_push (EvNext v) new_strand)"
    by (simp add: pushNext_def chk2InitExecutionQueue_def pushEvent_def)
  then show ?thesis by (auto simp: size_push size_new)
next
  case (Some q)
  then have "si_eventsQueue (snd (pushNext v AllocOk b)) = Some (st_push (EvNext v) q)"
    by (simp add: pushNext_def chk2InitExecutionQueue_def pushEvent_def)
  moreover have "m = 0 \<or> st_size q < m" using assms Some by (auto simp: rejects_def)
  ultimately show ?thesis by (auto simp: size_push)
qed

text \<open>
  While memory lasts, notifying a value gives it to every remaining subscription or to none: on
  success each of them has it as its newest value, fits the throttle limit and had no completion
  scheduled in its queue; when it is refused or an exception is thrown nobody gets it.
\<close>

theorem ob_all_or_none:
  assumes "notifyOnNext (\<lambda>_. AllocOk) v x = (r, y)"
  shows "(\<forall>i vs. pushedTo y i = Some vs \<longrightarrow>
         (\<exists>ws. pushedTo x i = Some ws \<and> vs = (if r = Inr True then ws @ [v] else ws)))
     \<and> (r = Inr True \<longrightarrow> (\<forall>(i, b) \<in> set (ob_subscriptions y). \<exists>q. si_eventsQueue b = Some q
         \<and> (ob_maxPendingEvents y = 0 \<or> st_size q \<le> ob_maxPendingEvents y)))"
proof (cases "\<not> ob_allowNoSubscribers x \<and> ob_subscriptions x = []")
  case True
  with assms show ?thesis by (auto simp: notifyOnNext_def)
next
  case False
  obtain e x1 where c: "checkSubscribersQueues x = (e, x1)" by force
  let ?m = "ob_maxPendingEvents x1"
  let ?push = "\<lambda>i :: nat. pushNext v AllocOk"
  have out: ?thesis if "y = x1" "r \<noteq> Inr True"
    using that check_pushed [OF c] by (metis option.distinct(1))
  show ?thesis
  proof (cases "e = None \<and> \<not> list_ex (\<lambda>(i, b). rejects ?m b) (ob_subscriptions x1)")
    case o: False
    with assms False c have "y = x1 \<and> r \<noteq> Inr True" by (auto simp: notifyOnNext_def split: option.splits if_splits)
    with out show ?thesis by blast
  next
    case True
    have ok: "fst (pushNext v AllocOk b) = None" "si_pushed (snd (pushNext v AllocOk b)) = si_pushed b @ [v]" for b
      by (simp_all add: pushNext_def chk2InitExecutionQueue_def pushEvent_def split: option.splits)
    have "fst (tryForEachSubscription ?push subs) = None" for subs
    proof (induction subs)
      case (Cons p subs)
      then show ?case using ok(1) by (cases p) (simp add: case_prod_unfold Let_def)
    qed simp
    then have t: "tryForEachSubscription ?push (ob_subscriptions x1)
        = (None, map (\<lambda>(i, b). (i, snd (?push i b))) (ob_subscriptions x1))"
      by (intro prod_eqI) (simp_all add: tryForEach_map)
    have y: "y = x1\<lparr>ob_subscriptions := map (\<lambda>(i, b). (i, snd (?push i b))) (ob_subscriptions x1)\<rparr>" "r = Inr True"
      using assms False c True t by (auto simp: notifyOnNext_def)
    have p: "pushedTo y i = map_option (\<lambda>ws. ws @ [v]) (pushedTo x1 i)" for i
      by (simp add: y pushedTo_def map_of_map option.map_comp comp_def ok(2))
    have m: "ob_maxPendingEvents y = ?m" by (simp add: y(1))
    have fits: "\<exists>q. si_eventsQueue b' = Some q \<and> (ob_maxPendingEvents y = 0 \<or> st_size q \<le> ob_maxPendingEvents y)"
      if "(i, b') \<in> set (ob_subscriptions y)" for i b'
    proof -
      from that have "(i, b') \<in> (\<lambda>(i, b). (i, snd (?push i b))) ` set (ob_subscriptions x1)" by (simp add: y(1))
      then obtain b where b: "(i, b) \<in> set (ob_subscriptions x1)" "b' = snd (pushNext v AllocOk b)" by auto
      have "\<not> rejects ?m b" using True b(1) by (auto simp: list_ex_iff)
      then show ?thesis unfolding b(2) m by (rule push_fits)
    qed
    have "\<forall>(i, b) \<in> set (ob_subscriptions y). \<exists>q. si_eventsQueue b = Some q
         \<and> (ob_maxPendingEvents y = 0 \<or> st_size q \<le> ob_maxPendingEvents y)"
      by clarify (rule fits)
    moreover have "\<forall>i vs. pushedTo y i = Some vs \<longrightarrow> (\<exists>ws. pushedTo x i = Some ws \<and> vs = ws @ [v])"
    proof (intro allI impI)
      fix i vs assume "pushedTo y i = Some vs"
      then obtain ws where "pushedTo x1 i = Some ws" "vs = ws @ [v]" using p by auto
      with check_pushed [OF c, of i] show "\<exists>ws. pushedTo x i = Some ws \<and> vs = ws @ [v]" by auto
    qed
    ultimately show ?thesis using y(2) by simp
  qed
qed


lemma ob_all_or_none_witness:
  "\<exists>(x :: nat observable) y. notifyOnNext (\<lambda>_. AllocOk) 7 x = (Inr True, y) \<and> pushedTo x 0 = Some [5, 6] \<and> pushedTo y 0 = Some [5, 6, 7]"
proof -
  have "map_option (\<lambda>x. (pushedTo x 0, fst (notifyOnNext (\<lambda>_. AllocOk) 7 x), pushedTo (snd (notifyOnNext (\<lambda>_. AllocOk) 7 x)) 0 \<noteq> None))
      (ob_runs True 0 [ObSubscribe 0, ObStart, ObTimer (plain_round [5, 6] LoopAgain)] (new_observable False :: nat observable))
      = Some (Some [5, 6], Inr True, True)" by code_simp
  then obtain x :: "nat observable" where x: "pushedTo x 0 = Some [5, 6]" "fst (notifyOnNext (\<lambda>_. AllocOk) 7 x) = Inr True"
    "pushedTo (snd (notifyOnNext (\<lambda>_. AllocOk) 7 x)) 0 \<noteq> None" by (rule run_gives) auto
  then obtain y where y: "notifyOnNext (\<lambda>_. AllocOk) 7 x = (Inr True, y)" by (metis prod.collapse)
  with x(3) obtain vs where vs: "pushedTo y 0 = Some vs" by auto
  with ob_all_or_none [OF y] have "\<exists>ws. pushedTo x 0 = Some ws \<and> vs = ws @ [7]" by simp
  with x(1) y vs show ?thesis by (intro exI [of _ x] exI [of _ y]) simp
qed

section \<open>Where the disposal and the removal of subscribers fall short\<close>

definition late_demo :: "nat ob_action list" where
  "late_demo = [ObSubscribe 0, ObSubscribe 1, ObStart, ObTimer (plain_round [5] LoopAgain)] @ answered 0 CbAccept
     @ [ObCallBegin 1, ObDispose None (\<lambda>_. AllocOk)] @ answered 0 CbAccept
     @ [ObDispose None (\<lambda>_. AllocOk), ObCallEnd 1 (CbThrow ObDisconnected),
        ObTimer (plain_round [] LoopAgain), ObCallBegin 1, ObTimer (plain_round [6] LoopAgain), ObCallBegin 0]"

text \<open>
  An observer can get a value after its completion.  A pass of \<open>dispose\<close> completes and releases
  the queue of the first subscription while the second is still in a callback; the callback throws,
  the second subscription is removed, and the next value passes the check, which skips subscriptions
  without a queue before it looks at the scheduled completion.
\<close>

theorem ob_value_after_completion:
  "\<exists>x b. ob_reach False 0 x \<and> (0, b) \<in> set (ob_subscriptions x) \<and> si_calls b = [OnNext (5 :: nat), OnCompleted, OnNext 6]"
proof -
  have "map_option (\<lambda>x. map (\<lambda>(i, b). (i, si_calls b)) (ob_subscriptions x)) (ob_runs False 0 late_demo (new_observable True))
      = Some [(0, [OnNext 5, OnCompleted, OnNext 6])]" by code_simp
  then obtain x :: "nat observable" where x: "ob_reach False 0 x"
    "map (\<lambda>(i, b). (i, si_calls b)) (ob_subscriptions x) = [(0, [OnNext 5, OnCompleted, OnNext 6])]" by (rule run_gives)
  then obtain b where "(0, b) \<in> set (ob_subscriptions x)" "si_calls b = [OnNext 5, OnCompleted, OnNext 6]"
    by (cases "ob_subscriptions x") auto
  with x(1) show ?thesis by (intro exI [of _ x] exI [of _ b]) simp
qed

definition lost_demo :: "nat ob_action list" where
  "lost_demo = [ObSubscribe 0, ObStart, ObTimer (plain_round [5] LoopFinished)] @ answered 0 CbAccept
     @ [ObDispose None (\<lambda>_. AllocOk), ObCallBegin 0, ObTimer (plain_round [] LoopAgain), ObCallBegin 0,
        ObTimer (plain_round [] LoopAgain)]"

text \<open>
  A completion can be lost altogether.  Disposal cancels a completion that is scheduled but has
  not started and schedules it again; the cancelled task fails, the running observable takes that for
  a failed subscriber and flushes its queue, which cancels the second completion too.  The observer
  never threw, the observable ends, and \<open>onCompleted\<close> is never called.
\<close>

theorem ob_completion_lost:
  "\<exists>x b. ob_reach True 0 x \<and> ob_state x = Completed \<and> ob_gone x = [(0, b)]
     \<and> si_calls b = [OnNext (5 :: nat)] \<and> si_completedScheduled b \<and> \<not> si_threw b"
proof -
  have "map_option (\<lambda>x. (ob_state x, map (\<lambda>(i, b). (i, si_calls b, si_completedScheduled b, si_threw b)) (ob_gone x)))
        (ob_runs True 0 lost_demo (new_observable True))
      = Some (Completed, [(0, [OnNext 5], True, False)])" by code_simp
  then obtain x :: "nat observable" where x: "ob_reach True 0 x" "ob_state x = Completed"
    "map (\<lambda>(i, b). (i, si_calls b, si_completedScheduled b, si_threw b)) (ob_gone x) = [(0, [OnNext 5], True, False)]"
    by (rule run_gives) simp
  then obtain b where "ob_gone x = [(0, b)]" "si_calls b = [OnNext 5]" "si_completedScheduled b" "\<not> si_threw b" by auto
  with x(1,2) show ?thesis by (intro exI [of _ x] exI [of _ b]) simp
qed

definition stays_demo :: "nat ob_action list" where
  "stays_demo = [ObSubscribe 0, ObStart, ObTimer (plain_round [5, 6, 7] LoopAgain), ObCallBegin 0,
     ObCallEnd 0 (CbThrow ObDisconnected), ObCallBegin 0, ObTimer (plain_round [8] LoopAgain), ObCallEnd 0 CbAccept,
     ObCallBegin 0]"

text \<open>
  A failed subscriber is not always removed.  When the next event of its queue is already being
  delivered, the removal only discards the pending events and its failure is ignored: the subscriber
  that disconnected stays, misses the discarded value and is offered the later ones.
\<close>

theorem ob_failed_stays:
  "\<exists>x b. ob_reach True 0 x \<and> (0, b) \<in> set (ob_subscriptions x) \<and> si_threw b \<and> si_dropped b = [7]
     \<and> si_calls b = [OnNext (5 :: nat), OnNext 6, OnNext 8] \<and> failedEvents b = [] \<and> \<not> ob_stopRequested x"
proof -
  have "map_option (\<lambda>x. (ob_stopRequested x, map (\<lambda>(i, b). (i, si_calls b, si_dropped b, si_threw b, failedEvents b)) (ob_subscriptions x)))
        (ob_runs True 0 stays_demo (new_observable False))
      = Some (False, [(0, [OnNext 5, OnNext 6, OnNext 8], [7], True, [])])" by code_simp
  then obtain x :: "nat observable" where x: "ob_reach True 0 x" "\<not> ob_stopRequested x"
    "map (\<lambda>(i, b). (i, si_calls b, si_dropped b, si_threw b, failedEvents b)) (ob_subscriptions x)
      = [(0, [OnNext 5, OnNext 6, OnNext 8], [7], True, [])]" by (rule run_gives) simp
  then obtain b where "ob_subscriptions x = [(0, b)]" "si_calls b = [OnNext 5, OnNext 6, OnNext 8]" "si_dropped b = [7]"
    "si_threw b" "failedEvents b = []" by auto
  with x(1,2) show ?thesis by (intro exI [of _ x] exI [of _ b]) simp
qed

end
