(* ===== verification/ObservableStrand.thy ===== *)
theory ObservableStrand
  imports EqRuns ObservableInvariant
begin

text \<open>
  The events queue of a subscription is an execution queue with \<open>maxExecuting\<close> 1 that keeps failed
  tasks.  What the observable needs of it is the locale \<open>stranded\<close>; the execution queue of the
  development provides it.
\<close>

section \<open>The interface\<close>

datatype 'v strand_op = StPush "'v event" | StFlush | StComplete "ob_exc option"

fun st_apply :: "'v strand_op \<Rightarrow> 'v strand \<Rightarrow> 'v strand" where
  "st_apply (StPush e) q = st_push e q"
| "st_apply StFlush q = st_flush q"
| "st_apply (StComplete x) q = st_complete x q"

locale stranded =
  fixes represents :: "'q \<Rightarrow> 'v strand \<Rightarrow> bool"
    and step :: "'v strand_op \<Rightarrow> 'q \<Rightarrow> 'q \<Rightarrow> bool"
    and size_of :: "'q \<Rightarrow> nat"
    and empty :: "'q \<Rightarrow> bool"
  assumes simulates: "represents s q \<Longrightarrow> step op s s' \<Longrightarrow> represents s' (st_apply op q)"
    and same_size: "represents s q \<Longrightarrow> size_of s = st_size q"
    and same_empty: "represents s q \<Longrightarrow> empty s \<longleftrightarrow> st_isEmpty q"
begin

inductive history :: "'v strand_op list \<Rightarrow> 'q \<Rightarrow> 'q \<Rightarrow> bool" where
  Nil: "history [] s s"
| Snoc: "history ops s s' \<Longrightarrow> step op s' s'' \<Longrightarrow> history (ops @ [op]) s s''"

lemma history_represents:
  assumes "history ops s s'" "represents s q"
  shows "represents s' (fold st_apply ops q)"
  using assms by induction (auto intro: simulates)

lemma history_size:
  assumes "history ops s s'" "represents s q"
  shows "size_of s' = st_size (fold st_apply ops q) \<and> (empty s' \<longleftrightarrow> st_isEmpty (fold st_apply ops q))"
  using history_represents [OF assms] same_size same_empty by blast

end

section \<open>The execution queue as a strand\<close>

definition strand_view :: "(nat \<Rightarrow> 'v event) \<Rightarrow> aqueue \<Rightarrow> 'v strand \<Rightarrow> bool" where
  "strand_view ev q st \<longleftrightarrow> st_pending st = map ev (aq_pending q)
     \<and> map ev (aq_executing q) = (case st_executing st of None \<Rightarrow> [] | Some s \<Rightarrow> [sl_event s])
     \<and> length (aq_ready q) = length (st_failed st)"

definition is_strand :: "(nat \<Rightarrow> 'v event) \<Rightarrow> eq_state \<Rightarrow> 'v strand \<Rightarrow> bool" where
  "is_strand ev s st \<longleftrightarrow> wf_eq s \<and> m_maxExecuting s = 1 \<and> m_maxReadyOrExecuting s = 0
     \<and> m_options s = OptionKeepFailed \<and> strand_view ev (absq s) st"

text \<open>The operations of the execution queue that the observable and the tasks of its events perform.\<close>

definition queue_step ::
  "(nat \<Rightarrow> task_class) \<Rightarrow> (nat \<Rightarrow> 'v event) \<Rightarrow> 'v strand_op \<Rightarrow> eq_state \<Rightarrow> eq_state \<Rightarrow> bool" where
  "queue_step K ev op s s' \<longleftrightarrow> (case op of
     StPush e \<Rightarrow> (\<exists>t. ev t = e \<and> \<not> aq_member t (absq s) \<and> push_back K t False s = Inr s')
   | StFlush \<Rightarrow> forceFlushNoThrow K [] False s = Inr (Returned () s')
   | StComplete x \<Rightarrow> (\<exists>t n g. completing K t s \<and> continuationTask t (m_tasks s t) = ContNone
       \<and> (completesFailed t s \<longleftrightarrow> x \<noteq> None) \<and> onReady K t s = Inr (n, g, s')))"

lemma strand_pad:
  assumes "strand_view ev q st" "m_maxExecuting s = 1" "m_maxReadyOrExecuting s = 0"
  shows "strand_view ev (padq s q) (st_pad st)"
proof (cases "st_executing st")
  case None
  with assms(1) have "aq_executing q = []" by (simp add: strand_view_def)
  with assms None show ?thesis
    by (cases "aq_pending q") (auto simp: strand_view_def padq_def aq_pad_def aq_slots_def st_pad_def)
next
  case (Some e)
  with assms(1) have "length (aq_executing q) = 1" by (simp add: strand_view_def) (metis length_map length_Cons list.size(3) One_nat_def)
  with assms Some show ?thesis
    by (auto simp: strand_view_def padq_def aq_pad_def aq_slots_def st_pad_def)
qed

lemma strand_push:
  assumes "never_aborts K" "is_strand ev s st" "\<not> aq_member t (absq s)" "push_back K t False s = Inr s'"
  shows "is_strand ev s' (st_push (ev t) st)"
proof -
  have w: "wf_eq s" and v: "strand_view ev (absq s) st" and c: "m_maxExecuting s = 1" "m_maxReadyOrExecuting s = 0"
    using assms(2) by (simp_all add: is_strand_def)
  have a: "admissible s t" and p: "pushInternalNoLock K True t False s = Inr s'"
    using assms(3,4) by (auto simp: push_back_def pushInternal_def bindR_eq_Inr chkR_def admissible_def aq_member_def split: if_splits)
  have "steps_to s s' (padq s (aq_push True t False (absq s))) 1"
    using push_ok [OF assms(1) w a, of True False] p by (metis Inr_inject sum.distinct(1))
  moreover have "aq_push True t False (absq s) = (absq s)\<lparr>aq_pending := aq_pending (absq s) @ [t]\<rparr>"
    using assms(3) by (simp add: aq_push_def aq_member_def insertAt_def)
  moreover have "strand_view ev ((absq s)\<lparr>aq_pending := aq_pending (absq s) @ [t]\<rparr>) (st\<lparr>st_pending := st_pending st @ [ev t]\<rparr>)"
    using v by (simp add: strand_view_def)
  ultimately show ?thesis using strand_pad [OF _ c] assms(2)
    by (auto simp: is_strand_def steps_to_def config_def st_push_def)
qed


lemma strand_flush:
  assumes "is_strand ev s st"
  shows "\<exists>s'. forceFlushNoThrow K [] False s = Inr (Returned () s') \<and> is_strand ev s' (st_flush st)"
proof -
  have w: "wf_eq s" and v: "strand_view ev (absq s) st" using assms by (simp_all add: is_strand_def)
  show ?thesis
  proof (cases "aq_empty (absq s)")
    case True
    with v have "st_flush st = st"
      by (simp add: strand_view_def aq_empty_def st_flush_def split: option.splits)
    with True assms isEmptyInternal_ok [OF w] show ?thesis
      by (simp add: forceFlushNoThrow_def flushInternal_def noexceptR_def andThen_def)
  next
    case False
    obtain s2 where s2: "clearPending s = Inr s2" "wf_eq s2" "absq s2 = (absq s)\<lparr>aq_pending := []\<rparr>" "config s2 = config s"
      using clearPending_ok [OF w] by blast
    obtain s3 where s3: "cancelExecutingTasks K s2 = Inr s3" "wf_eq s3" "absq s3 = absq s2" "config s3 = config s2"
      using cancelExecutingTasks_ok [OF s2(2), of K] by (auto simp: steps_to_def)
    obtain s4 where s4: "clearReady s3 = Inr s4" "wf_eq s4" "absq s4 = (absq s3)\<lparr>aq_ready := []\<rparr>" "config s4 = config s3"
      using clearReady_ok [OF s3(2)] by blast
    have "forceFlushNoThrow K [] False s = Inr (Returned () s4)"
      using False isEmptyInternal_ok [OF w] s2(1) s3(1) s4(1)
      by (simp add: forceFlushNoThrow_def flushInternal_def noexceptR_def andThen_def flushEnd_def)
    moreover have "strand_view ev (absq s4) (st_flush st)"
      using v by (auto simp: strand_view_def s4(3) s3(3) s2(3) st_flush_def split: option.splits)
    moreover have "config s4 = config s" using s2(4) s3(4) s4(4) by simp
    ultimately show ?thesis using assms s4(2) by (auto simp: is_strand_def config_def)
  qed
qed

lemma strand_complete:
  assumes "never_aborts K" "is_strand ev s st" "completing K t s" "continuationTask t (m_tasks s t) = ContNone"
    "completesFailed t s \<longleftrightarrow> x \<noteq> None"
  shows "\<exists>n g s'. onReady K t s = Inr (n, g, s') \<and> is_strand ev s' (st_complete x st)"
proof -
  have w: "wf_eq s" and v: "strand_view ev (absq s) st" and c: "m_maxExecuting s = 1" "m_maxReadyOrExecuting s = 0"
    and o: "m_options s = OptionKeepFailed" using assms(2) by (simp_all add: is_strand_def)
  have "continuationTask t (m_tasks s t) \<noteq> ContTask t" using assms(4) by simp
  then obtain n g s' where s': "onReady K t s = Inr (n, g, s')" "wf_eq s'" "absq s' = completed t s" "config s' = config s"
    by (rule onReady_other [OF assms(1) w assms(3)]) blast
  have te: "t \<in> set (aq_executing (absq s))" using assms(3) by (simp add: completing_def)
  then obtain e where e: "st_executing st = Some e" "aq_executing (absq s) = [t]"
    using v by (cases "aq_executing (absq s)") (auto simp: strand_view_def split: option.splits)
  have k: "keepWhen (completesFailed t s) s \<longleftrightarrow> x \<noteq> None"
    using assms(5) by (simp add: keepWhen_def o OptionKeepFailed_def OptionKeepSuccessful_def)
  have "strand_view ev (aq_retire t (keepWhen (completesFailed t s) s) (absq s))
      (st\<lparr>st_executing := None, st_failed := (case x of None \<Rightarrow> st_failed st | Some y \<Rightarrow> st_failed st @ [y])\<rparr>)"
    using v e k by (auto simp: strand_view_def aq_retire_def split: option.splits)
  from strand_pad [OF this c] have "strand_view ev (absq s') (st_complete x st)"
    using assms(4) by (simp add: s'(3) completed_def continued_def st_complete_def)
  with s' assms(2) show ?thesis by (auto simp: is_strand_def config_def)
qed

lemma abs_distinct:
  assumes "wf_eq s"
  shows "distinct (aq_pending (absq s) @ aq_executing (absq s) @ aq_ready (absq s))"
proof -
  let ?l = "m_pending s @ m_executing s @ m_ready s"
  have "distinct ?l" using wf_eqD [OF assms] wf_members [OF assms] by (auto simp: wf_lists_def linked_def)
  moreover have "inj_on (taskAt (m_infos s)) (set ?l)"
    by (rule inj_tasks) (use wf_eqD [OF assms] wf_members [OF assms] in auto)
  ultimately have "distinct (map (taskAt (m_infos s)) ?l)" unfolding distinct_map by blast
  then show ?thesis by (simp only: absq_def aqueue.simps map_append)
qed

lemma strand_size:
  assumes "is_strand ev s st"
  shows "eq_size s = st_size st"
proof -
  have w: "wf_eq s" and v: "strand_view ev (absq s) st" using assms by (simp_all add: is_strand_def)
  let ?q = "absq s"
  have "distinct (map fst (m_allTasks s))" using wf_eqD [OF w] by (simp add: wf_map_def)
  then have "eq_size s = card (fst ` set (m_allTasks s))"
    by (metis distinct_card eq_size_def length_map list.set_map)
  also have "fst ` set (m_allTasks s) = {t. aq_member t ?q}"
    using lookup_member [OF w] by (auto simp: map_of_eq_None_iff)
  also have "\<dots> = set (aq_pending ?q @ aq_executing ?q @ aq_ready ?q)" by (auto simp: aq_member_def)
  also have "card \<dots> = length (aq_pending ?q @ aq_executing ?q @ aq_ready ?q)"
    by (rule distinct_card) (rule abs_distinct [OF w])
  also have "\<dots> = st_size st"
  proof -
    have "length (aq_executing ?q) = (case st_executing st of None \<Rightarrow> 0 | Some s \<Rightarrow> 1)"
      using v by (simp add: strand_view_def split: option.splits)
        (metis One_nat_def length_Cons length_map list.size(3))
    then show ?thesis using v by (simp add: strand_view_def st_size_def)
  qed
  finally show ?thesis .
qed


lemma strand_empty:
  assumes "is_strand ev s st"
  shows "isEmpty s = Inr (st_isEmpty st)"
  using assms isEmptyInternal_ok [of s]
  by (auto simp: isEmpty_def is_strand_def strand_view_def st_isEmpty_def aq_empty_def split: option.splits)

interpretation events_queue: stranded "\<lambda>s st. never_aborts K \<and> is_strand ev s st" "queue_step K ev" eq_size
  "\<lambda>s. isEmpty s = Inr True" for K and ev :: "nat \<Rightarrow> 'v event"
proof unfold_locales
  fix s s' and st :: "'v strand" and op
  assume r: "never_aborts K \<and> is_strand ev s st" and q: "queue_step K ev op s s'"
  show "never_aborts K \<and> is_strand ev s' (st_apply op st)"
  proof (cases op)
    case (StPush e)
    with q r show ?thesis by (auto simp: queue_step_def intro: strand_push)
  next
    case StFlush
    with q r strand_flush [of ev s st K] show ?thesis by (auto simp: queue_step_def)
  next
    case (StComplete x)
    with q r strand_complete [of K ev s st] show ?thesis by (fastforce simp: queue_step_def)
  qed
qed (auto simp: strand_size strand_empty)

lemma new_strand_represents:
  assumes "\<forall>t. m_hasException (tasks t) \<longleftrightarrow> m_exception (tasks t) \<noteq> None"
  shows "is_strand ev (new_queue OptionKeepFailed 1 tasks) new_strand"
  using wf_new_queue [OF assms] by (simp add: is_strand_def strand_view_def new_strand_def) (simp add: new_queue_def absq_def)

text \<open>
  The events queue the observable creates behaves as the strand of the model through any history
  of pushes of new event tasks, forced flushes that do not wait and completions of the executing
  task: its pending, executing and failed tasks are the events of the strand, in order, and its size
  and emptiness, on which throttling and disposal decide, are those of the strand.
\<close>

theorem ob_strand_history:
  assumes "never_aborts K" "\<forall>t. m_hasException (tasks t) \<longleftrightarrow> m_exception (tasks t) \<noteq> None"
    and "events_queue.history K ev ops (new_queue OptionKeepFailed 1 tasks) s"
  shows "is_strand ev s (fold st_apply ops new_strand)
     \<and> eq_size s = st_size (fold st_apply ops new_strand)
     \<and> (isEmpty s = Inr True \<longleftrightarrow> st_isEmpty (fold st_apply ops new_strand))"
  using events_queue.history_represents [OF assms(3)] events_queue.history_size [OF assms(3)]
    new_strand_represents [OF assms(2)] assms(1) by blast


lemma ob_strand_history_witness:
  "\<exists>s. events_queue.history simple_tasks (\<lambda>t. EvNext t) [StPush (EvNext 7), StPush (EvNext 8), StFlush]
       (new_queue OptionKeepFailed 1 (\<lambda>_. new_task)) s \<and> eq_size s = 1"
proof -
  let ?s0 = "new_queue OptionKeepFailed 1 (\<lambda>_. new_task)"
  obtain s1 s2 where s1: "push_back simple_tasks 7 False ?s0 = Inr s1" and s2: "push_back simple_tasks 8 False s1 = Inr s2"
    and m: "\<not> aq_member 7 (absq ?s0)" "\<not> aq_member 8 (absq s1)"
    by (simp add: push_back_def eval_queue eval_task aq_member_def)
  have e: "\<forall>t. m_hasException ((\<lambda>_ :: nat. new_task) t) \<longleftrightarrow> m_exception ((\<lambda>_. new_task) t) \<noteq> None"
    by (simp add: new_task_def)
  have h2: "events_queue.history simple_tasks (\<lambda>t. EvNext t) (([] @ [StPush (EvNext 7)]) @ [StPush (EvNext 8)]) ?s0 s2"
    by (intro events_queue.Snoc [OF events_queue.Snoc [OF events_queue.Nil]])
      (use s1 s2 m in \<open>auto simp: queue_step_def\<close>)
  have "is_strand (\<lambda>t. EvNext t) s2 (fold st_apply (([] @ [StPush (EvNext 7)]) @ [StPush (EvNext 8)]) new_strand)"
    using ob_strand_history [OF simple_tasks_ok e h2] by blast
  then obtain s3 where "forceFlushNoThrow simple_tasks [] False s2 = Inr (Returned () s3)" using strand_flush by blast
  then have h3: "events_queue.history simple_tasks (\<lambda>t. EvNext t)
      ((([] @ [StPush (EvNext 7)]) @ [StPush (EvNext 8)]) @ [StFlush]) ?s0 s3"
    by (intro events_queue.Snoc [OF h2]) (simp add: queue_step_def)
  from ob_strand_history [OF simple_tasks_ok e h3] h3 show ?thesis
    by (intro exI [of _ s3])
      (simp add: st_push_def st_pad_def st_flush_def st_size_def new_strand_def)
qed

end
