(* ===== verification/ChunkStorage.thy ===== *)
theory ChunkStorage
  imports DataBlock
begin

text \<open>
  The storages of data chunks on a file system, \<open>messaging/DataChunkStorageFilesystem.h\<close>: one file
  per chunk, and one file for all chunks with a header in front of each.  The C file functions of
  \<open>core/OS.h\<close> work on a file in memory; where a write fails, an argument says how many of its
  bytes reach the file.  File positions are bounded by \<open>off_t\<close>, so they are natural numbers.
\<close>

unbundle bit_operations_syntax

section \<open>Files\<close>

datatype storage_exc = ChunkDoesNotExist | BlockTooSmall | UseAfterDispose | InvalidFileFormat | IoError
  | StorageAssert exc

type_synonym uuid = "128 word"

record stdio_file =
  sf_bytes :: "byte list"
  sf_pos :: nat

definition fseek_set :: "nat \<Rightarrow> stdio_file \<Rightarrow> stdio_file" where
  "fseek_set pos f = f\<lparr>sf_pos := pos\<rparr>"

definition fseek_end :: "stdio_file \<Rightarrow> stdio_file" where
  "fseek_end f = f\<lparr>sf_pos := length (sf_bytes f)\<rparr>"

text \<open>Bytes written at the position; a gap after the end of the file is filled with zeros.\<close>

definition file_write :: "byte list \<Rightarrow> stdio_file \<Rightarrow> stdio_file" where
  "file_write bs f =
     (let old = sf_bytes f @ replicate (sf_pos f - length (sf_bytes f)) 0
      in f\<lparr>sf_bytes := take (sf_pos f) old @ bs @ drop (sf_pos f + length bs) old, sf_pos := sf_pos f + length bs\<rparr>)"

text \<open>\<open>fault\<close>: the write fails after that many bytes.\<close>

definition os_fwrite :: "nat option \<Rightarrow> byte list \<Rightarrow> stdio_file \<Rightarrow> (storage_exc + unit) \<times> stdio_file" where
  "os_fwrite fault bs f = (case fault of
     None \<Rightarrow> (Inr (), file_write bs f) | Some k \<Rightarrow> (Inl IoError, file_write (take k bs) f))"

definition os_fread :: "nat \<Rightarrow> stdio_file \<Rightarrow> (storage_exc + byte list) \<times> stdio_file" where
  "os_fread n f =
     (let bs = take n (drop (sf_pos f) (sf_bytes f)) in
      (if length bs = n then Inr bs else Inl IoError, f\<lparr>sf_pos := sf_pos f + length bs\<rparr>))"

section \<open>Chunk headers\<close>

definition CHUNK_FLAG_DELETED :: "32 word" where "CHUNK_FLAG_DELETED = 1"

text \<open>The structure as it lies in memory: the compiler pads it to 40 bytes.\<close>

record chunk_header =
  ch_chunkId :: uuid
  ch_pos :: "64 word"
  ch_size :: "64 word"
  ch_flags :: "32 word"
  ch_padding :: "32 word"

definition sizeof_header :: nat where "sizeof_header = 40"

definition header_bytes :: "chunk_header \<Rightarrow> byte list" where
  "header_bytes h = le_bytes 16 (uint (ch_chunkId h)) @ le_bytes 8 (uint (ch_pos h)) @ le_bytes 8 (uint (ch_size h))
     @ le_bytes 4 (uint (ch_flags h)) @ le_bytes 4 (uint (ch_padding h))"

definition slice_int :: "nat \<Rightarrow> nat \<Rightarrow> byte list \<Rightarrow> int" where
  "slice_int a n bs = bytes_int (take n (drop a bs))"

definition header_of :: "byte list \<Rightarrow> chunk_header" where
  "header_of bs = \<lparr>ch_chunkId = word_of_int (slice_int 0 16 bs), ch_pos = word_of_int (slice_int 16 8 bs),
     ch_size = word_of_int (slice_int 24 8 bs), ch_flags = word_of_int (slice_int 32 4 bs),
     ch_padding = word_of_int (slice_int 36 4 bs)\<rparr>"

definition isDeleted :: "chunk_header \<Rightarrow> bool" where
  "isDeleted h \<longleftrightarrow> (ch_flags h) AND CHUNK_FLAG_DELETED \<noteq> 0"

section \<open>The storage in a single file\<close>

record single_file =
  cs_file :: stdio_file
  cs_activeChunks :: "uuid \<rightharpoonup> chunk_header"
  cs_disposed :: bool

type_synonym 'a cs_op = "single_file \<Rightarrow> (storage_exc + 'a) \<times> single_file"

text \<open>\<open>emplace\<close> keeps an entry that is already there.\<close>

definition emplaceChunk :: "chunk_header \<Rightarrow> (uuid \<rightharpoonup> chunk_header) \<Rightarrow> (uuid \<rightharpoonup> chunk_header)" where
  "emplaceChunk h m = (if m (ch_chunkId h) = None then m(ch_chunkId h \<mapsto> h) else m)"

text \<open>The loop of \<open>loadChunksData\<close>; \<open>pos\<close> grows by at least a header in every round.\<close>

function loadLoop ::
  "nat \<Rightarrow> nat \<Rightarrow> stdio_file \<Rightarrow> (uuid \<rightharpoonup> chunk_header) \<Rightarrow> (storage_exc + (uuid \<rightharpoonup> chunk_header)) \<times> stdio_file" where
  "loadLoop sz pos f m =
     (if \<not> pos < sz then (Inr m, f)
      else if \<not> pos + sizeof_header \<le> sz then (Inl InvalidFileFormat, f)
      else (case os_fread sizeof_header f of
          (Inl e, f1) \<Rightarrow> (Inl e, f1)
        | (Inr bs, f1) \<Rightarrow>
            (let h = header_of bs; pos1 = pos + sizeof_header in
             if unat (ch_pos h) \<noteq> pos then (Inl InvalidFileFormat, f1)
             else if ch_size h \<noteq> 0 \<and> \<not> unat (ch_size h) \<le> sz - pos1 then (Inl InvalidFileFormat, f1)
             else let pos2 = pos1 + unat (ch_size h);
                      f2 = (if ch_size h \<noteq> 0 then fseek_set pos2 f1 else f1)
                  in loadLoop sz pos2 f2 (if isDeleted h then m else emplaceChunk h m))))"
  by pat_completeness auto
termination
  by (relation "measure (\<lambda>(sz, pos, f, m). sz - pos)") (auto simp: sizeof_header_def)

declare loadLoop.simps [simp del]

definition loadChunksData :: "stdio_file \<Rightarrow> (storage_exc + (uuid \<rightharpoonup> chunk_header)) \<times> stdio_file" where
  "loadChunksData f =
     (if sf_bytes f = [] then (Inr Map.empty, f)
      else loadLoop (length (sf_bytes f)) 0 (fseek_set 0 f) Map.empty)"

text \<open>The constructor opens the file, or creates it empty, and reads the headers.\<close>

definition openStorage :: "byte list option \<Rightarrow> storage_exc + single_file" where
  "openStorage existing =
     (case loadChunksData \<lparr>sf_bytes = (case existing of None \<Rightarrow> [] | Some bs \<Rightarrow> bs), sf_pos = 0\<rparr> of
        (Inl e, f) \<Rightarrow> Inl e
      | (Inr m, f) \<Rightarrow> Inr \<lparr>cs_file = f, cs_activeChunks = m, cs_disposed = False\<rparr>)"

definition removeChunk :: "nat option \<Rightarrow> uuid \<Rightarrow> bool \<Rightarrow> unit cs_op" where
  "removeChunk fault chunkId throwIfDoesNotExist s =
     (case cs_activeChunks s chunkId of
        None \<Rightarrow> (if throwIfDoesNotExist then Inl ChunkDoesNotExist else Inr (), s)
      | Some h \<Rightarrow>
          (let h1 = h\<lparr>ch_flags := (ch_flags h) OR CHUNK_FLAG_DELETED\<rparr>;
               (r, f) = os_fwrite fault (header_bytes h1) (fseek_set (unat (ch_pos h1)) (cs_file s))
           in case r of
                Inl e \<Rightarrow> (Inl e, s\<lparr>cs_file := f, cs_activeChunks := (cs_activeChunks s)(chunkId \<mapsto> h1)\<rparr>)
              | Inr _ \<Rightarrow> (Inr (), s\<lparr>cs_file := f, cs_activeChunks := (cs_activeChunks s)(chunkId := None)\<rparr>)))"

definition chkBlockSize :: "64 word \<Rightarrow> data_block \<Rightarrow> storage_exc + unit" where
  "chkBlockSize sz d = (if sz \<le> db_capacity d then Inr () else Inl BlockTooSmall)"

text \<open>Reading into the block: its size, then its offset, then its bytes.\<close>

definition readInto :: "64 word \<Rightarrow> (storage_exc + byte list) \<Rightarrow> data_block \<Rightarrow> (storage_exc + unit) \<times> data_block" where
  "readInto sz content d =
     (case chkBlockSize sz d of
        Inl e \<Rightarrow> (Inl e, d)
      | Inr _ \<Rightarrow> (case bindS (db_setSize sz) (\<lambda>_. db_setOffset1 0) d of
          (Inl e, d1) \<Rightarrow> (Inl (StorageAssert e), d1)
        | (Inr _, d1) \<Rightarrow>
            (if sz = 0 then (Inr (), d1)
             else case content of
                 Inl e \<Rightarrow> (Inl e, d1)
               | Inr bs \<Rightarrow> (case copyTo 0 bs (db_data d1) of
                   Inl e \<Rightarrow> (Inl (StorageAssert e), d1) | Inr new \<Rightarrow> (Inr (), d1\<lparr>db_data := new\<rparr>)))))"

definition sf_load :: "uuid \<Rightarrow> data_block \<Rightarrow> data_block cs_op" where
  "sf_load chunkId d s =
     (if cs_disposed s then (Inl UseAfterDispose, s)
      else case cs_activeChunks s chunkId of
        None \<Rightarrow> (Inl ChunkDoesNotExist, s)
      | Some h \<Rightarrow>
          (let (bs, f) = os_fread (unat (ch_size h)) (fseek_set (unat (ch_pos h + of_nat sizeof_header)) (cs_file s));
               (r, d1) = readInto (ch_size h) bs d
           in (case r of Inl e \<Rightarrow> Inl e | Inr _ \<Rightarrow> Inr d1,
               if chkBlockSize (ch_size h) d = Inr () \<and> ch_size h \<noteq> 0 then s\<lparr>cs_file := f\<rparr> else s)))"

text \<open>
  The three writes of \<open>save\<close> can fail: the delete marker, the header and the data.  \<open>padding\<close> is
  what the padding of the new header happens to hold.
\<close>

definition sf_save :: "nat option \<times> nat option \<times> nat option \<Rightarrow> 32 word \<Rightarrow> uuid \<Rightarrow> data_block \<Rightarrow> unit cs_op" where
  "sf_save faults padding chunkId d s =
     (if cs_disposed s then (Inl UseAfterDispose, s)
      else case removeChunk (fst faults) chunkId False s of
        (Inl e, s1) \<Rightarrow> (Inl e, s1)
      | (Inr _, s1) \<Rightarrow>
          (let f0 = fseek_end (cs_file s1);
               h = \<lparr>ch_chunkId = chunkId, ch_pos = of_nat (sf_pos f0), ch_size = db_size d, ch_flags = 0, ch_padding = padding\<rparr>
           in case os_fwrite (fst (snd faults)) (header_bytes h) f0 of
                (Inl e, f1) \<Rightarrow> (Inl e, s1\<lparr>cs_file := f1\<rparr>)
              | (Inr _, f1) \<Rightarrow>
                  (case (if ch_size h \<noteq> 0 then os_fwrite (snd (snd faults)) (db_bytes d) f1 else (Inr (), f1)) of
                     (Inl e, f2) \<Rightarrow> (Inl e, s1\<lparr>cs_file := f2\<rparr>)
                   | (Inr _, f2) \<Rightarrow>
                       (if cs_activeChunks s1 chunkId \<noteq> None then (Inl (StorageAssert AssertFailed), s1\<lparr>cs_file := f2\<rparr>)
                        else (Inr (), s1\<lparr>cs_file := f2, cs_activeChunks := (cs_activeChunks s1)(chunkId \<mapsto> h)\<rparr>)))))"

definition sf_remove :: "nat option \<Rightarrow> uuid \<Rightarrow> unit cs_op" where
  "sf_remove fault chunkId s =
     (if cs_disposed s then (Inl UseAfterDispose, s) else removeChunk fault chunkId True s)"

definition sf_flushPeerSessions :: "unit cs_op" where
  "sf_flushPeerSessions s = (if cs_disposed s then Inl UseAfterDispose else Inr (), s)"

definition sf_dispose :: "single_file \<Rightarrow> single_file" where
  "sf_dispose s = s\<lparr>cs_disposed := True\<rparr>"

section \<open>The storage with one file per chunk\<close>

record multi_files =
  cm_files :: "uuid \<rightharpoonup> byte list"
  cm_disposed :: bool

type_synonym 'a cm_op = "multi_files \<Rightarrow> (storage_exc + 'a) \<times> multi_files"

text \<open>\<open>vanishes\<close>: another client removes the chunk after the check that it exists.\<close>

definition mf_load :: "bool \<Rightarrow> uuid \<Rightarrow> data_block \<Rightarrow> data_block cm_op" where
  "mf_load vanishes chunkId d s =
     (if cm_disposed s then (Inl UseAfterDispose, s)
      else case cm_files s chunkId of
        None \<Rightarrow> (Inl ChunkDoesNotExist, s)
      | Some bs \<Rightarrow>
          (if vanishes then (Inl ChunkDoesNotExist, s\<lparr>cm_files := (cm_files s)(chunkId := None)\<rparr>)
           else case readInto (of_nat (length bs)) (Inr bs) d of
               (Inl e, d1) \<Rightarrow> (Inl e, s) | (Inr _, d1) \<Rightarrow> (Inr d1, s)))"

text \<open>Opening the file for writing truncates it.\<close>

definition mf_save :: "nat option \<Rightarrow> uuid \<Rightarrow> data_block \<Rightarrow> unit cm_op" where
  "mf_save fault chunkId d s =
     (if cm_disposed s then (Inl UseAfterDispose, s)
      else if db_size d = 0 then (Inr (), s\<lparr>cm_files := (cm_files s)(chunkId \<mapsto> [])\<rparr>)
      else (case fault of
          None \<Rightarrow> (Inr (), s\<lparr>cm_files := (cm_files s)(chunkId \<mapsto> db_bytes d)\<rparr>)
        | Some k \<Rightarrow> (Inl IoError, s\<lparr>cm_files := (cm_files s)(chunkId \<mapsto> take k (db_bytes d))\<rparr>)))"

text \<open>Removing a file that another client has removed in the meantime is not an error.\<close>

definition mf_remove :: "uuid \<Rightarrow> unit cm_op" where
  "mf_remove chunkId s =
     (if cm_disposed s then (Inl UseAfterDispose, s)
      else case cm_files s chunkId of
        None \<Rightarrow> (Inl ChunkDoesNotExist, s)
      | Some bs \<Rightarrow> (Inr (), s\<lparr>cm_files := (cm_files s)(chunkId := None)\<rparr>))"

definition openMultiFiles :: "(uuid \<rightharpoonup> byte list) \<Rightarrow> multi_files" where
  "openMultiFiles files = \<lparr>cm_files = files, cm_disposed = False\<rparr>"

definition mf_dispose :: "multi_files \<Rightarrow> multi_files" where
  "mf_dispose s = s\<lparr>cm_disposed := True\<rparr>"

end
