(* ===== verification/ChunkContract.thy ===== *)
theory ChunkContract
  imports ChunkStorage DataBlockProps
begin

text \<open>
  What a client of a chunk storage sees: the operations with their answers, the reference they are
  measured against (a map from ids to bytes), and the contract of a provider as a locale, with the
  lemmas on sequences of operations proved once.  Closing a storage and opening it again is an
  operation like the others.
\<close>

datatype chunk_op = CsLoad uuid data_block | CsSave "32 word" uuid data_block | CsRemove uuid | CsReopen

datatype chunk_answer = Done | Loaded "byte list" | Refused storage_exc

fun answer_unit :: "storage_exc + unit \<Rightarrow> chunk_answer" where
  "answer_unit (Inl e) = Refused e" | "answer_unit (Inr _) = Done"

fun answer_block :: "storage_exc + data_block \<Rightarrow> chunk_answer" where
  "answer_block (Inl e) = Refused e" | "answer_block (Inr d) = Loaded (db_bytes d)"

section \<open>The reference\<close>

definition load_answer :: "byte list \<Rightarrow> data_block \<Rightarrow> chunk_answer" where
  "load_answer bs d =
     (if unat (db_capacity d) < length bs then Refused BlockTooSmall
      else if length bs < unat (db_offset1 d) then Refused (StorageAssert AssertFailed)
      else Loaded bs)"

fun kv_step :: "chunk_op \<Rightarrow> (uuid \<rightharpoonup> byte list) \<Rightarrow> chunk_answer \<times> (uuid \<rightharpoonup> byte list)" where
  "kv_step (CsLoad i d) m = ((case m i of None \<Rightarrow> Refused ChunkDoesNotExist | Some bs \<Rightarrow> load_answer bs d), m)"
| "kv_step (CsSave pad i d) m = (Done, m(i \<mapsto> db_bytes d))"
| "kv_step (CsRemove i) m = (if m i = None then (Refused ChunkDoesNotExist, m) else (Done, m(i := None)))"
| "kv_step CsReopen m = (Done, m)"

section \<open>The providers\<close>

fun sf_step :: "chunk_op \<Rightarrow> single_file \<Rightarrow> chunk_answer \<times> single_file" where
  "sf_step (CsLoad i d) s = (let (r, s') = sf_load i d s in (answer_block r, s'))"
| "sf_step (CsSave pad i d) s = (let (r, s') = sf_save (None, None, None) pad i d s in (answer_unit r, s'))"
| "sf_step (CsRemove i) s = (let (r, s') = sf_remove None i s in (answer_unit r, s'))"
| "sf_step CsReopen s =
     (let s1 = sf_dispose s in
      case openStorage (Some (sf_bytes (cs_file s1))) of Inl e \<Rightarrow> (Refused e, s1) | Inr s2 \<Rightarrow> (Done, s2))"

fun mf_step :: "chunk_op \<Rightarrow> multi_files \<Rightarrow> chunk_answer \<times> multi_files" where
  "mf_step (CsLoad i d) s = (let (r, s') = mf_load False i d s in (answer_block r, s'))"
| "mf_step (CsSave pad i d) s = (let (r, s') = mf_save None i d s in (answer_unit r, s'))"
| "mf_step (CsRemove i) s = (let (r, s') = mf_remove i s in (answer_unit r, s'))"
| "mf_step CsReopen s = (Done, openMultiFiles (cm_files (mf_dispose s)))"

fun run_ops :: "('op \<Rightarrow> 's \<Rightarrow> 'b \<times> 's) \<Rightarrow> 'op list \<Rightarrow> 's \<Rightarrow> 'b list \<times> 's" where
  "run_ops step [] s = ([], s)"
| "run_ops step (op # ops) s = (let (a, s1) = step op s; (as, s2) = run_ops step ops s1 in (a # as, s2))"

section \<open>The contract\<close>

text \<open>Blocks are well formed, and what is written stays within the offsets of a file.\<close>

fun op_ok :: "chunk_op \<Rightarrow> bool" where
  "op_ok (CsLoad i d) \<longleftrightarrow> wf_block d"
| "op_ok (CsSave pad i d) \<longleftrightarrow> wf_block d"
| "op_ok _ \<longleftrightarrow> True"

fun op_cost :: "chunk_op \<Rightarrow> nat" where
  "op_cost (CsSave pad i d) = sizeof_header + length (db_bytes d)"
| "op_cost _ = 0"

definition ops_ok :: "chunk_op list \<Rightarrow> bool" where
  "ops_ok ops \<longleftrightarrow> list_all op_ok ops \<and> sum_list (map op_cost ops) < 2 ^ 63"

locale chunk_store =
  fixes holds :: "'s \<Rightarrow> (uuid \<rightharpoonup> byte list) \<Rightarrow> nat \<Rightarrow> bool"
    and step :: "chunk_op \<Rightarrow> 's \<Rightarrow> chunk_answer \<times> 's"
  assumes step_ok: "\<lbrakk>holds s m n; op_ok op; n + op_cost op < 2 ^ 63\<rbrakk>
    \<Longrightarrow> \<exists>s'. step op s = (fst (kv_step op m), s') \<and> holds s' (snd (kv_step op m)) (n + op_cost op)"
begin

lemma runs:
  assumes "holds s m n" "list_all op_ok ops" "n + sum_list (map op_cost ops) < 2 ^ 63"
  shows "\<exists>s'. run_ops step ops s = (fst (run_ops kv_step ops m), s')
    \<and> holds s' (snd (run_ops kv_step ops m)) (n + sum_list (map op_cost ops))"
  using assms
proof (induction ops arbitrary: s m n)
  case (Cons op ops)
  obtain s1 where s1: "step op s = (fst (kv_step op m), s1)" "holds s1 (snd (kv_step op m)) (n + op_cost op)"
    using step_ok [OF Cons.prems(1), of op] Cons.prems(2,3) by auto
  then show ?case using Cons.IH [OF s1(2)] Cons.prems(2,3) by (auto simp: case_prod_unfold Let_def add.assoc)
qed simp

lemma answers:
  assumes "holds s m 0" "ops_ok ops"
  shows "fst (run_ops step ops s) = fst (run_ops kv_step ops m)"
  using runs [of s m 0 ops] assms by (auto simp: ops_ok_def)

lemma end_state:
  assumes "holds s m 0" "ops_ok ops" "run_ops step ops s = (as, s')"
  shows "\<exists>n. holds s' (snd (run_ops kv_step ops m)) n \<and> n < 2 ^ 63"
  using runs [of s m 0 ops] assms by (auto simp: ops_ok_def)

end

end
