(* ===== verification/ChunkStorageProps.thy ===== *)
theory ChunkStorageProps
  imports ChunkContract
begin

text \<open>
  The storages keep the contract of a map from chunk ids to bytes, stated as a locale; the single file
  is a sequence of records that reopening reads back; and what a failing write does to it.
\<close>

section \<open>Headers\<close>

lemma slice_skip [simp]: "length xs = n \<Longrightarrow> slice_int (n + a) k (xs @ ys) = slice_int a k ys"
  by (simp add: slice_int_def)

lemma slice_front: "length xs = k \<Longrightarrow> slice_int 0 k (xs @ ys) = bytes_int xs"
  by (simp add: slice_int_def)

lemma bytes_word:
  fixes w :: "'a::len word"
  assumes "8 * n = LENGTH('a)"
  shows "word_of_int (bytes_int (le_bytes n (uint w))) = w"
proof -
  have "(256 :: int) ^ n = 2 ^ LENGTH('a)" using assms by (simp flip: assms add: power_mult)
  then show ?thesis by (simp add: bytes_int_le)
qed

lemma header_length [simp]: "length (header_bytes h) = sizeof_header"
  by (simp add: header_bytes_def sizeof_header_def)

lemma header_nonempty [simp]: "header_bytes h \<noteq> []"
  using header_length [of h] by (auto simp: sizeof_header_def simp del: header_length)

lemma header_round_trip: "header_of (header_bytes h) = h"
proof -
  let ?a = "le_bytes 16 (uint (ch_chunkId h))" and ?b = "le_bytes 8 (uint (ch_pos h))"
    and ?c = "le_bytes 8 (uint (ch_size h))" and ?d = "le_bytes 4 (uint (ch_flags h))" and ?e = "le_bytes 4 (uint (ch_padding h))"
  have s: "slice_int 0 16 (?a @ ?b @ ?c @ ?d @ ?e) = bytes_int ?a" "slice_int 16 8 (?a @ ?b @ ?c @ ?d @ ?e) = bytes_int ?b"
    "slice_int 24 8 (?a @ ?b @ ?c @ ?d @ ?e) = bytes_int ?c" "slice_int 32 4 (?a @ ?b @ ?c @ ?d @ ?e) = bytes_int ?d"
    "slice_int 36 4 (?a @ ?b @ ?c @ ?d @ ?e) = bytes_int ?e"
    by (simp_all add: slice_int_def)
  show ?thesis unfolding header_of_def header_bytes_def s by (simp add: bytes_word)
qed

section \<open>The layout of the file\<close>

type_synonym chunk_records = "(chunk_header \<times> byte list) list"

definition flatten :: "chunk_records \<Rightarrow> byte list" where
  "flatten rs = concat (map (\<lambda>(h, d). header_bytes h @ d) rs)"

fun layout :: "nat \<Rightarrow> chunk_records \<Rightarrow> bool" where
  "layout pos [] \<longleftrightarrow> True"
| "layout pos ((h, d) # rs) \<longleftrightarrow> unat (ch_pos h) = pos \<and> unat (ch_size h) = length d
     \<and> layout (pos + sizeof_header + length d) rs"

fun liveRecords :: "chunk_records \<Rightarrow> (chunk_header \<times> byte list) list" where
  "liveRecords [] = []"
| "liveRecords ((h, d) # rs) = (if isDeleted h then liveRecords rs else (h, d) # liveRecords rs)"

definition active :: "chunk_records \<Rightarrow> (uuid \<rightharpoonup> chunk_header)" where
  "active rs = map_of (map (\<lambda>(h, d). (ch_chunkId h, h)) (liveRecords rs))"

definition liveIds :: "chunk_records \<Rightarrow> uuid list" where
  "liveIds rs = map (\<lambda>(h, d). ch_chunkId h) (liveRecords rs)"

lemma flatten_simps [simp]:
  "flatten [] = []" "flatten ((h, d) # rs) = header_bytes h @ d @ flatten rs" "flatten (rs @ ss) = flatten rs @ flatten ss"
  by (simp_all add: flatten_def)

lemma layout_append: "layout pos (rs @ ss) \<longleftrightarrow> layout pos rs \<and> layout (pos + length (flatten rs)) ss"
  by (induction pos rs rule: layout.induct) (auto simp: add.assoc)

lemma active_simps [simp]:
  "active [] = Map.empty"
  "active ((h, d) # rs) = (if isDeleted h then active rs else (active rs)(ch_chunkId h \<mapsto> h))"
  "liveIds [] = []" "liveIds ((h, d) # rs) = (if isDeleted h then liveIds rs else ch_chunkId h # liveIds rs)"
  by (simp_all add: active_def liveIds_def)

lemma active_dom: "dom (active rs) = set (liveIds rs)"
  by (induction rs rule: liveRecords.induct) auto

lemma live_append [simp]: "liveRecords (rs @ ss) = liveRecords rs @ liveRecords ss"
  by (induction rs rule: liveRecords.induct) auto

section \<open>Reopening\<close>

lemma load_records:
  assumes "bytes = front @ flatten rs @ tail" "layout (length front) rs" "distinct (liveIds rs)"
    "\<forall>i \<in> set (liveIds rs). m i = None" "sf_bytes f = bytes" "sf_pos f = length front"
  shows "\<exists>f'. loadLoop (length bytes) (length front) f m
      = loadLoop (length bytes) (length front + length (flatten rs)) f' (m ++ active rs)
    \<and> sf_bytes f' = bytes \<and> sf_pos f' = length front + length (flatten rs)"
  using assms
proof (induction rs arbitrary: front m f)
  case Nil
  then show ?case by (intro exI [of _ f]) simp
next
  case (Cons r rs)
  obtain h d where r: "r = (h, d)" by force
  let ?f1 = "f\<lparr>sf_pos := sf_pos f + sizeof_header\<rparr>"
  let ?f2 = "if ch_size h \<noteq> 0 then fseek_set (length front + sizeof_header + length d) ?f1 else ?f1"
  let ?m = "if isDeleted h then m else emplaceChunk h m"
  let ?front = "front @ header_bytes h @ d"
  have sz: "unat (ch_size h) = length d" "unat (ch_pos h) = length front" using Cons.prems(2) by (simp_all add: r)
  have rd: "os_fread sizeof_header f = (Inr (header_bytes h), ?f1)"
    using Cons.prems(1,5,6) by (simp add: os_fread_def r)
  have len: "length bytes = length front + sizeof_header + length d + length (flatten rs) + length tail"
    using Cons.prems(1) by (simp add: r)
  have z: "ch_size h = 0 \<longleftrightarrow> d = []" using sz(1) by (metis length_0_conv unat_0 unat_eq_zero)
  have step: "loadLoop (length bytes) (length front) f m = loadLoop (length bytes) (length ?front) ?f2 ?m"
    using rd sz len by (subst loadLoop.simps) (simp add: header_round_trip sizeof_header_def Let_def add.assoc)
  have "\<exists>f'. loadLoop (length bytes) (length ?front) ?f2 ?m
      = loadLoop (length bytes) (length ?front + length (flatten rs)) f' (?m ++ active rs)
    \<and> sf_bytes f' = bytes \<and> sf_pos f' = length ?front + length (flatten rs)"
  proof (rule Cons.IH)
    show "bytes = ?front @ flatten rs @ tail" using Cons.prems(1) by (simp add: r)
    show "layout (length ?front) rs" using Cons.prems(2) by (simp add: r add.assoc)
    show "distinct (liveIds rs)" using Cons.prems(3) by (simp add: r split: if_splits)
    show "\<forall>i \<in> set (liveIds rs). ?m i = None"
      using Cons.prems(3,4) by (auto simp: r emplaceChunk_def split: if_splits)
    show "sf_bytes ?f2 = bytes" using Cons.prems(5) by (simp add: fseek_set_def)
    show "sf_pos ?f2 = length ?front" using Cons.prems(6) z by (simp add: fseek_set_def)
  qed
  moreover have "?m ++ active rs = m ++ active (r # rs)"
    using Cons.prems(3,4) by (auto simp: r emplaceChunk_def active_dom map_add_upd_left)
  ultimately show ?case using step by (simp add: r add.assoc)
qed

section \<open>The records behind a storage\<close>

definition chunk_file :: "single_file \<Rightarrow> chunk_records \<Rightarrow> bool" where
  "chunk_file s rs \<longleftrightarrow> sf_bytes (cs_file s) = flatten rs \<and> layout 0 rs \<and> distinct (liveIds rs)
     \<and> cs_activeChunks s = active rs \<and> \<not> cs_disposed s"

definition storedChunks :: "chunk_records \<Rightarrow> (uuid \<rightharpoonup> byte list)" where
  "storedChunks rs = map_of (map (\<lambda>(h, d). (ch_chunkId h, d)) (liveRecords rs))"

lemma stored_simps [simp]:
  "storedChunks [] = Map.empty"
  "storedChunks ((h, d) # rs) = (if isDeleted h then storedChunks rs else (storedChunks rs)(ch_chunkId h \<mapsto> d))"
  by (simp_all add: storedChunks_def)

lemma stored_dom: "dom (storedChunks rs) = set (liveIds rs)"
  by (simp add: storedChunks_def liveIds_def dom_map_of_conv_image_fst image_image case_prod_unfold)

lemma maps_append:
  "active (rs @ ss) = active ss ++ active rs" "storedChunks (rs @ ss) = storedChunks ss ++ storedChunks rs"
  "liveIds (rs @ ss) = liveIds rs @ liveIds ss"
  by (simp_all add: active_def storedChunks_def liveIds_def)

text \<open>A live chunk sits somewhere in the file.\<close>

lemma find_record:
  assumes "active rs i = Some h"
  obtains rs1 d rs2 where "rs = rs1 @ (h, d) # rs2" "\<not> isDeleted h" "ch_chunkId h = i"
proof -
  have "(i, h) \<in> set (map (\<lambda>(h, d). (ch_chunkId h, h)) (liveRecords rs))" using assms by (auto simp: active_def dest: map_of_SomeD)
  then obtain d where d: "(h, d) \<in> set (liveRecords rs)" "ch_chunkId h = i" by auto
  have "(h, d) \<in> set rs \<and> \<not> isDeleted h" using d(1) by (induction rs rule: liveRecords.induct) (auto split: if_splits)
  then show thesis using d(2) that by (metis split_list)
qed

lemma record_unique:
  assumes "distinct (liveIds (rs1 @ (h, d) # rs2))" "\<not> isDeleted h"
  shows "ch_chunkId h \<notin> set (liveIds rs1)" "ch_chunkId h \<notin> set (liveIds rs2)"
    "storedChunks (rs1 @ (h, d) # rs2) (ch_chunkId h) = Some d"
  using assms stored_dom [of rs1] stored_dom [of rs2]
  by (auto simp: maps_append map_add_def split: option.splits)

lemma record_place:
  assumes "layout 0 (rs1 @ (h, d) # rs2)"
  shows "unat (ch_pos h) = length (flatten rs1)" "unat (ch_size h) = length d"
    "take (unat (ch_size h)) (drop (unat (ch_pos h) + sizeof_header) (flatten (rs1 @ (h, d) # rs2))) = d"
  using assms by (simp_all add: layout_append)

text \<open>Marking a record as deleted rewrites its header in place.\<close>

lemma write_over:
  assumes "length old = length bs"
  shows "file_write bs (fseek_set (length xs) \<lparr>sf_bytes = xs @ old @ ys, sf_pos = p\<rparr>)
    = \<lparr>sf_bytes = xs @ bs @ ys, sf_pos = length xs + length bs\<rparr>"
  using assms by (simp add: file_write_def fseek_set_def)

lemma write_end:
  "file_write bs (fseek_end f) = \<lparr>sf_bytes = sf_bytes f @ bs, sf_pos = length (sf_bytes f) + length bs\<rparr>"
  by (simp add: file_write_def fseek_end_def Let_def)

lemma deleted_flag [simp]: "isDeleted (h\<lparr>ch_flags := (ch_flags h) OR CHUNK_FLAG_DELETED\<rparr>)"
  by (simp add: isDeleted_def CHUNK_FLAG_DELETED_def bit.conj_disj_distrib2)

lemma remove_ok:
  assumes "chunk_file s rs" "cs_activeChunks s i = Some h"
  obtains s' rs' where "removeChunk None i t s = (Inr (), s')" "chunk_file s' rs'" "storedChunks rs' = (storedChunks rs)(i := None)"
    "length (flatten rs') = length (flatten rs)"
proof -
  have a: "active rs i = Some h" using assms by (simp add: chunk_file_def)
  obtain rs1 d rs2 where r: "rs = rs1 @ (h, d) # rs2" "\<not> isDeleted h" "ch_chunkId h = i" by (rule find_record [OF a])
  let ?h = "h\<lparr>ch_flags := (ch_flags h) OR CHUNK_FLAG_DELETED\<rparr>"
  let ?rs = "rs1 @ (?h, d) # rs2"
  let ?f = "file_write (header_bytes ?h) (fseek_set (unat (ch_pos ?h)) (cs_file s))"
  let ?s = "s\<lparr>cs_file := ?f, cs_activeChunks := (cs_activeChunks s)(i := None)\<rparr>"
  have lay: "layout 0 rs" "sf_bytes (cs_file s) = flatten rs" "distinct (liveIds rs)" using assms(1) by (simp_all add: chunk_file_def)
  note u = record_unique [OF lay(3) [unfolded r(1)] r(2)] and p = record_place [OF lay(1) [unfolded r(1)]]
  have "sf_bytes ?f = flatten ?rs"
    using lay(2) write_over [of "header_bytes h" "header_bytes ?h" "flatten rs1" "d @ flatten rs2" "sf_pos (cs_file s)"] p(1)
    by (cases "cs_file s") (simp add: r(1))
  moreover have "layout 0 ?rs" using lay(1) by (simp add: r(1) layout_append)
  moreover have "distinct (liveIds ?rs)" using lay(3) r(2) by (simp add: r(1) maps_append)
  moreover have "active ?rs = (active rs)(i := None)" "storedChunks ?rs = (storedChunks rs)(i := None)"
    using u(1,2) r active_dom [of rs1] active_dom [of rs2] stored_dom [of rs1] stored_dom [of rs2]
    by (auto simp: r(1) maps_append fun_eq_iff map_add_def split: option.splits)
  moreover have "removeChunk None i t s = (Inr (), ?s)" using assms(2) by (simp add: removeChunk_def os_fwrite_def Let_def)
  ultimately show thesis using assms(1) r(1) by (intro that [of ?s ?rs]) (simp_all add: chunk_file_def)
qed

lemma upd_front: "m i = None \<Longrightarrow> [i \<mapsto> x] ++ m = m(i \<mapsto> x)"
  by (auto simp: map_add_def fun_eq_iff split: option.splits)

lemma remove_any:
  assumes "chunk_file s rs"
  obtains s1 rs1 where "removeChunk None i False s = (Inr (), s1)" "chunk_file s1 rs1"
    "storedChunks rs1 = (storedChunks rs)(i := None)" "length (flatten rs1) = length (flatten rs)"
proof (cases "cs_activeChunks s i")
  case None
  then have "i \<notin> set (liveIds rs)" using assms active_dom [of rs] by (auto simp: chunk_file_def)
  then have "storedChunks rs i = None" using stored_dom [of rs] by auto
  then show thesis using None assms by (intro that [of s rs]) (auto simp: removeChunk_def)
next
  case (Some h)
  show thesis by (rule remove_ok [OF assms Some, of False]) (rule that)
qed

lemma save_ok:
  assumes "chunk_file s rs" "wf_block d" "length (flatten rs) + sizeof_header + length (db_bytes d) < 2 ^ 63"
  obtains s' rs' where "sf_save (None, None, None) pad i d s = (Inr (), s')" "chunk_file s' rs'"
    "storedChunks rs' = (storedChunks rs)(i \<mapsto> db_bytes d)"
    "length (flatten rs') = length (flatten rs) + sizeof_header + length (db_bytes d)"
proof -
  obtain s1 rs1 where s1: "removeChunk None i False s = (Inr (), s1)" "chunk_file s1 rs1"
    "storedChunks rs1 = (storedChunks rs)(i := None)" "length (flatten rs1) = length (flatten rs)"
    by (rule remove_any [OF assms(1)])
  let ?h = "\<lparr>ch_chunkId = i, ch_pos = of_nat (length (flatten rs1)), ch_size = db_size d, ch_flags = 0, ch_padding = pad\<rparr>"
  let ?rs = "rs1 @ [(?h, db_bytes d)]"
  have nd: "\<not> isDeleted ?h" by (simp add: isDeleted_def)
  have n: "storedChunks rs1 i = None" "i \<notin> set (liveIds rs1)" "active rs1 i = None"
    using s1(3) stored_dom [of rs1] active_dom [of rs1] by auto
  have l1: "sf_bytes (cs_file s1) = flatten rs1" "cs_activeChunks s1 = active rs1" "layout 0 rs1" "distinct (liveIds rs1)"
    "\<not> cs_disposed s1" using s1(2) by (simp_all add: chunk_file_def)
  have size: "length (db_bytes d) = unat (db_size d)"
    using assms(2) by (simp add: db_bytes_def wf_block_def word_le_nat_alt)
  have z: "db_size d = 0 \<longleftrightarrow> db_bytes d = []" using size by (metis length_0_conv unat_0 unat_eq_zero)
  have pos: "unat (of_nat (length (flatten rs1)) :: 64 word) = length (flatten rs1)"
    using assms(3) s1(4) by (simp add: unat_of_nat take_bit_nat_eq_self)
  let ?f = "file_write (db_bytes d) (file_write (header_bytes ?h) (fseek_end (cs_file s1)))"
  obtain f where f: "f = (if db_size d \<noteq> 0 then ?f else file_write (header_bytes ?h) (fseek_end (cs_file s1)))" by blast
  have fb: "sf_bytes f = flatten ?rs"
    using z by (auto simp: f write_end l1(1)) (simp_all add: file_write_def)
  let ?s = "s1\<lparr>cs_file := f, cs_activeChunks := (cs_activeChunks s1)(i \<mapsto> ?h)\<rparr>"
  have "sf_save (None, None, None) pad i d s = (Inr (), ?s)"
    using s1(1) assms(1) n(3) l1(1,2)
    by (simp add: sf_save_def chunk_file_def os_fwrite_def Let_def f fseek_end_def)
  moreover have "chunk_file ?s ?rs"
    using l1 fb nd n pos size by (simp add: chunk_file_def layout_append maps_append upd_front)
  moreover have "storedChunks ?rs = (storedChunks rs)(i \<mapsto> db_bytes d)"
    using nd s1(3) n(1) by (simp add: maps_append upd_front)
  ultimately show thesis using s1(4) by (intro that [of ?s ?rs]) simp_all
qed

text \<open>Reopening a file of records, and one with something torn at its end.\<close>

lemma load_file:
  assumes "layout 0 rs" "distinct (liveIds rs)" "rs \<noteq> [] \<or> tail \<noteq> []"
  shows "\<exists>f'. loadChunksData \<lparr>sf_bytes = flatten rs @ tail, sf_pos = 0\<rparr>
      = loadLoop (length (flatten rs @ tail)) (length (flatten rs)) f' (active rs)
    \<and> sf_bytes f' = flatten rs @ tail \<and> sf_pos f' = length (flatten rs)"
proof -
  let ?f = "\<lparr>sf_bytes = flatten rs @ tail, sf_pos = 0\<rparr>"
  have "flatten rs @ tail \<noteq> []" using assms(3) by (cases rs) auto
  then have "loadChunksData ?f = loadLoop (length (flatten rs @ tail)) 0 ?f Map.empty"
    by (auto simp: loadChunksData_def fseek_set_def)
  then show ?thesis using load_records [of "flatten rs @ tail" "[]" rs tail Map.empty ?f] assms(1,2) by simp
qed

lemma open_ok:
  assumes "layout 0 rs" "distinct (liveIds rs)"
  obtains s where "openStorage (Some (flatten rs)) = Inr s" "chunk_file s rs"
proof (cases "rs = []")
  case True
  then show thesis using that by (auto simp: openStorage_def loadChunksData_def chunk_file_def)
next
  case False
  then obtain f' where "loadChunksData \<lparr>sf_bytes = flatten rs, sf_pos = 0\<rparr> = (Inr (active rs), f')" "sf_bytes f' = flatten rs"
    using load_file [OF assms, of "[]"] by (auto simp: loadLoop.simps)
  then show thesis using that assms by (auto simp: openStorage_def chunk_file_def)
qed

lemma open_torn_header:
  assumes "layout 0 rs" "distinct (liveIds rs)" "tail \<noteq> []" "length tail < sizeof_header"
  shows "openStorage (Some (flatten rs @ tail)) = Inl InvalidFileFormat"
proof -
  obtain f' where "loadChunksData \<lparr>sf_bytes = flatten rs @ tail, sf_pos = 0\<rparr>
      = loadLoop (length (flatten rs @ tail)) (length (flatten rs)) f' (active rs)"
    using load_file [OF assms(1,2), of tail] assms(3) by auto
  then show ?thesis using assms(3,4) by (simp add: openStorage_def loadLoop.simps)
qed

lemma open_torn_data:
  assumes "layout 0 rs" "distinct (liveIds rs)" "length tail < unat (ch_size h)"
  shows "openStorage (Some (flatten rs @ header_bytes h @ tail)) = Inl InvalidFileFormat"
proof -
  obtain f' where f': "loadChunksData \<lparr>sf_bytes = flatten rs @ header_bytes h @ tail, sf_pos = 0\<rparr>
      = loadLoop (length (flatten rs @ header_bytes h @ tail)) (length (flatten rs)) f' (active rs)"
    "sf_bytes f' = flatten rs @ header_bytes h @ tail" "sf_pos f' = length (flatten rs)"
    using load_file [OF assms(1,2), of "header_bytes h @ tail"] by auto
  then have "os_fread sizeof_header f' = (Inr (header_bytes h), f'\<lparr>sf_pos := length (flatten rs) + sizeof_header\<rparr>)"
    by (simp add: os_fread_def)
  then have "fst (loadLoop (length (flatten rs @ header_bytes h @ tail)) (length (flatten rs)) f' (active rs)) = Inl InvalidFileFormat"
    using assms(3) by (subst loadLoop.simps) (auto simp: header_round_trip sizeof_header_def Let_def)
  then show ?thesis by (auto simp: openStorage_def f'(1) split: prod.split)
qed

section \<open>Files that others wrote\<close>

definition chunk_inside :: "nat \<Rightarrow> uuid \<Rightarrow> chunk_header \<Rightarrow> bool" where
  "chunk_inside sz i h \<longleftrightarrow> ch_chunkId h = i \<and> \<not> isDeleted h
     \<and> unat (ch_pos h) + sizeof_header + unat (ch_size h) \<le> sz"

lemma load_loop_safe:
  assumes "sz = length (sf_bytes f)" "sf_pos f = pos" "\<forall>i h. m i = Some h \<longrightarrow> chunk_inside sz i h"
  shows "case loadLoop sz pos f m of
      (Inl e, f') \<Rightarrow> e = InvalidFileFormat
    | (Inr m', f') \<Rightarrow> sf_bytes f' = sf_bytes f \<and> (\<forall>i h. m' i = Some h \<longrightarrow> chunk_inside sz i h)"
  using assms
proof (induction "sz - pos" arbitrary: pos f m rule: less_induct)
  case less
  show ?case
  proof (cases "pos < sz \<and> pos + sizeof_header \<le> sz")
    case False
    then show ?thesis using less.prems by (subst loadLoop.simps) (auto split: prod.split sum.split)
  next
    case True
    let ?bs = "take sizeof_header (drop pos (sf_bytes f))"
    let ?h = "header_of ?bs"
    let ?f1 = "f\<lparr>sf_pos := pos + sizeof_header\<rparr>"
    let ?p = "pos + sizeof_header + unat (ch_size ?h)"
    let ?f2 = "if ch_size ?h \<noteq> 0 then fseek_set ?p ?f1 else ?f1"
    let ?m = "if isDeleted ?h then m else emplaceChunk ?h m"
    have rd: "os_fread sizeof_header f = (Inr ?bs, ?f1)" using True less.prems(1,2) by (auto simp: os_fread_def Let_def)
    show ?thesis
    proof (cases "unat (ch_pos ?h) = pos \<and> (ch_size ?h \<noteq> 0 \<longrightarrow> unat (ch_size ?h) \<le> sz - (pos + sizeof_header))")
      case False
      then show ?thesis using True rd by (subst loadLoop.simps) (auto simp: Let_def)
    next
      case ok: True
      have step: "loadLoop sz pos f m = loadLoop sz ?p ?f2 ?m"
        using True rd ok by (subst loadLoop.simps) (auto simp: Let_def)
      have le: "?p \<le> sz" using ok True by (cases "ch_size ?h = 0") auto
      have "case loadLoop sz ?p ?f2 ?m of
          (Inl e, f') \<Rightarrow> e = InvalidFileFormat
        | (Inr m', f') \<Rightarrow> sf_bytes f' = sf_bytes ?f2 \<and> (\<forall>i h. m' i = Some h \<longrightarrow> chunk_inside sz i h)"
      proof (rule less.hyps)
        show "\<forall>i h. ?m i = Some h \<longrightarrow> chunk_inside sz i h"
          using less.prems(3) ok le by (auto simp: emplaceChunk_def chunk_inside_def)
      qed (use True ok less.prems(1) in \<open>auto simp: fseek_set_def sizeof_header_def\<close>)
      moreover have "sf_bytes ?f2 = sf_bytes f" by (simp add: fseek_set_def)
      ultimately show ?thesis unfolding step by (simp only:)
    qed
  qed
qed

section \<open>Loading\<close>

lemma readInto_answer:
  assumes "wf_block d" "sz \<noteq> 0 \<longrightarrow> content = Inr bs" "length bs = unat sz"
  obtains r d' where "readInto sz content d = (r, d')"
    "answer_block (case r of Inl e \<Rightarrow> Inl e | Inr _ \<Rightarrow> Inr d') = load_answer bs d"
proof -
  let ?a = "\<lambda>p. answer_block (case fst p of Inl e \<Rightarrow> Inl e | Inr _ \<Rightarrow> Inr (snd p))"
  have "?a (readInto sz content d) = load_answer bs d"
  proof (cases "sz \<le> db_capacity d \<and> db_offset1 d \<le> sz")
    case False
    then show ?thesis using assms(3)
      by (auto simp: readInto_def chkBlockSize_def bindS_def db_setSize_def load_answer_def word_le_nat_alt)
  next
    case True
    have sz: "unat sz \<le> length (db_data d)" using True assms(1) by (simp add: wf_block_def word_le_nat_alt)
    have ans: "load_answer bs d = Loaded bs" using True assms(3) by (simp add: load_answer_def word_le_nat_alt)
    show ?thesis
    proof (cases "sz = 0")
      case True
      with \<open>sz \<le> db_capacity d \<and> _\<close> assms ans show ?thesis
        by (simp add: readInto_def chkBlockSize_def bindS_def db_setSize_def db_setOffset1_def db_bytes_def)
    next
      case False
      with \<open>sz \<le> db_capacity d \<and> _\<close> assms ans sz show ?thesis
        by (simp add: readInto_def chkBlockSize_def bindS_def db_setSize_def db_setOffset1_def copyTo_def db_bytes_def)
    qed
  qed
  then show thesis using that [of "fst (readInto sz content d)" "snd (readInto sz content d)"] by simp
qed

lemma load_at:
  assumes "cs_activeChunks s i = Some h" "chunk_inside (length (sf_bytes (cs_file s))) i h" "\<not> cs_disposed s"
    "length (sf_bytes (cs_file s)) < 2 ^ 63" "wf_block d"
  shows "\<exists>r f. sf_load i d s = (r, s\<lparr>cs_file := f\<rparr>) \<and> sf_bytes f = sf_bytes (cs_file s)
    \<and> answer_block r = load_answer (take (unat (ch_size h)) (drop (unat (ch_pos h) + sizeof_header) (sf_bytes (cs_file s)))) d"
proof -
  let ?n = "unat (ch_size h)" and ?p = "unat (ch_pos h + of_nat sizeof_header)"
  let ?bs = "take ?n (drop (unat (ch_pos h) + sizeof_header) (sf_bytes (cs_file s)))"
  define f where "f = snd (os_fread ?n (fseek_set ?p (cs_file s)))"
  have in_file: "unat (ch_pos h) + sizeof_header + ?n \<le> length (sf_bytes (cs_file s))"
    using assms(2) by (simp add: chunk_inside_def)
  then have "unat (ch_pos h) + sizeof_header < 2 ^ 64" using assms(4) by simp
  then have "?p = unat (ch_pos h) + sizeof_header" by (simp add: unat_word_ariths sizeof_header_def)
  then have rd: "os_fread ?n (fseek_set ?p (cs_file s)) = (Inr ?bs, f)"
    using in_file by (simp add: f_def os_fread_def fseek_set_def Let_def)
  have f: "sf_bytes f = sf_bytes (cs_file s)" by (simp add: f_def os_fread_def fseek_set_def Let_def)
  have n: "length ?bs = ?n" using in_file by simp
  obtain r d' where r: "readInto (ch_size h) (Inr ?bs) d = (r, d')"
    "answer_block (case r of Inl e \<Rightarrow> Inl e | Inr _ \<Rightarrow> Inr d') = load_answer ?bs d"
    using readInto_answer [OF assms(5), of "ch_size h" "Inr ?bs" ?bs] n by blast
  show ?thesis using assms(1,3) rd f r
    by (intro exI [of _ "case r of Inl e \<Rightarrow> Inl e | Inr _ \<Rightarrow> Inr d'"]
        exI [of _ "if chkBlockSize (ch_size h) d = Inr () \<and> ch_size h \<noteq> 0 then f else cs_file s"])
      (simp add: sf_load_def)
qed

lemma load_ok:
  assumes "chunk_file s rs" "wf_block d" "length (flatten rs) < 2 ^ 63"
  shows "\<exists>r f. sf_load i d s = (r, s\<lparr>cs_file := f\<rparr>) \<and> sf_bytes f = sf_bytes (cs_file s)
    \<and> answer_block r = (case storedChunks rs i of None \<Rightarrow> Refused ChunkDoesNotExist | Some bs \<Rightarrow> load_answer bs d)"
proof (cases "active rs i")
  case None
  then have "storedChunks rs i = None" using active_dom [of rs] stored_dom [of rs] by auto
  moreover have "sf_load i d s = (Inl ChunkDoesNotExist, s\<lparr>cs_file := cs_file s\<rparr>)"
    using assms(1) None by (simp add: sf_load_def chunk_file_def)
  ultimately show ?thesis by (intro exI [of _ "Inl ChunkDoesNotExist"] exI [of _ "cs_file s"]) simp
next
  case (Some h)
  obtain rs1 bs rs2 where r: "rs = rs1 @ (h, bs) # rs2" "\<not> isDeleted h" "ch_chunkId h = i" by (rule find_record [OF Some])
  have lay: "layout 0 rs" "sf_bytes (cs_file s) = flatten rs" "distinct (liveIds rs)" "cs_activeChunks s = active rs" "\<not> cs_disposed s"
    using assms(1) by (simp_all add: chunk_file_def)
  note u = record_unique(3) [OF lay(3) [unfolded r(1)] r(2)] and p = record_place [OF lay(1) [unfolded r(1)]]
  have "chunk_inside (length (sf_bytes (cs_file s))) i h"
    using p(1,2) r lay(2) by (simp add: chunk_inside_def)
  then show ?thesis using load_at [of s i h d] Some lay assms(2,3) p(3) u r by (simp add: lay(2))
qed

section \<open>The interpretations of the contract\<close>

definition sf_holds :: "single_file \<Rightarrow> (uuid \<rightharpoonup> byte list) \<Rightarrow> nat \<Rightarrow> bool" where
  "sf_holds s m n \<longleftrightarrow> (\<exists>rs. chunk_file s rs \<and> storedChunks rs = m \<and> length (flatten rs) = n)"

lemma sf_holdsI: "chunk_file s rs \<Longrightarrow> sf_holds s (storedChunks rs) (length (flatten rs))"
  by (auto simp: sf_holds_def)

lemma sf_step_ok:
  assumes "sf_holds s m n" "op_ok op" "n + op_cost op < 2 ^ 63"
  shows "\<exists>s'. sf_step op s = (fst (kv_step op m), s') \<and> sf_holds s' (snd (kv_step op m)) (n + op_cost op)"
proof -
  obtain rs where rs: "chunk_file s rs" "storedChunks rs = m" "length (flatten rs) = n" using assms(1) by (auto simp: sf_holds_def)
  show ?thesis
  proof (cases op)
    case (CsLoad i d)
    then obtain r f where "sf_load i d s = (r, s\<lparr>cs_file := f\<rparr>)" "sf_bytes f = sf_bytes (cs_file s)"
      "answer_block r = fst (kv_step op m)"
      using load_ok [OF rs(1), of d i] rs assms(2,3) by auto
    then show ?thesis using CsLoad rs(1) sf_holdsI [of "s\<lparr>cs_file := f\<rparr>" rs] rs(2,3) by (simp add: chunk_file_def)
  next
    case (CsSave pad i d)
    obtain s' rs' where s': "sf_save (None, None, None) pad i d s = (Inr (), s')" "chunk_file s' rs'"
      "storedChunks rs' = (storedChunks rs)(i \<mapsto> db_bytes d)" "length (flatten rs') = length (flatten rs) + sizeof_header + length (db_bytes d)"
      by (rule save_ok [OF rs(1), of d pad i]) (use assms(2,3) rs(3) CsSave in auto)
    then show ?thesis using CsSave sf_holdsI [OF s'(2)] rs(2,3) by (simp add: add.assoc)
  next
    case (CsRemove i)
    show ?thesis
    proof (cases "cs_activeChunks s i")
      case None
      then have "storedChunks rs i = None" using rs(1) active_dom [of rs] stored_dom [of rs] by (auto simp: chunk_file_def)
      then show ?thesis using CsRemove None rs assms(1) by (simp add: sf_remove_def removeChunk_def chunk_file_def)
    next
      case (Some h)
      then have "storedChunks rs i \<noteq> None" using rs(1) active_dom [of rs] stored_dom [of rs] by (auto simp: chunk_file_def)
      moreover obtain s' rs' where s': "removeChunk None i True s = (Inr (), s')" "chunk_file s' rs'"
        "storedChunks rs' = (storedChunks rs)(i := None)" "length (flatten rs') = length (flatten rs)"
        by (rule remove_ok [OF rs(1) Some])
      ultimately show ?thesis using CsRemove rs sf_holdsI [OF s'(2)] by (simp add: sf_remove_def chunk_file_def)
    qed
  next
    case CsReopen
    obtain s' where "openStorage (Some (flatten rs)) = Inr s'" "chunk_file s' rs"
      using open_ok [of rs] rs(1) by (auto simp: chunk_file_def)
    then show ?thesis using CsReopen rs sf_holdsI [of s' rs] by (simp add: chunk_file_def sf_dispose_def)
  qed
qed

interpretation single: chunk_store sf_holds sf_step
  by unfold_locales (rule sf_step_ok)

text \<open>A file has less than \<open>2 ^ 63\<close> bytes.\<close>

definition mf_holds :: "multi_files \<Rightarrow> (uuid \<rightharpoonup> byte list) \<Rightarrow> nat \<Rightarrow> bool" where
  "mf_holds s m n \<longleftrightarrow> cm_files s = m \<and> \<not> cm_disposed s \<and> (\<forall>i bs. m i = Some bs \<longrightarrow> length bs \<le> n)"

lemma mf_step_ok:
  assumes "mf_holds s m n" "op_ok op" "n + op_cost op < 2 ^ 63"
  shows "\<exists>s'. mf_step op s = (fst (kv_step op m), s') \<and> mf_holds s' (snd (kv_step op m)) (n + op_cost op)"
proof (cases op)
  case (CsLoad i d)
  show ?thesis
  proof (cases "m i")
    case (Some bs)
    have "length bs \<le> n" using assms(1) Some by (auto simp: mf_holds_def)
    then have "unat (of_nat (length bs) :: 64 word) = length bs"
      using assms(3) by (simp add: unat_of_nat take_bit_nat_eq_self)
    then obtain r d' where "readInto (of_nat (length bs)) (Inr bs) d = (r, d')"
      "answer_block (case r of Inl e \<Rightarrow> Inl e | Inr _ \<Rightarrow> Inr d') = load_answer bs d"
      using readInto_answer [of d "of_nat (length bs)" "Inr bs" bs] assms(2) CsLoad by auto
    then show ?thesis using CsLoad Some assms(1) by (auto simp: mf_load_def mf_holds_def split: sum.splits)
  qed (use CsLoad assms(1) in \<open>simp add: mf_load_def mf_holds_def\<close>)
next
  case (CsSave pad i d)
  then show ?thesis using assms(1)
    by (auto simp: mf_save_def mf_holds_def db_bytes_def trans_le_add1)
next
  case (CsRemove i)
  then show ?thesis using assms(1) by (auto simp: mf_remove_def mf_holds_def split: option.splits)
next
  case CsReopen
  then show ?thesis using assms(1) by (simp add: openMultiFiles_def mf_dispose_def mf_holds_def)
qed

interpretation multi: chunk_store mf_holds mf_step
  by unfold_locales (rule mf_step_ok)

section \<open>Writes that fail\<close>

lemma save_fails:
  assumes "chunk_file s rs" "sf_save faults pad i d s = (r, s')" "wf_block d"
    "faults = (None, Some k, None) \<and> k < sizeof_header \<or> faults = (None, None, Some k) \<and> k < unat (db_size d)"
  shows "r = Inl IoError \<and> cs_activeChunks s' i = None \<and> \<not> cs_disposed s'
    \<and> (faults \<noteq> (None, Some 0, None) \<longrightarrow> openStorage (Some (sf_bytes (cs_file s'))) = Inl InvalidFileFormat)"
proof -
  obtain s1 rs1 where s1: "removeChunk None i False s = (Inr (), s1)" "chunk_file s1 rs1"
    "storedChunks rs1 = (storedChunks rs)(i := None)" "length (flatten rs1) = length (flatten rs)"
    by (rule remove_any [OF assms(1)])
  have n: "active rs1 i = None" using s1(3) stored_dom [of rs1] active_dom [of rs1] by auto
  have l1: "sf_bytes (cs_file s1) = flatten rs1" "cs_activeChunks s1 = active rs1" "layout 0 rs1" "distinct (liveIds rs1)"
    "\<not> cs_disposed s1" "\<not> cs_disposed s" using s1(2) assms(1) by (simp_all add: chunk_file_def)
  let ?h = "\<lparr>ch_chunkId = i, ch_pos = of_nat (sf_pos (fseek_end (cs_file s1))), ch_size = db_size d, ch_flags = 0, ch_padding = pad\<rparr>"
  from assms(4) show ?thesis
  proof (elim disjE conjE)
    assume f: "faults = (None, Some k, None)" "k < sizeof_header"
    let ?s = "s1\<lparr>cs_file := file_write (take k (header_bytes ?h)) (fseek_end (cs_file s1))\<rparr>"
    have "(r, s') = (Inl IoError, ?s)" using assms(2) l1 s1(1) by (simp add: f(1) sf_save_def os_fwrite_def Let_def)
    moreover have "k \<noteq> 0 \<longrightarrow> openStorage (Some (flatten rs1 @ take k (header_bytes ?h))) = Inl InvalidFileFormat"
      using open_torn_header [OF l1(3,4), of "take k (header_bytes ?h)"] f(2) by auto
    ultimately show ?thesis using l1 n f(1) by (auto simp: write_end)
  next
    assume f: "faults = (None, None, Some k)" "k < unat (db_size d)"
    have z: "db_size d \<noteq> 0" using f(2) by auto
    let ?s = "s1\<lparr>cs_file := file_write (take k (db_bytes d)) (file_write (header_bytes ?h) (fseek_end (cs_file s1)))\<rparr>"
    have "(r, s') = (Inl IoError, ?s)" using assms(2) l1 s1(1) z by (simp add: f(1) sf_save_def os_fwrite_def Let_def)
    moreover have "sf_bytes (cs_file ?s) = flatten rs1 @ header_bytes ?h @ take k (db_bytes d)"
      by (auto simp: write_end l1(1)) (simp add: file_write_def)
    moreover have "openStorage (Some (flatten rs1 @ header_bytes ?h @ take k (db_bytes d))) = Inl InvalidFileFormat"
      using open_torn_data [OF l1(3,4), of "take k (db_bytes d)" ?h] f(2) by simp
    ultimately show ?thesis using l1 n by auto
  qed
qed

text \<open>When the delete marker cannot be written, nothing behind the old header changes.\<close>

lemma write_before:
  assumes "p + length bs \<le> m"
  shows "drop m (sf_bytes (file_write bs (fseek_set p f))) = drop m (sf_bytes f)"
proof -
  let ?old = "sf_bytes f @ replicate (p - length (sf_bytes f)) 0"
  have len: "length (take p ?old) = p" by simp
  have "drop m (take p ?old @ bs @ drop (p + length bs) ?old) = drop m ?old"
    unfolding drop_append len drop_drop using assms by (simp add: drop_all add.commute)
  also have "\<dots> = drop m (sf_bytes f)" using assms unfolding drop_append by simp
  finally show ?thesis by (simp add: file_write_def fseek_set_def Let_def)
qed

lemma marker_fails:
  assumes "chunk_file s rs" "length (flatten rs) < 2 ^ 63" "storedChunks rs i \<noteq> None"
    "sf_save faults pad i d s = (r, s')" "fst faults = Some k"
  shows "r = Inl IoError \<and> fst (sf_load i d' s') = fst (sf_load i d' s)"
proof -
  have "i \<in> set (liveIds rs)" using assms(3) stored_dom [of rs] by auto
  then obtain h where h: "active rs i = Some h" using active_dom [of rs] by auto
  obtain rs1 bs rs2 where r: "rs = rs1 @ (h, bs) # rs2" by (rule find_record [OF h])
  have lay: "layout 0 rs" "\<not> cs_disposed s" "cs_activeChunks s i = Some h" using assms(1) h by (simp_all add: chunk_file_def)
  have "unat (ch_pos h) + sizeof_header \<le> length (flatten rs)" using record_place(1) [OF lay(1) [unfolded r]] by (simp add: r)
  then have at: "unat (ch_pos h + of_nat sizeof_header) = unat (ch_pos h) + sizeof_header"
    using assms(2) by (subst unat_plus) (simp_all add: sizeof_header_def)
  let ?h = "h\<lparr>ch_flags := (ch_flags h) OR CHUNK_FLAG_DELETED\<rparr>"
  let ?f = "file_write (take k (header_bytes ?h)) (fseek_set (unat (ch_pos h)) (cs_file s))"
  have e: "r = Inl IoError" "s' = s\<lparr>cs_file := ?f, cs_activeChunks := (cs_activeChunks s)(i \<mapsto> ?h)\<rparr>"
    using assms(4,5) lay(2,3) by (simp_all add: sf_save_def removeChunk_def os_fwrite_def Let_def)
  have "length (take k (header_bytes ?h)) \<le> sizeof_header" by simp
  then have "drop (unat (ch_pos h) + sizeof_header) (sf_bytes ?f) = drop (unat (ch_pos h) + sizeof_header) (sf_bytes (cs_file s))"
    by (intro write_before) simp
  then have "fst (os_fread n (fseek_set (unat (ch_pos h) + sizeof_header) ?f))
      = fst (os_fread n (fseek_set (unat (ch_pos h) + sizeof_header) (cs_file s)))" for n
    by (simp add: os_fread_def fseek_set_def Let_def)
  then show ?thesis using e lay(2,3) at by (simp add: sf_load_def case_prod_beta Let_def split: sum.split)
qed

end
