(* ===== verification/ChunkProps.thy ===== *)
theory ChunkProps
  imports ChunkStorageProps
begin

text \<open>The properties of the chunk storages.\<close>

lemma opened_empty:
  assumes "openStorage None = Inr s"
  shows "sf_holds s Map.empty 0"
  using assms by (auto simp: openStorage_def loadChunksData_def sf_holds_def chunk_file_def intro!: exI [of _ "[]"])

text \<open>
  C25 The storage in a single file implements a map from ids to bytes: for every sequence of loads,
  saves, removals and restarts with well-formed blocks and less than \<open>2 ^ 63\<close> bytes of output, a
  storage created empty gives exactly the answers of the map, errors included.
\<close>
theorem cs_single_file_refines:
  assumes "openStorage None = Inr s" "ops_ok ops"
  shows "fst (run_ops sf_step ops s) = fst (run_ops kv_step ops Map.empty)"
  by (rule single.answers [OF opened_empty [OF assms(1)] assms(2)])

text \<open>A chunk saved twice, a restart, a load, a removal, a restart and a load that fails.\<close>

definition sample_chunk :: "byte list \<Rightarrow> data_block" where
  "sample_chunk bs = attach_block bs (of_nat (length bs))"

definition sample_ops :: "chunk_op list" where
  "sample_ops = [CsSave 0 7 (sample_chunk [1]), CsSave 5 7 (sample_chunk [2, 3]), CsReopen, CsLoad 7 (sample_chunk [0, 0]),
     CsRemove 7, CsReopen, CsLoad 7 (sample_chunk [0])]"

lemma sample_ops_ok: "ops_ok sample_ops"
  by (simp add: ops_ok_def sample_ops_def sample_chunk_def attach_block_def wf_block_def sizeof_header_def db_bytes_def)

definition empty_storage :: single_file where
  "empty_storage = \<lparr>cs_file = \<lparr>sf_bytes = [], sf_pos = 0\<rparr>, cs_activeChunks = Map.empty, cs_disposed = False\<rparr>"

lemma open_empty: "openStorage None = Inr empty_storage"
  by (simp add: openStorage_def loadChunksData_def empty_storage_def)

lemma sample_answers:
  "fst (run_ops kv_step sample_ops Map.empty)
     = [Done, Done, Done, Loaded [2, 3], Done, Done, Refused ChunkDoesNotExist]"
  by (simp add: sample_ops_def sample_chunk_def attach_block_def load_answer_def db_bytes_def)

lemma cs_single_file_refines_witness:
  "fst (run_ops sf_step sample_ops empty_storage)
     = [Done, Done, Done, Loaded [2, 3], Done, Done, Refused ChunkDoesNotExist]"
  using cs_single_file_refines [OF open_empty sample_ops_ok] sample_answers by simp

text \<open>
  C26 Both storages are interchangeable: for every such sequence the storage in a single file and the
  one with a file per chunk give the same answers.
\<close>
theorem cs_storages_equivalent:
  assumes "openStorage None = Inr s" "ops_ok ops"
  shows "fst (run_ops sf_step ops s) = fst (run_ops mf_step ops (openMultiFiles Map.empty))"
proof -
  have "mf_holds (openMultiFiles Map.empty) Map.empty 0" by (simp add: mf_holds_def openMultiFiles_def)
  then show ?thesis
    using single.answers [OF opened_empty [OF assms(1)] assms(2)] multi.answers [OF _ assms(2)] by metis
qed

lemma cs_storages_equivalent_witness:
  "fst (run_ops sf_step sample_ops empty_storage) = fst (run_ops mf_step sample_ops (openMultiFiles Map.empty))"
  by (rule cs_storages_equivalent [OF open_empty sample_ops_ok])

text \<open>
  C27 Whatever bytes the file holds, opening it either fails with the format error or yields a storage
  whose chunks lie inside the file: loading one never runs past the end of the file, and answers with
  the bytes at its place or with the documented refusal of the block.
\<close>
theorem cs_open_any_file:
  assumes "length bytes < 2 ^ 63"
  shows "case openStorage (Some bytes) of
      Inl e \<Rightarrow> e = InvalidFileFormat
    | Inr s \<Rightarrow> (\<forall>i d. wf_block d \<longrightarrow> answer_block (fst (sf_load i d s)) =
        (case cs_activeChunks s i of
           None \<Rightarrow> Refused ChunkDoesNotExist
         | Some h \<Rightarrow> load_answer (take (unat (ch_size h)) (drop (unat (ch_pos h) + sizeof_header) bytes)) d))"
proof -
  let ?f = "\<lparr>sf_bytes = bytes, sf_pos = 0\<rparr>"
  have l: "case loadChunksData ?f of (Inl e, f') \<Rightarrow> e = InvalidFileFormat
    | (Inr m', f') \<Rightarrow> sf_bytes f' = bytes \<and> (\<forall>i h. m' i = Some h \<longrightarrow> chunk_inside (length bytes) i h)"
    using load_loop_safe [of "length bytes" ?f 0 Map.empty] by (auto simp: loadChunksData_def fseek_set_def split: sum.splits)
  show ?thesis
  proof (cases "openStorage (Some bytes)")
    case (Inl e)
    then show ?thesis using l by (auto simp: openStorage_def split: prod.splits sum.splits)
  next
    case (Inr s)
    then have s: "sf_bytes (cs_file s) = bytes" "\<not> cs_disposed s"
      "cs_activeChunks s i = Some h \<Longrightarrow> chunk_inside (length bytes) i h" for i h
      using l by (auto simp: openStorage_def split: prod.splits sum.splits)
    have "answer_block (fst (sf_load i d s)) = (case cs_activeChunks s i of None \<Rightarrow> Refused ChunkDoesNotExist
        | Some h \<Rightarrow> load_answer (take (unat (ch_size h)) (drop (unat (ch_pos h) + sizeof_header) bytes)) d)"
      if "wf_block d" for i d
    proof (cases "cs_activeChunks s i")
      case None
      then show ?thesis using s(2) by (simp add: sf_load_def)
    next
      case (Some h)
      then show ?thesis using load_at [of s i h d] s assms that by auto
    qed
    then show ?thesis using Inr by simp
  qed
qed

definition crafted_file :: "byte list" where
  "crafted_file = header_bytes \<lparr>ch_chunkId = 7, ch_pos = 0, ch_size = - 40, ch_flags = 0, ch_padding = 0\<rparr>"

text \<open>A chunk size that would wrap the position back to zero is refused.\<close>

lemma cs_open_any_file_witness:
  "length crafted_file = 40 \<and> openStorage (Some crafted_file) = Inl InvalidFileFormat"
proof -
  have l: "length crafted_file = 40" by (simp add: crafted_file_def sizeof_header_def)
  have "\<forall>s. openStorage (Some crafted_file) \<noteq> Inr s"
    using open_torn_data [of "[]" "[]" "\<lparr>ch_chunkId = 7, ch_pos = 0, ch_size = - 40, ch_flags = 0, ch_padding = 0\<rparr>"]
    by (simp add: crafted_file_def)
  then show ?thesis
    using cs_open_any_file [of crafted_file] l by (cases "openStorage (Some crafted_file)") auto
qed

text \<open>
  C28 A save that fails because a write fails reports it with an exception.  When the delete marker of
  the chunk that was stored under the id cannot be written, that chunk still loads as before.  When the
  header or the data of the new chunk cannot be written, the old chunk is gone, and when that write
  stopped after part of the header or of the data, the file can never be opened again, so that a restart
  loses every chunk.
\<close>
theorem cs_failed_save:
  assumes "openStorage None = Inr s0" "ops_ok ops" "run_ops sf_step ops s0 = (as, s)" "wf_block d"
    "sf_save faults pad i d s = (r, s')"
  shows "(fst faults = Some k \<and> snd (run_ops kv_step ops Map.empty) i \<noteq> None \<longrightarrow>
        r = Inl IoError \<and> fst (sf_load i d' s') = fst (sf_load i d' s))
    \<and> (faults = (None, Some k, None) \<and> k < sizeof_header \<or> faults = (None, None, Some k) \<and> k < unat (db_size d) \<longrightarrow>
        r = Inl IoError \<and> fst (sf_load i d' s') = Inl ChunkDoesNotExist
        \<and> (faults \<noteq> (None, Some 0, None) \<longrightarrow> openStorage (Some (sf_bytes (cs_file s'))) = Inl InvalidFileFormat))"
proof -
  obtain n where "sf_holds s (snd (run_ops kv_step ops Map.empty)) n" "n < 2 ^ 63"
    using single.end_state [OF opened_empty [OF assms(1)] assms(2,3)] by blast
  then obtain rs where rs: "chunk_file s rs" "storedChunks rs = snd (run_ops kv_step ops Map.empty)" "length (flatten rs) < 2 ^ 63"
    by (auto simp: sf_holds_def)
  show ?thesis
    using save_fails [OF rs(1) assms(5,4), of k] marker_fails [OF rs(1,3) _ assms(5), of k d'] rs(2) by (auto simp: sf_load_def)
qed

text \<open>Overwriting a chunk: the disk is full after one byte of the new data.\<close>

definition full_disk_ops :: "chunk_op list" where
  "full_disk_ops = [CsSave 0 7 (sample_chunk [1]), CsSave 0 8 (sample_chunk [2])]"

lemma cs_failed_save_witness:
  "openStorage (Some (sf_bytes (cs_file (snd (sf_save (None, None, Some 1) 0 7 (sample_chunk [3, 4])
     (snd (run_ops sf_step full_disk_ops empty_storage))))))) = Inl InvalidFileFormat
   \<and> fst (sf_load 7 (sample_chunk [0]) (snd (sf_save (Some 33, None, None) 0 7 (sample_chunk [3, 4])
     (snd (run_ops sf_step full_disk_ops empty_storage)))))
     = fst (sf_load 7 (sample_chunk [0]) (snd (run_ops sf_step full_disk_ops empty_storage)))"
proof -
  let ?c = "sample_chunk [3, 4]"
  have ok: "ops_ok full_disk_ops" "wf_block ?c" "1 < unat (db_size ?c)"
    "snd (run_ops kv_step full_disk_ops Map.empty) 7 \<noteq> None"
    by (simp_all add: ops_ok_def full_disk_ops_def sample_chunk_def attach_block_def wf_block_def sizeof_header_def db_bytes_def)
  note f = cs_failed_save [OF open_empty ok(1) surjective_pairing ok(2) surjective_pairing]
  show ?thesis 
    using f [where faults = "(None, None, Some 1)" and pad = 0 and i = 7 and k = 1]
      f [where faults = "(Some 33, None, None)" and pad = 0 and i = 7 and k = 33 and d' = "sample_chunk [0]"] ok(3,4) by simp
qed

end
