(* ===== verification/Messages.thy ===== *)
theory Messages
  imports DataBlock
begin

text \<open>
  Broker messages, \<open>messaging/MessagingUtils.h\<close>: a block of data holds the JSON text of the payload,
  ending at the read position, and then that of the protocol message.  The JSON library is the argument
  \<open>js\<close>; the text of an identifier is the argument \<open>uuid2string\<close>.  At the end the dispatch that
  rotates over several connections.
\<close>

datatype msg_exc = MsgError exc | ProtocolValidationFailed | NotConnectedToBroker

type_synonym peer_id = "128 word"

section \<open>The messages\<close>

datatype messageType = AsyncRpcDispatch | AsyncRpcAcknowledgment | AsyncNotification
  | BackendAssociateTargetPeerId | BackendDissociateTargetPeerId

fun messageType_toString :: "messageType \<Rightarrow> string" where
  "messageType_toString AsyncRpcDispatch = ''AsyncRpcDispatch''"
| "messageType_toString AsyncRpcAcknowledgment = ''AsyncRpcAcknowledgment''"
| "messageType_toString AsyncNotification = ''AsyncNotification''"
| "messageType_toString BackendAssociateTargetPeerId = ''BackendAssociateTargetPeerId''"
| "messageType_toString BackendDissociateTargetPeerId = ''BackendDissociateTargetPeerId''"

definition messageType_tryToEnum :: "string \<Rightarrow> messageType option" where
  "messageType_tryToEnum s = List.find (\<lambda>t. messageType_toString t = s)
     [AsyncRpcDispatch, AsyncRpcAcknowledgment, AsyncNotification, BackendAssociateTargetPeerId, BackendDissociateTargetPeerId]"

record auth_token =
  at_type :: string
  at_data :: string

record security_principal =
  sp_sid :: string
  sp_givenName :: string
  sp_familyName :: string
  sp_email :: string

record principal_identity =
  pi_authenticationToken :: "auth_token option"
  pi_securityPrincipal :: "security_principal option"

record 'u broker_protocol =
  bp_messageType :: string
  bp_messageId :: string
  bp_conversationId :: string
  bp_sourcePeerId :: string
  bp_targetPeerId :: string
  bp_principalIdentityInfo :: "principal_identity option"
  bp_passThroughUserData :: "'u option"

text \<open>
  What is used of the JSON library: writing and parsing both kinds of document, and whether a payload
  read as an RPC payload has a request or a response.
\<close>

record ('u, 'p) json_library =
  js_protocol :: "'u broker_protocol \<Rightarrow> byte list"
  js_parseProtocol :: "byte list \<Rightarrow> exc + 'u broker_protocol"
  js_payload :: "'p \<Rightarrow> byte list"
  js_parsePayload :: "byte list \<Rightarrow> exc + 'p"
  js_isRequest :: "'p \<Rightarrow> bool"
  js_isResponse :: "'p \<Rightarrow> bool"

section \<open>Checks\<close>

definition verifyRequiredProperty :: "string \<Rightarrow> string \<Rightarrow> unit res" where
  "verifyRequiredProperty propertyName propertyValue = chkR (propertyValue \<noteq> []) (InvalidDataFormat ''message'' propertyName)"

definition verifyPrincipal :: "principal_identity \<Rightarrow> unit res" where
  "verifyPrincipal info =
     bindR (chkR ((pi_authenticationToken info \<noteq> None \<or> pi_securityPrincipal info \<noteq> None)
         \<and> \<not> (pi_authenticationToken info \<noteq> None \<and> pi_securityPrincipal info \<noteq> None)) (InvalidDataFormat ''message'' ''principalIdentityInfo''))
       (\<lambda>_. bindR (case pi_authenticationToken info of None \<Rightarrow> Inr ()
            | Some token \<Rightarrow> bindR (chkR (at_type token \<noteq> []) (InvalidDataFormat ''message'' ''token type''))
                (\<lambda>_. chkR (at_data token \<noteq> []) (InvalidDataFormat ''message'' ''token data'')))
         (\<lambda>_. case pi_securityPrincipal info of None \<Rightarrow> Inr ()
            | Some p \<Rightarrow> chkR (sp_sid p \<noteq> []) (InvalidDataFormat ''message'' ''sid'')))"

definition verifyBrokerProtocolMessage :: "'u broker_protocol \<Rightarrow> unit res" where
  "verifyBrokerProtocolMessage m =
     bindR (chkR (messageType_tryToEnum (bp_messageType m) \<noteq> None) (InvalidDataFormat ''message'' ''messageType''))
       (\<lambda>_. bindR (verifyRequiredProperty ''messageId'' (bp_messageId m))
         (\<lambda>_. bindR (verifyRequiredProperty ''conversationId'' (bp_conversationId m))
           (\<lambda>_. case bp_principalIdentityInfo m of None \<Rightarrow> Inr () | Some info \<Rightarrow> verifyPrincipal info)))"

definition isRequestPayload :: "('u, 'p) json_library \<Rightarrow> 'p option \<Rightarrow> bool" where
  "isRequestPayload js payload = (case payload of None \<Rightarrow> False | Some p \<Rightarrow> js_isRequest js p)"

definition isResponsePayload :: "('u, 'p) json_library \<Rightarrow> 'p option \<Rightarrow> bool" where
  "isResponsePayload js payload = (case payload of None \<Rightarrow> False | Some p \<Rightarrow> js_isResponse js p)"

definition verifyPayloadMessage :: "('u, 'p) json_library \<Rightarrow> 'u broker_protocol \<Rightarrow> 'p option \<Rightarrow> unit res" where
  "verifyPayloadMessage js m payload =
     (case messageType_tryToEnum (bp_messageType m) of
        None \<Rightarrow> Inl UnexpectedExc
      | Some t \<Rightarrow> (if t = AsyncRpcDispatch
          then chkR (isRequestPayload js payload \<or> isResponsePayload js payload) (InvalidDataFormat ''message'' ''payload'')
          else Inr ()))"

section \<open>Construction\<close>

definition createBrokerProtocolMessage ::
  "(peer_id \<Rightarrow> string) \<Rightarrow> messageType \<Rightarrow> peer_id \<Rightarrow> string \<Rightarrow> string \<Rightarrow> peer_id \<Rightarrow> 'u broker_protocol" where
  "createBrokerProtocolMessage uuid2string t conversationId tokenType tokenData messageId =
     \<lparr>bp_messageType = messageType_toString t, bp_messageId = uuid2string messageId,
       bp_conversationId = uuid2string conversationId, bp_sourcePeerId = [], bp_targetPeerId = [],
       bp_principalIdentityInfo = (if tokenType \<noteq> [] \<and> tokenData \<noteq> []
         then Some \<lparr>pi_authenticationToken = Some \<lparr>at_type = tokenType, at_data = tokenData\<rparr>, pi_securityPrincipal = None\<rparr>
         else None),
       bp_passThroughUserData = None\<rparr>"

definition createAcknowledgmentMessage :: "(peer_id \<Rightarrow> string) \<Rightarrow> peer_id \<Rightarrow> peer_id \<Rightarrow> 'u broker_protocol" where
  "createAcknowledgmentMessage uuid2string conversationId messageId =
     createBrokerProtocolMessage uuid2string AsyncRpcAcknowledgment conversationId [] [] messageId"

definition createResponseProtocolMessage :: "(peer_id \<Rightarrow> string) \<Rightarrow> peer_id \<Rightarrow> peer_id \<Rightarrow> 'u broker_protocol" where
  "createResponseProtocolMessage uuid2string conversationId messageId =
     createBrokerProtocolMessage uuid2string AsyncRpcDispatch conversationId [] [] messageId"

definition createNotificationProtocolMessage ::
  "(peer_id \<Rightarrow> string) \<Rightarrow> peer_id \<Rightarrow> string \<Rightarrow> string \<Rightarrow> peer_id \<Rightarrow> 'u broker_protocol" where
  "createNotificationProtocolMessage uuid2string conversationId tokenType tokenData messageId =
     createBrokerProtocolMessage uuid2string AsyncNotification conversationId tokenType tokenData messageId"

definition createAssociateProtocolMessage ::
  "(peer_id \<Rightarrow> string) \<Rightarrow> peer_id \<Rightarrow> peer_id \<Rightarrow> peer_id \<Rightarrow> peer_id \<Rightarrow> 'u broker_protocol" where
  "createAssociateProtocolMessage uuid2string physicalTargetPeerId logicalPeerId conversationId messageId =
     (createBrokerProtocolMessage uuid2string BackendAssociateTargetPeerId conversationId [] [] messageId)
       \<lparr>bp_sourcePeerId := uuid2string physicalTargetPeerId, bp_targetPeerId := uuid2string logicalPeerId\<rparr>"

section \<open>Messages in blocks\<close>

definition writeMessage :: "('u, 'p) json_library \<Rightarrow> 'u broker_protocol \<Rightarrow> 'p option \<Rightarrow> unit db_op" where
  "writeMessage js m payload =
     (let payloadDataString = (case payload of None \<Rightarrow> [] | Some p \<Rightarrow> js_payload js p) in
      bindS (if payloadDataString \<noteq> []
             then bindS (db_write payloadDataString) (\<lambda>_. db_setOffset1 (of_nat (length payloadDataString)))
             else liftS (Inr ()))
        (\<lambda>_. db_write (js_protocol js m)))"

definition serializeObjectsToBlock ::
  "('u, 'p) json_library \<Rightarrow> (nat \<Rightarrow> byte) \<Rightarrow> nat \<Rightarrow> 'u broker_protocol \<Rightarrow> 'p option \<Rightarrow> nat simple_pool option \<Rightarrow> 64 word
     \<Rightarrow> block_store \<Rightarrow> exc + (nat \<times> nat simple_pool option \<times> block_store)" where
  "serializeObjectsToBlock js junk newId m payload dataBlocksPool capacity store =
     (case db_get junk newId dataBlocksPool capacity store of
        Inl e \<Rightarrow> Inl e
      | Inr (b, pool', store') \<Rightarrow> (case writeMessage js m payload (store' b) of
            (Inl e, _) \<Rightarrow> Inl e
          | (Inr _, d') \<Rightarrow> Inr (b, pool', store'(b := d'))))"

definition deserializeBlockToObjects ::
  "('u, 'p) json_library \<Rightarrow> bool \<Rightarrow> data_block \<Rightarrow> exc + ('u broker_protocol \<times> 'p option)" where
  "deserializeBlockToObjects js brokerProtocolOnly d =
     bindR (chkR (db_offset1 d \<le> db_size d) BufferTooSmall)
       (\<lambda>_. bindR (js_parseProtocol js (drop (unat (db_offset1 d)) (db_bytes d)))
         (\<lambda>m. bindR (verifyBrokerProtocolMessage m)
           (\<lambda>_. if db_offset1 d \<noteq> 0 \<and> \<not> brokerProtocolOnly
              then bindR (js_parsePayload js (take (unat (db_offset1 d)) (db_data d)))
                (\<lambda>p. bindR (verifyPayloadMessage js m (Some p)) (\<lambda>_. Inr (m, Some p)))
              else Inr (m, None))))"

text \<open>The message object is shared with the caller, so it is part of the result, errors included.\<close>

definition updateBrokerProtocolMessageInBlock ::
  "('u, 'p) json_library \<Rightarrow> (peer_id \<Rightarrow> string) \<Rightarrow> 'u broker_protocol \<Rightarrow> peer_id \<Rightarrow> peer_id \<Rightarrow> bool \<Rightarrow> data_block
     \<Rightarrow> (msg_exc + unit) \<times> 'u broker_protocol \<times> data_block" where
  "updateBrokerProtocolMessageInBlock js uuid2string m sourcePeerId targetPeerId skipUpdateIfUnchanged d =
     (let m1 = (if bp_sourcePeerId m = [] then m\<lparr>bp_sourcePeerId := uuid2string sourcePeerId\<rparr> else m);
          m2 = (if bp_targetPeerId m1 = [] then m1\<lparr>bp_targetPeerId := uuid2string targetPeerId\<rparr> else m1);
          messageChanged = (bp_sourcePeerId m = [] \<or> bp_targetPeerId m1 = [])
      in if \<not> messageChanged \<and> skipUpdateIfUnchanged then (Inr (), m2, d)
         else let jsonString = js_protocol js m2; protocolDataOffset = db_offset1 d;
                  n = of_nat (length jsonString) :: 64 word
           in if \<not> protocolDataOffset \<le> db_size d then (Inl (MsgError BufferTooSmall), m2, d)
              else if n > db_capacity d \<or> protocolDataOffset > db_capacity d - n then (Inl ProtocolValidationFailed, m2, d)
              else (case copyTo (unat protocolDataOffset) jsonString (db_data d) of
                  Inl e \<Rightarrow> (Inl (MsgError e), m2, d)
                | Inr new \<Rightarrow> (case db_setSize (protocolDataOffset + n) (d\<lparr>db_data := new\<rparr>) of
                    (Inl e, d') \<Rightarrow> (Inl (MsgError e), m2, d') | (Inr _, d') \<Rightarrow> (Inr (), m2, d'))))"

section \<open>Endpoints\<close>

definition expandEndpoints :: "nat \<Rightarrow> 'e list \<Rightarrow> 'e list res" where
  "expandEndpoints noOfRequestedEndpoints endpoints =
     (if endpoints = [] then Inl UnexpectedExc
      else let factor = noOfRequestedEndpoints div length endpoints;
               modulo = noOfRequestedEndpoints mod length endpoints;
               factorIncrement = (if factor = 0 \<or> modulo \<noteq> 0 then 1 else 0)
        in Inr (map (\<lambda>i. endpoints ! (i mod length endpoints)) [0..<length endpoints * (factorIncrement + factor)]))"

section \<open>The rotating dispatch\<close>

text \<open>\<open>connected\<close> says which targets are connected at the time of the call.\<close>

record 'd rotating =
  rt_targets :: "'d list"
  rt_targetIndex :: nat

definition initRotating :: "'d list \<Rightarrow> nat \<Rightarrow> 'd rotating res" where
  "initRotating targets random =
     (if targets = [] then Inl AssertFailed
      else Inr \<lparr>rt_targets = targets, rt_targetIndex = random mod length targets\<rparr>)"

fun findTarget :: "('d \<Rightarrow> bool) \<Rightarrow> nat \<Rightarrow> 'd rotating \<Rightarrow> 'd option \<times> 'd rotating" where
  "findTarget connected 0 r = (None, r)"
| "findTarget connected (Suc n) r =
     (let target = rt_targets r ! rt_targetIndex r;
          r' = r\<lparr>rt_targetIndex := (rt_targetIndex r + 1) mod length (rt_targets r)\<rparr>
      in if connected target then (Some target, r') else findTarget connected n r')"

definition invokeImpl :: "('d \<Rightarrow> bool) \<Rightarrow> 'd rotating \<Rightarrow> (msg_exc + 'd) \<times> 'd rotating" where
  "invokeImpl connected r =
     (case findTarget connected (length (rt_targets r)) r of
        (None, r') \<Rightarrow> (Inl NotConnectedToBroker, r') | (Some target, r') \<Rightarrow> (Inr target, r'))"

definition rotating_isConnected :: "('d \<Rightarrow> bool) \<Rightarrow> 'd rotating \<Rightarrow> bool" where
  "rotating_isConnected connected r \<longleftrightarrow> list_ex connected (rt_targets r)"

definition rotating_dispose :: "'d rotating \<Rightarrow> 'd rotating" where
  "rotating_dispose r = r\<lparr>rt_targets := []\<rparr>"

end
