(* ===== verification/MessagesProps.thy ===== *)
theory MessagesProps
  imports Messages DataBlockProps
begin

text \<open>
  The properties of messages in blocks: what is written is read back, filling in the peers keeps the
  payload, and the rotating dispatch goes around the connected targets.
\<close>

section \<open>Writing and reading\<close>

definition payload_text :: "('u, 'p) json_library \<Rightarrow> 'p option \<Rightarrow> byte list" where
  "payload_text js payload = (case payload of None \<Rightarrow> [] | Some p \<Rightarrow> js_payload js p)"

text \<open>A message that the receiver accepts, and documents that the JSON library reads back.\<close>

definition valid_message :: "('u, 'p) json_library \<Rightarrow> 'u broker_protocol \<Rightarrow> 'p option \<Rightarrow> bool" where
  "valid_message js m payload \<longleftrightarrow> verifyBrokerProtocolMessage m = Inr ()
     \<and> (payload \<noteq> None \<longrightarrow> verifyPayloadMessage js m payload = Inr ())"

definition reads_back :: "('u, 'p) json_library \<Rightarrow> 'u broker_protocol \<Rightarrow> 'p option \<Rightarrow> bool" where
  "reads_back js m payload \<longleftrightarrow> js_parseProtocol js (js_protocol js m) = Inr m
     \<and> (\<forall>p. payload = Some p \<longrightarrow> js_payload js p \<noteq> [] \<and> js_parsePayload js (js_payload js p) = Inr p)"

definition holds_message :: "('u, 'p) json_library \<Rightarrow> 'u broker_protocol \<Rightarrow> 'p option \<Rightarrow> data_block \<Rightarrow> bool" where
  "holds_message js m payload d \<longleftrightarrow> wf_block d \<and> db_bytes d = payload_text js payload @ js_protocol js m
     \<and> unat (db_offset1 d) = length (payload_text js payload)"

lemma write_message:
  assumes "wf_block d" "db_bytes d = []" "db_offset1 d = 0"
    "coexist d (length (payload_text js payload @ js_protocol js m))"
  shows "if length (payload_text js payload @ js_protocol js m) \<le> capacity d
     then \<exists>d'. writeMessage js m payload d = (Inr (), d') \<and> holds_message js m payload d'
       \<and> db_freed d' = db_freed d \<and> db_capacity d' = db_capacity d
     else fst (writeMessage js m payload d) = Inl BufferTooSmall"
proof (cases "payload_text js payload = []")
  case True
  then have "writeMessage js m payload d = db_write (js_protocol js m) d"
    by (simp add: writeMessage_def payload_text_def)
  moreover have "coexist d (length (js_protocol js m))" using assms(4) True by simp
  ultimately show ?thesis
    using write_queue [OF assms(1), of "js_protocol js m"] True assms(2,3)
    by (auto simp: holds_message_def split: if_splits)
next
  case False
  let ?p = "payload_text js payload" and ?m = "js_protocol js m"
  have w: "writeMessage js m payload d =
      bindS (bindS (db_write ?p) (\<lambda>_. db_setOffset1 (of_nat (length ?p)))) (\<lambda>_. db_write ?m) d"
    using False by (simp add: writeMessage_def payload_text_def Let_def)
  have co: "coexist d (length ?p)" using assms(4) by (simp add: coexist_def)
  show ?thesis
  proof (cases "length ?p \<le> capacity d")
    case True
    then obtain d1 where d1: "db_write ?p d = (Inr (), d1)" "wf_block d1" "db_bytes d1 = ?p"
      "db_capacity d1 = db_capacity d" "db_freed d1 = db_freed d"
      using write_queue [OF assms(1) co] assms(2) by auto
    let ?n = "of_nat (length ?p) :: 64 word"
    let ?d1 = "d1\<lparr>db_offset1 := ?n\<rparr>"
    have n: "unat ?n = length ?p" using co by (simp add: unat_of_small coexist_def)
    have "?n \<le> db_size d1" using wf_lengths(1) [OF d1(2)] d1(3) n by (simp add: word_le_nat_alt)
    then have o1: "db_setOffset1 ?n d1 = (Inr (), ?d1)" "wf_block ?d1"
      using d1(2) by (simp_all add: db_setOffset1_def wf_block_def)
    have "coexist ?d1 (length ?m)" "capacity ?d1 = capacity d" using assms(4) d1(4) by (simp_all add: coexist_def capacity_def)
    moreover have "db_bytes ?d1 = ?p" using d1(3) by (simp add: db_bytes_def)
    ultimately show ?thesis using write_queue [OF o1(2), of ?m] w d1 o1(1) n
      by (auto simp: holds_message_def split: if_splits)
  next
    case False
    then show ?thesis using write_queue [OF assms(1) co] assms(2) w by auto
  qed
qed

lemma read_message:
  assumes "holds_message js m payload d" "valid_message js m payload" "reads_back js m payload"
  shows "deserializeBlockToObjects js only d = Inr (m, if only then None else payload)"
proof -
  let ?p = "payload_text js payload"
  have d: "wf_block d" "db_bytes d = ?p @ js_protocol js m" "unat (db_offset1 d) = length ?p"
    using assms(1) by (simp_all add: holds_message_def)
  have off: "db_offset1 d \<le> db_size d" using d(1) by (simp add: wf_block_def)
  have z: "db_offset1 d = 0 \<longleftrightarrow> payload = None"
  proof -
    have "db_offset1 d = 0 \<longleftrightarrow> ?p = []" using d(3) by (metis length_0_conv unat_0 unat_eq_zero)
    also have "\<dots> \<longleftrightarrow> payload = None" using assms(3) by (auto simp: payload_text_def reads_back_def split: option.splits)
    finally show ?thesis .
  qed
  have "take (length ?p) (db_bytes d) = take (length ?p) (db_data d)"
    using wf_lengths(1,4) [OF d(1)] d(3) by (simp add: db_bytes_def)
  then have "take (unat (db_offset1 d)) (db_data d) = ?p" using d by simp
  then show ?thesis
    using assms(2,3) d off z
    by (cases payload) (auto simp: deserializeBlockToObjects_def chkR_def valid_message_def reads_back_def payload_text_def)
qed

text \<open>
  C34 A message is read back as it was written: serializing it into a block that comes from the pool or
  is allocated fails only when its text exceeds the capacity, with the exception for small buffers;
  else the receiver gets the same protocol message and payload, or the protocol message alone when it
  asks for that, and the block is no longer in the pool.
\<close>
theorem msg_round_trip:
  assumes "pool_ok p store" "\<not> db_freed (store newId)" "valid_message js m payload" "reads_back js m payload"
    "list_all (\<lambda>b. coexist (store b) (length (payload_text js payload @ js_protocol js m))) (pooled p)"
    "unat (calculateCapacity cap) + length (payload_text js payload @ js_protocol js m) < 2 ^ 64"
  shows "case serializeObjectsToBlock js junk newId m payload p cap store of
      Inl e \<Rightarrow> e = BufferTooSmall \<and> (if pooled p = [] then unat (calculateCapacity cap) else capacity (store (last (pooled p))))
          < length (payload_text js payload @ js_protocol js m)
    | Inr (b, p', store') \<Rightarrow> deserializeBlockToObjects js False (store' b) = Inr (m, payload)
        \<and> deserializeBlockToObjects js True (store' b) = Inr (m, None)
        \<and> b = (if pooled p = [] then newId else last (pooled p)) \<and> pooled p' = butlast (pooled p)"
proof -
  let ?text = "payload_text js payload @ js_protocol js m"
  obtain b p' d where g: "db_get junk newId p cap store = Inr (b, p', store(b := d))" "wf_block d" "db_bytes d = []"
    "db_offset1 d = 0" "coexist d (length ?text)" "b = (if pooled p = [] then newId else last (pooled p))"
    "capacity d = (if pooled p = [] then unat (calculateCapacity cap) else capacity (store (last (pooled p))))"
    "pooled p' = butlast (pooled p)"
  proof (cases "pooled p" rule: rev_cases)
    case Nil
    obtain d where "db_get junk newId p cap store = Inr (newId, p, store(newId := d))" "wf_block d"
      "db_capacity d = calculateCapacity cap" "db_bytes d = []" "db_offset1 d = 0"
      by (rule get_new [OF assms(1) Nil assms(2), of junk cap])
    then show thesis using assms(6) Nil by (intro that [of newId p d]) (auto simp: coexist_def capacity_def)
  next
    case (snoc bs b)
    obtain p' d where "db_get junk newId p cap store = Inr (b, p', store(b := d))" "pooled p' = bs" "wf_block d"
      "db_capacity d = db_capacity (store b)" "db_bytes d = []" "db_offset1 d = 0"
      by (rule get_pooled [OF assms(1) snoc, of junk newId cap])
    then show thesis using assms(5) snoc by (intro that [of b p' d]) (auto simp: coexist_def capacity_def)
  qed
  show ?thesis
  proof (cases "length ?text \<le> capacity d")
    case True
    then obtain d' where "writeMessage js m payload d = (Inr (), d')" "holds_message js m payload d'"
      using write_message [OF g(2-5)] by auto
    then show ?thesis using g(1,6,8) read_message [OF _ assms(3,4)] by (simp add: serializeObjectsToBlock_def)
  next
    case False
    then have "fst (writeMessage js m payload d) = Inl BufferTooSmall" using write_message [OF g(2-5)] by simp
    then show ?thesis using g(1,7) False
      by (cases "writeMessage js m payload d") (simp add: serializeObjectsToBlock_def)
  qed
qed

text \<open>An acknowledgment in a new block of 16 bytes, with a library that knows only this message.\<close>

definition sample_message :: "unit broker_protocol" where
  "sample_message = createAcknowledgmentMessage (\<lambda>_. ''id'') 1 2"

definition sample_json :: "(unit, bool) json_library" where
  "sample_json = \<lparr>js_protocol = (\<lambda>m. if bp_sourcePeerId m = [] then [123, 125] else [123, 49, 125]),
     js_parseProtocol = (\<lambda>bs. if bs = [123, 125] then Inr sample_message
        else Inr (sample_message\<lparr>bp_sourcePeerId := ''id'', bp_targetPeerId := ''id''\<rparr>)),
     js_payload = (\<lambda>p. [1]), js_parsePayload = (\<lambda>bs. Inr True), js_isRequest = id, js_isResponse = Not\<rparr>"

lemma sample_valid: "valid_message sample_json sample_message (Some True)" "reads_back sample_json sample_message (Some True)"
  by (simp_all add: valid_message_def reads_back_def sample_json_def sample_message_def createAcknowledgmentMessage_def
      createBrokerProtocolMessage_def verifyBrokerProtocolMessage_def verifyRequiredProperty_def chkR_def
      verifyPayloadMessage_def messageType_tryToEnum_def isRequestPayload_def)

lemma msg_round_trip_witness:
  "case serializeObjectsToBlock sample_json (\<lambda>_. 0) 0 sample_message (Some True) None 16 (\<lambda>_. new_block (\<lambda>_. 0) 16) of
     Inl e \<Rightarrow> False | Inr (b, p', store') \<Rightarrow> deserializeBlockToObjects sample_json False (store' b) = Inr (sample_message, Some True)"
proof -
  let ?store = "\<lambda>_. new_block (\<lambda>_. 0) 16"
  have p: "pool_ok None ?store" "\<not> db_freed (?store 0)" "pooled None = []" by (simp_all add: pool_ok_def pooled_def new_block_def)
  have "length (payload_text sample_json (Some True)) = 1" "length (js_protocol sample_json sample_message) = 2"
    by (simp_all add: payload_text_def sample_json_def sample_message_def createAcknowledgmentMessage_def createBrokerProtocolMessage_def)
  then show ?thesis
    using msg_round_trip [OF p(1,2) sample_valid, where cap = 16 and junk = "\<lambda>_. 0" and newId = 0] p(3)
    by (auto simp: calculateCapacity_def split: sum.splits)
qed

section \<open>Filling in the peers\<close>

definition filled :: "(peer_id \<Rightarrow> string) \<Rightarrow> peer_id \<Rightarrow> peer_id \<Rightarrow> 'u broker_protocol \<Rightarrow> 'u broker_protocol" where
  "filled uuid2string s t m = m\<lparr>bp_sourcePeerId := (if bp_sourcePeerId m = [] then uuid2string s else bp_sourcePeerId m),
     bp_targetPeerId := (if bp_targetPeerId m = [] then uuid2string t else bp_targetPeerId m)\<rparr>"

lemma filled_valid: "valid_message js m payload \<Longrightarrow> valid_message js (filled u s t m) payload"
  by (simp add: valid_message_def filled_def verifyBrokerProtocolMessage_def verifyPayloadMessage_def)

lemma filled_same: "bp_sourcePeerId m \<noteq> [] \<Longrightarrow> bp_targetPeerId m \<noteq> [] \<Longrightarrow> filled u s t m = m"
  by (simp add: filled_def)

lemma update_block:
  assumes "wf_block d" "length (js_protocol js (filled u s t m)) < 2 ^ 63"
    "\<not> (skip \<and> bp_sourcePeerId m \<noteq> [] \<and> bp_targetPeerId m \<noteq> [])"
  shows "if unat (db_offset1 d) + length (js_protocol js (filled u s t m)) \<le> capacity d
     then \<exists>d'. updateBrokerProtocolMessageInBlock js u m s t skip d = (Inr (), filled u s t m, d')
       \<and> wf_block d' \<and> db_offset1 d' = db_offset1 d
       \<and> db_bytes d' = take (unat (db_offset1 d)) (db_bytes d) @ js_protocol js (filled u s t m)
     else updateBrokerProtocolMessageInBlock js u m s t skip d = (Inl ProtocolValidationFailed, filled u s t m, d)"
proof -
  let ?m = "filled u s t m" and ?o = "db_offset1 d"
  let ?text = "js_protocol js ?m"
  let ?n = "of_nat (length ?text) :: 64 word"
  note l = wf_lengths [OF assms(1)]
  have n: "unat ?n = length ?text" using assms(2) by (intro unat_of_small) simp
  have fit: "?n > db_capacity d \<or> ?o > db_capacity d - ?n \<longleftrightarrow> \<not> unat ?o + length ?text \<le> capacity d"
    using n by (cases "?n \<le> db_capacity d") (auto simp: word_le_nat_alt word_less_nat_alt unat_minus capacity_def)
  let ?m1 = "if bp_sourcePeerId m = [] then m\<lparr>bp_sourcePeerId := u s\<rparr> else m"
  have f: "(if bp_targetPeerId ?m1 = [] then ?m1\<lparr>bp_targetPeerId := u t\<rparr> else ?m1) = ?m"
    by (cases m) (simp add: filled_def)
  have c: "(\<not> (bp_sourcePeerId m = [] \<or> bp_targetPeerId ?m1 = []) \<and> skip) = False" using assms(3) by auto
  have u: "updateBrokerProtocolMessageInBlock js u m s t skip d =
      (if ?n > db_capacity d \<or> ?o > db_capacity d - ?n then (Inl ProtocolValidationFailed, ?m, d)
       else (case copyTo (unat ?o) ?text (db_data d) of
           Inl e \<Rightarrow> (Inl (MsgError e), ?m, d)
         | Inr new \<Rightarrow> (case db_setSize (?o + ?n) (d\<lparr>db_data := new\<rparr>) of
             (Inl e, d') \<Rightarrow> (Inl (MsgError e), ?m, d') | (Inr _, d') \<Rightarrow> (Inr (), ?m, d'))))"
    unfolding updateBrokerProtocolMessageInBlock_def Let_def f c using assms(1) by (simp add: wf_block_def)
  show ?thesis
  proof (cases "unat ?o + length ?text \<le> capacity d")
    case True
    let ?new = "take (unat ?o) (db_data d) @ ?text @ drop (unat ?o + length ?text) (db_data d)"
    let ?d = "d\<lparr>db_data := ?new, db_size := ?o + ?n\<rparr>"
    have len: "length (db_data d) = capacity d" using assms(1) by (simp add: wf_block_def capacity_def)
    have sz: "unat (?o + ?n) = unat ?o + length ?text" using True l(3) n by (subst unat_plus) simp_all
    have "copyTo (unat ?o) ?text (db_data d) = Inr ?new" using True len by (simp add: copyTo_def)
    moreover have "db_setSize (?o + ?n) (d\<lparr>db_data := ?new\<rparr>) = (Inr (), ?d)"
      using True sz by (simp add: db_setSize_def word_le_nat_alt capacity_def)
    moreover have "wf_block ?d" using True sz len by (simp add: wf_block_def word_le_nat_alt capacity_def)
    moreover have "db_bytes ?d = take (unat ?o) (db_bytes d) @ ?text"
      using sz l(4) True len by (simp add: db_bytes_def)
    ultimately show ?thesis using True u fit by simp
  next
    case False
    then show ?thesis using u fit by simp
  qed
qed

text \<open>
  C35 Filling in the peers of a message in its block: a peer that is there is kept, a missing one is set,
  the payload is not touched, and the receiver reads the completed message with its payload; the only
  error is the one for a capacity below the new text, and then the block is as it was.
\<close>
theorem msg_fill_in_peers:
  assumes "holds_message js m payload d" "valid_message js m payload" "reads_back js (filled u s t m) payload"
    "length (js_protocol js (filled u s t m)) < 2 ^ 63"
  shows "case updateBrokerProtocolMessageInBlock js u m s t skip d of
      (Inr _, m', d') \<Rightarrow> m' = filled u s t m \<and> deserializeBlockToObjects js False d' = Inr (filled u s t m, payload)
    | (Inl e, m', d') \<Rightarrow> e = ProtocolValidationFailed \<and> d' = d
        \<and> capacity d < length (payload_text js payload @ js_protocol js (filled u s t m))"
proof (cases "skip \<and> bp_sourcePeerId m \<noteq> [] \<and> bp_targetPeerId m \<noteq> []")
  case True
  then have "filled u s t m = m" "updateBrokerProtocolMessageInBlock js u m s t skip d = (Inr (), m, d)"
    by (simp_all add: filled_same updateBrokerProtocolMessageInBlock_def)
  then show ?thesis using read_message [of js m payload d False] assms by simp
next
  case False
  have d: "wf_block d" "unat (db_offset1 d) = length (payload_text js payload)"
    "db_bytes d = payload_text js payload @ js_protocol js m" using assms(1) by (simp_all add: holds_message_def)
  note b = update_block [OF d(1) assms(4) False]
  show ?thesis
  proof (cases "unat (db_offset1 d) + length (js_protocol js (filled u s t m)) \<le> capacity d")
    case True
    then obtain d' where d': "updateBrokerProtocolMessageInBlock js u m s t skip d = (Inr (), filled u s t m, d')"
      "wf_block d'" "db_offset1 d' = db_offset1 d"
      "db_bytes d' = take (unat (db_offset1 d)) (db_bytes d) @ js_protocol js (filled u s t m)"
      using b by auto
    then have "holds_message js (filled u s t m) payload d'" using d by (simp add: holds_message_def)
    from read_message [OF this filled_valid [OF assms(2)] assms(3), of False] d' show ?thesis by simp
  next
    case False
    then show ?thesis using b d by simp
  qed
qed

definition sample_block :: data_block where
  "sample_block = \<lparr>db_data = [1, 123, 125, 0], db_capacity = 4, db_size = 3, db_freed = False, db_offset1 = 1\<rparr>"

lemma msg_fill_in_peers_witness:
  "\<exists>d'. updateBrokerProtocolMessageInBlock sample_json (\<lambda>_. ''id'') sample_message 3 4 True sample_block
         = (Inr (), filled (\<lambda>_. ''id'') 3 4 sample_message, d')
     \<and> deserializeBlockToObjects sample_json False d' = Inr (filled (\<lambda>_. ''id'') 3 4 sample_message, Some True)"
proof -
  let ?m = "filled (\<lambda>_. ''id'') 3 4 sample_message"
  have h: "holds_message sample_json sample_message (Some True) sample_block"
    by (simp add: holds_message_def wf_block_def db_bytes_def payload_text_def sample_json_def sample_message_def
        createAcknowledgmentMessage_def createBrokerProtocolMessage_def sample_block_def)
  have r: "reads_back sample_json ?m (Some True)" "length (js_protocol sample_json ?m) = 3"
    "length (payload_text sample_json (Some True)) = 1" "capacity sample_block = 4"
    by (simp_all add: reads_back_def sample_json_def filled_def sample_message_def createAcknowledgmentMessage_def
        createBrokerProtocolMessage_def payload_text_def sample_block_def capacity_def)
  then show ?thesis
    using msg_fill_in_peers [OF h sample_valid(1) r(1), of True] by (auto split: prod.splits sum.splits)
qed

section \<open>Going around the connected targets\<close>

text \<open>The targets in the order in which the dispatch will look at them.\<close>

definition upcoming :: "('d \<Rightarrow> bool) \<Rightarrow> 'd rotating \<Rightarrow> 'd list" where
  "upcoming connected r = filter connected (rotate (rt_targetIndex r) (rt_targets r))"

definition wf_rotating :: "'d rotating \<Rightarrow> bool" where
  "wf_rotating r \<longleftrightarrow> rt_targetIndex r < length (rt_targets r)"

abbreviation step_index :: "'d rotating \<Rightarrow> 'd rotating" where
  "step_index r \<equiv> r\<lparr>rt_targetIndex := (rt_targetIndex r + 1) mod length (rt_targets r)\<rparr>"

lemma init_rotating: "initRotating targets random = Inr r \<Longrightarrow> wf_rotating r \<and> rt_targets r = targets"
  by (auto simp: initRotating_def wf_rotating_def split: if_splits)

lemma step_index_rotate:
  assumes "wf_rotating r"
  shows "wf_rotating (step_index r)"
    "rotate (rt_targetIndex (step_index r)) (rt_targets r) = rotate1 (rotate (rt_targetIndex r) (rt_targets r))"
    "rt_targets r ! rt_targetIndex r = hd (rotate (rt_targetIndex r) (rt_targets r))"
proof -
  have n: "rt_targets r \<noteq> []" "rt_targetIndex r < length (rt_targets r)" using assms by (auto simp: wf_rotating_def)
  then show "wf_rotating (step_index r)" by (simp add: wf_rotating_def)
  show "rotate (rt_targetIndex (step_index r)) (rt_targets r) = rotate1 (rotate (rt_targetIndex r) (rt_targets r))"
    by (simp add: rotate_conv_mod [symmetric])
  show "rt_targets r ! rt_targetIndex r = hd (rotate (rt_targetIndex r) (rt_targets r))"
    using n by (simp add: hd_rotate_conv_nth)
qed

lemma find_target:
  assumes "wf_rotating r" "rotate (rt_targetIndex r) (rt_targets r) = pre @ x # post"
    "\<forall>y \<in> set pre. \<not> connected y" "connected x" "length pre < n"
  shows "\<exists>r'. findTarget connected n r = (Some x, r') \<and> wf_rotating r' \<and> rt_targets r' = rt_targets r
    \<and> rotate (rt_targetIndex r') (rt_targets r') = post @ pre @ [x]"
  using assms
proof (induction pre arbitrary: n r post)
  case Nil
  then obtain k where "n = Suc k" by (cases n) auto
  with Nil step_index_rotate [OF Nil.prems(1)] show ?case by (simp add: Let_def)
next
  case (Cons a pre)
  obtain k where k: "n = Suc k" "length pre < k" using Cons.prems(5) by (cases n) auto
  note s = step_index_rotate [OF Cons.prems(1)]
  have "\<exists>r'. findTarget connected k (step_index r) = (Some x, r') \<and> wf_rotating r' \<and> rt_targets r' = rt_targets (step_index r)
      \<and> rotate (rt_targetIndex r') (rt_targets r') = (post @ [a]) @ pre @ [x]"
    by (rule Cons.IH) (use Cons.prems s k in simp_all)
  then show ?case using Cons.prems s(3) k by (simp add: Let_def)
qed

lemma find_nothing:
  assumes "wf_rotating r" "upcoming connected r = []"
  shows "\<exists>r'. findTarget connected n r = (None, r') \<and> wf_rotating r' \<and> rt_targets r' = rt_targets r"
  using assms
proof (induction n arbitrary: r)
  case (Suc n)
  note s = step_index_rotate [OF Suc.prems(1)]
  have none: "\<not> connected y" if "y \<in> set (rt_targets r)" for y
    using Suc.prems(2) that by (auto simp: upcoming_def filter_empty_conv)
  then have "\<not> connected (rt_targets r ! rt_targetIndex r)" using Suc.prems(1) by (simp add: wf_rotating_def)
  moreover have "upcoming connected (step_index r) = []"
    using none by (simp add: upcoming_def filter_empty_conv)
  ultimately show ?case using Suc.IH [OF s(1)] by (simp add: Let_def)
qed simp

lemma invoke_next:
  assumes "wf_rotating r"
  shows "\<exists>r'. invokeImpl connected r = ((case upcoming connected r of [] \<Rightarrow> Inl NotConnectedToBroker | x # _ \<Rightarrow> Inr x), r')
    \<and> wf_rotating r' \<and> rt_targets r' = rt_targets r \<and> upcoming connected r' = rotate1 (upcoming connected r)"
proof (cases "upcoming connected r")
  case Nil
  obtain r' where r': "findTarget connected (length (rt_targets r)) r = (None, r')" "wf_rotating r'" "rt_targets r' = rt_targets r"
    using find_nothing [OF assms Nil] by blast
  then have "upcoming connected r' = []" using Nil by (auto simp: upcoming_def filter_empty_conv)
  then show ?thesis using r' Nil by (simp add: invokeImpl_def)
next
  case (Cons x xs)
  then obtain pre post where p: "rotate (rt_targetIndex r) (rt_targets r) = pre @ x # post" "\<forall>y \<in> set pre. \<not> connected y"
    "connected x" "xs = filter connected post"
    by (auto simp: upcoming_def filter_eq_Cons_iff)
  have "length pre < length (rt_targets r)"
    using arg_cong [OF p(1), of length] by simp
  with find_target [OF assms p(1,2,3)] obtain r' where r': "findTarget connected (length (rt_targets r)) r = (Some x, r')"
    "wf_rotating r'" "rt_targets r' = rt_targets r" "rotate (rt_targetIndex r') (rt_targets r') = post @ pre @ [x]" by blast
  have "filter connected pre = []" using p(2) by (simp add: filter_empty_conv)
  then have "upcoming connected r' = rotate1 (upcoming connected r)"
    unfolding Cons using r'(4) p(3,4) by (simp add: upcoming_def)
  then show ?thesis using r'(1,2,3) Cons by (simp add: invokeImpl_def)
qed

fun invokes :: "('d \<Rightarrow> bool) \<Rightarrow> nat \<Rightarrow> 'd rotating \<Rightarrow> (msg_exc + 'd) list" where
  "invokes connected 0 r = []"
| "invokes connected (Suc n) r = (let (x, r') = invokeImpl connected r in x # invokes connected n r')"

text \<open>
  The rotating dispatch is a round robin: while the connections do not change, successive calls go
  around the connected targets in order, so that in every round each of them is taken once and a
  target that is not connected never; a call fails exactly when no target is connected.
\<close>
theorem msg_rotating_dispatch:
  assumes "initRotating targets random = Inr r"
  shows "mset (upcoming connected r) = mset (filter connected targets)
    \<and> invokes connected n r = (if filter connected targets = [] then replicate n (Inl NotConnectedToBroker)
        else map (\<lambda>k. Inr (upcoming connected r ! (k mod length (upcoming connected r)))) [0..<n])"
proof -
  have r: "wf_rotating r" "rt_targets r = targets"
    using init_rotating [OF assms] by simp_all
  have m: "mset (upcoming connected r) = mset (filter connected targets)"
    by (simp add: upcoming_def r(2) rotate_drop_take flip: mset_filter)
      (metis add.commute append_take_drop_id filter_append mset_append)
  have "invokes connected n r = (if upcoming connected r = [] then replicate n (Inl NotConnectedToBroker)
        else map (\<lambda>k. Inr (upcoming connected r ! (k mod length (upcoming connected r)))) [0..<n])"
    using r(1)
  proof (induction n arbitrary: r)
    case (Suc n)
    let ?l = "upcoming connected r"
    obtain r' where r': "invokeImpl connected r = ((case ?l of [] \<Rightarrow> Inl NotConnectedToBroker | x # _ \<Rightarrow> Inr x), r')"
      "wf_rotating r'" "upcoming connected r' = rotate1 ?l"
      using invoke_next [OF Suc.prems] by blast
    show ?case
    proof (cases "?l = []")
      case True
      then show ?thesis using r' Suc.IH [OF r'(2)] by simp
    next
      case False
      have "rotate1 ?l ! (k mod length ?l) = ?l ! (Suc k mod length ?l)" for k
        using False by (simp add: nth_rotate1 mod_Suc_eq)
      then have "invokes connected n r' = map (\<lambda>k. Inr (?l ! (Suc k mod length ?l))) [0..<n]"
        using Suc.IH [OF r'(2)] r'(3) False by simp
      moreover have "(case ?l of [] \<Rightarrow> Inl NotConnectedToBroker | x # _ \<Rightarrow> Inr x) = Inr (?l ! 0)"
        using False by (simp split: list.split)
      ultimately show ?thesis using r'(1) False by (simp add: upt_conv_Cons map_Suc_upt [symmetric] del: upt_Suc)
    qed
  qed simp
  then show ?thesis using m by (metis mset_zero_iff)
qed

lemma msg_rotating_dispatch_witness:
  "\<exists>r. initRotating [1, 2, 3::nat] 4 = Inr r \<and> invokes odd 5 r = map Inr [3, 1, 3, 1, 3]"
proof -
  let ?r = "\<lparr>rt_targets = [1, 2, 3::nat], rt_targetIndex = 1\<rparr>"
  have i: "initRotating [1, 2, 3::nat] 4 = Inr ?r" by (simp add: initRotating_def)
  have u: "upcoming odd ?r = [3, 1]" by (simp add: upcoming_def numeral_3_eq_3)
  have "map (\<lambda>k. Inr ([3, 1] ! (k mod 2))) [0..<5] = (map Inr [3, 1, 3, 1, 3] :: (msg_exc + nat) list)" by code_simp
  then show ?thesis using msg_rotating_dispatch [OF i, of odd 5] i u by (simp add: numeral_2_eq_2)
qed

text \<open>Expanding the endpoints gives at least the requested number, in rounds over all of them.\<close>

lemma expand_endpoints:
  assumes "expandEndpoints n es = Inr xs"
  shows "n \<le> length xs \<and> length es dvd length xs \<and> (\<forall>i < length xs. xs ! i = es ! (i mod length es))
    \<and> (0 < n \<longrightarrow> length xs < n + length es)"
proof -
  let ?k = "length es" and ?f = "(if n div length es = 0 \<or> n mod length es \<noteq> 0 then 1 else 0) + n div length es"
  have k: "0 < ?k" and xs: "xs = map (\<lambda>i. es ! (i mod ?k)) [0..<?k * ?f]"
    using assms by (auto simp: expandEndpoints_def Let_def split: if_splits)
  define q r where "q = n div ?k" and "r = n mod ?k"
  have n: "n = ?k * q + r" "r < ?k" using k by (simp_all add: q_def r_def)
  have "n \<le> ?k * ((if q = 0 \<or> r \<noteq> 0 then 1 else 0) + q) \<and> (0 < n \<longrightarrow> ?k * ((if q = 0 \<or> r \<noteq> 0 then 1 else 0) + q) < n + ?k)"
    using n by (cases "q = 0 \<or> r \<noteq> 0") (auto simp: distrib_left)
  then show ?thesis by (simp add: xs q_def r_def)
qed

end
