(* ===== verification/Proxy.thy ===== *)
theory Proxy
  imports Messages
begin

text \<open>
  The proxy of a broker, \<open>messaging/ProxyBrokerBackendProcessingFactory.h\<close> over
  \<open>messaging/ForwardingBackendSharedState.h\<close>: clients connect to the proxy, which tells the real
  broker on every channel (one connection) which peers are reachable through it, with an associate
  message per peer and channel.  Each function runs under the lock of the shared state; what it
  schedules is part of its result.  The connections are arguments: \<open>channelId\<close> gives the identifier of
  the current connection of a dispatch, \<open>connected\<close> whether it is up; so are the readings of the clock,
  the active peers of the host services and the order in which the hash tables are iterated.
\<close>

type_synonym dispatch_id = nat
type_synonym channel_id = peer_id

section \<open>The shared state\<close>

definition ASSOCIATE_PEERID_TIMER_IN_SECONDS :: int where "ASSOCIATE_PEERID_TIMER_IN_SECONDS = 5"
definition PRUNE_CHECK_INTERVAL_IN_SECONDS :: int where
  "PRUNE_CHECK_INTERVAL_IN_SECONDS = 2 * ASSOCIATE_PEERID_TIMER_IN_SECONDS"
definition PRUNE_INTERVAL_IN_SECONDS :: int where
  "PRUNE_INTERVAL_IN_SECONDS = 3 * PRUNE_CHECK_INTERVAL_IN_SECONDS"
definition MAX_MEMORY_FOR_ASSOCIATE_BLOCKS_IN_KB :: nat where
  "MAX_MEMORY_FOR_ASSOCIATE_BLOCKS_IN_KB = 5 * 1024"

text \<open>Times and durations are in milliseconds.\<close>

definition seconds :: "int \<Rightarrow> int" where "seconds n = 1000 * n"

record shared_backend =
  sb_outgoingDisposed :: bool
  sb_wrapperDisposed :: bool
  sb_receiverDisposed :: bool
  sb_clientsDisposed :: bool
  sb_hostServices :: bool
  sb_isDisposed :: bool

text \<open>\<open>px_cancels\<close> counts the requests to cancel on the control token of the server.\<close>

record proxy_state = shared_backend +
  px_eqDisposed :: bool
  px_clientsState :: "peer_id \<rightharpoonup> channel_id set"
  px_channelsState :: "channel_id \<rightharpoonup> dispatch_id"
  px_wasFullyDisconnected :: bool
  px_cancels :: nat
  px_clientsPruneState :: "peer_id \<rightharpoonup> int"
  px_clientsPruneCheckInterval :: int
  px_clientsPruneInterval :: int
  px_timeLastClientsPruneCheck :: int
  px_noOfSmallBlocksAllocated :: nat
  px_maxNoOfSmallBlocks :: nat

text \<open>A task that sends an associate message; \<open>as_message\<close> is the message that waits behind it.\<close>

record associate_task =
  as_peer :: peer_id
  as_channel :: channel_id
  as_dispatch :: dispatch_id
  as_message :: "(peer_id \<times> data_block) option"

section \<open>Disposal\<close>

definition base_disposeInternal :: "bool \<Rightarrow> 'a shared_backend_scheme \<Rightarrow> 'a shared_backend_scheme" where
  "base_disposeInternal markAsDisposed s =
     (if sb_isDisposed s then s
      else let s1 = s\<lparr>sb_outgoingDisposed := True, sb_wrapperDisposed := True, sb_receiverDisposed := True,
                sb_clientsDisposed := True, sb_hostServices := False\<rparr>
        in if markAsDisposed then s1\<lparr>sb_isDisposed := True\<rparr> else s1)"

text \<open>The lock is released while the tasks are flushed, so disposal has three sections.\<close>

definition px_disposeBegin :: "proxy_state \<Rightarrow> proxy_state option" where
  "px_disposeBegin s = (if sb_isDisposed s then None else Some (s\<lparr>sb_isDisposed := True\<rparr>))"

definition px_disposeEnd :: "proxy_state \<Rightarrow> proxy_state" where
  "px_disposeEnd s = (base_disposeInternal False s)\<lparr>px_eqDisposed := True\<rparr>"

definition px_disposeInternal :: "(proxy_state \<Rightarrow> proxy_state) \<Rightarrow> proxy_state \<Rightarrow> proxy_state" where
  "px_disposeInternal flush s = (case px_disposeBegin s of None \<Rightarrow> s | Some s1 \<Rightarrow> px_disposeEnd (flush s1))"

definition px_setHostServices :: "proxy_state \<Rightarrow> proxy_state" where
  "px_setHostServices s = s\<lparr>sb_hostServices := True\<rparr>"

section \<open>Construction\<close>

fun getChannelsLoop :: "(dispatch_id \<Rightarrow> channel_id) \<Rightarrow> dispatch_id list \<Rightarrow> (channel_id \<rightharpoonup> dispatch_id) \<Rightarrow> (channel_id \<rightharpoonup> dispatch_id) res" where
  "getChannelsLoop channelId [] m = Inr m"
| "getChannelsLoop channelId (c # cs) m =
     (if channelId c = 0 then Inl UnexpectedExc else getChannelsLoop channelId cs (m(channelId c \<mapsto> c)))"

definition getChannelsState :: "(dispatch_id \<Rightarrow> channel_id) \<Rightarrow> dispatch_id list \<Rightarrow> (channel_id \<rightharpoonup> dispatch_id) res" where
  "getChannelsState channelId clients = getChannelsLoop channelId clients Map.empty"

text \<open>\<open>textSize\<close> is the size of the text of an associate message.\<close>

definition getSmallBlockSize :: "nat \<Rightarrow> 64 word res" where
  "getSmallBlockSize textSize = alignedOfDefault (of_nat (130 * textSize) div 100) 512"

definition maxSmallBlocks :: "nat \<Rightarrow> 64 word \<Rightarrow> nat" where
  "maxSmallBlocks maxNoOfSmallBlocks smallBlockSize =
     (if maxNoOfSmallBlocks \<noteq> 0 then maxNoOfSmallBlocks
      else (1024 * MAX_MEMORY_FOR_ASSOCIATE_BLOCKS_IN_KB) div unat smallBlockSize)"

definition new_proxy ::
  "(dispatch_id \<Rightarrow> channel_id) \<Rightarrow> dispatch_id list \<Rightarrow> nat \<Rightarrow> nat \<Rightarrow> int \<Rightarrow> proxy_state res" where
  "new_proxy channelId clients maxNoOfSmallBlocks textSize now =
     bindR (getSmallBlockSize textSize)
       (\<lambda>smallBlockSize. bindR (getChannelsState channelId clients)
         (\<lambda>channels. let n = maxSmallBlocks maxNoOfSmallBlocks smallBlockSize in
            if \<not> n > 5 then Inl AssertFailed
            else Inr \<lparr>sb_outgoingDisposed = False, sb_wrapperDisposed = False, sb_receiverDisposed = False,
              sb_clientsDisposed = False, sb_hostServices = False, sb_isDisposed = False, px_eqDisposed = False,
              px_clientsState = Map.empty, px_channelsState = channels, px_wasFullyDisconnected = False, px_cancels = 0,
              px_clientsPruneState = Map.empty, px_clientsPruneCheckInterval = seconds PRUNE_CHECK_INTERVAL_IN_SECONDS,
              px_clientsPruneInterval = seconds PRUNE_INTERVAL_IN_SECONDS, px_timeLastClientsPruneCheck = now,
              px_noOfSmallBlocksAllocated = 0, px_maxNoOfSmallBlocks = n\<rparr>))"

section \<open>Associate messages\<close>

definition isFullyDisconnected :: "bool \<Rightarrow> proxy_state \<Rightarrow> bool \<times> proxy_state" where
  "isFullyDisconnected isConnected s =
     (let s1 = (if isConnected then s\<lparr>px_wasFullyDisconnected := False\<rparr>
                else if \<not> px_wasFullyDisconnected s then s\<lparr>px_wasFullyDisconnected := True, px_cancels := px_cancels s + 1\<rparr>
                else s)
      in (px_wasFullyDisconnected s1, s1))"

text \<open>
  A block for an associate message: its reference counts as allocated until it is dehydrated.  The
  text always fits (\<open>px_associate_fits\<close>), so serializing it does not fail.
\<close>

definition getAssociateMessageDataBlock :: "bool \<Rightarrow> proxy_state \<Rightarrow> bool \<times> proxy_state" where
  "getAssociateMessageDataBlock tryOnly s =
     (let n = px_noOfSmallBlocksAllocated s + 1 in
      if tryOnly \<and> n \<ge> px_maxNoOfSmallBlocks s then (False, s) else (True, s\<lparr>px_noOfSmallBlocksAllocated := n\<rparr>))"

definition dehydrate :: "proxy_state \<Rightarrow> proxy_state" where
  "dehydrate s = s\<lparr>px_noOfSmallBlocksAllocated := px_noOfSmallBlocksAllocated s - 1\<rparr>"

text \<open>The associations that are not valid any more: unknown channels and those that are down.\<close>

definition liveChannels :: "(dispatch_id \<Rightarrow> bool) \<Rightarrow> proxy_state \<Rightarrow> channel_id set \<Rightarrow> channel_id set" where
  "liveChannels connected s configured =
     {c \<in> configured. case px_channelsState s c of None \<Rightarrow> False | Some d \<Rightarrow> connected d}"

fun associateLoop ::
  "(dispatch_id \<Rightarrow> bool) \<Rightarrow> peer_id \<Rightarrow> channel_id set \<Rightarrow> (channel_id \<times> dispatch_id) list \<Rightarrow> proxy_state
     \<Rightarrow> bool \<times> associate_task list \<times> proxy_state" where
  "associateLoop connected peer configured [] s = (False, [], s)"
| "associateLoop connected peer configured ((c, d) # channels) s =
     (if c \<in> configured \<or> \<not> connected d then associateLoop connected peer configured channels s
      else case getAssociateMessageDataBlock True s of
        (False, s1) \<Rightarrow> (True, [], s1)
      | (True, s1) \<Rightarrow>
          (let (requestTimeout, tasks, s2) = associateLoop connected peer configured channels s1
           in (requestTimeout, \<lparr>as_peer = peer, as_channel = c, as_dispatch = d, as_message = None\<rparr> # tasks, s2)))"

text \<open>\<open>channels\<close> lists \<open>m_channelsState\<close> in the order of iteration.\<close>

definition configureMissingChannelIdAssociations ::
  "(dispatch_id \<Rightarrow> bool) \<Rightarrow> (channel_id \<times> dispatch_id) list \<Rightarrow> peer_id \<Rightarrow> channel_id set \<Rightarrow> proxy_state
     \<Rightarrow> bool \<times> associate_task list \<times> proxy_state" where
  "configureMissingChannelIdAssociations connected channels peer configured s =
     (let configured1 = liveChannels connected s configured
      in associateLoop connected peer configured1 channels (s\<lparr>px_clientsState := (px_clientsState s)(peer \<mapsto> configured1)\<rparr>))"

section \<open>Pruning\<close>

text \<open>The k-th reading of the clock in a call is \<open>clock k\<close>.\<close>

fun pruneLoop :: "(nat \<Rightarrow> int) \<Rightarrow> nat \<Rightarrow> peer_id list \<Rightarrow> proxy_state \<Rightarrow> proxy_state" where
  "pruneLoop clock k [] s = s"
| "pruneLoop clock k (peer # peers) s =
     (let now = clock k in
      case px_clientsPruneState s peer of
        None \<Rightarrow> pruneLoop clock (k + 1) peers (s\<lparr>px_clientsPruneState := (px_clientsPruneState s)(peer \<mapsto> now)\<rparr>)
      | Some since \<Rightarrow>
          (if now - since < px_clientsPruneInterval s then pruneLoop clock (k + 1) peers s
           else pruneLoop clock (k + 1) peers
             (s\<lparr>px_clientsPruneState := (px_clientsPruneState s)(peer := None),
                px_clientsState := (px_clientsState s)(peer := None)\<rparr>)))"

text \<open>
  \<open>active\<close>: the ids of the active queues, or \<open>None\<close> when the host services have no dispatcher;
  \<open>clients\<close>: the peers of \<open>m_clientsState\<close> in the order of iteration.
\<close>

definition checkToPruneStaleClientsState ::
  "(nat \<Rightarrow> int) \<Rightarrow> peer_id list option \<Rightarrow> peer_id list \<Rightarrow> proxy_state \<Rightarrow> unit res \<times> proxy_state" where
  "checkToPruneStaleClientsState clock active clients s =
     (if \<not> sb_hostServices s then (Inr (), s)
      else if clock 0 - px_timeLastClientsPruneCheck s < px_clientsPruneCheckInterval s then (Inr (), s)
      else case active of
        None \<Rightarrow> (Inl UnexpectedExc, s)
      | Some activePeerIds \<Rightarrow>
          (let s1 = s\<lparr>px_clientsPruneState := (px_clientsPruneState s) |` (- set activePeerIds)\<rparr>;
               inactivePeerIds = filter (\<lambda>p. p \<notin> set activePeerIds) clients;
               s2 = pruneLoop clock 1 inactivePeerIds s1;
               s3 = s2\<lparr>px_clientsState := (\<lambda>p. if p \<in> set activePeerIds \<and> px_clientsState s2 p = None then Some {}
                                            else px_clientsState s2 p)\<rparr>
           in (Inr (), s3\<lparr>px_timeLastClientsPruneCheck := clock (length inactivePeerIds + 1)\<rparr>)))"

section \<open>The calls\<close>

definition px_setClientsPruneIntervals :: "int \<Rightarrow> int \<Rightarrow> proxy_state \<Rightarrow> unit res \<times> proxy_state" where
  "px_setClientsPruneIntervals checkInterval interval s =
     (if \<not> interval \<ge> checkInterval then (Inl AssertFailed, s)
      else (Inr (), s\<lparr>px_clientsPruneCheckInterval := checkInterval, px_clientsPruneInterval := interval\<rparr>))"

definition px_getCurrentState :: "proxy_state \<Rightarrow> peer_id set \<times> peer_id set" where
  "px_getCurrentState s = (dom (px_clientsState s), dom (px_clientsPruneState s))"

text \<open>The environment of a call.\<close>

record proxy_env =
  pe_clients :: "dispatch_id list"
  pe_channelId :: "dispatch_id \<Rightarrow> channel_id"
  pe_connected :: "dispatch_id \<Rightarrow> bool"

text \<open>The outgoing dispatch rotates over the block clients; a disposed one has no targets.\<close>

definition outgoingConnected :: "proxy_env \<Rightarrow> proxy_state \<Rightarrow> bool" where
  "outgoingConnected env s \<longleftrightarrow> \<not> sb_outgoingDisposed s \<and> list_ex (pe_connected env) (pe_clients env)"

definition channelsOf :: "channel_id set option \<Rightarrow> channel_id set" where
  "channelsOf info = (case info of None \<Rightarrow> {} | Some c \<Rightarrow> c)"

fun associateAll ::
  "(dispatch_id \<Rightarrow> bool) \<Rightarrow> (channel_id \<times> dispatch_id) list \<Rightarrow> peer_id list \<Rightarrow> int \<Rightarrow> proxy_state
     \<Rightarrow> int \<times> associate_task list \<times> proxy_state" where
  "associateAll connected channels [] duration s = (duration, [], s)"
| "associateAll connected channels (peer # peers) duration s =
     (case configureMissingChannelIdAssociations connected channels peer (channelsOf (px_clientsState s peer)) s of
        (True, tasks, s1) \<Rightarrow> (100, tasks, s1)
      | (False, tasks, s1) \<Rightarrow>
          (let (duration1, tasks1, s2) = associateAll connected channels peers duration s1 in (duration1, tasks @ tasks1, s2)))"

text \<open>\<open>channels\<close> and \<open>peers\<close>: both tables after the checks, in the order of iteration.\<close>

definition px_onTimer ::
  "proxy_env \<Rightarrow> (nat \<Rightarrow> int) \<Rightarrow> peer_id list option \<Rightarrow> peer_id list \<Rightarrow> (channel_id \<times> dispatch_id) list \<Rightarrow> peer_id list
     \<Rightarrow> proxy_state \<Rightarrow> int res \<times> associate_task list \<times> proxy_state" where
  "px_onTimer env clock active clients channels peers s =
     (let durationDefault = seconds ASSOCIATE_PEERID_TIMER_IN_SECONDS in
      if sb_isDisposed s then (Inr durationDefault, [], s)
      else let duration = (if px_clientsPruneCheckInterval s < durationDefault then px_clientsPruneCheckInterval s else durationDefault)
        in case checkToPruneStaleClientsState clock active clients s of
          (Inl e, s1) \<Rightarrow> (Inl e, [], s1)
        | (Inr _, s1) \<Rightarrow> (case getChannelsState (pe_channelId env) (pe_clients env) of
            Inl e \<Rightarrow> (Inl e, [], s1)
          | Inr channelsState \<Rightarrow>
              (let s2 = (if dom channelsState \<noteq> dom (px_channelsState s1) then s1\<lparr>px_channelsState := channelsState\<rparr> else s1);
                   (fullyDisconnected, s3) = isFullyDisconnected (outgoingConnected env s2) s2
               in if fullyDisconnected then (Inr duration, [], s3)
                  else let (duration1, tasks, s4) = associateAll (pe_connected env) channels peers duration s3
                    in (Inr duration1, tasks, s4))))"

text \<open>
  The message of a client: forwarded on the next channel, behind an associate message when the target
  is a client of this proxy that is not configured on that channel yet.
\<close>

datatype proxy_send = SendNow dispatch_id peer_id data_block | SendBehind associate_task

definition px_createBackendProcessingTask ::
  "('u, 'p) json_library \<Rightarrow> (peer_id \<Rightarrow> string) \<Rightarrow> proxy_env \<Rightarrow> peer_id \<Rightarrow> peer_id \<Rightarrow> data_block
     \<Rightarrow> dispatch_id rotating \<Rightarrow> proxy_state \<Rightarrow> (msg_exc + proxy_send) \<times> data_block \<times> dispatch_id rotating \<times> proxy_state" where
  "px_createBackendProcessingTask js uuid2string env sourcePeerId targetPeerId d outgoing s =
     (case deserializeBlockToObjects js True d of
        Inl e \<Rightarrow> (Inl (MsgError e), d, outgoing, s)
      | Inr (brokerProtocol, _) \<Rightarrow>
          (case updateBrokerProtocolMessageInBlock js uuid2string brokerProtocol sourcePeerId targetPeerId True d of
             (Inl e, _, d1) \<Rightarrow> (Inl e, d1, outgoing, s)
           | (Inr _, _, d1) \<Rightarrow> (case invokeImpl (pe_connected env) outgoing of
                 (Inl e, outgoing1) \<Rightarrow> (Inl e, d1, outgoing1, s)
               | (Inr blockDispatch, outgoing1) \<Rightarrow>
                   (case px_clientsState s targetPeerId of
                      None \<Rightarrow> (Inr (SendNow blockDispatch targetPeerId d1), d1, outgoing1, s)
                    | Some configured \<Rightarrow>
                        (let channel = pe_channelId env blockDispatch in
                         if channel \<in> configured then (Inr (SendNow blockDispatch targetPeerId d1), d1, outgoing1, s)
                         else let (_, s1) = getAssociateMessageDataBlock False s
                           in (Inr (SendBehind \<lparr>as_peer = targetPeerId, as_channel = channel, as_dispatch = blockDispatch,
                                 as_message = Some (targetPeerId, d1)\<rparr>), d1, outgoing1, s1))))))"

definition px_peerConnectedNotify ::
  "proxy_env \<Rightarrow> (channel_id \<times> dispatch_id) list \<Rightarrow> peer_id \<Rightarrow> proxy_state \<Rightarrow> associate_task list \<times> proxy_state" where
  "px_peerConnectedNotify env channels peer s =
     (let s1 = s\<lparr>px_clientsState := (px_clientsState s)(peer \<mapsto> {})\<rparr>;
          (fullyDisconnected, s2) = isFullyDisconnected (outgoingConnected env s1) s1
      in if fullyDisconnected then ([], s2)
         else let (_, tasks, s3) = configureMissingChannelIdAssociations (pe_connected env) channels peer {} s2
           in (tasks, s3))"

section \<open>Continuations\<close>

text \<open>
  How a push ended: done, with an error of the broker that is expected, or with another exception.  The
  continuation of the push gives the block back; it leads to the task that records the association,
  except when a message waits behind a push that failed.
\<close>

datatype push_result = Pushed | ExpectedError | PushFailed

definition associateContinuation :: "push_result \<Rightarrow> associate_task \<Rightarrow> proxy_state \<Rightarrow> bool \<times> proxy_state" where
  "associateContinuation r t s = (\<not> (as_message t \<noteq> None \<and> r \<noteq> Pushed), dehydrate s)"

text \<open>Its result: whether the task ends without an exception.\<close>

definition onPeerIdAssociateTaskCompleted :: "push_result \<Rightarrow> associate_task \<Rightarrow> proxy_state \<Rightarrow> bool \<times> proxy_state" where
  "onPeerIdAssociateTaskCompleted r t s =
     (case r of
        PushFailed \<Rightarrow> (False, s)
      | ExpectedError \<Rightarrow> (True, s)
      | Pushed \<Rightarrow> (True, if sb_isDisposed s then s
          else s\<lparr>px_clientsState := (px_clientsState s)
            (as_peer t \<mapsto> insert (as_channel t) (channelsOf (px_clientsState s (as_peer t))))\<rparr>))"

text \<open>The message behind it goes on unless the completion threw.\<close>

definition associateCompletion :: "bool \<Rightarrow> associate_task \<Rightarrow> (dispatch_id \<times> peer_id \<times> data_block) option" where
  "associateCompletion ok t =
     (case as_message t of None \<Rightarrow> None | Some (target, d) \<Rightarrow> if ok then Some (as_dispatch t, target, d) else None)"

end
