(* ===== verification/ProxySystem.thy ===== *)
theory ProxySystem
  imports Proxy
begin

text \<open>
  The proxy with its surroundings as a step relation: the timer, peers that connect, messages, the
  connections, which get a fresh identifier when they are replaced, and the tasks that send associate
  messages, whose push, continuation and completion are separate steps.  The decision to send a message
  and its push, by a task of its own, are separate steps, too.  A push is the step that hands the block
  to the connection; how it will end is an argument of the step.  \<open>sy_delivered\<close> is the history of the
  associate messages that reached the broker, and \<open>sy_sent\<close> that of the messages, with the connection
  they were sent on.
\<close>

datatype task_phase = Queued associate_task | Ended push_result associate_task | Recording push_result associate_task

text \<open>
  A message whose push is still to come.  The last two are history: whether its target was a client of
  the proxy when the message was let through, and the connection that was looked at.
\<close>

record pending_send =
  ps_dispatch :: dispatch_id
  ps_peer :: peer_id
  ps_block :: data_block
  ps_known :: bool
  ps_channel :: channel_id

record proxy_system =
  sy_px :: proxy_state
  sy_env :: proxy_env
  sy_rotating :: "dispatch_id rotating"
  sy_tasks :: "task_phase list"
  sy_owner :: "channel_id \<rightharpoonup> dispatch_id"
  sy_delivered :: "(peer_id \<times> channel_id) set"
  sy_sending :: "pending_send list"
  sy_sent :: "(dispatch_id \<times> channel_id \<times> peer_id \<times> data_block) list"

text \<open>A task in the first two phases holds a block.\<close>

fun holdsBlock :: "task_phase \<Rightarrow> bool" where
  "holdsBlock (Recording r t) \<longleftrightarrow> False"
| "holdsBlock _ \<longleftrightarrow> True"

fun phaseTask :: "task_phase \<Rightarrow> associate_task" where
  "phaseTask (Queued t) = t" | "phaseTask (Ended r t) = t" | "phaseTask (Recording r t) = t"

definition replaceTask :: "nat \<Rightarrow> task_phase list \<Rightarrow> task_phase list \<Rightarrow> task_phase list" where
  "replaceTask k new tasks = take k tasks @ new @ drop (Suc k) tasks"

datatype ('u, 'p) proxy_action =
    PTimer "nat \<Rightarrow> int" "peer_id list option" "peer_id list" "(channel_id \<times> dispatch_id) list" "peer_id list"
  | PConnected peer_id "(channel_id \<times> dispatch_id) list"
  | PMessage "('u, 'p) json_library" "peer_id \<Rightarrow> string" peer_id peer_id data_block
  | PPush nat push_result
  | PContinue nat
  | PRecord nat
  | PDiscard nat
  | PSend nat push_result
  | PLink dispatch_id channel_id bool
  | PIntervals int int
  | PHostServices
  | PDisposeBegin
  | PDisposeEnd

text \<open>The orders of iteration list the tables as the call finds them after its checks.\<close>

definition iterates :: "(channel_id \<times> dispatch_id) list \<Rightarrow> proxy_state \<Rightarrow> bool" where
  "iterates channels s \<longleftrightarrow> distinct (map fst channels) \<and> map_of channels = px_channelsState s"

definition proxy_enabled :: "proxy_system \<Rightarrow> ('u, 'p) proxy_action \<Rightarrow> bool" where
  "proxy_enabled s a = (case a of
     PTimer clock active clients channels peers \<Rightarrow>
       set clients = dom (px_clientsState (sy_px s)) \<and> distinct clients
       \<and> (let (_, _, px) = px_onTimer (sy_env s) clock active clients channels peers (sy_px s)
          in iterates channels px \<and> set peers = dom (px_clientsState px) \<and> distinct peers)
   | PConnected peer channels \<Rightarrow> iterates channels (sy_px s)
   | PPush k r \<Rightarrow> k < length (sy_tasks s) \<and> (\<exists>t. sy_tasks s ! k = Queued t)
   | PContinue k \<Rightarrow> k < length (sy_tasks s) \<and> (\<exists>r t. sy_tasks s ! k = Ended r t)
   | PRecord k \<Rightarrow> k < length (sy_tasks s) \<and> (\<exists>r t. sy_tasks s ! k = Recording r t)
   | PDiscard k \<Rightarrow> k < length (sy_tasks s) \<and> (\<exists>t. sy_tasks s ! k = Queued t)
   | PSend k r \<Rightarrow> k < length (sy_sending s)
   | PDisposeEnd \<Rightarrow> sb_isDisposed (sy_px s)
   | PLink d c up \<Rightarrow> d \<in> set (pe_clients (sy_env s)) \<and> c \<noteq> 0 \<and> (c = pe_channelId (sy_env s) d \<or> sy_owner s c = None)
   | _ \<Rightarrow> True)"

definition addTasks :: "associate_task list \<Rightarrow> proxy_system \<Rightarrow> proxy_system" where
  "addTasks ts s = s\<lparr>sy_tasks := sy_tasks s @ map Queued ts\<rparr>"

fun proxy_act :: "proxy_system \<Rightarrow> ('u, 'p) proxy_action \<Rightarrow> proxy_system" where
  "proxy_act s (PTimer clock active clients channels peers) =
     (let (_, ts, px) = px_onTimer (sy_env s) clock active clients channels peers (sy_px s) in addTasks ts (s\<lparr>sy_px := px\<rparr>))"
| "proxy_act s (PConnected peer channels) =
     (let (ts, px) = px_peerConnectedNotify (sy_env s) channels peer (sy_px s) in addTasks ts (s\<lparr>sy_px := px\<rparr>))"
| "proxy_act s (PMessage js uuid2string source target d) =
     (let (r, _, rotating, px) = px_createBackendProcessingTask js uuid2string (sy_env s) source target d (sy_rotating s) (sy_px s);
          s1 = s\<lparr>sy_px := px, sy_rotating := rotating\<rparr>
      in case r of
           Inl _ \<Rightarrow> s1
         | Inr (SendNow d t b) \<Rightarrow> s1\<lparr>sy_sending := sy_sending s @ [\<lparr>ps_dispatch = d, ps_peer = t, ps_block = b,
             ps_known = (px_clientsState (sy_px s) t \<noteq> None), ps_channel = pe_channelId (sy_env s) d\<rparr>]\<rparr>
         | Inr (SendBehind t) \<Rightarrow> addTasks [t] s1)"
| "proxy_act s (PPush k r) =
     (let t = phaseTask (sy_tasks s ! k);
          s1 = s\<lparr>sy_tasks := replaceTask k [Ended r t] (sy_tasks s)\<rparr>
      in if r = Pushed
         then s1\<lparr>sy_delivered := insert (as_peer t, pe_channelId (sy_env s) (as_dispatch t)) (sy_delivered s)\<rparr> else s1)"
| "proxy_act s (PContinue k) =
     (case sy_tasks s ! k of
        Ended r t \<Rightarrow> (let (goesOn, px) = associateContinuation r t (sy_px s)
          in s\<lparr>sy_px := px, sy_tasks := replaceTask k (if goesOn then [Recording r t] else []) (sy_tasks s)\<rparr>)
      | _ \<Rightarrow> s)"
| "proxy_act s (PRecord k) =
     (case sy_tasks s ! k of
        Recording r t \<Rightarrow> (let (ok, px) = onPeerIdAssociateTaskCompleted r t (sy_px s)
          in s\<lparr>sy_px := px, sy_tasks := replaceTask k [] (sy_tasks s),
               sy_sending := sy_sending s @ (case associateCompletion ok t of None \<Rightarrow> []
                 | Some (d, target, b) \<Rightarrow> [\<lparr>ps_dispatch = d, ps_peer = target, ps_block = b, ps_known = True,
                     ps_channel = as_channel t\<rparr>])\<rparr>)
      | _ \<Rightarrow> s)"
| "proxy_act s (PDiscard k) = s\<lparr>sy_px := dehydrate (sy_px s), sy_tasks := replaceTask k [] (sy_tasks s)\<rparr>"
| "proxy_act s (PSend k r) =
     (let m = sy_sending s ! k; s1 = s\<lparr>sy_sending := take k (sy_sending s) @ drop (Suc k) (sy_sending s)\<rparr>
      in if r = Pushed
         then s1\<lparr>sy_sent := sy_sent s @ [(ps_dispatch m, pe_channelId (sy_env s) (ps_dispatch m), ps_peer m, ps_block m)]\<rparr> else s1)"
| "proxy_act s (PLink d c up) =
     s\<lparr>sy_env := (sy_env s)\<lparr>pe_channelId := (pe_channelId (sy_env s))(d := c), pe_connected := (pe_connected (sy_env s))(d := up)\<rparr>,
       sy_owner := (sy_owner s)(c \<mapsto> d)\<rparr>"
| "proxy_act s (PIntervals c i) = s\<lparr>sy_px := snd (px_setClientsPruneIntervals c i (sy_px s))\<rparr>"
| "proxy_act s PHostServices = s\<lparr>sy_px := px_setHostServices (sy_px s)\<rparr>"
| "proxy_act s PDisposeBegin = s\<lparr>sy_px := (case px_disposeBegin (sy_px s) of None \<Rightarrow> sy_px s | Some px \<Rightarrow> px)\<rparr>"
| "proxy_act s PDisposeEnd = s\<lparr>sy_px := px_disposeEnd (sy_px s)\<rparr>"

text \<open>At the start every block client has a connection of its own.\<close>

definition proxy_start :: "proxy_env \<Rightarrow> proxy_system \<Rightarrow> bool" where
  "proxy_start env s \<longleftrightarrow> inj_on (pe_channelId env) (set (pe_clients env)) \<and> sy_env s = env \<and> sy_tasks s = [] \<and> sy_delivered s = {}
     \<and> sy_sending s = [] \<and> sy_sent s = []
     \<and> (\<exists>n textSize now. new_proxy (pe_channelId env) (pe_clients env) n textSize now = Inr (sy_px s))
     \<and> (\<exists>random. initRotating (pe_clients env) random = Inr (sy_rotating s))
     \<and> (\<forall>c d. sy_owner s c = Some d \<longleftrightarrow> d \<in> set (pe_clients env) \<and> pe_channelId env d = c)"

inductive proxy_reach :: "proxy_env \<Rightarrow> proxy_system \<Rightarrow> bool" for env where
  start: "proxy_start env s \<Longrightarrow> proxy_reach env s"
| step: "proxy_reach env s \<Longrightarrow> proxy_enabled s (a :: (byte list, byte list) proxy_action) \<Longrightarrow> proxy_reach env (proxy_act s a)"

end
