(* ===== verification/ProxyInvariant.thy ===== *)
theory ProxyInvariant
  imports ProxySystem MessagesProps
begin

text \<open>
  What holds in every reachable state of the proxy: the blocks of associate messages are accounted
  for, a configured channel that is still the current connection of a dispatch has carried the
  associate message of the peer, and only known peers wait to be pruned.
\<close>

section \<open>The operations\<close>

definition holding :: "proxy_system \<Rightarrow> nat" where
  "holding s = length (filter holdsBlock (sy_tasks s))"

lemma map_of_Some_in: "map_of xs k = Some v \<Longrightarrow> (k, v) \<in> set xs"
  by (rule map_of_SomeD)

text \<open>One peer: what the loop over the channels does.\<close>

lemma associateLoop_spec:
  assumes "associateLoop connected peer configured channels s = (full, ts, s')"
  shows "s' = s\<lparr>px_noOfSmallBlocksAllocated := px_noOfSmallBlocksAllocated s + length ts\<rparr>
    \<and> (\<forall>t \<in> set ts. as_peer t = peer \<and> as_message t = None \<and> (as_channel t, as_dispatch t) \<in> set channels)
    \<and> (ts \<noteq> [] \<longrightarrow> px_noOfSmallBlocksAllocated s' < px_maxNoOfSmallBlocks s)
    \<and> (\<not> full \<longrightarrow> (\<forall>(c, d) \<in> set channels. connected d \<longrightarrow> c \<in> configured \<or> (\<exists>t \<in> set ts. as_channel t = c)))"
  using assms
proof (induction channels arbitrary: ts s s' full)
  case (Cons x channels)
  obtain c d where x: "x = (c, d)" by force
  show ?case
  proof (cases "c \<in> configured \<or> \<not> connected d")
    case True
    then show ?thesis using Cons.IH [of s full ts s'] Cons.prems by (auto simp: x)
  next
    case new: False
    show ?thesis
    proof (cases "px_noOfSmallBlocksAllocated s + 1 \<ge> px_maxNoOfSmallBlocks s")
      case True
      then show ?thesis using new Cons.prems by (auto simp: x getAssociateMessageDataBlock_def)
    next
      case False
      let ?s1 = "s\<lparr>px_noOfSmallBlocksAllocated := px_noOfSmallBlocksAllocated s + 1\<rparr>"
      obtain full1 ts1 s1 where l: "associateLoop connected peer configured channels ?s1 = (full1, ts1, s1)"
        by (rule prod_cases3)
      have "ts = \<lparr>as_peer = peer, as_channel = c, as_dispatch = d, as_message = None\<rparr> # ts1" "s' = s1" "full = full1"
        using new False Cons.prems l by (auto simp: x getAssociateMessageDataBlock_def)
      then show ?thesis using Cons.IH [OF l] False by (auto simp: x)
    qed
  qed
qed simp

definition narrows :: "peer_id set \<Rightarrow> nat \<Rightarrow> proxy_state \<Rightarrow> proxy_state \<Rightarrow> bool" where
  "narrows ps n s s' \<longleftrightarrow> (\<exists>m. s' = s\<lparr>px_clientsState := m, px_noOfSmallBlocksAllocated := px_noOfSmallBlocksAllocated s + n\<rparr>
     \<and> (\<forall>p. channelsOf (m p) \<subseteq> channelsOf (px_clientsState s p))
     \<and> dom (px_clientsState s) \<subseteq> dom m \<and> dom m \<subseteq> dom (px_clientsState s) \<union> ps)"

lemma narrows_refl: "narrows ps 0 s s"
  unfolding narrows_def by (intro exI [of _ "px_clientsState s"]) simp

lemma narrows_trans:
  assumes "narrows ps n s s1" "narrows qs k s1 s2"
  shows "narrows (ps \<union> qs) (n + k) s s2"
proof -
  obtain m1 where m1: "s1 = s\<lparr>px_clientsState := m1, px_noOfSmallBlocksAllocated := px_noOfSmallBlocksAllocated s + n\<rparr>"
    "\<forall>p. channelsOf (m1 p) \<subseteq> channelsOf (px_clientsState s p)"
    "dom (px_clientsState s) \<subseteq> dom m1" "dom m1 \<subseteq> dom (px_clientsState s) \<union> ps" using assms(1) by (auto simp: narrows_def)
  obtain m2 where m2: "s2 = s1\<lparr>px_clientsState := m2, px_noOfSmallBlocksAllocated := px_noOfSmallBlocksAllocated s1 + k\<rparr>"
    "\<forall>p. channelsOf (m2 p) \<subseteq> channelsOf (px_clientsState s1 p)"
    "dom (px_clientsState s1) \<subseteq> dom m2" "dom m2 \<subseteq> dom (px_clientsState s1) \<union> qs" using assms(2) by (auto simp: narrows_def)
  have c1: "px_clientsState s1 = m1" by (simp add: m1(1))
  have "s2 = s\<lparr>px_clientsState := m2, px_noOfSmallBlocksAllocated := px_noOfSmallBlocksAllocated s + (n + k)\<rparr>"
    using m1(1) m2(1) by simp
  moreover have "\<forall>p. channelsOf (m2 p) \<subseteq> channelsOf (px_clientsState s p)" using m1(1,2) m2(2) by fastforce
  moreover have "dom (px_clientsState s) \<subseteq> dom m2" "dom m2 \<subseteq> dom (px_clientsState s) \<union> (ps \<union> qs)"
    using m1(3,4) m2(3,4) c1 by blast+
  ultimately show ?thesis unfolding narrows_def by blast
qed

lemma narrows_count: "narrows ps n s s' \<Longrightarrow> px_noOfSmallBlocksAllocated s' = px_noOfSmallBlocksAllocated s + n
    \<and> px_maxNoOfSmallBlocks s' = px_maxNoOfSmallBlocks s"
  by (auto simp: narrows_def)

lemma configure_spec:
  assumes "configureMissingChannelIdAssociations connected channels peer configured s = (full, ts, s')"
    "configured \<subseteq> channelsOf (px_clientsState s peer)"
  shows "narrows {peer} (length ts) s s' \<and> px_clientsState s' peer = Some (liveChannels connected s configured)
    \<and> (\<forall>p. p \<noteq> peer \<longrightarrow> px_clientsState s' p = px_clientsState s p)
    \<and> (\<forall>t \<in> set ts. as_peer t = peer \<and> as_message t = None \<and> (as_channel t, as_dispatch t) \<in> set channels)
    \<and> (ts \<noteq> [] \<longrightarrow> px_noOfSmallBlocksAllocated s' < px_maxNoOfSmallBlocks s)
    \<and> (\<not> full \<longrightarrow> (\<forall>(c, d) \<in> set channels. connected d \<longrightarrow>
          c \<in> liveChannels connected s configured \<or> (\<exists>t \<in> set ts. as_channel t = c)))"
proof -
  let ?live = "liveChannels connected s configured"
  let ?m = "(px_clientsState s)(peer \<mapsto> ?live)"
  have l: "associateLoop connected peer ?live channels (s\<lparr>px_clientsState := ?m\<rparr>) = (full, ts, s')"
    using assms(1) by (simp add: configureMissingChannelIdAssociations_def Let_def)
  have s': "s' = s\<lparr>px_clientsState := ?m, px_noOfSmallBlocksAllocated := px_noOfSmallBlocksAllocated s + length ts\<rparr>"
    using associateLoop_spec [OF l] by simp
  have "channelsOf (?m p) \<subseteq> channelsOf (px_clientsState s p)" for p
    using assms(2) by (auto simp: channelsOf_def liveChannels_def)
  then have nar: "narrows {peer} (length ts) s s'" unfolding narrows_def by (intro exI [of _ ?m]) (auto simp: s')
  have cl: "px_clientsState s' peer = Some ?live" "\<forall>p. p \<noteq> peer \<longrightarrow> px_clientsState s' p = px_clientsState s p"
    by (simp_all add: s')
  have mx: "px_maxNoOfSmallBlocks (s\<lparr>px_clientsState := ?m\<rparr>) = px_maxNoOfSmallBlocks s" by simp
  show ?thesis by (intro conjI nar cl associateLoop_spec [OF l, THEN conjunct2, THEN conjunct1]
      associateLoop_spec [OF l, THEN conjunct2, THEN conjunct2, THEN conjunct1, unfolded mx]
      associateLoop_spec [OF l, THEN conjunct2, THEN conjunct2, THEN conjunct2])
qed

text \<open>All peers.\<close>

lemma associateAll_spec:
  assumes "associateAll connected channels peers duration s = (duration', ts, s')"
  shows "narrows (set peers) (length ts) s s'
    \<and> (\<forall>t \<in> set ts. as_peer t \<in> set peers \<and> as_message t = None \<and> (as_channel t, as_dispatch t) \<in> set channels)
    \<and> (ts \<noteq> [] \<longrightarrow> px_noOfSmallBlocksAllocated s' < px_maxNoOfSmallBlocks s)"
  using assms
proof (induction peers arbitrary: ts s s' duration')
  case Nil
  then show ?case by (simp add: narrows_refl)
next
  case (Cons peer peers)
  obtain full ts1 s1 where c: "configureMissingChannelIdAssociations connected channels peer (channelsOf (px_clientsState s peer)) s
      = (full, ts1, s1)" by (rule prod_cases3)
  note cs = configure_spec [OF c order.refl]
  show ?case
  proof (cases full)
    case True
    then have "ts = ts1" "s' = s1" using Cons.prems c by auto
    then show ?thesis using cs narrows_trans [of "{peer}" "length ts1" s s1 "set peers" 0 s1] narrows_refl by auto
  next
    case False
    obtain d2 ts2 s2 where l: "associateAll connected channels peers duration s1 = (d2, ts2, s2)" by (rule prod_cases3)
    have e: "ts = ts1 @ ts2" "s' = s2" using False Cons.prems c l by auto
    note ih = Cons.IH [OF l]
    have "narrows ({peer} \<union> set peers) (length ts1 + length ts2) s s2" using cs ih by (blast intro: narrows_trans)
    moreover have "px_noOfSmallBlocksAllocated s' < px_maxNoOfSmallBlocks s" if "ts \<noteq> []"
      using that e ih cs narrows_count [of "{peer}" "length ts1" s s1] narrows_count [of "set peers" "length ts2" s1 s2]
      by (cases "ts2 = []") auto
    ultimately show ?thesis using e cs ih by auto
  qed
qed

text \<open>Pruning, peer by peer.\<close>

lemma pruneLoop_spec:
  assumes "distinct peers"
  shows "\<exists>m q. pruneLoop clock k peers s = s\<lparr>px_clientsState := m, px_clientsPruneState := q\<rparr>
    \<and> (\<forall>p. p \<notin> set peers \<longrightarrow> m p = px_clientsState s p \<and> q p = px_clientsPruneState s p)
    \<and> (\<forall>i < length peers. let p = peers ! i in
        case px_clientsPruneState s p of
          None \<Rightarrow> m p = px_clientsState s p \<and> q p = Some (clock (k + i))
        | Some since \<Rightarrow> if clock (k + i) - since < px_clientsPruneInterval s
            then m p = px_clientsState s p \<and> q p = Some since else m p = None \<and> q p = None)"
  using assms
proof (induction peers arbitrary: k s)
  case Nil
  then show ?case by (intro exI [of _ "px_clientsState s"] exI [of _ "px_clientsPruneState s"]) simp
next
  case (Cons p peers)
  define s1 where "s1 = (case px_clientsPruneState s p of
      None \<Rightarrow> s\<lparr>px_clientsPruneState := (px_clientsPruneState s)(p \<mapsto> clock k)\<rparr>
    | Some since \<Rightarrow> if clock k - since < px_clientsPruneInterval s then s
        else s\<lparr>px_clientsPruneState := (px_clientsPruneState s)(p := None), px_clientsState := (px_clientsState s)(p := None)\<rparr>)"
  have step: "pruneLoop clock k (p # peers) s = pruneLoop clock (k + 1) peers s1"
    by (simp add: s1_def Let_def split: option.split)
  obtain m q where mq: "pruneLoop clock (k + 1) peers s1 = s1\<lparr>px_clientsState := m, px_clientsPruneState := q\<rparr>"
    "\<forall>x. x \<notin> set peers \<longrightarrow> m x = px_clientsState s1 x \<and> q x = px_clientsPruneState s1 x"
    "\<forall>i < length peers. let x = peers ! i in
        case px_clientsPruneState s1 x of
          None \<Rightarrow> m x = px_clientsState s1 x \<and> q x = Some (clock (k + 1 + i))
        | Some since \<Rightarrow> if clock (k + 1 + i) - since < px_clientsPruneInterval s1
            then m x = px_clientsState s1 x \<and> q x = Some since else m x = None \<and> q x = None"
    using Cons.IH [of "k + 1" s1] Cons.prems by auto
  have frame: "px_clientsPruneInterval s1 = px_clientsPruneInterval s"
    "x \<noteq> p \<Longrightarrow> px_clientsState s1 x = px_clientsState s x \<and> px_clientsPruneState s1 x = px_clientsPruneState s x" for x
    by (auto simp: s1_def split: option.splits)
  have "pruneLoop clock k (p # peers) s = s\<lparr>px_clientsState := m, px_clientsPruneState := q\<rparr>"
    unfolding step mq(1) by (auto simp: s1_def split: option.split)
  moreover have "\<forall>x. x \<notin> set (p # peers) \<longrightarrow> m x = px_clientsState s x \<and> q x = px_clientsPruneState s x"
    using mq(2) frame(2) by auto
  moreover have "\<forall>i < length (p # peers). let x = (p # peers) ! i in
        case px_clientsPruneState s x of
          None \<Rightarrow> m x = px_clientsState s x \<and> q x = Some (clock (k + i))
        | Some since \<Rightarrow> if clock (k + i) - since < px_clientsPruneInterval s
            then m x = px_clientsState s x \<and> q x = Some since else m x = None \<and> q x = None" (is "\<forall>i < _. ?ok i")
  proof (intro allI impI)
    fix i assume i: "i < length (p # peers)"
    show "?ok i"
    proof (cases i)
      case 0
      have "m p = px_clientsState s1 p" "q p = px_clientsPruneState s1 p" using mq(2) Cons.prems by auto
      then show ?thesis using 0 by (auto simp: s1_def Let_def split: option.splits)
    next
      case (Suc j)
      then have j: "j < length peers" "peers ! j \<noteq> p" using i Cons.prems by auto
      show ?thesis using mq(3) [rule_format, OF j(1)] frame(1) frame(2) [OF j(2)] by (simp add: Suc Let_def split: option.splits)
    qed
  qed
  ultimately show ?case by blast
qed

text \<open>A check of the clients, peer by peer.\<close>

lemma prune_spec:
  assumes "sb_hostServices s" "px_clientsPruneCheckInterval s \<le> clock 0 - px_timeLastClientsPruneCheck s"
    "distinct clients" "set clients = dom (px_clientsState s)"
  shows "\<exists>m q. checkToPruneStaleClientsState clock (Some active) clients s
      = (Inr (), s\<lparr>px_clientsState := m, px_clientsPruneState := q,
          px_timeLastClientsPruneCheck := clock (length (filter (\<lambda>p. p \<notin> set active) clients) + 1)\<rparr>)
    \<and> (\<forall>p. if p \<in> set active then m p = Some (channelsOf (px_clientsState s p)) \<and> q p = None
        else if px_clientsState s p = None then m p = None \<and> q p = px_clientsPruneState s p
        else \<exists>i \<le> length clients. case px_clientsPruneState s p of
            None \<Rightarrow> m p = px_clientsState s p \<and> q p = Some (clock i)
          | Some since \<Rightarrow> if clock i - since < px_clientsPruneInterval s
              then m p = px_clientsState s p \<and> q p = Some since else m p = None \<and> q p = None)"
proof -
  let ?inactive = "filter (\<lambda>p. p \<notin> set active) clients"
  let ?s1 = "s\<lparr>px_clientsPruneState := (px_clientsPruneState s) |` (- set active)\<rparr>"
  obtain m q where mq: "pruneLoop clock 1 ?inactive ?s1 = ?s1\<lparr>px_clientsState := m, px_clientsPruneState := q\<rparr>"
    "\<forall>p. p \<notin> set ?inactive \<longrightarrow> m p = px_clientsState ?s1 p \<and> q p = px_clientsPruneState ?s1 p"
    "\<forall>i < length ?inactive. let p = ?inactive ! i in
        case px_clientsPruneState ?s1 p of
          None \<Rightarrow> m p = px_clientsState ?s1 p \<and> q p = Some (clock (1 + i))
        | Some since \<Rightarrow> if clock (1 + i) - since < px_clientsPruneInterval ?s1
            then m p = px_clientsState ?s1 p \<and> q p = Some since else m p = None \<and> q p = None"
    using pruneLoop_spec [of ?inactive clock 1 ?s1] assms(3) by auto
  let ?m = "\<lambda>p. if p \<in> set active \<and> m p = None then Some {} else m p"
  have "checkToPruneStaleClientsState clock (Some active) clients s
      = (Inr (), s\<lparr>px_clientsState := ?m, px_clientsPruneState := q,
          px_timeLastClientsPruneCheck := clock (length ?inactive + 1)\<rparr>)"
    using assms(1,2) mq(1) by (simp add: checkToPruneStaleClientsState_def Let_def cong: if_cong)
  moreover have "if p \<in> set active then ?m p = Some (channelsOf (px_clientsState s p)) \<and> q p = None
        else if px_clientsState s p = None then ?m p = None \<and> q p = px_clientsPruneState s p
        else \<exists>i \<le> length clients. case px_clientsPruneState s p of
            None \<Rightarrow> ?m p = px_clientsState s p \<and> q p = Some (clock i)
          | Some since \<Rightarrow> if clock i - since < px_clientsPruneInterval s
              then ?m p = px_clientsState s p \<and> q p = Some since else ?m p = None \<and> q p = None" for p
  proof (cases "p \<in> set ?inactive")
    case False
    then have "m p = px_clientsState s p" "q p = px_clientsPruneState ?s1 p" "p \<in> set active \<or> px_clientsState s p = None"
      using mq(2) assms(4) by auto
    then show ?thesis by (auto simp: channelsOf_def restrict_map_def split: option.splits)
  next
    case True
    then obtain i where i: "i < length ?inactive" "?inactive ! i = p" by (auto simp only: in_set_conv_nth)
    have p: "p \<notin> set active" "px_clientsState s p \<noteq> None" "px_clientsPruneState ?s1 p = px_clientsPruneState s p"
      using True assms(4) by (auto simp: restrict_map_def)
    have "1 + i \<le> length clients" using i(1) length_filter_le [of "\<lambda>p. p \<notin> set active" clients] by linarith
    then show ?thesis using mq(3) [rule_format, OF i(1)] p i(2)
      by (auto simp: Let_def intro!: exI [of _ "1 + i"] split: option.splits)
  qed
  ultimately show ?thesis by blast
qed

text \<open>What every check keeps.\<close>

lemma prune_keeps:
  assumes "checkToPruneStaleClientsState clock active clients s = (r, s')" "distinct clients" "set clients = dom (px_clientsState s)"
    "dom (px_clientsPruneState s) \<subseteq> dom (px_clientsState s)"
  shows "dom (px_clientsPruneState s') \<subseteq> dom (px_clientsState s')"
    "channelsOf (px_clientsState s' p) \<subseteq> channelsOf (px_clientsState s p)"
    "px_channelsState s' = px_channelsState s" "px_noOfSmallBlocksAllocated s' = px_noOfSmallBlocksAllocated s"
    "px_maxNoOfSmallBlocks s' = px_maxNoOfSmallBlocks s" "sb_outgoingDisposed s' = sb_outgoingDisposed s"
proof -
  have "s' = s \<or> (\<exists>as. active = Some as \<and> sb_hostServices s \<and> px_clientsPruneCheckInterval s \<le> clock 0 - px_timeLastClientsPruneCheck s)"
    using assms(1) by (auto simp: checkToPruneStaleClientsState_def Let_def split: if_splits option.splits)
  then have "dom (px_clientsPruneState s') \<subseteq> dom (px_clientsState s')
      \<and> channelsOf (px_clientsState s' p) \<subseteq> channelsOf (px_clientsState s p)
      \<and> px_channelsState s' = px_channelsState s \<and> px_noOfSmallBlocksAllocated s' = px_noOfSmallBlocksAllocated s
      \<and> px_maxNoOfSmallBlocks s' = px_maxNoOfSmallBlocks s \<and> sb_outgoingDisposed s' = sb_outgoingDisposed s"
  proof (elim disjE exE conjE)
    assume "s' = s"
    then show ?thesis using assms(4) by simp
  next
    fix as assume as: "active = Some as" "sb_hostServices s" "px_clientsPruneCheckInterval s \<le> clock 0 - px_timeLastClientsPruneCheck s"
    obtain m q t where mq: "s' = s\<lparr>px_clientsState := m, px_clientsPruneState := q, px_timeLastClientsPruneCheck := t\<rparr>"
      "\<forall>p. if p \<in> set as then m p = Some (channelsOf (px_clientsState s p)) \<and> q p = None
        else if px_clientsState s p = None then m p = None \<and> q p = px_clientsPruneState s p
        else \<exists>i \<le> length clients. case px_clientsPruneState s p of
            None \<Rightarrow> m p = px_clientsState s p \<and> q p = Some (clock i)
          | Some since \<Rightarrow> if clock i - since < px_clientsPruneInterval s
              then m p = px_clientsState s p \<and> q p = Some since else m p = None \<and> q p = None"
      using prune_spec [of s clock clients as, OF as(2,3) assms(2,3)] assms(1) as(1) by auto
    have "p \<in> dom m \<or> p \<notin> dom q" for p
    proof (cases "px_clientsState s p")
      case None
      then have "px_clientsPruneState s p = None" using assms(4) by blast
      then show ?thesis using mq(2) [rule_format, of p] None by (auto split: if_splits)
    next
      case (Some c)
      then show ?thesis using mq(2) [rule_format, of p] by (auto split: if_splits option.splits)
    qed
    moreover have "channelsOf (m p) \<subseteq> channelsOf (px_clientsState s p)"
      using mq(2) [rule_format, of p] by (auto simp: channelsOf_def split: if_splits option.splits)
    ultimately show ?thesis by (auto simp: mq(1))
  qed
  then show "dom (px_clientsPruneState s') \<subseteq> dom (px_clientsState s')"
    "channelsOf (px_clientsState s' p) \<subseteq> channelsOf (px_clientsState s p)"
    "px_channelsState s' = px_channelsState s" "px_noOfSmallBlocksAllocated s' = px_noOfSmallBlocksAllocated s"
    "px_maxNoOfSmallBlocks s' = px_maxNoOfSmallBlocks s" "sb_outgoingDisposed s' = sb_outgoingDisposed s" by simp_all
qed

lemma getChannels_spec:
  assumes "getChannelsState channelId clients = Inr m" "m c = Some d"
  shows "channelId d = c \<and> d \<in> set clients"
proof -
  have "getChannelsLoop channelId cs m0 = Inr m \<Longrightarrow> m c = Some d \<Longrightarrow> m0 c = Some d \<or> (channelId d = c \<and> d \<in> set cs)" for cs m0
  proof (induction cs arbitrary: m0)
    case (Cons x cs)
    then have "getChannelsLoop channelId cs (m0(channelId x \<mapsto> x)) = Inr m" by (simp split: if_splits)
    from Cons.IH [OF this Cons.prems(2)] have "(m0(channelId x \<mapsto> x)) c = Some d \<or> channelId d = c \<and> d \<in> set cs" .
    then show ?case by (auto split: if_splits)
  qed simp
  then show ?thesis using assms by (fastforce simp: getChannelsState_def)
qed

section \<open>The invariant\<close>

definition vouched :: "proxy_system \<Rightarrow> peer_id \<Rightarrow> channel_id \<Rightarrow> bool" where
  "vouched s p c \<longleftrightarrow> sy_owner s c \<noteq> None \<and> ((\<exists>d \<in> set (pe_clients (sy_env s)). pe_channelId (sy_env s) d = c) \<longrightarrow> (p, c) \<in> sy_delivered s)"

text \<open>A task is for the connection of its dispatch at the time, and a message behind it for its peer.\<close>

definition for_connection :: "proxy_system \<Rightarrow> associate_task \<Rightarrow> bool" where
  "for_connection s t \<longleftrightarrow> sy_owner s (as_channel t) = Some (as_dispatch t)
     \<and> (\<forall>x b. as_message t = Some (x, b) \<longrightarrow> x = as_peer t)"

fun task_ok :: "proxy_system \<Rightarrow> task_phase \<Rightarrow> bool" where
  "task_ok s (Queued t) \<longleftrightarrow> for_connection s t"
| "task_ok s (Ended r t) \<longleftrightarrow> for_connection s t \<and> (r = Pushed \<longrightarrow> vouched s (as_peer t) (as_channel t))"
| "task_ok s (Recording r t) \<longleftrightarrow> for_connection s t \<and> (r = Pushed \<longrightarrow> vouched s (as_peer t) (as_channel t))
     \<and> (as_message t \<noteq> None \<longrightarrow> r = Pushed)"

text \<open>A message waits to be pushed by the dispatch of the connection that was looked at.\<close>

definition sending_ok :: "proxy_system \<Rightarrow> pending_send \<Rightarrow> bool" where
  "sending_ok s m \<longleftrightarrow> sy_owner s (ps_channel m) = Some (ps_dispatch m) \<and> (ps_known m \<longrightarrow> vouched s (ps_peer m) (ps_channel m))"

definition ownBlocks :: "task_phase list \<Rightarrow> nat" where
  "ownBlocks tasks = length (filter (\<lambda>x. holdsBlock x \<and> as_message (phaseTask x) = None) tasks)"

definition links_ok :: "proxy_system \<Rightarrow> bool" where
  "links_ok s \<longleftrightarrow> wf_rotating (sy_rotating s) \<and> rt_targets (sy_rotating s) = pe_clients (sy_env s)
     \<and> (\<forall>c d. sy_owner s c = Some d \<longrightarrow> d \<in> set (pe_clients (sy_env s)))
     \<and> (\<forall>d \<in> set (pe_clients (sy_env s)). sy_owner s (pe_channelId (sy_env s) d) = Some d)
     \<and> (\<forall>c d. px_channelsState (sy_px s) c = Some d \<longrightarrow> sy_owner s c = Some d)"

definition proxy_inv :: "proxy_system \<Rightarrow> bool" where
  "proxy_inv s \<longleftrightarrow> links_ok s \<and> list_all (task_ok s) (sy_tasks s) \<and> list_all (sending_ok s) (sy_sending s)
     \<and> (\<forall>p c. c \<in> channelsOf (px_clientsState (sy_px s) p) \<longrightarrow> vouched s p c)
     \<and> px_noOfSmallBlocksAllocated (sy_px s) = holding s
     \<and> ownBlocks (sy_tasks s) < px_maxNoOfSmallBlocks (sy_px s)
     \<and> dom (px_clientsPruneState (sy_px s)) \<subseteq> dom (px_clientsState (sy_px s))"

end
