(* ===== verification/ProxyReach.thy ===== *)
theory ProxyReach
  imports ProxyInvariant
begin

text \<open>Every step of the proxy keeps the invariant, so every reachable state satisfies it.\<close>

section \<open>The calls\<close>

definition call_ok :: "proxy_env \<Rightarrow> proxy_state \<Rightarrow> associate_task list \<Rightarrow> proxy_state \<Rightarrow> bool" where
  "call_ok env s ts s' \<longleftrightarrow> px_noOfSmallBlocksAllocated s' = px_noOfSmallBlocksAllocated s + length ts
     \<and> px_maxNoOfSmallBlocks s' = px_maxNoOfSmallBlocks s
     \<and> (dom (px_clientsPruneState s) \<subseteq> dom (px_clientsState s) \<longrightarrow> dom (px_clientsPruneState s') \<subseteq> dom (px_clientsState s'))
     \<and> (\<forall>p. channelsOf (px_clientsState s' p) \<subseteq> channelsOf (px_clientsState s p))
     \<and> (\<forall>c d. px_channelsState s' c = Some d \<longrightarrow> px_channelsState s c = Some d \<or> d \<in> set (pe_clients env) \<and> pe_channelId env d = c)
     \<and> (\<forall>t \<in> set ts. as_message t = None \<and> px_channelsState s' (as_channel t) = Some (as_dispatch t))
     \<and> (ts \<noteq> [] \<longrightarrow> px_noOfSmallBlocksAllocated s' < px_maxNoOfSmallBlocks s)"

lemma fully_frame:
  assumes "isFullyDisconnected b s = (x, s')"
  shows "px_noOfSmallBlocksAllocated s' = px_noOfSmallBlocksAllocated s" "px_maxNoOfSmallBlocks s' = px_maxNoOfSmallBlocks s"
    "px_clientsState s' = px_clientsState s" "px_clientsPruneState s' = px_clientsPruneState s"
    "px_channelsState s' = px_channelsState s" "x = (\<not> b)"
  using assms by (auto simp: isFullyDisconnected_def Let_def split: if_splits)

lemma narrows_frame:
  assumes "narrows ps n s s'"
  shows "px_clientsPruneState s' = px_clientsPruneState s" "px_channelsState s' = px_channelsState s"
    "channelsOf (px_clientsState s' p) \<subseteq> channelsOf (px_clientsState s p)" "dom (px_clientsState s) \<subseteq> dom (px_clientsState s')"
    "dom (px_clientsState s') \<subseteq> dom (px_clientsState s) \<union> ps"
proof -
  obtain m where m: "s' = s\<lparr>px_clientsState := m, px_noOfSmallBlocksAllocated := px_noOfSmallBlocksAllocated s + n\<rparr>"
    "\<forall>p. channelsOf (m p) \<subseteq> channelsOf (px_clientsState s p)" "dom (px_clientsState s) \<subseteq> dom m"
    "dom m \<subseteq> dom (px_clientsState s) \<union> ps" using assms unfolding narrows_def by blast
  have c: "px_clientsState s' = m" by (simp add: m(1))
  show "px_clientsPruneState s' = px_clientsPruneState s" "px_channelsState s' = px_channelsState s" by (simp_all add: m(1))
  show "channelsOf (px_clientsState s' p) \<subseteq> channelsOf (px_clientsState s p)" using m(2) by (simp add: c)
  show "dom (px_clientsState s) \<subseteq> dom (px_clientsState s')" "dom (px_clientsState s') \<subseteq> dom (px_clientsState s) \<union> ps"
    using m(3,4) by (simp_all only: c)
qed

lemma iterates_lookup: "iterates channels s \<Longrightarrow> (c, d) \<in> set channels \<Longrightarrow> px_channelsState s c = Some d"
  by (metis iterates_def map_of_eq_Some_iff)

lemma timer_ok:
  assumes "px_onTimer env clock active clients channels peers s = (r, ts, s')"
    "distinct clients" "set clients = dom (px_clientsState s)" "iterates channels s'"
    "dom (px_clientsPruneState s) \<subseteq> dom (px_clientsState s)"
  shows "call_ok env s ts s'"
proof (cases "sb_isDisposed s")
  case True
  then show ?thesis using assms(1) by (auto simp: px_onTimer_def Let_def call_ok_def)
next
  case False
  obtain r1 s1 where c: "checkToPruneStaleClientsState clock active clients s = (r1, s1)" by force
  note k = prune_keeps [OF c assms(2,3,5)]
  have ok1: "call_ok env s [] s1" using k by (auto simp: call_ok_def)
  show ?thesis
  proof (cases r1)
    case (Inl e)
    then show ?thesis using assms(1) False c ok1 by (simp add: px_onTimer_def Let_def)
  next
    case r1: (Inr u)
    show ?thesis
    proof (cases "getChannelsState (pe_channelId env) (pe_clients env)")
      case (Inl e)
      then show ?thesis using assms(1) False c r1 ok1 by (simp add: px_onTimer_def Let_def)
    next
      case g: (Inr m)
      define s2 where "s2 = (if dom m \<noteq> dom (px_channelsState s1) then s1\<lparr>px_channelsState := m\<rparr> else s1)"
      obtain x s3 where f: "isFullyDisconnected (outgoingConnected env s2) s2 = (x, s3)" by force
      note ff = fully_frame [OF f]
      define dur where "dur = (if px_clientsPruneCheckInterval s < seconds ASSOCIATE_PEERID_TIMER_IN_SECONDS
        then px_clientsPruneCheckInterval s else seconds ASSOCIATE_PEERID_TIMER_IN_SECONDS)"
      have ch: "px_channelsState s2 c = Some d \<longrightarrow> px_channelsState s c = Some d \<or> d \<in> set (pe_clients env) \<and> pe_channelId env d = c" for c d
        using getChannels_spec [OF g, of c d] k(3) by (auto simp: s2_def)
      have cl2: "px_clientsState s2 = px_clientsState s1" "px_clientsPruneState s2 = px_clientsPruneState s1"
        "px_noOfSmallBlocksAllocated s2 = px_noOfSmallBlocksAllocated s1" "px_maxNoOfSmallBlocks s2 = px_maxNoOfSmallBlocks s1"
        by (simp_all add: s2_def)
      show ?thesis
      proof (cases x)
        case True
        then have "ts = []" "s' = s3" using assms(1) False c r1 g f by (simp_all add: px_onTimer_def Let_def s2_def)
        then show ?thesis using k ff cl2 ch by (auto simp: call_ok_def)
      next
        case nx: False
        obtain d1 ts1 s4 where a: "associateAll (pe_connected env) channels peers dur s3 = (d1, ts1, s4)" by (rule prod_cases3)
        have e: "ts = ts1" "s' = s4"
          using assms(1) False c r1 g f a nx by (simp_all add: px_onTimer_def Let_def s2_def dur_def)
        note sp = associateAll_spec [OF a]
        have nar: "narrows (set peers) (length ts1) s3 s4" using sp by blast
        note nf = narrows_frame [OF nar] narrows_count [OF nar]
        have "dom (px_clientsPruneState s4) \<subseteq> dom (px_clientsState s4)" using k(1) nf(1,4) ff cl2 by auto
        moreover have "channelsOf (px_clientsState s4 p) \<subseteq> channelsOf (px_clientsState s p)" for p
          using k(2) [of p] nf(3) [of p] ff cl2 by auto
        moreover have "as_message t = None \<and> px_channelsState s4 (as_channel t) = Some (as_dispatch t)" if "t \<in> set ts1" for t
          using sp that iterates_lookup [OF assms(4)] e(2) by auto
        moreover have "px_channelsState s4 c = Some d \<longrightarrow> px_channelsState s c = Some d \<or> d \<in> set (pe_clients env) \<and> pe_channelId env d = c" for c d
          using ch nf(2) ff by simp
        moreover have "px_noOfSmallBlocksAllocated s4 = px_noOfSmallBlocksAllocated s + length ts1"
          "px_maxNoOfSmallBlocks s4 = px_maxNoOfSmallBlocks s" using nf(6) ff cl2 k by auto
        moreover have "ts1 \<noteq> [] \<longrightarrow> px_noOfSmallBlocksAllocated s4 < px_maxNoOfSmallBlocks s" using sp ff cl2 k by simp
        ultimately show ?thesis unfolding call_ok_def e by blast
      qed
    qed
  qed
qed

lemma connected_ok:
  assumes "px_peerConnectedNotify env channels peer s = (ts, s')" "iterates channels s"
  shows "call_ok env s ts s'"
proof -
  define s1 where "s1 = s\<lparr>px_clientsState := (px_clientsState s)(peer \<mapsto> {})\<rparr>"
  obtain x s2 where f: "isFullyDisconnected (outgoingConnected env s1) s1 = (x, s2)" by force
  note ff = fully_frame [OF f]
  have sub: "channelsOf (px_clientsState s1 p) \<subseteq> channelsOf (px_clientsState s p)" for p by (auto simp: s1_def channelsOf_def)
  have s1: "px_clientsPruneState s1 = px_clientsPruneState s" "px_channelsState s1 = px_channelsState s"
    "px_noOfSmallBlocksAllocated s1 = px_noOfSmallBlocksAllocated s" "px_maxNoOfSmallBlocks s1 = px_maxNoOfSmallBlocks s"
    "dom (px_clientsState s) \<subseteq> dom (px_clientsState s1)" by (auto simp: s1_def)
  show ?thesis
  proof (cases x)
    case True
    then have "ts = []" "s' = s2" using assms(1) f by (simp_all add: px_peerConnectedNotify_def Let_def s1_def)
    moreover have "dom (px_clientsPruneState s) \<subseteq> dom (px_clientsState s) \<longrightarrow> dom (px_clientsPruneState s) \<subseteq> dom (px_clientsState s1)"
      using s1(5) by blast
    ultimately show ?thesis using ff sub s1 by (simp add: call_ok_def)
  next
    case False
    obtain full ts1 s3 where c: "configureMissingChannelIdAssociations (pe_connected env) channels peer {} s2 = (full, ts1, s3)"
      by (rule prod_cases3)
    have e: "ts = ts1" "s' = s3" using False assms(1) f c by (simp_all add: px_peerConnectedNotify_def Let_def s1_def)
    note cs = configure_spec [OF c empty_subsetI]
    then have nar: "narrows {peer} (length ts1) s2 s3" by blast
    note nf = narrows_frame [OF nar] narrows_count [OF nar]
    have "dom (px_clientsPruneState s) \<subseteq> dom (px_clientsState s) \<longrightarrow> dom (px_clientsPruneState s3) \<subseteq> dom (px_clientsState s3)"
      unfolding nf(1) ff s1 using nf(4) s1(5) unfolding ff(3) by (blast intro: order_trans)
    moreover have "channelsOf (px_clientsState s3 p) \<subseteq> channelsOf (px_clientsState s p)" for p
      using nf(3) [of p] ff sub [of p] by auto
    moreover have "as_message t = None \<and> px_channelsState s3 (as_channel t) = Some (as_dispatch t)" if "t \<in> set ts1" for t
      using cs that iterates_lookup [OF assms(2)] nf(2) ff s1 by auto
    moreover have "px_noOfSmallBlocksAllocated s3 = px_noOfSmallBlocksAllocated s + length ts1"
      "px_maxNoOfSmallBlocks s3 = px_maxNoOfSmallBlocks s" "px_channelsState s3 = px_channelsState s" using nf ff s1 by auto
    moreover have "ts1 \<noteq> [] \<longrightarrow> px_noOfSmallBlocksAllocated s3 < px_maxNoOfSmallBlocks s" using cs ff s1 by simp
    ultimately show ?thesis unfolding call_ok_def e by simp
  qed
qed

section \<open>Steps that keep the connections\<close>

lemma same_links:
  assumes "sy_owner s' = sy_owner s" "sy_env s' = sy_env s" "sy_delivered s \<subseteq> sy_delivered s'"
  shows "vouched s p c \<Longrightarrow> vouched s' p c" "task_ok s x \<Longrightarrow> task_ok s' x" "sending_ok s m \<Longrightarrow> sending_ok s' m"
  using assms by (auto simp: vouched_def for_connection_def sending_ok_def elim!: task_ok.elims)

lemma counts_append:
  "length (filter holdsBlock (xs @ ys)) = length (filter holdsBlock xs) + length (filter holdsBlock ys)"
  "ownBlocks (xs @ ys) = ownBlocks xs + ownBlocks ys"
  "ownBlocks xs \<le> length (filter holdsBlock xs)"
  by (simp_all add: ownBlocks_def) (induction xs; simp)

lemma queued_counts [simp]:
  "filter holdsBlock (map Queued ts) = map Queued ts" "ownBlocks [] = 0"
  by (simp_all add: ownBlocks_def filter_map o_def)

lemma add_call:
  assumes "proxy_inv s" "call_ok (sy_env s) (sy_px s) ts px"
  shows "proxy_inv (addTasks ts (s\<lparr>sy_px := px\<rparr>))"
proof -
  let ?s = "addTasks ts (s\<lparr>sy_px := px\<rparr>)"
  have same: "sy_owner ?s = sy_owner s" "sy_env ?s = sy_env s" "sy_delivered s \<subseteq> sy_delivered ?s" by (simp_all add: addTasks_def)
  note sl = same_links [OF same]
  have i: "links_ok s" "list_all (task_ok s) (sy_tasks s)"
    "\<And>p c. c \<in> channelsOf (px_clientsState (sy_px s) p) \<Longrightarrow> vouched s p c"
    "px_noOfSmallBlocksAllocated (sy_px s) = holding s" "ownBlocks (sy_tasks s) < px_maxNoOfSmallBlocks (sy_px s)"
    "dom (px_clientsPruneState (sy_px s)) \<subseteq> dom (px_clientsState (sy_px s))"
    "list_all (sending_ok s) (sy_sending s)" using assms(1) by (auto simp: proxy_inv_def)
  have own: "px_channelsState px c = Some d \<Longrightarrow> sy_owner s c = Some d" for c d
  proof -
    assume "px_channelsState px c = Some d"
    then have "px_channelsState (sy_px s) c = Some d \<or> d \<in> set (pe_clients (sy_env s)) \<and> pe_channelId (sy_env s) d = c" using assms(2) unfolding call_ok_def by blast
    then show ?thesis using i(1) unfolding links_ok_def by blast
  qed
  have "links_ok ?s" using own i(1) by (auto simp: links_ok_def addTasks_def)
  moreover have "list_all (sending_ok ?s) (sy_sending ?s)" using i(7) sl(3) by (auto simp: list_all_iff addTasks_def)
  moreover have "list_all (task_ok ?s) (sy_tasks ?s)"
    using i(2) sl(2) own assms(2) by (auto simp: list_all_iff addTasks_def call_ok_def for_connection_def)
  moreover have "\<forall>p c. c \<in> channelsOf (px_clientsState (sy_px ?s) p) \<longrightarrow> vouched ?s p c"
  proof (intro allI impI)
    fix p c assume "c \<in> channelsOf (px_clientsState (sy_px ?s) p)"
    then have "c \<in> channelsOf (px_clientsState (sy_px s) p)" using assms(2) unfolding call_ok_def addTasks_def by auto
    then show "vouched ?s p c" by (intro sl(1) i(3))
  qed
  moreover have h: "px_noOfSmallBlocksAllocated (sy_px ?s) = holding ?s"
    using i(4) assms(2) by (simp add: holding_def addTasks_def counts_append call_ok_def)
  moreover have "ownBlocks (sy_tasks ?s) < px_maxNoOfSmallBlocks (sy_px ?s)"
  proof (cases "ts = []")
    case True
    then show ?thesis using i(5) assms(2) by (simp add: addTasks_def call_ok_def)
  next
    case False
    then have "holding ?s < px_maxNoOfSmallBlocks (sy_px ?s)" using h assms(2) by (simp add: call_ok_def addTasks_def)
    then show ?thesis using counts_append(3) [of "sy_tasks ?s"] by (simp add: holding_def)
  qed
  moreover have "dom (px_clientsPruneState (sy_px ?s)) \<subseteq> dom (px_clientsState (sy_px ?s))"
    using i(6) assms(2) by (simp add: call_ok_def addTasks_def)
  ultimately show ?thesis by (simp add: proxy_inv_def)
qed

section \<open>The steps of a task\<close>

lemma replace_split:
  assumes "k < length tasks"
  shows "tasks = take k tasks @ [tasks ! k] @ drop (Suc k) tasks"
  using assms by (simp add: id_take_nth_drop [symmetric])

lemma replace_counts:
  assumes "k < length tasks"
  shows "length (filter holdsBlock (replaceTask k new tasks)) + (if holdsBlock (tasks ! k) then 1 else 0)
      = length (filter holdsBlock tasks) + length (filter holdsBlock new)"
    "ownBlocks (replaceTask k new tasks) + (if holdsBlock (tasks ! k) \<and> as_message (phaseTask (tasks ! k)) = None then 1 else 0)
      = ownBlocks tasks + ownBlocks new"
    "list_all P (replaceTask k new tasks) \<longleftrightarrow> list_all P (take k tasks) \<and> list_all P new \<and> list_all P (drop (Suc k) tasks)"
    "list_all P tasks \<longleftrightarrow> list_all P (take k tasks) \<and> P (tasks ! k) \<and> list_all P (drop (Suc k) tasks)"
proof -
  let ?a = "take k tasks" and ?b = "drop (Suc k) tasks" and ?x = "tasks ! k"
  have t: "tasks = ?a @ [?x] @ ?b" by (rule replace_split [OF assms])
  have "length (filter holdsBlock (?a @ [?x] @ ?b)) = length (filter holdsBlock tasks)"
    "ownBlocks (?a @ [?x] @ ?b) = ownBlocks tasks" "list_all P (?a @ [?x] @ ?b) = list_all P tasks" by (simp_all only: t [symmetric])
  then show "length (filter holdsBlock (replaceTask k new tasks)) + (if holdsBlock ?x then 1 else 0)
      = length (filter holdsBlock tasks) + length (filter holdsBlock new)"
    "ownBlocks (replaceTask k new tasks) + (if holdsBlock ?x \<and> as_message (phaseTask ?x) = None then 1 else 0)
      = ownBlocks tasks + ownBlocks new"
    "list_all P (replaceTask k new tasks) \<longleftrightarrow> list_all P ?a \<and> list_all P new \<and> list_all P ?b"
    "list_all P tasks \<longleftrightarrow> list_all P ?a \<and> P ?x \<and> list_all P ?b"
    by (auto simp: replaceTask_def ownBlocks_def split: if_splits)
qed

text \<open>Replacing a task: the counter follows the blocks, and only vouched channels become configured.\<close>

lemma inv_replace:
  assumes "proxy_inv s" "k < length (sy_tasks s)"
    "s' = s\<lparr>sy_px := px, sy_tasks := replaceTask k new (sy_tasks s), sy_delivered := dl, sy_sending := sending\<rparr>"
    "sy_delivered s \<subseteq> dl"
    "list_all (task_ok s') new"
    "px_noOfSmallBlocksAllocated px + (if holdsBlock (sy_tasks s ! k) then 1 else 0)
      = px_noOfSmallBlocksAllocated (sy_px s) + length (filter holdsBlock new)"
    "ownBlocks new \<le> (if holdsBlock (sy_tasks s ! k) \<and> as_message (phaseTask (sy_tasks s ! k)) = None then 1 else 0)"
    "px_maxNoOfSmallBlocks px = px_maxNoOfSmallBlocks (sy_px s)" "px_channelsState px = px_channelsState (sy_px s)"
    "px_clientsPruneState px = px_clientsPruneState (sy_px s)" "dom (px_clientsState (sy_px s)) \<subseteq> dom (px_clientsState px)"
    "\<forall>p c. c \<in> channelsOf (px_clientsState px p) \<longrightarrow> c \<in> channelsOf (px_clientsState (sy_px s) p) \<or> vouched s' p c"
    "\<forall>m \<in> set sending. m \<in> set (sy_sending s) \<or> sending_ok s' m"
  shows "proxy_inv s'"
proof -
  have same: "sy_owner s' = sy_owner s" "sy_env s' = sy_env s" "sy_delivered s \<subseteq> sy_delivered s'" using assms(3,4) by simp_all
  note sl = same_links [OF same]
  note c = replace_counts [OF assms(2)]
  have i: "links_ok s" "list_all (task_ok s) (sy_tasks s)"
    "\<And>p c. c \<in> channelsOf (px_clientsState (sy_px s) p) \<Longrightarrow> vouched s p c"
    "px_noOfSmallBlocksAllocated (sy_px s) = holding s" "ownBlocks (sy_tasks s) < px_maxNoOfSmallBlocks (sy_px s)"
    "dom (px_clientsPruneState (sy_px s)) \<subseteq> dom (px_clientsState (sy_px s))"
    "list_all (sending_ok s) (sy_sending s)" using assms(1) by (auto simp: proxy_inv_def)
  have px: "sy_px s' = px" "sy_tasks s' = replaceTask k new (sy_tasks s)" using assms(3) by simp_all
  have "sy_rotating s' = sy_rotating s" using assms(3) by simp
  then have "links_ok s'" using i(1) same assms(9) by (simp add: links_ok_def px)
  moreover have "list_all (task_ok s') (sy_tasks s')"
    using i(2) assms(5) sl(2) unfolding px c(3) c(4) [of "task_ok s"] by (auto simp: list_all_iff)
  moreover have "sy_sending s' = sending" using assms(3) by simp
  then have "list_all (sending_ok s') (sy_sending s')"
    using i(7) assms(13) sl(3) by (auto simp: list_all_iff)
  moreover have "\<forall>p c. c \<in> channelsOf (px_clientsState (sy_px s') p) \<longrightarrow> vouched s' p c"
    using assms(12) i(3) sl(1) unfolding px by blast
  moreover have "px_noOfSmallBlocksAllocated (sy_px s') = holding s'"
    using c(1) [of new] assms(6) i(4) by (simp add: holding_def px)
  moreover have "ownBlocks (sy_tasks s') < px_maxNoOfSmallBlocks (sy_px s')"
    using c(2) [of new] assms(7,8) i(5) by (simp add: px)
  moreover have "dom (px_clientsPruneState (sy_px s')) \<subseteq> dom (px_clientsState (sy_px s'))"
    using i(6) assms(10,11) unfolding px by auto
  ultimately show ?thesis by (simp add: proxy_inv_def)
qed

section \<open>All steps\<close>

lemma inv_own_px:
  assumes "proxy_inv s" "px_noOfSmallBlocksAllocated px = px_noOfSmallBlocksAllocated (sy_px s)"
    "px_maxNoOfSmallBlocks px = px_maxNoOfSmallBlocks (sy_px s)" "px_channelsState px = px_channelsState (sy_px s)"
    "px_clientsPruneState px = px_clientsPruneState (sy_px s)" "px_clientsState px = px_clientsState (sy_px s)"
    "wf_rotating ro" "rt_targets ro = pe_clients (sy_env s)" "list_all (sending_ok s) se"
  shows "proxy_inv (s\<lparr>sy_px := px, sy_rotating := ro, sy_sending := se\<rparr>)"
proof -
  let ?s = "s\<lparr>sy_px := px, sy_rotating := ro, sy_sending := se\<rparr>"
  have sl: "vouched ?s = vouched s" "task_ok ?s = task_ok s" "sending_ok ?s = sending_ok s"
    by (auto simp: vouched_def for_connection_def sending_ok_def fun_eq_iff elim!: task_ok.elims)
  show ?thesis using assms by (simp add: proxy_inv_def sl links_ok_def holding_def)
qed

lemma act_push:
  assumes "proxy_inv s" "k < length (sy_tasks s)" "sy_tasks s ! k = Queued t"
  shows "proxy_inv (proxy_act s (PPush k r))"
proof -
  define dl where "dl = (if r = Pushed then insert (as_peer t, pe_channelId (sy_env s) (as_dispatch t)) (sy_delivered s) else sy_delivered s)"
  let ?s = "s\<lparr>sy_px := sy_px s, sy_tasks := replaceTask k [Ended r t] (sy_tasks s), sy_delivered := dl, sy_sending := sy_sending s\<rparr>"
  have e: "proxy_act s (PPush k r) = ?s" using assms(3) by (simp add: Let_def dl_def)
  have fc: "for_connection s t" using assms replace_counts(4) [OF assms(2), of "task_ok s"] by (auto simp: proxy_inv_def)
  have o: "sy_owner s (as_channel t) = Some (as_dispatch t)" "\<forall>d \<in> set (pe_clients (sy_env s)). sy_owner s (pe_channelId (sy_env s) d) = Some d"
    using assms(1) fc by (auto simp: proxy_inv_def links_ok_def for_connection_def)
  have "d = as_dispatch t" if "pe_channelId (sy_env s) d = as_channel t" "d \<in> set (pe_clients (sy_env s))" for d
    using o that by (metis option.inject)
  then have "task_ok ?s (Ended r t)" using o(1) fc by (auto simp: vouched_def dl_def for_connection_def)
  then show ?thesis unfolding e by (intro inv_replace [OF assms(1,2) refl]) (use assms(3) in \<open>auto simp: dl_def ownBlocks_def\<close>)
qed

lemma act_continue:
  assumes "proxy_inv s" "k < length (sy_tasks s)" "sy_tasks s ! k = Ended r t"
  shows "proxy_inv (proxy_act s (PContinue k))"
proof -
  obtain goesOn px where c: "associateContinuation r t (sy_px s) = (goesOn, px)" by force
  let ?new = "if goesOn then [Recording r t] else []"
  let ?s = "s\<lparr>sy_px := px, sy_tasks := replaceTask k ?new (sy_tasks s), sy_delivered := sy_delivered s, sy_sending := sy_sending s\<rparr>"
  have e: "proxy_act s (PContinue k) = ?s" using assms(3) c by simp
  have ok: "task_ok s (Ended r t)" using assms replace_counts(4) [OF assms(2), of "task_ok s"] by (auto simp: proxy_inv_def)
  have px: "px = dehydrate (sy_px s)" using c by (simp add: associateContinuation_def)
  have "0 < px_noOfSmallBlocksAllocated (sy_px s)"
    using assms replace_counts(1) [OF assms(2), of "[]"] by (auto simp: proxy_inv_def holding_def)
  moreover have "task_ok ?s (Recording r t)" if goesOn
    using ok c that by (auto simp: vouched_def for_connection_def associateContinuation_def)
  ultimately show ?thesis unfolding e
    by (intro inv_replace [OF assms(1,2) refl]) (use assms(3) in \<open>auto simp: px dehydrate_def ownBlocks_def\<close>)
qed

lemma channelsOf_simps [simp]: "channelsOf None = {}" "channelsOf (Some x) = x"
  by (simp_all add: channelsOf_def)

lemma act_record:
  assumes "proxy_inv s" "k < length (sy_tasks s)" "sy_tasks s ! k = Recording r t"
  shows "proxy_inv (proxy_act s (PRecord k))"
proof -
  obtain ok px where c: "onPeerIdAssociateTaskCompleted r t (sy_px s) = (ok, px)" by force
  define sending where "sending = sy_sending s @ (case associateCompletion ok t of None \<Rightarrow> []
    | Some (d, target, b) \<Rightarrow> [\<lparr>ps_dispatch = d, ps_peer = target, ps_block = b, ps_known = True, ps_channel = as_channel t\<rparr>])"
  let ?s = "s\<lparr>sy_px := px, sy_tasks := replaceTask k [] (sy_tasks s), sy_delivered := sy_delivered s, sy_sending := sending\<rparr>"
  have e: "proxy_act s (PRecord k) = ?s" using assms(3) c by (simp add: sending_def)
  have tk: "task_ok s (Recording r t)" using assms replace_counts(4) [OF assms(2), of "task_ok s"] by (auto simp: proxy_inv_def)
  have v: "r = Pushed \<Longrightarrow> vouched ?s (as_peer t) (as_channel t)" using tk by (simp add: vouched_def)
  have px: "px = sy_px s \<or> r = Pushed \<and> px = (sy_px s)\<lparr>px_clientsState := (px_clientsState (sy_px s))
      (as_peer t \<mapsto> insert (as_channel t) (channelsOf (px_clientsState (sy_px s) (as_peer t))))\<rparr>"
    using c by (cases r) (auto simp: onPeerIdAssociateTaskCompleted_def split: if_splits)
  then have "\<forall>p c. c \<in> channelsOf (px_clientsState px p) \<longrightarrow> c \<in> channelsOf (px_clientsState (sy_px s) p) \<or> vouched ?s p c"
    using v by (auto split: if_splits)
  moreover have "\<forall>m \<in> set sending. m \<in> set (sy_sending s) \<or> sending_ok ?s m"
  proof (cases "as_message t")
    case None
    then show ?thesis by (simp add: sending_def associateCompletion_def)
  next
    case (Some m)
    obtain x b where m: "m = (x, b)" by force
    then have "r = Pushed" "x = as_peer t" "sy_owner s (as_channel t) = Some (as_dispatch t)"
      using tk Some by (auto simp: for_connection_def)
    then show ?thesis using v Some m by (auto simp: sending_def associateCompletion_def sending_ok_def)
  qed
  ultimately show ?thesis unfolding e
    by (intro inv_replace [OF assms(1,2) refl]) (use px assms(3) in \<open>auto simp: ownBlocks_def\<close>)
qed

lemma act_send:
  assumes "proxy_inv s"
  shows "proxy_inv (proxy_act s (PSend k r))"
proof -
  let ?sending = "take k (sy_sending s) @ drop (Suc k) (sy_sending s)"
  have "list_all (sending_ok s) ?sending"
    using assms by (auto simp: proxy_inv_def list_all_iff dest: in_set_takeD in_set_dropD)
  moreover have "wf_rotating (sy_rotating s)" "rt_targets (sy_rotating s) = pe_clients (sy_env s)"
    using assms by (simp_all add: proxy_inv_def links_ok_def)
  ultimately have "proxy_inv (s\<lparr>sy_px := sy_px s, sy_rotating := sy_rotating s, sy_sending := ?sending\<rparr>)"
    by (intro inv_own_px [OF assms]) simp_all
  then have i: "proxy_inv (s\<lparr>sy_sending := ?sending\<rparr>)" by simp
  have "proxy_inv (x\<lparr>sy_sent := y\<rparr>) = proxy_inv x" for x y
  proof -
    have "vouched (x\<lparr>sy_sent := y\<rparr>) = vouched x" "task_ok (x\<lparr>sy_sent := y\<rparr>) = task_ok x"
      "sending_ok (x\<lparr>sy_sent := y\<rparr>) = sending_ok x"
      by (auto simp: vouched_def for_connection_def sending_ok_def fun_eq_iff elim!: task_ok.elims)
    then show ?thesis by (simp add: proxy_inv_def links_ok_def holding_def)
  qed
  then show ?thesis using i by (simp add: Let_def)
qed

lemma act_discard:
  assumes "proxy_inv s" "k < length (sy_tasks s)" "sy_tasks s ! k = Queued t"
  shows "proxy_inv (proxy_act s (PDiscard k))"
proof -
  let ?s = "s\<lparr>sy_px := dehydrate (sy_px s), sy_tasks := replaceTask k [] (sy_tasks s), sy_delivered := sy_delivered s, sy_sending := sy_sending s\<rparr>"
  have e: "proxy_act s (PDiscard k) = ?s" by simp
  have "0 < px_noOfSmallBlocksAllocated (sy_px s)"
    using assms replace_counts(1) [OF assms(2), of "[]"] by (auto simp: proxy_inv_def holding_def)
  then show ?thesis unfolding e
    by (intro inv_replace [OF assms(1,2) refl]) (use assms(3) in \<open>auto simp: dehydrate_def ownBlocks_def\<close>)
qed

lemma act_link:
  assumes "proxy_inv s" "c = pe_channelId (sy_env s) d \<or> sy_owner s c = None" "d \<in> set (pe_clients (sy_env s))"
  shows "proxy_inv (proxy_act s (PLink d c up))"
proof -
  let ?env = "(sy_env s)\<lparr>pe_channelId := (pe_channelId (sy_env s))(d := c), pe_connected := (pe_connected (sy_env s))(d := up)\<rparr>"
  let ?s = "s\<lparr>sy_env := ?env, sy_owner := (sy_owner s)(c \<mapsto> d)\<rparr>"
  have e: "proxy_act s (PLink d c up) = ?s" by simp
  have l: "\<And>x. x \<in> set (pe_clients (sy_env s)) \<Longrightarrow> sy_owner s (pe_channelId (sy_env s) x) = Some x"
    "\<And>x y. px_channelsState (sy_px s) x = Some y \<Longrightarrow> sy_owner s x = Some y"
    using assms(1) by (auto simp: proxy_inv_def links_ok_def)
  have o: "sy_owner s x = Some y \<Longrightarrow> sy_owner ?s x = Some y" for x y using assms(2) l(1) [OF assms(3)] by auto
  have v: "vouched ?s p x" if "vouched s p x" for p x
  proof -
    obtain y where y: "sy_owner s x = Some y" using \<open>vouched s p x\<close> by (auto simp: vouched_def)
    have dd: "(p, x) \<in> sy_delivered s" if "pe_channelId (sy_env ?s) z = x" "z \<in> set (pe_clients (sy_env s))" for z
    proof -
      have "\<exists>z' \<in> set (pe_clients (sy_env s)). pe_channelId (sy_env s) z' = x"
        using that assms(2) y by (cases "z = d") (auto split: if_splits)
      then show ?thesis using \<open>vouched s p x\<close> by (auto simp: vouched_def)
    qed
    have "(\<exists>z \<in> set (pe_clients (sy_env s)). pe_channelId (sy_env ?s) z = x) \<longrightarrow> (p, x) \<in> sy_delivered s" using dd by blast
    then have "(\<exists>z \<in> set (pe_clients (sy_env ?s)). pe_channelId (sy_env ?s) z = x) \<longrightarrow> (p, x) \<in> sy_delivered ?s" by simp
    then show ?thesis unfolding vouched_def using o [OF y] by blast
  qed
  have t: "task_ok s x \<Longrightarrow> task_ok ?s x" for x
    by (cases x) (use o v in \<open>auto simp: for_connection_def simp del: fun_upd_apply\<close>)
  have "sy_owner ?s (pe_channelId ?env x) = Some x" if "x \<in> set (pe_clients (sy_env s))" for x
    using o [OF l(1) [OF that]] by (cases "x = d") simp_all
  then have "links_ok ?s" using o [OF l(2)] assms(1,3) by (simp add: proxy_inv_def links_ok_def)
  moreover have "list_all (task_ok ?s) (sy_tasks ?s)" using assms(1) t by (auto simp: proxy_inv_def list_all_iff)
  moreover have "\<forall>p c. c \<in> channelsOf (px_clientsState (sy_px ?s) p) \<longrightarrow> vouched ?s p c"
    using assms(1) v by (simp add: proxy_inv_def)
  moreover have "list_all (sending_ok ?s) (sy_sending ?s)"
    using assms(1) o v by (auto simp: proxy_inv_def list_all_iff sending_ok_def simp del: fun_upd_apply)
  ultimately show ?thesis using assms(1) unfolding e by (simp add: proxy_inv_def holding_def)
qed

text \<open>A message behind an associate message: the block is taken without a limit.\<close>

lemma add_message:
  assumes "proxy_inv s" "as_message t = Some x" "for_connection s t" "wf_rotating ro" "rt_targets ro = pe_clients (sy_env s)"
  shows "proxy_inv (addTasks [t] (s\<lparr>sy_px := snd (getAssociateMessageDataBlock False (sy_px s)), sy_rotating := ro\<rparr>))"
proof -
  let ?px = "(sy_px s)\<lparr>px_noOfSmallBlocksAllocated := px_noOfSmallBlocksAllocated (sy_px s) + 1\<rparr>"
  let ?s = "s\<lparr>sy_px := ?px, sy_rotating := ro, sy_tasks := sy_tasks s @ [Queued t]\<rparr>"
  have e: "addTasks [t] (s\<lparr>sy_px := snd (getAssociateMessageDataBlock False (sy_px s)), sy_rotating := ro\<rparr>) = ?s"
    by (simp add: addTasks_def getAssociateMessageDataBlock_def)
  have sl: "vouched ?s = vouched s" "task_ok ?s = task_ok s" "sending_ok ?s = sending_ok s"
    by (auto simp: vouched_def for_connection_def sending_ok_def fun_eq_iff elim!: task_ok.elims)
  have "ownBlocks (sy_tasks s @ [Queued t]) = ownBlocks (sy_tasks s)" using assms(2) by (simp add: ownBlocks_def)
  then show ?thesis unfolding e proxy_inv_def sl using assms(1,3-5) by (simp add: proxy_inv_def links_ok_def holding_def)
qed

lemma act_message:
  assumes "proxy_inv s"
  shows "proxy_inv (proxy_act s (PMessage js u source target d))"
proof -
  obtain r b ro px where c: "px_createBackendProcessingTask js u (sy_env s) source target d (sy_rotating s) (sy_px s) = (r, b, ro, px)"
    by (metis prod.exhaust)
  have w: "wf_rotating (sy_rotating s)" "rt_targets (sy_rotating s) = pe_clients (sy_env s)"
    using assms by (simp_all add: proxy_inv_def links_ok_def)
  obtain ro1 where inv: "invokeImpl (pe_connected (sy_env s)) (sy_rotating s)
      = ((case upcoming (pe_connected (sy_env s)) (sy_rotating s) of [] \<Rightarrow> Inl NotConnectedToBroker | x # _ \<Rightarrow> Inr x), ro1)"
    "wf_rotating ro1" "rt_targets ro1 = pe_clients (sy_env s)"
    using invoke_next [OF w(1), of "pe_connected (sy_env s)"] w(2) by auto
  have target: "x \<in> set (pe_clients (sy_env s))" if "upcoming (pe_connected (sy_env s)) (sy_rotating s) = x # xs" for x xs
  proof -
    have "x \<in> set (upcoming (pe_connected (sy_env s)) (sy_rotating s))" using that by simp
    then show ?thesis using w(2) by (simp add: upcoming_def)
  qed
  have ro: "wf_rotating ro" "rt_targets ro = pe_clients (sy_env s)"
    using c w inv by (auto simp: px_createBackendProcessingTask_def Let_def split: sum.splits prod.splits option.splits if_splits)
  have same: "proxy_inv (s\<lparr>sy_px := sy_px s, sy_rotating := ro, sy_sending := sending\<rparr>)"
    if "list_all (sending_ok s) sending" for sending
    by (rule inv_own_px [OF assms]) (simp_all add: ro that)
  have old: "list_all (sending_ok s) (sy_sending s)" using assms by (simp add: proxy_inv_def)
  have now: "sending_ok s \<lparr>ps_dispatch = y, ps_peer = t, ps_block = blk, ps_known = (px_clientsState (sy_px s) t \<noteq> None),
      ps_channel = pe_channelId (sy_env s) y\<rparr>" if "r = Inr (SendNow y t blk)" for y t blk
  proof -
    have y: "y \<in> set (pe_clients (sy_env s))" "t = target"
        "px_clientsState (sy_px s) target = None \<or> pe_channelId (sy_env s) y \<in> channelsOf (px_clientsState (sy_px s) target)"
      using c that inv(1) target
      by (auto simp: px_createBackendProcessingTask_def Let_def split: sum.splits prod.splits option.splits if_splits list.splits)
    then show ?thesis using assms by (auto simp: sending_ok_def proxy_inv_def links_ok_def)
  qed
  consider "px = sy_px s" "\<forall>t. r \<noteq> Inr (SendBehind t)"
    | t where "r = Inr (SendBehind t)" "px = snd (getAssociateMessageDataBlock False (sy_px s))"
      "\<exists>b. as_message t = Some (as_peer t, b)" "as_channel t = pe_channelId (sy_env s) (as_dispatch t)"
      "as_dispatch t \<in> set (pe_clients (sy_env s))"
    using c inv(1) target by (auto simp: px_createBackendProcessingTask_def Let_def split: sum.splits prod.splits option.splits if_splits list.splits)
  then show ?thesis
  proof cases
    case 1
    then show ?thesis using c same [OF old] same old now by (auto simp: Let_def split: sum.split proxy_send.split)
  next
    case 2
    have "for_connection s t" using assms 2(3-5) by (auto simp: proxy_inv_def links_ok_def for_connection_def)
    then show ?thesis using add_message [OF assms, of t _ ro] c 2 ro by auto
  qed
qed

lemma proxy_act_inv:
  assumes "proxy_inv s" "proxy_enabled s a"
  shows "proxy_inv (proxy_act s a)"
proof (cases a)
  case (PTimer clock active clients channels peers)
  obtain r ts px where t: "px_onTimer (sy_env s) clock active clients channels peers (sy_px s) = (r, ts, px)" by (rule prod_cases3)
  have "call_ok (sy_env s) (sy_px s) ts px"
    using timer_ok [OF t] assms PTimer t by (simp add: proxy_enabled_def proxy_inv_def)
  then show ?thesis using add_call [OF assms(1)] PTimer t by simp
next
  case (PConnected peer channels)
  obtain ts px where t: "px_peerConnectedNotify (sy_env s) channels peer (sy_px s) = (ts, px)" by force
  have "call_ok (sy_env s) (sy_px s) ts px" using connected_ok [OF t] assms PConnected by (simp add: proxy_enabled_def)
  then show ?thesis using add_call [OF assms(1)] PConnected t by simp
next
  case (PMessage js u source target d)
  then show ?thesis using act_message [OF assms(1)] by simp
next
  case (PPush k r)
  then show ?thesis using assms act_push by (auto simp: proxy_enabled_def simp del: proxy_act.simps)
next
  case (PContinue k)
  then show ?thesis using assms act_continue by (auto simp: proxy_enabled_def simp del: proxy_act.simps)
next
  case (PRecord k)
  then show ?thesis using assms act_record by (auto simp: proxy_enabled_def simp del: proxy_act.simps)
next
  case (PDiscard k)
  then show ?thesis using assms act_discard by (auto simp: proxy_enabled_def simp del: proxy_act.simps)
next
  case (PSend k r)
  then show ?thesis using act_send [OF assms(1)] by simp
next
  case (PLink d c up)
  then show ?thesis using assms act_link by (auto simp: proxy_enabled_def simp del: proxy_act.simps)
next
  case (PIntervals c i)
  have w: "wf_rotating (sy_rotating s)" "rt_targets (sy_rotating s) = pe_clients (sy_env s)"
    "list_all (sending_ok s) (sy_sending s)" using assms(1) by (simp_all add: proxy_inv_def links_ok_def)
  from PIntervals show ?thesis using inv_own_px [OF assms(1), where px = "snd (px_setClientsPruneIntervals c i (sy_px s))" and ro = "sy_rotating s" and se = "sy_sending s"] w
    by (simp add: px_setClientsPruneIntervals_def split: if_splits)
next
  case PHostServices
  have w: "wf_rotating (sy_rotating s)" "rt_targets (sy_rotating s) = pe_clients (sy_env s)"
    "list_all (sending_ok s) (sy_sending s)" using assms(1) by (simp_all add: proxy_inv_def links_ok_def)
  from PHostServices show ?thesis using inv_own_px [OF assms(1), where px = "px_setHostServices (sy_px s)" and ro = "sy_rotating s" and se = "sy_sending s"] w
    by (simp add: px_setHostServices_def)
next
  case PDisposeBegin
  have w: "wf_rotating (sy_rotating s)" "rt_targets (sy_rotating s) = pe_clients (sy_env s)"
    "list_all (sending_ok s) (sy_sending s)" using assms(1) by (simp_all add: proxy_inv_def links_ok_def)
  from PDisposeBegin show ?thesis
    using inv_own_px [OF assms(1), where px = "case px_disposeBegin (sy_px s) of None \<Rightarrow> sy_px s | Some px \<Rightarrow> px" and ro = "sy_rotating s" and se = "sy_sending s"] w
    by (simp add: px_disposeBegin_def split: if_splits)
next
  case PDisposeEnd
  have w: "wf_rotating (sy_rotating s)" "rt_targets (sy_rotating s) = pe_clients (sy_env s)"
    "list_all (sending_ok s) (sy_sending s)" using assms(1) by (simp_all add: proxy_inv_def links_ok_def)
  from PDisposeEnd show ?thesis using inv_own_px [OF assms(1), where px = "px_disposeEnd (sy_px s)" and ro = "sy_rotating s" and se = "sy_sending s"] w
    by (simp add: px_disposeEnd_def base_disposeInternal_def Let_def)
qed

lemma start_inv:
  assumes "proxy_start env s"
  shows "proxy_inv s"
proof -
  obtain n k now where p: "new_proxy (pe_channelId env) (pe_clients env) n k now = Inr (sy_px s)"
    using assms by (auto simp: proxy_start_def)
  obtain m where m: "getChannelsState (pe_channelId env) (pe_clients env) = Inr m" "px_channelsState (sy_px s) = m"
    "px_clientsState (sy_px s) = Map.empty" "px_clientsPruneState (sy_px s) = Map.empty"
    "px_noOfSmallBlocksAllocated (sy_px s) = 0" "0 < px_maxNoOfSmallBlocks (sy_px s)"
    using p by (auto simp: new_proxy_def bindR_eq_Inr Let_def split: if_splits dest: sym)
  moreover have "wf_rotating (sy_rotating s)" "rt_targets (sy_rotating s) = pe_clients env"
    using assms init_rotating by (auto simp: proxy_start_def)
  ultimately show ?thesis
    using assms getChannels_spec [OF m(1)]
    by (auto simp: proxy_start_def proxy_inv_def links_ok_def holding_def)
qed

lemma proxy_reach_inv: "proxy_reach env s \<Longrightarrow> proxy_inv s"
  by (induction rule: proxy_reach.induct) (auto intro: start_inv proxy_act_inv simp del: proxy_act.simps)

end
