(* ===== verification/ProxyProps.thy ===== *)
theory ProxyProps
  imports ProxyReach
begin

text \<open>The properties of the proxy of a broker.\<close>

section \<open>A run\<close>

text \<open>
  One client with the connection 7; the peer 9 connects, and its associate message is sent and recorded.
\<close>

definition demo_env :: proxy_env where
  "demo_env = \<lparr>pe_clients = [0], pe_channelId = (\<lambda>_. 7), pe_connected = (\<lambda>_. True)\<rparr>"

definition demo_px :: "(peer_id \<rightharpoonup> channel_id set) \<Rightarrow> nat \<Rightarrow> proxy_state" where
  "demo_px clients n = \<lparr>sb_outgoingDisposed = False, sb_wrapperDisposed = False, sb_receiverDisposed = False,
     sb_clientsDisposed = False, sb_hostServices = False, sb_isDisposed = False, px_eqDisposed = False,
     px_clientsState = clients, px_channelsState = [7 \<mapsto> 0], px_wasFullyDisconnected = False, px_cancels = 0,
     px_clientsPruneState = Map.empty, px_clientsPruneCheckInterval = 10000, px_clientsPruneInterval = 30000,
     px_timeLastClientsPruneCheck = 0, px_noOfSmallBlocksAllocated = n, px_maxNoOfSmallBlocks = 10\<rparr>"

definition demo_system :: "(peer_id \<rightharpoonup> channel_id set) \<Rightarrow> nat \<Rightarrow> task_phase list \<Rightarrow> (peer_id \<times> channel_id) set \<Rightarrow> proxy_system" where
  "demo_system clients n tasks delivered = \<lparr>sy_px = demo_px clients n, sy_env = demo_env,
     sy_rotating = \<lparr>rt_targets = [0], rt_targetIndex = 0\<rparr>, sy_tasks = tasks, sy_owner = [7 \<mapsto> 0],
     sy_delivered = delivered, sy_sending = [], sy_sent = []\<rparr>"

lemmas proxy_demo_defs = demo_system_def demo_px_def demo_env_def

definition demo_task :: associate_task where
  "demo_task = \<lparr>as_peer = 9, as_channel = 7, as_dispatch = 0, as_message = None\<rparr>"

lemma demo_start: "proxy_start demo_env (demo_system Map.empty 0 [] {})"
proof -
  have "getSmallBlockSize 100 = Inr 512" by (simp add: getSmallBlockSize_def alignedOfDefault_def isPowerOfTwo_def)
  then have "new_proxy (pe_channelId demo_env) (pe_clients demo_env) 10 100 0 = Inr (demo_px Map.empty 0)"
    by (simp add: new_proxy_def getChannelsState_def proxy_demo_defs maxSmallBlocks_def seconds_def PRUNE_CHECK_INTERVAL_IN_SECONDS_def
        PRUNE_INTERVAL_IN_SECONDS_def ASSOCIATE_PEERID_TIMER_IN_SECONDS_def)
  moreover have "initRotating (pe_clients demo_env) 0 = Inr \<lparr>rt_targets = [0], rt_targetIndex = 0\<rparr>"
    by (simp add: initRotating_def demo_env_def)
  ultimately show ?thesis unfolding proxy_start_def by (auto simp: demo_system_def) (auto simp: demo_env_def)
qed

lemma demo_step:
  assumes "proxy_reach env s" "proxy_enabled s (a :: (byte list, byte list) proxy_action)" "proxy_act s a = s'"
  shows "proxy_reach env s'"
  using proxy_reach.step [OF assms(1,2)] assms(3) by simp

lemma demo_connected: "proxy_reach demo_env (demo_system [9 \<mapsto> {}] 1 [Queued demo_task] {})"
  by (rule demo_step [OF proxy_reach.start [OF demo_start], of "PConnected 9 [(7, 0)]"])
    (simp_all add: proxy_enabled_def proxy_demo_defs iterates_def px_peerConnectedNotify_def isFullyDisconnected_def outgoingConnected_def
      configureMissingChannelIdAssociations_def liveChannels_def getAssociateMessageDataBlock_def addTasks_def demo_task_def)

lemma demo_recorded: "proxy_reach demo_env (demo_system [9 \<mapsto> {7}] 0 [] {(9, 7)})"
proof -
  have 1: "proxy_reach demo_env (demo_system [9 \<mapsto> {}] 1 [Ended Pushed demo_task] {(9, 7)})"
    by (rule demo_step [OF demo_connected, of "PPush 0 Pushed"])
      (simp_all add: proxy_enabled_def proxy_demo_defs demo_task_def replaceTask_def)
  have 2: "proxy_reach demo_env (demo_system [9 \<mapsto> {}] 0 [Recording Pushed demo_task] {(9, 7)})"
    by (rule demo_step [OF 1, of "PContinue 0"])
      (simp_all add: proxy_enabled_def proxy_demo_defs demo_task_def replaceTask_def associateContinuation_def dehydrate_def)
  show ?thesis
    by (rule demo_step [OF 2, of "PRecord 0"])
      (simp_all add: proxy_enabled_def proxy_demo_defs demo_task_def replaceTask_def onPeerIdAssociateTaskCompleted_def
        associateCompletion_def channelsOf_def)
qed

section \<open>Properties\<close>

text \<open>
  C29 The proxy never trusts an association it did not make: in every reachable state, under any
  interleaving of timers, connecting peers, messages, reconnections and ends of tasks, when a channel is
  configured for a peer and is still the current connection of a client, then the associate message
  of that peer was delivered on that very connection; only known peers wait to be pruned.
\<close>
theorem px_associations_delivered:
  assumes "proxy_reach env s" "px_clientsState (sy_px s) p = Some configured" "c \<in> configured"
    "d \<in> set (pe_clients (sy_env s))" "pe_channelId (sy_env s) d = c"
  shows "(p, c) \<in> sy_delivered s \<and> dom (px_clientsPruneState (sy_px s)) \<subseteq> dom (px_clientsState (sy_px s))"
proof -
  have i: "proxy_inv s" by (rule proxy_reach_inv [OF assms(1)])
  have "c \<in> channelsOf (px_clientsState (sy_px s) p)" using assms(2,3) by simp
  then have "vouched s p c" using i by (simp add: proxy_inv_def)
  then show ?thesis using assms(4,5) i by (auto simp: vouched_def proxy_inv_def)
qed

lemma px_associations_delivered_witness: "(9, 7) \<in> sy_delivered (demo_system [9 \<mapsto> {7}] 0 [] {(9, 7)})"
  using px_associations_delivered [OF demo_recorded, of 9 "{7}" 7 0] by (simp add: proxy_demo_defs)

text \<open>
  C31 The memory of the associate messages is accounted for and bounded: the counter of allocated blocks
  is the number of tasks that hold one, and those that the proxy started by itself, from the timer
  or for a connecting peer, always stay below the limit.
\<close>
theorem px_blocks_accounted:
  assumes "proxy_reach env s"
  shows "px_noOfSmallBlocksAllocated (sy_px s) = length (filter holdsBlock (sy_tasks s))
    \<and> length (filter (\<lambda>x. holdsBlock x \<and> as_message (phaseTask x) = None) (sy_tasks s)) < px_maxNoOfSmallBlocks (sy_px s)"
  using proxy_reach_inv [OF assms] by (simp add: proxy_inv_def holding_def ownBlocks_def)

lemma px_blocks_accounted_witness: "length (filter holdsBlock [Queued demo_task]) = 1"
  using px_blocks_accounted [OF demo_connected] by (simp add: proxy_demo_defs)

text \<open>
  C30 A message for a peer that is a client of the proxy is let through only for a connection on which the
  broker has been told about that peer: when a step makes a message ready to be pushed, the peer is
  unknown to the proxy, or its associate message was delivered on the connection that was looked at,
  unless that is not the connection of the dispatch any more.  The later step that pushes the message
  uses the connection of that time: the broker has been told about the peer on it, or the connection
  has been replaced since the decision, which nothing checks.
\<close>
theorem px_message_after_association:
  assumes "proxy_reach env s" "proxy_enabled s (a :: (byte list, byte list) proxy_action)"
  shows "(\<forall>m \<in> set (sy_sending (proxy_act s a)) - set (sy_sending s).
        if ps_known m then (ps_peer m, ps_channel m) \<in> sy_delivered s \<or> ps_channel m \<noteq> pe_channelId (sy_env s) (ps_dispatch m)
        else px_clientsState (sy_px s) (ps_peer m) = None)
    \<and> (\<forall>d c target b. sy_sent (proxy_act s a) = sy_sent s @ [(d, c, target, b)] \<longrightarrow>
        (\<exists>m \<in> set (sy_sending s). ps_dispatch m = d \<and> ps_peer m = target \<and> ps_block m = b
          \<and> c = pe_channelId (sy_env s) d \<and> (ps_known m \<longrightarrow> (target, c) \<in> sy_delivered s \<or> c \<noteq> ps_channel m)))"
proof -
  have i: "proxy_inv s" "proxy_inv (proxy_act s a)"
    using proxy_reach_inv [OF assms(1)] proxy_act_inv [OF _ assms(2)] by simp_all
  have told: "(ps_peer m, ps_channel m) \<in> sy_delivered s \<or> ps_channel m \<noteq> pe_channelId (sy_env s) (ps_dispatch m)"
    if "sending_ok s m" "ps_known m" for m
    using that i(1) by (auto simp: sending_ok_def vouched_def proxy_inv_def links_ok_def)
  have new: "sending_ok s m \<and> (\<not> ps_known m \<longrightarrow> px_clientsState (sy_px s) (ps_peer m) = None)"
    if m: "m \<in> set (sy_sending (proxy_act s a))" "m \<notin> set (sy_sending s)" for m
  proof (cases a)
    case (PMessage js u source tgt blk)
    have "\<exists>r b ro px. px_createBackendProcessingTask js u (sy_env s) source tgt blk (sy_rotating s) (sy_px s) = (r, b, ro, px)
        \<and> (\<exists>y t b'. r = Inr (SendNow y t b') \<and> m = \<lparr>ps_dispatch = y, ps_peer = t, ps_block = b',
            ps_known = (px_clientsState (sy_px s) t \<noteq> None), ps_channel = pe_channelId (sy_env s) y\<rparr>)"
      using m PMessage by (auto simp: Let_def addTasks_def split: prod.splits sum.splits proxy_send.splits)
    moreover have "sending_ok (proxy_act s a) m" using i(2) m(1) by (simp add: proxy_inv_def list_all_iff)
    moreover have "sy_owner (proxy_act s a) = sy_owner s" "sy_env (proxy_act s a) = sy_env s" "sy_delivered (proxy_act s a) = sy_delivered s"
      using PMessage by (auto simp: Let_def addTasks_def split: prod.split sum.split proxy_send.split)
    ultimately show ?thesis by (auto simp: sending_ok_def vouched_def)
  next
    case (PRecord k)
    have "sending_ok (proxy_act s a) m" using i(2) m(1) by (simp add: proxy_inv_def list_all_iff)
    moreover have "sy_owner (proxy_act s a) = sy_owner s" "sy_env (proxy_act s a) = sy_env s" "sy_delivered (proxy_act s a) = sy_delivered s"
      using PRecord by (auto simp: Let_def split: task_phase.split prod.split)
    moreover have "ps_known m" using m PRecord by (auto split: task_phase.splits prod.splits option.splits)
    ultimately show ?thesis by (auto simp: sending_ok_def vouched_def)
  qed (use m in \<open>auto simp: Let_def addTasks_def dest: in_set_takeD in_set_dropD split: prod.splits task_phase.splits if_splits\<close>)
  have pushed: "\<exists>m \<in> set (sy_sending s). ps_dispatch m = d \<and> ps_peer m = target \<and> ps_block m = b
      \<and> c = pe_channelId (sy_env s) d" if sent: "sy_sent (proxy_act s a) = sy_sent s @ [(d, c, target, b)]" for d c target b
  proof -
    have "\<exists>k. a = PSend k Pushed"
      using sent by (cases a) (auto simp: Let_def addTasks_def split: prod.splits sum.splits proxy_send.splits task_phase.splits if_splits)
    then obtain k where k: "a = PSend k Pushed" ..
    then have "k < length (sy_sending s)" using assms(2) by (simp add: proxy_enabled_def)
    then show ?thesis using sent k by (intro bexI [of _ "sy_sending s ! k"]) (auto simp: Let_def)
  qed
  have "sending_ok s m" if "m \<in> set (sy_sending s)" for m using i(1) that by (simp add: proxy_inv_def list_all_iff)
  then show ?thesis using new told pushed by (intro conjI ballI allI impI) (auto, metis)
qed

text \<open>A message for the recorded peer, in the state after the run.\<close>

definition demo_json :: "(byte list, byte list) json_library" where
  "demo_json = \<lparr>js_protocol = (\<lambda>m. [1]),
     js_parseProtocol = (\<lambda>bs. Inr (createAssociateProtocolMessage (\<lambda>_. ''id'') 1 2 3 4)),
     js_payload = (\<lambda>p. p), js_parsePayload = Inr, js_isRequest = (\<lambda>p. True), js_isResponse = (\<lambda>p. False)\<rparr>"

abbreviation demo_message :: "(byte list, byte list) proxy_action" where
  "demo_message \<equiv> PMessage demo_json (\<lambda>_. ''id'') 8 9 sample_block"

definition demo_send :: pending_send where
  "demo_send = \<lparr>ps_dispatch = 0, ps_peer = 9, ps_block = sample_block, ps_known = True, ps_channel = 7\<rparr>"

lemma demo_sends:
  "proxy_act (demo_system [9 \<mapsto> {7}] 0 [] {(9, 7)}) demo_message
    = (demo_system [9 \<mapsto> {7}] 0 [] {(9, 7)})\<lparr>sy_sending := [demo_send]\<rparr>"
  by (simp add: proxy_demo_defs px_createBackendProcessingTask_def deserializeBlockToObjects_def demo_json_def sample_block_def chkR_def
      verifyBrokerProtocolMessage_def createAssociateProtocolMessage_def createBrokerProtocolMessage_def demo_send_def
      messageType_tryToEnum_def verifyRequiredProperty_def updateBrokerProtocolMessageInBlock_def invokeImpl_def)

lemma demo_decided: "proxy_reach demo_env ((demo_system [9 \<mapsto> {7}] 0 [] {(9, 7)})\<lparr>sy_sending := [demo_send]\<rparr>)"
  by (rule demo_step [OF demo_recorded _ demo_sends]) (simp add: proxy_enabled_def)

lemma px_message_after_association_witness:
  "(9, 7) \<in> sy_delivered (demo_system [9 \<mapsto> {7}] 0 [] {(9, 7)})"
proof -
  let ?s = "demo_system [9 \<mapsto> {7}] 0 [] {(9, 7)}"
  have "proxy_enabled ?s demo_message" by (simp add: proxy_enabled_def)
  from px_message_after_association [OF demo_recorded this, THEN conjunct1]
  have "(ps_peer demo_send, ps_channel demo_send) \<in> sy_delivered ?s
      \<or> ps_channel demo_send \<noteq> pe_channelId (sy_env ?s) (ps_dispatch demo_send)"
    unfolding demo_sends by (simp add: demo_system_def) (simp add: demo_send_def)
  then show ?thesis by (simp add: proxy_demo_defs demo_send_def)
qed

text \<open>
  The connection is replaced between the decision and the push: the message for the client 9 leaves on
  the connection 8, on which the broker has not been told about it.
\<close>

lemma px_push_on_new_connection:
  "\<exists>s. proxy_reach demo_env s \<and> sy_sent s = [(0, 8, 9, sample_block)] \<and> px_clientsState (sy_px s) 9 \<noteq> None
     \<and> (9, 8) \<notin> sy_delivered s"
proof -
  let ?s = "(demo_system [9 \<mapsto> {7}] 0 [] {(9, 7)})\<lparr>sy_sending := [demo_send]\<rparr>"
  let ?s1 = "proxy_act ?s (PLink 0 8 True :: (byte list, byte list) proxy_action)"
  let ?s2 = "proxy_act ?s1 (PSend 0 Pushed :: (byte list, byte list) proxy_action)"
  have "proxy_reach demo_env ?s1" by (rule proxy_reach.step [OF demo_decided]) (simp add: proxy_enabled_def proxy_demo_defs)
  then have "proxy_reach demo_env ?s2" by (rule proxy_reach.step) (simp add: proxy_enabled_def)
  then show ?thesis by (intro exI [of _ ?s2]) (simp add: proxy_demo_defs demo_send_def)
qed

text \<open>
  C32 A check of the clients forgets exactly the stale ones: a peer with an active queue stays or is
  registered again, with its channels, and is not marked; an inactive one is marked at the first check
  that finds it so, keeps its state while less than the interval has passed since, and is erased
  afterwards; nothing is done for unknown peers.
\<close>
theorem px_prune:
  assumes "sb_hostServices s" "px_clientsPruneCheckInterval s \<le> clock 0 - px_timeLastClientsPruneCheck s"
    "distinct clients" "set clients = dom (px_clientsState s)"
    "checkToPruneStaleClientsState clock (Some active) clients s = (r, s')"
  shows "r = Inr () \<and> (if p \<in> set active
      then px_clientsState s' p = Some (channelsOf (px_clientsState s p)) \<and> px_clientsPruneState s' p = None
      else if px_clientsState s p = None
      then px_clientsState s' p = None \<and> px_clientsPruneState s' p = px_clientsPruneState s p
      else \<exists>i \<le> length clients. case px_clientsPruneState s p of
          None \<Rightarrow> px_clientsState s' p = px_clientsState s p \<and> px_clientsPruneState s' p = Some (clock i)
        | Some since \<Rightarrow> if clock i - since < px_clientsPruneInterval s
            then px_clientsState s' p = px_clientsState s p \<and> px_clientsPruneState s' p = Some since
            else px_clientsState s' p = None \<and> px_clientsPruneState s' p = None)"
proof -
  obtain m q t where mq: "r = Inr ()" "s' = s\<lparr>px_clientsState := m, px_clientsPruneState := q, px_timeLastClientsPruneCheck := t\<rparr>"
    and spec: "\<forall>p. if p \<in> set active then m p = Some (channelsOf (px_clientsState s p)) \<and> q p = None
        else if px_clientsState s p = None then m p = None \<and> q p = px_clientsPruneState s p
        else \<exists>i \<le> length clients. case px_clientsPruneState s p of
            None \<Rightarrow> m p = px_clientsState s p \<and> q p = Some (clock i)
          | Some since \<Rightarrow> if clock i - since < px_clientsPruneInterval s
              then m p = px_clientsState s p \<and> q p = Some since else m p = None \<and> q p = None"
    using prune_spec [of s clock clients active, OF assms(1-4)] assms(5) by auto
  have "px_clientsState s' = m" "px_clientsPruneState s' = q" by (simp_all add: mq(2))
  then show ?thesis using spec [rule_format, of p] mq(1) by (simp only: simp_thms)
qed

lemma px_prune_witness:
  "\<exists>s'. checkToPruneStaleClientsState (\<lambda>_. 50000) (Some []) [9] ((demo_px [9 \<mapsto> {7}] 0)
      \<lparr>sb_hostServices := True, px_clientsPruneState := [9 \<mapsto> 1]\<rparr>) = (Inr (), s') \<and> px_clientsState s' 9 = None"
proof -
  let ?s = "(demo_px [9 \<mapsto> {7}] 0)\<lparr>sb_hostServices := True, px_clientsPruneState := [9 \<mapsto> 1]\<rparr>"
  obtain r s' where c: "checkToPruneStaleClientsState (\<lambda>_. 50000) (Some []) [9] ?s = (r, s')" by force
  have "r = Inr () \<and> px_clientsState s' 9 = None"
    using px_prune [OF _ _ _ _ c, of 9] by (simp add: demo_px_def)
  then show ?thesis using c by simp
qed

text \<open>The texts of associate messages have one size, and the small blocks hold it.\<close>

lemma px_associate_fits:
  assumes "getSmallBlockSize n = Inr blockSize" "130 * n < 2 ^ 64"
  shows "n \<le> unat blockSize"
proof -
  have "of_nat (130 * n) div 100 \<le> blockSize"
    using assms(1) aligned [of 512] by (simp add: getSmallBlockSize_def isPowerOfTwo_def)
  moreover have "unat (of_nat (130 * n) div 100 :: 64 word) = 130 * n div 100"
    using unat_of_small [OF assms(2)] by (simp only: unat_div) simp
  ultimately have "130 * n div 100 \<le> unat blockSize" by (simp only: word_le_nat_alt)
  then show ?thesis by linarith
qed

section \<open>Disposal\<close>


text \<open>What the base class disposes of: the dispatch, its wrapper, the receiver and the clients.\<close>

definition disposedParts :: "'a shared_backend_scheme \<Rightarrow> bool \<times> bool \<times> bool \<times> bool" where
  "disposedParts s = (sb_outgoingDisposed s, sb_wrapperDisposed s, sb_receiverDisposed s, sb_clientsDisposed s)"

lemma parts_isFullyDisconnected: "disposedParts (snd (isFullyDisconnected c s)) = disposedParts s"
  by (simp add: isFullyDisconnected_def disposedParts_def Let_def)

lemma parts_associateLoop: "disposedParts (snd (snd (associateLoop connected p configured channels s))) = disposedParts s"
  by (induction connected p configured channels s rule: associateLoop.induct)
    (auto simp: getAssociateMessageDataBlock_def disposedParts_def Let_def split: prod.splits)

lemma parts_configure:
  "disposedParts (snd (snd (configureMissingChannelIdAssociations connected channels p configured s))) = disposedParts s"
  by (simp add: configureMissingChannelIdAssociations_def parts_associateLoop Let_def) (simp add: disposedParts_def)

lemma parts_associateAll: "disposedParts (snd (snd (associateAll connected channels peers duration s))) = disposedParts s"
proof (induction peers arbitrary: s)
  case (Cons p peers)
  obtain f ts s1 where c: "configureMissingChannelIdAssociations connected channels p (channelsOf (px_clientsState s p)) s = (f, ts, s1)"
    by (cases "configureMissingChannelIdAssociations connected channels p (channelsOf (px_clientsState s p)) s")
  then have 1: "disposedParts s1 = disposedParts s"
    using parts_configure [of connected channels p "channelsOf (px_clientsState s p)" s] by simp
  obtain x ts' s2 where a: "associateAll connected channels peers duration s1 = (x, ts', s2)"
    by (cases "associateAll connected channels peers duration s1")
  then have "disposedParts s2 = disposedParts s1" using Cons [of s1] by simp
  then show ?case using 1 a by (cases f) (simp_all add: c)
qed simp

lemma parts_pruneLoop: "disposedParts (pruneLoop clock k peers s) = disposedParts s"
  by (induction clock k peers s rule: pruneLoop.induct) (simp_all add: disposedParts_def Let_def split: option.splits)

lemma parts_prune: "disposedParts (snd (checkToPruneStaleClientsState clock active clients s)) = disposedParts s"
  using parts_pruneLoop by (simp add: checkToPruneStaleClientsState_def disposedParts_def Let_def split: option.splits)

lemma parts_onTimer: "disposedParts (snd (snd (px_onTimer env clock active clients channels peers s))) = disposedParts s"
proof -
  obtain r s1 where 1: "checkToPruneStaleClientsState clock active clients s = (r, s1)" by fastforce
  have p1: "disposedParts s1 = disposedParts s" using parts_prune [of clock active clients s] 1 by simp
  define s2 where "s2 m = (if dom m \<noteq> dom (px_channelsState s1) then s1\<lparr>px_channelsState := m\<rparr> else s1)" for m
  have p2: "disposedParts (s2 m) = disposedParts s1" for m by (simp add: s2_def disposedParts_def)
  have p3: "disposedParts s3 = disposedParts s" if "isFullyDisconnected (outgoingConnected env (s2 m)) (s2 m) = (f, s3)" for m f s3
    using parts_isFullyDisconnected [of "outgoingConnected env (s2 m)" "s2 m"] that p1 p2 by simp
  have p4: "disposedParts s4 = disposedParts s3"
    if "associateAll (pe_connected env) channels peers duration s3 = (x, ts, s4)" for duration s3 x ts s4
    using parts_associateAll [of "pe_connected env" channels peers duration s3] that by simp
  show ?thesis unfolding px_onTimer_def Let_def 1
    by (simp add: s2_def [symmetric] p1 split: sum.split prod.split) (blast dest: p3 p4 trans)
qed

lemma parts_connected: "disposedParts (snd (px_peerConnectedNotify env channels p s)) = disposedParts s"
proof -
  define s1 where "s1 = s\<lparr>px_clientsState := (px_clientsState s)(p \<mapsto> {})\<rparr>"
  obtain f s2 where f: "isFullyDisconnected (outgoingConnected env s1) s1 = (f, s2)" by force
  obtain x ts s3 where c: "configureMissingChannelIdAssociations (pe_connected env) channels p {} s2 = (x, ts, s3)"
    by (cases "configureMissingChannelIdAssociations (pe_connected env) channels p {} s2")
  have "disposedParts s3 = disposedParts s2" "disposedParts s2 = disposedParts s1" "disposedParts s1 = disposedParts s"
    using parts_configure [of "pe_connected env" channels p "{}" s2] c
      parts_isFullyDisconnected [of "outgoingConnected env s1" s1] f by (simp_all add: s1_def disposedParts_def)
  then show ?thesis by (simp add: px_peerConnectedNotify_def s1_def [symmetric] f c)
qed

lemma parts_message:
  "disposedParts (snd (snd (snd (px_createBackendProcessingTask js uuid2string env source target d outgoing s)))) = disposedParts s"
  by (simp add: px_createBackendProcessingTask_def getAssociateMessageDataBlock_def disposedParts_def Let_def
      split: sum.split prod.split option.split)

lemma parts_act:
  assumes "proxy_enabled s (a :: (byte list, byte list) proxy_action)"
  shows "disposedParts (sy_px (proxy_act s a)) = disposedParts (sy_px s)"
proof (cases a)
  case (PTimer clock active clients channels peers)
  then show ?thesis using parts_onTimer [of "sy_env s" clock active clients channels peers "sy_px s"]
    by (simp add: addTasks_def case_prod_beta)
next
  case (PConnected p channels)
  then show ?thesis using parts_connected [of "sy_env s" channels p "sy_px s"] by (simp add: addTasks_def case_prod_beta)
next
  case (PMessage js uuid2string source target d)
  then show ?thesis using parts_message [of js uuid2string "sy_env s" source target d "sy_rotating s" "sy_px s"]
    by (auto simp: addTasks_def Let_def split: prod.split sum.split proxy_send.split)
next
  case (PContinue k)
  then show ?thesis
    by (simp add: associateContinuation_def dehydrate_def disposedParts_def Let_def split: task_phase.split)
next
  case (PRecord k)
  then show ?thesis
    by (simp add: onPeerIdAssociateTaskCompleted_def disposedParts_def split: task_phase.split push_result.split)
next
  case PDisposeEnd
  then show ?thesis using assms
    by (simp add: proxy_enabled_def px_disposeEnd_def base_disposeInternal_def disposedParts_def)
qed (simp_all add: disposedParts_def Let_def dehydrate_def px_setClientsPruneIntervals_def px_setHostServices_def px_disposeBegin_def)

lemma parts_start:
  assumes "proxy_start env s"
  shows "disposedParts (sy_px s) = (False, False, False, False)"
proof -
  have "disposedParts px = (False, False, False, False)" if "new_proxy channelId clients n textSize now = Inr px"
    for channelId clients n textSize now px
    using that by (auto simp: new_proxy_def bindR_def disposedParts_def Let_def split: sum.splits if_splits)
  then show ?thesis using assms unfolding proxy_start_def by blast
qed

lemma parts_reach: "proxy_reach env s \<Longrightarrow> disposedParts (sy_px s) = (False, False, False, False)"
  by (induction rule: proxy_reach.induct) (simp_all only: parts_start parts_act)

text \<open>
  C33 Disposing of the proxy does not dispose of what it owns: the derived class marks the shared state
  as disposed before it calls the base class, whose disposal returns at once when that mark is set.  So
  in every reachable state the outgoing dispatch, the receiver and the clients are as they were, and the
  host services stay connected once they were set.
\<close>
theorem px_dispose_incomplete:
  assumes "proxy_reach env s"
  shows "\<not> sb_outgoingDisposed (sy_px s) \<and> \<not> sb_wrapperDisposed (sy_px s) \<and> \<not> sb_receiverDisposed (sy_px s)
    \<and> \<not> sb_clientsDisposed (sy_px s) \<and> (sb_hostServices (sy_px s) \<longrightarrow> sb_hostServices (px_disposeInternal id (sy_px s)))
    \<and> sb_isDisposed (px_disposeInternal id (sy_px s)) \<and> \<not> sb_clientsDisposed (px_disposeInternal id (sy_px s))"
  using parts_reach [OF assms]
  by (simp add: disposedParts_def px_disposeInternal_def px_disposeBegin_def px_disposeEnd_def base_disposeInternal_def)

lemma px_dispose_incomplete_witness: "\<not> sb_clientsDisposed (px_disposeInternal id (demo_px [9 \<mapsto> {7}] 0))"
  using px_dispose_incomplete [OF demo_recorded] by (simp add: demo_system_def)

end
