(* ===== verification/HttpResponse.thy ===== *)
theory HttpResponse
  imports HttpParser
begin

text \<open>
  The response of the HTTP server, \<open>httpserver/Response.h\<close>, with the status lines of
  \<open>http/Globals.h\<close>.  Header maps are lists; \<open>order\<close> is the order in which the unordered map
  of the response is iterated.
\<close>

section \<open>Status lines\<close>

type_synonym status_code = "32 word"

definition statusStrings :: "(status_code \<times> string) list" where
  "statusStrings = map (\<lambda>(status, text). (status, text @ g_crlf))
     [(0, ''HTTP/1.0 0 Status Undefined''), (200, ''HTTP/1.0 200 OK''), (201, ''HTTP/1.0 201 Created''),
      (202, ''HTTP/1.0 202 Accepted''), (204, ''HTTP/1.0 204 No Content''), (300, ''HTTP/1.0 300 Multiple Choices''),
      (301, ''HTTP/1.0 301 Moved Permanently''), (302, ''HTTP/1.0 302 Moved Temporarily''),
      (304, ''HTTP/1.0 304 Not Modified''), (399, ''HTTP/1.0 399 End Range''), (400, ''HTTP/1.0 400 Bad Request''),
      (401, ''HTTP/1.0 401 Unauthorized''), (403, ''HTTP/1.0 403 Forbidden''), (404, ''HTTP/1.0 404 Not Found''),
      (409, ''HTTP/1.0 409 Conflict''), (429, ''HTTP/1.0 429 Too Many Requests''),
      (500, ''HTTP/1.0 500 Internal Server Error''), (501, ''HTTP/1.0 501 Not Implemented''),
      (502, ''HTTP/1.0 502 Bad Gateway''), (503, ''HTTP/1.0 503 Service Unavailable''),
      (504, ''HTTP/1.0 504 Gateway Timeout'')]"

definition genericReasonPhrase :: "status_code \<Rightarrow> string" where
  "genericReasonPhrase status =
     (let statusClass = status div 100 in
      if statusClass = 1 then ''Informational'' else if statusClass = 2 then ''Success''
      else if statusClass = 3 then ''Redirection'' else if statusClass = 4 then ''Client Error''
      else if statusClass = 5 then ''Server Error'' else ''Unknown Status'')"

definition getStatusLine :: "status_code \<Rightarrow> string" where
  "getStatusLine status =
     (case map_of statusStrings status of
        Some line \<Rightarrow> line
      | None \<Rightarrow> ''HTTP/1.0 '' @ dec_string (unat status) @ '' '' @ genericReasonPhrase status @ g_crlf)"

section \<open>Headers\<close>

definition g_contentTypeDefault :: string where
  "g_contentTypeDefault = ''application/json; charset=UTF-8''"

type_synonym http_headers_map = "(string \<times> string) list"

text \<open>\<open>emplace\<close>: whether the header was inserted.\<close>

definition emplaceHeader :: "string \<Rightarrow> string \<Rightarrow> http_headers_map \<Rightarrow> bool \<times> http_headers_map" where
  "emplaceHeader name value headers =
     (if map_of headers name \<noteq> None then (False, headers) else (True, headers @ [(name, value)]))"

definition getRequiredHeaders :: "string \<Rightarrow> string \<Rightarrow> http_headers_map" where
  "getRequiredHeaders content contentType =
     snd (emplaceHeader ''Connection'' ''close''
       (snd (emplaceHeader ''Content-Length'' (dec_string (length content))
         (snd (emplaceHeader ''Content-Type'' contentType [])))))"

definition chkCustomHeader :: "http_strings \<Rightarrow> string \<Rightarrow> string \<Rightarrow> unit res" where
  "chkCustomHeader H name value =
     bindR (chkR (isValidName name) UnexpectedExc)
       (\<lambda>_. bindR (chkR (isValidValue value) UnexpectedExc)
         (\<lambda>_. chkR (\<not> (iequals H name ''Content-Type'' \<or> iequals H name ''Content-Length''
             \<or> iequals H name ''Transfer-Encoding'' \<or> iequals H name ''Connection'')) UnexpectedExc))"

fun addCustomHeaders :: "http_strings \<Rightarrow> http_headers_map \<Rightarrow> http_headers_map \<Rightarrow> http_headers_map res" where
  "addCustomHeaders H [] headers = Inr headers"
| "addCustomHeaders H ((name, value) # customHeaders) headers =
     bindR (chkCustomHeader H name value)
       (\<lambda>_. case emplaceHeader name value headers of
          (False, _) \<Rightarrow> Inl UnexpectedExc
        | (True, headers') \<Rightarrow> addCustomHeaders H customHeaders headers')"

section \<open>Responses\<close>

definition getStockResponse :: "status_code \<Rightarrow> string" where
  "getStockResponse status = ''{'' @ [CHR 0x22] @ ''statusCode'' @ [CHR 0x22] @ '' : '' @ dec_string (unat status) @ ''}''"

definition buildResponse :: "status_code \<Rightarrow> http_headers_map \<Rightarrow> string \<Rightarrow> string" where
  "buildResponse status headers content =
     getStatusLine status @ concat (map (\<lambda>(name, value). name @ '': '' @ value @ g_crlf) headers) @ g_crlf
       @ (if content \<noteq> [] then content else [])"

record http_response =
  rs_status :: status_code
  rs_content :: string
  rs_headers :: http_headers_map
  rs_serialized :: string

definition stock_response :: "(http_headers_map \<Rightarrow> http_headers_map) \<Rightarrow> status_code \<Rightarrow> http_response" where
  "stock_response order status =
     (let content = getStockResponse status; headers = getRequiredHeaders content g_contentTypeDefault in
      \<lparr>rs_status = status, rs_content = content, rs_headers = headers,
        rs_serialized = buildResponse status (order headers) content\<rparr>)"

definition new_response ::
  "http_strings \<Rightarrow> (http_headers_map \<Rightarrow> http_headers_map) \<Rightarrow> status_code \<Rightarrow> string \<Rightarrow> string \<Rightarrow> http_headers_map \<Rightarrow> http_response res" where
  "new_response H order status content contentType customHeaders =
     bindR (addCustomHeaders H customHeaders
         (getRequiredHeaders content (if contentType = [] then g_contentTypeDefault else contentType)))
       (\<lambda>headers. Inr \<lparr>rs_status = status, rs_content = content, rs_headers = headers,
          rs_serialized = buildResponse status (order headers) content\<rparr>)"

end
