(* ===== verification/Bridge.thy ===== *)
theory Bridge
  imports Messages HttpResponse "HOL-Library.AList"
begin

text \<open>
  The bridge from the HTTP server to messaging, \<open>rest/HttpServerBackendMessagingBridge.h\<close>: a request is
  sent as a message with a new conversation id, and waits in a table until a message with that id
  arrives, the request times out or is cancelled.  A callback is named by the conversation that
  registered it; the operations yield the calls of callbacks that they make after the lock is
  released, with \<open>True\<close> for no exception and \<open>False\<close> for \<open>operation_aborted\<close>.
\<close>

section \<open>State and parameters\<close>

type_synonym conversation_id = peer_id

record request_info =
  in_callback :: "conversation_id option"
  in_response :: "data_block option"
  in_utcRegisteredAt :: int
  in_isRegistered :: bool

text \<open>The table is the list of its entries in the order of iteration.\<close>

type_synonym requests_map = "(conversation_id \<times> request_info) list"
type_synonym callback_calls = "(conversation_id \<times> bool) list"

record bridge_state =
  br_scheduledForCancel :: "conversation_id list"
  br_requestsInFlight :: requests_map
  br_isDisposed :: bool
  br_backendDisposed :: bool
  br_cancelsServer :: nat
  br_hostConnected :: bool
  br_bridgeDisposed :: bool

record bridge_config =
  bc_sourcePeerId :: peer_id
  bc_targetPeerId :: peer_id
  bc_tokenCookieNames :: "string list"
  bc_tokenTypeDefault :: string
  bc_tokenDataDefault :: string
  bc_requestTimeout :: int
  bc_serverAuthenticationRequired :: bool
  bc_expectedSecurityId :: string
  bc_controlToken :: bool

record http_request_metadata =
  rm_method :: string
  rm_urlPath :: string
  rm_headers :: http_headers_map

record http_response_metadata =
  pm_httpStatusCode :: int
  pm_contentType :: string
  pm_headers :: http_headers_map

text \<open>
  The libraries: JSON, Boost strings and identifiers, and the conversion of the metadata to and from the
  payload that passes through the broker.
\<close>

record ('u, 'p) bridge_env =
  be_json :: "('u, 'p) json_library"
  be_strings :: http_strings
  be_uuid2string :: "peer_id \<Rightarrow> string"
  be_string2uuid :: "string \<Rightarrow> peer_id res"
  be_requestPayload :: "http_request_metadata \<Rightarrow> 'u"
  be_responsePayload :: "'u \<Rightarrow> http_response_metadata option res"

text \<open>Times are in seconds.\<close>

definition TIMEOUT_UNREGISTERED_REQUEST_IN_SECONDS :: int where "TIMEOUT_UNREGISTERED_REQUEST_IN_SECONDS = 30"
definition MAX_REQUESTS_IN_FLIGHT :: nat where "MAX_REQUESTS_IN_FLIGHT = 16384"
definition DEFAULT_REQUEST_TIMEOUT_IN_SECONDS :: int where "DEFAULT_REQUEST_TIMEOUT_IN_SECONDS = 2 * 60"

text \<open>\<open>expectedSecurityId\<close> is kept in lower case; a special value of the timeout selects the default.\<close>

definition new_bridge_config ::
  "http_strings \<Rightarrow> peer_id \<Rightarrow> peer_id \<Rightarrow> string list \<Rightarrow> string \<Rightarrow> string \<Rightarrow> int option \<Rightarrow> bool \<Rightarrow> string \<Rightarrow> bool \<Rightarrow> bridge_config" where
  "new_bridge_config H sourcePeerId targetPeerId tokenCookieNames tokenTypeDefault tokenDataDefault requestTimeout
     serverAuthenticationRequired expectedSecurityId controlToken =
     \<lparr>bc_sourcePeerId = sourcePeerId, bc_targetPeerId = targetPeerId, bc_tokenCookieNames = tokenCookieNames,
       bc_tokenTypeDefault = tokenTypeDefault, bc_tokenDataDefault = tokenDataDefault,
       bc_requestTimeout = (case requestTimeout of None \<Rightarrow> DEFAULT_REQUEST_TIMEOUT_IN_SECONDS | Some t \<Rightarrow> t),
       bc_serverAuthenticationRequired = serverAuthenticationRequired,
       bc_expectedSecurityId = to_lower H expectedSecurityId, bc_controlToken = controlToken\<rparr>"

definition new_bridge :: bridge_state where
  "new_bridge = \<lparr>br_scheduledForCancel = [], br_requestsInFlight = [], br_isDisposed = False, br_backendDisposed = False,
     br_cancelsServer = 0, br_hostConnected = True, br_bridgeDisposed = False\<rparr>"

definition new_request_info :: request_info where
  "new_request_info = \<lparr>in_callback = None, in_response = None, in_utcRegisteredAt = 0, in_isRegistered = False\<rparr>"

section \<open>Requests in flight\<close>

definition br_chkIfDisposed :: "bridge_state \<Rightarrow> unit res" where
  "br_chkIfDisposed s = chkR (\<not> br_isDisposed s) UnexpectedExc"

definition cancelRequestsNoThrow :: "requests_map \<Rightarrow> callback_calls" where
  "cancelRequestsNoThrow requests =
     concat (map (\<lambda>(_, info). case in_callback info of None \<Rightarrow> [] | Some callback \<Rightarrow> [(callback, False)]) requests)"

definition getRequestsToDisposeInternal :: "bridge_state \<Rightarrow> requests_map \<times> bridge_state" where
  "getRequestsToDisposeInternal s =
     (if \<not> br_isDisposed s then (br_requestsInFlight s, s\<lparr>br_requestsInFlight := [], br_isDisposed := True\<rparr>) else ([], s))"

definition isExpired :: "bridge_config \<Rightarrow> int \<Rightarrow> request_info \<Rightarrow> bool" where
  "isExpired cfg now info \<longleftrightarrow> now - in_utcRegisteredAt info
     > (if in_isRegistered info then bc_requestTimeout cfg else TIMEOUT_UNREGISTERED_REQUEST_IN_SECONDS)"

text \<open>The k-th entry is compared with the k-th reading of the clock.\<close>

fun expiredLoop :: "bridge_config \<Rightarrow> (nat \<Rightarrow> int) \<Rightarrow> requests_map \<Rightarrow> requests_map" where
  "expiredLoop cfg clock [] = []"
| "expiredLoop cfg clock ((c, info) # requests) =
     (let rest = expiredLoop cfg (\<lambda>k. clock (Suc k)) requests
      in if isExpired cfg (clock 0) info then (c, info) # rest else rest)"

definition getExpiredRequestsInternal :: "bridge_config \<Rightarrow> (nat \<Rightarrow> int) \<Rightarrow> bridge_state \<Rightarrow> requests_map \<times> bridge_state" where
  "getExpiredRequestsInternal cfg clock s =
     (let expiredRequests = expiredLoop cfg clock (br_requestsInFlight s)
      in (expiredRequests, s\<lparr>br_requestsInFlight := fold (\<lambda>(c, _). AList.delete c) expiredRequests (br_requestsInFlight s)\<rparr>))"

definition completeRequestInternal ::
  "bool \<Rightarrow> conversation_id \<Rightarrow> data_block option \<Rightarrow> bool \<Rightarrow> bool \<Rightarrow> int \<Rightarrow> bridge_state
     \<Rightarrow> data_block option res \<times> callback_calls \<times> bridge_state" where
  "completeRequestInternal discardInfo conversationId dataBlock ok ignoreIfDisposed now s =
     (if br_isDisposed s \<and> ignoreIfDisposed then (Inr None, [], s)
      else case br_chkIfDisposed s of
        Inl e \<Rightarrow> (Inl e, [], s)
      | Inr _ \<Rightarrow>
          (let found = map_of (br_requestsInFlight s) conversationId in
           if length (br_requestsInFlight s) \<ge> MAX_REQUESTS_IN_FLIGHT \<and> found = None then (Inr None, [], s)
           else let info = (case found of Some info \<Rightarrow> info | None \<Rightarrow> new_request_info\<lparr>in_utcRegisteredAt := now\<rparr>);
                    info1 = info\<lparr>in_response := dataBlock, in_callback := None\<rparr>
             in (Inr (in_response info),
                 (case in_callback info of None \<Rightarrow> [] | Some onReady \<Rightarrow> [(onReady, ok)]),
                 s\<lparr>br_requestsInFlight := (if discardInfo then AList.delete conversationId (br_requestsInFlight s)
                      else AList.update conversationId info1 (br_requestsInFlight s))\<rparr>)))"

definition br_dispose :: "bridge_state \<Rightarrow> callback_calls \<times> bridge_state" where
  "br_dispose s = (let (requestsInFlight, s1) = getRequestsToDisposeInternal s
     in (cancelRequestsNoThrow requestsInFlight, s1\<lparr>br_backendDisposed := True\<rparr>))"

definition registerRequest :: "conversation_id \<Rightarrow> conversation_id \<Rightarrow> int \<Rightarrow> bridge_state \<Rightarrow> bool res \<times> bridge_state" where
  "registerRequest conversationId onReady now s =
     (case br_chkIfDisposed s of
        Inl e \<Rightarrow> (Inl e, s)
      | Inr _ \<Rightarrow>
          (if map_of (br_requestsInFlight s) conversationId \<noteq> None then (Inr False, s)
           else (Inr True, s\<lparr>br_requestsInFlight := AList.update conversationId
             (new_request_info\<lparr>in_callback := Some onReady, in_utcRegisteredAt := now, in_isRegistered := True\<rparr>) (br_requestsInFlight s)\<rparr>)))"

definition completeRequest :: "conversation_id \<Rightarrow> data_block option \<Rightarrow> bool \<Rightarrow> int \<Rightarrow> bridge_state \<Rightarrow> unit res \<times> callback_calls \<times> bridge_state" where
  "completeRequest conversationId dataBlock ok now s =
     (case completeRequestInternal False conversationId dataBlock ok True now s of
        (Inl e, calls, s1) \<Rightarrow> (Inl e, calls, s1) | (Inr _, calls, s1) \<Rightarrow> (Inr (), calls, s1))"

definition scheduleForCancel :: "conversation_id \<Rightarrow> bridge_state \<Rightarrow> bridge_state" where
  "scheduleForCancel conversationId s = s\<lparr>br_scheduledForCancel := br_scheduledForCancel s @ [conversationId]\<rparr>"

definition closeRequest :: "conversation_id \<Rightarrow> int \<Rightarrow> bridge_state \<Rightarrow> data_block option \<times> callback_calls \<times> bridge_state" where
  "closeRequest conversationId now s =
     (case completeRequestInternal True conversationId None False True now s of
        (Inl e, calls, s1) \<Rightarrow> (None, calls, s1) | (Inr result, calls, s1) \<Rightarrow> (result, calls, s1))"

section \<open>Timers\<close>

definition br_onTimer :: "bridge_config \<Rightarrow> bool \<Rightarrow> (nat \<Rightarrow> int) \<Rightarrow> bridge_state \<Rightarrow> callback_calls \<times> bridge_state" where
  "br_onTimer cfg backendConnected clock s =
     (let (expired, s1) = getExpiredRequestsInternal cfg clock s
      in (cancelRequestsNoThrow expired,
          if bc_controlToken cfg \<and> \<not> backendConnected then s1\<lparr>br_cancelsServer := br_cancelsServer s1 + 1\<rparr> else s1))"

text \<open>The timer takes the list over; each of the completions that follow locks on its own.\<close>

definition takeScheduledForCancel :: "bridge_state \<Rightarrow> conversation_id list \<times> bridge_state" where
  "takeScheduledForCancel s = (br_scheduledForCancel s, s\<lparr>br_scheduledForCancel := []\<rparr>)"

fun cancelLoop :: "(nat \<Rightarrow> int) \<Rightarrow> conversation_id list \<Rightarrow> bridge_state \<Rightarrow> callback_calls \<times> bridge_state" where
  "cancelLoop clock [] s = ([], s)"
| "cancelLoop clock (c # cs) s =
     (case completeRequest c None False (clock 0) s of
        (Inl e, calls, s1) \<Rightarrow> (calls, s1)
      | (Inr _, calls, s1) \<Rightarrow> (let (calls', s2) = cancelLoop (\<lambda>k. clock (Suc k)) cs s1 in (calls @ calls', s2)))"

definition onCheckCancelRequestsTimer :: "(nat \<Rightarrow> int) \<Rightarrow> bridge_state \<Rightarrow> callback_calls \<times> bridge_state" where
  "onCheckCancelRequestsTimer clock s = (let (cs, s1) = takeScheduledForCancel s in cancelLoop clock cs s1)"

section \<open>Messages\<close>

definition isAccepted :: "('u, 'p) bridge_env \<Rightarrow> bridge_config \<Rightarrow> 'u broker_protocol \<Rightarrow> bool" where
  "isAccepted env cfg m =
     (if bc_serverAuthenticationRequired cfg then
        (case bp_principalIdentityInfo m of None \<Rightarrow> False
         | Some info \<Rightarrow> (case pi_securityPrincipal info of None \<Rightarrow> False
            | Some p \<Rightarrow> \<not> (bc_expectedSecurityId cfg \<noteq> []
                \<and> bc_expectedSecurityId cfg \<noteq> to_lower (be_strings env) (sp_sid p))))
      else True)"

definition processIncomingMessage ::
  "('u, 'p) bridge_env \<Rightarrow> bridge_config \<Rightarrow> data_block \<Rightarrow> int \<Rightarrow> bridge_state \<Rightarrow> unit res \<times> callback_calls \<times> bridge_state" where
  "processIncomingMessage env cfg data now s =
     (case deserializeBlockToObjects (be_json env) True data of
        Inl e \<Rightarrow> (Inl e, [], s)
      | Inr (brokerProtocol, _) \<Rightarrow> (case be_string2uuid env (bp_conversationId brokerProtocol) of
            Inl e \<Rightarrow> (Inl e, [], s)
          | Inr conversationId \<Rightarrow>
              (if \<not> isAccepted env cfg brokerProtocol then (Inr (), [], s)
               else completeRequest conversationId (Some data) True now s)))"

text \<open>The text of requests and responses as bytes.\<close>

definition bytes_of :: "string \<Rightarrow> byte list" where "bytes_of s = map of_char s"
definition text_of :: "byte list \<Rightarrow> string" where "text_of bs = map (\<lambda>b. char_of (unat b)) bs"

fun tokenElements :: "http_strings \<Rightarrow> string list \<Rightarrow> string list \<Rightarrow> string list" where
  "tokenElements H tokenCookieNames [] = []"
| "tokenElements H tokenCookieNames (c # cookies) =
     (let cookie = trim_ws H c; rest = tokenElements H tokenCookieNames cookies in
      if cookie = [] then rest
      else if cookie \<in> set tokenCookieNames then cookie # rest
      else case find_char CHR ''='' cookie of
          None \<Rightarrow> rest
        | Some pos \<Rightarrow> (if pos \<noteq> 0 \<and> take pos cookie \<in> set tokenCookieNames then cookie # rest else rest))"

fun joinRest :: "string \<Rightarrow> string \<Rightarrow> string list \<Rightarrow> string" where
  "joinRest separator lastSeparator [] = []"
| "joinRest separator lastSeparator (v # vs) =
     (if vs \<noteq> [] then separator else lastSeparator) @ v @ joinRest separator lastSeparator vs"

fun joinFormatted :: "string list \<Rightarrow> string \<Rightarrow> string \<Rightarrow> string" where
  "joinFormatted [] separator lastSeparator = []"
| "joinFormatted (v # vs) separator lastSeparator = v @ joinRest separator lastSeparator vs"

definition br_tokenData :: "http_strings \<Rightarrow> bridge_config \<Rightarrow> http_headers_map \<Rightarrow> string" where
  "br_tokenData H cfg requestHeaders =
     (case find (\<lambda>pair. iequals H (fst pair) ''Cookie'') requestHeaders of
        None \<Rightarrow> bc_tokenDataDefault cfg
      | Some (_, value) \<Rightarrow>
          (let elements = tokenElements H (bc_tokenCookieNames cfg) (split_on H CHR '';'' value)
           in if elements = [] then bc_tokenDataDefault cfg else joinFormatted elements '';'' '';''))"

definition requestMetadata :: "http_request \<Rightarrow> http_request_metadata" where
  "requestMetadata request = \<lparr>rm_method = rq_method request, rm_urlPath = rq_uri request,
     rm_headers = fold (\<lambda>(name, value) headers. snd (emplaceHeader name value headers)) (rq_headers request) []\<rparr>"

definition requestMessage :: "('u, 'p) bridge_env \<Rightarrow> bridge_config \<Rightarrow> conversation_id \<Rightarrow> peer_id \<Rightarrow> http_request \<Rightarrow> 'u broker_protocol" where
  "requestMessage env cfg conversationId messageId request =
     (createBrokerProtocolMessage (be_uuid2string env) AsyncRpcDispatch conversationId (bc_tokenTypeDefault cfg)
        (br_tokenData (be_strings env) cfg (rq_headers request)) messageId)
       \<lparr>bp_passThroughUserData := Some (be_requestPayload env (requestMetadata request))\<rparr>"

definition prepareMessageDataBlock ::
  "('u, 'p) bridge_env \<Rightarrow> bridge_config \<Rightarrow> bridge_state \<Rightarrow> conversation_id \<Rightarrow> peer_id \<Rightarrow> http_request \<Rightarrow> unit db_op" where
  "prepareMessageDataBlock env cfg s conversationId messageId request =
     bindS (liftS (br_chkIfDisposed s))
       (\<lambda>_. bindS (if rq_body request \<noteq> []
               then bindS (db_write (bytes_of (rq_body request))) (\<lambda>_ d. db_setOffset1 (db_size d) d)
               else liftS (Inr ()))
         (\<lambda>_. db_write (js_protocol (be_json env) (requestMessage env cfg conversationId messageId request))))"

section \<open>Tasks and responses\<close>

datatype processing_task = HealthCheckTask | LocalDispatchingTask conversation_id nat

definition g_healthCheckUri :: string where "g_healthCheckUri = ''/health''"

text \<open>\<open>conversationId\<close> is the new identifier.\<close>

definition createProcessingTask ::
  "('u, 'p) bridge_env \<Rightarrow> bridge_state \<Rightarrow> (nat \<Rightarrow> byte) \<Rightarrow> nat \<Rightarrow> conversation_id \<Rightarrow> http_request
     \<Rightarrow> nat simple_pool option \<Rightarrow> block_store \<Rightarrow> (processing_task \<times> nat simple_pool option \<times> block_store) res" where
  "createProcessingTask env s junk newId conversationId request pool store =
     bindR (br_chkIfDisposed s)
       (\<lambda>_. bindR (db_get junk newId pool g_BlockCapacityDefault store)
         (\<lambda>(b, pool', store').
            if iequals (be_strings env) (rq_uri request) g_healthCheckUri then Inr (HealthCheckTask, pool', store')
            else Inr (LocalDispatchingTask conversationId b, pool', store')))"

text \<open>The tasks that a dispatching task wraps in turn.\<close>

datatype wrapped_task = PrepareMessageTask | SendMessageTask | WaitingResponse

definition ld_continuationTask :: "bool \<Rightarrow> wrapped_task \<Rightarrow> wrapped_task option" where
  "ld_continuationTask failed wrappedTask =
     (if failed \<or> wrappedTask = WaitingResponse then None
      else Some (if wrappedTask = PrepareMessageTask then SendMessageTask else WaitingResponse))"

definition responseStatus :: "int \<Rightarrow> status_code" where
  "responseStatus remoteStatusCode =
     (if remoteStatusCode \<noteq> 0 then
        (if remoteStatusCode < 100 \<or> remoteStatusCode > 599 then 502 else word_of_int remoteStatusCode)
      else 200)"

fun responseHeaders :: "http_strings \<Rightarrow> string \<Rightarrow> http_headers_map \<Rightarrow> http_headers_map \<Rightarrow> http_headers_map res" where
  "responseHeaders H contentType [] headers = Inr headers"
| "responseHeaders H contentType ((name, value) # rest) headers =
     (if iequals H name ''Content-Type'' then
        bindR (chkR (value = contentType) UnexpectedExc) (\<lambda>_. responseHeaders H contentType rest headers)
      else responseHeaders H contentType rest (snd (emplaceHeader name value headers)))"

definition responseOfMessage ::
  "('u, 'p) bridge_env \<Rightarrow> (http_headers_map \<Rightarrow> http_headers_map) \<Rightarrow> data_block \<Rightarrow> http_response res" where
  "responseOfMessage env order d =
     bindR (copyFrom 0 (unat (db_offset1 d)) (db_data d))
       (\<lambda>contentResponse. bindR (deserializeBlockToObjects (be_json env) True d)
         (\<lambda>(brokerProtocol, _). bindR (case bp_passThroughUserData brokerProtocol of
               None \<Rightarrow> Inr None | Some userData \<Rightarrow> be_responsePayload env userData)
           (\<lambda>metadata. case metadata of
              None \<Rightarrow> new_response (be_strings env) order 200 (text_of contentResponse) g_contentTypeDefault []
            | Some responseMetadata \<Rightarrow>
                bindR (responseHeaders (be_strings env) (pm_contentType responseMetadata) (pm_headers responseMetadata) [])
                  (\<lambda>headers. new_response (be_strings env) order (responseStatus (pm_httpStatusCode responseMetadata))
                      (text_of contentResponse) (pm_contentType responseMetadata) headers))))"

definition getHttpResponse ::
  "('u, 'p) bridge_env \<Rightarrow> (http_headers_map \<Rightarrow> http_headers_map) \<Rightarrow> processing_task \<Rightarrow> int \<Rightarrow> bridge_state
     \<Rightarrow> http_response res \<times> callback_calls \<times> bridge_state" where
  "getHttpResponse env order task now s =
     (case br_chkIfDisposed s of
        Inl e \<Rightarrow> (Inl e, [], s)
      | Inr _ \<Rightarrow> (case task of
            HealthCheckTask \<Rightarrow> (Inr (stock_response order 200), [], s)
          | LocalDispatchingTask conversationId _ \<Rightarrow>
              (case closeRequest conversationId now s of
                 (None, calls, s1) \<Rightarrow> (Inl UnexpectedExc, calls, s1)
               | (Some dataBlock, calls, s1) \<Rightarrow> (responseOfMessage env order dataBlock, calls, s1))))"

section \<open>The bridge\<close>

definition bridge_chkIfDisposed :: "bridge_state \<Rightarrow> unit res" where
  "bridge_chkIfDisposed s = chkR (\<not> br_bridgeDisposed s) UnexpectedExc"

definition bridge_dispose :: "bridge_state \<Rightarrow> callback_calls \<times> bridge_state" where
  "bridge_dispose s =
     (if br_bridgeDisposed s then ([], s)
      else let (calls, s1) = br_dispose (s\<lparr>br_hostConnected := False\<rparr>) in (calls, s1\<lparr>br_bridgeDisposed := True\<rparr>))"

definition getProcessingTask ::
  "('u, 'p) bridge_env \<Rightarrow> bridge_state \<Rightarrow> (nat \<Rightarrow> byte) \<Rightarrow> nat \<Rightarrow> conversation_id \<Rightarrow> http_request
     \<Rightarrow> nat simple_pool option \<Rightarrow> block_store \<Rightarrow> (processing_task \<times> nat simple_pool option \<times> block_store) res" where
  "getProcessingTask env s junk newId conversationId request pool store =
     bindR (bridge_chkIfDisposed s) (\<lambda>_. createProcessingTask env s junk newId conversationId request pool store)"

definition getResponse ::
  "('u, 'p) bridge_env \<Rightarrow> (http_headers_map \<Rightarrow> http_headers_map) \<Rightarrow> processing_task \<Rightarrow> int \<Rightarrow> bridge_state
     \<Rightarrow> http_response res \<times> callback_calls \<times> bridge_state" where
  "getResponse env order task now s =
     (case bridge_chkIfDisposed s of Inl e \<Rightarrow> (Inl e, [], s) | Inr _ \<Rightarrow> getHttpResponse env order task now s)"

text \<open>A message for the bridge is copied into a block of its own, which a task processes.\<close>

definition createDispatchTask ::
  "bridge_config \<Rightarrow> peer_id \<Rightarrow> (nat \<Rightarrow> byte) \<Rightarrow> nat \<Rightarrow> nat \<Rightarrow> nat simple_pool option \<Rightarrow> block_store
     \<Rightarrow> (nat \<times> nat simple_pool option \<times> block_store) res" where
  "createDispatchTask cfg targetPeerId junk newId block pool store =
     bindR (chkR (bc_sourcePeerId cfg = targetPeerId) AssertFailed) (\<lambda>_. db_copy junk newId block pool store)"

end
