(* ===== verification/BridgeSystem.thy ===== *)
theory BridgeSystem
  imports Bridge DataBlockProps
begin

text \<open>
  The bridge with its surroundings as a step relation: requests, the wrapped tasks of each of them, the
  messages that arrive, both timers, cancellation, disposal, and the calls of callbacks, which happen
  some time after the lock is released.  A conversation is named by its id; \<open>bs_calls\<close> are the calls
  still to be made, \<open>bs_called\<close> those made, \<open>bs_incoming\<close> the blocks that arrived.
\<close>

datatype request_phase = Running wrapped_task http_request data_block | Waiting | Ended bool

record bridge_system =
  bs_bridge :: bridge_state
  bs_phase :: "conversation_id \<rightharpoonup> request_phase"
  bs_known :: "conversation_id set"
  bs_calls :: callback_calls
  bs_called :: callback_calls
  bs_cancelling :: "conversation_id list"
  bs_incoming :: "data_block list"
  bs_responses :: "(conversation_id \<times> http_response) list"

datatype bridge_action =
    BRequest conversation_id http_request data_block
  | BPrepare conversation_id peer_id
  | BSend conversation_id bool
  | BRegister conversation_id bool int
  | BCancel conversation_id
  | BCancelTake
  | BCancelNext int
  | BTimer bool "nat \<Rightarrow> int"
  | BIncoming data_block int
  | BCall nat
  | BRespond conversation_id "http_headers_map \<Rightarrow> http_headers_map" int
  | BDestroy conversation_id int
  | BDispose

text \<open>A wrapped task has ended.\<close>

definition nextPhase :: "bool \<Rightarrow> wrapped_task \<Rightarrow> http_request \<Rightarrow> data_block \<Rightarrow> request_phase" where
  "nextPhase failed wrapped request d =
     (case ld_continuationTask failed wrapped of None \<Rightarrow> Ended (\<not> failed) | Some t \<Rightarrow> Running t request d)"

definition bridge_enabled :: "bridge_system \<Rightarrow> bridge_action \<Rightarrow> bool" where
  "bridge_enabled s a = (case a of
     BRequest c request d \<Rightarrow> c \<notin> bs_known s \<and> wf_block d
   | BPrepare c messageId \<Rightarrow> (\<exists>request d. bs_phase s c = Some (Running PrepareMessageTask request d))
   | BSend c ok \<Rightarrow> (\<exists>request d. bs_phase s c = Some (Running SendMessageTask request d))
   | BRegister c cancelled now \<Rightarrow> (\<exists>request d. bs_phase s c = Some (Running WaitingResponse request d))
   | BCancel c \<Rightarrow> bs_phase s c = Some Waiting
   | BCancelNext now \<Rightarrow> bs_cancelling s \<noteq> []
   | BIncoming d now \<Rightarrow> wf_block d
   | BCall i \<Rightarrow> i < length (bs_calls s)
   | BRespond c order now \<Rightarrow> bs_phase s c = Some (Ended True)
   | BDestroy c now \<Rightarrow> (\<exists>ok. bs_phase s c = Some (Ended ok))
   | _ \<Rightarrow> True)"

definition withCalls :: "callback_calls \<Rightarrow> bridge_state \<Rightarrow> bridge_system \<Rightarrow> bridge_system" where
  "withCalls calls b s = s\<lparr>bs_bridge := b, bs_calls := bs_calls s @ calls\<rparr>"

definition setPhase :: "conversation_id \<Rightarrow> request_phase \<Rightarrow> bridge_system \<Rightarrow> bridge_system" where
  "setPhase c p s = s\<lparr>bs_phase := (bs_phase s)(c \<mapsto> p)\<rparr>"

fun bridge_act :: "('u, 'p) bridge_env \<Rightarrow> bridge_config \<Rightarrow> bridge_system \<Rightarrow> bridge_action \<Rightarrow> bridge_system" where
  "bridge_act env cfg s (BRequest c request d) =
     (let s1 = s\<lparr>bs_known := insert c (bs_known s)\<rparr> in
      case bindR (bridge_chkIfDisposed (bs_bridge s)) (\<lambda>_. br_chkIfDisposed (bs_bridge s)) of
        Inl e \<Rightarrow> s1 | Inr _ \<Rightarrow> setPhase c (Running PrepareMessageTask request d) s1)"
| "bridge_act env cfg s (BPrepare c messageId) =
     (case bs_phase s c of
        Some (Running w request d) \<Rightarrow>
          (case prepareMessageDataBlock env cfg (bs_bridge s) c messageId request d of
             (Inl e, d1) \<Rightarrow> setPhase c (nextPhase True w request d1) s
           | (Inr _, d1) \<Rightarrow> setPhase c (nextPhase False w request d1) s)
      | _ \<Rightarrow> s)"
| "bridge_act env cfg s (BSend c ok) =
     (case bs_phase s c of
        Some (Running w request d) \<Rightarrow> setPhase c (nextPhase (\<not> ok) w request d) s
      | _ \<Rightarrow> s)"
| "bridge_act env cfg s (BRegister c cancelled now) =
     (if cancelled then setPhase c (Ended False) s
      else case registerRequest c c now (bs_bridge s) of
        (Inl e, b) \<Rightarrow> setPhase c (Ended False) s
      | (Inr scheduled, b) \<Rightarrow> setPhase c (if scheduled then Waiting else Ended True) (s\<lparr>bs_bridge := b\<rparr>))"
| "bridge_act env cfg s (BCancel c) = s\<lparr>bs_bridge := scheduleForCancel c (bs_bridge s)\<rparr>"
| "bridge_act env cfg s BCancelTake =
     (let (cs, b) = takeScheduledForCancel (bs_bridge s) in s\<lparr>bs_bridge := b, bs_cancelling := bs_cancelling s @ cs\<rparr>)"
| "bridge_act env cfg s (BCancelNext now) =
     (let (_, calls, b) = completeRequest (hd (bs_cancelling s)) None False now (bs_bridge s)
      in withCalls calls b (s\<lparr>bs_cancelling := tl (bs_cancelling s)\<rparr>))"
| "bridge_act env cfg s (BTimer connected clock) =
     (let (calls, b) = br_onTimer cfg connected clock (bs_bridge s) in withCalls calls b s)"
| "bridge_act env cfg s (BIncoming d now) =
     (let (_, calls, b) = processIncomingMessage env cfg d now (bs_bridge s)
      in withCalls calls b (s\<lparr>bs_incoming := bs_incoming s @ [d]\<rparr>))"
| "bridge_act env cfg s (BCall i) =
     (let (c, ok) = bs_calls s ! i
      in setPhase c (Ended ok) (s\<lparr>bs_calls := take i (bs_calls s) @ drop (Suc i) (bs_calls s), bs_called := bs_called s @ [(c, ok)]\<rparr>))"
| "bridge_act env cfg s (BRespond c order now) =
     (let (r, calls, b) = getResponse env order (LocalDispatchingTask c 0) now (bs_bridge s);
          s1 = withCalls calls b s
      in case r of Inl e \<Rightarrow> s1 | Inr response \<Rightarrow> s1\<lparr>bs_responses := bs_responses s @ [(c, response)]\<rparr>)"
| "bridge_act env cfg s (BDestroy c now) =
     (let (_, calls, b) = closeRequest c now (bs_bridge s)
      in withCalls calls b (s\<lparr>bs_phase := (bs_phase s)(c := None)\<rparr>))"
| "bridge_act env cfg s BDispose = (let (calls, b) = bridge_dispose (bs_bridge s) in withCalls calls b s)"

definition bridge_start :: bridge_system where
  "bridge_start = \<lparr>bs_bridge = new_bridge, bs_phase = Map.empty, bs_known = {}, bs_calls = [], bs_called = [],
     bs_cancelling = [], bs_incoming = [], bs_responses = []\<rparr>"

inductive bridge_reach :: "('u, 'p) bridge_env \<Rightarrow> bridge_config \<Rightarrow> bridge_system \<Rightarrow> bool" for env cfg where
  start: "bridge_reach env cfg bridge_start"
| step: "bridge_reach env cfg s \<Longrightarrow> bridge_enabled s a \<Longrightarrow> bridge_reach env cfg (bridge_act env cfg s a)"

section \<open>The table of requests\<close>

text \<open>A conversation waits in the table; the block it got.\<close>

definition waits :: "requests_map \<Rightarrow> conversation_id \<Rightarrow> bool" where
  "waits t c \<longleftrightarrow> (\<exists>info. map_of t c = Some info \<and> in_callback info \<noteq> None)"

definition got :: "requests_map \<Rightarrow> conversation_id \<Rightarrow> data_block \<Rightarrow> bool" where
  "got t c d \<longleftrightarrow> (\<exists>info. map_of t c = Some info \<and> in_response info = Some d)"

definition unregistered :: "requests_map \<Rightarrow> conversation_id set" where
  "unregistered t = {c. \<exists>info. map_of t c = Some info \<and> \<not> in_isRegistered info}"

definition table_ok :: "requests_map \<Rightarrow> bool" where
  "table_ok t \<longleftrightarrow> distinct (map fst t) \<and> card (unregistered t) \<le> MAX_REQUESTS_IN_FLIGHT
     \<and> (\<forall>c info. map_of t c = Some info \<longrightarrow> (\<forall>k. in_callback info = Some k \<longrightarrow> k = c \<and> in_isRegistered info))"

text \<open>A critical section takes callbacks out of the table, for the calls that follow it.\<close>

definition drains :: "(conversation_id \<Rightarrow> data_block \<Rightarrow> bool) \<Rightarrow> requests_map \<Rightarrow> requests_map \<Rightarrow> callback_calls \<Rightarrow> bool" where
  "drains source t t' calls \<longleftrightarrow> table_ok t' \<and> distinct (map fst calls)
     \<and> (\<forall>c. waits t' c \<longrightarrow> waits t c) \<and> (\<forall>c. c \<in> fst ` set calls \<longleftrightarrow> waits t c \<and> \<not> waits t' c)
     \<and> (\<forall>c d. got t' c d \<longrightarrow> got t c d \<or> source c d)"

lemma finite_unregistered: "finite (unregistered t)"
  by (rule finite_subset [OF _ finite_dom_map_of [of t]]) (auto simp: unregistered_def)

lemma card_unregistered: "card (unregistered t) \<le> length t"
proof -
  have "unregistered t \<subseteq> fst ` set t" by (auto simp: unregistered_def dest!: map_of_SomeD intro: rev_image_eqI)
  then have "card (unregistered t) \<le> card (fst ` set t)" by (simp add: card_mono)
  also have "\<dots> \<le> length t" by (metis card_image_le card_length le_trans List.finite_set)
  finally show ?thesis .
qed

lemma drains_refl: "table_ok t \<Longrightarrow> drains source t t []"
  by (simp add: drains_def)

end
