(* ===== verification/BridgeTable.thy ===== *)
theory BridgeTable
  imports BridgeSystem
begin

text \<open>The effect of every critical section on the table of requests.\<close>

lemma length_table_update: "length (AList.update k v al) \<le> Suc (length al)"
  by (induction al) auto

lemma drains_complete:
  assumes "completeRequestInternal discard c d ok ignore now s = (r, calls, s')" "table_ok (br_requestsInFlight s)"
    "br_isDisposed s \<longrightarrow> br_requestsInFlight s = []"
  shows "\<exists>t. s' = s\<lparr>br_requestsInFlight := t\<rparr> \<and> drains (\<lambda>k x. k = c \<and> d = Some x) (br_requestsInFlight s) t calls
    \<and> (br_isDisposed s \<longrightarrow> t = []) \<and> (\<forall>x. r = Inr (Some x) \<longrightarrow> got (br_requestsInFlight s) c x)
    \<and> (\<forall>k \<in> set calls. k = (c, ok)) \<and> (\<forall>k. k \<noteq> c \<longrightarrow> map_of t k = map_of (br_requestsInFlight s) k) \<and> \<not> waits t c"
proof -
  let ?t = "br_requestsInFlight s"
  consider (skip) "br_isDisposed s \<or> \<not> br_isDisposed s \<and> length ?t \<ge> MAX_REQUESTS_IN_FLIGHT \<and> map_of ?t c = None"
    | (run) "\<not> br_isDisposed s" "length ?t < MAX_REQUESTS_IN_FLIGHT \<or> map_of ?t c \<noteq> None" by fastforce
  then show ?thesis
  proof cases
    case skip
    then have "s' = s" "calls = []" "\<forall>x. r \<noteq> Inr (Some x)"
      using assms(1) by (auto simp: completeRequestInternal_def br_chkIfDisposed_def Let_def split: if_splits)
    moreover have "\<not> waits ?t c" using skip assms(3) by (auto simp: waits_def)
    ultimately show ?thesis using drains_refl [OF assms(2)] assms(3) by (auto intro!: exI [of _ ?t])
  next
    case run
    define info where "info = (case map_of ?t c of Some info \<Rightarrow> info | None \<Rightarrow> new_request_info\<lparr>in_utcRegisteredAt := now\<rparr>)"
    define t where "t = (if discard then AList.delete c ?t
      else AList.update c (info\<lparr>in_response := d, in_callback := None\<rparr>) ?t)"
    have res: "r = Inr (in_response info)" "calls = (case in_callback info of None \<Rightarrow> [] | Some k \<Rightarrow> [(k, ok)])"
      "s' = s\<lparr>br_requestsInFlight := t\<rparr>"
      using assms(1) run by (auto simp: completeRequestInternal_def br_chkIfDisposed_def Let_def info_def t_def split: if_splits)
    have t: "map_of t = (map_of ?t)(c := if discard then None else Some (info\<lparr>in_response := d, in_callback := None\<rparr>))"
      by (simp add: t_def AList.delete_conv' AList.update_conv')
    have w: "waits t k \<longleftrightarrow> waits ?t k \<and> k \<noteq> c" for k by (auto simp: waits_def t)
    have own: "in_callback info = (if waits ?t c then Some c else None)"
    proof (cases "map_of ?t c")
      case (Some i)
      then show ?thesis using assms(2) by (cases "in_callback i") (simp_all add: table_ok_def waits_def info_def)
    qed (simp add: waits_def info_def new_request_info_def)
    have "distinct (map fst t)"
      using assms(2) by (simp add: t_def table_ok_def AList.distinct_update AList.distinct_delete)
    moreover have "card (unregistered t) \<le> MAX_REQUESTS_IN_FLIGHT"
    proof (cases "map_of ?t c = None \<and> \<not> discard")
      case True
      then have "length t \<le> Suc (length ?t)" "length ?t < MAX_REQUESTS_IN_FLIGHT"
        using run length_table_update by (auto simp: t_def)
      then show ?thesis using card_unregistered [of t] by linarith
    next
      case False
      then have "unregistered t \<subseteq> unregistered ?t" by (auto simp: unregistered_def t info_def split: if_splits)
      then have "card (unregistered t) \<le> card (unregistered ?t)" by (rule card_mono [OF finite_unregistered])
      also have "\<dots> \<le> MAX_REQUESTS_IN_FLIGHT" using assms(2) unfolding table_ok_def by blast
      finally show ?thesis .
    qed
    moreover have "in_callback info' = Some k \<Longrightarrow> k = c' \<and> in_isRegistered info'" if "map_of t c' = Some info'" for c' info' k
      using that assms(2) by (auto simp: t table_ok_def split: if_splits)
    ultimately have "table_ok t" by (simp add: table_ok_def)
    then have "drains (\<lambda>k x. k = c \<and> d = Some x) ?t t calls"
      using own by (auto simp: drains_def w res(2) got_def t split: if_splits)
    moreover have "got ?t c x" if "r = Inr (Some x)" for x
      using that res(1) by (auto simp: got_def info_def new_request_info_def split: option.splits)
    moreover have "\<forall>k \<in> set calls. k = (c, ok)" using own by (auto simp: res(2) split: if_splits)
    ultimately show ?thesis using res(3) run(1) w [of c] t by (auto intro!: exI [of _ t])
  qed
qed

lemma drains_completeRequest:
  assumes "completeRequest c d ok now s = (r, calls, s')" "table_ok (br_requestsInFlight s)"
    "br_isDisposed s \<longrightarrow> br_requestsInFlight s = []"
  shows "\<exists>t. s' = s\<lparr>br_requestsInFlight := t\<rparr> \<and> drains (\<lambda>k x. k = c \<and> d = Some x) (br_requestsInFlight s) t calls
    \<and> (br_isDisposed s \<longrightarrow> t = [])"
proof -
  obtain r1 where "completeRequestInternal False c d ok True now s = (r1, calls, s')"
    using assms(1) by (auto simp: completeRequest_def split: prod.splits sum.splits)
  from drains_complete [OF this assms(2,3)] show ?thesis by blast
qed

lemma drains_close:
  assumes "closeRequest c now s = (r, calls, s')" "table_ok (br_requestsInFlight s)"
    "br_isDisposed s \<longrightarrow> br_requestsInFlight s = []"
  shows "\<exists>t. s' = s\<lparr>br_requestsInFlight := t\<rparr> \<and> drains (\<lambda>k x. False) (br_requestsInFlight s) t calls
    \<and> (br_isDisposed s \<longrightarrow> t = []) \<and> (\<forall>x. r = Some x \<longrightarrow> got (br_requestsInFlight s) c x)"
proof -
  obtain r1 where r1: "completeRequestInternal True c None False True now s = (r1, calls, s')"
    "r = (case r1 of Inl e \<Rightarrow> None | Inr x \<Rightarrow> x)"
    using assms(1) by (auto simp: closeRequest_def split: prod.splits sum.splits)
  from drains_complete [OF this(1) assms(2,3)] r1(2) show ?thesis by (auto split: sum.splits)
qed

lemma cancel_calls:
  assumes "distinct (map fst es)" "\<forall>c info k. (c, info) \<in> set es \<longrightarrow> in_callback info = Some k \<longrightarrow> k = c"
  shows "distinct (map fst (cancelRequestsNoThrow es)) \<and> fst ` set (cancelRequestsNoThrow es) = {c. waits es c}
    \<and> (\<forall>k \<in> set (cancelRequestsNoThrow es). \<not> snd k)"
  using assms
proof (induction es)
  case Nil
  then show ?case by (simp add: cancelRequestsNoThrow_def waits_def)
next
  case (Cons e es)
  obtain c info where e: "e = (c, info)" by (cases e)
  have w: "waits (e # es) k \<longleftrightarrow> (if k = c then in_callback info \<noteq> None else waits es k)" for k
    by (auto simp: waits_def e)
  have "c \<notin> fst ` set es" using Cons.prems(1) e by simp
  then have n: "\<not> waits es c" by (auto simp: waits_def dest!: map_of_SomeD intro: rev_image_eqI)
  have ih: "distinct (map fst (cancelRequestsNoThrow es))" "fst ` set (cancelRequestsNoThrow es) = {c. waits es c}"
    "\<forall>k \<in> set (cancelRequestsNoThrow es). \<not> snd k" using Cons by (simp_all add: e)
  show ?case
  proof (cases "in_callback info")
    case None
    then have "cancelRequestsNoThrow (e # es) = cancelRequestsNoThrow es" by (simp add: cancelRequestsNoThrow_def e)
    moreover have "{k. waits (e # es) k} = {k. waits es k}" using w n None by auto
    ultimately show ?thesis using ih by simp
  next
    case (Some k)
    then have k: "k = c" using Cons.prems(2) e by auto
    then have "cancelRequestsNoThrow (e # es) = (c, False) # cancelRequestsNoThrow es"
      using Some by (simp add: cancelRequestsNoThrow_def e)
    moreover have "{k. waits (e # es) k} = insert c {k. waits es k}" using w Some by auto
    ultimately show ?thesis using ih n by auto
  qed
qed

lemma expired_spec:
  "(\<forall>i < length t. t ! i \<in> set (expiredLoop cfg clock t) \<or> \<not> isExpired cfg (clock i) (snd (t ! i)))
    \<and> set (expiredLoop cfg clock t) \<subseteq> set t \<and> (distinct (map fst t) \<longrightarrow> distinct (map fst (expiredLoop cfg clock t)))"
proof (induction t arbitrary: clock)
  case (Cons e t)
  obtain c info where e: "e = (c, info)" by (cases e)
  let ?r = "expiredLoop cfg (\<lambda>k. clock (Suc k)) t"
  have ih: "\<forall>i < length t. t ! i \<in> set ?r \<or> \<not> isExpired cfg (clock (Suc i)) (snd (t ! i))" "set ?r \<subseteq> set t"
    "distinct (map fst t) \<longrightarrow> distinct (map fst ?r)" using Cons [of "\<lambda>k. clock (Suc k)"] by simp_all
  have "(e # t) ! i \<in> set (expiredLoop cfg clock (e # t)) \<or> \<not> isExpired cfg (clock i) (snd ((e # t) ! i))"
    if "i < length (e # t)" for i
    using that ih(1) by (cases i) (auto simp: e Let_def)
  moreover have "fst ` set ?r \<subseteq> fst ` set t" using ih(2) by blast
  ultimately show ?case using ih by (auto simp: e Let_def)
qed simp

lemma map_of_deletes:
  "map_of (fold (\<lambda>(c, _). AList.delete c) es t) k = (if k \<in> fst ` set es then None else map_of t k)"
  by (induction es arbitrary: t) (auto simp: AList.delete_conv')

lemma distinct_deletes: "distinct (map fst t) \<Longrightarrow> distinct (map fst (fold (\<lambda>(c, _). AList.delete c) es t))"
  by (induction es arbitrary: t) (auto simp: AList.distinct_delete)

lemma drains_timer:
  assumes "br_onTimer cfg connected clock s = (calls, s')" "table_ok (br_requestsInFlight s)"
    "br_isDisposed s \<longrightarrow> br_requestsInFlight s = []"
  shows "\<exists>t n. s' = s\<lparr>br_requestsInFlight := t, br_cancelsServer := n\<rparr> \<and> drains (\<lambda>k x. False) (br_requestsInFlight s) t calls
    \<and> (br_isDisposed s \<longrightarrow> t = []) \<and> (\<forall>k \<in> set calls. \<not> snd k)
    \<and> (\<forall>c info. map_of t c = Some info \<longrightarrow> map_of (br_requestsInFlight s) c = Some info
        \<and> (\<exists>i < length (br_requestsInFlight s). \<not> isExpired cfg (clock i) info))"
proof -
  let ?t = "br_requestsInFlight s"
  define es where "es = expiredLoop cfg clock ?t"
  define t where "t = fold (\<lambda>(c, _). AList.delete c) es ?t"
  have s1: "calls = cancelRequestsNoThrow es" "s' = s\<lparr>br_requestsInFlight := t, br_cancelsServer := br_cancelsServer s'\<rparr>"
    using assms(1) by (auto simp: br_onTimer_def getExpiredRequestsInternal_def Let_def es_def t_def split: if_splits)
  then have s': "calls = cancelRequestsNoThrow es" "\<exists>n. s' = s\<lparr>br_requestsInFlight := t, br_cancelsServer := n\<rparr>" by blast+
  have d: "distinct (map fst ?t)" using assms(2) by (simp add: table_ok_def)
  have es: "\<forall>i < length ?t. ?t ! i \<in> set es \<or> \<not> isExpired cfg (clock i) (snd (?t ! i))" "set es \<subseteq> set ?t" "distinct (map fst es)"
    using expired_spec [of ?t cfg clock] d by (simp_all add: es_def)
  have sub: "map_of es c = Some info \<Longrightarrow> map_of ?t c = Some info" for c info
    by (rule map_of_is_SomeI [OF d]) (use es(2) map_of_SomeD in fast)
  have t: "map_of t k = (if k \<in> fst ` set es then None else map_of ?t k)" for k by (simp add: t_def map_of_deletes)
  have in_es: "map_of es k = (if k \<in> fst ` set es then map_of ?t k else None)" for k
  proof (cases "map_of es k")
    case None
    then show ?thesis by (simp add: map_of_eq_None_iff)
  next
    case (Some info)
    then have "k \<in> fst ` set es" by (metis map_of_eq_None_iff option.distinct(1))
    then show ?thesis using Some sub [OF Some] by simp
  qed
  have wes: "waits es k \<longleftrightarrow> waits ?t k \<and> k \<in> fst ` set es" for k by (auto simp: waits_def in_es)
  have wt: "waits t k \<longleftrightarrow> waits ?t k \<and> k \<notin> fst ` set es" for k by (auto simp: waits_def t)
  have own: "\<forall>c info k. (c, info) \<in> set es \<longrightarrow> in_callback info = Some k \<longrightarrow> k = c"
  proof (intro allI impI)
    fix c info k
    assume "(c, info) \<in> set es" "in_callback info = Some k"
    moreover then have "map_of ?t c = Some info" using es(2) map_of_is_SomeI [OF d] by blast
    ultimately show "k = c" using assms(2) unfolding table_ok_def by blast
  qed
  note c = cancel_calls [OF es(3) own]
  have "unregistered t \<subseteq> unregistered ?t" by (auto simp: unregistered_def t split: if_splits)
  then have "card (unregistered t) \<le> card (unregistered ?t)" by (rule card_mono [OF finite_unregistered])
  also have "\<dots> \<le> MAX_REQUESTS_IN_FLIGHT" using assms(2) unfolding table_ok_def by blast
  finally have "card (unregistered t) \<le> MAX_REQUESTS_IN_FLIGHT" .
  moreover have "distinct (map fst t)" unfolding t_def by (rule distinct_deletes [OF d])
  moreover have "\<forall>c info. map_of t c = Some info \<longrightarrow> map_of ?t c = Some info" by (simp add: t)
  ultimately have ok: "table_ok t" using assms(2) unfolding table_ok_def by blast
  have drained: "c \<in> fst ` set calls \<longleftrightarrow> waits ?t c \<and> \<not> waits t c" for c
    using c unfolding s'(1) by (simp add: wes wt) blast
  have kept: "got t c d \<Longrightarrow> got ?t c d" for c d by (simp add: got_def t split: if_splits)
  have dist: "distinct (map fst calls)" using c s'(1) by blast
  have "drains (\<lambda>k x. False) ?t t calls"
    unfolding drains_def
  proof (intro conjI allI)
    show "waits t c \<longrightarrow> waits ?t c" for c by (simp add: wt)
    show "got t c d \<longrightarrow> got ?t c d \<or> False" for c d using kept by blast
  qed (rule ok dist drained)+
  moreover have "map_of ?t c = Some info \<and> (\<exists>i < length ?t. \<not> isExpired cfg (clock i) info)" if "map_of t c = Some info" for c info
  proof -
    have m: "map_of ?t c = Some info" "c \<notin> fst ` set es" using that by (auto simp: t split: if_splits)
    then obtain i where "i < length ?t" "?t ! i = (c, info)" by (metis in_set_conv_nth map_of_SomeD)
    moreover have "(c, info) \<notin> set es" using m(2) by force
    ultimately show ?thesis using es(1) m(1) by force
  qed
  moreover have "br_isDisposed s \<longrightarrow> t = []"
  proof
    assume "br_isDisposed s"
    then have "?t = []" using assms(3) by simp
    then show "t = []" by (simp add: t_def es_def)
  qed
  ultimately show ?thesis using s' c by blast
qed

lemma drains_dispose:
  assumes "bridge_dispose s = (calls, s')" "table_ok (br_requestsInFlight s)"
    "br_isDisposed s \<longrightarrow> br_requestsInFlight s = []" "br_bridgeDisposed s \<longrightarrow> br_isDisposed s"
  shows "drains (\<lambda>k x. False) (br_requestsInFlight s) [] calls \<and> br_requestsInFlight s' = [] \<and> br_isDisposed s'
    \<and> br_bridgeDisposed s' \<and> (\<forall>k \<in> set calls. \<not> snd k)"
proof -
  let ?t = "br_requestsInFlight s"
  have e: "table_ok []" by (simp add: table_ok_def unregistered_def)
  have d: "distinct (map fst ?t)" using assms(2) by (simp add: table_ok_def)
  have own: "\<forall>c info k. (c, info) \<in> set ?t \<longrightarrow> in_callback info = Some k \<longrightarrow> k = c"
    using assms(2) d unfolding table_ok_def by (metis map_of_is_SomeI)
  have "drains (\<lambda>k x. False) ?t [] (cancelRequestsNoThrow ?t)"
    using cancel_calls [OF d own] e by (auto simp: drains_def waits_def got_def)
  moreover have "drains (\<lambda>k x. False) [] [] []" using drains_refl [OF e] .
  ultimately show ?thesis using assms(1,3,4) cancel_calls [OF d own]
    by (auto simp: bridge_dispose_def br_dispose_def getRequestsToDisposeInternal_def Let_def cancelRequestsNoThrow_def split: if_splits)
qed

lemma register_table:
  assumes "registerRequest c c now s = (r, s')" "table_ok (br_requestsInFlight s)"
  shows "r = Inl UnexpectedExc \<and> s' = s \<and> br_isDisposed s
    \<or> r = Inr False \<and> s' = s \<and> \<not> br_isDisposed s
    \<or> r = Inr True \<and> \<not> br_isDisposed s \<and> (\<exists>t. s' = s\<lparr>br_requestsInFlight := t\<rparr> \<and> table_ok t
        \<and> (\<forall>k. waits t k \<longleftrightarrow> waits (br_requestsInFlight s) k \<or> k = c) \<and> (\<forall>k d. got t k d \<longrightarrow> got (br_requestsInFlight s) k d))"
proof -
  let ?t = "br_requestsInFlight s"
  define info where "info = new_request_info\<lparr>in_callback := Some c, in_utcRegisteredAt := now, in_isRegistered := True\<rparr>"
  consider "r = Inl UnexpectedExc" "s' = s" "br_isDisposed s" | "r = Inr False" "s' = s" "\<not> br_isDisposed s"
    | "r = Inr True" "\<not> br_isDisposed s" "map_of ?t c = None" "s' = s\<lparr>br_requestsInFlight := AList.update c info ?t\<rparr>"
    using assms(1) by (auto simp: registerRequest_def br_chkIfDisposed_def chkR_def info_def split: if_splits sum.splits)
  then show ?thesis
  proof cases
    case 3
    let ?u = "AList.update c info ?t"
    have u: "map_of ?u = (map_of ?t)(c \<mapsto> info)" by (simp add: AList.update_conv')
    have i: "in_isRegistered info" "in_callback info = Some c" "in_response info = None" by (simp_all add: info_def new_request_info_def)
    have "unregistered ?u = unregistered ?t" using 3(3) i(1) by (auto simp: unregistered_def u)
    then have "table_ok ?u" using assms(2) i by (auto simp: table_ok_def AList.distinct_update u)
    moreover have "waits ?u k \<longleftrightarrow> waits ?t k \<or> k = c" for k using i(2) by (auto simp: waits_def u)
    moreover have "got ?u k d \<Longrightarrow> got ?t k d" for k d using i(3) by (auto simp: got_def u split: if_splits)
    ultimately show ?thesis using 3 by blast
  qed simp_all
qed

end
