(* ===== verification/BridgeReach.thy ===== *)
theory BridgeReach
  imports BridgeTable
begin

text \<open>The invariant of the bridge with its surroundings, kept by every action.\<close>

text \<open>A block that answers a conversation: a message with its id from an accepted sender.\<close>

definition answers :: "('u, 'p) bridge_env \<Rightarrow> bridge_config \<Rightarrow> conversation_id \<Rightarrow> data_block \<Rightarrow> bool" where
  "answers env cfg c d \<longleftrightarrow> wf_block d \<and> (\<exists>m. deserializeBlockToObjects (be_json env) True d = Inr (m, None)
     \<and> be_string2uuid env (bp_conversationId m) = Inr c \<and> isAccepted env cfg m)"

definition bridge_ok :: "bridge_state \<Rightarrow> bool" where
  "bridge_ok b \<longleftrightarrow> table_ok (br_requestsInFlight b) \<and> (br_isDisposed b \<longrightarrow> br_requestsInFlight b = [])
     \<and> (br_bridgeDisposed b \<longrightarrow> br_isDisposed b)"

text \<open>A request waits exactly when its callback is in the table or about to be called, not both.\<close>

definition callbacks_ok :: "bridge_system \<Rightarrow> bool" where
  "callbacks_ok s \<longleftrightarrow> (let t = br_requestsInFlight (bs_bridge s) in
     (\<forall>c. bs_phase s c = Some Waiting \<longleftrightarrow> waits t c \<or> c \<in> fst ` set (bs_calls s))
     \<and> distinct (map fst (bs_calls s)) \<and> (\<forall>c \<in> fst ` set (bs_calls s). \<not> waits t c))"

definition history_ok :: "bridge_system \<Rightarrow> bool" where
  "history_ok s \<longleftrightarrow> distinct (map fst (bs_called s)) \<and> dom (bs_phase s) \<subseteq> bs_known s \<and> fst ` set (bs_called s) \<subseteq> bs_known s
     \<and> (\<forall>c \<in> fst ` set (bs_called s). bs_phase s c = None \<or> (\<exists>ok. bs_phase s c = Some (Ended ok)))"

definition answers_ok :: "('u, 'p) bridge_env \<Rightarrow> bridge_config \<Rightarrow> bridge_system \<Rightarrow> bool" where
  "answers_ok env cfg s \<longleftrightarrow>
     (\<forall>c d. got (br_requestsInFlight (bs_bridge s)) c d \<longrightarrow> d \<in> set (bs_incoming s) \<and> answers env cfg c d)
     \<and> (\<forall>(c, r) \<in> set (bs_responses s). \<exists>d \<in> set (bs_incoming s). answers env cfg c d
          \<and> (\<exists>order. responseOfMessage env order d = Inr r))"

definition bridge_inv :: "('u, 'p) bridge_env \<Rightarrow> bridge_config \<Rightarrow> bridge_system \<Rightarrow> bool" where
  "bridge_inv env cfg s \<longleftrightarrow> bridge_ok (bs_bridge s) \<and> callbacks_ok s \<and> history_ok s \<and> answers_ok env cfg s"

lemma bridge_start_inv: "bridge_inv env cfg bridge_start"
  by (simp add: bridge_inv_def bridge_ok_def callbacks_ok_def history_ok_def answers_ok_def bridge_start_def new_bridge_def
      table_ok_def unregistered_def waits_def got_def)

section \<open>Critical sections that take callbacks out\<close>

lemma withCalls_simps [simp]:
  "bs_bridge (withCalls calls b s) = b" "bs_phase (withCalls calls b s) = bs_phase s"
  by (simp_all add: withCalls_def)

lemma drains_mono:
  assumes "drains source t t' calls" "\<And>c d. source c d \<Longrightarrow> source' c d"
  shows "drains source' t t' calls"
proof -
  have "\<forall>c d. got t' c d \<longrightarrow> got t c d \<or> source' c d" using assms unfolding drains_def by fast
  then show ?thesis using assms(1) unfolding drains_def by (elim conjE) (intro conjI; assumption)
qed

lemma inv_drain:
  assumes "bridge_inv env cfg s" "drains source (br_requestsInFlight (bs_bridge s)) (br_requestsInFlight b) calls"
    "br_isDisposed b \<longrightarrow> br_requestsInFlight b = []" "br_bridgeDisposed b \<longrightarrow> br_isDisposed b"
    "\<And>c d. source c d \<Longrightarrow> d \<in> set (bs_incoming s) \<and> answers env cfg c d"
  shows "bridge_inv env cfg (withCalls calls b s)"
proof -
  let ?t = "br_requestsInFlight (bs_bridge s)" and ?t' = "br_requestsInFlight b"
  have d: "table_ok ?t'" "distinct (map fst calls)" "\<And>c. waits ?t' c \<Longrightarrow> waits ?t c"
    "\<And>c. c \<in> fst ` set calls \<longleftrightarrow> waits ?t c \<and> \<not> waits ?t' c" "\<And>c d. got ?t' c d \<Longrightarrow> got ?t c d \<or> source c d"
    using assms(2) unfolding drains_def by blast+
  have i: "\<And>c. bs_phase s c = Some Waiting \<longleftrightarrow> waits ?t c \<or> c \<in> fst ` set (bs_calls s)"
    "distinct (map fst (bs_calls s))" "\<And>c. c \<in> fst ` set (bs_calls s) \<Longrightarrow> \<not> waits ?t c"
    using assms(1) unfolding bridge_inv_def callbacks_ok_def Let_def by blast+
  have "bridge_ok b" using d(1) assms(3,4) by (simp add: bridge_ok_def)
  moreover have "callbacks_ok (withCalls calls b s)"
    unfolding callbacks_ok_def Let_def withCalls_def
  proof (simp, intro conjI allI ballI)
    show "bs_phase s c = Some Waiting \<longleftrightarrow> waits ?t' c \<or> c \<in> fst ` (set (bs_calls s) \<union> set calls)" for c
      using i(1) [of c] d(3) [of c] d(4) [of c] by (simp add: image_Un) blast
    show "fst ` set (bs_calls s) \<inter> fst ` set calls = {}" using i(3) d(4) by blast
    show "\<not> waits ?t' (fst x)" if "x \<in> set (bs_calls s) \<union> set calls" for x
      using that i(3) [of "fst x"] d(3) [of "fst x"] d(4) [of "fst x"] by blast
  qed (use i(2) d(2) in simp_all)
  moreover have "history_ok (withCalls calls b s)"
    using assms(1) by (simp add: bridge_inv_def history_ok_def withCalls_def)
  moreover have "answers_ok env cfg (withCalls calls b s)"
  proof -
    have a: "\<forall>c d. got ?t c d \<longrightarrow> d \<in> set (bs_incoming s) \<and> answers env cfg c d"
      "\<forall>(c, r) \<in> set (bs_responses s). \<exists>d \<in> set (bs_incoming s). answers env cfg c d \<and> (\<exists>order. responseOfMessage env order d = Inr r)"
      using assms(1) unfolding bridge_inv_def answers_ok_def by blast+
    have "\<forall>c d. got ?t' c d \<longrightarrow> d \<in> set (bs_incoming s) \<and> answers env cfg c d" using a(1) d(5) assms(5) by blast
    then show ?thesis using a(2) by (simp add: answers_ok_def withCalls_def)
  qed
  ultimately show ?thesis by (simp add: bridge_inv_def)
qed

text \<open>Changes of the parts that the invariant does not constrain, and longer histories.\<close>

lemma bridge_inv_frame:
  assumes "bridge_inv env cfg s" "bs_bridge s' = bs_bridge s" "bs_phase s' = bs_phase s" "bs_calls s' = bs_calls s"
    "bs_called s' = bs_called s" "bs_known s \<subseteq> bs_known s'" "set (bs_incoming s) \<subseteq> set (bs_incoming s')"
    "bs_responses s' = bs_responses s"
  shows "bridge_inv env cfg s'"
proof -
  have i: "bridge_ok (bs_bridge s)" "callbacks_ok s" "history_ok s" "answers_ok env cfg s"
    using assms(1) by (simp_all add: bridge_inv_def)
  have "callbacks_ok s'" using i(2) assms(2-4) by (simp add: callbacks_ok_def)
  moreover have "history_ok s'"
    using i(3) assms(6) unfolding history_ok_def assms(3,5) by (intro conjI; (elim conjE)?; (rule subset_trans, assumption+ | assumption)?) simp_all
  moreover have "answers_ok env cfg s'" using i(4) assms(7) unfolding answers_ok_def assms(2,8) by fast
  ultimately show ?thesis using i(1) assms(2) by (simp add: bridge_inv_def)
qed

text \<open>A request that does not wait changes its phase.\<close>

lemma inv_phase:
  assumes "bridge_inv env cfg s" "bs_phase s c \<noteq> Some Waiting" "p \<noteq> Waiting" "c \<in> bs_known s"
    "c \<in> fst ` set (bs_called s) \<longrightarrow> (\<exists>ok. p = Ended ok)"
  shows "bridge_inv env cfg (setPhase c p s)"
proof -
  have "callbacks_ok (setPhase c p s)" using assms(1-3) unfolding bridge_inv_def callbacks_ok_def setPhase_def Let_def
    by (simp add: fun_upd_def)
  moreover have "history_ok (setPhase c p s)" using assms(1,4,5) unfolding bridge_inv_def history_ok_def setPhase_def
    by (auto split: if_splits)
  ultimately show ?thesis using assms(1) by (simp add: bridge_inv_def answers_ok_def setPhase_def)
qed

lemma inv_remove:
  assumes "bridge_inv env cfg s" "bs_phase s c \<noteq> Some Waiting"
  shows "bridge_inv env cfg (s\<lparr>bs_phase := (bs_phase s)(c := None)\<rparr>)"
proof -
  have "callbacks_ok (s\<lparr>bs_phase := (bs_phase s)(c := None)\<rparr>)"
    using assms unfolding bridge_inv_def callbacks_ok_def Let_def by (simp add: fun_upd_def)
  moreover have "history_ok (s\<lparr>bs_phase := (bs_phase s)(c := None)\<rparr>)"
    using assms(1) unfolding bridge_inv_def history_ok_def by (auto split: if_splits)
  ultimately show ?thesis using assms(1) by (simp add: bridge_inv_def answers_ok_def)
qed

lemma inv_known: "bridge_inv env cfg s \<Longrightarrow> bs_phase s c = Some p \<Longrightarrow> c \<in> bs_known s"
  by (auto simp: bridge_inv_def history_ok_def)

lemma inv_called_ended:
  "bridge_inv env cfg s \<Longrightarrow> bs_phase s c = Some p \<Longrightarrow> \<forall>ok. p \<noteq> Ended ok \<Longrightarrow> c \<notin> fst ` set (bs_called s)"
  by (fastforce simp: bridge_inv_def history_ok_def)

lemma nextPhase_not_waiting: "nextPhase failed w request d \<noteq> Waiting"
  by (simp add: nextPhase_def split: option.split)

lemma running_step:
  assumes "bridge_inv env cfg s" "bs_phase s c = Some (Running w request d)" "p \<noteq> Waiting"
  shows "bridge_inv env cfg (setPhase c p s)"
  by (rule inv_phase [OF assms(1)])
    (use assms inv_known [OF assms(1,2)] inv_called_ended [OF assms(1,2)] in simp_all)

section \<open>The actions\<close>

lemma act_request:
  assumes "bridge_inv env cfg s" "c \<notin> bs_known s"
  shows "bridge_inv env cfg (bridge_act env cfg s (BRequest c request d))"
proof -
  let ?s1 = "s\<lparr>bs_known := insert c (bs_known s)\<rparr>"
  have 1: "bridge_inv env cfg ?s1" by (rule bridge_inv_frame [OF assms(1)]) auto
  have "bs_phase s c = None" "c \<notin> fst ` set (bs_called s)"
    using assms by (auto simp: bridge_inv_def history_ok_def)
  then have "bridge_inv env cfg (setPhase c (Running PrepareMessageTask request d) ?s1)"
    by (intro inv_phase [OF 1]) simp_all
  then show ?thesis using 1 by (simp add: Let_def split: sum.split)
qed

lemma act_register:
  assumes "bridge_inv env cfg s" "bs_phase s c = Some (Running WaitingResponse request d)"
  shows "bridge_inv env cfg (bridge_act env cfg s (BRegister c cancelled now))"
proof -
  have e: "bridge_inv env cfg (setPhase c (Ended ok) s)" for ok using running_step [OF assms] by simp
  show ?thesis
  proof (cases cancelled)
    case True
    then show ?thesis using e by simp
  next
    case False
    let ?b = "bs_bridge s" and ?t = "br_requestsInFlight (bs_bridge s)"
    obtain r b where r: "registerRequest c c now ?b = (r, b)" by force
    have b: "table_ok ?t" using assms(1) by (simp add: bridge_inv_def bridge_ok_def)
    have same: "b = ?b \<Longrightarrow> s\<lparr>bs_bridge := b\<rparr> = s" by simp
    consider "r = Inl UnexpectedExc" | "r = Inr False" "b = ?b"
      | t where "r = Inr True" "\<not> br_isDisposed ?b" "b = ?b\<lparr>br_requestsInFlight := t\<rparr>" "table_ok t"
        "\<forall>k. waits t k \<longleftrightarrow> waits ?t k \<or> k = c" "\<forall>k d. got t k d \<longrightarrow> got ?t k d"
      using register_table [OF r b] by blast
    then show ?thesis
    proof cases
      case 1
      then show ?thesis using e r False by simp
    next
      case 2
      then show ?thesis using e r False by simp
    next
      case 3
      let ?s' = "setPhase c Waiting (s\<lparr>bs_bridge := b\<rparr>)"
      have "bridge_ok b" using assms(1) 3 by (simp add: bridge_inv_def bridge_ok_def)
      moreover have "callbacks_ok ?s'"
      proof -
        have i: "\<And>k. bs_phase s k = Some Waiting \<longleftrightarrow> waits ?t k \<or> k \<in> fst ` set (bs_calls s)"
          "distinct (map fst (bs_calls s))" "\<And>k. k \<in> fst ` set (bs_calls s) \<Longrightarrow> \<not> waits ?t k"
          using assms(1) unfolding bridge_inv_def callbacks_ok_def Let_def by blast+
        have c: "c \<notin> fst ` set (bs_calls s)" using i(1) [of c] assms(2) by simp
        have w: "waits (br_requestsInFlight b) k \<longleftrightarrow> waits ?t k \<or> k = c" for k using 3 by simp
        have "bs_phase ?s' k = Some Waiting \<longleftrightarrow> waits (br_requestsInFlight b) k \<or> k \<in> fst ` set (bs_calls s)" for k
          using i(1) [of k] w [of k] by (simp add: setPhase_def)
        moreover have "\<not> waits (br_requestsInFlight b) k" if "k \<in> fst ` set (bs_calls s)" for k
          using that i(3) c w by blast
        ultimately show ?thesis using i(2) unfolding callbacks_ok_def Let_def by (simp add: setPhase_def)
      qed
      moreover have "history_ok ?s'"
        using assms(1) inv_known [OF assms] inv_called_ended [OF assms]
        by (auto simp: bridge_inv_def history_ok_def setPhase_def)
      moreover have "answers_ok env cfg ?s'"
      proof -
        have "got (br_requestsInFlight b) k x \<Longrightarrow> got ?t k x" for k x using 3(3,6) by simp
        then show ?thesis using assms(1) unfolding bridge_inv_def answers_ok_def by (simp add: setPhase_def) fast
      qed
      ultimately have "bridge_inv env cfg ?s'" by (simp add: bridge_inv_def setPhase_def)
      then show ?thesis using 3 r False by simp
    qed
  qed
qed

lemma inv_bridge:
  assumes "bridge_inv env cfg s"
  shows "table_ok (br_requestsInFlight (bs_bridge s))" "br_isDisposed (bs_bridge s) \<longrightarrow> br_requestsInFlight (bs_bridge s) = []"
    "br_bridgeDisposed (bs_bridge s) \<longrightarrow> br_isDisposed (bs_bridge s)"
  using assms by (simp_all add: bridge_inv_def bridge_ok_def)

lemma act_cancel_next:
  assumes "bridge_inv env cfg s"
  shows "bridge_inv env cfg (bridge_act env cfg s (BCancelNext now))"
proof -
  note b = inv_bridge [OF assms]
  obtain r calls b' where c: "completeRequest (hd (bs_cancelling s)) None False now (bs_bridge s) = (r, calls, b')"
    by (cases "completeRequest (hd (bs_cancelling s)) None False now (bs_bridge s)")
  obtain t where t: "b' = (bs_bridge s)\<lparr>br_requestsInFlight := t\<rparr>" "br_isDisposed (bs_bridge s) \<longrightarrow> t = []"
    "drains (\<lambda>k x. k = hd (bs_cancelling s) \<and> None = Some x) (br_requestsInFlight (bs_bridge s)) t calls"
    using drains_completeRequest [OF c b(1,2)] by blast
  have "bridge_inv env cfg (s\<lparr>bs_cancelling := tl (bs_cancelling s)\<rparr>)" by (rule bridge_inv_frame [OF assms]) auto
  from inv_drain [OF this, of "\<lambda>k x. k = hd (bs_cancelling s) \<and> None = Some x" b' calls] t b(3)
  show ?thesis by (simp add: c)
qed

lemma act_timer:
  assumes "bridge_inv env cfg s"
  shows "bridge_inv env cfg (bridge_act env cfg s (BTimer connected clock))"
proof -
  note b = inv_bridge [OF assms]
  obtain calls b' where c: "br_onTimer cfg connected clock (bs_bridge s) = (calls, b')" by force
  obtain t n where t: "b' = (bs_bridge s)\<lparr>br_requestsInFlight := t, br_cancelsServer := n\<rparr>" "br_isDisposed (bs_bridge s) \<longrightarrow> t = []"
    "drains (\<lambda>k x. False) (br_requestsInFlight (bs_bridge s)) t calls"
    using drains_timer [OF c b(1,2)] by blast
  from inv_drain [OF assms, of "\<lambda>k x. False" b' calls] t b(3) show ?thesis by (simp add: c)
qed

lemma process_answers:
  assumes "processIncomingMessage env cfg d now b = (r, calls, b')" "table_ok (br_requestsInFlight b)"
    "br_isDisposed b \<longrightarrow> br_requestsInFlight b = []" "wf_block d"
  shows "\<exists>t. b' = b\<lparr>br_requestsInFlight := t\<rparr> \<and> (br_isDisposed b \<longrightarrow> t = [])
    \<and> drains (\<lambda>k x. x = d \<and> answers env cfg k d) (br_requestsInFlight b) t calls"
proof -
  have idle: ?thesis if "b' = b" "calls = []"
    using that assms(2,3) drains_refl [OF assms(2)] by (auto intro!: exI [of _ "br_requestsInFlight b"])
  show ?thesis
  proof (cases "deserializeBlockToObjects (be_json env) True d")
    case (Inl e)
    then show ?thesis using assms(1) idle by (simp add: processIncomingMessage_def)
  next
    case (Inr mp)
    obtain m p where mp: "mp = (m, p)" by (cases mp)
    have p: "p = None" using Inr mp by (auto simp: deserializeBlockToObjects_def bindR_eq_Inr split: if_splits)
    show ?thesis
    proof (cases "be_string2uuid env (bp_conversationId m)")
      case (Inl e)
      then show ?thesis using assms(1) idle Inr mp by (simp add: processIncomingMessage_def)
    next
      case 2: (Inr c)
      show ?thesis
      proof (cases "isAccepted env cfg m")
        case False
        then show ?thesis using assms(1) idle Inr mp 2 by (simp add: processIncomingMessage_def)
      next
        case True
        then have "answers env cfg c d" using Inr mp p 2 assms(4) by (simp add: answers_def)
        moreover have "completeRequest c (Some d) True now b = (r, calls, b')"
          using assms(1) Inr mp 2 True by (simp add: processIncomingMessage_def)
        then obtain t where "b' = b\<lparr>br_requestsInFlight := t\<rparr>" "br_isDisposed b \<longrightarrow> t = []"
          "drains (\<lambda>k x. k = c \<and> Some d = Some x) (br_requestsInFlight b) t calls"
          using drains_completeRequest [OF _ assms(2,3)] by blast
        moreover from this(3) have "drains (\<lambda>k x. x = d \<and> answers env cfg k d) (br_requestsInFlight b) t calls"
          by (rule drains_mono) (use \<open>answers env cfg c d\<close> in auto)
        ultimately show ?thesis by blast
      qed
    qed
  qed
qed

lemma act_incoming:
  assumes "bridge_inv env cfg s" "wf_block d"
  shows "bridge_inv env cfg (bridge_act env cfg s (BIncoming d now))"
proof -
  note b = inv_bridge [OF assms(1)]
  obtain r calls b' where c: "processIncomingMessage env cfg d now (bs_bridge s) = (r, calls, b')"
    by (cases "processIncomingMessage env cfg d now (bs_bridge s)")
  obtain t where t: "b' = (bs_bridge s)\<lparr>br_requestsInFlight := t\<rparr>" "br_isDisposed (bs_bridge s) \<longrightarrow> t = []"
    "drains (\<lambda>k x. x = d \<and> answers env cfg k d) (br_requestsInFlight (bs_bridge s)) t calls"
    using process_answers [OF c b(1,2) assms(2)] by blast
  have "bridge_inv env cfg (s\<lparr>bs_incoming := bs_incoming s @ [d]\<rparr>)" by (rule bridge_inv_frame [OF assms(1)]) auto
  from inv_drain [OF this, of "\<lambda>k x. x = d \<and> answers env cfg k d" b' calls] t b(3)
  show ?thesis by (simp add: c)
qed

lemma act_call:
  assumes "bridge_inv env cfg s" "i < length (bs_calls s)"
  shows "bridge_inv env cfg (bridge_act env cfg s (BCall i))"
proof -
  obtain c ok where c: "bs_calls s ! i = (c, ok)" by force
  let ?t = "br_requestsInFlight (bs_bridge s)" and ?calls = "take i (bs_calls s) @ drop (Suc i) (bs_calls s)"
  let ?s' = "setPhase c (Ended ok) (s\<lparr>bs_calls := ?calls, bs_called := bs_called s @ [(c, ok)]\<rparr>)"
  have i: "\<And>k. bs_phase s k = Some Waiting \<longleftrightarrow> waits ?t k \<or> k \<in> fst ` set (bs_calls s)"
    "distinct (map fst (bs_calls s))" "\<And>k. k \<in> fst ` set (bs_calls s) \<Longrightarrow> \<not> waits ?t k"
    using assms(1) unfolding bridge_inv_def callbacks_ok_def Let_def by blast+
  have split: "bs_calls s = take i (bs_calls s) @ (c, ok) # drop (Suc i) (bs_calls s)"
    using id_take_nth_drop [OF assms(2)] c by simp
  have dist: "distinct (map fst (take i (bs_calls s) @ (c, ok) # drop (Suc i) (bs_calls s)))"
    using i(2) split by metis
  then have d: "distinct (map fst ?calls)" "c \<notin> fst ` set ?calls" by (auto simp: map_append)
  have m: "k \<in> fst ` set (bs_calls s) \<longleftrightarrow> k = c \<or> k \<in> fst ` set ?calls" for k
    by (subst split) auto
  have w: "bs_phase s c = Some Waiting" "\<not> waits ?t c" using i(1) [of c] i(3) [of c] m [of c] by auto
  have "callbacks_ok ?s'"
  proof -
    have "bs_phase ?s' k = Some Waiting \<longleftrightarrow> waits ?t k \<or> k \<in> fst ` set ?calls" for k
      using i(1) [of k] m [of k] w d(2) by (auto simp: setPhase_def)
    then show ?thesis using d(1) i(3) m unfolding callbacks_ok_def Let_def by (simp add: setPhase_def)
  qed
  moreover have "history_ok ?s'"
    using assms(1) inv_known [OF assms(1) w(1)] inv_called_ended [OF assms(1) w(1)]
    by (auto simp: bridge_inv_def history_ok_def setPhase_def)
  ultimately have "bridge_inv env cfg ?s'" using assms(1) by (simp add: bridge_inv_def answers_ok_def setPhase_def)
  then show ?thesis by (simp add: c)
qed

lemma act_respond:
  assumes "bridge_inv env cfg s"
  shows "bridge_inv env cfg (bridge_act env cfg s (BRespond c order now))"
proof -
  note b = inv_bridge [OF assms]
  obtain r calls b' where g: "getResponse env order (LocalDispatchingTask c 0) now (bs_bridge s) = (r, calls, b')"
    by (cases "getResponse env order (LocalDispatchingTask c 0) now (bs_bridge s)")
  show ?thesis
  proof (cases "br_bridgeDisposed (bs_bridge s) \<or> br_isDisposed (bs_bridge s)")
    case True
    then have "calls = []" "b' = bs_bridge s" "\<exists>e. r = Inl e"
      using g by (auto simp: getResponse_def bridge_chkIfDisposed_def getHttpResponse_def br_chkIfDisposed_def chkR_def split: if_splits)
    then show ?thesis using assms by (auto simp: g withCalls_def)
  next
    case False
    obtain x where x: "closeRequest c now (bs_bridge s) = (x, calls, b')"
      "r = (case x of None \<Rightarrow> Inl UnexpectedExc | Some d \<Rightarrow> responseOfMessage env order d)"
      using g False by (auto simp: getResponse_def bridge_chkIfDisposed_def getHttpResponse_def br_chkIfDisposed_def
          split: prod.splits option.splits)
    obtain t where t: "b' = (bs_bridge s)\<lparr>br_requestsInFlight := t\<rparr>" "br_isDisposed (bs_bridge s) \<longrightarrow> t = []"
      "drains (\<lambda>k x. False) (br_requestsInFlight (bs_bridge s)) t calls"
      "\<forall>d. x = Some d \<longrightarrow> got (br_requestsInFlight (bs_bridge s)) c d"
      using drains_close [OF x(1) b(1,2)] by blast
    have 1: "bridge_inv env cfg (withCalls calls b' s)"
      using inv_drain [OF assms, of "\<lambda>k x. False" b' calls] t b(3) by simp
    show ?thesis
    proof (cases r)
      case (Inl e)
      then show ?thesis using 1 by (simp add: g)
    next
      case (Inr response)
      then obtain d where d: "x = Some d" "responseOfMessage env order d = Inr response" using x(2) by (auto split: option.splits)
      then have "d \<in> set (bs_incoming s) \<and> answers env cfg c d" using t(4) assms by (simp add: bridge_inv_def answers_ok_def)
      then have "answers_ok env cfg ((withCalls calls b' s)\<lparr>bs_responses := bs_responses s @ [(c, response)]\<rparr>)"
        using 1 d(2) unfolding bridge_inv_def answers_ok_def by (auto simp: withCalls_def)
      then show ?thesis using 1 Inr by (simp add: g bridge_inv_def callbacks_ok_def history_ok_def)
    qed
  qed
qed

lemma act_destroy:
  assumes "bridge_inv env cfg s" "bs_phase s c = Some (Ended ok)"
  shows "bridge_inv env cfg (bridge_act env cfg s (BDestroy c now))"
proof -
  note b = inv_bridge [OF assms(1)]
  obtain x calls b' where x: "closeRequest c now (bs_bridge s) = (x, calls, b')" by (cases "closeRequest c now (bs_bridge s)")
  obtain t where t: "b' = (bs_bridge s)\<lparr>br_requestsInFlight := t\<rparr>" "br_isDisposed (bs_bridge s) \<longrightarrow> t = []"
    "drains (\<lambda>k x. False) (br_requestsInFlight (bs_bridge s)) t calls"
    using drains_close [OF x b(1,2)] by blast
  have 1: "bridge_inv env cfg (withCalls calls b' s)"
    using inv_drain [OF assms(1), of "\<lambda>k x. False" b' calls] t b(3) by simp
  have "bs_phase (withCalls calls b' s) c \<noteq> Some Waiting" using assms(2) by (simp add: withCalls_def)
  moreover have "withCalls calls b' (s\<lparr>bs_phase := p\<rparr>) = (withCalls calls b' s)\<lparr>bs_phase := p\<rparr>" for p
    by (simp add: withCalls_def)
  moreover have "bs_phase (withCalls calls b' s) = bs_phase s" by (simp add: withCalls_def)
  ultimately show ?thesis using inv_remove [OF 1, of c] by (simp add: x)
qed

lemma act_dispose:
  assumes "bridge_inv env cfg s"
  shows "bridge_inv env cfg (bridge_act env cfg s BDispose)"
proof -
  note b = inv_bridge [OF assms]
  obtain calls b' where d: "bridge_dispose (bs_bridge s) = (calls, b')" by force
  from drains_dispose [OF d b] inv_drain [OF assms, of "\<lambda>k x. False" b' calls] show ?thesis by (simp add: d)
qed

lemma act_inv:
  assumes "bridge_inv env cfg s" "bridge_enabled s a"
  shows "bridge_inv env cfg (bridge_act env cfg s a)"
proof (cases a)
  case (BPrepare c messageId)
  then obtain request d where "bs_phase s c = Some (Running PrepareMessageTask request d)"
    using assms(2) by (auto simp: bridge_enabled_def)
  from running_step [OF assms(1) this] nextPhase_not_waiting show ?thesis
    by (simp add: BPrepare \<open>bs_phase s c = _\<close> split: prod.split sum.split)
next
  case (BSend c ok)
  then obtain request d where "bs_phase s c = Some (Running SendMessageTask request d)"
    using assms(2) by (auto simp: bridge_enabled_def)
  from running_step [OF assms(1) this] nextPhase_not_waiting show ?thesis
    by (simp add: BSend \<open>bs_phase s c = _\<close>)
next
  case (BCancel c)
  have "bridge_inv env cfg (s\<lparr>bs_bridge := scheduleForCancel c (bs_bridge s)\<rparr>)"
    using assms(1) by (simp add: bridge_inv_def bridge_ok_def callbacks_ok_def history_ok_def answers_ok_def scheduleForCancel_def)
  then show ?thesis by (simp add: BCancel)
next
  case BCancelTake
  then show ?thesis using assms(1)
    by (simp add: bridge_inv_def bridge_ok_def callbacks_ok_def history_ok_def answers_ok_def takeScheduledForCancel_def)
qed (use assms in \<open>auto simp: bridge_enabled_def simp del: bridge_act.simps
      intro: act_request act_register act_cancel_next act_timer act_incoming act_call act_respond act_destroy act_dispose\<close>)

lemma bridge_reach_inv: "bridge_reach env cfg s \<Longrightarrow> bridge_inv env cfg s"
  by (induction rule: bridge_reach.induct) (simp_all only: bridge_start_inv act_inv)

end
