(* ===== verification/HttpResponseProps.thy ===== *)
theory HttpResponseProps
  imports HttpResponse HttpProps "HOL-Library.Multiset"
begin

text \<open>
  The properties of the responses of the HTTP server: reading the text back, by the splitting that the
  request parser uses, gives the status line, the headers and the content.
\<close>

section \<open>Lines\<close>

definition no_cr :: "string \<Rightarrow> bool" where "no_cr l \<longleftrightarrow> CHR 0x0D \<notin> set l"

text \<open>Lines, an empty line and the rest.\<close>

fun lines_text :: "string list \<Rightarrow> string" where
  "lines_text [] = []"
| "lines_text (l # ls) = g_crlf @ l @ lines_text ls"

lemma find_crlf: "no_cr l \<Longrightarrow> find_sub g_crlf (l @ g_crlf @ rest) = Some (length l)"
  by (simp add: g_crlf_def no_cr_def find_sub_skip)

lemma splitLoop_lines:
  assumes "no_cr l" "list_all no_cr ls"
  shows "splitLoop (pre @ l @ lines_text ls @ g_crlf @ rest) g_crlf (length pre + length l + length (lines_text ls)) (length pre) = l # ls"
  using assms
proof (induction ls arbitrary: l pre)
  case Nil
  have f: "find_sub_from g_crlf (length pre) (pre @ l @ g_crlf @ rest) = Some (length pre + length l)"
    using find_crlf [OF Nil(1)] by (simp add: find_sub_from_def)
  have c: "g_crlf \<noteq> []" "length g_crlf = 2" by (simp_all add: g_crlf_def)
  show ?case using f c by (subst splitLoop.simps) simp
next
  case (Cons m ls)
  let ?t = "pre @ l @ g_crlf @ m @ lines_text ls @ g_crlf @ rest"
  have f: "find_sub_from g_crlf (length pre) ?t = Some (length pre + length l)"
    using find_crlf [OF Cons.prems(1), of "m @ lines_text ls @ g_crlf @ rest"] by (simp add: find_sub_from_def)
  have c: "g_crlf \<noteq> []" "length g_crlf = 2" by (simp_all add: g_crlf_def)
  have r: "splitLoop ?t g_crlf (length pre + length l + 2 + length m + length (lines_text ls)) (length pre + length l + 2) = m # ls"
    using Cons.IH [of m "pre @ l @ g_crlf"] Cons.prems(2) c by (simp add: add.assoc)
  show ?case
  proof (cases "m = [] \<and> ls = []")
    case True
    then show ?thesis using f c by (subst splitLoop.simps) simp
  next
    case False
    then have "length m + length (lines_text ls) \<noteq> 0" using c by (cases ls) auto
    then show ?thesis using f c r by (subst splitLoop.simps) (simp add: add.assoc)
  qed
qed

lemma find_sentinel_lines:
  assumes "no_cr l" "list_all (\<lambda>l. no_cr l \<and> l \<noteq> []) ls"
  shows "find_sub g_sentinel (l @ lines_text ls @ g_sentinel @ rest) = Some (length l + length (lines_text ls))"
  using assms
proof (induction ls arbitrary: l)
  case Nil
  then show ?case by (simp add: g_sentinel_def no_cr_def find_sub_skip)
next
  case (Cons m ls)
  obtain x m' where m: "m = x # m'" "x \<noteq> CHR 0x0D" using Cons.prems(2) by (cases m) (auto simp: no_cr_def)
  have "find_sub g_sentinel (m @ lines_text ls @ g_sentinel @ rest) = Some (length m + length (lines_text ls))"
    by (rule Cons.IH) (use Cons.prems(2) in auto)
  then have "find_sub g_sentinel (g_crlf @ m @ lines_text ls @ g_sentinel @ rest) = Some (2 + length m + length (lines_text ls))"
    using m(2) unfolding m(1) by (simp add: g_sentinel_def g_crlf_def)
  moreover have "find_sub g_sentinel (l @ v) = map_option ((+) (length l)) (find_sub g_sentinel v)" for v
    using Cons.prems(1) unfolding g_sentinel_def no_cr_def by (rule find_sub_skip)
  ultimately show ?case by (simp add: g_crlf_def)
qed

text \<open>A text that consists of lines, an empty line and the rest is read back.\<close>

definition reads_as :: "string \<Rightarrow> string list \<Rightarrow> string \<Rightarrow> bool" where
  "reads_as text lines content \<longleftrightarrow> (\<exists>pos. find_sub g_sentinel text = Some pos \<and> splitString text g_crlf 0 pos = Inr lines
     \<and> drop (pos + 4) text = content)"

lemma reads_lines:
  assumes "no_cr l" "list_all (\<lambda>l. no_cr l \<and> l \<noteq> []) ls" "l \<noteq> []"
  shows "reads_as (l @ lines_text ls @ g_sentinel @ content) (l # ls) content"
proof -
  let ?t = "l @ lines_text ls @ g_sentinel @ content" and ?n = "length l + length (lines_text ls)"
  have s: "g_sentinel = g_crlf @ g_crlf" by (simp add: g_sentinel_def g_crlf_def)
  have c: "length g_crlf = 2" "g_crlf \<noteq> []" by (simp_all add: g_crlf_def)
  have loop: "splitLoop ?t g_crlf ?n 0 = l # ls"
    using splitLoop_lines [of l ls "[]" "g_crlf @ content"] assms unfolding s by (simp add: list_all_iff)
  have "splitString ?t g_crlf 0 ?n = Inr (l # ls)"
  proof (cases "2 > ?n")
    case True
    then have "ls = []" using c by (cases ls) auto
    then show ?thesis using True c by (simp add: splitString_def)
  next
    case False
    then show ?thesis using loop c by (simp add: splitString_def)
  qed
  moreover have "length g_sentinel = 4" by (simp add: g_sentinel_def)
  ultimately show ?thesis using find_sentinel_lines [OF assms(1,2)] by (auto simp: reads_as_def)
qed

section \<open>The parts of a response\<close>

definition statusText :: "status_code \<Rightarrow> string" where
  "statusText status = take (length (getStatusLine status) - 2) (getStatusLine status)"

definition headerLine :: "string \<times> string \<Rightarrow> string" where
  "headerLine h = fst h @ '': '' @ snd h"

lemma dec_string_no_cr: "no_cr (dec_string n)"
proof (induction n rule: dec_string.induct)
  case (1 n)
  have "CHR 0x0D \<noteq> char_of (48 + k)" if "k < 10" for k :: nat
  proof
    assume "CHR 0x0D = char_of (48 + k)"
    then have "of_char (char_of (48 + k) :: char) = (of_char CHR 0x0D :: nat)" by (simp only:)
    then show False using that by simp
  qed
  note digit = this [of n] this [of "n mod 10"]
  show ?case using 1 digit by (subst dec_string.simps) (auto simp: no_cr_def simp del: of_char_eq_iff)
qed

lemma status_line: "getStatusLine status = statusText status @ g_crlf \<and> no_cr (statusText status) \<and> statusText status \<noteq> []"
proof -
  have s: "getStatusLine status = t @ g_crlf \<Longrightarrow> no_cr t \<Longrightarrow> t \<noteq> [] \<Longrightarrow> ?thesis" for t
    by (simp add: statusText_def g_crlf_def)
  show ?thesis
  proof (cases "map_of statusStrings status")
    case None
    then show ?thesis using dec_string_no_cr [of "unat status"]
      by (intro s [of "''HTTP/1.0 '' @ dec_string (unat status) @ '' '' @ genericReasonPhrase status"])
        (simp_all add: getStatusLine_def no_cr_def genericReasonPhrase_def Let_def)
  next
    case (Some line)
    have "list_all (\<lambda>(c, line). \<exists>t. line = t @ g_crlf \<and> no_cr t \<and> t \<noteq> []) statusStrings"
      by (simp add: statusStrings_def no_cr_def)
    then obtain t where "line = t @ g_crlf" "no_cr t" "t \<noteq> []"
      using map_of_SomeD [OF Some] by (fastforce simp: list_all_iff)
    then show ?thesis using Some by (intro s [of t]) (simp_all add: getStatusLine_def)
  qed
qed

lemma build_lines:
  assumes "list_all (\<lambda>h. no_cr (headerLine h)) hs"
  shows "reads_as (buildResponse status hs content) (statusText status # map headerLine hs) content"
proof -
  have t: "lines_text (map headerLine hs) @ g_sentinel @ r
      = g_crlf @ concat (map (\<lambda>(name, value). name @ '': '' @ value @ g_crlf) hs) @ g_crlf @ r" for r
  proof (induction hs)
    case (Cons h hs)
    then show ?case by (cases h) (simp add: headerLine_def)
  qed (simp add: g_sentinel_def g_crlf_def)
  have l: "getStatusLine status = statusText status @ g_crlf" "no_cr (statusText status)" "statusText status \<noteq> []"
    using status_line by blast+
  have b: "buildResponse status hs content = statusText status @ lines_text (map headerLine hs) @ g_sentinel @ content"
    unfolding buildResponse_def l(1) t by simp
  have "headerLine h \<noteq> []" for h by (simp add: headerLine_def)
  then have "list_all (\<lambda>l. no_cr l \<and> l \<noteq> []) (map headerLine hs)" using assms by (simp add: list_all_iff)
  then show ?thesis unfolding b by (rule reads_lines [OF l(2) _ l(3)])
qed

lemma valid_no_cr: "isValidValue v \<Longrightarrow> no_cr v" "isValidName v \<Longrightarrow> no_cr v"
proof -
  have c: "isCtl CHR 0x0D" "CHR 0x09 \<noteq> CHR 0x0D" by (simp_all add: isCtl_def)
  show "isValidValue v \<Longrightarrow> no_cr v" "isValidName v \<Longrightarrow> no_cr v"
    using c unfolding isValidValue_def isValidName_def no_cr_def list_all_iff by blast+
qed

section \<open>Properties\<close>

definition custom_ok :: "http_strings \<Rightarrow> http_headers_map \<Rightarrow> http_headers_map \<Rightarrow> bool" where
  "custom_ok H m hs \<longleftrightarrow> (\<forall>h \<in> set hs. chkCustomHeader H (fst h) (snd h) = Inr () \<and> fst h \<notin> fst ` set m)"

lemma addCustom_iff:
  assumes "distinct (map fst hs)"
  shows "addCustomHeaders H hs m = (if custom_ok H m hs then Inr (m @ hs) else Inl UnexpectedExc)"
  using assms
proof (induction hs arbitrary: m)
  case (Cons h hs)
  obtain n v where h: "h = (n, v)" by (cases h)
  have e: "chkCustomHeader H n v = Inr () \<or> chkCustomHeader H n v = Inl UnexpectedExc"
    by (auto simp: chkCustomHeader_def chkR_def)
  have "custom_ok H m (h # hs) \<longleftrightarrow> chkCustomHeader H n v = Inr () \<and> n \<notin> fst ` set m \<and> custom_ok H (m @ [h]) hs"
    using Cons.prems by (force simp: custom_ok_def h)
  moreover have "addCustomHeaders H hs (m @ [h]) = (if custom_ok H (m @ [h]) hs then Inr ((m @ [h]) @ hs) else Inl UnexpectedExc)"
    using Cons by simp
  ultimately show ?case using e by (auto simp: h emplaceHeader_def map_of_eq_None_iff)
qed (simp add: custom_ok_def)

definition server_headers :: "string \<Rightarrow> string \<Rightarrow> http_headers_map" where
  "server_headers content contentType =
     [(''Content-Type'', if contentType = [] then g_contentTypeDefault else contentType),
      (''Content-Length'', dec_string (length content)), (''Connection'', ''close'')]"

lemma required_headers:
  "getRequiredHeaders content (if contentType = [] then g_contentTypeDefault else contentType) = server_headers content contentType"
  by (simp add: getRequiredHeaders_def emplaceHeader_def server_headers_def)

lemma response_reads_back_core:
  assumes "http_boost H" "\<And>hs. mset (order hs) = mset hs" "isValidValue contentType" "distinct (map fst custom)"
  shows "case new_response H order status content contentType custom of
      Inl e \<Rightarrow> e = UnexpectedExc \<and> (\<exists>h \<in> set custom. chkCustomHeader H (fst h) (snd h) \<noteq> Inr ())
    | Inr r \<Rightarrow> (\<forall>h \<in> set custom. chkCustomHeader H (fst h) (snd h) = Inr ())
        \<and> (\<exists>hs. reads_as (rs_serialized r) (statusText status # map headerLine hs) content \<and> distinct (map fst hs)
            \<and> mset hs = mset (server_headers content contentType @ custom))"
proof (cases "\<forall>h \<in> set custom. chkCustomHeader H (fst h) (snd h) = Inr ()")
  case True
  let ?ct = "if contentType = [] then g_contentTypeDefault else contentType"
  let ?m = "server_headers content contentType" and ?hs = "order (server_headers content contentType @ custom)"
  have asc: "ascii_text ''Content-Type''" "ascii_text ''Content-Length''" "ascii_text ''Connection''"
    by (simp_all add: ascii_text_def)
  have "iequals H s s" if "ascii_text s" for s using http_boost.iequals_ascii [OF assms(1) that that] by simp
  note refl = this [OF asc(1)] this [OF asc(2)] this [OF asc(3)]
  have keys: "fst ` set ?m = {''Content-Type'', ''Content-Length'', ''Connection''}"
    by (auto simp: server_headers_def)
  have free: "fst h \<notin> fst ` set ?m" if "h \<in> set custom" for h
    using True [rule_format, OF that] refl unfolding keys by (auto simp: chkCustomHeader_def bindR_eq_Inr)
  then have ok: "custom_ok H ?m custom" using True by (simp add: custom_ok_def)
  have valid: "no_cr (headerLine h)" if "h \<in> set (?m @ custom)" for h
  proof (cases "h \<in> set custom")
    case True2: True
    then have "isValidName (fst h)" "isValidValue (snd h)" using True by (auto simp: chkCustomHeader_def bindR_eq_Inr)
    then show ?thesis using valid_no_cr [of "fst h"] valid_no_cr [of "snd h"] by (auto simp: headerLine_def no_cr_def)
  next
    case False
    have "isValidValue ?ct" using assms(3)
      by (simp add: g_contentTypeDefault_def isValidValue_def isChar_def isCtl_def)
    then show ?thesis using that False valid_no_cr(1) [of ?ct] dec_string_no_cr [of "length content"]
      by (auto simp: server_headers_def headerLine_def no_cr_def)
  qed
  have set: "set ?hs = set (?m @ custom)" using assms(2) by (metis mset_eq_setD)
  have "distinct (map fst ?m)" by (simp add: server_headers_def)
  moreover have "set (map fst ?m) \<inter> set (map fst custom) = {}"
    unfolding list.set_map disjoint_iff using free by (metis (no_types, lifting) imageE)
  ultimately have "distinct (map fst (?m @ custom))" using assms(4) unfolding distinct_append map_append by simp
  then have "distinct (map fst ?hs)" using assms(2) by (metis mset_eq_imp_distinct_iff mset_map)
  moreover have "reads_as (buildResponse status ?hs content) (statusText status # map headerLine ?hs) content"
    by (rule build_lines) (use valid set in \<open>simp add: list_all_iff\<close>)
  moreover have "new_response H order status content contentType custom = Inr \<lparr>rs_status = status, rs_content = content,
      rs_headers = ?m @ custom, rs_serialized = buildResponse status ?hs content\<rparr>"
    using addCustom_iff [OF assms(4), of H ?m] ok by (simp add: new_response_def required_headers)
  ultimately show ?thesis using True assms(2) [of "?m @ custom"] by auto
next
  case False
  then have "\<not> custom_ok H m custom" for m by (auto simp: custom_ok_def)
  then show ?thesis using False addCustom_iff [OF assms(4), of H] by (simp add: new_response_def)
qed

text \<open>
  A response on the wire is what its creator asked for: when the type of the content has no control
  characters, the text reads back, by the splitting of the request parser, as the status line, exactly
  the three headers of the server and the custom ones, in the order of the map, and the content; its
  \<open>Content-Length\<close> is the length of the content.  It is created exactly when the custom headers
  have distinct valid names, valid values, and none is one that the server generates.
\<close>
theorem response_reads_back:
  assumes "http_boost H" "\<And>hs. mset (order hs) = mset hs" "isValidValue contentType" "distinct (map fst custom)"
  shows "case new_response H order status content contentType custom of
      Inl e \<Rightarrow> e = UnexpectedExc \<and> (\<exists>h \<in> set custom. chkCustomHeader H (fst h) (snd h) \<noteq> Inr ())
    | Inr r \<Rightarrow> (\<forall>h \<in> set custom. chkCustomHeader H (fst h) (snd h) = Inr ())
        \<and> (\<exists>hs. reads_as (rs_serialized r) (statusText status # map headerLine hs) content \<and> distinct (map fst hs)
            \<and> mset hs = mset (server_headers content contentType @ custom))"
  by (rule response_reads_back_core [OF assms])

lemma sample_response:
  "new_response reference_strings id 200 ''hi'' ''text/plain'' [(''X-A'', ''b'')]
    = Inr \<lparr>rs_status = 200, rs_content = ''hi'', rs_headers = server_headers ''hi'' ''text/plain'' @ [(''X-A'', ''b'')],
      rs_serialized = buildResponse 200 (server_headers ''hi'' ''text/plain'' @ [(''X-A'', ''b'')]) ''hi''\<rparr>"
proof -
  have c: "chkCustomHeader reference_strings ''X-A'' ''b'' = Inr ()"
    by (simp add: chkCustomHeader_def reference_strings_def isValidName_def isValidValue_def isChar_def isCtl_def isTSpecial_def
        toLowerAscii_def less_eq_char_def char_of_def bit_Suc_0_iff)
  have f: "map_of (server_headers ''hi'' ''text/plain'') ''X-A'' = None" by (simp add: server_headers_def)
  have r: "getRequiredHeaders ''hi'' (if ''text/plain'' = [] then g_contentTypeDefault else ''text/plain'') = server_headers ''hi'' ''text/plain''"
    by (rule required_headers)
  show ?thesis unfolding new_response_def r using c f by (simp add: emplaceHeader_def)
qed

lemma response_reads_back_witness:
  "\<exists>hs. reads_as (buildResponse 200 (server_headers ''hi'' ''text/plain'' @ [(''X-A'', ''b'')]) ''hi'')
      (statusText 200 # map headerLine hs) ''hi'' \<and> length hs = 4"
proof -
  have v: "isValidValue ''text/plain''" by (simp add: isValidValue_def isChar_def isCtl_def)
  have "\<exists>hs. reads_as (buildResponse 200 (server_headers ''hi'' ''text/plain'' @ [(''X-A'', ''b'')]) ''hi'') (statusText 200 # map headerLine hs) ''hi''
      \<and> mset hs = mset (server_headers ''hi'' ''text/plain'' @ [(''X-A'', ''b'')])"
    using response_reads_back [OF refh.http_boost_axioms, of id "''text/plain''" "[(''X-A'', ''b'')]" 200 "''hi''"] v
    unfolding sample_response by auto
  then obtain hs where hs: "reads_as (buildResponse 200 (server_headers ''hi'' ''text/plain'' @ [(''X-A'', ''b'')]) ''hi'') (statusText 200 # map headerLine hs) ''hi''"
    "mset hs = mset (server_headers ''hi'' ''text/plain'' @ [(''X-A'', ''b'')])" by blast
  have "length hs = length (server_headers ''hi'' ''text/plain'' @ [(''X-A'', ''b'')])" using hs(2) by (rule mset_eq_length)
  then have "length hs = 4" by (simp add: server_headers_def)
  with hs(1) show ?thesis by blast
qed

text \<open>The type of the content is not checked: one with a line end adds a header to the response.\<close>

lemma content_type_adds_header:
  assumes "isValidName name" "isValidValue v" "isValidValue ct"
  shows "case new_response H id status content (ct @ g_crlf @ headerLine (name, v)) [] of
      Inl e \<Rightarrow> False
    | Inr r \<Rightarrow> reads_as (rs_serialized r) (statusText status # (''Content-Type: '' @ ct) # headerLine (name, v)
        # map headerLine (tl (server_headers content ct))) content"
proof -
  let ?inject = "ct @ g_crlf @ headerLine (name, v)"
  let ?hs = "(''Content-Type'', ct) # (name, v) # tl (server_headers content ct)"
  have ne: "?inject \<noteq> []" by (simp add: headerLine_def)
  have r: "new_response H id status content ?inject []
      = Inr \<lparr>rs_status = status, rs_content = content, rs_headers = server_headers content ?inject, rs_serialized = buildResponse status (server_headers content ?inject) content\<rparr>"
    unfolding new_response_def required_headers by simp
  have "list_all (\<lambda>h. no_cr (headerLine h)) ?hs"
    using assms valid_no_cr [of ct] valid_no_cr [of name] valid_no_cr [of v] dec_string_no_cr [of "length content"]
    by (simp add: server_headers_def headerLine_def no_cr_def)
  moreover have "buildResponse status (server_headers content ?inject) content = buildResponse status ?hs content"
    using ne by (simp add: buildResponse_def server_headers_def headerLine_def)
  ultimately show ?thesis using build_lines [of ?hs status content] unfolding r by (simp add: headerLine_def)
qed

end
