(* ===== verification/BridgeProps.thy ===== *)
theory BridgeProps
  imports BridgeReach HttpResponseProps MessagesProps
begin

text \<open>The properties of the bridge from the HTTP server to messaging.\<close>

section \<open>Messages of the bridge\<close>

lemma read_protocol:
  assumes "wf_block d" "db_bytes d = content @ js_protocol js m" "unat (db_offset1 d) = length content"
    "js_parseProtocol js (js_protocol js m) = Inr m" "verifyBrokerProtocolMessage m = Inr ()"
  shows "deserializeBlockToObjects js True d = Inr (m, None)"
  using assms by (simp add: deserializeBlockToObjects_def wf_block_def)

lemma prepare_block:
  assumes "\<not> br_isDisposed s" "wf_block d" "db_bytes d = []" "db_offset1 d = 0"
    "coexist d (length (bytes_of (rq_body request)) + length (js_protocol (be_json env) (requestMessage env cfg c messageId request)))"
  shows "if length (bytes_of (rq_body request) @ js_protocol (be_json env) (requestMessage env cfg c messageId request)) \<le> capacity d
    then \<exists>d'. prepareMessageDataBlock env cfg s c messageId request d = (Inr (), d') \<and> wf_block d'
      \<and> db_bytes d' = bytes_of (rq_body request) @ js_protocol (be_json env) (requestMessage env cfg c messageId request)
      \<and> unat (db_offset1 d') = length (bytes_of (rq_body request))
    else fst (prepareMessageDataBlock env cfg s c messageId request d) = Inl BufferTooSmall"
proof -
  let ?b = "bytes_of (rq_body request)" and ?m = "js_protocol (be_json env) (requestMessage env cfg c messageId request)"
  have chk: "br_chkIfDisposed s = Inr ()" using assms(1) by (simp add: br_chkIfDisposed_def)
  show ?thesis
  proof (cases "rq_body request = []")
    case True
    then have "prepareMessageDataBlock env cfg s c messageId request d = db_write ?m d" and b: "?b = []"
      using chk by (simp_all add: prepareMessageDataBlock_def bytes_of_def)
    moreover have "coexist d (length ?m)" using assms(5) b by simp
    ultimately show ?thesis using write_queue [OF assms(2), of ?m] assms(3,4) by (auto split: if_splits)
  next
    case False
    let ?f = "\<lambda>_ d. db_setOffset1 (db_size d) d"
    have p: "prepareMessageDataBlock env cfg s c messageId request d = bindS (bindS (db_write ?b) ?f) (\<lambda>_. db_write ?m) d"
      using False chk by (simp add: prepareMessageDataBlock_def)
    have co: "coexist d (length ?b)" using assms(5) by (simp add: coexist_def)
    show ?thesis
    proof (cases "length ?b \<le> capacity d")
      case True
      then obtain d1 where d1: "db_write ?b d = (Inr (), d1)" "wf_block d1" "db_bytes d1 = ?b"
        "db_capacity d1 = db_capacity d" "db_offset1 d1 = 0"
        using write_queue [OF assms(2) co] assms(3,4) by auto
      let ?d1 = "d1\<lparr>db_offset1 := db_size d1\<rparr>"
      have w: "wf_block ?d1" "db_bytes ?d1 = ?b" "unat (db_offset1 ?d1) = length ?b"
        using d1(2,3) wf_lengths(1) [OF d1(2)] by (simp_all add: wf_block_def db_bytes_def)
      have cap: "capacity ?d1 = capacity d" using d1(4) by (simp add: capacity_def)
      have co1: "coexist ?d1 (length ?m)" using assms(5) cap by (simp add: coexist_def)
      have "bindS (db_write ?b) ?f d = (Inr (), ?d1)" using d1(1) by (simp add: db_setOffset1_def)
      then have "prepareMessageDataBlock env cfg s c messageId request d = db_write ?m ?d1" by (simp add: p)
      then show ?thesis using write_queue [OF w(1) co1] w(2,3) cap by (auto split: if_splits)
    next
      case False
      then have "db_write ?b d = (Inl BufferTooSmall, d)" using write_queue [OF assms(2) co] assms(3) by simp
      then have "bindS (db_write ?b) ?f d = (Inl BufferTooSmall, d)" by simp
      then show ?thesis using False by (simp add: p)
    qed
  qed
qed

text \<open>The cookies that belong to the token: one of the names, or one of them with a value.\<close>

definition token_cookie :: "string list \<Rightarrow> string \<Rightarrow> bool" where
  "token_cookie names cookie \<longleftrightarrow> cookie \<noteq> [] \<and> (cookie \<in> set names
     \<or> (\<exists>n v. cookie = n @ CHR ''='' # v \<and> CHR ''='' \<notin> set n \<and> n \<noteq> [] \<and> n \<in> set names))"

lemma token_value:
  "(\<exists>n v. x = n @ CHR ''='' # v \<and> CHR ''='' \<notin> set n \<and> n \<noteq> [] \<and> n \<in> set names)
    \<longleftrightarrow> (case find_char CHR ''='' x of None \<Rightarrow> False | Some pos \<Rightarrow> pos \<noteq> 0 \<and> take pos x \<in> set names)" (is "?l \<longleftrightarrow> ?r")
proof
  assume ?l
  then obtain n v where "x = n @ CHR ''='' # v" "CHR ''='' \<notin> set n" "n \<noteq> []" "n \<in> set names" by blast
  then show ?r by simp
next
  assume r: ?r
  then obtain pos where pos: "find_char CHR ''='' x = Some pos" "pos \<noteq> 0" "take pos x \<in> set names" by (auto split: option.splits)
  note d = find_char_SomeD [OF pos(1)]
  have "take pos x \<noteq> []" using pos(2) d by auto
  then show ?l using d pos(3) by blast
qed

lemma token_elements:
  "tokenElements H names cookies = filter (token_cookie names) (map (trim_ws H) cookies)"
proof (induction cookies)
  case (Cons c cookies)
  let ?x = "trim_ws H c"
  show ?case
  proof (cases "find_char CHR ''='' ?x")
    case None
    then have "token_cookie names ?x \<longleftrightarrow> ?x \<noteq> [] \<and> ?x \<in> set names" unfolding token_cookie_def token_value by simp
    then show ?thesis using Cons None by (simp add: Let_def)
  next
    case (Some pos)
    then have "token_cookie names ?x \<longleftrightarrow> ?x \<noteq> [] \<and> (?x \<in> set names \<or> pos \<noteq> 0 \<and> take pos ?x \<in> set names)"
      unfolding token_cookie_def token_value by simp
    then show ?thesis using Cons Some by (simp add: Let_def)
  qed
qed simp

lemma joined_Cons: "joined c (v # vs) = v @ (if vs = [] then [] else c # joined c vs)"
  by (cases vs) simp_all

lemma join_semicolon: "joinFormatted es '';'' '';'' = joined CHR '';'' es"
proof -
  have "joinRest '';'' '';'' vs = (if vs = [] then [] else CHR '';'' # joined CHR '';'' vs)" for vs
    by (induction vs) (simp_all add: joined_Cons)
  then show ?thesis by (cases es) (simp_all add: joined_Cons)
qed

lemma token_of_cookies:
  "br_tokenData H cfg headers = (case find (\<lambda>h. iequals H (fst h) ''Cookie'') headers of
     None \<Rightarrow> bc_tokenDataDefault cfg
   | Some (_, cookies) \<Rightarrow> (let allowed = filter (token_cookie (bc_tokenCookieNames cfg)) (map (trim_ws H) (split_on H CHR '';'' cookies))
       in if allowed = [] then bc_tokenDataDefault cfg else joined CHR '';'' allowed))"
  by (simp add: br_tokenData_def token_elements join_semicolon Let_def split: option.split prod.split)

text \<open>The headers of the metadata: of several with a name, the first one stays.\<close>

lemma emplaced_headers:
  "map_of (fold (\<lambda>(name, value) headers. snd (emplaceHeader name value headers)) hs acc) = map_of hs ++ map_of acc
   \<and> (distinct (map fst acc) \<longrightarrow> distinct (map fst (fold (\<lambda>(name, value) headers. snd (emplaceHeader name value headers)) hs acc)))"
proof (induction hs arbitrary: acc)
  case (Cons h hs)
  obtain n v where h: "h = (n, v)" by (cases h)
  have "map_of (snd (emplaceHeader n v acc)) = [n \<mapsto> v] ++ map_of acc"
    by (auto simp: emplaceHeader_def fun_eq_iff map_add_def split: option.split)
  moreover have "distinct (map fst (snd (emplaceHeader n v acc)))" if "distinct (map fst acc)"
    using that by (auto simp: emplaceHeader_def map_of_eq_None_iff)
  ultimately show ?case using Cons.IH [of "snd (emplaceHeader n v acc)"] by (simp add: h map_add_assoc [symmetric] map_add_upd_left; simp add: fun_upd_def)
qed simp

text \<open>
  C39 A request becomes the message the backend needs: preparing it in an empty block fails only for lack
  of room, with the exception for small buffers; else the block holds the body of the request as the
  payload and a message that the receiver accepts.  That message has the new ids; it carries the method,
  the path and, of every header of the request, the first value; and its identity is the configured type
  of token with exactly the cookies of the request that have a configured name, in their order, or with
  the default where there is none, or no identity when the type or the token is empty.
\<close>
theorem br_request_message:
  assumes "http_boost (be_strings env)" "\<not> br_isDisposed s" "wf_block d" "db_bytes d = []" "db_offset1 d = 0"
    "coexist d (length (bytes_of (rq_body request)) + length (js_protocol (be_json env) (requestMessage env cfg c messageId request)))"
    "js_parseProtocol (be_json env) (js_protocol (be_json env) (requestMessage env cfg c messageId request))
       = Inr (requestMessage env cfg c messageId request)"
    "be_uuid2string env c \<noteq> []" "be_uuid2string env messageId \<noteq> []"
  shows "(case prepareMessageDataBlock env cfg s c messageId request d of
      (Inl e, _) \<Rightarrow> e = BufferTooSmall
        \<and> capacity d < length (bytes_of (rq_body request) @ js_protocol (be_json env) (requestMessage env cfg c messageId request))
    | (Inr _, d') \<Rightarrow> deserializeBlockToObjects (be_json env) True d' = Inr (requestMessage env cfg c messageId request, None)
        \<and> take (unat (db_offset1 d')) (db_bytes d') = bytes_of (rq_body request))
    \<and> bp_conversationId (requestMessage env cfg c messageId request) = be_uuid2string env c
    \<and> bp_messageId (requestMessage env cfg c messageId request) = be_uuid2string env messageId
    \<and> (\<exists>headers. map_of headers = map_of (rq_headers request) \<and> distinct (map fst headers)
        \<and> bp_passThroughUserData (requestMessage env cfg c messageId request) = Some (be_requestPayload env
            \<lparr>rm_method = rq_method request, rm_urlPath = rq_uri request, rm_headers = headers\<rparr>))
    \<and> bp_principalIdentityInfo (requestMessage env cfg c messageId request) =
        (let token = (case find (\<lambda>h. iequals (be_strings env) (fst h) ''Cookie'') (rq_headers request) of
               None \<Rightarrow> bc_tokenDataDefault cfg
             | Some (_, cookies) \<Rightarrow> (let allowed = filter (token_cookie (bc_tokenCookieNames cfg))
                   (map (trim_ws (be_strings env)) (split_on (be_strings env) CHR '';'' cookies))
                 in if allowed = [] then bc_tokenDataDefault cfg else joined CHR '';'' allowed))
         in if bc_tokenTypeDefault cfg = [] \<or> token = [] then None
            else Some \<lparr>pi_authenticationToken = Some \<lparr>at_type = bc_tokenTypeDefault cfg, at_data = token\<rparr>, pi_securityPrincipal = None\<rparr>)"
proof -
  let ?m = "requestMessage env cfg c messageId request"
  have "verifyBrokerProtocolMessage ?m = Inr ()"
    using assms(8,9) by (simp add: requestMessage_def createBrokerProtocolMessage_def verifyBrokerProtocolMessage_def
        messageType_tryToEnum_def verifyRequiredProperty_def verifyPrincipal_def)
  note read = read_protocol [OF _ _ _ assms(7) this]
  have "case prepareMessageDataBlock env cfg s c messageId request d of
      (Inl e, _) \<Rightarrow> e = BufferTooSmall \<and> capacity d < length (bytes_of (rq_body request) @ js_protocol (be_json env) ?m)
    | (Inr _, d') \<Rightarrow> deserializeBlockToObjects (be_json env) True d' = Inr (?m, None)
        \<and> take (unat (db_offset1 d')) (db_bytes d') = bytes_of (rq_body request)"
  proof (cases "length (bytes_of (rq_body request) @ js_protocol (be_json env) ?m) \<le> capacity d")
    case True
    then obtain d' where "prepareMessageDataBlock env cfg s c messageId request d = (Inr (), d')" "wf_block d'"
      "db_bytes d' = bytes_of (rq_body request) @ js_protocol (be_json env) ?m"
      "unat (db_offset1 d') = length (bytes_of (rq_body request))"
      using prepare_block [OF assms(2-6)] by auto
    then show ?thesis using read by simp
  next
    case False
    then have "fst (prepareMessageDataBlock env cfg s c messageId request d) = Inl BufferTooSmall"
      using prepare_block [OF assms(2-6)] by simp
    then show ?thesis using False by (cases "prepareMessageDataBlock env cfg s c messageId request d") auto
  qed
  moreover have "bp_conversationId ?m = be_uuid2string env c" "bp_messageId ?m = be_uuid2string env messageId"
    by (simp_all add: requestMessage_def createBrokerProtocolMessage_def)
  moreover have "\<exists>headers. map_of headers = map_of (rq_headers request) \<and> distinct (map fst headers)
      \<and> bp_passThroughUserData ?m = Some (be_requestPayload env
          \<lparr>rm_method = rq_method request, rm_urlPath = rq_uri request, rm_headers = headers\<rparr>)"
    using emplaced_headers [of "rq_headers request" "[]"]
    by (intro exI [of _ "rm_headers (requestMetadata request)"]) (simp add: requestMessage_def requestMetadata_def)
  moreover have "bp_principalIdentityInfo ?m = (let token = br_tokenData (be_strings env) cfg (rq_headers request) in
      if bc_tokenTypeDefault cfg = [] \<or> token = [] then None
      else Some \<lparr>pi_authenticationToken = Some \<lparr>at_type = bc_tokenTypeDefault cfg, at_data = token\<rparr>, pi_securityPrincipal = None\<rparr>)"
    by (simp add: requestMessage_def createBrokerProtocolMessage_def Let_def)
  ultimately show ?thesis by (simp only: token_of_cookies simp_thms)
qed

section \<open>Responses\<close>




section \<open>Requests in flight\<close>

text \<open>
  C36 Every waiting request is completed at most once and is never forgotten: in every reachable state a
  request waits exactly when its callback is in the table of requests in flight or is about to be
  called, never both; no callback is called twice or pending twice, whatever the interleaving of
  messages, both timers, cancellations, ends of tasks and disposal; and entries that nobody registered,
  which any message can create, are bounded.
\<close>
theorem br_exactly_once:
  assumes "bridge_reach env cfg s"
  shows "(bs_phase s c = Some Waiting \<longleftrightarrow> waits (br_requestsInFlight (bs_bridge s)) c \<or> c \<in> fst ` set (bs_calls s))
    \<and> \<not> (waits (br_requestsInFlight (bs_bridge s)) c \<and> c \<in> fst ` set (bs_calls s))
    \<and> distinct (map fst (bs_calls s @ bs_called s))
    \<and> card (unregistered (br_requestsInFlight (bs_bridge s))) \<le> MAX_REQUESTS_IN_FLIGHT"
proof -
  have i: "bridge_inv env cfg s" by (rule bridge_reach_inv [OF assms])
  have c: "\<And>c. bs_phase s c = Some Waiting \<longleftrightarrow> waits (br_requestsInFlight (bs_bridge s)) c \<or> c \<in> fst ` set (bs_calls s)"
    "distinct (map fst (bs_calls s))" "\<And>c. c \<in> fst ` set (bs_calls s) \<Longrightarrow> \<not> waits (br_requestsInFlight (bs_bridge s)) c"
    using i unfolding bridge_inv_def callbacks_ok_def Let_def by blast+
  have "history_ok s" using i by (simp add: bridge_inv_def)
  then have h1: "distinct (map fst (bs_called s))" unfolding history_ok_def by (elim conjE)
  have h2: "\<forall>c \<in> fst ` set (bs_called s). bs_phase s c = None \<or> (\<exists>ok. bs_phase s c = Some (Ended ok))"
    using \<open>history_ok s\<close> unfolding history_ok_def by (elim conjE)
  have "x \<notin> fst ` set (bs_called s)" if "x \<in> fst ` set (bs_calls s)" for x
  proof
    assume "x \<in> fst ` set (bs_called s)"
    from bspec [OF h2 this] have "bs_phase s x \<noteq> Some Waiting" by (elim disjE exE) simp_all
    then show False using c(1) [of x] that by blast
  qed
  then have "set (map fst (bs_calls s)) \<inter> set (map fst (bs_called s)) = {}" unfolding list.set_map by blast
  then have "distinct (map fst (bs_calls s @ bs_called s))" using c(2) h1 unfolding map_append distinct_append by blast
  moreover have "card (unregistered (br_requestsInFlight (bs_bridge s))) \<le> MAX_REQUESTS_IN_FLIGHT"
    using inv_bridge(1) [OF i] unfolding table_ok_def by blast
  ultimately show ?thesis using c(1,3) by blast
qed

text \<open>
  C37 A client gets only what was sent to it: every response that the bridge gives for a request carries,
  byte for byte, the payload of a message that arrived with the conversation id of that request, and
  when authentication is required, from a sender with a security principal, namely the expected one
  if one is configured.
\<close>
theorem br_response_provenance:
  assumes "bridge_reach env cfg s" "(c, r) \<in> set (bs_responses s)"
  shows "\<exists>d \<in> set (bs_incoming s). \<exists>m. deserializeBlockToObjects (be_json env) True d = Inr (m, None)
    \<and> be_string2uuid env (bp_conversationId m) = Inr c
    \<and> rs_content r = text_of (take (unat (db_offset1 d)) (db_bytes d))
    \<and> (bc_serverAuthenticationRequired cfg \<longrightarrow> (\<exists>info p. bp_principalIdentityInfo m = Some info \<and> pi_securityPrincipal info = Some p
         \<and> (bc_expectedSecurityId cfg = [] \<or> to_lower (be_strings env) (sp_sid p) = bc_expectedSecurityId cfg)))"
proof -
  have "answers_ok env cfg s" using bridge_reach_inv [OF assms(1)] by (simp add: bridge_inv_def)
  then obtain d order where d: "d \<in> set (bs_incoming s)" "answers env cfg c d" "responseOfMessage env order d = Inr r"
    using assms(2) unfolding answers_ok_def by blast
  obtain m where m: "wf_block d" "deserializeBlockToObjects (be_json env) True d = Inr (m, None)"
    "be_string2uuid env (bp_conversationId m) = Inr c" "isAccepted env cfg m"
    using d(2) unfolding answers_def by blast
  have "unat (db_offset1 d) \<le> unat (db_size d)" using wf_lengths(4) [OF m(1)] .
  then have t: "take (unat (db_offset1 d)) (db_data d) = take (unat (db_offset1 d)) (db_bytes d)"
    unfolding db_bytes_def take_take by (simp only: min.absorb1)
  have n: "rs_content x = content" if "new_response H order status content ct hs = Inr x" for H order status content ct hs x
    using that by (auto simp: new_response_def bindR_eq_Inr)
  have "rs_content r = text_of (take (unat (db_offset1 d)) (db_data d))"
    using d(3) n by (auto simp: responseOfMessage_def bindR_eq_Inr copyFrom_def split: if_splits option.splits)
  moreover have "bc_serverAuthenticationRequired cfg \<longrightarrow> (\<exists>info p. bp_principalIdentityInfo m = Some info \<and> pi_securityPrincipal info = Some p
         \<and> (bc_expectedSecurityId cfg = [] \<or> to_lower (be_strings env) (sp_sid p) = bc_expectedSecurityId cfg))"
    using m(4) by (auto simp: isAccepted_def split: option.splits)
  ultimately show ?thesis using d(1) m t by auto
qed

text \<open>
  C38 No request waits longer than its timeout for the pruning timer: when the timer runs at a time by
  which the timeout of a registered request has passed, the request is taken out of the table and its
  completion with an error is on its way, and the call ends the request; what the timer leaves in
  the table has not expired.  Disposal does the same for every request, and none can be
  registered after it.
\<close>
theorem br_timeouts:
  assumes "bridge_reach env cfg s" "\<forall>k. now \<le> clock k"
    "map_of (br_requestsInFlight (bs_bridge s)) c = Some info" "in_callback info \<noteq> None"
  shows "(bc_requestTimeout cfg < now - in_utcRegisteredAt info \<longrightarrow>
        (\<exists>i < length (bs_calls (bridge_act env cfg s (BTimer connected clock))).
           bs_calls (bridge_act env cfg s (BTimer connected clock)) ! i = (c, False)
           \<and> bs_phase (bridge_act env cfg (bridge_act env cfg s (BTimer connected clock)) (BCall i)) c = Some (Ended False)))
    \<and> (\<forall>k x. map_of (br_requestsInFlight (bs_bridge (bridge_act env cfg s (BTimer connected clock)))) k = Some x \<longrightarrow> \<not> isExpired cfg now x)
    \<and> (\<exists>i < length (bs_calls (bridge_act env cfg s BDispose)). bs_calls (bridge_act env cfg s BDispose) ! i = (c, False))
    \<and> br_requestsInFlight (bs_bridge (bridge_act env cfg s BDispose)) = []
    \<and> fst (registerRequest k k now (bs_bridge (bridge_act env cfg s BDispose))) = Inl UnexpectedExc"
proof -
  have i: "bridge_inv env cfg s" by (rule bridge_reach_inv [OF assms(1)])
  note b = inv_bridge [OF i]
  let ?t = "br_requestsInFlight (bs_bridge s)"
  have own: "in_isRegistered info" "waits ?t c" using b(1) assms(3,4) unfolding table_ok_def waits_def by blast+
  have mono: "isExpired cfg now x \<Longrightarrow> isExpired cfg (clock k) x" for x k
    using assms(2) [rule_format, of k] by (simp add: isExpired_def)
  obtain calls b' where tm: "br_onTimer cfg connected clock (bs_bridge s) = (calls, b')" by force
  obtain t n where t: "b' = (bs_bridge s)\<lparr>br_requestsInFlight := t, br_cancelsServer := n\<rparr>"
    "drains (\<lambda>k x. False) ?t t calls" "\<forall>k \<in> set calls. \<not> snd k"
    "\<forall>c info. map_of t c = Some info \<longrightarrow> map_of ?t c = Some info \<and> (\<exists>i < length ?t. \<not> isExpired cfg (clock i) info)"
    using drains_timer [OF tm b(1,2)] by blast
  have act: "bridge_act env cfg s (BTimer connected clock) = withCalls calls b' s" by (simp add: tm)
  have left: "map_of t k = Some x \<Longrightarrow> \<not> isExpired cfg now x" for k x using t(4) mono by blast
  have pending: "\<exists>i < length (bs_calls s @ cs). (bs_calls s @ cs) ! i = (c, False)"
    if "c \<in> fst ` set cs" "\<forall>k \<in> set cs. \<not> snd k" for cs
  proof -
    have "(c, False) \<in> set (bs_calls s @ cs)" using that by force
    then show ?thesis by (simp only: in_set_conv_nth)
  qed
  have timer: "\<exists>i < length (bs_calls (withCalls calls b' s)). bs_calls (withCalls calls b' s) ! i = (c, False)"
    if "bc_requestTimeout cfg < now - in_utcRegisteredAt info"
  proof -
    have "isExpired cfg now info" using that own(1) by (simp add: isExpired_def)
    then have "map_of t c = None" using left t(4) assms(3) by (metis option.exhaust option.inject)
    then have "c \<in> fst ` set calls" using t(2) own(2) unfolding drains_def by (simp add: waits_def)
    then show ?thesis using pending t(3) by (simp add: withCalls_def)
  qed
  obtain calls2 b2 where d: "bridge_dispose (bs_bridge s) = (calls2, b2)" by force
  note D = drains_dispose [OF d b]
  have "c \<in> fst ` set calls2" using D own(2) unfolding drains_def by (simp add: waits_def)
  then have disp: "\<exists>i < length (bs_calls (withCalls calls2 b2 s)). bs_calls (withCalls calls2 b2 s) ! i = (c, False)"
    using pending D by (simp add: withCalls_def)
  have "fst (registerRequest k k now b2) = Inl UnexpectedExc" using D by (simp add: registerRequest_def br_chkIfDisposed_def)
  moreover have "bs_phase (bridge_act env cfg s1 (BCall i)) c = Some (Ended False)" if "bs_calls s1 ! i = (c, False)" for s1 i
    using that by (simp add: setPhase_def)
  moreover have "bridge_act env cfg s BDispose = withCalls calls2 b2 s" by (simp add: d)
  moreover have "br_requestsInFlight b' = t" by (simp add: t(1))
  moreover have "br_requestsInFlight b2 = []" using D by blast
  ultimately show ?thesis using timer disp left unfolding act by (simp only: withCalls_simps) blast
qed

section \<open>A run\<close>

text \<open>A request, and the message that answers it: a protocol document without payload.\<close>

definition demo_protocol :: "unit broker_protocol" where
  "demo_protocol = \<lparr>bp_messageType = ''AsyncRpcDispatch'', bp_messageId = ''m'', bp_conversationId = ''c'', bp_sourcePeerId = [],
     bp_targetPeerId = [], bp_principalIdentityInfo = None, bp_passThroughUserData = Some ()\<rparr>"

definition demo_bridge_env :: "(unit, unit) bridge_env" where
  "demo_bridge_env = \<lparr>be_json = \<lparr>js_protocol = (\<lambda>m. [1]), js_parseProtocol = (\<lambda>bs. Inr demo_protocol), js_payload = (\<lambda>p. [2]),
       js_parsePayload = (\<lambda>bs. Inr ()), js_isRequest = (\<lambda>p. True), js_isResponse = (\<lambda>p. True)\<rparr>,
     be_strings = reference_strings, be_uuid2string = (\<lambda>u. if u = 1 then ''c'' else ''m''), be_string2uuid = (\<lambda>s. Inr 1),
     be_requestPayload = (\<lambda>r. ()),
     be_responsePayload = (\<lambda>u. Inr (Some \<lparr>pm_httpStatusCode = 201, pm_contentType = ''text/plain'', pm_headers = [(''X-A'', ''b'')]\<rparr>))\<rparr>"

definition demo_bridge_config :: bridge_config where
  "demo_bridge_config = new_bridge_config reference_strings 5 6 [''t''] [] [] None False [] False"

definition demo_request :: http_request where
  "demo_request = \<lparr>rq_method = ''GET'', rq_uri = ''/a'', rq_headers = [], rq_body = []\<rparr>"

definition empty_block :: data_block where
  "empty_block = \<lparr>db_data = [0, 0, 0, 0], db_capacity = 4, db_size = 0, db_freed = False, db_offset1 = 0\<rparr>"

definition reply_block :: data_block where
  "reply_block = \<lparr>db_data = [104, 105, 1, 0], db_capacity = 4, db_size = 3, db_freed = False, db_offset1 = 2\<rparr>"

definition demo_bridge :: "requests_map \<Rightarrow> request_phase \<Rightarrow> callback_calls \<Rightarrow> callback_calls \<Rightarrow> data_block list \<Rightarrow> bridge_system" where
  "demo_bridge t p calls called incoming = \<lparr>bs_bridge = new_bridge\<lparr>br_requestsInFlight := t\<rparr>, bs_phase = [1 \<mapsto> p], bs_known = {1},
     bs_calls = calls, bs_called = called, bs_cancelling = [], bs_incoming = incoming, bs_responses = []\<rparr>"

definition demo_info :: "conversation_id option \<Rightarrow> data_block option \<Rightarrow> request_info" where
  "demo_info callback d = \<lparr>in_callback = callback, in_response = d, in_utcRegisteredAt = 0, in_isRegistered = True\<rparr>"

abbreviation demo_reach :: "bridge_system \<Rightarrow> bool" where
  "demo_reach \<equiv> bridge_reach demo_bridge_env demo_bridge_config"

lemma bridge_step:
  assumes "bridge_reach env cfg s" "bridge_enabled s a" "bridge_act env cfg s a = s'"
  shows "bridge_reach env cfg s'"
  using bridge_reach.step [OF assms(1,2)] assms(3) by simp

definition prepared_block :: data_block where
  "prepared_block = \<lparr>db_data = [1, 0, 0, 0], db_capacity = 4, db_size = 1, db_freed = False, db_offset1 = 0\<rparr>"

lemma demo_prepare:
  "prepareMessageDataBlock demo_bridge_env demo_bridge_config (new_bridge\<lparr>br_requestsInFlight := []\<rparr>) 1 2 demo_request empty_block
    = (Inr (), prepared_block)"
  by (simp add: prepareMessageDataBlock_def br_chkIfDisposed_def new_bridge_def demo_request_def db_write_def copyTo_def
      empty_block_def demo_bridge_env_def prepared_block_def)

lemma demo_waiting: "demo_reach (demo_bridge [(1, demo_info (Some 1) None)] Waiting [] [] [])"
proof -
  have 1: "demo_reach (demo_bridge [] (Running PrepareMessageTask demo_request empty_block) [] [] [])"
    by (rule bridge_step [OF bridge_reach.start, where a = "BRequest 1 demo_request empty_block"])
      (simp_all add: bridge_enabled_def bridge_start_def wf_block_def empty_block_def bridge_chkIfDisposed_def br_chkIfDisposed_def
        new_bridge_def setPhase_def demo_bridge_def)
  have 2: "demo_reach (demo_bridge [] (Running SendMessageTask demo_request prepared_block) [] [] [])"
    by (rule bridge_step [OF 1, where a = "BPrepare 1 2"])
      (simp_all add: bridge_enabled_def demo_bridge_def demo_prepare setPhase_def nextPhase_def ld_continuationTask_def)
  have 3: "demo_reach (demo_bridge [] (Running WaitingResponse demo_request prepared_block) [] [] [])"
    by (rule bridge_step [OF 2, where a = "BSend 1 True"])
      (simp_all add: bridge_enabled_def demo_bridge_def setPhase_def nextPhase_def ld_continuationTask_def)
  show ?thesis
    by (rule bridge_step [OF 3, where a = "BRegister 1 False 0"])
      (simp_all add: bridge_enabled_def demo_bridge_def setPhase_def registerRequest_def br_chkIfDisposed_def new_bridge_def
        new_request_info_def demo_info_def)
qed

lemma demo_answered: "demo_reach (demo_bridge [(1, demo_info None (Some reply_block))] (Ended True) [] [(1, True)] [reply_block])"
proof -
  have p: "deserializeBlockToObjects (be_json demo_bridge_env) True reply_block = Inr (demo_protocol, None)"
    by (simp add: deserializeBlockToObjects_def demo_bridge_env_def reply_block_def demo_protocol_def verifyBrokerProtocolMessage_def
        messageType_tryToEnum_def verifyRequiredProperty_def)
  have u: "be_string2uuid demo_bridge_env x = Inr 1" for x by (simp add: demo_bridge_env_def)
  have w: "wf_block reply_block" by (simp add: wf_block_def reply_block_def)
  have 1: "demo_reach (demo_bridge [(1, demo_info None (Some reply_block))] Waiting [(1, True)] [] [reply_block])"
    by (rule bridge_step [OF demo_waiting, where a = "BIncoming reply_block 0"])
      (simp_all add: bridge_enabled_def demo_bridge_def processIncomingMessage_def p w u withCalls_def demo_bridge_config_def
        new_bridge_config_def isAccepted_def completeRequest_def completeRequestInternal_def br_chkIfDisposed_def new_bridge_def
        demo_info_def MAX_REQUESTS_IN_FLIGHT_def)
  show ?thesis
    by (rule bridge_step [OF 1, where a = "BCall 0"]) (simp_all add: bridge_enabled_def demo_bridge_def setPhase_def)
qed

section \<open>Witnesses\<close>

definition cookie_request :: http_request where
  "cookie_request = \<lparr>rq_method = ''PUT'', rq_uri = ''/a'', rq_headers = [(''Cookie'', ''x=1; t=2'')], rq_body = ''h''\<rparr>"

definition token_config :: bridge_config where
  "token_config = demo_bridge_config\<lparr>bc_tokenTypeDefault := ''sso''\<rparr>"

definition echo_env :: "(unit, unit) bridge_env" where
  "echo_env = demo_bridge_env\<lparr>be_json := (be_json demo_bridge_env)
     \<lparr>js_parseProtocol := (\<lambda>bs. Inr (requestMessage demo_bridge_env token_config 1 2 cookie_request))\<rparr>\<rparr>"

lemma br_request_message_witness:
  "(\<exists>d'. prepareMessageDataBlock echo_env token_config new_bridge 1 2 cookie_request empty_block = (Inr (), d')
      \<and> take (unat (db_offset1 d')) (db_bytes d') = [104])
    \<and> bp_principalIdentityInfo (requestMessage echo_env token_config 1 2 cookie_request)
        = Some \<lparr>pi_authenticationToken = Some \<lparr>at_type = ''sso'', at_data = ''t=2''\<rparr>, pi_securityPrincipal = None\<rparr>"
proof -
  have m: "requestMessage echo_env token_config 1 2 cookie_request = requestMessage demo_bridge_env token_config 1 2 cookie_request"
    by (simp add: requestMessage_def echo_env_def)
  have e: "be_strings echo_env = reference_strings" "js_protocol (be_json echo_env) x = [1]"
    "js_parseProtocol (be_json echo_env) bs = Inr (requestMessage echo_env token_config 1 2 cookie_request)"
    "be_uuid2string echo_env 1 = ''c''" "be_uuid2string echo_env 2 = ''m''" for x bs
    unfolding m by (simp_all add: echo_env_def demo_bridge_env_def)
  have b: "\<not> br_isDisposed new_bridge" "wf_block empty_block" "db_bytes empty_block = []" "db_offset1 empty_block = 0"
    "capacity empty_block = 4" "bytes_of (rq_body cookie_request) = [104]"
    by (simp_all add: new_bridge_def wf_block_def db_bytes_def empty_block_def capacity_def bytes_of_def cookie_request_def)
  have H: "http_boost (be_strings echo_env)" unfolding e(1) by (rule refh.http_boost_axioms)
  have co: "coexist empty_block (length (bytes_of (rq_body cookie_request))
      + length (js_protocol (be_json echo_env) (requestMessage echo_env token_config 1 2 cookie_request)))"
    unfolding b(6) by (simp add: coexist_def b(5) e(2))
  note T = br_request_message [OF H b(1-4) co e(3)]
  have allowed: "filter (token_cookie [''t'']) (map trim_ref (split_ref CHR '';'' ''x=1; t=2'')) = [''t=2'']"
  proof -
    have "map trim_ref (split_ref CHR '';'' ''x=1; t=2'') = [''x=1'', ''t=2'']" by (simp add: trim_ref_def space_ref_def)
    moreover have "\<not> token_cookie [''t''] ''x=1''" "token_cookie [''t''] ''t=2''"
      unfolding token_cookie_def token_value by simp_all
    ultimately show ?thesis by simp
  qed
  have names: "bc_tokenCookieNames token_config = [''t'']" "bc_tokenTypeDefault token_config = ''sso''"
    by (simp_all add: token_config_def demo_bridge_config_def new_bridge_config_def)
  have found: "find (\<lambda>h. iequals reference_strings (fst h) ''Cookie'') (rq_headers cookie_request) = Some (''Cookie'', ''x=1; t=2'')"
    "trim_ws reference_strings = trim_ref" "split_on reference_strings = split_ref"
    by (simp_all add: cookie_request_def reference_strings_def)
  have ne: "be_uuid2string echo_env 1 \<noteq> []" "be_uuid2string echo_env 2 \<noteq> []" unfolding e(4,5) by simp_all
  have "bp_principalIdentityInfo (requestMessage echo_env token_config 1 2 cookie_request)
      = Some \<lparr>pi_authenticationToken = Some \<lparr>at_type = ''sso'', at_data = ''t=2''\<rparr>, pi_securityPrincipal = None\<rparr>"
    using T [OF ne, THEN conjunct2, THEN conjunct2, THEN conjunct2, THEN conjunct2]
    unfolding e(1) names found option.case prod.case allowed by simp
  moreover have "case prepareMessageDataBlock echo_env token_config new_bridge 1 2 cookie_request empty_block of
      (Inl e, _) \<Rightarrow> False | (Inr _, d') \<Rightarrow> take (unat (db_offset1 d')) (db_bytes d') = [104]"
    using T [OF ne, THEN conjunct1] unfolding b(5,6) e(2) by (simp split: prod.splits sum.splits)
  ultimately show ?thesis by (auto split: prod.splits sum.splits)
qed

lemma answer_facts:
  "db_bytes reply_block = [104, 105] @ js_protocol (be_json demo_bridge_env) demo_protocol"
  "unat (db_offset1 reply_block) = length [104 :: byte, 105]" "wf_block reply_block"
  "js_parseProtocol (be_json demo_bridge_env) (js_protocol (be_json demo_bridge_env) demo_protocol) = Inr demo_protocol"
  "verifyBrokerProtocolMessage demo_protocol = Inr ()" "bp_passThroughUserData demo_protocol = Some ()"
  "be_responsePayload demo_bridge_env () = Inr (Some \<lparr>pm_httpStatusCode = 201, pm_contentType = ''text/plain'', pm_headers = [(''X-A'', ''b'')]\<rparr>)"
  "be_strings demo_bridge_env = reference_strings"
  by (simp_all add: reply_block_def db_bytes_def wf_block_def demo_bridge_env_def demo_protocol_def verifyBrokerProtocolMessage_def
      messageType_tryToEnum_def verifyRequiredProperty_def)

lemma answer_header:
  "chkCustomHeader reference_strings ''X-A'' ''b'' = Inr ()" "\<not> iequals reference_strings ''X-A'' ''Content-Type''"
  by (simp_all add: chkCustomHeader_def reference_strings_def isValidName_def isValidValue_def isChar_def isCtl_def isTSpecial_def
      toLowerAscii_def less_eq_char_def char_of_def bit_Suc_0_iff)


lemma br_exactly_once_witness: "waits [(1, demo_info (Some 1) None)] 1"
  using br_exactly_once [OF demo_waiting, of 1] by (simp add: demo_bridge_def)

lemma demo_response: "\<exists>r. responseOfMessage demo_bridge_env id reply_block = Inr r"
proof -
  note a = answer_facts
  have d: "deserializeBlockToObjects (be_json demo_bridge_env) True reply_block = Inr (demo_protocol, None)"
    by (rule read_protocol [OF a(3,1,2,4,5)])
  have "\<exists>x. copyFrom 0 (unat (db_offset1 reply_block)) (db_data reply_block) = Inr x" by (simp add: copyFrom_def reply_block_def)
  moreover have "responseHeaders reference_strings ''text/plain'' [(''X-A'', ''b'')] [] = Inr [(''X-A'', ''b'')]"
    using answer_header by (simp add: emplaceHeader_def)
  moreover have "\<exists>r. new_response reference_strings id status content ''text/plain'' [(''X-A'', ''b'')] = Inr r" for status content
    unfolding new_response_def required_headers using answer_header by (simp add: emplaceHeader_def server_headers_def)
  ultimately show ?thesis by (auto simp: responseOfMessage_def d a)
qed

lemma br_response_provenance_witness:
  "\<exists>s r. bridge_reach demo_bridge_env demo_bridge_config s \<and> (1, r) \<in> set (bs_responses s)
     \<and> rs_content r = text_of (take 2 (db_bytes reply_block))"
proof -
  let ?s = "demo_bridge [(1, demo_info None (Some reply_block))] (Ended True) [] [(1, True)] [reply_block]"
  obtain r where r: "responseOfMessage demo_bridge_env id reply_block = Inr r" using demo_response by blast
  let ?s' = "bridge_act demo_bridge_env demo_bridge_config ?s (BRespond 1 id 0)"
  have reach: "bridge_reach demo_bridge_env demo_bridge_config ?s'"
    by (rule bridge_reach.step [OF demo_answered]) (simp add: bridge_enabled_def demo_bridge_def)
  have s': "bs_responses ?s' = [(1, r)]" "bs_incoming ?s' = [reply_block]"
    using r by (simp_all add: demo_bridge_def getResponse_def bridge_chkIfDisposed_def getHttpResponse_def br_chkIfDisposed_def new_bridge_def
        closeRequest_def completeRequestInternal_def MAX_REQUESTS_IN_FLIGHT_def demo_info_def withCalls_def)
  then obtain s where s: "bridge_reach demo_bridge_env demo_bridge_config s" "bs_responses s = [(1, r)]" "bs_incoming s = [reply_block]"
    using reach by blast
  then have "(1, r) \<in> set (bs_responses s)" by simp
  from br_response_provenance [OF s(1) this] s(3) answer_facts(2) have "rs_content r = text_of (take 2 (db_bytes reply_block))"
    by (auto simp: numeral_2_eq_2)
  then show ?thesis using s by fastforce
qed

lemma br_timeouts_witness:
  "\<exists>i < length (bs_calls (bridge_act demo_bridge_env demo_bridge_config
      (demo_bridge [(1, demo_info (Some 1) None)] Waiting [] [] []) (BTimer True (\<lambda>_. 1000)))).
    bs_calls (bridge_act demo_bridge_env demo_bridge_config
      (demo_bridge [(1, demo_info (Some 1) None)] Waiting [] [] []) (BTimer True (\<lambda>_. 1000))) ! i = (1, False)"
proof -
  have "bc_requestTimeout demo_bridge_config < 1000"
    by (simp add: demo_bridge_config_def new_bridge_config_def DEFAULT_REQUEST_TIMEOUT_IN_SECONDS_def)
  then show ?thesis
    using br_timeouts [OF demo_waiting, of 1000 "\<lambda>_. 1000" 1 "demo_info (Some 1) None" True 2]
    by (simp add: demo_bridge_def demo_info_def del: bridge_act.simps) blast
qed

end
