(* ===== verification/Spec2Isabelle.thy ===== *)
theory Spec2Isabelle
  imports UriProps EqSysProps TaskLifecycle HttpProps HeaderProps AuthCacheProps DataBlockProps TemplateProps
    FsMetadataProps EndpointProps AsyncProps ObservableProps ObservableStrand ChunkProps
    MessagesProps ProxyProps BridgeProps
begin

text \<open>
  This development models the core of the swblocks base library (\<open>src/src/include/baselib\<close>), a C++
  library of tasks, execution queues, messaging and HTTP, and proves what makes it correct.

  \<^bold>\<open>The program.\<close>  Work is done by tasks.  A task (\<open>tasks/TaskBase.h\<close>) is scheduled by an execution
  queue (\<open>tasks/ExecutionQueueImpl.h\<close>), runs on a thread of a pool, and reports that it is ready
  through a callback, which the queue uses to retire it, to schedule its continuation and pending
  tasks and to wake the threads that wait.  The asynchronous executor (\<open>async/AsyncExecutorImpl.h\<close>) runs
  the calls of many operations on a bounded queue of worker tasks.  An observable
  (\<open>reactive/ObservableBase.h\<close>) is a timer task that pushes events to one stranded execution queue per
  subscription, from which observers are called.  Queues reuse their bookkeeping objects with a pool
  (\<open>core/Pool.h\<close>), and so do all components with their data blocks (\<open>data/DataBlock.h\<close>), which
  a chunk storage keeps on disk (\<open>messaging/DataChunkStorageFilesystem.h\<close>).  Peers exchange messages
  in such blocks (\<open>messaging/MessagingUtils.h\<close>) through brokers; a proxy
  (\<open>messaging/ProxyBrokerBackendProcessingFactory.h\<close>) forwards the messages of its clients over several
  connections to a broker, which it must first tell which peers are behind it.  The HTTP
  server parses requests incrementally (\<open>httpserver/Parser.h\<close>) and writes responses
  (\<open>httpserver/Response.h\<close>); a bridge (\<open>rest/HttpServerBackendMessagingBridge.h\<close>) turns its requests into
  messages and the messages that answer them into responses.  Clients use URI references
  (\<open>core/Uri.h\<close>), header lists (\<open>http/HeaderList.h\<close>) and endpoint iterators
  (\<open>core/EndpointSelectorImpl.h\<close>).  Requests are authorized with a cache
  (\<open>security/AuthorizationCacheImpl.h\<close>), files are transferred by their metadata
  (\<open>data/FilesystemMetadataInMemoryImpl.h\<close>), and configuration is expanded from templates
  (\<open>core/StringTemplateResolver.h\<close>).

  \<^bold>\<open>The theories.\<close>  Each component has a theory with its state and operations in the order of the code,
  and one with its properties.

    \<^item> \<open>Prelude\<close>: errors as values (one constructor per exception class and kind of assertion), the
      sequencing of fallible computations, searches in strings.
    \<^item> \<open>Pool\<close>: \<open>SimplePool\<close>, its checkers and \<open>SimpleTaggedPool\<close>.  The locale of a checker is
      interpreted for the naive and the intrusive one; both give the same behaviour.
    \<^item> \<open>TaskBase\<close>: the interface of a task and its base class; \<open>TaskLifecycle\<close>: the step relation of
      its life, with the invariant and the properties.
    \<^item> \<open>ExecutionQueue\<close>, \<open>ExecutionQueueOps\<close>: the queue, one definition per member function.
      \<open>EqInvariant\<close> and \<open>EqPreserve\<close> hold the structural invariant and the abstract queue of three
      lists that every operation refines; \<open>EqPush\<close>, \<open>EqOnReady\<close> and \<open>EqBlocking\<close> the
      operations as total functions under the contracts of tasks and event listeners; \<open>EqSystem\<close> the
      concurrent system in which a step is one critical section of one thread; \<open>EqEvents\<close> the
      invariants of its reachable states; \<open>EqRuns\<close> schedules that can be evaluated; \<open>EqProps\<close> and
      \<open>EqSysProps\<close> the properties.
    \<^item> \<open>AsyncExecutor\<close>: the asynchronous executor, one definition per critical section, over the abstract
      queue that the execution queue refines; \<open>AsyncSystem\<close>: its threads and clients as actions, the
      contract of the clients and the invariant; \<open>AsyncInvariant\<close>, \<open>AsyncActions\<close>: every action keeps
      the invariant and reduces the work that is left; \<open>AsyncProps\<close>: safety, callbacks called once,
      coming to rest, and two uses that the executor does not survive.
    \<^item> \<open>Observable\<close>: the observable and its subscriptions, one definition per member function, with the
      history of each subscription; \<open>ObservableSystem\<close>: its actions, the observer protocol and the
      invariant of a subscription; \<open>ObservableInvariant\<close>, \<open>ObservableOps\<close>, \<open>ObservableReach\<close>: the
      operations on a subscription and all actions keep the invariant; \<open>ObservableProps\<close>: the protocol,
      no value lost or reordered, the end of the task, and three runs where disposal and removal fall
      short; \<open>ObservableStrand\<close>: the locale of an events queue, provided by the execution queue.
    \<^item> \<open>UriSyntax\<close>, \<open>Uri\<close>, \<open>UriOps\<close>: the lexical layer, the parser and the operations of \<open>UriT\<close>;
      \<open>UriLemmas\<close>, \<open>UriGrammar\<close>, \<open>UriDots\<close>, \<open>UriInvariant\<close>, \<open>UriRoundtrip\<close> and \<open>UriProps\<close>: the
      canonical form of components, dot segments against a stack of segments, the class invariant,
      and that rendering and parsing are inverse.
    \<^item> \<open>HttpParser\<close>: the incremental request parser; \<open>HttpChunks\<close>, \<open>HttpProps\<close>: it does not depend on
      how the stream is cut, and what an accepted request satisfies.
    \<^item> \<open>HttpResponse\<close>, \<open>HttpResponseProps\<close>: responses and their text, which reads back as what was asked for.
    \<^item> \<open>HeaderList\<close>, \<open>HeaderProps\<close>: the header list and its conversions to and from a map.
    \<^item> \<open>AuthCache\<close>, \<open>AuthCacheProps\<close>: the cache with its freshness and its bound; a lookup is
      explained by the history of the calls.
    \<^item> \<open>Numbers\<close>: conversions between integer types; \<open>DataBlock\<close>, \<open>DataBlockProps\<close>: the buffer with
      64-bit sizes that wrap, as a queue of bytes, and its use of a pool.
    \<^item> \<open>ChunkStorage\<close>: the storages of data chunks on a file system; \<open>ChunkContract\<close>: the operations of
      a client, the map they are measured against and the locale of a provider; \<open>ChunkStorageProps\<close>:
      the file as a sequence of records, and the interpretations of the contract by both storages;
      \<open>ChunkProps\<close>: refinement, equivalence, arbitrary files, and writes that fail.
    \<^item> \<open>Messages\<close>, \<open>MessagesProps\<close>: the messages of the broker in blocks, with the text of JSON objects
      as an argument, and the rotating dispatch: round trips, filling in peers, round robin.
    \<^item> \<open>Proxy\<close>: the shared state of the proxy, one definition per member function; \<open>ProxySystem\<close>: the
      proxy with its timer, peers, connections and tasks as actions, where letting a message through and
      pushing it are separate steps, and the history of delivered associate messages; \<open>ProxyInvariant\<close>, \<open>ProxyReach\<close>: the invariant and that every action keeps
      it; \<open>ProxyProps\<close>: associations were delivered, messages are let through only behind
      them, a run where the connection is replaced before the push, blocks are accounted for, stale
      clients are pruned, and what disposal leaves undone.
    \<^item> \<open>Bridge\<close>: the bridge from HTTP to messaging; \<open>BridgeSystem\<close>: its requests, timers, messages and
      the calls of callbacks as actions; \<open>BridgeTable\<close>, \<open>BridgeReach\<close>: what every critical section does to
      the table of requests in flight, and the invariant; \<open>BridgeProps\<close>: completion at most once and in
      time, where responses come from, and both conversions of requests and responses.
    \<^item> \<open>Template\<close>, \<open>TemplateProps\<close>: the parser of templates and the resolution, against a reading of the
      text as blocks of characters, variables and separators.
    \<^item> \<open>FsMetadata\<close>, \<open>FsMetadataProps\<close>: entries and chunks, and the comparison of two objects.
    \<^item> \<open>Endpoints\<close>, \<open>EndpointProps\<close>: both iterators keep the contract of a locale, a bounded
      number of retries.

  \<^bold>\<open>Correspondence.\<close>  A class is a record of its members and a member function a definition of the same
  name (with a prefix where the name is taken or too general).  An exception is the value \<open>Inl e\<close>,
  where \<open>e\<close> names its class; the text of its message is left out, or its fixed part kept
  where callers could tell messages apart.  \<open>BL_ASSERT\<close> is an error value, too, so that a theorem
  that excludes errors excludes failing assertions.  Operations that throw after changing the state
  return both.  \<open>std::size_t\<close> is a natural number where the sizes of containers bound it, and a
  64-bit word where the code computes with sizes that it received (\<open>DataBlock\<close>, \<open>HttpParser\<close>).
  Maps whose order is visible are association lists.  Clocks, fresh identifiers, allocated memory,
  and what the code takes from Boost and from virtual functions of its clients are arguments.

  \<^bold>\<open>Loops.\<close>  Every loop is a total function: by structural recursion, or with a measure that its
  termination proof shows to decrease (the distance to the end of the text for the parsers, the
  length of the remaining path for dot segments).  No model uses fuel.

  \<^bold>\<open>Not modelled.\<close>  The network tasks, the thread pool and the operating system layer are calls of
  Boost.Asio, OpenSSL and the system; logging has no effect on the state; the object model is
  reference counting, for which values stand here; the data models are generated by macros.  The
  disposal of the asynchronous executor waits for its queues and is left out.  In the observable an
  operation that flushes a queue takes effect at once where the code first waits for a running
  \<open>onNext\<close>, which admits more interleavings and the same outcomes.  The processing units built on
  the observable, the messaging clients and servers, file transfer, REST and the command line are built
  on the modelled parts and are not reached.  In the proxy the end of a push is an argument of
  its step, and the text of an associate message has one size that fits its block.
\<close>

end
